(* ===== verification/Prelude.thy ===== *)
theory Prelude
  imports Main "HOL-Library.Multiset" "HOL-Library.Product_Lexorder"
    "HOL-Library.List_Lexorder" "HOL-Library.Char_ord"
begin

section \<open>Shared vocabulary: results, orders and stable sorting\<close>

text \<open>
  What every component of the model uses: the result type of a fallible Go function, the
  interface of a Go three-way \<open>Compare\<close> (locale \<open>three_way\<close>), the interface of the
  \<open>less\<close> function handed to \<open>sort.Slice\<close> and \<open>sort.SliceStable\<close> (locale
  \<open>sort_less\<close>), and the stable sort itself.  Go strings are byte strings; they are
  compared bytewise, which is the lexicographic order of the library on \<open>char list\<close>.
\<close>

named_theorems parse_simps "unfolding rules for the string parsers of the components"
named_theorems classify_simps "unfolding rules for the tag classifiers and wheel scorers"

type_synonym bytes = "char list"

subsection \<open>Results\<close>

definition isOK :: "'e + 'a \<Rightarrow> bool" where
  "isOK r = (case r of Inl _ \<Rightarrow> False | Inr _ \<Rightarrow> True)"

lemma isOK_simps [simp]: "isOK (Inr a)" "\<not> isOK (Inl e)"
  by (simp_all add: isOK_def)

lemma isOK_iff: "isOK r \<longleftrightarrow> (\<exists>a. r = Inr a)"
  by (cases r) auto

subsection \<open>Three-way comparison\<close>

definition cmp_lin :: "'a::linorder \<Rightarrow> 'a \<Rightarrow> int" where
  "cmp_lin a b = (if a < b then -1 else if a > b then 1 else 0)"

lemma cmp_lin_refl [simp]: "cmp_lin a a = 0"
  by (simp add: cmp_lin_def)

lemma cmp_lin_simps [simp]:
  "cmp_lin a b = 0 \<longleftrightarrow> a = b" "cmp_lin a b < 0 \<longleftrightarrow> a < b" "cmp_lin a b \<le> 0 \<longleftrightarrow> a \<le> b"
  "0 < cmp_lin a b \<longleftrightarrow> b < a" "0 \<le> cmp_lin a b \<longleftrightarrow> b \<le> a"
  "cmp_lin a b = -1 \<longleftrightarrow> a < b" "cmp_lin a b = 1 \<longleftrightarrow> b < a"
  by (auto simp: cmp_lin_def)

text \<open>
  The laws a Go \<open>Compare\<close> must obey so that the operators built on its sign form an order:
  the result is \<open>-1\<close>, \<open>0\<close> or \<open>1\<close>, swapping the arguments negates it, and "not greater" is
  transitive.
\<close>

locale three_way =
  fixes cmp :: "'a \<Rightarrow> 'a \<Rightarrow> int"
  assumes cmp_range: "cmp x y \<in> {-1, 0, 1}"
    and cmp_swap: "cmp y x = - cmp x y"
    and cmp_le_trans: "cmp x y \<le> 0 \<Longrightarrow> cmp y z \<le> 0 \<Longrightarrow> cmp x z \<le> 0"
begin

lemma cmp_refl [simp]: "cmp x x = 0"
  using cmp_swap [of x x] by simp

lemma cmp_total: "cmp x y \<le> 0 \<or> cmp y x \<le> 0"
  using cmp_swap [of x y] by linarith

lemma cmp_less_trans: "cmp x y < 0 \<Longrightarrow> cmp y z \<le> 0 \<Longrightarrow> cmp x z < 0"
  using cmp_le_trans [of x y z] cmp_le_trans [of y z x] cmp_swap [of x z] cmp_swap [of x y]
  by (cases "cmp x z = 0") auto

lemma cmp_le_less_trans: "cmp x y \<le> 0 \<Longrightarrow> cmp y z < 0 \<Longrightarrow> cmp x z < 0"
  using cmp_le_trans [of x y z] cmp_le_trans [of z x y] cmp_swap [of x z] cmp_swap [of y z]
  by (cases "cmp x z = 0") auto

lemma cmp_eq_cong: "cmp x y = 0 \<Longrightarrow> cmp x z = cmp y z"
  using cmp_le_trans [of x y z] cmp_le_trans [of y x z] cmp_less_trans [of x z y]
    cmp_less_trans [of y z x] cmp_swap [of x y] cmp_swap [of x z] cmp_swap [of y z]
    cmp_range [of x z] cmp_range [of y z] cmp_le_less_trans [of x y z] cmp_le_less_trans [of y x z]
  by (auto; linarith)

lemma cmp_eq_sym: "cmp x y = 0 \<longleftrightarrow> cmp y x = 0"
  using cmp_swap [of x y] by simp

lemma cmp_eq_trans: "cmp x y = 0 \<Longrightarrow> cmp y z = 0 \<Longrightarrow> cmp x z = 0"
  using cmp_eq_cong [of x y z] by simp

end

lemma three_way_lin: "three_way (cmp_lin :: 'a::linorder \<Rightarrow> 'a \<Rightarrow> int)"
  by unfold_locales (auto simp: cmp_lin_def split: if_splits)

lemma three_way_key:
  assumes "three_way cmp"
  shows "three_way (\<lambda>x y. cmp (f x) (f y))"
  by (rule three_way.intro)
    (rule three_way.cmp_range [OF assms] three_way.cmp_swap [OF assms]
      three_way.cmp_le_trans [OF assms]; assumption)+

text \<open>Go's cascade \<open>if c := c1(x, y); c != 0 { return c }; return c2(x, y)\<close>.\<close>

definition cmp_then :: "int \<Rightarrow> int \<Rightarrow> int" where
  "cmp_then c d = (if c \<noteq> 0 then c else d)"

lemma cmp_then_simps [simp]: "cmp_then 0 d = d" "c \<noteq> 0 \<Longrightarrow> cmp_then c d = c"
  by (simp_all add: cmp_then_def)

locale three_way_pair = a: three_way c1 + b: three_way c2 for c1 c2 :: "'a \<Rightarrow> 'a \<Rightarrow> int"
begin

lemma then_range: "cmp_then (c1 x y) (c2 x y) \<in> {-1, 0, 1}"
  using a.cmp_range [of x y] b.cmp_range [of x y] by (auto simp: cmp_then_def)

lemma then_swap: "cmp_then (c1 y x) (c2 y x) = - cmp_then (c1 x y) (c2 x y)"
  using a.cmp_swap [of x y] b.cmp_swap [of x y] by (simp add: cmp_then_def)

lemma then_le_trans:
  "cmp_then (c1 x y) (c2 x y) \<le> 0 \<Longrightarrow> cmp_then (c1 y z) (c2 y z) \<le> 0
    \<Longrightarrow> cmp_then (c1 x z) (c2 x z) \<le> 0"
  using a.cmp_less_trans [of x y z] a.cmp_le_less_trans [of x y z] a.cmp_eq_trans [of x y z]
    b.cmp_le_trans [of x y z]
  by (force simp: cmp_then_def split: if_splits)

sublocale lex: three_way "\<lambda>x y. cmp_then (c1 x y) (c2 x y)"
  by unfold_locales (rule then_range then_swap then_le_trans; assumption)+

end

lemma three_way_then:
  assumes "three_way c1" "three_way c2"
  shows "three_way (\<lambda>x y. cmp_then (c1 x y) (c2 x y))"
proof (rule three_way.intro)
  note pair = three_way_pair.intro [OF assms]
  fix x y z
  show "cmp_then (c1 x y) (c2 x y) \<in> {-1, 0, 1}" by (rule three_way_pair.then_range [OF pair])
  show "cmp_then (c1 y x) (c2 y x) = - cmp_then (c1 x y) (c2 x y)"
    by (rule three_way_pair.then_swap [OF pair])
  show "cmp_then (c1 x y) (c2 x y) \<le> 0 \<Longrightarrow> cmp_then (c1 y z) (c2 y z) \<le> 0
      \<Longrightarrow> cmp_then (c1 x z) (c2 x z) \<le> 0"
    by (rule three_way_pair.then_le_trans [OF pair])
qed

lemma cmp_then_lin:
  "cmp_then (cmp_lin a b) (cmp_lin c d) = cmp_lin (a, c) (b, d)"
  by (auto simp: cmp_then_def cmp_lin_def)

text \<open>
  Comparing two slices position by position, the shorter one padded with a default element:
  the loop \<open>for i := 0; i < max(len(a), len(b)); i++\<close> of the version comparisons.
\<close>

fun cmp_padded :: "('a \<Rightarrow> 'a \<Rightarrow> int) \<Rightarrow> 'a \<Rightarrow> 'a list \<Rightarrow> 'a list \<Rightarrow> int" where
  "cmp_padded c d [] [] = 0"
| "cmp_padded c d (x # xs) [] = cmp_then (c x d) (cmp_padded c d xs [])"
| "cmp_padded c d [] (y # ys) = cmp_then (c d y) (cmp_padded c d [] ys)"
| "cmp_padded c d (x # xs) (y # ys) = cmp_then (c x y) (cmp_padded c d xs ys)"

fun hd_or :: "'a \<Rightarrow> 'a list \<Rightarrow> 'a" where
  "hd_or d [] = d"
| "hd_or d (x # xs) = x"

context three_way
begin

lemma padded_step:
  "cmp_padded cmp d xs ys
    = cmp_then (cmp (hd_or d xs) (hd_or d ys)) (cmp_padded cmp d (tl xs) (tl ys))"
  by (cases xs; cases ys) auto

lemma padded_laws:
  "length xs \<le> n \<Longrightarrow> length ys \<le> n \<Longrightarrow> length zs \<le> n \<Longrightarrow>
    cmp_padded cmp d xs ys \<in> {-1, 0, 1}
    \<and> cmp_padded cmp d ys xs = - cmp_padded cmp d xs ys
    \<and> (cmp_padded cmp d xs ys \<le> 0 \<longrightarrow> cmp_padded cmp d ys zs \<le> 0 \<longrightarrow> cmp_padded cmp d xs zs \<le> 0)
    \<and> (cmp_padded cmp d xs ys \<le> 0 \<longrightarrow> cmp_padded cmp d ys zs < 0 \<longrightarrow> cmp_padded cmp d xs zs < 0)
    \<and> (cmp_padded cmp d xs ys < 0 \<longrightarrow> cmp_padded cmp d ys zs \<le> 0 \<longrightarrow> cmp_padded cmp d xs zs < 0)"
proof (induction n arbitrary: xs ys zs)
  case 0
  then show ?case by simp
next
  case (Suc n)
  have le: "length (tl xs) \<le> n" "length (tl ys) \<le> n" "length (tl zs) \<le> n"
    using Suc.prems by auto
  let ?x = "hd_or d xs" and ?y = "hd_or d ys" and ?z = "hd_or d zs"
  note heads = cmp_range [of ?x ?y] cmp_swap [of ?y ?x] cmp_le_trans [of ?x ?y ?z]
    cmp_less_trans [of ?x ?y ?z] cmp_le_less_trans [of ?x ?y ?z] cmp_eq_trans [of ?x ?y ?z]
  show ?case
    using Suc.IH [OF le] heads
    unfolding padded_step [of d xs ys] padded_step [of d ys xs] padded_step [of d ys zs]
      padded_step [of d xs zs] cmp_then_def
    by (cases "cmp ?x ?y = 0"; cases "cmp ?y ?z = 0"; auto)
qed

lemma three_way_padded: "three_way (cmp_padded cmp d)"
proof
  fix x y z :: "'a list"
  let ?n = "length x + length y + length z"
  show "cmp_padded cmp d x y \<in> {-1, 0, 1}" "cmp_padded cmp d y x = - cmp_padded cmp d x y"
    using padded_laws [of x ?n y z] by auto
  show "cmp_padded cmp d x y \<le> 0 \<Longrightarrow> cmp_padded cmp d y z \<le> 0 \<Longrightarrow> cmp_padded cmp d x z \<le> 0"
    using padded_laws [of x ?n y z] by auto
qed

end

text \<open>
  Padded comparison by keys is plain lexicographic comparison after the trailing padding is
  dropped, when the padding is the least key.
\<close>

fun strip_trailing :: "'k \<Rightarrow> 'k list \<Rightarrow> 'k list" where
  "strip_trailing d [] = []"
| "strip_trailing d (x # xs) =
     (if x = d \<and> strip_trailing d xs = [] then [] else x # strip_trailing d xs)"

lemma cmp_lin_Cons: "cmp_lin (x # xs) (y # ys) = cmp_then (cmp_lin x y) (cmp_lin xs ys)"
  by (auto simp: cmp_then_def cmp_lin_def)

lemma cmp_lin_Nil: "cmp_lin [] (y # ys) = -1" "cmp_lin (x # xs) [] = 1"
  by (simp_all add: cmp_lin_def)

lemma cmp_padded_strip:
  fixes f :: "'a \<Rightarrow> 'k::linorder"
  assumes "\<forall>x \<in> set xs. f d \<le> f x" "\<forall>y \<in> set ys. f d \<le> f y"
  shows "cmp_padded (\<lambda>x y. cmp_lin (f x) (f y)) d xs ys
    = cmp_lin (strip_trailing (f d) (map f xs)) (strip_trailing (f d) (map f ys))"
  using assms
proof (induction "\<lambda>x y. cmp_lin (f x) (f y)" d xs ys rule: cmp_padded.induct)
  case (1 d)
  then show ?case by simp
next
  case (2 d x xs)
  then have "f x = f d \<or> cmp_lin (f x) (f d) = 1" by (auto simp: order.order_iff_strict)
  with 2 show ?case by (cases "strip_trailing (f d) (map f xs)") (auto simp: cmp_lin_Nil)
next
  case (3 d y ys)
  then have "f y = f d \<or> cmp_lin (f d) (f y) = -1" by (auto simp: order.order_iff_strict)
  with 3 show ?case by (cases "strip_trailing (f d) (map f ys)") (auto simp: cmp_lin_Nil)
next
  case (4 d x xs y ys)
  then have le: "f d \<le> f x" "f d \<le> f y" and
    IH: "cmp_padded (\<lambda>x y. cmp_lin (f x) (f y)) d xs ys
      = cmp_lin (strip_trailing (f d) (map f xs)) (strip_trailing (f d) (map f ys))" by auto
  show ?case
  proof (cases "f x = f y")
    case True
    then show ?thesis
      using IH by (cases "strip_trailing (f d) (map f xs)"; cases "strip_trailing (f d) (map f ys)")
        (auto simp: cmp_lin_Cons cmp_lin_Nil)
  next
    case False
    then have "f x < f y \<or> f y < f x" by auto
    then show ?thesis using le by (auto simp: cmp_lin_Cons cmp_lin_Nil)
  qed
qed

subsection \<open>Sorting with a less function\<close>

text \<open>
  \<open>sort.SliceStable(xs, less)\<close>: elements that \<open>less\<close> does not order keep their input order.
  The library documents the result, not the algorithm; the insertion sort below is one stable
  sort, and \<open>stable_unique\<close> shows that every stable sort returns the same slice.
\<close>

fun insert_stable :: "('a \<Rightarrow> 'a \<Rightarrow> bool) \<Rightarrow> 'a \<Rightarrow> 'a list \<Rightarrow> 'a list" where
  "insert_stable lt x [] = [x]"
| "insert_stable lt x (y # ys) = (if lt y x then y # insert_stable lt x ys else x # y # ys)"

fun sort_stable :: "('a \<Rightarrow> 'a \<Rightarrow> bool) \<Rightarrow> 'a list \<Rightarrow> 'a list" where
  "sort_stable lt [] = []"
| "sort_stable lt (x # xs) = insert_stable lt x (sort_stable lt xs)"

lemma mset_insert_stable [simp]: "mset (insert_stable lt x xs) = add_mset x (mset xs)"
  by (induction xs) auto

lemma mset_sort_stable [simp]: "mset (sort_stable lt xs) = mset xs"
  by (induction xs) auto

lemma set_sort_stable [simp]: "set (sort_stable lt xs) = set xs"
  by (metis mset_sort_stable set_mset_mset)

lemma length_sort_stable [simp]: "length (sort_stable lt xs) = length xs"
  by (metis mset_sort_stable size_mset)

lemma sort_stable_Nil_iff [simp]: "sort_stable lt xs = [] \<longleftrightarrow> xs = []"
  by (metis length_0_conv length_sort_stable)

text \<open>What Go's \<open>sort\<close> package requires of \<open>less\<close>: a strict weak ordering.\<close>

locale sort_less =
  fixes lt :: "'a \<Rightarrow> 'a \<Rightarrow> bool"
  assumes lt_irrefl: "\<not> lt x x"
    and lt_trans: "lt x y \<Longrightarrow> lt y z \<Longrightarrow> lt x z"
    and nlt_trans: "\<not> lt x y \<Longrightarrow> \<not> lt y z \<Longrightarrow> \<not> lt x z"
begin

definition tied :: "'a \<Rightarrow> 'a \<Rightarrow> bool" where
  "tied x y \<longleftrightarrow> \<not> lt x y \<and> \<not> lt y x"

lemma lt_asym: "lt x y \<Longrightarrow> \<not> lt y x"
  using lt_irrefl lt_trans by blast

lemma sorted_insert_stable:
  "sorted_wrt (\<lambda>a b. \<not> lt b a) ys \<Longrightarrow> sorted_wrt (\<lambda>a b. \<not> lt b a) (insert_stable lt x ys)"
proof (induction ys)
  case (Cons y ys)
  then have tail: "\<forall>z \<in> set (insert_stable lt x ys). z = x \<or> z \<in> set ys"
    by (metis insert_iff mset_insert_stable set_mset_add_mset_insert set_mset_mset)
  show ?case
  proof (cases "lt y x")
    case True
    with Cons tail show ?thesis using lt_asym [of y x] by auto
  next
    case False
    with Cons.prems show ?thesis using nlt_trans by auto
  qed
qed simp

lemma sorted_sort_stable: "sorted_wrt (\<lambda>a b. \<not> lt b a) (sort_stable lt xs)"
  by (induction xs) (auto intro: sorted_insert_stable)

lemma filter_insert_stable:
  "sorted_wrt (\<lambda>a b. \<not> lt b a) ys \<Longrightarrow>
    filter (tied z) (insert_stable lt x ys) = filter (tied z) (x # ys)"
proof (induction ys)
  case (Cons y ys)
  show ?case
  proof (cases "lt y x \<and> tied z y \<and> tied z x")
    case True
    then have False using nlt_trans [of y z x] by (auto simp: tied_def)
    then show ?thesis ..
  next
    case False
    with Cons show ?thesis by auto
  qed
qed simp

lemma sort_stable_is_stable: "filter (tied z) (sort_stable lt xs) = filter (tied z) xs"
  by (induction xs) (simp_all add: filter_insert_stable sorted_sort_stable)

lemma sorted_stable_eq:
  assumes "sorted_wrt (\<lambda>a b. \<not> lt b a) xs" "sorted_wrt (\<lambda>a b. \<not> lt b a) ys"
    and "\<And>z. filter (tied z) xs = filter (tied z) ys"
  shows "xs = ys"
  using assms
proof (induction xs arbitrary: ys)
  case Nil
  have "ys = []"
  proof (cases ys)
    case (Cons b bs)
    then show ?thesis using Nil.prems(3) [of b] lt_irrefl by (simp add: tied_def)
  qed
  then show ?case by simp
next
  case (Cons a as)
  have refl: "tied c c" for c using lt_irrefl by (simp add: tied_def)
  have "a \<in> set (filter (tied a) ys)" using Cons.prems(3) [of a] refl by (metis filter.simps(2) list.set_intros(1))
  then obtain b bs where ys: "ys = b # bs" by (cases ys) auto
  have "b \<in> set (filter (tied b) (a # as))"
    using Cons.prems(3) [of b] refl ys by (metis filter.simps(2) list.set_intros(1))
  then have "b \<in> set (a # as)" by (meson filter_is_subset subsetD)
  then have "\<not> lt b a" using Cons.prems(1) lt_irrefl by auto
  moreover have "a \<in> set ys" using \<open>a \<in> set (filter (tied a) ys)\<close> by simp
  then have "\<not> lt a b" using Cons.prems(2) ys lt_irrefl by auto
  ultimately have "tied a b" by (simp add: tied_def)
  then have ab: "a = b" using Cons.prems(3) [of a] ys refl by simp
  have "filter (tied z) as = filter (tied z) bs" for z
    using Cons.prems(3) [of z] ys ab by (simp split: if_splits)
  then have "as = bs" using Cons.IH [of bs] Cons.prems(1,2) ys by simp
  with ab ys show ?case by simp
qed

lemma stable_unique:
  assumes "sorted_wrt (\<lambda>a b. \<not> lt b a) ys" "\<And>z. filter (tied z) ys = filter (tied z) xs"
  shows "ys = sort_stable lt xs"
  by (rule sorted_stable_eq) (simp_all add: assms sorted_sort_stable sort_stable_is_stable)

lemma sort_stable_perm:
  assumes "mset xs = mset ys"
    and sep: "\<And>x y. x \<in> set xs \<Longrightarrow> y \<in> set xs \<Longrightarrow> tied x y \<Longrightarrow> x = y"
  shows "sort_stable lt xs = sort_stable lt ys"
proof (rule stable_unique [OF sorted_sort_stable])
  fix z
  have tied_trans: "tied x y" if "tied z x" "tied z y" for x y
    using that nlt_trans [of x z y] nlt_trans [of y z x] by (auto simp: tied_def)
  have const: "u = v" if "u \<in> set (filter (tied z) xs)" "v \<in> set (filter (tied z) xs)" for u v
    using that sep tied_trans by auto
  have eq: "mset (filter (tied z) xs) = mset (filter (tied z) ys)"
    using assms(1) by (simp add: mset_filter)
  have "filter (tied z) xs = filter (tied z) ys"
  proof (cases "filter (tied z) xs")
    case Nil
    then show ?thesis using eq by simp
  next
    case (Cons u us)
    then have all: "\<forall>v \<in> set (filter (tied z) xs). v = u" using const by auto
    then have "\<forall>v \<in> set (filter (tied z) ys). v = u" using eq by (metis set_mset_mset)
    then show ?thesis using all eq by (metis replicate_length_same size_mset)
  qed
  then show "filter (tied z) (sort_stable lt xs) = filter (tied z) ys"
    by (simp add: sort_stable_is_stable)
qed

lemma sort_stable_head_least:
  assumes "sort_stable lt xs = x # rest" "y \<in> set xs"
  shows "\<not> lt y x"
proof -
  have "y \<in> set (x # rest)" using assms by (metis set_sort_stable)
  then show ?thesis using sorted_sort_stable [of xs] assms(1) lt_irrefl by auto
qed

end

lemma sort_less_lin: "sort_less ((<) :: 'a::linorder \<Rightarrow> 'a \<Rightarrow> bool)"
  by unfold_locales auto

lemma sort_less_key:
  assumes "sort_less lt"
  shows "sort_less (\<lambda>x y. lt (f x) (f y))"
proof (rule sort_less.intro)
  fix x y z
  show "\<not> lt (f x) (f x)" by (rule sort_less.lt_irrefl [OF assms])
  show "lt (f x) (f y) \<Longrightarrow> lt (f y) (f z) \<Longrightarrow> lt (f x) (f z)"
    by (rule sort_less.lt_trans [OF assms])
  show "\<not> lt (f x) (f y) \<Longrightarrow> \<not> lt (f y) (f z) \<Longrightarrow> \<not> lt (f x) (f z)"
    by (rule sort_less.nlt_trans [OF assms])
qed

text \<open>A three-way comparison gives a \<open>less\<close> function.\<close>

sublocale three_way \<subseteq> less: sort_less "\<lambda>x y. cmp x y < 0"
proof
  fix x y z
  show "\<not> cmp x x < 0" by simp
  show "cmp x y < 0 \<Longrightarrow> cmp y z < 0 \<Longrightarrow> cmp x z < 0" by (simp add: cmp_less_trans)
  show "\<not> cmp x y < 0 \<Longrightarrow> \<not> cmp y z < 0 \<Longrightarrow> \<not> cmp x z < 0"
    using cmp_le_trans [of z y x] cmp_swap [of x y] cmp_swap [of y z] cmp_swap [of x z] by simp
qed

interpretation lin: three_way "cmp_lin :: 'a::linorder \<Rightarrow> 'a \<Rightarrow> int"
  by (rule three_way_lin)

end
