(* ===== verification/Go_Strings.thy ===== *)
theory Go_Strings
  imports Prelude "HOL-Library.Sublist"
begin

section \<open>The part of Go's string library the bridge uses\<close>

text \<open>
  Go strings are byte strings, so a string is a list of characters of eight bits each.  The
  functions below are Go's \<open>strings.HasPrefix\<close>, \<open>TrimPrefix\<close>, \<open>Index\<close>,
  \<open>LastIndex\<close>, \<open>Split\<close> (with a one-byte separator), \<open>Join\<close>,
  \<open>TrimSpace\<close>, \<open>Contains\<close>, \<open>ReplaceAll\<close> (of one byte), \<open>strconv.Atoi\<close> and
  the decimal verb of \<open>fmt\<close>, together with the range loop over the runes of a string.
  An index the Go function reports as \<open>-1\<close> is \<open>None\<close> here.
\<close>

subsection \<open>Prefixes, suffixes, search\<close>

abbreviation has_prefix :: "bytes \<Rightarrow> bytes \<Rightarrow> bool" where
  "has_prefix s p \<equiv> prefix p s"

abbreviation has_suffix :: "bytes \<Rightarrow> bytes \<Rightarrow> bool" where
  "has_suffix s p \<equiv> suffix p s"

definition trim_prefix :: "bytes \<Rightarrow> bytes \<Rightarrow> bytes" where
  "trim_prefix s p = (if prefix p s then drop (length p) s else s)"

definition trim_suffix :: "bytes \<Rightarrow> bytes \<Rightarrow> bytes" where
  "trim_suffix s p = (if suffix p s then take (length s - length p) s else s)"

lemma trim_prefix_append [simp]: "trim_prefix (p @ s) p = s"
  by (simp add: trim_prefix_def)

lemma trim_suffix_append [simp]: "trim_suffix (s @ p) p = s"
  by (simp add: trim_suffix_def suffix_def)

lemma trim_suffix_id: "\<not> suffix p s \<Longrightarrow> trim_suffix s p = s"
  by (simp add: trim_suffix_def)

lemma trim_suffix_changed: "trim_suffix s p \<noteq> s \<longleftrightarrow> suffix p s \<and> p \<noteq> []"
  by (auto simp: trim_suffix_def suffix_def)

lemma suffix_trim: "suffix p s \<Longrightarrow> s = trim_suffix s p @ p"
  by (auto simp: trim_suffix_def suffix_def)

fun index_of :: "bytes \<Rightarrow> bytes \<Rightarrow> nat option" where
  "index_of [] p = (if p = [] then Some 0 else None)"
| "index_of (c # s) p = (if prefix p (c # s) then Some 0 else map_option Suc (index_of s p))"

fun last_index :: "bytes \<Rightarrow> bytes \<Rightarrow> nat option" where
  "last_index [] p = (if p = [] then Some 0 else None)"
| "last_index (c # s) p =
    (case last_index s p of
       Some i \<Rightarrow> Some (Suc i)
     | None \<Rightarrow> if prefix p (c # s) then Some 0 else None)"

definition contains :: "bytes \<Rightarrow> bytes \<Rightarrow> bool" where
  "contains s p \<longleftrightarrow> index_of s p \<noteq> None"

lemma index_of_char_None [simp]: "index_of s [c] = None \<longleftrightarrow> c \<notin> set s"
  by (induction s) auto

lemma index_of_char_absent [simp]: "c \<notin> set s \<Longrightarrow> index_of s [c] = None"
  by simp

lemma index_of_char_append [simp]: "c \<notin> set s \<Longrightarrow> index_of (s @ c # t) [c] = Some (length s)"
  by (induction s) auto

lemma index_of_char_Some: "index_of s [c] = Some i \<Longrightarrow> i < length s \<and> s ! i = c \<and> c \<notin> set (take i s)"
  by (induction s arbitrary: i) (auto split: if_splits)

lemma index_of_bound: "index_of s p = Some i \<Longrightarrow> i + length p \<le> length s"
  by (induction s arbitrary: i) (auto split: if_splits dest: prefix_length_le)

lemma contains_iff: "contains s p \<longleftrightarrow> (\<exists>a b. s = a @ p @ b)"
proof (induction s)
  case Nil
  then show ?case by (auto simp: contains_def)
next
  case (Cons c s)
  have "(\<exists>a b. c # s = a @ p @ b) \<longleftrightarrow> prefix p (c # s) \<or> (\<exists>a b. s = a @ p @ b)"
    by (auto simp: prefix_def Cons_eq_append_conv)
  then show ?case using Cons by (auto simp: contains_def)
qed

lemma last_index_None: "last_index s p = None \<longleftrightarrow> \<not> contains s p"
proof (induction s)
  case (Cons c s)
  then show ?case by (auto simp: contains_def split: option.splits)
qed (simp add: contains_def)

lemma contains_set: "contains s p \<Longrightarrow> set p \<subseteq> set s"
  by (auto simp: contains_iff)

lemma last_index_char_absent: "c \<in> set p \<Longrightarrow> c \<notin> set s \<Longrightarrow> last_index s p = None"
  using contains_set by (fastforce simp: last_index_None)

lemma last_index_append:
  "\<not> contains (tl p @ t) p \<Longrightarrow> p \<noteq> [] \<Longrightarrow> last_index (s @ p @ t) p = Some (length s)"
proof (induction s)
  case Nil
  then obtain c q where p: "p = c # q" by (cases p) auto
  with Nil.prems have "last_index (q @ t) p = None" by (simp add: last_index_None)
  with p show ?case by simp
next
  case (Cons a s)
  then show ?case by simp
qed

lemma last_index_bound: "last_index s p = Some i \<Longrightarrow> i + length p \<le> length s"
  by (induction s arbitrary: i) (auto split: if_splits option.splits dest: prefix_length_le)

lemma last_index_at: "last_index s p = Some i \<Longrightarrow> prefix p (drop i s)"
  by (induction s arbitrary: i) (auto split: if_splits option.splits)

subsection \<open>Split and join\<close>

fun split_on :: "char \<Rightarrow> bytes \<Rightarrow> bytes list" where
  "split_on c [] = [[]]"
| "split_on c (x # s) =
    (if x = c then [] # split_on c s
     else case split_on c s of [] \<Rightarrow> [[x]] | p # ps \<Rightarrow> (x # p) # ps)"

fun join :: "bytes \<Rightarrow> bytes list \<Rightarrow> bytes" where
  "join sep [] = []"
| "join sep [p] = p"
| "join sep (p # q # ps) = p @ sep @ join sep (q # ps)"

lemma split_on_not_Nil [simp]: "split_on c s \<noteq> []"
  by (induction s) (auto split: list.splits)

lemma split_on_len: "0 < length (split_on c s)"
  by simp

lemma join_Cons: "ps \<noteq> [] \<Longrightarrow> join sep (p # ps) = p @ sep @ join sep ps"
  by (cases ps) auto

lemma join_head [simp]: "join sep ((x # p) # ps) = x # join sep (p # ps)"
  by (cases ps) auto

lemma join_split_on [simp]: "join [c] (split_on c s) = s"
proof (induction s)
  case (Cons x s)
  obtain p ps where "split_on c s = p # ps" by (cases "split_on c s") auto
  with Cons show ?case by auto
qed simp

lemma split_on_id [simp]: "c \<notin> set s \<Longrightarrow> split_on c s = [s]"
  by (induction s) auto

lemma split_on_append [simp]: "c \<notin> set p \<Longrightarrow> split_on c (p @ c # s) = p # split_on c s"
  by (induction p) auto

lemma split_on_join:
  "ps \<noteq> [] \<Longrightarrow> (\<forall>p \<in> set ps. c \<notin> set p) \<Longrightarrow> split_on c (join [c] ps) = ps"
proof (induction ps)
  case (Cons p ps)
  then show ?case by (cases ps) auto
qed simp

lemma split_on_parts: "p \<in> set (split_on c s) \<Longrightarrow> c \<notin> set p"
  by (induction s arbitrary: p) (auto split: list.splits if_splits)

lemma set_split_on: "p \<in> set (split_on c s) \<Longrightarrow> set p \<subseteq> set s"
  by (induction s arbitrary: p) (fastforce split: list.splits if_splits)+

lemma split_on_inj: "split_on c s = split_on c t \<Longrightarrow> s = t"
  by (metis join_split_on)

lemma join_append:
  "ps \<noteq> [] \<Longrightarrow> qs \<noteq> [] \<Longrightarrow> join sep (ps @ qs) = join sep ps @ sep @ join sep qs"
proof (induction ps)
  case (Cons p ps)
  then show ?case by (cases ps) (auto simp: join_Cons)
qed simp

lemma set_join: "c \<in> set (join sep ps) \<Longrightarrow> c \<in> set sep \<or> (\<exists>p \<in> set ps. c \<in> set p)"
  by (induction sep ps rule: join.induct) auto

lemma last_join: "ps \<noteq> [] \<Longrightarrow> last ps \<noteq> [] \<Longrightarrow> last (join sep ps) = last (last ps) \<and> join sep ps \<noteq> []"
proof (induction ps)
  case (Cons p ps)
  then show ?case by (cases ps) auto
qed simp

lemma join_not_Nil: "ps \<noteq> [] \<Longrightarrow> hd ps \<noteq> [] \<Longrightarrow> join sep ps \<noteq> []"
  by (cases "(sep, ps)" rule: join.cases) auto

lemma hd_join: "ps \<noteq> [] \<Longrightarrow> hd ps \<noteq> [] \<Longrightarrow> hd (join sep ps) = hd (hd ps)"
  by (cases "(sep, ps)" rule: join.cases) auto

subsection \<open>White space\<close>

text \<open>
  \<open>strings.TrimSpace\<close> removes Unicode white space, read from the UTF-8 text: the six ASCII
  blanks, U+0085 and U+00A0 (two bytes), and U+1680, U+2000 to U+200A, U+2028, U+2029, U+202F,
  U+205F and U+3000 (three bytes).  The result of the two functions is the number of bytes of the
  blank at the head of a string, and at the head of a reversed string.
\<close>

definition byte :: "char \<Rightarrow> int" where
  "byte c = of_char c"

lemma byte_Char [simp]:
  "byte (Char b0 b1 b2 b3 b4 b5 b6 b7) = of_char (Char b0 b1 b2 b3 b4 b5 b6 b7)"
  by (simp add: byte_def)

definition is_blank :: "char \<Rightarrow> bool" where
  "is_blank c \<longleftrightarrow> (9 \<le> byte c \<and> byte c \<le> 13) \<or> byte c = 32"

definition blank2 :: "int \<Rightarrow> int \<Rightarrow> bool" where
  "blank2 a b \<longleftrightarrow> a = 194 \<and> (b = 133 \<or> b = 160)"

definition blank3 :: "int \<Rightarrow> int \<Rightarrow> int \<Rightarrow> bool" where
  "blank3 a b c \<longleftrightarrow>
     (a = 225 \<and> b = 154 \<and> c = 128)
     \<or> (a = 226 \<and> b = 128 \<and> (128 \<le> c \<and> c \<le> 138 \<or> c = 168 \<or> c = 169 \<or> c = 175))
     \<or> (a = 226 \<and> b = 129 \<and> c = 159)
     \<or> (a = 227 \<and> b = 128 \<and> c = 128)"

fun blank_len :: "bytes \<Rightarrow> nat" where
  "blank_len (a # b # c # s) =
     (if is_blank a then 1 else if blank2 (byte a) (byte b) then 2
      else if blank3 (byte a) (byte b) (byte c) then 3 else 0)"
| "blank_len [a, b] = (if is_blank a then 1 else if blank2 (byte a) (byte b) then 2 else 0)"
| "blank_len [a] = (if is_blank a then 1 else 0)"
| "blank_len [] = 0"

fun blank_len_rev :: "bytes \<Rightarrow> nat" where
  "blank_len_rev (a # b # c # s) =
     (if is_blank a then 1 else if blank2 (byte b) (byte a) then 2
      else if blank3 (byte c) (byte b) (byte a) then 3 else 0)"
| "blank_len_rev [a, b] = (if is_blank a then 1 else if blank2 (byte b) (byte a) then 2 else 0)"
| "blank_len_rev [a] = (if is_blank a then 1 else 0)"
| "blank_len_rev [] = 0"

lemma blank_len_le: "blank_len s \<le> length s" "blank_len_rev s \<le> length s"
  by (induction s rule: blank_len.induct) auto

function trim_blanks :: "(bytes \<Rightarrow> nat) \<Rightarrow> bytes \<Rightarrow> bytes" where
  "trim_blanks f s = (if f s = 0 \<or> s = [] then s else trim_blanks f (drop (f s) s))"
  by pat_completeness auto
termination
  by (relation "measure (\<lambda>(f, s). length s)") auto

declare trim_blanks.simps [simp del]

definition trim_space :: "bytes \<Rightarrow> bytes" where
  "trim_space s = rev (trim_blanks blank_len_rev (rev (trim_blanks blank_len s)))"

text \<open>
  A string whose first and last byte are printable ASCII is left alone: no blank starts or ends
  with such a byte.
\<close>

definition solid :: "char \<Rightarrow> bool" where
  "solid c \<longleftrightarrow> 32 < byte c \<and> byte c < 128"

lemma blank_len_solid: "solid c \<Longrightarrow> blank_len (c # s) = 0"
  by (cases "(c # s)" rule: blank_len.cases)
    (auto simp: solid_def is_blank_def blank2_def blank3_def)

lemma blank_len_rev_solid: "solid c \<Longrightarrow> blank_len_rev (c # s) = 0"
  by (cases "(c # s)" rule: blank_len_rev.cases)
    (auto simp: solid_def is_blank_def blank2_def blank3_def)

lemma trim_space_Nil [simp]: "trim_space [] = []"
  by (simp add: trim_space_def trim_blanks.simps)

lemma trim_blanks_id [simp]: "f s = 0 \<Longrightarrow> trim_blanks f s = s"
  by (simp add: trim_blanks.simps)

lemma trim_space_solid:
  assumes "s \<noteq> []" "solid (hd s)" "solid (last s)"
  shows "trim_space s = s"
proof -
  have "blank_len s = 0" using assms blank_len_solid [of "hd s" "tl s"] by simp
  moreover have "blank_len_rev (rev s) = 0"
    using assms blank_len_rev_solid [of "last s" "rev (butlast s)"]
    by (metis append_butlast_last_id rev_eq_Cons_iff rev_rev_ident)
  ultimately show ?thesis by (simp add: trim_space_def)
qed

subsection \<open>Decimal numbers\<close>

definition is_digit :: "char \<Rightarrow> bool" where
  "is_digit c \<longleftrightarrow> 48 \<le> byte c \<and> byte c \<le> 57"

definition digit_char :: "int \<Rightarrow> char" where
  "digit_char d = char_of (48 + d)"

function dec_digits :: "int \<Rightarrow> bytes" where
  "dec_digits n = (if n < 10 then [digit_char n] else dec_digits (n div 10) @ [digit_char (n mod 10)])"
  by pat_completeness auto
termination by (relation "measure nat") auto

declare dec_digits.simps [simp del]

definition itoa :: "int \<Rightarrow> bytes" where
  "itoa i = (if i < 0 then CHR ''-'' # dec_digits (- i) else dec_digits i)"

definition digits_val :: "bytes \<Rightarrow> int" where
  "digits_val s = foldl (\<lambda>a c. 10 * a + (byte c - 48)) 0 s"

definition int64 :: "int \<Rightarrow> bool" where
  "int64 i \<longleftrightarrow> - (2 ^ 63) \<le> i \<and> i < 2 ^ 63"

definition unsigned_part :: "bytes \<Rightarrow> bytes" where
  "unsigned_part s = (case s of [] \<Rightarrow> [] | c # r \<Rightarrow> if c = CHR ''-'' \<or> c = CHR ''+'' then r else s)"

text \<open>\<open>strconv.Atoi\<close>: an optional sign, then one or more digits, the value within a Go \<open>int\<close>.\<close>

definition atoi :: "bytes \<Rightarrow> int option" where
  "atoi s =
    (let ds = unsigned_part s;
         v = (if prefix ''-'' s then - digits_val ds else digits_val ds)
     in if ds \<noteq> [] \<and> list_all is_digit ds \<and> int64 v then Some v else None)"

lemma byte_mod: "byte c mod 256 = byte c"
  unfolding byte_def by (rule of_char_mod_256)

lemma byte_bounds [simp]: "0 \<le> byte c" "byte c < 256"
  using pos_mod_sign [of 256 "byte c"] pos_mod_bound [of 256 "byte c"] by (simp_all add: byte_mod)

lemma byte_inj: "byte a = byte b \<Longrightarrow> a = b"
  by (simp add: byte_def)

lemma byte_digit_char [simp]: "0 \<le> d \<Longrightarrow> d < 10 \<Longrightarrow> byte (digit_char d) = 48 + d"
  by (simp add: byte_def digit_char_def)

lemma is_digit_digit_char [simp]: "0 \<le> d \<Longrightarrow> d < 10 \<Longrightarrow> is_digit (digit_char d)"
  by (simp add: is_digit_def)

lemma dec_digits_digits: "0 \<le> n \<Longrightarrow> list_all is_digit (dec_digits n)"
proof (induction n rule: dec_digits.induct)
  case (1 n)
  then show ?case by (subst dec_digits.simps) simp
qed

lemma dec_digits_not_Nil [simp]: "dec_digits n \<noteq> []"
  by (subst dec_digits.simps) simp

lemma digits_val_snoc [simp]: "digits_val (s @ [c]) = 10 * digits_val s + (byte c - 48)"
  by (simp add: digits_val_def)

lemma digits_val_dec_digits [simp]: "0 \<le> n \<Longrightarrow> digits_val (dec_digits n) = n"
proof (induction n rule: dec_digits.induct)
  case (1 n)
  show ?case
  proof (cases "n < 10")
    case True
    with 1 show ?thesis by (simp add: dec_digits.simps [of n] digits_val_def)
  next
    case False
    with 1 show ?thesis by (simp add: dec_digits.simps [of n])
  qed
qed

lemma itoa_nonneg: "0 \<le> i \<Longrightarrow> itoa i = dec_digits i"
  by (simp add: itoa_def)

lemma itoa_digits: "0 \<le> i \<Longrightarrow> list_all is_digit (itoa i)"
  by (simp add: itoa_nonneg dec_digits_digits)

lemma itoa_not_Nil [simp]: "itoa i \<noteq> []"
  by (simp add: itoa_def)

lemma not_digit_signs [simp]: "\<not> is_digit CHR ''-''" "\<not> is_digit CHR ''+''"
  by (simp_all add: is_digit_def byte_def)

lemma unsigned_part_digits: "list_all is_digit s \<Longrightarrow> unsigned_part s = s"
  by (auto simp: unsigned_part_def split: list.splits)

lemma atoi_digits:
  assumes "s \<noteq> []" "list_all is_digit s" "int64 (digits_val s)"
  shows "atoi s = Some (digits_val s)"
proof -
  have "\<not> prefix ''-'' s" using assms(1,2) by (cases s) auto
  then show ?thesis using assms by (simp add: atoi_def unsigned_part_digits)
qed

lemma atoi_itoa [simp]: "0 \<le> i \<Longrightarrow> int64 i \<Longrightarrow> atoi (itoa i) = Some i"
  using atoi_digits [of "itoa i"] itoa_digits [of i] by (simp add: itoa_nonneg)

lemma atoi_int64: "atoi s = Some i \<Longrightarrow> int64 i"
  by (auto simp: atoi_def Let_def split: if_splits)

lemma atoi_Nil [simp]: "atoi [] = None"
  by (simp add: atoi_def unsigned_part_def)

lemma set_digits: "list_all is_digit s \<Longrightarrow> c \<in> set s \<Longrightarrow> is_digit c"
  by (simp add: list_all_iff)

lemma itoa_char: "0 \<le> i \<Longrightarrow> c \<in> set (itoa i) \<Longrightarrow> is_digit c"
  using itoa_digits set_digits by blast

lemma itoa_pos_char: "0 < i \<Longrightarrow> c \<in> set (itoa i) \<Longrightarrow> is_digit c"
  using itoa_char [of i c] by simp

text \<open>Every byte a signed decimal may hold.\<close>

lemma atoi_chars: "atoi s = Some i \<Longrightarrow> c \<in> set s \<Longrightarrow> is_digit c \<or> c = CHR ''-'' \<or> c = CHR ''+''"
  by (auto simp: atoi_def unsigned_part_def Let_def list_all_iff split: if_splits list.splits)

lemma solid_digit: "is_digit c \<Longrightarrow> solid c"
  by (simp add: is_digit_def solid_def)

lemma trim_space_all_solid: "\<forall>c \<in> set s. solid c \<Longrightarrow> trim_space s = s"
  by (cases "s = []") (simp_all add: trim_space_solid)

lemma hd_itoa_digit: "0 \<le> i \<Longrightarrow> is_digit (hd (itoa i))"
  by (simp add: itoa_char)

lemma last_itoa_digit: "0 \<le> i \<Longrightarrow> is_digit (last (itoa i))"
  by (simp add: itoa_char)

subsection \<open>Runes\<close>

text \<open>
  \<open>for _, r := range s\<close> decodes UTF-8; a byte that starts no valid encoding yields U+FFFD and is
  skipped alone.  \<open>decode_rune\<close> returns the rune and its width.
\<close>

definition cont :: "int \<Rightarrow> bool" where
  "cont b \<longleftrightarrow> 128 \<le> b \<and> b \<le> 191"

definition second_ok :: "int \<Rightarrow> int \<Rightarrow> bool" where
  "second_ok a b \<longleftrightarrow>
     (if a = 224 then 160 \<le> b \<and> b \<le> 191 else if a = 237 then 128 \<le> b \<and> b \<le> 159
      else if a = 240 then 144 \<le> b \<and> b \<le> 191 else if a = 244 then 128 \<le> b \<and> b \<le> 143
      else cont b)"

definition bad_rune :: "int \<times> nat" where
  "bad_rune = (65533, 1)"

definition decode_rune :: "int \<Rightarrow> int list \<Rightarrow> int \<times> nat" where
  "decode_rune a s =
    (if a < 128 then (a, 1)
     else if 194 \<le> a \<and> a \<le> 223 then
       (case s of b # _ \<Rightarrow> if cont b then ((a - 192) * 64 + (b - 128), 2) else bad_rune
        | _ \<Rightarrow> bad_rune)
     else if 224 \<le> a \<and> a \<le> 239 then
       (case s of b # c # _ \<Rightarrow>
          if second_ok a b \<and> cont c
          then ((a - 224) * 4096 + (b - 128) * 64 + (c - 128), 3) else bad_rune
        | _ \<Rightarrow> bad_rune)
     else if 240 \<le> a \<and> a \<le> 244 then
       (case s of b # c # d # _ \<Rightarrow>
          if second_ok a b \<and> cont c \<and> cont d
          then ((a - 240) * 262144 + (b - 128) * 4096 + (c - 128) * 64 + (d - 128), 4)
          else bad_rune
        | _ \<Rightarrow> bad_rune)
     else bad_rune)"

function decode_runes :: "int list \<Rightarrow> int list" where
  "decode_runes [] = []"
| "decode_runes (a # s) =
    (case decode_rune a s of (r, w) \<Rightarrow> r # decode_runes (drop (w - 1) s))"
  by pat_completeness auto
termination by (relation "measure length") (auto simp: le_imp_less_Suc)

definition runes :: "bytes \<Rightarrow> int list" where
  "runes s = decode_runes (map byte s)"

definition ascii :: "bytes \<Rightarrow> bool" where
  "ascii s \<longleftrightarrow> list_all (\<lambda>c. byte c < 128) s"

lemma runes_ascii: "ascii s \<Longrightarrow> runes s = map byte s"
  by (induction s) (auto simp: runes_def ascii_def decode_rune_def)

lemma decode_rune_small: "decode_rune a s = (r, w) \<Longrightarrow> r < 128 \<Longrightarrow> a < 128 \<and> w = 1"
  by (auto simp: decode_rune_def bad_rune_def second_ok_def cont_def split: if_splits list.splits)

lemma decode_runes_small: "\<forall>r \<in> set (decode_runes xs). r < 128 \<Longrightarrow> \<forall>x \<in> set xs. x < 128"
proof (induction xs rule: decode_runes.induct)
  case (2 a s)
  obtain r w where d: "decode_rune a s = (r, w)" by force
  then have "a < 128" "w = 1" using 2(2) decode_rune_small [OF d] by auto
  then show ?case using 2 d by auto
qed simp

lemma runes_small: "\<forall>r \<in> set (runes s). r < 128 \<Longrightarrow> ascii s"
  using decode_runes_small [of "map byte s"] by (simp add: runes_def ascii_def list_all_iff)

lemma byte_eqD: "byte c = n \<Longrightarrow> c = char_of n"
  by (auto simp: byte_def)

text \<open>The line feed the renderers write.\<close>

definition nl :: bytes where
  "nl = [CHR 0x0A]"

subsection \<open>Case and replacement\<close>

definition replace_byte :: "char \<Rightarrow> char \<Rightarrow> bytes \<Rightarrow> bytes" where
  "replace_byte a b s = map (\<lambda>c. if c = a then b else c) s"

definition lower_char :: "char \<Rightarrow> char" where
  "lower_char c = (if 65 \<le> byte c \<and> byte c \<le> 90 then char_of (byte c + 32) else c)"

text \<open>
  \<open>strings.ToLower\<close> as far as ASCII letters in the result are concerned: besides the ASCII
  capitals, two runes outside ASCII have an ASCII lower case, U+0130 (dotted capital I) and U+212A
  (Kelvin sign); every other rune outside ASCII stays outside ASCII.
\<close>

fun to_lower :: "bytes \<Rightarrow> bytes" where
  "to_lower [] = []"
| "to_lower (a # s) =
    (case s of
       b # r \<Rightarrow>
         if byte a = 196 \<and> byte b = 176 then CHR ''i'' # to_lower r
         else (case r of
                 c # t \<Rightarrow> if byte a = 226 \<and> byte b = 132 \<and> byte c = 170 then CHR ''k'' # to_lower t
                          else lower_char a # to_lower s
               | [] \<Rightarrow> lower_char a # to_lower s)
     | [] \<Rightarrow> [lower_char a])"

end
