(* ===== verification/Semver_Version.thy ===== *)
theory Semver_Version
  imports Go_Strings
begin

section \<open>PEP 440 versions (semver/version.go)\<close>

text \<open>
  The parsed version, its parser, its printer and its order.  \<open>Version_Parse\<close> follows the Go
  function stage by stage (local label, epoch, dev, post, pre-release, release), each stage a
  definition of its own that either fails with the error of that stage or passes on the rest of
  the text.  The order is the cascade of \<open>Compare\<close>; it is shown to be a three-way comparison
  (locale \<open>three_way\<close>) and to agree with the comparison keys of PEP 440.
\<close>

record Version =
  Epoch :: int
  Release :: "int list"
  PreKind :: bytes
  PreNum :: int
  Post :: int
  Dev :: int
  Local :: bytes

datatype VersionError =
    EmptyVersion | LeadingV | SurroundingSpace | EmptyLocal | BadLocalChar int
  | BadEpoch | BadDev | BadPost | MissingRelease | EmptyReleaseComponent
  | BadReleaseComponent bytes

subsection \<open>Parsing\<close>

definition isDigit :: "int \<Rightarrow> bool" where
  "isDigit b \<longleftrightarrow> 48 \<le> b \<and> b \<le> 57"

definition isAlpha :: "int \<Rightarrow> bool" where
  "isAlpha b \<longleftrightarrow> (97 \<le> b \<and> b \<le> 122) \<or> (65 \<le> b \<and> b \<le> 90)"

definition isAlnum :: "int \<Rightarrow> bool" where
  "isAlnum b \<longleftrightarrow> isDigit b \<or> isAlpha b"

text \<open>The pattern \<open>n, err := strconv.Atoi(s); if err != nil || n < 0\<close>.\<close>

definition atoi_nonneg :: "bytes \<Rightarrow> int option" where
  "atoi_nonneg s = (case atoi s of None \<Rightarrow> None | Some n \<Rightarrow> if n < 0 then None else Some n)"

text \<open>The conversion \<open>byte(c)\<close> of a rune keeps its low eight bits.\<close>

definition local_rune_ok :: "int \<Rightarrow> bool" where
  "local_rune_ok c \<longleftrightarrow> isAlnum (c mod 256) \<or> c = 46"

definition normalise_local :: "bytes \<Rightarrow> bytes" where
  "normalise_local s = replace_byte CHR ''_'' CHR ''.'' (replace_byte CHR ''-'' CHR ''.'' s)"

definition parse_local :: "bytes \<Rightarrow> VersionError + bytes \<times> bytes" where
  "parse_local rest =
     (case index_of rest ''+'' of
        None \<Rightarrow> Inr (rest, [])
      | Some i \<Rightarrow>
          let loc = drop (i + 1) rest; norm = normalise_local loc in
          if loc = [] then Inl EmptyLocal
          else case find (\<lambda>c. \<not> local_rune_ok c) (runes norm) of
                 Some c \<Rightarrow> Inl (BadLocalChar c)
               | None \<Rightarrow> Inr (take i rest, norm))"

definition parse_epoch :: "bytes \<Rightarrow> VersionError + bytes \<times> int" where
  "parse_epoch rest =
     (case index_of rest ''!'' of
        None \<Rightarrow> Inr (rest, 0)
      | Some i \<Rightarrow> (case atoi_nonneg (take i rest) of
                    None \<Rightarrow> Inl BadEpoch
                  | Some ep \<Rightarrow> Inr (drop (i + 1) rest, ep)))"

text \<open>The dev and post stages differ in the marker and the error only; an absent counter is \<open>-1\<close>.\<close>

definition parse_counter :: "bytes \<Rightarrow> VersionError \<Rightarrow> bytes \<Rightarrow> VersionError + bytes \<times> int" where
  "parse_counter mark err rest =
     (case last_index rest mark of
        None \<Rightarrow> Inr (rest, -1)
      | Some i \<Rightarrow> (case atoi_nonneg (drop (i + length mark) rest) of
                    None \<Rightarrow> Inl err
                  | Some num \<Rightarrow> Inr (take i rest, num)))"

definition parse_dev :: "bytes \<Rightarrow> VersionError + bytes \<times> int" where
  "parse_dev = parse_counter ''.dev'' BadDev"

definition parse_post :: "bytes \<Rightarrow> VersionError + bytes \<times> int" where
  "parse_post = parse_counter ''.post'' BadPost"

definition try_pre :: "bytes \<Rightarrow> bytes \<Rightarrow> (bytes \<times> int \<times> nat) option" where
  "try_pre rest k =
     (case last_index rest k of
        None \<Rightarrow> None
      | Some i \<Rightarrow>
          if i = 0 then None
          else if \<not> isDigit (byte (rest ! (i - 1))) then None
          else let suf = drop (i + length k) rest in
               if suf = [] then None
               else (case atoi_nonneg suf of None \<Rightarrow> None | Some n \<Rightarrow> Some (k, n, i)))"

fun first_pre :: "bytes \<Rightarrow> bytes list \<Rightarrow> (bytes \<times> int \<times> nat) option" where
  "first_pre rest [] = None"
| "first_pre rest (k # ks) =
     (case try_pre rest k of Some r \<Rightarrow> Some r | None \<Rightarrow> first_pre rest ks)"

definition splitPre :: "bytes \<Rightarrow> (bytes \<times> int \<times> nat) option" where
  "splitPre rest = first_pre rest [''rc'', ''a'', ''b'']"

definition parse_pre :: "bytes \<Rightarrow> bytes \<times> bytes \<times> int" where
  "parse_pre rest =
     (case splitPre rest of
        None \<Rightarrow> (rest, [], 0)
      | Some (kind, num, idx) \<Rightarrow> (take idx rest, kind, num))"

fun parse_components :: "bytes list \<Rightarrow> VersionError + int list" where
  "parse_components [] = Inr []"
| "parse_components (p # ps) =
     (if p = [] then Inl EmptyReleaseComponent
      else case atoi_nonneg p of
             None \<Rightarrow> Inl (BadReleaseComponent p)
           | Some n \<Rightarrow> (case parse_components ps of Inl e \<Rightarrow> Inl e | Inr ns \<Rightarrow> Inr (n # ns)))"

definition parse_release :: "bytes \<Rightarrow> VersionError + int list" where
  "parse_release rest =
     (if rest = [] then Inl MissingRelease else parse_components (split_on CHR ''.'' rest))"

definition Version_Parse :: "bytes \<Rightarrow> VersionError + Version" where
  "Version_Parse s =
    (if s = [] then Inl EmptyVersion
     else if hd s = CHR ''v'' \<or> hd s = CHR ''V'' then Inl LeadingV
     else if trim_space s \<noteq> s then Inl SurroundingSpace
     else case parse_local s of Inl e \<Rightarrow> Inl e | Inr (r1, loc) \<Rightarrow>
       (case parse_epoch r1 of Inl e \<Rightarrow> Inl e | Inr (r2, ep) \<Rightarrow>
         (case parse_dev r2 of Inl e \<Rightarrow> Inl e | Inr (r3, dv) \<Rightarrow>
           (case parse_post r3 of Inl e \<Rightarrow> Inl e | Inr (r4, po) \<Rightarrow>
             (case parse_pre r4 of (r5, kind, num) \<Rightarrow>
               (case parse_release r5 of Inl e \<Rightarrow> Inl e | Inr rel \<Rightarrow>
                  Inr \<lparr>Epoch = ep, Release = rel, PreKind = kind, PreNum = num,
                       Post = po, Dev = dv, Local = loc\<rparr>))))))"

subsection \<open>Printing\<close>

definition Version_String :: "Version \<Rightarrow> bytes" where
  "Version_String v =
     (if Epoch v > 0 then itoa (Epoch v) @ ''!'' else [])
     @ join ''.'' (map itoa (Release v))
     @ (if PreKind v \<noteq> [] then PreKind v @ itoa (PreNum v) else [])
     @ (if Post v \<ge> 0 then ''.post'' @ itoa (Post v) else [])
     @ (if Dev v \<ge> 0 then ''.dev'' @ itoa (Dev v) else [])
     @ (if Local v \<noteq> [] then ''+'' @ Local v else [])"

definition IsPreRelease :: "Version \<Rightarrow> bool" where
  "IsPreRelease v \<longleftrightarrow> PreKind v \<noteq> [] \<or> Dev v \<ge> 0"

subsection \<open>Printing, then parsing\<close>

text \<open>A canonical version: what \<open>Version_Parse\<close> returns on ASCII text.\<close>

definition canonical :: "Version \<Rightarrow> bool" where
  "canonical v \<longleftrightarrow>
     0 \<le> Epoch v \<and> int64 (Epoch v)
     \<and> Release v \<noteq> [] \<and> (\<forall>n \<in> set (Release v). 0 \<le> n \<and> int64 n)
     \<and> (PreKind v = [] \<and> PreNum v = 0
        \<or> PreKind v \<in> {''a'', ''b'', ''rc''} \<and> 0 \<le> PreNum v \<and> int64 (PreNum v))
     \<and> -1 \<le> Post v \<and> int64 (Post v) \<and> -1 \<le> Dev v \<and> int64 (Dev v)
     \<and> (\<forall>c \<in> set (Local v). isAlnum (byte c) \<or> c = CHR ''.'')"

lemma atoi_nonneg_itoa [simp]: "0 \<le> i \<Longrightarrow> int64 i \<Longrightarrow> atoi_nonneg (itoa i) = Some i"
  by (simp add: atoi_nonneg_def)

lemma atoi_nonneg_Some: "atoi_nonneg s = Some n \<Longrightarrow> 0 \<le> n \<and> int64 n"
  by (auto simp: atoi_nonneg_def dest: atoi_int64 split: option.splits if_splits)

abbreviation release_text :: "int list \<Rightarrow> bytes" where
  "release_text ns \<equiv> join ''.'' (map itoa ns)"

lemma release_text_char:
  "\<forall>n \<in> set ns. 0 \<le> n \<Longrightarrow> c \<in> set (release_text ns) \<Longrightarrow> is_digit c \<or> c = CHR ''.''"
  by (auto dest!: set_join itoa_char)

lemma release_text_last: "ns \<noteq> [] \<Longrightarrow> \<forall>n \<in> set ns. 0 \<le> n \<Longrightarrow> is_digit (last (release_text ns))"
  by (simp add: last_join last_map last_itoa_digit)

lemma release_text_hd: "ns \<noteq> [] \<Longrightarrow> \<forall>n \<in> set ns. 0 \<le> n \<Longrightarrow> is_digit (hd (release_text ns))"
  by (simp add: hd_join hd_map hd_itoa_digit)

lemma release_text_not_Nil: "ns \<noteq> [] \<Longrightarrow> release_text ns \<noteq> []"
  by (simp add: join_not_Nil hd_map)

lemma parse_components_itoa:
  "\<forall>n \<in> set ns. 0 \<le> n \<and> int64 n \<Longrightarrow> parse_components (map itoa ns) = Inr ns"
  by (induction ns) auto

lemma parse_release_text:
  assumes "ns \<noteq> []" "\<forall>n \<in> set ns. 0 \<le> n \<and> int64 n"
  shows "parse_release (release_text ns) = Inr ns"
proof -
  have "\<forall>p \<in> set (map itoa ns). CHR ''.'' \<notin> set p"
    using assms(2) itoa_char by (fastforce simp: is_digit_def byte_def)
  then show ?thesis
    using assms by (simp add: parse_release_def release_text_not_Nil split_on_join parse_components_itoa)
qed

lemma parse_counter_absent: "c \<in> set mark \<Longrightarrow> c \<notin> set s \<Longrightarrow> parse_counter mark err s = Inr (s, -1)"
  by (simp add: parse_counter_def last_index_char_absent)

lemma parse_counter_present:
  assumes "0 \<le> n" "int64 n" "\<not> is_digit c" "c \<notin> set mark"
  shows "parse_counter (c # mark) err (s @ (c # mark) @ itoa n) = Inr (s, n)"
proof -
  have "c \<notin> set (mark @ itoa n)" using assms itoa_char by auto
  then have "\<not> contains (tl (c # mark) @ itoa n) (c # mark)" using contains_set by fastforce
  then have "last_index (s @ (c # mark) @ itoa n) (c # mark) = Some (length s)"
    by (intro last_index_append) simp_all
  then show ?thesis using assms by (simp add: parse_counter_def)
qed

lemma try_pre_absent: "c \<in> set k \<Longrightarrow> c \<notin> set s \<Longrightarrow> try_pre s k = None"
  by (simp add: try_pre_def last_index_char_absent)

lemma try_pre_present:
  assumes "0 \<le> n" "int64 n" "\<not> is_digit c" "c \<notin> set k" "s \<noteq> []" "is_digit (last s)"
  shows "try_pre (s @ (c # k) @ itoa n) (c # k) = Some (c # k, n, length s)"
proof -
  have "c \<notin> set (k @ itoa n)" using assms itoa_char by auto
  then have "\<not> contains (tl (c # k) @ itoa n) (c # k)" using contains_set by fastforce
  then have "last_index (s @ (c # k) @ itoa n) (c # k) = Some (length s)"
    by (intro last_index_append) simp_all
  moreover have "isDigit (byte ((s @ (c # k) @ itoa n) ! (length s - 1)))"
    using assms by (simp add: nth_append last_conv_nth is_digit_def isDigit_def)
  ultimately show ?thesis using assms by (simp add: try_pre_def)
qed

text \<open>The canonical text of a version, piece by piece, as the parser's stages take it apart.\<close>

definition pre_text :: "Version \<Rightarrow> bytes" where
  "pre_text v = (if PreKind v \<noteq> [] then PreKind v @ itoa (PreNum v) else [])"

definition counter_text :: "bytes \<Rightarrow> int \<Rightarrow> bytes" where
  "counter_text mark n = (if n \<ge> 0 then mark @ itoa n else [])"

definition core_text :: "Version \<Rightarrow> bytes" where
  "core_text v = release_text (Release v) @ pre_text v"

lemma canonicalD:
  assumes "canonical v"
  shows "0 \<le> Epoch v" "int64 (Epoch v)" "Release v \<noteq> []" "\<forall>n \<in> set (Release v). 0 \<le> n \<and> int64 n"
    "\<forall>n \<in> set (Release v). 0 \<le> n" "-1 \<le> Post v" "int64 (Post v)" "-1 \<le> Dev v" "int64 (Dev v)"
    "PreKind v = [] \<and> PreNum v = 0
     \<or> PreKind v \<in> {''a'', ''b'', ''rc''} \<and> 0 \<le> PreNum v \<and> int64 (PreNum v)"
  using assms by (auto simp: canonical_def)

lemma core_text_char:
  assumes "canonical v" "c \<in> set (core_text v)"
  shows "is_digit c \<or> c \<in> set ''.abrc''"
  using assms(2) release_text_char [OF canonicalD(5) [OF assms(1)]] canonicalD(10) [OF assms(1)]
  by (auto simp: core_text_def pre_text_def dest: itoa_char split: if_splits)

lemma counter_text_char: "c \<in> set (counter_text mark n) \<Longrightarrow> is_digit c \<or> c \<in> set mark"
  by (auto simp: counter_text_def dest: itoa_char split: if_splits)

lemma core_text_absent:
  "canonical v \<Longrightarrow> \<not> is_digit c \<Longrightarrow> c \<notin> set ''.abrc'' \<Longrightarrow> c \<notin> set (core_text v)"
  using core_text_char by blast

lemma Version_String_texts:
  "canonical v \<Longrightarrow> Version_String v =
     (if Epoch v > 0 then itoa (Epoch v) @ CHR ''!'' # core_text v @ counter_text ''.post'' (Post v)
        @ counter_text ''.dev'' (Dev v)
      else core_text v @ counter_text ''.post'' (Post v) @ counter_text ''.dev'' (Dev v))
     @ (if Local v \<noteq> [] then ''+'' @ Local v else [])"
  by (simp add: Version_String_def core_text_def pre_text_def counter_text_def)

lemma not_digit_letters [simp]:
  "\<not> is_digit CHR ''.''" "\<not> is_digit CHR ''!''" "\<not> is_digit CHR ''d''" "\<not> is_digit CHR ''p''"
  "\<not> is_digit CHR ''r''" "\<not> is_digit CHR ''a''" "\<not> is_digit CHR ''b''" "\<not> is_digit CHR ''v''"
  "\<not> is_digit CHR ''V''" "\<not> is_digit CHR ''c''"
  by (simp_all add: is_digit_def byte_def)

lemma release_text_absent:
  "canonical v \<Longrightarrow> \<not> is_digit c \<Longrightarrow> c \<noteq> CHR ''.'' \<Longrightarrow> c \<notin> set (release_text (Release v))"
  using release_text_char [OF canonicalD(5)] by blast

lemma parse_pre_core:
  assumes "canonical v"
  shows "parse_pre (core_text v) = (release_text (Release v), PreKind v, PreNum v)"
proof -
  let ?R = "release_text (Release v)"
  note c = canonicalD [OF assms]
  have abs: "CHR ''r'' \<notin> set ?R" "CHR ''a'' \<notin> set ?R" "CHR ''b'' \<notin> set ?R"
    using assms by (simp_all add: release_text_absent)
  have last: "?R \<noteq> []" "is_digit (last ?R)"
    using c(3,5) by (simp_all add: release_text_not_Nil release_text_last)
  have digits: "CHR ''r'' \<notin> set (itoa n)" "CHR ''a'' \<notin> set (itoa n)" if "0 \<le> n" for n
    using that itoa_char by fastforce+
  from c(10) consider "PreKind v = []" "PreNum v = 0"
    | "PreKind v = ''rc''" "0 \<le> PreNum v" "int64 (PreNum v)"
    | "PreKind v = ''a''" "0 \<le> PreNum v" "int64 (PreNum v)"
    | "PreKind v = ''b''" "0 \<le> PreNum v" "int64 (PreNum v)" by auto
  then show ?thesis
  proof cases
    case 1
    then show ?thesis
      using abs by (simp add: parse_pre_def splitPre_def core_text_def pre_text_def
          try_pre_absent [of "CHR ''r''"] try_pre_absent [of "CHR ''a''"] try_pre_absent [of "CHR ''b''"])
  next
    case 2
    then show ?thesis
      using last try_pre_present [of "PreNum v" "CHR ''r''" "''c''" ?R]
      by (simp add: parse_pre_def splitPre_def core_text_def pre_text_def)
  next
    case 3
    then show ?thesis
      using last abs digits try_pre_present [of "PreNum v" "CHR ''a''" "[]" ?R]
      by (simp add: parse_pre_def splitPre_def core_text_def pre_text_def
          try_pre_absent [of "CHR ''r''"])
  next
    case 4
    then show ?thesis
      using last abs digits try_pre_present [of "PreNum v" "CHR ''b''" "[]" ?R]
      by (simp add: parse_pre_def splitPre_def core_text_def pre_text_def
          try_pre_absent [of "CHR ''r''"] try_pre_absent [of "CHR ''a''"])
  qed
qed

lemma parse_post_text:
  assumes "canonical v"
  shows "parse_post (core_text v @ counter_text ''.post'' (Post v)) = Inr (core_text v, Post v)"
proof (cases "0 \<le> Post v")
  case True
  then show ?thesis
    using parse_counter_present [of "Post v" "CHR ''.''" "''post''"] canonicalD(7) [OF assms]
    by (simp add: parse_post_def counter_text_def)
next
  case False
  then have "Post v = -1" using canonicalD(6) [OF assms] by simp
  moreover have "CHR ''p'' \<notin> set (core_text v)" using assms by (simp add: core_text_absent)
  ultimately show ?thesis
    by (simp add: parse_post_def counter_text_def parse_counter_absent [of "CHR ''p''"])
qed

lemma parse_dev_text:
  assumes "canonical v"
  defines "r \<equiv> core_text v @ counter_text ''.post'' (Post v)"
  shows "parse_dev (r @ counter_text ''.dev'' (Dev v)) = Inr (r, Dev v)"
proof (cases "0 \<le> Dev v")
  case True
  then show ?thesis
    using parse_counter_present [of "Dev v" "CHR ''.''" "''dev''"] canonicalD(9) [OF assms(1)]
    by (simp add: parse_dev_def counter_text_def)
next
  case False
  then have "Dev v = -1" using canonicalD(8) [OF assms(1)] by simp
  moreover have "CHR ''d'' \<notin> set r"
    using assms(1) counter_text_char [of "CHR ''d''" "''.post''"] by (auto simp: core_text_absent r_def)
  ultimately show ?thesis
    by (simp add: parse_dev_def counter_text_def parse_counter_absent [of "CHR ''d''"])
qed

definition epoch_text :: "Version \<Rightarrow> bytes" where
  "epoch_text v = (if Epoch v > 0 then itoa (Epoch v) @ ''!'' else [])"

definition public_text :: "Version \<Rightarrow> bytes" where
  "public_text v = core_text v @ counter_text ''.post'' (Post v) @ counter_text ''.dev'' (Dev v)"

lemma Version_String_public:
  "Version_String v = (epoch_text v @ public_text v) @ (if Local v \<noteq> [] then ''+'' @ Local v else [])"
  by (simp add: Version_String_def core_text_def pre_text_def counter_text_def epoch_text_def
      public_text_def)

lemma public_text_char:
  "canonical v \<Longrightarrow> c \<in> set (public_text v) \<Longrightarrow> is_digit c \<or> c \<in> set ''.abrcpostdev''"
  by (fastforce simp: public_text_def dest: core_text_char counter_text_char)

lemma epoch_text_char: "canonical v \<Longrightarrow> c \<in> set (epoch_text v) \<Longrightarrow> is_digit c \<or> c = CHR ''!''"
  by (auto simp: epoch_text_def dest: itoa_pos_char split: if_splits)

lemma parse_epoch_text:
  assumes "canonical v"
  shows "parse_epoch (epoch_text v @ public_text v) = Inr (public_text v, Epoch v)"
proof (cases "Epoch v > 0")
  case True
  have "CHR ''!'' \<notin> set (itoa (Epoch v))" using True by (auto dest: itoa_pos_char)
  then show ?thesis
    using True canonicalD(2) [OF assms] by (simp add: parse_epoch_def epoch_text_def)
next
  case False
  have "CHR ''!'' \<notin> set (public_text v)" using public_text_char [OF assms, of "CHR ''!''"] by auto
  then have "index_of (public_text v) ''!'' = None" by simp
  then show ?thesis
    using False canonicalD(1) [OF assms] by (simp add: parse_epoch_def epoch_text_def)
qed

text \<open>A local label of ASCII letters, digits and dots is its own normal form.\<close>

definition local_label :: "bytes \<Rightarrow> bool" where
  "local_label s \<longleftrightarrow> (\<forall>c \<in> set s. isAlnum (byte c) \<or> c = CHR ''.'')"

lemma local_label_byte:
  assumes "local_label s" "c \<in> set s"
  shows "byte c = 46 \<or> 48 \<le> byte c \<and> byte c \<le> 57 \<or> 65 \<le> byte c \<and> byte c \<le> 90
    \<or> 97 \<le> byte c \<and> byte c \<le> 122"
proof (cases "c = CHR ''.''")
  case False
  then have "isAlnum (byte c)" using assms by (auto simp: local_label_def)
  then show ?thesis by (auto simp: isAlnum_def isDigit_def isAlpha_def)
qed simp

lemma local_label_no:
  assumes "local_label s"
  shows "CHR ''+'' \<notin> set s" "CHR ''-'' \<notin> set s" "CHR ''_'' \<notin> set s"
  using local_label_byte [OF assms, of "CHR ''+''"] local_label_byte [OF assms, of "CHR ''-''"]
    local_label_byte [OF assms, of "CHR ''_''"] by auto

lemma local_label_ascii: "local_label s \<Longrightarrow> ascii s"
  using local_label_byte by (fastforce simp: ascii_def list_all_iff)

lemma local_label_solid: "local_label s \<Longrightarrow> c \<in> set s \<Longrightarrow> solid c"
  using local_label_byte [of s c] by (auto simp: solid_def)

lemma local_label_normal: "local_label s \<Longrightarrow> normalise_local s = s"
  using local_label_no by (auto simp: normalise_local_def replace_byte_def intro!: map_idI)

lemma local_label_runes: "local_label s \<Longrightarrow> find (\<lambda>c. \<not> local_rune_ok c) (runes s) = None"
  by (auto simp: runes_ascii local_label_ascii find_None_iff local_rune_ok_def isAlnum_def
      isDigit_def isAlpha_def dest!: local_label_byte)

lemma parse_local_text:
  assumes "CHR ''+'' \<notin> set s" "local_label l"
  shows "parse_local (s @ (if l \<noteq> [] then ''+'' @ l else [])) = Inr (s, l)"
proof (cases "l = []")
  case True
  have "index_of s ''+'' = None" using assms(1) by simp
  then show ?thesis using True by (simp add: parse_local_def)
next
  case False
  then show ?thesis
    using assms by (simp add: parse_local_def local_label_normal local_label_runes)
qed

lemma Version_String_solid:
  assumes "canonical v" "c \<in> set (Version_String v)"
  shows "solid c"
proof -
  have lit: "\<forall>c \<in> set ''.abrcpostdev!+''. solid c" by (simp add: solid_def byte_def)
  have loc: "local_label (Local v)"
    using assms(1) by (simp add: canonical_def local_label_def)
  consider "c \<in> set (epoch_text v)" | "c \<in> set (public_text v)" | "c = CHR ''+''" | "c \<in> set (Local v)"
    using assms(2) by (auto simp: Version_String_public split: if_splits)
  then show ?thesis
    using epoch_text_char [OF assms(1), of c] public_text_char [OF assms(1), of c] lit
      local_label_solid [OF loc, of c] solid_digit [of c]
    by cases auto
qed

lemma Version_String_hd:
  assumes "canonical v"
  shows "Version_String v \<noteq> []" "is_digit (hd (Version_String v))"
proof -
  let ?R = "release_text (Release v)"
  have R: "?R \<noteq> []" "is_digit (hd ?R)"
    using canonicalD(3,5) [OF assms] by (simp_all add: release_text_not_Nil release_text_hd)
  then show "Version_String v \<noteq> []" by (simp add: Version_String_def)
  show "is_digit (hd (Version_String v))"
    using R canonicalD(1) [OF assms]
    by (simp add: Version_String_def hd_append hd_itoa_digit)
qed

lemma print_then_parse:
  assumes "canonical v"
  shows "Version_Parse (Version_String v) = Inr v"
proof -
  note c = canonicalD [OF assms]
  have loc: "local_label (Local v)" using assms by (simp add: canonical_def local_label_def)
  have "CHR ''+'' \<notin> set (epoch_text v @ public_text v)"
    using epoch_text_char [OF assms, of "CHR ''+''"] public_text_char [OF assms, of "CHR ''+''"]
    by auto
  then have local_ok: "parse_local (Version_String v) = Inr (epoch_text v @ public_text v, Local v)"
    using parse_local_text [OF _ loc] by (simp only: Version_String_public)
  have dev_ok: "parse_dev (public_text v)
      = Inr (core_text v @ counter_text ''.post'' (Post v), Dev v)"
    using parse_dev_text [OF assms] by (simp only: public_text_def append_assoc)
  have "hd (Version_String v) \<noteq> CHR ''v'' \<and> hd (Version_String v) \<noteq> CHR ''V''"
    using Version_String_hd(2) [OF assms] by auto
  moreover have "trim_space (Version_String v) = Version_String v"
    using Version_String_solid [OF assms] by (simp add: trim_space_all_solid)
  ultimately show ?thesis
    using Version_String_hd(1) [OF assms] unfolding Version_Parse_def
    by (simp add: local_ok parse_epoch_text [OF assms] dev_ok parse_post_text [OF assms]
        parse_pre_core [OF assms] parse_release_text [OF c(3,4)] del: join.simps)
qed

text \<open>Printing a canonical version and parsing the text gives the version back.\<close>

theorem Version_Parse_String:
  assumes "canonical v"
  shows "Version_Parse (Version_String v) = Inr v"
  using assms by (rule print_then_parse)

theorem Version_Parse_String_witness:
  "Version_Parse (Version_String \<lparr>Epoch = 1, Release = [2, 0], PreKind = ''rc'', PreNum = 1,
      Post = 0, Dev = 3, Local = ''ab.1''\<rparr>)
   = Inr \<lparr>Epoch = 1, Release = [2, 0], PreKind = ''rc'', PreNum = 1, Post = 0, Dev = 3,
      Local = ''ab.1''\<rparr>"
  by (rule Version_Parse_String)
    (simp add: canonical_def int64_def isAlnum_def isDigit_def isAlpha_def byte_def)

subsection \<open>Parsing, then printing\<close>

lemma ascii_normalise_local: "ascii s \<Longrightarrow> ascii (normalise_local s)"
  by (auto simp: ascii_def list_all_iff normalise_local_def replace_byte_def)

lemma find_runes_label:
  assumes "ascii s" "find (\<lambda>c. \<not> local_rune_ok c) (runes s) = None"
  shows "local_label s"
proof -
  have "local_rune_ok (byte c)" if "c \<in> set s" for c
    using assms that by (auto simp: runes_ascii find_None_iff)
  moreover have "c = CHR ''.''" if "byte c = 46" for c
    using that by (intro byte_inj) simp
  ultimately show ?thesis by (auto simp: local_label_def local_rune_ok_def byte_mod)
qed

lemma parse_local_label:
  assumes "ascii s" "parse_local s = Inr (r, l)"
  shows "local_label l"
proof (cases "index_of s ''+''")
  case None
  then show ?thesis using assms(2) by (simp add: parse_local_def local_label_def)
next
  case (Some i)
  let ?n = "normalise_local (drop (i + 1) s)"
  have "l = ?n" "find (\<lambda>c. \<not> local_rune_ok c) (runes ?n) = None"
    using assms(2) Some by (auto simp: parse_local_def Let_def split: if_splits option.splits)
  moreover have "ascii ?n"
    using assms(1) by (intro ascii_normalise_local) (auto simp: ascii_def list_all_iff dest: in_set_dropD)
  ultimately show ?thesis using find_runes_label by blast
qed

lemma parse_epoch_nonneg: "parse_epoch s = Inr (r, ep) \<Longrightarrow> 0 \<le> ep \<and> int64 ep"
  by (auto simp: parse_epoch_def int64_def dest: atoi_nonneg_Some split: option.splits)

lemma parse_counter_range: "parse_counter m e s = Inr (r, n) \<Longrightarrow> -1 \<le> n \<and> int64 n"
  by (auto simp: parse_counter_def int64_def dest!: atoi_nonneg_Some split: option.splits)

lemma first_pre_Some: "first_pre s ks = Some (k, n, i) \<Longrightarrow> k \<in> set ks \<and> 0 \<le> n \<and> int64 n"
  by (induction ks)
    (auto simp: try_pre_def Let_def dest!: atoi_nonneg_Some split: option.splits if_splits)

lemma parse_pre_kind:
  assumes "parse_pre s = (r, k, n)"
  shows "k = [] \<and> n = 0 \<or> k \<in> {''a'', ''b'', ''rc''} \<and> 0 \<le> n \<and> int64 n"
proof (cases "splitPre s")
  case None
  then show ?thesis using assms by (simp add: parse_pre_def)
next
  case (Some q)
  then obtain i where "splitPre s = Some (k, n, i)" using assms by (cases q) (auto simp: parse_pre_def)
  then have "k \<in> set [''rc'', ''a'', ''b''] \<and> 0 \<le> n \<and> int64 n"
    unfolding splitPre_def by (rule first_pre_Some)
  then show ?thesis by auto
qed

lemma parse_components_nonneg:
  "parse_components ps = Inr ns \<Longrightarrow> length ns = length ps \<and> (\<forall>n \<in> set ns. 0 \<le> n \<and> int64 n)"
  by (induction ps arbitrary: ns)
    (auto split: if_splits option.splits sum.splits dest: atoi_nonneg_Some)

lemma parse_release_nonneg:
  "parse_release s = Inr ns \<Longrightarrow> ns \<noteq> [] \<and> (\<forall>n \<in> set ns. 0 \<le> n \<and> int64 n)"
  using parse_components_nonneg split_on_len
  by (force simp: parse_release_def split: if_splits)

lemma Version_Parse_stages:
  assumes "Version_Parse s = Inr v"
  obtains r1 r2 r3 r4 r5 where "s \<noteq> []" "trim_space s = s" "parse_local s = Inr (r1, Local v)"
    "parse_epoch r1 = Inr (r2, Epoch v)" "parse_dev r2 = Inr (r3, Dev v)"
    "parse_post r3 = Inr (r4, Post v)" "parse_pre r4 = (r5, PreKind v, PreNum v)"
    "parse_release r5 = Inr (Release v)"
  using assms by (auto simp: Version_Parse_def split: if_splits sum.splits prod.splits)

text \<open>C22. Every version parsed from ASCII text is canonical, so its text parses to it again.\<close>

theorem Version_Parse_canonical:
  assumes "Version_Parse s = Inr v" "ascii s"
  shows "canonical v \<and> Version_Parse (Version_String v) = Inr v"
proof -
  from assms(1) obtain r1 r2 r3 r4 r5 where st: "parse_local s = Inr (r1, Local v)"
    "parse_epoch r1 = Inr (r2, Epoch v)" "parse_dev r2 = Inr (r3, Dev v)"
    "parse_post r3 = Inr (r4, Post v)" "parse_pre r4 = (r5, PreKind v, PreNum v)"
    "parse_release r5 = Inr (Release v)"
    by (rule Version_Parse_stages) blast
  have "canonical v"
    using parse_epoch_nonneg [OF st(2)] parse_counter_range [OF st(3) [unfolded parse_dev_def]]
      parse_counter_range [OF st(4) [unfolded parse_post_def]] parse_pre_kind [OF st(5)]
      parse_release_nonneg [OF st(6)] parse_local_label [OF assms(2) st(1)]
    by (simp add: canonical_def local_label_def)
  then show ?thesis using print_then_parse by blast
qed

lemma Version_Parse_canonical_witness:
  "\<exists>v. Version_Parse ''1!2.0rc1.post3'' = Inr v \<and> Version_Parse (Version_String v) = Inr v"
proof -
  have "isOK (Version_Parse ''1!2.0rc1.post3'')" by code_simp
  then obtain v where v: "Version_Parse ''1!2.0rc1.post3'' = Inr v" by (auto simp: isOK_iff)
  have "ascii ''1!2.0rc1.post3''" by code_simp
  from Version_Parse_canonical [OF v this] v show ?thesis by blast
qed

subsection \<open>The order\<close>

definition cmpInt :: "int \<Rightarrow> int \<Rightarrow> int" where
  "cmpInt a b = (if a < b then -1 else if a > b then 1 else 0)"

definition cmpRelease :: "int list \<Rightarrow> int list \<Rightarrow> int" where
  "cmpRelease = cmp_padded cmpInt 0"

text \<open>The local type \<open>key\<close> of \<open>cmpPreKey\<close> and its constructor \<open>keyOf\<close>.\<close>

record prekey =
  negInf :: bool
  posInf :: bool
  kind :: bytes
  num :: int

definition keyOf :: "Version \<Rightarrow> prekey" where
  "keyOf x =
     (if PreKind x = [] \<and> Post x < 0 \<and> Dev x \<ge> 0
      then \<lparr>negInf = True, posInf = False, kind = [], num = 0\<rparr>
      else if PreKind x = [] then \<lparr>negInf = False, posInf = True, kind = [], num = 0\<rparr>
      else \<lparr>negInf = False, posInf = False, kind = PreKind x, num = PreNum x\<rparr>)"

definition cmpPreKey :: "Version \<Rightarrow> Version \<Rightarrow> int" where
  "cmpPreKey v w =
     (let a = keyOf v; b = keyOf w in
      if negInf a \<noteq> negInf b then (if negInf a then -1 else 1)
      else if posInf a \<noteq> posInf b then (if posInf a then 1 else -1)
      else if negInf a \<or> posInf a then 0
      else cmp_then (cmp_lin (kind a) (kind b)) (cmpInt (num a) (num b)))"

definition cmpPostKey :: "Version \<Rightarrow> Version \<Rightarrow> int" where
  "cmpPostKey v w =
     (if Post v < 0 \<and> Post w < 0 then 0 else if Post v < 0 then -1 else if Post w < 0 then 1
      else cmpInt (Post v) (Post w))"

definition cmpDevKey :: "Version \<Rightarrow> Version \<Rightarrow> int" where
  "cmpDevKey v w =
     (if Dev v < 0 \<and> Dev w < 0 then 0 else if Dev v < 0 then 1 else if Dev w < 0 then -1
      else cmpInt (Dev v) (Dev w))"

definition tryAtoi :: "bytes \<Rightarrow> int option" where
  "tryAtoi s = (if s = [] then None
     else if \<not> list_all (\<lambda>c. 48 \<le> c \<and> c \<le> 57) (runes s) then None else atoi s)"

text \<open>One turn of the loop of \<open>cmpLocal\<close>: the comparison of two segments, 0 to continue.\<close>

definition cmp_segment :: "bytes \<Rightarrow> bytes \<Rightarrow> int" where
  "cmp_segment ap bp =
     (case (tryAtoi ap, tryAtoi bp) of
        (Some aN, Some bN) \<Rightarrow> cmpInt aN bN
      | (Some _, None) \<Rightarrow> 1
      | (None, Some _) \<Rightarrow> -1
      | (None, None) \<Rightarrow> cmp_lin ap bp)"

definition cmpLocal :: "bytes \<Rightarrow> bytes \<Rightarrow> int" where
  "cmpLocal a b =
     (if a = [] \<and> b = [] then 0 else if a = [] then -1 else if b = [] then 1
      else cmp_padded cmp_segment [] (split_on CHR ''.'' a) (split_on CHR ''.'' b))"

definition Version_Compare :: "Version \<Rightarrow> Version \<Rightarrow> int" where
  "Version_Compare v w =
     cmp_then (cmpInt (Epoch v) (Epoch w))
       (cmp_then (cmpRelease (Release v) (Release w))
         (cmp_then (cmpPreKey v w)
           (cmp_then (cmpPostKey v w)
             (cmp_then (cmpDevKey v w) (cmpLocal (Local v) (Local w))))))"

subsection \<open>Each step of the cascade compares a key\<close>

definition pre_rank :: "Version \<Rightarrow> int \<times> bytes \<times> int" where
  "pre_rank x =
     (if PreKind x = [] \<and> Post x < 0 \<and> Dev x \<ge> 0 then (0, [], 0)
      else if PreKind x = [] then (2, [], 0) else (1, PreKind x, PreNum x))"

definition dev_rank :: "Version \<Rightarrow> int \<times> int" where
  "dev_rank x = (if Dev x < 0 then (1, 0) else (0, Dev x))"

definition segment_rank :: "bytes \<Rightarrow> int \<times> int \<times> bytes" where
  "segment_rank s = (case tryAtoi s of None \<Rightarrow> (0, 0, s) | Some n \<Rightarrow> (1, n, []))"

lemma cmpInt_lin: "cmpInt = cmp_lin"
  by (intro ext) (simp add: cmpInt_def cmp_lin_def)

lemma cmpPreKey_lin: "cmpPreKey v w = cmp_lin (pre_rank v) (pre_rank w)"
  by (simp add: cmpPreKey_def keyOf_def pre_rank_def cmpInt_lin Let_def cmp_then_lin)
    (simp add: cmp_lin_def)

lemma cmpPostKey_lin: "cmpPostKey v w = cmp_lin (max (-1) (Post v)) (max (-1) (Post w))"
  by (simp add: cmpPostKey_def cmpInt_lin) (simp add: cmp_lin_def)

lemma cmpDevKey_lin: "cmpDevKey v w = cmp_lin (dev_rank v) (dev_rank w)"
  by (simp add: cmpDevKey_def dev_rank_def cmpInt_lin) (simp add: cmp_lin_def)

lemma cmp_segment_lin: "cmp_segment a b = cmp_lin (segment_rank a) (segment_rank b)"
  by (simp add: cmp_segment_def segment_rank_def cmpInt_lin split: option.split)
    (simp add: cmp_lin_def)

text \<open>
  The comparison of two local labels is a cascade too: presence first, then the padded segments
  (an absent label has no segments).
\<close>

lemma cmpLocal_cascade:
  "cmpLocal a b = cmp_then (cmp_lin (a \<noteq> []) (b \<noteq> []))
     (cmp_padded cmp_segment [] (if a = [] then [] else split_on CHR ''.'' a)
       (if b = [] then [] else split_on CHR ''.'' b))"
  by (simp add: cmpLocal_def) (simp add: cmp_lin_def)

lemma three_way_segment: "three_way cmp_segment"
proof -
  have eq: "cmp_segment = (\<lambda>x y. cmp_lin (segment_rank x) (segment_rank y))"
    by (intro ext) (rule cmp_segment_lin)
  show ?thesis unfolding eq by (rule three_way_key [OF three_way_lin])
qed

lemma three_way_Local: "three_way cmpLocal"
proof -
  let ?seg = "\<lambda>s. if s = [] then [] else split_on CHR ''.'' s"
  have eq: "cmpLocal = (\<lambda>a b. cmp_then (cmp_lin (a \<noteq> []) (b \<noteq> []))
      (cmp_padded cmp_segment [] (?seg a) (?seg b)))"
    by (intro ext) (rule cmpLocal_cascade)
  show ?thesis
    unfolding eq
    by (intro three_way_then three_way_key [OF three_way_lin]
        three_way_key [OF three_way.three_way_padded [OF three_way_segment]])
qed

lemma three_way_Compare: "three_way Version_Compare"
proof -
  have eqs: "cmpPreKey = (\<lambda>v w. cmp_lin (pre_rank v) (pre_rank w))"
    "cmpPostKey = (\<lambda>v w. cmp_lin (max (-1) (Post v)) (max (-1) (Post w)))"
    "cmpDevKey = (\<lambda>v w. cmp_lin (dev_rank v) (dev_rank w))"
    by (intro ext cmpPreKey_lin cmpPostKey_lin cmpDevKey_lin)+
  have rel: "three_way (\<lambda>v w. cmpRelease (Release v) (Release w))"
    unfolding cmpRelease_def cmpInt_lin
    by (rule three_way_key [OF three_way.three_way_padded [OF three_way_lin]])
  have "Version_Compare = (\<lambda>v w. cmp_then (cmp_lin (Epoch v) (Epoch w))
     (cmp_then (cmpRelease (Release v) (Release w)) (cmp_then (cmpPreKey v w)
       (cmp_then (cmpPostKey v w) (cmp_then (cmpDevKey v w) (cmpLocal (Local v) (Local w)))))))"
    by (intro ext) (simp add: Version_Compare_def cmpInt_lin)
  moreover have "three_way \<dots>"
    unfolding eqs
    by (intro three_way_then rel three_way_key [OF three_way_lin] three_way_key [OF three_way_Local])
  ultimately show ?thesis by simp
qed

interpretation version_order: three_way Version_Compare
  by (rule three_way_Compare)

interpretation version_cascade:
  three_way_pair "\<lambda>v w. cmpInt (Epoch v) (Epoch w)" "\<lambda>v w. cmpRelease (Release v) (Release w)"
  unfolding three_way_pair_def cmpRelease_def cmpInt_lin
  by (intro conjI three_way_key [OF three_way.three_way_padded [OF three_way_lin]]
      three_way_key [OF three_way_lin])








text \<open>A version that differs from a bare release in its suffixes only.\<close>

definition suffixed :: "int \<Rightarrow> int list \<Rightarrow> bytes \<Rightarrow> int \<Rightarrow> int \<Rightarrow> int \<Rightarrow> Version" where
  "suffixed e r k n p d = \<lparr>Epoch = e, Release = r, PreKind = k, PreNum = n, Post = p, Dev = d,
     Local = []\<rparr>"

lemma cmpRelease_refl [simp]: "cmpRelease r r = 0"
  unfolding cmpRelease_def cmpInt_lin by (rule three_way.cmp_refl [OF lin.three_way_padded])

text \<open>
  The number line of PEP 440: with the same epoch and release, a dev release sorts before any
  alpha, an alpha before any beta, a beta before any candidate, a candidate before the final
  release and the final release before any post release, and a dev release of a suffixed version
  sorts before that version.
\<close>

theorem Version_Compare_number_line:
  assumes "0 \<le> d" "0 \<le> p"
  shows "Version_Compare (suffixed e r [] 0 (-1) d) (suffixed e r ''a'' n q d') < 0
    \<and> Version_Compare (suffixed e r ''a'' n q d') (suffixed e r ''b'' n' q' d'') < 0
    \<and> Version_Compare (suffixed e r ''b'' n q d') (suffixed e r ''rc'' n' q' d'') < 0
    \<and> Version_Compare (suffixed e r ''rc'' n q d') (suffixed e r [] 0 (-1) (-1)) < 0
    \<and> Version_Compare (suffixed e r [] 0 (-1) (-1)) (suffixed e r [] 0 p d') < 0
    \<and> Version_Compare (suffixed e r k n q d) (suffixed e r k n q (-1)) < 0"
  using assms
  by (simp add: Version_Compare_def cmpInt_lin cmpPreKey_lin cmpPostKey_lin cmpDevKey_lin
      pre_rank_def dev_rank_def suffixed_def cmpLocal_def cmp_lin_def cmp_then_def)

theorem Version_Compare_number_line_witness:
  "Version_Compare (suffixed 0 [1] [] 0 (-1) 4) (suffixed 0 [1] ''a'' 1 (-1) (-1)) < 0
    \<and> Version_Compare (suffixed 0 [1] [] 0 (-1) (-1)) (suffixed 0 [1] [] 0 0 (-1)) < 0"
  using Version_Compare_number_line [of 4 0 0 "[1]" 1 "-1" "-1"] by simp

subsection \<open>Where the parser is laxer than its comments say\<close>

text \<open>
  The comment on \<open>Parse\<close> promises that the text of a parsed version is the parsed text; leading
  zeros, a zero epoch and signed zeros are accepted and normalised away.
\<close>

lemma Parse_accepts_noncanonical:
  "map_sum id Version_String (Version_Parse ''01.0'') = Inr ''1.0''"
  "map_sum id Version_String (Version_Parse ''0!1.0'') = Inr ''1.0''"
  "map_sum id Version_String (Version_Parse ''1.-0'') = Inr ''1.0''"
  by code_simp+

text \<open>
  The check of a local label truncates each rune to a byte, so U+0161 passes as the letter U+0061.
\<close>

lemma Parse_accepts_nonascii_label:
  "map_sum id Local (Version_Parse (''1.0+'' @ [CHR 0xC5, CHR 0xA1])) = Inr [CHR 0xC5, CHR 0xA1]"
  by code_simp

end
