(* ===== verification/Semver_Specifier.thy ===== *)
theory Semver_Specifier
  imports Semver_Version
begin

section \<open>PEP 440 specifiers (semver/specifier.go)\<close>

text \<open>
  A specifier is a comma separated list of clauses, a clause an operator and a version.  Parsing,
  printing and matching follow the Go functions; the matching lemmas rest on the laws of the
  three-way comparison (\<open>version_order\<close>).
\<close>

datatype Operator = OpInvalid | OpEq | OpNeq | OpLt | OpLte | OpGt | OpGte | OpCompat | OpArbitrary

fun Operator_String :: "Operator \<Rightarrow> bytes" where
  "Operator_String OpEq = ''==''"
| "Operator_String OpNeq = ''!=''"
| "Operator_String OpLt = ''<''"
| "Operator_String OpLte = ''<=''"
| "Operator_String OpGt = ''>''"
| "Operator_String OpGte = ''>=''"
| "Operator_String OpCompat = ''~=''"
| "Operator_String OpArbitrary = ''===''"
| "Operator_String OpInvalid = ''?''"

record Clause =
  Op :: Operator
  Version :: Version
  Original :: bytes

record Specifier =
  Clauses :: "Clause list"

datatype ClauseError = EmptyClause | MissingVersion bytes | BadVersion bytes VersionError | NoOperator bytes

definition clause_ops :: "(bytes \<times> Operator) list" where
  "clause_ops = [(''==='', OpArbitrary), (''=='', OpEq), (''!='', OpNeq), (''<='', OpLte),
     (''>='', OpGte), (''~='', OpCompat), (''<'', OpLt), (''>'', OpGt)]"

fun try_ops :: "bytes \<Rightarrow> (bytes \<times> Operator) list \<Rightarrow> ClauseError + Clause" where
  "try_ops src [] = Inl (NoOperator src)"
| "try_ops src ((token, op) # es) =
     (if has_prefix src token then
        let versionText = trim_space (drop (length token) src) in
        if versionText = [] then Inl (MissingVersion src)
        else (case Version_Parse versionText of
                Inl e \<Rightarrow> Inl (BadVersion src e)
              | Inr v \<Rightarrow> Inr \<lparr>Op = op, Version = v, Original = src\<rparr>)
      else try_ops src es)"

definition ParseClause :: "bytes \<Rightarrow> ClauseError + Clause" where
  "ParseClause s =
     (let src = trim_space s in if src = [] then Inl EmptyClause else try_ops src clause_ops)"

fun parse_clauses :: "bytes list \<Rightarrow> ClauseError + Clause list" where
  "parse_clauses [] = Inr []"
| "parse_clauses (raw # rest) =
     (case ParseClause raw of
        Inl e \<Rightarrow> Inl e
      | Inr c \<Rightarrow> (case parse_clauses rest of Inl e \<Rightarrow> Inl e | Inr cs \<Rightarrow> Inr (c # cs)))"

definition ParseSpecifier :: "bytes \<Rightarrow> ClauseError + Specifier" where
  "ParseSpecifier s =
     (let src = trim_space s in
      if src = [] then Inr \<lparr>Clauses = []\<rparr>
      else (case parse_clauses (split_on CHR '','' src) of
              Inl e \<Rightarrow> Inl e
            | Inr cs \<Rightarrow> Inr \<lparr>Clauses = cs\<rparr>))"

definition clause_text :: "Clause \<Rightarrow> bytes" where
  "clause_text c = Operator_String (Op c) @ Version_String (Version c)"

definition Specifier_String :: "Specifier \<Rightarrow> bytes" where
  "Specifier_String s = join '', '' (map clause_text (Clauses s))"

definition matchCompatible :: "Version \<Rightarrow> Version \<Rightarrow> bool" where
  "matchCompatible v ref =
     (if Version_Compare v ref < 0 then False
      else let n = length (Release ref) - 1 in
           if n \<le> 0 then False
           else if length (Release v) < n then False
           else list_all (\<lambda>i. Release v ! i = Release ref ! i) [0..<n])"

definition Clause_Match :: "Clause \<Rightarrow> Version \<Rightarrow> bool" where
  "Clause_Match c v =
     (let cmp = Version_Compare v (Version c) in
      case Op c of
        OpEq \<Rightarrow> cmp = 0 | OpNeq \<Rightarrow> cmp \<noteq> 0 | OpLt \<Rightarrow> cmp < 0 | OpLte \<Rightarrow> cmp \<le> 0 | OpGt \<Rightarrow> cmp > 0
      | OpGte \<Rightarrow> cmp \<ge> 0 | OpCompat \<Rightarrow> matchCompatible v (Version c)
      | OpArbitrary \<Rightarrow> Version_String v = Version_String (Version c)
      | OpInvalid \<Rightarrow> False)"

fun match_clauses :: "Clause list \<Rightarrow> Version \<Rightarrow> bool" where
  "match_clauses [] v = True"
| "match_clauses (c # cs) v = (if \<not> Clause_Match c v then False else match_clauses cs v)"

definition Specifier_Match :: "Specifier \<Rightarrow> Version \<Rightarrow> bool" where
  "Specifier_Match s v = match_clauses (Clauses s) v"

subsection \<open>Printing, then parsing\<close>

definition canonical_clause :: "Clause \<Rightarrow> bool" where
  "canonical_clause c \<longleftrightarrow>
     canonical (Version c) \<and> Op c \<noteq> OpInvalid \<and> Original c = clause_text c"

lemma clause_text_solid:
  assumes "canonical_clause c" "x \<in> set (clause_text c)"
  shows "solid x"
proof -
  have "\<forall>x \<in> set (Operator_String (Op c)). solid x"
    by (cases "Op c") (simp_all add: solid_def)
  then show ?thesis
    using assms Version_String_solid by (auto simp: clause_text_def canonical_clause_def)
qed

lemma clause_text_not_Nil: "clause_text c \<noteq> []"
  by (cases "Op c") (simp_all add: clause_text_def)

lemma clause_text_no:
  assumes "canonical_clause c" "x = CHR '','' \<or> x = CHR '':''"
  shows "x \<notin> set (clause_text c)"
proof
  let ?v = "Version c"
  assume "x \<in> set (clause_text c)"
  moreover have "x \<notin> set (Operator_String (Op c))" using assms(2) by (cases "Op c") auto
  ultimately have mem: "x \<in> set (Version_String ?v)" by (simp add: clause_text_def)
  have can: "canonical ?v" using assms by (simp add: canonical_clause_def)
  then have lab: "local_label (Local ?v)" by (simp add: canonical_def local_label_def)
  have "\<not> is_digit x" using assms(2) by (auto simp: is_digit_def)
  then show False
    using mem epoch_text_char [OF can, of x] public_text_char [OF can, of x]
      local_label_byte [OF lab, of x] assms(2)
    by (auto simp: Version_String_public split: if_splits)
qed

lemmas clause_text_no_comma = clause_text_no [OF _ disjI1 [OF refl]]

lemma trim_leading_space: "s \<noteq> [] \<Longrightarrow> solid (hd s) \<Longrightarrow> solid (last s) \<Longrightarrow> trim_space (CHR '' '' # s) = s"
proof -
  assume a: "s \<noteq> []" "solid (hd s)" "solid (last s)"
  have "blank_len (CHR '' '' # s) = 1"
    by (cases "CHR '' '' # s" rule: blank_len.cases) (auto simp: is_blank_def)
  then have "trim_blanks blank_len (CHR '' '' # s) = trim_blanks blank_len s"
    by (subst trim_blanks.simps) simp
  then show "trim_space (CHR '' '' # s) = s"
    using trim_space_solid [OF a] by (simp add: trim_space_def)
qed

lemma ParseClause_space:
  assumes "canonical_clause c"
  shows "ParseClause (CHR '' '' # clause_text c) = ParseClause (clause_text c)"
proof -
  have ends: "solid (hd (clause_text c))" "solid (last (clause_text c))"
    using clause_text_solid [OF assms] clause_text_not_Nil by (meson hd_in_set last_in_set)+
  show ?thesis
    using trim_leading_space [OF clause_text_not_Nil ends] trim_space_solid [OF clause_text_not_Nil ends]
    by (simp add: ParseClause_def)
qed

lemma ParseClause_text:
  assumes "canonical_clause c"
  shows "ParseClause (clause_text c) = Inr c"
proof -
  let ?t = "Version_String (Version c)"
  have can: "canonical (Version c)" and orig: "Original c = clause_text c" and op: "Op c \<noteq> OpInvalid"
    using assms by (auto simp: canonical_clause_def)
  obtain x xs where t: "?t = x # xs" "is_digit x"
    using Version_String_hd [OF can] by (cases ?t) auto
  then have x: "x \<noteq> CHR ''=''" "x \<noteq> CHR ''>''" by (auto simp: is_digit_def)
  have "trim_space ?t = ?t" using Version_String_solid [OF can] by (simp add: trim_space_all_solid)
  moreover have "trim_space (clause_text c) = clause_text c"
    using clause_text_solid [OF assms] by (simp add: trim_space_all_solid)
  ultimately show ?thesis
    using op x t orig clause_text_not_Nil [of c] print_then_parse [OF can]
    by (cases "Op c"; cases c) (simp_all add: ParseClause_def clause_ops_def clause_text_def)
qed

lemma split_comma_space:
  "\<forall>t \<in> set (t # ts). CHR '','' \<notin> set t \<Longrightarrow>
     split_on CHR '','' (join '', '' (t # ts)) = t # map (\<lambda>t. CHR '' '' # t) ts"
proof (induction ts arbitrary: t)
  case (Cons u us)
  have "split_on CHR '','' (CHR '' '' # join '', '' (u # us)) =
      (CHR '' '' # u) # map (\<lambda>t. CHR '' '' # t) us"
    using Cons by simp
  then show ?case using Cons.prems by simp
qed simp

lemma parse_clauses_spaced:
  "\<forall>c \<in> set cs. canonical_clause c \<Longrightarrow>
     parse_clauses (map (\<lambda>c. CHR '' '' # clause_text c) cs) = Inr cs"
  by (induction cs) (simp_all add: ParseClause_space ParseClause_text)

lemma specifier_text_parse:
  assumes "\<forall>c \<in> set (Clauses s). canonical_clause c"
  shows "ParseSpecifier (Specifier_String s) = Inr s"
proof (cases "Clauses s")
  case Nil
  then show ?thesis by (cases s) (simp add: ParseSpecifier_def Specifier_String_def)
next
  case (Cons c cs)
  let ?ts = "map clause_text (c # cs)"
  have can: "canonical_clause c" "\<forall>c \<in> set cs. canonical_clause c" using assms Cons by auto
  have "solid (hd (join '', '' ?ts))" "join '', '' ?ts \<noteq> []"
    using clause_text_solid [OF can(1)] clause_text_not_Nil
    by (simp_all add: hd_join join_not_Nil del: join.simps)
  moreover have "solid (last (join '', '' ?ts))"
  proof -
    have "last ?ts \<noteq> []" by (simp add: last_map clause_text_not_Nil del: list.map)
    then have "last (join '', '' ?ts) = last (last ?ts)" by (simp add: last_join del: list.map)
    also have "last ?ts = clause_text (last (c # cs))" by (rule last_map) simp
    finally show ?thesis
      using can clause_text_solid [of "last (c # cs)"] clause_text_not_Nil [of "last (c # cs)"]
      by (metis assms last_in_set list.distinct(1) local.Cons)
  qed
  ultimately have "trim_space (Specifier_String s) = join '', '' ?ts"
    by (simp add: Specifier_String_def Cons trim_space_solid del: join.simps list.map)
  moreover have "split_on CHR '','' (join '', '' ?ts) =
      clause_text c # map (\<lambda>c. CHR '' '' # clause_text c) cs"
    using can clause_text_no_comma
    by (subst list.map, subst split_comma_space) auto
  ultimately show ?thesis
    using can \<open>join '', '' ?ts \<noteq> []\<close> Cons
    by (cases s) (simp add: ParseSpecifier_def ParseClause_text parse_clauses_spaced del: join.simps)
qed

text \<open>Printing a specifier of canonical clauses and parsing the text gives it back.\<close>

theorem ParseSpecifier_String:
  assumes "\<forall>c \<in> set (Clauses s). canonical_clause c"
  shows "ParseSpecifier (Specifier_String s) = Inr s"
  by (rule specifier_text_parse [OF assms])

theorem ParseSpecifier_String_witness:
  "let v = \<lparr>Epoch = 0, Release = [2, 0], PreKind = [], PreNum = 0, Post = -1, Dev = -1, Local = []\<rparr>;
       w = v\<lparr>Release := [3]\<rparr>;
       s = \<lparr>Clauses = [\<lparr>Op = OpGte, Version = v, Original = ''>=2.0''\<rparr>,
              \<lparr>Op = OpLt, Version = w, Original = ''<3''\<rparr>]\<rparr>
   in Specifier_String s = ''>=2.0, <3'' \<and> ParseSpecifier (Specifier_String s) = Inr s"
  unfolding Let_def
proof (rule conjI, code_simp, rule ParseSpecifier_String)
qed (simp add: canonical_clause_def canonical_def int64_def, code_simp)

subsection \<open>Matching\<close>

lemma match_clauses_all: "match_clauses cs v \<longleftrightarrow> (\<forall>c \<in> set cs. Clause_Match c v)"
  by (induction cs) auto

definition order_op :: "Operator \<Rightarrow> bool" where
  "order_op p \<longleftrightarrow> p \<in> {OpEq, OpLt, OpLte, OpGt, OpGte}"

lemma Clause_Match_between:
  assumes "order_op (Op c)" "Clause_Match c u" "Clause_Match c w"
    "Version_Compare u v \<le> 0" "Version_Compare v w \<le> 0"
  shows "Clause_Match c v"
proof -
  let ?r = "Version c"
  note sw = version_order.cmp_swap [of u ?r] version_order.cmp_swap [of v ?r]
    version_order.cmp_swap [of w ?r]
  have le: "Version_Compare v ?r \<le> 0" if "Version_Compare w ?r \<le> 0"
    using version_order.cmp_le_trans assms(5) that .
  have less: "Version_Compare v ?r < 0" if "Version_Compare w ?r < 0"
    using version_order.cmp_le_less_trans assms(5) that .
  have ge: "Version_Compare ?r v \<le> 0" if "Version_Compare ?r u \<le> 0"
    using version_order.cmp_le_trans that assms(4) .
  have gr: "Version_Compare ?r v < 0" if "Version_Compare ?r u < 0"
    using version_order.cmp_less_trans that assms(4) .
  show ?thesis
    using assms(1,2,3) le less ge gr sw
    by (auto simp: order_op_def Clause_Match_def Let_def)
qed

text \<open>
  C23. The versions a specifier of ordering clauses admits form an interval: with two versions it
  admits every version between them.
\<close>

theorem Specifier_Match_interval:
  assumes "\<forall>c \<in> set (Clauses s). order_op (Op c)" "Specifier_Match s u" "Specifier_Match s w"
    "Version_Compare u v \<le> 0" "Version_Compare v w \<le> 0"
  shows "Specifier_Match s v"
proof -
  have "Clause_Match c v" if c: "c \<in> set (Clauses s)" for c
  proof (rule Clause_Match_between)
    show "order_op (Op c)" using assms(1) c by blast
    show "Clause_Match c u" "Clause_Match c w"
      using assms(2,3) c by (simp_all add: Specifier_Match_def match_clauses_all)
  qed (use assms(4,5) in simp_all)
  then show ?thesis by (simp add: Specifier_Match_def match_clauses_all)
qed

theorem Specifier_Match_interval_witness:
  "let r = (\<lambda>n. suffixed 0 [n] [] 0 (-1) (-1));
       s = \<lparr>Clauses = [\<lparr>Op = OpGte, Version = r 1, Original = ''>=1''\<rparr>]\<rparr>
   in Specifier_Match s (r 3)"
proof -
  let ?r = "\<lambda>n. suffixed 0 [n] [] 0 (-1) (-1)"
  let ?s = "\<lparr>Clauses = [\<lparr>Op = OpGte, Version = ?r 1, Original = ''>=1''\<rparr>]\<rparr>"
  have "Specifier_Match ?s (?r 2)" "Specifier_Match ?s (?r 4)"
    "Version_Compare (?r 2) (?r 3) \<le> 0" "Version_Compare (?r 3) (?r 4) \<le> 0" by code_simp+
  then show ?thesis
    using Specifier_Match_interval [of ?s "?r 2" "?r 4" "?r 3"] by (simp add: order_op_def Let_def)
qed

text \<open>Compatible release: not below the reference, and the same release but for its last part.\<close>

theorem matchCompatible_iff:
  "matchCompatible v ref \<longleftrightarrow>
     Version_Compare ref v \<le> 0 \<and> 2 \<le> length (Release ref) \<and> prefix (butlast (Release ref)) (Release v)"
proof -
  have nth: "(length r - Suc 0 \<le> length s \<and> (\<forall>i < length r - Suc 0. s ! i = r ! i))
      \<longleftrightarrow> prefix (butlast r) s" for r s :: "int list"
    by (auto simp: prefix_def butlast_conv_take nth_append list_eq_iff_nth_eq
        intro!: exI [of _ "drop (length r - Suc 0) s"])
  show ?thesis
    using version_order.cmp_swap [of v ref] nth [of "Release ref" "Release v"]
    by (auto simp: matchCompatible_def Let_def list_all_iff not_less)
qed

text \<open>
  Two consequences of \<open>matchCompatible_iff\<close> that PEP 440 does not intend: the epoch is not part of
  the compared prefix, and a candidate with fewer release parts is rejected even when it equals the
  reference.
\<close>

lemma compatible_ignores_epoch:
  "matchCompatible (suffixed 1 [2, 5] [] 0 (-1) (-1)) (suffixed 0 [2, 2] [] 0 (-1) (-1))"
  by code_simp

lemma compatible_rejects_equal:
  "Version_Compare (suffixed 0 [2] [] 0 (-1) (-1)) (suffixed 0 [2, 0, 0] [] 0 (-1) (-1)) = 0
   \<and> \<not> matchCompatible (suffixed 0 [2] [] 0 (-1) (-1)) (suffixed 0 [2, 0, 0] [] 0 (-1) (-1))"
  by code_simp

end
