(* ===== verification/Wheel_Select.thy ===== *)
theory Wheel_Select
  imports Go_Strings
begin

section \<open>Choosing a wheel from candidates: the interface of the two selectors\<close>

text \<open>
  \<open>abi2026.Selector.Select\<close> and \<open>pyodide.Selector.Select\<close> have the same shape: a loop that
  judges every candidate, files a reason under the file name of each rejected one and appends each
  admitted one to a pool; a stable sort of the pool; the first element of the sorted pool wins.
  \<open>scan\<close> is the loop, \<open>first_of\<close> the sort and the choice.  The locale \<open>wheel_selector\<close>
  states what a selector supplies (a judgement and a ranking) and proves once what a selection
  promises.
\<close>

subsection \<open>The fields of a wheel file name\<close>

text \<open>
  Every tag reader splits the file name at its hyphens and takes the last three fields for
  interpreter, ABI and platform.
\<close>

lemma split_on_app: "split_on c (s @ c # t) = split_on c s @ split_on c t"
proof (induction s)
  case (Cons a s)
  then show ?case by (cases "split_on c s") auto
qed simp

lemma length_split_on: "length (split_on c s) = Suc (count_list s c)"
proof (induction s)
  case (Cons a s)
  then show ?case by (cases "split_on c s") auto
qed simp

lemma split_on_last3:
  assumes "5 \<le> length (split_on c s)"
  obtains pre py ab plat where "s = pre @ c # py @ c # ab @ c # plat" "c \<in> set pre"
    "c \<notin> set py" "c \<notin> set ab" "c \<notin> set plat"
    "split_on c s = split_on c pre @ [py, ab, plat]"
proof -
  let ?ps = "split_on c s"
  define xs where "xs = take (length ?ps - 3) ?ps"
  have "length (drop (length ?ps - 3) ?ps) = 3" using assms by simp
  then obtain py ab plat where d: "drop (length ?ps - 3) ?ps = [py, ab, plat]"
    unfolding numeral_3_eq_3 length_Suc_conv by blast
  have ps: "?ps = xs @ [py, ab, plat]"
    unfolding xs_def using d by (metis append_take_drop_id)
  have xs: "2 \<le> length xs" using assms by (simp add: xs_def)
  then have xs0: "xs \<noteq> []" by auto
  have parts: "\<forall>p \<in> set ?ps. c \<notin> set p" using split_on_parts by fast
  have "s = join [c] ?ps" by simp
  also have "\<dots> = join [c] xs @ c # py @ c # ab @ c # plat"
    unfolding ps using xs0 by (simp add: join_append)
  finally have s: "s = join [c] xs @ c # py @ c # ab @ c # plat" .
  have j: "split_on c (join [c] xs) = xs" using xs0 parts ps by (intro split_on_join) auto
  have "count_list (join [c] xs) c \<noteq> 0" using xs length_split_on [of c "join [c] xs"] j by simp
  then have cin: "c \<in> set (join [c] xs)" by (metis count_notin)
  have "split_on c s = split_on c (join [c] xs) @ [py, ab, plat]" using j ps by simp
  then show ?thesis using that [OF s cin] parts ps by simp
qed

lemma split_on_last3_conv:
  assumes "c \<notin> set py" "c \<notin> set ab" "c \<notin> set plat"
  shows "split_on c (pre @ c # py @ c # ab @ c # plat) = split_on c pre @ [py, ab, plat]"
  using assms by (simp add: split_on_app)

lemma two_fields: "c \<in> set pre \<Longrightarrow> 2 \<le> length (split_on c pre)"
  using length_split_on [of c pre] count_list_0_iff [of pre c] by (cases "count_list pre c") auto

subsection \<open>The selection loop\<close>

fun scan ::
  "('c \<Rightarrow> 'r + 'e) \<Rightarrow> ('c \<Rightarrow> bytes) \<Rightarrow> (bytes \<rightharpoonup> 'r) \<Rightarrow> 'e list \<Rightarrow> 'c list \<Rightarrow> (bytes \<rightharpoonup> 'r) \<times> 'e list" where
  "scan judge name reasons pool [] = (reasons, pool)"
| "scan judge name reasons pool (c # cs) =
     (case judge c of
        Inl r \<Rightarrow> scan judge name (reasons(name c \<mapsto> r)) pool cs
      | Inr e \<Rightarrow> scan judge name reasons (pool @ [e]) cs)"

definition first_of :: "('e \<Rightarrow> 'e \<Rightarrow> bool) \<Rightarrow> 'e list \<Rightarrow> 'e option" where
  "first_of lt pool = (case sort_stable lt pool of [] \<Rightarrow> None | w # _ \<Rightarrow> Some w)"

definition admitted :: "('c \<Rightarrow> 'r + 'e) \<Rightarrow> 'c list \<Rightarrow> 'e list" where
  "admitted judge cs = concat (map (\<lambda>c. case judge c of Inl _ \<Rightarrow> [] | Inr e \<Rightarrow> [e]) cs)"

lemma option_eqI_Some: "(\<And>r. a = Some r \<longleftrightarrow> b = Some r) \<Longrightarrow> a = b"
  by (cases a; cases b) auto

lemma scan_pool: "snd (scan judge name m pool cs) = pool @ admitted judge cs"
  by (induction cs arbitrary: m pool) (auto simp: admitted_def split: sum.split)

lemma scan_reason_sound:
  "fst (scan judge name m pool cs) f = Some r \<Longrightarrow>
     m f = Some r \<or> (\<exists>c \<in> set cs. name c = f \<and> judge c = Inl r)"
  by (induction cs arbitrary: m pool) (fastforce split: sum.splits if_splits)+

lemma scan_reason_dom:
  "dom (fst (scan judge name m pool cs)) = dom m \<union> {name c |c. c \<in> set cs \<and> \<not> isOK (judge c)}"
  by (induction cs arbitrary: m pool) (auto simp: isOK_def split: sum.splits)

lemma scan_reason_iff:
  "distinct (map name cs) \<Longrightarrow>
    fst (scan judge name m pool cs) f = Some r \<longleftrightarrow>
      (\<exists>c \<in> set cs. name c = f \<and> judge c = Inl r)
      \<or> m f = Some r \<and> (\<forall>c \<in> set cs. name c = f \<longrightarrow> isOK (judge c))"
proof (induction cs arbitrary: m pool)
  case (Cons c cs)
  then have IH: "fst (scan judge name m' pool' cs) f = Some r \<longleftrightarrow>
      (\<exists>c \<in> set cs. name c = f \<and> judge c = Inl r)
      \<or> m' f = Some r \<and> (\<forall>c \<in> set cs. name c = f \<longrightarrow> isOK (judge c))" for m' pool' by simp
  have new: "name c \<notin> name ` set cs" using Cons.prems by simp
  show ?case using new by (cases "judge c"; cases "name c = f") (auto simp: IH image_iff)
qed simp

lemma scan_reasons_perm:
  assumes "mset cs = mset ds" "distinct (map name cs)"
  shows "fst (scan judge name Map.empty [] cs) = fst (scan judge name Map.empty [] ds)"
proof (rule ext, rule option_eqI_Some)
  fix f r
  have "distinct (map name ds)" using assms by (metis mset_map mset_eq_imp_distinct_iff)
  moreover have "set cs = set ds" using assms(1) by (metis set_mset_mset)
  ultimately show "fst (scan judge name Map.empty [] cs) f = Some r
      \<longleftrightarrow> fst (scan judge name Map.empty [] ds) f = Some r"
    using assms(2) by (simp add: scan_reason_iff)
qed

lemma admitted_set: "e \<in> set (admitted judge cs) \<longleftrightarrow> (\<exists>c \<in> set cs. judge c = Inr e)"
  by (force simp: admitted_def split: sum.splits)

lemma admitted_mset: "mset (admitted judge cs) = mset (admitted judge ds)" if "mset cs = mset ds"
proof -
  have "mset (admitted judge xs)
      = \<Sum>\<^sub># (image_mset (\<lambda>c. mset (case judge c of Inl _ \<Rightarrow> [] | Inr e \<Rightarrow> [e])) (mset xs))" for xs
    by (induction xs) (simp_all add: admitted_def)
  with that show ?thesis by metis
qed

lemma admitted_Nil: "admitted judge cs = [] \<longleftrightarrow> (\<forall>c \<in> set cs. \<not> isOK (judge c))"
  by (auto simp: admitted_def isOK_def split: sum.splits)

lemma sort_stable_cong:
  "(\<forall>x \<in> set xs. \<forall>y \<in> set xs. lt x y = lt' x y) \<Longrightarrow> sort_stable lt xs = sort_stable lt' xs"
proof (induction xs)
  case (Cons x xs)
  have "insert_stable lt x ys = insert_stable lt' x ys" if "\<forall>y \<in> set ys. lt y x = lt' y x" for ys
    using that by (induction ys) auto
  with Cons show ?case by simp
qed simp

lemma first_of_cong:
  "(\<And>x y. x \<in> set xs \<Longrightarrow> y \<in> set xs \<Longrightarrow> lt x y = lt' x y) \<Longrightarrow> first_of lt xs = first_of lt' xs"
  using sort_stable_cong [of xs lt lt'] by (simp add: first_of_def)

lemma first_of_None: "first_of lt pool = None \<longleftrightarrow> pool = []"
  using sort_stable_Nil_iff [of lt pool] by (cases "sort_stable lt pool") (auto simp: first_of_def)

locale wheel_selector = sort_less lt
  for lt :: "'e \<Rightarrow> 'e \<Rightarrow> bool" +
  fixes judge :: "'c \<Rightarrow> 'r + 'e" and name :: "'c \<Rightarrow> bytes"
begin

lemma winner_admitted: "first_of lt (admitted judge cs) = Some w \<Longrightarrow> \<exists>c \<in> set cs. judge c = Inr w"
proof -
  assume a: "first_of lt (admitted judge cs) = Some w"
  then obtain rest where "sort_stable lt (admitted judge cs) = w # rest"
    by (auto simp: first_of_def split: list.splits)
  then have "w \<in> set (admitted judge cs)" by (metis list.set_intros(1) set_sort_stable)
  then show ?thesis by (simp add: admitted_set)
qed

lemma winner_best:
  assumes "first_of lt (admitted judge cs) = Some w" "c \<in> set cs" "judge c = Inr e"
  shows "\<not> lt e w"
proof -
  obtain rest where "sort_stable lt (admitted judge cs) = w # rest"
    using assms(1) by (auto simp: first_of_def split: list.splits)
  moreover have "e \<in> set (admitted judge cs)" using assms(2,3) by (auto simp: admitted_set)
  ultimately show ?thesis by (rule sort_stable_head_least)
qed

lemma no_winner: "first_of lt (admitted judge cs) = None \<longleftrightarrow> (\<forall>c \<in> set cs. \<not> isOK (judge c))"
  by (simp only: first_of_None admitted_Nil)

lemma winner_order_free:
  assumes "mset cs = mset ds"
    and "\<And>x y. x \<in> set (admitted judge cs) \<Longrightarrow> y \<in> set (admitted judge cs) \<Longrightarrow> tied x y \<Longrightarrow> x = y"
  shows "first_of lt (admitted judge cs) = first_of lt (admitted judge ds)"
proof -
  have "sort_stable lt (admitted judge cs) = sort_stable lt (admitted judge ds)"
    using admitted_mset [OF assms(1)] assms(2) by (rule sort_stable_perm)
  then show ?thesis by (simp add: first_of_def)
qed

lemma rejected_have_reason:
  assumes "scan judge name Map.empty [] cs = (reasons, pool)" "c \<in> set cs" "\<not> isOK (judge c)"
  shows "name c \<in> dom reasons"
  using scan_reason_dom [of judge name Map.empty "[]" cs] assms by auto

lemma reasons_are_rejections:
  assumes "scan judge name Map.empty [] cs = (reasons, pool)" "reasons f = Some r"
  shows "\<exists>c \<in> set cs. name c = f \<and> judge c = Inl r"
  using scan_reason_sound [of judge name Map.empty "[]" cs f r] assms by simp

end

end
