(* ===== verification/Abi2026.thy ===== *)
theory Abi2026
  imports Wheel_Select
begin

section \<open>The 2026 ABI tag transition (abi2026/)\<close>

text \<open>
  Tag classification (tag.go), the acceptance policy (policy.go), the wheel selector (plan.go) and
  the two renaming helpers (rename.go).  Go results that carry a value beside an error are pairs
  here where the value matters (\<open>ClassifyABITag\<close>), sums elsewhere.
\<close>

subsection \<open>Tag classes (tag.go)\<close>

datatype TagClass =
    TagClassUnknown | TagClassPure | TagClassLegacyCPython | TagClassLegacyABI3 | TagClassABI2026
  | TagClassUnrecognised

fun TagClass_String :: "TagClass \<Rightarrow> bytes" where
  "TagClass_String TagClassPure = ''pure''"
| "TagClass_String TagClassLegacyCPython = ''legacy-cpython''"
| "TagClass_String TagClassLegacyABI3 = ''legacy-abi3''"
| "TagClass_String TagClassABI2026 = ''abi2026''"
| "TagClass_String TagClassUnrecognised = ''unrecognised''"
| "TagClass_String TagClassUnknown = ''unknown''"

datatype AbiError =
    EmptyTag | UnrecognisedTag bytes | NotWhl bytes | MissingFields bytes | NotTriple bytes
  | WrongABI bytes bytes | PolicyUnset | PolicyBad bytes

definition isCPythonABI :: "bytes \<Rightarrow> bool" where
  "isCPythonABI s =
     (let rest = trim_prefix s ''cp'';
          rest = (if has_suffix rest ''t'' then trim_suffix rest ''t'' else rest)
      in if length rest < 2 then False else list_all is_digit rest)"

definition ClassifyABITag :: "bytes \<Rightarrow> TagClass \<times> AbiError option" where
  "ClassifyABITag raw =
     (if raw = [] then (TagClassUnknown, Some EmptyTag)
      else if raw = ''none'' then (TagClassPure, None)
      else if raw = ''abi3'' then (TagClassLegacyABI3, None)
      else if raw = ''abi2026'' then (TagClassABI2026, None)
      else if has_prefix raw ''cp'' \<and> isCPythonABI raw then (TagClassLegacyCPython, None)
      else (TagClassUnrecognised, Some (UnrecognisedTag raw)))"

lemma trim_cp [simp]: "trim_prefix (CHR ''c'' # CHR ''p'' # s) ''cp'' = s"
  using trim_prefix_append [of "''cp''" s] by simp

lemma isCPythonABI_iff:
  "isCPythonABI (''cp'' @ s) \<longleftrightarrow>
     (\<exists>ds. (s = ds \<or> s = ds @ ''t'') \<and> 2 \<le> length ds \<and> list_all is_digit ds)"
proof (cases "suffix ''t'' s")
  case True
  then obtain ds where s: "s = ds @ ''t''" by (auto simp: suffix_def)
  have "trim_suffix (ds @ ''t'') ''t'' = ds" by (rule trim_suffix_append)
  moreover have "\<not> list_all is_digit (ds @ ''t'')" by (simp add: is_digit_def)
  ultimately show ?thesis using s True by (auto simp: isCPythonABI_def Let_def)
next
  case False
  then show ?thesis by (auto simp: isCPythonABI_def Let_def suffix_def)
qed

lemma ClassifyABITag_total:
  "ClassifyABITag raw = (c, e) \<Longrightarrow>
     (e = None \<longleftrightarrow> c \<in> {TagClassPure, TagClassLegacyABI3, TagClassABI2026, TagClassLegacyCPython})"
  by (auto simp: ClassifyABITag_def split: if_splits)

subsection \<open>Policies (policy.go)\<close>

datatype Policy = PolicyUnknown | PolicyLegacy | PolicyAbi2026 | PolicyBoth

fun Policy_String :: "Policy \<Rightarrow> bytes" where
  "Policy_String PolicyLegacy = ''legacy''"
| "Policy_String PolicyAbi2026 = ''abi2026''"
| "Policy_String PolicyBoth = ''both''"
| "Policy_String PolicyUnknown = ''unknown''"

definition ParsePolicy :: "bytes \<Rightarrow> AbiError + Policy" where
  "ParsePolicy s =
     (if s = ''legacy'' then Inr PolicyLegacy else if s = ''abi2026'' then Inr PolicyAbi2026
      else if s = ''both'' then Inr PolicyBoth else if s = [] then Inl PolicyUnset
      else Inl (PolicyBad s))"

definition Accepts :: "Policy \<Rightarrow> TagClass \<Rightarrow> bool" where
  "Accepts p cls =
     (if cls = TagClassPure then p \<noteq> PolicyUnknown
      else case p of
        PolicyLegacy \<Rightarrow> cls = TagClassLegacyCPython \<or> cls = TagClassLegacyABI3
      | PolicyAbi2026 \<Rightarrow> cls = TagClassABI2026
      | PolicyBoth \<Rightarrow> cls = TagClassLegacyCPython \<or> cls = TagClassLegacyABI3 \<or> cls = TagClassABI2026
      | PolicyUnknown \<Rightarrow> False)"

definition Rank :: "Policy \<Rightarrow> TagClass \<Rightarrow> int" where
  "Rank p cls =
     (if \<not> Accepts p cls then 0
      else case cls of
        TagClassABI2026 \<Rightarrow> 40 | TagClassLegacyABI3 \<Rightarrow> 30 | TagClassLegacyCPython \<Rightarrow> 20
      | TagClassPure \<Rightarrow> 10 | _ \<Rightarrow> 0)"

lemma Rank_pos_iff: "0 < Rank p cls \<longleftrightarrow> Accepts p cls"
  by (cases p; cases cls) (auto simp: Rank_def Accepts_def)

lemma Rank_inj: "Accepts p a \<Longrightarrow> Accepts p b \<Longrightarrow> Rank p a = Rank p b \<Longrightarrow> a = b"
  by (cases p; cases a; cases b) (auto simp: Rank_def Accepts_def)

lemma ParsePolicy_String: "p \<noteq> PolicyUnknown \<Longrightarrow> ParsePolicy (Policy_String p) = Inr p"
  by (cases p) (simp_all add: ParsePolicy_def)

lemma Accepts_Both: "Accepts PolicyBoth c \<longleftrightarrow> Accepts PolicyLegacy c \<or> Accepts PolicyAbi2026 c"
  by (cases c) (simp_all add: Accepts_def)

subsection \<open>The selector (plan.go)\<close>

record WheelCandidate =
  Filename :: bytes
  URL :: bytes

record SelectionResult =
  Chosen :: "WheelCandidate option"
  ChosenTag :: bytes
  ChosenClass :: TagClass

text \<open>The map \<open>Reasons\<close> holds the cause of each rejection; its texts are the error messages.\<close>

datatype RejectReason = BadWheel AbiError | BadTag AbiError | ClassRejected TagClass Policy

record ranked =
  cand :: WheelCandidate
  abi :: bytes
  cls :: TagClass

definition wheelABI :: "bytes \<Rightarrow> AbiError + bytes" where
  "wheelABI name =
     (let base = trim_suffix name ''.whl'' in
      if base = name then Inl (NotWhl name)
      else let parts = split_on CHR ''-'' base in
           if length parts < 5 then Inl (MissingFields name)
           else Inr (parts ! (length parts - 2)))"

text \<open>The body of the candidate loop: reject with a reason, or rank.\<close>

definition judge :: "Policy \<Rightarrow> WheelCandidate \<Rightarrow> RejectReason + ranked" where
  "judge p c =
     (case wheelABI (Filename c) of
        Inl e \<Rightarrow> Inl (BadWheel e)
      | Inr a \<Rightarrow>
          (case ClassifyABITag a of
             (_, Some e) \<Rightarrow> Inl (BadTag e)
           | (k, None) \<Rightarrow>
               if \<not> Accepts p k then Inl (ClassRejected k p)
               else Inr \<lparr>cand = c, abi = a, cls = k\<rparr>))"

definition ranked_less :: "Policy \<Rightarrow> ranked \<Rightarrow> ranked \<Rightarrow> bool" where
  "ranked_less p x y =
     (let ri = Rank p (cls x); rj = Rank p (cls y) in
      if ri \<noteq> rj then ri > rj else Filename (cand x) < Filename (cand y))"

definition Select ::
  "Policy \<Rightarrow> WheelCandidate list \<Rightarrow> AbiError + SelectionResult \<times> (bytes \<rightharpoonup> RejectReason)" where
  "Select p candidates =
     (if p = PolicyUnknown then Inl PolicyUnset
      else case scan (judge p) Filename Map.empty [] candidates of
        (reasons, pool) \<Rightarrow>
          (case first_of (ranked_less p) pool of
             None \<Rightarrow> Inr (\<lparr>Chosen = None, ChosenTag = [], ChosenClass = TagClassUnknown\<rparr>, reasons)
           | Some w \<Rightarrow>
               Inr (\<lparr>Chosen = Some (cand w), ChosenTag = abi w, ChosenClass = cls w\<rparr>, reasons)))"

lemma ranked_less_key:
  "ranked_less p x y \<longleftrightarrow> (- Rank p (cls x), Filename (cand x)) < (- Rank p (cls y), Filename (cand y))"
  by (auto simp: ranked_less_def Let_def)

lemma sort_less_ranked: "sort_less (ranked_less p)"
proof -
  have eq: "ranked_less p = (\<lambda>x y. (- Rank p (cls x), Filename (cand x))
      < (- Rank p (cls y), Filename (cand y)))"
    by (intro ext) (rule ranked_less_key)
  show ?thesis unfolding eq by (rule sort_less_key [OF sort_less_lin])
qed

interpretation abi_selector: wheel_selector "ranked_less p" "judge p" Filename for p
  by (rule wheel_selector.intro) (rule sort_less_ranked)

lemma judge_Inr:
  "judge p c = Inr e \<longleftrightarrow>
     (\<exists>a k. wheelABI (Filename c) = Inr a \<and> ClassifyABITag a = (k, None) \<and> Accepts p k
        \<and> e = \<lparr>cand = c, abi = a, cls = k\<rparr>)"
  by (auto simp: judge_def split: sum.splits prod.splits option.splits if_splits)

lemma Select_eq:
  "p \<noteq> PolicyUnknown \<Longrightarrow>
    Select p cs = (let reasons = fst (scan (judge p) Filename Map.empty [] cs) in
      case first_of (ranked_less p) (admitted (judge p) cs) of
        None \<Rightarrow> Inr (\<lparr>Chosen = None, ChosenTag = [], ChosenClass = TagClassUnknown\<rparr>, reasons)
      | Some w \<Rightarrow> Inr (\<lparr>Chosen = Some (cand w), ChosenTag = abi w, ChosenClass = cls w\<rparr>, reasons))"
  using scan_pool [of "judge p" Filename Map.empty "[]" cs]
  by (cases "scan (judge p) Filename Map.empty [] cs") (auto simp: Select_def Let_def split: option.split)

lemma Select_Inr_cases:
  assumes "Select p cs = Inr (r, reasons)"
  obtains "p \<noteq> PolicyUnknown" "first_of (ranked_less p) (admitted (judge p) cs) = None" "Chosen r = None"
  | w where "p \<noteq> PolicyUnknown" "first_of (ranked_less p) (admitted (judge p) cs) = Some w"
      "Chosen r = Some (cand w)" "ChosenTag r = abi w" "ChosenClass r = cls w"
proof (cases "p = PolicyUnknown")
  case True
  then show ?thesis using assms by (simp add: Select_def)
next
  case False
  then show ?thesis
    using assms that Select_eq [OF False, of cs]
    by (cases "first_of (ranked_less p) (admitted (judge p) cs)") (auto simp: Let_def)
qed

lemma Select_reasons:
  "Select p cs = Inr (r, reasons) \<Longrightarrow> reasons = fst (scan (judge p) Filename Map.empty [] cs)"
  using Select_eq [of p cs]
  by (cases "p = PolicyUnknown") (auto simp: Select_def Let_def split: option.splits)

text \<open>
  C13. The selector is sound and optimal.  A chosen wheel is one of the candidates, its tag is the
  ABI field of its file name and of a class the policy accepts; every candidate the loop admits has
  a strictly lower rank, or the same rank and a file name that is not smaller.  Nothing is chosen
  exactly when every candidate is rejected, and the reasons are filed under exactly the file names
  of the rejected candidates.
\<close>

theorem Abi2026_Select_best:
  assumes "Select p cs = Inr (r, reasons)"
  shows "(case Chosen r of
       None \<Rightarrow> \<forall>c \<in> set cs. \<not> isOK (judge p c)
     | Some w \<Rightarrow> w \<in> set cs \<and> wheelABI (Filename w) = Inr (ChosenTag r)
         \<and> ClassifyABITag (ChosenTag r) = (ChosenClass r, None) \<and> Accepts p (ChosenClass r)
         \<and> (\<forall>c \<in> set cs. \<forall>e. judge p c = Inr e \<longrightarrow>
              Rank p (cls e) < Rank p (ChosenClass r)
              \<or> Rank p (cls e) = Rank p (ChosenClass r) \<and> Filename w \<le> Filename c))
    \<and> dom reasons = {Filename c |c. c \<in> set cs \<and> \<not> isOK (judge p c)}"
proof -
  have dom: "dom reasons = {Filename c |c. c \<in> set cs \<and> \<not> isOK (judge p c)}"
    using Select_reasons [OF assms] by (simp add: scan_reason_dom)
  from assms show ?thesis
  proof (cases rule: Select_Inr_cases)
    case 1
    then show ?thesis using dom abi_selector.no_winner by simp
  next
    case (2 w)
    obtain c where c: "c \<in> set cs" "judge p c = Inr w"
      using abi_selector.winner_admitted [OF 2(2)] by blast
    have best: "\<not> ranked_less p e w" if "d \<in> set cs" "judge p d = Inr e" for d e
      using abi_selector.winner_best [OF 2(2) that] .
    have best': "\<forall>d \<in> set cs. \<forall>e. judge p d = Inr e \<longrightarrow> Rank p (cls e) < Rank p (cls w)
        \<or> Rank p (cls e) = Rank p (cls w) \<and> Filename c \<le> Filename d"
    proof (intro ballI allI impI)
      fix d e assume d: "d \<in> set cs" "judge p d = Inr e"
      show "Rank p (cls e) < Rank p (cls w) \<or> Rank p (cls e) = Rank p (cls w) \<and> Filename c \<le> Filename d"
        using best [OF d] c(2) d(2) by (auto simp: ranked_less_def Let_def judge_Inr split: if_splits)
    qed
    have "wheelABI (Filename c) = Inr (abi w)" "ClassifyABITag (abi w) = (cls w, None)"
      "Accepts p (cls w)" "cand w = c"
      using c(2) by (auto simp: judge_Inr)
    then show ?thesis using 2 c(1) dom best' by simp
  qed
qed

text \<open>
  The outcome does not depend on the order in which the resolver lists the candidates: for
  candidates of distinct file names, every permutation gives the same result and the same reasons.
\<close>

theorem Abi2026_Select_order_free:
  assumes "mset cs = mset ds" "distinct (map Filename cs)"
  shows "Select p cs = Select p ds"
proof (cases "p = PolicyUnknown")
  case True
  then show ?thesis by (simp add: Select_def)
next
  case False
  have same: "c = d" if "c \<in> set cs" "d \<in> set cs" "Filename c = Filename d" for c d
    using assms(2) that by (metis distinct_map inj_onD)
  have "x = y" if xy: "x \<in> set (admitted (judge p) cs)" "y \<in> set (admitted (judge p) cs)"
    and tied: "abi_selector.tied p x y" for x y
  proof -
    obtain c d where cd: "c \<in> set cs" "d \<in> set cs" "judge p c = Inr x" "judge p d = Inr y"
      using xy by (auto simp: admitted_set)
    have "Filename (cand x) = Filename (cand y)"
      using tied by (auto simp: abi_selector.tied_def ranked_less_def Let_def split: if_splits)
    then have "c = d" using cd same by (auto simp: judge_Inr)
    then show ?thesis using cd by simp
  qed
  then have "first_of (ranked_less p) (admitted (judge p) cs) = first_of (ranked_less p) (admitted (judge p) ds)"
    using abi_selector.winner_order_free [OF assms(1)] by blast
  moreover have "fst (scan (judge p) Filename Map.empty [] cs) = fst (scan (judge p) Filename Map.empty [] ds)"
    using assms by (rule scan_reasons_perm)
  ultimately show ?thesis using False by (simp add: Select_eq)
qed

text \<open>A concrete index page: one pure, one legacy, one 2026 wheel, and one file that is no wheel.\<close>

definition page :: "WheelCandidate list" where
  "page =
     [\<lparr>Filename = ''p-1.0-py3-none-any.whl'', URL = ''u1''\<rparr>,
      \<lparr>Filename = ''p-1.0-cp32-abi3-any.whl'', URL = ''u2''\<rparr>,
      \<lparr>Filename = ''p-1.0.tar.gz'', URL = ''u3''\<rparr>,
      \<lparr>Filename = ''p-1.0-cp314-abi2026-any.whl'', URL = ''u4''\<rparr>]"

lemma Abi2026_Select_best_witness:
  "\<exists>r reasons. Select PolicyBoth page = Inr (r, reasons) \<and> ChosenClass r = TagClassABI2026
    \<and> dom reasons = {Filename c |c. c \<in> set page \<and> \<not> isOK (judge PolicyBoth c)}"
proof -
  have "map_sum (\<lambda>e. e) (\<lambda>x. ChosenClass (fst x)) (Select PolicyBoth page) = Inr TagClassABI2026"
    by code_simp
  then obtain r reasons where s: "Select PolicyBoth page = Inr (r, reasons)"
    and k: "ChosenClass r = TagClassABI2026"
    by (cases "Select PolicyBoth page") auto
  from Abi2026_Select_best [OF s] s k show ?thesis by blast
qed

lemma Abi2026_Select_order_free_witness: "Select PolicyLegacy page = Select PolicyLegacy (rev page)"
  by (rule Abi2026_Select_order_free) (simp_all add: page_def)

subsection \<open>Renaming wheels (rename.go)\<close>

definition splitWheelFilename :: "bytes \<Rightarrow> AbiError + bytes \<times> bytes" where
  "splitWheelFilename name =
     (let base = trim_suffix name ''.whl'' in
      if base = name then Inl (NotWhl name)
      else let parts = split_on CHR ''-'' base in
           if length parts < 5 then Inl (MissingFields name)
           else Inr (join ''-'' (take (length parts - 3) parts), join ''-'' (drop (length parts - 3) parts)))"

definition PromoteToABI2026 :: "bytes \<Rightarrow> AbiError + bytes" where
  "PromoteToABI2026 name =
     (case splitWheelFilename name of
        Inl e \<Rightarrow> Inl e
      | Inr (pre, tag) \<Rightarrow>
          (let parts = split_on CHR ''-'' tag in
           if length parts \<noteq> 3 then Inl (NotTriple tag)
           else if parts ! 1 \<noteq> ''abi3'' then Inl (WrongABI name (parts ! 1))
           else Inr (pre @ ''-'' @ join ''-'' (parts[0 := ''cp314'', 1 := ''abi2026'']) @ ''.whl'')))"

definition DowngradeToABI3 :: "bytes \<Rightarrow> AbiError + bytes" where
  "DowngradeToABI3 name =
     (case splitWheelFilename name of
        Inl e \<Rightarrow> Inl e
      | Inr (pre, tag) \<Rightarrow>
          (let parts = split_on CHR ''-'' tag in
           if length parts \<noteq> 3 then Inl (NotTriple tag)
           else if parts ! 1 \<noteq> ''abi2026'' then Inl (WrongABI name (parts ! 1))
           else Inr (pre @ ''-'' @ join ''-'' (parts[0 := ''cp32'', 1 := ''abi3'']) @ ''.whl'')))"

lemma splitWheelFilename_conv:
  assumes "CHR ''-'' \<in> set pre"
    and "CHR ''-'' \<notin> set py" "CHR ''-'' \<notin> set ab" "CHR ''-'' \<notin> set plat"
  shows "splitWheelFilename (pre @ ''-'' @ py @ ''-'' @ ab @ ''-'' @ plat @ ''.whl'')
    = Inr (pre, py @ ''-'' @ ab @ ''-'' @ plat)"
proof -
  let ?base = "pre @ ''-'' @ py @ ''-'' @ ab @ ''-'' @ plat"
  have base: "trim_suffix (?base @ ''.whl'') ''.whl'' = ?base" by (rule trim_suffix_append)
  have parts: "split_on CHR ''-'' ?base = split_on CHR ''-'' pre @ [py, ab, plat]"
    using split_on_last3_conv [OF assms(2-4), of pre] by simp
  then show ?thesis using base two_fields [OF assms(1)]
    by (simp add: splitWheelFilename_def Let_def)
qed

lemma splitWheelFilename_Inr:
  assumes "splitWheelFilename name = Inr (pre, tag)"
  obtains py ab plat where "name = pre @ ''-'' @ tag @ ''.whl''" "tag = py @ ''-'' @ ab @ ''-'' @ plat"
    "CHR ''-'' \<in> set pre" "CHR ''-'' \<notin> set py" "CHR ''-'' \<notin> set ab" "CHR ''-'' \<notin> set plat"
    "split_on CHR ''-'' tag = [py, ab, plat]"
proof -
  let ?base = "trim_suffix name ''.whl''"
  have b: "?base \<noteq> name" "5 \<le> length (split_on CHR ''-'' ?base)"
    and r: "pre = join ''-'' (take (length (split_on CHR ''-'' ?base) - 3) (split_on CHR ''-'' ?base))"
      "tag = join ''-'' (drop (length (split_on CHR ''-'' ?base) - 3) (split_on CHR ''-'' ?base))"
    using assms by (auto simp: splitWheelFilename_def Let_def split: if_splits)
  have name: "name = ?base @ ''.whl''" using b(1) suffix_trim trim_suffix_changed by blast
  from b(2) obtain pr py ab plat where s: "?base = pr @ CHR ''-'' # py @ CHR ''-'' # ab @ CHR ''-'' # plat"
    "CHR ''-'' \<in> set pr" "CHR ''-'' \<notin> set py" "CHR ''-'' \<notin> set ab" "CHR ''-'' \<notin> set plat"
    "split_on CHR ''-'' ?base = split_on CHR ''-'' pr @ [py, ab, plat]"
    by (rule split_on_last3)
  have eq: "pre = pr" "tag = py @ ''-'' @ ab @ ''-'' @ plat" using r s(6) by simp_all
  show ?thesis
  proof (rule that [of py ab plat])
    show "name = pre @ ''-'' @ tag @ ''.whl''" using name s(1) eq by simp
    show "split_on CHR ''-'' tag = [py, ab, plat]" using eq(2) s(3-5) by (simp add: split_on_app)
  qed (use s eq in simp_all)
qed

lemma splitWheelFilename_abi: "splitWheelFilename name = Inr (pre, tag) \<Longrightarrow>
    wheelABI name = Inr (split_on CHR ''-'' tag ! 1)"
proof (erule splitWheelFilename_Inr)
  fix py ab plat
  assume a: "name = pre @ ''-'' @ tag @ ''.whl''" "tag = py @ ''-'' @ ab @ ''-'' @ plat"
    "CHR ''-'' \<in> set pre" "CHR ''-'' \<notin> set py" "CHR ''-'' \<notin> set ab" "CHR ''-'' \<notin> set plat"
    "split_on CHR ''-'' tag = [py, ab, plat]"
  have "trim_suffix ((pre @ ''-'' @ tag) @ ''.whl'') ''.whl'' = pre @ ''-'' @ tag"
    by (rule trim_suffix_append)
  then show "wheelABI name = Inr (split_on CHR ''-'' tag ! 1)"
    using a two_fields [OF a(3)]
    by (simp add: wheelABI_def Let_def split_on_app nth_append)
qed

text \<open>
  Promotion renames exactly the stable-ABI wheels, to the name with interpreter cp314 and ABI
  abi2026; the selector reads the 2026 class from the new name; and the downgrade of the new name
  restores every field but the interpreter, which becomes cp32.
\<close>

theorem Promote_then_Downgrade:
  assumes "PromoteToABI2026 name = Inr name'"
  shows "\<exists>pre py plat.
      name = pre @ ''-'' @ py @ ''-abi3-'' @ plat @ ''.whl''
    \<and> name' = pre @ ''-cp314-abi2026-'' @ plat @ ''.whl''
    \<and> DowngradeToABI3 name' = Inr (pre @ ''-cp32-abi3-'' @ plat @ ''.whl'')
    \<and> wheelABI name' = Inr ''abi2026'' \<and> (DowngradeToABI3 name' = Inr name \<longleftrightarrow> py = ''cp32'')"
proof -
  obtain pre tag where s: "splitWheelFilename name = Inr (pre, tag)"
    using assms by (auto simp: PromoteToABI2026_def split: sum.splits)
  then obtain py ab plat where n: "name = pre @ ''-'' @ tag @ ''.whl''" "tag = py @ ''-'' @ ab @ ''-'' @ plat"
    "CHR ''-'' \<in> set pre" "CHR ''-'' \<notin> set py" "CHR ''-'' \<notin> set ab" "CHR ''-'' \<notin> set plat"
    "split_on CHR ''-'' tag = [py, ab, plat]"
    by (rule splitWheelFilename_Inr)
  have new: "ab = ''abi3''" "name' = pre @ ''-'' @ ''cp314'' @ ''-'' @ ''abi2026'' @ ''-'' @ plat @ ''.whl''"
    using assms s n(7) by (auto simp: PromoteToABI2026_def Let_def split: if_splits)
  have s': "splitWheelFilename name' = Inr (pre, ''cp314'' @ ''-'' @ ''abi2026'' @ ''-'' @ plat)"
    unfolding new(2) using n(3,6) by (intro splitWheelFilename_conv) auto
  have parts: "split_on CHR ''-'' (''cp314'' @ ''-'' @ ''abi2026'' @ ''-'' @ plat) = [''cp314'', ''abi2026'', plat]"
    using n(6) by simp
  have d: "DowngradeToABI3 name' = Inr (pre @ ''-cp32-abi3-'' @ plat @ ''.whl'')"
    using s' parts by (simp add: DowngradeToABI3_def)
  have w: "wheelABI name' = Inr ''abi2026''" using splitWheelFilename_abi [OF s'] parts by simp
  have "pre @ ''-cp32-abi3-'' @ plat @ ''.whl'' = name \<longleftrightarrow> py = ''cp32''" using n(1,2) new(1) by auto
  then show ?thesis using n(1,2) new d w by (intro exI [of _ pre] exI [of _ py] exI [of _ plat]) simp
qed

lemma Promote_then_Downgrade_witness:
  "\<exists>n. PromoteToABI2026 ''p-1.0-cp39-abi3-any.whl'' = Inr n
    \<and> DowngradeToABI3 n \<noteq> Inr ''p-1.0-cp39-abi3-any.whl'' \<and> wheelABI n = Inr ''abi2026''"
proof -
  have p: "PromoteToABI2026 ''p-1.0-cp39-abi3-any.whl'' = Inr ''p-1.0-cp314-abi2026-any.whl''"
    by code_simp
  have "DowngradeToABI3 ''p-1.0-cp314-abi2026-any.whl'' = Inr ''p-1.0-cp32-abi3-any.whl''"
    by code_simp
  with Promote_then_Downgrade [OF p] p show ?thesis by auto
qed

end
