(* ===== verification/Go_Sort.thy ===== *)
theory Go_Sort
  imports Go_Strings
begin

section \<open>The part of Go's sort package and of fmt's quoting the bridge uses\<close>

text \<open>
  \<open>sort.Slice\<close> sorts but is documented not to be stable, so a model that uses it takes the
  sorting function as a parameter and only relies on the contract \<open>slice_sort\<close>; the stable sort
  of the prelude is one implementation of it.  \<open>sort.Search\<close> is the binary search loop of the
  library, \<open>quote\<close> the \<open>%q\<close> verb on strings.
\<close>

subsection \<open>The contract of a slice sort\<close>

locale slice_sort = sort_less lt for lt :: "'a \<Rightarrow> 'a \<Rightarrow> bool" +
  fixes srt :: "'a list \<Rightarrow> 'a list"
  assumes srt_mset: "mset (srt xs) = mset xs"
    and srt_sorted: "sorted_wrt (\<lambda>a b. \<not> lt b a) (srt xs)"
begin

lemma srt_set [simp]: "set (srt xs) = set xs"
  by (metis srt_mset set_mset_mset)

lemma srt_length [simp]: "length (srt xs) = length xs"
  by (metis srt_mset size_mset)

lemma srt_Nil [simp]: "srt xs = [] \<longleftrightarrow> xs = []"
  by (metis length_0_conv srt_length)

text \<open>When ties are equal the result is determined, whatever the algorithm.\<close>

lemma srt_unique:
  assumes "\<And>x y. x \<in> set xs \<Longrightarrow> y \<in> set xs \<Longrightarrow> tied x y \<Longrightarrow> x = y"
  shows "srt xs = sort_stable lt xs"
proof -
  have "srt xs = sort_stable lt (srt xs)" by (rule stable_unique [OF srt_sorted]) simp
  also have "\<dots> = sort_stable lt xs"
    using assms srt_mset by (intro sort_stable_perm) auto
  finally show ?thesis .
qed

end

sublocale sort_less \<subseteq> stable: slice_sort lt "sort_stable lt"
  by unfold_locales (simp_all add: sorted_sort_stable)

text \<open>\<open>sort.Strings\<close>: a total order, so one result.\<close>

definition sort_strings :: "bytes list \<Rightarrow> bytes list" where
  "sort_strings xs = sort xs"

subsection \<open>Binary search\<close>

function search_from :: "(nat \<Rightarrow> bool) \<Rightarrow> nat \<Rightarrow> nat \<Rightarrow> nat" where
  "search_from f i j =
     (if i < j then
        (let h = (i + j) div 2 in if \<not> f h then search_from f (h + 1) j else search_from f i h)
      else i)"
  by pat_completeness auto
termination by (relation "measure (\<lambda>(f, i, j). j - i)") auto

declare search_from.simps [simp del]

definition SearchStrings :: "bytes list \<Rightarrow> bytes \<Rightarrow> nat" where
  "SearchStrings a x = search_from (\<lambda>i. x \<le> a ! i) 0 (length a)"

lemma search_from_spec:
  assumes "\<And>k l. k \<le> l \<Longrightarrow> l < j \<Longrightarrow> f k \<Longrightarrow> f l" "i \<le> j"
  shows "i \<le> search_from f i j \<and> search_from f i j \<le> j
    \<and> (\<forall>k. i \<le> k \<and> k < search_from f i j \<longrightarrow> \<not> f k)
    \<and> (search_from f i j < j \<longrightarrow> f (search_from f i j))"
  using assms
proof (induction f i j rule: search_from.induct)
  case (1 f i j)
  show ?case
  proof (cases "i < j")
    case False
    then show ?thesis using 1(4) by (subst (1 2 3 4 5) search_from.simps) auto
  next
    case True
    define h where "h = (i + j) div 2"
    have h: "i \<le> h" "h < j" using True by (auto simp: h_def)
    show ?thesis
    proof (cases "f h")
      case False
      have eq: "search_from f i j = search_from f (h + 1) j"
        using True False by (subst search_from.simps) (simp add: h_def [symmetric])
      have IH: "h + 1 \<le> search_from f (h + 1) j \<and> search_from f (h + 1) j \<le> j
          \<and> (\<forall>k. h + 1 \<le> k \<and> k < search_from f (h + 1) j \<longrightarrow> \<not> f k)
          \<and> (search_from f (h + 1) j < j \<longrightarrow> f (search_from f (h + 1) j))"
        using 1(1) [OF True h_def False] 1(3) h by simp
      have "\<not> f k" if "k < h + 1" for k using 1(3) [of k h] False that h by auto
      then show ?thesis unfolding eq using IH h by (metis le_trans not_less le_add1)
    next
      case hT: True
      have eq: "search_from f i j = search_from f i h"
        using True hT by (subst search_from.simps) (simp add: h_def [symmetric])
      have IH: "i \<le> search_from f i h \<and> search_from f i h \<le> h
          \<and> (\<forall>k. i \<le> k \<and> k < search_from f i h \<longrightarrow> \<not> f k)
          \<and> (search_from f i h < h \<longrightarrow> f (search_from f i h))"
      proof (rule 1(2) [OF True h_def])
        show "\<not> \<not> f h" using hT by simp
        show "f l" if "k \<le> l" "l < h" "f k" for k l using 1(3) [of k l] that h by simp
      qed (rule h)
      then show ?thesis unfolding eq using hT h
        by (metis le_neq_implies_less less_imp_le_nat le_trans)
    qed
  qed
qed

lemma SearchStrings_member:
  assumes "sorted a"
  shows "SearchStrings a x < length a \<and> a ! SearchStrings a x = x \<longleftrightarrow> x \<in> set a"
proof -
  let ?r = "SearchStrings a x"
  have "?r \<le> length a \<and> (\<forall>k. k < ?r \<longrightarrow> \<not> x \<le> a ! k) \<and> (?r < length a \<longrightarrow> x \<le> a ! ?r)"
    using search_from_spec [of "length a" "\<lambda>i. x \<le> a ! i" 0] assms
    unfolding SearchStrings_def by (auto intro: order_trans sorted_nth_mono)
  then have r: "?r \<le> length a" "\<And>k. k < ?r \<Longrightarrow> \<not> x \<le> a ! k" "?r < length a \<Longrightarrow> x \<le> a ! ?r" by auto
  show ?thesis
  proof
    assume "x \<in> set a"
    then obtain k where k: "k < length a" "a ! k = x" by (auto simp: in_set_conv_nth)
    then have "?r \<le> k" using r(2) [of k] by (meson le_less_linear order_refl)
    then have "?r < length a" "a ! ?r \<le> x" using k sorted_nth_mono [OF assms, of ?r k] by auto
    then show "?r < length a \<and> a ! ?r = x" using r(3) by auto
  qed (auto simp: in_set_conv_nth)
qed

subsection \<open>Quoting\<close>

text \<open>
  \<open>strconv.Quote\<close>, behind the \<open>%q\<close> verb.  Whether a rune outside ASCII is printable is read from
  Go's Unicode tables; the predicate is a parameter.
\<close>

definition hex_digit :: "int \<Rightarrow> char" where
  "hex_digit d = char_of (if d < 10 then 48 + d else 87 + d)"

definition hex2 :: "int \<Rightarrow> bytes" where
  "hex2 n = [hex_digit (n div 16 mod 16), hex_digit (n mod 16)]"

definition hex4 :: "int \<Rightarrow> bytes" where
  "hex4 n = hex2 (n div 256) @ hex2 (n mod 256)"

definition escape_ascii :: "char \<Rightarrow> bytes" where
  "escape_ascii c =
    (let b = byte c in
     if b = 34 \<or> b = 92 then [CHR 0x5C, c]
     else if 32 \<le> b \<and> b < 127 then [c]
     else if b = 7 then [CHR 0x5C, CHR ''a''] else if b = 8 then [CHR 0x5C, CHR ''b'']
     else if b = 12 then [CHR 0x5C, CHR ''f''] else if b = 10 then [CHR 0x5C, CHR ''n'']
     else if b = 13 then [CHR 0x5C, CHR ''r''] else if b = 9 then [CHR 0x5C, CHR ''t'']
     else if b = 11 then [CHR 0x5C, CHR ''v'']
     else [CHR 0x5C, CHR ''x''] @ hex2 b)"

definition escape_rune :: "(int \<Rightarrow> bool) \<Rightarrow> int \<Rightarrow> bytes \<Rightarrow> bytes" where
  "escape_rune is_print r text =
    (if is_print r then text
     else if r < 65536 then [CHR 0x5C, CHR ''u''] @ hex4 r
     else [CHR 0x5C, CHR ''U''] @ hex4 (r div 65536) @ hex4 (r mod 65536))"

function quote_body :: "(int \<Rightarrow> bool) \<Rightarrow> bytes \<Rightarrow> bytes" where
  "quote_body is_print [] = []"
| "quote_body is_print (c # s) =
    (if byte c < 128 then escape_ascii c @ quote_body is_print s
     else case decode_rune (byte c) (map byte s) of (r, w) \<Rightarrow>
       if w = 1 then [CHR 0x5C, CHR ''x''] @ hex2 (byte c) @ quote_body is_print s
       else escape_rune is_print r (take w (c # s)) @ quote_body is_print (drop (w - 1) s))"
  by pat_completeness auto
termination by (relation "measure (\<lambda>(p, s). length s)") (auto simp: le_imp_less_Suc)

definition quote :: "(int \<Rightarrow> bool) \<Rightarrow> bytes \<Rightarrow> bytes" where
  "quote is_print s = CHR 0x22 # quote_body is_print s @ [CHR 0x22]"

text \<open>The \<open>%q\<close> verb on a byte: the rune of that number, in single quotes.\<close>

definition quote_byte :: "char \<Rightarrow> bytes" where
  "quote_byte c =
    (let b = byte c in
     [CHR 0x27]
     @ (if b = 39 then [CHR 0x5C, c] else if b = 34 then [c]
        else if b < 127 then escape_ascii c
        else if 161 \<le> b \<and> b \<noteq> 173 then [char_of (192 + b div 64), char_of (128 + b mod 64)]
        else if b = 127 then [CHR 0x5C, CHR ''x''] @ hex2 b
        else [CHR 0x5C, CHR ''u''] @ hex4 b)
     @ [CHR 0x27])"

definition plain :: "char \<Rightarrow> bool" where
  "plain c \<longleftrightarrow> 32 \<le> byte c \<and> byte c < 127 \<and> byte c \<noteq> 34 \<and> byte c \<noteq> 92"

lemma quote_body_plain: "list_all plain s \<Longrightarrow> quote_body p s = s"
  by (induction s) (auto simp: plain_def escape_ascii_def Let_def)

end
