(* ===== verification/Abi3.thy ===== *)
theory Abi3
  imports Wheel_Select Go_Sort
begin

section \<open>Stable-ABI wheels and the platform audit (abi3/)\<close>

text \<open>
  Wheel tags and their promotion to the limited API (tag.go, slim.go), the table of platform
  profiles with its binary search (manylinux.go), and the auditor (audit.go).  The reader of a
  native file's link table is a parameter, as in the code; so is the sort of the linked libraries,
  since \<open>sort.Slice\<close> leaves the order of equal names open.
\<close>

subsection \<open>Wheel tags (tag.go)\<close>

record WheelTag =
  Interpreter :: bytes
  ABI :: bytes
  Platform :: bytes

datatype Abi3Error =
    TagShape bytes | TagFieldEmpty bytes nat | NotCPython bytes | NotDigits bytes
  | NoWhl bytes | FewFields bytes | EmptyABI | NoReader | NoProfile | ReadFailed bytes bytes

fun blank_field :: "nat \<Rightarrow> bytes list \<Rightarrow> nat option" where
  "blank_field i [] = None"
| "blank_field i (p # ps) = (if trim_space p = [] then Some i else blank_field (Suc i) ps)"

definition ParseWheelTag :: "bytes \<Rightarrow> Abi3Error + WheelTag" where
  "ParseWheelTag s =
    (let parts = split_on CHR ''-'' s in
     if length parts \<noteq> 3 then Inl (TagShape s)
     else case blank_field 0 parts of
       Some i \<Rightarrow> Inl (TagFieldEmpty s i)
     | None \<Rightarrow> Inr \<lparr>Interpreter = parts ! 0, ABI = parts ! 1, Platform = parts ! 2\<rparr>)"

definition WheelTag_String :: "WheelTag \<Rightarrow> bytes" where
  "WheelTag_String t = Interpreter t @ ''-'' @ ABI t @ ''-'' @ Platform t"

definition IsABI3 :: "WheelTag \<Rightarrow> bool" where
  "IsABI3 t \<longleftrightarrow> ABI t = ''abi3''"

definition ToABI3 :: "WheelTag \<Rightarrow> Abi3Error + WheelTag" where
  "ToABI3 t =
    (if \<not> has_prefix (Interpreter t) ''cp'' then Inl (NotCPython (Interpreter t))
     else let rest = trim_prefix (Interpreter t) ''cp'' in
       case atoi rest of
         None \<Rightarrow> Inl (NotDigits (Interpreter t))
       | Some _ \<Rightarrow> Inr \<lparr>Interpreter = ''cp32'', ABI = ''abi3'', Platform = Platform t\<rparr>)"

definition SplitWheelFilename :: "bytes \<Rightarrow> Abi3Error + bytes \<times> WheelTag" where
  "SplitWheelFilename name =
    (if \<not> has_suffix name ''.whl'' then Inl (NoWhl name)
     else let base = trim_suffix name ''.whl''; parts = split_on CHR ''-'' base in
       if length parts < 4 then Inl (FewFields name)
       else let tagPart = join ''-'' (drop (length parts - 3) parts) in
         case ParseWheelTag tagPart of
           Inl e \<Rightarrow> Inl e
         | Inr t \<Rightarrow> Inr (join ''-'' (take (length parts - 3) parts), t))"

subsection \<open>Renaming (slim.go)\<close>

definition RenameWheelFilename :: "bytes \<Rightarrow> bytes \<Rightarrow> Abi3Error + bytes" where
  "RenameWheelFilename name newABI =
    (if trim_space newABI = [] then Inl EmptyABI
     else case SplitWheelFilename name of
       Inl e \<Rightarrow> Inl e
     | Inr (pre, tag) \<Rightarrow> Inr (pre @ ''-'' @ WheelTag_String (tag\<lparr>ABI := newABI\<rparr>) @ ''.whl''))"

definition PromoteWheelToABI3 :: "bytes \<Rightarrow> Abi3Error + bytes" where
  "PromoteWheelToABI3 name =
    (case SplitWheelFilename name of
       Inl e \<Rightarrow> Inl e
     | Inr (pre, tag) \<Rightarrow>
         (case ToABI3 tag of
            Inl e \<Rightarrow> Inl e
          | Inr t \<Rightarrow> Inr (pre @ ''-'' @ WheelTag_String t @ ''.whl'')))"

definition RenderWHEELMarker :: "bytes \<Rightarrow> bytes \<Rightarrow> bytes" where
  "RenderWHEELMarker generator platform =
    (let generator = (if trim_space generator = [] then ''mochi-pkg'' else generator);
         platform = (if trim_space platform = [] then ''any'' else platform)
     in ''Wheel-Version: 1.0'' @ [CHR 0x0A]
        @ ''Generator: '' @ generator @ [CHR 0x0A]
        @ ''Root-Is-Purelib: false'' @ [CHR 0x0A]
        @ ''Tag: cp32-abi3-'' @ platform @ [CHR 0x0A])"

lemma ParseWheelTag_conv:
  fixes py ab plat
  defines "s \<equiv> py @ CHR ''-'' # ab @ CHR ''-'' # plat"
  assumes "CHR ''-'' \<notin> set py" "CHR ''-'' \<notin> set ab" "CHR ''-'' \<notin> set plat"
  shows "ParseWheelTag s =
    (if trim_space py = [] then Inl (TagFieldEmpty s 0)
     else if trim_space ab = [] then Inl (TagFieldEmpty s 1)
     else if trim_space plat = [] then Inl (TagFieldEmpty s 2)
     else Inr \<lparr>Interpreter = py, ABI = ab, Platform = plat\<rparr>)"
  using assms(2-) unfolding s_def by (simp add: ParseWheelTag_def Let_def)

lemma ParseWheelTag_Inr:
  assumes "ParseWheelTag s = Inr t"
  shows "s = WheelTag_String t \<and> CHR ''-'' \<notin> set (Interpreter t) \<and> CHR ''-'' \<notin> set (ABI t)
    \<and> CHR ''-'' \<notin> set (Platform t) \<and> trim_space (Interpreter t) \<noteq> [] \<and> trim_space (ABI t) \<noteq> []
    \<and> trim_space (Platform t) \<noteq> []"
proof -
  have "length (split_on CHR ''-'' s) = Suc (Suc (Suc 0))"
    using assms by (auto simp: ParseWheelTag_def Let_def split: if_splits)
  then obtain py ab plat where p: "split_on CHR ''-'' s = [py, ab, plat]"
    unfolding length_Suc_conv by blast
  have s: "s = py @ CHR ''-'' # ab @ CHR ''-'' # plat"
    using join_split_on [of "CHR ''-''" s] unfolding p by simp
  have "CHR ''-'' \<notin> set py" "CHR ''-'' \<notin> set ab" "CHR ''-'' \<notin> set plat"
    using split_on_parts [of _ "CHR ''-''" s] unfolding p by auto
  with assms show ?thesis unfolding s
    by (auto simp: ParseWheelTag_conv WheelTag_String_def split: if_splits)
qed

lemma SplitWheelFilename_conv:
  assumes "CHR ''-'' \<notin> set py" "CHR ''-'' \<notin> set ab" "CHR ''-'' \<notin> set plat"
  shows "SplitWheelFilename (pre @ CHR ''-'' # py @ CHR ''-'' # ab @ CHR ''-'' # plat @ ''.whl'') =
    (case ParseWheelTag (py @ CHR ''-'' # ab @ CHR ''-'' # plat) of Inl e \<Rightarrow> Inl e | Inr t \<Rightarrow> Inr (pre, t))"
proof -
  let ?base = "pre @ ''-'' @ py @ ''-'' @ ab @ ''-'' @ plat"
  have base: "trim_suffix (?base @ ''.whl'') ''.whl'' = ?base" by (rule trim_suffix_append)
  have parts: "split_on CHR ''-'' ?base = split_on CHR ''-'' pre @ [py, ab, plat]"
    using split_on_last3_conv [OF assms, of pre] by simp
  have "suffix ''.whl'' (?base @ ''.whl'')" by (rule suffixI) simp
  then show ?thesis using base parts split_on_len [of "CHR ''-''" pre]
    by (simp add: SplitWheelFilename_def Let_def cong: sum.case_cong)
qed

lemma SplitWheelFilename_Inr:
  assumes "SplitWheelFilename name = Inr (pre, t)"
  shows "name = pre @ ''-'' @ WheelTag_String t @ ''.whl'' \<and> ParseWheelTag (WheelTag_String t) = Inr t"
proof -
  let ?base = "trim_suffix name ''.whl''" and ?ps = "split_on CHR ''-'' (trim_suffix name ''.whl'')"
  have a: "suffix ''.whl'' name" "4 \<le> length ?ps"
      "ParseWheelTag (join ''-'' (drop (length ?ps - 3) ?ps)) = Inr t"
      "pre = join ''-'' (take (length ?ps - 3) ?ps)"
    using assms by (auto simp: SplitWheelFilename_def Let_def split: if_splits sum.splits)
  have t: "join ''-'' (drop (length ?ps - 3) ?ps) = WheelTag_String t"
    using ParseWheelTag_Inr [OF a(3)] by simp
  have "?base = join ''-'' (take (length ?ps - 3) ?ps @ drop (length ?ps - 3) ?ps)" by simp
  also have "\<dots> = pre @ ''-'' @ WheelTag_String t"
    unfolding a(4) t [symmetric] using a(2) by (intro join_append) auto
  finally show ?thesis using suffix_trim [OF a(1)] a(3) t by simp
qed

lemma trim_space_cp [simp]: "trim_space ''cp32'' = ''cp32''" "trim_space ''abi3'' = ''abi3''"
  by (rule trim_space_all_solid; simp add: solid_def)+

text \<open>
  Promoting a wheel name to the limited API replaces the interpreter and the ABI field and
  nothing else: the prefix (distribution, version, build) and the platform are kept, the new name
  splits into that prefix and the stable tag, and promoting it again changes nothing.
\<close>

theorem PromoteWheelToABI3_stable:
  assumes "PromoteWheelToABI3 name = Inr name'"
  shows "\<exists>pre py ab plat.
      name = pre @ ''-'' @ py @ ''-'' @ ab @ ''-'' @ plat @ ''.whl'' \<and> has_prefix py ''cp''
    \<and> name' = pre @ ''-cp32-abi3-'' @ plat @ ''.whl''
    \<and> SplitWheelFilename name'
        = Inr (pre, \<lparr>Interpreter = ''cp32'', ABI = ''abi3'', Platform = plat\<rparr>)
    \<and> PromoteWheelToABI3 name' = Inr name'"
proof -
  obtain pre t where s: "SplitWheelFilename name = Inr (pre, t)"
    using assms by (auto simp: PromoteWheelToABI3_def split: sum.splits)
  let ?t' = "\<lparr>Interpreter = ''cp32'', ABI = ''abi3'', Platform = Platform t\<rparr>"
  have p: "ToABI3 t = Inr ?t'" "has_prefix (Interpreter t) ''cp''"
    "name' = pre @ ''-'' @ WheelTag_String ?t' @ ''.whl''"
    using assms s by (auto simp: PromoteWheelToABI3_def ToABI3_def Let_def
        split: sum.splits option.splits if_splits)
  note n = SplitWheelFilename_Inr [OF s]
  note f = ParseWheelTag_Inr [OF conjunct2 [OF n]]
  have s': "SplitWheelFilename name' = Inr (pre, ?t')"
    using SplitWheelFilename_conv [of "''cp32''" "''abi3''" "Platform t" pre]
      ParseWheelTag_conv [of "''cp32''" "''abi3''" "Platform t"] f p(3)
    by (simp add: WheelTag_String_def)
  have "ToABI3 ?t' = Inr ?t'" by (simp add: ToABI3_def) code_simp
  then have "PromoteWheelToABI3 name' = Inr name'"
    using s' p(3) by (simp add: PromoteWheelToABI3_def)
  then show ?thesis using n p s'
    by (intro exI [of _ pre] exI [of _ "Interpreter t"] exI [of _ "ABI t"] exI [of _ "Platform t"])
      (simp add: WheelTag_String_def)
qed

lemma PromoteWheelToABI3_stable_witness:
  "PromoteWheelToABI3 ''p-1.0-cp32-abi3-any.whl'' = Inr ''p-1.0-cp32-abi3-any.whl''"
proof -
  have p: "PromoteWheelToABI3 ''p-1.0-cp312-cp312-any.whl'' = Inr ''p-1.0-cp32-abi3-any.whl''"
    by code_simp
  from PromoteWheelToABI3_stable [OF p] show ?thesis by blast
qed

text \<open>The interpreter check accepts a signed number, which no CPython tag is.\<close>

lemma ToABI3_accepts_sign:
  "ToABI3 \<lparr>Interpreter = ''cp-5'', ABI = ''none'', Platform = ''any''\<rparr>
    = Inr \<lparr>Interpreter = ''cp32'', ABI = ''abi3'', Platform = ''any''\<rparr>"
  by code_simp

subsection \<open>Platform profiles (manylinux.go)\<close>

record ManylinuxProfile =
  Tag :: bytes
  MinGlibc :: bytes
  AllowedLibs :: "bytes list"

definition Allows :: "ManylinuxProfile \<Rightarrow> bytes \<Rightarrow> bool" where
  "Allows p soname =
    (let i = SearchStrings (AllowedLibs p) soname in
     i < length (AllowedLibs p) \<and> AllowedLibs p ! i = soname)"

text \<open>The map literal, in source order.\<close>

definition KnownProfiles :: "(bytes \<times> ManylinuxProfile) list" where
  "KnownProfiles =
    [
     (''manylinux_2_17_x86_64'',
      \<lparr>Tag = ''manylinux_2_17_x86_64'', MinGlibc = ''2.17'',
       AllowedLibs =
        [''ld-linux-x86-64.so.2'', ''libc.so.6'', ''libdl.so.2'', ''libm.so.6'',
         ''libpthread.so.0'', ''libresolv.so.2'', ''librt.so.1'', ''libutil.so.1'']\<rparr>),
     (''manylinux_2_28_x86_64'',
      \<lparr>Tag = ''manylinux_2_28_x86_64'', MinGlibc = ''2.28'',
       AllowedLibs =
        [''ld-linux-x86-64.so.2'', ''libc.so.6'', ''libdl.so.2'', ''libgcc_s.so.1'',
         ''libm.so.6'', ''libpthread.so.0'', ''libresolv.so.2'', ''librt.so.1'',
         ''libstdc++.so.6'', ''libutil.so.1'']\<rparr>),
     (''manylinux_2_34_x86_64'',
      \<lparr>Tag = ''manylinux_2_34_x86_64'', MinGlibc = ''2.34'',
       AllowedLibs =
        [''ld-linux-x86-64.so.2'', ''libc.so.6'', ''libgcc_s.so.1'', ''libm.so.6'',
         ''libstdc++.so.6'']\<rparr>),
     (''manylinux_2_17_aarch64'',
      \<lparr>Tag = ''manylinux_2_17_aarch64'', MinGlibc = ''2.17'',
       AllowedLibs =
        [''ld-linux-aarch64.so.1'', ''libc.so.6'', ''libdl.so.2'', ''libm.so.6'',
         ''libpthread.so.0'', ''libresolv.so.2'', ''librt.so.1'', ''libutil.so.1'']\<rparr>),
     (''manylinux_2_28_aarch64'',
      \<lparr>Tag = ''manylinux_2_28_aarch64'', MinGlibc = ''2.28'',
       AllowedLibs =
        [''ld-linux-aarch64.so.1'', ''libc.so.6'', ''libdl.so.2'', ''libgcc_s.so.1'',
         ''libm.so.6'', ''libpthread.so.0'', ''libstdc++.so.6'']\<rparr>),
     (''musllinux_1_2_x86_64'',
      \<lparr>Tag = ''musllinux_1_2_x86_64'', MinGlibc = [],
       AllowedLibs =
        [''ld-musl-x86_64.so.1'', ''libc.musl-x86_64.so.1'']\<rparr>),
     (''musllinux_1_2_aarch64'',
      \<lparr>Tag = ''musllinux_1_2_aarch64'', MinGlibc = [],
       AllowedLibs =
        [''ld-musl-aarch64.so.1'', ''libc.musl-aarch64.so.1'']\<rparr>),
     (''macosx_11_0_arm64'',
      \<lparr>Tag = ''macosx_11_0_arm64'', MinGlibc = [],
       AllowedLibs =
        [''/usr/lib/libSystem.B.dylib'', ''/usr/lib/libc++.1.dylib'',
         ''/usr/lib/libobjc.A.dylib'', ''/usr/lib/libresolv.9.dylib'']\<rparr>),
     (''macosx_10_15_x86_64'',
      \<lparr>Tag = ''macosx_10_15_x86_64'', MinGlibc = [],
       AllowedLibs =
        [''/usr/lib/libSystem.B.dylib'', ''/usr/lib/libc++.1.dylib'',
         ''/usr/lib/libobjc.A.dylib'', ''/usr/lib/libresolv.9.dylib'']\<rparr>),
     (''win_amd64'',
      \<lparr>Tag = ''win_amd64'', MinGlibc = [],
       AllowedLibs =
        [''ADVAPI32.dll'', ''KERNEL32.dll'', ''MSVCP140.dll'', ''USER32.dll'',
         ''VCRUNTIME140.dll'', ''VCRUNTIME140_1.dll'',
         ''api-ms-win-crt-runtime-l1-1-0.dll'']\<rparr>),
     (''win_arm64'',
      \<lparr>Tag = ''win_arm64'', MinGlibc = [],
       AllowedLibs =
        [''ADVAPI32.dll'', ''KERNEL32.dll'', ''MSVCP140.dll'', ''USER32.dll'',
         ''VCRUNTIME140.dll'', ''api-ms-win-crt-runtime-l1-1-0.dll'']\<rparr>)]"

definition LookupProfile :: "bytes \<Rightarrow> ManylinuxProfile option" where
  "LookupProfile tag = map_of KnownProfiles tag"

definition ProfileTags :: "bytes list" where
  "ProfileTags = sort_strings (map fst KnownProfiles)"

lemma KnownProfiles_ok:
  "list_all (\<lambda>(k, p). Tag p = k \<and> k \<noteq> [] \<and> sorted (AllowedLibs p) \<and> distinct (AllowedLibs p)) KnownProfiles"
  "distinct (map fst KnownProfiles)"
  by code_simp+

text \<open>
  The allow-lists are usable by binary search: a profile found in the table carries the tag it
  is filed under, and its \<open>Allows\<close> (the binary search of the standard library) decides membership
  in its list, for every library name.  The tags listed for the help text are exactly the known ones.
\<close>

theorem LookupProfile_Allows:
  "(\<forall>p \<in> set_option (LookupProfile tag).
      Tag p = tag \<and> (\<forall>so. Allows p so \<longleftrightarrow> so \<in> set (AllowedLibs p)))
   \<and> (LookupProfile tag \<noteq> None \<longleftrightarrow> tag \<in> set ProfileTags)
   \<and> sorted ProfileTags \<and> distinct ProfileTags"
proof -
  have "Tag p = tag \<and> (\<forall>so. Allows p so \<longleftrightarrow> so \<in> set (AllowedLibs p))"
    if "LookupProfile tag = Some p" for p
  proof -
    have "(tag, p) \<in> set KnownProfiles"
      using that by (simp add: LookupProfile_def map_of_SomeD)
    then have "Tag p = tag" "sorted (AllowedLibs p)"
      using KnownProfiles_ok(1) by (auto simp: list_all_iff)
    then show ?thesis by (simp add: Allows_def Let_def SearchStrings_member)
  qed
  moreover have "LookupProfile tag \<noteq> None \<longleftrightarrow> tag \<in> set ProfileTags"
    by (simp add: LookupProfile_def ProfileTags_def sort_strings_def map_of_eq_None_iff)
  moreover have "sorted ProfileTags" "distinct ProfileTags"
    using KnownProfiles_ok(2) by (simp_all add: ProfileTags_def sort_strings_def)
  ultimately show ?thesis by auto
qed

lemma LookupProfile_Allows_witness:
  "\<exists>p. LookupProfile ''win_arm64'' = Some p \<and> Allows p ''USER32.dll'' \<and> \<not> Allows p ''evil.dll''"
proof -
  have "LookupProfile ''win_arm64'' \<noteq> None" by code_simp
  then obtain p where p: "LookupProfile ''win_arm64'' = Some p" by blast
  have "map_option (\<lambda>p. (''USER32.dll'' \<in> set (AllowedLibs p), ''evil.dll'' \<in> set (AllowedLibs p)))
      (LookupProfile ''win_arm64'') = Some (True, False)" by code_simp
  then show ?thesis using LookupProfile_Allows [of "''win_arm64''"] p by auto
qed

subsection \<open>The auditor (audit.go)\<close>





















end
