(* ===== verification/Bridge_Errors.thy ===== *)
theory Bridge_Errors
  imports Go_Strings
begin

section \<open>Skip reasons, skip reports and bridge errors (errors/errors.go)\<close>

text \<open>
  The closed set of reasons for which the bridge declines to translate a Python item, the report
  it files for such an item, the text form of both (the format of SKIPPED.txt), and the error type
  of the driver.  Every other component returns values of these types; the report is a record
  with the four fields of the Go struct.
\<close>

datatype SkipReason =
    SkipUnknown | SkipNoComplexType | SkipOpenUnion | SkipParamSpec | SkipTypeVarTuple
  | SkipForwardRef | SkipUnsupportedTypingConstruct | SkipCFunctionWithoutStubs
  | SkipOverloadAmbiguity | SkipUntypedPackage | SkipImportTimeNetwork | SkipImportTimeError
  | SkipPrivateName | SkipDunder | SkipDescriptor | SkipMetaclass | SkipDynamicAttribute
  | SkipIncompatibleAsyncRuntime | SkipBytearrayMutable | SkipPyodideUnavailable

fun SkipReason_String :: "SkipReason \<Rightarrow> bytes" where
  "SkipReason_String SkipNoComplexType = ''SkipNoComplexType''"
| "SkipReason_String SkipOpenUnion = ''SkipOpenUnion''"
| "SkipReason_String SkipParamSpec = ''SkipParamSpec''"
| "SkipReason_String SkipTypeVarTuple = ''SkipTypeVarTuple''"
| "SkipReason_String SkipForwardRef = ''SkipForwardRef''"
| "SkipReason_String SkipUnsupportedTypingConstruct = ''SkipUnsupportedTypingConstruct''"
| "SkipReason_String SkipCFunctionWithoutStubs = ''SkipCFunctionWithoutStubs''"
| "SkipReason_String SkipOverloadAmbiguity = ''SkipOverloadAmbiguity''"
| "SkipReason_String SkipUntypedPackage = ''SkipUntypedPackage''"
| "SkipReason_String SkipImportTimeNetwork = ''SkipImportTimeNetwork''"
| "SkipReason_String SkipImportTimeError = ''SkipImportTimeError''"
| "SkipReason_String SkipPrivateName = ''SkipPrivateName''"
| "SkipReason_String SkipDunder = ''SkipDunder''"
| "SkipReason_String SkipDescriptor = ''SkipDescriptor''"
| "SkipReason_String SkipMetaclass = ''SkipMetaclass''"
| "SkipReason_String SkipDynamicAttribute = ''SkipDynamicAttribute''"
| "SkipReason_String SkipIncompatibleAsyncRuntime = ''SkipIncompatibleAsyncRuntime''"
| "SkipReason_String SkipBytearrayMutable = ''SkipBytearrayMutable''"
| "SkipReason_String SkipPyodideUnavailable = ''SkipPyodideUnavailable''"
| "SkipReason_String SkipUnknown = ''SkipUnknown''"

record SkipReport =
  ItemPath :: bytes
  Reason :: SkipReason
  Detail :: bytes
  Override :: bytes

definition newline :: bytes where
  "newline = [CHR 0x0A]"

definition SkipReport_String :: "SkipReport \<Rightarrow> bytes" where
  "SkipReport_String s =
     (let out = ''SKIPPED: '' @ ItemPath s @ newline @ ''  Reason: '' @ SkipReason_String (Reason s)
                @ newline @ ''  Detail: '' @ Detail s @ newline
      in if Override s \<noteq> [] then out @ ''  Override: '' @ Override s @ newline else out)"

text \<open>A \<open>BridgeError\<close> carries the phase, the package and the cause; the cause is any Go error.\<close>

record 'e BridgeError =
  Phase :: bytes
  Package :: bytes
  Cause :: 'e

definition BridgeError_Error :: "('e \<Rightarrow> bytes) \<Rightarrow> 'e BridgeError \<Rightarrow> bytes" where
  "BridgeError_Error show_cause e =
     (if Package e = [] then Phase e @ '': '' @ show_cause (Cause e)
      else Phase e @ ''['' @ Package e @ '']: '' @ show_cause (Cause e))"

definition BridgeError_Unwrap :: "'e BridgeError \<Rightarrow> 'e" where
  "BridgeError_Unwrap e = Cause e"

definition Wrap :: "bytes \<Rightarrow> bytes \<Rightarrow> 'e option \<Rightarrow> 'e BridgeError option" where
  "Wrap phase pkg cause =
     (case cause of None \<Rightarrow> None | Some c \<Rightarrow> Some \<lparr>Phase = phase, Package = pkg, Cause = c\<rparr>)"

lemma SkipReason_String_inj: "SkipReason_String a = SkipReason_String b \<Longrightarrow> a = b"
  by (cases a; cases b; simp)

lemma Wrap_None_iff: "Wrap phase pkg cause = None \<longleftrightarrow> cause = None"
  by (simp add: Wrap_def split: option.split)

lemma Unwrap_Wrap: "Wrap phase pkg cause = Some e \<Longrightarrow> BridgeError_Unwrap e = the cause"
  by (auto simp: Wrap_def BridgeError_Unwrap_def split: option.splits)

text \<open>
  Two reports with one-line fields have the same text only if they are the same report: the
  SKIPPED.txt format loses nothing.
\<close>

definition one_line :: "bytes \<Rightarrow> bool" where
  "one_line s \<longleftrightarrow> CHR 0x0A \<notin> set s"

lemma one_line_reason: "one_line (SkipReason_String r)"
  by (cases r) (simp_all add: one_line_def)

lemma split_at_newline:
  assumes "one_line a" "one_line b" "a @ newline @ s = b @ newline @ t"
  shows "a = b \<and> s = t"
proof -
  let ?n = "CHR 0x0A"
  have "takeWhile (\<lambda>c. c \<noteq> ?n) (a @ newline @ s) = a" "takeWhile (\<lambda>c. c \<noteq> ?n) (b @ newline @ t) = b"
    using assms(1,2) by (auto simp: one_line_def newline_def takeWhile_append)
  with assms(3) have "a = b" by metis
  with assms(3) show ?thesis by simp
qed

definition one_line_report :: "SkipReport \<Rightarrow> bool" where
  "one_line_report s \<longleftrightarrow> one_line (ItemPath s) \<and> one_line (Detail s) \<and> one_line (Override s)"

lemma SkipReport_String_lines:
  "SkipReport_String s = (''SKIPPED: '' @ ItemPath s) @ newline
     @ (''  Reason: '' @ SkipReason_String (Reason s)) @ newline
     @ (''  Detail: '' @ Detail s) @ newline
     @ (if Override s = [] then [] else (''  Override: '' @ Override s) @ newline)"
  by (simp add: SkipReport_String_def Let_def)

lemma one_line_simps [simp]:
  "one_line []" "one_line (c # s) \<longleftrightarrow> c \<noteq> CHR 0x0A \<and> one_line s"
  "one_line (a @ b) \<longleftrightarrow> one_line a \<and> one_line b" "one_line (SkipReason_String r)"
  using one_line_reason by (auto simp: one_line_def)

lemma SkipReport_String_fields:
  assumes "one_line_report a" "one_line_report b" "SkipReport_String a = SkipReport_String b"
  shows "ItemPath a = ItemPath b \<and> Reason a = Reason b \<and> Detail a = Detail b
    \<and> Override a = Override b"
proof -
  note lines = assms(3) [unfolded SkipReport_String_lines]
  note ol = assms(1,2) [unfolded one_line_report_def]
  have 1: "''SKIPPED: '' @ ItemPath a = ''SKIPPED: '' @ ItemPath b"
    using lines by (rule split_at_newline [THEN conjunct1, rotated 2]) (use ol in simp_all)
  note l2 = lines [unfolded 1, THEN same_append_eq [THEN iffD1], THEN same_append_eq [THEN iffD1]]
  have 2: "''  Reason: '' @ SkipReason_String (Reason a) = ''  Reason: '' @ SkipReason_String (Reason b)"
    using l2 by (rule split_at_newline [THEN conjunct1, rotated 2]) simp_all
  note l3 = l2 [unfolded 2, THEN same_append_eq [THEN iffD1], THEN same_append_eq [THEN iffD1]]
  have 3: "''  Detail: '' @ Detail a = ''  Detail: '' @ Detail b"
    using l3 by (rule split_at_newline [THEN conjunct1, rotated 2]) (use ol in simp_all)
  note l4 = l3 [unfolded 3, THEN same_append_eq [THEN iffD1], THEN same_append_eq [THEN iffD1]]
  have "Override a = Override b"
    using l4 by (auto split: if_splits)
  then show ?thesis using 1 2 3 SkipReason_String_inj by simp
qed

end
