(* ===== verification/Freethread.thy ===== *)
theory Freethread
  imports Go_Sort Bridge_Errors
begin

section \<open>Free-threaded interpreters (freethread/)\<close>

text \<open>
  ABI tags with the free-threaded bit (abi.go), the scorer of resolved wheels (support.go), the
  audit of the \<open>Py_mod_gil\<close> slot with its reader as a parameter (audit.go), and the renderer of the
  lock module (lock.go), whose \<open>sort.Slice\<close> is a parameter under the contract \<open>slice_sort\<close>.
\<close>

subsection \<open>ABI tags (abi.go)\<close>

record ABITag =
  Raw :: bytes
  Interpreter :: bytes
  Major :: int
  Minor :: int
  FreeThreaded :: bool

datatype FtError =
    OnlyCP bytes | MissingVersion bytes | ShortVersion bytes | BadMajor bytes bytes
  | BadMinor bytes bytes | TooOld bytes | ScoreTag bytes FtError | ScoreMinor bytes int int int int
  | ReaderUnset | ReaderFailed bytes bytes
  | ShimNameEmpty | ShimNameBad bytes | ShimEntryEmpty | ShimDuplicate

definition ParseABITag :: "bytes \<Rightarrow> FtError + ABITag" where
  "ParseABITag raw =
    (if \<not> has_prefix raw ''cp'' then Inl (OnlyCP raw)
     else let rest = trim_prefix raw ''cp'' in
     if rest = [] then Inl (MissingVersion raw)
     else let free = has_suffix rest ''t'';
              rest = (if free then trim_suffix rest ''t'' else rest) in
     if length rest < 2 then Inl (ShortVersion raw)
     else case atoi (take 1 rest) of
       None \<Rightarrow> Inl (BadMajor raw (take 1 rest))
     | Some major \<Rightarrow>
         if major \<le> 0 then Inl (BadMajor raw (take 1 rest))
         else case atoi (drop 1 rest) of
           None \<Rightarrow> Inl (BadMinor raw (drop 1 rest))
         | Some minor \<Rightarrow>
             if minor < 0 then Inl (BadMinor raw (drop 1 rest))
             else if free \<and> \<not> (major = 3 \<and> minor \<ge> 13) then Inl (TooOld raw)
             else Inr \<lparr>Raw = raw, Interpreter = ''cp'', Major = major, Minor = minor,
                       FreeThreaded = free\<rparr>)"

definition ABITag_String :: "ABITag \<Rightarrow> bytes" where
  "ABITag_String t =
    (if Interpreter t = [] then []
     else Interpreter t @ itoa (Major t) @ itoa (Minor t) @ (if FreeThreaded t then ''t'' else []))"

definition Compatible :: "ABITag \<Rightarrow> ABITag \<Rightarrow> bool" where
  "Compatible t w =
    (if Interpreter w = [] then True
     else if Interpreter t \<noteq> Interpreter w then False
     else if Major t \<noteq> Major w \<or> Minor t \<noteq> Minor w then False
     else FreeThreaded t = FreeThreaded w)"

text \<open>The tags the parser produces.\<close>

definition tag_wf :: "ABITag \<Rightarrow> bool" where
  "tag_wf t \<longleftrightarrow> Interpreter t = ''cp'' \<and> 1 \<le> Major t \<and> Major t \<le> 9 \<and> 0 \<le> Minor t \<and> int64 (Minor t)
     \<and> (FreeThreaded t \<longrightarrow> Major t = 3 \<and> 13 \<le> Minor t)"

lemma atoi_one: "atoi [c] = (if is_digit c then Some (byte c - 48) else None)"
proof (cases "is_digit c")
  case True
  then have "digits_val [c] = byte c - 48" "int64 (byte c - 48)"
    by (auto simp: digits_val_def int64_def is_digit_def)
  then show ?thesis using True atoi_digits [of "[c]"] by simp
next
  case False
  then show ?thesis by (simp add: atoi_def unsigned_part_def Let_def)
qed

lemma ParseABITag_wf:
  assumes "ParseABITag raw = Inr t"
  shows "tag_wf t \<and> Raw t = raw"
proof -
  define rest where "rest = trim_prefix raw ''cp''"
  define v where "v = (if has_suffix rest ''t'' then trim_suffix rest ''t'' else rest)"
  have p: "2 \<le> length v" "atoi (take 1 v) = Some (Major t)" "atoi (drop 1 v) = Some (Minor t)"
    "Interpreter t = ''cp''" "0 < Major t" "0 \<le> Minor t" "Raw t = raw"
    "FreeThreaded t \<longrightarrow> Major t = 3 \<and> 13 \<le> Minor t"
    using assms unfolding ParseABITag_def Let_def rest_def [symmetric] v_def [symmetric]
    by (auto split: if_splits option.splits)
  obtain c w where v: "v = c # w" using p(1) by (cases v) auto
  have "Major t \<le> 9" using p(2) v by (auto simp: atoi_one is_digit_def split: if_splits)
  then show ?thesis using p atoi_int64 [OF p(3)] by (simp add: tag_wf_def)
qed

lemma itoa_small: "0 \<le> n \<Longrightarrow> n < 10 \<Longrightarrow> itoa n = [digit_char n]"
  by (simp add: itoa_nonneg dec_digits.simps [of n])

lemma not_suffix_t: "0 \<le> n \<Longrightarrow> \<not> suffix ''t'' (s @ itoa n)"
proof
  assume n: "0 \<le> n" and "suffix ''t'' (s @ itoa n)"
  then obtain z where "s @ itoa n = z @ ''t''" by (auto simp: suffix_def)
  then have "last (s @ itoa n) = last (z @ ''t'')" by (rule arg_cong)
  then have "last (itoa n) = CHR ''t''" by simp
  then show False using last_itoa_digit [OF n] by (simp add: is_digit_def)
qed

text \<open>
  Printing then parsing restores an ABI tag, for every tag the parser can produce: a CPython
  tag with a one-digit major version, any minor version in range, free-threaded only from 3.13.
  What parses is such a tag.
\<close>

theorem ParseABITag_String:
  "(tag_wf t \<longrightarrow> ParseABITag (ABITag_String t) = Inr (t\<lparr>Raw := ABITag_String t\<rparr>))
    \<and> (ParseABITag raw = Inr u \<longrightarrow> tag_wf u \<and> Raw u = raw)"
proof (intro conjI impI)
  assume wf: "tag_wf t"
  let ?v = "itoa (Major t) @ itoa (Minor t)"
  have s: "ABITag_String t = ''cp'' @ ?v @ (if FreeThreaded t then ''t'' else [])"
    using wf by (simp add: ABITag_String_def tag_wf_def)
  have v: "?v = digit_char (Major t) # itoa (Minor t)" "is_digit (digit_char (Major t))"
    using wf by (auto simp: tag_wf_def itoa_small)
  have len: "\<not> length ?v < 2" using v by (cases "itoa (Minor t)") auto
  have atois: "atoi (take 1 ?v) = Some (Major t)" "atoi (drop 1 ?v) = Some (Minor t)"
    using wf v by (auto simp: tag_wf_def atoi_one)
  have cp: "prefix ''cp'' (ABITag_String t)"
    "trim_prefix (ABITag_String t) ''cp'' = ?v @ (if FreeThreaded t then ''t'' else [])"
    unfolding s by (rule prefixI [OF refl]) (rule trim_prefix_append)
  have "suffix ''t'' (?v @ (if FreeThreaded t then ''t'' else [])) \<longleftrightarrow> FreeThreaded t"
    using wf not_suffix_t [of "Minor t" "itoa (Major t)"]
    by (auto simp: tag_wf_def intro: suffixI [of _ ?v])
  moreover have "(if FreeThreaded t then trim_suffix (?v @ (if FreeThreaded t then ''t'' else [])) ''t''
      else ?v @ (if FreeThreaded t then ''t'' else [])) = ?v"
    using trim_suffix_append [of ?v "''t''"] by simp
  ultimately show "ParseABITag (ABITag_String t) = Inr (t\<lparr>Raw := ABITag_String t\<rparr>)"
    using wf cp len atois unfolding ParseABITag_def Let_def tag_wf_def by (cases t) auto
qed (use ParseABITag_wf in auto)

lemma ParseABITag_String_witness:
  "ParseABITag ''cp313t''
    = Inr \<lparr>Raw = ''cp313t'', Interpreter = ''cp'', Major = 3, Minor = 13, FreeThreaded = True\<rparr>"
proof -
  let ?t = "\<lparr>Raw = [], Interpreter = ''cp'', Major = 3, Minor = 13, FreeThreaded = True\<rparr>"
  have "tag_wf ?t" by (simp add: tag_wf_def int64_def)
  moreover have "ABITag_String ?t = ''cp313t''" by code_simp
  ultimately show ?thesis using ParseABITag_String [of ?t] by simp
qed

text \<open>The minor version is read with a sign, so a text that is no CPython tag is accepted.\<close>

lemma ParseABITag_accepts_sign:
  "map_sum (\<lambda>e. e) Minor (ParseABITag ''cp3+13'') = Inr 13"
  by code_simp

subsection \<open>Scoring a wheel (support.go)\<close>

datatype SupportLevel = SupportUnknown | SupportFull | SupportUntested | SupportIncompatible

fun SupportLevel_String :: "SupportLevel \<Rightarrow> bytes" where
  "SupportLevel_String SupportFull = ''full''"
| "SupportLevel_String SupportUntested = ''untested''"
| "SupportLevel_String SupportIncompatible = ''incompatible''"
| "SupportLevel_String SupportUnknown = ''unknown''"

datatype WheelClass =
  WheelClassUnknown | WheelClassPure | WheelClassFreeThreaded | WheelClassLegacy | WheelClassDenied

fun WheelClass_String :: "WheelClass \<Rightarrow> bytes" where
  "WheelClass_String WheelClassPure = ''pure''"
| "WheelClass_String WheelClassFreeThreaded = ''free-threaded''"
| "WheelClass_String WheelClassLegacy = ''legacy''"
| "WheelClass_String WheelClassDenied = ''denied''"
| "WheelClass_String WheelClassUnknown = ''unknown''"

record WheelCompat =
  Target :: ABITag
  DenyList :: "bytes set"

record ResolvedWheel =
  Distribution :: bytes
  Filename :: bytes
  ABI :: bytes
  Pure :: bool

definition Score :: "WheelCompat \<Rightarrow> ResolvedWheel \<Rightarrow> WheelClass \<times> SupportLevel \<times> FtError option" where
  "Score c rw =
    (if Distribution rw \<in> DenyList c then (WheelClassDenied, SupportIncompatible, None)
     else if Pure rw then (WheelClassPure, SupportFull, None)
     else case ParseABITag (ABI rw) of
       Inl e \<Rightarrow> (WheelClassUnknown, SupportIncompatible, Some (ScoreTag (Distribution rw) e))
     | Inr tag \<Rightarrow>
         if Major tag \<noteq> Major (Target c) \<or> Minor tag \<noteq> Minor (Target c)
         then (WheelClassUnknown, SupportIncompatible,
               Some (ScoreMinor (Distribution rw) (Major tag) (Minor tag) (Major (Target c)) (Minor (Target c))))
         else if FreeThreaded tag then (WheelClassFreeThreaded, SupportFull, None)
         else if FreeThreaded (Target c) then (WheelClassLegacy, SupportUntested, None)
         else (WheelClassLegacy, SupportFull, None))"

text \<open>
  C26. On a free-threaded CPython target the score agrees with the compatibility relation of the
  ABI tags: full support of a wheel with extensions means its tag is compatible with the target, a
  legacy wheel of the same version is "untested" and never compatible, a denied distribution is
  always incompatible, and the zero level is never returned.
\<close>

theorem Score_free_threaded:
  assumes "tag_wf (Target c)" "FreeThreaded (Target c)" "Score c rw = (k, lvl, err)"
  shows "lvl \<noteq> SupportUnknown
    \<and> (err \<noteq> None \<longrightarrow> lvl = SupportIncompatible)
    \<and> (Distribution rw \<in> DenyList c \<longleftrightarrow> k = WheelClassDenied)
    \<and> (lvl = SupportFull \<longleftrightarrow> Distribution rw \<notin> DenyList c
        \<and> (Pure rw \<or> (\<exists>t. ParseABITag (ABI rw) = Inr t \<and> Compatible (Target c) t)))
    \<and> (lvl = SupportUntested \<longrightarrow> (\<exists>t. ParseABITag (ABI rw) = Inr t \<and> \<not> Compatible (Target c) t
        \<and> Compatible ((Target c)\<lparr>FreeThreaded := False\<rparr>) t))"
proof (cases "ParseABITag (ABI rw)")
  case (Inl e)
  then show ?thesis using assms(3) by (auto simp: Score_def split: if_splits)
next
  case (Inr t)
  then have "tag_wf t" using ParseABITag_wf by blast
  then have i: "Interpreter t = ''cp''" "Interpreter (Target c) = ''cp''"
    using assms(1) by (auto simp: tag_wf_def)
  show ?thesis using assms(2,3) Inr i by (auto simp: Score_def Compatible_def split: if_splits)
qed

lemma Score_free_threaded_witness:
  "Score \<lparr>Target = \<lparr>Raw = ''cp313t'', Interpreter = ''cp'', Major = 3, Minor = 13, FreeThreaded = True\<rparr>,
          DenyList = {}\<rparr>
       \<lparr>Distribution = ''lxml'', Filename = [], ABI = ''cp313'', Pure = False\<rparr>
     = (WheelClassLegacy, SupportUntested, None)
   \<and> (\<exists>t. ParseABITag ''cp313'' = Inr t \<and> \<not> Compatible
        \<lparr>Raw = ''cp313t'', Interpreter = ''cp'', Major = 3, Minor = 13, FreeThreaded = True\<rparr> t)"
proof -
  let ?T = "\<lparr>Raw = ''cp313t'', Interpreter = ''cp'', Major = 3, Minor = 13, FreeThreaded = True\<rparr>"
  let ?c = "\<lparr>Target = ?T, DenyList = {}\<rparr>"
  let ?rw = "\<lparr>Distribution = ''lxml'', Filename = [], ABI = ''cp313'', Pure = False\<rparr>"
  have s: "Score ?c ?rw = (WheelClassLegacy, SupportUntested, None)" by code_simp
  have "tag_wf (Target ?c)" "FreeThreaded (Target ?c)" by (simp_all add: tag_wf_def int64_def)
  from Score_free_threaded [OF this s] show ?thesis using s by auto
qed

text \<open>
  On a target with the GIL the agreement fails: a free-threaded wheel scores full support although
  the tags are not compatible.
\<close>

lemma Score_gil_target:
  "\<exists>c rw t. tag_wf (Target c) \<and> \<not> FreeThreaded (Target c)
     \<and> Score c rw = (WheelClassFreeThreaded, SupportFull, None)
     \<and> ParseABITag (ABI rw) = Inr t \<and> \<not> Compatible (Target c) t"
proof -
  let ?T = "\<lparr>Raw = ''cp313'', Interpreter = ''cp'', Major = 3, Minor = 13, FreeThreaded = False\<rparr>"
  let ?c = "\<lparr>Target = ?T, DenyList = {}\<rparr>"
  let ?rw = "\<lparr>Distribution = ''lxml'', Filename = [], ABI = ''cp313t'', Pure = False\<rparr>"
  let ?t = "\<lparr>Raw = ''cp313t'', Interpreter = ''cp'', Major = 3, Minor = 13, FreeThreaded = True\<rparr>"
  have "Score ?c ?rw = (WheelClassFreeThreaded, SupportFull, None)" by code_simp
  moreover have "ParseABITag (ABI ?rw) = Inr ?t" by code_simp
  moreover have "tag_wf (Target ?c)" by (simp add: tag_wf_def int64_def)
  ultimately show ?thesis
    by (intro exI [of _ ?c] exI [of _ ?rw] exI [of _ ?t]) (simp add: Compatible_def)
qed

subsection \<open>The slot audit (audit.go)\<close>

record ModuleMarker =
  Module :: bytes
  Declared :: bool
  GilDisabled :: bool

definition ft_suffixes :: "bytes list" where
  "ft_suffixes = [''.cpython-313t-x86_64-linux-gnu.so'', ''.cpython-313-x86_64-linux-gnu.so'',
     ''.so'', ''.dylib'', ''.pyd'']"

definition filenameToModule :: "bytes \<Rightarrow> bytes" where
  "filenameToModule path =
    (let base = (case last_index path ''/'' of None \<Rightarrow> path | Some idx \<Rightarrow> drop (idx + 1) path)
     in foldl trim_suffix base ft_suffixes)"

text \<open>The static reader: a map, completed with a module name.\<close>

definition StaticMarkerReader_Read :: "(bytes \<rightharpoonup> ModuleMarker) \<Rightarrow> bytes \<Rightarrow> bytes + ModuleMarker" where
  "StaticMarkerReader_Read markers path =
    (case markers path of
       None \<Rightarrow> Inr \<lparr>Module = filenameToModule path, Declared = False, GilDisabled = False\<rparr>
     | Some m \<Rightarrow> Inr (if Module m = [] then m\<lparr>Module := filenameToModule path\<rparr> else m))"

record ExtensionAudit =
  Path :: bytes
  AModule :: bytes
  Marker :: ModuleMarker
  AFreeThreaded :: bool
  Violation :: bytes

record AuditReport =
  RPath :: bytes
  Extensions :: "ExtensionAudit list"
  Violations :: "bytes list"
  OK :: bool

type_synonym reader = "(bytes \<Rightarrow> bytes + ModuleMarker) option"

definition AuditExtension :: "bytes \<Rightarrow> reader \<Rightarrow> FtError + ExtensionAudit" where
  "AuditExtension path rd =
    (case rd of
       None \<Rightarrow> Inl ReaderUnset
     | Some read \<Rightarrow>
         (case read path of
            Inl e \<Rightarrow> Inl (ReaderFailed path e)
          | Inr m \<Rightarrow>
              (let free = Declared m \<and> GilDisabled m in
               Inr \<lparr>Path = path, AModule = Module m, Marker = m, AFreeThreaded = free,
                    Violation =
                      (if \<not> free then
                         (if \<not> Declared m then path @ '': no Py_mod_gil slot declared''
                          else if \<not> GilDisabled m then path @ '': Py_mod_gil declares Py_MOD_GIL_USED''
                          else [])
                       else [])\<rparr>)))"

fun audit_paths :: "reader \<Rightarrow> AuditReport \<Rightarrow> bytes list \<Rightarrow> FtError + AuditReport" where
  "audit_paths rd r [] = Inr r"
| "audit_paths rd r (path # ps) =
    (case AuditExtension path rd of
       Inl e \<Rightarrow> Inl e
     | Inr ext \<Rightarrow>
         (let r = r\<lparr>Extensions := Extensions r @ [ext]\<rparr> in
          audit_paths rd
            (if Violation ext \<noteq> [] then r\<lparr>Violations := Violations r @ [Violation ext]\<rparr> else r) ps))"

definition AuditWheel :: "bytes list \<Rightarrow> reader \<Rightarrow> FtError + AuditReport" where
  "AuditWheel extensions rd =
    (case rd of
       None \<Rightarrow> Inl ReaderUnset
     | Some _ \<Rightarrow>
         (let sorted_exts = sort_strings extensions in
          case audit_paths rd \<lparr>RPath = [], Extensions = [], Violations = [], OK = False\<rparr> sorted_exts of
            Inl e \<Rightarrow> Inl e
          | Inr r \<Rightarrow>
              (let ok = (length (Violations r) = 0); r = r\<lparr>OK := ok\<rparr> in
               Inr (if ok \<and> length sorted_exts = 1 then r\<lparr>RPath := sorted_exts ! 0\<rparr> else r))))"

definition IsExtensionFilename :: "bytes \<Rightarrow> bool" where
  "IsExtensionFilename name =
    (let lower = to_lower name in
     has_suffix lower ''.so'' \<or> has_suffix lower ''.dylib'' \<or> has_suffix lower ''.pyd'')"

text \<open>What one entry of the audit records.\<close>

definition entry_ok :: "(bytes \<Rightarrow> bytes + ModuleMarker) \<Rightarrow> ExtensionAudit \<Rightarrow> bool" where
  "entry_ok read a \<longleftrightarrow> read (Path a) = Inr (Marker a) \<and> AModule a = Module (Marker a)
     \<and> (AFreeThreaded a \<longleftrightarrow> Declared (Marker a) \<and> GilDisabled (Marker a))
     \<and> (Violation a = [] \<longleftrightarrow> AFreeThreaded a)"

lemma AuditExtension_entry:
  "AuditExtension path (Some read) = Inr a \<Longrightarrow> Path a = path \<and> entry_ok read a"
  by (auto simp: AuditExtension_def entry_ok_def Let_def split: sum.splits if_splits)

lemma audit_paths_entries:
  "audit_paths (Some read) r ps = Inr r' \<Longrightarrow>
    \<exists>new. Extensions r' = Extensions r @ new \<and> map Path new = ps \<and> list_all (entry_ok read) new
      \<and> Violations r' = Violations r @ filter (\<lambda>v. v \<noteq> []) (map Violation new)"
proof (induction "Some read" r ps rule: audit_paths.induct)
  case (2 r path ps)
  from 2(2) obtain ext where e: "AuditExtension path (Some read) = Inr ext" by (auto split: sum.splits)
  let ?r = "let r = r\<lparr>Extensions := Extensions r @ [ext]\<rparr> in
      if Violation ext \<noteq> [] then r\<lparr>Violations := Violations r @ [Violation ext]\<rparr> else r"
  have "audit_paths (Some read) ?r ps = Inr r'" using 2(2) e by (simp add: Let_def)
  from 2(1) [OF e refl this [unfolded Let_def]] obtain new where
    n: "Extensions r' = Extensions ?r @ new" "map Path new = ps" "list_all (entry_ok read) new"
      "Violations r' = Violations ?r @ filter (\<lambda>v. v \<noteq> []) (map Violation new)"
    by (auto simp: Let_def)
  then show ?case using AuditExtension_entry [OF e]
    by (intro exI [of _ "ext # new"]) (auto simp: Let_def)
qed simp

text \<open>
  The audit of a wheel returns one entry per extension, in sorted order, with the marker its
  reader delivered, and passes exactly when every extension declares the slot and declares that it
  runs without the GIL.  The order in which the extensions are listed does not matter.
\<close>

theorem Freethread_AuditWheel_verdict:
  assumes "AuditWheel exts (Some read) = Inr r"
  shows "map Path (Extensions r) = sort exts \<and> (\<forall>a \<in> set (Extensions r). entry_ok read a)
    \<and> (OK r \<longleftrightarrow> (\<forall>e \<in> set exts. \<exists>m. read e = Inr m \<and> Declared m \<and> GilDisabled m))
    \<and> (mset exts = mset exts' \<longrightarrow> AuditWheel exts' (Some read) = Inr r)"
proof -
  let ?r0 = "\<lparr>RPath = [], Extensions = [], Violations = [], OK = False\<rparr>"
  obtain r1 where r1: "audit_paths (Some read) ?r0 (sort exts) = Inr r1"
    and r: "Extensions r = Extensions r1" "OK r \<longleftrightarrow> Violations r1 = []"
    using assms by (auto simp: AuditWheel_def sort_strings_def Let_def split: sum.splits if_splits)
  from audit_paths_entries [OF r1] obtain new where n: "Extensions r1 = new" "map Path new = sort exts"
    "list_all (entry_ok read) new" "Violations r1 = filter (\<lambda>v. v \<noteq> []) (map Violation new)" by auto
  have "set exts = Path ` set new" using n(2) by (metis set_map set_sort)
  then have "OK r \<longleftrightarrow> (\<forall>e \<in> set exts. \<exists>m. read e = Inr m \<and> Declared m \<and> GilDisabled m)"
    using r(2) n(3,4) by (auto simp: filter_empty_conv list_all_iff entry_ok_def)
  moreover have "AuditWheel exts' (Some read) = Inr r" if "mset exts = mset exts'"
  proof -
    have "sort exts' = sort exts" using that by (metis properties_for_sort mset_sort sorted_sort)
    then show ?thesis using assms by (simp add: AuditWheel_def sort_strings_def)
  qed
  ultimately show ?thesis using r(1) n(1-3) by (auto simp: list_all_iff)
qed

definition sample_markers :: "bytes \<rightharpoonup> ModuleMarker" where
  "sample_markers = [''a.so'' \<mapsto> \<lparr>Module = [], Declared = True, GilDisabled = True\<rparr>]"

lemma Freethread_AuditWheel_verdict_witness:
  "\<exists>r. AuditWheel [''b.so'', ''a.so''] (Some (StaticMarkerReader_Read sample_markers)) = Inr r
     \<and> map Path (Extensions r) = [''a.so'', ''b.so''] \<and> \<not> OK r"
proof -
  let ?w = "AuditWheel [''b.so'', ''a.so''] (Some (StaticMarkerReader_Read sample_markers))"
  have "map_sum (\<lambda>e. ()) OK ?w = Inr False" by code_simp
  then obtain r where r: "?w = Inr r" "\<not> OK r" by (cases ?w) auto
  have "sort [''b.so'', ''a.so''] = [''a.so'', ''b.so'']" by code_simp
  with Freethread_AuditWheel_verdict [OF r(1)] r show ?thesis by auto
qed

subsection \<open>The lock module (lock.go)\<close>

datatype LockStrategy = LockGIL | LockPyMutex | LockStrategy_other int

fun LockStrategy_String :: "LockStrategy \<Rightarrow> bytes" where
  "LockStrategy_String LockGIL = ''gil''"
| "LockStrategy_String LockPyMutex = ''pymutex''"
| "LockStrategy_String (LockStrategy_other n) = ''unknown''"

record QualifiedAttr =
  QModule :: bytes
  QAttr :: bytes

record LockShim =
  Name :: bytes
  CriticalSection :: "QualifiedAttr list"

fun py_ident_runes :: "bool \<Rightarrow> int list \<Rightarrow> bool" where
  "py_ident_runes at_start [] = True"
| "py_ident_runes at_start (r # rs) =
    (if 97 \<le> r \<and> r \<le> 122 then py_ident_runes False rs
     else if 65 \<le> r \<and> r \<le> 90 then py_ident_runes False rs
     else if r = 95 then py_ident_runes False rs
     else if 48 \<le> r \<and> r \<le> 57 then (if at_start then False else py_ident_runes False rs)
     else False)"

definition isPyIdent :: "bytes \<Rightarrow> bool" where
  "isPyIdent s = (if s = [] then False else py_ident_runes True (runes s))"

fun check_attrs :: "QualifiedAttr set \<Rightarrow> QualifiedAttr list \<Rightarrow> FtError option" where
  "check_attrs seen [] = None"
| "check_attrs seen (q # qs) =
    (if QModule q = [] \<or> QAttr q = [] then Some ShimEntryEmpty
     else if q \<in> seen then Some ShimDuplicate
     else check_attrs (insert q seen) qs)"

definition LockShim_Validate :: "LockShim \<Rightarrow> FtError option" where
  "LockShim_Validate s =
    (if Name s = [] then Some ShimNameEmpty
     else if \<not> isPyIdent (Name s) then Some (ShimNameBad (Name s))
     else check_attrs {} (CriticalSection s))"

definition attr_less :: "QualifiedAttr \<Rightarrow> QualifiedAttr \<Rightarrow> bool" where
  "attr_less a b = (if QModule a \<noteq> QModule b then QModule a < QModule b else QAttr a < QAttr b)"

definition line :: "bytes \<Rightarrow> bytes" where
  "line s = s @ [CHR 0x0A]"

definition lock_kind_text :: "LockStrategy \<Rightarrow> bytes" where
  "lock_kind_text strategy =
    (if strategy = LockPyMutex then
       line ''# Free-threaded build: prefer the PEP 703 PyMutex bridge''
       @ line ''# threading._PyMutex is the public name once 3.13t / 3.14t lands;''
       @ line ''# we fall back to threading.Lock when the attribute is missing''
       @ line ''# so wheels that target 3.13.0t (pre-name-change) still link.''
       @ line ''if hasattr(threading, '_PyMutex'):''
       @ line ''    _LockKind = threading._PyMutex''
       @ line ''else:''
       @ line ''    _LockKind = threading.Lock''
     else
       line ''# Legacy GIL build: a single threading.Lock is enough; the GIL''
       @ line ''# already serialises refcount + dict writes.''
       @ line ''_LockKind = threading.Lock'')"

definition guard_line :: "(int \<Rightarrow> bool) \<Rightarrow> QualifiedAttr \<Rightarrow> bytes" where
  "guard_line ip q = line (''    ('' @ quote ip (QModule q) @ '', '' @ quote ip (QAttr q) @ ''),'')"

definition RenderLockShim ::
  "(int \<Rightarrow> bool) \<Rightarrow> (QualifiedAttr list \<Rightarrow> QualifiedAttr list) \<Rightarrow> LockShim \<Rightarrow> LockStrategy \<Rightarrow> FtError + bytes" where
  "RenderLockShim ip srt shim strategy =
    (case LockShim_Validate shim of
       Some e \<Rightarrow> Inl e
     | None \<Rightarrow>
        (let cs = srt (CriticalSection shim) in Inr (
           line ''# AUTOGENERATED by freethread.RenderLockShim; do not edit.''
           @ line ''import sys, threading''
           @ line []
           @ lock_kind_text strategy
           @ line []
           @ line (Name shim @ '' = _LockKind()'')
           @ line []
           @ line ''# Critical sections this lock guards (for telemetry + diagnostics).''
           @ line (Name shim @ ''_GUARDS = ('')
           @ concat (map (guard_line ip) cs)
           @ line '')''
           @ line []
           @ line ''# Runtime self-check: warn loudly if a free-threaded build imports''
           @ line ''# a shim rendered for the GIL strategy.''
           @ (if strategy = LockGIL then
                line ''if hasattr(sys, '_is_gil_enabled') and not sys._is_gil_enabled():''
                @ line ''    import warnings''
                @ line (''    warnings.warn('' @ [CHR 0x27] @ Name shim
                    @ '' rendered for GIL but interpreter is free-threaded', RuntimeWarning)'')
              else []))))"

lemma check_attrs_None:
  "check_attrs seen qs = None \<longleftrightarrow>
    (\<forall>q \<in> set qs. QModule q \<noteq> [] \<and> QAttr q \<noteq> []) \<and> distinct qs \<and> seen \<inter> set qs = {}"
  by (induction seen qs rule: check_attrs.induct) auto

lemma py_ident_first: "py_ident_runes True rs \<Longrightarrow> py_ident_runes False rs"
  by (cases rs) (auto split: if_splits)

lemma LockShim_Validate_None:
  "LockShim_Validate s = None \<longleftrightarrow> isPyIdent (Name s) \<and> distinct (CriticalSection s)
     \<and> (\<forall>q \<in> set (CriticalSection s). QModule q \<noteq> [] \<and> QAttr q \<noteq> [])"
  by (auto simp: LockShim_Validate_def check_attrs_None isPyIdent_def)

lemma sort_less_attr: "sort_less attr_less"
proof -
  have eq: "attr_less = (\<lambda>a b. (QModule a, QAttr a) < (QModule b, QAttr b))"
    by (intro ext) (auto simp: attr_less_def)
  show ?thesis unfolding eq by (rule sort_less_key [OF sort_less_lin])
qed

interpretation attr_order: sort_less attr_less
  by (rule sort_less_attr)

text \<open>
  Rendering is deterministic.  A shim renders exactly when its name is an identifier and its
  guards are distinct pairs without empty fields; then neither the order in which the guards are
  listed nor the sorting algorithm (any one that meets the contract of \<open>sort.Slice\<close>) shows in the
  text.
\<close>

theorem RenderLockShim_deterministic:
  assumes "slice_sort attr_less srt" "slice_sort attr_less srt'" "mset cs = mset cs'"
  shows "(isOK (RenderLockShim ip srt \<lparr>Name = n, CriticalSection = cs\<rparr> st) \<longleftrightarrow>
      isPyIdent n \<and> distinct cs \<and> (\<forall>q \<in> set cs. QModule q \<noteq> [] \<and> QAttr q \<noteq> []))
    \<and> (isOK (RenderLockShim ip srt \<lparr>Name = n, CriticalSection = cs\<rparr> st) \<longrightarrow>
        RenderLockShim ip srt' \<lparr>Name = n, CriticalSection = cs'\<rparr> st
          = RenderLockShim ip srt \<lparr>Name = n, CriticalSection = cs\<rparr> st)"
proof -
  let ?s = "\<lparr>Name = n, CriticalSection = cs\<rparr>" and ?s' = "\<lparr>Name = n, CriticalSection = cs'\<rparr>"
  have ok: "isOK (RenderLockShim ip srt ?s st) \<longleftrightarrow> LockShim_Validate ?s = None"
    by (auto simp: RenderLockShim_def Let_def split: option.splits)
  have tie: "x = y" if "attr_order.tied x y" for x y
    using that by (auto simp: attr_order.tied_def attr_less_def split: if_splits)
  have "srt' cs' = sort_stable attr_less cs'"
    using tie slice_sort.srt_unique [OF assms(2)] by blast
  also have "\<dots> = sort_stable attr_less cs"
    using tie assms(3) by (intro attr_order.sort_stable_perm) auto
  also have "\<dots> = srt cs"
    using tie slice_sort.srt_unique [OF assms(1)] by metis
  finally have same: "srt' cs' = srt cs" .
  have "LockShim_Validate ?s' = None" if "LockShim_Validate ?s = None"
    using that mset_eq_setD [OF assms(3)] mset_eq_imp_distinct_iff [OF assms(3)]
    by (simp add: LockShim_Validate_None)
  then have "LockShim_Validate ?s = None \<longrightarrow> RenderLockShim ip srt' ?s' st = RenderLockShim ip srt ?s st"
    using same by (simp add: RenderLockShim_def)
  then show ?thesis using ok by (simp add: LockShim_Validate_None)
qed

lemma RenderLockShim_deterministic_witness:
  "RenderLockShim (\<lambda>_. True) (sort_stable attr_less)
      \<lparr>Name = ''_lk'', CriticalSection = [\<lparr>QModule = ''m'', QAttr = ''b''\<rparr>, \<lparr>QModule = ''m'', QAttr = ''a''\<rparr>]\<rparr> LockGIL
    = RenderLockShim (\<lambda>_. True) (sort_stable attr_less)
      \<lparr>Name = ''_lk'', CriticalSection = [\<lparr>QModule = ''m'', QAttr = ''a''\<rparr>, \<lparr>QModule = ''m'', QAttr = ''b''\<rparr>]\<rparr> LockGIL"
proof -
  let ?cs = "[\<lparr>QModule = ''m'', QAttr = ''a''\<rparr>, \<lparr>QModule = ''m'', QAttr = ''b''\<rparr>]"
  let ?cs' = "[\<lparr>QModule = ''m'', QAttr = ''b''\<rparr>, \<lparr>QModule = ''m'', QAttr = ''a''\<rparr>]"
  have m: "mset ?cs = mset ?cs'" by simp
  have "isPyIdent ''_lk''" by code_simp
  then show ?thesis
    using RenderLockShim_deterministic [OF attr_order.stable.slice_sort_axioms
        attr_order.stable.slice_sort_axioms m, of "\<lambda>_. True" "''_lk''" LockGIL] by auto
qed

end
