(* ===== verification/Pyodide.thy ===== *)
theory Pyodide
  imports Wheel_Select
begin

section \<open>WebAssembly platform tags and their wheel selector (pyodide/)\<close>

text \<open>
  Targets and vintages (target.go), the three families of platform tags (platform.go) and the
  selector (wheel.go).  The comparison the selector sorts with is no order when families mix, so
  \<open>tag_key\<close> is the order it agrees with on every pool that can arise; the interface
  \<open>wheel_selector\<close> is interpreted on that order.
\<close>

subsection \<open>Targets (target.go)\<close>

datatype Runtime = RuntimeUnknown | RuntimePyodide | RuntimeWASIPreview2

fun Runtime_String :: "Runtime \<Rightarrow> bytes" where
  "Runtime_String RuntimePyodide = ''pyodide''"
| "Runtime_String RuntimeWASIPreview2 = ''wasi-p2''"
| "Runtime_String RuntimeUnknown = ''unknown''"

record Vintage =
  Year :: int
  Rev :: int

record Target =
  TRuntime :: Runtime
  PythonABI :: bytes
  MinVintage :: Vintage

datatype TagKind = TagUnknown | TagPyodide | TagEmscripten | TagWASIPreview2

datatype PyoError =
    RuntimeMissing | RuntimeBad bytes | RuntimeUnset
  | NoWasmSuffix bytes | PyodideShape bytes | BadYear bytes bytes | BadRev bytes bytes
  | EmscriptenShape bytes | BadMajor bytes bytes | BadMinor bytes bytes | BadPatch bytes bytes
  | UnrecognisedTag bytes | NotWhl bytes | MissingFields bytes
  | AbiMismatch bytes bytes | WrongKind TagKind Runtime | TooOld Vintage Vintage

definition ParseRuntime :: "bytes \<Rightarrow> PyoError + Runtime" where
  "ParseRuntime s =
    (if s = ''pyodide'' then Inr RuntimePyodide
     else if s = ''wasi-p2'' \<or> s = ''wasip2'' then Inr RuntimeWASIPreview2
     else if s = [] then Inl RuntimeMissing else Inl (RuntimeBad s))"

definition Vintage_Zero :: "Vintage \<Rightarrow> bool" where
  "Vintage_Zero v \<longleftrightarrow> Year v = 0 \<and> Rev v = 0"

definition Vintage_Less :: "Vintage \<Rightarrow> Vintage \<Rightarrow> bool" where
  "Vintage_Less v w = (if Year v \<noteq> Year w then Year v < Year w else Rev v < Rev w)"

definition Vintage_String :: "Vintage \<Rightarrow> bytes" where
  "Vintage_String v = itoa (Year v) @ ''_'' @ itoa (Rev v)"

definition Target_Validate :: "Target \<Rightarrow> PyoError option" where
  "Target_Validate t = (if TRuntime t = RuntimeUnknown then Some RuntimeUnset else None)"

lemma Vintage_Less_lex: "Vintage_Less v w \<longleftrightarrow> (Year v, Rev v) < (Year w, Rev w)"
  by (auto simp: Vintage_Less_def)

subsection \<open>Platform tags (platform.go)\<close>

fun TagKind_String :: "TagKind \<Rightarrow> bytes" where
  "TagKind_String TagPyodide = ''pyodide''"
| "TagKind_String TagEmscripten = ''emscripten''"
| "TagKind_String TagWASIPreview2 = ''wasi-p2''"
| "TagKind_String TagUnknown = ''unknown''"

record EmscriptenVersion =
  EMajor :: int
  EMinor :: int
  EPatch :: int

definition EmscriptenVersion_String :: "EmscriptenVersion \<Rightarrow> bytes" where
  "EmscriptenVersion_String e = itoa (EMajor e) @ ''.'' @ itoa (EMinor e) @ ''.'' @ itoa (EPatch e)"

record Tag =
  Raw :: bytes
  Kind :: TagKind
  TVintage :: Vintage
  Emscripten :: EmscriptenVersion

definition zero_tag :: "bytes \<Rightarrow> Tag" where
  "zero_tag raw = \<lparr>Raw = raw, Kind = TagUnknown, TVintage = \<lparr>Year = 0, Rev = 0\<rparr>,
     Emscripten = \<lparr>EMajor = 0, EMinor = 0, EPatch = 0\<rparr>\<rparr>"

text \<open>\<open>strconv.Atoi\<close> with a lower bound, as the five number fields use it.\<close>

definition atoi_from :: "int \<Rightarrow> bytes \<Rightarrow> int option" where
  "atoi_from lo s = (case atoi s of Some n \<Rightarrow> if n < lo then None else Some n | None \<Rightarrow> None)"

definition parse_pyodide :: "bytes \<Rightarrow> PyoError + Tag" where
  "parse_pyodide raw =
    (if \<not> has_suffix raw ''_wasm32'' then Inl (NoWasmSuffix raw)
     else let rest = trim_suffix (trim_prefix raw ''pyodide_'') ''_wasm32'';
              parts = split_on CHR ''_'' rest in
     if length parts \<noteq> 2 then Inl (PyodideShape raw)
     else case atoi_from 1 (parts ! 0) of
       None \<Rightarrow> Inl (BadYear raw (parts ! 0))
     | Some year \<Rightarrow>
         (case atoi_from 0 (parts ! 1) of
            None \<Rightarrow> Inl (BadRev raw (parts ! 1))
          | Some n \<Rightarrow> Inr ((zero_tag raw)\<lparr>Kind := TagPyodide, TVintage := \<lparr>Year = year, Rev = n\<rparr>\<rparr>)))"

definition parse_emscripten :: "bytes \<Rightarrow> PyoError + Tag" where
  "parse_emscripten raw =
    (if \<not> has_suffix raw ''_wasm32'' then Inl (NoWasmSuffix raw)
     else let rest = trim_suffix (trim_prefix raw ''emscripten_'') ''_wasm32'';
              parts = split_on CHR ''_'' rest in
     if length parts \<noteq> 3 then Inl (EmscriptenShape raw)
     else case atoi_from 1 (parts ! 0) of
       None \<Rightarrow> Inl (BadMajor raw (parts ! 0))
     | Some maj \<Rightarrow>
         (case atoi_from 0 (parts ! 1) of
            None \<Rightarrow> Inl (BadMinor raw (parts ! 1))
          | Some mn \<Rightarrow>
              (case atoi_from 0 (parts ! 2) of
                 None \<Rightarrow> Inl (BadPatch raw (parts ! 2))
               | Some pat \<Rightarrow> Inr ((zero_tag raw)\<lparr>Kind := TagEmscripten,
                   Emscripten := \<lparr>EMajor = maj, EMinor = mn, EPatch = pat\<rparr>\<rparr>))))"

definition ParsePlatformTag :: "bytes \<Rightarrow> PyoError + Tag" where
  "ParsePlatformTag raw =
    (if has_prefix raw ''pyodide_'' then parse_pyodide raw
     else if has_prefix raw ''emscripten_'' then parse_emscripten raw
     else if raw = ''wasi_p2_wasm32'' \<or> raw = ''wasi_p2''
       then Inr ((zero_tag raw)\<lparr>Kind := TagWASIPreview2\<rparr>)
     else Inl (UnrecognisedTag raw))"

definition SatisfiesRuntime :: "Tag \<Rightarrow> Runtime \<Rightarrow> bool" where
  "SatisfiesRuntime t r =
    (case r of
       RuntimePyodide \<Rightarrow> Kind t = TagPyodide \<or> Kind t = TagEmscripten
     | RuntimeWASIPreview2 \<Rightarrow> Kind t = TagWASIPreview2
     | RuntimeUnknown \<Rightarrow> False)"

lemma itoa_no_underscore [simp]: "0 \<le> n \<Longrightarrow> CHR ''_'' \<notin> set (itoa n)"
  using itoa_char [of n "CHR ''_''"] by (auto simp: is_digit_def)

lemma split_dec2:
  "0 \<le> a \<Longrightarrow> 0 \<le> b \<Longrightarrow> split_on CHR ''_'' (itoa a @ CHR ''_'' # itoa b) = [itoa a, itoa b]"
  by simp

lemma split_dec3:
  "0 \<le> a \<Longrightarrow> 0 \<le> b \<Longrightarrow> 0 \<le> c \<Longrightarrow>
    split_on CHR ''_'' (itoa a @ CHR ''_'' # itoa b @ CHR ''_'' # itoa c) = [itoa a, itoa b, itoa c]"
  by simp

text \<open>
  Every platform tag the distributions stamp is read back exactly: a vintage from its
  \<open>pyodide\<close> tag, a toolchain version from its \<open>emscripten\<close> tag, for all numbers a Go \<open>int\<close> holds,
  and the family decides the runtime, the two families of Pyodide serving one runtime only.
\<close>

theorem ParsePlatformTag_tags:
  assumes "1 \<le> y" "int64 y" "0 \<le> r" "int64 r" "0 \<le> p" "int64 p"
  shows "(\<exists>t. ParsePlatformTag (''pyodide_'' @ Vintage_String \<lparr>Year = y, Rev = r\<rparr> @ ''_wasm32'') = Inr t
        \<and> Kind t = TagPyodide \<and> TVintage t = \<lparr>Year = y, Rev = r\<rparr>
        \<and> (\<forall>rt. SatisfiesRuntime t rt \<longleftrightarrow> rt = RuntimePyodide))
    \<and> (\<exists>t. ParsePlatformTag (''emscripten_'' @ itoa y @ ''_'' @ itoa r @ ''_'' @ itoa p @ ''_wasm32'') = Inr t
        \<and> Kind t = TagEmscripten \<and> Emscripten t = \<lparr>EMajor = y, EMinor = r, EPatch = p\<rparr>
        \<and> (\<forall>rt. SatisfiesRuntime t rt \<longleftrightarrow> rt = RuntimePyodide))
    \<and> (\<exists>t. ParsePlatformTag ''wasi_p2_wasm32'' = Inr t
        \<and> (\<forall>rt. SatisfiesRuntime t rt \<longleftrightarrow> rt = RuntimeWASIPreview2))"
proof (intro conjI)
  have sat: "\<forall>rt. SatisfiesRuntime t rt \<longleftrightarrow> rt = RuntimePyodide"
    if "Kind t = TagPyodide \<or> Kind t = TagEmscripten" for t
    using that by (auto simp: SatisfiesRuntime_def split: Runtime.splits)
  let ?v = "itoa y @ CHR ''_'' # itoa r"
  let ?raw = "''pyodide_'' @ ?v @ ''_wasm32''"
  have "parse_pyodide ?raw
      = Inr ((zero_tag ?raw)\<lparr>Kind := TagPyodide, TVintage := \<lparr>Year = y, Rev = r\<rparr>\<rparr>)"
  proof -
    have "suffix ''_wasm32'' ?raw" by (rule suffixI [of _ "''pyodide_'' @ ?v"]) simp
    moreover have "trim_suffix (trim_prefix ?raw ''pyodide_'') ''_wasm32'' = ?v"
      by (simp only: trim_prefix_append trim_suffix_append)
    ultimately show ?thesis using assms split_dec2 [of y r]
      unfolding parse_pyodide_def Let_def by (simp add: atoi_from_def)
  qed
  moreover have "prefix ''pyodide_'' ?raw" by (rule prefixI [OF refl])
  ultimately show "\<exists>t. ParsePlatformTag (''pyodide_'' @ Vintage_String \<lparr>Year = y, Rev = r\<rparr> @ ''_wasm32'') = Inr t
        \<and> Kind t = TagPyodide \<and> TVintage t = \<lparr>Year = y, Rev = r\<rparr>
        \<and> (\<forall>rt. SatisfiesRuntime t rt \<longleftrightarrow> rt = RuntimePyodide)"
    using sat by (simp add: ParsePlatformTag_def Vintage_String_def)
next
  have sat: "\<forall>rt. SatisfiesRuntime t rt \<longleftrightarrow> rt = RuntimePyodide"
    if "Kind t = TagPyodide \<or> Kind t = TagEmscripten" for t
    using that by (auto simp: SatisfiesRuntime_def split: Runtime.splits)
  let ?v = "itoa y @ CHR ''_'' # itoa r @ CHR ''_'' # itoa p"
  let ?raw = "''emscripten_'' @ ?v @ ''_wasm32''"
  have "parse_emscripten ?raw
      = Inr ((zero_tag ?raw)\<lparr>Kind := TagEmscripten, Emscripten := \<lparr>EMajor = y, EMinor = r, EPatch = p\<rparr>\<rparr>)"
  proof -
    have "suffix ''_wasm32'' ?raw" by (rule suffixI [of _ "''emscripten_'' @ ?v"]) simp
    moreover have "trim_suffix (trim_prefix ?raw ''emscripten_'') ''_wasm32'' = ?v"
      by (simp only: trim_prefix_append trim_suffix_append)
    ultimately show ?thesis using assms split_dec3 [of y r p]
      unfolding parse_emscripten_def Let_def by (simp add: atoi_from_def)
  qed
  moreover have "prefix ''emscripten_'' ?raw" by (rule prefixI [OF refl])
  ultimately show "\<exists>t. ParsePlatformTag (''emscripten_'' @ itoa y @ ''_'' @ itoa r @ ''_'' @ itoa p @ ''_wasm32'') = Inr t
        \<and> Kind t = TagEmscripten \<and> Emscripten t = \<lparr>EMajor = y, EMinor = r, EPatch = p\<rparr>
        \<and> (\<forall>rt. SatisfiesRuntime t rt \<longleftrightarrow> rt = RuntimePyodide)"
    using sat by (simp add: ParsePlatformTag_def)
qed (auto simp: ParsePlatformTag_def SatisfiesRuntime_def split: Runtime.splits)

lemma ParsePlatformTag_tags_witness:
  "\<exists>t. ParsePlatformTag (''pyodide_'' @ Vintage_String \<lparr>Year = 2024, Rev = 0\<rparr> @ ''_wasm32'') = Inr t
     \<and> Kind t = TagPyodide"
proof -
  have "int64 2024" "int64 0" by (simp_all add: int64_def)
  then show ?thesis using ParsePlatformTag_tags [of 2024 0 0] by auto
qed

subsection \<open>The selector (wheel.go)\<close>

record WheelCandidate =
  Filename :: bytes
  URL :: bytes

record SelectionResult =
  Chosen :: "WheelCandidate option"
  ChosenTag :: Tag

record ranked =
  cand :: WheelCandidate
  tag :: Tag

definition splitWheelFilename :: "bytes \<Rightarrow> PyoError + bytes \<times> bytes" where
  "splitWheelFilename name =
    (let base = trim_suffix name ''.whl'' in
     if base = name then Inl (NotWhl name)
     else let parts = split_on CHR ''-'' base in
     if length parts < 5 then Inl (MissingFields name)
     else Inr (join ''-'' (take (length parts - 1) parts), parts ! (length parts - 1)))"

definition wheelABI :: "bytes \<Rightarrow> bytes" where
  "wheelABI name =
    (let parts = split_on CHR ''-'' (trim_suffix name ''.whl'') in
     if length parts < 5 then [] else parts ! (length parts - 2))"

text \<open>The body of the candidate loop.\<close>

definition judge :: "Target \<Rightarrow> WheelCandidate \<Rightarrow> PyoError + ranked" where
  "judge tgt c =
    (case splitWheelFilename (Filename c) of
       Inl e \<Rightarrow> Inl e
     | Inr (_, platTag) \<Rightarrow>
       (let ab = wheelABI (Filename c) in
        if PythonABI tgt \<noteq> [] \<and> ab \<noteq> PythonABI tgt then Inl (AbiMismatch ab (PythonABI tgt))
        else case ParsePlatformTag platTag of
          Inl e \<Rightarrow> Inl e
        | Inr t \<Rightarrow>
            if \<not> SatisfiesRuntime t (TRuntime tgt) then Inl (WrongKind (Kind t) (TRuntime tgt))
            else if Kind t = TagPyodide \<and> \<not> Vintage_Zero (MinVintage tgt)
              \<and> Vintage_Less (TVintage t) (MinVintage tgt)
            then Inl (TooOld (TVintage t) (MinVintage tgt))
            else Inr \<lparr>cand = c, tag = t\<rparr>))"

definition ranked_less :: "ranked \<Rightarrow> ranked \<Rightarrow> bool" where
  "ranked_less x y =
    (let a = tag x; b = tag y in
     if Kind a = TagPyodide \<and> Kind b = TagPyodide then
       (if Vintage_Less (TVintage a) (TVintage b) then False
        else if Vintage_Less (TVintage b) (TVintage a) then True
        else Filename (cand x) < Filename (cand y))
     else if Kind a = TagEmscripten \<and> Kind b = TagEmscripten then
       (let av = Emscripten a; bv = Emscripten b in
        if EMajor av \<noteq> EMajor bv then EMajor av > EMajor bv
        else if EMinor av \<noteq> EMinor bv then EMinor av > EMinor bv
        else if EPatch av \<noteq> EPatch bv then EPatch av > EPatch bv
        else Filename (cand x) < Filename (cand y))
     else if Kind a = TagPyodide \<and> Kind b = TagEmscripten then True
     else if Kind a = TagEmscripten \<and> Kind b = TagPyodide then False
     else Filename (cand x) < Filename (cand y))"

definition Select :: "Target \<Rightarrow> WheelCandidate list \<Rightarrow> PyoError + SelectionResult \<times> (bytes \<rightharpoonup> PyoError)" where
  "Select tgt candidates =
    (case Target_Validate tgt of
       Some e \<Rightarrow> Inl e
     | None \<Rightarrow>
       (case scan (judge tgt) Filename Map.empty [] candidates of
          (reasons, pool) \<Rightarrow>
            (case first_of ranked_less pool of
               None \<Rightarrow> Inr (\<lparr>Chosen = None, ChosenTag = zero_tag []\<rparr>, reasons)
             | Some w \<Rightarrow> Inr (\<lparr>Chosen = Some (cand w), ChosenTag = tag w\<rparr>, reasons))))"

subsection \<open>The order behind the comparison\<close>

text \<open>
  Newest vintage first, then newest toolchain, then everything else, ties by file name.
\<close>

definition tag_key :: "Tag \<Rightarrow> int \<times> int \<times> int \<times> int" where
  "tag_key t =
    (case Kind t of
       TagPyodide \<Rightarrow> (0, - Year (TVintage t), - Rev (TVintage t), 0)
     | TagEmscripten \<Rightarrow> (1, - EMajor (Emscripten t), - EMinor (Emscripten t), - EPatch (Emscripten t))
     | _ \<Rightarrow> (2, 0, 0, 0))"

definition key_less :: "ranked \<Rightarrow> ranked \<Rightarrow> bool" where
  "key_less x y \<longleftrightarrow> (tag_key (tag x), Filename (cand x)) < (tag_key (tag y), Filename (cand y))"

lemma ranked_less_tag_key:
  assumes "SatisfiesRuntime (tag x) r" "SatisfiesRuntime (tag y) r"
  shows "ranked_less x y \<longleftrightarrow> key_less x y"
  using assms
  by (cases r; cases "Kind (tag x)"; cases "Kind (tag y)")
    (auto simp: SatisfiesRuntime_def ranked_less_def key_less_def tag_key_def Vintage_Less_def Let_def)

lemma sort_less_key_less: "sort_less key_less"
proof -
  have eq: "key_less = (\<lambda>x y. (tag_key (tag x), Filename (cand x)) < (tag_key (tag y), Filename (cand y)))"
    by (intro ext) (simp add: key_less_def)
  show ?thesis unfolding eq by (rule sort_less_key [OF sort_less_lin])
qed

interpretation wasm_selector: wheel_selector key_less "judge tgt" Filename for tgt
  by (rule wheel_selector.intro) (rule sort_less_key_less)

lemma wasm_judge_Inr:
  "judge tgt c = Inr e \<longleftrightarrow>
     (\<exists>pre plat t. splitWheelFilename (Filename c) = Inr (pre, plat) \<and> ParsePlatformTag plat = Inr t
        \<and> (PythonABI tgt \<noteq> [] \<longrightarrow> wheelABI (Filename c) = PythonABI tgt)
        \<and> SatisfiesRuntime t (TRuntime tgt)
        \<and> (Kind t = TagPyodide \<longrightarrow> Vintage_Zero (MinVintage tgt) \<or> \<not> Vintage_Less (TVintage t) (MinVintage tgt))
        \<and> e = \<lparr>cand = c, tag = t\<rparr>)"
  by (auto simp: judge_def Let_def split: sum.splits prod.splits if_splits)

lemma first_of_pool:
  "first_of ranked_less (admitted (judge tgt) cs) = first_of key_less (admitted (judge tgt) cs)"
proof (rule first_of_cong)
  fix x y assume "x \<in> set (admitted (judge tgt) cs)" "y \<in> set (admitted (judge tgt) cs)"
  then show "ranked_less x y = key_less x y"
    by (intro ranked_less_tag_key [of _ "TRuntime tgt"]) (auto simp: admitted_set wasm_judge_Inr)
qed

lemma wasm_Select_eq:
  "TRuntime tgt \<noteq> RuntimeUnknown \<Longrightarrow>
    Select tgt cs = (let reasons = fst (scan (judge tgt) Filename Map.empty [] cs) in
      case first_of key_less (admitted (judge tgt) cs) of
        None \<Rightarrow> Inr (\<lparr>Chosen = None, ChosenTag = zero_tag []\<rparr>, reasons)
      | Some w \<Rightarrow> Inr (\<lparr>Chosen = Some (cand w), ChosenTag = tag w\<rparr>, reasons))"
  using scan_pool [of "judge tgt" Filename Map.empty "[]" cs] first_of_pool [of tgt cs]
  by (cases "scan (judge tgt) Filename Map.empty [] cs")
    (auto simp: Select_def Target_Validate_def Let_def split: option.split)

lemma wasm_Select_cases:
  assumes "Select tgt cs = Inr (r, reasons)"
  obtains "TRuntime tgt \<noteq> RuntimeUnknown" "first_of key_less (admitted (judge tgt) cs) = None" "Chosen r = None"
  | w where "TRuntime tgt \<noteq> RuntimeUnknown" "first_of key_less (admitted (judge tgt) cs) = Some w"
      "Chosen r = Some (cand w)" "ChosenTag r = tag w"
proof (cases "TRuntime tgt = RuntimeUnknown")
  case True
  then show ?thesis using assms by (simp add: Select_def Target_Validate_def)
next
  case False
  then show ?thesis
    using assms that wasm_Select_eq [OF False, of cs]
    by (cases "first_of key_less (admitted (judge tgt) cs)") (auto simp: Let_def)
qed

lemma wasm_Select_reasons:
  "Select tgt cs = Inr (r, reasons) \<Longrightarrow> reasons = fst (scan (judge tgt) Filename Map.empty [] cs)"
  by (auto simp: Select_def split: option.splits prod.splits)

text \<open>
  The selector for WebAssembly installs.  The chosen wheel is a candidate whose platform tag
  parses, belongs to the target's runtime, matches the target's ABI when one is set and is not
  older than the minimum vintage; no admitted wheel has a newer vintage (or, among legacy tags, a
  newer toolchain), a vintage tag beats a legacy one, and ties go to the smaller file name.
  Nothing is chosen exactly when every candidate is rejected, and the reasons name exactly the
  rejected files.
\<close>

theorem Pyodide_Select_best:
  assumes "Select tgt cs = Inr (r, reasons)"
  shows "(case Chosen r of
       None \<Rightarrow> \<forall>c \<in> set cs. \<not> isOK (judge tgt c)
     | Some w \<Rightarrow> w \<in> set cs \<and> SatisfiesRuntime (ChosenTag r) (TRuntime tgt)
         \<and> (\<exists>pre plat. splitWheelFilename (Filename w) = Inr (pre, plat)
              \<and> ParsePlatformTag plat = Inr (ChosenTag r))
         \<and> (PythonABI tgt \<noteq> [] \<longrightarrow> wheelABI (Filename w) = PythonABI tgt)
         \<and> (Kind (ChosenTag r) = TagPyodide \<and> \<not> Vintage_Zero (MinVintage tgt)
              \<longrightarrow> \<not> Vintage_Less (TVintage (ChosenTag r)) (MinVintage tgt))
         \<and> (\<forall>c \<in> set cs. \<forall>e. judge tgt c = Inr e \<longrightarrow>
              (tag_key (ChosenTag r), Filename w) \<le> (tag_key (tag e), Filename c)))
    \<and> dom reasons = {Filename c |c. c \<in> set cs \<and> \<not> isOK (judge tgt c)}"
proof -
  have dom: "dom reasons = {Filename c |c. c \<in> set cs \<and> \<not> isOK (judge tgt c)}"
    using wasm_Select_reasons [OF assms] by (simp add: scan_reason_dom)
  from assms show ?thesis
  proof (cases rule: wasm_Select_cases)
    case 1
    then show ?thesis using dom wasm_selector.no_winner by simp
  next
    case (2 w)
    obtain c where c: "c \<in> set cs" "judge tgt c = Inr w"
      using wasm_selector.winner_admitted [OF 2(2)] by blast
    have best: "\<forall>d \<in> set cs. \<forall>e. judge tgt d = Inr e \<longrightarrow>
        (tag_key (tag w), Filename c) \<le> (tag_key (tag e), Filename d)"
    proof (intro ballI allI impI)
      fix d e assume d: "d \<in> set cs" "judge tgt d = Inr e"
      have "cand w = c" "cand e = d" using c(2) d(2) by (auto simp: wasm_judge_Inr)
      with wasm_selector.winner_best [OF 2(2) d] show "(tag_key (tag w), Filename c) \<le> (tag_key (tag e), Filename d)"
        by (simp only: key_less_def not_less)
    qed
    have "cand w = c \<and> SatisfiesRuntime (tag w) (TRuntime tgt)
        \<and> (\<exists>pre plat. splitWheelFilename (Filename c) = Inr (pre, plat) \<and> ParsePlatformTag plat = Inr (tag w))
        \<and> (PythonABI tgt \<noteq> [] \<longrightarrow> wheelABI (Filename c) = PythonABI tgt)
        \<and> (Kind (tag w) = TagPyodide \<and> \<not> Vintage_Zero (MinVintage tgt)
              \<longrightarrow> \<not> Vintage_Less (TVintage (tag w)) (MinVintage tgt))"
      using c(2) by (auto simp: wasm_judge_Inr)
    then show ?thesis using 2 c(1) dom best by simp
  qed
qed

definition wasm_page :: "WheelCandidate list" where
  "wasm_page =
     [\<lparr>Filename = ''p-1.0-cp312-cp312-emscripten_3_1_45_wasm32.whl'', URL = ''u1''\<rparr>,
      \<lparr>Filename = ''p-1.0-cp312-cp312-pyodide_2024_0_wasm32.whl'', URL = ''u2''\<rparr>,
      \<lparr>Filename = ''p-1.0-cp312-cp312-wasi_p2.whl'', URL = ''u3''\<rparr>]"

lemma Pyodide_Select_best_witness:
  "\<exists>r reasons. Select \<lparr>TRuntime = RuntimePyodide, PythonABI = ''cp312'', MinVintage = \<lparr>Year = 0, Rev = 0\<rparr>\<rparr>
        wasm_page = Inr (r, reasons) \<and> Chosen r \<noteq> None \<and> Kind (ChosenTag r) = TagPyodide
     \<and> SatisfiesRuntime (ChosenTag r) RuntimePyodide"
proof -
  let ?t = "\<lparr>TRuntime = RuntimePyodide, PythonABI = ''cp312'', MinVintage = \<lparr>Year = 0, Rev = 0\<rparr>\<rparr>"
  have "map_sum (\<lambda>e. ()) (\<lambda>x. (Kind (ChosenTag (fst x)), Chosen (fst x) = None)) (Select ?t wasm_page)
      = Inr (TagPyodide, False)"
    by code_simp
  then obtain r reasons where s: "Select ?t wasm_page = Inr (r, reasons)" "Kind (ChosenTag r) = TagPyodide"
    "Chosen r \<noteq> None"
    by (cases "Select ?t wasm_page") auto
  from Pyodide_Select_best [OF s(1)] s show ?thesis by (auto split: option.splits)
qed

text \<open>
  The comparison by itself is not transitive: a WASI tag between a Pyodide and an Emscripten tag
  is compared by file name.  The runtime filter keeps such a mixture out of every pool.
\<close>

lemma ranked_less_not_transitive:
  "\<exists>x y z. ranked_less x y \<and> ranked_less y z \<and> \<not> ranked_less x z"
proof -
  define mk where "mk k n = \<lparr>cand = \<lparr>Filename = n, URL = []\<rparr>, tag = (zero_tag [])\<lparr>Kind := k\<rparr>\<rparr>" for k n
  have "ranked_less (mk TagEmscripten ''a'') (mk TagWASIPreview2 ''b'')"
    "ranked_less (mk TagWASIPreview2 ''b'') (mk TagPyodide ''c'')"
    "\<not> ranked_less (mk TagEmscripten ''a'') (mk TagPyodide ''c'')"
    unfolding mk_def by code_simp+
  then show ?thesis by blast
qed

end
