(* ===== verification/Typemap_PyType.thy ===== *)
theory Typemap_PyType
  imports Go_Sort
begin

section \<open>Python type expressions: the AST and its parser (typemap/pytype.go)\<close>

text \<open>
  The Go struct \<open>PyType\<close> is a tagged union whose fields depend on its kind; here it is a datatype.
  The parser of the code keeps the source and an offset; here it keeps the rest of the source, and
  an error keeps the rest it was met at, from which \<open>PyError_text\<close> computes the offset.  The
  mutual recursion runs on fuel, one unit per call; \<open>ParsePyType\<close> supplies
  \<open>4 * length + 4\<close>, and \<open>enough_fuel\<close> shows that this never runs out.
\<close>

subsection \<open>The AST\<close>

datatype PyType =
    PyName bytes
  | PyAttr PyType bytes
  | PySubscript PyType "PyType list"
  | PyTuple "PyType list"
  | PyUnion "PyType list"
  | PyLiteral bytes
  | PyEllipsis

fun PyType_String :: "PyType \<Rightarrow> bytes" where
  "PyType_String (PyName n) = n"
| "PyType_String (PyAttr b n) = PyType_String b @ ''.'' @ n"
| "PyType_String (PySubscript b args) = PyType_String b @ ''['' @ join '', '' (map PyType_String args) @ '']''"
| "PyType_String (PyTuple args) = ''['' @ join '', '' (map PyType_String args) @ '']''"
| "PyType_String (PyUnion bs) = join '' | '' (map PyType_String bs)"
| "PyType_String (PyLiteral l) = l"
| "PyType_String PyEllipsis = ''...''"

fun QualifiedName :: "PyType \<Rightarrow> bytes" where
  "QualifiedName (PyName n) = n"
| "QualifiedName (PyAttr b n) =
    (let base = QualifiedName b in if base = [] then [] else base @ ''.'' @ n)"
| "QualifiedName _ = []"

subsection \<open>Characters and tokens\<close>

text \<open>
  \<open>unicode.IsLetter(rune(c))\<close> for a byte: the rune is below U+0100, whose letters are the ASCII
  ones and those of Latin-1; its only digits are the ASCII digits.
\<close>

definition is_letter :: "char \<Rightarrow> bool" where
  "is_letter c \<longleftrightarrow> (65 \<le> byte c \<and> byte c \<le> 90) \<or> (97 \<le> byte c \<and> byte c \<le> 122)
     \<or> byte c = 170 \<or> byte c = 181 \<or> byte c = 186 \<or> (192 \<le> byte c \<and> byte c \<noteq> 215 \<and> byte c \<noteq> 247)"

definition isIdentStart :: "char \<Rightarrow> bool" where
  "isIdentStart c \<longleftrightarrow> c = CHR ''_'' \<or> is_letter c"

definition isIdentCont :: "char \<Rightarrow> bool" where
  "isIdentCont c \<longleftrightarrow> c = CHR ''_'' \<or> is_letter c \<or> is_digit c"

datatype PyError =
    OutOfFuel | TrailingInput bytes | MissingBracket bytes | UnterminatedArgs | MissingInnerBracket bytes
  | UnexpectedEnd | MissingParen bytes | UnexpectedDot bytes | UnexpectedChar bytes
  | ExpectedIdent bytes | UnterminatedString bytes

definition skipWS :: "bytes \<Rightarrow> bytes" where
  "skipWS s = dropWhile (\<lambda>c. c = CHR '' '' \<or> c = CHR 0x09) s"

definition parseIdent :: "bytes \<Rightarrow> PyError + bytes \<times> bytes" where
  "parseIdent s =
    (case skipWS s of
       [] \<Rightarrow> Inl (ExpectedIdent [])
     | c # r \<Rightarrow> if \<not> isIdentStart c then Inl (ExpectedIdent (c # r))
                else Inr (c # takeWhile isIdentCont r, dropWhile isIdentCont r))"

text \<open>The loop of \<open>parseStringLiteral\<close> after the opening quote: the rest of the literal, and what follows.\<close>

fun string_body :: "char \<Rightarrow> bytes \<Rightarrow> (bytes \<times> bytes) option" where
  "string_body q [] = None"
| "string_body q [c] = (if c = q then Some ([c], []) else None)"
| "string_body q (c # d # s) =
    (if c = CHR 0x5C then map_option (\<lambda>(l, r). (c # d # l, r)) (string_body q s)
     else if c = q then Some ([c], d # s)
     else map_option (\<lambda>(l, r). (c # l, r)) (string_body q (d # s)))"

definition parseStringLiteral :: "bytes \<Rightarrow> PyError + PyType \<times> bytes" where
  "parseStringLiteral s =
    (case s of
       [] \<Rightarrow> Inl (UnterminatedString [])
     | q # r \<Rightarrow> (case string_body q r of
         None \<Rightarrow> Inl (UnterminatedString s)
       | Some (l, r') \<Rightarrow> Inr (PyLiteral (q # l), r')))"

definition num_char :: "char \<Rightarrow> bool" where
  "num_char c \<longleftrightarrow> is_digit c \<or> c = CHR ''.''"

definition parseNumberLiteral :: "bytes \<Rightarrow> PyError + PyType \<times> bytes" where
  "parseNumberLiteral s =
    (case s of
       [] \<Rightarrow> Inr (PyLiteral [], [])
     | c # r \<Rightarrow>
         if c = CHR ''-'' then Inr (PyLiteral (c # takeWhile num_char r), dropWhile num_char r)
         else Inr (PyLiteral (takeWhile num_char s), dropWhile num_char s))"

definition keyword_or_name :: "bytes \<Rightarrow> PyType" where
  "keyword_or_name name =
    (if name = ''True'' \<or> name = ''False'' \<or> name = ''None'' then PyLiteral name else PyName name)"

subsection \<open>The recursive descent\<close>

function (sequential) parseUnion :: "nat \<Rightarrow> bytes \<Rightarrow> PyError + PyType \<times> bytes"
  and union_loop :: "nat \<Rightarrow> PyType \<Rightarrow> PyType list \<Rightarrow> bytes \<Rightarrow> PyError + PyType \<times> bytes"
  and parsePrimary :: "nat \<Rightarrow> bytes \<Rightarrow> PyError + PyType \<times> bytes"
  and primary_loop :: "nat \<Rightarrow> PyType \<Rightarrow> bytes \<Rightarrow> PyError + PyType \<times> bytes"
  and parseArglist :: "nat \<Rightarrow> PyType list \<Rightarrow> bytes \<Rightarrow> PyError + PyType list \<times> bytes"
  and parseAtom :: "nat \<Rightarrow> bytes \<Rightarrow> PyError + PyType \<times> bytes"
where
  "parseUnion 0 s = Inl OutOfFuel"
| "parseUnion (Suc n) s =
    (case parsePrimary n s of
       Inl e \<Rightarrow> Inl e
     | Inr (first, r) \<Rightarrow> union_loop n first [] r)"
| "union_loop 0 first branches s = Inl OutOfFuel"
| "union_loop (Suc n) first branches s =
    (let s = skipWS s; done = Inr (if branches \<noteq> [] then PyUnion branches else first, s) in
     case s of
       [] \<Rightarrow> done
     | c # r \<Rightarrow>
         if c \<noteq> CHR ''|'' then done
         else case parsePrimary n r of
           Inl e \<Rightarrow> Inl e
         | Inr (next, r') \<Rightarrow>
             union_loop n first ((if branches = [] then [first] else branches) @ [next]) r')"
| "parsePrimary 0 s = Inl OutOfFuel"
| "parsePrimary (Suc n) s =
    (case parseAtom n s of
       Inl e \<Rightarrow> Inl e
     | Inr (atom, r) \<Rightarrow> primary_loop n atom r)"
| "primary_loop 0 atom s = Inl OutOfFuel"
| "primary_loop (Suc n) atom s =
    (let s = skipWS s in
     case s of
       [] \<Rightarrow> Inr (atom, s)
     | c # r \<Rightarrow>
         if c = CHR ''['' then
           (case parseArglist n [] r of
              Inl e \<Rightarrow> Inl e
            | Inr (args, r') \<Rightarrow>
                (case skipWS r' of
                   [] \<Rightarrow> Inl (MissingBracket [])
                 | d # r'' \<Rightarrow>
                     if d \<noteq> CHR '']'' then Inl (MissingBracket (d # r''))
                     else primary_loop n (PySubscript atom args) r''))
         else if c = CHR ''.'' then
           (case parseIdent r of
              Inl e \<Rightarrow> Inl e
            | Inr (name, r') \<Rightarrow> primary_loop n (PyAttr atom name) r')
         else Inr (atom, s))"
| "parseArglist 0 args s = Inl OutOfFuel"
| "parseArglist (Suc n) args s =
    (let s = skipWS s in
     case s of
       [] \<Rightarrow> Inl UnterminatedArgs
     | c # r \<Rightarrow>
         if c = CHR '']'' then Inr (args, s)
         else
           (case (if c = CHR ''['' then
                    (case parseArglist n [] r of
                       Inl e \<Rightarrow> Inl e
                     | Inr (inner, r') \<Rightarrow>
                         (case skipWS r' of
                            [] \<Rightarrow> Inl (MissingInnerBracket [])
                          | d # r'' \<Rightarrow>
                              if d \<noteq> CHR '']'' then Inl (MissingInnerBracket (d # r''))
                              else Inr (PyTuple inner, r'')))
                  else parseUnion n s) of
              Inl e \<Rightarrow> Inl e
            | Inr (arg, r1) \<Rightarrow>
                (let args = args @ [arg]; s1 = skipWS r1 in
                 case s1 of
                   d # r2 \<Rightarrow> if d = CHR '','' then parseArglist n args r2 else Inr (args, s1)
                 | [] \<Rightarrow> Inr (args, s1))))"
| "parseAtom 0 s = Inl OutOfFuel"
| "parseAtom (Suc n) s =
    (let s = skipWS s in
     case s of
       [] \<Rightarrow> Inl UnexpectedEnd
     | c # r \<Rightarrow>
         if c = CHR ''('' then
           (case parseUnion n r of
              Inl e \<Rightarrow> Inl e
            | Inr (inner, r') \<Rightarrow>
                (case skipWS r' of
                   [] \<Rightarrow> Inl (MissingParen [])
                 | d # r'' \<Rightarrow> if d \<noteq> CHR '')'' then Inl (MissingParen (d # r'')) else Inr (inner, r'')))
         else if c = CHR ''.'' then
           (if prefix ''..'' r then Inr (PyEllipsis, drop 2 r) else Inl (UnexpectedDot s))
         else if c = CHR 0x22 \<or> c = CHR 0x27 then parseStringLiteral s
         else if is_digit c \<or> c = CHR ''-'' then parseNumberLiteral s
         else if isIdentStart c then
           (case parseIdent s of
              Inl e \<Rightarrow> Inl e
            | Inr (name, r') \<Rightarrow> Inr (keyword_or_name name, r'))
         else Inl (UnexpectedChar s))"

  by pat_completeness auto
termination
  by (relation "measure (case_sum (case_sum fst (case_sum fst fst)) (case_sum fst (case_sum fst fst)))")
    auto

declare parseUnion.simps [simp del] union_loop.simps [simp del] parsePrimary.simps [simp del]
  primary_loop.simps [simp del] parseArglist.simps [simp del] parseAtom.simps [simp del]

definition ParsePyType :: "bytes \<Rightarrow> PyError + PyType" where
  "ParsePyType src =
    (let s = trim_space src in
     case parseUnion (4 * length s + 4) s of
       Inl e \<Rightarrow> Inl e
     | Inr (t, r) \<Rightarrow> (let r = skipWS r in if r \<noteq> [] then Inl (TrailingInput r) else Inr t))"

definition offset :: "bytes \<Rightarrow> bytes \<Rightarrow> bytes" where
  "offset src r = itoa (int (length (trim_space src)) - int (length r))"

text \<open>The message of an error; an offset is where the rest begins in the trimmed source.\<close>

fun PyError_text :: "(int \<Rightarrow> bool) \<Rightarrow> bytes \<Rightarrow> PyError \<Rightarrow> bytes" where
  "PyError_text ip src (TrailingInput r) =
    ''pytype: trailing input at offset '' @ offset src r @ '': '' @ quote ip r"
| "PyError_text ip src (MissingBracket r) = ''pytype: missing ']' at offset '' @ offset src r"
| "PyError_text ip src UnterminatedArgs = ''pytype: unterminated argument list''"
| "PyError_text ip src (MissingInnerBracket r) =
    ''pytype: missing ']' inside arglist at offset '' @ offset src r"
| "PyError_text ip src UnexpectedEnd = ''pytype: unexpected end of input''"
| "PyError_text ip src (MissingParen r) = ''pytype: missing ')' at offset '' @ offset src r"
| "PyError_text ip src (UnexpectedDot r) = ''pytype: unexpected '.' at offset '' @ offset src r"
| "PyError_text ip src (UnexpectedChar r) =
    ''pytype: unexpected character '' @ concat (map quote_byte (take 1 r)) @ '' at offset '' @ offset src r"
| "PyError_text ip src (ExpectedIdent r) = ''pytype: expected identifier at offset '' @ offset src r"
| "PyError_text ip src (UnterminatedString r) = ''pytype: unterminated string at offset '' @ offset src r"
| "PyError_text ip src OutOfFuel = []"

subsection \<open>The fuel suffices\<close>

text \<open>
  \<open>res_ok k m n s res\<close>: with fuel \<open>n\<close> above \<open>4 * length s + m\<close> the result is not the fuel error,
  and a success leaves at least \<open>k\<close> bytes fewer than \<open>s\<close> has.
\<close>

definition res_ok :: "nat \<Rightarrow> nat \<Rightarrow> nat \<Rightarrow> bytes \<Rightarrow> PyError + 'a \<times> bytes \<Rightarrow> bool" where
  "res_ok k m n s res \<longleftrightarrow>
    (case res of Inl e \<Rightarrow> 4 * length s + m < n \<longrightarrow> e \<noteq> OutOfFuel
     | Inr (_, r) \<Rightarrow> length r + k \<le> length s)"

lemma res_ok_Inl [simp]: "res_ok k m n s (Inl e) \<longleftrightarrow> (4 * length s + m < n \<longrightarrow> e \<noteq> OutOfFuel)"
  and res_ok_Inr [simp]: "res_ok k m n s (Inr (t, r)) \<longleftrightarrow> length r + k \<le> length s"
  by (simp_all add: res_ok_def)

lemma skipWS_le: "length (skipWS s) \<le> length s"
  by (simp add: skipWS_def length_dropWhile_le)

lemma skipWS_Cons: "skipWS s = c # r \<Longrightarrow> Suc (length r) \<le> length s"
  using skipWS_le [of s] by simp

lemma parseIdent_ok: "res_ok 1 m n s (parseIdent s)"
proof (cases "skipWS s")
  case (Cons c r)
  then show ?thesis using skipWS_Cons [OF Cons] length_dropWhile_le [of isIdentCont r]
    by (simp add: parseIdent_def)
qed (simp add: parseIdent_def)

lemma string_body_len: "string_body q s = Some (l, r) \<Longrightarrow> length r < length s"
  by (induction q s arbitrary: l r rule: string_body.induct) (fastforce split: if_splits)+

lemma parseStringLiteral_ok: "res_ok 1 m n (c # s) (parseStringLiteral (c # s))"
  using string_body_len [of c s] by (fastforce simp: parseStringLiteral_def split: option.split)

lemma parseNumberLiteral_ok:
  "is_digit c \<or> c = CHR ''-'' \<Longrightarrow> res_ok 1 m n (c # s) (parseNumberLiteral (c # s))"
  using length_dropWhile_le [of num_char s] by (auto simp: parseNumberLiteral_def num_char_def)

definition all_ok :: "nat \<Rightarrow> bool" where
  "all_ok n \<longleftrightarrow> (\<forall>s. res_ok 1 2 n s (parseUnion n s)) \<and> (\<forall>f bs s. res_ok 0 0 n s (union_loop n f bs s))
     \<and> (\<forall>s. res_ok 1 1 n s (parsePrimary n s)) \<and> (\<forall>a s. res_ok 0 0 n s (primary_loop n a s))
     \<and> (\<forall>a s. res_ok 0 3 n s (parseArglist n a s)) \<and> (\<forall>s. res_ok 1 0 n s (parseAtom n s))"

lemma all_okD:
  assumes "all_ok n"
  shows "res_ok 1 2 n s (parseUnion n s)" "res_ok 0 0 n s (union_loop n f bs s)"
    "res_ok 1 1 n s (parsePrimary n s)" "res_ok 0 0 n s (primary_loop n a s)"
    "res_ok 0 3 n s (parseArglist n args s)" "res_ok 1 0 n s (parseAtom n s)"
  using assms by (auto simp: all_ok_def)

lemma res_ok_weaken:
  "res_ok k m n s res \<Longrightarrow> length s \<le> length s' \<Longrightarrow> 4 * length s + m + n' \<le> 4 * length s' + m' + n \<Longrightarrow>
    length s + k' \<le> length s' + k \<Longrightarrow> res_ok k' m' n' s' res"
  by (cases res) (auto simp: res_ok_def)

text \<open>Sequencing: a step followed by a continuation on what the step leaves.\<close>

lemma res_ok_bind:
  assumes "res_ok k m n s res"
    and "4 * length s' + m' < n' \<Longrightarrow> 4 * length s + m < n"
    and "\<And>t r. length r + k \<le> length s \<Longrightarrow> res_ok k' m' n' s' (f t r)"
  shows "res_ok k' m' n' s' (case res of Inl e \<Rightarrow> Inl e | Inr (t, r) \<Rightarrow> f t r)"
proof (cases res)
  case (Inl e)
  then show ?thesis using assms(1,2) by simp
next
  case (Inr p)
  obtain t r where p: "p = (t, r)" by (cases p)
  show ?thesis using assms(1,3) Inr p by simp
qed

lemma union_step: "all_ok n \<Longrightarrow> res_ok 1 2 (Suc n) s (parseUnion (Suc n) s)"
  unfolding parseUnion.simps
  by (rule res_ok_bind [OF all_okD(3)], assumption, simp, rule res_ok_weaken [OF all_okD(2)]) auto

lemma primary_step: "all_ok n \<Longrightarrow> res_ok 1 1 (Suc n) s (parsePrimary (Suc n) s)"
  unfolding parsePrimary.simps
  by (rule res_ok_bind [OF all_okD(6)], assumption, simp, rule res_ok_weaken [OF all_okD(4)]) auto

lemma union_loop_step: "all_ok n \<Longrightarrow> res_ok 0 0 (Suc n) s (union_loop (Suc n) f bs s)"
proof -
  assume n: "all_ok n"
  show ?thesis
  proof (cases "skipWS s")
    case Nil
    then show ?thesis by (simp add: union_loop.simps Let_def)
  next
    case (Cons c r)
    note len = skipWS_Cons [OF Cons]
    have "res_ok 0 0 (Suc n) s (case parsePrimary n r of Inl e \<Rightarrow> Inl e
        | Inr (next, r') \<Rightarrow> union_loop n f ((if bs = [] then [f] else bs) @ [next]) r')"
      by (rule res_ok_bind [OF all_okD(3) [OF n]], use len in simp, rule res_ok_weaken [OF all_okD(2) [OF n]])
        (use len in auto)
    then show ?thesis using Cons len by (simp add: union_loop.simps Let_def)
  qed
qed

lemma primary_loop_step: "all_ok n \<Longrightarrow> res_ok 0 0 (Suc n) s (primary_loop (Suc n) a s)"
proof -
  assume n: "all_ok n"
  show ?thesis
  proof (cases "skipWS s")
    case Nil
    then show ?thesis by (simp add: primary_loop.simps Let_def)
  next
    case (Cons c r)
    note len = skipWS_Cons [OF Cons]
    have sub: "res_ok 0 0 (Suc n) s (case skipWS r' of [] \<Rightarrow> Inl (MissingBracket [])
        | d # r'' \<Rightarrow> if d \<noteq> CHR '']'' then Inl (MissingBracket (d # r'')) else primary_loop n (PySubscript a t) r'')"
      if "length r' + 0 \<le> length r" for t r'
    proof (cases "skipWS r'")
      case Nil
      then show ?thesis by simp
    next
      case (Cons d r'')
      show ?thesis using Cons skipWS_Cons [OF Cons] that len
        by (auto intro!: res_ok_weaken [OF all_okD(4) [OF n]])
    qed
    have attr: "res_ok 0 0 (Suc n) s (case parseIdent r of Inl e \<Rightarrow> Inl e
        | Inr (name, r') \<Rightarrow> primary_loop n (PyAttr a name) r')"
      by (rule res_ok_bind [OF parseIdent_ok [of 0 "Suc n"]], use len in simp,
          rule res_ok_weaken [OF all_okD(4) [OF n]]) (use len in auto)
    have "res_ok 0 0 (Suc n) s (case parseArglist n [] r of Inl e \<Rightarrow> Inl e
        | Inr (t, r') \<Rightarrow> (case skipWS r' of [] \<Rightarrow> Inl (MissingBracket [])
        | d # r'' \<Rightarrow> if d \<noteq> CHR '']'' then Inl (MissingBracket (d # r'')) else primary_loop n (PySubscript a t) r''))"
      by (rule res_ok_bind [OF all_okD(5) [OF n]], use len in simp, rule sub)
    then show ?thesis using Cons len attr by (simp add: primary_loop.simps Let_def)
  qed
qed

lemma arglist_step: "all_ok n \<Longrightarrow> res_ok 0 3 (Suc n) s (parseArglist (Suc n) a s)"
proof -
  assume n: "all_ok n"
  show ?thesis
  proof (cases "skipWS s")
    case Nil
    then show ?thesis by (simp add: parseArglist.simps Let_def)
  next
    case (Cons c r)
    note len = skipWS_Cons [OF Cons]
    define arg where "arg = (if c = CHR ''['' then
        (case parseArglist n [] r of Inl e \<Rightarrow> Inl e
         | Inr (inner, r') \<Rightarrow> (case skipWS r' of [] \<Rightarrow> Inl (MissingInnerBracket [])
            | d # r'' \<Rightarrow> if d \<noteq> CHR '']'' then Inl (MissingInnerBracket (d # r'')) else Inr (PyTuple inner, r'')))
        else parseUnion n (c # r))"
    have sub: "res_ok 0 2 n s (case skipWS r' of [] \<Rightarrow> Inl (MissingInnerBracket [])
            | d # r'' \<Rightarrow> if d \<noteq> CHR '']'' then Inl (MissingInnerBracket (d # r'')) else Inr (PyTuple inner, r''))"
      if "length r' + 0 \<le> length r" for inner r'
      using that len skipWS_Cons [of r'] by (cases "skipWS r'") auto
    have "res_ok 0 2 n s (case parseArglist n [] r of Inl e \<Rightarrow> Inl e
         | Inr (inner, r') \<Rightarrow> (case skipWS r' of [] \<Rightarrow> Inl (MissingInnerBracket [])
            | d # r'' \<Rightarrow> if d \<noteq> CHR '']'' then Inl (MissingInnerBracket (d # r'')) else Inr (PyTuple inner, r'')))"
      by (rule res_ok_bind [OF all_okD(5) [OF n]], use len in simp, rule sub)
    moreover have "res_ok 0 2 n s (parseUnion n (c # r))"
      using len by (intro res_ok_weaken [OF all_okD(1) [OF n]]) auto
    ultimately have arg: "res_ok 0 2 n s arg" by (simp add: arg_def)
    have cont: "res_ok 0 3 (Suc n) s (let args = a @ [t]; s1 = skipWS r1 in
        case s1 of d # r2 \<Rightarrow> if d = CHR '','' then parseArglist n args r2 else Inr (args, s1)
        | [] \<Rightarrow> Inr (args, s1))"
      if "length r1 + 0 \<le> length s" for t r1
    proof (cases "skipWS r1")
      case Nil
      then show ?thesis by simp
    next
      case (Cons d r2)
      show ?thesis using Cons skipWS_Cons [OF Cons] that
        by (auto simp: Let_def intro!: res_ok_weaken [OF all_okD(5) [OF n]])
    qed
    have "res_ok 0 3 (Suc n) s (case arg of Inl e \<Rightarrow> Inl e | Inr (t, r1) \<Rightarrow>
        (let args = a @ [t]; s1 = skipWS r1 in
        case s1 of d # r2 \<Rightarrow> if d = CHR '','' then parseArglist n args r2 else Inr (args, s1)
        | [] \<Rightarrow> Inr (args, s1)))"
      by (rule res_ok_bind [OF arg], simp, rule cont)
    then show ?thesis using len unfolding parseArglist.simps Let_def Cons list.case arg_def [symmetric] by simp
  qed
qed

lemma atom_step: "all_ok n \<Longrightarrow> res_ok 1 0 (Suc n) s (parseAtom (Suc n) s)"
proof -
  assume n: "all_ok n"
  show ?thesis
  proof (cases "skipWS s")
    case Nil
    then show ?thesis by (simp add: parseAtom.simps Let_def)
  next
    case (Cons c r)
    note len = skipWS_Cons [OF Cons]
    have sub: "res_ok 1 0 (Suc n) s (case skipWS r' of [] \<Rightarrow> Inl (MissingParen [])
        | d # r'' \<Rightarrow> if d \<noteq> CHR '')'' then Inl (MissingParen (d # r'')) else Inr (inner, r''))"
      if "length r' + 1 \<le> length r" for inner :: PyType and r'
      using that len skipWS_Cons [of r'] by (cases "skipWS r'") auto
    have paren: "res_ok 1 0 (Suc n) s (case parseUnion n r of Inl e \<Rightarrow> Inl e
        | Inr (inner, r') \<Rightarrow> (case skipWS r' of [] \<Rightarrow> Inl (MissingParen [])
           | d # r'' \<Rightarrow> if d \<noteq> CHR '')'' then Inl (MissingParen (d # r'')) else Inr (inner, r'')))"
      by (rule res_ok_bind [OF all_okD(1) [OF n]], use len in simp, rule sub)
    have ident: "res_ok 1 0 (Suc n) s (case parseIdent (c # r) of Inl e \<Rightarrow> Inl e
        | Inr (name, r') \<Rightarrow> Inr (keyword_or_name name, r'))"
      by (rule res_ok_bind [OF parseIdent_ok [of 0 "Suc n"]]) (use len in auto)
    have str: "res_ok 1 0 (Suc n) s (parseStringLiteral (c # r))"
      by (rule res_ok_weaken [OF parseStringLiteral_ok [of 0 "Suc n"]]) (use len in auto)
    have num: "res_ok 1 0 (Suc n) s (parseNumberLiteral (c # r))" if "is_digit c \<or> c = CHR ''-''"
      by (rule res_ok_weaken [OF parseNumberLiteral_ok [OF that, of 0 "Suc n"]]) (use len in auto)
    have dots: "Suc (length r - 2) \<le> length s" using len by simp
    show ?thesis unfolding parseAtom.simps Let_def Cons list.case
      using len dots paren ident str num by simp
  qed
qed

lemma enough_fuel: "all_ok n"
proof (induction n)
  case 0
  show ?case by (simp add: all_ok_def parseUnion.simps union_loop.simps parsePrimary.simps
        primary_loop.simps parseArglist.simps parseAtom.simps)
next
  case (Suc n)
  show ?case unfolding all_ok_def
    using union_step [OF Suc] union_loop_step [OF Suc] primary_step [OF Suc]
      primary_loop_step [OF Suc] arglist_step [OF Suc] atom_step [OF Suc] by blast
qed

lemma ParsePyType_fuel: "ParsePyType src \<noteq> Inl OutOfFuel"
proof -
  let ?s = "trim_space src"
  have "res_ok 1 2 (4 * length ?s + 4) ?s (parseUnion (4 * length ?s + 4) ?s)"
    using enough_fuel by (rule all_okD)
  then show ?thesis
    by (cases "parseUnion (4 * length ?s + 4) ?s") (auto simp: ParsePyType_def Let_def split: if_splits)
qed

subsection \<open>The fuel does not show in the result\<close>

text \<open>More fuel gives the same result, unless the smaller amount ran out.\<close>

definition le_res :: "PyError + 'a \<Rightarrow> PyError + 'a \<Rightarrow> bool" where
  "le_res x y \<longleftrightarrow> x \<noteq> Inl OutOfFuel \<longrightarrow> y = x"

lemma le_res_refl: "le_res x x"
  by (simp add: le_res_def)

lemma le_res_bind:
  "le_res x y \<Longrightarrow> (\<And>t r. le_res (f t r) (g t r)) \<Longrightarrow>
    le_res (case x of Inl e \<Rightarrow> Inl e | Inr (t, r) \<Rightarrow> f t r) (case y of Inl e \<Rightarrow> Inl e | Inr (t, r) \<Rightarrow> g t r)"
  by (cases x) (auto simp: le_res_def split: prod.splits)

lemma le_res_if: "le_res a c \<Longrightarrow> le_res b d \<Longrightarrow> le_res (if p then a else b) (if p then c else d)"
  by simp

lemma le_res_case:
  "le_res a b \<Longrightarrow> (\<And>c r. le_res (f c r) (g c r)) \<Longrightarrow>
    le_res (case s of [] \<Rightarrow> a | c # r \<Rightarrow> f c r) (case s of [] \<Rightarrow> b | c # r \<Rightarrow> g c r)"
  by (cases s) auto

definition all_le :: "nat \<Rightarrow> bool" where
  "all_le n \<longleftrightarrow> (\<forall>s. le_res (parseUnion n s) (parseUnion (Suc n) s))
     \<and> (\<forall>f bs s. le_res (union_loop n f bs s) (union_loop (Suc n) f bs s))
     \<and> (\<forall>s. le_res (parsePrimary n s) (parsePrimary (Suc n) s))
     \<and> (\<forall>a s. le_res (primary_loop n a s) (primary_loop (Suc n) a s))
     \<and> (\<forall>a s. le_res (parseArglist n a s) (parseArglist (Suc n) a s))
     \<and> (\<forall>s. le_res (parseAtom n s) (parseAtom (Suc n) s))"

lemma all_leD:
  assumes "all_le n"
  shows "le_res (parseUnion n s) (parseUnion (Suc n) s)"
    "le_res (union_loop n f bs s) (union_loop (Suc n) f bs s)"
    "le_res (parsePrimary n s) (parsePrimary (Suc n) s)"
    "le_res (primary_loop n a s) (primary_loop (Suc n) a s)"
    "le_res (parseArglist n args s) (parseArglist (Suc n) args s)"
    "le_res (parseAtom n s) (parseAtom (Suc n) s)"
  using assms by (auto simp: all_le_def)

lemma all_le: "all_le n"
proof (induction n)
  case 0
  show ?case by (simp add: all_le_def le_res_def parseUnion.simps(1) union_loop.simps(1)
        parsePrimary.simps(1) primary_loop.simps(1) parseArglist.simps(1) parseAtom.simps(1))
next
  case (Suc n)
  note IH = all_leD [OF Suc]
  note steps = le_res_bind le_res_if le_res_case le_res_refl IH
  have "le_res (parseUnion (Suc n) s) (parseUnion (Suc (Suc n)) s)" for s
    unfolding parseUnion.simps(2) [of n s] parseUnion.simps(2) [of "Suc n" s] by (intro steps)
  moreover have "le_res (union_loop (Suc n) f bs s) (union_loop (Suc (Suc n)) f bs s)" for f bs s
    unfolding union_loop.simps(2) [of n f bs s] union_loop.simps(2) [of "Suc n" f bs s] Let_def by (intro steps)
  moreover have "le_res (parsePrimary (Suc n) s) (parsePrimary (Suc (Suc n)) s)" for s
    unfolding parsePrimary.simps(2) [of n s] parsePrimary.simps(2) [of "Suc n" s] by (intro steps)
  moreover have "le_res (primary_loop (Suc n) a s) (primary_loop (Suc (Suc n)) a s)" for a s
    unfolding primary_loop.simps(2) [of n a s] primary_loop.simps(2) [of "Suc n" a s] Let_def by (intro steps)
  moreover have "le_res (parseArglist (Suc n) a s) (parseArglist (Suc (Suc n)) a s)" for a s
    unfolding parseArglist.simps(2) [of n a s] parseArglist.simps(2) [of "Suc n" a s] Let_def by (intro steps)
  moreover have "le_res (parseAtom (Suc n) s) (parseAtom (Suc (Suc n)) s)" for s
    unfolding parseAtom.simps(2) [of n s] parseAtom.simps(2) [of "Suc n" s] Let_def by (intro steps)
  ultimately show ?case unfolding all_le_def by blast
qed

lemma le_res_add:
  "le_res (parseUnion n s) (parseUnion (n + k) s)"
  "le_res (union_loop n f bs s) (union_loop (n + k) f bs s)"
  "le_res (parsePrimary n s) (parsePrimary (n + k) s)"
  "le_res (primary_loop n a s) (primary_loop (n + k) a s)"
  "le_res (parseArglist n args s) (parseArglist (n + k) args s)"
  "le_res (parseAtom n s) (parseAtom (n + k) s)"
  by (induction k) (use all_leD [OF all_le] in \<open>fastforce simp: le_res_def\<close>)+

text \<open>The parsers at the fuel that suffices, and at any larger one.\<close>

abbreviation "PU s \<equiv> parseUnion (4 * length s + 3) s"
abbreviation "UL f bs s \<equiv> union_loop (4 * length s + 1) f bs s"
abbreviation "PP s \<equiv> parsePrimary (4 * length s + 2) s"
abbreviation "PL a s \<equiv> primary_loop (4 * length s + 1) a s"
abbreviation "AL args s \<equiv> parseArglist (4 * length s + 4) args s"
abbreviation "PA s \<equiv> parseAtom (4 * length s + 1) s"

lemma no_fuel_error: "res_ok k m n s res \<Longrightarrow> 4 * length s + m < n \<Longrightarrow> res \<noteq> Inl OutOfFuel"
  by (auto simp: res_ok_def split: sum.splits)

lemma le_res_eq: "le_res x y \<Longrightarrow> x \<noteq> Inl OutOfFuel \<Longrightarrow> y = x"
  by (simp add: le_res_def)

lemma any_fuel:
  "4 * length s + 2 < n \<Longrightarrow> parseUnion n s = PU s"
  "4 * length s < n \<Longrightarrow> union_loop n f bs s = UL f bs s"
  "4 * length s + 1 < n \<Longrightarrow> parsePrimary n s = PP s"
  "4 * length s < n \<Longrightarrow> primary_loop n a s = PL a s"
  "4 * length s + 3 < n \<Longrightarrow> parseArglist n args s = AL args s"
  "4 * length s < n \<Longrightarrow> parseAtom n s = PA s"
proof -
  note ok = all_okD [OF enough_fuel]
  show "parseUnion n s = PU s" if "4 * length s + 2 < n"
  proof -
    obtain d where n: "n = (4 * length s + 3) + d" using \<open>4 * length s + 2 < n\<close> le_Suc_ex [of "4 * length s + 3" n] by auto
    show ?thesis unfolding n by (rule le_res_eq [OF le_res_add(1) no_fuel_error [OF ok(1)]]) simp
  qed
  show "union_loop n f bs s = UL f bs s" if "4 * length s < n"
  proof -
    obtain d where n: "n = (4 * length s + 1) + d" using \<open>4 * length s < n\<close> le_Suc_ex [of "4 * length s + 1" n] by auto
    show ?thesis unfolding n by (rule le_res_eq [OF le_res_add(2) no_fuel_error [OF ok(2)]]) simp
  qed
  show "parsePrimary n s = PP s" if "4 * length s + 1 < n"
  proof -
    obtain d where n: "n = (4 * length s + 2) + d" using \<open>4 * length s + 1 < n\<close> le_Suc_ex [of "4 * length s + 2" n] by auto
    show ?thesis unfolding n by (rule le_res_eq [OF le_res_add(3) no_fuel_error [OF ok(3)]]) simp
  qed
  show "primary_loop n a s = PL a s" if "4 * length s < n"
  proof -
    obtain d where n: "n = (4 * length s + 1) + d" using \<open>4 * length s < n\<close> le_Suc_ex [of "4 * length s + 1" n] by auto
    show ?thesis unfolding n by (rule le_res_eq [OF le_res_add(4) no_fuel_error [OF ok(4)]]) simp
  qed
  show "parseArglist n args s = AL args s" if "4 * length s + 3 < n"
  proof -
    obtain d where n: "n = (4 * length s + 4) + d" using \<open>4 * length s + 3 < n\<close> le_Suc_ex [of "4 * length s + 4" n] by auto
    show ?thesis unfolding n by (rule le_res_eq [OF le_res_add(5) no_fuel_error [OF ok(5)]]) simp
  qed
  show "parseAtom n s = PA s" if "4 * length s < n"
  proof -
    obtain d where n: "n = (4 * length s + 1) + d" using \<open>4 * length s < n\<close> le_Suc_ex [of "4 * length s + 1" n] by auto
    show ?thesis unfolding n by (rule le_res_eq [OF le_res_add(6) no_fuel_error [OF ok(6)]]) simp
  qed
qed

lemma PP_step: "PA s = Inr (a, r) \<Longrightarrow> PP s = PL a r"
  using all_okD(6) [OF enough_fuel, of "4 * length s + 1" s] any_fuel(4) [of r "4 * length s + 1" a]
  by (simp add: parsePrimary.simps(2) [of "4 * length s + 1" s, simplified])

lemma PU_step: "PP s = Inr (t, r) \<Longrightarrow> PU s = UL t [] r"
proof -
  assume a: "PP s = Inr (t, r)"
  have eq: "4 * length s + 3 = Suc (4 * length s + 2)" by simp
  have "length r < length s" using all_okD(3) [OF enough_fuel, of "4 * length s + 2" s] a by simp
  then show ?thesis unfolding eq parseUnion.simps(2) a
    using any_fuel(2) [of r "4 * length s + 2" t] by simp
qed

lemma UL_done: "skipWS s = r \<Longrightarrow> r = [] \<or> hd r \<noteq> CHR ''|'' \<Longrightarrow>
    UL f bs s = Inr (if bs \<noteq> [] then PyUnion bs else f, r)"
  by (cases r) (auto simp: union_loop.simps(2) [of "4 * length s" f bs s, simplified] Let_def)

lemma UL_next:
  assumes "skipWS s = CHR ''|'' # r" "PP r = Inr (t, r')"
  shows "UL f bs s = UL f ((if bs = [] then [f] else bs) @ [t]) r'"
proof -
  have le: "length r < length s" using skipWS_Cons [OF assms(1)] by simp
  have "parsePrimary (4 * length s) r = Inr (t, r')" using any_fuel(3) [of r "4 * length s"] assms(2) le by simp
  moreover have "length r' < length r"
    using all_okD(3) [OF enough_fuel, of "4 * length r + 2" r] assms(2) by simp
  ultimately show ?thesis using le assms(1) any_fuel(2) [of r' "4 * length s"]
    by (simp add: union_loop.simps(2) [of "4 * length s" f bs s, simplified])
qed

lemma PL_done: "skipWS s = r \<Longrightarrow> r = [] \<or> hd r \<noteq> CHR ''['' \<and> hd r \<noteq> CHR ''.'' \<Longrightarrow> PL a s = Inr (a, r)"
  by (cases r) (auto simp: primary_loop.simps(2) [of "4 * length s" a s, simplified] Let_def)

lemma PL_attr:
  assumes "skipWS s = CHR ''.'' # r" "parseIdent r = Inr (n, r')"
  shows "PL a s = PL (PyAttr a n) r'"
proof -
  have "length r' + 1 \<le> length r" using parseIdent_ok [of 0 0 r] assms(2) by simp
  then show ?thesis using assms skipWS_Cons [OF assms(1)] any_fuel(4) [of r' "4 * length s"]
    by (simp add: primary_loop.simps(2) [of "4 * length s" a s, simplified])
qed

lemma PL_sub:
  assumes "skipWS s = CHR ''['' # r" "AL [] r = Inr (args, r')" "skipWS r' = CHR '']'' # r''"
  shows "PL a s = PL (PySubscript a args) r''"
proof -
  have le: "length r < length s" using skipWS_Cons [OF assms(1)] by simp
  have "parseArglist (4 * length s) [] r = Inr (args, r')"
    using any_fuel(5) [of r "4 * length s"] assms(2) le by simp
  moreover have "length r' \<le> length r"
    using all_okD(5) [OF enough_fuel, of "4 * length r + 4" r "[]"] assms(2) by simp
  ultimately show ?thesis using le assms skipWS_Cons [OF assms(3)] any_fuel(4) [of r'' "4 * length s"]
    by (simp add: primary_loop.simps(2) [of "4 * length s" a s, simplified])
qed

lemma AL_unfold: "AL args s = parseArglist (Suc (4 * length s + 3)) args s"
  by (simp add: eval_nat_numeral)

lemma AL_end: "skipWS s = CHR '']'' # r \<Longrightarrow> AL args s = Inr (args, CHR '']'' # r)"
  unfolding AL_unfold parseArglist.simps(2) Let_def by simp

text \<open>What \<open>parseArglist\<close> does after an argument.\<close>

definition arg_next :: "PyType list \<Rightarrow> bytes \<Rightarrow> PyError + PyType list \<times> bytes" where
  "arg_next args r =
    (case skipWS r of d # r2 \<Rightarrow> if d = CHR '','' then AL args r2 else Inr (args, d # r2) | [] \<Rightarrow> Inr (args, []))"

lemma AL_cont:
  assumes "length r1 \<le> length s"
  shows "(let args = args @ [t]; s1 = skipWS r1 in
      case s1 of d # r2 \<Rightarrow> if d = CHR '','' then parseArglist (4 * length s + 3) args r2 else Inr (args, s1)
      | [] \<Rightarrow> Inr (args, s1)) = arg_next (args @ [t]) r1"
proof (cases "skipWS r1")
  case (Cons d r2)
  then show ?thesis using skipWS_Cons [OF Cons] assms any_fuel(5) [of r2 "4 * length s + 3" "args @ [t]"]
    by (simp add: arg_next_def)
qed (simp add: arg_next_def)

lemma AL_elem:
  assumes "skipWS s = c # r" "c \<noteq> CHR '']''" "c \<noteq> CHR ''[''" "PU (c # r) = Inr (t, r1)"
  shows "AL args s = arg_next (args @ [t]) r1"
proof -
  have le: "length r < length s" using skipWS_Cons [OF assms(1)] by simp
  have "parseUnion (4 * length s + 3) (c # r) = Inr (t, r1)"
    using any_fuel(1) [of "c # r" "4 * length s + 3"] assms(4) le by simp
  moreover have "length r1 < length (c # r)"
    using all_okD(1) [OF enough_fuel, of "4 * length (c # r) + 3" "c # r"] assms(4) by simp
  ultimately show ?thesis using le assms(1-3) AL_cont [of r1 s args t]
    unfolding AL_unfold parseArglist.simps(2) by simp
qed

lemma AL_tuple:
  assumes "skipWS s = CHR ''['' # r" "AL [] r = Inr (inner, r')" "skipWS r' = CHR '']'' # r1"
  shows "AL args s = arg_next (args @ [PyTuple inner]) r1"
proof -
  have le: "length r < length s" using skipWS_Cons [OF assms(1)] by simp
  have "parseArglist (4 * length s + 3) [] r = Inr (inner, r')"
    using any_fuel(5) [of r "4 * length s + 3"] assms(2) le by simp
  moreover have "length r' \<le> length r"
    using all_okD(5) [OF enough_fuel, of "4 * length r + 4" r "[]"] assms(2) by simp
  ultimately show ?thesis
    using le assms(1,3) AL_cont [of r1 s args "PyTuple inner"] skipWS_Cons [OF assms(3)]
    unfolding AL_unfold parseArglist.simps(2) by simp
qed

lemma PA_atom:
  assumes "skipWS s = c # r" "c \<noteq> CHR ''(''"
  shows "PA s =
    (if c = CHR ''.'' then (if prefix ''..'' r then Inr (PyEllipsis, drop 2 r) else Inl (UnexpectedDot (c # r)))
     else if c = CHR 0x22 \<or> c = CHR 0x27 then parseStringLiteral (c # r)
     else if is_digit c \<or> c = CHR ''-'' then parseNumberLiteral (c # r)
     else if isIdentStart c then
       (case parseIdent (c # r) of Inl e \<Rightarrow> Inl e | Inr (name, r') \<Rightarrow> Inr (keyword_or_name name, r'))
     else Inl (UnexpectedChar (c # r)))"
proof -
  have "PA s = parseAtom (Suc (4 * length s)) s" by simp
  then show ?thesis using assms unfolding parseAtom.simps(2) Let_def by simp
qed

subsection \<open>Printing and parsing\<close>

text \<open>
  The trees whose text the parser reads back.  An identifier is ASCII; the text of a number would
  swallow a following dot, so a number has no attributes; a union has two branches or more and is
  neither a base nor a branch (its parentheses are not printed); a bracketed list stands only among
  arguments.
\<close>

definition ident_ok :: "bytes \<Rightarrow> bool" where
  "ident_ok n \<longleftrightarrow> n \<noteq> [] \<and> isIdentStart (hd n) \<and> list_all (\<lambda>c. isIdentCont c \<and> byte c < 128) n"

definition is_number :: "bytes \<Rightarrow> bool" where
  "is_number l = (case l of [] \<Rightarrow> False | c # r \<Rightarrow> (is_digit c \<or> c = CHR ''-'') \<and> list_all num_char r)"

definition is_quoted :: "bytes \<Rightarrow> bool" where
  "is_quoted l = (case l of [] \<Rightarrow> False
     | q # b \<Rightarrow> (q = CHR 0x22 \<or> q = CHR 0x27) \<and> string_body q b = Some (b, []))"

definition is_keyword :: "bytes \<Rightarrow> bool" where
  "is_keyword n \<longleftrightarrow> n = ''True'' \<or> n = ''False'' \<or> n = ''None''"

fun canon_prim :: "PyType \<Rightarrow> bool" and canon_arg :: "PyType \<Rightarrow> bool" where
  "canon_prim (PyName n) = (ident_ok n \<and> \<not> is_keyword n)"
| "canon_prim (PyAttr b n) =
    (canon_prim b \<and> ident_ok n \<and> (case b of PyLiteral l \<Rightarrow> \<not> is_number l | _ \<Rightarrow> True))"
| "canon_prim (PySubscript b args) = (canon_prim b \<and> list_all canon_arg args)"
| "canon_prim (PyTuple args) = False"
| "canon_prim (PyUnion bs) = False"
| "canon_prim (PyLiteral l) = (is_keyword l \<or> is_quoted l \<or> is_number l)"
| "canon_prim PyEllipsis = True"
| "canon_arg (PyTuple args) = list_all canon_arg args"
| "canon_arg (PyUnion bs) = (2 \<le> length bs \<and> list_all canon_prim bs)"
| "canon_arg t = canon_prim t"

definition canonical :: "PyType \<Rightarrow> bool" where
  "canonical t \<longleftrightarrow> canon_arg t \<and> (case t of PyTuple _ \<Rightarrow> False | _ \<Rightarrow> True)"

lemma ident_start_char:
  "isIdentStart c \<Longrightarrow> c \<notin> {CHR '' '', CHR 0x09, CHR ''('', CHR ''.'', CHR 0x22, CHR 0x27, CHR ''-'',
     CHR ''['', CHR '']'', CHR ''|'', CHR '',''} \<and> \<not> is_digit c"
  by (auto simp: isIdentStart_def is_letter_def is_digit_def)

lemma ident_start_cont: "isIdentStart c \<Longrightarrow> isIdentCont c"
  by (auto simp: isIdentStart_def isIdentCont_def)

text \<open>What may follow a printed type.\<close>

definition tail_ok :: "bytes \<Rightarrow> bool" where
  "tail_ok r \<longleftrightarrow> r = [] \<or> hd r \<in> {CHR '' '', CHR '','', CHR ''['', CHR '']'', CHR ''.''}"

definition end_ok :: "bytes \<Rightarrow> bool" where
  "end_ok r \<longleftrightarrow> r = [] \<or> hd r = CHR '','' \<or> hd r = CHR '']''"

lemma end_tail: "end_ok r \<Longrightarrow> tail_ok r \<and> skipWS r = r \<and> (r = [] \<or> hd r \<noteq> CHR ''.'' \<and> hd r \<noteq> CHR ''['' \<and> hd r \<noteq> CHR ''|'')"
  by (cases r) (auto simp: end_ok_def tail_ok_def skipWS_def)

lemma takeWhile_stop: "list_all P n \<Longrightarrow> r = [] \<or> \<not> P (hd r) \<Longrightarrow> takeWhile P (n @ r) = n \<and> dropWhile P (n @ r) = r"
  by (induction n; cases r) auto

lemma tail_not_ident: "tail_ok r \<Longrightarrow> r = [] \<or> \<not> isIdentCont (hd r)"
  by (auto simp: tail_ok_def isIdentCont_def is_letter_def is_digit_def)

lemma tail_not_num: "tail_ok r \<Longrightarrow> r = [] \<or> hd r \<noteq> CHR ''.'' \<Longrightarrow> r = [] \<or> \<not> num_char (hd r)"
  by (auto simp: tail_ok_def num_char_def is_digit_def)

lemma skipWS_ident: "isIdentStart c \<Longrightarrow> skipWS (c # s) = c # s"
  using ident_start_char [of c] by (simp add: skipWS_def)

lemma parseIdent_ident:
  assumes "ident_ok n" "tail_ok r"
  shows "parseIdent (n @ r) = Inr (n, r)"
proof -
  obtain c m where n: "n = c # m" "isIdentStart c" "list_all isIdentCont m"
    using assms(1) by (cases n) (auto simp: ident_ok_def list_all_iff)
  show ?thesis using n takeWhile_stop [OF n(3) tail_not_ident [OF assms(2)]]
    by (simp add: parseIdent_def skipWS_ident)
qed

lemma string_body_app:
  "string_body q b = Some (l, r) \<Longrightarrow> q \<noteq> CHR 0x5C \<Longrightarrow> string_body q (b @ t) = Some (l, r @ t)"
proof (induction q b arbitrary: l r rule: string_body.induct)
  case (2 q c)
  then show ?case by (cases t) (auto split: if_splits)
next
  case (3 q c d s)
  then show ?case by (auto split: if_splits)
qed simp

text \<open>The atoms: names, keywords, strings, numbers, the ellipsis.\<close>

lemma atom_ident:
  assumes "ident_ok n" "tail_ok r" "skipWS s = n @ r"
  shows "PA s = Inr (keyword_or_name n, r)"
proof -
  obtain c m where n: "n = c # m" "isIdentStart c" using assms(1) by (cases n) (auto simp: ident_ok_def)
  have s: "skipWS s = c # m @ r" using assms(3) n(1) by simp
  show ?thesis using PA_atom [OF s] ident_start_char [OF n(2)] n parseIdent_ident [OF assms(1,2)] by simp
qed

lemma keyword_ident: "is_keyword l \<Longrightarrow> ident_ok l"
  by (auto simp: is_keyword_def ident_ok_def isIdentStart_def isIdentCont_def is_letter_def)

lemma atom_quoted:
  assumes "is_quoted l" "skipWS s = l @ r"
  shows "PA s = Inr (PyLiteral l, r)"
proof -
  obtain q b where l: "l = q # b" "q = CHR 0x22 \<or> q = CHR 0x27" "string_body q b = Some (b, [])"
    using assms(1) by (cases l) (auto simp: is_quoted_def)
  have s: "skipWS s = q # b @ r" using assms(2) l(1) by simp
  have "q \<noteq> CHR 0x5C" using l(2) by auto
  then show ?thesis using PA_atom [OF s] l string_body_app [OF l(3), of r]
    by (auto simp: parseStringLiteral_def)
qed

lemma atom_number:
  assumes "is_number l" "skipWS s = l @ r" "tail_ok r" "r = [] \<or> hd r \<noteq> CHR ''.''"
  shows "PA s = Inr (PyLiteral l, r)"
proof -
  obtain c m where l: "l = c # m" "is_digit c \<or> c = CHR ''-''" "list_all num_char m"
    using assms(1) by (cases l) (auto simp: is_number_def)
  have s: "skipWS s = c # m @ r" using assms(2) l(1) by simp
  have c: "c \<noteq> CHR ''(''" "c \<noteq> CHR ''.''" "c \<noteq> CHR 0x22" "c \<noteq> CHR 0x27"
    using l(2) by (auto simp: is_digit_def)
  have "parseNumberLiteral (c # m @ r) = Inr (PyLiteral l, r)"
  proof -
    have "c = CHR ''-'' \<or> num_char c" using l(2) by (auto simp: num_char_def)
    then show ?thesis using l(1) takeWhile_stop [OF l(3) tail_not_num [OF assms(3,4)]]
      by (auto simp: parseNumberLiteral_def)
  qed
  then show ?thesis using PA_atom [OF s c(1)] c l(2) by simp
qed

lemma atom_ellipsis: "skipWS s = ''...'' @ r \<Longrightarrow> PA s = Inr (PyEllipsis, r)"
  using PA_atom [of s "CHR ''.''" "''..'' @ r"] by simp

definition number_node :: "PyType \<Rightarrow> bool" where
  "number_node t = (case t of PyLiteral l \<Rightarrow> is_number l | _ \<Rightarrow> False)"

text \<open>The text of a canonical type starts with a byte that starts an atom, and ends with a printable one.\<close>

definition start_ok :: "char \<Rightarrow> bool" where
  "start_ok c \<longleftrightarrow> solid c \<and> c \<noteq> CHR ''['' \<and> c \<noteq> CHR '']'' \<and> c \<noteq> CHR '',''"

lemma ident_ok_ends: "ident_ok n \<Longrightarrow> n \<noteq> [] \<and> start_ok (hd n) \<and> solid (last n)"
proof -
  assume n: "ident_ok n"
  have "32 < byte c" if "isIdentCont c" for c
    using that by (auto simp: isIdentCont_def is_letter_def is_digit_def)
  then have "solid c" if "c \<in> set n" for c
    using that n by (auto simp: ident_ok_def list_all_iff solid_def)
  then show ?thesis using n ident_start_char [of "hd n"] by (auto simp: ident_ok_def start_ok_def)
qed

lemma string_body_last: "string_body q b = Some (l, r) \<Longrightarrow> l \<noteq> [] \<and> last l = q"
  by (induction q b arbitrary: l r rule: string_body.induct) (fastforce split: if_splits)+

lemma canon_prim_ends: "canon_prim t \<Longrightarrow>
    PyType_String t \<noteq> [] \<and> start_ok (hd (PyType_String t)) \<and> solid (last (PyType_String t))"
proof (induction t)
  case (PyName n)
  then show ?case using ident_ok_ends by simp
next
  case (PyAttr b n)
  then show ?case using ident_ok_ends by (simp del: split_paired_All)
next
  case (PySubscript b args)
  then show ?case by (simp add: solid_def)
next
  case (PyLiteral l)
  consider "is_keyword l" | q b where "l = q # b" "q = CHR 0x22 \<or> q = CHR 0x27" "string_body q b = Some (b, [])"
    | c m where "l = c # m" "is_digit c \<or> c = CHR ''-''" "list_all num_char m"
    using PyLiteral by (cases l) (auto simp: is_quoted_def is_number_def)
  then show ?case
  proof cases
    case 1
    then show ?thesis using ident_ok_ends [OF keyword_ident] by simp
  next
    case 2
    then show ?thesis using string_body_last [OF 2(3)] by (auto simp: start_ok_def solid_def)
  next
    case 3
    have "solid d" if "d \<in> set m" for d
      using that 3(3) by (auto simp: list_all_iff num_char_def solid_def is_digit_def)
    moreover have "start_ok c" using 3(2) by (auto simp: start_ok_def solid_def is_digit_def)
    ultimately show ?thesis using 3(1) by (auto simp: start_ok_def)
  qed
qed (auto simp: start_ok_def solid_def)

lemma canonical_ends:
  assumes "canonical t"
  shows "PyType_String t \<noteq> [] \<and> start_ok (hd (PyType_String t)) \<and> solid (last (PyType_String t))"
proof (cases "\<exists>bs. t = PyUnion bs")
  case True
  then obtain b bs where t: "t = PyUnion (b # bs)" "canon_prim b" "list_all canon_prim (b # bs)"
    using assms by (auto simp: canonical_def Suc_le_length_iff numeral_2_eq_2)
  have l: "canon_prim (last (b # bs))" using t(3) by (simp add: list_all_iff)
  have lm: "last (map PyType_String (b # bs)) = PyType_String (last (b # bs))" by (rule last_map) simp
  have "last (join '' | '' (map PyType_String (b # bs))) = last (PyType_String (last (b # bs)))"
    using last_join [of "map PyType_String (b # bs)" "'' | ''"] canon_prim_ends [OF l]
    unfolding lm by blast
  then show ?thesis
    using t(1) canon_prim_ends [OF t(2)] canon_prim_ends [OF l] hd_join [of "map PyType_String (b # bs)" "'' | ''"]
      join_not_Nil [of "map PyType_String (b # bs)" "'' | ''"] by simp
next
  case False
  then have "canon_prim t" using assms by (cases t) (auto simp: canonical_def)
  then show ?thesis by (rule canon_prim_ends)
qed

lemma skipWS_start: "s \<noteq> [] \<Longrightarrow> start_ok (hd s) \<Longrightarrow> skipWS (s @ r) = s @ r"
  by (cases s) (auto simp: start_ok_def solid_def skipWS_def)

lemma skipWS_blank [simp]: "skipWS (CHR '' '' # s) = skipWS s"
  by (simp add: skipWS_def)

lemma skipWS_other [simp]: "c \<noteq> CHR '' '' \<Longrightarrow> c \<noteq> CHR 0x09 \<Longrightarrow> skipWS (c # s) = c # s"
  by (simp add: skipWS_def)

text \<open>The three statements proved together by induction on the tree.\<close>

definition reads_prim :: "PyType \<Rightarrow> bool" where
  "reads_prim t \<longleftrightarrow> (\<forall>s r. skipWS s = PyType_String t @ r \<longrightarrow> tail_ok r \<longrightarrow>
     (number_node t \<longrightarrow> r = [] \<or> hd r \<noteq> CHR ''.'') \<longrightarrow> PP s = PL t r)"

definition reads_top :: "PyType \<Rightarrow> bool" where
  "reads_top t \<longleftrightarrow> (\<forall>s r. skipWS s = PyType_String t @ r \<longrightarrow> end_ok r \<longrightarrow> PU s = Inr (t, r))"

definition reads_arg :: "PyType \<Rightarrow> bool" where
  "reads_arg t \<longleftrightarrow> (\<forall>s r args. skipWS s = PyType_String t @ r \<longrightarrow> r \<noteq> [] \<longrightarrow> end_ok r \<longrightarrow>
     AL args s = arg_next (args @ [t]) r)"

definition head_ok :: "PyType \<Rightarrow> bool" where
  "head_ok t \<longleftrightarrow> (\<forall>r. skipWS (PyType_String t @ r) = PyType_String t @ r)"

lemma canonical_head: "canonical t \<Longrightarrow> head_ok t"
  unfolding head_ok_def using canonical_ends skipWS_start by blast

lemma canon_arg_head: "canon_arg t \<Longrightarrow> head_ok t"
proof (cases "\<exists>args. t = PyTuple args")
  case True
  then show ?thesis by (auto simp: head_ok_def)
next
  case False
  assume "canon_arg t"
  with False have "canonical t" by (cases t) (auto simp: canonical_def)
  then show ?thesis by (rule canonical_head)
qed

lemma reads_args:
  assumes "list_all reads_arg ts" "list_all head_ok ts" "skipWS r = CHR '']'' # r'"
  shows "skipWS s = skipWS (join '', '' (map PyType_String ts) @ CHR '']'' # r') \<Longrightarrow>
    AL args s = Inr (args @ ts, CHR '']'' # r')"
  using assms(1,2)
proof (induction ts arbitrary: args s)
  case Nil
  then show ?case by (simp add: AL_end)
next
  case (Cons t ts)
  then have t: "reads_arg t" "head_ok t" by auto
  show ?case
  proof (cases ts)
    case Nil
    have "AL args s = arg_next (args @ [t]) (CHR '']'' # r')"
      using t Cons.prems(1) Nil by (auto simp: reads_arg_def head_ok_def end_ok_def)
    then show ?thesis using Nil by (simp add: arg_next_def)
  next
    case (Cons u us)
    let ?rest = "join '', '' (map PyType_String ts) @ CHR '']'' # r'"
    have "skipWS s = PyType_String t @ CHR '','' # CHR '' '' # ?rest"
      using t(2) Cons.prems(1) Cons by (simp add: head_ok_def)
    then have "AL args s = arg_next (args @ [t]) (CHR '','' # CHR '' '' # ?rest)"
      using t(1) by (auto simp: reads_arg_def end_ok_def)
    also have "\<dots> = AL (args @ [t]) (CHR '' '' # ?rest)" by (simp add: arg_next_def)
    also have "\<dots> = Inr ((args @ [t]) @ ts, CHR '']'' # r')"
      by (rule Cons.IH) (use Cons.prems in auto)
    finally show ?thesis by simp
  qed
qed

lemma reads_union_rest:
  assumes "end_ok r"
  shows "list_all (\<lambda>b. reads_prim b) us \<Longrightarrow> list_all head_ok us \<Longrightarrow>
    skipWS s = skipWS (concat (map (\<lambda>b. '' | '' @ PyType_String b) us) @ r) \<Longrightarrow>
    UL f bs s = Inr (if bs = [] \<and> us = [] then f else PyUnion ((if bs = [] then [f] else bs) @ us), r)"
proof (induction us arbitrary: bs s)
  case Nil
  have "skipWS s = r" using Nil end_tail [OF assms] by simp
  then show ?case using UL_done [of s r f bs] end_tail [OF assms] by auto
next
  case (Cons u us)
  let ?rest = "concat (map (\<lambda>b. '' | '' @ PyType_String b) us) @ r"
  have u: "skipWS (CHR '' '' # PyType_String u @ ?rest) = PyType_String u @ ?rest"
    using Cons.prems(2) by (simp add: head_ok_def)
  have s: "skipWS s = CHR ''|'' # CHR '' '' # PyType_String u @ ?rest" using Cons.prems(3) by simp
  have tl: "tail_ok ?rest" "?rest = [] \<or> hd ?rest \<noteq> CHR ''.''" using end_tail [OF assms]
    by (cases us; auto simp: tail_ok_def)+
  have "PP (CHR '' '' # PyType_String u @ ?rest) = PL u ?rest"
    using Cons.prems(1) u tl unfolding reads_prim_def list.pred_inject by blast
  also have "\<dots> = Inr (u, skipWS ?rest)"
    by (rule PL_done [OF refl]) (use end_tail [OF assms] in \<open>cases us; auto\<close>)
  finally have pp: "PP (CHR '' '' # PyType_String u @ ?rest) = Inr (u, skipWS ?rest)" .
  have idem: "skipWS (skipWS ?rest) = skipWS ?rest" using end_tail [OF assms] by (cases us) auto
  show ?case unfolding UL_next [OF s pp]
    using Cons.IH [of "skipWS ?rest" "(if bs = [] then [f] else bs) @ [u]"] Cons.prems(1,2) idem by auto
qed

lemma prim_reads_top: "reads_prim t \<Longrightarrow> reads_top t"
  unfolding reads_top_def
proof (intro allI impI)
  fix s r
  assume p: "reads_prim t" and s: "skipWS s = PyType_String t @ r" and r: "end_ok r"
  note e = end_tail [OF r]
  have "PP s = PL t r" using p s e unfolding reads_prim_def by blast
  also have "\<dots> = Inr (t, r)" by (rule PL_done) (use e in auto)
  finally have "PU s = UL t [] r" by (rule PU_step)
  also have "\<dots> = Inr (t, r)" using UL_done [of r r t "[]"] e by auto
  finally show "PU s = Inr (t, r)" .
qed

lemma top_reads_arg:
  assumes "reads_top t" "canonical t"
  shows "reads_arg t"
  unfolding reads_arg_def
proof (intro allI impI)
  fix s r args
  assume s: "skipWS s = PyType_String t @ r" and r: "r \<noteq> []" "end_ok r"
  obtain c v where v: "PyType_String t = c # v" "start_ok c"
    using canonical_ends [OF assms(2)] by (cases "PyType_String t") auto
  have sv: "skipWS s = c # v @ r" using s v(1) by simp
  have "skipWS (c # v @ r) = PyType_String t @ r"
    using canonical_head [OF assms(2)] v(1) unfolding head_ok_def by (metis append_Cons)
  then have "PU (c # v @ r) = Inr (t, r)" using assms(1) r(2) unfolding reads_top_def by blast
  then show "AL args s = arg_next (args @ [t]) r"
    using AL_elem [OF sv] v(2) by (auto simp: start_ok_def)
qed

lemma reads_prim_atom:
  assumes "\<And>s r. skipWS s = PyType_String t @ r \<Longrightarrow> tail_ok r \<Longrightarrow>
      (number_node t \<longrightarrow> r = [] \<or> hd r \<noteq> CHR ''.'') \<Longrightarrow> PA s = Inr (t, r)"
  shows "reads_prim t"
  unfolding reads_prim_def using assms PP_step by blast

lemma reads_prim_attr:
  assumes "reads_prim b" "ident_ok n" "\<not> number_node b"
  shows "reads_prim (PyAttr b n)"
  unfolding reads_prim_def
proof (intro allI impI)
  fix s r assume s: "skipWS s = PyType_String (PyAttr b n) @ r" and r: "tail_ok r"
  have "PP s = PL b (CHR ''.'' # n @ r)"
    using assms(1,3) s unfolding reads_prim_def by (simp add: tail_ok_def)
  also have "\<dots> = PL (PyAttr b n) r"
    by (rule PL_attr [OF _ parseIdent_ident [OF assms(2) r]]) simp
  finally show "PP s = PL (PyAttr b n) r" .
qed

lemma reads_prim_sub:
  assumes "reads_prim b" "list_all reads_arg args" "list_all head_ok args"
  shows "reads_prim (PySubscript b args)"
  unfolding reads_prim_def
proof (intro allI impI)
  fix s r assume s: "skipWS s = PyType_String (PySubscript b args) @ r"
  let ?in = "join '', '' (map PyType_String args) @ CHR '']'' # r"
  have "PP s = PL b (CHR ''['' # ?in)"
    using assms(1) s unfolding reads_prim_def by (simp add: tail_ok_def)
  also have "\<dots> = PL (PySubscript b args) r"
  proof (rule PL_sub)
    show "skipWS (CHR ''['' # ?in) = CHR ''['' # ?in" by simp
    show "AL [] ?in = Inr (args, CHR '']'' # r)"
      using reads_args [OF assms(2,3), of "CHR '']'' # r" r ?in "[]"] by simp
    show "skipWS (CHR '']'' # r) = CHR '']'' # r" by simp
  qed
  finally show "PP s = PL (PySubscript b args) r" .
qed

lemma reads_arg_tuple:
  assumes "list_all reads_arg args" "list_all head_ok args"
  shows "reads_arg (PyTuple args)"
  unfolding reads_arg_def
proof (intro allI impI)
  fix s r acc assume s: "skipWS s = PyType_String (PyTuple args) @ r"
  let ?in = "join '', '' (map PyType_String args) @ CHR '']'' # r"
  show "AL acc s = arg_next (acc @ [PyTuple args]) r"
  proof (rule AL_tuple)
    show "skipWS s = CHR ''['' # ?in" using s by simp
    show "AL [] ?in = Inr (args, CHR '']'' # r)"
      using reads_args [OF assms, of "CHR '']'' # r" r ?in "[]"] by simp
    show "skipWS (CHR '']'' # r) = CHR '']'' # r" by simp
  qed
qed

lemma join_concat: "join sep (b # bs) = b @ concat (map (\<lambda>x. sep @ x) bs)"
  by (induction bs arbitrary: b) auto

lemma reads_top_union:
  assumes "list_all reads_prim (b # u # us)" "list_all head_ok (b # u # us)"
  shows "reads_top (PyUnion (b # u # us))"
  unfolding reads_top_def
proof (intro allI impI)
  fix s r
  assume s: "skipWS s = PyType_String (PyUnion (b # u # us)) @ r" and r: "end_ok r"
  let ?rest = "concat (map (\<lambda>b. '' | '' @ PyType_String b) (u # us)) @ r"
  have body: "skipWS s = PyType_String b @ ?rest" using s by (simp add: join_concat comp_def)
  have "PP s = PL b ?rest"
    using assms(1) body unfolding reads_prim_def list.pred_inject by (simp add: tail_ok_def)
  also have "\<dots> = Inr (b, skipWS ?rest)" by (rule PL_done [OF refl]) simp
  finally have "PU s = UL b [] (skipWS ?rest)" by (rule PU_step)
  also have "\<dots> = Inr (PyUnion (b # u # us), r)"
    using reads_union_rest [OF r, of "u # us" "skipWS ?rest" b "[]"] assms by simp
  finally show "PU s = Inr (PyUnion (b # u # us), r)" .
qed

lemma reads_all: "(canon_prim t \<longrightarrow> reads_prim t) \<and> (canon_arg t \<longrightarrow> reads_arg t) \<and> (canonical t \<longrightarrow> reads_top t)"
proof (induction t)
  case (PyName n)
  have "reads_prim (PyName n)" if "canon_prim (PyName n)"
    using that atom_ident [of n] by (intro reads_prim_atom) (simp add: keyword_or_name_def is_keyword_def)
  then show ?case using prim_reads_top top_reads_arg by (simp add: canonical_def)
next
  case (PyAttr b n)
  have "reads_prim (PyAttr b n)" if "canon_prim (PyAttr b n)"
    using that PyAttr by (intro reads_prim_attr) (auto simp: number_node_def split: PyType.splits)
  then show ?case using prim_reads_top top_reads_arg by (simp add: canonical_def)
next
  case (PySubscript b args)
  have "reads_prim (PySubscript b args)" if "canon_prim (PySubscript b args)"
    using that PySubscript canon_arg_head by (intro reads_prim_sub) (auto simp: list_all_iff)
  then show ?case using prim_reads_top top_reads_arg by (simp add: canonical_def)
next
  case (PyTuple args)
  have "reads_arg (PyTuple args)" if "list_all canon_arg args"
    using that PyTuple canon_arg_head by (intro reads_arg_tuple) (auto simp: list_all_iff)
  then show ?case by (simp add: canonical_def)
next
  case (PyUnion bs)
  have "reads_top (PyUnion bs)" if c: "2 \<le> length bs" "list_all canon_prim bs"
  proof -
    obtain b u us where bs: "bs = b # u # us" using c(1) by (auto simp: Suc_le_length_iff numeral_2_eq_2)
    have "head_ok x" if "x \<in> set bs" for x
      using c(2) that canon_prim_ends [of x] skipWS_start unfolding head_ok_def list_all_iff by blast
    then show ?thesis unfolding bs using c PyUnion
      by (intro reads_top_union) (simp_all add: bs list_all_iff)
  qed
  then show ?case using top_reads_arg by (simp add: canonical_def)
next
  case (PyLiteral l)
  have "reads_prim (PyLiteral l)" if lit: "canon_prim (PyLiteral l)"
  proof (rule reads_prim_atom)
    fix s r
    assume s: "skipWS s = PyType_String (PyLiteral l) @ r" and r: "tail_ok r"
      "number_node (PyLiteral l) \<longrightarrow> r = [] \<or> hd r \<noteq> CHR ''.''"
    consider "is_keyword l" | "is_quoted l" | "is_number l" using lit by auto
    then show "PA s = Inr (PyLiteral l, r)"
    proof cases
      case 1
      then show ?thesis using atom_ident [OF keyword_ident r(1), of l s] s
        by (simp add: keyword_or_name_def is_keyword_def)
    qed (use s r atom_quoted atom_number in \<open>auto simp: number_node_def\<close>)
  qed
  then show ?case using prim_reads_top top_reads_arg by (simp add: canonical_def)
next
  case PyEllipsis
  have "reads_prim PyEllipsis" by (rule reads_prim_atom) (rule atom_ellipsis, simp)
  then show ?case using prim_reads_top top_reads_arg by (simp add: canonical_def)
qed

lemma type_text_parse:
  assumes "canonical t"
  shows "ParsePyType (PyType_String t) = Inr t"
proof -
  let ?s = "PyType_String t"
  have trim: "trim_space ?s = ?s"
    using canonical_ends [OF assms] by (intro trim_space_solid) (auto simp: start_ok_def)
  have "skipWS ?s = ?s @ []" using canonical_head [OF assms] unfolding head_ok_def by (metis append_Nil2)
  then have "PU ?s = Inr (t, [])" using reads_all [of t] assms unfolding reads_top_def
    by (auto simp: end_ok_def)
  then have "parseUnion (4 * length ?s + 4) ?s = Inr (t, [])"
    using any_fuel(1) [of ?s "4 * length ?s + 4"] by simp
  then show ?thesis unfolding ParsePyType_def Let_def trim by (simp add: skipWS_def)
qed

text \<open>
  C2. Printing a type expression and parsing it returns the same tree, for every canonical tree:
  dotted names, subscripts nested to any depth, bracketed argument lists, unions, literals and the
  ellipsis.
\<close>

theorem ParsePyType_String:
  assumes "canonical t"
  shows "ParsePyType (PyType_String t) = Inr t"
  by (rule type_text_parse [OF assms])

lemma ParsePyType_String_witness:
  "ParsePyType ''Callable[[int, T], typing.List[str]] | None''
    = Inr (PyUnion [PySubscript (PyName ''Callable'')
        [PyTuple [PyName ''int'', PyName ''T''], PySubscript (PyAttr (PyName ''typing'') ''List'') [PyName ''str'']],
      PyLiteral ''None''])"
proof -
  let ?t = "PyUnion [PySubscript (PyName ''Callable'')
        [PyTuple [PyName ''int'', PyName ''T''], PySubscript (PyAttr (PyName ''typing'') ''List'') [PyName ''str'']],
      PyLiteral ''None'']"
  have "canonical ?t" by code_simp
  moreover have "PyType_String ?t = ''Callable[[int, T], typing.List[str]] | None''" by code_simp
  ultimately show ?thesis using ParsePyType_String [of ?t] by simp
qed

text \<open>
  The parentheses of a union are lost: the text of the tree of "(A | B)[C]" parses to another tree.
\<close>

lemma union_parentheses_lost:
  "\<exists>t. ParsePyType ''(A | B)[C]'' = Inr t \<and> ParsePyType (PyType_String t) \<noteq> Inr t"
proof -
  have "ParsePyType ''(A | B)[C]'' = Inr (PySubscript (PyUnion [PyName ''A'', PyName ''B'']) [PyName ''C''])"
    by code_simp
  moreover have "ParsePyType (PyType_String (PySubscript (PyUnion [PyName ''A'', PyName ''B'']) [PyName ''C'']))
      \<noteq> Inr (PySubscript (PyUnion [PyName ''A'', PyName ''B'']) [PyName ''C''])"
    by code_simp
  ultimately show ?thesis by blast
qed

text \<open>Bytes are read as Latin-1 letters, so a UTF-8 identifier breaks off in the middle of a letter.\<close>

lemma utf8_identifier_rejected:
  "ParsePyType [CHR 0xC3, CHR 0xA9] = Inl (TrailingInput [CHR 0xA9])"
  by code_simp

end
