(* ===== verification/Typemap_MochiType.thy ===== *)
theory Typemap_MochiType
  imports Go_Sort
begin

section \<open>Mochi types: constructors, rendering, equality (typemap/mochitype.go)\<close>

text \<open>
  The Go struct has all its fields at every kind, so a Mochi type is one constructor with a kind, a
  name, parameters, fields and methods.  \<open>Render\<close> indexes the parameter slice, which panics when
  it is too short; its model returns an option, with \<open>None\<close> for the panic, and \<open>mochi_wf\<close> is the
  invariant under which there is none.
\<close>

subsection \<open>Types\<close>

datatype Kind =
    KindUnknown | KindScalar | KindList | KindTuple | KindMap | KindSet | KindFun | KindAsync
  | KindStream | KindOptional | KindSum | KindRecord | KindInterface | KindRef | KindTypeVar

fun Kind_String :: "Kind \<Rightarrow> bytes" where
  "Kind_String KindScalar = ''scalar''"
| "Kind_String KindList = ''list''"
| "Kind_String KindTuple = ''tuple''"
| "Kind_String KindMap = ''map''"
| "Kind_String KindSet = ''set''"
| "Kind_String KindFun = ''fun''"
| "Kind_String KindAsync = ''async''"
| "Kind_String KindStream = ''stream''"
| "Kind_String KindOptional = ''optional''"
| "Kind_String KindSum = ''sum''"
| "Kind_String KindRecord = ''record''"
| "Kind_String KindInterface = ''interface''"
| "Kind_String KindRef = ''ref''"
| "Kind_String KindTypeVar = ''typevar''"
| "Kind_String KindUnknown = ''unknown''"

datatype MochiType =
    MType (MKind: Kind) (MName: bytes) (Params: "MochiType list") (Fields: "MochiField list")
      (Methods: "MochiMethod list")
and MochiField = MField (FName: bytes) (FType: MochiType)
and MochiMethod = MMethod (MethName: bytes) (MethParams: "MochiType list") (MethReturn: MochiType)
      (MethAsync: bool)

definition NewScalar :: "bytes \<Rightarrow> MochiType" where
  "NewScalar name = MType KindScalar name [] [] []"

definition NewRef :: "bytes \<Rightarrow> MochiType" where
  "NewRef name = MType KindRef name [] [] []"

definition NewTypeVar :: "bytes \<Rightarrow> MochiType" where
  "NewTypeVar name = MType KindTypeVar name [] [] []"

definition NewList :: "MochiType \<Rightarrow> MochiType" where
  "NewList t = MType KindList [] [t] [] []"

definition NewSet :: "MochiType \<Rightarrow> MochiType" where
  "NewSet t = MType KindSet [] [t] [] []"

definition NewMap :: "MochiType \<Rightarrow> MochiType \<Rightarrow> MochiType" where
  "NewMap k v = MType KindMap [] [k, v] [] []"

definition NewTuple :: "MochiType list \<Rightarrow> MochiType" where
  "NewTuple elems = MType KindTuple [] elems [] []"

definition NewFun :: "MochiType \<Rightarrow> MochiType list \<Rightarrow> MochiType" where
  "NewFun ret params = MType KindFun [] (params @ [ret]) [] []"

definition NewAsync :: "MochiType \<Rightarrow> MochiType" where
  "NewAsync t = MType KindAsync [] [t] [] []"

definition NewStream :: "MochiType \<Rightarrow> MochiType" where
  "NewStream t = MType KindStream [] [t] [] []"

definition NewOptional :: "MochiType \<Rightarrow> MochiType" where
  "NewOptional t = (if MKind t = KindOptional then t else MType KindOptional [] [t] [] [])"

definition is_none :: "MochiType \<Rightarrow> bool" where
  "is_none b \<longleftrightarrow> MKind b = KindScalar \<and> MName b = ''None''"

fun split_none :: "bool \<Rightarrow> MochiType list \<Rightarrow> MochiType list \<Rightarrow> bool \<times> MochiType list" where
  "split_none none nonNone [] = (none, nonNone)"
| "split_none none nonNone (b # bs) =
    (if is_none b then split_none True nonNone bs else split_none none (nonNone @ [b]) bs)"

definition NewSum :: "MochiType list \<Rightarrow> MochiType" where
  "NewSum branches =
    (case split_none False [] branches of
       (none, nonNone) \<Rightarrow>
         if length nonNone = 0 then NewScalar ''None''
         else let inner = (if length nonNone = 1 then nonNone ! 0 else MType KindSum [] nonNone [] []) in
              if none then NewOptional inner else inner)"

text \<open>\<open>Return\<close> and \<open>FunParams\<close> panic on another kind.\<close>

definition FunReturn :: "MochiType \<Rightarrow> MochiType option" where
  "FunReturn m =
    (if MKind m \<noteq> KindFun then None
     else if length (Params m) = 0 then Some (NewScalar ''None'')
     else Some (Params m ! (length (Params m) - 1)))"

definition FunParams :: "MochiType \<Rightarrow> MochiType list option" where
  "FunParams m =
    (if MKind m \<noteq> KindFun then None
     else if length (Params m) = 0 then Some []
     else Some (take (length (Params m) - 1) (Params m)))"

lemma split_none_eq:
  "split_none none acc bs = (none \<or> list_ex is_none bs, acc @ filter (\<lambda>b. \<not> is_none b) bs)"
  by (induction none acc bs rule: split_none.induct) auto

lemma NewSum_eq:
  "NewSum bs =
    (let rest = filter (\<lambda>b. \<not> is_none b) bs;
         inner = (if length rest = 1 then rest ! 0 else MType KindSum [] rest [] []) in
     if rest = [] then NewScalar ''None'' else if list_ex is_none bs then NewOptional inner else inner)"
  by (simp add: NewSum_def split_none_eq Let_def)

lemma NewFun_parts: "FunReturn (NewFun r ps) = Some r" "FunParams (NewFun r ps) = Some ps"
  by (simp_all add: FunReturn_def FunParams_def NewFun_def)

subsection \<open>Rendering\<close>

text \<open>\<open>m.Params[i].renderInto(b)\<close>: a panic when there is no such parameter.\<close>

definition param :: "bytes option list \<Rightarrow> nat \<Rightarrow> bytes option" where
  "param rs i = (if i < length rs then rs ! i else None)"

definition seq_join :: "bytes \<Rightarrow> bytes option list \<Rightarrow> bytes option" where
  "seq_join sep rs = map_option (join sep) (those rs)"

definition wrap :: "bytes \<Rightarrow> bytes \<Rightarrow> bytes option \<Rightarrow> bytes option" where
  "wrap a b r = map_option (\<lambda>x. a @ x @ b) r"

definition append_opt :: "bytes option \<Rightarrow> bytes option \<Rightarrow> bytes option" where
  "append_opt a b = (case a of None \<Rightarrow> None | Some x \<Rightarrow> map_option (\<lambda>y. x @ y) b)"

text \<open>
  Records and interfaces list their members by sorted name, each looked up in a map that keeps the
  last member of a name.
\<close>

definition by_name :: "(bytes \<times> bytes option) list \<Rightarrow> bytes \<Rightarrow> bytes option" where
  "by_name idx n = (case map_of (rev idx) n of None \<Rightarrow> None | Some r \<Rightarrow> r)"

definition members :: "bytes \<Rightarrow> (bytes \<times> bytes option) list \<Rightarrow> bytes option" where
  "members sep idx = seq_join sep (map (by_name idx) (sort_strings (map fst idx)))"

fun renderInto :: "MochiType \<Rightarrow> bytes option"
  and render_field :: "MochiField \<Rightarrow> bytes \<times> bytes option"
  and render_method :: "MochiMethod \<Rightarrow> bytes \<times> bytes option" where
  "renderInto (MType k name ps fs ms) =
    (let rs = map renderInto ps in
     case k of
       KindScalar \<Rightarrow> Some name
     | KindRef \<Rightarrow> Some name
     | KindTypeVar \<Rightarrow> Some name
     | KindList \<Rightarrow> wrap ''list<'' ''>'' (param rs 0)
     | KindSet \<Rightarrow> wrap ''set<'' ''>'' (param rs 0)
     | KindMap \<Rightarrow> append_opt (wrap ''map<'' '', '' (param rs 0)) (wrap [] ''>'' (param rs 1))
     | KindTuple \<Rightarrow> wrap ''tuple<'' ''>'' (seq_join '', '' rs)
     | KindAsync \<Rightarrow> wrap ''async '' [] (param rs 0)
     | KindStream \<Rightarrow> wrap ''stream<'' ''>'' (param rs 0)
     | KindOptional \<Rightarrow> wrap [] ''?'' (param rs 0)
     | KindSum \<Rightarrow> seq_join '' | '' rs
     | KindFun \<Rightarrow>
         append_opt (wrap ''fun('' ''): '' (seq_join '', '' (take (length rs - 1) rs)))
           (if length rs = 0 then Some ''None'' else param rs (length rs - 1))
     | KindRecord \<Rightarrow> wrap (''record '' @ name @ '' { '') '' }'' (members '', '' (map render_field fs))
     | KindInterface \<Rightarrow> wrap (''interface '' @ name @ '' { '') '' }'' (members ''; '' (map render_method ms))
     | KindUnknown \<Rightarrow> Some ''<unknown>'')"
| "render_field (MField n t) = (n, wrap (n @ '': '') [] (renderInto t))"
| "render_method (MMethod n ps r async) =
    (n, append_opt
          (wrap ((if async then ''async '' else []) @ n @ ''('') ''): '' (seq_join '', '' (map renderInto ps)))
          (renderInto r))"

text \<open>The invariant of committed types: no unknown kind, and the parameters each kind needs.\<close>

fun mochi_wf :: "MochiType \<Rightarrow> bool"
  and field_wf :: "MochiField \<Rightarrow> bool"
  and method_wf :: "MochiMethod \<Rightarrow> bool" where
  "mochi_wf (MType k name ps fs ms) =
    ((case k of
        KindUnknown \<Rightarrow> False
      | KindList \<Rightarrow> length ps = 1 | KindSet \<Rightarrow> length ps = 1 | KindAsync \<Rightarrow> length ps = 1
      | KindStream \<Rightarrow> length ps = 1 | KindOptional \<Rightarrow> length ps = 1
      | KindMap \<Rightarrow> length ps = 2 | KindFun \<Rightarrow> 1 \<le> length ps | KindSum \<Rightarrow> 2 \<le> length ps
      | _ \<Rightarrow> True)
     \<and> list_all mochi_wf ps \<and> list_all field_wf fs \<and> list_all method_wf ms)"
| "field_wf (MField n t) = mochi_wf t"
| "method_wf (MMethod n ps r async) = (list_all mochi_wf ps \<and> mochi_wf r)"

lemma those_None: "those xs = None \<longleftrightarrow> None \<in> set xs"
  by (induction xs) (auto split: option.splits)

lemma seq_join_Some: "seq_join sep rs \<noteq> None \<longleftrightarrow> None \<notin> set rs"
  by (simp add: seq_join_def those_None)

lemma wrap_Some [simp]: "wrap a b r = None \<longleftrightarrow> r = None"
  by (simp add: wrap_def)

lemma append_opt_None [simp]: "append_opt a b = None \<longleftrightarrow> a = None \<or> b = None"
  by (auto simp: append_opt_def split: option.splits)

lemma members_Some: "(\<forall>p \<in> set idx. snd p \<noteq> None) \<Longrightarrow> members sep idx \<noteq> None"
proof -
  assume all: "\<forall>p \<in> set idx. snd p \<noteq> None"
  have "by_name idx n \<noteq> None" if "n \<in> set (map fst idx)" for n
  proof -
    have "map_of (rev idx) n \<noteq> None" using that by (simp add: map_of_eq_None_iff)
    then obtain r where r: "map_of (rev idx) n = Some r" by blast
    then have "(n, r) \<in> set idx" by (metis map_of_SomeD set_rev)
    with all r show ?thesis by (auto simp: by_name_def)
  qed
  then have "None \<notin> by_name idx ` set (map fst idx)" by (metis imageE)
  then show ?thesis by (simp add: members_def seq_join_Some sort_strings_def del: not_None_eq)
qed

lemma render_wf:
  "mochi_wf t \<Longrightarrow> renderInto t \<noteq> None"
  "field_wf f \<Longrightarrow> snd (render_field f) \<noteq> None"
  "method_wf m \<Longrightarrow> snd (render_method m) \<noteq> None"
proof (induction t and f and m)
  case (MType k name ps fs ms)
  have ps: "\<forall>r \<in> set (map renderInto ps). r \<noteq> None"
    using MType.IH(1) MType.prems by (auto simp: list_all_iff)
  have fs: "\<forall>p \<in> set (map render_field fs). snd p \<noteq> None"
    using MType.IH(2) MType.prems by (auto simp: list_all_iff)
  have ms: "\<forall>p \<in> set (map render_method ms). snd p \<noteq> None"
    using MType.IH(3) MType.prems by (auto simp: list_all_iff)
  have par: "param (map renderInto ps) i \<noteq> None" if "i < length ps" for i
    using ps that by (simp add: param_def)
  have tup: "None \<notin> set (map renderInto ps)" using ps by blast
  then have tk: "None \<notin> set (take n (map renderInto ps))" for n by (meson in_set_takeD)
  note seqs = seq_join_Some [THEN iffD2, OF tup] seq_join_Some [THEN iffD2, OF tk]
  show ?case
    using MType.prems par seqs members_Some [OF fs] members_Some [OF ms]
    by (cases k) (auto simp: Let_def simp del: not_None_eq)
next
  case (MField n t)
  then show ?case by simp
next
  case (MMethod n ps r async)
  have "renderInto x \<noteq> None" if "x \<in> set ps" for x
    using MMethod that by (auto simp: list_all_iff simp del: not_None_eq)
  then have "None \<notin> renderInto ` set ps" by (metis imageE)
  then have "None \<notin> set (map renderInto ps)" by simp
  then show ?case using MMethod seq_join_Some [THEN iffD2] by (auto simp del: not_None_eq)
qed

lemma NewSum_wf:
  assumes "list_all mochi_wf bs"
  shows "mochi_wf (NewSum bs)"
proof -
  let ?rest = "filter (\<lambda>b. \<not> is_none b) bs"
  have rest: "list_all mochi_wf ?rest" using assms by (auto simp: list_all_iff)
  let ?inner = "if length ?rest = 1 then ?rest ! 0 else MType KindSum [] ?rest [] []"
  have "mochi_wf ?inner" if "?rest \<noteq> []"
  proof (cases "length ?rest = 1")
    case True
    then show ?thesis using rest that by (cases ?rest) auto
  next
    case False
    then have "2 \<le> length ?rest" using that by (cases ?rest; cases "tl ?rest") auto
    then show ?thesis using rest False by simp
  qed
  then show ?thesis by (auto simp: NewSum_eq Let_def NewOptional_def NewScalar_def)
qed

text \<open>
  Rendering a well-formed type never panics, and every constructor yields a well-formed type
  from well-formed parts, the normalising ones (optional, sum) included.
\<close>

theorem Render_no_panic:
  assumes "mochi_wf t" "mochi_wf u" "list_all mochi_wf ts"
  shows "(\<exists>text. renderInto t = Some text)
    \<and> mochi_wf (NewScalar n) \<and> mochi_wf (NewRef n) \<and> mochi_wf (NewTypeVar n)
    \<and> mochi_wf (NewList t) \<and> mochi_wf (NewSet t) \<and> mochi_wf (NewMap t u) \<and> mochi_wf (NewTuple ts)
    \<and> mochi_wf (NewFun t ts) \<and> mochi_wf (NewAsync t) \<and> mochi_wf (NewStream t)
    \<and> mochi_wf (NewOptional t) \<and> mochi_wf (NewSum ts)"
  using assms render_wf(1) [OF assms(1)] NewSum_wf [OF assms(3)]
  by (auto simp: NewScalar_def NewRef_def NewTypeVar_def NewList_def NewSet_def NewMap_def NewTuple_def
      NewFun_def NewAsync_def NewStream_def NewOptional_def)

lemma Render_no_panic_witness:
  "mochi_wf (NewSum [NewScalar ''int'', NewScalar ''None'', NewScalar ''string''])
    \<and> renderInto (NewSum [NewScalar ''int'', NewScalar ''None'', NewScalar ''string'']) = Some ''int | string?''"
proof -
  have "mochi_wf (NewScalar ''int'')" "list_all mochi_wf [NewScalar ''int'', NewScalar ''None'', NewScalar ''string'']"
    by (simp_all add: NewScalar_def)
  from Render_no_panic [OF this(1) this(1) this(2)]
  have "mochi_wf (NewSum [NewScalar ''int'', NewScalar ''None'', NewScalar ''string''])" by blast
  moreover have "renderInto (NewSum [NewScalar ''int'', NewScalar ''None'', NewScalar ''string''])
      = Some ''int | string?''" by code_simp
  ultimately show ?thesis ..
qed

text \<open>The text of an optional sum is also the text of a sum with an optional branch.\<close>

lemma Render_ambiguous:
  "renderInto (NewOptional (NewSum [NewScalar ''int'', NewScalar ''string'']))
     = renderInto (NewSum [NewScalar ''int'', NewOptional (NewScalar ''string'')])
   \<and> NewOptional (NewSum [NewScalar ''int'', NewScalar ''string''])
     \<noteq> NewSum [NewScalar ''int'', NewOptional (NewScalar ''string'')]"
proof
  show "renderInto (NewOptional (NewSum [NewScalar ''int'', NewScalar ''string'']))
     = renderInto (NewSum [NewScalar ''int'', NewOptional (NewScalar ''string'')])" by code_simp
qed (simp add: NewSum_eq NewOptional_def NewScalar_def is_none_def)

subsection \<open>Structural equality\<close>

function (sequential) Equal :: "MochiType \<Rightarrow> MochiType \<Rightarrow> bool"
  and equal_params :: "MochiType list \<Rightarrow> MochiType list \<Rightarrow> bool"
  and equal_fields :: "MochiField list \<Rightarrow> MochiField list \<Rightarrow> bool"
  and equal_methods :: "MochiMethod list \<Rightarrow> MochiMethod list \<Rightarrow> bool" where
  "Equal (MType k n ps fs ms) (MType k' n' ps' fs' ms') =
    (if k \<noteq> k' \<or> n \<noteq> n' then False
     else if length ps \<noteq> length ps' then False
     else if \<not> equal_params ps ps' then False
     else if length fs \<noteq> length fs' then False
     else if \<not> equal_fields fs fs' then False
     else if length ms \<noteq> length ms' then False
     else equal_methods ms ms')"
| "equal_params (p # ps) (q # qs) = (if \<not> Equal p q then False else equal_params ps qs)"
| "equal_params _ _ = True"
| "equal_fields (MField n t # fs) (MField m u # gs) =
    (if n \<noteq> m then False else if \<not> Equal t u then False else equal_fields fs gs)"
| "equal_fields _ _ = True"
| "equal_methods (MMethod n ps r a # ms) (MMethod m qs u b # ns) =
    (if n \<noteq> m \<or> a \<noteq> b then False
     else if \<not> Equal r u then False
     else if length ps \<noteq> length qs then False
     else if \<not> equal_params ps qs then False
     else equal_methods ms ns)"
| "equal_methods _ _ = True"
  by pat_completeness auto
termination by size_change

lemma Equal_eq:
  "Equal a b \<longleftrightarrow> a = b"
  "length ps = length qs \<Longrightarrow> equal_params ps qs \<longleftrightarrow> ps = qs"
  "length fs = length gs \<Longrightarrow> equal_fields fs gs \<longleftrightarrow> fs = gs"
  "length ms = length ns \<Longrightarrow> equal_methods ms ns \<longleftrightarrow> ms = ns"
  by (induction a b and ps qs and fs gs and ms ns rule: Equal_equal_params_equal_fields_equal_methods.induct)
    auto

text \<open>
  \<open>Equal\<close> decides equality: it holds of two types exactly when they agree in kind, name,
  parameters, fields and methods, at every depth.
\<close>

theorem Equal_decides: "Equal a b \<longleftrightarrow> a = b"
  by (rule Equal_eq)

end
