(* ===== verification/Typemap_Mapper.thy ===== *)
theory Typemap_Mapper
  imports Typemap_PyType Typemap_MochiType Bridge_Errors
begin

section \<open>The closed type table: from Python type expressions to Mochi types (typemap/mapper.go)\<close>

text \<open>
  A decision is a skip report or a Mochi type.  The mapper's fields are the arguments of the Go
  receiver; \<open>Map\<close> also takes the predicate of printable runes, which its parse-error texts need.
  The recursion follows the code: \<open>mapNode\<close> dispatches on the node, \<open>map_each\<close> and
  \<open>map_branches\<close> are the loops over arguments that stop at the first refusal, \<open>map_one\<close> is the
  block every one-argument constructor repeats.
\<close>

type_synonym Decision = "SkipReport + MochiType"

record Mapper =
  TypeVars :: "bytes set"
  Classes :: "bytes set"
  AllowPartial :: bool
  MItemPath :: bytes

definition skip :: "Mapper \<Rightarrow> SkipReason \<Rightarrow> bytes \<Rightarrow> bytes \<Rightarrow> SkipReport + 'a" where
  "skip m reason detail override =
    Inl \<lparr>ItemPath = MItemPath m, Reason = reason, Detail = detail, Override = override\<rparr>"

abbreviation skip_typing :: "Mapper \<Rightarrow> bytes \<Rightarrow> SkipReport + 'a" where
  "skip_typing m detail \<equiv> skip m SkipUnsupportedTypingConstruct detail []"

definition lookupScalar :: "bytes \<Rightarrow> MochiType option" where
  "lookupScalar name =
    (if name = ''int'' then Some (NewScalar ''int'')
     else if name = ''float'' then Some (NewScalar ''float'')
     else if name = ''bool'' then Some (NewScalar ''bool'')
     else if name = ''str'' then Some (NewScalar ''string'')
     else if name = ''bytes'' then Some (NewScalar ''bytes'')
     else if name = ''None'' \<or> name = ''NoneType'' then Some (NewScalar ''None'')
     else None)"

definition isValidMapKey :: "MochiType \<Rightarrow> bool" where
  "isValidMapKey t = (if MKind t \<noteq> KindScalar then False else MName t = ''string'' \<or> MName t = ''int'')"

definition bare_constructors :: "bytes list" where
  "bare_constructors =
    [''List'', ''Tuple'', ''Dict'', ''Set'', ''FrozenSet'', ''Optional'', ''Union'',
     ''Callable'', ''Awaitable'', ''AsyncIterator'', ''Iterator'', ''Iterable'',
     ''Type'', ''Literal'', ''Final'', ''ClassVar'', ''Annotated'', ''TypedDict'',
     ''Protocol'', ''TypeVar'', ''ParamSpec'', ''TypeVarTuple'', ''Generic'',
     ''Concatenate'', ''Unpack'', ''NotRequired'', ''Required'']"

text \<open>The switch over the names \<open>mapName\<close> has not resolved otherwise.\<close>

definition special_name :: "Mapper \<Rightarrow> bytes \<Rightarrow> Decision" where
  "special_name m name =
    (if name = ''Any'' then
       (if AllowPartial m then Inr (NewRef ''Any'')
        else skip m SkipUnsupportedTypingConstruct ''Any has no Mochi counterpart''
          ''declare a concrete type via @extern python override'')
     else if name = ''object'' then skip_typing m ''object outside Protocol position''
     else if name = ''complex'' then skip m SkipNoComplexType ''Python complex has no Mochi counterpart'' []
     else if name = ''Self'' then Inr (NewRef ''Self'')
     else if name \<in> set bare_constructors then
       skip_typing m (''bare typing constructor '' @ name @ '' without subscript'')
     else skip m SkipForwardRef (''unresolved name '' @ name) [])"

definition mapName :: "Mapper \<Rightarrow> bytes \<Rightarrow> Decision" where
  "mapName m name =
    (case lookupScalar name of
       Some t \<Rightarrow> Inr t
     | None \<Rightarrow>
         if name \<in> TypeVars m then Inr (NewTypeVar name)
         else if name \<in> Classes m then Inr (NewRef name)
         else special_name m name)"

definition module_prefixes :: "bytes list" where
  "module_prefixes = [''typing.'', ''typing_extensions.'', ''collections.abc.'', ''builtins.'']"

fun strip_module :: "bytes list \<Rightarrow> bytes \<Rightarrow> bytes option" where
  "strip_module [] qn = None"
| "strip_module (p # ps) qn = (if has_prefix qn p then Some (trim_prefix qn p) else strip_module ps qn)"

definition mapQualified :: "Mapper \<Rightarrow> bytes \<Rightarrow> Decision" where
  "mapQualified m qn =
    (case strip_module module_prefixes qn of
       Some name \<Rightarrow> mapName m name
     | None \<Rightarrow>
         (let tail = last (split_on CHR ''.'' qn) in
          if tail \<in> Classes m then Inr (NewRef tail)
          else skip m SkipForwardRef (''unresolved qualified name '' @ qn) []))"

definition starts_quoted :: "bytes \<Rightarrow> bool" where
  "starts_quoted l \<longleftrightarrow> has_prefix l [CHR 0x22] \<or> has_prefix l [CHR 0x27]"

text \<open>
  A literal at type position.  The slice that drops the quotes is in range for every string literal
  the parser yields, which has both.
\<close>

definition map_literal_node :: "Mapper \<Rightarrow> bytes \<Rightarrow> Decision" where
  "map_literal_node m l =
    (if l = ''None'' then Inr (NewScalar ''None'')
     else if starts_quoted l then mapName m (take (length l - 2) (drop 1 l))
     else skip_typing m (''bare literal '' @ l @ '' at type position''))"

definition literal_kind :: "PyType \<Rightarrow> MochiType option" where
  "literal_kind a =
    (case a of
       PyLiteral l \<Rightarrow>
         Some (if starts_quoted l then NewScalar ''string''
               else if l = ''True'' \<or> l = ''False'' then NewScalar ''bool''
               else if l = ''None'' then NewScalar ''None''
               else NewScalar ''int'')
     | _ \<Rightarrow> None)"

fun mapLiteral_loop :: "Mapper \<Rightarrow> MochiType \<Rightarrow> PyType list \<Rightarrow> Decision" where
  "mapLiteral_loop m kind [] = Inr kind"
| "mapLiteral_loop m kind (a # as) =
    (case literal_kind a of
       None \<Rightarrow> skip_typing m (''Literal argument must be a literal, got '' @ PyType_String a)
     | Some k \<Rightarrow>
         if MKind kind = KindUnknown then mapLiteral_loop m k as
         else if \<not> Equal kind k then skip_typing m ''Literal arguments of mixed kinds are out of scope''
         else mapLiteral_loop m kind as)"

definition mapLiteral :: "Mapper \<Rightarrow> PyType list \<Rightarrow> Decision" where
  "mapLiteral m args = mapLiteral_loop m (MType KindUnknown [] [] [] []) args"

definition Render :: "MochiType \<Rightarrow> bytes" where
  "Render t = (case renderInto t of Some s \<Rightarrow> s | None \<Rightarrow> [])"

definition count :: "bytes \<Rightarrow> 'a list \<Rightarrow> bytes" where
  "count what args = what @ '', got '' @ itoa (int (length args))"

definition strip_base :: "PyType \<Rightarrow> bytes" where
  "strip_base b =
    (let base = QualifiedName b in
     case strip_module module_prefixes base of Some name \<Rightarrow> name | None \<Rightarrow> base)"

function (sequential) mapNode :: "Mapper \<Rightarrow> PyType \<Rightarrow> bytes \<Rightarrow> Decision"
  and map_each :: "Mapper \<Rightarrow> PyType list \<Rightarrow> SkipReport + MochiType list"
  and map_branches :: "Mapper \<Rightarrow> PyType list \<Rightarrow> SkipReport + MochiType list"
  and map_one :: "Mapper \<Rightarrow> bytes \<Rightarrow> (MochiType \<Rightarrow> MochiType) \<Rightarrow> PyType list \<Rightarrow> Decision"
  and mapUnion :: "Mapper \<Rightarrow> PyType list \<Rightarrow> Decision"
  and mapCallable :: "Mapper \<Rightarrow> PyType list \<Rightarrow> Decision"
  and mapSubscript :: "Mapper \<Rightarrow> PyType \<Rightarrow> PyType list \<Rightarrow> Decision"
where
  "mapNode m (PyName n) src = mapName m n"
| "mapNode m (PyAttr b n) src =
    (let qn = QualifiedName (PyAttr b n) in
     if qn = [] then skip_typing m (''non-identifier attribute base in '' @ src) else mapQualified m qn)"
| "mapNode m (PySubscript b args) src = mapSubscript m b args"
| "mapNode m (PyUnion bs) src = mapUnion m bs"
| "mapNode m (PyLiteral l) src = map_literal_node m l"
| "mapNode m PyEllipsis src = skip_typing m ''bare ellipsis at type position''"
| "mapNode m (PyTuple args) src = skip_typing m (''unsupported type expression: '' @ src)"
| "map_each m [] = Inr []"
| "map_each m (a # as) =
    (case mapNode m a (PyType_String a) of
       Inl s \<Rightarrow> Inl s
     | Inr t \<Rightarrow> (case map_each m as of Inl s \<Rightarrow> Inl s | Inr ts \<Rightarrow> Inr (t # ts)))"
| "map_branches m [] = Inr []"
| "map_branches m (a # as) =
    (case mapNode m a (PyType_String a) of
       Inl s \<Rightarrow> Inl s
     | Inr t \<Rightarrow>
         if MKind t = KindRef \<and> MName t = ''Any'' then skip m SkipOpenUnion ''union branch is Any'' []
         else (case map_branches m as of Inl s \<Rightarrow> Inl s | Inr ts \<Rightarrow> Inr (t # ts)))"
| "map_one m detail f [a] =
    (case mapNode m a (PyType_String a) of Inl s \<Rightarrow> Inl s | Inr t \<Rightarrow> Inr (f t))"
| "map_one m detail f args = skip_typing m detail"
| "mapUnion m [] = skip_typing m ''empty union''"
| "mapUnion m (b # bs) =
    (case map_branches m (b # bs) of Inl s \<Rightarrow> Inl s | Inr ts \<Rightarrow> Inr (NewSum ts))"
| "mapCallable m [PyEllipsis, r] = skip m SkipParamSpec ''Callable[..., R] is out of scope (ParamSpec-shaped)'' []"
| "mapCallable m [PyTuple ps, r] =
    (case map_each m ps of
       Inl s \<Rightarrow> Inl s
     | Inr params \<Rightarrow>
         (case mapNode m r (PyType_String r) of Inl s \<Rightarrow> Inl s | Inr ret \<Rightarrow> Inr (NewFun ret params)))"
| "mapCallable m [p, r] = skip_typing m ''Callable parameter list must be a bracketed sequence''"
| "mapCallable m args = skip_typing m (count ''Callable takes 2 arguments'' args)"
| "mapSubscript m b args =
    (if QualifiedName b = [] then skip_typing m ''non-identifier subscript base''
     else let base = strip_base b in
     if base \<in> {''list'', ''List''} then map_one m (count ''list takes 1 type argument'' args) NewList args
     else if base \<in> {''set'', ''Set''} then map_one m (count ''set takes 1 type argument'' args) NewSet args
     else if base \<in> {''frozenset'', ''FrozenSet''} then
       map_one m (count ''frozenset takes 1 type argument'' args) NewSet args
     else if base \<in> {''dict'', ''Dict'', ''Mapping'', ''MutableMapping''} then
       (case args of
          [k, v] \<Rightarrow>
            (case mapNode m k (PyType_String k) of
               Inl s \<Rightarrow> Inl s
             | Inr key \<Rightarrow>
                 (case mapNode m v (PyType_String v) of
                    Inl s \<Rightarrow> Inl s
                  | Inr val \<Rightarrow>
                      if \<not> isValidMapKey key
                      then skip_typing m (''map keys must be str or an integer type, got '' @ Render key)
                      else Inr (NewMap key val)))
        | _ \<Rightarrow> skip_typing m (count ''dict takes 2 type arguments'' args))
     else if base \<in> {''tuple'', ''Tuple''} then
       (case args of
          [a, PyEllipsis] \<Rightarrow>
            (case mapNode m a (PyType_String a) of Inl s \<Rightarrow> Inl s | Inr t \<Rightarrow> Inr (NewList t))
        | _ \<Rightarrow> (case map_each m args of Inl s \<Rightarrow> Inl s | Inr ts \<Rightarrow> Inr (NewTuple ts)))
     else if base = ''Optional'' then map_one m ''Optional takes 1 type argument'' NewOptional args
     else if base = ''Union'' then mapUnion m args
     else if base = ''Callable'' then mapCallable m args
     else if base = ''Awaitable'' then map_one m ''Awaitable takes 1 type argument'' NewAsync args
     else if base = ''Coroutine'' then
       (case args of
          [y, s, r] \<Rightarrow> (case mapNode m r (PyType_String r) of Inl e \<Rightarrow> Inl e | Inr t \<Rightarrow> Inr (NewAsync t))
        | _ \<Rightarrow> skip_typing m ''Coroutine takes 3 type arguments'')
     else if base \<in> {''AsyncIterator'', ''AsyncIterable''} then
       map_one m ''AsyncIterator takes 1 type argument'' NewStream args
     else if base \<in> {''Iterator'', ''Iterable''} then
       map_one m ''Iterator takes 1 type argument'' NewList args
     else if base = ''Type'' then skip_typing m ''Type[X] has no Mochi counterpart''
     else if base = ''Literal'' then
       (if args = [] then skip_typing m ''Literal[] requires at least one argument'' else mapLiteral m args)
     else if base \<in> {''Final'', ''ClassVar''} then map_one m (base @ '' takes 1 type argument'') id args
     else if base = ''Annotated'' then
       (case args of [] \<Rightarrow> skip_typing m ''Annotated requires a type argument''
        | a # _ \<Rightarrow> mapNode m a (PyType_String a))
     else if base \<in> {''ParamSpec'', ''Concatenate''} then
       skip m SkipParamSpec ''ParamSpec / Concatenate is out of scope'' []
     else if base \<in> {''TypeVarTuple'', ''Unpack''} then
       skip m SkipTypeVarTuple ''TypeVarTuple / Unpack is out of scope'' []
     else if base \<in> {''Generator'', ''AsyncGenerator''} then
       skip_typing m ''Generator types other than Iterator / AsyncIterator are out of scope''
     else if base \<in> {''NotRequired'', ''Required''} then
       map_one m (base @ '' takes 1 type argument'') id args
     else if base \<in> Classes m then
       (case map_each m args of Inl s \<Rightarrow> Inl s | Inr ts \<Rightarrow> Inr (MType KindRef base ts [] []))
     else skip m SkipForwardRef (''unresolved subscript base '' @ base) [])"
  by pat_completeness auto
termination
  by (relation "measure (case_sum
      (case_sum (\<lambda>(m, t, s). 4 * size t)
        (case_sum (\<lambda>(m, ts). 4 * size_list size ts) (\<lambda>(m, ts). 4 * size_list size ts)))
      (case_sum
        (case_sum (\<lambda>(m, d, f, ts). 4 * size_list size ts) (\<lambda>(m, ts). 4 * size_list size ts + 1))
        (case_sum (\<lambda>(m, ts). 4 * size_list size ts + 1) (\<lambda>(m, b, ts). 4 * size_list size ts + 2))))")
    auto

definition MapParsed :: "Mapper \<Rightarrow> PyType \<Rightarrow> Decision" where
  "MapParsed m t = mapNode m t (PyType_String t)"

definition Map :: "(int \<Rightarrow> bool) \<Rightarrow> Mapper \<Rightarrow> bytes \<Rightarrow> Decision" where
  "Map ip m expr =
    (let expr = trim_space expr in
     if expr = [] then skip_typing m ''empty type expression''
     else case ParsePyType expr of
       Inl e \<Rightarrow> skip_typing m (PyError_text ip expr e)
     | Inr t \<Rightarrow> mapNode m t expr)"

declare mapNode.simps [simp del] map_each.simps [simp del] map_branches.simps [simp del]
  map_one.simps [simp del] mapUnion.simps [simp del] mapCallable.simps [simp del]
  mapSubscript.simps [simp del]

subsection \<open>What a decision promises\<close>

text \<open>
  \<open>closed m t\<close>: the type uses only the scalars of the closed table, the type variables and classes
  in scope (with Self, and Any when partial mappings are allowed), map keys that are strings or
  integers, no records or interfaces, no optional of an optional, and no None or Any among the
  branches of a sum.
\<close>

definition scalar_names :: "bytes list" where
  "scalar_names = [''int'', ''float'', ''bool'', ''string'', ''bytes'', ''None'']"

definition any_ref :: "MochiType \<Rightarrow> bool" where
  "any_ref t \<longleftrightarrow> MKind t = KindRef \<and> MName t = ''Any''"

definition is_optional :: "MochiType \<Rightarrow> bool" where
  "is_optional t \<longleftrightarrow> MKind t = KindOptional"

definition none_branch :: "MochiType \<Rightarrow> bool" where
  "none_branch t \<longleftrightarrow> MKind t = KindScalar \<and> MName t = ''None''"

lemma none_branch_eq [simp]: "none_branch = is_none"
  by (simp add: none_branch_def is_none_def fun_eq_iff)

fun closed :: "Mapper \<Rightarrow> MochiType \<Rightarrow> bool" where
  "closed m (MType k n ps fs ms) =
    ((case k of
        KindScalar \<Rightarrow> n \<in> set scalar_names \<and> ps = []
      | KindTypeVar \<Rightarrow> n \<in> TypeVars m \<and> ps = []
      | KindRef \<Rightarrow> n \<in> Classes m \<or> (n = ''Self'' \<or> n = ''Any'' \<and> AllowPartial m) \<and> ps = []
      | KindMap \<Rightarrow> n = [] \<and> (case ps of key # _ \<Rightarrow> MKind key = KindScalar \<and> MName key \<in> {''string'', ''int''} | [] \<Rightarrow> False)
      | KindOptional \<Rightarrow> n = [] \<and> \<not> list_ex is_optional ps
      | KindSum \<Rightarrow> n = [] \<and> \<not> list_ex none_branch ps \<and> \<not> list_ex any_ref ps
      | KindRecord \<Rightarrow> False | KindInterface \<Rightarrow> False | KindUnknown \<Rightarrow> False
      | _ \<Rightarrow> n = [])
     \<and> list_all (closed m) ps \<and> fs = [] \<and> ms = [])"

definition good :: "Mapper \<Rightarrow> MochiType \<Rightarrow> bool" where
  "good m t \<longleftrightarrow> mochi_wf t \<and> closed m t"

definition skip_reasons :: "SkipReason set" where
  "skip_reasons = {SkipUnsupportedTypingConstruct, SkipNoComplexType, SkipForwardRef, SkipOpenUnion,
     SkipParamSpec, SkipTypeVarTuple}"

definition ok_with :: "('a \<Rightarrow> bool) \<Rightarrow> Mapper \<Rightarrow> SkipReport + 'a \<Rightarrow> bool" where
  "ok_with P m d \<longleftrightarrow>
    (case d of Inl s \<Rightarrow> ItemPath s = MItemPath m \<and> Reason s \<in> skip_reasons \<and> Detail s \<noteq> []
     | Inr t \<Rightarrow> P t)"

abbreviation dec_ok :: "Mapper \<Rightarrow> Decision \<Rightarrow> bool" where
  "dec_ok m \<equiv> ok_with (good m) m"

abbreviation list_ok :: "Mapper \<Rightarrow> SkipReport + MochiType list \<Rightarrow> bool" where
  "list_ok m \<equiv> ok_with (list_all (good m)) m"

lemma ok_skip [simp]: "ok_with P m (skip m r d ov) \<longleftrightarrow> r \<in> skip_reasons \<and> d \<noteq> []"
  by (simp add: ok_with_def skip_def)

lemma ok_Inr [simp]: "ok_with P m (Inr t) \<longleftrightarrow> P t"
  by (simp add: ok_with_def)

lemma skip_reasons_in [simp]:
  "SkipUnsupportedTypingConstruct \<in> skip_reasons" "SkipNoComplexType \<in> skip_reasons"
  "SkipForwardRef \<in> skip_reasons" "SkipOpenUnion \<in> skip_reasons" "SkipParamSpec \<in> skip_reasons"
  "SkipTypeVarTuple \<in> skip_reasons"
  by (simp_all add: skip_reasons_def)

lemma ok_bind:
  "ok_with P m d \<Longrightarrow> (\<And>t. P t \<Longrightarrow> ok_with Q m (f t)) \<Longrightarrow>
    ok_with Q m (case d of Inl s \<Rightarrow> Inl s | Inr t \<Rightarrow> f t)"
  by (cases d) (simp_all add: ok_with_def)

lemma ok_if: "(c \<Longrightarrow> ok_with P m a) \<Longrightarrow> (\<not> c \<Longrightarrow> ok_with P m b) \<Longrightarrow> ok_with P m (if c then a else b)"
  by simp

lemma ok_list_case:
  "ok_with P m a \<Longrightarrow> (\<And>x xs. args = x # xs \<Longrightarrow> ok_with P m (f x xs)) \<Longrightarrow>
    ok_with P m (case args of [] \<Rightarrow> a | x # xs \<Rightarrow> f x xs)"
  by (cases args) simp_all

lemma ok_py_case:
  "(\<And>n. ok_with P m (f1 n)) \<Longrightarrow> (\<And>b n. ok_with P m (f2 b n)) \<Longrightarrow> (\<And>b ps. ok_with P m (f3 b ps)) \<Longrightarrow>
    (\<And>ps. ok_with P m (f4 ps)) \<Longrightarrow> (\<And>bs. ok_with P m (f5 bs)) \<Longrightarrow> (\<And>l. ok_with P m (f6 l)) \<Longrightarrow>
    ok_with P m f7 \<Longrightarrow> ok_with P m (case_PyType f1 f2 f3 f4 f5 f6 f7 t)"
  by (cases t) simp_all

lemmas ok_steps = ok_if ok_list_case ok_py_case

lemma good_simps [simp]:
  "good m (NewList t) \<longleftrightarrow> good m t" "good m (NewSet t) \<longleftrightarrow> good m t" "good m (NewAsync t) \<longleftrightarrow> good m t"
  "good m (NewStream t) \<longleftrightarrow> good m t" "good m (NewTuple ts) \<longleftrightarrow> list_all (good m) ts"
  "good m (NewFun r ts) \<longleftrightarrow> good m r \<and> list_all (good m) ts"
  "good m (NewMap k v) \<longleftrightarrow> good m k \<and> good m v \<and> isValidMapKey k"
  "good m (NewScalar n) \<longleftrightarrow> n \<in> set scalar_names" "good m (NewTypeVar n) \<longleftrightarrow> n \<in> TypeVars m"
  "good m (NewRef n) \<longleftrightarrow> n \<in> Classes m \<or> n = ''Self'' \<or> n = ''Any'' \<and> AllowPartial m"
  "good m (MType KindRef n ts [] []) \<longleftrightarrow>
     (n \<in> Classes m \<or> (n = ''Self'' \<or> n = ''Any'' \<and> AllowPartial m) \<and> ts = []) \<and> list_all (good m) ts"
  by (auto simp: good_def NewList_def NewSet_def NewAsync_def NewStream_def NewTuple_def NewFun_def
      NewMap_def NewScalar_def NewTypeVar_def NewRef_def isValidMapKey_def list_all_iff)

lemma good_optional: "good m t \<Longrightarrow> good m (NewOptional t)"
  by (auto simp: good_def NewOptional_def is_optional_def)

definition branch_ok :: "Mapper \<Rightarrow> MochiType \<Rightarrow> bool" where
  "branch_ok m t \<longleftrightarrow> good m t \<and> \<not> any_ref t"

lemma good_sum: "list_all (branch_ok m) ts \<Longrightarrow> good m (NewSum ts)"
proof -
  assume br: "list_all (branch_ok m) ts"
  then have ts: "list_all (good m) ts" and any: "\<not> list_ex any_ref ts"
    by (auto simp: list_all_iff list_ex_iff branch_ok_def)
  let ?rest = "filter (\<lambda>b. \<not> is_none b) ts"
  have rest: "list_all (good m) ?rest" using ts by (auto simp: list_all_iff)
  let ?inner = "if length ?rest = 1 then ?rest ! 0 else MType KindSum [] ?rest [] []"
  have "good m ?inner" if "?rest \<noteq> []"
  proof (cases "length ?rest = 1")
    case True
    then show ?thesis using rest that by (cases ?rest) auto
  next
    case False
    then have "2 \<le> length ?rest" using that by (cases ?rest; cases "tl ?rest") auto
    then show ?thesis using rest False any by (auto simp: good_def list_all_iff list_ex_iff)
  qed
  then show ?thesis using good_optional by (auto simp: NewSum_eq Let_def scalar_names_def)
qed

lemma mapName_ok: "dec_ok m (mapName m n)"
  unfolding mapName_def special_name_def
  by (auto simp: lookupScalar_def scalar_names_def intro!: ok_if split: option.splits if_splits)

lemma mapQualified_ok: "dec_ok m (mapQualified m qn)"
  by (auto simp: mapQualified_def Let_def mapName_ok split: option.split)

lemma map_literal_node_ok: "dec_ok m (map_literal_node m l)"
  by (auto simp: map_literal_node_def mapName_ok scalar_names_def)

lemma mapLiteral_loop_ok:
  "as \<noteq> [] \<or> good m kind \<Longrightarrow> MKind kind = KindUnknown \<or> good m kind \<Longrightarrow> dec_ok m (mapLiteral_loop m kind as)"
proof (induction m kind as rule: mapLiteral_loop.induct)
  case (2 m kind a as)
  show ?case
  proof (cases "literal_kind a")
    case (Some k)
    then have "good m k" by (auto simp: literal_kind_def scalar_names_def split: PyType.splits if_splits)
    then show ?thesis using 2 Some by (auto simp: Let_def)
  qed simp
qed auto

lemma mapLiteral_ok: "as \<noteq> [] \<Longrightarrow> dec_ok m (mapLiteral m as)"
  by (simp add: mapLiteral_def mapLiteral_loop_ok)

text \<open>The promise of a node, and of the elements of a bracketed list.\<close>

definition node_ok :: "Mapper \<Rightarrow> PyType \<Rightarrow> bool" where
  "node_ok m t \<longleftrightarrow> (\<forall>s. dec_ok m (mapNode m t s)) \<and> (\<forall>ps. t = PyTuple ps \<longrightarrow> list_ok m (map_each m ps))"

lemma map_each_ok: "\<forall>a \<in> set as. node_ok m a \<Longrightarrow> list_ok m (map_each m as)"
  by (induction as) (auto simp: map_each.simps node_ok_def intro!: ok_bind [of "good m"] ok_bind [of "list_all (good m)"])

lemma map_branches_ok: "\<forall>a \<in> set as. node_ok m a \<Longrightarrow> ok_with (list_all (branch_ok m)) m (map_branches m as)"
  by (induction as) (auto simp: map_branches.simps node_ok_def branch_ok_def any_ref_def
      intro!: ok_if ok_bind [of "good m"] ok_bind [of "list_all (branch_ok m)"])

lemma map_one_ok:
  "\<forall>a \<in> set as. node_ok m a \<Longrightarrow> (\<And>t. good m t \<Longrightarrow> good m (f t)) \<Longrightarrow> d \<noteq> [] \<Longrightarrow> dec_ok m (map_one m d f as)"
  by (cases "(m, d, f, as)" rule: map_one.cases)
    (auto simp: map_one.simps node_ok_def intro!: ok_bind [of "good m"])

lemma mapUnion_ok: "\<forall>a \<in> set as. node_ok m a \<Longrightarrow> dec_ok m (mapUnion m as)"
  by (cases as) (auto simp: mapUnion.simps simp del: list.set
      intro!: ok_bind [OF map_branches_ok] good_sum)

lemma mapCallable_ok: "\<forall>a \<in> set as. node_ok m a \<Longrightarrow> dec_ok m (mapCallable m as)"
  by (cases "(m, as)" rule: mapCallable.cases)
    (auto simp: mapCallable.simps node_ok_def count_def
      intro!: ok_bind [of "list_all (good m)"] ok_bind [of "good m"])

lemma mapSubscript_ok:
  assumes "\<forall>a \<in> set args. node_ok m a"
  shows "dec_ok m (mapSubscript m b args)"
proof -
  have node: "dec_ok m (mapNode m a s)" if "a \<in> set args" for a s
    using assms that by (auto simp: node_ok_def)
  note one = map_one_ok [OF assms] and binds = ok_bind [of "good m"] ok_bind [of "list_all (good m)"]
  show ?thesis
    unfolding mapSubscript.simps Let_def
    by (intro ok_steps binds one mapUnion_ok [OF assms] mapCallable_ok [OF assms] map_each_ok [OF assms]
        mapLiteral_ok node)
      (auto simp: good_optional count_def)
qed

lemma node_ok_all: "node_ok m t"
proof (induction t)
  case (PySubscript b args)
  then show ?case using mapSubscript_ok [of args m b] by (simp add: node_ok_def mapNode.simps)
next
  case (PyUnion bs)
  then show ?case using mapUnion_ok [of bs m] by (simp add: node_ok_def mapNode.simps)
next
  case (PyTuple ps)
  then show ?case using map_each_ok [of ps m] by (simp add: node_ok_def mapNode.simps)
qed (simp_all add: node_ok_def mapNode.simps mapName_ok mapQualified_ok map_literal_node_ok Let_def)

lemma PyError_text_not_Nil: "e \<noteq> OutOfFuel \<Longrightarrow> PyError_text ip src e \<noteq> []"
  by (cases e) auto

lemma Map_ok: "dec_ok m (Map ip m expr)"
  unfolding Map_def Let_def
proof (rule ok_if)
  show "dec_ok m (case ParsePyType (trim_space expr) of
      Inl e \<Rightarrow> skip_typing m (PyError_text ip (trim_space expr) e) | Inr t \<Rightarrow> mapNode m t (trim_space expr))"
    using node_ok_all [of m] ParsePyType_fuel [of "trim_space expr"] PyError_text_not_Nil
    by (auto simp: node_ok_def split: sum.split)
qed simp

text \<open>
  C1. The type table is closed.  Whatever Python type expression the mapper is given, it returns
  either a well-formed Mochi type built from the closed scalar table, the type variables and the
  classes in scope, with map keys that are strings or integers, so that rendering it never panics;
  or a skip report filed under the item being mapped, with one of six reasons and a detail text.
\<close>

theorem Map_closed:
  "case Map ip m expr of
     Inr t \<Rightarrow> mochi_wf t \<and> closed m t \<and> renderInto t \<noteq> None
   | Inl s \<Rightarrow> ItemPath s = MItemPath m \<and> Detail s \<noteq> [] \<and>
       Reason s \<in> {SkipUnsupportedTypingConstruct, SkipNoComplexType, SkipForwardRef, SkipOpenUnion,
         SkipParamSpec, SkipTypeVarTuple}"
  using Map_ok [of m ip expr] render_wf(1)
  by (auto simp: ok_with_def good_def skip_reasons_def split: sum.splits)

lemma Map_closed_witness:
  "\<exists>t. Map (\<lambda>_. True) \<lparr>TypeVars = {}, Classes = {''Foo''}, AllowPartial = False, MItemPath = ''x''\<rparr>
        ''dict[str, Optional[Foo]]'' = Inr t \<and> mochi_wf t"
proof -
  let ?m = "\<lparr>TypeVars = {}, Classes = {''Foo''}, AllowPartial = False, MItemPath = ''x''\<rparr>"
  have "isOK (Map (\<lambda>_. True) ?m ''dict[str, Optional[Foo]]'')" by code_simp
  then show ?thesis using Map_closed [where ip = "\<lambda>_. True" and m = ?m and expr = "''dict[str, Optional[Foo]]''"]
    by (auto simp: isOK_iff)
qed

subsection \<open>More classes in scope never change a mapping\<close>

text \<open>\<open>le_dec d d'\<close>: whatever the first decision maps, the second maps to the same type.\<close>

definition le_dec :: "SkipReport + 'a \<Rightarrow> SkipReport + 'a \<Rightarrow> bool" where
  "le_dec d d' \<longleftrightarrow> (\<forall>t. d = Inr t \<longrightarrow> d' = Inr t)"

lemma le_dec_refl [simp]: "le_dec d d"
  by (simp add: le_dec_def)

lemma le_dec_skip [simp]: "le_dec (skip m r d ov) d'"
  by (simp add: le_dec_def skip_def)

lemma le_dec_bind:
  "le_dec d d' \<Longrightarrow> (\<And>t. le_dec (f t) (g t)) \<Longrightarrow>
    le_dec (case d of Inl s \<Rightarrow> Inl s | Inr t \<Rightarrow> f t) (case d' of Inl s \<Rightarrow> Inl s | Inr t \<Rightarrow> g t)"
  by (cases d) (auto simp: le_dec_def)

lemma le_dec_if: "le_dec a c \<Longrightarrow> le_dec b d \<Longrightarrow> le_dec (if p then a else b) (if p then c else d)"
  by simp

lemma le_dec_list_case:
  "le_dec a b \<Longrightarrow> (\<And>x xs. args = x # xs \<Longrightarrow> le_dec (f x xs) (g x xs)) \<Longrightarrow>
    le_dec (case args of [] \<Rightarrow> a | x # xs \<Rightarrow> f x xs) (case args of [] \<Rightarrow> b | x # xs \<Rightarrow> g x xs)"
  by (cases args) simp_all

lemma le_dec_py_case:
  "(\<And>n. le_dec (f1 n) (g1 n)) \<Longrightarrow> (\<And>b n. le_dec (f2 b n) (g2 b n)) \<Longrightarrow> (\<And>b ps. le_dec (f3 b ps) (g3 b ps)) \<Longrightarrow>
    (\<And>ps. le_dec (f4 ps) (g4 ps)) \<Longrightarrow> (\<And>bs. le_dec (f5 bs) (g5 bs)) \<Longrightarrow> (\<And>l. le_dec (f6 l) (g6 l)) \<Longrightarrow>
    le_dec f7 g7 \<Longrightarrow> le_dec (case_PyType f1 f2 f3 f4 f5 f6 f7 t) (case_PyType g1 g2 g3 g4 g5 g6 g7 t)"
  by (cases t) simp_all

lemmas le_steps = le_dec_if le_dec_list_case le_dec_py_case le_dec_bind

definition more_classes :: "Mapper \<Rightarrow> Mapper \<Rightarrow> bool" where
  "more_classes m m' \<longleftrightarrow> Classes m \<subseteq> Classes m' \<and> m' = m\<lparr>Classes := Classes m'\<rparr>"

lemma more_classes_fields:
  "more_classes m m' \<Longrightarrow> Classes m \<subseteq> Classes m' \<and> TypeVars m' = TypeVars m \<and> AllowPartial m' = AllowPartial m"
  unfolding more_classes_def by (metis Mapper.ext_inject Mapper.surjective Mapper.update_convs(2))

lemma le_dec_if_left: "(p \<Longrightarrow> le_dec a d) \<Longrightarrow> (\<not> p \<Longrightarrow> le_dec b d) \<Longrightarrow> le_dec (if p then a else b) d"
  by simp

lemma special_name_ref: "le_dec (special_name m n) (Inr (NewRef n))"
  unfolding special_name_def by (intro le_dec_if_left) simp_all

lemma special_name_mono:
  "AllowPartial m' = AllowPartial m \<Longrightarrow> le_dec (special_name m n) (special_name m' n)"
  unfolding special_name_def by (intro le_dec_if_left le_dec_if) simp_all

lemma mapName_mono: "more_classes m m' \<Longrightarrow> le_dec (mapName m n) (mapName m' n)"
  using more_classes_fields [of m m'] special_name_ref special_name_mono [of m' m n]
  by (auto simp: mapName_def split: option.split)

lemma mapQualified_mono: "more_classes m m' \<Longrightarrow> le_dec (mapQualified m n) (mapQualified m' n)"
proof (cases "strip_module module_prefixes n")
  case None
  assume "more_classes m m'"
  then show ?thesis using more_classes_fields [of m m'] None by (auto simp: mapQualified_def Let_def)
qed (simp add: mapQualified_def mapName_mono)

lemma map_literal_node_mono: "more_classes m m' \<Longrightarrow> le_dec (map_literal_node m l) (map_literal_node m' l)"
  using mapName_mono [of m m'] by (auto simp: map_literal_node_def intro!: le_dec_if)

lemma mapLiteral_mono: "le_dec (mapLiteral m as) (mapLiteral m' as)"
proof -
  have "le_dec (mapLiteral_loop m kind as) (mapLiteral_loop m' kind as)" for kind
    by (induction as arbitrary: kind) (auto simp: Let_def split: option.split)
  then show ?thesis by (simp add: mapLiteral_def)
qed

definition node_mono :: "Mapper \<Rightarrow> Mapper \<Rightarrow> PyType \<Rightarrow> bool" where
  "node_mono m m' t \<longleftrightarrow> (\<forall>s. le_dec (mapNode m t s) (mapNode m' t s))
     \<and> (\<forall>ps. t = PyTuple ps \<longrightarrow> le_dec (map_each m ps) (map_each m' ps))"

lemma loops_mono:
  assumes "\<forall>a \<in> set as. node_mono m m' a"
  shows "le_dec (map_each m as) (map_each m' as)" "le_dec (map_branches m as) (map_branches m' as)"
  using assms
  by (induction as) (auto simp: map_each.simps map_branches.simps node_mono_def intro!: le_dec_bind le_dec_if)

lemma map_one_mono:
  "\<forall>a \<in> set as. node_mono m m' a \<Longrightarrow> le_dec (map_one m d f as) (map_one m' d f as)"
  by (cases "(m, d, f, as)" rule: map_one.cases)
    (auto simp: map_one.simps node_mono_def intro!: le_dec_bind)

lemma mapUnion_mono: "\<forall>a \<in> set as. node_mono m m' a \<Longrightarrow> le_dec (mapUnion m as) (mapUnion m' as)"
  by (cases as) (auto simp: mapUnion.simps simp del: list.set intro!: le_dec_bind loops_mono(2))

lemma mapCallable_mono: "\<forall>a \<in> set as. node_mono m m' a \<Longrightarrow> le_dec (mapCallable m as) (mapCallable m' as)"
  by (cases "(m, as)" rule: mapCallable.cases)
    (auto simp: mapCallable.simps node_mono_def intro!: le_dec_bind)

lemma le_dec_if_new: "le_dec a a' \<Longrightarrow> (p \<Longrightarrow> q) \<Longrightarrow> le_dec (if p then a else skip m r d ov) (if q then a' else e)"
  by simp

lemma mapSubscript_mono:
  assumes "\<forall>a \<in> set args. node_mono m m' a" "more_classes m m'"
  shows "le_dec (mapSubscript m b args) (mapSubscript m' b args)"
proof -
  have node: "le_dec (mapNode m a s) (mapNode m' a s)" if "a \<in> set args" for a s
    using assms that by (auto simp: node_mono_def)
  have cls: "strip_base b \<in> Classes m \<Longrightarrow> strip_base b \<in> Classes m'"
    using more_classes_fields [OF assms(2)] by auto
  show ?thesis
    unfolding mapSubscript.simps [of m] mapSubscript.simps [of m'] Let_def
    by (intro le_dec_if le_dec_list_case le_dec_py_case le_dec_bind map_one_mono [OF assms(1)]
        mapUnion_mono [OF assms(1)] mapCallable_mono [OF assms(1)] loops_mono(1) [OF assms(1)]
        mapLiteral_mono node le_dec_if_new cls)
      auto
qed

lemma node_mono_all: "more_classes m m' \<Longrightarrow> node_mono m m' t"
proof (induction t)
  case (PySubscript b args)
  then show ?case using mapSubscript_mono [of args m m' b] by (simp add: node_mono_def mapNode.simps)
next
  case (PyUnion bs)
  then show ?case using mapUnion_mono [of bs m m'] by (simp add: node_mono_def mapNode.simps)
next
  case (PyTuple ps)
  then show ?case using loops_mono(1) [of ps m m'] by (simp add: node_mono_def mapNode.simps)
qed (simp_all add: node_mono_def mapNode.simps mapName_mono mapQualified_mono map_literal_node_mono Let_def)

text \<open>
  C14. Bringing more classes into scope never changes or loses a mapping: an expression that maps
  to a type keeps mapping to that very type.
\<close>

theorem Map_mono_classes:
  assumes "Map ip m expr = Inr t" "Classes m \<subseteq> C"
  shows "Map ip (m\<lparr>Classes := C\<rparr>) expr = Inr t"
proof -
  have mc: "more_classes m (m\<lparr>Classes := C\<rparr>)" using assms(2) by (simp add: more_classes_def)
  have "le_dec (Map ip m expr) (Map ip (m\<lparr>Classes := C\<rparr>) expr)"
    using node_mono_all [OF mc] by (auto simp: Map_def Let_def node_mono_def split: sum.split)
  then show ?thesis using assms(1) by (simp add: le_dec_def)
qed

lemma Map_mono_classes_witness:
  "Map (\<lambda>_. True) \<lparr>TypeVars = {}, Classes = {''Bar''}, AllowPartial = False, MItemPath = ''x''\<rparr> ''list[int]''
    = Inr (NewList (NewScalar ''int''))"
proof -
  have "Map (\<lambda>_. True) \<lparr>TypeVars = {}, Classes = {}, AllowPartial = False, MItemPath = ''x''\<rparr> ''list[int]''
    = Inr (NewList (NewScalar ''int''))" by code_simp
  from Map_mono_classes [OF this, of "{''Bar''}"] show ?thesis by simp
qed

text \<open>
  A user-defined generic keeps its arguments in the mapped type, but the rendered text drops them.
\<close>

lemma generic_ref_renders_bare:
  "map_sum (\<lambda>e. ()) (\<lambda>t. (length (Params t), Render t))
     (Map (\<lambda>_. True) \<lparr>TypeVars = {}, Classes = {''Box''}, AllowPartial = False, MItemPath = ''x''\<rparr> ''Box[int]'')
   = Inr (1, ''Box'')"
  by code_simp

end
