(* ===== verification/Stubs_Decl.thy ===== *)
theory Stubs_Decl
  imports Go_Strings
begin

section \<open>Declarations of a stub file (the types of stubs/pyi.go)\<close>

text \<open>
  The surface of a .pyi module that the type mapper and the wrapper generator read; expressions are
  kept as raw text, an omitted one is the empty string.
\<close>

datatype ParamKind =
  ParamPositional | ParamPositionalOnly | ParamKeywordOnly | ParamVarArgs | ParamKwArgs

record ParamDecl =
  PName :: bytes
  PType :: bytes
  PDefault :: bytes
  PKind :: ParamKind

record FuncDecl =
  FnName :: bytes
  FnParams :: "ParamDecl list"
  ReturnType :: bytes
  FnDecorators :: "bytes list"
  IsAsync :: bool

record FieldDecl =
  FdName :: bytes
  FdType :: bytes
  FdDefault :: bytes

record ClassDecl =
  CdName :: bytes
  Bases :: "bytes list"
  CdMethods :: "FuncDecl list"
  CdFields :: "FieldDecl list"
  IsTypedDict :: bool
  IsProtocol :: bool
  IsDataclass :: bool
  CdDecorators :: "bytes list"

record ImportedName =
  ImpName :: bytes
  Alias :: bytes

record ImportDecl =
  ImpModule :: bytes
  Names :: "ImportedName list"

record AliasDecl =
  AlName :: bytes
  AlExpr :: bytes

record ConstantDecl =
  CoName :: bytes
  CoType :: bytes
  CoDefault :: bytes

record ModuleSurface =
  Imports :: "ImportDecl list"
  Classes :: "ClassDecl list"
  Functions :: "FuncDecl list"
  Aliases :: "AliasDecl list"
  Constants :: "ConstantDecl list"

end
