(* ===== verification/Typemap_Class.thy ===== *)
theory Typemap_Class
  imports Typemap_Mapper Stubs_Decl
begin

section \<open>Mapping classes and functions (typemap/class.go)\<close>

text \<open>
  The operations below call the mapper's \<open>Map\<close> through the parameter \<open>mp\<close>; its contract is the
  locale \<open>type_table\<close>, which the mapper of the previous theory meets.  The item path that the code
  saves, sets and restores around a call is set on the argument here.
\<close>

type_synonym table = "Mapper \<Rightarrow> bytes \<Rightarrow> Decision"

record MappedClass =
  CType :: MochiType
  CSkipped :: "SkipReport list"

definition dunder :: "bytes \<Rightarrow> bool" where
  "dunder n \<longleftrightarrow> has_prefix n ''__'' \<and> has_suffix n ''__''"

definition mapField :: "table \<Rightarrow> Mapper \<Rightarrow> bytes \<Rightarrow> FieldDecl \<Rightarrow> SkipReport + MochiField" where
  "mapField mp m className f =
    (case mp (m\<lparr>MItemPath := className @ ''.'' @ FdName f\<rparr>) (FdType f) of
       Inl s \<Rightarrow> Inl s
     | Inr t \<Rightarrow> Inr (MField (FdName f) t))"

text \<open>The loop over the parameters of a method.\<close>

fun method_params :: "table \<Rightarrow> Mapper \<Rightarrow> bytes \<Rightarrow> ParamDecl list \<Rightarrow> SkipReport + MochiType list" where
  "method_params mp m fname [] = Inr []"
| "method_params mp m fname (p # ps) =
    (if PName p = ''self'' \<or> PName p = ''cls'' then method_params mp m fname ps
     else if PKind p = ParamVarArgs \<or> PKind p = ParamKwArgs then
       skip m SkipParamSpec (''*args / **kwargs in interface method '' @ fname) []
     else if PType p = [] then skip_typing m (''parameter '' @ PName p @ '' has no annotation'')
     else case mp m (PType p) of
       Inl s \<Rightarrow> Inl s
     | Inr t \<Rightarrow> (case method_params mp m fname ps of Inl s \<Rightarrow> Inl s | Inr ts \<Rightarrow> Inr (t # ts)))"

definition map_return :: "table \<Rightarrow> Mapper \<Rightarrow> bytes \<Rightarrow> Decision" where
  "map_return mp m r = (if r = [] then Inr (NewScalar ''None'') else mp m r)"

definition mapMethod :: "table \<Rightarrow> Mapper \<Rightarrow> bytes \<Rightarrow> FuncDecl \<Rightarrow> SkipReport + MochiMethod" where
  "mapMethod mp m className fn =
    (let m = m\<lparr>MItemPath := className @ ''.'' @ FnName fn\<rparr> in
     if dunder (FnName fn) then skip m SkipDunder ''dunder methods are not exposed through the bridge'' []
     else case method_params mp m (FnName fn) (FnParams fn) of
       Inl s \<Rightarrow> Inl s
     | Inr ts \<Rightarrow>
         (case map_return mp m (ReturnType fn) of
            Inl s \<Rightarrow> Inl s
          | Inr r \<Rightarrow> Inr (MMethod (FnName fn) ts r (IsAsync fn))))"

text \<open>The member loops: what maps is kept, what does not is filed among the skipped.\<close>

fun split_members :: "('a \<Rightarrow> SkipReport + 'b) \<Rightarrow> 'b list \<Rightarrow> SkipReport list \<Rightarrow> 'a list \<Rightarrow> 'b list \<times> SkipReport list" where
  "split_members f kept skipped [] = (kept, skipped)"
| "split_members f kept skipped (x # xs) =
    (case f x of
       Inl s \<Rightarrow> split_members f kept (skipped @ [s]) xs
     | Inr y \<Rightarrow> split_members f (kept @ [y]) skipped xs)"

definition mapTypedDict :: "table \<Rightarrow> Mapper \<Rightarrow> ClassDecl \<Rightarrow> SkipReport + MappedClass" where
  "mapTypedDict mp m cd =
    (case split_members (mapField mp m (CdName cd)) [] [] (CdFields cd) of
       (fs, skipped) \<Rightarrow> Inr \<lparr>CType = MType KindRecord (CdName cd) [] fs [], CSkipped = skipped\<rparr>)"

fun classDecoratedAsFrozen :: "bytes list \<Rightarrow> bool" where
  "classDecoratedAsFrozen [] = False"
| "classDecoratedAsFrozen (d # ds) =
    (let d = trim_space d in
     if \<not> contains d ''dataclass'' then classDecoratedAsFrozen ds
     else case index_of d ''('' of
       None \<Rightarrow> classDecoratedAsFrozen ds
     | Some paren \<Rightarrow>
         (let args = trim_suffix (drop (paren + 1) d) '')'' in
          if contains (filter (\<lambda>c. c \<noteq> CHR '' '') args) ''frozen=True'' then True
          else classDecoratedAsFrozen ds))"

definition mapDataclass :: "table \<Rightarrow> Mapper \<Rightarrow> ClassDecl \<Rightarrow> SkipReport + MappedClass" where
  "mapDataclass mp m cd =
    (if \<not> classDecoratedAsFrozen (CdDecorators cd) then
       Inl \<lparr>ItemPath = CdName cd, Reason = SkipUnsupportedTypingConstruct,
            Detail = ''mutable @dataclass: Mochi records are immutable; declare @dataclass(frozen=True) or provide a hand override'',
            Override = ''extern python type '' @ CdName cd @ '' { ... }''\<rparr>
     else case split_members (mapField mp m (CdName cd)) [] [] (CdFields cd) of
       (fs, skipped) \<Rightarrow> Inr \<lparr>CType = MType KindRecord (CdName cd) [] fs [], CSkipped = skipped\<rparr>)"

definition mapProtocol :: "table \<Rightarrow> Mapper \<Rightarrow> ClassDecl \<Rightarrow> SkipReport + MappedClass" where
  "mapProtocol mp m cd =
    (case split_members (mapMethod mp m (CdName cd)) [] [] (CdMethods cd) of
       (ms, skipped) \<Rightarrow> Inr \<lparr>CType = MType KindInterface (CdName cd) [] [] ms, CSkipped = skipped\<rparr>)"

definition mapClass :: "table \<Rightarrow> Mapper \<Rightarrow> ClassDecl \<Rightarrow> SkipReport + MappedClass" where
  "mapClass mp m cd =
    (let m = m\<lparr>MItemPath := CdName cd\<rparr> in
     if IsProtocol cd then mapProtocol mp m cd
     else if IsTypedDict cd then mapTypedDict mp m cd
     else if IsDataclass cd then mapDataclass mp m cd
     else Inl \<lparr>ItemPath = CdName cd, Reason = SkipUnsupportedTypingConstruct,
            Detail = ''class '' @ CdName cd @ '' is neither Protocol, TypedDict, nor @dataclass; supply a hand-written extern'',
            Override = []\<rparr>)"

fun function_params :: "table \<Rightarrow> Mapper \<Rightarrow> bytes \<Rightarrow> ParamDecl list \<Rightarrow> SkipReport + MochiType list" where
  "function_params mp m fname [] = Inr []"
| "function_params mp m fname (p # ps) =
    (if PKind p = ParamVarArgs \<or> PKind p = ParamKwArgs then
       skip m SkipParamSpec (''*args / **kwargs in '' @ fname) []
     else if PType p = [] then
       skip_typing m (''parameter '' @ PName p @ '' has no annotation in '' @ fname)
     else case mp m (PType p) of
       Inl s \<Rightarrow> Inl s
     | Inr t \<Rightarrow> (case function_params mp m fname ps of Inl s \<Rightarrow> Inl s | Inr ts \<Rightarrow> Inr (t # ts)))"

definition mapFunction :: "table \<Rightarrow> Mapper \<Rightarrow> FuncDecl \<Rightarrow> Decision" where
  "mapFunction mp m fn =
    (let m = m\<lparr>MItemPath := FnName fn\<rparr> in
     case function_params mp m (FnName fn) (FnParams fn) of
       Inl s \<Rightarrow> Inl s
     | Inr params \<Rightarrow>
         (case map_return mp m (ReturnType fn) of
            Inl s \<Rightarrow> Inl s
          | Inr ret \<Rightarrow>
              Inr (if IsAsync fn then MType KindFun [] (params @ [NewAsync ret]) [] [] else NewFun ret params)))"

definition MapClass :: "(int \<Rightarrow> bool) \<Rightarrow> Mapper \<Rightarrow> ClassDecl \<Rightarrow> SkipReport + MappedClass" where
  "MapClass ip m cd = mapClass (Map ip) m cd"

definition MapFunction :: "(int \<Rightarrow> bool) \<Rightarrow> Mapper \<Rightarrow> FuncDecl \<Rightarrow> Decision" where
  "MapFunction ip m fn = mapFunction (Map ip) m fn"

subsection \<open>The contract of the type table\<close>

lemma split_members_eq:
  "split_members f kept skipped xs =
    (kept @ concat (map (\<lambda>x. case f x of Inl _ \<Rightarrow> [] | Inr y \<Rightarrow> [y]) xs),
     skipped @ concat (map (\<lambda>x. case f x of Inl s \<Rightarrow> [s] | Inr _ \<Rightarrow> []) xs))"
  by (induction f kept skipped xs rule: split_members.induct) (auto split: sum.split)

text \<open>
  \<open>filed K S xs ys zs\<close>: going through the members \<open>xs\<close> in order, each is either kept as the next of \<open>ys\<close>,
  related to it by \<open>K\<close>, or skipped as the next of \<open>zs\<close>, related to it by \<open>S\<close>; nothing else is in either list.
\<close>

inductive filed :: "('a \<Rightarrow> 'b \<Rightarrow> bool) \<Rightarrow> ('a \<Rightarrow> SkipReport \<Rightarrow> bool) \<Rightarrow> 'a list \<Rightarrow> 'b list \<Rightarrow> SkipReport list \<Rightarrow> bool"
  for K S where
  filed_none: "filed K S [] [] []"
| filed_kept: "K x y \<Longrightarrow> filed K S xs ys zs \<Longrightarrow> filed K S (x # xs) (y # ys) zs"
| filed_skipped: "S x z \<Longrightarrow> filed K S xs ys zs \<Longrightarrow> filed K S (x # xs) ys (z # zs)"

inductive_cases filed_ConsE: "filed K S (x # xs) ys zs"

lemma filed_length: "filed K S xs ys zs \<Longrightarrow> length ys + length zs = length xs"
  by (induction rule: filed.induct) simp_all

lemma filed_kept_all: "filed K S xs ys zs \<Longrightarrow> \<forall>y \<in> set ys. \<exists>x \<in> set xs. K x y"
  by (induction rule: filed.induct) auto

lemma split_members_filed:
  assumes "split_members f [] [] xs = (ys, zs)"
    and K: "\<And>x y. f x = Inr y \<Longrightarrow> K x y" and S: "\<And>x z. f x = Inl z \<Longrightarrow> S x z"
  shows "filed K S xs ys zs"
proof -
  have "filed K S xs (concat (map (\<lambda>x. case f x of Inl _ \<Rightarrow> [] | Inr y \<Rightarrow> [y]) xs))
      (concat (map (\<lambda>x. case f x of Inl s \<Rightarrow> [s] | Inr _ \<Rightarrow> []) xs))"
    by (induction xs) (auto split: sum.split intro: filed.intros K S)
  then show ?thesis using assms(1) by (simp add: split_members_eq)
qed

text \<open>When a field or a method maps, and to what, over the table.\<close>

definition field_maps :: "table \<Rightarrow> Mapper \<Rightarrow> bytes \<Rightarrow> FieldDecl \<Rightarrow> MochiField \<Rightarrow> bool" where
  "field_maps mp m c f fd \<longleftrightarrow>
    (\<exists>t. mp (m\<lparr>MItemPath := c @ ''.'' @ FdName f\<rparr>) (FdType f) = Inr t \<and> fd = MField (FdName f) t)"

definition method_maps :: "table \<Rightarrow> Mapper \<Rightarrow> bytes \<Rightarrow> FuncDecl \<Rightarrow> MochiMethod \<Rightarrow> bool" where
  "method_maps mp m c f md \<longleftrightarrow>
    \<not> (has_prefix (FnName f) ''__'' \<and> has_suffix (FnName f) ''__'')
    \<and> (\<exists>ts r. list_all2 (\<lambda>p t. PKind p \<noteq> ParamVarArgs \<and> PKind p \<noteq> ParamKwArgs \<and> PType p \<noteq> []
            \<and> mp (m\<lparr>MItemPath := c @ ''.'' @ FnName f\<rparr>) (PType p) = Inr t)
          (filter (\<lambda>p. PName p \<noteq> ''self'' \<and> PName p \<noteq> ''cls'') (FnParams f)) ts
        \<and> (if ReturnType f = [] then r = NewScalar ''None''
           else mp (m\<lparr>MItemPath := c @ ''.'' @ FnName f\<rparr>) (ReturnType f) = Inr r)
        \<and> md = MMethod (FnName f) ts r (IsAsync f))"

definition fields_filed :: "table \<Rightarrow> Mapper \<Rightarrow> bytes \<Rightarrow> FieldDecl list \<Rightarrow> MochiField list \<Rightarrow> SkipReport list \<Rightarrow> bool" where
  "fields_filed mp m c = filed (field_maps mp m c) (\<lambda>f s. ItemPath s = c @ ''.'' @ FdName f \<and> (\<nexists>fd. field_maps mp m c f fd))"

definition methods_filed :: "table \<Rightarrow> Mapper \<Rightarrow> bytes \<Rightarrow> FuncDecl list \<Rightarrow> MochiMethod list \<Rightarrow> SkipReport list \<Rightarrow> bool" where
  "methods_filed mp m c = filed (method_maps mp m c) (\<lambda>f s. ItemPath s = c @ ''.'' @ FnName f \<and> (\<nexists>md. method_maps mp m c f md))"

locale type_table =
  fixes mp :: "Mapper \<Rightarrow> bytes \<Rightarrow> Decision"
  assumes table_type: "mp m e = Inr t \<Longrightarrow> mochi_wf t"
    and table_skip: "mp m e = Inl s \<Longrightarrow> ItemPath s = MItemPath m"
begin

lemma return_wf: "map_return mp m r = Inr t \<Longrightarrow> mochi_wf t"
  using table_type by (auto simp: map_return_def NewScalar_def split: if_splits)

lemma method_params_wf: "method_params mp m n ps = Inr ts \<Longrightarrow> list_all mochi_wf ts"
  by (induction ps arbitrary: ts) (auto split: if_splits sum.splits simp: skip_def dest: table_type)

lemma method_params_skip: "method_params mp m n ps = Inl s \<Longrightarrow> ItemPath s = MItemPath m"
  by (induction ps) (auto split: if_splits sum.splits simp: skip_def dest: table_skip)

lemma method_params_iff:
  "method_params mp m n ps = Inr ts \<longleftrightarrow>
    list_all2 (\<lambda>p t. PKind p \<noteq> ParamVarArgs \<and> PKind p \<noteq> ParamKwArgs \<and> PType p \<noteq> [] \<and> mp m (PType p) = Inr t)
      (filter (\<lambda>p. PName p \<noteq> ''self'' \<and> PName p \<noteq> ''cls'') ps) ts"
proof (induction ps arbitrary: ts)
  case (Cons p ps)
  show ?case by (auto simp: skip_def list_all2_Cons1 Cons.IH [symmetric] split: sum.splits)
qed auto

lemma mapField_iff: "mapField mp m c f = Inr fd \<longleftrightarrow> field_maps mp m c f fd"
  by (auto simp: mapField_def field_maps_def split: sum.splits)

lemma mapField_skip: "mapField mp m c f = Inl s \<Longrightarrow> ItemPath s = c @ ''.'' @ FdName f \<and> (\<nexists>fd. field_maps mp m c f fd)"
  using table_skip [of "m\<lparr>MItemPath := c @ ''.'' @ FdName f\<rparr>"] by (auto simp: mapField_def field_maps_def split: sum.splits)

lemma mapMethod_iff: "mapMethod mp m c f = Inr md \<longleftrightarrow> method_maps mp m c f md"
proof -
  let ?m = "m\<lparr>MItemPath := c @ ''.'' @ FnName f\<rparr>"
  show ?thesis
    unfolding mapMethod_def method_maps_def method_params_iff [of ?m "FnName f" "FnParams f", symmetric] map_return_def dunder_def
    by (auto simp: Let_def skip_def split: sum.splits if_splits)
qed

lemma mapMethod_skip: "mapMethod mp m c f = Inl s \<Longrightarrow> ItemPath s = c @ ''.'' @ FnName f \<and> (\<nexists>md. method_maps mp m c f md)"
proof (intro conjI)
  let ?m = "m\<lparr>MItemPath := c @ ''.'' @ FnName f\<rparr>"
  assume s: "mapMethod mp m c f = Inl s"
  have "ItemPath s = c @ ''.'' @ FnName f" if "map_return mp ?m (ReturnType f) = Inl s" for s
    using that table_skip [of ?m] by (auto simp: map_return_def split: if_splits)
  then show "ItemPath s = c @ ''.'' @ FnName f"
    using s method_params_skip [of ?m] by (auto simp: mapMethod_def Let_def skip_def split: sum.splits if_splits)
  show "\<nexists>md. method_maps mp m c f md" using s by (simp flip: mapMethod_iff)
qed

lemma field_maps_wf: "field_maps mp m c f fd \<Longrightarrow> field_wf fd"
  using table_type by (auto simp: field_maps_def)

lemma method_maps_wf: "method_maps mp m c f md \<Longrightarrow> method_wf md"
  using method_params_wf return_wf unfolding mapMethod_iff [symmetric]
  by (auto simp: mapMethod_def Let_def skip_def split: sum.splits if_splits)

lemma fields_ok:
  assumes "split_members (mapField mp m c) [] [] fds = (fs, skipped)"
  shows "list_all field_wf fs \<and> fields_filed mp m c fds fs skipped"
proof -
  have f: "fields_filed mp m c fds fs skipped"
    unfolding fields_filed_def using assms by (rule split_members_filed) (auto simp: mapField_iff dest: mapField_skip)
  from filed_kept_all [OF f [unfolded fields_filed_def]] show ?thesis using f by (auto simp: list_all_iff dest: field_maps_wf)
qed

lemma methods_ok:
  assumes "split_members (mapMethod mp m c) [] [] fns = (ms, skipped)"
  shows "list_all method_wf ms \<and> methods_filed mp m c fns ms skipped"
proof -
  have f: "methods_filed mp m c fns ms skipped"
    unfolding methods_filed_def using assms by (rule split_members_filed) (auto simp: mapMethod_iff dest: mapMethod_skip)
  from filed_kept_all [OF f [unfolded methods_filed_def]] show ?thesis using f by (auto simp: list_all_iff dest: method_maps_wf)
qed

lemma mapClass_skip: "mapClass mp m cd = Inl s \<Longrightarrow> ItemPath s = CdName cd"
  by (auto simp: mapClass_def mapProtocol_def mapTypedDict_def mapDataclass_def Let_def
      split: if_splits prod.splits)

lemma mapClass_type:
  "mapClass mp m cd = Inr c \<Longrightarrow> mochi_wf (CType c) \<and> MKind (CType c) \<in> {KindRecord, KindInterface}"
  by (auto simp: mapClass_def mapProtocol_def mapTypedDict_def mapDataclass_def Let_def
      split: if_splits prod.splits dest: fields_ok methods_ok)

lemma function_params_wf: "function_params mp m n ps = Inr ts \<Longrightarrow> list_all mochi_wf ts"
  by (induction ps arbitrary: ts) (auto split: if_splits sum.splits simp: skip_def dest: table_type)

lemma mapFunction_type: "mapFunction mp m fn = Inr t \<Longrightarrow> mochi_wf t \<and> MKind t = KindFun"
  by (auto simp: mapFunction_def Let_def NewFun_def NewAsync_def split: if_splits sum.splits
      dest: function_params_wf return_wf)

lemma function_params_skip: "function_params mp m n ps = Inl s \<Longrightarrow> ItemPath s = MItemPath m"
  by (induction ps) (auto split: if_splits sum.splits simp: skip_def dest: table_skip)

lemma map_return_skip: "map_return mp m r = Inl s \<Longrightarrow> ItemPath s = MItemPath m"
  by (auto simp: map_return_def split: if_splits dest: table_skip)

lemma mapFunction_skip: "mapFunction mp m fn = Inl s \<Longrightarrow> ItemPath s = FnName fn"
  by (auto simp: mapFunction_def Let_def split: sum.splits dest: function_params_skip map_return_skip)

end

interpretation closed_table: type_table "Map ip" for ip
proof
  fix m e t assume "Map ip m e = Inr t"
  then show "mochi_wf t" using Map_ok [of m ip e] by (simp add: ok_with_def good_def)
next
  fix m e s assume "Map ip m e = Inl s"
  then show "ItemPath s = MItemPath m" using Map_ok [of m ip e] by (simp add: ok_with_def)
qed

text \<open>
  C15. What a mapped class is: a protocol becomes an interface, a typed dictionary or a frozen
  dataclass a record, with the class name; the result is well-formed, so it renders.  The fields of a record class, and
  the methods of a protocol, are taken one by one in order: one that maps is the next field or
  method of the type, with its name, its mapped types and, for a method, whether it is async; one that does not map is the next skipped one,
  under "Class.member"; nothing else is in the type or among the skipped.  A method maps when it is no dunder and its parameters besides self and
  cls, and its result, map.  A refused class is filed under its name, and a mutable dataclass is always
  refused.  The methods of a record and the fields of a protocol are not looked at.
\<close>

theorem MapClass_members:
  "case MapClass ip m cd of
     Inl s \<Rightarrow> ItemPath s = CdName cd \<and> \<not> IsProtocol cd \<and> \<not> IsTypedDict cd
       \<and> (IsDataclass cd \<longrightarrow> \<not> classDecoratedAsFrozen (CdDecorators cd))
   | Inr c \<Rightarrow>
       mochi_wf (CType c) \<and> renderInto (CType c) \<noteq> None \<and> MName (CType c) = CdName cd
       \<and> (if IsProtocol cd then
            MKind (CType c) = KindInterface \<and> Fields (CType c) = []
            \<and> methods_filed (Map ip) (m\<lparr>MItemPath := CdName cd\<rparr>) (CdName cd) (CdMethods cd) (Methods (CType c)) (CSkipped c)
          else
            MKind (CType c) = KindRecord \<and> Methods (CType c) = []
            \<and> (IsTypedDict cd \<or> classDecoratedAsFrozen (CdDecorators cd))
            \<and> fields_filed (Map ip) (m\<lparr>MItemPath := CdName cd\<rparr>) (CdName cd) (CdFields cd) (Fields (CType c)) (CSkipped c))"
proof -
  let ?m = "m\<lparr>MItemPath := CdName cd\<rparr>"
  obtain fs fskip where f: "split_members (mapField (Map ip) ?m (CdName cd)) [] [] (CdFields cd) = (fs, fskip)"
    by fastforce
  obtain ms mskip where d: "split_members (mapMethod (Map ip) ?m (CdName cd)) [] [] (CdMethods cd) = (ms, mskip)"
    by fastforce
  note fok = closed_table.fields_ok [OF f] and mok = closed_table.methods_ok [OF d]
  have rec: "mochi_wf (MType KindRecord (CdName cd) [] fs [])" using fok by simp
  have int: "mochi_wf (MType KindInterface (CdName cd) [] [] ms)" using mok by simp
  consider "IsProtocol cd" | "\<not> IsProtocol cd" "IsTypedDict cd"
    | "\<not> IsProtocol cd" "\<not> IsTypedDict cd" "IsDataclass cd"
    | "\<not> IsProtocol cd" "\<not> IsTypedDict cd" "\<not> IsDataclass cd" by blast
  then show ?thesis
  proof cases
    case 1
    then show ?thesis using d mok int render_wf(1) [OF int]
      unfolding MapClass_def mapClass_def mapProtocol_def Let_def by (simp del: renderInto.simps mochi_wf.simps)
  next
    case 2
    then show ?thesis using f fok rec render_wf(1) [OF rec]
      unfolding MapClass_def mapClass_def mapTypedDict_def Let_def by (simp del: renderInto.simps mochi_wf.simps)
  next
    case 3
    then show ?thesis using f fok rec render_wf(1) [OF rec]
      unfolding MapClass_def mapClass_def mapDataclass_def Let_def by (simp del: renderInto.simps mochi_wf.simps)
  next
    case 4
    then show ?thesis by (simp add: MapClass_def mapClass_def)
  qed
qed

definition point_class :: ClassDecl where
  "point_class =
    \<lparr>CdName = ''P'', Bases = [''TypedDict''], CdMethods = [],
     CdFields = [\<lparr>FdName = ''x'', FdType = ''int'', FdDefault = []\<rparr>,
                 \<lparr>FdName = ''y'', FdType = ''Any'', FdDefault = []\<rparr>],
     IsTypedDict = True, IsProtocol = False, IsDataclass = False, CdDecorators = []\<rparr>"

definition no_scope :: Mapper where
  "no_scope = \<lparr>TypeVars = {}, Classes = {}, AllowPartial = False, MItemPath = []\<rparr>"

lemma MapClass_members_witness:
  "\<exists>c. MapClass (\<lambda>_. True) no_scope point_class = Inr c \<and> mochi_wf (CType c)
     \<and> length (Fields (CType c)) = 1 \<and> length (CSkipped c) = 1"
proof -
  have "map_sum (\<lambda>e. ()) (\<lambda>c. length (Fields (CType c))) (MapClass (\<lambda>_. True) no_scope point_class) = Inr 1"
    by code_simp
  then obtain c where c: "MapClass (\<lambda>_. True) no_scope point_class = Inr c" "length (Fields (CType c)) = 1"
    by (cases "MapClass (\<lambda>_. True) no_scope point_class") auto
  have "\<not> IsProtocol point_class" "length (CdFields point_class) = 2" by (simp_all add: point_class_def)
  have "length (Fields (CType c)) + length (CSkipped c) = length (CdFields point_class)"
    using MapClass_members [where ip = "\<lambda>_. True" and m = no_scope and cd = point_class] c \<open>\<not> IsProtocol point_class\<close>
    by (auto simp: fields_filed_def dest: filed_length)
  with MapClass_members [where ip = "\<lambda>_. True" and m = no_scope and cd = point_class] c \<open>length (CdFields point_class) = 2\<close>
  show ?thesis by auto
qed

lemma function_params_facts:
  "function_params (Map ip) m n ps = Inr ts \<Longrightarrow>
    list_all mochi_wf ts \<and> list_all2 (\<lambda>p t. Map ip m (PType p) = Inr t \<and> PType p \<noteq> []
      \<and> PKind p \<noteq> ParamVarArgs \<and> PKind p \<noteq> ParamKwArgs) ps ts"
  by (induction ps arbitrary: ts)
    (auto split: if_splits sum.splits simp: skip_def dest: closed_table.table_type)

text \<open>
  C16. A mapped function has the function kind, one parameter per declared parameter in order, each
  the mapping of its annotation, and the mapping of the return annotation (None when omitted) as
  result, wrapped as asynchronous exactly for an async function; a function with an unannotated or
  a variadic parameter is never mapped.
\<close>

theorem MapFunction_signature:
  assumes "MapFunction ip m fn = Inr t"
  shows "MKind t = KindFun \<and> mochi_wf t \<and> renderInto t \<noteq> None
    \<and> (\<exists>params ret. FunParams t = Some params
        \<and> list_all2 (\<lambda>p u. Map ip (m\<lparr>MItemPath := FnName fn\<rparr>) (PType p) = Inr u \<and> PType p \<noteq> []
            \<and> PKind p \<noteq> ParamVarArgs \<and> PKind p \<noteq> ParamKwArgs) (FnParams fn) params
        \<and> (if ReturnType fn = [] then ret = NewScalar ''None''
           else Map ip (m\<lparr>MItemPath := FnName fn\<rparr>) (ReturnType fn) = Inr ret)
        \<and> FunReturn t = Some (if IsAsync fn then NewAsync ret else ret))"
proof -
  let ?m = "m\<lparr>MItemPath := FnName fn\<rparr>"
  obtain params ret where p: "function_params (Map ip) ?m (FnName fn) (FnParams fn) = Inr params"
    and r: "map_return (Map ip) ?m (ReturnType fn) = Inr ret"
    and t: "t = (if IsAsync fn then MType KindFun [] (params @ [NewAsync ret]) [] [] else NewFun ret params)"
    using assms by (auto simp: MapFunction_def mapFunction_def Let_def split: sum.splits)
  have t': "t = NewFun (if IsAsync fn then NewAsync ret else ret) params"
    unfolding t by (simp add: NewFun_def)
  have ret: "mochi_wf ret" using r by (rule closed_table.return_wf)
  have wf: "mochi_wf t" unfolding t' using ret function_params_facts [OF p]
    by (auto simp: NewFun_def NewAsync_def)
  have "MKind t = KindFun" unfolding t' by (simp add: NewFun_def)
  moreover have "if ReturnType fn = [] then ret = NewScalar ''None'' else Map ip ?m (ReturnType fn) = Inr ret"
    using r by (auto simp: map_return_def)
  ultimately show ?thesis using wf render_wf(1) [OF wf] function_params_facts [OF p]
      NewFun_parts [of "if IsAsync fn then NewAsync ret else ret" params] unfolding t' [symmetric] by blast
qed

lemma MapFunction_signature_witness:
  "\<exists>t. MapFunction (\<lambda>_. True) no_scope
      \<lparr>FnName = ''f'', FnParams = [\<lparr>PName = ''x'', PType = ''int'', PDefault = [], PKind = ParamPositional\<rparr>],
       ReturnType = ''str'', FnDecorators = [], IsAsync = True\<rparr> = Inr t
     \<and> MKind t = KindFun \<and> renderInto t \<noteq> None"
proof -
  let ?f = "\<lparr>FnName = ''f'', FnParams = [\<lparr>PName = ''x'', PType = ''int'', PDefault = [], PKind = ParamPositional\<rparr>],
       ReturnType = ''str'', FnDecorators = [], IsAsync = True\<rparr>"
  have "isOK (MapFunction (\<lambda>_. True) no_scope ?f)" by code_simp
  then obtain t where t: "MapFunction (\<lambda>_. True) no_scope ?f = Inr t" by (auto simp: isOK_iff)
  from MapFunction_signature [OF t] t show ?thesis by blast
qed

text \<open>The methods of a record are neither mapped nor filed among the skipped.\<close>

lemma record_methods_dropped:
  "MapClass ip m (cd\<lparr>IsProtocol := False, IsTypedDict := True, CdMethods := ms\<rparr>)
     = MapClass ip m (cd\<lparr>IsProtocol := False, IsTypedDict := True, CdMethods := []\<rparr>)"
  by (simp add: MapClass_def mapClass_def mapTypedDict_def)

end
