(* ===== verification/Stubs_Pyi.thy ===== *)
theory Stubs_Pyi
  imports Stubs_Decl
begin

section \<open>The stub file parser (stubs/pyi.go)\<close>

text \<open>
  \<open>logicalLines\<close> joins physical lines, the line parsers cut a logical line into a declaration, and
  \<open>ParsePYI\<close> collects the surface of a module.  The scanners of the source walk an index over a
  string; here each recurses on what is left of it and returns a length or an index into it.  The
  Unicode classes of \<open>isPlainIdent\<close> are the record \<open>classes\<close>.
\<close>

datatype LineError = MalformedFrom bytes | ClassNoColon bytes | ClassNoParen bytes
  | FuncNoOpen bytes | FuncNoClose bytes

datatype PyiError = Unbalanced nat | AtLine nat LineError

record classes =
  letter_rune :: "int \<Rightarrow> bool"
  digit_rune :: "int \<Rightarrow> bool"

subsection \<open>Comments, brackets and strings\<close>

definition is_quote :: "char \<Rightarrow> bool" where
  "is_quote c \<longleftrightarrow> c = CHR 0x22 \<or> c = CHR 0x27"

definition opens :: "char \<Rightarrow> bool" where
  "opens c \<longleftrightarrow> c = CHR ''('' \<or> c = CHR ''['' \<or> c = CHR ''{''"

definition closes :: "char \<Rightarrow> bool" where
  "closes c \<longleftrightarrow> c = CHR '')'' \<or> c = CHR '']'' \<or> c = CHR ''}''"

text \<open>The bytes a string takes after its opening quote, its end included.\<close>

fun triple_span :: "char \<Rightarrow> bytes \<Rightarrow> nat" where
  "triple_span q (x # y # z # s) = (if x = q \<and> y = q \<and> z = q then 3 else 1 + triple_span q (y # z # s))"
| "triple_span q s = length s"

fun single_span :: "char \<Rightarrow> bytes \<Rightarrow> nat" where
  "single_span q [] = 0"
| "single_span q [x] = 1"
| "single_span q (x # y # s) =
    (if x = CHR 0x5C then 2 + single_span q s else if x = q then 1 else 1 + single_span q (y # s))"

definition string_span :: "char \<Rightarrow> bytes \<Rightarrow> nat" where
  "string_span q s =
    (if 2 \<le> length s \<and> s ! 0 = q \<and> s ! 1 = q then 2 + triple_span q (drop 2 s) else single_span q s)"

function stripPyComment :: "bytes \<Rightarrow> bytes" where
  "stripPyComment [] = []"
| "stripPyComment (c # s) =
    (if c = CHR ''#'' then []
     else if is_quote c then c # take (string_span c s) s @ stripPyComment (drop (string_span c s) s)
     else c # stripPyComment s)"
  by pat_completeness auto
termination by (relation "measure length") (auto simp: le_imp_less_Suc)

function bracketDelta :: "bytes \<Rightarrow> int" where
  "bracketDelta [] = 0"
| "bracketDelta (c # s) =
    (if is_quote c then bracketDelta (drop (string_span c s) s)
     else if opens c then 1 + bracketDelta s
     else if closes c then bracketDelta s - 1
     else bracketDelta s)"
  by pat_completeness auto
termination by (relation "measure length") (auto simp: le_imp_less_Suc)

subsection \<open>Logical lines\<close>

record pyiLine =
  LIndent :: nat
  LText :: bytes
  LLine :: nat

fun indent_of :: "nat \<Rightarrow> bytes \<Rightarrow> nat" where
  "indent_of n [] = n"
| "indent_of n (c # s) =
    (if c = CHR '' '' then indent_of (n + 1) s
     else if c = CHR 0x09 then indent_of (n + (8 - n mod 8)) s
     else n)"

definition trim_right :: "bytes \<Rightarrow> bytes" where
  "trim_right s = rev (dropWhile (\<lambda>c. c = CHR '' '' \<or> c = CHR 0x09) (rev s))"

definition bom :: bytes where
  "bom = [CHR 0xEF, CHR 0xBB, CHR 0xBF]"

text \<open>The state of the loop; no start is \<open>startIndent = -1\<close> of the source.\<close>

record line_state =
  Buf :: bytes
  Start :: "(nat \<times> nat) option"
  Depth :: int
  Out :: "pyiLine list"

definition flush_line :: "line_state \<Rightarrow> line_state" where
  "flush_line st =
    (let t = Buf st; st' = st\<lparr>Buf := [], Start := None\<rparr> in
     if trim_space t = [] then st'
     else case Start st of
       Some (indent, line) \<Rightarrow> st'\<lparr>Out := Out st @ [\<lparr>LIndent = indent, LText = t, LLine = line\<rparr>]\<rparr>
     | None \<Rightarrow> st')"

definition physical_line :: "nat \<Rightarrow> bytes \<Rightarrow> line_state \<Rightarrow> PyiError + line_state" where
  "physical_line i raw st =
    (let line = i + 1;
         raw = (if i = 0 then trim_prefix raw bom else raw);
         start = (case Start st of Some p \<Rightarrow> p | None \<Rightarrow> (indent_of 0 raw, line));
         stripped = stripPyComment raw;
         depth = Depth st + bracketDelta stripped in
     if depth < 0 then Inl (Unbalanced line)
     else
       let right = trim_right stripped;
           cont = has_suffix right [CHR 0x5C];
           right = (if cont then trim_suffix right [CHR 0x5C] else right);
           st' = st\<lparr>Buf := Buf st @ right @ '' '', Start := Some start, Depth := depth\<rparr>
       in Inr (if cont \<or> depth > 0 then st' else flush_line st'))"

fun physical_lines :: "nat \<Rightarrow> bytes list \<Rightarrow> line_state \<Rightarrow> PyiError + line_state" where
  "physical_lines i [] st = Inr st"
| "physical_lines i (raw # rest) st =
    (case physical_line i raw st of Inl e \<Rightarrow> Inl e | Inr st' \<Rightarrow> physical_lines (i + 1) rest st')"

definition logicalLines :: "bytes \<Rightarrow> PyiError + pyiLine list" where
  "logicalLines src =
    (case physical_lines 0 (split_on (CHR 0x0A) src) \<lparr>Buf = [], Start = None, Depth = 0, Out = []\<rparr> of
       Inl e \<Rightarrow> Inl e
     | Inr st \<Rightarrow> Inr (Out (if Buf st \<noteq> [] then flush_line st else st)))"

subsection \<open>Scanning at the top level\<close>

text \<open>The bytes between an opening quote and its closing one.\<close>

fun quoted_len :: "char \<Rightarrow> bytes \<Rightarrow> nat" where
  "quoted_len q [] = 0"
| "quoted_len q [x] = (if x = q then 0 else 1)"
| "quoted_len q (x # y # s) =
    (if x = q then 0 else if x = CHR 0x5C then 2 + quoted_len q s else 1 + quoted_len q (y # s))"

function top_colon :: "int \<Rightarrow> bytes \<Rightarrow> nat option" where
  "top_colon d [] = None"
| "top_colon d (c # s) =
    (if opens c then map_option Suc (top_colon (d + 1) s)
     else if closes c then map_option Suc (top_colon (d - 1) s)
     else if c = CHR '':'' \<and> d = 0 then Some 0
     else if is_quote c then
       (let k = quoted_len c s in map_option (\<lambda>i. i + k + 2) (top_colon d (drop (k + 1) s)))
     else map_option Suc (top_colon d s))"
  by pat_completeness auto
termination by (relation "measure (length \<circ> snd)") (auto simp: le_imp_less_Suc)

definition findTopLevelColon :: "bytes \<Rightarrow> nat option" where
  "findTopLevelColon s = top_colon 0 s"

text \<open>The byte before the current one is carried along; there is none at the start.\<close>

function top_eq :: "int \<Rightarrow> char option \<Rightarrow> bytes \<Rightarrow> nat option" where
  "top_eq d prev [] = None"
| "top_eq d prev (c # s) =
    (if opens c then map_option Suc (top_eq (d + 1) (Some c) s)
     else if closes c then map_option Suc (top_eq (d - 1) (Some c) s)
     else if c = CHR ''='' \<and> d = 0 then
       (if s \<noteq> [] \<and> hd s = CHR ''='' then map_option (\<lambda>i. i + 2) (top_eq d (Some (CHR ''='')) (tl s))
        else if prev \<in> {Some (CHR ''>''), Some (CHR ''<''), Some (CHR ''!''), Some (CHR ''='')}
        then map_option Suc (top_eq d (Some c) s)
        else Some 0)
     else if is_quote c then
       (let k = quoted_len c s in map_option (\<lambda>i. i + k + 2) (top_eq d (Some c) (drop (k + 1) s)))
     else map_option Suc (top_eq d (Some c) s))"
  by pat_completeness auto
termination by (relation "measure (\<lambda>(d, p, s). length s)") (auto simp: le_imp_less_Suc)

definition findTopLevelEq :: "bytes \<Rightarrow> nat option" where
  "findTopLevelEq s = top_eq 0 None s"

function split_top :: "char \<Rightarrow> int \<Rightarrow> bytes \<Rightarrow> bytes \<Rightarrow> bytes list" where
  "split_top sep d part [] = [part]"
| "split_top sep d part (c # s) =
    (if opens c then split_top sep (d + 1) (part @ [c]) s
     else if closes c then split_top sep (d - 1) (part @ [c]) s
     else if is_quote c then
       (let k = quoted_len c s + 1 in split_top sep d (part @ c # take k s) (drop k s))
     else if c = sep \<and> d = 0 then part # split_top sep d [] s
     else split_top sep d (part @ [c]) s)"
  by pat_completeness auto
termination by (relation "measure (\<lambda>(sep, d, p, s). length s)") (auto simp: le_imp_less_Suc)

definition splitTopLevel :: "bytes \<Rightarrow> char \<Rightarrow> bytes list" where
  "splitTopLevel s sep = split_top sep 0 [] s"

function match_close :: "char \<Rightarrow> char \<Rightarrow> int \<Rightarrow> bytes \<Rightarrow> nat option" where
  "match_close op cl d [] = None"
| "match_close op cl d (c # s) =
    (if is_quote c then
       (let k = quoted_len c s in map_option (\<lambda>i. i + k + 2) (match_close op cl d (drop (k + 1) s)))
     else if c = op then map_option Suc (match_close op cl (d + 1) s)
     else if c = cl then
       (if d - 1 = 0 then Some 0 else map_option Suc (match_close op cl (d - 1) s))
     else map_option Suc (match_close op cl d s))"
  by pat_completeness auto
termination by (relation "measure (\<lambda>(a, b, d, s). length s)") (auto simp: le_imp_less_Suc)

definition matchingClose :: "bytes \<Rightarrow> nat \<Rightarrow> char \<Rightarrow> char \<Rightarrow> nat option" where
  "matchingClose s openIdx op cl = map_option (\<lambda>i. openIdx + i) (match_close op cl 0 (drop openIdx s))"

subsection \<open>Line parsers\<close>

definition split_as :: "bytes \<Rightarrow> ImportedName" where
  "split_as n =
    (case index_of n '' as '' of
       Some i \<Rightarrow> \<lparr>ImpName = trim_space (take i n), Alias = trim_space (drop (i + 4) n)\<rparr>
     | None \<Rightarrow> \<lparr>ImpName = n, Alias = []\<rparr>)"

definition parseImport :: "bytes \<Rightarrow> ImportDecl" where
  "parseImport t =
    (let rest = trim_space (trim_prefix t ''import '') in
     \<lparr>ImpModule = [], Names = map (\<lambda>n. split_as (trim_space n)) (splitTopLevel rest (CHR '',''))\<rparr>)"

definition parseFromImport :: "bytes \<Rightarrow> LineError + ImportDecl" where
  "parseFromImport t =
    (let rest = trim_prefix t ''from '' in
     case index_of rest '' import '' of
       None \<Rightarrow> Inl (MalformedFrom t)
     | Some idx \<Rightarrow>
         (let names = trim_suffix (trim_prefix (trim_space (drop (idx + 8) rest)) ''('') '')'';
              parts = filter (\<lambda>p. p \<noteq> []) (map trim_space (splitTopLevel names (CHR '','')))
          in Inr \<lparr>ImpModule = trim_space (take idx rest), Names = map split_as parts\<rparr>))"

text \<open>\<open>isPlainIdent\<close>: the position decides whether a digit may stand there.\<close>

fun plain_runes :: "classes \<Rightarrow> bool \<Rightarrow> int list \<Rightarrow> bool" where
  "plain_runes u first [] = True"
| "plain_runes u first (r # rs) =
    (if first \<and> \<not> (letter_rune u r \<or> r = 95) then False
     else if \<not> (letter_rune u r \<or> digit_rune u r \<or> r = 95) then False
     else plain_runes u False rs)"

definition isPlainIdent :: "classes \<Rightarrow> bytes \<Rightarrow> bool" where
  "isPlainIdent u s \<longleftrightarrow> (if s = [] then False else plain_runes u True (runes s))"

definition splitAnnotation :: "classes \<Rightarrow> bytes \<Rightarrow> (bytes \<times> bytes \<times> bytes) option" where
  "splitAnnotation u t =
    (case findTopLevelColon t of
       None \<Rightarrow> None
     | Some colon \<Rightarrow>
         (let name = trim_space (take colon t) in
          if \<not> isPlainIdent u name then None
          else let rest = drop (colon + 1) t in
            case findTopLevelEq rest of
              Some eq \<Rightarrow> Some (name, trim_space (take eq rest), trim_space (drop (eq + 1) rest))
            | None \<Rightarrow> Some (name, trim_space rest, [])))"

definition splitAlias :: "classes \<Rightarrow> bytes \<Rightarrow> (bytes \<times> bytes) option" where
  "splitAlias u t =
    (case findTopLevelEq t of
       None \<Rightarrow> None
     | Some eq \<Rightarrow>
         (let name = trim_space (take eq t) in
          if \<not> isPlainIdent u name then None else Some (name, trim_space (drop (eq + 1) t))))"

subsection \<open>Functions\<close>

text \<open>One parameter: the prefix decides the kind, then default, annotation and name are cut off.\<close>

definition parse_param :: "bool \<Rightarrow> bytes \<Rightarrow> ParamDecl \<times> bool" where
  "parse_param keywordOnly p =
    (let (kind, p, kw) =
       (if has_prefix p ''**'' then (ParamKwArgs, trim_prefix p ''**'', True)
        else if has_prefix p ''*'' then (ParamVarArgs, trim_prefix p ''*'', True)
        else (if keywordOnly then ParamKeywordOnly else ParamPositional, p, keywordOnly));
       (def, p) =
       (case findTopLevelEq p of
          Some eq \<Rightarrow> (trim_space (drop (eq + 1) p), trim_space (take eq p))
        | None \<Rightarrow> ([], p));
       (name, typ) =
       (case index_of p '':'' of
          Some colon \<Rightarrow> (trim_space (take colon p), trim_space (drop (colon + 1) p))
        | None \<Rightarrow> (trim_space p, []))
     in (\<lparr>PName = name, PType = typ, PDefault = def, PKind = kind\<rparr>, kw))"

definition positional_only :: "ParamDecl \<Rightarrow> ParamDecl" where
  "positional_only d = (if PKind d = ParamPositional then d\<lparr>PKind := ParamPositionalOnly\<rparr> else d)"

fun param_loop :: "bool \<Rightarrow> ParamDecl list \<Rightarrow> bytes list \<Rightarrow> ParamDecl list" where
  "param_loop keywordOnly out [] = out"
| "param_loop keywordOnly out (p # parts) =
    (let p = trim_space p in
     if p = [] then param_loop keywordOnly out parts
     else if p = ''/'' then param_loop keywordOnly (map positional_only out) parts
     else if p = ''*'' then param_loop True out parts
     else case parse_param keywordOnly p of (pd, kw) \<Rightarrow> param_loop kw (out @ [pd]) parts)"

definition parseParams :: "bytes \<Rightarrow> ParamDecl list" where
  "parseParams raw =
    (if trim_space raw = [] then [] else param_loop False [] (splitTopLevel raw (CHR '','')))"

definition parse_return :: "bytes \<Rightarrow> bytes" where
  "parse_return tail =
    (if has_prefix tail ''->'' then
       (let tail = trim_space (drop 2 tail) in
        case last_index tail '':'' of
          Some colon \<Rightarrow> trim_space (take colon tail)
        | None \<Rightarrow> tail)
     else [])"

definition parseFunction :: "bytes \<Rightarrow> bytes list \<Rightarrow> LineError + FuncDecl" where
  "parseFunction t decorators =
    (let async = has_prefix t ''async def '';
         rest = (if async then trim_prefix t ''async def '' else trim_prefix t ''def '') in
     case index_of rest ''('' of
       None \<Rightarrow> Inl (FuncNoOpen t)
     | Some openParen \<Rightarrow>
         (case matchingClose rest openParen (CHR ''('') (CHR '')'') of
            None \<Rightarrow> Inl (FuncNoClose t)
          | Some closeParen \<Rightarrow>
              Inr \<lparr>FnName = trim_space (take openParen rest),
                   FnParams = parseParams (take (closeParen - (openParen + 1)) (drop (openParen + 1) rest)),
                   ReturnType = parse_return (trim_space (drop (closeParen + 1) rest)),
                   FnDecorators = decorators, IsAsync = async\<rparr>))"

subsection \<open>Classes\<close>

definition is_def :: "bytes \<Rightarrow> bool" where
  "is_def t \<longleftrightarrow> has_prefix t ''def '' \<or> has_prefix t ''async def ''"

definition class_header :: "bytes \<Rightarrow> LineError + bytes \<times> bytes" where
  "class_header header =
    (let rest = trim_prefix header ''class '' in
     case last_index rest '':'' of
       None \<Rightarrow> Inl (ClassNoColon header)
     | Some colon \<Rightarrow>
         (let left = trim_space (take colon rest) in
          case index_of left ''('' of
            None \<Rightarrow> Inr (left, [])
          | Some paren \<Rightarrow>
              (case last_index left '')'' of
                 None \<Rightarrow> Inl (ClassNoParen header)
               | Some cl \<Rightarrow>
                   if cl < paren then Inl (ClassNoParen header)
                   else Inr (trim_space (take paren left),
                             trim_space (take (cl - (paren + 1)) (drop (paren + 1) left))))))"

definition protocol_base :: "bytes \<Rightarrow> bool" where
  "protocol_base b \<longleftrightarrow> b = ''Protocol'' \<or> has_prefix b ''Protocol[''"

definition typeddict_base :: "bytes \<Rightarrow> bool" where
  "typeddict_base b \<longleftrightarrow> b = ''TypedDict'' \<or> has_prefix b ''TypedDict['' \<or> contains b ''TypedDict,''"

definition dataclass_decorator :: "bytes \<Rightarrow> bool" where
  "dataclass_decorator d \<longleftrightarrow> d = ''dataclass'' \<or> has_prefix d ''dataclass('' \<or> has_suffix d ''.dataclass''"

definition new_class :: "bytes \<Rightarrow> bytes \<Rightarrow> bytes list \<Rightarrow> ClassDecl" where
  "new_class name basesRaw decorators =
    (let bs = filter (\<lambda>b. b \<noteq> []) (map trim_space (splitTopLevel basesRaw (CHR '',''))) in
     \<lparr>CdName = name, Bases = bs, CdMethods = [], CdFields = [],
      IsTypedDict = list_ex typeddict_base bs, IsProtocol = list_ex protocol_base bs,
      IsDataclass = list_ex dataclass_decorator decorators, CdDecorators = decorators\<rparr>)"

text \<open>The lines of a class body, up to the next line at the margin; what is left is returned.\<close>

fun class_body :: "classes \<Rightarrow> ClassDecl \<Rightarrow> bytes list \<Rightarrow> pyiLine list \<Rightarrow> LineError + ClassDecl \<times> pyiLine list" where
  "class_body u cd pending [] = Inr (cd, [])"
| "class_body u cd pending (l # ls) =
    (if LIndent l = 0 then Inr (cd, l # ls)
     else let bt = trim_space (LText l) in
       if bt = [] \<or> bt = ''...'' \<or> bt = ''pass'' then class_body u cd pending ls
       else if has_prefix bt ''@'' then class_body u cd (pending @ [trim_space (drop 1 bt)]) ls
       else if is_def bt then
         (case parseFunction bt pending of
            Inl e \<Rightarrow> Inl e
          | Inr fd \<Rightarrow> class_body u (cd\<lparr>CdMethods := CdMethods cd @ [fd]\<rparr>) [] ls)
       else (case splitAnnotation u bt of
            Some (name, typ, def) \<Rightarrow>
              class_body u (cd\<lparr>CdFields := CdFields cd @ [\<lparr>FdName = name, FdType = typ, FdDefault = def\<rparr>]\<rparr>) [] ls
          | None \<Rightarrow> class_body u cd [] ls))"

lemma length_class_body: "class_body u cd pending ls = Inr (cd', rest) \<Longrightarrow> length rest \<le> length ls"
proof (induction u cd pending ls arbitrary: cd' rest rule: class_body.induct)
  case (2 u cd pending l ls)
  show ?case
    by (use 2 in \<open>auto simp: Let_def intro: le_SucI split: if_splits sum.splits option.splits\<close>)
qed simp

definition parseClass :: "classes \<Rightarrow> pyiLine \<Rightarrow> bytes list \<Rightarrow> pyiLine list \<Rightarrow> LineError + ClassDecl \<times> pyiLine list" where
  "parseClass u l decorators ls =
    (case class_header (trim_space (LText l)) of
       Inl e \<Rightarrow> Inl e
     | Inr (name, basesRaw) \<Rightarrow> class_body u (new_class name basesRaw decorators) [] ls)"

subsection \<open>The module\<close>

function module_loop :: "classes \<Rightarrow> ModuleSurface \<Rightarrow> bytes list \<Rightarrow> pyiLine list \<Rightarrow> PyiError + ModuleSurface" where
  "module_loop u m pending [] = Inr m"
| "module_loop u m pending (l # ls) =
    (if LIndent l \<noteq> 0 then module_loop u m pending ls
     else let t = trim_space (LText l) in
       if t = [] \<or> has_prefix t ''#'' then module_loop u m pending ls
       else if has_prefix t ''@'' then module_loop u m (pending @ [trim_space (drop 1 t)]) ls
       else if has_prefix t ''import '' then
         module_loop u (m\<lparr>Imports := Imports m @ [parseImport t]\<rparr>) [] ls
       else if has_prefix t ''from '' then
         (case parseFromImport t of
            Inl e \<Rightarrow> Inl (AtLine (LLine l) e)
          | Inr imp \<Rightarrow> module_loop u (m\<lparr>Imports := Imports m @ [imp]\<rparr>) [] ls)
       else if has_prefix t ''class '' then
         (case parseClass u l pending ls of
            Inl e \<Rightarrow> Inl (AtLine (LLine l) e)
          | Inr (cd, rest) \<Rightarrow> module_loop u (m\<lparr>Classes := Classes m @ [cd]\<rparr>) [] rest)
       else if is_def t then
         (case parseFunction t pending of
            Inl e \<Rightarrow> Inl (AtLine (LLine l) e)
          | Inr fd \<Rightarrow> module_loop u (m\<lparr>Functions := Functions m @ [fd]\<rparr>) [] ls)
       else (case splitAnnotation u t of
            Some (name, typ, def) \<Rightarrow>
              module_loop u (m\<lparr>Constants := Constants m @ [\<lparr>CoName = name, CoType = typ, CoDefault = def\<rparr>]\<rparr>) [] ls
          | None \<Rightarrow>
              (case splitAlias u t of
                 Some (name, expr) \<Rightarrow>
                   module_loop u (m\<lparr>Aliases := Aliases m @ [\<lparr>AlName = name, AlExpr = expr\<rparr>]\<rparr>) [] ls
               | None \<Rightarrow> module_loop u m [] ls)))"
  by pat_completeness auto
termination
  by (relation "measure (\<lambda>(u, m, pending, ls). length ls)")
    (auto simp: parseClass_def split: sum.splits dest!: length_class_body)

definition ParsePYI :: "classes \<Rightarrow> bytes \<Rightarrow> PyiError + ModuleSurface" where
  "ParsePYI u src =
    (case logicalLines src of
       Inl e \<Rightarrow> Inl e
     | Inr ls \<Rightarrow>
         module_loop u \<lparr>Imports = [], Classes = [], Functions = [], Aliases = [], Constants = []\<rparr> [] ls)"

end
