(* ===== verification/Stubs_Scan.thy ===== *)
theory Stubs_Scan
  imports Stubs_Pyi
begin

section \<open>Printing a function declaration, then parsing it\<close>

text \<open>
  The scanners of the stub parser pass over a text whose brackets match.  \<open>nest F st x\<close> is the stack
  of closing brackets after \<open>x\<close>, when \<open>x\<close> has no quote, comment or backslash, closes what it opens
  and holds no byte of \<open>F\<close> outside brackets.
\<close>

definition closer :: "char \<Rightarrow> char" where
  "closer c = (if c = CHR ''('' then CHR '')'' else if c = CHR ''['' then CHR '']'' else CHR ''}'')"

fun nest :: "char set \<Rightarrow> char list \<Rightarrow> bytes \<Rightarrow> char list option" where
  "nest F st [] = Some st"
| "nest F st (c # s) =
    (if opens c then nest F (closer c # st) s
     else if closes c then
       (case st of [] \<Rightarrow> None | d # ds \<Rightarrow> if c = d then nest F ds s else None)
     else if is_quote c \<or> c \<in> {CHR ''#'', CHR 0x5C, CHR 0x0A} \<or> st = [] \<and> c \<in> F then None
     else nest F st s)"

lemma bracket_facts [simp]:
  "opens c \<Longrightarrow> \<not> closes c" "opens c \<Longrightarrow> \<not> is_quote c" "closes c \<Longrightarrow> \<not> opens c" "closes c \<Longrightarrow> \<not> is_quote c"
  "opens c \<Longrightarrow> c \<noteq> CHR ''#''" "closes c \<Longrightarrow> c \<noteq> CHR ''#''"
  by (auto simp: opens_def closes_def is_quote_def)

definition plain_char :: "char \<Rightarrow> bool" where
  "plain_char c \<longleftrightarrow> \<not> opens c \<and> \<not> closes c \<and> \<not> is_quote c \<and> c \<notin> {CHR ''#'', CHR 0x5C, CHR 0x0A}"

lemma nest_induct [consumes 1, case_names nil opn cls plain]:
  assumes "nest F st x = Some st'"
    and nil: "P st' []"
    and opn: "\<And>st c x. opens c \<Longrightarrow> nest F (closer c # st) x = Some st' \<Longrightarrow> P (closer c # st) x \<Longrightarrow> P st (c # x)"
    and cls: "\<And>st c x. closes c \<Longrightarrow> nest F st x = Some st' \<Longrightarrow> P st x \<Longrightarrow> P (c # st) (c # x)"
    and plain: "\<And>st c x. plain_char c \<Longrightarrow> (st = [] \<Longrightarrow> c \<notin> F) \<Longrightarrow> nest F st x = Some st' \<Longrightarrow> P st x \<Longrightarrow> P st (c # x)"
  shows "P st x"
  using assms(1)
proof (induction x arbitrary: st)
  case (Cons c x)
  consider "opens c" | "closes c" | "\<not> opens c" "\<not> closes c" by blast
  then show ?case
  proof cases
    case 1
    then show ?thesis using Cons opn by simp
  next
    case 2
    then obtain ds where "st = c # ds" "nest F ds x = Some st'"
      using Cons.prems by (auto split: list.splits if_splits)
    then show ?thesis using 2 Cons.IH cls by blast
  next
    case 3
    then have "plain_char c" "nest F st x = Some st'" "st = [] \<Longrightarrow> c \<notin> F"
      using Cons.prems by (auto simp: plain_char_def split: if_splits)
    then show ?thesis using Cons.IH plain by blast
  qed
qed (use nil in simp)

lemma nest_step [simp]:
  "opens c \<Longrightarrow> nest F st (c # x) = nest F (closer c # st) x"
  "closes c \<Longrightarrow> nest F (c # st) (c # x) = nest F st x"
  "plain_char c \<Longrightarrow> nest F st (c # x) = (if st = [] \<and> c \<in> F then None else nest F st x)"
  by (auto simp: plain_char_def opens_def closes_def)

declare nest.simps(2) [simp del]

lemma nest_append: "nest F st x = Some st' \<Longrightarrow> nest F st (x @ y) = nest F st' y"
  by (induction rule: nest_induct) auto

lemma nest_mono: "nest F st x = Some st' \<Longrightarrow> G \<subseteq> F \<Longrightarrow> nest G st x = Some st'"
  by (induction rule: nest_induct) auto

lemma nest_inside: "nest F st x = Some st' \<Longrightarrow> nest G (st @ d # ds) x = Some (st' @ d # ds)"
  by (induction rule: nest_induct) auto

lemma nest_plain: "list_all plain_char x \<Longrightarrow> set x \<inter> F = {} \<or> st \<noteq> [] \<Longrightarrow> nest F st x = Some st"
  by (induction x) auto

subsection \<open>Passing over a nested text\<close>

definition last_of :: "char option \<Rightarrow> bytes \<Rightarrow> char option" where
  "last_of p x = (if x = [] then p else Some (last x))"

lemma last_of_simps [simp]: "last_of p [] = p" "last_of p (c # x) = last_of (Some c) x"
  by (simp_all add: last_of_def)

lemma map_option_shift [simp]: "map_option Suc (map_option (\<lambda>i. i + n) r) = map_option (\<lambda>i. i + Suc n) r"
  by (cases r) auto

lemma map_option_same [simp]: "map_option (\<lambda>i. i) r = r"
  by (rule option.map_ident)

lemma scan_step:
  "opens c \<Longrightarrow> top_eq d p (c # s) = map_option Suc (top_eq (1 + d) (Some c) s)"
  "closes c \<Longrightarrow> top_eq d p (c # s) = map_option Suc (top_eq (d - 1) (Some c) s)"
  "plain_char c \<Longrightarrow> d = 0 \<longrightarrow> c \<noteq> CHR ''='' \<Longrightarrow> top_eq d p (c # s) = map_option Suc (top_eq d (Some c) s)"
  "opens c \<Longrightarrow> top_colon d (c # s) = map_option Suc (top_colon (1 + d) s)"
  "closes c \<Longrightarrow> top_colon d (c # s) = map_option Suc (top_colon (d - 1) s)"
  "plain_char c \<Longrightarrow> d = 0 \<longrightarrow> c \<noteq> CHR '':'' \<Longrightarrow> top_colon d (c # s) = map_option Suc (top_colon d s)"
  "opens c \<Longrightarrow> split_top sep d part (c # s) = split_top sep (1 + d) (part @ [c]) s"
  "closes c \<Longrightarrow> split_top sep d part (c # s) = split_top sep (d - 1) (part @ [c]) s"
  "plain_char c \<Longrightarrow> d = 0 \<longrightarrow> c \<noteq> sep \<Longrightarrow> split_top sep d part (c # s) = split_top sep d (part @ [c]) s"
  by (auto simp: plain_char_def add.commute)

lemma top_eq_pass:
  "nest F st x = Some st' \<Longrightarrow> CHR ''='' \<in> F \<Longrightarrow>
    top_eq (int (length st)) p (x @ s) = map_option (\<lambda>i. i + length x) (top_eq (int (length st')) (last_of p x) s)"
proof (induction arbitrary: p rule: nest_induct)
  case (plain st c x)
  then have "int (length st) = 0 \<longrightarrow> c \<noteq> CHR ''=''" by auto
  then show ?case using plain by (simp add: scan_step del: top_eq.simps)
qed (simp_all add: scan_step del: top_eq.simps)

lemma top_colon_pass:
  "nest F st x = Some st' \<Longrightarrow> CHR '':'' \<in> F \<Longrightarrow>
    top_colon (int (length st)) (x @ s) = map_option (\<lambda>i. i + length x) (top_colon (int (length st')) s)"
proof (induction rule: nest_induct)
  case (plain st c x)
  then have "int (length st) = 0 \<longrightarrow> c \<noteq> CHR '':''" by auto
  then show ?case using plain by (simp add: scan_step del: top_colon.simps)
qed (simp_all add: scan_step del: top_colon.simps)

lemma split_top_pass:
  "nest F st x = Some st' \<Longrightarrow> sep \<in> F \<Longrightarrow>
    split_top sep (int (length st)) part (x @ s) = split_top sep (int (length st')) (part @ x) s"
proof (induction arbitrary: part rule: nest_induct)
  case (plain st c x)
  then have "int (length st) = 0 \<longrightarrow> c \<noteq> sep" by auto
  then show ?case using plain by (simp add: scan_step del: split_top.simps)
qed (simp_all add: scan_step del: split_top.simps)

lemma match_step:
  "opens c \<Longrightarrow> match_close (CHR ''('') (CHR '')'') d (c # s)
    = map_option Suc (match_close (CHR ''('') (CHR '')'') (if c = CHR ''('' then d + 1 else d) s)"
  "closes c \<Longrightarrow> match_close (CHR ''('') (CHR '')'') d (c # s)
    = (if c = CHR '')'' \<and> d = 1 then Some 0
       else map_option Suc (match_close (CHR ''('') (CHR '')'') (if c = CHR '')'' then d - 1 else d) s))"
  "plain_char c \<Longrightarrow> match_close (CHR ''('') (CHR '')'') d (c # s)
    = map_option Suc (match_close (CHR ''('') (CHR '')'') d s)"
  by (auto simp: plain_char_def opens_def closes_def is_quote_def)

lemma match_pass:
  "nest F st x = Some st' \<Longrightarrow>
    match_close (CHR ''('') (CHR '')'') (1 + int (count_list st (CHR '')''))) (x @ s)
    = map_option (\<lambda>i. i + length x)
        (match_close (CHR ''('') (CHR '')'') (1 + int (count_list st' (CHR '')''))) s)"
proof (induction rule: nest_induct)
  case (opn st c x)
  then have "closer c = CHR '')'' \<longleftrightarrow> c = CHR ''(''" by (auto simp: opens_def closer_def)
  then show ?case using opn by (auto simp: match_step algebra_simps simp del: match_close.simps)
qed (auto simp: match_step algebra_simps simp del: match_close.simps)

subsection \<open>Canonical declarations\<close>

definition name_char :: "char \<Rightarrow> bool" where
  "name_char c \<longleftrightarrow> (65 \<le> byte c \<and> byte c \<le> 90) \<or> (97 \<le> byte c \<and> byte c \<le> 122) \<or> is_digit c \<or> c = CHR ''_''"

definition ident_text :: "bytes \<Rightarrow> bool" where
  "ident_text n \<longleftrightarrow> n \<noteq> [] \<and> list_all name_char n"

definition at_margin :: "char set" where
  "at_margin = {CHR '','', CHR ''='', CHR '':''}"

definition clean_expr :: "bytes \<Rightarrow> bool" where
  "clean_expr x \<longleftrightarrow> x \<noteq> [] \<and> nest at_margin [] x = Some [] \<and> solid (hd x) \<and> solid (last x)"

fun kind_mark :: "ParamKind \<Rightarrow> bytes" where
  "kind_mark ParamVarArgs = ''*''"
| "kind_mark ParamKwArgs = ''**''"
| "kind_mark _ = []"

definition param_text :: "ParamDecl \<Rightarrow> bytes" where
  "param_text p = kind_mark (PKind p) @ PName p
     @ (if PType p = [] then [] else '': '' @ PType p)
     @ (if PDefault p = [] then [] else '' = '' @ PDefault p)"

definition param_ok :: "ParamDecl \<Rightarrow> bool" where
  "param_ok p \<longleftrightarrow> ident_text (PName p) \<and> (PType p = [] \<or> clean_expr (PType p))
     \<and> (PDefault p = [] \<or> clean_expr (PDefault p))"

lemma name_char_plain: "name_char c \<Longrightarrow> plain_char c \<and> solid c \<and> c \<notin> at_margin \<and> c \<noteq> CHR ''('' \<and> c \<noteq> CHR ''*'' \<and> c \<noteq> CHR ''/''"
  by (auto simp: name_char_def plain_char_def opens_def closes_def is_quote_def solid_def at_margin_def is_digit_def)

lemma ident_nest: "ident_text n \<Longrightarrow> F \<subseteq> at_margin \<Longrightarrow> nest F st n = Some st"
  using name_char_plain by (intro nest_plain) (fastforce simp: ident_text_def list_all_iff)+

lemma ident_ends: "ident_text n \<Longrightarrow> solid (hd n) \<and> solid (last n) \<and> n \<noteq> []"
  using name_char_plain by (auto simp: ident_text_def list_all_iff dest: hd_in_set last_in_set)

lemma ident_no: "ident_text n \<Longrightarrow> c \<in> {CHR ''('', CHR '':'', CHR ''='', CHR ''*'', CHR ''/'', CHR '' ''} \<Longrightarrow> c \<notin> set n"
  by (auto simp: ident_text_def list_all_iff name_char_def is_digit_def)

text \<open>Blanks around a solid text.\<close>

lemma blank_space [simp]: "blank_len (CHR '' '' # s) = 1" "blank_len_rev (CHR '' '' # s) = 1"
  by (cases "CHR '' '' # s" rule: blank_len.cases; simp add: is_blank_def)
    (cases "CHR '' '' # s" rule: blank_len_rev.cases; simp add: is_blank_def)

lemma trim_blanks_space [simp]:
  "trim_blanks blank_len (CHR '' '' # s) = trim_blanks blank_len s"
  "trim_blanks blank_len_rev (CHR '' '' # s) = trim_blanks blank_len_rev s"
  by (subst trim_blanks.simps, simp)+

definition solid_ends :: "bytes \<Rightarrow> bool" where
  "solid_ends x \<longleftrightarrow> x \<noteq> [] \<and> solid (hd x) \<and> solid (last x)"

lemma trim_solid [simp]: "solid_ends x \<Longrightarrow> trim_space x = x"
  by (simp add: solid_ends_def trim_space_solid)

lemma trim_lead [simp]: "trim_space (CHR '' '' # s) = trim_space s"
  by (simp add: trim_space_def)

lemma trim_trail: "solid_ends x \<Longrightarrow> trim_space (x @ '' '') = x"
proof -
  assume x: "solid_ends x"
  obtain c t where c: "x = c # t" "solid c" using x by (cases x) (auto simp: solid_ends_def)
  obtain b l where l: "x = b @ [l]" "solid l" using x by (metis append_butlast_last_id solid_ends_def)
  have b1: "blank_len (x @ '' '') = 0" unfolding c(1) append_Cons by (rule blank_len_solid [OF c(2)])
  have b2: "blank_len_rev (rev x) = 0" unfolding l(1) rev_append rev.simps append_Nil append_Cons
    by (rule blank_len_rev_solid [OF l(2)])
  note b = trim_blanks_id [of blank_len, OF b1] trim_blanks_id [of blank_len_rev, OF b2]
  have "rev (x @ '' '') = CHR '' '' # rev x" by simp
  then show ?thesis by (simp only: b trim_space_def trim_blanks_space rev_rev_ident)
qed

lemma clean_ends: "clean_expr x \<Longrightarrow> solid_ends x"
  by (simp add: clean_expr_def solid_ends_def)

lemma ident_solid_ends: "ident_text n \<Longrightarrow> solid_ends n"
  using ident_ends by (auto simp: solid_ends_def)

lemma solid_ends_append: "solid_ends x \<Longrightarrow> solid_ends y \<Longrightarrow> solid_ends (x @ s @ y)"
  by (auto simp: solid_ends_def)

text \<open>Cutting a parameter.\<close>

definition head_text :: "ParamDecl \<Rightarrow> bytes" where
  "head_text p = PName p @ (if PType p = [] then [] else '': '' @ PType p)"

lemma head_facts:
  assumes "param_ok p"
  shows "solid_ends (head_text p)" "nest {CHR ''=''} [] (head_text p) = Some []"
    "nest {CHR '',''} [] (head_text p) = Some []" "head_text p \<noteq> []" "hd (head_text p) \<noteq> CHR ''*''" "hd (head_text p) \<noteq> CHR ''/''"
proof -
  have n: "ident_text (PName p)" using assms by (simp add: param_ok_def)
  have sub: "{CHR ''=''} \<subseteq> at_margin" "{CHR '',''} \<subseteq> at_margin" by (auto simp: at_margin_def)
  have ty: "nest F [] (PType p) = Some []" if "F \<subseteq> at_margin" "PType p \<noteq> []" for F
  proof -
    have "nest at_margin [] (PType p) = Some []" using assms that(2) by (simp add: param_ok_def clean_expr_def)
    then show ?thesis using that(1) by (rule nest_mono)
  qed
  have sep: "nest F [] ('': '' @ x) = nest F [] x" if "F = {CHR ''=''} \<or> F = {CHR '',''}" for F x
    using that by (auto simp: plain_char_def opens_def closes_def is_quote_def)
  have all: "nest F [] (head_text p) = Some []" if F: "F = {CHR ''=''} \<or> F = {CHR '',''}" for F
  proof (cases "PType p = []")
    case True
    then show ?thesis using ident_nest [OF n] F sub by (auto simp: head_text_def)
  next
    case False
    have "F \<subseteq> at_margin" using F sub by blast
    then show ?thesis using nest_append [OF ident_nest [OF n], of F "[]"] sep [OF F, of "PType p"] ty [of F] False
      by (simp add: head_text_def)
  qed
  show "nest {CHR ''=''} [] (head_text p) = Some []" "nest {CHR '',''} [] (head_text p) = Some []"
    by (rule all, simp)+
  show "solid_ends (head_text p)"
    using solid_ends_append [of "PName p" "PType p" "'': ''"] ident_solid_ends [OF n] assms clean_ends
    by (auto simp: head_text_def param_ok_def)
  obtain c t where c: "PName p = c # t" "name_char c" using n by (cases "PName p") (auto simp: ident_text_def)
  then show "head_text p \<noteq> []" "hd (head_text p) \<noteq> CHR ''*''" "hd (head_text p) \<noteq> CHR ''/''"
    using name_char_plain [OF c(2)] by (auto simp: head_text_def)
qed

definition body_text :: "ParamDecl \<Rightarrow> bytes" where
  "body_text p = head_text p @ (if PDefault p = [] then [] else '' = '' @ PDefault p)"

lemma param_text_body: "param_text p = kind_mark (PKind p) @ body_text p"
  by (simp add: param_text_def body_text_def head_text_def)

lemma body_eq:
  assumes "param_ok p"
  shows "findTopLevelEq (body_text p) = (if PDefault p = [] then None else Some (length (head_text p) + 1))"
proof -
  have "top_eq (int (length ([] :: char list))) None (head_text p @ s) =
      map_option (\<lambda>i. i + length (head_text p)) (top_eq (int (length ([] :: char list))) (last_of None (head_text p)) s)" for s
    by (rule top_eq_pass [OF head_facts(2) [OF assms]]) simp
  then show ?thesis by (auto simp: findTopLevelEq_def body_text_def opens_def closes_def is_quote_def)
qed

lemma head_colon:
  assumes "param_ok p"
  shows "(case index_of (head_text p) '':'' of
     Some colon \<Rightarrow> (trim_space (take colon (head_text p)), trim_space (drop (colon + 1) (head_text p)))
   | None \<Rightarrow> (trim_space (head_text p), [])) = (PName p, PType p)"
proof -
  have n: "ident_text (PName p)" using assms by (simp add: param_ok_def)
  have c: "CHR '':'' \<notin> set (PName p)" by (rule ident_no [OF n]) simp
  show ?thesis
  proof (cases "PType p = []")
    case True
    then show ?thesis using c ident_solid_ends [OF n] by (simp add: head_text_def)
  next
    case False
    then have "solid_ends (PType p)" using assms clean_ends by (simp add: param_ok_def)
    then show ?thesis using False c ident_solid_ends [OF n] by (simp add: head_text_def)
  qed
qed

lemma parse_param_text:
  assumes "param_ok p"
  shows "parse_param kw (param_text p) =
    (case PKind p of
       ParamVarArgs \<Rightarrow> (p, True) | ParamKwArgs \<Rightarrow> (p, True)
     | _ \<Rightarrow> (p\<lparr>PKind := if kw then ParamKeywordOnly else ParamPositional\<rparr>, kw))"
proof -
  let ?b = "body_text p"
  obtain c t where c: "?b = c # t" "c \<noteq> CHR ''*''"
    using head_facts(4,5) [OF assms] by (cases "head_text p") (auto simp: body_text_def)
  have d: "solid_ends (PDefault p)" if "PDefault p \<noteq> []" using assms that clean_ends by (simp add: param_ok_def)
  have cut: "(case findTopLevelEq ?b of
        Some eq \<Rightarrow> (trim_space (drop (eq + 1) ?b), trim_space (take eq ?b)) | None \<Rightarrow> ([], ?b)) = (PDefault p, head_text p)"
  proof (cases "PDefault p = []")
    case True
    then show ?thesis using body_eq [OF assms] by (simp add: body_text_def)
  next
    case False
    have "take (length (head_text p) + 1) ?b = head_text p @ '' ''" using False by (simp add: body_text_def)
    moreover have "drop (length (head_text p) + 1 + 1) ?b = CHR '' '' # PDefault p" using False by (simp add: body_text_def)
    ultimately show ?thesis
      using False body_eq [OF assms] trim_trail [OF head_facts(1) [OF assms]] d by simp
  qed
  have mark: "has_prefix (param_text p) ''**'' \<longleftrightarrow> PKind p = ParamKwArgs"
    "has_prefix (param_text p) ''*'' \<longleftrightarrow> PKind p \<in> {ParamVarArgs, ParamKwArgs}"
    using c by (cases "PKind p"; simp add: param_text_body)+
  have strip: "trim_prefix (''**'' @ ?b) ''**'' = ?b" "trim_prefix (''*'' @ ?b) ''*'' = ?b" by (rule trim_prefix_append)+
  let ?kind = "case PKind p of ParamVarArgs \<Rightarrow> ParamVarArgs | ParamKwArgs \<Rightarrow> ParamKwArgs
    | _ \<Rightarrow> (if kw then ParamKeywordOnly else ParamPositional)"
  let ?kw = "case PKind p of ParamVarArgs \<Rightarrow> True | ParamKwArgs \<Rightarrow> True | _ \<Rightarrow> kw"
  have triple: "(if has_prefix (param_text p) ''**'' then (ParamKwArgs, trim_prefix (param_text p) ''**'', True)
        else if has_prefix (param_text p) ''*'' then (ParamVarArgs, trim_prefix (param_text p) ''*'', True)
        else (if kw then ParamKeywordOnly else ParamPositional, param_text p, kw)) = (?kind, ?b, ?kw)"
    unfolding mark using strip by (cases "PKind p") (simp_all add: param_text_body)
  have "parse_param kw (param_text p) =
      (\<lparr>PName = PName p, PType = PType p, PDefault = PDefault p, PKind = ?kind\<rparr>, ?kw)"
    unfolding parse_param_def triple Let_def prod.case cut head_colon [OF assms] by (rule refl)
  then show ?thesis by (cases p; cases "PKind p") simp_all
qed

subsection \<open>Parameter lists\<close>

definition of_kind :: "ParamKind \<Rightarrow> ParamDecl list \<Rightarrow> ParamDecl list" where
  "of_kind k ps = filter (\<lambda>p. PKind p = k) ps"

text \<open>
  The order the language demands: positional-only, positional, \<open>*args\<close>, keyword-only, \<open>**kwargs\<close>.
  The separators \<open>/\<close> and \<open>*\<close> are printed where they are needed.
\<close>

definition params_ok :: "ParamDecl list \<Rightarrow> bool" where
  "params_ok ps \<longleftrightarrow> list_all param_ok ps \<and>
     ps = of_kind ParamPositionalOnly ps @ of_kind ParamPositional ps @ of_kind ParamVarArgs ps
          @ of_kind ParamKeywordOnly ps @ of_kind ParamKwArgs ps"

definition params_parts :: "ParamDecl list \<Rightarrow> bytes list" where
  "params_parts ps =
    (let texts = (\<lambda>k. map param_text (of_kind k ps)) in
     texts ParamPositionalOnly @ (if of_kind ParamPositionalOnly ps = [] then [] else [''/''])
     @ texts ParamPositional
     @ (if of_kind ParamVarArgs ps = [] \<and> of_kind ParamKeywordOnly ps \<noteq> [] then [''*''] else texts ParamVarArgs)
     @ texts ParamKeywordOnly @ texts ParamKwArgs)"

lemma param_text_facts:
  assumes "param_ok p"
  shows "solid_ends (param_text p)" "nest {CHR '',''} [] (param_text p) = Some []"
    "param_text p \<noteq> ''/''" "param_text p \<noteq> ''*''" "param_text p \<noteq> []"
proof -
  have h: "solid_ends (head_text p)" "nest {CHR '',''} [] (head_text p) = Some []" "head_text p \<noteq> []"
    "hd (head_text p) \<noteq> CHR ''*''" "hd (head_text p) \<noteq> CHR ''/''"
    using head_facts [OF assms] by auto
  have d: "solid_ends (PDefault p)" "nest {CHR '',''} [] (PDefault p) = Some []" if "PDefault p \<noteq> []"
  proof -
    have c: "clean_expr (PDefault p)" using assms that by (simp add: param_ok_def)
    then show "solid_ends (PDefault p)" by (rule clean_ends)
    have "nest at_margin [] (PDefault p) = Some []" using c by (simp add: clean_expr_def)
    then show "nest {CHR '',''} [] (PDefault p) = Some []" by (rule nest_mono) (simp add: at_margin_def)
  qed
  have plain: "plain_char (CHR ''='')" "plain_char (CHR '' '')" "plain_char (CHR ''*'')"
    by (simp_all add: plain_char_def opens_def closes_def is_quote_def)
  have b: "solid_ends (body_text p)" "nest {CHR '',''} [] (body_text p) = Some []" "body_text p \<noteq> []"
    "hd (body_text p) \<noteq> CHR ''*''" "hd (body_text p) \<noteq> CHR ''/''"
    using h d solid_ends_append [OF h(1), of "PDefault p" "'' = ''"] plain
    by (auto simp: body_text_def nest_append [OF h(2)])
  then obtain c t where bt: "body_text p = c # t" by (cases "body_text p") auto
  show "solid_ends (param_text p)" using b(1) bt
    by (cases "PKind p") (auto simp: param_text_body solid_ends_def solid_def)
  show "nest {CHR '',''} [] (param_text p) = Some []" using b(2) plain by (cases "PKind p") (auto simp: param_text_body)
  show "param_text p \<noteq> ''/''" "param_text p \<noteq> ''*''" "param_text p \<noteq> []"
    using b(4,5) bt by (cases "PKind p"; auto simp: param_text_body)+
qed

lemma PKind_same [simp]: "PKind p = k \<Longrightarrow> p\<lparr>PKind := k\<rparr> = p"
  by (cases p) simp

lemma param_loop_one:
  assumes "param_ok p"
  shows "param_loop kw out (param_text p # rest) =
    (case PKind p of
       ParamVarArgs \<Rightarrow> param_loop True (out @ [p]) rest
     | ParamKwArgs \<Rightarrow> param_loop True (out @ [p]) rest
     | _ \<Rightarrow> param_loop kw (out @ [p\<lparr>PKind := if kw then ParamKeywordOnly else ParamPositional\<rparr>]) rest)"
  using param_text_facts [OF assms] parse_param_text [OF assms, of kw]
  by (cases "PKind p") (simp_all add: Let_def)

lemma param_loop_kind:
  assumes "\<forall>p \<in> set ps. param_ok p \<and> PKind p = k"
    "k = ParamPositional \<and> \<not> kw \<or> k = ParamKeywordOnly \<and> kw \<or> k = ParamPositionalOnly \<and> \<not> kw
      \<or> k \<in> {ParamVarArgs, ParamKwArgs}"
  shows "param_loop kw out (map param_text ps @ rest) =
    param_loop (kw \<or> k \<in> {ParamVarArgs, ParamKwArgs} \<and> ps \<noteq> [])
      (out @ (if k = ParamPositionalOnly then map (\<lambda>p. p\<lparr>PKind := ParamPositional\<rparr>) ps else ps)) rest"
  using assms
proof (induction ps arbitrary: out kw)
  case (Cons p ps)
  have p: "param_ok p" "PKind p = k" using Cons.prems by auto
  show ?case
  proof (cases "k \<in> {ParamVarArgs, ParamKwArgs}")
    case True
    have step: "param_loop kw out (param_text p # map param_text ps @ rest) = param_loop True (out @ [p]) (map param_text ps @ rest)"
      using param_loop_one [OF p(1), of kw out "map param_text ps @ rest"] p(2) True by auto
    show ?thesis
      unfolding list.map append_Cons step
      using True Cons.IH [of True "out @ [p]"] Cons.prems by auto
  next
    case False
    then have k: "k = ParamPositional \<and> \<not> kw \<or> k = ParamKeywordOnly \<and> kw \<or> k = ParamPositionalOnly \<and> \<not> kw"
      using Cons.prems(2) by auto
    let ?q = "if k = ParamPositionalOnly then p\<lparr>PKind := ParamPositional\<rparr> else p"
    have step: "param_loop kw out (param_text p # map param_text ps @ rest) = param_loop kw (out @ [?q]) (map param_text ps @ rest)"
      using param_loop_one [OF p(1), of kw out "map param_text ps @ rest"] p(2) k by auto
    show ?thesis
      unfolding list.map append_Cons step
      using False Cons.IH [of kw "out @ [?q]"] Cons.prems k by auto
  qed
qed auto

lemma params_parts_loop:
  assumes "params_ok ps"
  shows "param_loop False [] (params_parts ps) = ps"
proof -
  let ?f = "\<lambda>k. of_kind k ps"
  have marks: "trim_space ''/'' = ''/''" "trim_space ''*'' = ''*''"
    by (rule trim_solid, simp add: solid_ends_def solid_def)+
  have ok: "\<forall>p \<in> set (?f k). param_ok p \<and> PKind p = k" for k
    using assms by (auto simp: params_ok_def of_kind_def list_all_iff)
  have pos: "map positional_only (map (\<lambda>p. p\<lparr>PKind := ParamPositional\<rparr>) (?f ParamPositionalOnly)) = ?f ParamPositionalOnly"
    unfolding map_map by (rule map_idI) (use ok [of ParamPositionalOnly] in \<open>simp add: positional_only_def\<close>)
  let ?star = "if ?f ParamVarArgs = [] \<and> ?f ParamKeywordOnly \<noteq> [] then [''*''] else map param_text (?f ParamVarArgs)"
  let ?kwparts = "map param_text (?f ParamKeywordOnly) @ map param_text (?f ParamKwArgs)"
  have slash: "param_loop False [] (map param_text (?f ParamPositionalOnly)
      @ (if ?f ParamPositionalOnly = [] then [] else [''/'']) @ rest) = param_loop False (?f ParamPositionalOnly) rest" for rest
    using param_loop_kind [OF ok [of ParamPositionalOnly], of False "[]"] pos
    by (simp add: Let_def marks)
  have mid: "param_loop False out (map param_text (?f ParamPositional) @ rest) = param_loop False (out @ ?f ParamPositional) rest" for out rest
    using param_loop_kind [OF ok [of ParamPositional], of False out rest] by simp
  have star: "param_loop False out (?star @ rest) =
      param_loop (?f ParamVarArgs \<noteq> [] \<or> ?f ParamKeywordOnly \<noteq> []) (out @ ?f ParamVarArgs) rest" for out rest
  proof (cases "?f ParamVarArgs = [] \<and> ?f ParamKeywordOnly \<noteq> []")
    case True
    then show ?thesis by (simp add: Let_def marks)
  next
    case False
    then show ?thesis using param_loop_kind [OF ok [of ParamVarArgs], of False out rest] by auto
  qed
  have ko: "param_loop kw out (map param_text (?f ParamKeywordOnly) @ rest) = param_loop kw (out @ ?f ParamKeywordOnly) rest"
    if "?f ParamKeywordOnly = [] \<or> kw" for kw out rest
    using that param_loop_kind [OF ok [of ParamKeywordOnly], of kw out rest] by auto
  have kws: "param_loop kw out (map param_text (?f ParamKwArgs)) = out @ ?f ParamKwArgs" for kw out
    using param_loop_kind [OF ok [of ParamKwArgs], of kw out "[]"] by simp
  have "param_loop False [] (params_parts ps) =
      ?f ParamPositionalOnly @ ?f ParamPositional @ ?f ParamVarArgs @ ?f ParamKeywordOnly @ ?f ParamKwArgs"
    unfolding params_parts_def Let_def append_assoc slash mid star
    by (subst ko) (auto simp: kws)
  then show ?thesis using assms by (simp add: params_ok_def)
qed

lemma param_loop_trim:
  "map trim_space ps = map trim_space qs \<Longrightarrow> param_loop kw out ps = param_loop kw out qs"
proof (induction ps arbitrary: qs kw out)
  case (Cons p ps)
  then obtain q qs' where "qs = q # qs'" "trim_space p = trim_space q" "map trim_space ps = map trim_space qs'"
    by (cases qs) auto
  then show ?case using Cons.IH [of qs'] by (simp add: Let_def split: prod.splits)
qed simp

lemma split_parts:
  "\<forall>p \<in> set (p # ps). nest {CHR '',''} [] p = Some [] \<Longrightarrow>
    splitTopLevel (join '', '' (p # ps)) (CHR '','') = p # map (\<lambda>q. CHR '' '' # q) ps"
proof -
  have comma: "split_top (CHR '','') 0 part (CHR '','' # s) = part # split_top (CHR '','') 0 [] s" for part s
    by (simp add: opens_def closes_def is_quote_def)
  have space: "split_top (CHR '','') 0 part (CHR '' '' # s) = split_top (CHR '','') 0 (part @ '' '') s" for part s
    by (simp add: opens_def closes_def is_quote_def)
  have pass: "split_top (CHR '','') 0 part (p @ s) = split_top (CHR '','') 0 (part @ p) s"
    if "nest {CHR '',''} [] p = Some []" for part p s
    using split_top_pass [OF that, of "CHR '',''" part s] by simp
  have "\<forall>p \<in> set (p # ps). nest {CHR '',''} [] p = Some [] \<Longrightarrow>
    split_top (CHR '','') 0 part (join '', '' (p # ps)) = (part @ p) # map (\<lambda>q. CHR '' '' # q) ps" for part
  proof (induction ps arbitrary: p part)
    case Nil
    then show ?case using pass [of p part "[]"] by simp
  next
    case (Cons q ps)
    have "split_top (CHR '','') 0 part (join '', '' (p # q # ps))
        = (part @ p) # split_top (CHR '','') 0 '' '' (join '', '' (q # ps))"
      using pass [of p part] Cons.prems by (simp add: comma space del: split_top.simps)
    then show ?case using Cons.IH [of q "'' ''"] Cons.prems by simp
  qed
  then show "\<forall>p \<in> set (p # ps). nest {CHR '',''} [] p = Some [] \<Longrightarrow>
    splitTopLevel (join '', '' (p # ps)) (CHR '','') = p # map (\<lambda>q. CHR '' '' # q) ps"
    by (simp add: splitTopLevel_def)
qed

lemma params_parts_facts:
  assumes "params_ok ps" "q \<in> set (params_parts ps)"
  shows "solid_ends q \<and> nest {CHR '',''} [] q = Some []"
proof -
  have "q = ''/'' \<or> q = ''*'' \<or> (\<exists>p \<in> set ps. q = param_text p)"
    using assms(2) by (auto simp: params_parts_def of_kind_def Let_def split: if_splits)
  moreover have "solid_ends ''/''" "solid_ends ''*''" "nest {CHR '',''} [] ''/'' = Some []" "nest {CHR '',''} [] ''*'' = Some []"
    by (simp_all add: solid_ends_def solid_def plain_char_def opens_def closes_def is_quote_def)
  ultimately show ?thesis using assms(1) param_text_facts by (auto simp: params_ok_def list_all_iff)
qed

lemma parseParams_text:
  assumes "params_ok ps"
  shows "parseParams (join '', '' (params_parts ps)) = ps"
proof (cases "params_parts ps")
  case Nil
  then show ?thesis using params_parts_loop [OF assms] by (simp add: parseParams_def)
next
  case (Cons q qs)
  have facts: "\<forall>p \<in> set (q # qs). solid_ends p \<and> nest {CHR '',''} [] p = Some []"
    using params_parts_facts [OF assms] Cons by simp
  then have split: "splitTopLevel (join '', '' (q # qs)) (CHR '','') = q # map (\<lambda>q. CHR '' '' # q) qs"
    by (intro split_parts) auto
  have "map trim_space (q # map (\<lambda>q. CHR '' '' # q) qs) = map trim_space (q # qs)" by (simp add: comp_def)
  then have "param_loop False [] (q # map (\<lambda>q. CHR '' '' # q) qs) = ps"
    using param_loop_trim params_parts_loop [OF assms] Cons by metis
  moreover have "trim_space (join '', '' (q # qs)) \<noteq> []"
  proof -
    have "solid_ends (join '', '' (q # qs))"
      using facts last_join [of "q # qs" "'', ''"] hd_join [of "q # qs" "'', ''"]
      by (auto simp: solid_ends_def simp del: join.simps split: if_splits)
    then show ?thesis by (simp add: solid_ends_def trim_space_solid)
  qed
  ultimately show ?thesis using split Cons by (simp add: parseParams_def del: join.simps)
qed

subsection \<open>Functions\<close>

definition fn_ok :: "FuncDecl \<Rightarrow> bool" where
  "fn_ok fd \<longleftrightarrow> ident_text (FnName fd) \<and> params_ok (FnParams fd)
     \<and> (ReturnType fd = [] \<or> clean_expr (ReturnType fd))"

definition fn_text :: "FuncDecl \<Rightarrow> bytes" where
  "fn_text fd = (if IsAsync fd then ''async def '' else ''def '') @ FnName fd
     @ ''('' @ join '', '' (params_parts (FnParams fd)) @ '')''
     @ (if ReturnType fd = [] then [] else '' -> '' @ ReturnType fd) @ '': ...''"

lemma join_nest:
  "\<forall>p \<in> set ps. nest {CHR '',''} [] p = Some [] \<Longrightarrow> nest {} [] (join '', '' ps) = Some []"
proof (induction ps)
  case (Cons p ps)
  have p: "nest {} [] p = Some []" using Cons.prems nest_mono [of "{CHR '',''}" "[]" p "[]" "{}"] by simp
  show ?case
  proof (cases ps)
    case Nil
    then show ?thesis using p by simp
  next
    case (Cons q qs)
    have plain: "plain_char (CHR '','')" "plain_char (CHR '' '')"
      by (simp_all add: plain_char_def opens_def closes_def is_quote_def)
    have "join '', '' (p # ps) = p @ '', '' @ join '', '' ps" using Cons by simp
    then show ?thesis using nest_append [OF p, of "'', '' @ join '', '' ps"] Cons.IH Cons.prems plain by simp
  qed
qed simp

lemma match_params:
  assumes "nest {} [] x = Some []"
  shows "matchingClose (n @ ''('' @ x @ '')'' @ s) (length n) (CHR ''('') (CHR '')'') = Some (length n + 1 + length x)"
proof -
  have "match_close (CHR ''('') (CHR '')'') 1 (x @ '')'' @ s) = Some (length x)"
    using match_pass [OF assms, of "'')'' @ s"] by (simp add: is_quote_def)
  then show ?thesis by (simp add: matchingClose_def is_quote_def)
qed

lemma parse_return_text:
  assumes "r = [] \<or> clean_expr r"
  shows "parse_return (trim_space ((if r = [] then [] else '' -> '' @ r) @ '': ...'')) = r"
proof (cases "r = []")
  case True
  have "solid_ends '': ...''" by (simp add: solid_ends_def solid_def)
  then show ?thesis using True by (simp add: parse_return_def)
next
  case False
  then have r: "solid_ends r" using assms clean_ends by blast
  have mark: "solid_ends ''->''" "solid_ends '': ...''" by (simp_all add: solid_ends_def solid_def)
  have "solid_ends (''->'' @ ('' '' @ r) @ '': ...'')" by (rule solid_ends_append [OF mark])
  then have t: "trim_space ('' -> '' @ r @ '': ...'') = ''-> '' @ r @ '': ...''" by simp
  have "solid_ends (r @ [] @ '': ...'')" by (rule solid_ends_append [OF r mark(2)])
  then have d: "trim_space (drop 2 (''-> '' @ r @ '': ...'')) = r @ '': ...''" by simp
  have "last_index (r @ '':'' @ '' ...'') '':'' = Some (length r)" by (rule last_index_append) (simp_all add: contains_def)
  then show ?thesis using False t d r by (simp add: parse_return_def)
qed

lemma fn_text_parse:
  assumes "fn_ok fd"
  shows "parseFunction (fn_text fd) (FnDecorators fd) = Inr fd"
proof -
  let ?n = "FnName fd" and ?x = "join '', '' (params_parts (FnParams fd))"
  let ?t = "(if ReturnType fd = [] then [] else '' -> '' @ ReturnType fd) @ '': ...''"
  let ?rest = "?n @ ''('' @ ?x @ '')'' @ ?t"
  have n: "ident_text ?n" and ps: "params_ok (FnParams fd)" and r: "ReturnType fd = [] \<or> clean_expr (ReturnType fd)"
    using assms by (simp_all add: fn_ok_def)
  have async: "has_prefix (fn_text fd) ''async def '' = IsAsync fd"
    by (simp add: fn_text_def)
  have rest: "(if IsAsync fd then trim_prefix (fn_text fd) ''async def ''
      else trim_prefix (fn_text fd) ''def '') = ?rest"
    by (simp_all add: fn_text_def trim_prefix_def)
  have "CHR ''('' \<notin> set ?n" by (rule ident_no [OF n]) simp
  then have o: "index_of ?rest ''('' = Some (length ?n)" by simp
  have "nest {} [] ?x = Some []" using params_parts_facts [OF ps] by (intro join_nest) auto
  then have c: "matchingClose ?rest (length ?n) (CHR ''('') (CHR '')'') = Some (length ?n + 1 + length ?x)"
    by (rule match_params)
  have arg: "take (length ?n + 1 + length ?x - (length ?n + 1)) (drop (length ?n + 1) ?rest) = ?x"
    "drop (length ?n + 1 + length ?x + 1) ?rest = ?t" "take (length ?n) ?rest = ?n" by simp_all
  show ?thesis
    unfolding parseFunction_def Let_def async rest o option.case c arg parse_return_text [OF r] parseParams_text [OF ps]
    using ident_solid_ends [OF n] by simp
qed

text \<open>
  C32. Parsing a function line of a stub gives back the declaration it was printed from: the name, the
  parameters of the five kinds with their annotations and defaults (the bare star and the slash put back
  in place), the return annotation and whether the function is asynchronous.  Annotations and defaults
  may hold any brackets that match, with commas, colons and equal signs inside them.
\<close>

theorem parseFunction_text: "fn_ok fd \<Longrightarrow> parseFunction (fn_text fd) (FnDecorators fd) = Inr fd"
  by (rule fn_text_parse)

theorem parseFunction_text_witness:
  "parseFunction ''async def get(a, /, b: Dict[str, int] = {}, *, c: Callable[[int], str], **kw) -> List[int]: ...'' [''overload'']
   = Inr \<lparr>FnName = ''get'',
       FnParams = [\<lparr>PName = ''a'', PType = [], PDefault = [], PKind = ParamPositionalOnly\<rparr>,
         \<lparr>PName = ''b'', PType = ''Dict[str, int]'', PDefault = ''{}'', PKind = ParamPositional\<rparr>,
         \<lparr>PName = ''c'', PType = ''Callable[[int], str]'', PDefault = [], PKind = ParamKeywordOnly\<rparr>,
         \<lparr>PName = ''kw'', PType = [], PDefault = [], PKind = ParamKwArgs\<rparr>],
       ReturnType = ''List[int]'', FnDecorators = [''overload''], IsAsync = True\<rparr>"
proof -
  let ?fd = "\<lparr>FnName = ''get'',
       FnParams = [\<lparr>PName = ''a'', PType = [], PDefault = [], PKind = ParamPositionalOnly\<rparr>,
         \<lparr>PName = ''b'', PType = ''Dict[str, int]'', PDefault = ''{}'', PKind = ParamPositional\<rparr>,
         \<lparr>PName = ''c'', PType = ''Callable[[int], str]'', PDefault = [], PKind = ParamKeywordOnly\<rparr>,
         \<lparr>PName = ''kw'', PType = [], PDefault = [], PKind = ParamKwArgs\<rparr>],
       ReturnType = ''List[int]'', FnDecorators = [''overload''], IsAsync = True\<rparr>"
  have "fn_ok ?fd" by code_simp
  then have "parseFunction (fn_text ?fd) (FnDecorators ?fd) = Inr ?fd" by (rule parseFunction_text)
  moreover have "fn_text ?fd =
      ''async def get(a, /, b: Dict[str, int] = {}, *, c: Callable[[int], str], **kw) -> List[int]: ...''" by code_simp
  ultimately show ?thesis by simp
qed

end
