(* ===== verification/Wrapper.thy ===== *)
theory Wrapper
  imports Typemap_Class
begin

section \<open>The wrapper synthesiser (wrapper/wrapper.go, synth.go, render.go)\<close>

text \<open>
  From the declared surface of a Python package to the list of wrapped items, the list of refused
  ones and the two generated source files.  Rendering indexes parameter lists and calls \<open>Return\<close>
  and \<open>FunParams\<close>, which panic on the wrong kind of type: the renderers return an option with
  \<open>None\<close> for the panic, and \<open>Synthesise_accounts\<close> shows that no wrapper the synthesiser builds
  panics.
\<close>

subsection \<open>Items and wrappers (wrapper.go)\<close>

datatype EventLoopMode = EventLoopPerCall | EventLoopPersistent

fun EventLoopMode_String :: "EventLoopMode \<Rightarrow> bytes" where
  "EventLoopMode_String EventLoopPerCall = ''per-call''"
| "EventLoopMode_String EventLoopPersistent = ''persistent''"

datatype ItemKind = ItemFunc | ItemRecord | ItemInterface | ItemConstant

fun ItemKind_String :: "ItemKind \<Rightarrow> bytes" where
  "ItemKind_String ItemFunc = ''fun''"
| "ItemKind_String ItemRecord = ''record''"
| "ItemKind_String ItemInterface = ''interface''"
| "ItemKind_String ItemConstant = ''const''"

record Item =
  IName :: bytes
  SourceName :: bytes
  IKind :: ItemKind
  IType :: MochiType
  IIsAsync :: bool
  ILoop :: EventLoopMode

record Wrapper =
  WPackage :: bytes
  WModule :: bytes
  PySource :: bytes
  PYISource :: bytes
  Items :: "Item list"
  Skipped :: "SkipReport list"
  WLoop :: EventLoopMode

record Options =
  OLoop :: EventLoopMode
  OAllowPartial :: bool

subsection \<open>Rendering (render.go)\<close>

definition em_dash :: bytes where
  "em_dash = [CHR 0xE2, CHR 0x80, CHR 0x94]"

definition lastDot :: "bytes \<Rightarrow> bytes" where
  "lastDot s = (case last_index s ''.'' of None \<Rightarrow> s | Some i \<Rightarrow> drop (i + 1) s)"

definition scalarPyAnno :: "bytes \<Rightarrow> bytes" where
  "scalarPyAnno name = (if name = ''string'' then ''str'' else name)"

definition arg :: "nat \<Rightarrow> bytes" where
  "arg i = ''arg'' @ itoa (int i)"

definition paramSignature :: "MochiType list \<Rightarrow> bytes" where
  "paramSignature ps = join '', '' (map arg [0..<length ps])"

fun renderPyAnno :: "MochiType \<Rightarrow> bytes option" where
  "renderPyAnno (MType k name ps fs ms) =
    (let rs = map renderPyAnno ps in
     case k of
       KindScalar \<Rightarrow> Some (scalarPyAnno name)
     | KindRef \<Rightarrow> Some name
     | KindTypeVar \<Rightarrow> Some name
     | KindList \<Rightarrow> wrap ''list['' '']'' (param rs 0)
     | KindSet \<Rightarrow> wrap ''set['' '']'' (param rs 0)
     | KindMap \<Rightarrow> append_opt (wrap ''dict['' '', '' (param rs 0)) (wrap [] '']'' (param rs 1))
     | KindTuple \<Rightarrow> wrap ''Tuple['' '']'' (seq_join '', '' rs)
     | KindOptional \<Rightarrow> wrap ''Optional['' '']'' (param rs 0)
     | KindSum \<Rightarrow> wrap ''Union['' '']'' (seq_join '', '' rs)
     | KindAsync \<Rightarrow> wrap ''Awaitable['' '']'' (param rs 0)
     | KindStream \<Rightarrow> wrap ''AsyncIterator['' '']'' (param rs 0)
     | KindFun \<Rightarrow>
         append_opt (wrap ''Callable[['' ''], '' (seq_join '', '' (take (length rs - 1) rs)))
           (wrap [] '']'' (if length rs = 0 then Some ''None'' else param rs (length rs - 1)))
     | KindRecord \<Rightarrow> Some name
     | KindInterface \<Rightarrow> Some name
     | KindUnknown \<Rightarrow> Some ''Any'')"

definition hasAsync :: "Wrapper \<Rightarrow> bool" where
  "hasAsync w = list_ex (\<lambda>it. IKind it = ItemFunc \<and> IIsAsync it) (Items w)"

text \<open>\<open>isIteratorReturn\<close> is the constant false, so the materialiser is never among the helpers.\<close>

definition wrapperHelpers :: "Wrapper \<Rightarrow> bytes list" where
  "wrapperHelpers w =
    sort_strings
      (''_to_mochi_dict'' #
       (if hasAsync w then ''_run_async'' # (if WLoop w = EventLoopPersistent then [''_persistent_loop''] else [])
        else []))"

definition renderFunc :: "Wrapper \<Rightarrow> Item \<Rightarrow> bytes option" where
  "renderFunc w it =
    (case (FunParams (IType it), FunReturn (IType it)) of
       (Some params, Some ret) \<Rightarrow>
         (let bare = lastDot (SourceName it); signature = paramSignature params in
          Some
            (if IIsAsync it then
               let callForm = ''_src.'' @ bare @ ''('' @ signature @ '')'';
                   runLine = (if WLoop w = EventLoopPersistent
                     then ''    return _MOCHI_LOOP.run_until_complete('' @ callForm @ '')'' @ nl
                     else ''    return _run_async('' @ callForm @ '')'' @ nl)
               in ''def '' @ IName it @ ''('' @ signature @ ''):'' @ nl
                  @ runLine
                  @ nl @ nl @ ''async def '' @ trim_suffix (IName it) ''_sync'' @ ''_async('' @ signature @ ''):'' @ nl
                  @ ''    return await _src.'' @ bare @ ''('' @ signature @ '')'' @ nl
             else ''def '' @ IName it @ ''('' @ signature @ ''):'' @ nl
                  @ ''    return _src.'' @ bare @ ''('' @ signature @ '')'' @ nl))
     | _ \<Rightarrow> None)"

definition rebind :: "Item \<Rightarrow> bytes" where
  "rebind it = IName it @ '' = _src.'' @ lastDot (SourceName it) @ nl"

definition renderRecord :: "(int \<Rightarrow> bool) \<Rightarrow> Item \<Rightarrow> bytes" where
  "renderRecord ip it =
    rebind it
    @ (if Fields (IType it) = [] then []
       else nl @ nl @ ''def _'' @ IName it @ ''_to_mochi_dict(value):'' @ nl
            @ ''    return {'' @ nl
            @ concat (map (\<lambda>n. ''        '' @ quote ip n @ '': _to_mochi_dict(getattr(value, '' @ quote ip n @ '')),'' @ nl)
                (sort_strings (map FName (Fields (IType it)))))
            @ ''    }'' @ nl)"

definition py_item :: "(int \<Rightarrow> bool) \<Rightarrow> Wrapper \<Rightarrow> Item \<Rightarrow> bytes option" where
  "py_item ip w it =
    (case IKind it of
       ItemFunc \<Rightarrow> renderFunc w it
     | ItemRecord \<Rightarrow> Some (renderRecord ip it)
     | ItemInterface \<Rightarrow> Some (rebind it)
     | ItemConstant \<Rightarrow> Some (rebind it))"

text \<open>The loop over the items: each is followed by an empty line, a panic ends it.\<close>

fun each_item :: "(Item \<Rightarrow> bytes option) \<Rightarrow> Item list \<Rightarrow> bytes option" where
  "each_item f [] = Some []"
| "each_item f (it # its) = append_opt (wrap [] nl (f it)) (each_item f its)"

definition renderPy :: "(int \<Rightarrow> bool) \<Rightarrow> Wrapper \<Rightarrow> bytes option" where
  "renderPy ip w =
    (let head = ''# Auto-generated by mochi pkg lock '' @ em_dash @ '' do not edit.'' @ nl
           @ ''# MEP-71 wrapper for source package: '' @ WPackage w @ ''.'' @ nl
           @ nl
           @ ''from __future__ import annotations'' @ nl
           @ nl
           @ (if hasAsync w then ''import asyncio'' @ nl else [])
           @ ''import '' @ WPackage w @ '' as _src'' @ nl
           @ nl
           @ ''from ._mochi_wrap import '' @ join '', '' (wrapperHelpers w) @ nl @ nl;
         tail = (if WLoop w = EventLoopPersistent \<and> hasAsync w
           then ''# Persistent asyncio event loop, used by every async shim.'' @ nl
                @ ''_MOCHI_LOOP = _persistent_loop()'' @ nl
           else [])
     in wrap head tail (each_item (py_item ip w) (Items w)))"

fun anno_args :: "nat \<Rightarrow> MochiType list \<Rightarrow> bytes option list" where
  "anno_args i [] = []"
| "anno_args i (p # ps) = wrap (arg i @ '': '') [] (renderPyAnno p) # anno_args (Suc i) ps"

definition stub_line :: "bytes \<Rightarrow> bytes \<Rightarrow> bytes option \<Rightarrow> bytes option \<Rightarrow> bytes option" where
  "stub_line lead name args ret =
    append_opt (wrap (lead @ name @ ''('') '') -> '' args) (wrap [] ('': ...'' @ nl) ret)"

definition renderFuncPYI :: "Item \<Rightarrow> bytes option" where
  "renderFuncPYI it =
    (case (FunParams (IType it), FunReturn (IType it)) of
       (Some params, Some ret) \<Rightarrow>
         (let args = seq_join '', '' (anno_args 0 params); r = renderPyAnno ret;
              line = stub_line ''def '' (IName it) args r
          in if IIsAsync it
             then append_opt line (stub_line ''async def '' (trim_suffix (IName it) ''_sync'' @ ''_async'') args r)
             else line)
     | _ \<Rightarrow> None)"

definition by_sorted_name :: "(bytes \<times> bytes option) list \<Rightarrow> bytes option" where
  "by_sorted_name idx = seq_join [] (map (by_name idx) (sort_strings (map fst idx)))"

definition renderRecordPYI :: "Item \<Rightarrow> bytes option" where
  "renderRecordPYI it =
    wrap (''class '' @ IName it @ ''(TypedDict, total=False):'' @ nl) []
      (if Fields (IType it) = [] then Some (''    pass'' @ nl)
       else by_sorted_name
         (map (\<lambda>f. (FName f, wrap (''    '' @ FName f @ '': '') nl (renderPyAnno (FType f)))) (Fields (IType it))))"

definition method_stub :: "MochiMethod \<Rightarrow> bytes \<times> bytes option" where
  "method_stub m =
    (MethName m,
     stub_line (if MethAsync m then ''    async def '' else ''    def '') (MethName m)
       (seq_join '', '' (Some ''self'' # anno_args 0 (MethParams m))) (renderPyAnno (MethReturn m)))"

definition renderInterfacePYI :: "Item \<Rightarrow> bytes option" where
  "renderInterfacePYI it =
    wrap (''class '' @ IName it @ ''(Protocol):'' @ nl) []
      (if Methods (IType it) = [] then Some (''    pass'' @ nl)
       else by_sorted_name (map method_stub (Methods (IType it))))"

definition pyi_item :: "Item \<Rightarrow> bytes option" where
  "pyi_item it =
    (case IKind it of
       ItemFunc \<Rightarrow> renderFuncPYI it
     | ItemRecord \<Rightarrow> renderRecordPYI it
     | ItemInterface \<Rightarrow> renderInterfacePYI it
     | ItemConstant \<Rightarrow> wrap (IName it @ '': '') nl (renderPyAnno (IType it)))"

definition renderPYI :: "Wrapper \<Rightarrow> bytes option" where
  "renderPYI w =
    wrap (''# Auto-generated by mochi pkg lock '' @ em_dash @ '' do not edit.'' @ nl
          @ ''# MEP-71 wrapper stub for source package: '' @ WPackage w @ ''.'' @ nl
          @ nl
          @ ''from __future__ import annotations'' @ nl
          @ ''from typing import Any, AsyncIterator, Awaitable, Callable, Iterable, Mapping, Optional, Protocol, Tuple, TypedDict, Union'' @ nl
          @ nl) []
      (each_item pyi_item (Items w))"

subsection \<open>Synthesis (synth.go)\<close>

datatype SynthError = EmptyPackage | NilSurface | BadPackage bytes

definition qualify :: "bytes \<Rightarrow> bytes \<Rightarrow> bytes" where
  "qualify pkg path =
    (if has_prefix path (pkg @ ''.'') \<or> path = pkg then path
     else if path = [] then pkg else pkg @ ''.'' @ path)"

definition isPrivate :: "bytes \<Rightarrow> bool" where
  "isPrivate name \<longleftrightarrow> has_prefix name ''_'' \<and> \<not> (has_prefix name ''__'' \<and> has_suffix name ''__'')"

fun py_ident_from :: "nat \<Rightarrow> int list \<Rightarrow> bool" where
  "py_ident_from i [] = True"
| "py_ident_from i (r # rs) =
    (if r = 95 \<or> (97 \<le> r \<and> r \<le> 122) \<or> (65 \<le> r \<and> r \<le> 90) then py_ident_from (Suc i) rs
     else if i > 0 \<and> 48 \<le> r \<and> r \<le> 57 then py_ident_from (Suc i) rs
     else False)"

definition isValidPyIdent :: "bytes \<Rightarrow> bool" where
  "isValidPyIdent s \<longleftrightarrow> (if s = [] then False else py_ident_from 0 (runes s))"

definition private_report :: "bytes \<Rightarrow> bytes \<Rightarrow> bytes \<Rightarrow> SkipReport" where
  "private_report pkg what name =
    \<lparr>ItemPath = pkg @ ''.'' @ name, Reason = SkipPrivateName,
     Detail = what @ '' '' @ name @ '' is private (leading underscore)'', Override = []\<rparr>"

definition qualify_report :: "bytes \<Rightarrow> SkipReport \<Rightarrow> SkipReport" where
  "qualify_report pkg r = r\<lparr>ItemPath := qualify pkg (ItemPath r)\<rparr>"

text \<open>What one turn of each of the three loops appends to the items and to the skipped.\<close>

definition synth_class ::
  "(int \<Rightarrow> bool) \<Rightarrow> Mapper \<Rightarrow> bytes \<Rightarrow> ClassDecl \<Rightarrow> Item list \<times> SkipReport list" where
  "synth_class ip m pkg c =
    (if isPrivate (CdName c) then ([], [private_report pkg ''class'' (CdName c)])
     else case MapClass ip m c of
       Inl r \<Rightarrow> ([], [qualify_report pkg r])
     | Inr dec \<Rightarrow>
         ([\<lparr>IName = CdName c, SourceName = pkg @ ''.'' @ CdName c,
            IKind = (if MKind (CType dec) = KindInterface then ItemInterface else ItemRecord),
            IType = CType dec, IIsAsync = False, ILoop = EventLoopPerCall\<rparr>],
          map (qualify_report pkg) (CSkipped dec)))"

definition synth_function ::
  "(int \<Rightarrow> bool) \<Rightarrow> Mapper \<Rightarrow> bytes \<Rightarrow> EventLoopMode \<Rightarrow> FuncDecl \<Rightarrow> Item list \<times> SkipReport list" where
  "synth_function ip m pkg loop fn =
    (if isPrivate (FnName fn) then ([], [private_report pkg ''function'' (FnName fn)])
     else case MapFunction ip m fn of
       Inl r \<Rightarrow> ([], [qualify_report pkg r])
     | Inr t \<Rightarrow>
         ([\<lparr>IName = (if IsAsync fn then FnName fn @ ''_sync'' else FnName fn),
            SourceName = pkg @ ''.'' @ FnName fn, IKind = ItemFunc, IType = t,
            IIsAsync = IsAsync fn, ILoop = loop\<rparr>], []))"

definition synth_constant ::
  "(int \<Rightarrow> bool) \<Rightarrow> Mapper \<Rightarrow> bytes \<Rightarrow> ConstantDecl \<Rightarrow> Item list \<times> SkipReport list" where
  "synth_constant ip m pkg c =
    (if isPrivate (CoName c) then ([], [private_report pkg ''constant'' (CoName c)])
     else if CoType c = [] then
       ([], [\<lparr>ItemPath = pkg @ ''.'' @ CoName c, Reason = SkipUnsupportedTypingConstruct,
              Detail = ''constant '' @ CoName c @ '' has no annotation'', Override = []\<rparr>])
     else case Map ip m (CoType c) of
       Inl r \<Rightarrow> ([], [r\<lparr>ItemPath := pkg @ ''.'' @ CoName c\<rparr>])
     | Inr t \<Rightarrow>
         ([\<lparr>IName = CoName c, SourceName = pkg @ ''.'' @ CoName c, IKind = ItemConstant,
            IType = t, IIsAsync = False, ILoop = EventLoopPerCall\<rparr>], []))"

fun synth_loop ::
  "('d \<Rightarrow> Item list \<times> SkipReport list) \<Rightarrow> Item list \<times> SkipReport list \<Rightarrow> 'd list \<Rightarrow> Item list \<times> SkipReport list" where
  "synth_loop f acc [] = acc"
| "synth_loop f acc (d # ds) =
    (case f d of (its, ss) \<Rightarrow> synth_loop f (fst acc @ its, snd acc @ ss) ds)"

definition item_less :: "Item \<Rightarrow> Item \<Rightarrow> bool" where
  "item_less a b \<longleftrightarrow> SourceName a < SourceName b"

definition report_less :: "SkipReport \<Rightarrow> SkipReport \<Rightarrow> bool" where
  "report_less a b \<longleftrightarrow> ItemPath a < ItemPath b"

definition synth_all ::
  "(int \<Rightarrow> bool) \<Rightarrow> Mapper \<Rightarrow> bytes \<Rightarrow> EventLoopMode \<Rightarrow> ModuleSurface \<Rightarrow> Item list \<times> SkipReport list" where
  "synth_all ip m pkg loop sf =
    synth_loop (synth_constant ip m pkg)
      (synth_loop (synth_function ip m pkg loop)
        (synth_loop (synth_class ip m pkg) ([], []) (ModuleSurface.Classes sf))
        (Functions sf))
      (Constants sf)"

definition synth_mapper :: "Options \<Rightarrow> Mapper" where
  "synth_mapper opts = \<lparr>TypeVars = {}, Classes = {}, AllowPartial = OAllowPartial opts, MItemPath = []\<rparr>"

definition new_wrapper :: "bytes \<Rightarrow> Options \<Rightarrow> Item list \<times> SkipReport list \<Rightarrow> Wrapper" where
  "new_wrapper pkg opts acc =
    \<lparr>WPackage = pkg, WModule = pkg @ ''_externs'', PySource = [], PYISource = [],
     Items = sort_stable item_less (fst acc), Skipped = sort_stable report_less (snd acc), WLoop = OLoop opts\<rparr>"

text \<open>
  The receiver of the mapper is reused for every declaration; each call overwrites its item path
  before it reads it, or the caller overwrites the path of the report, so it starts empty here.
  The surface is a pointer that may be nil.  An inner \<open>None\<close> is a panic of a renderer.
\<close>

definition Synthesise ::
  "(int \<Rightarrow> bool) \<Rightarrow> bytes \<Rightarrow> ModuleSurface option \<Rightarrow> Options \<Rightarrow> SynthError + Wrapper option" where
  "Synthesise ip pkg surface opts =
    (if pkg = [] then Inl EmptyPackage
     else case surface of
       None \<Rightarrow> Inl NilSurface
     | Some sf \<Rightarrow>
         if \<not> isValidPyIdent pkg then Inl (BadPackage pkg)
         else
           let w = new_wrapper pkg opts (synth_all ip (synth_mapper opts) pkg (OLoop opts) sf)
           in Inr (case renderPy ip w of
                None \<Rightarrow> None
              | Some py \<Rightarrow> (case renderPYI w of
                  None \<Rightarrow> None
                | Some pyi \<Rightarrow> Some (w\<lparr>PySource := py, PYISource := pyi\<rparr>))))"

definition SkippedText :: "Wrapper \<Rightarrow> bytes" where
  "SkippedText w =
    (if Skipped w = [] then ''# No items skipped during wrapper synthesis for '' @ WPackage w @ ''.'' @ nl
     else ''# Wrapper synthesis skipped the following items in '' @ WPackage w @ ''.'' @ nl @ nl
          @ concat (map (\<lambda>s. SkipReport_String s @ nl) (Skipped w)))"

subsection \<open>No panic\<close>

lemma anno_wf: "mochi_wf t \<Longrightarrow> renderPyAnno t \<noteq> None"
proof (induction t rule: renderPyAnno.induct)
  case (1 k name ps fs ms)
  have ps: "\<forall>r \<in> set (map renderPyAnno ps). r \<noteq> None"
    using 1 by (auto simp: list_all_iff)
  then have tup: "None \<notin> set (map renderPyAnno ps)" by blast
  then have tk: "None \<notin> set (take n (map renderPyAnno ps))" for n by (meson in_set_takeD)
  have par: "param (map renderPyAnno ps) i \<noteq> None" if "i < length ps" for i
    using ps that by (simp add: param_def)
  show ?case
    using 1(2) par seq_join_Some [THEN iffD2, OF tup] seq_join_Some [THEN iffD2, OF tk]
    by (cases k) (auto simp: Let_def simp del: not_None_eq)
qed

lemma anno_args_wf: "list_all mochi_wf ps \<Longrightarrow> None \<notin> set (anno_args i ps)"
proof (induction ps arbitrary: i)
  case (Cons p ps)
  then have "wrap (arg i @ '': '') [] (renderPyAnno p) \<noteq> None" using anno_wf [of p] by (simp del: not_None_eq)
  then show ?case using Cons by (auto simp del: not_None_eq simp: eq_commute [of None])
qed simp

lemma stub_line_None [simp]: "stub_line lead n a r = None \<longleftrightarrow> a = None \<or> r = None"
  by (simp add: stub_line_def)

lemma by_sorted_name_Some: "\<forall>p \<in> set idx. snd p \<noteq> None \<Longrightarrow> by_sorted_name idx \<noteq> None"
  using members_Some [of idx "[]"] by (simp add: members_def by_sorted_name_def del: not_None_eq)

lemma each_item_Some: "\<forall>it \<in> set its. f it \<noteq> None \<Longrightarrow> each_item f its \<noteq> None"
  by (induction its) (auto simp del: not_None_eq)

text \<open>The items the synthesiser makes: a well-formed type, of the function kind for a function.\<close>

definition item_ok :: "Item \<Rightarrow> bool" where
  "item_ok it \<longleftrightarrow> mochi_wf (IType it) \<and>
     (case IKind it of
        ItemFunc \<Rightarrow> MKind (IType it) = KindFun
      | ItemRecord \<Rightarrow> MKind (IType it) = KindRecord \<and> \<not> IIsAsync it
      | ItemInterface \<Rightarrow> MKind (IType it) = KindInterface \<and> \<not> IIsAsync it
      | ItemConstant \<Rightarrow> \<not> IIsAsync it)"

lemma fun_parts_wf:
  assumes "mochi_wf t" "MKind t = KindFun"
  shows "\<exists>ps r. FunParams t = Some ps \<and> FunReturn t = Some r \<and> list_all mochi_wf ps \<and> mochi_wf r"
proof -
  obtain name ps fs ms where t: "t = MType KindFun name ps fs ms" using assms(2) by (cases t) auto
  have "1 \<le> length ps" "list_all mochi_wf ps" using assms(1) t by auto
  then show ?thesis
    by (auto simp: FunParams_def FunReturn_def t list_all_iff dest: in_set_takeD)
qed

lemma item_stub: "item_ok it \<Longrightarrow> pyi_item it \<noteq> None"
proof -
  assume ok: "item_ok it"
  obtain k name ps fs ms where t: "IType it = MType k name ps fs ms" by (cases "IType it")
  have wf: "mochi_wf (MType k name ps fs ms)" using ok t by (simp add: item_ok_def)
  show ?thesis
  proof (cases "IKind it")
    case ItemFunc
    then have "\<exists>ps r. FunParams (IType it) = Some ps \<and> FunReturn (IType it) = Some r \<and> list_all mochi_wf ps \<and> mochi_wf r"
      using fun_parts_wf ok by (simp add: item_ok_def)
    then obtain qs r where q: "FunParams (IType it) = Some qs" "FunReturn (IType it) = Some r"
        "list_all mochi_wf qs" "mochi_wf r" by blast
    then show ?thesis
      using ItemFunc seq_join_Some [THEN iffD2, OF anno_args_wf [OF q(3)]] anno_wf [OF q(4)]
      by (simp add: pyi_item_def renderFuncPYI_def Let_def del: not_None_eq)
  next
    case ItemRecord
    have "field_wf f" if "f \<in> set fs" for f using wf that by (simp add: list_all_iff)
    then have "renderPyAnno (FType f) \<noteq> None" if "f \<in> set fs" for f
      using that anno_wf by (cases f) fastforce
    then have "\<forall>p \<in> set (map (\<lambda>f. (FName f, wrap (''    '' @ FName f @ '': '') nl (renderPyAnno (FType f)))) fs). snd p \<noteq> None"
      by (simp del: not_None_eq)
    then show ?thesis using ItemRecord by_sorted_name_Some
      by (simp add: pyi_item_def renderRecordPYI_def t del: not_None_eq)
  next
    case ItemInterface
    have m: "snd (method_stub m) \<noteq> None" if "m \<in> set ms" for m
    proof -
      have "method_wf m" using wf that by (simp add: list_all_iff)
      then have "list_all mochi_wf (MethParams m)" "mochi_wf (MethReturn m)" by (cases m; simp)+
      then show ?thesis
        using anno_args_wf [of "MethParams m" 0] anno_wf [of "MethReturn m"]
        by (simp add: method_stub_def seq_join_Some del: not_None_eq)
    qed
    then show ?thesis using ItemInterface by_sorted_name_Some [of "map method_stub ms"]
      by (simp add: pyi_item_def renderInterfacePYI_def t del: not_None_eq)
  next
    case ItemConstant
    then show ?thesis using anno_wf [OF wf] t by (simp add: pyi_item_def del: not_None_eq)
  qed
qed

lemma item_py: "item_ok it \<Longrightarrow> py_item ip w it \<noteq> None"
  using fun_parts_wf [of "IType it"]
  by (cases "IKind it") (auto simp: item_ok_def py_item_def renderFunc_def Let_def)

lemma renderPy_Some: "\<forall>it \<in> set (Items w). item_ok it \<Longrightarrow> renderPy ip w \<noteq> None"
  using each_item_Some [of "Items w" "py_item ip w"] item_py
  by (simp add: renderPy_def Let_def del: not_None_eq)

lemma renderPYI_Some: "\<forall>it \<in> set (Items w). item_ok it \<Longrightarrow> renderPYI w \<noteq> None"
  using each_item_Some [of "Items w" pyi_item] item_stub by (simp add: renderPYI_def del: not_None_eq)

subsection \<open>Accounting\<close>

lemma synth_loop_eq:
  "synth_loop f acc ds = (fst acc @ concat (map (\<lambda>d. fst (f d)) ds), snd acc @ concat (map (\<lambda>d. snd (f d)) ds))"
  by (induction f acc ds rule: synth_loop.induct) (auto split: prod.split)

text \<open>
  The contract of one turn: exactly one well-formed item of the declaration's source name when it is
  accepted, a report under the declaration's name when it is not.
\<close>

definition turn_ok :: "bytes \<Rightarrow> bytes \<Rightarrow> bool \<Rightarrow> Item list \<times> SkipReport list \<Rightarrow> bool" where
  "turn_ok pkg name acc out \<longleftrightarrow>
     (if acc then \<exists>it. fst out = [it] \<and> SourceName it = pkg @ ''.'' @ name \<and> item_ok it
      else fst out = [] \<and> (\<exists>r. snd out = [r] \<and> ItemPath r \<in> {pkg @ ''.'' @ name, qualify pkg name}))"

text \<open>A name is hidden when it starts with an underscore and is no dunder.\<close>

definition hidden_name :: "bytes \<Rightarrow> bool" where
  "hidden_name n \<longleftrightarrow> (\<exists>r. n = ''_'' @ r) \<and> \<not> ((\<exists>r. n = ''__'' @ r) \<and> (\<exists>r. n = r @ ''__''))"

lemma hidden_name_code [code]: "hidden_name n \<longleftrightarrow> prefix ''_'' n \<and> \<not> (prefix ''__'' n \<and> suffix ''__'' n)"
  by (simp add: hidden_name_def prefix_def suffix_def)

lemma isPrivate_hidden: "isPrivate n \<longleftrightarrow> hidden_name n"
  by (simp add: isPrivate_def hidden_name_def prefix_def suffix_def)

definition accepts_class :: "(int \<Rightarrow> bool) \<Rightarrow> Mapper \<Rightarrow> ClassDecl \<Rightarrow> bool" where
  "accepts_class ip m c \<longleftrightarrow> \<not> hidden_name (CdName c) \<and> isOK (MapClass ip m c)"

definition accepts_function :: "(int \<Rightarrow> bool) \<Rightarrow> Mapper \<Rightarrow> FuncDecl \<Rightarrow> bool" where
  "accepts_function ip m fn \<longleftrightarrow> \<not> hidden_name (FnName fn) \<and> isOK (MapFunction ip m fn)"

definition accepts_constant :: "(int \<Rightarrow> bool) \<Rightarrow> Mapper \<Rightarrow> ConstantDecl \<Rightarrow> bool" where
  "accepts_constant ip m c \<longleftrightarrow> \<not> hidden_name (CoName c) \<and> CoType c \<noteq> [] \<and> isOK (Map ip m (CoType c))"

lemma class_turn: "turn_ok pkg (CdName c) (accepts_class ip m c) (synth_class ip m pkg c)"
proof (cases "hidden_name (CdName c)")
  case True
  then show ?thesis by (simp add: turn_ok_def synth_class_def accepts_class_def isPrivate_hidden private_report_def)
next
  case False
  show ?thesis
  proof (cases "MapClass ip m c")
    case (Inl r)
    then show ?thesis using False closed_table.mapClass_skip [of ip m c r]
      by (simp add: turn_ok_def synth_class_def accepts_class_def isPrivate_hidden qualify_report_def MapClass_def)
  next
    case (Inr dec)
    then show ?thesis using False closed_table.mapClass_type [of ip m c dec]
      by (auto simp: turn_ok_def synth_class_def accepts_class_def isPrivate_hidden item_ok_def MapClass_def)
  qed
qed

lemma function_turn: "turn_ok pkg (FnName fn) (accepts_function ip m fn) (synth_function ip m pkg loop fn)"
proof (cases "hidden_name (FnName fn)")
  case True
  then show ?thesis by (simp add: turn_ok_def synth_function_def accepts_function_def isPrivate_hidden private_report_def)
next
  case False
  show ?thesis
  proof (cases "MapFunction ip m fn")
    case (Inl r)
    then show ?thesis using False closed_table.mapFunction_skip [of ip m fn r]
      by (simp add: turn_ok_def synth_function_def accepts_function_def isPrivate_hidden qualify_report_def MapFunction_def)
  next
    case (Inr t)
    then show ?thesis using False closed_table.mapFunction_type [of ip m fn t]
      by (auto simp: turn_ok_def synth_function_def accepts_function_def isPrivate_hidden item_ok_def MapFunction_def)
  qed
qed

lemma constant_turn: "turn_ok pkg (CoName c) (accepts_constant ip m c) (synth_constant ip m pkg c)"
  using closed_table.table_type [of ip m "CoType c"]
  by (auto simp: turn_ok_def synth_constant_def accepts_constant_def isPrivate_hidden item_ok_def private_report_def
      split: sum.splits)

text \<open>Three loops in a row, each keeping its contract.\<close>

lemma turns_items:
  assumes "\<And>d. turn_ok pkg (name d) (acc d) (f d)"
  shows "map SourceName (concat (map (\<lambda>d. fst (f d)) ds)) = map (\<lambda>d. pkg @ ''.'' @ name d) (filter acc ds)
    \<and> (\<forall>it \<in> set (concat (map (\<lambda>d. fst (f d)) ds)). item_ok it)"
proof (induction ds)
  case (Cons d ds)
  show ?case using assms [of d] Cons by (cases "acc d") (auto simp: turn_ok_def)
qed simp

lemma turns_skips:
  assumes "\<And>d. turn_ok pkg (name d) (acc d) (f d)" "d \<in> set ds" "\<not> acc d"
  shows "\<exists>r \<in> set (concat (map (\<lambda>d. snd (f d)) ds)). ItemPath r \<in> {pkg @ ''.'' @ name d, qualify pkg (name d)}"
proof -
  obtain r where "snd (f d) = [r]" "ItemPath r \<in> {pkg @ ''.'' @ name d, qualify pkg (name d)}"
    using assms(1) [of d] assms(3) by (auto simp: turn_ok_def)
  then show ?thesis using assms(2) by (intro bexI [of _ r]) force+
qed

interpretation items: sort_less item_less
proof -
  have "sort_less (\<lambda>a b. SourceName a < SourceName b)" by (rule sort_less_key [OF sort_less_lin])
  then show "sort_less item_less" by (simp add: item_less_def [abs_def])
qed

interpretation reports: sort_less report_less
proof -
  have "sort_less (\<lambda>a b. ItemPath a < ItemPath b)" by (rule sort_less_key [OF sort_less_lin])
  then show "sort_less report_less" by (simp add: report_less_def [abs_def])
qed

text \<open>The declared names the synthesiser accepts, in the order of its loops.\<close>

definition accepted_names :: "(int \<Rightarrow> bool) \<Rightarrow> Options \<Rightarrow> ModuleSurface \<Rightarrow> bytes list" where
  "accepted_names ip opts sf =
     map CdName (filter (accepts_class ip (synth_mapper opts)) (ModuleSurface.Classes sf))
     @ map FnName (filter (accepts_function ip (synth_mapper opts)) (Functions sf))
     @ map CoName (filter (accepts_constant ip (synth_mapper opts)) (Constants sf))"

definition refused_names :: "(int \<Rightarrow> bool) \<Rightarrow> Options \<Rightarrow> ModuleSurface \<Rightarrow> bytes list" where
  "refused_names ip opts sf =
     map CdName (filter (\<lambda>c. \<not> accepts_class ip (synth_mapper opts) c) (ModuleSurface.Classes sf))
     @ map FnName (filter (\<lambda>f. \<not> accepts_function ip (synth_mapper opts) f) (Functions sf))
     @ map CoName (filter (\<lambda>c. \<not> accepts_constant ip (synth_mapper opts) c) (Constants sf))"

lemma renderPy_sources: "renderPy ip (w\<lparr>PySource := a, PYISource := b\<rparr>) = renderPy ip w"
proof -
  have loop: "WLoop (w\<lparr>PySource := a, PYISource := b\<rparr>) = WLoop w" by simp
  have "py_item ip (w\<lparr>PySource := a, PYISource := b\<rparr>) = py_item ip w"
    unfolding py_item_def renderFunc_def loop ..
  then show ?thesis by (simp add: renderPy_def hasAsync_def wrapperHelpers_def)
qed

lemma renderPYI_sources: "renderPYI (w\<lparr>PySource := a, PYISource := b\<rparr>) = renderPYI w"
  by (simp add: renderPYI_def)

lemma Synthesise_facts:
  assumes "pkg \<noteq> []" "isValidPyIdent pkg"
  shows "\<exists>w. Synthesise ip pkg (Some sf) opts = Inr (Some w)
    \<and> WPackage w = pkg \<and> WModule w = pkg @ ''_externs'' \<and> WLoop w = OLoop opts
    \<and> renderPy ip w = Some (PySource w) \<and> renderPYI w = Some (PYISource w)
    \<and> mset (map SourceName (Items w)) = image_mset (\<lambda>n. pkg @ ''.'' @ n) (mset (accepted_names ip opts sf))
    \<and> (\<forall>it \<in> set (Items w). item_ok it)
    \<and> sorted (map SourceName (Items w)) \<and> sorted (map ItemPath (Skipped w))
    \<and> (\<forall>n \<in> set (refused_names ip opts sf). \<exists>r \<in> set (Skipped w). ItemPath r \<in> {pkg @ ''.'' @ n, qualify pkg n})"
proof -
  let ?m = "synth_mapper opts"
  let ?C = "synth_class ip ?m pkg" and ?F = "synth_function ip ?m pkg (OLoop opts)" and ?K = "synth_constant ip ?m pkg"
  let ?I = "concat (map (\<lambda>d. fst (?C d)) (ModuleSurface.Classes sf)) @ concat (map (\<lambda>d. fst (?F d)) (Functions sf))
      @ concat (map (\<lambda>d. fst (?K d)) (Constants sf))"
  let ?S = "concat (map (\<lambda>d. snd (?C d)) (ModuleSurface.Classes sf)) @ concat (map (\<lambda>d. snd (?F d)) (Functions sf))
      @ concat (map (\<lambda>d. snd (?K d)) (Constants sf))"
  have all: "synth_all ip ?m pkg (OLoop opts) sf = (?I, ?S)" by (simp add: synth_all_def synth_loop_eq)
  define w where "w = new_wrapper pkg opts (?I, ?S)"
  note C = turns_items [of pkg CdName "accepts_class ip ?m" ?C, OF class_turn]
  note F = turns_items [of pkg FnName "accepts_function ip ?m" ?F, OF function_turn]
  note K = turns_items [of pkg CoName "accepts_constant ip ?m" ?K, OF constant_turn]
  have ok: "\<forall>it \<in> set (Items w). item_ok it" using C F K by (auto simp: w_def new_wrapper_def)
  obtain py pyi where py: "renderPy ip w = Some py" "renderPYI w = Some pyi"
    using renderPy_Some [OF ok, of ip] renderPYI_Some [OF ok] by blast
  have syn: "Synthesise ip pkg (Some sf) opts = Inr (Some (w\<lparr>PySource := py, PYISource := pyi\<rparr>))"
    using assms py by (simp add: Synthesise_def all Let_def flip: w_def)
  have "map SourceName ?I = map (\<lambda>n. pkg @ ''.'' @ n) (accepted_names ip opts sf)"
    using C F K by (simp add: accepted_names_def)
  moreover have "mset (map SourceName (Items w)) = mset (map SourceName ?I)"
    by (simp add: w_def new_wrapper_def)
  ultimately have names: "mset (map SourceName (Items w)) = image_mset (\<lambda>n. pkg @ ''.'' @ n) (mset (accepted_names ip opts sf))"
    by simp
  have skip: "\<exists>r \<in> set (Skipped w). ItemPath r \<in> {pkg @ ''.'' @ n, qualify pkg n}" if n: "n \<in> set (refused_names ip opts sf)" for n
  proof -
    have S: "set (Skipped w) = set ?S" by (simp add: w_def new_wrapper_def)
    consider c where "c \<in> set (ModuleSurface.Classes sf)" "\<not> accepts_class ip ?m c" "n = CdName c"
      | c where "c \<in> set (Functions sf)" "\<not> accepts_function ip ?m c" "n = FnName c"
      | c where "c \<in> set (Constants sf)" "\<not> accepts_constant ip ?m c" "n = CoName c"
      using n by (auto simp: refused_names_def)
    then show ?thesis
    proof cases
      case 1
      from turns_skips [of pkg CdName "accepts_class ip ?m" ?C, OF class_turn 1(1,2)] show ?thesis
        unfolding S 1(3) by (simp only: set_append) blast
    next
      case 2
      from turns_skips [of pkg FnName "accepts_function ip ?m" ?F, OF function_turn 2(1,2)] show ?thesis
        unfolding S 2(3) by (simp only: set_append) blast
    next
      case 3
      from turns_skips [of pkg CoName "accepts_constant ip ?m" ?K, OF constant_turn 3(1,2)] show ?thesis
        unfolding S 3(3) by (simp only: set_append) blast
    qed
  qed
  have "sorted (map SourceName (Items w))" "sorted (map ItemPath (Skipped w))"
    using items.sorted_sort_stable [of ?I] reports.sorted_sort_stable [of ?S]
    by (simp_all add: w_def new_wrapper_def sorted_map item_less_def [abs_def] report_less_def [abs_def] not_less)
  moreover have "renderPy ip (w\<lparr>PySource := py, PYISource := pyi\<rparr>) = Some py"
    "renderPYI (w\<lparr>PySource := py, PYISource := pyi\<rparr>) = Some pyi"
    using py by (simp_all add: renderPy_sources renderPYI_sources)
  ultimately show ?thesis
    using syn ok names skip
    by (intro exI [of _ "w\<lparr>PySource := py, PYISource := pyi\<rparr>"]) (simp add: w_def new_wrapper_def)
qed

subsection \<open>The reports\<close>

text \<open>
  The paths, inside the package, that are reported: a class or function that is hidden or refused by the
  mapper, a constant that is hidden, has no annotation or is refused, and the members of a mapped class
  that the mapper refuses.
\<close>

definition refused_members :: "(int \<Rightarrow> bool) \<Rightarrow> Mapper \<Rightarrow> ClassDecl \<Rightarrow> bytes list" where
  "refused_members ip m c =
    (let m' = m\<lparr>MItemPath := CdName c\<rparr> in
     if IsProtocol c then map FnName (filter (\<lambda>f. \<not> isOK (mapMethod (Map ip) m' (CdName c) f)) (CdMethods c))
     else map FdName (filter (\<lambda>f. \<not> isOK (mapField (Map ip) m' (CdName c) f)) (CdFields c)))"

definition class_reports :: "(int \<Rightarrow> bool) \<Rightarrow> Mapper \<Rightarrow> ClassDecl \<Rightarrow> bytes list" where
  "class_reports ip m c =
    (if accepts_class ip m c then map (\<lambda>n. CdName c @ ''.'' @ n) (refused_members ip m c) else [CdName c])"

definition report_paths :: "(int \<Rightarrow> bool) \<Rightarrow> Options \<Rightarrow> ModuleSurface \<Rightarrow> bytes list" where
  "report_paths ip opts sf =
     concat (map (class_reports ip (synth_mapper opts)) (ModuleSurface.Classes sf))
     @ map FnName (filter (\<lambda>f. \<not> accepts_function ip (synth_mapper opts) f) (Functions sf))
     @ map CoName (filter (\<lambda>c. \<not> accepts_constant ip (synth_mapper opts) c) (Constants sf))"

text \<open>The names of classes and functions are identifiers other than the package's.\<close>

definition plain_decl :: "bytes \<Rightarrow> bytes \<Rightarrow> bool" where
  "plain_decl pkg n \<longleftrightarrow> n \<noteq> [] \<and> CHR ''.'' \<notin> set n \<and> n \<noteq> pkg"

definition plain_surface :: "bytes \<Rightarrow> ModuleSurface \<Rightarrow> bool" where
  "plain_surface pkg sf \<longleftrightarrow>
     (\<forall>c \<in> set (ModuleSurface.Classes sf). plain_decl pkg (CdName c)) \<and> (\<forall>f \<in> set (Functions sf). plain_decl pkg (FnName f))"

lemma py_ident_no_dot: "py_ident_from i rs \<Longrightarrow> r \<in> set rs \<Longrightarrow> r < 123 \<and> r \<noteq> 46"
  by (induction i rs rule: py_ident_from.induct) (auto split: if_splits)

lemma package_no_dot:
  assumes "isValidPyIdent pkg"
  shows "CHR ''.'' \<notin> set pkg"
proof -
  have r: "\<forall>r \<in> set (runes pkg). r < 123 \<and> r \<noteq> 46"
    using assms py_ident_no_dot [of 0 "runes pkg"] by (auto simp: isValidPyIdent_def split: if_splits)
  then have "ascii pkg" by (intro runes_small) auto
  with r have "\<forall>c \<in> set pkg. byte c \<noteq> 46" by (simp add: runes_ascii)
  moreover have "byte (CHR ''.'') = 46" by (simp add: byte_def)
  ultimately show ?thesis by auto
qed

lemma takeWhile_dot: "CHR ''.'' \<notin> set a \<Longrightarrow> takeWhile (\<lambda>x. x \<noteq> CHR ''.'') (a @ CHR ''.'' # b) = a"
  by (induction a) auto

lemma qualify_decl:
  assumes "plain_decl pkg n"
  shows "qualify pkg n = pkg @ ''.'' @ n"
  using assms by (auto simp: qualify_def plain_decl_def prefix_def)

lemma qualify_member:
  assumes "plain_decl pkg c" "CHR ''.'' \<notin> set pkg"
  shows "qualify pkg (c @ ''.'' @ n) = pkg @ ''.'' @ c @ ''.'' @ n"
proof -
  have c: "CHR ''.'' \<notin> set c" "c \<noteq> pkg" using assms(1) by (simp_all add: plain_decl_def)
  have "\<not> prefix (pkg @ ''.'') (c @ ''.'' @ n)"
  proof
    assume "prefix (pkg @ ''.'') (c @ ''.'' @ n)"
    then obtain r where "c @ CHR ''.'' # n = pkg @ CHR ''.'' # r" by (auto simp: prefix_def)
    with takeWhile_dot [OF c(1), of n] takeWhile_dot [OF assms(2), of r] c(2) show False by simp
  qed
  moreover have "c @ ''.'' @ n \<noteq> pkg" using assms(2) by auto
  ultimately show ?thesis by (simp add: qualify_def)
qed

lemma split_reports:
  assumes "split_members f [] [] xs = (ys, zs)" "\<And>x s. f x = Inl s \<Longrightarrow> ItemPath s = p @ name x"
  shows "map ItemPath zs = map (\<lambda>n. p @ n) (map name (filter (\<lambda>x. \<not> isOK (f x)) xs))"
proof -
  have "map ItemPath (concat (map (\<lambda>x. case f x of Inl s \<Rightarrow> [s] | Inr _ \<Rightarrow> []) xs))
      = map (\<lambda>n. p @ n) (map name (filter (\<lambda>x. \<not> isOK (f x)) xs))"
    by (induction xs) (auto simp: isOK_def assms(2) split: sum.split)
  then show ?thesis using assms(1) by (simp add: split_members_eq)
qed

lemma class_member_reports:
  assumes "MapClass ip m c = Inr dec"
  shows "map ItemPath (CSkipped dec) = map (\<lambda>n. CdName c @ ''.'' @ n) (refused_members ip m c)"
proof -
  let ?m = "m\<lparr>MItemPath := CdName c\<rparr>"
  obtain fs fskip where f: "split_members (mapField (Map ip) ?m (CdName c)) [] [] (CdFields c) = (fs, fskip)" by fastforce
  obtain ms mskip where d: "split_members (mapMethod (Map ip) ?m (CdName c)) [] [] (CdMethods c) = (ms, mskip)" by fastforce
  have fr: "map ItemPath fskip = map (\<lambda>n. (CdName c @ ''.'') @ n) (map FdName (filter (\<lambda>f. \<not> isOK (mapField (Map ip) ?m (CdName c) f)) (CdFields c)))"
    by (rule split_reports [OF f]) (simp add: closed_table.mapField_skip)
  have mr: "map ItemPath mskip = map (\<lambda>n. (CdName c @ ''.'') @ n) (map FnName (filter (\<lambda>f. \<not> isOK (mapMethod (Map ip) ?m (CdName c) f)) (CdMethods c)))"
    by (rule split_reports [OF d]) (simp add: closed_table.mapMethod_skip)
  show ?thesis
  proof (cases "IsProtocol c")
    case True
    then have "CSkipped dec = mskip" using assms d by (auto simp: MapClass_def mapClass_def mapProtocol_def)
    with mr True show ?thesis by (simp add: refused_members_def)
  next
    case False
    then have "CSkipped dec = fskip"
      using assms f by (auto simp: MapClass_def mapClass_def mapTypedDict_def mapDataclass_def Let_def split: if_splits)
    with fr False show ?thesis by (simp add: refused_members_def)
  qed
qed

lemma class_turn_reports:
  assumes "plain_decl pkg (CdName c)" "CHR ''.'' \<notin> set pkg"
  shows "map ItemPath (snd (synth_class ip m pkg c)) = map (\<lambda>p. pkg @ ''.'' @ p) (class_reports ip m c)"
proof (cases "hidden_name (CdName c)")
  case True
  then show ?thesis by (simp add: synth_class_def class_reports_def accepts_class_def isPrivate_hidden private_report_def)
next
  case False
  show ?thesis
  proof (cases "MapClass ip m c")
    case (Inl r)
    then show ?thesis using False closed_table.mapClass_skip [of ip m c r] qualify_decl [OF assms(1)]
      by (simp add: synth_class_def class_reports_def accepts_class_def isPrivate_hidden qualify_report_def MapClass_def)
  next
    case (Inr dec)
    have "map ItemPath (map (qualify_report pkg) (CSkipped dec)) = map (qualify pkg) (map ItemPath (CSkipped dec))"
      by (simp add: qualify_report_def)
    also have "\<dots> = map (\<lambda>n. pkg @ ''.'' @ CdName c @ ''.'' @ n) (refused_members ip m c)"
      unfolding class_member_reports [OF Inr] using qualify_member [OF assms] by simp
    finally show ?thesis using Inr False by (simp add: synth_class_def class_reports_def accepts_class_def isPrivate_hidden comp_def)
  qed
qed

lemma function_turn_reports:
  assumes "plain_decl pkg (FnName fn)"
  shows "map ItemPath (snd (synth_function ip m pkg loop fn)) = (if accepts_function ip m fn then [] else [pkg @ ''.'' @ FnName fn])"
  using closed_table.mapFunction_skip [of ip m fn] qualify_decl [OF assms]
  by (auto simp: synth_function_def accepts_function_def isPrivate_hidden private_report_def qualify_report_def MapFunction_def split: sum.splits)

lemma constant_turn_reports:
  "map ItemPath (snd (synth_constant ip m pkg c)) = (if accepts_constant ip m c then [] else [pkg @ ''.'' @ CoName c])"
  by (auto simp: synth_constant_def accepts_constant_def isPrivate_hidden private_report_def split: sum.splits)

lemma concat_reports:
  assumes "\<And>d. d \<in> set ds \<Longrightarrow> map g (snd (f d)) = (if acc d then [] else [h d])"
  shows "map g (concat (map (\<lambda>d. snd (f d)) ds)) = map h (filter (\<lambda>d. \<not> acc d) ds)"
  using assms by (induction ds) auto

lemma synth_reports:
  assumes "plain_surface pkg sf" "CHR ''.'' \<notin> set pkg"
  shows "map ItemPath (snd (synth_all ip (synth_mapper opts) pkg (OLoop opts) sf)) = map (\<lambda>p. pkg @ ''.'' @ p) (report_paths ip opts sf)"
proof -
  let ?m = "synth_mapper opts"
  have c: "map ItemPath (concat (map (\<lambda>d. snd (synth_class ip ?m pkg d)) cs)) = map (\<lambda>p. pkg @ ''.'' @ p) (concat (map (class_reports ip ?m) cs))"
    if "\<forall>c \<in> set cs. plain_decl pkg (CdName c)" for cs
    using that class_turn_reports [OF _ assms(2)] by (induction cs) auto
  have f: "map ItemPath (concat (map (\<lambda>d. snd (synth_function ip ?m pkg (OLoop opts) d)) (Functions sf)))
      = map (\<lambda>d. pkg @ ''.'' @ FnName d) (filter (\<lambda>d. \<not> accepts_function ip ?m d) (Functions sf))"
    using assms(1) by (intro concat_reports function_turn_reports) (simp add: plain_surface_def)
  have k: "map ItemPath (concat (map (\<lambda>d. snd (synth_constant ip ?m pkg d)) (Constants sf)))
      = map (\<lambda>d. pkg @ ''.'' @ CoName d) (filter (\<lambda>d. \<not> accepts_constant ip ?m d) (Constants sf))"
    by (intro concat_reports constant_turn_reports)
  show ?thesis
    using c [of "ModuleSurface.Classes sf"] f k assms(1) by (simp add: synth_all_def synth_loop_eq report_paths_def plain_surface_def)
qed

lemma Synthesise_skipped:
  assumes "Synthesise ip pkg (Some sf) opts = Inr (Some w)"
  shows "Skipped w = sort_stable report_less (snd (synth_all ip (synth_mapper opts) pkg (OLoop opts) sf))"
  using assms by (auto simp: Synthesise_def new_wrapper_def Let_def split: if_splits option.splits)

text \<open>
  C34. For a package whose name is a Python identifier the synthesiser always returns a wrapper: no
  renderer panics on the items it made.  The items are, as a multiset of source names, exactly the
  declarations that are not hidden by an underscore and that map, every item carries a well-formed type of
  the shape of its kind, and both lists are sorted.  Everything else is reported once, under its name
  behind that of the package: each declaration that is hidden or does not map, and each member of a mapped
  class that does not.  This last part asks that no class or function has the name of the package itself.
\<close>

theorem Synthesise_accounts:
  assumes "pkg \<noteq> []" "isValidPyIdent pkg"
  shows "\<exists>w. Synthesise ip pkg (Some sf) opts = Inr (Some w)
    \<and> mset (map SourceName (Items w)) = image_mset (\<lambda>n. pkg @ ''.'' @ n) (mset (accepted_names ip opts sf))
    \<and> (plain_surface pkg sf \<longrightarrow>
         mset (map ItemPath (Skipped w)) = image_mset (\<lambda>p. pkg @ ''.'' @ p) (mset (report_paths ip opts sf)))
    \<and> (\<forall>it \<in> set (Items w). item_ok it)
    \<and> sorted (map SourceName (Items w)) \<and> sorted (map ItemPath (Skipped w))"
proof -
  obtain w where w: "Synthesise ip pkg (Some sf) opts = Inr (Some w)"
      "mset (map SourceName (Items w)) = image_mset (\<lambda>n. pkg @ ''.'' @ n) (mset (accepted_names ip opts sf))"
      "\<forall>it \<in> set (Items w). item_ok it" "sorted (map SourceName (Items w))" "sorted (map ItemPath (Skipped w))"
    using Synthesise_facts [OF assms, of ip sf opts] by blast
  let ?S = "snd (synth_all ip (synth_mapper opts) pkg (OLoop opts) sf)"
  have "mset (map ItemPath (Skipped w)) = mset (map ItemPath ?S)" by (simp add: Synthesise_skipped [OF w(1)])
  moreover have "mset (map ItemPath ?S) = image_mset (\<lambda>p. pkg @ ''.'' @ p) (mset (report_paths ip opts sf))" if "plain_surface pkg sf"
    unfolding synth_reports [OF that package_no_dot [OF assms(2)]] by simp
  ultimately show ?thesis using w by auto
qed

definition sample_surface :: ModuleSurface where
  "sample_surface =
    \<lparr>Imports = [], Classes = [point_class],
     Functions = [\<lparr>FnName = ''fetch'', FnParams = [], ReturnType = ''bytes'', FnDecorators = [], IsAsync = True\<rparr>],
     Aliases = [], Constants = [\<lparr>CoName = ''_hidden'', CoType = ''int'', CoDefault = []\<rparr>]\<rparr>"

definition sample_opts :: Options where
  "sample_opts = \<lparr>OLoop = EventLoopPerCall, OAllowPartial = False\<rparr>"

lemma Synthesise_accounts_witness:
  "\<exists>w. Synthesise (\<lambda>_. True) ''web'' (Some sample_surface) sample_opts = Inr (Some w)
     \<and> mset (map SourceName (Items w)) = {#''web.P'', ''web.fetch''#}
     \<and> mset (map ItemPath (Skipped w)) = {#''web.P.y'', ''web._hidden''#}"
proof -
  have "accepted_names (\<lambda>_. True) sample_opts sample_surface = [''P'', ''fetch'']"
    "report_paths (\<lambda>_. True) sample_opts sample_surface = [''P.y'', ''_hidden'']"
    by code_simp+
  moreover have "isValidPyIdent ''web''" by code_simp
  moreover have "plain_surface ''web'' sample_surface" by (simp add: plain_surface_def plain_decl_def sample_surface_def point_class_def)
  ultimately show ?thesis
    using Synthesise_accounts [of "''web''" "\<lambda>_. True" sample_surface sample_opts] by auto
qed

text \<open>A hidden function is reported, as a private name: the wrapper is not silent about it.\<close>

lemma private_reported:
  "hidden_name (FnName fn) \<Longrightarrow>
    synth_function ip m pkg loop fn
      = ([], [\<lparr>ItemPath = pkg @ ''.'' @ FnName fn, Reason = SkipPrivateName,
               Detail = ''function '' @ FnName fn @ '' is private (leading underscore)'', Override = []\<rparr>])"
  by (simp add: synth_function_def isPrivate_hidden private_report_def)

text \<open>
  A refused class that has the name of its package is filed under the package, not under the class;
  and the stub declares the synchronous entry of an async function with an awaitable result, which
  the wrapper has already awaited.
\<close>

lemma qualify_package_name: "qualify pkg pkg = pkg" "qualify pkg (pkg @ ''.x'') = pkg @ ''.x''"
  by (simp_all add: qualify_def)

lemma sync_stub_awaitable:
  "renderFuncPYI \<lparr>IName = ''f_sync'', SourceName = ''p.f'', IKind = ItemFunc,
      IType = NewFun (NewAsync (NewScalar ''bytes'')) [], IIsAsync = True, ILoop = EventLoopPerCall\<rparr>
   = Some (''def f_sync() -> Awaitable[bytes]: ...'' @ nl @ ''async def f_async() -> Awaitable[bytes]: ...'' @ nl)"
  by code_simp

end
