(* ===== verification/Stub_Types.thy ===== *)
theory Stub_Types
  imports Wrapper Stubs_Scan
begin

section \<open>Annotations read back (wrapper/render.go against typemap)\<close>

text \<open>
  The wrapper writes its stub with \<open>renderPyAnno\<close>; the type table reads annotations with \<open>Map\<close>.  On
  the types below the second undoes the first, so a stub means what its wrapper means.
\<close>

definition user_name :: "bytes \<Rightarrow> bool" where
  "user_name n \<longleftrightarrow> ident_ok n \<and> ident_text n \<and> \<not> is_keyword n \<and> lookupScalar n = None \<and> n \<noteq> ''Any''"

fun anno_ok :: "Mapper \<Rightarrow> MochiType \<Rightarrow> bool" where
  "anno_ok m (MType k n ps fs ms) =
    ((case k of
        KindScalar \<Rightarrow> n \<in> set scalar_names \<and> ps = []
      | KindTypeVar \<Rightarrow> n \<in> TypeVars m \<and> user_name n \<and> ps = []
      | KindRef \<Rightarrow> (n \<in> Mapper.Classes m \<and> user_name n \<or> n = ''Self'' \<or> n = ''Any'' \<and> AllowPartial m)
          \<and> n \<notin> TypeVars m \<and> ps = []
      | KindMap \<Rightarrow> n = [] \<and> length ps = 2 \<and> isValidMapKey (ps ! 0)
      | KindOptional \<Rightarrow> n = [] \<and> length ps = 1 \<and> \<not> is_optional (ps ! 0)
      | KindSum \<Rightarrow> n = [] \<and> 2 \<le> length ps \<and> \<not> list_ex is_none ps \<and> \<not> list_ex any_ref ps
      | KindFun \<Rightarrow> n = [] \<and> ps \<noteq> []
      | KindTuple \<Rightarrow> n = []
      | KindRecord \<Rightarrow> False | KindInterface \<Rightarrow> False | KindUnknown \<Rightarrow> False
      | _ \<Rightarrow> n = [] \<and> length ps = 1)
     \<and> list_all (anno_ok m) ps \<and> fs = [] \<and> ms = [])"

text \<open>The tree of an annotation.\<close>

fun anno_tree :: "MochiType \<Rightarrow> PyType" where
  "anno_tree (MType k n ps fs ms) =
    (let ts = map anno_tree ps; generic = (\<lambda>b. PySubscript (PyName b) ts) in
     case k of
       KindScalar \<Rightarrow> if n = ''None'' then PyLiteral n else PyName (scalarPyAnno n)
     | KindList \<Rightarrow> generic ''list''
     | KindSet \<Rightarrow> generic ''set''
     | KindMap \<Rightarrow> generic ''dict''
     | KindTuple \<Rightarrow> generic ''Tuple''
     | KindOptional \<Rightarrow> generic ''Optional''
     | KindSum \<Rightarrow> generic ''Union''
     | KindAsync \<Rightarrow> generic ''Awaitable''
     | KindStream \<Rightarrow> generic ''AsyncIterator''
     | KindFun \<Rightarrow> PySubscript (PyName ''Callable'') [PyTuple (butlast ts), last ts]
     | _ \<Rightarrow> PyName n)"

lemma those_map_Some: "\<forall>x \<in> set xs. f x = Some (g x) \<Longrightarrow> those (map f xs) = Some (map g xs)"
  by (induction xs) auto

lemma one_param: "length ps = 1 \<Longrightarrow> \<exists>p. ps = [p]"
  by (cases ps) auto

lemma two_params: "length ps = 2 \<Longrightarrow> \<exists>p q. ps = [p, q]"
  by (cases ps rule: list.exhaust [OF _ list.exhaust]) (auto simp: length_Suc_conv numeral_2_eq_2)

lemma anno_text: "anno_ok m t \<Longrightarrow> renderPyAnno t = Some (PyType_String (anno_tree t))"
proof (induction t rule: anno_tree.induct)
  case (1 k n ps fs ms)
  then have IH: "\<forall>p \<in> set ps. renderPyAnno p = Some (PyType_String (anno_tree p))"
    by (auto simp: list_all_iff)
  have all: "those (map renderPyAnno ps) = Some (map PyType_String (map anno_tree ps))"
    using those_map_Some [OF IH] by simp
  show ?case
  proof (cases "k = KindFun")
    case True
    then have ne: "ps \<noteq> []" using 1(2) by simp
    then obtain qs r where ps: "ps = qs @ [r]" by (metis append_butlast_last_id)
    have "those (map renderPyAnno qs) = Some (map (PyType_String \<circ> anno_tree) qs)"
      using IH ps by (intro those_map_Some) auto
    then show ?thesis using IH ps True
      by (simp add: Let_def seq_join_def wrap_def append_opt_def param_def nth_append)
  next
    case False
    note def = seq_join_def wrap_def append_opt_def param_def scalarPyAnno_def Let_def
    consider (one) p where "ps = [p]" "n = []" "k \<in> {KindList, KindSet, KindAsync, KindStream, KindOptional}"
      | (two) p q where "ps = [p, q]" "n = []" "k = KindMap"
      | (many) "k \<in> {KindTuple, KindSum}"
      | (name) "ps = []" "k \<in> {KindScalar, KindRef, KindTypeVar}"
      using 1(2) False one_param [of ps] two_params [of ps] by (cases k) auto
    then show ?thesis
    proof cases
      case one
      then show ?thesis using IH by (auto simp: def)
    next
      case two
      then show ?thesis using IH by (auto simp: def)
    next
      case many
      then show ?thesis using all by (auto simp: def)
    next
      case name
      then show ?thesis by (auto simp: def)
    qed
  qed
qed

lemma constructor_names:
  "list_all (\<lambda>b. ident_ok b \<and> \<not> is_keyword b)
     [''list'', ''set'', ''dict'', ''Tuple'', ''Optional'', ''Union'', ''Awaitable'', ''AsyncIterator'', ''Callable'']"
  by code_simp

lemma scalar_annotations:
  "list_all (\<lambda>n. n = ''None'' \<or> ident_ok (scalarPyAnno n) \<and> \<not> is_keyword (scalarPyAnno n)
     \<and> lookupScalar (scalarPyAnno n) = Some (NewScalar n)) scalar_names"
  by code_simp

lemma anno_canonical: "anno_ok m t \<Longrightarrow> canon_prim (anno_tree t)"
proof (induction t rule: anno_tree.induct)
  case (1 k n ps fs ms)
  then have IH: "\<forall>p \<in> set ps. canon_prim (anno_tree p)" by (auto simp: list_all_iff)
  have arg: "canon_arg a" if "canon_prim a" for a using that by (cases a) auto
  have all: "list_all canon_arg (map anno_tree ps)" using IH arg by (auto simp: list_all_iff)
  note con = constructor_names [simplified]
  have special: "ident_ok ''Self'' \<and> \<not> is_keyword ''Self''" "ident_ok ''Any'' \<and> \<not> is_keyword ''Any''"
    "is_keyword ''None''" by (code_simp)+
  have scal: "ident_ok (scalarPyAnno n) \<and> \<not> is_keyword (scalarPyAnno n)" if "n \<in> set scalar_names" "n \<noteq> ''None''"
    using that scalar_annotations unfolding list_all_iff by blast
  show ?case
  proof (cases "k = KindFun")
    case True
    then have "map anno_tree ps \<noteq> []" using 1(2) by simp
    then have "list_all canon_arg (butlast (map anno_tree ps) @ [last (map anno_tree ps)])" using all by simp
    then show ?thesis using True con by (simp add: Let_def del: last_map)
  next
    case False
    then show ?thesis using 1(2) all con scal by (cases k) (auto simp: Let_def user_name_def special)
  qed
qed

lemma anno_tree_not_ellipsis: "anno_tree t \<noteq> PyEllipsis"
  by (cases t) (simp add: Let_def split: Kind.split)

lemma mapName_scalar: "lookupScalar n = Some t \<Longrightarrow> mapName m n = Inr t"
  by (simp add: mapName_def)

lemma map_each_all: "\<forall>a \<in> set ts. \<forall>src. mapNode m (f a) src = Inr a \<Longrightarrow> map_each m (map f ts) = Inr ts"
  by (induction ts) (simp_all add: map_each.simps)

lemma map_branches_all:
  "\<forall>a \<in> set ts. (\<forall>src. mapNode m (f a) src = Inr a) \<and> \<not> any_ref a \<Longrightarrow> map_branches m (map f ts) = Inr ts"
  by (induction ts) (auto simp: map_branches.simps any_ref_def)

lemma strip_base_PyName:
  "\<forall>p \<in> set module_prefixes. \<not> has_prefix b p \<Longrightarrow> strip_base (PyName b) = b"
  by (simp add: strip_base_def module_prefixes_def)

lemma constructor_bases:
  "list_all (\<lambda>b. strip_base (PyName b) = b)
     [''list'', ''set'', ''dict'', ''Tuple'', ''Optional'', ''Union'', ''Awaitable'', ''AsyncIterator'', ''Callable'']"
  by code_simp

lemma NewSum_plain: "2 \<le> length ts \<Longrightarrow> \<not> list_ex is_none ts \<Longrightarrow> NewSum ts = MType KindSum [] ts [] []"
  by (auto simp: NewSum_eq Let_def list_ex_iff filter_id_conv [THEN iffD2])

lemma anno_map: "anno_ok m t \<Longrightarrow> mapNode m (anno_tree t) src = Inr t"
proof (induction t arbitrary: src rule: anno_tree.induct)
  case (1 k n ps fs ms)
  then have IH: "\<forall>p \<in> set ps. \<forall>src. mapNode m (anno_tree p) src = Inr p" by (auto simp: list_all_iff)
  have each: "map_each m (map anno_tree ps) = Inr ps" using map_each_all [OF IH] .
  have empty: "fs = []" "ms = []" using 1(2) by auto
  note base = constructor_bases [simplified]
  note sub = mapNode.simps mapSubscript.simps map_one.simps Let_def
  have ps1: "\<exists>p. ps = [p]" if "length ps = 1" using one_param that by blast
  show ?case
  proof (cases k)
    case KindUnknown
    then show ?thesis using 1(2) by simp
  next
    case KindScalar
    then have "n \<in> set scalar_names" "ps = []" using 1(2) by auto
    then show ?thesis using KindScalar scalar_annotations empty
      by (auto simp: list_all_iff sub map_literal_node_def mapName_scalar NewScalar_def)
  next
    case KindList
    then obtain p where "ps = [p]" "n = []" using 1(2) ps1 by auto
    then show ?thesis using KindList IH empty base by (simp add: sub NewList_def)
  next
    case KindSet
    then obtain p where "ps = [p]" "n = []" using 1(2) ps1 by auto
    then show ?thesis using KindSet IH empty base by (simp add: sub NewSet_def)
  next
    case KindAsync
    then obtain p where "ps = [p]" "n = []" using 1(2) ps1 by auto
    then show ?thesis using KindAsync IH empty base by (simp add: sub NewAsync_def)
  next
    case KindStream
    then obtain p where "ps = [p]" "n = []" using 1(2) ps1 by auto
    then show ?thesis using KindStream IH empty base by (simp add: sub NewStream_def)
  next
    case KindOptional
    then obtain p where "ps = [p]" "n = []" "MKind p \<noteq> KindOptional" using 1(2) ps1 by (auto simp: is_optional_def)
    then show ?thesis using KindOptional IH empty base by (simp add: sub NewOptional_def)
  next
    case KindMap
    then obtain p q where "ps = [p, q]" "n = []" "isValidMapKey p" using 1(2) two_params by fastforce
    then show ?thesis using KindMap IH empty base by (simp add: sub NewMap_def)
  next
    case KindTuple
    have "(case map anno_tree ps of [a, PyEllipsis] \<Rightarrow> X a | _ \<Rightarrow> Y) = Y" for X :: "PyType \<Rightarrow> Decision" and Y
      using anno_tree_not_ellipsis by (auto split: list.splits PyType.splits)
    then show ?thesis using KindTuple 1(2) each empty base by (simp add: sub NewTuple_def)
  next
    case KindSum
    then have len: "2 \<le> length ps" "\<not> list_ex is_none ps" "n = []" using 1(2) by auto
    have "\<forall>a \<in> set ps. (\<forall>src. mapNode m (anno_tree a) src = Inr a) \<and> \<not> any_ref a"
      using IH 1(2) KindSum by (auto simp: list_ex_iff)
    then have "map_branches m (map anno_tree ps) = Inr ps" by (rule map_branches_all)
    moreover obtain q qs where "ps = q # qs" using len(1) by (cases ps) auto
    ultimately show ?thesis using KindSum len empty base NewSum_plain [OF len(1,2)] by (simp add: sub mapUnion.simps)
  next
    case KindFun
    then have ne: "ps \<noteq> []" and n: "n = []" using 1(2) by auto
    obtain qs r where ps: "ps = qs @ [r]" using ne by (metis append_butlast_last_id)
    have "map_each m (map anno_tree qs) = Inr qs" using IH ps by (intro map_each_all) auto
    then show ?thesis using KindFun ps n IH empty base by (simp add: sub mapCallable.simps NewFun_def)
  next
    case KindRecord
    then show ?thesis using 1(2) by simp
  next
    case KindInterface
    then show ?thesis using 1(2) by simp
  next
    case KindRef
    have "lookupScalar ''Self'' = None" "lookupScalar ''Any'' = None" by (simp_all add: lookupScalar_def)
    then show ?thesis using KindRef 1(2) empty
      by (auto simp: sub user_name_def mapName_def NewRef_def special_name_def)
  next
    case KindTypeVar
    then show ?thesis using 1(2) empty by (auto simp: sub user_name_def mapName_def NewTypeVar_def)
  qed
qed

lemma canonical_not_empty: "canonical t \<Longrightarrow> trim_space (PyType_String t) = PyType_String t \<and> PyType_String t \<noteq> []"
  using canonical_ends [of t] by (auto simp: start_ok_def intro!: trim_space_solid)

lemma anno_Map: "anno_ok m t \<Longrightarrow> Map ip m (PyType_String (anno_tree t)) = Inr t"
proof -
  assume t: "anno_ok m t"
  have prim: "canon_prim (anno_tree t)" using t by (rule anno_canonical)
  then have "canonical (anno_tree t)" by (cases "anno_tree t") (simp_all add: canonical_def)
  then show ?thesis
    using type_text_parse [of "anno_tree t"] canonical_not_empty [of "anno_tree t"] anno_map [OF t]
    by (simp add: Map_def Let_def)
qed

subsection \<open>Annotations between brackets\<close>

lemma bracket_pass:
  assumes "\<forall>p \<in> set ps. clean_expr p"
  shows "nest F st (''['' @ join '', '' ps @ '']'' @ s) = nest F st s"
proof -
  have inside: "nest F (d # st) p = Some (d # st)" if "clean_expr p" for p d
    using that nest_inside [of at_margin "[]" p "[]" F d st] by (simp add: clean_expr_def)
  have plain: "plain_char (CHR '','')" "plain_char (CHR '' '')"
    by (simp_all add: plain_char_def opens_def closes_def is_quote_def)
  have list: "nest F (d # st) (join '', '' ps) = Some (d # st)" for d
    using assms
  proof (induction ps)
    case (Cons p ps)
    then show ?case
      using inside [of p d] nest_append [OF inside [of p d], of "'', '' @ join '', '' ps"] plain
      by (cases ps) auto
  qed simp
  have br: "opens (CHR ''['')" "closes (CHR '']'')" "closer (CHR ''['') = CHR '']''"
    by (simp_all add: opens_def closes_def closer_def)
  show ?thesis using nest_append [OF list, of "CHR '']''" "'']'' @ s"] br by simp
qed

lemma generic_clean:
  assumes "ident_text b" "\<forall>p \<in> set ps. clean_expr p"
  shows "clean_expr (b @ ''['' @ join '', '' ps @ '']'')"
proof -
  have "nest at_margin [] (b @ ''['' @ join '', '' ps @ '']'') = Some []"
    using nest_append [OF ident_nest [OF assms(1), of at_margin "[]"]] bracket_pass [OF assms(2), of at_margin "[]" "[]"]
    by simp
  then show ?thesis using ident_ends [OF assms(1)] by (auto simp: clean_expr_def solid_def)
qed

lemma ident_clean: "ident_text n \<Longrightarrow> clean_expr n"
  using ident_nest [of n at_margin "[]"] ident_ends [of n] by (simp add: clean_expr_def)

lemma fixed_names:
  "list_all ident_text [''list'', ''set'', ''dict'', ''Tuple'', ''Optional'', ''Union'', ''Awaitable'', ''AsyncIterator'']"
  "list_all ident_text (map scalarPyAnno scalar_names)" "ident_text ''Callable''" "ident_text ''None''"
  "ident_text ''Self''" "ident_text ''Any''"
  by code_simp+

lemma anno_clean: "anno_ok m t \<Longrightarrow> clean_expr (PyType_String (anno_tree t))"
proof (induction t rule: anno_tree.induct)
  case (1 k n ps fs ms)
  then have IH: "\<forall>p \<in> set (map (\<lambda>p. PyType_String (anno_tree p)) ps). clean_expr p" by (auto simp: list_all_iff)
  note fixed = fixed_names(2-6) [simplified]
  have generic: "clean_expr (PyType_String (PySubscript (PyName b) (map anno_tree ps)))" if "ident_text b" for b
    using generic_clean [OF that IH] by (simp add: comp_def)
  show ?case
  proof (cases "k = KindFun")
    case True
    let ?bl = "map (\<lambda>p. PyType_String (anno_tree p)) (butlast ps)" and ?r = "PyType_String (anno_tree (last ps))"
    have ne: "ps \<noteq> []" using 1(2) True by simp
    have r: "clean_expr ?r" and bl: "\<forall>p \<in> set ?bl. clean_expr p" using IH ne by (auto dest: in_set_butlastD)
    have n: "nest at_margin [] (''['' @ join '', '' ?bl @ '']'') = Some []"
      using bracket_pass [OF bl, of at_margin "[]" "[]"] by simp
    then have "clean_expr (''['' @ join '', '' ?bl @ '']'')" by (simp add: clean_expr_def solid_def)
    then have "\<forall>p \<in> set [''['' @ join '', '' ?bl @ '']'', ?r]. clean_expr p" using r by simp
    from generic_clean [OF _ this, of "''Callable''"] fixed show ?thesis
      using True ne by (simp add: Let_def last_map map_butlast [symmetric] comp_def)
  next
    case False
    have "list_all (\<lambda>b. clean_expr (PyType_String (PySubscript (PyName b) (map anno_tree ps))))
      [''list'', ''set'', ''dict'', ''Tuple'', ''Optional'', ''Union'', ''Awaitable'', ''AsyncIterator'']"
      by (rule list.pred_mono_strong [OF fixed_names(1)]) (rule generic)
    then show ?thesis using False 1(2) fixed ident_clean
      by (cases k) (auto simp: Let_def user_name_def list_all_iff)
  qed
qed

subsection \<open>The stub of a function read back\<close>

lemma arg_ident: "ident_text (arg i)"
proof -
  have "list_all is_digit (itoa (int i))" using itoa_digits [of "int i"] by (simp add: list_all_iff)
  then show ?thesis by (auto simp: arg_def ident_text_def name_char_def list_all_iff)
qed

fun stub_params :: "nat \<Rightarrow> MochiType list \<Rightarrow> ParamDecl list" where
  "stub_params i [] = []"
| "stub_params i (p # ps) =
    \<lparr>PName = arg i, PType = PyType_String (anno_tree p), PDefault = [], PKind = ParamPositional\<rparr> # stub_params (Suc i) ps"

definition stub_decl :: "bytes \<Rightarrow> MochiType list \<Rightarrow> MochiType \<Rightarrow> bool \<Rightarrow> FuncDecl" where
  "stub_decl name ps r async =
    \<lparr>FnName = name, FnParams = stub_params 0 ps, ReturnType = PyType_String (anno_tree r),
     FnDecorators = [], IsAsync = async\<rparr>"

lemma stub_params_facts:
  "p \<in> set (stub_params i ps) \<Longrightarrow> list_all (anno_ok m) ps \<Longrightarrow> param_ok p \<and> PKind p = ParamPositional"
  by (induction ps arbitrary: i) (auto simp: param_ok_def arg_ident dest: anno_clean)

lemma stub_params_kind:
  "list_all (anno_ok m) ps \<Longrightarrow> of_kind k (stub_params i ps) = (if k = ParamPositional then stub_params i ps else [])"
  by (induction ps arbitrary: i) (auto simp: of_kind_def)

lemma stub_params_ok:
  assumes "list_all (anno_ok m) ps"
  shows "params_ok (stub_params i ps)" "params_parts (stub_params i ps) = map param_text (stub_params i ps)"
  using stub_params_facts [OF _ assms] stub_params_kind [OF assms]
  by (auto simp: params_ok_def params_parts_def list_all_iff)

lemma anno_args_text:
  "list_all (anno_ok m) ps \<Longrightarrow> anno_args i ps = map (\<lambda>p. Some (param_text p)) (stub_params i ps)"
proof (induction ps arbitrary: i)
  case (Cons p ps)
  then have "PyType_String (anno_tree p) \<noteq> []" using anno_clean [of m p] by (auto simp: clean_expr_def)
  then show ?case using Cons anno_text [of m p] by (simp add: wrap_def param_text_def)
qed simp

lemma those_Some: "those (map (\<lambda>p. Some (f p)) xs) = Some (map f xs)"
  by (induction xs) simp_all

lemma stub_line_text:
  assumes "list_all (anno_ok m) ps" "anno_ok m r"
  shows "stub_line (if async then ''async def '' else ''def '') name (seq_join '', '' (anno_args 0 ps)) (renderPyAnno r)
    = Some (fn_text (stub_decl name ps r async) @ nl)"
proof -
  have "PyType_String (anno_tree r) \<noteq> []" using anno_clean [OF assms(2)] by (auto simp: clean_expr_def)
  then show ?thesis
    using anno_args_text [OF assms(1), of 0] anno_text [OF assms(2)] stub_params_ok(2) [OF assms(1), of 0]
    by (simp add: stub_line_def seq_join_def those_Some wrap_def append_opt_def fn_text_def stub_decl_def)
qed

lemma anno_ok_path [simp]: "anno_ok (m\<lparr>MItemPath := x\<rparr>) t = anno_ok m t"
proof (induction t rule: anno_tree.induct)
  case (1 k n ps fs ms)
  then have "list_all (anno_ok (m\<lparr>MItemPath := x\<rparr>)) ps = list_all (anno_ok m) ps" by (auto simp: list_all_iff)
  then show ?case by (cases k) simp_all
qed

lemma stub_decl_maps:
  assumes "list_all (anno_ok m) ps" "anno_ok m r"
  shows "MapFunction ip m (stub_decl name ps r async) = Inr (NewFun (if async then NewAsync r else r) ps)"
proof -
  have "function_params (Map ip) (m\<lparr>MItemPath := name\<rparr>) name (stub_params i ps) = Inr ps" for i
    using assms(1)
  proof (induction ps arbitrary: i)
    case (Cons p ps)
    then have "PyType_String (anno_tree p) \<noteq> []" using anno_clean [of m p] by (auto simp: clean_expr_def)
    then show ?case using Cons anno_Map [of "m\<lparr>MItemPath := name\<rparr>" p ip] by simp
  qed simp
  moreover have "PyType_String (anno_tree r) \<noteq> []" using anno_clean [OF assms(2)] by (auto simp: clean_expr_def)
  ultimately show ?thesis
    using anno_Map [of "m\<lparr>MItemPath := name\<rparr>" r ip] assms(2)
    by (simp add: MapFunction_def mapFunction_def stub_decl_def Let_def map_return_def NewFun_def)
qed

lemma stub_decl_parse:
  assumes "ident_text name" "list_all (anno_ok m) ps" "anno_ok m r"
  shows "parseFunction (fn_text (stub_decl name ps r async)) [] = Inr (stub_decl name ps r async)"
proof -
  have "fn_ok (stub_decl name ps r async)"
    using assms(1) stub_params_ok(1) [OF assms(2), of 0] anno_clean [OF assms(3)] by (simp add: fn_ok_def stub_decl_def)
  from fn_text_parse [OF this] show ?thesis by (simp add: stub_decl_def)
qed

text \<open>Under the scope the synthesiser maps with, every type of the table has a canonical annotation.\<close>

lemma closed_anno:
  "closed m t \<Longrightarrow> mochi_wf t \<Longrightarrow> TypeVars m = {} \<Longrightarrow> Mapper.Classes m = {} \<Longrightarrow> anno_ok m t"
proof (induction t rule: anno_tree.induct)
  case (1 k n ps fs ms)
  then have "list_all (anno_ok m) ps" by (auto simp: list_all_iff)
  then show ?case using 1(2-) by (cases k; cases ps) (auto simp: Suc_le_eq isValidMapKey_def)
qed

lemma mapped_anno:
  assumes "MapFunction ip m fn = Inr t" "TypeVars m = {}" "Mapper.Classes m = {}"
  shows "\<exists>ps r. t = NewFun r ps \<and> list_all (anno_ok m) ps \<and> anno_ok m r"
proof -
  let ?m = "m\<lparr>MItemPath := FnName fn\<rparr>"
  have map: "anno_ok m u" if "Map ip ?m e = Inr u" for e u
    using Map_ok [of ?m ip e] that closed_anno [of ?m u] assms(2,3) by (simp add: ok_with_def good_def)
  have params: "list_all (anno_ok m) us" if "function_params (Map ip) ?m f ds = Inr us" for f ds us
    using that by (induction ds arbitrary: us) (auto simp: skip_def map split: if_splits sum.splits)
  obtain us r where t: "function_params (Map ip) ?m (FnName fn) (FnParams fn) = Inr us"
    "map_return (Map ip) ?m (ReturnType fn) = Inr r" "t = NewFun (if IsAsync fn then NewAsync r else r) us"
    using assms(1) by (auto simp: MapFunction_def mapFunction_def Let_def NewFun_def split: sum.splits if_splits)
  have "anno_ok m r"
    using t(2) map by (auto simp: map_return_def NewScalar_def scalar_names_def split: if_splits)
  moreover from this have "anno_ok m (NewAsync r)" by (simp add: NewAsync_def)
  ultimately show ?thesis using t(3) params [OF t(1)] by (cases "IsAsync fn") auto
qed

lemma stub_item_reads_back:
  assumes "synth_function ip m pkg loop fn = ([it], [])" "ident_text (FnName fn)" "TypeVars m = {}" "Mapper.Classes m = {}"
  shows "\<exists>l rest fd. renderFuncPYI it = Some (l @ nl @ rest) \<and> (rest = [] \<longleftrightarrow> \<not> IsAsync fn)
    \<and> parseFunction l [] = Inr fd \<and> FnName fd = IName it \<and> \<not> IsAsync fd \<and> MapFunction ip m fd = Inr (IType it)"
proof -
  obtain t where t: "MapFunction ip m fn = Inr t"
    and it: "IType it = t" "IName it = (if IsAsync fn then FnName fn @ ''_sync'' else FnName fn)" "IIsAsync it = IsAsync fn"
    using assms(1) by (auto simp: synth_function_def split: if_splits sum.splits)
  obtain ps r where ty: "t = NewFun r ps" "list_all (anno_ok m) ps" "anno_ok m r" using mapped_anno [OF t assms(3,4)] by blast
  have name: "ident_text (IName it)" using assms(2) it(2) by (auto simp: ident_text_def name_char_def)
  let ?d = "stub_decl (IName it) ps r False"
  have sync: "stub_line ''def '' (IName it) (seq_join '', '' (anno_args 0 ps)) (renderPyAnno r) = Some (fn_text ?d @ nl)"
    using stub_line_text [OF ty(2,3), of False] by simp
  have async: "stub_line ''async def '' n (seq_join '', '' (anno_args 0 ps)) (renderPyAnno r)
      = Some (fn_text (stub_decl n ps r True) @ nl)" for n
    using stub_line_text [OF ty(2,3), of True] by simp
  obtain rest where "renderFuncPYI it = Some (fn_text ?d @ nl @ rest)" "rest = [] \<longleftrightarrow> \<not> IsAsync fn"
    using sync async it(3) by (auto simp: renderFuncPYI_def it(1) ty(1) NewFun_parts Let_def append_opt_def nl_def)
  moreover have "parseFunction (fn_text ?d) [] = Inr ?d" using stub_decl_parse [OF name ty(2,3)] .
  moreover have "MapFunction ip m ?d = Inr (IType it)" using stub_decl_maps [OF ty(2,3)] it(1) ty(1) by simp
  moreover have "FnName ?d = IName it" "\<not> IsAsync ?d" by (simp_all add: stub_decl_def)
  ultimately show ?thesis by blast
qed

lemma other_kinds:
  "it \<in> set (fst (synth_class ip m pkg c)) \<Longrightarrow> IKind it \<noteq> ItemFunc"
  "it \<in> set (fst (synth_constant ip m pkg k)) \<Longrightarrow> IKind it \<noteq> ItemFunc"
  by (auto simp: synth_class_def synth_constant_def split: if_splits sum.splits)

text \<open>
  C31. The stub of a synchronous function says what its source declaration says.  Take any function item
  of a synthesised wrapper that is not asynchronous: it comes from a synchronous declaration of the
  surface, its stub is one line, and that line, read by the bridge's own stub parser, is a synchronous
  function of the item's name that the bridge's own type table maps to exactly the type it maps the
  declaration to.  (The stub of an asynchronous function does not: see \<open>sync_stub_awaitable\<close>.)
\<close>

theorem Stub_reads_back:
  assumes "Synthesise ip pkg (Some sf) opts = Inr (Some w)" "it \<in> set (Items w)" "IKind it = ItemFunc" "\<not> IIsAsync it"
    "\<forall>fn \<in> set (Functions sf). ident_text (FnName fn)"
  shows "\<exists>fn \<in> set (Functions sf). \<exists>l fd.
    SourceName it = pkg @ ''.'' @ FnName fn \<and> \<not> IsAsync fn
    \<and> pyi_item it = Some (l @ nl)
    \<and> parseFunction l [] = Inr fd \<and> FnName fd = FnName fn \<and> \<not> IsAsync fd
    \<and> MapFunction ip (synth_mapper opts) fd = MapFunction ip (synth_mapper opts) fn
    \<and> MapFunction ip (synth_mapper opts) fn = Inr (IType it)"
proof -
  have "Items w = Items (new_wrapper pkg opts (synth_all ip (synth_mapper opts) pkg (OLoop opts) sf))"
    using assms(1) by (auto simp: Synthesise_def Let_def split: if_splits option.splits)
  then have "it \<in> set (fst (synth_all ip (synth_mapper opts) pkg (OLoop opts) sf))"
    using assms(2) by (simp add: new_wrapper_def)
  then obtain fn where fn: "fn \<in> set (Functions sf)"
    "it \<in> set (fst (synth_function ip (synth_mapper opts) pkg (OLoop opts) fn))"
    using assms(3) other_kinds by (auto simp: synth_all_def synth_loop_eq)
  then have one: "synth_function ip (synth_mapper opts) pkg (OLoop opts) fn = ([it], [])" "\<not> IsAsync fn"
      "MapFunction ip (synth_mapper opts) fn = Inr (IType it)" "SourceName it = pkg @ ''.'' @ FnName fn" "IName it = FnName fn"
    using assms(4) by (auto simp: synth_function_def split: if_splits sum.splits)
  have scope: "TypeVars (synth_mapper opts) = {}" "Mapper.Classes (synth_mapper opts) = {}"
    by (simp_all add: synth_mapper_def)
  have "pyi_item it = renderFuncPYI it" using assms(3) by (simp add: pyi_item_def)
  then show ?thesis using stub_item_reads_back [OF one(1) _ scope] assms(5) fn(1) one(2-5) by fastforce
qed

definition one_fetch :: ModuleSurface where
  "one_fetch = \<lparr>Imports = [], Classes = [],
     Functions = [\<lparr>FnName = ''fetch'',
       FnParams = [\<lparr>PName = ''url'', PType = ''str'', PDefault = [], PKind = ParamPositional\<rparr>,
         \<lparr>PName = ''cb'', PType = ''Callable[[int], typing.Optional[str]]'', PDefault = [], PKind = ParamPositional\<rparr>],
       ReturnType = ''dict[str, List[int]]'', FnDecorators = [], IsAsync = False\<rparr>],
     Aliases = [], Constants = []\<rparr>"

lemma Stub_reads_back_witness:
  "\<exists>w it l fd.
     Synthesise (\<lambda>_. True) ''pkg'' (Some one_fetch) sample_opts = Inr (Some w)
     \<and> Items w = [it] \<and> pyi_item it = Some (l @ nl)
     \<and> parseFunction l [] = Inr fd \<and> FnName fd = ''fetch''
     \<and> MapFunction (\<lambda>_. True) (synth_mapper sample_opts) fd = Inr (IType it)"
proof -
  let ?s = "Synthesise (\<lambda>_. True) ''pkg'' (Some one_fetch) sample_opts"
  have ok: "(case ?s of Inr (Some w) \<Rightarrow>
      (case Items w of [it] \<Rightarrow> \<not> IIsAsync it \<and> IKind it = ItemFunc | _ \<Rightarrow> False) | _ \<Rightarrow> False)"
    by code_simp
  then obtain w it where w: "?s = Inr (Some w)" "Items w = [it]" "\<not> IIsAsync it" "IKind it = ItemFunc"
    by (auto split: sum.splits option.splits list.splits)
  have names: "\<forall>fn \<in> set (Functions one_fetch). ident_text (FnName fn)" by code_simp
  have "FnName fn = ''fetch''" if "fn \<in> set (Functions one_fetch)" for fn using that by (simp add: one_fetch_def)
  with Stub_reads_back [OF w(1) _ w(4,3) names] w show ?thesis by fastforce
qed

end
