(* ===== verification/Go_Path.thy ===== *)
theory Go_Path
  imports Go_Strings
begin

section \<open>The part of Go's path packages the bridge uses\<close>

text \<open>
  \<open>path.Clean\<close> and, on Unix, \<open>filepath.Clean\<close>: the elements between slashes are dropped or taken
  back one by one on a stack, and what is left is joined.
\<close>

subsection \<open>Functions\<close>

fun clean_step :: "bool \<Rightarrow> bytes list \<Rightarrow> bytes \<Rightarrow> bytes list" where
  "clean_step rooted out e =
    (if e = [] \<or> e = ''.'' then out
     else if e = ''..'' then
       (case out of
          x # xs \<Rightarrow> if x \<noteq> ''..'' then xs else if rooted then out else ''..'' # out
        | [] \<Rightarrow> if rooted then [] else [''..''])
     else e # out)"

definition path_clean :: "bytes \<Rightarrow> bytes" where
  "path_clean p =
    (if p = [] then ''.''
     else let rooted = has_prefix p ''/'';
              txt = join ''/'' (rev (foldl (clean_step rooted) [] (split_on (CHR ''/'') p)))
          in if rooted then ''/'' @ txt else if txt = [] then ''.'' else txt)"

text \<open>\<open>filepath.Join\<close>: the elements that are not empty, cleaned.\<close>

definition path_join :: "bytes list \<Rightarrow> bytes" where
  "path_join es = (let es = filter (\<lambda>e. e \<noteq> []) es in if es = [] then [] else path_clean (join ''/'' es))"

text \<open>\<open>filepath.Base\<close>.\<close>

definition path_base :: "bytes \<Rightarrow> bytes" where
  "path_base path = (let p = rev (dropWhile (\<lambda>c. c = CHR ''/'') (rev path)) in
     if path = [] then ''.'' else if p = [] then ''/'' else last (split_on (CHR ''/'') p))"

subsection \<open>Clean paths\<close>

text \<open>The stacks the loop builds, and the text of one.\<close>

definition no_slash :: "bytes \<Rightarrow> bool" where
  "no_slash x \<longleftrightarrow> CHR ''/'' \<notin> set x"

fun clean_stack :: "bool \<Rightarrow> bytes list \<Rightarrow> bool" where
  "clean_stack r [] = True"
| "clean_stack r (x # xs) =
    (clean_stack r xs \<and> no_slash x \<and> x \<noteq> [] \<and> x \<noteq> ''.'' \<and> (x = ''..'' \<longrightarrow> \<not> r \<and> (xs = [] \<or> hd xs = ''..'')))"

definition stack_path :: "bool \<Rightarrow> bytes list \<Rightarrow> bytes" where
  "stack_path r xs = (if r then ''/'' else []) @ join ''/'' (rev xs)"

definition plain_element :: "bytes \<Rightarrow> bool" where
  "plain_element x \<longleftrightarrow> no_slash x \<and> x \<noteq> [] \<and> x \<noteq> ''.'' \<and> x \<noteq> ''..''"

lemma clean_stack_step: "clean_stack r xs \<Longrightarrow> no_slash e \<Longrightarrow> clean_stack r (clean_step r xs e)"
  by (cases xs) auto

lemma clean_stack_fold: "clean_stack r xs \<Longrightarrow> \<forall>e \<in> set es. no_slash e \<Longrightarrow> clean_stack r (foldl (clean_step r) xs es)"
  by (induction es arbitrary: xs) (simp_all add: clean_stack_step del: clean_step.simps)

lemma clean_fold_id: "clean_stack r xs \<Longrightarrow> foldl (clean_step r) [] (rev xs) = xs"
  by (induction xs) (auto split: list.split)

lemma clean_fold_plain: "\<forall>x \<in> set es. plain_element x \<Longrightarrow> foldl (clean_step r) xs es = rev es @ xs"
  by (induction es arbitrary: xs) (auto simp: plain_element_def)

lemma clean_stack_no_slash: "clean_stack r xs \<Longrightarrow> x \<in> set xs \<Longrightarrow> CHR ''/'' \<notin> set x \<and> x \<noteq> []"
  by (induction xs) (auto simp: no_slash_def)

lemma path_clean_stack:
  assumes "p \<noteq> []"
  shows "\<exists>xs. clean_stack (has_prefix p ''/'') xs \<and> xs = foldl (clean_step (has_prefix p ''/'')) [] (split_on (CHR ''/'') p)
    \<and> path_clean p = (if stack_path (has_prefix p ''/'') xs = [] then ''.'' else stack_path (has_prefix p ''/'') xs)"
proof -
  let ?xs = "foldl (clean_step (has_prefix p ''/'')) [] (split_on (CHR ''/'') p)"
  have "clean_stack (has_prefix p ''/'') ?xs"
    using split_on_parts [of _ "CHR ''/''" p] by (intro clean_stack_fold) (auto simp: no_slash_def)
  then show ?thesis using assms by (intro exI [of _ ?xs]) (simp add: path_clean_def stack_path_def Let_def)
qed

text \<open>Adding plain elements to a clean path.\<close>

lemma clean_add:
  assumes "clean_stack r xs" "xs \<noteq> []" "\<forall>e \<in> set es. plain_element e" "es \<noteq> []"
  shows "path_clean (stack_path r xs @ ''/'' @ join ''/'' es) = stack_path r (rev es @ xs)"
proof -
  let ?p = "stack_path r xs @ ''/'' @ join ''/'' es"
  have parts: "\<forall>p \<in> set (rev xs @ es). CHR ''/'' \<notin> set p"
    using clean_stack_no_slash [OF assms(1)] assms(3) by (auto simp: plain_element_def no_slash_def)
  have j: "join ''/'' (rev xs) @ ''/'' @ join ''/'' es = join ''/'' (rev xs @ es)"
    using assms(2,4) by (subst join_append) simp_all
  have ne: "rev xs @ es \<noteq> []" using assms(4) by simp
  have s: "split_on (CHR ''/'') (join ''/'' (rev xs @ es)) = rev xs @ es" using parts ne by (intro split_on_join) auto
  have first: "hd (rev xs) \<in> set xs" using assms(2) by (metis hd_in_set rev_is_Nil_conv set_rev)
  have pre: "has_prefix ?p ''/'' = r"
  proof (cases r)
    case False
    obtain c t where c: "hd (rev xs) = c # t" "c \<noteq> CHR ''/''"
      using clean_stack_no_slash [OF assms(1) first] by (cases "hd (rev xs)") auto
    then have "hd (join ''/'' (rev xs @ es)) = c" "join ''/'' (rev xs @ es) \<noteq> []"
      using assms(2) hd_join [of "rev xs @ es" "''/''"] join_not_Nil [of "rev xs @ es" "''/''"] by simp_all
    then show ?thesis using False c j by (cases "join ''/'' (rev xs @ es)") (simp_all add: stack_path_def)
  qed (simp add: stack_path_def)
  have split: "foldl (clean_step r) [] (split_on (CHR ''/'') ?p) = rev es @ xs"
    using clean_fold_id [OF assms(1)] clean_fold_plain [OF assms(3), of r xs] s j
    by (cases r) (simp_all add: stack_path_def del: clean_step.simps, simp)
  have "join ''/'' (rev xs @ es) \<noteq> []"
    using clean_stack_no_slash [OF assms(1) first] assms(2) join_not_Nil [of "rev xs @ es" "''/''"] by simp
  then show ?thesis unfolding path_clean_def Let_def pre split by (auto simp: stack_path_def)
qed

lemma stack_path_inj:
  assumes "clean_stack r xs" "clean_stack r ys" "stack_path r xs = stack_path r ys"
  shows "xs = ys"
proof -
  have j: "join ''/'' (rev xs) = join ''/'' (rev ys)" using assms(3) by (auto simp: stack_path_def)
  have s: "split_on (CHR ''/'') (join ''/'' (rev zs)) = rev zs" if "clean_stack r zs" "zs \<noteq> []" for zs
    using clean_stack_no_slash [OF that(1)] that(2) by (intro split_on_join) auto
  have e: "join ''/'' (rev zs) = [] \<longleftrightarrow> zs = []" if "clean_stack r zs" for zs
    using clean_stack_no_slash [OF that] by (cases "rev zs") (auto simp: join_not_Nil)
  show ?thesis using s [OF assms(1)] s [OF assms(2)] e [OF assms(1)] e [OF assms(2)] j by (metis rev_rev_ident)
qed

lemma clean_stack_plain: "clean_stack r xs \<Longrightarrow> \<forall>e \<in> set es. plain_element e \<Longrightarrow> clean_stack r (es @ xs)"
  by (induction es) (auto simp: plain_element_def)

lemma split_on_at: "split_on c (d @ c # s) = split_on c d @ split_on c s"
proof (induction d)
  case (Cons a d)
  then show ?case by (cases "split_on c d") auto
qed simp

text \<open>A directory below another one, and the paths below it.\<close>

lemma join_below:
  assumes "d \<noteq> []" "plain_element x"
  shows "\<exists>r xs. clean_stack r (x # xs) \<and> path_join [d, x] = stack_path r (x # xs)"
proof -
  let ?p = "d @ ''/'' @ x"
  have x: "x \<noteq> []" "split_on (CHR ''/'') x = [x]" using assms(2) by (auto simp: plain_element_def no_slash_def)
  have p: "path_join [d, x] = path_clean ?p" using assms x by (simp add: path_join_def)
  have s: "split_on (CHR ''/'') ?p = split_on (CHR ''/'') d @ [x]" using x split_on_at [of "CHR ''/''" d x] by simp
  obtain xs where xs: "clean_stack (has_prefix ?p ''/'') xs"
    "xs = foldl (clean_step (has_prefix ?p ''/'')) [] (split_on (CHR ''/'') ?p)"
    "path_clean ?p = (if stack_path (has_prefix ?p ''/'') xs = [] then ''.'' else stack_path (has_prefix ?p ''/'') xs)"
    using path_clean_stack [of ?p] by auto
  have "xs = x # foldl (clean_step (has_prefix ?p ''/'')) [] (split_on (CHR ''/'') d)"
    unfolding xs(2) s using assms(2) by (simp add: plain_element_def)
  moreover from this have "stack_path (has_prefix ?p ''/'') xs \<noteq> []"
    using x last_join [of "rev xs" "''/''"] by (auto simp: stack_path_def)
  ultimately show ?thesis using xs(1,3) p by metis
qed

lemma path_join_add:
  assumes "clean_stack r xs" "xs \<noteq> []" "\<forall>e \<in> set es. plain_element e" "es \<noteq> []"
  shows "path_join (stack_path r xs # es) = stack_path r (rev es @ xs)"
proof -
  have "filter (\<lambda>e. e \<noteq> []) es = es" using assms(3) by (auto simp: plain_element_def filter_id_conv)
  moreover have "hd (rev xs) \<in> set xs" using assms(2) by (metis hd_in_set rev_is_Nil_conv set_rev)
  then have "stack_path r xs \<noteq> []"
    using clean_stack_no_slash [OF assms(1)] assms(2) join_not_Nil [of "rev xs" "''/''"] by (simp add: stack_path_def)
  moreover have "join ''/'' (stack_path r xs # es) = stack_path r xs @ ''/'' @ join ''/'' es"
    using assms(4) by (simp add: join_Cons)
  ultimately show ?thesis using clean_add [OF assms] by (simp add: path_join_def)
qed

end
