(* ===== verification/Importspec.thy ===== *)
theory Importspec
  imports Semver_Specifier Go_Path
begin

section \<open>Import strings (importspec/spec.go)\<close>

text \<open>
  The grammar of the body of \<open>import python "..."\<close>: a distribution name, then nothing, a version
  specifier, an index URL, a git URL with an optional revision, or a local path.  The scheme of a URL
  is computed as \<open>net/url\<close> does; whether \<open>url.Parse\<close> accepts the rest of the text is the parameter
  \<open>url_ok\<close>.  Errors are constructors that carry what their texts quote.
\<close>

datatype SpecSource = SourceRegistry | SourceIndex | SourceGit | SourcePath

fun SpecSource_String :: "SpecSource \<Rightarrow> bytes" where
  "SpecSource_String SourceRegistry = ''registry''"
| "SpecSource_String SourceIndex = ''index''"
| "SpecSource_String SourceGit = ''git''"
| "SpecSource_String SourcePath = ''path''"

record Spec =
  SpName :: bytes
  SpRawName :: bytes
  SpSource :: SpecSource
  SpSpecifier :: Specifier
  SpIndexURL :: bytes
  SpGitURL :: bytes
  SpGitRev :: bytes
  SpLocalPath :: bytes

datatype SpecError =
    EmptySpec | SurroundingSpace bytes | EmptyQualifier bytes
  | EmptyDist | BadFirstChar bytes | BadChar bytes int | LeadingSeparator bytes | TrailingSeparator bytes
  | BadSpecifier bytes ClauseError
  | EmptyIndexName bytes | BadIndexURL bytes bytes
  | EmptyGitURL bytes | NothingBeforeFragment bytes | EmptyFragment bytes | BadGitURL bytes bytes
  | EmptyPath bytes | UnusablePath bytes bytes

definition Spec_String :: "Spec \<Rightarrow> bytes" where
  "Spec_String s =
    (case SpSource s of
       SourceGit \<Rightarrow>
         (let base = SpRawName s @ ''@git+'' @ SpGitURL s in
          if SpGitRev s \<noteq> [] then base @ ''#'' @ SpGitRev s else base)
     | SourcePath \<Rightarrow> SpRawName s @ ''@path+'' @ SpLocalPath s
     | SourceIndex \<Rightarrow> SpRawName s @ ''@'' @ SpRawName s @ ''+'' @ SpIndexURL s
     | SourceRegistry \<Rightarrow>
         (let ver = Specifier_String (SpSpecifier s) in
          if ver = [] then SpRawName s else SpRawName s @ ''@'' @ ver))"

subsection \<open>Names\<close>

definition isPyDistChar :: "int \<Rightarrow> bool \<Rightarrow> bool" where
  "isPyDistChar r first \<longleftrightarrow>
    (97 \<le> r \<and> r \<le> 122) \<or> (65 \<le> r \<and> r \<le> 90) \<or> (48 \<le> r \<and> r \<le> 57)
    \<or> (\<not> first \<and> (r = 45 \<or> r = 46 \<or> r = 95))"

definition validateName :: "bytes \<Rightarrow> SpecError option" where
  "validateName s =
    (if s = [] then Some EmptyDist
     else if \<not> isPyDistChar (byte (hd s)) True then Some (BadFirstChar s)
     else case find (\<lambda>r. \<not> isPyDistChar r False) (tl (runes s)) of
       Some r \<Rightarrow> Some (BadChar s r)
     | None \<Rightarrow>
         if has_prefix s ''-'' \<or> has_prefix s ''.'' \<or> has_prefix s ''_'' then Some (LeadingSeparator s)
         else if has_suffix s ''-'' \<or> has_suffix s ''.'' \<or> has_suffix s ''_'' then Some (TrailingSeparator s)
         else None)"

text \<open>\<open>normaliseName\<close> is only called on valid names, which are ASCII: its runes are its bytes.\<close>

fun norm_loop :: "bool \<Rightarrow> bytes \<Rightarrow> bytes" where
  "norm_loop prevSep [] = []"
| "norm_loop prevSep (c # s) =
    (let r = (if c = CHR ''_'' \<or> c = CHR ''.'' then CHR ''-'' else c) in
     if r = CHR ''-'' then (if prevSep then norm_loop prevSep s else r # norm_loop True s)
     else r # norm_loop False s)"

definition normaliseName :: "bytes \<Rightarrow> bytes" where
  "normaliseName s = trim_suffix (norm_loop False (to_lower s)) ''-''"

subsection \<open>URLs and paths\<close>

text \<open>\<open>getScheme\<close> of \<open>net/url\<close>: nothing when the text has no scheme, an error for a leading colon.\<close>

fun get_scheme :: "bytes \<Rightarrow> bytes \<Rightarrow> bytes option" where
  "get_scheme acc [] = Some []"
| "get_scheme acc (c # s) =
    (if (97 \<le> byte c \<and> byte c \<le> 122) \<or> (65 \<le> byte c \<and> byte c \<le> 90) then get_scheme (acc @ [c]) s
     else if is_digit c \<or> c = CHR ''+'' \<or> c = CHR ''-'' \<or> c = CHR ''.'' then
       (if acc = [] then Some [] else get_scheme (acc @ [c]) s)
     else if c = CHR '':'' then (if acc = [] then None else Some acc)
     else Some [])"

definition url_schemes :: "bytes list" where
  "url_schemes = [''http'', ''https'', ''ssh'', ''git'', ''file'', ''ftp'']"

definition isURLLike :: "(bytes \<Rightarrow> bool) \<Rightarrow> bytes \<Rightarrow> bool" where
  "isURLLike url_ok s \<longleftrightarrow>
    (if s = [] then False
     else url_ok s \<and> (case get_scheme [] s of None \<Rightarrow> False | Some sch \<Rightarrow> to_lower sch \<in> set url_schemes))"

subsection \<open>The parser\<close>

definition named :: "bytes \<Rightarrow> SpecSource \<Rightarrow> Spec" where
  "named name src = \<lparr>SpName = normaliseName name, SpRawName = name, SpSource = src, SpSpecifier = \<lparr>Clauses = []\<rparr>,
     SpIndexURL = [], SpGitURL = [], SpGitRev = [], SpLocalPath = []\<rparr>"

definition newRegistry :: "bytes \<Rightarrow> bytes \<Rightarrow> SpecError + Spec" where
  "newRegistry name ver =
    (case validateName name of
       Some e \<Rightarrow> Inl e
     | None \<Rightarrow>
         (let spec = named name SourceRegistry in
          if ver = [] then Inr spec
          else case ParseSpecifier ver of
            Inl e \<Rightarrow> Inl (BadSpecifier (name @ ''@'' @ ver) e)
          | Inr sp \<Rightarrow> Inr (spec\<lparr>SpSpecifier := sp\<rparr>)))"

definition newIndex :: "(bytes \<Rightarrow> bool) \<Rightarrow> bytes \<Rightarrow> bytes \<Rightarrow> bytes \<Rightarrow> SpecError + Spec" where
  "newIndex url_ok name idxName idxURL =
    (case validateName name of
       Some e \<Rightarrow> Inl e
     | None \<Rightarrow>
         if idxName = [] then Inl (EmptyIndexName (name @ ''@+'' @ idxURL))
         else if \<not> isURLLike url_ok idxURL then Inl (BadIndexURL name idxURL)
         else Inr ((named name SourceIndex)\<lparr>SpIndexURL := idxURL\<rparr>))"

definition newGit :: "(bytes \<Rightarrow> bool) \<Rightarrow> bytes \<Rightarrow> bytes \<Rightarrow> SpecError + Spec" where
  "newGit url_ok name rest =
    (case validateName name of
       Some e \<Rightarrow> Inl e
     | None \<Rightarrow>
         if rest = [] then Inl (EmptyGitURL name)
         else
           let finish = (\<lambda>url rev.
                 if \<not> isURLLike url_ok url then Inl (BadGitURL name url)
                 else Inr ((named name SourceGit)\<lparr>SpGitURL := url, SpGitRev := rev\<rparr>))
           in case index_of rest ''#'' of
                None \<Rightarrow> finish rest []
              | Some hash \<Rightarrow>
                  (let rev = drop (hash + 1) rest; url = take hash rest in
                   if url = [] then Inl (NothingBeforeFragment name)
                   else if rev = [] then Inl (EmptyFragment name)
                   else finish url rev))"

definition newPath :: "bytes \<Rightarrow> bytes \<Rightarrow> SpecError + Spec" where
  "newPath name rest =
    (case validateName name of
       Some e \<Rightarrow> Inl e
     | None \<Rightarrow>
         if rest = [] then Inl (EmptyPath name)
         else let cleaned = path_clean rest in
           if cleaned = ''.'' \<or> cleaned = ''/'' then Inl (UnusablePath name rest)
           else Inr ((named name SourcePath)\<lparr>SpLocalPath := rest\<rparr>))"

definition parse_qualifier :: "(bytes \<Rightarrow> bool) \<Rightarrow> bytes \<Rightarrow> bytes \<Rightarrow> SpecError + Spec" where
  "parse_qualifier url_ok nameRaw rest =
    (if has_prefix rest ''git+'' then newGit url_ok nameRaw (drop 4 rest)
     else if has_prefix rest ''path+'' then newPath nameRaw (drop 5 rest)
     else case index_of rest ''+'' of
       None \<Rightarrow> newRegistry nameRaw rest
     | Some p \<Rightarrow>
         (let idxName = take p rest; idxURL = drop (p + 1) rest in
          if isURLLike url_ok idxURL then newIndex url_ok nameRaw idxName idxURL
          else newRegistry nameRaw rest))"

definition Importspec_Parse :: "(bytes \<Rightarrow> bool) \<Rightarrow> bytes \<Rightarrow> SpecError + Spec" where
  "Importspec_Parse url_ok raw =
    (if raw = [] then Inl EmptySpec
     else let s = trim_space raw in
       if s \<noteq> raw then Inl (SurroundingSpace raw)
       else case index_of s ''@'' of
         None \<Rightarrow> newRegistry s []
       | Some p \<Rightarrow>
           (let nameRaw = take p s; rest = drop (p + 1) s in
            if rest = [] then Inl (EmptyQualifier raw)
            else parse_qualifier url_ok nameRaw rest))"

subsection \<open>Valid names\<close>

lemma dash_chars: "char_of (45 :: int) = CHR ''-''" "char_of (46 :: int) = CHR ''.''" "char_of (95 :: int) = CHR ''_''"
  by (code_simp, code_simp, code_simp)

definition name_char :: "char \<Rightarrow> bool" where
  "name_char c \<longleftrightarrow> isPyDistChar (byte c) False"

definition valid_name :: "bytes \<Rightarrow> bool" where
  "valid_name s \<longleftrightarrow> s \<noteq> [] \<and> list_all name_char s \<and> isPyDistChar (byte (hd s)) True
     \<and> isPyDistChar (byte (last s)) True"

lemma validateName_None: "validateName s = None \<longleftrightarrow> valid_name s"
proof
  assume v: "validateName s = None"
  then have s: "s \<noteq> []" "isPyDistChar (byte (hd s)) True"
    and rs: "find (\<lambda>r. \<not> isPyDistChar r False) (tl (runes s)) = None"
    and suf: "\<not> has_suffix s ''-''" "\<not> has_suffix s ''.''" "\<not> has_suffix s ''_''"
    by (auto simp: validateName_def split: if_splits option.splits)
  obtain c t where c: "s = c # t" using s(1) by (cases s) auto
  have "byte c < 128" using s(2) c by (auto simp: isPyDistChar_def)
  then have r: "runes s = byte c # runes t" by (simp add: runes_def c decode_rune_def)
  have "\<forall>r \<in> set (runes t). isPyDistChar r False" using rs r by (auto simp: find_None_iff)
  then have "ascii t" by (intro runes_small) (auto simp: isPyDistChar_def)
  then have "list_all name_char t"
    using \<open>\<forall>r \<in> set (runes t). isPyDistChar r False\<close> by (simp add: runes_ascii name_char_def list_all_iff)
  then have all: "list_all name_char s" using s(2) c by (auto simp: name_char_def isPyDistChar_def)
  have "s = butlast s @ [last s]" using s(1) by simp
  then have "last s \<noteq> CHR ''-''" "last s \<noteq> CHR ''.''" "last s \<noteq> CHR ''_''"
    using suf by (metis suffixI)+
  then have "byte (last s) \<noteq> 45" "byte (last s) \<noteq> 46" "byte (last s) \<noteq> 95"
    using dash_chars by (metis byte_eqD)+
  moreover have "isPyDistChar (byte (last s)) False" using all s(1) by (simp add: list_all_iff name_char_def)
  ultimately show "valid_name s" using s all by (auto simp: valid_name_def isPyDistChar_def)
next
  assume v: "valid_name s"
  then have a: "ascii s" by (auto simp: valid_name_def ascii_def list_all_iff name_char_def isPyDistChar_def)
  have "\<forall>r \<in> set (tl (map byte s)). isPyDistChar r False"
    using v by (cases s) (auto simp: valid_name_def list_all_iff name_char_def)
  then have f: "find (\<lambda>r. \<not> isPyDistChar r False) (tl (runes s)) = None"
    using runes_ascii [OF a] by (simp add: find_None_iff)
  have "\<not> has_prefix s [c]" if "\<not> isPyDistChar (byte c) True" for c
    using v that by (cases s) (auto simp: valid_name_def)
  moreover have "\<not> has_suffix s [c]" if "\<not> isPyDistChar (byte c) True" for c
    using v that by (auto simp: valid_name_def suffix_def)
  ultimately show "validateName s = None"
    using v f by (auto simp: validateName_def valid_name_def isPyDistChar_def)
qed

lemma name_char_solid: "name_char c \<Longrightarrow> solid c"
  by (auto simp: name_char_def isPyDistChar_def solid_def)

lemma name_char_not: "\<not> name_char (CHR ''@'')" "\<not> name_char (CHR ''+'')"
  by (simp_all add: name_char_def isPyDistChar_def)

subsection \<open>What the parser accepts\<close>

lemma newRegistry_Inr: "newRegistry n ver = Inr sp \<longleftrightarrow> valid_name n \<and>
    (if ver = [] then sp = named n SourceRegistry
     else \<exists>c. ParseSpecifier ver = Inr c \<and> sp = (named n SourceRegistry)\<lparr>SpSpecifier := c\<rparr>)"
  by (auto simp: newRegistry_def Let_def simp flip: validateName_None split: option.splits sum.splits)

lemma newIndex_Inr: "newIndex ok n idx u = Inr sp \<longleftrightarrow> valid_name n \<and> idx \<noteq> [] \<and> isURLLike ok u
    \<and> sp = (named n SourceIndex)\<lparr>SpIndexURL := u\<rparr>"
  by (auto simp: newIndex_def simp flip: validateName_None split: option.splits)

lemma newPath_text: "newPath n rest = Inr sp \<Longrightarrow> valid_name n \<and> Spec_String sp = n @ ''@path+'' @ rest
    \<and> SpName sp = normaliseName n \<and> SpRawName sp = n \<and> SpSource sp = SourcePath"
  by (auto simp: newPath_def Let_def Spec_String_def named_def simp flip: validateName_None split: option.splits if_splits)

lemma newGit_text:
  assumes "newGit ok n rest = Inr sp"
  shows "valid_name n \<and> Spec_String sp = n @ ''@git+'' @ rest
    \<and> SpName sp = normaliseName n \<and> SpRawName sp = n \<and> SpSource sp = SourceGit"
proof (cases "index_of rest ''#''")
  case None
  then show ?thesis using assms
    by (auto simp: newGit_def Let_def Spec_String_def named_def simp flip: validateName_None split: option.splits if_splits)
next
  case (Some h)
  then have h: "h < length rest" "rest ! h = CHR ''#''" using index_of_char_Some [of rest "CHR ''#''" h] by auto
  then have "take h rest @ CHR ''#'' # drop (Suc h) rest = rest" by (metis id_take_nth_drop)
  then show ?thesis using Some assms
    by (auto simp: newGit_def Let_def Spec_String_def named_def simp flip: validateName_None split: option.splits if_splits)
qed

lemma index_of_split: "index_of s [c] = Some i \<Longrightarrow> s = take i s @ c # drop (i + 1) s"
  using index_of_char_Some [of s c i] by (metis Suc_eq_plus1 id_take_nth_drop)

text \<open>The shapes of an accepted text.\<close>

lemma parse_qualifier_Inr:
  assumes "parse_qualifier ok n q = Inr sp"
  shows "(\<exists>rest. q = ''git+'' @ rest \<and> newGit ok n rest = Inr sp)
    \<or> (\<exists>rest. q = ''path+'' @ rest \<and> newPath n rest = Inr sp)
    \<or> (\<exists>idx u. q = idx @ CHR ''+'' # u \<and> newIndex ok n idx u = Inr sp)
    \<or> newRegistry n q = Inr sp"
  using assms index_of_split [of q "CHR ''+''"]
  by (auto simp: parse_qualifier_def Let_def prefix_def split: if_splits option.splits)

lemma Parse_Inr:
  assumes "Importspec_Parse ok raw = Inr sp"
  shows "trim_space raw = raw \<and> raw \<noteq> [] \<and> (newRegistry raw [] = Inr sp
    \<or> (\<exists>n q. raw = n @ CHR ''@'' # q \<and> q \<noteq> [] \<and> parse_qualifier ok n q = Inr sp))"
proof (cases "index_of raw ''@''")
  case None
  then show ?thesis using assms by (auto simp: Importspec_Parse_def Let_def split: if_splits)
next
  case (Some i)
  then have "raw = take i raw @ CHR ''@'' # drop (i + 1) raw" by (rule index_of_split)
  moreover have "trim_space raw = raw" "raw \<noteq> []" "drop (i + 1) raw \<noteq> []"
    "parse_qualifier ok (take i raw) (drop (i + 1) raw) = Inr sp"
    using Some assms by (auto simp: Importspec_Parse_def Let_def split: if_splits)
  ultimately show ?thesis by blast
qed

lemma Parse_cases [consumes 1, case_names plain git path index version]:
  assumes "Importspec_Parse ok raw = Inr sp"
    and plain: "newRegistry raw [] = Inr sp \<Longrightarrow> P"
    and git: "\<And>n rest. raw = n @ CHR ''@'' # ''git+'' @ rest \<Longrightarrow> newGit ok n rest = Inr sp \<Longrightarrow> P"
    and path: "\<And>n rest. raw = n @ CHR ''@'' # ''path+'' @ rest \<Longrightarrow> newPath n rest = Inr sp \<Longrightarrow> P"
    and index: "\<And>n idx u. raw = n @ CHR ''@'' # idx @ CHR ''+'' # u \<Longrightarrow> newIndex ok n idx u = Inr sp \<Longrightarrow> P"
    and version: "\<And>n q. raw = n @ CHR ''@'' # q \<Longrightarrow> q \<noteq> [] \<Longrightarrow> newRegistry n q = Inr sp \<Longrightarrow> P"
  shows P
proof -
  from Parse_Inr [OF assms(1)] have "newRegistry raw [] = Inr sp
    \<or> (\<exists>n q. raw = n @ CHR ''@'' # q \<and> q \<noteq> [] \<and> parse_qualifier ok n q = Inr sp)" by (elim conjE)
  then show P
  proof (elim disjE exE conjE)
    assume "newRegistry raw [] = Inr sp"
    then show P by (rule plain)
  next
    fix n q assume q: "raw = n @ CHR ''@'' # q" "q \<noteq> []" "parse_qualifier ok n q = Inr sp"
    from parse_qualifier_Inr [OF q(3)] show P
      using git [of n] path [of n] index [of n] version [OF q(1,2)] unfolding q(1) by (elim disjE exE conjE) simp_all
  qed
qed

subsection \<open>Texts without blanks at their ends\<close>

lemma length_trim_blanks: "length (trim_blanks f s) \<le> length s"
proof (induction f s rule: trim_blanks.induct)
  case (1 f s)
  then show ?case by (subst trim_blanks.simps) (auto intro: order_trans)
qed

lemma trim_blanks_fix: "f s \<noteq> 0 \<Longrightarrow> s \<noteq> [] \<Longrightarrow> length (trim_blanks f s) < length s"
proof -
  assume a: "f s \<noteq> 0" "s \<noteq> []"
  have "length (trim_blanks f s) \<le> length (drop (f s) s)"
    using a length_trim_blanks [of f "drop (f s) s"] by (subst trim_blanks.simps) simp
  then show ?thesis using a by (cases s) auto
qed

lemma trim_space_end:
  assumes "trim_space s = s" "s \<noteq> []"
  shows "blank_len_rev (rev s) = 0"
proof (rule ccontr)
  assume r: "blank_len_rev (rev s) \<noteq> 0"
  have "blank_len s = 0"
  proof (rule ccontr)
    assume "blank_len s \<noteq> 0"
    then have "length (trim_blanks blank_len s) < length s" using assms(2) trim_blanks_fix by blast
    then show False using assms(1) length_trim_blanks [of blank_len_rev "rev (trim_blanks blank_len s)"]
      by (metis length_rev not_less trim_space_def)
  qed
  then have "trim_space s = rev (trim_blanks blank_len_rev (rev s))" by (simp add: trim_space_def)
  then show False using assms trim_blanks_fix [of blank_len_rev "rev s"] r by (metis length_rev nat_neq_iff rev_is_Nil_conv)
qed

lemma trim_space_ends: "s \<noteq> [] \<Longrightarrow> solid (hd s) \<Longrightarrow> blank_len_rev (rev s) = 0 \<Longrightarrow> trim_space s = s"
  using blank_len_solid [of "hd s" "tl s"] by (simp add: trim_space_def)

lemma blank_len_rev_end: "3 \<le> length u \<Longrightarrow> blank_len_rev (rev (a @ u)) = blank_len_rev (rev u)"
proof -
  assume "3 \<le> length u"
  then have "3 \<le> length (rev u)" by simp
  then obtain x y z t where "rev u = x # y # z # t"
    by (metis (no_types, opaque_lifting) One_nat_def Suc_le_length_iff numeral_3_eq_3)
  then show ?thesis by simp
qed

subsection \<open>Printing, then parsing\<close>

lemma get_scheme_colon: "CHR '':'' \<notin> set s \<Longrightarrow> get_scheme acc s = Some []"
  by (induction s arbitrary: acc) auto

lemma length_get_scheme: "get_scheme acc s = Some r \<Longrightarrow> length r \<le> length acc + length s"
  by (induction s arbitrary: acc) (force split: if_splits)+

lemma length_to_lower: "length (to_lower s) \<le> length s"
proof (induction s rule: length_induct)
  case (1 s)
  then have IH: "length (to_lower t) \<le> length t" if "length t < length s" for t using that by blast
  show ?case
  proof (cases s)
    case (Cons a t)
    have t: "length (to_lower t) \<le> length t" using IH Cons by simp
    show ?thesis
    proof (cases t)
      case t': (Cons b u)
      have u: "length (to_lower u) \<le> length u" using IH Cons t' by simp
      show ?thesis
      proof (cases u)
        case u': (Cons c v)
        have "length (to_lower v) \<le> length v" using IH Cons t' u' by simp
        then show ?thesis using t u Cons t' u' by (simp del: to_lower.simps add: to_lower.simps(2) [of a "b # c # v"])
      qed (use t u Cons t' in simp)
    qed (use Cons in simp)
  qed simp
qed

lemma isURLLike_length: "isURLLike ok u \<Longrightarrow> 3 \<le> length u"
proof -
  assume "isURLLike ok u"
  then obtain sch where sch: "get_scheme [] u = Some sch" "to_lower sch \<in> set url_schemes"
    by (auto simp: isURLLike_def split: if_splits option.splits)
  have "\<forall>x \<in> set url_schemes. 3 \<le> length x" by (simp add: url_schemes_def)
  then have "3 \<le> length (to_lower sch)" using sch(2) by blast
  then show "3 \<le> length u" using length_get_scheme [OF sch(1)] length_to_lower [of sch] by simp
qed

lemma Specifier_String_no:
  assumes "\<forall>c \<in> set (Clauses s). canonical_clause c"
  shows "CHR '':'' \<notin> set (Specifier_String s)"
  using assms clause_text_no by (fastforce simp: Specifier_String_def dest: set_join)

lemma Parse_qualified:
  assumes "valid_name n" "q \<noteq> []" "blank_len_rev (rev (n @ CHR ''@'' # q)) = 0"
  shows "Importspec_Parse ok (n @ CHR ''@'' # q) = parse_qualifier ok n q"
proof -
  have n: "n \<noteq> []" "solid (hd n)" "CHR ''@'' \<notin> set n"
    using assms(1) name_char_not by (auto simp: valid_name_def list_all_iff intro!: name_char_solid dest: hd_in_set)
  have "trim_space (n @ CHR ''@'' # q) = n @ CHR ''@'' # q"
    using n assms(3) by (intro trim_space_ends) auto
  then show ?thesis using n assms(2) by (simp add: Importspec_Parse_def)
qed

lemma index_reparse:
  assumes "valid_name n" "isURLLike ok u" "n \<noteq> ''git''" "n \<noteq> ''path''"
  shows "parse_qualifier ok n (n @ CHR ''+'' # u) = Inr ((named n SourceIndex)\<lparr>SpIndexURL := u\<rparr>)"
proof -
  have plus: "CHR ''+'' \<notin> set n" "n \<noteq> []" using assms(1) name_char_not by (auto simp: valid_name_def list_all_iff)
  have pre: "\<not> has_prefix (n @ CHR ''+'' # u) (p @ ''+'')" if "CHR ''+'' \<notin> set p" "n \<noteq> p" for p
  proof
    assume "has_prefix (n @ CHR ''+'' # u) (p @ ''+'')"
    then obtain z where "n @ CHR ''+'' # u = p @ CHR ''+'' # z" by (auto simp: prefix_def)
    then have "takeWhile (\<lambda>c. c \<noteq> CHR ''+'') (n @ CHR ''+'' # u) = takeWhile (\<lambda>c. c \<noteq> CHR ''+'') (p @ CHR ''+'' # z)" by simp
    moreover have "takeWhile (\<lambda>c. c \<noteq> CHR ''+'') (m @ CHR ''+'' # w) = m" if "CHR ''+'' \<notin> set m" for m w
      using that by (induction m) auto
    ultimately show False using plus(1) that by auto
  qed
  have "newIndex ok n n u = Inr ((named n SourceIndex)\<lparr>SpIndexURL := u\<rparr>)"
    using assms(1,2) plus(2) by (simp add: newIndex_Inr)
  then show ?thesis
    using pre [of "''git''"] pre [of "''path''"] assms plus by (simp add: parse_qualifier_def)
qed

lemma registry_reparse:
  assumes "valid_name n" "\<forall>c \<in> set (Clauses sp). canonical_clause c" "Clauses sp \<noteq> []"
  shows "Importspec_Parse ok (n @ CHR ''@'' # Specifier_String sp) = Inr ((named n SourceRegistry)\<lparr>SpSpecifier := sp\<rparr>)"
proof -
  let ?t = "Specifier_String sp"
  obtain c cs where c: "Clauses sp = c # cs" using assms(3) by (cases "Clauses sp") auto
  have can: "canonical_clause c" using assms(2) c by simp
  have solid: "solid (last ?t)" "?t \<noteq> []"
  proof -
    have ne: "map clause_text (Clauses sp) \<noteq> []" "last (map clause_text (Clauses sp)) \<noteq> []"
      using c clause_text_not_Nil by (auto simp: last_map)
    then have l: "last ?t = last (last (map clause_text (Clauses sp)))" "?t \<noteq> []"
      using last_join [of "map clause_text (Clauses sp)" "'', ''"] by (auto simp: Specifier_String_def)
    have "canonical_clause (last (Clauses sp))" using assms(2,3) by simp
    then show "solid (last ?t)"
      using l(1) assms(3) clause_text_solid [of "last (Clauses sp)"] clause_text_not_Nil
      by (simp add: last_map)
    show "?t \<noteq> []" by (rule l(2))
  qed
  obtain b l where bl: "?t = b @ [l]" "solid l" using solid by (metis append_butlast_last_id)
  have "blank_len_rev (rev (n @ CHR ''@'' # ?t)) = 0"
    using blank_len_rev_solid [OF bl(2)] unfolding bl(1) by simp
  then have q: "Importspec_Parse ok (n @ CHR ''@'' # ?t) = parse_qualifier ok n ?t"
    using Parse_qualified assms(1) solid(2) by blast
  have head: "hd ?t \<in> {CHR ''='', CHR ''!'', CHR ''<'', CHR ''>'', CHR ''~''}"
  proof -
    have "hd ?t = hd (clause_text c)"
      using c clause_text_not_Nil hd_join [of "map clause_text (Clauses sp)" "'', ''"] by (simp add: Specifier_String_def)
    then show ?thesis using can by (cases "Op c") (auto simp: clause_text_def canonical_clause_def)
  qed
  have nocolon: "CHR '':'' \<notin> set ?t" by (rule Specifier_String_no [OF assms(2)])
  have "parse_qualifier ok n ?t = newRegistry n ?t"
  proof -
    have "\<not> has_prefix ?t ''git+''" "\<not> has_prefix ?t ''path+''"
      using head solid(2) by (cases ?t; auto)+
    moreover have "\<not> isURLLike ok (drop (i + 1) ?t)" for i
    proof -
      have "CHR '':'' \<notin> set (drop (i + 1) ?t)" using nocolon by (meson in_set_dropD)
      then show ?thesis by (simp add: isURLLike_def get_scheme_colon url_schemes_def)
    qed
    ultimately show ?thesis by (auto simp: parse_qualifier_def Let_def split: option.splits)
  qed
  also have "\<dots> = Inr ((named n SourceRegistry)\<lparr>SpSpecifier := sp\<rparr>)"
    using assms(1) solid(2) specifier_text_parse [OF assms(2)] by (auto simp: newRegistry_Inr)
  finally show ?thesis using q by simp
qed

text \<open>
  C33. What an accepted import string denotes and how it prints: the name is the normal form of a
  valid distribution name; git and path strings print back byte for byte; and the printed text of
  any accepted string parses to the same specification.  For a version the clauses must be canonical
  (the parser keeps the spelling of a clause), and for an index the distribution must not be named
  \<open>git\<close> or \<open>path\<close>: its own name is printed in the place of the index identifier.
\<close>

theorem Importspec_Parse_String:
  assumes "Importspec_Parse url_ok raw = Inr sp"
    and "\<forall>c \<in> set (Clauses (SpSpecifier sp)). canonical_clause c"
    and "SpSource sp = SourceIndex \<Longrightarrow> SpRawName sp \<notin> {''git'', ''path''}"
  shows "Importspec_Parse url_ok (Spec_String sp) = Inr sp
    \<and> SpName sp = normaliseName (SpRawName sp) \<and> validateName (SpRawName sp) = None
    \<and> (SpSource sp \<in> {SourceGit, SourcePath} \<longrightarrow> Spec_String sp = raw)"
proof -
  have raw: "trim_space raw = raw" "raw \<noteq> []" using Parse_Inr [OF assms(1)] by auto
  note parts = named_def Spec_String_def newRegistry_Inr newIndex_Inr validateName_None
  show ?thesis
    using assms(1)
  proof (cases rule: Parse_cases)
    case plain
    then have sp: "sp = named raw SourceRegistry" "valid_name raw" by (simp_all add: newRegistry_Inr)
    then have "Spec_String sp = raw" by (simp add: Spec_String_def named_def Specifier_String_def)
    then show ?thesis using sp assms(1) by (simp add: named_def validateName_None)
  next
    case (git n rest)
    then show ?thesis using newGit_text [OF git(2)] assms(1) by (simp add: validateName_None)
  next
    case (path n rest)
    then show ?thesis using newPath_text [OF path(2)] assms(1) by (simp add: validateName_None)
  next
    case (index n idx u)
    then have sp: "sp = (named n SourceIndex)\<lparr>SpIndexURL := u\<rparr>" "valid_name n" "isURLLike url_ok u"
      by (auto simp: newIndex_Inr)
    have n: "n \<noteq> ''git''" "n \<noteq> ''path''" using assms(3) sp(1) by (auto simp: named_def)
    have "blank_len_rev (rev (n @ CHR ''@'' # n @ CHR ''+'' # u)) = blank_len_rev (rev u)"
      using blank_len_rev_end [OF isURLLike_length [OF sp(3)], of "n @ CHR ''@'' # n @ ''+''"] by simp
    also have "\<dots> = blank_len_rev (rev raw)"
      using blank_len_rev_end [OF isURLLike_length [OF sp(3)], of "n @ CHR ''@'' # idx @ ''+''"] index(1) by simp
    also have "\<dots> = 0" by (rule trim_space_end [OF raw])
    finally have "Importspec_Parse url_ok (n @ CHR ''@'' # n @ CHR ''+'' # u) = Inr sp"
      using Parse_qualified [OF sp(2)] index_reparse [OF sp(2,3) n] sp(1) by simp
    then show ?thesis using sp by (simp add: parts)
  next
    case (version n q)
    then obtain c where c: "valid_name n" "sp = (named n SourceRegistry)\<lparr>SpSpecifier := c\<rparr>"
      by (auto simp: newRegistry_Inr)
    show ?thesis
    proof (cases "Clauses c = []")
      case True
      then have "c = \<lparr>Clauses = []\<rparr>" by (cases c) simp
      moreover have "trim_space n = n" "n \<noteq> []" "CHR ''@'' \<notin> set n"
        using c(1) name_char_not
        by (auto simp: valid_name_def list_all_iff intro!: trim_space_solid name_char_solid)
      ultimately show ?thesis using c
        by (simp add: parts Specifier_String_def Importspec_Parse_def)
    next
      case False
      then have "Specifier_String c \<noteq> []"
        using clause_text_not_Nil by (cases "Clauses c") (auto simp: Specifier_String_def join_not_Nil)
      moreover have "Importspec_Parse url_ok (n @ CHR ''@'' # Specifier_String c) = Inr sp"
        using registry_reparse [OF c(1) _ False] assms(2) c(2) by simp
      ultimately show ?thesis using c by (simp add: parts)
    qed
  qed
qed

theorem Importspec_Parse_String_witness:
  "\<exists>sp. Importspec_Parse (\<lambda>_. True) ''Torch_Vision@pt+https://x/whl'' = Inr sp
     \<and> SpName sp = ''torch-vision'' \<and> Spec_String sp = ''Torch_Vision@Torch_Vision+https://x/whl''
     \<and> Importspec_Parse (\<lambda>_. True) (Spec_String sp) = Inr sp"
proof -
  define sp where "sp = \<lparr>SpName = ''torch-vision'', SpRawName = ''Torch_Vision'', SpSource = SourceIndex,
     SpSpecifier = \<lparr>Clauses = []\<rparr>, SpIndexURL = ''https://x/whl'', SpGitURL = [], SpGitRev = [], SpLocalPath = []\<rparr>"
  have p: "Importspec_Parse (\<lambda>_. True) ''Torch_Vision@pt+https://x/whl'' = Inr sp"
    unfolding sp_def by code_simp
  have "Spec_String sp = ''Torch_Vision@Torch_Vision+https://x/whl''" unfolding sp_def by code_simp
  moreover have "Importspec_Parse (\<lambda>_. True) (Spec_String sp) = Inr sp"
    using Importspec_Parse_String [OF p] by (auto simp: sp_def)
  moreover have "SpName sp = ''torch-vision''" by (simp add: sp_def)
  ultimately show ?thesis using p by blast
qed

text \<open>
  The index identifier is not kept, so the text of an index string is not restored; and for a
  distribution named \<open>git\<close> the printed text is a git string.
\<close>

lemma index_named_git:
  "\<exists>sp. Importspec_Parse (\<lambda>_. True) ''git@idx+https://x'' = Inr sp \<and> SpSource sp = SourceIndex
     \<and> Spec_String sp = ''git@git+https://x''
     \<and> (\<exists>sp'. Importspec_Parse (\<lambda>_. True) (Spec_String sp) = Inr sp' \<and> SpSource sp' = SourceGit)"
proof -
  define sp where "sp = (named ''git'' SourceIndex)\<lparr>SpIndexURL := ''https://x''\<rparr>"
  define sp' where "sp' = (named ''git'' SourceGit)\<lparr>SpGitURL := ''https://x''\<rparr>"
  have "Importspec_Parse (\<lambda>_. True) ''git@idx+https://x'' = Inr sp" unfolding sp_def by code_simp
  moreover have "Spec_String sp = ''git@git+https://x''" unfolding sp_def by code_simp
  moreover have "Importspec_Parse (\<lambda>_. True) ''git@git+https://x'' = Inr sp'" unfolding sp'_def by code_simp
  ultimately show ?thesis by (auto simp: sp_def sp'_def named_def)
qed

end
