(* ===== verification/Toml.thy ===== *)
theory Toml
  imports Go_Sort "HOL-Library.AList"
begin

section \<open>The TOML subset the bridge reads (toml/)\<close>

text \<open>
  The parser (parser.go) and the typed accessor (decoder.go).  A Go map is an association list whose
  keys are distinct (\<open>Parse_keys\<close> below), looked up with \<open>map_of\<close>.  The parser of the code keeps
  an offset, here the rest of the source is kept; line and column of an error are not modelled.
  The code holds the table that receives the next keys as a pointer into the tree; here it is the
  path that leads to it, through the last element of every array of tables, and the tree is rebuilt
  along the path.  A float keeps its literal, and whether \<open>strconv.ParseFloat\<close> accepts the literal is
  a parameter.
\<close>

subsection \<open>Values\<close>

datatype toml =
    TStr bytes | TInt int | TFloat bytes | TBool bool | TArr "toml list"
  | TTab "(bytes \<times> toml) list" | TTabs "(bytes \<times> toml) list list"

type_synonym table = "(bytes \<times> toml) list"

datatype TomlError =
    OutOfFuel | TrailingGarbage | ExpectedHeaderEnd | ExpectedKey | DottedKey bytes | ExpectedEquals bytes
  | DuplicateKey bytes | UnexpectedEOF | UnexpectedChar | Multiline | UnterminatedString
  | NewlineInString | UnterminatedEscape | BadUnicodeEscape | UnknownEscape | UnterminatedArray
  | ArraySeparator | InlineEquals | InlineDuplicate bytes | InlineSeparator | ExpectedBool
  | ExpectedDigit | NonDecimal | BadFloat bytes | BadInt bytes
  | EmptyTableArray bytes | NotATable bytes | NotATableArray bytes

subsection \<open>White space and line ends\<close>

definition skipInlineWS :: "bytes \<Rightarrow> bytes" where
  "skipInlineWS s = dropWhile (\<lambda>c. c = CHR '' '' \<or> c = CHR 0x09) s"

definition to_newline :: "bytes \<Rightarrow> bytes" where
  "to_newline s = dropWhile (\<lambda>c. c \<noteq> CHR 0x0A) s"

function skipWSAndComments :: "bytes \<Rightarrow> bytes" where
  "skipWSAndComments s =
    (case s of
       [] \<Rightarrow> []
     | c # r \<Rightarrow>
         if c = CHR '' '' \<or> c = CHR 0x09 \<or> c = CHR 0x0A \<or> c = CHR 0x0D then skipWSAndComments r
         else if c = CHR 0x23 then skipWSAndComments (to_newline r)
         else s)"
  by pat_completeness auto
termination
  by (relation "measure length") (auto simp: to_newline_def less_Suc_eq_le length_dropWhile_le)

declare skipWSAndComments.simps [simp del]

definition peek_is :: "char \<Rightarrow> bytes \<Rightarrow> bool" where
  "peek_is c s \<longleftrightarrow> (case s of [] \<Rightarrow> False | d # _ \<Rightarrow> d = c)"

definition skipLineEnd :: "bytes \<Rightarrow> TomlError + bytes" where
  "skipLineEnd s =
    (let s = skipInlineWS s;
         s = (if peek_is CHR 0x23 s then to_newline s else s);
         s = (if peek_is CHR 0x0D s then tl s else s)
     in case s of [] \<Rightarrow> Inr [] | c # r \<Rightarrow> if c \<noteq> CHR 0x0A then Inl TrailingGarbage else Inr r)"

subsection \<open>Keys and strings\<close>

definition key_char :: "char \<Rightarrow> bool" where
  "key_char c \<longleftrightarrow> (97 \<le> byte c \<and> byte c \<le> 122) \<or> (65 \<le> byte c \<and> byte c \<le> 90) \<or> is_digit c
     \<or> c = CHR ''_'' \<or> c = CHR ''-''"

definition hex_val :: "char \<Rightarrow> int option" where
  "hex_val c =
    (if is_digit c then Some (byte c - 48)
     else if 97 \<le> byte c \<and> byte c \<le> 102 then Some (byte c - 87)
     else if 65 \<le> byte c \<and> byte c \<le> 70 then Some (byte c - 55) else None)"

text \<open>\<open>b.WriteRune(rune(n))\<close> for a rune of four hex digits; a surrogate is written as U+FFFD.\<close>

definition write_rune :: "int \<Rightarrow> bytes" where
  "write_rune n =
    (if n < 128 then [char_of n]
     else if n < 2048 then [char_of (192 + n div 64), char_of (128 + n mod 64)]
     else let n = (if 55296 \<le> n \<and> n \<le> 57343 then 65533 else n) in
       [char_of (224 + n div 4096), char_of (128 + n div 64 mod 64), char_of (128 + n mod 64)])"

definition simple_escape :: "char \<Rightarrow> char option" where
  "simple_escape e =
    (if e = CHR 0x22 then Some CHR 0x22 else if e = CHR 0x5C then Some CHR 0x5C
     else if e = CHR ''n'' then Some CHR 0x0A else if e = CHR ''t'' then Some CHR 0x09
     else if e = CHR ''r'' then Some CHR 0x0D else if e = CHR ''/'' then Some CHR ''/''
     else if e = CHR ''b'' then Some CHR 0x08 else if e = CHR ''f'' then Some CHR 0x0C else None)"

definition add_text :: "bytes \<Rightarrow> TomlError + bytes \<times> bytes \<Rightarrow> TomlError + bytes \<times> bytes" where
  "add_text t res = (case res of Inl e \<Rightarrow> Inl e | Inr (b, r) \<Rightarrow> Inr (t @ b, r))"

text \<open>The loop of \<open>parseString\<close> after the opening quote: the text and what follows the closing quote.\<close>

fun string_loop :: "char \<Rightarrow> bytes \<Rightarrow> TomlError + bytes \<times> bytes" where
  "string_loop q [] = Inl UnterminatedString"
| "string_loop q (c # s) =
    (if c = q then Inr ([], s)
     else if c = CHR 0x0A then Inl NewlineInString
     else if q = CHR 0x22 \<and> c = CHR 0x5C then
       (case s of
          [] \<Rightarrow> Inl UnterminatedEscape
        | e # s' \<Rightarrow>
            (case simple_escape e of
               Some d \<Rightarrow> add_text [d] (string_loop q s')
             | None \<Rightarrow>
                 if e = CHR ''u'' then
                   (case s' of
                      h1 # h2 # h3 # h4 # s'' \<Rightarrow>
                        (case (hex_val h1, hex_val h2, hex_val h3, hex_val h4) of
                           (Some a, Some b, Some d, Some f) \<Rightarrow>
                             add_text (write_rune (4096 * a + 256 * b + 16 * d + f)) (string_loop q s'')
                         | _ \<Rightarrow> Inl BadUnicodeEscape)
                    | _ \<Rightarrow> Inl BadUnicodeEscape)
                 else Inl UnknownEscape))
     else add_text [c] (string_loop q s))"

definition parseString :: "bytes \<Rightarrow> TomlError + bytes \<times> bytes" where
  "parseString s =
    (case s of
       [] \<Rightarrow> Inl UnterminatedString
     | q # r \<Rightarrow>
         if peek_is q r then
           (if peek_is q (tl r) then Inl Multiline else Inr ([], tl r))
         else string_loop q r)"

definition parseKey :: "bytes \<Rightarrow> TomlError + bytes \<times> bytes" where
  "parseKey s =
    (if peek_is CHR 0x22 s \<or> peek_is CHR 0x27 s then parseString s
     else if takeWhile key_char s = [] then Inl ExpectedKey
     else Inr (takeWhile key_char s, dropWhile key_char s))"

subsection \<open>Numbers and truth values\<close>

definition parseBool :: "bytes \<Rightarrow> TomlError + toml \<times> bytes" where
  "parseBool s =
    (if prefix ''true'' s then Inr (TBool True, drop 4 s)
     else if prefix ''false'' s then Inr (TBool False, drop 5 s)
     else Inl ExpectedBool)"

text \<open>The digit loop: an underscore is accepted after the first digit.\<close>

fun digit_run :: "bool \<Rightarrow> bytes \<Rightarrow> bytes \<times> bytes" where
  "digit_run started [] = ([], [])"
| "digit_run started (c # s) =
    (if is_digit c then (case digit_run True s of (d, r) \<Rightarrow> (c # d, r))
     else if c = CHR ''_'' \<and> started then (case digit_run started s of (d, r) \<Rightarrow> (c # d, r))
     else ([], c # s))"

definition sign_split :: "bytes \<Rightarrow> bytes \<times> bytes" where
  "sign_split s =
    (case s of [] \<Rightarrow> ([], []) | c # r \<Rightarrow> if c = CHR ''+'' \<or> c = CHR ''-'' then ([c], r) else ([], s))"

definition fraction_part :: "bytes \<Rightarrow> bytes \<times> bytes" where
  "fraction_part s =
    (if peek_is CHR ''.'' s
     then (CHR ''.'' # takeWhile is_digit (tl s), dropWhile is_digit (tl s)) else ([], s))"

definition exponent_part :: "bytes \<Rightarrow> bytes \<times> bytes" where
  "exponent_part s =
    (if peek_is CHR ''e'' s \<or> peek_is CHR ''E'' s then
       (case sign_split (tl s) of (sg, r) \<Rightarrow> (hd s # sg @ takeWhile is_digit r, dropWhile is_digit r))
     else ([], s))"

definition parseNumber :: "(bytes \<Rightarrow> bool) \<Rightarrow> bytes \<Rightarrow> TomlError + toml \<times> bytes" where
  "parseNumber float_ok s =
    (case sign_split s of (sg, s1) \<Rightarrow>
     (case digit_run False s1 of (ds, s2) \<Rightarrow>
      if ds = [] then Inl ExpectedDigit
      else if s2 \<noteq> [] \<and> hd s2 \<in> set ''xobXOB'' then Inl NonDecimal
      else (case fraction_part s2 of (fr, s3) \<Rightarrow>
           (case exponent_part s3 of (ex, s4) \<Rightarrow>
             (let raw = filter (\<lambda>c. c \<noteq> CHR ''_'') (sg @ ds @ fr @ ex) in
              if fr \<noteq> [] \<or> ex \<noteq> [] then
                (if float_ok raw then Inr (TFloat raw, s4) else Inl (BadFloat raw))
              else (case atoi raw of Some n \<Rightarrow> Inr (TInt n, s4) | None \<Rightarrow> Inl (BadInt raw)))))))"

subsection \<open>Values, arrays, inline tables\<close>

definition is_table :: "toml \<Rightarrow> bool" where
  "is_table v = (case v of TTab _ \<Rightarrow> True | _ \<Rightarrow> False)"

definition the_table :: "toml \<Rightarrow> table" where
  "the_table v = (case v of TTab t \<Rightarrow> t | _ \<Rightarrow> [])"

text \<open>An array of tables only, and not empty, becomes an array of tables.\<close>

definition array_value :: "toml list \<Rightarrow> toml" where
  "array_value items =
    (if items \<noteq> [] \<and> list_all is_table items then TTabs (map the_table items) else TArr items)"

function (sequential) parseValue :: "(bytes \<Rightarrow> bool) \<Rightarrow> nat \<Rightarrow> bytes \<Rightarrow> TomlError + toml \<times> bytes"
  and array_loop :: "(bytes \<Rightarrow> bool) \<Rightarrow> nat \<Rightarrow> toml list \<Rightarrow> bytes \<Rightarrow> TomlError + toml \<times> bytes"
  and inline_loop :: "(bytes \<Rightarrow> bool) \<Rightarrow> nat \<Rightarrow> table \<Rightarrow> bytes \<Rightarrow> TomlError + toml \<times> bytes"
where
  "parseValue fo 0 s = Inl OutOfFuel"
| "parseValue fo (Suc n) s =
    (case s of
       [] \<Rightarrow> Inl UnexpectedEOF
     | c # r \<Rightarrow>
         if c = CHR 0x22 \<or> c = CHR 0x27 then
           (case parseString s of Inl e \<Rightarrow> Inl e | Inr (t, r') \<Rightarrow> Inr (TStr t, r'))
         else if c = CHR ''['' then array_loop fo n [] r
         else if c = CHR ''{'' then
           (let r = skipInlineWS r in if peek_is CHR ''}'' r then Inr (TTab [], tl r) else inline_loop fo n [] r)
         else if c = CHR ''t'' \<or> c = CHR ''f'' then parseBool s
         else if c = CHR ''-'' \<or> c = CHR ''+'' \<or> is_digit c then parseNumber fo s
         else Inl UnexpectedChar)"
| "array_loop fo 0 items s = Inl OutOfFuel"
| "array_loop fo (Suc n) items s =
    (let s = skipWSAndComments s in
     if s = [] then Inl UnterminatedArray
     else if peek_is CHR '']'' s then Inr (array_value items, tl s)
     else case parseValue fo n s of
       Inl e \<Rightarrow> Inl e
     | Inr (v, r) \<Rightarrow>
         (let items = items @ [v]; r = skipWSAndComments r in
          if peek_is CHR '','' r then array_loop fo n items (tl r)
          else if peek_is CHR '']'' r then Inr (array_value items, tl r)
          else Inl ArraySeparator))"
| "inline_loop fo 0 t s = Inl OutOfFuel"
| "inline_loop fo (Suc n) t s =
    (case parseKey (skipInlineWS s) of
       Inl e \<Rightarrow> Inl e
     | Inr (k, r) \<Rightarrow>
         (let r = skipInlineWS r in
          if \<not> peek_is CHR ''='' r then Inl InlineEquals
          else case parseValue fo n (skipInlineWS (tl r)) of
            Inl e \<Rightarrow> Inl e
          | Inr (v, r') \<Rightarrow>
              if k \<in> fst ` set t then Inl (InlineDuplicate k)
              else let t = t @ [(k, v)]; r' = skipInlineWS r' in
                if peek_is CHR '','' r' then inline_loop fo n t (tl r')
                else if peek_is CHR ''}'' r' then Inr (TTab t, tl r')
                else Inl InlineSeparator))"
  by pat_completeness auto
termination
  by (relation "measure (case_sum (fst \<circ> snd) (case_sum (fst \<circ> snd) (fst \<circ> snd)))") auto

declare parseValue.simps [simp del] array_loop.simps [simp del] inline_loop.simps [simp del]

subsection \<open>Every value consumes input, and the fuel is enough\<close>

lemma length_skipInlineWS: "length (skipInlineWS s) \<le> length s"
  by (simp add: skipInlineWS_def length_dropWhile_le)

lemma length_to_newline: "length (to_newline s) \<le> length s"
  by (simp add: to_newline_def length_dropWhile_le)

lemma length_skipWSAndComments: "length (skipWSAndComments s) \<le> length s"
proof (induction s rule: skipWSAndComments.induct)
  case (1 s)
  show ?case
  proof (cases s)
    case Nil
    then show ?thesis by (simp add: skipWSAndComments.simps)
  next
    case (Cons c r)
    have "length (skipWSAndComments (to_newline r)) \<le> length s"
      if "c = CHR 0x23"
      using 1(2) [OF Cons _ that] that Cons length_to_newline [of r] by simp
    then show ?thesis using 1(1) [OF Cons] Cons
      by (subst skipWSAndComments.simps) auto
  qed
qed

lemma peek_is_Cons [simp]: "peek_is c (d # s) \<longleftrightarrow> d = c" "\<not> peek_is c []"
  by (simp_all add: peek_is_def)

lemma peek_is_tl: "peek_is c s \<Longrightarrow> length (tl s) < length s"
  by (cases s) auto

lemma peek_is_conv: "peek_is c s \<longleftrightarrow> (\<exists>r. s = c # r)"
  by (cases s) auto

lemma tl_Cons_length: "tl s = c # r \<Longrightarrow> length r < length s"
  by (cases s) auto

lemma length_skipLineEnd: "skipLineEnd s = Inr r \<Longrightarrow> length r \<le> length s"
  using length_skipInlineWS [of s] length_to_newline [of "skipInlineWS s"]
  by (auto simp: skipLineEnd_def Let_def split: if_splits list.splits dest!: tl_Cons_length)

lemma add_text_Inr: "add_text t res = Inr (b, r) \<longleftrightarrow> (\<exists>b'. res = Inr (b', r) \<and> b = t @ b')"
  by (cases res) (auto simp: add_text_def)

lemma length_string_loop: "string_loop q s = Inr (t, r) \<Longrightarrow> length r < length s"
proof (induction s arbitrary: t rule: length_induct)
  case (1 s)
  have IH: "length r < length x" if "length x < length s" "string_loop q x = Inr (u, r)" for x u
    using 1 that by blast
  obtain c y where s: "s = c # y" using 1(2) by (cases s) auto
  have *: "string_loop q (c # y) = Inr (t, r)" using 1(2) s by simp
  consider (other) "c = q \<or> c = CHR 0x0A \<or> \<not> (q = CHR 0x22 \<and> c = CHR 0x5C)"
    | (esc) "q = CHR 0x22" "c = CHR 0x5C" by blast
  then show ?case
  proof cases
    case other
    then show ?thesis using * IH s by (force simp: add_text_Inr split: if_splits)
  next
    case esc
    then obtain e x where y: "y = e # x" using * by (cases y) auto
    show ?thesis
    proof (cases "simple_escape e")
      case (Some d)
      then obtain u where "string_loop q x = Inr (u, r)" using * esc y by (auto simp: add_text_Inr)
      then show ?thesis using IH [of x u] s y by simp
    next
      case None
      then obtain h1 h2 h3 h4 z where x: "x = h1 # h2 # h3 # h4 # z"
        using * esc y by (auto split: if_splits list.splits)
      then obtain u where "string_loop q z = Inr (u, r)"
        using * esc y None by (auto simp: add_text_Inr split: if_splits option.splits)
      then show ?thesis using IH [of z u] s y x by simp
    qed
  qed
qed

lemma length_parseString: "parseString s = Inr (t, r) \<Longrightarrow> length r < length s"
  by (auto simp: parseString_def peek_is_conv dest: length_string_loop split: list.splits if_splits)

lemma length_parseKey:
  assumes "parseKey s = Inr (k, r)"
  shows "length r < length s"
proof (cases "peek_is CHR 0x22 s \<or> peek_is CHR 0x27 s")
  case True
  then show ?thesis using assms by (auto simp: parseKey_def dest: length_parseString)
next
  case False
  then have "takeWhile key_char s \<noteq> []" "r = dropWhile key_char s"
    using assms by (auto simp: parseKey_def split: if_splits)
  then show ?thesis
    by (cases s) (auto simp: less_Suc_eq_le length_dropWhile_le split: if_splits)
qed

lemma length_parseBool: "parseBool s = Inr (v, r) \<Longrightarrow> length r < length s"
  by (auto simp: parseBool_def prefix_def split: if_splits)

lemma length_digit_run: "digit_run b s = (d, r) \<Longrightarrow> length d + length r = length s"
  by (induction b s arbitrary: d rule: digit_run.induct) (fastforce split: if_splits prod.splits)+

lemma length_sign_split: "sign_split s = (d, r) \<Longrightarrow> length r \<le> length s"
  by (auto simp: sign_split_def split: list.splits if_splits)

lemma length_fraction_part: "fraction_part s = (d, r) \<Longrightarrow> length r \<le> length s"
  using length_dropWhile_le [of is_digit "tl s"]
  by (auto simp: fraction_part_def split: if_splits)

lemma length_exponent_part: "exponent_part s = (d, r) \<Longrightarrow> length r \<le> length s"
  using length_dropWhile_le [of is_digit "snd (sign_split (tl s))"]
    length_sign_split [of "tl s" "fst (sign_split (tl s))" "snd (sign_split (tl s))"]
  by (auto simp: exponent_part_def split: if_splits prod.splits)

lemma length_parseNumber: "parseNumber fo s = Inr (v, r) \<Longrightarrow> length r < length s"
proof -
  assume *: "parseNumber fo s = Inr (v, r)"
  obtain sg s1 where 1: "sign_split s = (sg, s1)" by fastforce
  obtain ds s2 where 2: "digit_run False s1 = (ds, s2)" by fastforce
  obtain fr s3 where 3: "fraction_part s2 = (fr, s3)" by fastforce
  obtain ex s4 where 4: "exponent_part s3 = (ex, s4)" by fastforce
  have "ds \<noteq> [] \<and> r = s4"
    using * 1 2 3 4 by (auto simp: parseNumber_def Let_def split: if_splits option.splits)
  moreover have "length s4 \<le> length s3" "length s3 \<le> length s2" "length s1 \<le> length s"
    "length ds + length s2 = length s1"
    using 1 2 3 4 by (blast intro: length_sign_split length_digit_run length_fraction_part length_exponent_part)+
  ultimately have "length s4 + length ds \<le> length s" "ds \<noteq> []" "r = s4" by simp_all
  then show ?thesis by (cases ds) auto
qed

lemma length_values:
  "(parseValue fo n s = Inr (v, r) \<longrightarrow> length r < length s)
   \<and> (array_loop fo n items s = Inr (v, r) \<longrightarrow> length r < length s)
   \<and> (inline_loop fo n t s = Inr (v, r) \<longrightarrow> length r < length s)"
proof (induction n arbitrary: s items t v r)
  case 0
  then show ?case by (simp add: parseValue.simps array_loop.simps inline_loop.simps)
next
  case (Suc n)
  have V: "length r' < length x" if "parseValue fo n x = Inr (u, r')" for x u r'
    using Suc.IH that by blast
  have A: "length r' < length x" if "array_loop fo n is x = Inr (u, r')" for "is" x u r'
    using Suc.IH that by blast
  have I: "length r' < length x" if "inline_loop fo n m x = Inr (u, r')" for m x u r'
    using Suc.IH that by blast
  have "parseValue fo (Suc n) s = Inr (v, r) \<Longrightarrow> length r < length s"
  proof (cases s)
    case (Cons c x)
    assume *: "parseValue fo (Suc n) s = Inr (v, r)"
    let ?x = "skipInlineWS x"
    have ws: "length ?x \<le> length x" by (rule length_skipInlineWS)
    then have tl: "length (tl ?x) < length s" using Cons by simp
    have I': "length r' < length s" if "inline_loop fo n m ?x = Inr (u, r')" for m u r'
      using I [OF that] ws Cons by simp
    have A': "length r' < length s" if "array_loop fo n is x = Inr (u, r')" for "is" u r'
      using A [OF that] Cons by simp
    have "(\<exists>u. parseString s = Inr (u, r)) \<or> array_loop fo n [] x = Inr (v, r) \<or> r = tl ?x
        \<or> inline_loop fo n [] ?x = Inr (v, r) \<or> parseBool s = Inr (v, r) \<or> parseNumber fo s = Inr (v, r)"
      using * Cons by (auto simp: parseValue.simps Let_def split: if_splits sum.splits)
    then show ?thesis
      using tl by (elim disjE exE) (auto intro: I' A' length_parseString length_parseBool length_parseNumber)
  qed (simp add: parseValue.simps)
  moreover have "array_loop fo (Suc n) items s = Inr (v, r) \<Longrightarrow> length r < length s"
  proof -
    assume *: "array_loop fo (Suc n) items s = Inr (v, r)"
    let ?x = "skipWSAndComments s"
    have x: "length ?x \<le> length s" by (rule length_skipWSAndComments)
    show ?thesis
    proof (cases "?x = [] \<or> peek_is CHR '']'' ?x")
      case True
      then show ?thesis using * x
        by (cases ?x) (auto simp: array_loop.simps Let_def split: if_splits)
    next
      case False
      then obtain u y where y: "parseValue fo n ?x = Inr (u, y)"
        using * by (auto simp: array_loop.simps Let_def split: sum.splits)
      let ?y = "skipWSAndComments y"
      have l: "length (tl ?y) < length s"
        using length_skipWSAndComments [of y] V [OF y] x by simp
      have "array_loop fo n (items @ [u]) (tl ?y) = Inr (v, r) \<or> r = tl ?y"
        using * False y by (auto simp: array_loop.simps Let_def split: if_splits)
      then show ?thesis using A [of "items @ [u]" "tl ?y" v r] l by auto
    qed
  qed
  moreover have "inline_loop fo (Suc n) t s = Inr (v, r) \<Longrightarrow> length r < length s"
  proof -
    assume *: "inline_loop fo (Suc n) t s = Inr (v, r)"
    obtain k x where k: "parseKey (skipInlineWS s) = Inr (k, x)"
      using * by (auto simp: inline_loop.simps split: sum.splits)
    let ?x = "skipInlineWS x"
    obtain u y where y: "peek_is CHR ''='' ?x" "parseValue fo n (skipInlineWS (tl ?x)) = Inr (u, y)"
      using * k by (auto simp: inline_loop.simps Let_def split: sum.splits if_splits)
    let ?y = "skipInlineWS y"
    have "length x < length s" using length_parseKey [OF k] length_skipInlineWS [of s] by simp
    moreover have "length (skipInlineWS (tl ?x)) \<le> length x"
      using length_skipInlineWS [of "tl ?x"] length_skipInlineWS [of x] by simp
    ultimately have l: "length (tl ?y) < length s"
      using V [OF y(2)] length_skipInlineWS [of y] by simp
    have "inline_loop fo n (t @ [(k, u)]) (tl ?y) = Inr (v, r) \<or> r = tl ?y"
      using * k y by (auto simp: inline_loop.simps Let_def split: if_splits)
    then show ?thesis using I [of "t @ [(k, u)]" "tl ?y" v r] l by auto
  qed
  ultimately show ?case by blast
qed

lemma length_parseValue: "parseValue fo n s = Inr (v, r) \<Longrightarrow> length r < length s"
  using length_values by blast

lemma add_text_fuel: "add_text t res = Inl e \<longleftrightarrow> res = Inl e"
  by (cases res) (auto simp: add_text_def)

lemma string_loop_fuel: "string_loop q s \<noteq> Inl OutOfFuel"
proof (induction s rule: length_induct)
  case (1 s)
  show ?case
  proof (cases s)
    case (Cons c y)
    have IH: "string_loop q x \<noteq> Inl OutOfFuel" if "length x \<le> length y" for x
      using 1 Cons that by simp
    show ?thesis
    proof (cases "c = CHR 0x5C \<and> q = CHR 0x22")
      case False
      then show ?thesis using Cons IH [of y] by (auto simp: add_text_fuel)
    next
      case True
      show ?thesis
      proof (cases y)
        case Nil
        then show ?thesis using Cons True by simp
      next
        case y: (Cons e x)
        have "string_loop q x \<noteq> Inl OutOfFuel" "string_loop q (drop 4 x) \<noteq> Inl OutOfFuel"
          using IH y by simp_all
        moreover have "string_loop q x = Inl OutOfFuel \<or> string_loop q (drop 4 x) = Inl OutOfFuel"
          if "string_loop q s = Inl OutOfFuel"
        proof (cases "simple_escape e")
          case (Some d)
          then show ?thesis using that Cons True y by (simp add: add_text_fuel)
        next
          case None
          then show ?thesis using that Cons True y
            by (auto simp: add_text_fuel simp del: string_loop.simps(2)
                simp: string_loop.simps(2) [of "CHR 0x22" "CHR 0x5C"] split: list.splits option.splits if_splits)
        qed
        ultimately show ?thesis by blast
      qed
    qed
  qed simp
qed

lemma parseString_fuel: "parseString s \<noteq> Inl OutOfFuel"
  by (auto simp: parseString_def string_loop_fuel split: list.splits)

lemma parseKey_fuel: "parseKey s \<noteq> Inl OutOfFuel"
  by (auto simp: parseKey_def parseString_fuel)

lemma parseBool_fuel: "parseBool s \<noteq> Inl OutOfFuel"
  by (auto simp: parseBool_def)

lemma parseNumber_fuel: "parseNumber fo s \<noteq> Inl OutOfFuel"
  by (auto simp: parseNumber_def Let_def split: prod.splits option.splits)

lemma fuel_values:
  "(2 * length s < n \<longrightarrow> parseValue fo n s \<noteq> Inl OutOfFuel)
   \<and> (2 * length s + 1 < n \<longrightarrow> array_loop fo n items s \<noteq> Inl OutOfFuel)
   \<and> (2 * length s + 1 < n \<longrightarrow> inline_loop fo n t s \<noteq> Inl OutOfFuel)"
proof (induction n arbitrary: s items t)
  case 0
  then show ?case by simp
next
  case (Suc n)
  have V: "parseValue fo n x \<noteq> Inl OutOfFuel" if "2 * length x < n" for x
    using Suc.IH that by blast
  have A: "array_loop fo n is x \<noteq> Inl OutOfFuel" if "2 * length x + 1 < n" for "is" x
    using Suc.IH that by blast
  have I: "inline_loop fo n m x \<noteq> Inl OutOfFuel" if "2 * length x + 1 < n" for m x
    using Suc.IH that by blast
  have "parseValue fo (Suc n) s \<noteq> Inl OutOfFuel" if f: "2 * length s < Suc n"
  proof (cases s)
    case (Cons c x)
    have "length (skipInlineWS x) \<le> length x" by (rule length_skipInlineWS)
    then have "2 * length x + 1 < n" "2 * length (skipInlineWS x) + 1 < n" using f Cons by auto
    then have "array_loop fo n [] x \<noteq> Inl OutOfFuel" "inline_loop fo n [] (skipInlineWS x) \<noteq> Inl OutOfFuel"
      using A I by simp_all
    moreover have "parseString s = Inl OutOfFuel \<or> array_loop fo n [] x = Inl OutOfFuel
        \<or> inline_loop fo n [] (skipInlineWS x) = Inl OutOfFuel \<or> parseBool s = Inl OutOfFuel
        \<or> parseNumber fo s = Inl OutOfFuel"
      if "parseValue fo (Suc n) s = Inl OutOfFuel"
      using that Cons by (auto simp: parseValue.simps Let_def split: if_splits sum.splits)
    ultimately show ?thesis using parseString_fuel parseBool_fuel parseNumber_fuel by blast
  qed (simp add: parseValue.simps)
  moreover have "array_loop fo (Suc n) items s \<noteq> Inl OutOfFuel" if f: "2 * length s + 1 < Suc n"
  proof -
    let ?x = "skipWSAndComments s"
    have x: "length ?x \<le> length s" by (rule length_skipWSAndComments)
    have v: "parseValue fo n ?x \<noteq> Inl OutOfFuel" using V x f by simp
    show ?thesis
    proof (cases "parseValue fo n ?x")
      case (Inl e)
      then show ?thesis using v by (auto simp: array_loop.simps Let_def)
    next
      case (Inr p)
      obtain u y where p: "p = (u, y)" by (cases p)
      have "length (tl (skipWSAndComments y)) < length s"
        using length_skipWSAndComments [of y] length_parseValue [of fo n ?x u y] Inr p x by simp
      then have "2 * length (tl (skipWSAndComments y)) + 1 < n" using f by linarith
      then show ?thesis using Inr p A by (auto simp: array_loop.simps Let_def)
    qed
  qed
  moreover have "inline_loop fo (Suc n) t s \<noteq> Inl OutOfFuel" if f: "2 * length s + 1 < Suc n"
  proof (cases "parseKey (skipInlineWS s)")
    case (Inl e)
    then show ?thesis using parseKey_fuel by (auto simp: inline_loop.simps)
  next
    case (Inr p)
    obtain k x where p: "p = (k, x)" by (cases p)
    let ?x = "skipInlineWS (tl (skipInlineWS x))"
    have x: "length ?x < length s"
      using length_parseKey [of "skipInlineWS s" k x] Inr p length_skipInlineWS [of s]
        length_skipInlineWS [of x] length_skipInlineWS [of "tl (skipInlineWS x)"] by simp
    then have v: "parseValue fo n ?x \<noteq> Inl OutOfFuel" using V f by simp
    show ?thesis
    proof (cases "parseValue fo n ?x")
      case (Inl e)
      then show ?thesis using v Inr p by (auto simp: inline_loop.simps Let_def)
    next
      case R: (Inr w)
      obtain u y where w: "w = (u, y)" by (cases w)
      have "length (tl (skipInlineWS y)) < length s"
        using length_skipInlineWS [of y] length_parseValue [of fo n ?x u y] R w x by simp
      then have "2 * length (tl (skipInlineWS y)) + 1 < n" using f by linarith
      then show ?thesis using Inr p R w I by (simp add: inline_loop.simps Let_def)
    qed
  qed
  ultimately show ?case by blast
qed

subsection \<open>Tables of the document\<close>

text \<open>
  \<open>descendTable(root, path, true)\<close> followed by an update of the table it returns: missing tables
  are created on the way, an array of tables is entered at its last element.
\<close>

definition set_key :: "bytes \<Rightarrow> toml \<Rightarrow> table \<Rightarrow> table" where
  "set_key k v t = AList.update k v t"

fun with_table :: "bytes list \<Rightarrow> (table \<Rightarrow> TomlError + table) \<Rightarrow> table \<Rightarrow> TomlError + table" where
  "with_table [] f t = f t"
| "with_table (k # path) f t =
    (case map_of t k of
       None \<Rightarrow> (case with_table path f [] of Inl e \<Rightarrow> Inl e | Inr u \<Rightarrow> Inr (set_key k (TTab u) t))
     | Some (TTab u) \<Rightarrow>
         (case with_table path f u of Inl e \<Rightarrow> Inl e | Inr u' \<Rightarrow> Inr (set_key k (TTab u') t))
     | Some (TTabs us) \<Rightarrow>
         if us = [] then Inl (EmptyTableArray k)
         else (case with_table path f (last us) of
                 Inl e \<Rightarrow> Inl e
               | Inr u' \<Rightarrow> Inr (set_key k (TTabs (butlast us @ [u'])) t))
     | Some _ \<Rightarrow> Inl (NotATable k))"

definition append_table :: "bytes \<Rightarrow> table \<Rightarrow> TomlError + table" where
  "append_table k t =
    (case map_of t k of
       None \<Rightarrow> Inr (set_key k (TTabs [[]]) t)
     | Some (TTabs us) \<Rightarrow> Inr (set_key k (TTabs (us @ [[]])) t)
     | Some _ \<Rightarrow> Inl (NotATableArray k))"

definition descendTable :: "table \<Rightarrow> bytes list \<Rightarrow> TomlError + table" where
  "descendTable root path = with_table path Inr root"

definition appendArrayOfTables :: "table \<Rightarrow> bytes list \<Rightarrow> TomlError + table" where
  "appendArrayOfTables root path = with_table (butlast path) (append_table (last path)) root"

definition add_key :: "bytes \<Rightarrow> toml \<Rightarrow> table \<Rightarrow> TomlError + table" where
  "add_key k v t = (if k \<in> fst ` set t then Inl (DuplicateKey k) else Inr (t @ [(k, v)]))"

subsection \<open>Documents\<close>

function parseKeyPath :: "bytes \<Rightarrow> TomlError + bytes list \<times> bytes" where
  "parseKeyPath s =
    (case parseKey (skipInlineWS s) of
       Inl e \<Rightarrow> Inl e
     | Inr (k, r) \<Rightarrow>
         (let r = skipInlineWS r in
          if \<not> peek_is CHR ''.'' r then Inr ([k], r)
          else case parseKeyPath (tl r) of Inl e \<Rightarrow> Inl e | Inr (ks, r') \<Rightarrow> Inr (k # ks, r')))"
  by pat_completeness auto
termination
proof (relation "measure length", simp)
  fix s p k r r'
  assume "parseKey (skipInlineWS s) = Inr p" "(k, r) = p" "r' = skipInlineWS r"
  then show "(tl r', s) \<in> measure length"
    using length_parseKey [of "skipInlineWS s" k r] length_skipInlineWS [of s] length_skipInlineWS [of r]
    by auto
qed

declare parseKeyPath.simps [simp del]

text \<open>A header: whether it opens an array of tables, its path, and the text after its line.\<close>

definition parseHeader :: "bytes \<Rightarrow> TomlError + bool \<times> bytes list \<times> bytes" where
  "parseHeader s =
    (let isArray = peek_is CHR ''['' s; s = (if isArray then tl s else s)
     in case parseKeyPath s of
          Inl e \<Rightarrow> Inl e
        | Inr (path, r) \<Rightarrow>
            if isArray \<and> \<not> peek_is CHR '']'' r then Inl ExpectedHeaderEnd
            else (let r = (if isArray then tl r else r) in
              if \<not> peek_is CHR '']'' r then Inl ExpectedHeaderEnd
              else case skipLineEnd (tl r) of
                Inl e \<Rightarrow> Inl e
              | Inr r' \<Rightarrow> Inr (isArray, path, r')))"

definition value_fuel :: "bytes \<Rightarrow> nat" where
  "value_fuel s = 2 * length s + 1"

text \<open>\<open>parseKeyValueLine\<close> with the target table at the end of \<open>path\<close>.\<close>

definition parseKeyValueLine :: "(bytes \<Rightarrow> bool) \<Rightarrow> table \<Rightarrow> bytes list \<Rightarrow> bytes \<Rightarrow> TomlError + table \<times> bytes" where
  "parseKeyValueLine fo root path s =
    (case parseKey s of
       Inl e \<Rightarrow> Inl e
     | Inr (k, r) \<Rightarrow>
         (let r = skipInlineWS r in
          if peek_is CHR ''.'' r then Inl (DottedKey k)
          else if \<not> peek_is CHR ''='' r then Inl (ExpectedEquals k)
          else let r = skipInlineWS (tl r) in
            case parseValue fo (value_fuel r) r of
              Inl e \<Rightarrow> Inl e
            | Inr (v, r') \<Rightarrow>
                (case with_table path (add_key k v) root of
                   Inl e \<Rightarrow> Inl e
                 | Inr root' \<Rightarrow>
                     (case skipLineEnd r' of Inl e \<Rightarrow> Inl e | Inr r'' \<Rightarrow> Inr (root', r'')))))"

text \<open>One turn of the loop of \<open>parseDocument\<close>, at a byte that is neither blank nor a comment.\<close>

definition document_step ::
  "(bytes \<Rightarrow> bool) \<Rightarrow> table \<Rightarrow> bytes list \<Rightarrow> bytes \<Rightarrow> TomlError + table \<times> bytes list \<times> bytes" where
  "document_step fo root path s =
    (if peek_is CHR ''['' s then
       (case parseHeader (tl s) of
          Inl e \<Rightarrow> Inl e
        | Inr (isArray, path', r) \<Rightarrow>
            (case (if isArray then appendArrayOfTables root path' else descendTable root path') of
               Inl e \<Rightarrow> Inl e
             | Inr root' \<Rightarrow> Inr (root', path', r)))
     else
       (case parseKeyValueLine fo root path s of
          Inl e \<Rightarrow> Inl e
        | Inr (root', r) \<Rightarrow> Inr (root', path, r)))"

lemma length_parseKeyPath: "parseKeyPath s = Inr (ks, r) \<Longrightarrow> length r < length s"
proof (induction s arbitrary: ks r rule: length_induct)
  case (1 s)
  then obtain k x where k: "parseKey (skipInlineWS s) = Inr (k, x)"
    by (auto simp: parseKeyPath.simps [of s] split: sum.splits)
  let ?x = "skipInlineWS x"
  have l: "length ?x < length s"
    using length_parseKey [OF k] length_skipInlineWS [of s] length_skipInlineWS [of x] by simp
  show ?case
  proof (cases "peek_is CHR ''.'' ?x")
    case False
    then show ?thesis using 1(2) k l by (simp add: parseKeyPath.simps [of s] Let_def)
  next
    case True
    then obtain ks' where "parseKeyPath (tl ?x) = Inr (ks', r)"
      using 1(2) k by (auto simp: parseKeyPath.simps [of s] Let_def split: sum.splits)
    moreover have "length (tl ?x) < length s" using l by simp
    ultimately have "length r < length (tl ?x)" using 1(1) by blast
    then show ?thesis using l by simp
  qed
qed

lemma length_parseHeader: "parseHeader s = Inr (b, ks, r) \<Longrightarrow> length r \<le> length s"
proof -
  assume *: "parseHeader s = Inr (b, ks, r)"
  let ?s = "if peek_is CHR ''['' s then tl s else s"
  obtain x where x: "parseKeyPath ?s = Inr (ks, x)"
    using * by (auto simp: parseHeader_def Let_def split: sum.splits if_splits)
  obtain y where y: "skipLineEnd y = Inr r" "length y \<le> length x"
    using * x by (auto simp: parseHeader_def Let_def split: sum.splits if_splits)
  have "length ?s \<le> length s" by simp
  then show ?thesis using length_parseKeyPath [OF x] length_skipLineEnd [OF y(1)] y(2) by linarith
qed

lemma length_document_step:
  assumes "document_step fo root path s = Inr (root', path', r)"
  shows "length r < length s"
proof (cases "peek_is CHR ''['' s")
  case True
  then obtain p where p: "parseHeader (tl s) = Inr p"
    using assms by (cases "parseHeader (tl s)") (auto simp: document_step_def)
  obtain b ks x where b: "p = (b, ks, x)" by (cases p)
  then have "ks = path' \<and> x = r"
    using assms True p
    by (cases "if b then appendArrayOfTables root ks else descendTable root ks") (auto simp: document_step_def)
  then have "parseHeader (tl s) = Inr (b, path', r)" using p b by simp
  then show ?thesis using length_parseHeader [of "tl s" b path' r] peek_is_tl [OF True] by simp
next
  case False
  then have *: "parseKeyValueLine fo root path s = Inr (root', r)"
    using assms by (auto simp: document_step_def split: sum.splits)
  obtain k x where k: "parseKey s = Inr (k, x)"
    using * by (auto simp: parseKeyValueLine_def split: sum.splits)
  let ?x = "skipInlineWS (tl (skipInlineWS x))"
  obtain v y where y: "parseValue fo (value_fuel ?x) ?x = Inr (v, y)" "skipLineEnd y = Inr r"
    using * k by (auto simp: parseKeyValueLine_def Let_def split: sum.splits if_splits)
  have "length ?x \<le> length x"
    using length_skipInlineWS [of x] length_skipInlineWS [of "tl (skipInlineWS x)"] by simp
  then show ?thesis
    using length_parseKey [OF k] length_parseValue [OF y(1)] length_skipLineEnd [OF y(2)] by simp
qed

function document_loop :: "(bytes \<Rightarrow> bool) \<Rightarrow> table \<Rightarrow> bytes list \<Rightarrow> bytes \<Rightarrow> TomlError + table" where
  "document_loop fo root path s =
    (let s = skipWSAndComments s in
     if s = [] then Inr root
     else case document_step fo root path s of
       Inl e \<Rightarrow> Inl e
     | Inr (root', path', r) \<Rightarrow> document_loop fo root' path' r)"
  by pat_completeness auto
termination
proof (relation "measure (\<lambda>(fo, root, path, s). length s)", simp)
  fix fo root path s x p root' y path' r
  assume "x = skipWSAndComments s" "document_step fo root path x = Inr p" "(root', y) = p" "(path', r) = y"
  then show "((fo, root', path', r), fo, root, path, s) \<in> measure (\<lambda>(fo, root, path, s). length s)"
    using length_document_step [of fo root path x root' path' r] length_skipWSAndComments [of s] by auto
qed

declare document_loop.simps [simp del]

definition Parse :: "(bytes \<Rightarrow> bool) \<Rightarrow> bytes \<Rightarrow> TomlError + table" where
  "Parse fo s = document_loop fo [] [] s"

subsection \<open>What a parsed document promises\<close>

text \<open>
  At every depth: the keys of a table are distinct, an array of tables is not empty, an array that
  is not empty is no list of tables, an integer fits 64 bits.
\<close>

lemma size_tables: "u \<in> set us \<Longrightarrow> Suc (size_list f u) \<le> size_list (size_list f) us"
  by (induction us) auto

function wf_toml :: "toml \<Rightarrow> bool" where
  "wf_toml (TStr b) = True"
| "wf_toml (TInt n) = int64 n"
| "wf_toml (TFloat raw) = True"
| "wf_toml (TBool b) = True"
| "wf_toml (TArr vs) = ((vs = [] \<or> \<not> list_all is_table vs) \<and> (\<forall>v \<in> set vs. wf_toml v))"
| "wf_toml (TTab t) = (distinct (map fst t) \<and> (\<forall>v \<in> set (map snd t). wf_toml v))"
| "wf_toml (TTabs us) = (us \<noteq> [] \<and> (\<forall>u \<in> set us. wf_toml (TTab u)))"
  by pat_completeness auto

termination
  by (relation "measure size")
    (auto simp: size_tables less_Suc_eq_le size_list_estimation')

abbreviation wf_table :: "table \<Rightarrow> bool" where
  "wf_table t \<equiv> wf_toml (TTab t)"

lemma wf_array_value: "\<forall>v \<in> set items. wf_toml v \<Longrightarrow> wf_toml (array_value items)"
proof (cases "items \<noteq> [] \<and> list_all is_table items")
  case True
  assume w: "\<forall>v \<in> set items. wf_toml v"
  have "wf_toml (TTab (the_table v))" if "v \<in> set items" for v
  proof -
    have "v = TTab (the_table v)"
      using True that by (cases v) (auto simp: list_all_iff is_table_def the_table_def)
    then show ?thesis using w that by metis
  qed
  then show ?thesis using True by (simp add: array_value_def)
qed (auto simp: array_value_def)

lemma wf_parseNumber: "parseNumber fo s = Inr (v, r) \<Longrightarrow> wf_toml v"
  by (auto simp: parseNumber_def Let_def atoi_int64 split: prod.splits if_splits option.splits)

lemma wf_parseBool: "parseBool s = Inr (v, r) \<Longrightarrow> wf_toml v"
  by (auto simp: parseBool_def split: if_splits)

lemma wf_snoc: "wf_table t \<Longrightarrow> wf_toml v \<Longrightarrow> k \<notin> fst ` set t \<Longrightarrow> wf_table (t @ [(k, v)])"
  by auto

lemma wf_values:
  "(parseValue fo n s = Inr (v, r) \<longrightarrow> wf_toml v)
   \<and> ((\<forall>i \<in> set items. wf_toml i) \<longrightarrow> array_loop fo n items s = Inr (v, r) \<longrightarrow> wf_toml v)
   \<and> (wf_table t \<longrightarrow> inline_loop fo n t s = Inr (v, r) \<longrightarrow> wf_toml v)"
proof (induction n arbitrary: s items t v r)
  case 0
  then show ?case by (simp add: parseValue.simps array_loop.simps inline_loop.simps)
next
  case (Suc n)
  have V: "wf_toml u" if "parseValue fo n x = Inr (u, r')" for x u r'
    using Suc.IH that by blast
  have A: "wf_toml u" if "array_loop fo n is x = Inr (u, r')" "\<forall>i \<in> set is. wf_toml i" for "is" x u r'
    using Suc.IH that by blast
  have I: "wf_toml u" if "inline_loop fo n m x = Inr (u, r')" "wf_table m" for m x u r'
    using Suc.IH that by blast
  have "wf_toml v" if *: "parseValue fo (Suc n) s = Inr (v, r)"
  proof (cases s)
    case (Cons c x)
    have "(\<exists>u. v = TStr u) \<or> array_loop fo n [] x = Inr (v, r) \<or> v = TTab []
        \<or> inline_loop fo n [] (skipInlineWS x) = Inr (v, r) \<or> parseBool s = Inr (v, r) \<or> parseNumber fo s = Inr (v, r)"
      using * Cons by (auto simp: parseValue.simps Let_def split: if_splits sum.splits)
    then show ?thesis
      by (elim disjE exE) (auto intro: A I wf_parseBool wf_parseNumber)
  qed (use * in \<open>simp add: parseValue.simps\<close>)
  moreover have "wf_toml v" if *: "array_loop fo (Suc n) items s = Inr (v, r)" and w: "\<forall>i \<in> set items. wf_toml i"
  proof -
    let ?x = "skipWSAndComments s"
    have "v = array_value items \<or> (\<exists>u y. parseValue fo n ?x = Inr (u, y)
        \<and> (v = array_value (items @ [u])
          \<or> array_loop fo n (items @ [u]) (tl (skipWSAndComments y)) = Inr (v, r)))"
      using * by (auto simp: array_loop.simps Let_def split: if_splits sum.splits)
    then show ?thesis
    proof (elim disjE exE conjE)
      assume "v = array_value items"
      then show ?thesis using w wf_array_value by blast
    next
      fix u y assume u: "parseValue fo n ?x = Inr (u, y)" "v = array_value (items @ [u])"
      have "\<forall>i \<in> set (items @ [u]). wf_toml i" using w V [OF u(1)] by auto
      then show ?thesis using u(2) wf_array_value by blast
    next
      fix u y assume u: "parseValue fo n ?x = Inr (u, y)"
        "array_loop fo n (items @ [u]) (tl (skipWSAndComments y)) = Inr (v, r)"
      have "\<forall>i \<in> set (items @ [u]). wf_toml i" using w V [OF u(1)] by auto
      then show ?thesis using A [OF u(2)] by blast
    qed
  qed
  moreover have "wf_toml v" if *: "inline_loop fo (Suc n) t s = Inr (v, r)" and w: "wf_table t"
  proof -
    obtain k x where k: "parseKey (skipInlineWS s) = Inr (k, x)"
      using * by (auto simp: inline_loop.simps split: sum.splits)
    obtain u y where y: "parseValue fo n (skipInlineWS (tl (skipInlineWS x))) = Inr (u, y)"
      using * k by (auto simp: inline_loop.simps Let_def split: sum.splits if_splits)
    let ?t = "t @ [(k, u)]"
    have "k \<notin> fst ` set t \<and> (inline_loop fo n ?t (tl (skipInlineWS y)) = Inr (v, r) \<or> v = TTab ?t)"
      using * k y by (auto simp: inline_loop.simps Let_def split: if_splits)
    then show ?thesis using I [of ?t] wf_snoc [OF w V [OF y]] by blast
  qed
  ultimately show ?case by blast
qed

lemma wf_parseValue: "parseValue fo n s = Inr (v, r) \<Longrightarrow> wf_toml v"
  using wf_values by blast

lemma update_values: "w \<in> set (map snd (AList.update k v t)) \<Longrightarrow> w = v \<or> w \<in> set (map snd t)"
  by (induction t) (auto split: if_splits)

lemma wf_set_key: "wf_table t \<Longrightarrow> wf_toml v \<Longrightarrow> wf_table (set_key k v t)"
  unfolding set_key_def wf_toml.simps using update_values distinct_update by metis

lemma wf_lookup: "wf_table t \<Longrightarrow> map_of t k = Some v \<Longrightarrow> wf_toml v"
  by (auto dest: map_of_SomeD)

lemma wf_empty: "wf_table []"
  by simp

declare wf_toml.simps(6) [simp del] wf_empty [simp]

lemma wf_with_table:
  assumes f: "\<And>u u'. wf_table u \<Longrightarrow> f u = Inr u' \<Longrightarrow> wf_table u'"
  shows "wf_table t \<Longrightarrow> with_table path f t = Inr t' \<Longrightarrow> wf_table t'"
proof (induction path arbitrary: t t')
  case Nil
  then show ?case using f [of t t'] by simp
next
  case (Cons k path)
  show ?case
  proof (cases "map_of t k")
    case None
    then obtain u where "with_table path f [] = Inr u" "t' = set_key k (TTab u) t"
      using Cons.prems by (auto split: sum.splits)
    then show ?thesis using Cons.IH [of "[]" u] Cons.prems(1) wf_set_key by simp
  next
    case (Some v)
    note v = wf_lookup [OF Cons.prems(1) Some]
    consider (tab) x u where "v = TTab x" "with_table path f x = Inr u" "t' = set_key k (TTab u) t"
      | (tabs) us u where "v = TTabs us" "us \<noteq> []" "with_table path f (last us) = Inr u"
          "t' = set_key k (TTabs (butlast us @ [u])) t"
      using Cons.prems(2) Some by (cases v) (auto split: sum.splits if_splits)
    then show ?thesis
    proof cases
      case tab
      then show ?thesis using Cons.IH [of x u] v wf_set_key [OF Cons.prems(1)] by blast
    next
      case tabs
      then have "wf_table u" using Cons.IH [of "last us" u] v by simp
      then have "wf_toml (TTabs (butlast us @ [u]))" using v tabs(1) by (auto dest: in_set_butlastD)
      then show ?thesis using tabs(4) wf_set_key [OF Cons.prems(1)] by blast
    qed
  qed
qed

lemma wf_append_table: "wf_table t \<Longrightarrow> append_table k t = Inr t' \<Longrightarrow> wf_table t'"
proof -
  assume w: "wf_table t" and "append_table k t = Inr t'"
  then consider "t' = set_key k (TTabs [[]]) t" | us where "map_of t k = Some (TTabs us)" "t' = set_key k (TTabs (us @ [[]])) t"
    by (auto simp: append_table_def split: option.splits toml.splits)
  then show ?thesis
  proof cases
    case 1
    then show ?thesis using wf_set_key [OF w] by simp
  next
    case 2
    then have "wf_toml (TTabs (us @ [[]]))" using wf_lookup [OF w 2(1)] by simp
    then show ?thesis using 2(2) wf_set_key [OF w] by blast
  qed
qed

lemma wf_document_step:
  assumes "document_step fo root path s = Inr (root', path', r)" and w: "wf_table root"
  shows "wf_table root'"
proof (cases "peek_is CHR ''['' s")
  case True
  then obtain p where p: "parseHeader (tl s) = Inr p"
    using assms by (cases "parseHeader (tl s)") (auto simp: document_step_def)
  obtain b ks x where b: "p = (b, ks, x)" by (cases p)
  have "(if b then appendArrayOfTables root ks else descendTable root ks) = Inr root'"
    using assms(1) p True unfolding b document_step_def
    by (cases "if b then appendArrayOfTables root ks else descendTable root ks") auto
  then show ?thesis
    using wf_with_table [OF wf_append_table w] wf_with_table [of Inr, OF _ w]
    by (cases b) (auto simp: appendArrayOfTables_def descendTable_def)
next
  case False
  then have *: "parseKeyValueLine fo root path s = Inr (root', r)"
    using assms by (auto simp: document_step_def split: sum.splits)
  then obtain k v n x y where y: "parseValue fo n x = Inr (v, y)" "with_table path (add_key k v) root = Inr root'"
    by (auto simp: parseKeyValueLine_def Let_def split: sum.splits if_splits)
  have "wf_table u'" if "wf_table u" "add_key k v u = Inr u'" for u u'
    using that wf_snoc wf_parseValue [OF y(1)] by (auto simp: add_key_def split: if_splits)
  then show ?thesis using wf_with_table [OF _ w y(2)] by blast
qed

lemma wf_document_loop: "wf_table root \<Longrightarrow> document_loop fo root path s = Inr t \<Longrightarrow> wf_table t"
proof (induction s arbitrary: root path rule: length_induct)
  case (1 s)
  let ?x = "skipWSAndComments s"
  show ?case
  proof (cases "?x = []")
    case True
    then show ?thesis using 1(2,3) by (simp add: document_loop.simps [of _ _ _ s])
  next
    case False
    then obtain root' path' r where st: "document_step fo root path ?x = Inr (root', path', r)"
      "document_loop fo root' path' r = Inr t"
      using 1(3) by (auto simp: document_loop.simps [of _ _ _ s] Let_def split: sum.splits)
    have "length r < length s" using length_document_step [OF st(1)] length_skipWSAndComments [of s] by simp
    then show ?thesis using 1(1) st(2) wf_document_step [OF st(1) 1(2)] by blast
  qed
qed

text \<open>The walk of \<open>with_table\<close> only fails where the code does.\<close>

lemma with_table_error:
  assumes f: "\<And>u. wf_table u \<Longrightarrow> f u = Inl e \<Longrightarrow> P e" and g: "\<And>k. P (NotATable k)"
  shows "wf_table t \<Longrightarrow> with_table path f t = Inl e \<Longrightarrow> P e"
proof (induction path arbitrary: t)
  case Nil
  then show ?case using f [of t] by simp
next
  case (Cons k path)
  show ?case
  proof (cases "map_of t k")
    case None
    then show ?thesis using Cons.IH [of "[]"] Cons.prems by (auto split: sum.splits)
  next
    case (Some v)
    note v = wf_lookup [OF Cons.prems(1) Some]
    then show ?thesis using Cons.prems(2) Some g Cons.IH [of "case v of TTab x \<Rightarrow> x | TTabs us \<Rightarrow> last us | _ \<Rightarrow> []"]
      by (cases v) (auto split: sum.splits if_splits)
  qed
qed

lemma skipLineEnd_fuel: "skipLineEnd s \<noteq> Inl OutOfFuel"
  by (auto simp: skipLineEnd_def Let_def split: list.splits)

lemma parseKeyPath_fuel: "parseKeyPath s \<noteq> Inl OutOfFuel"
proof (induction s rule: length_induct)
  case (1 s)
  show ?case
  proof (cases "parseKey (skipInlineWS s)")
    case (Inl e)
    then show ?thesis using parseKey_fuel by (auto simp: parseKeyPath.simps [of s])
  next
    case (Inr p)
    obtain k x where p: "p = (k, x)" by (cases p)
    have "length (tl (skipInlineWS x)) < length s"
      using length_parseKey [of "skipInlineWS s" k x] Inr p length_skipInlineWS [of s]
        length_skipInlineWS [of x] by simp
    then have "parseKeyPath (tl (skipInlineWS x)) \<noteq> Inl OutOfFuel" using 1 by blast
    then show ?thesis using Inr p by (auto simp: parseKeyPath.simps [of s] Let_def split: sum.splits)
  qed
qed

lemma parseHeader_fuel: "parseHeader s \<noteq> Inl OutOfFuel"
  using parseKeyPath_fuel skipLineEnd_fuel
  by (auto simp: parseHeader_def Let_def split: sum.splits prod.splits)

lemma document_step_fuel:
  assumes w: "wf_table root"
  shows "document_step fo root path s \<noteq> Inl OutOfFuel"
proof
  assume *: "document_step fo root path s = Inl OutOfFuel"
  have walk: "with_table ks f root \<noteq> Inl OutOfFuel" if "\<And>u. f u \<noteq> Inl OutOfFuel" for ks f
    using with_table_error [of f OutOfFuel "\<lambda>e. e \<noteq> OutOfFuel", OF _ _ w] that by auto
  show False
  proof (cases "peek_is CHR ''['' s")
    case True
    obtain b ks x where p: "parseHeader (tl s) = Inr (b, ks, x)"
      using * True parseHeader_fuel [of "tl s"] by (cases "parseHeader (tl s)") (auto simp: document_step_def)
    have "append_table k u \<noteq> Inl OutOfFuel" for k u
      by (auto simp: append_table_def split: option.splits toml.splits)
    then have "(if b then appendArrayOfTables root ks else descendTable root ks) \<noteq> Inl OutOfFuel"
      using walk by (simp add: appendArrayOfTables_def descendTable_def)
    then show False using * True p unfolding document_step_def
      by (cases "if b then appendArrayOfTables root ks else descendTable root ks") auto
  next
    case False
    then have kv: "parseKeyValueLine fo root path s = Inl OutOfFuel"
      using * by (auto simp: document_step_def split: sum.splits)
    obtain k x where k: "parseKey s = Inr (k, x)"
      using kv parseKey_fuel [of s] by (cases "parseKey s") (auto simp: parseKeyValueLine_def)
    let ?x = "skipInlineWS (tl (skipInlineWS x))"
    have "with_table path (add_key k v) root \<noteq> Inl OutOfFuel" for v
      by (rule walk) (simp add: add_key_def)
    moreover have "parseValue fo (value_fuel ?x) ?x \<noteq> Inl OutOfFuel"
      using fuel_values [of ?x "value_fuel ?x"] by (simp add: value_fuel_def)
    ultimately show False using kv k skipLineEnd_fuel
      by (auto simp: parseKeyValueLine_def Let_def split: sum.splits if_splits)
  qed
qed

lemma document_loop_fuel: "wf_table root \<Longrightarrow> document_loop fo root path s \<noteq> Inl OutOfFuel"
proof (induction s arbitrary: root path rule: length_induct)
  case (1 s)
  let ?x = "skipWSAndComments s"
  show ?case
  proof (cases "?x = [] \<or> (\<exists>e. document_step fo root path ?x = Inl e)")
    case True
    then show ?thesis using document_step_fuel [OF 1(2)]
      by (auto simp: document_loop.simps [of _ _ _ s] Let_def)
  next
    case False
    then obtain root' path' r where st: "document_step fo root path ?x = Inr (root', path', r)"
      by (cases "document_step fo root path ?x") auto
    have "length r < length s" using length_document_step [OF st(1)] length_skipWSAndComments [of s] by simp
    then show ?thesis using 1(1) st False wf_document_step [OF st 1(2)]
      by (simp add: document_loop.simps [of _ _ _ s] Let_def)
  qed
qed

subsection \<open>Reading back a quoted string\<close>

text \<open>The bytes whose \<open>%q\<close> escape the reader knows: no \<open>\a\<close>, \<open>\v\<close>, \<open>\x\<close> or \<open>\U\<close>.\<close>

definition toml_ok :: "char \<Rightarrow> bool" where
  "toml_ok c \<longleftrightarrow> (32 \<le> byte c \<and> byte c < 127) \<or> byte c \<in> {8, 9, 10, 12, 13}"

lemma simple_escape_simps [simp]:
  "simple_escape CHR 0x22 = Some CHR 0x22" "simple_escape CHR 0x5C = Some CHR 0x5C"
  "simple_escape CHR ''n'' = Some CHR 0x0A" "simple_escape CHR ''t'' = Some CHR 0x09"
  "simple_escape CHR ''r'' = Some CHR 0x0D" "simple_escape CHR ''b'' = Some CHR 0x08"
  "simple_escape CHR ''f'' = Some CHR 0x0C"
  by (simp_all add: simple_escape_def)

lemma byte_eqs:
  "byte c = 34 \<longleftrightarrow> c = CHR 0x22" "byte c = 92 \<longleftrightarrow> c = CHR 0x5C" "byte c = 10 \<longleftrightarrow> c = CHR 0x0A"
  "byte c = 9 \<longleftrightarrow> c = CHR 0x09" "byte c = 13 \<longleftrightarrow> c = CHR 0x0D" "byte c = 8 \<longleftrightarrow> c = CHR 0x08"
  "byte c = 12 \<longleftrightarrow> c = CHR 0x0C"
  using byte_inj [of c "CHR 0x22"] byte_inj [of c "CHR 0x5C"] byte_inj [of c "CHR 0x0A"]
    byte_inj [of c "CHR 0x09"] byte_inj [of c "CHR 0x0D"] byte_inj [of c "CHR 0x08"] byte_inj [of c "CHR 0x0C"]
  by auto

lemma string_loop_escape: "simple_escape e = Some d \<Longrightarrow>
    string_loop CHR 0x22 (CHR 0x5C # e # s) = add_text [d] (string_loop CHR 0x22 s)"
  by simp

lemma string_loop_plain: "c \<noteq> CHR 0x22 \<Longrightarrow> c \<noteq> CHR 0x0A \<Longrightarrow> c \<noteq> CHR 0x5C \<Longrightarrow>
    string_loop CHR 0x22 (c # s) = add_text [c] (string_loop CHR 0x22 s)"
  by simp

lemma string_loop_escape_ascii:
  "toml_ok c \<Longrightarrow> string_loop CHR 0x22 (escape_ascii c @ s) = add_text [c] (string_loop CHR 0x22 s)"
proof -
  assume ok: "toml_ok c"
  consider "c = CHR 0x22" | "c = CHR 0x5C" | "c = CHR 0x0A" | "c = CHR 0x09" | "c = CHR 0x0D"
    | "c = CHR 0x08" | "c = CHR 0x0C"
    | (plain) "32 \<le> byte c" "byte c < 127" "c \<noteq> CHR 0x22" "c \<noteq> CHR 0x5C" "c \<noteq> CHR 0x0A"
    using ok by (auto simp: toml_ok_def byte_eqs)
  then show ?thesis
  proof cases
    case plain
    then show ?thesis by (simp add: escape_ascii_def Let_def byte_eqs string_loop_plain del: string_loop.simps)
  qed (simp_all add: escape_ascii_def string_loop_escape del: string_loop.simps)
qed

lemma quote_body_ok: "list_all toml_ok s \<Longrightarrow>
    string_loop CHR 0x22 (quote_body ip s @ CHR 0x22 # r) = Inr (s, r)"
proof (induction s)
  case (Cons c s)
  then have "byte c < 128" "toml_ok c" by (auto simp: toml_ok_def)
  then show ?case using Cons by (simp add: string_loop_escape_ascii add_text_def del: string_loop.simps)
qed simp

lemma quote_body_hd: "list_all toml_ok s \<Longrightarrow> s \<noteq> [] \<Longrightarrow> \<not> peek_is CHR 0x22 (quote_body ip s @ r)"
  by (cases s) (auto simp: toml_ok_def escape_ascii_def Let_def byte_eqs)

lemma parseString_quote:
  assumes "list_all toml_ok s" "\<not> peek_is CHR 0x22 r"
  shows "parseString (quote ip s @ r) = Inr (s, r)"
proof (cases "s = []")
  case True
  then show ?thesis using assms by (simp add: parseString_def quote_def)
next
  case False
  then show ?thesis using assms quote_body_hd [of s ip "CHR 0x22 # r"] quote_body_ok [of s ip r]
    by (simp add: parseString_def quote_def del: string_loop.simps)
qed

subsection \<open>Properties of the reader\<close>

text \<open>
  C17. Every document the reader accepts is well-formed at every depth: no table has a key twice, so
  no value was silently overwritten, an array of tables is never empty, so the last table a header
  descends into exists, and every integer fits 64 bits.
\<close>

theorem Parse_keys:
  assumes "Parse float_ok s = Inr t"
  shows "wf_table t"
  using assms wf_document_loop [OF wf_empty] unfolding Parse_def by blast

theorem Parse_keys_witness:
  "wf_table [(''a'', TInt 1), (''t'', TTabs [[(''b'', TBool True)]])]"
  by (rule Parse_keys [of "\<lambda>_. True" "''a = 1'' @ [CHR 0x0A] @ ''[[t]]'' @ [CHR 0x0A] @ ''b = true''"]) code_simp

text \<open>
  C18. The reader terminates on every text with a table or an error: the fuel of the value parser is
  always enough for the text that is left.
\<close>

theorem Parse_total: "Parse float_ok s \<noteq> Inl OutOfFuel"
  unfolding Parse_def by (rule document_loop_fuel) simp

text \<open>
  The reader takes back what Go's \<open>%q\<close> wrote, and stops right behind it, for every string of
  printable ASCII and the control characters whose escapes the two sides share, provided an empty
  string is not followed by a third quote.
\<close>

theorem parseString_quoted:
  assumes "list_all toml_ok s" "\<not> peek_is CHR 0x22 r"
  shows "parseString (quote is_print s @ r) = Inr (s, r)"
  by (rule parseString_quote [OF assms])

theorem parseString_quoted_witness:
  "parseString (quote (\<lambda>_. True) (''say '' @ [CHR 0x22] @ ''hi'' @ [CHR 0x22, CHR 0x0A]) @ '', '')
     = Inr (''say '' @ [CHR 0x22] @ ''hi'' @ [CHR 0x22, CHR 0x0A], '', '')"
  by (rule parseString_quoted) code_simp+

text \<open>Go's writer and this reader disagree on the vertical tab, the bell and bytes outside UTF-8.\<close>

lemma quoted_bell_rejected:
  "parseString (quote (\<lambda>_. True) [CHR 0x07]) = Inl UnknownEscape"
  "parseString (quote (\<lambda>_. True) [CHR 0x0B]) = Inl UnknownEscape"
  "parseString (quote (\<lambda>_. True) [CHR 0xFF]) = Inl UnknownEscape"
  by code_simp+

subsection \<open>The typed accessor (decoder.go)\<close>

text \<open>
  An absent key is \<open>Inr None\<close>, a value of another type an error.  The value the code returns beside
  an error is the zero value, which no caller reads.
\<close>

record Decoder = Tree :: table

datatype DecodeError = WrongType bytes | MissingKey bytes | BadElement bytes nat

definition NewDecoder :: "table \<Rightarrow> Decoder" where
  "NewDecoder t = \<lparr>Tree = t\<rparr>"

definition Decoder_String :: "Decoder \<Rightarrow> bytes \<Rightarrow> DecodeError + bytes option" where
  "Decoder_String d k =
    (case map_of (Tree d) k of
       None \<Rightarrow> Inr None | Some (TStr s) \<Rightarrow> Inr (Some s) | Some _ \<Rightarrow> Inl (WrongType k))"

definition StringRequired :: "Decoder \<Rightarrow> bytes \<Rightarrow> DecodeError + bytes" where
  "StringRequired d k =
    (case Decoder_String d k of
       Inl e \<Rightarrow> Inl e | Inr None \<Rightarrow> Inl (MissingKey k) | Inr (Some s) \<Rightarrow> Inr s)"

definition Decoder_Int :: "Decoder \<Rightarrow> bytes \<Rightarrow> DecodeError + int option" where
  "Decoder_Int d k =
    (case map_of (Tree d) k of
       None \<Rightarrow> Inr None | Some (TInt n) \<Rightarrow> Inr (Some n) | Some _ \<Rightarrow> Inl (WrongType k))"

definition Decoder_Bool :: "Decoder \<Rightarrow> bytes \<Rightarrow> DecodeError + bool option" where
  "Decoder_Bool d k =
    (case map_of (Tree d) k of
       None \<Rightarrow> Inr None | Some (TBool b) \<Rightarrow> Inr (Some b) | Some _ \<Rightarrow> Inl (WrongType k))"

definition Decoder_Table :: "Decoder \<Rightarrow> bytes \<Rightarrow> DecodeError + Decoder option" where
  "Decoder_Table d k =
    (case map_of (Tree d) k of
       None \<Rightarrow> Inr None | Some (TTab t) \<Rightarrow> Inr (Some (NewDecoder t)) | Some _ \<Rightarrow> Inl (WrongType k))"

definition TableArray :: "Decoder \<Rightarrow> bytes \<Rightarrow> DecodeError + Decoder list option" where
  "TableArray d k =
    (case map_of (Tree d) k of
       None \<Rightarrow> Inr None
     | Some (TTabs ts) \<Rightarrow> Inr (Some (map NewDecoder ts))
     | Some _ \<Rightarrow> Inl (WrongType k))"

fun strings_of :: "bytes \<Rightarrow> nat \<Rightarrow> toml list \<Rightarrow> DecodeError + bytes list" where
  "strings_of k i [] = Inr []"
| "strings_of k i (v # vs) =
    (case v of
       TStr s \<Rightarrow> (case strings_of k (Suc i) vs of Inl e \<Rightarrow> Inl e | Inr ss \<Rightarrow> Inr (s # ss))
     | _ \<Rightarrow> Inl (BadElement k i))"

definition StringArray :: "Decoder \<Rightarrow> bytes \<Rightarrow> DecodeError + bytes list option" where
  "StringArray d k =
    (case map_of (Tree d) k of
       None \<Rightarrow> Inr None
     | Some (TArr vs) \<Rightarrow> (case strings_of k 0 vs of Inl e \<Rightarrow> Inl e | Inr ss \<Rightarrow> Inr (Some ss))
     | Some _ \<Rightarrow> Inl (WrongType k))"

definition Decoder_Keys :: "Decoder \<Rightarrow> bytes list" where
  "Decoder_Keys d = map fst (Tree d)"

lemma strings_of_TStr [simp]: "strings_of k i (map TStr ss) = Inr ss"
  by (induction ss arbitrary: i) auto

end
