(* ===== verification/Toml_Lines.thy ===== *)
theory Toml_Lines
  imports Toml
begin

section \<open>The lines the TOML writers print, and the reader on them\<close>

text \<open>
  The lock files and project files of the bridge are written line by line: headers, keys with quoted
  strings, arrays of quoted strings, inline tables.  Here is the text of such lines and what the
  reader of \<open>Toml\<close> makes of each.  The place in the document at which the writer is, the table under
  the last header, is the locale \<open>cursor\<close>; every writer interprets it on its own documents.
\<close>

subsection \<open>Lines\<close>

definition string_line :: "(int \<Rightarrow> bool) \<Rightarrow> bytes \<Rightarrow> bytes \<Rightarrow> bytes" where
  "string_line ip key v = key @ '' = '' @ quote ip v @ nl"

definition optional_line :: "(int \<Rightarrow> bool) \<Rightarrow> bytes \<Rightarrow> bytes \<Rightarrow> bytes" where
  "optional_line ip key v = (if v \<noteq> [] then string_line ip key v else [])"

text \<open>An array of strings on one line.\<close>

definition strings_text :: "(int \<Rightarrow> bool) \<Rightarrow> bytes list \<Rightarrow> bytes" where
  "strings_text ip cs = ''['' @ join '', '' (map (quote ip) cs) @ '']''"

definition optional_strings :: "(int \<Rightarrow> bool) \<Rightarrow> bytes \<Rightarrow> bytes list \<Rightarrow> bytes" where
  "optional_strings ip key cs = (if cs \<noteq> [] then key @ '' = '' @ strings_text ip cs @ nl else [])"

text \<open>An inline table of strings.\<close>

definition inline_text :: "(int \<Rightarrow> bool) \<Rightarrow> (bytes \<times> bytes) list \<Rightarrow> bytes" where
  "inline_text ip kvs = ''{'' @ join '', '' (map (\<lambda>(k, v). k @ '' = '' @ quote ip v) kvs) @ ''}''"

subsection \<open>The reader on one line\<close>

lemma skip_key: "key_char c \<or> c = CHR ''['' \<Longrightarrow> skipWSAndComments (c # s) = c # s"
  by (subst skipWSAndComments.simps) (auto simp: key_char_def is_digit_def)

lemma skip_nl: "skipWSAndComments (CHR 0x0A # s) = skipWSAndComments s"
  by (subst skipWSAndComments.simps) simp

lemma skip_comment: "CHR 0x0A \<notin> set c \<Longrightarrow>
    skipWSAndComments (CHR 0x23 # c @ CHR 0x0A # s) = skipWSAndComments s"
proof -
  assume "CHR 0x0A \<notin> set c"
  then have "to_newline (c @ CHR 0x0A # s) = CHR 0x0A # s"
    unfolding to_newline_def by (subst dropWhile_append2) auto
  then show ?thesis by (subst skipWSAndComments.simps) (simp add: skip_nl)
qed

lemma skipLineEnd_nl: "skipLineEnd (CHR 0x0A # s) = Inr s"
  by (simp add: skipLineEnd_def skipInlineWS_def)

lemma document_loop_nl: "document_loop fo root path (CHR 0x0A # s) = document_loop fo root path s"
  by (simp add: document_loop.simps [of fo root path] skip_nl)

lemma document_loop_step:
  assumes "key_char c \<or> c = CHR ''[''" "document_step fo root path (c # s) = Inr (root', path', r)"
  shows "document_loop fo root path (c # s) = document_loop fo root' path' r"
  using assms by (subst document_loop.simps) (simp add: skip_key Let_def)

lemma document_comment: "CHR 0x0A \<notin> set c \<Longrightarrow>
    document_loop fo root path (CHR 0x23 # c @ CHR 0x0A # s) = document_loop fo root path s"
  using skip_comment [of c s] by (simp add: document_loop.simps [of fo root path])

lemma document_loop_end: "document_loop fo root path [] = Inr root"
  by (simp add: document_loop.simps [of fo root path] skipWSAndComments.simps)

definition bare_key :: "bytes \<Rightarrow> bool" where
  "bare_key k \<longleftrightarrow> k \<noteq> [] \<and> list_all key_char k"

lemma not_key_char [simp]: "\<not> key_char CHR '' ''" "\<not> key_char CHR ''[''" "\<not> key_char CHR '']''"
  "\<not> key_char CHR 0x22" "\<not> key_char CHR 0x27"
  by (simp_all add: key_char_def is_digit_def)

lemma parseKey_bare:
  assumes "bare_key k" "\<not> key_char c"
  shows "parseKey (k @ c # s) = Inr (k, c # s)"
proof -
  obtain a k' where k: "k = a # k'" "key_char a" using assms by (cases k) (auto simp: bare_key_def)
  have "a \<noteq> CHR 0x22" "a \<noteq> CHR 0x27" using k(2) by auto
  moreover have "takeWhile key_char (k @ c # s) = k" "dropWhile key_char (k @ c # s) = c # s"
    using assms by (auto simp: bare_key_def list_all_iff takeWhile_append2 dropWhile_append2)
  ultimately show ?thesis using k by (simp add: parseKey_def)
qed

lemma key_value_line:
  assumes "bare_key k" "c \<noteq> CHR '' ''" "c \<noteq> CHR 0x09"
    and "parseValue fo (value_fuel (c # t @ CHR 0x0A # s)) (c # t @ CHR 0x0A # s) = Inr (v, CHR 0x0A # s)"
    and "with_table path (add_key k v) root = Inr root'"
  shows "document_loop fo root path (k @ '' = '' @ c # t @ CHR 0x0A # s) = document_loop fo root' path s"
proof -
  obtain a k' where k: "k = a # k'" "key_char a" using assms(1) by (cases k) (auto simp: bare_key_def)
  have "parseKeyValueLine fo root path (k @ '' = '' @ c # t @ CHR 0x0A # s) = Inr (root', s)"
    using assms parseKey_bare [of k "CHR '' ''" "CHR ''='' # CHR '' '' # c # t @ CHR 0x0A # s"]
    by (simp add: parseKeyValueLine_def skipInlineWS_def skipLineEnd_nl)
  moreover have "a \<noteq> CHR ''[''" using k(2) by auto
  ultimately have "document_step fo root path (a # k' @ '' = '' @ c # t @ CHR 0x0A # s) = Inr (root', path, s)"
    using k(1) by (simp add: document_step_def)
  then show ?thesis using document_loop_step k by simp
qed

lemma parseValue_quote:
  assumes "list_all toml_ok v" "\<not> peek_is CHR 0x22 r"
  shows "parseValue fo (Suc n) (quote ip v @ r) = Inr (TStr v, r)"
  using parseString_quote [OF assms, of ip] by (simp add: parseValue.simps quote_def)

lemma skip_quote: "w = [] \<or> w = '' '' \<Longrightarrow> skipWSAndComments (w @ quote ip c @ x) = quote ip c @ x"
  by (auto simp: quote_def skipWSAndComments.simps)

lemma skip_separator: "c = CHR '','' \<or> c = CHR '']'' \<Longrightarrow> skipWSAndComments (c # x) = c # x"
  by (auto simp: skipWSAndComments.simps)

lemma array_read:
  "cs \<noteq> [] \<Longrightarrow> list_all (list_all toml_ok) cs \<Longrightarrow> 2 * length cs \<le> n \<Longrightarrow> w = [] \<or> w = '' '' \<Longrightarrow>
    array_loop fo n items (w @ join '', '' (map (quote ip) cs) @ CHR '']'' # r)
      = Inr (array_value (items @ map TStr cs), r)"
proof (induction cs arbitrary: n items w)
  case (Cons c cs)
  have "2 \<le> n" using Cons.prems(3) by simp
  then obtain m where n: "n = Suc (Suc m)" by (metis Suc_le_D numeral_2_eq_2 Suc_le_mono)
  define R where "R = (if cs = [] then CHR '']'' # r else CHR '','' # '' '' @ join '', '' (map (quote ip) cs) @ CHR '']'' # r)"
  have line: "join '', '' (map (quote ip) (c # cs)) @ CHR '']'' # r = quote ip c @ R"
    by (cases cs) (auto simp: R_def)
  have R: "\<not> peek_is CHR 0x22 R" "skipWSAndComments R = R" by (simp_all add: R_def skip_separator)
  have v: "parseValue fo (Suc m) (quote ip c @ R) = Inr (TStr c, R)"
    using Cons.prems(2) R(1) by (intro parseValue_quote) auto
  have step: "array_loop fo n items (w @ quote ip c @ R) =
      (if peek_is CHR '','' R then array_loop fo (Suc m) (items @ [TStr c]) (tl R)
       else if peek_is CHR '']'' R then Inr (array_value (items @ [TStr c]), tl R) else Inl ArraySeparator)"
    unfolding n array_loop.simps skip_quote [OF Cons.prems(4)] Let_def
    by (simp add: v R(2)) (simp add: quote_def)
  show ?case
  proof (cases "cs = []")
    case True
    then show ?thesis unfolding line step by (simp add: R_def)
  next
    case False
    have "array_loop fo (Suc m) (items @ [TStr c]) ('' '' @ join '', '' (map (quote ip) cs) @ CHR '']'' # r)
        = Inr (array_value ((items @ [TStr c]) @ map TStr cs), r)"
      using Cons.prems n False by (intro Cons.IH) auto
    then show ?thesis unfolding line step using False by (simp add: R_def)
  qed
qed simp

lemma array_value_strings: "array_value (map TStr cs) = TArr (map TStr cs)"
  by (cases cs) (auto simp: array_value_def is_table_def)

lemma length_join_quote: "2 * length cs \<le> length (join '', '' (map (quote ip) cs)) + 1"
proof (induction cs)
  case (Cons c cs)
  have "2 \<le> length (quote ip c)" by (simp add: quote_def)
  then show ?case using Cons by (cases cs) auto
qed simp

definition opt_field :: "bytes \<Rightarrow> bytes \<Rightarrow> table" where
  "opt_field k v = (if v \<noteq> [] then [(k, TStr v)] else [])"


definition opt_strings :: "bytes \<Rightarrow> bytes list \<Rightarrow> table" where
  "opt_strings k cs = (if cs \<noteq> [] then [(k, TArr (map TStr cs))] else [])"

definition opt_tables :: "bytes \<Rightarrow> table list \<Rightarrow> table" where
  "opt_tables k us = (if us \<noteq> [] then [(k, TTabs us)] else [])"

lemma opt_keys [simp]:
  "fst ` set (opt_field k v) = (if v \<noteq> [] then {k} else {})" "fst ` set (opt_strings k cs) = (if cs \<noteq> [] then {k} else {})"
  "fst ` set (opt_tables k us) = (if us \<noteq> [] then {k} else {})"
  by (simp_all add: opt_field_def opt_strings_def opt_tables_def)

lemma map_of_opt [simp]:
  "map_of (opt_field k v @ t) k' = (if k = k' \<and> v \<noteq> [] then Some (TStr v) else map_of t k')"
  "map_of (opt_strings k cs @ t) k' = (if k = k' \<and> cs \<noteq> [] then Some (TArr (map TStr cs)) else map_of t k')"
  "map_of (opt_tables k us @ t) k' = (if k = k' \<and> us \<noteq> [] then Some (TTabs us) else map_of t k')"
  by (auto simp: opt_field_def opt_strings_def opt_tables_def)

lemmas map_of_last_opt [simp] = map_of_opt [where t = "[]", simplified append_Nil2 map_of.simps(1)]

text \<open>The headers, whose path consists of bare keys.\<close>

lemma parseKeyPath_bare:
  "ks \<noteq> [] \<Longrightarrow> list_all bare_key ks \<Longrightarrow> parseKeyPath (join ''.'' ks @ CHR '']'' # s) = Inr (ks, CHR '']'' # s)"
proof (induction ks)
  case (Cons k ks)
  have k: "bare_key k" using Cons.prems(2) by simp
  then obtain a k' where a: "k = a # k'" "key_char a" by (cases k) (auto simp: bare_key_def)
  then have blank: "skipInlineWS (k @ x) = k @ x" for x
    by (auto simp: skipInlineWS_def key_char_def is_digit_def)
  show ?case
  proof (cases "ks = []")
    case True
    then show ?thesis
      using parseKey_bare [OF k, of "CHR '']''" s] blank
      by (simp add: parseKeyPath.simps [of "k @ _"]) (simp add: skipInlineWS_def)
  next
    case False
    have "\<not> key_char CHR ''.''" by (simp add: key_char_def is_digit_def)
    from parseKey_bare [OF k this, of "join ''.'' ks @ CHR '']'' # s"] show ?thesis
      using False Cons.IH Cons.prems blank
      by (simp add: join_Cons parseKeyPath.simps [of "k @ _"]) (simp add: skipInlineWS_def)
  qed
qed simp

lemma parseHeader_bare:
  assumes "ks \<noteq> []" "list_all bare_key ks"
  shows "parseHeader (CHR ''['' # join ''.'' ks @ CHR '']'' # CHR '']'' # CHR 0x0A # s) = Inr (True, ks, s)"
    and "parseHeader (join ''.'' ks @ CHR '']'' # CHR 0x0A # s) = Inr (False, ks, s)"
proof -
  obtain k ks' where ks: "ks = k # ks'" using assms(1) by (cases ks) auto
  with assms(2) obtain a k' where "k = a # k'" "key_char a" by (cases k) (auto simp: bare_key_def)
  with ks have "\<not> peek_is CHR ''['' (join ''.'' ks @ x)" for x by (cases ks') auto
  then show "parseHeader (CHR ''['' # join ''.'' ks @ CHR '']'' # CHR '']'' # CHR 0x0A # s) = Inr (True, ks, s)"
    "parseHeader (join ''.'' ks @ CHR '']'' # CHR 0x0A # s) = Inr (False, ks, s)"
    using parseKeyPath_bare [OF assms] by (simp_all add: parseHeader_def skipLineEnd_nl)
qed

definition array_header :: "bytes list \<Rightarrow> bytes" where
  "array_header ks = ''[['' @ join ''.'' ks @ '']]'' @ nl"

definition table_header :: "bytes list \<Rightarrow> bytes" where
  "table_header ks = ''['' @ join ''.'' ks @ '']'' @ nl"

lemma array_header_read:
  assumes "ks \<noteq> []" "list_all bare_key ks" "appendArrayOfTables root ks = Inr root'"
  shows "document_loop fo root path (array_header ks @ s) = document_loop fo root' ks s"
  using parseHeader_bare(1) [OF assms(1,2), of s] assms(3) document_loop_step [of "CHR ''[''" fo root path]
  by (simp add: document_step_def array_header_def nl_def)

lemma table_header_read:
  assumes "ks \<noteq> []" "list_all bare_key ks" "descendTable root ks = Inr root'"
  shows "document_loop fo root path (table_header ks @ s) = document_loop fo root' ks s"
  using parseHeader_bare(2) [OF assms(1,2), of s] assms(3) document_loop_step [of "CHR ''[''" fo root path]
  by (simp add: document_step_def table_header_def nl_def)

text \<open>Inline tables of strings.\<close>

lemma parseKey_spaced:
  "bare_key k \<Longrightarrow> w = [] \<or> w = '' '' \<Longrightarrow> parseKey (skipInlineWS (w @ k @ CHR '' '' # x)) = Inr (k, CHR '' '' # x)"
proof -
  assume k: "bare_key k" and w: "w = [] \<or> w = '' ''"
  obtain a k' where a: "k = a # k'" "key_char a" using k by (cases k) (auto simp: bare_key_def)
  then have "skipInlineWS (w @ k @ CHR '' '' # x) = k @ CHR '' '' # x"
    using w by (auto simp: skipInlineWS_def key_char_def is_digit_def)
  then show ?thesis using parseKey_bare [OF k, of "CHR '' ''" x] by simp
qed

lemma skip_inline [simp]: "skipInlineWS (CHR '' '' # x) = skipInlineWS x" "skipInlineWS (CHR ''='' # x) = CHR ''='' # x"
    "skipInlineWS (quote ip v @ x) = quote ip v @ x" "skipInlineWS (CHR '','' # x) = CHR '','' # x"
    "skipInlineWS (CHR ''}'' # x) = CHR ''}'' # x"
  by (simp_all add: skipInlineWS_def quote_def)

lemma inline_read:
  "kvs \<noteq> [] \<Longrightarrow> list_all (\<lambda>(k, v). bare_key k \<and> list_all toml_ok v) kvs \<Longrightarrow> distinct (map fst (t @ map (\<lambda>(k, v). (k, TStr v)) kvs)) \<Longrightarrow>
    2 * length kvs \<le> n \<Longrightarrow> w = [] \<or> w = '' '' \<Longrightarrow>
    inline_loop fo n t (w @ join '', '' (map (\<lambda>(k, v). k @ '' = '' @ quote ip v) kvs) @ CHR ''}'' # r)
      = Inr (TTab (t @ map (\<lambda>(k, v). (k, TStr v)) kvs), r)"
proof (induction kvs arbitrary: n t w)
  case (Cons kv kvs)
  obtain k v where kv: "kv = (k, v)" by (cases kv)
  have "2 \<le> n" using Cons.prems(4) by simp
  then obtain m where n: "n = Suc (Suc m)" by (metis Suc_le_D numeral_2_eq_2 Suc_le_mono)
  let ?J = "join '', '' (map (\<lambda>(k, v). k @ '' = '' @ quote ip v) kvs)"
  define R where "R = (if kvs = [] then CHR ''}'' # r else CHR '','' # '' '' @ ?J @ CHR ''}'' # r)"
  have line: "join '', '' (map (\<lambda>(k, v). k @ '' = '' @ quote ip v) (kv # kvs)) @ CHR ''}'' # r = k @ '' = '' @ quote ip v @ R"
    by (cases kvs) (auto simp: R_def kv)
  have R: "\<not> peek_is CHR 0x22 R" "skipInlineWS R = R" by (simp_all add: R_def)
  have key: "parseKey (skipInlineWS (w @ k @ CHR '' '' # x)) = Inr (k, CHR '' '' # x)" for x
    using Cons.prems(2,5) kv by (intro parseKey_spaced) auto
  have v: "parseValue fo (Suc m) (quote ip v @ R) = Inr (TStr v, R)"
    using Cons.prems(2) kv R(1) by (intro parseValue_quote) auto
  have fresh: "k \<notin> fst ` set t" using Cons.prems(3) kv by auto
  have step: "inline_loop fo n t (w @ k @ '' = '' @ quote ip v @ R) =
      (if peek_is CHR '','' R then inline_loop fo (Suc m) (t @ [(k, TStr v)]) (tl R)
       else if peek_is CHR ''}'' R then Inr (TTab (t @ [(k, TStr v)]), tl R) else Inl InlineSeparator)"
    unfolding n inline_loop.simps using fresh by (simp add: key v R(2) Let_def)
  show ?case
  proof (cases "kvs = []")
    case True
    then show ?thesis unfolding line step by (simp add: R_def kv)
  next
    case False
    have "inline_loop fo (Suc m) (t @ [(k, TStr v)]) ('' '' @ ?J @ CHR ''}'' # r)
        = Inr (TTab ((t @ [(k, TStr v)]) @ map (\<lambda>(k, v). (k, TStr v)) kvs), r)"
      using Cons.prems n kv False by (intro Cons.IH) auto
    then show ?thesis unfolding line step using False by (simp add: R_def kv)
  qed
qed simp

lemma length_inline: "2 * length kvs \<le> length (join '', '' (map (\<lambda>(k, v). k @ '' = '' @ quote ip v) kvs)) + 1"
proof (induction kvs)
  case (Cons kv kvs)
  then show ?case by (cases kvs) (auto simp: quote_def split: prod.split)
qed simp

lemma inline_text_read:
  assumes "list_all (\<lambda>(k, v). bare_key k \<and> list_all toml_ok v) kvs" "distinct (map fst kvs)" "2 * length kvs + 1 \<le> n"
  shows "parseValue fo n (inline_text ip kvs @ r) = Inr (TTab (map (\<lambda>(k, v). (k, TStr v)) kvs), r)"
proof (cases "kvs = []")
  case True
  obtain m where "n = Suc m" using assms(3) by (cases n) auto
  with True show ?thesis by (simp add: inline_text_def parseValue.simps)
next
  case False
  obtain m where m: "n = Suc m" "2 * length kvs \<le> m" using assms(3) by (cases n) auto
  let ?J = "join '', '' (map (\<lambda>(k, v). k @ '' = '' @ quote ip v) kvs)"
  obtain a x where x: "?J @ CHR ''}'' # r = a # x" "key_char a"
  proof (cases kvs)
    case (Cons kv kvs')
    then obtain a k' where "fst kv = a # k'" "key_char a" using assms(1) by (cases "fst kv") (auto simp: bare_key_def)
    moreover from this Cons have "\<exists>x. ?J @ CHR ''}'' # r = a # x" by (auto split: prod.splits)
    ultimately show ?thesis using that by blast
  qed (simp add: False)
  then have blank: "skipInlineWS (?J @ CHR ''}'' # r) = ?J @ CHR ''}'' # r" "\<not> peek_is CHR ''}'' (?J @ CHR ''}'' # r)"
    by (auto simp: skipInlineWS_def key_char_def is_digit_def)
  have "inline_loop fo m [] (?J @ CHR ''}'' # r) = Inr (TTab (map (\<lambda>(k, v). (k, TStr v)) kvs), r)"
    using inline_read [OF False assms(1) _ m(2), of "[]" "[]" fo ip r] assms(2) by (simp add: comp_def case_prod_beta)
  with blank m(1) show ?thesis by (simp add: inline_text_def parseValue.simps)
qed

lemma strings_text_read:
  assumes "list_all (list_all toml_ok) cs" "2 * length cs + 2 \<le> n"
  shows "parseValue fo n (strings_text ip cs @ r) = Inr (TArr (map TStr cs), r)"
proof -
  obtain m where m: "n = Suc m" "2 * length cs \<le> m" "m \<noteq> 0" using assms(2) by (cases n) auto
  show ?thesis
  proof (cases "cs = []")
    case True
    with m show ?thesis
      by (cases m) (simp_all add: strings_text_def parseValue.simps array_loop.simps skip_separator array_value_def)
  next
    case False
    from array_read [OF False assms(1) m(2), of "[]" fo "[]" ip r] m(1) show ?thesis
      by (simp add: strings_text_def parseValue.simps array_value_strings)
  qed
qed

subsection \<open>The table under the last header\<close>

lemma update_nonmem: "k \<notin> fst ` set t \<Longrightarrow> AList.update k v t = t @ [(k, v)]"
  by (induction t) auto

lemma update_last: "k \<notin> fst ` set t \<Longrightarrow> AList.update k v (t @ [(k, w)]) = t @ [(k, v)]"
  by (induction t) auto

lemma map_of_last: "k \<notin> fst ` set t \<Longrightarrow> map_of t k = None" "k \<notin> fst ` set t \<Longrightarrow> map_of (t @ [(k, v)]) k = Some v"
  by (induction t) auto

lemma with_table_append: "with_table (p @ q) f t = with_table p (with_table q f) t"
  by (induction p arbitrary: t) (simp_all split: option.split toml.split)

locale cursor =
  fixes path :: "bytes list" and plug :: "table \<Rightarrow> table"
  assumes with_plug: "with_table path f (plug t) = (case f t of Inl e \<Rightarrow> Inl e | Inr u \<Rightarrow> Inr (plug u))"
begin

lemma plug_add: "k \<notin> fst ` set t \<Longrightarrow> with_table path (add_key k v) (plug t) = Inr (plug (t @ [(k, v)]))"
  by (simp add: with_plug add_key_def)

lemma value_line_read:
  assumes "bare_key k" "k \<notin> fst ` set t" "c \<noteq> CHR '' ''" "c \<noteq> CHR 0x09"
    and "parseValue fo (value_fuel (c # x @ CHR 0x0A # s)) (c # x @ CHR 0x0A # s) = Inr (v, CHR 0x0A # s)"
  shows "document_loop fo (plug t) path (k @ '' = '' @ c # x @ CHR 0x0A # s)
    = document_loop fo (plug (t @ [(k, v)])) path s"
  by (rule key_value_line [OF assms(1,3,4,5) plug_add [OF assms(2)]])

lemma string_line_read:
  assumes "bare_key k" "list_all toml_ok v" "k \<notin> fst ` set t"
  shows "document_loop fo (plug t) path (string_line ip k v @ s) = document_loop fo (plug (t @ [(k, TStr v)])) path s"
proof -
  have "parseValue fo (value_fuel (quote ip v @ CHR 0x0A # s)) (quote ip v @ CHR 0x0A # s) = Inr (TStr v, CHR 0x0A # s)"
    using assms(2) parseValue_quote [of v "CHR 0x0A # s"] by (simp add: value_fuel_def)
  then show ?thesis
    using value_line_read [OF assms(1,3), of "CHR 0x22" fo "quote_body ip v @ [CHR 0x22]" s "TStr v"]
    by (simp add: string_line_def quote_def nl_def)
qed

lemma optional_line_read:
  assumes "bare_key k" "list_all toml_ok v" "k \<notin> fst ` set t"
  shows "document_loop fo (plug t) path (optional_line ip k v @ s) = document_loop fo (plug (t @ opt_field k v)) path s"
  using string_line_read [OF assms] by (simp add: optional_line_def opt_field_def)

lemma optional_strings_read:
  assumes "bare_key k" "list_all (list_all toml_ok) cs" "k \<notin> fst ` set t"
  shows "document_loop fo (plug t) path (optional_strings ip k cs @ s) = document_loop fo (plug (t @ opt_strings k cs)) path s"
proof (cases "cs = []")
  case False
  let ?J = "join '', '' (map (quote ip) cs)"
  have "parseValue fo (value_fuel (strings_text ip cs @ CHR 0x0A # s)) (strings_text ip cs @ CHR 0x0A # s)
      = Inr (TArr (map TStr cs), CHR 0x0A # s)"
    using length_join_quote [of cs ip] by (intro strings_text_read [OF assms(2)]) (simp add: value_fuel_def strings_text_def)
  then show ?thesis
    using value_line_read [OF assms(1,3), of "CHR ''[''" fo "?J @ '']''" s] False
    by (simp add: optional_strings_def opt_strings_def strings_text_def nl_def)
qed (simp add: optional_strings_def opt_strings_def)

lemma inline_line_read:
  assumes "bare_key k" "k \<notin> fst ` set t" "list_all (\<lambda>(k, v). bare_key k \<and> list_all toml_ok v) kvs" "distinct (map fst kvs)"
  shows "document_loop fo (plug t) path (k @ '' = '' @ inline_text ip kvs @ CHR 0x0A # s)
    = document_loop fo (plug (t @ [(k, TTab (map (\<lambda>(k, v). (k, TStr v)) kvs))])) path s"
proof -
  let ?J = "join '', '' (map (\<lambda>(k, v). k @ '' = '' @ quote ip v) kvs)"
  have "parseValue fo (value_fuel (inline_text ip kvs @ CHR 0x0A # s)) (inline_text ip kvs @ CHR 0x0A # s)
      = Inr (TTab (map (\<lambda>(k, v). (k, TStr v)) kvs), CHR 0x0A # s)"
    using length_inline [of kvs ip]
    by (intro inline_text_read [OF assms(3,4)]) (simp add: value_fuel_def inline_text_def)
  then show ?thesis
    using value_line_read [OF assms(1,2), of "CHR ''{''" fo "?J @ ''}''" s] by (simp add: inline_text_def)
qed

text \<open>The headers of tables below the current one.\<close>

lemma new_array: "k \<notin> fst ` set t \<Longrightarrow> appendArrayOfTables (plug t) (path @ [k]) = Inr (plug (t @ [(k, TTabs [[]])]))"
  by (simp add: appendArrayOfTables_def with_plug append_table_def set_key_def update_nonmem map_of_last)

lemma next_array:
  "k \<notin> fst ` set t \<Longrightarrow> appendArrayOfTables (plug (t @ [(k, TTabs us)])) (path @ [k]) = Inr (plug (t @ [(k, TTabs (us @ [[]]))]))"
  by (simp add: appendArrayOfTables_def with_plug append_table_def set_key_def update_last map_of_last del: map_of_append)

lemma new_table: "k \<notin> fst ` set t \<Longrightarrow> descendTable (plug t) (path @ [k]) = Inr (plug (t @ [(k, TTab [])]))"
  by (simp add: descendTable_def with_table_append with_plug set_key_def update_nonmem map_of_last)

lemma array_cursor: "k \<notin> fst ` set t \<Longrightarrow> cursor (path @ [k]) (\<lambda>u. plug (t @ [(k, TTabs (us @ [u]))]))"
proof
  fix f u
  assume "k \<notin> fst ` set t"
  then show "with_table (path @ [k]) f (plug (t @ [(k, TTabs (us @ [u]))])) =
      (case f u of Inl e \<Rightarrow> Inl e | Inr u \<Rightarrow> Inr (plug (t @ [(k, TTabs (us @ [u]))])))"
    by (cases "f u") (simp_all add: with_table_append with_plug set_key_def update_last map_of_last del: map_of_append)
qed

lemma table_cursor: "k \<notin> fst ` set t \<Longrightarrow> cursor (path @ [k]) (\<lambda>u. plug (t @ [(k, TTab u)]))"
proof
  fix f u
  assume "k \<notin> fst ` set t"
  then show "with_table (path @ [k]) f (plug (t @ [(k, TTab u)])) =
      (case f u of Inl e \<Rightarrow> Inl e | Inr u \<Rightarrow> Inr (plug (t @ [(k, TTab u)])))"
    by (cases "f u") (simp_all add: with_table_append with_plug set_key_def update_last map_of_last del: map_of_append)
qed

text \<open>
  A run of tables of one array: each has its header and its own lines, which may hold tables of its
  own and so end at another path.
\<close>

lemma tables_read:
  assumes "list_all bare_key (path @ [k])" "k \<notin> fst ` set t" "pre = [] \<or> pre = nl"
    and "\<forall>x \<in> set xs. \<forall>plug' s. cursor (path @ [k]) plug' \<longrightarrow>
      (\<exists>p. document_loop fo (plug' []) (path @ [k]) (T x @ s) = document_loop fo (plug' (g x)) p s)"
  shows "\<exists>p'. document_loop fo (plug (t @ opt_tables k us)) p (concat (map (\<lambda>x. pre @ array_header (path @ [k]) @ T x) xs) @ s)
    = document_loop fo (plug (t @ opt_tables k (us @ map g xs))) p' s"
  using assms(4)
proof (induction xs arbitrary: us p)
  case (Cons x xs)
  let ?plug = "\<lambda>u. plug (t @ [(k, TTabs (us @ [u]))])"
  let ?rest = "concat (map (\<lambda>x. pre @ array_header (path @ [k]) @ T x) xs) @ s"
  have c: "cursor (path @ [k]) ?plug" using assms(2) by (rule array_cursor)
  have "appendArrayOfTables (plug (t @ opt_tables k us)) (path @ [k]) = Inr (?plug [])"
    using assms(2) new_array next_array by (cases "us = []") (simp_all add: opt_tables_def)
  then have "document_loop fo (plug (t @ opt_tables k us)) p (pre @ array_header (path @ [k]) @ T x @ ?rest)
      = document_loop fo (?plug []) (path @ [k]) (T x @ ?rest)"
    using assms(1,3) array_header_read [of "path @ [k]"] by (auto simp: nl_def document_loop_nl)
  moreover from Cons.prems have "cursor (path @ [k]) plug' \<longrightarrow>
      (\<exists>p. document_loop fo (plug' []) (path @ [k]) (T x @ s) = document_loop fo (plug' (g x)) p s)" for plug' s
    by simp
  from mp [OF this [of ?plug ?rest] c]
  obtain q where "document_loop fo (?plug []) (path @ [k]) (T x @ ?rest) = document_loop fo (?plug (g x)) q ?rest" ..
  moreover obtain q' where "document_loop fo (?plug (g x)) q ?rest = document_loop fo (plug (t @ opt_tables k ((us @ [g x]) @ map g xs))) q' s"
    using Cons.IH [of "us @ [g x]" q] Cons.prems by (auto simp: opt_tables_def)
  ultimately show ?case by auto
qed auto

end

interpretation top: cursor "[]" "\<lambda>t. t"
  by unfold_locales (simp split: sum.split)

end
