(* ===== verification/Lockfile.thy ===== *)
theory Lockfile
  imports Toml_Lines
begin

section \<open>The lock file (lockfile/entry.go, render.go, parse.go)\<close>

text \<open>
  The manifest, its canonical order, the TOML text written for it and the reader of that text.  The
  main results are that the text depends on the set of entries only (\<open>RenderTOML_deterministic\<close>) and
  that the reader takes back exactly the sorted manifest (\<open>ParseTOML_RenderTOML\<close>).  A slice that is
  nil and one that is empty are not told apart by this code and are both \<open>[]\<close>.
\<close>

subsection \<open>Entries and manifests\<close>

definition SchemaVersion :: int where
  "SchemaVersion = 1"

type_synonym Source = bytes

definition Source_Valid :: "Source \<Rightarrow> bool" where
  "Source_Valid s \<longleftrightarrow> s = ''registry'' \<or> s = ''index'' \<or> s = ''git'' \<or> s = ''path''"

record Entry =
  EName :: bytes
  EAlias :: bytes
  ESource :: Source
  EVersion :: bytes
  ESpecifier :: bytes
  IndexURL :: bytes
  GitURL :: bytes
  GitRev :: bytes
  LocalPath :: bytes
  WrapperSHA256 :: bytes
  Capabilities :: "bytes list"

record Manifest =
  MVersion :: int
  Entries :: "Entry list"

definition entry_less :: "Entry \<Rightarrow> Entry \<Rightarrow> bool" where
  "entry_less a b = (if EName a \<noteq> EName b then EName a < EName b else EAlias a < EAlias b)"

definition Manifest_Sort :: "Manifest \<Rightarrow> Manifest" where
  "Manifest_Sort m = m\<lparr>Entries := sort_stable entry_less (Entries m)\<rparr>"

lemma entry_less_key: "entry_less a b \<longleftrightarrow> (EName a, EAlias a) < (EName b, EAlias b)"
  by (auto simp: entry_less_def)

interpretation entries: sort_less entry_less
proof -
  have "sort_less (\<lambda>a b. (EName a, EAlias a) < (EName b, EAlias b))"
    by (rule sort_less_key [OF sort_less_lin])
  then show "sort_less entry_less" by (simp add: entry_less_key [abs_def])
qed

lemma entries_tied: "entries.tied a b \<longleftrightarrow> EName a = EName b \<and> EAlias a = EAlias b"
  by (auto simp: entries.tied_def entry_less_def)

lemma sort_entries_idem: "sort_stable entry_less (sort_stable entry_less es) = sort_stable entry_less es"
  by (rule entries.stable_unique [OF entries.sorted_sort_stable refl, symmetric])

subsection \<open>Rendering\<close>

definition capabilities_line :: "(int \<Rightarrow> bool) \<Rightarrow> bytes list \<Rightarrow> bytes" where
  "capabilities_line ip cs =
    (if cs \<noteq> [] then ''capabilities = ['' @ join '', '' (map (quote ip) cs) @ '']'' @ nl else [])"

definition renderEntry :: "(int \<Rightarrow> bool) \<Rightarrow> Entry \<Rightarrow> bytes" where
  "renderEntry ip e =
     ''[[python-package]]'' @ nl
     @ string_line ip ''name'' (EName e)
     @ string_line ip ''alias'' (EAlias e)
     @ string_line ip ''source'' (ESource e)
     @ optional_line ip ''version'' (EVersion e)
     @ optional_line ip ''specifier'' (ESpecifier e)
     @ optional_line ip ''index-url'' (IndexURL e)
     @ optional_line ip ''git-url'' (GitURL e)
     @ optional_line ip ''git-rev'' (GitRev e)
     @ optional_line ip ''local-path'' (LocalPath e)
     @ optional_line ip ''wrapper-sha256'' (WrapperSHA256 e)
     @ capabilities_line ip (Capabilities e)
     @ nl"

text \<open>
  \<open>out := m\<close> copies the struct but not the array behind its slice, so \<open>out.Sort()\<close> also sorts the
  entries of the caller.  The result is the text and the manifest of the caller after the call.
\<close>

definition RenderTOML :: "(int \<Rightarrow> bool) \<Rightarrow> Manifest \<Rightarrow> bytes \<times> Manifest" where
  "RenderTOML ip m =
    (let out = Manifest_Sort m;
         v = (if MVersion out = 0 then SchemaVersion else MVersion out)
     in (''# Auto-generated MEP-71 python lockfile. Do not edit by hand.'' @ nl
         @ ''# Regenerate via `mochi pkg lock`.'' @ nl
         @ ''schema-version = '' @ itoa v @ nl
         @ nl
         @ concat (map (renderEntry ip) (Entries out)),
         m\<lparr>Entries := Entries out\<rparr>))"

subsection \<open>Reading\<close>

datatype LockError =
    LockToml TomlError | LockDecode DecodeError | NoSchemaVersion | BadSchemaVersion int
  | BadEntry nat LockError | InvalidSource bytes

definition lock_string :: "Decoder \<Rightarrow> bytes \<Rightarrow> LockError + bytes" where
  "lock_string d k =
    (case Decoder_String d k of Inl e \<Rightarrow> Inl (LockDecode e) | Inr None \<Rightarrow> Inr [] | Inr (Some s) \<Rightarrow> Inr s)"

text \<open>The loop over the optional keys and the fields they fill.\<close>

fun lock_strings :: "Decoder \<Rightarrow> (bytes \<times> (bytes \<Rightarrow> Entry \<Rightarrow> Entry)) list \<Rightarrow> Entry \<Rightarrow> LockError + Entry" where
  "lock_strings d [] e = Inr e"
| "lock_strings d ((k, put) # opts) e =
    (case lock_string d k of Inl err \<Rightarrow> Inl err | Inr s \<Rightarrow> lock_strings d opts (put s e))"

definition optional_keys :: "(bytes \<times> (bytes \<Rightarrow> Entry \<Rightarrow> Entry)) list" where
  "optional_keys =
    [(''version'', \<lambda>s e. e\<lparr>EVersion := s\<rparr>), (''specifier'', \<lambda>s e. e\<lparr>ESpecifier := s\<rparr>),
     (''index-url'', \<lambda>s e. e\<lparr>IndexURL := s\<rparr>), (''git-url'', \<lambda>s e. e\<lparr>GitURL := s\<rparr>),
     (''git-rev'', \<lambda>s e. e\<lparr>GitRev := s\<rparr>), (''local-path'', \<lambda>s e. e\<lparr>LocalPath := s\<rparr>),
     (''wrapper-sha256'', \<lambda>s e. e\<lparr>WrapperSHA256 := s\<rparr>)]"

definition empty_entry :: Entry where
  "empty_entry = \<lparr>EName = [], EAlias = [], ESource = [], EVersion = [], ESpecifier = [],
     IndexURL = [], GitURL = [], GitRev = [], LocalPath = [], WrapperSHA256 = [], Capabilities = []\<rparr>"

definition decodeEntry :: "Decoder \<Rightarrow> LockError + Entry" where
  "decodeEntry d =
    (case StringRequired d ''name'' of
       Inl e \<Rightarrow> Inl (LockDecode e)
     | Inr name \<Rightarrow>
    (case StringRequired d ''alias'' of
       Inl e \<Rightarrow> Inl (LockDecode e)
     | Inr alias \<Rightarrow>
    (case StringRequired d ''source'' of
       Inl e \<Rightarrow> Inl (LockDecode e)
     | Inr source \<Rightarrow>
    (let e = empty_entry\<lparr>EName := name, EAlias := alias, ESource := source\<rparr> in
     if \<not> Source_Valid (ESource e) then Inl (InvalidSource source)
     else case lock_strings d optional_keys e of
       Inl err \<Rightarrow> Inl err
     | Inr e \<Rightarrow>
         (case StringArray d ''capabilities'' of
            Inl err \<Rightarrow> Inl (LockDecode err)
          | Inr caps \<Rightarrow> Inr (e\<lparr>Capabilities := (case caps of None \<Rightarrow> [] | Some cs \<Rightarrow> cs)\<rparr>))))))"

fun decode_entries :: "nat \<Rightarrow> Decoder list \<Rightarrow> LockError + Entry list" where
  "decode_entries i [] = Inr []"
| "decode_entries i (d # ds) =
    (case decodeEntry d of
       Inl e \<Rightarrow> Inl (BadEntry i e)
     | Inr e \<Rightarrow> (case decode_entries (Suc i) ds of Inl err \<Rightarrow> Inl err | Inr es \<Rightarrow> Inr (e # es)))"

definition ParseTOML :: "(bytes \<Rightarrow> bool) \<Rightarrow> bytes \<Rightarrow> LockError + Manifest" where
  "ParseTOML float_ok src =
    (case Parse float_ok src of
       Inl e \<Rightarrow> Inl (LockToml e)
     | Inr tree \<Rightarrow>
    (let dec = NewDecoder tree in
     case Decoder_Int dec ''schema-version'' of
       Inl e \<Rightarrow> Inl (LockDecode e)
     | Inr None \<Rightarrow> Inl NoSchemaVersion
     | Inr (Some version) \<Rightarrow>
         if version \<noteq> SchemaVersion then Inl (BadSchemaVersion version)
         else case TableArray dec ''python-package'' of
           Inl e \<Rightarrow> Inl (LockDecode e)
         | Inr arr \<Rightarrow>
             (case decode_entries 0 (case arr of None \<Rightarrow> [] | Some ds \<Rightarrow> ds) of
                Inl e \<Rightarrow> Inl e
              | Inr es \<Rightarrow> Inr (Manifest_Sort \<lparr>MVersion = version, Entries = es\<rparr>))))"

subsection \<open>The tables of a lock file while it is read\<close>

definition lock_root :: "table list \<Rightarrow> table" where
  "lock_root us = (''schema-version'', TInt 1) # opt_tables ''python-package'' us"

lemma lock_root_snoc: "lock_root (us @ [t]) = [(''schema-version'', TInt 1), (''python-package'', TTabs (us @ [t]))]"
  by (simp add: lock_root_def opt_tables_def)

interpretation entry: cursor "[''python-package'']" "\<lambda>t. lock_root (us @ [t])" for us
  using top.array_cursor [of "''python-package''" "[(''schema-version'', TInt 1)]" us] by (simp add: lock_root_snoc)

lemma header_line:
  "document_loop fo (lock_root us) path (array_header [''python-package''] @ s)
    = document_loop fo (lock_root (us @ [[]])) [''python-package''] s"
proof (rule array_header_read)
  show "list_all bare_key [''python-package'']" by code_simp
  show "appendArrayOfTables (lock_root us) [''python-package''] = Inr (lock_root (us @ [[]]))"
    using top.new_array [of "''python-package''" "[(''schema-version'', TInt 1)]"]
      top.next_array [of "''python-package''" "[(''schema-version'', TInt 1)]" us]
    by (cases "us = []") (simp_all add: lock_root_def opt_tables_def)
qed simp

lemma capabilities_line_strings: "capabilities_line ip cs = optional_strings ip ''capabilities'' cs"
  by (simp add: capabilities_line_def optional_strings_def strings_text_def)

text \<open>The table of one entry.\<close>

definition entry_table :: "Entry \<Rightarrow> table" where
  "entry_table e =
     [(''name'', TStr (EName e)), (''alias'', TStr (EAlias e)), (''source'', TStr (ESource e))]
     @ opt_field ''version'' (EVersion e) @ opt_field ''specifier'' (ESpecifier e)
     @ opt_field ''index-url'' (IndexURL e) @ opt_field ''git-url'' (GitURL e)
     @ opt_field ''git-rev'' (GitRev e) @ opt_field ''local-path'' (LocalPath e)
     @ opt_field ''wrapper-sha256'' (WrapperSHA256 e) @ opt_strings ''capabilities'' (Capabilities e)"

text \<open>The strings the writer's quoting keeps within the reader's escapes.\<close>

definition entry_ok :: "Entry \<Rightarrow> bool" where
  "entry_ok e \<longleftrightarrow> Source_Valid (ESource e)
     \<and> list_all (list_all toml_ok) ([EName e, EAlias e, EVersion e, ESpecifier e, IndexURL e,
         GitURL e, GitRev e, LocalPath e, WrapperSHA256 e] @ Capabilities e)"

lemma Source_Valid_ok: "Source_Valid v \<Longrightarrow> list_all toml_ok v"
  unfolding Source_Valid_def by (elim disjE) (simp_all add: toml_ok_def)

lemma bare_keys:
  "bare_key ''name''" "bare_key ''alias''" "bare_key ''source''" "bare_key ''version''"
  "bare_key ''specifier''" "bare_key ''index-url''" "bare_key ''git-url''" "bare_key ''git-rev''"
  "bare_key ''local-path''" "bare_key ''wrapper-sha256''" "bare_key ''capabilities''"
  by code_simp+

lemma renderEntry_read:
  assumes "entry_ok e"
  shows "document_loop fo (lock_root us) path (renderEntry ip e @ s)
    = document_loop fo (lock_root (us @ [entry_table e])) [''python-package''] s"
proof -
  have ok: "list_all toml_ok (EName e)" "list_all toml_ok (EAlias e)" "list_all toml_ok (ESource e)"
    "list_all toml_ok (EVersion e)" "list_all toml_ok (ESpecifier e)" "list_all toml_ok (IndexURL e)"
    "list_all toml_ok (GitURL e)" "list_all toml_ok (GitRev e)" "list_all toml_ok (LocalPath e)"
    "list_all toml_ok (WrapperSHA256 e)" "list_all (list_all toml_ok) (Capabilities e)"
    using assms Source_Valid_ok by (simp_all add: entry_ok_def)
  have "renderEntry ip e = array_header [''python-package''] @ drop (length (array_header [''python-package''])) (renderEntry ip e)"
    by (simp add: renderEntry_def array_header_def nl_def)
  then have "document_loop fo (lock_root us) path (renderEntry ip e @ s) =
      document_loop fo (lock_root (us @ [[]])) [''python-package'']
        (drop (length (array_header [''python-package''])) (renderEntry ip e) @ s)"
    using header_line by (metis append_assoc)
  then show ?thesis
    using ok by (simp add: renderEntry_def array_header_def nl_def entry.string_line_read entry.optional_line_read
        entry.optional_strings_read capabilities_line_strings bare_keys image_Un entry_table_def document_loop_nl)
qed

lemma entries_read:
  "list_all entry_ok es \<Longrightarrow>
    document_loop fo (lock_root us) path (concat (map (renderEntry ip) es)) = Inr (lock_root (us @ map entry_table es))"
proof (induction es arbitrary: us path)
  case Nil
  then show ?case by (simp add: document_loop.simps [of _ _ _ "[]"] skipWSAndComments.simps)
next
  case (Cons e es)
  then show ?case using renderEntry_read [of e fo us path ip] by simp
qed

lemma entry_lookup [simp]:
  "map_of (entry_table e) ''name'' = Some (TStr (EName e))"
  "map_of (entry_table e) ''alias'' = Some (TStr (EAlias e))"
  "map_of (entry_table e) ''source'' = Some (TStr (ESource e))"
  "map_of (entry_table e) ''version'' = (if EVersion e \<noteq> [] then Some (TStr (EVersion e)) else None)"
  "map_of (entry_table e) ''specifier'' = (if ESpecifier e \<noteq> [] then Some (TStr (ESpecifier e)) else None)"
  "map_of (entry_table e) ''index-url'' = (if IndexURL e \<noteq> [] then Some (TStr (IndexURL e)) else None)"
  "map_of (entry_table e) ''git-url'' = (if GitURL e \<noteq> [] then Some (TStr (GitURL e)) else None)"
  "map_of (entry_table e) ''git-rev'' = (if GitRev e \<noteq> [] then Some (TStr (GitRev e)) else None)"
  "map_of (entry_table e) ''local-path'' = (if LocalPath e \<noteq> [] then Some (TStr (LocalPath e)) else None)"
  "map_of (entry_table e) ''wrapper-sha256'' = (if WrapperSHA256 e \<noteq> [] then Some (TStr (WrapperSHA256 e)) else None)"
  "map_of (entry_table e) ''capabilities'' =
     (if Capabilities e \<noteq> [] then Some (TArr (map TStr (Capabilities e))) else None)"
  by (simp_all add: entry_table_def del: map_of_append)

lemma decodeEntry_table: "entry_ok e \<Longrightarrow> decodeEntry (NewDecoder (entry_table e)) = Inr e"
proof -
  assume ok: "entry_ok e"
  have str: "lock_string (NewDecoder (entry_table e)) k = Inr v"
    if "map_of (entry_table e) k = (if v \<noteq> [] then Some (TStr v) else None)" for k v
    using that by (simp add: lock_string_def Decoder_String_def NewDecoder_def)
  have opts: "lock_strings (NewDecoder (entry_table e)) optional_keys
      (empty_entry\<lparr>EName := EName e, EAlias := EAlias e, ESource := ESource e\<rparr>) = Inr (e\<lparr>Capabilities := []\<rparr>)"
    by (simp add: optional_keys_def empty_entry_def str)
  have req: "StringRequired (NewDecoder (entry_table e)) ''name'' = Inr (EName e)"
    "StringRequired (NewDecoder (entry_table e)) ''alias'' = Inr (EAlias e)"
    "StringRequired (NewDecoder (entry_table e)) ''source'' = Inr (ESource e)"
    by (simp_all add: StringRequired_def Decoder_String_def NewDecoder_def)
  have "StringArray (NewDecoder (entry_table e)) ''capabilities'' =
      Inr (if Capabilities e = [] then None else Some (Capabilities e))"
    by (simp add: StringArray_def NewDecoder_def)
  then show ?thesis
    using ok opts req by (simp add: decodeEntry_def entry_ok_def)
qed

lemma decode_entries_tables:
  "list_all entry_ok es \<Longrightarrow> decode_entries i (map NewDecoder (map entry_table es)) = Inr es"
  by (induction es arbitrary: i) (auto simp: decodeEntry_table)

lemma schema_line:
  "document_loop fo [] [] (''schema-version = 1'' @ CHR 0x0A # s) = document_loop fo (lock_root []) [] s"
proof -
  have "bare_key ''schema-version''" by code_simp
  moreover have "parseNumber fo (CHR ''1'' # CHR 0x0A # s) = Inr (TInt 1, CHR 0x0A # s)"
  proof -
    have "atoi ''1'' = Some 1" by code_simp
    then show ?thesis
      by (simp add: parseNumber_def sign_split_def fraction_part_def exponent_part_def is_digit_def)
  qed
  then have "parseValue fo (value_fuel (CHR ''1'' # CHR 0x0A # s)) (CHR ''1'' # CHR 0x0A # s) = Inr (TInt 1, CHR 0x0A # s)"
    by (simp add: value_fuel_def parseValue.simps is_digit_def)
  ultimately show ?thesis
    using key_value_line [of "''schema-version''" "CHR ''1''" fo "[]" s "TInt 1" "[]" "[]"]
    by (simp add: add_key_def lock_root_def opt_tables_def)
qed

lemma Parse_render:
  assumes "MVersion m \<in> {0, 1}" "list_all entry_ok (Entries m)"
  shows "Parse fo (fst (RenderTOML ip m))
    = Inr (lock_root (map entry_table (sort_stable entry_less (Entries m))))"
proof -
  let ?es = "sort_stable entry_less (Entries m)"
  let ?B = "''schema-version = 1'' @ CHR 0x0A # CHR 0x0A # concat (map (renderEntry ip) ?es)"
  have v: "(MVersion m = 0 \<longrightarrow> itoa SchemaVersion = ''1'') \<and> (MVersion m \<noteq> 0 \<longrightarrow> itoa (MVersion m) = ''1'')"
  proof -
    have "itoa 1 = ''1''" by code_simp
    then show ?thesis using assms(1) by (auto simp: SchemaVersion_def)
  qed
  have R: "fst (RenderTOML ip m) = ''# Auto-generated MEP-71 python lockfile. Do not edit by hand.'' @ nl
         @ ''# Regenerate via `mochi pkg lock`.'' @ nl @ ?B"
    using v by (simp add: RenderTOML_def Manifest_Sort_def Let_def nl_def)
  have "skipWSAndComments (fst (RenderTOML ip m)) = skipWSAndComments ?B"
    using skip_comment [of "'' Auto-generated MEP-71 python lockfile. Do not edit by hand.''"]
      skip_comment [of "'' Regenerate via `mochi pkg lock`.''"]
    unfolding R by (simp add: nl_def)
  then have "document_loop fo [] [] (fst (RenderTOML ip m)) = document_loop fo [] [] ?B"
    unfolding document_loop.simps [of _ _ _ "fst (RenderTOML ip m)"] document_loop.simps [of _ _ _ ?B] by simp
  then show ?thesis
    using assms(2) entries_read [of ?es fo "[]" "[]" ip] schema_line [of fo]
    by (simp add: Parse_def document_loop_nl list_all_iff)
qed

lemma lock_read:
  assumes "MVersion m \<in> {0, 1}" "list_all entry_ok (Entries m)"
  shows "ParseTOML float_ok (fst (RenderTOML is_print m))
    = Inr \<lparr>MVersion = 1, Entries = sort_stable entry_less (Entries m)\<rparr>"
proof -
  let ?es = "sort_stable entry_less (Entries m)"
  have ok: "list_all entry_ok ?es" using assms(2) by (simp add: list_all_iff)
  have "decode_entries 0 (map NewDecoder (map entry_table ?es)) = Inr ?es"
    by (rule decode_entries_tables [OF ok])
  then show ?thesis
    unfolding ParseTOML_def Parse_render [OF assms]
    by (simp add: Decoder_Int_def TableArray_def NewDecoder_def lock_root_def SchemaVersion_def
        Manifest_Sort_def sort_entries_idem)
qed

subsection \<open>Properties of the lock file\<close>

text \<open>
  C3. Reading back the text written for a manifest gives the manifest with its entries in canonical
  order and the current schema version, whatever strings the entries hold that the writer's quoting
  keeps within the reader's escapes.
\<close>

theorem ParseTOML_RenderTOML:
  assumes "MVersion m \<in> {0, 1}" "list_all entry_ok (Entries m)"
  shows "ParseTOML float_ok (fst (RenderTOML is_print m))
    = Inr \<lparr>MVersion = 1, Entries = sort_stable entry_less (Entries m)\<rparr>"
  by (rule lock_read [OF assms])

definition sample_entry :: "bytes \<Rightarrow> Entry" where
  "sample_entry n = empty_entry\<lparr>EName := n, EAlias := n, ESource := ''registry'',
     ESpecifier := ''>=2.0'', Capabilities := [''async'', ''map'']\<rparr>"

theorem ParseTOML_RenderTOML_witness:
  "ParseTOML (\<lambda>_. True) (fst (RenderTOML (\<lambda>_. True)
      \<lparr>MVersion = 0, Entries = [sample_entry ''b'', sample_entry ''a'']\<rparr>))
    = Inr \<lparr>MVersion = 1, Entries = [sample_entry ''a'', sample_entry ''b'']\<rparr>"
proof -
  let ?m = "\<lparr>MVersion = 0, Entries = [sample_entry ''b'', sample_entry ''a'']\<rparr>"
  have "sort_stable entry_less (Entries ?m) = [sample_entry ''a'', sample_entry ''b'']"
    by (simp add: entry_less_def sample_entry_def)
  moreover have "list_all entry_ok (Entries ?m)" by code_simp
  ultimately show ?thesis using ParseTOML_RenderTOML [of ?m] by simp
qed

text \<open>
  C19. The text of a manifest depends on its entries as a set: when no two entries share name and
  alias, writing any permutation of them gives the same text.
\<close>

theorem RenderTOML_deterministic:
  assumes "mset (Entries m) = mset (Entries m')" "MVersion m = MVersion m'"
    and "distinct (map (\<lambda>e. (EName e, EAlias e)) (Entries m))"
  shows "fst (RenderTOML is_print m) = fst (RenderTOML is_print m')"
proof -
  have "sort_stable entry_less (Entries m) = sort_stable entry_less (Entries m')"
    using assms(1,3) by (intro entries.sort_stable_perm) (auto simp: entries_tied distinct_map inj_on_def)
  then show ?thesis using assms(2) by (simp add: RenderTOML_def Manifest_Sort_def Let_def)
qed

theorem RenderTOML_deterministic_witness:
  "fst (RenderTOML (\<lambda>_. True) \<lparr>MVersion = 1, Entries = [sample_entry ''b'', sample_entry ''a'']\<rparr>)
     = fst (RenderTOML (\<lambda>_. True) \<lparr>MVersion = 1, Entries = [sample_entry ''a'', sample_entry ''b'']\<rparr>)"
  by (rule RenderTOML_deterministic) (simp_all add: sample_entry_def add_mset_commute)

lemma lock_strings_put:
  "\<forall>(k, put) \<in> set opts. \<forall>s e. ESource (put s e) = ESource e \<Longrightarrow>
    lock_strings d opts e = Inr e' \<Longrightarrow> ESource e' = ESource e"
  by (induction opts arbitrary: e) (fastforce split: sum.splits)+

lemma decodeEntry_source: "decodeEntry d = Inr e \<Longrightarrow> Source_Valid (ESource e)"
proof -
  assume *: "decodeEntry d = Inr e"
  then obtain a b where ab: "lock_strings d optional_keys a = Inr b" "Source_Valid (ESource a)"
      "ESource e = ESource b"
    by (auto simp: decodeEntry_def Let_def split: sum.splits if_splits)
  have "ESource b = ESource a"
    by (rule lock_strings_put [OF _ ab(1)]) (simp add: optional_keys_def)
  then show ?thesis using ab by simp
qed

lemma decode_entries_source: "decode_entries i ds = Inr es \<Longrightarrow> e \<in> set es \<Longrightarrow> Source_Valid (ESource e)"
  by (induction i ds arbitrary: es rule: decode_entries.induct)
    (auto split: sum.splits dest: decodeEntry_source)

lemma sample_read:
  "ParseTOML (\<lambda>_. True) (fst (RenderTOML (\<lambda>_. True) \<lparr>MVersion = 1, Entries = [sample_entry ''a'']\<rparr>))
    = Inr \<lparr>MVersion = 1, Entries = [sample_entry ''a'']\<rparr>"
proof -
  have "list_all entry_ok [sample_entry ''a'']" by code_simp
  then show ?thesis using lock_read [of "\<lparr>MVersion = 1, Entries = [sample_entry ''a'']\<rparr>"] by simp
qed

text \<open>
  C20. Whatever text the reader accepts, the manifest has the current schema version, only the four
  known sources, and its entries are in canonical order.
\<close>

theorem ParseTOML_valid:
  assumes "ParseTOML float_ok s = Inr m"
  shows "MVersion m = SchemaVersion
    \<and> list_all (\<lambda>e. Source_Valid (ESource e)) (Entries m)
    \<and> sorted_wrt (\<lambda>a b. (EName a, EAlias a) \<le> (EName b, EAlias b)) (Entries m)"
proof -
  obtain tree arr where t: "Parse float_ok s = Inr tree" "TableArray (NewDecoder tree) ''python-package'' = Inr arr"
    using assms by (auto simp: ParseTOML_def Let_def split: sum.splits option.splits if_splits)
  obtain es where m: "m = Manifest_Sort \<lparr>MVersion = SchemaVersion, Entries = es\<rparr>"
      "decode_entries 0 (case arr of None \<Rightarrow> [] | Some ds \<Rightarrow> ds) = Inr es"
    using assms t
    by (cases arr) (auto simp: ParseTOML_def Let_def split: sum.splits option.splits if_splits)
  have "sorted_wrt (\<lambda>a b. \<not> entry_less b a) (sort_stable entry_less es)"
    by (rule entries.sorted_sort_stable)
  then have "sorted_wrt (\<lambda>a b. (EName a, EAlias a) \<le> (EName b, EAlias b)) (sort_stable entry_less es)"
    by (rule sorted_wrt_mono_rel [rotated]) (simp only: entry_less_key not_less)
  then show ?thesis
    using m decode_entries_source [OF m(2)] by (simp add: Manifest_Sort_def list_all_iff)
qed

theorem ParseTOML_valid_witness:
  "list_all (\<lambda>e. Source_Valid (ESource e)) [sample_entry ''a'']"
  using ParseTOML_valid [of "\<lambda>_. True"
      "fst (RenderTOML (\<lambda>_. True) \<lparr>MVersion = 1, Entries = [sample_entry ''a'']\<rparr>)"
      "\<lparr>MVersion = 1, Entries = [sample_entry ''a'']\<rparr>"]
  by (simp add: sample_read)

text \<open>Rendering reorders the slice of the caller.\<close>

lemma RenderTOML_sorts_caller:
  "Entries (snd (RenderTOML ip \<lparr>MVersion = 1, Entries = [sample_entry ''b'', sample_entry ''a'']\<rparr>))
    = [sample_entry ''a'', sample_entry ''b'']"
  by (simp add: RenderTOML_def Manifest_Sort_def entry_less_def sample_entry_def Let_def)

end
