(* ===== verification/Emit.thy ===== *)
theory Emit
  imports Wrapper
begin

section \<open>The Mochi shim (emit/shim.go)\<close>

text \<open>
  The declarations a wrapper exposes to Mochi, their rendered source and its digest.  SHA-256 in hex
  is a parameter of the model.  \<open>Render\<close> panics on a malformed type, so a rendered declaration is
  an option, with \<open>None\<close> for the panic; a function item whose type is not of the function kind has
  no declaration, which is the inner \<open>None\<close> of \<open>renderItem\<close>.
\<close>

datatype DeclKind = DeclExternFun | DeclTypeAlias | DeclExternType | DeclExternVar

fun DeclKind_String :: "DeclKind \<Rightarrow> bytes" where
  "DeclKind_String DeclExternFun = ''extern_fun''"
| "DeclKind_String DeclTypeAlias = ''type_alias''"
| "DeclKind_String DeclExternType = ''extern_type''"
| "DeclKind_String DeclExternVar = ''extern_var''"

record Decl =
  DKind :: DeclKind
  DName :: bytes
  DType :: MochiType
  DSource :: bytes

record Shim =
  ShPackage :: bytes
  ShModule :: bytes
  ShSource :: bytes
  SHA256 :: bytes
  Decls :: "Decl list"

record ShimOptions =
  Header :: bool
  IncludeSkipReport :: bool
  Generator :: bytes

definition DefaultOptions :: ShimOptions where
  "DefaultOptions = \<lparr>Header = True, IncludeSkipReport = True, Generator = ''mochi pkg lock''\<rparr>"

datatype EmitError = NilWrapper | EmptyWrapperPackage

definition hasItem :: "Item list \<Rightarrow> ItemKind \<Rightarrow> bool" where
  "hasItem items kind \<longleftrightarrow> list_ex (\<lambda>it. IKind it = kind) items"

definition writeHeader :: "Wrapper \<Rightarrow> ShimOptions \<Rightarrow> bytes" where
  "writeHeader w opts =
    ''// Auto-generated by '' @ Generator opts @ '' '' @ em_dash @ '' do not edit.'' @ nl
    @ ''// MEP-71 Mochi shim for source package: '' @ WPackage w @ nl
    @ ''// Items: '' @ itoa (int (length (Items w))) @ ''  Skipped: '' @ itoa (int (length (Skipped w)))
    @ ''  Loop: '' @ EventLoopMode_String (WLoop w) @ nl
    @ nl"

definition writeSkipReport :: "Wrapper \<Rightarrow> bytes" where
  "writeSkipReport w =
    (if Skipped w = [] then []
     else ''// SKIPPED items (see SKIPPED.txt for full report):'' @ nl
          @ concat (map (\<lambda>s. ''//   '' @ ItemPath s @ '' ('' @ SkipReason_String (Reason s) @ '')'' @ nl) (Skipped w)))"

definition mk_decl :: "DeclKind \<Rightarrow> Item \<Rightarrow> bytes option \<Rightarrow> Decl option option" where
  "mk_decl k it src =
    (case src of None \<Rightarrow> None | Some s \<Rightarrow> Some (Some \<lparr>DKind = k, DName = IName it, DType = IType it, DSource = s\<rparr>))"

definition renderFun :: "Item \<Rightarrow> Decl option option" where
  "renderFun it =
    (case (FunParams (IType it), FunReturn (IType it)) of
       (Some params, Some ret) \<Rightarrow>
         mk_decl DeclExternFun it
           (append_opt (wrap (''extern python fun '' @ IName it @ ''('') ''): '' (seq_join '', '' (map renderInto params)))
             (renderInto ret))
     | _ \<Rightarrow> Some None)"

text \<open>The loop over the sorted field names, with a comma after all but the last.\<close>

fun alias_lines :: "(bytes \<times> bytes option) list \<Rightarrow> bytes list \<Rightarrow> bytes option list" where
  "alias_lines idx [] = []"
| "alias_lines idx (n # ns) =
    wrap (''  '' @ n @ '': '') ((if ns = [] then [] else '','') @ nl) (by_name idx n) # alias_lines idx ns"

definition extern_type :: "Item \<Rightarrow> Decl option option" where
  "extern_type it = mk_decl DeclExternType it (Some (''extern python type '' @ IName it))"

definition renderRecordDecl :: "Item \<Rightarrow> Decl option option" where
  "renderRecordDecl it =
    (if MKind (IType it) \<noteq> KindRecord \<or> Fields (IType it) = [] then extern_type it
     else
       let idx = map (\<lambda>f. (FName f, renderInto (FType f))) (Fields (IType it)) in
       mk_decl DeclTypeAlias it
         (wrap (''type '' @ IName it @ '' = {'' @ nl) (''}'' @ nl)
           (seq_join [] (alias_lines idx (sort_strings (map fst idx))))))"

definition renderConstant :: "Item \<Rightarrow> Decl option option" where
  "renderConstant it =
    mk_decl DeclExternVar it (wrap (''extern python var '' @ IName it @ '': '') [] (renderInto (IType it)))"

definition renderItem :: "Item \<Rightarrow> Decl option option" where
  "renderItem it =
    (case IKind it of
       ItemFunc \<Rightarrow> renderFun it
     | ItemRecord \<Rightarrow> renderRecordDecl it
     | ItemInterface \<Rightarrow> extern_type it
     | ItemConstant \<Rightarrow> renderConstant it)"

text \<open>The inner loop over one group: the text and the declarations it appends.\<close>

definition end_line :: "bytes \<Rightarrow> bytes" where
  "end_line s = (if has_suffix s nl then s else s @ nl)"

fun emit_group :: "ItemKind \<Rightarrow> Item list \<Rightarrow> (bytes \<times> Decl list) option" where
  "emit_group g [] = Some ([], [])"
| "emit_group g (it # its) =
    (if IKind it \<noteq> g then emit_group g its
     else case renderItem it of
       None \<Rightarrow> None
     | Some None \<Rightarrow> emit_group g its
     | Some (Some d) \<Rightarrow>
         (case emit_group g its of
            None \<Rightarrow> None
          | Some (tx, ds) \<Rightarrow> Some (end_line (DSource d) @ tx, d # ds)))"

fun emit_groups :: "ItemKind list \<Rightarrow> Item list \<Rightarrow> (bytes \<times> Decl list) option" where
  "emit_groups [] items = Some ([], [])"
| "emit_groups (g # gs) items =
    (case emit_group g items of
       None \<Rightarrow> None
     | Some (tx, ds) \<Rightarrow>
         (case emit_groups gs items of
            None \<Rightarrow> None
          | Some (tx', ds') \<Rightarrow> Some (tx @ (if hasItem items g then nl else []) @ tx', ds @ ds')))"

definition group_order :: "ItemKind list" where
  "group_order = [ItemRecord, ItemInterface, ItemConstant, ItemFunc]"

definition EmitShim :: "(bytes \<Rightarrow> bytes) \<Rightarrow> Wrapper option \<Rightarrow> ShimOptions \<Rightarrow> EmitError + Shim option" where
  "EmitShim sha256_hex wp opts =
    (case wp of
       None \<Rightarrow> Inl NilWrapper
     | Some w \<Rightarrow>
         if WPackage w = [] then Inl EmptyWrapperPackage
         else
           let opts = (if Generator opts = [] then opts\<lparr>Generator := ''mochi pkg lock''\<rparr> else opts);
               items = sort_stable item_less (Items w)
           in Inr (case emit_groups group_order items of
                None \<Rightarrow> None
              | Some (tx, ds) \<Rightarrow>
                  (let src = (if Header opts then writeHeader w opts else []) @ tx
                         @ (if IncludeSkipReport opts then writeSkipReport w else [])
                   in Some \<lparr>ShPackage = WPackage w, ShModule = WPackage w @ ''_shim'', ShSource = src,
                        SHA256 = sha256_hex src, Decls = ds\<rparr>)))"

subsection \<open>Every item has its declaration\<close>

text \<open>The kind of declaration an item gets.\<close>

definition decl_kind :: "Item \<Rightarrow> DeclKind" where
  "decl_kind it =
    (case IKind it of
       ItemFunc \<Rightarrow> DeclExternFun
     | ItemRecord \<Rightarrow> if Fields (IType it) = [] then DeclExternType else DeclTypeAlias
     | ItemInterface \<Rightarrow> DeclExternType
     | ItemConstant \<Rightarrow> DeclExternVar)"

definition declares :: "Decl \<Rightarrow> Item \<Rightarrow> bool" where
  "declares d it \<longleftrightarrow> DName d = IName it \<and> DType d = IType it \<and> DKind d = decl_kind it"

lemma mk_decl_Some: "src \<noteq> None \<Longrightarrow> \<exists>d. mk_decl k it src = Some (Some d)
    \<and> DName d = IName it \<and> DType d = IType it \<and> DKind d = k"
  by (auto simp: mk_decl_def)

lemma by_name_Some:
  assumes "\<forall>p \<in> set idx. snd p \<noteq> None" "n \<in> set (map fst idx)"
  shows "by_name idx n \<noteq> None"
proof -
  have "map_of (rev idx) n \<noteq> None" using assms(2) by (simp add: map_of_eq_None_iff)
  then obtain r where r: "map_of (rev idx) n = Some r" by blast
  then have "(n, r) \<in> set idx" by (metis map_of_SomeD set_rev)
  with assms(1) r show ?thesis by (auto simp: by_name_def)
qed

lemma alias_lines_Some:
  assumes "\<forall>p \<in> set idx. snd p \<noteq> None"
  shows "set ns \<subseteq> set (map fst idx) \<Longrightarrow> None \<notin> set (alias_lines idx ns)"
proof (induction ns)
  case (Cons n ns)
  then have "by_name idx n \<noteq> None" using by_name_Some [OF assms] by simp
  then show ?case using Cons by (auto simp del: not_None_eq simp: eq_commute [of None])
qed simp

lemma renderItem_Some: "item_ok it \<Longrightarrow> \<exists>d. renderItem it = Some (Some d) \<and> declares d it"
proof -
  assume ok: "item_ok it"
  have wf: "mochi_wf (IType it)" using ok by (simp add: item_ok_def)
  show ?thesis
  proof (cases "IKind it")
    case ItemFunc
    then obtain ps r where p: "FunParams (IType it) = Some ps" "FunReturn (IType it) = Some r"
        "list_all mochi_wf ps" "mochi_wf r"
      using fun_parts_wf [OF wf] ok by (auto simp: item_ok_def)
    have "renderInto p \<noteq> None" if "p \<in> set ps" for p
      using that p(3) render_wf(1) by (simp add: list_all_iff del: not_None_eq)
    then have "None \<notin> set (map renderInto ps)" by (metis imageE set_map)
    then show ?thesis
      using ItemFunc p render_wf(1) [OF p(4)] mk_decl_Some [of _ DeclExternFun it]
      by (simp add: renderItem_def renderFun_def declares_def decl_kind_def seq_join_Some del: not_None_eq)
  next
    case ItemRecord
    let ?idx = "map (\<lambda>f. (FName f, renderInto (FType f))) (Fields (IType it))"
    have kind: "MKind (IType it) = KindRecord" using ok ItemRecord by (simp add: item_ok_def)
    obtain k name ps fs ms where t: "IType it = MType k name ps fs ms" by (cases "IType it")
    have "renderInto (FType f) \<noteq> None" if "f \<in> set fs" for f
      using wf t that render_wf(1) by (cases f) (fastforce simp: list_all_iff)
    then have "\<forall>p \<in> set ?idx. snd p \<noteq> None" using t by (simp del: not_None_eq)
    then have "None \<notin> set (alias_lines ?idx (sort_strings (map fst ?idx)))"
      by (rule alias_lines_Some) (simp add: sort_strings_def)
    then show ?thesis
      using ItemRecord kind mk_decl_Some [of _ DeclTypeAlias it] mk_decl_Some [of _ DeclExternType it]
      by (simp add: renderItem_def renderRecordDecl_def extern_type_def declares_def decl_kind_def
          seq_join_Some Let_def del: not_None_eq)
  next
    case ItemInterface
    then show ?thesis using mk_decl_Some [of _ DeclExternType it]
      by (simp add: renderItem_def extern_type_def declares_def decl_kind_def)
  next
    case ItemConstant
    then show ?thesis using mk_decl_Some [of _ DeclExternVar it] render_wf(1) [OF wf]
      by (simp add: renderItem_def renderConstant_def declares_def decl_kind_def del: not_None_eq)
  qed
qed

lemma emit_group_Some:
  "\<forall>it \<in> set its. item_ok it \<Longrightarrow>
    \<exists>tx ds. emit_group g its = Some (tx, ds) \<and> list_all2 declares ds (filter (\<lambda>it. IKind it = g) its)"
proof (induction its)
  case (Cons it its)
  then obtain tx ds where r: "emit_group g its = Some (tx, ds)"
      "list_all2 declares ds (filter (\<lambda>it. IKind it = g) its)" by auto
  obtain d where "renderItem it = Some (Some d)" "declares d it" using renderItem_Some [of it] Cons by auto
  then show ?case using r by simp
qed simp

lemma emit_groups_Some:
  "\<forall>it \<in> set its. item_ok it \<Longrightarrow>
    \<exists>tx ds. emit_groups gs its = Some (tx, ds)
      \<and> list_all2 declares ds (concat (map (\<lambda>g. filter (\<lambda>it. IKind it = g) its) gs))"
proof (induction gs)
  case (Cons g gs)
  then obtain tx ds where r: "emit_groups gs its = Some (tx, ds)"
      "list_all2 declares ds (concat (map (\<lambda>g. filter (\<lambda>it. IKind it = g) its) gs))" by auto
  obtain tx' ds' where g: "emit_group g its = Some (tx', ds')"
      "list_all2 declares ds' (filter (\<lambda>it. IKind it = g) its)" using emit_group_Some [OF Cons.prems] by blast
  show ?case using r g by (simp add: list_all2_appendI)
qed simp

text \<open>The order of the declarations: by group, by source name within a group.\<close>

definition shim_order :: "Wrapper \<Rightarrow> Item list" where
  "shim_order w = concat (map (\<lambda>g. filter (\<lambda>it. IKind it = g) (sort_stable item_less (Items w))) group_order)"

lemma shim_order_mset: "mset (shim_order w) = mset (Items w)"
proof -
  have "mset (concat (map (\<lambda>g. filter (\<lambda>it. IKind it = g) xs) group_order)) = mset xs" for xs
  proof (induction xs)
    case (Cons x xs)
    then show ?case by (cases "IKind x") (simp_all add: group_order_def)
  qed (simp add: group_order_def)
  from this [of "sort_stable item_less (Items w)"] show ?thesis unfolding shim_order_def by (metis mset_sort_stable)
qed

lemma EmitShim_Some:
  assumes "WPackage w \<noteq> []" "\<forall>it \<in> set (Items w). item_ok it"
  shows "\<exists>s. EmitShim sha (Some w) opts = Inr (Some s) \<and> list_all2 declares (Decls s) (shim_order w)
    \<and> SHA256 s = sha (ShSource s) \<and> ShPackage s = WPackage w"
proof -
  have "\<forall>it \<in> set (sort_stable item_less (Items w)). item_ok it" using assms(2) by simp
  from emit_groups_Some [OF this, of group_order] obtain tx ds where
    "emit_groups group_order (sort_stable item_less (Items w)) = Some (tx, ds)"
    "list_all2 declares ds (shim_order w)" unfolding shim_order_def by blast
  then show ?thesis using assms(1) by (simp add: EmitShim_def Let_def)
qed

subsection \<open>The text holds every declaration\<close>

lemma in_text: "(\<exists>a b. t = a @ x @ b) \<Longrightarrow> \<exists>a b. u @ t @ v = a @ x @ b"
proof -
  assume "\<exists>a b. t = a @ x @ b"
  then obtain a b where "t = a @ x @ b" by blast
  then have "u @ t @ v = (u @ a) @ x @ (b @ v)" by simp
  then show ?thesis by blast
qed

lemma end_line_text: "\<exists>b. end_line s @ t = s @ b"
  by (auto simp: end_line_def)

lemma emit_group_text:
  "emit_group g its = Some (tx, ds) \<Longrightarrow> d \<in> set ds \<Longrightarrow> \<exists>a b. tx = a @ DSource d @ b"
proof (induction its arbitrary: tx ds)
  case (Cons it its)
  show ?case
  proof (cases "IKind it = g \<and> (\<exists>d'. renderItem it = Some (Some d'))")
    case False
    then have "emit_group g its = Some (tx, ds)"
      using Cons.prems by (auto split: if_splits option.splits)
    then show ?thesis using Cons by blast
  next
    case True
    then obtain d' tx' ds' where r: "renderItem it = Some (Some d')" "emit_group g its = Some (tx', ds')"
        "tx = end_line (DSource d') @ tx'" "ds = d' # ds'"
      using Cons.prems(1) by (auto split: if_splits option.splits)
    show ?thesis
    proof (cases "d = d'")
      case True
      obtain b where "tx = DSource d @ b" using r(3) True end_line_text by blast
      then have "tx = [] @ DSource d @ b" by simp
      then show ?thesis by blast
    next
      case False
      then have "\<exists>a b. tx' = a @ DSource d @ b" using Cons r by auto
      from in_text [OF this, of "end_line (DSource d')" "[]"] show ?thesis using r(3) by simp
    qed
  qed
qed simp

lemma emit_groups_text:
  "emit_groups gs its = Some (tx, ds) \<Longrightarrow> d \<in> set ds \<Longrightarrow> \<exists>a b. tx = a @ DSource d @ b"
proof (induction gs arbitrary: tx ds)
  case (Cons g gs)
  then obtain t1 d1 t2 d2 where r: "emit_group g its = Some (t1, d1)" "emit_groups gs its = Some (t2, d2)"
      "tx = t1 @ (if hasItem its g then nl else []) @ t2" "ds = d1 @ d2"
    by (auto split: option.splits)
  show ?case
  proof (cases "d \<in> set d1")
    case True
    from in_text [OF emit_group_text [OF r(1) this], of "[]"] show ?thesis using r(3) by simp
  next
    case False
    then have "\<exists>a b. t2 = a @ DSource d @ b" using Cons r by auto
    from in_text [OF this, of "t1 @ (if hasItem its g then nl else [])" "[]"] show ?thesis using r(3) by simp
  qed
qed simp

lemma EmitShim_text:
  assumes "EmitShim sha (Some w) opts = Inr (Some s)" "d \<in> set (Decls s)"
  shows "\<exists>a b. ShSource s = a @ DSource d @ b"
proof -
  let ?o = "if Generator opts = [] then opts\<lparr>Generator := ''mochi pkg lock''\<rparr> else opts"
  obtain tx where t: "emit_groups group_order (sort_stable item_less (Items w)) = Some (tx, Decls s)"
      "ShSource s = (if Header ?o then writeHeader w ?o else []) @ tx
         @ (if IncludeSkipReport ?o then writeSkipReport w else [])"
    using assms(1) by (auto simp: EmitShim_def Let_def split: if_splits option.splits)
  show ?thesis unfolding t(2) by (rule in_text [OF emit_groups_text [OF t(1) assms(2)]])
qed

text \<open>
  C35. From a package surface to its Mochi shim: for a package whose name is a Python identifier both
  phases succeed; the shim declares every item of the wrapper exactly once, with the item's name and
  type and the declaration kind of its shape, records first, then interfaces, constants and
  functions, each group by source name; every declaration is part of the source, and the recorded
  digest is the digest of that source.
\<close>

theorem bridge_declares:
  assumes "pkg \<noteq> []" "isValidPyIdent pkg"
  shows "\<exists>w s. Synthesise ip pkg (Some sf) wopts = Inr (Some w)
    \<and> EmitShim sha256_hex (Some w) opts = Inr (Some s)
    \<and> list_all2 declares (Decls s) (shim_order w) \<and> mset (shim_order w) = mset (Items w)
    \<and> length (Decls s) = length (accepted_names ip wopts sf)
    \<and> (\<forall>d \<in> set (Decls s). \<exists>a b. ShSource s = a @ DSource d @ b)
    \<and> SHA256 s = sha256_hex (ShSource s)"
proof -
  from Synthesise_facts [OF assms, of ip sf wopts] obtain w where w:
    "Synthesise ip pkg (Some sf) wopts = Inr (Some w)" "WPackage w = pkg" "\<forall>it \<in> set (Items w). item_ok it"
    "mset (map SourceName (Items w)) = image_mset (\<lambda>n. pkg @ ''.'' @ n) (mset (accepted_names ip wopts sf))" by blast
  from EmitShim_Some [of w sha256_hex opts] w assms(1) obtain s where s:
    "EmitShim sha256_hex (Some w) opts = Inr (Some s)" "list_all2 declares (Decls s) (shim_order w)"
    "SHA256 s = sha256_hex (ShSource s)" by blast
  have "length (Items w) = length (accepted_names ip wopts sf)"
    using w(4) by (metis length_map size_image_mset size_mset)
  moreover have "length (Decls s) = length (Items w)"
    using list_all2_lengthD [OF s(2)] shim_order_mset [of w] by (metis size_mset)
  ultimately show ?thesis
    using w s shim_order_mset [of w] EmitShim_text [OF s(1)]
    by (intro exI [of _ w] exI [of _ s]) simp
qed

lemma bridge_declares_witness:
  "\<exists>w s. Synthesise (\<lambda>_. True) ''web'' (Some sample_surface) sample_opts = Inr (Some w)
     \<and> EmitShim rev (Some w) DefaultOptions = Inr (Some s) \<and> length (Decls s) = 2"
proof -
  have "accepted_names (\<lambda>_. True) sample_opts sample_surface = [''P'', ''fetch'']" "isValidPyIdent ''web''"
    by code_simp+
  then show ?thesis
    using bridge_declares [of "''web''" "\<lambda>_. True" sample_surface sample_opts rev DefaultOptions] by force
qed

end
