(* ===== verification/Lockfile_Diff.thy ===== *)
theory Lockfile_Diff
  imports Lockfile
begin

section \<open>Lock file drift (lockfile/diff.go)\<close>

text \<open>
  The comparison of the manifest on disk with a freshly planned one.  A Go map keyed by
  \<open>name:alias\<close> is an association list with distinct keys; its iteration order does not matter, as
  the merged keys are sorted.
\<close>

datatype DiffKind = DiffAdded | DiffRemoved | DiffChanged

fun DiffKind_String :: "DiffKind \<Rightarrow> bytes" where
  "DiffKind_String DiffAdded = ''added''"
| "DiffKind_String DiffRemoved = ''removed''"
| "DiffKind_String DiffChanged = ''changed''"

record DiffEntry =
  DfKind :: DiffKind
  DfKey :: bytes
  DfOld :: "Entry option"
  DfNew :: "Entry option"
  DfFields :: "bytes list"

definition DiffEntry_String :: "DiffEntry \<Rightarrow> bytes" where
  "DiffEntry_String de =
    (if DfFields de \<noteq> [] then DiffKind_String (DfKind de) @ '' '' @ DfKey de @ '' ('' @ join '','' (DfFields de) @ '')''
     else DiffKind_String (DfKind de) @ '' '' @ DfKey de)"

definition Diff_String :: "DiffEntry list \<Rightarrow> bytes" where
  "Diff_String d = join nl (map DiffEntry_String d)"

definition entry_key :: "Entry \<Rightarrow> bytes" where
  "entry_key e = EName e @ '':'' @ EAlias e"

definition indexByKey :: "Manifest \<Rightarrow> (bytes \<times> Entry) list" where
  "indexByKey m = fold (\<lambda>e idx. AList.update (entry_key e) e idx) (Entries m) []"

definition mergedKeys :: "(bytes \<times> Entry) list \<Rightarrow> (bytes \<times> Entry) list \<Rightarrow> bytes list" where
  "mergedKeys a b = sort_strings (remdups (map fst a @ map fst b))"

fun stringSliceEqual :: "bytes list \<Rightarrow> bytes list \<Rightarrow> bool" where
  "stringSliceEqual [] [] = True"
| "stringSliceEqual (a # as) (b # bs) = (if length as \<noteq> length bs then False else a = b \<and> stringSliceEqual as bs)"
| "stringSliceEqual _ _ = False"

definition entryFieldDiff :: "Entry \<Rightarrow> Entry \<Rightarrow> bytes list" where
  "entryFieldDiff a b =
     (if ESource a \<noteq> ESource b then [''source''] else [])
     @ (if EVersion a \<noteq> EVersion b then [''version''] else [])
     @ (if ESpecifier a \<noteq> ESpecifier b then [''specifier''] else [])
     @ (if IndexURL a \<noteq> IndexURL b then [''index-url''] else [])
     @ (if GitURL a \<noteq> GitURL b then [''git-url''] else [])
     @ (if GitRev a \<noteq> GitRev b then [''git-rev''] else [])
     @ (if LocalPath a \<noteq> LocalPath b then [''local-path''] else [])
     @ (if WrapperSHA256 a \<noteq> WrapperSHA256 b then [''wrapper-sha256''] else [])
     @ (if \<not> stringSliceEqual (Capabilities a) (Capabilities b) then [''capabilities''] else [])"

text \<open>The body of the loop over the merged keys.\<close>

definition diff_key :: "(bytes \<times> Entry) list \<Rightarrow> (bytes \<times> Entry) list \<Rightarrow> bytes \<Rightarrow> DiffEntry list" where
  "diff_key keyOld keyNew k =
    (case (map_of keyOld k, map_of keyNew k) of
       (Some old, Some new) \<Rightarrow>
         (let fields = entryFieldDiff old new in
          if fields \<noteq> [] then
            [\<lparr>DfKind = DiffChanged, DfKey = k, DfOld = Some old, DfNew = Some new, DfFields = fields\<rparr>]
          else [])
     | (None, Some new) \<Rightarrow> [\<lparr>DfKind = DiffAdded, DfKey = k, DfOld = None, DfNew = Some new, DfFields = []\<rparr>]
     | (Some old, None) \<Rightarrow> [\<lparr>DfKind = DiffRemoved, DfKey = k, DfOld = Some old, DfNew = None, DfFields = []\<rparr>]
     | (None, None) \<Rightarrow> [])"

definition CompareManifests :: "Manifest \<Rightarrow> Manifest \<Rightarrow> DiffEntry list" where
  "CompareManifests old new =
    (let keyOld = indexByKey old; keyNew = indexByKey new
     in concat (map (diff_key keyOld keyNew) (mergedKeys keyOld keyNew)))"

definition Check :: "Manifest \<Rightarrow> Manifest \<Rightarrow> bytes option" where
  "Check old new =
    (let d = CompareManifests old new in
     if d = [] then None else Some (''lockfile drift:'' @ nl @ Diff_String d))"

subsection \<open>What the index holds\<close>

lemma stringSliceEqual_iff: "stringSliceEqual as bs \<longleftrightarrow> as = bs"
  by (induction as bs rule: stringSliceEqual.induct) auto

lemma map_of_fold_update:
  "map_of (fold (\<lambda>e idx. AList.update (f e) e idx) es idx) = map_of idx ++ map_of (map (\<lambda>e. (f e, e)) (rev es))"
proof (induction es arbitrary: idx)
  case (Cons e es)
  show ?case unfolding fold_Cons comp_def Cons.IH
    by (auto simp: update_conv' map_add_def fun_eq_iff split: option.split)
qed simp

lemma map_of_index: "map_of (indexByKey m) = map_of (map (\<lambda>e. (entry_key e, e)) (rev (Entries m)))"
  by (simp add: indexByKey_def map_of_fold_update)

lemma index_unique:
  assumes "distinct (map entry_key (Entries m))"
  shows "map_of (indexByKey m) k = Some e \<longleftrightarrow> e \<in> set (Entries m) \<and> entry_key e = k"
proof -
  have "distinct (map fst (map (\<lambda>e. (entry_key e, e)) (rev (Entries m))))"
    using assms by (simp add: comp_def rev_map [symmetric])
  from map_of_eq_Some_iff [OF this] show ?thesis unfolding map_of_index by auto
qed

lemma index_dom: "k \<in> set (map fst (indexByKey m)) \<longleftrightarrow> k \<in> set (map entry_key (Entries m))"
proof -
  have "k \<in> set (map fst (indexByKey m)) \<longleftrightarrow> map_of (indexByKey m) k \<noteq> None"
    by (simp add: map_of_eq_None_iff)
  also have "\<dots> \<longleftrightarrow> k \<in> set (map entry_key (Entries m))"
    unfolding map_of_index by (auto simp: map_of_eq_None_iff image_iff)
  finally show ?thesis .
qed

lemma entryFieldDiff_same:
  "entryFieldDiff a b = [] \<Longrightarrow> EName a = EName b \<Longrightarrow> EAlias a = EAlias b \<Longrightarrow> a = b"
  by (auto simp: entryFieldDiff_def stringSliceEqual_iff split: if_splits)

lemma entryFieldDiff_refl [simp]: "entryFieldDiff a a = []"
  by (simp add: entryFieldDiff_def stringSliceEqual_iff)

lemma entryFieldDiff_sym: "entryFieldDiff a b = entryFieldDiff b a"
  by (simp add: entryFieldDiff_def stringSliceEqual_iff eq_commute)

text \<open>Without a colon in the names a key determines name and alias.\<close>

definition plain_names :: "Manifest \<Rightarrow> bool" where
  "plain_names m \<longleftrightarrow> (\<forall>e \<in> set (Entries m). CHR '':'' \<notin> set (EName e))"

lemma entry_key_inj:
  assumes "entry_key a = entry_key b" "CHR '':'' \<notin> set (EName a)" "CHR '':'' \<notin> set (EName b)"
  shows "EName a = EName b \<and> EAlias a = EAlias b"
proof -
  have "split_on CHR '':'' (EName a @ CHR '':'' # EAlias a) = split_on CHR '':'' (EName b @ CHR '':'' # EAlias b)"
    using assms(1) by (simp add: entry_key_def)
  then have "EName a = EName b" using assms(2,3) by simp
  then show ?thesis using assms(1) by (simp add: entry_key_def)
qed

lemma diff_key_Nil:
  "diff_key a b k = [] \<longleftrightarrow>
     (case (map_of a k, map_of b k) of
        (Some x, Some y) \<Rightarrow> entryFieldDiff x y = [] | (None, None) \<Rightarrow> True | _ \<Rightarrow> False)"
  by (auto simp: diff_key_def Let_def split: option.split)

lemma Compare_Nil:
  "CompareManifests old new = [] \<longleftrightarrow> (\<forall>k. diff_key (indexByKey old) (indexByKey new) k = [])"
proof -
  have "diff_key (indexByKey old) (indexByKey new) k = []"
    if "k \<notin> set (mergedKeys (indexByKey old) (indexByKey new))" for k
  proof -
    have "map_of (indexByKey old) k = None" "map_of (indexByKey new) k = None"
      using that by (simp_all add: mergedKeys_def sort_strings_def map_of_eq_None_iff)
    then show ?thesis by (simp add: diff_key_Nil)
  qed
  then show ?thesis by (auto simp: CompareManifests_def Let_def)
qed

lemma Compare_empty:
  assumes "plain_names old" "plain_names new"
    and "distinct (map entry_key (Entries old))" "distinct (map entry_key (Entries new))"
  shows "CompareManifests old new = [] \<longleftrightarrow> set (Entries old) = set (Entries new)"
proof -
  note io = index_unique [OF assms(3)] and inw = index_unique [OF assms(4)]
  have same: "x = y" if "x \<in> set (Entries old)" "y \<in> set (Entries new)" "entry_key x = entry_key y"
      "entryFieldDiff x y = []" for x y
    using that entry_key_inj [OF that(3)] assms(1,2) entryFieldDiff_same [of x y] by (auto simp: plain_names_def)
  show ?thesis
  proof
    assume "CompareManifests old new = []"
    then have d: "diff_key (indexByKey old) (indexByKey new) k = []" for k by (simp add: Compare_Nil)
    show "set (Entries old) = set (Entries new)"
    proof (intro set_eqI iffI)
      fix e assume e: "e \<in> set (Entries old)"
      then have "map_of (indexByKey old) (entry_key e) = Some e" by (simp add: io)
      with d [of "entry_key e"] obtain y where "map_of (indexByKey new) (entry_key e) = Some y" "entryFieldDiff e y = []"
        by (auto simp: diff_key_Nil split: option.splits)
      then show "e \<in> set (Entries new)" using same [of e y] e by (auto simp: inw)
    next
      fix e assume e: "e \<in> set (Entries new)"
      then have "map_of (indexByKey new) (entry_key e) = Some e" by (simp add: inw)
      with d [of "entry_key e"] obtain y where "map_of (indexByKey old) (entry_key e) = Some y" "entryFieldDiff y e = []"
        by (auto simp: diff_key_Nil split: option.splits)
      then show "e \<in> set (Entries old)" using same [of y e] e by (auto simp: io)
    qed
  next
    assume eq: "set (Entries old) = set (Entries new)"
    have "map_of (indexByKey old) = map_of (indexByKey new)"
    proof
      fix k show "map_of (indexByKey old) k = map_of (indexByKey new) k"
        using io [of k] inw [of k] eq by (cases "map_of (indexByKey old) k"; cases "map_of (indexByKey new) k") auto
    qed
    then show "CompareManifests old new = []" by (auto simp: Compare_Nil diff_key_Nil split: option.split)
  qed
qed

text \<open>Swapping the manifests swaps additions and removals and turns every change around.\<close>

definition flip :: "DiffEntry \<Rightarrow> DiffEntry" where
  "flip de =
    \<lparr>DfKind = (case DfKind de of DiffAdded \<Rightarrow> DiffRemoved | DiffRemoved \<Rightarrow> DiffAdded | DiffChanged \<Rightarrow> DiffChanged),
     DfKey = DfKey de, DfOld = DfNew de, DfNew = DfOld de, DfFields = DfFields de\<rparr>"

lemma diff_key_flip: "diff_key b a k = map flip (diff_key a b k)"
  using entryFieldDiff_sym by (auto simp: diff_key_def flip_def Let_def split: option.split)

lemma Compare_flip: "CompareManifests new old = map flip (CompareManifests old new)"
proof -
  have "mergedKeys a b = mergedKeys b a" for a b
    unfolding mergedKeys_def sort_strings_def by (rule sorted_distinct_set_unique) auto
  then have "mergedKeys (indexByKey new) (indexByKey old) = mergedKeys (indexByKey old) (indexByKey new)" .
  moreover have "diff_key (indexByKey new) (indexByKey old) = (\<lambda>k. map flip (diff_key (indexByKey old) (indexByKey new) k))"
    by (rule ext) (rule diff_key_flip)
  ultimately show ?thesis by (simp add: CompareManifests_def Let_def map_concat comp_def)
qed

lemma Compare_sorted: "sorted (map DfKey (CompareManifests old new))
    \<and> distinct (map DfKey (CompareManifests old new))"
proof -
  have one: "diff_key a b k = [] \<or> (\<exists>de. diff_key a b k = [de] \<and> DfKey de = k)" for a b k
    by (auto simp: diff_key_def Let_def split: option.split)
  have "sorted ks \<Longrightarrow> distinct ks \<Longrightarrow>
      sorted (map DfKey (concat (map (diff_key a b) ks))) \<and> distinct (map DfKey (concat (map (diff_key a b) ks)))
      \<and> set (map DfKey (concat (map (diff_key a b) ks))) \<subseteq> set ks" for a b ks
  proof (induction ks)
    case (Cons k ks)
    then show ?case using one [of a b k] by (fastforce simp: image_subset_iff)
  qed simp
  moreover have "sorted (mergedKeys (indexByKey old) (indexByKey new))"
    "distinct (mergedKeys (indexByKey old) (indexByKey new))" by (simp_all add: mergedKeys_def sort_strings_def)
  ultimately show ?thesis unfolding CompareManifests_def Let_def by blast
qed

subsection \<open>Checking a lock file\<close>

lemma distinct_perm: "mset (Entries a) = mset (Entries b) \<Longrightarrow>
    distinct (map entry_key (Entries a)) \<Longrightarrow> distinct (map entry_key (Entries b))"
  by (metis mset_eq_imp_distinct_iff mset_map)

text \<open>
  The drift check after a lock: the lock file written for a manifest reads back, and checking it
  against a freshly planned manifest reports no drift exactly when the planned entries are, as a
  set, the entries that were locked.  The hypotheses are that no name holds a colon and that no two
  entries of a manifest share name and alias, besides those of the round trip.
\<close>

theorem Check_after_lock:
  assumes "MVersion m \<in> {0, 1}" "list_all entry_ok (Entries m)"
    and "plain_names m" "distinct (map entry_key (Entries m))"
    and "plain_names m'" "distinct (map entry_key (Entries m'))"
  shows "\<exists>l. ParseTOML float_ok (fst (RenderTOML is_print m)) = Inr l
    \<and> (Check l m' = None \<longleftrightarrow> set (Entries m') = set (Entries m))"
proof -
  let ?l = "\<lparr>MVersion = 1, Entries = sort_stable entry_less (Entries m)\<rparr>"
  have p: "plain_names ?l" using assms(3) by (simp add: plain_names_def)
  have d: "distinct (map entry_key (Entries ?l))" using distinct_perm [of m ?l] assms(4) by simp
  have set: "set (Entries ?l) = set (Entries m)" by simp
  have c: "Check ?l m' = None \<longleftrightarrow> CompareManifests ?l m' = []" by (simp add: Check_def Let_def)
  show ?thesis
    by (intro exI [of _ ?l] conjI lock_read [OF assms(1,2)])
      (simp only: c Compare_empty [OF p assms(5) d assms(6)] set eq_commute [of "set (Entries m')"])
qed

lemma Check_after_lock_witness:
  "\<exists>l. ParseTOML (\<lambda>_. True) (fst (RenderTOML (\<lambda>_. True) \<lparr>MVersion = 0, Entries = [sample_entry ''b'', sample_entry ''a'']\<rparr>)) = Inr l
    \<and> Check l \<lparr>MVersion = 1, Entries = [sample_entry ''a'', sample_entry ''b'']\<rparr> = None"
proof -
  let ?m = "\<lparr>MVersion = 0, Entries = [sample_entry ''b'', sample_entry ''a'']\<rparr>"
  let ?p = "\<lparr>MVersion = 1, Entries = [sample_entry ''a'', sample_entry ''b'']\<rparr>"
  have v: "MVersion ?m \<in> {0, 1}" by simp
  have ok: "list_all entry_ok (Entries ?m)" by code_simp
  have n: "plain_names ?m" "plain_names ?p" by (simp_all add: plain_names_def sample_entry_def)
  have d: "distinct (map entry_key (Entries ?m))" "distinct (map entry_key (Entries ?p))"
    by (simp_all add: entry_key_def sample_entry_def)
  have eq: "set (Entries ?p) = set (Entries ?m)" by (simp add: insert_commute)
  from Check_after_lock [OF v ok n(1) d(1) n(2) d(2), of "\<lambda>_. True" "\<lambda>_. True"] eq show ?thesis
    by blast
qed

text \<open>With a colon in a name two different entries share a key, and the drift between them is not seen.\<close>

lemma colon_drift_missed:
  "Check \<lparr>MVersion = 1, Entries = [(sample_entry ''x'')\<lparr>EName := ''a:b'', EAlias := ''c''\<rparr>]\<rparr>
         \<lparr>MVersion = 1, Entries = [(sample_entry ''x'')\<lparr>EName := ''a'', EAlias := ''b:c''\<rparr>]\<rparr> = None"
  by code_simp

end
