(* ===== verification/Lockfile_Capabilities.thy ===== *)
theory Lockfile_Capabilities
  imports Lockfile Wrapper
begin

section \<open>The capability list of a lock file entry (lockfile/capabilities.go)\<close>

text \<open>
  The tokens a wrapper's items contribute.  The set the code collects in a Go map is the list of
  tokens in the order of the walk; keys of a Go map are distinct, which is \<open>remdups\<close>, and the
  result is sorted.  The walk is compared with the inductive relation of the types it reaches.
\<close>

definition vocabulary :: "bytes list" where
  "vocabulary =
    [''async'', ''dataclass'', ''protocol'', ''callable'', ''stream'', ''map'', ''set'', ''list'',
     ''optional'', ''sum'', ''tuple'', ''constant'', ''typevar'']"

fun walkMochiType :: "MochiType \<Rightarrow> bytes list"
  and walk_field :: "MochiField \<Rightarrow> bytes list"
  and walk_method :: "MochiMethod \<Rightarrow> bytes list" where
  "walkMochiType (MType k name ps fs ms) =
    (let walkParams = concat (map walkMochiType ps) in
     case k of
       KindList \<Rightarrow> ''list'' # walkParams
     | KindSet \<Rightarrow> ''set'' # walkParams
     | KindMap \<Rightarrow> ''map'' # walkParams
     | KindOptional \<Rightarrow> ''optional'' # walkParams
     | KindSum \<Rightarrow> ''sum'' # walkParams
     | KindTuple \<Rightarrow> ''tuple'' # walkParams
     | KindFun \<Rightarrow> ''callable'' # walkParams
     | KindAsync \<Rightarrow> ''async'' # walkParams
     | KindStream \<Rightarrow> ''stream'' # walkParams
     | KindRecord \<Rightarrow> ''dataclass'' # concat (map walk_field fs)
     | KindInterface \<Rightarrow> ''protocol'' # concat (map walk_method ms)
     | KindTypeVar \<Rightarrow> [''typevar'']
     | _ \<Rightarrow> [])"
| "walk_field (MField n t) = walkMochiType t"
| "walk_method (MMethod n ps r async) =
    (if async then [''async''] else []) @ concat (map walkMochiType ps) @ walkMochiType r"

definition item_tokens :: "Item \<Rightarrow> bytes list" where
  "item_tokens it =
    (if IIsAsync it then [''async''] else [])
    @ (case IKind it of
         ItemRecord \<Rightarrow> [''dataclass''] | ItemInterface \<Rightarrow> [''protocol''] | ItemConstant \<Rightarrow> [''constant'']
       | ItemFunc \<Rightarrow> [])
    @ walkMochiType (IType it)"

definition ExtractCapabilities :: "Wrapper option \<Rightarrow> bytes list" where
  "ExtractCapabilities wp =
    (case wp of
       None \<Rightarrow> []
     | Some w \<Rightarrow> sort_strings (remdups (concat (map item_tokens (Items w)))))"

subsection \<open>The types a walk reaches\<close>

text \<open>
  A type reaches itself; a container reaches what its parameters reach, a record what its fields
  reach, an interface what the parameters and results of its methods reach.
\<close>

definition container :: "Kind \<Rightarrow> bool" where
  "container k \<longleftrightarrow> k \<in> {KindList, KindSet, KindMap, KindOptional, KindSum, KindTuple, KindFun, KindAsync, KindStream}"

inductive reaches :: "MochiType \<Rightarrow> MochiType \<Rightarrow> bool" where
  itself: "reaches t t"
| through_param: "container k \<Longrightarrow> p \<in> set ps \<Longrightarrow> reaches p u \<Longrightarrow> reaches (MType k n ps fs ms) u"
| through_field: "MField fn t \<in> set fs \<Longrightarrow> reaches t u \<Longrightarrow> reaches (MType KindRecord n ps fs ms) u"
| through_method_param:
    "MMethod mn qs r a \<in> set ms \<Longrightarrow> q \<in> set qs \<Longrightarrow> reaches q u \<Longrightarrow> reaches (MType KindInterface n ps fs ms) u"
| through_method_result:
    "MMethod mn qs r a \<in> set ms \<Longrightarrow> reaches r u \<Longrightarrow> reaches (MType KindInterface n ps fs ms) u"

inductive_simps reaches_simps: "reaches (MType k n ps fs ms) u"

text \<open>The tokens a reached type stands for.\<close>

fun own_tokens :: "MochiType \<Rightarrow> bytes set" where
  "own_tokens (MType k n ps fs ms) =
    (case k of
       KindList \<Rightarrow> {''list''} | KindSet \<Rightarrow> {''set''} | KindMap \<Rightarrow> {''map''} | KindOptional \<Rightarrow> {''optional''}
     | KindSum \<Rightarrow> {''sum''} | KindTuple \<Rightarrow> {''tuple''} | KindFun \<Rightarrow> {''callable''} | KindAsync \<Rightarrow> {''async''}
     | KindStream \<Rightarrow> {''stream''} | KindRecord \<Rightarrow> {''dataclass''} | KindTypeVar \<Rightarrow> {''typevar''}
     | KindInterface \<Rightarrow> insert ''protocol'' (if list_ex MethAsync ms then {''async''} else {})
     | _ \<Rightarrow> {})"

definition reached_tokens :: "MochiType \<Rightarrow> bytes set" where
  "reached_tokens t = (\<Union>u \<in> {u. reaches t u}. own_tokens u)"

lemma container_kinds [simp]:
  "container KindList" "container KindSet" "container KindMap" "container KindOptional"
  "container KindSum" "container KindTuple" "container KindFun" "container KindAsync"
  "container KindStream" "\<not> container KindRecord" "\<not> container KindInterface"
  "\<not> container KindScalar" "\<not> container KindRef" "\<not> container KindTypeVar" "\<not> container KindUnknown"
  by (simp_all add: container_def)

lemma reached_container: "container k \<Longrightarrow>
    reached_tokens (MType k n ps fs ms) = own_tokens (MType k n ps fs ms) \<union> (\<Union>p \<in> set ps. reached_tokens p)"
proof -
  assume k: "container k"
  then have "k \<noteq> KindRecord" "k \<noteq> KindInterface" by auto
  then have "{u. reaches (MType k n ps fs ms) u} = insert (MType k n ps fs ms) (\<Union>p \<in> set ps. {u. reaches p u})"
    using k by (auto simp: reaches_simps)
  then show ?thesis by (auto simp: reached_tokens_def)
qed

lemma reached_record:
    "reached_tokens (MType KindRecord n ps fs ms) = {''dataclass''} \<union> (\<Union>f \<in> set fs. reached_tokens (FType f))"
proof -
  have "{u. reaches (MType KindRecord n ps fs ms) u}
      = insert (MType KindRecord n ps fs ms) (\<Union>f \<in> set fs. {u. reaches (FType f) u})"
    by (auto simp: reaches_simps) (metis MochiField.exhaust_sel)
  then show ?thesis by (simp add: reached_tokens_def)
qed

lemma reached_interface:
    "reached_tokens (MType KindInterface n ps fs ms) = own_tokens (MType KindInterface n ps fs ms)
       \<union> (\<Union>m \<in> set ms. (\<Union>p \<in> set (MethParams m). reached_tokens p) \<union> reached_tokens (MethReturn m))"
proof -
  have "{u. reaches (MType KindInterface n ps fs ms) u}
      = insert (MType KindInterface n ps fs ms)
          (\<Union>m \<in> set ms. (\<Union>p \<in> set (MethParams m). {u. reaches p u}) \<union> {u. reaches (MethReturn m) u})"
    by (auto simp: reaches_simps)
      (metis MochiMethod.exhaust_sel MochiMethod.sel(2,3))+
  then show ?thesis by (auto simp: reached_tokens_def)
qed

lemma reached_leaf: "\<not> container k \<Longrightarrow> k \<noteq> KindRecord \<Longrightarrow> k \<noteq> KindInterface \<Longrightarrow>
    reached_tokens (MType k n ps fs ms) = own_tokens (MType k n ps fs ms)"
  by (auto simp: reached_tokens_def reaches_simps)

lemma walk_reaches:
  "set (walkMochiType t) = reached_tokens t"
  "set (walk_field f) = reached_tokens (FType f)"
  "set (walk_method m) = (if MethAsync m then {''async''} else {})
     \<union> (\<Union>p \<in> set (MethParams m). reached_tokens p) \<union> reached_tokens (MethReturn m)"
proof (induction t and f and m)
  case (MType k name ps fs ms)
  consider "container k" | "k = KindRecord" | "k = KindInterface"
    | "\<not> container k" "k \<noteq> KindRecord" "k \<noteq> KindInterface" by blast
  then show ?case
  proof cases
    case 1
    then show ?thesis using MType.IH(1)
      by (cases k) (simp_all add: reached_container)
  next
    case 2
    then show ?thesis using MType.IH(2) by (simp add: reached_record)
  next
    case 3
    then show ?thesis using MType.IH(3) by (auto simp: reached_interface list_ex_iff split: if_splits)
  next
    case 4
    then show ?thesis by (cases k) (simp_all add: reached_leaf)
  qed
qed auto

lemma own_tokens_vocabulary: "own_tokens t \<subseteq> set vocabulary"
  by (cases t; cases "MKind t") (auto simp: vocabulary_def)

lemma reached_tokens_vocabulary: "reached_tokens t \<subseteq> set vocabulary"
  using own_tokens_vocabulary by (fastforce simp: reached_tokens_def)

text \<open>The token of an item's own kind.\<close>

definition kind_tokens :: "ItemKind \<Rightarrow> bytes set" where
  "kind_tokens k =
    (case k of ItemRecord \<Rightarrow> {''dataclass''} | ItemInterface \<Rightarrow> {''protocol''} | ItemConstant \<Rightarrow> {''constant''}
     | ItemFunc \<Rightarrow> {})"

lemma set_item_tokens:
  "set (item_tokens it) = (if IIsAsync it then {''async''} else {}) \<union> kind_tokens (IKind it) \<union> reached_tokens (IType it)"
  by (cases "IKind it") (auto simp: item_tokens_def kind_tokens_def walk_reaches)

lemma set_capabilities: "set (ExtractCapabilities (Some w)) = (\<Union>it \<in> set (Items w). set (item_tokens it))"
  by (simp add: ExtractCapabilities_def sort_strings_def)

lemma capabilities_in_vocabulary: "set (ExtractCapabilities (Some w)) \<subseteq> set vocabulary"
proof -
  have "set (item_tokens it) \<subseteq> set vocabulary" for it
  proof -
    have "kind_tokens (IKind it) \<subseteq> set vocabulary" "''async'' \<in> set vocabulary"
      by (auto simp: kind_tokens_def vocabulary_def split: ItemKind.split)
    then show ?thesis using reached_tokens_vocabulary [of "IType it"] by (auto simp: set_item_tokens)
  qed
  then show ?thesis unfolding set_capabilities by blast
qed

text \<open>
  C36. The capability list is canonical and exact: sorted, without repetition, within the closed
  vocabulary, and a token is in it exactly when some item is asynchronous, is of the token's kind,
  or has a type from which a type of the token's shape is reached through containers, record fields
  and interface signatures.
\<close>

theorem ExtractCapabilities_exact:
  "sorted (ExtractCapabilities (Some w)) \<and> distinct (ExtractCapabilities (Some w))
   \<and> set (ExtractCapabilities (Some w)) \<subseteq> set vocabulary
   \<and> set (ExtractCapabilities (Some w)) =
       (\<Union>it \<in> set (Items w). (if IIsAsync it then {''async''} else {}) \<union> kind_tokens (IKind it)
          \<union> (\<Union>u \<in> {u. reaches (IType it) u}. own_tokens u))"
proof -
  have "sorted (ExtractCapabilities (Some w)) \<and> distinct (ExtractCapabilities (Some w))"
    by (simp add: ExtractCapabilities_def sort_strings_def)
  then show ?thesis
    using capabilities_in_vocabulary [of w] unfolding set_capabilities set_item_tokens reached_tokens_def by blast
qed

text \<open>
  The comment of \<open>ExtractCapabilities\<close> says that scalars, records and functions give the empty
  list; a single function already gives the token for callables.
\<close>

lemma function_is_callable:
  "ExtractCapabilities (Some (new_wrapper ''p'' sample_opts
     ([\<lparr>IName = ''f'', SourceName = ''p.f'', IKind = ItemFunc, IType = NewFun (NewScalar ''int'') [],
        IIsAsync = False, ILoop = EventLoopPerCall\<rparr>], []))) = [''callable'']"
  by code_simp

end
