(* ===== verification/Attest.thy ===== *)
theory Attest
  imports Go_Sort
begin

section \<open>Verification of attestations (attest/)\<close>

text \<open>
  The install gate: the bundle published beside a wheel, the in-toto statement inside, and the policy
  that accepts or rejects it.  An error is its text.  The JSON decoders of the two envelopes
  (\<open>json.Unmarshal\<close> into the structs), the base64 decoder, the fetcher and the identity extractor
  are parameters; what the code does with their results is modelled.  The predicate of a statement
  stays a JSON value.  Time and network context are left out, and the gate checks no signature: the
  code leaves that to a later phase.
\<close>

subsection \<open>Statements (statement.go)\<close>

datatype json = JNull | JBool bool | JNum bytes | JStr bytes | JArr "json list" | JObj "(bytes \<times> json) list"

definition StatementTypeV1 :: bytes where
  "StatementTypeV1 = ''https://in-toto.io/Statement/v1''"

definition PredicateTypeSLSAV1 :: bytes where
  "PredicateTypeSLSAV1 = ''https://slsa.dev/provenance/v1''"

record Subject =
  SubName :: bytes
  SubDigest :: "(bytes \<times> bytes) list"

record Statement =
  StType :: bytes
  StPredicateType :: bytes
  StSubject :: "Subject list"
  StPredicate :: "(bytes \<times> json) list"

text \<open>A read of a Go map of strings: an absent key reads as the empty string.\<close>

definition get :: "(bytes \<times> bytes) list \<Rightarrow> bytes \<Rightarrow> bytes" where
  "get d k = (case map_of d k of None \<Rightarrow> [] | Some v \<Rightarrow> v)"

fun check_subjects :: "(int \<Rightarrow> bool) \<Rightarrow> nat \<Rightarrow> Subject list \<Rightarrow> bytes option" where
  "check_subjects ip i [] = None"
| "check_subjects ip i (s # ss) =
    (if SubName s = [] then Some (''attest: statement subject '' @ itoa (int i) @ '' missing name'')
     else if get (SubDigest s) ''sha256'' = [] then
       Some (''attest: statement subject '' @ quote ip (SubName s) @ '' missing sha256 digest'')
     else check_subjects ip (Suc i) ss)"

definition ParseStatement ::
  "(int \<Rightarrow> bool) \<Rightarrow> (bytes \<Rightarrow> bytes + Statement) \<Rightarrow> bytes \<Rightarrow> bytes + Statement" where
  "ParseStatement ip unmarshal raw =
    (case unmarshal raw of
       Inl e \<Rightarrow> Inl (''attest: decode statement: '' @ e)
     | Inr s \<Rightarrow>
         if StType s = [] then Inl ''attest: statement missing _type''
         else if StPredicateType s = [] then Inl ''attest: statement missing predicateType''
         else if StSubject s = [] then Inl ''attest: statement has no subjects''
         else case check_subjects ip 0 (StSubject s) of Some e \<Rightarrow> Inl e | None \<Rightarrow> Inr s)"

definition as_object :: "json option \<Rightarrow> (bytes \<times> json) list option" where
  "as_object v = (case v of Some (JObj o') \<Rightarrow> Some o' | _ \<Rightarrow> None)"

definition BuilderID :: "Statement \<Rightarrow> bytes" where
  "BuilderID s =
    (case as_object (map_of (StPredicate s) ''runDetails'') of
       None \<Rightarrow> []
     | Some rd \<Rightarrow>
         (case as_object (map_of rd ''builder'') of
            None \<Rightarrow> []
          | Some b \<Rightarrow> (case map_of b ''id'' of Some (JStr v) \<Rightarrow> v | _ \<Rightarrow> [])))"

definition SubjectByName :: "Statement \<Rightarrow> bytes \<Rightarrow> Subject option" where
  "SubjectByName s name = find (\<lambda>x. SubName x = name) (StSubject s)"

subsection \<open>Bundles (bundle.go)\<close>

definition BundleMediaTypeV2 :: bytes where
  "BundleMediaTypeV2 = ''application/vnd.dev.sigstore.bundle.v0.3+json''"

definition DSSEPayloadTypeInTotoJSON :: bytes where
  "DSSEPayloadTypeInTotoJSON = ''application/vnd.in-toto+json''"

record Signature =
  Sig :: bytes
  Keyid :: bytes

record DSSEEnvelope =
  Payload :: bytes
  PayloadType :: bytes
  Signatures :: "Signature list"

record TLogEntry =
  LogIndex :: bytes
  LogKeyID :: bytes
  EntryKind :: bytes
  EntryVersion :: bytes

record Bundle =
  MediaType :: bytes
  DsseEnvelope :: DSSEEnvelope
  Certificates :: "bytes list"
  TLogEntries :: "TLogEntry list"

definition ParseBundle :: "(bytes \<Rightarrow> bytes + Bundle) \<Rightarrow> bytes \<Rightarrow> bytes + Bundle" where
  "ParseBundle unmarshal raw =
    (case unmarshal raw of
       Inl e \<Rightarrow> Inl (''attest: decode bundle: '' @ e)
     | Inr b \<Rightarrow>
         if Payload (DsseEnvelope b) = [] then Inl ''attest: bundle missing dsseEnvelope.payload''
         else if PayloadType (DsseEnvelope b) = [] then Inl ''attest: bundle missing dsseEnvelope.payloadType''
         else if Signatures (DsseEnvelope b) = [] then Inl ''attest: bundle has no signatures''
         else Inr b)"

text \<open>The decoders the gate is run with.\<close>

record Decoders =
  unmarshal_bundle :: "bytes \<Rightarrow> bytes + Bundle"
  unmarshal_statement :: "bytes \<Rightarrow> bytes + Statement"
  base64_decode :: "bytes \<Rightarrow> bytes + bytes"
  is_print :: "int \<Rightarrow> bool"

definition Bundle_Statement :: "Decoders \<Rightarrow> Bundle \<Rightarrow> bytes + Statement" where
  "Bundle_Statement dec b =
    (if PayloadType (DsseEnvelope b) \<noteq> DSSEPayloadTypeInTotoJSON then
       Inl (''attest: payloadType '' @ quote (is_print dec) (PayloadType (DsseEnvelope b)) @ '' != ''
            @ quote (is_print dec) DSSEPayloadTypeInTotoJSON)
     else case base64_decode dec (Payload (DsseEnvelope b)) of
       Inl e \<Rightarrow> Inl (''attest: decode payload base64: '' @ e)
     | Inr raw \<Rightarrow> ParseStatement (is_print dec) (unmarshal_statement dec) raw)"

subsection \<open>Reports (report.go)\<close>

datatype AttestReason =
    ReasonMissingAttestation | ReasonParseFailure | ReasonUnsupportedBundleType
  | ReasonPayloadTypeMismatch | ReasonStatementTypeMismatch | ReasonPredicateTypeMismatch
  | ReasonSubjectMissing | ReasonDigestMismatch | ReasonBuilderRejected | ReasonPublisherRejected
  | ReasonSignatureNotVerified

record Report =
  RWheelURL :: bytes
  RDistribution :: bytes
  RVersion :: bytes
  RBuilderID :: bytes
  RIdentity :: bytes
  RSubject :: "Subject option"
  Violations :: "(AttestReason \<times> bytes) list"

definition Report_OK :: "Report option \<Rightarrow> bool" where
  "Report_OK r \<longleftrightarrow> (case r of None \<Rightarrow> False | Some r \<Rightarrow> Violations r = [])"

definition addViolation :: "AttestReason \<Rightarrow> bytes \<Rightarrow> Report \<Rightarrow> Report" where
  "addViolation reason message r = r\<lparr>Violations := Violations r @ [(reason, message)]\<rparr>"

subsection \<open>The policy (policy.go)\<close>

record WheelTarget =
  WURL :: bytes
  WFilename :: bytes
  WDistribution :: bytes
  WVersion :: bytes
  WSHA256 :: bytes

record Policy =
  PRequired :: bool
  AcceptedBundleTypes :: "bytes list"
  AcceptedPredicate :: bytes
  AllowedBuilders :: "bytes list"
  TrustedPublishers :: "bytes list"
  IdentityExtractor :: "(Bundle \<Rightarrow> bytes + bytes) option"

definition DefaultPolicy :: Policy where
  "DefaultPolicy = \<lparr>PRequired = False, AcceptedBundleTypes = [BundleMediaTypeV2],
     AcceptedPredicate = PredicateTypeSLSAV1, AllowedBuilders = [], TrustedPublishers = [],
     IdentityExtractor = None\<rparr>"

fun contains_string :: "bytes list \<Rightarrow> bytes \<Rightarrow> bool" where
  "contains_string [] s = False"
| "contains_string (x # xs) s = (if x = s then True else contains_string xs s)"

text \<open>The \<open>%v\<close> verb on a slice of strings.\<close>

definition fmt_slice :: "bytes list \<Rightarrow> bytes" where
  "fmt_slice xs = ''['' @ join '' '' xs @ '']''"

definition new_report :: "WheelTarget \<Rightarrow> Report" where
  "new_report target =
    \<lparr>RWheelURL = WURL target, RDistribution = WDistribution target, RVersion = WVersion target,
     RBuilderID = [], RIdentity = [], RSubject = None, Violations = []\<rparr>"

definition gate :: "Policy \<Rightarrow> Report \<Rightarrow> Report \<times> bytes option" where
  "gate p r =
    (if PRequired p \<and> \<not> Report_OK (Some r)
     then (r, Some (''attest: install rejected: '' @ itoa (int (length (Violations r))) @ '' violation(s)''))
     else (r, None))"

definition check_media :: "Decoders \<Rightarrow> Policy \<Rightarrow> Bundle \<Rightarrow> Report \<Rightarrow> Report" where
  "check_media dec p b r =
    (if AcceptedBundleTypes p \<noteq> [] \<and> \<not> contains_string (AcceptedBundleTypes p) (MediaType b)
     then addViolation ReasonUnsupportedBundleType
       (''bundle mediaType '' @ quote (is_print dec) (MediaType b) @ '' is not in the accepted set ''
        @ fmt_slice (AcceptedBundleTypes p)) r
     else r)"

definition check_type :: "Decoders \<Rightarrow> Statement \<Rightarrow> Report \<Rightarrow> Report" where
  "check_type dec st r =
    (if StType st \<noteq> StatementTypeV1 then
       addViolation ReasonStatementTypeMismatch
         (''statement _type '' @ quote (is_print dec) (StType st) @ '' != '' @ quote (is_print dec) StatementTypeV1) r
     else r)"

definition want_predicate :: "Policy \<Rightarrow> bytes" where
  "want_predicate p = (if AcceptedPredicate p = [] then PredicateTypeSLSAV1 else AcceptedPredicate p)"

definition check_predicate :: "Decoders \<Rightarrow> Policy \<Rightarrow> Statement \<Rightarrow> Report \<Rightarrow> Report" where
  "check_predicate dec p st r =
    (if StPredicateType st \<noteq> want_predicate p then
       addViolation ReasonPredicateTypeMismatch
         (''predicateType '' @ quote (is_print dec) (StPredicateType st) @ '' != ''
          @ quote (is_print dec) (want_predicate p)) r
     else r)"

definition check_subject :: "Decoders \<Rightarrow> WheelTarget \<Rightarrow> Statement \<Rightarrow> Report \<Rightarrow> Report" where
  "check_subject dec target st r =
    (case SubjectByName st (WFilename target) of
       None \<Rightarrow> addViolation ReasonSubjectMissing
                 (''no subject named '' @ quote (is_print dec) (WFilename target) @ '' in attestation'') r
     | Some sub \<Rightarrow>
         (let r = r\<lparr>RSubject := Some sub\<rparr>; got = get (SubDigest sub) ''sha256'' in
          if got \<noteq> WSHA256 target then
            addViolation ReasonDigestMismatch
              (''subject sha256 '' @ quote (is_print dec) got @ '' != target sha256 ''
               @ quote (is_print dec) (WSHA256 target)) r
          else r))"

definition check_builder :: "Decoders \<Rightarrow> Policy \<Rightarrow> Statement \<Rightarrow> Report \<Rightarrow> Report" where
  "check_builder dec p st r =
    (let builderID = BuilderID st; r = r\<lparr>RBuilderID := builderID\<rparr> in
     if AllowedBuilders p \<noteq> [] \<and> \<not> contains_string (AllowedBuilders p) builderID then
       addViolation ReasonBuilderRejected
         (''builder.id '' @ quote (is_print dec) builderID @ '' is not in the allow-list ''
          @ fmt_slice (sort_strings (AllowedBuilders p))) r
     else r)"

definition check_publisher :: "Decoders \<Rightarrow> Policy \<Rightarrow> Bundle \<Rightarrow> Report \<Rightarrow> Report" where
  "check_publisher dec p b r =
    (if TrustedPublishers p = [] then r
     else case IdentityExtractor p of
       None \<Rightarrow> addViolation ReasonSignatureNotVerified
                 ''TrustedPublishers configured but no IdentityExtractor wired'' r
     | Some extract \<Rightarrow>
         (case extract b of
            Inl e \<Rightarrow> addViolation ReasonSignatureNotVerified e r
          | Inr identity \<Rightarrow>
              (let r = r\<lparr>RIdentity := identity\<rparr> in
               if \<not> contains_string (TrustedPublishers p) identity then
                 addViolation ReasonPublisherRejected
                   (''identity '' @ quote (is_print dec) identity @ '' is not in the trusted set ''
                    @ fmt_slice (sort_strings (TrustedPublishers p))) r
               else r)))"

definition Policy_Verify :: "Decoders \<Rightarrow> Policy \<Rightarrow> Bundle option \<Rightarrow> WheelTarget \<Rightarrow> Report \<times> bytes option" where
  "Policy_Verify dec p bundle target =
    (let r = new_report target in
     case bundle of
       None \<Rightarrow> gate p (addViolation ReasonMissingAttestation ''no attestation bundle supplied'' r)
     | Some b \<Rightarrow>
         (let r = check_media dec p b r in
          if PayloadType (DsseEnvelope b) \<noteq> DSSEPayloadTypeInTotoJSON then
            gate p (addViolation ReasonPayloadTypeMismatch
              (''payloadType '' @ quote (is_print dec) (PayloadType (DsseEnvelope b)) @ '' != ''
               @ quote (is_print dec) DSSEPayloadTypeInTotoJSON) r)
          else case Bundle_Statement dec b of
            Inl e \<Rightarrow> gate p (addViolation ReasonParseFailure e r)
          | Inr st \<Rightarrow>
              gate p (check_publisher dec p b (check_builder dec p st (check_subject dec target st
                (check_predicate dec p st (check_type dec st r)))))))"

subsection \<open>Fetching and the verifier (fetcher.go, verifier.go)\<close>

datatype FetchResult = NoAttestation | FetchFailed bytes | Fetched bytes

definition StaticFetcher_Fetch :: "bytes \<Rightarrow> WheelTarget \<Rightarrow> FetchResult" where
  "StaticFetcher_Fetch bundle target = (if bundle = [] then NoAttestation else Fetched bundle)"

definition AttestationURL :: "(int \<Rightarrow> bool) \<Rightarrow> WheelTarget \<Rightarrow> bytes + bytes" where
  "AttestationURL ip target =
    (if \<not> has_suffix (WURL target) ''.whl''
     then Inl (''attest: wheel URL '' @ quote ip (WURL target) @ '' does not end in .whl'')
     else Inr (WURL target @ ''.provenance''))"

definition HTTPFetcher_Fetch :: "WheelTarget \<Rightarrow> FetchResult" where
  "HTTPFetcher_Fetch target = NoAttestation"

record Verifier =
  VPolicy :: Policy
  VFetcher :: "(WheelTarget \<Rightarrow> FetchResult) option"

definition failed_fetch :: "Policy \<Rightarrow> WheelTarget \<Rightarrow> bytes \<Rightarrow> bytes \<Rightarrow> Report option \<times> bytes option" where
  "failed_fetch p target message error =
    (Some (addViolation ReasonParseFailure message (new_report target)),
     if PRequired p then Some error else None)"

definition Verifier_Verify :: "Decoders \<Rightarrow> Verifier \<Rightarrow> WheelTarget \<Rightarrow> Report option \<times> bytes option" where
  "Verifier_Verify dec v target =
    (case VFetcher v of
       None \<Rightarrow> (None, Some ''attest: verifier missing Fetcher'')
     | Some fetch \<Rightarrow>
         (case fetch target of
            NoAttestation \<Rightarrow> map_prod Some id (Policy_Verify dec (VPolicy v) None target)
          | FetchFailed e \<Rightarrow>
              failed_fetch (VPolicy v) target (''fetch attestation: '' @ e) (''attest: fetch attestation: '' @ e)
          | Fetched raw \<Rightarrow>
              (case ParseBundle (unmarshal_bundle dec) raw of
                 Inl e \<Rightarrow> failed_fetch (VPolicy v) target e (''attest: '' @ e)
               | Inr b \<Rightarrow> map_prod Some id (Policy_Verify dec (VPolicy v) (Some b) target))))"

subsection \<open>What a clean report means\<close>

named_theorems clean "when a check leaves the report without violation"

lemma contains_string_iff: "contains_string xs s \<longleftrightarrow> s \<in> set xs"
  by (induction xs) auto

lemma add_not_clean [clean]: "Violations (addViolation reason message r) \<noteq> []"
  by (simp add: addViolation_def)

lemma new_report_clean [clean]: "Violations (new_report target) = []"
  by (simp add: new_report_def)

lemma check_media_clean [clean]:
  "Violations (check_media dec p b r) = [] \<longleftrightarrow>
    Violations r = [] \<and> (AcceptedBundleTypes p = [] \<or> MediaType b \<in> set (AcceptedBundleTypes p))"
  by (auto simp: check_media_def clean contains_string_iff)

lemma check_type_clean [clean]:
  "Violations (check_type dec st r) = [] \<longleftrightarrow> Violations r = [] \<and> StType st = StatementTypeV1"
  by (auto simp: check_type_def clean)

lemma check_predicate_clean [clean]:
  "Violations (check_predicate dec p st r) = [] \<longleftrightarrow> Violations r = [] \<and> StPredicateType st = want_predicate p"
  by (auto simp: check_predicate_def clean)

lemma check_subject_clean [clean]:
  "Violations (check_subject dec target st r) = [] \<longleftrightarrow>
    Violations r = [] \<and> (\<exists>sub. SubjectByName st (WFilename target) = Some sub
      \<and> get (SubDigest sub) ''sha256'' = WSHA256 target)"
  by (auto simp: check_subject_def clean Let_def split: option.split)

lemma check_builder_clean [clean]:
  "Violations (check_builder dec p st r) = [] \<longleftrightarrow>
    Violations r = [] \<and> (AllowedBuilders p = [] \<or> BuilderID st \<in> set (AllowedBuilders p))"
  by (auto simp: check_builder_def clean Let_def contains_string_iff)

lemma check_publisher_clean [clean]:
  "Violations (check_publisher dec p b r) = [] \<longleftrightarrow>
    Violations r = [] \<and> (TrustedPublishers p = [] \<or> (\<exists>extract identity. IdentityExtractor p = Some extract
      \<and> extract b = Inr identity \<and> identity \<in> set (TrustedPublishers p)))"
  by (auto simp: check_publisher_def clean Let_def contains_string_iff split: option.split sum.split)

text \<open>The specification of the gate: what the bundle of a wheel must attest.\<close>

definition attests :: "Decoders \<Rightarrow> Policy \<Rightarrow> WheelTarget \<Rightarrow> Bundle \<Rightarrow> bool" where
  "attests dec p target b \<longleftrightarrow>
     (AcceptedBundleTypes p = [] \<or> MediaType b \<in> set (AcceptedBundleTypes p))
     \<and> (\<exists>st. Bundle_Statement dec b = Inr st
          \<and> StType st = StatementTypeV1 \<and> StPredicateType st = want_predicate p
          \<and> (\<exists>sub. SubjectByName st (WFilename target) = Some sub
               \<and> get (SubDigest sub) ''sha256'' = WSHA256 target)
          \<and> (AllowedBuilders p = [] \<or> BuilderID st \<in> set (AllowedBuilders p)))
     \<and> (TrustedPublishers p = [] \<or> (\<exists>extract identity. IdentityExtractor p = Some extract
          \<and> extract b = Inr identity \<and> identity \<in> set (TrustedPublishers p)))"

lemma gate_report [simp]: "fst (gate p r) = r"
  by (simp add: gate_def)

lemma gate_error: "snd (gate p r) = None \<longleftrightarrow> \<not> PRequired p \<or> Violations r = []"
  by (simp add: gate_def Report_OK_def)

lemma Policy_Verify_gated: "\<exists>r. Policy_Verify dec p b target = gate p r"
  by (auto simp: Policy_Verify_def Let_def split: option.split sum.split)

lemma Statement_payload: "Bundle_Statement dec b = Inr st \<Longrightarrow> PayloadType (DsseEnvelope b) = DSSEPayloadTypeInTotoJSON"
  by (auto simp: Bundle_Statement_def split: if_splits)

lemma Policy_Verify_clean:
  "Violations (fst (Policy_Verify dec p bundle target)) = [] \<longleftrightarrow>
     (\<exists>b. bundle = Some b \<and> attests dec p target b)"
proof (cases "bundle")
  case None
  then show ?thesis by (simp add: Policy_Verify_def Let_def clean)
next
  case (Some b)
  show ?thesis
  proof (cases "Bundle_Statement dec b")
    case (Inl e)
    then show ?thesis by (simp add: Some Policy_Verify_def Let_def clean attests_def)
  next
    case (Inr st)
    then show ?thesis using Statement_payload [OF Inr]
      by (auto simp: Some Policy_Verify_def Let_def clean attests_def)
  qed
qed

text \<open>
  C37. The install gate: the report on a wheel is clean exactly when a bundle was fetched, parses, has
  an accepted media type, and holds a statement of the accepted type and predicate whose subject of
  the wheel's file name has the digest the resolver committed to, from an allowed builder and, when
  publishers are configured, from a trusted one.  Under a policy that requires attestations the
  install goes on without error exactly in that case; under one that does not, always.
\<close>

theorem Verifier_gate:
  assumes "VFetcher v = Some fetch"
  shows "(Report_OK (fst (Verifier_Verify dec v target)) \<longleftrightarrow>
      (\<exists>raw b. fetch target = Fetched raw \<and> ParseBundle (unmarshal_bundle dec) raw = Inr b
        \<and> attests dec (VPolicy v) target b))
    \<and> (snd (Verifier_Verify dec v target) = None \<longleftrightarrow>
        \<not> PRequired (VPolicy v) \<or> Report_OK (fst (Verifier_Verify dec v target)))"
proof -
  have gated: "(snd (map_prod Some id (Policy_Verify dec (VPolicy v) bd target)) = None) \<longleftrightarrow>
      \<not> PRequired (VPolicy v) \<or> Report_OK (fst (map_prod Some id (Policy_Verify dec (VPolicy v) bd target)))" for bd
  proof -
    obtain r where r: "Policy_Verify dec (VPolicy v) bd target = gate (VPolicy v) r" using Policy_Verify_gated by blast
    show ?thesis unfolding r using gate_error [of "VPolicy v" r] by (simp add: Report_OK_def)
  qed
  have ok: "Report_OK (fst (map_prod Some id (Policy_Verify dec (VPolicy v) bd target))) \<longleftrightarrow>
      (\<exists>b. bd = Some b \<and> attests dec (VPolicy v) target b)" for bd
    using Policy_Verify_clean [of dec "VPolicy v" bd target] by (simp add: Report_OK_def)
  show ?thesis
  proof (cases "fetch target")
    case NoAttestation
    then show ?thesis using gated [of None] ok [of None] by (simp add: Verifier_Verify_def assms)
  next
    case (FetchFailed e)
    then show ?thesis by (simp add: Verifier_Verify_def assms failed_fetch_def Report_OK_def clean)
  next
    case (Fetched raw)
    show ?thesis
    proof (cases "ParseBundle (unmarshal_bundle dec) raw")
      case (Inl e)
      then show ?thesis by (simp add: Verifier_Verify_def assms Fetched failed_fetch_def Report_OK_def clean)
    next
      case (Inr b)
      then show ?thesis using gated [of "Some b"] ok [of "Some b"] by (simp add: Verifier_Verify_def assms Fetched)
    qed
  qed
qed

definition sample_bundle :: Bundle where
  "sample_bundle = \<lparr>MediaType = BundleMediaTypeV2,
     DsseEnvelope = \<lparr>Payload = ''p'', PayloadType = DSSEPayloadTypeInTotoJSON, Signatures = [\<lparr>Sig = ''s'', Keyid = []\<rparr>]\<rparr>,
     Certificates = [], TLogEntries = []\<rparr>"

definition sample_statement :: Statement where
  "sample_statement = \<lparr>StType = StatementTypeV1, StPredicateType = PredicateTypeSLSAV1,
     StSubject = [\<lparr>SubName = ''a.whl'', SubDigest = [(''sha256'', ''abc'')]\<rparr>], StPredicate = []\<rparr>"

definition sample_decoders :: Decoders where
  "sample_decoders = \<lparr>unmarshal_bundle = (\<lambda>_. Inr sample_bundle), unmarshal_statement = (\<lambda>_. Inr sample_statement),
     base64_decode = Inr, is_print = (\<lambda>_. True)\<rparr>"

definition sample_target :: "bytes \<Rightarrow> WheelTarget" where
  "sample_target sha = \<lparr>WURL = ''u'', WFilename = ''a.whl'', WDistribution = ''a'', WVersion = ''1'', WSHA256 = sha\<rparr>"

lemma Verifier_gate_witness:
  "snd (Verifier_Verify sample_decoders \<lparr>VPolicy = DefaultPolicy\<lparr>PRequired := True\<rparr>, VFetcher = Some (StaticFetcher_Fetch ''x'')\<rparr>
      (sample_target ''abc'')) = None
   \<and> snd (Verifier_Verify sample_decoders \<lparr>VPolicy = DefaultPolicy\<lparr>PRequired := True\<rparr>, VFetcher = Some (StaticFetcher_Fetch ''x'')\<rparr>
      (sample_target ''def'')) \<noteq> None"
proof -
  let ?p = "DefaultPolicy\<lparr>PRequired := True\<rparr>"
  have b: "ParseBundle (unmarshal_bundle sample_decoders) ''x'' = Inr sample_bundle"
    by (simp add: ParseBundle_def sample_decoders_def sample_bundle_def DSSEPayloadTypeInTotoJSON_def)
  have st: "Bundle_Statement sample_decoders sample_bundle = Inr sample_statement"
    by (simp add: Bundle_Statement_def sample_decoders_def sample_bundle_def ParseStatement_def sample_statement_def
        StatementTypeV1_def PredicateTypeSLSAV1_def get_def)
  have "attests sample_decoders ?p (sample_target sha) sample_bundle \<longleftrightarrow> sha = ''abc''" for sha
    by (auto simp: attests_def st) (auto simp: sample_bundle_def sample_statement_def sample_target_def DefaultPolicy_def
        want_predicate_def SubjectByName_def get_def PredicateTypeSLSAV1_def)
  then show ?thesis
    using Verifier_gate [of "\<lparr>VPolicy = ?p, VFetcher = Some (StaticFetcher_Fetch ''x'')\<rparr>" "StaticFetcher_Fetch ''x''"
        sample_decoders] b
    by (simp add: StaticFetcher_Fetch_def)
qed

text \<open>
  The comment of the verifier promises silence for a missing attestation that is not required; the
  report has the violation all the same.
\<close>

lemma missing_attestation_not_silent:
  "map fst (Violations (fst (Policy_Verify dec DefaultPolicy None target))) = [ReasonMissingAttestation]"
  by (simp add: Policy_Verify_def Let_def addViolation_def new_report_def)

end
