(* ===== verification/Subproc_Wire.thy ===== *)
theory Subproc_Wire
  imports Go_Sort
begin

section \<open>The frames of the worker protocol (subproc/frame.go)\<close>

text \<open>
  One JSON-RPC message per line (frame.go).  The bytes a peer has sent, up to the end of its stream,
  are the input of a reader, and what is left of them is returned with the message; a writer appends
  to its output.  Transport errors other than the end of the stream are not modelled.  An error is
  its text, except the end of the stream, which the callers tell apart.
\<close>

subsection \<open>Frames\<close>

definition MaxFrameSize :: nat where
  "MaxFrameSize = 16 * 1024 * 1024"

datatype WireError = EOF | WireErr bytes

fun WireError_Error :: "WireError \<Rightarrow> bytes" where
  "WireError_Error EOF = ''EOF''"
| "WireError_Error (WireErr s) = s"

definition too_big :: "bytes \<Rightarrow> WireError" where
  "too_big payload = WireErr (''subproc: frame size '' @ itoa (int (length payload)) @ '' exceeds '' @ itoa (int MaxFrameSize))"

definition WriteFrame :: "bytes \<Rightarrow> bytes \<Rightarrow> WireError + bytes" where
  "WriteFrame w payload =
    (if length payload > MaxFrameSize then Inl (too_big payload)
     else if CHR 0x0A \<in> set payload then Inl (WireErr ''subproc: frame payload contains embedded newline'')
     else Inr (w @ payload @ nl))"

text \<open>
  \<open>bufio.Reader.ReadSlice\<close> with a buffer of a given size: up to and including the delimiter when it
  is in the buffer, the whole buffer when it is not, what is left at the end of the stream.
\<close>

datatype SliceStatus = SliceOK | BufferFull | SliceEOF

definition read_slice :: "nat \<Rightarrow> char \<Rightarrow> bytes \<Rightarrow> SliceStatus \<times> bytes \<times> bytes" where
  "read_slice bsz d s =
    (case index_of (take bsz s) [d] of
       Some i \<Rightarrow> (SliceOK, take (i + 1) s, drop (i + 1) s)
     | None \<Rightarrow> if bsz \<le> length s then (BufferFull, take bsz s, drop bsz s) else (SliceEOF, s, []))"

definition strip_cr :: "bytes \<Rightarrow> bytes" where
  "strip_cr out = (let n = length out in if 0 < n \<and> out ! (n - 1) = CHR 0x0D then take (n - 1) out else out)"

text \<open>The loop of \<open>readLine\<close>; the buffer of a reader is never smaller than 16 bytes.\<close>

function line_loop :: "nat \<Rightarrow> bytes \<Rightarrow> bytes \<Rightarrow> (WireError + bytes) \<times> bytes" where
  "line_loop bsz out s =
    (case read_slice (max 16 bsz) CHR 0x0A s of
       (BufferFull, chunk, r) \<Rightarrow> line_loop bsz (out @ chunk) r
     | (SliceEOF, chunk, r) \<Rightarrow>
         (if length out > 0 \<or> length chunk > 0 then Inl (WireErr ''unexpected EOF'') else Inl EOF, r)
     | (SliceOK, chunk, r) \<Rightarrow>
         (let out = out @ chunk; out = take (length out - 1) out in (Inr (strip_cr out), r)))"
  by pat_completeness auto
termination
  by (relation "measure (\<lambda>(bsz, out, s). length s)")
    (auto simp: read_slice_def max_def split: option.splits if_splits)

declare line_loop.simps [simp del]

definition readLine :: "nat \<Rightarrow> bytes \<Rightarrow> (WireError + bytes) \<times> bytes" where
  "readLine bsz s = line_loop bsz [] s"

definition ReadFrame :: "nat \<Rightarrow> bytes \<Rightarrow> (WireError + bytes) \<times> bytes" where
  "ReadFrame bsz s =
    (case readLine bsz s of
       (Inl e, r) \<Rightarrow> (Inl e, r)
     | (Inr line, r) \<Rightarrow> (if length line > MaxFrameSize then Inl (too_big line) else Inr line, r))"

subsection \<open>Reading a line, whatever the buffer\<close>

text \<open>The reference: the text before the next line feed.\<close>

definition next_line :: "bytes \<Rightarrow> bytes \<Rightarrow> (WireError + bytes) \<times> bytes" where
  "next_line out s =
    (if CHR 0x0A \<in> set s then
       (Inr (strip_cr (out @ takeWhile (\<lambda>c. c \<noteq> CHR 0x0A) s)), tl (dropWhile (\<lambda>c. c \<noteq> CHR 0x0A) s))
     else (if out @ s = [] then Inl EOF else Inl (WireErr ''unexpected EOF''), []))"

lemma index_split: "index_of s [c] = Some i \<Longrightarrow> takeWhile (\<lambda>x. x \<noteq> c) s = take i s
    \<and> dropWhile (\<lambda>x. x \<noteq> c) s = c # drop (i + 1) s"
proof -
  assume "index_of s [c] = Some i"
  then have i: "i < length s" "s ! i = c" "c \<notin> set (take i s)" using index_of_char_Some [of s c i] by auto
  then have s: "s = take i s @ c # drop (i + 1) s" by (metis Suc_eq_plus1 id_take_nth_drop)
  have "takeWhile (\<lambda>x. x \<noteq> c) (take i s @ c # drop (i + 1) s) = take i s"
    "dropWhile (\<lambda>x. x \<noteq> c) (take i s @ c # drop (i + 1) s) = c # drop (i + 1) s"
    using i(3) by (auto simp: takeWhile_append dropWhile_append)
  then show ?thesis using s by metis
qed

lemma index_of_take: "index_of (take n s) [c] = Some i \<Longrightarrow> index_of s [c] = Some i"
proof -
  assume "index_of (take n s) [c] = Some i"
  then have i: "i < length (take n s)" "take n s ! i = c" "c \<notin> set (take i (take n s))"
    using index_of_char_Some [of "take n s" c i] by auto
  then have "i < length s" "s ! i = c" "c \<notin> set (take i s)" by (auto simp: min_absorb1)
  then have "s = take i s @ c # drop (Suc i) s" by (metis id_take_nth_drop)
  moreover have "index_of (take i s @ c # drop (Suc i) s) [c] = Some (length (take i s))"
    using \<open>c \<notin> set (take i s)\<close> by simp
  ultimately show ?thesis using \<open>i < length s\<close> by simp
qed

lemma line_loop_eq: "line_loop bsz out s = next_line out s"
proof (induction s arbitrary: out rule: length_induct)
  case (1 s)
  let ?n = "max 16 bsz"
  show ?case
  proof (cases "index_of (take ?n s) [CHR 0x0A]")
    case (Some i)
    then have "index_of s [CHR 0x0A] = Some i" by (rule index_of_take)
    moreover from this have "i < length s" "CHR 0x0A \<in> set s"
      using index_of_char_Some [of s "CHR 0x0A" i] by (auto simp: in_set_conv_nth)
    ultimately show ?thesis
      using Some index_split [of s "CHR 0x0A" i] butlast_conv_take [of "out @ take (i + 1) s"]
      by (simp add: line_loop.simps [of bsz out] read_slice_def next_line_def Let_def butlast_append take_Suc_conv_app_nth)
  next
    case None
    then have no: "CHR 0x0A \<notin> set (take ?n s)" by simp
    show ?thesis
    proof (cases "?n \<le> length s")
      case False
      then have "length s \<le> ?n" by linarith
      then have "take ?n s = s" by (rule take_all)
      then show ?thesis using None no False
        by (simp del: max.bounded_iff add: line_loop.simps [of bsz out] read_slice_def next_line_def)
    next
      case True
      have s: "s = take ?n s @ drop ?n s" by simp
      have "line_loop bsz out s = line_loop bsz (out @ take ?n s) (drop ?n s)"
        using None True by (simp add: line_loop.simps [of bsz out] read_slice_def)
      also have "\<dots> = next_line (out @ take ?n s) (drop ?n s)"
        using 1 True by (auto simp: max_def)
      also have "\<dots> = next_line out (take ?n s @ drop ?n s)"
        using no unfolding next_line_def by (auto simp: takeWhile_append dropWhile_append simp del: append_take_drop_id)
      finally show ?thesis by simp
    qed
  qed
qed

lemma readLine_line:
  "CHR 0x0A \<notin> set line \<Longrightarrow> readLine bsz (line @ nl @ s) = (Inr (strip_cr line), s)"
  by (auto simp: readLine_def line_loop_eq next_line_def nl_def takeWhile_append dropWhile_append)

lemma strip_cr_id: "line = [] \<or> last line \<noteq> CHR 0x0D \<Longrightarrow> strip_cr line = line"
  by (auto simp: strip_cr_def Let_def last_conv_nth)

text \<open>A frame as the writer puts it on the wire.\<close>

definition sendable :: "bytes \<Rightarrow> bool" where
  "sendable p \<longleftrightarrow> length p \<le> MaxFrameSize \<and> CHR 0x0A \<notin> set p \<and> (p = [] \<or> last p \<noteq> CHR 0x0D)"

lemma frame_round_trip: "sendable p \<Longrightarrow> WriteFrame w p = Inr (w @ p @ nl) \<and> ReadFrame bsz (p @ nl @ s) = (Inr p, s)"
  by (simp add: sendable_def WriteFrame_def ReadFrame_def readLine_line strip_cr_id)

lemma length_ReadFrame: "ReadFrame bsz s = (Inr p, r) \<Longrightarrow> length r < length s"
proof -
  assume "ReadFrame bsz s = (Inr p, r)"
  then have "CHR 0x0A \<in> set s" "r = tl (dropWhile (\<lambda>c. c \<noteq> CHR 0x0A) s)"
    by (auto simp: ReadFrame_def readLine_def line_loop_eq next_line_def split: if_splits prod.splits sum.splits)
  moreover have "length (dropWhile (\<lambda>c. c \<noteq> CHR 0x0A) s) \<le> length s" by (rule length_dropWhile_le)
  moreover have "dropWhile (\<lambda>c. c \<noteq> CHR 0x0A) s \<noteq> []" using calculation(1) by (auto simp: dropWhile_eq_Nil_conv)
  ultimately show ?thesis by (cases "dropWhile (\<lambda>c. c \<noteq> CHR 0x0A) s") auto
qed

text \<open>
  The size check comes after the whole line was read: the reader accumulates a line of any length.
  And a carriage return that ends a payload is taken for a part of the line end.
\<close>

lemma readLine_unbounded: "readLine bsz (replicate n CHR ''x'' @ nl) = (Inr (replicate n CHR ''x''), [])"
  using readLine_line [of "replicate n CHR ''x''" bsz "[]"] strip_cr_id [of "replicate n CHR ''x''"]
  by (cases n) (auto simp: last_replicate)

lemma carriage_return_lost: "WriteFrame [] [CHR ''x'', CHR 0x0D] = Inr (CHR ''x'' # CHR 0x0D # nl)
    \<and> ReadFrame bsz (CHR ''x'' # CHR 0x0D # nl) = (Inr ''x'', [])"
  using readLine_line [of "[CHR ''x'', CHR 0x0D]" bsz "[]"]
  by (simp add: WriteFrame_def ReadFrame_def MaxFrameSize_def strip_cr_def Let_def)

end
