(* ===== verification/Subproc_Rpc.thy ===== *)
theory Subproc_Rpc
  imports Subproc_Wire "HOL-Library.Word"
begin

section \<open>Requests, responses and the server loop (subproc/protocol.go, codec.go, server.go)\<close>

text \<open>
  A Go value of type \<open>any\<close> is an option, None for nil; its marshalling, and that of the two
  message structs, is the parameter \<open>json\<close>, for \<open>encoding/json\<close>.  \<open>json_laws\<close> is its documented
  behaviour as far as the protocol relies on it: what \<open>Marshal\<close> writes is compact (no line break in
  it), and decoding a message that was written with valid text and compact raw parts gives it back.
  A handler threads a state, the worker's.
\<close>

subsection \<open>Messages (protocol.go)\<close>

definition JSONRPCVersion :: bytes where
  "JSONRPCVersion = ''2.0''"

record Request =
  RJsonrpc :: bytes
  RID :: "64 word"
  RMethod :: bytes
  RParams :: bytes

record RPCError =
  Code :: "64 word"
  Message :: bytes
  ErrData :: bytes

record Response =
  PJsonrpc :: bytes
  PID :: "64 word"
  PResult :: bytes
  PError :: "RPCError option"

definition RPCError_Error :: "RPCError option \<Rightarrow> bytes" where
  "RPCError_Error e = (case e of None \<Rightarrow> [] | Some e \<Rightarrow> Message e)"

definition CodeParseError :: "64 word" where "CodeParseError = -32700"
definition CodeInvalidRequest :: "64 word" where "CodeInvalidRequest = -32600"
definition CodeMethodNotFound :: "64 word" where "CodeMethodNotFound = -32601"
definition CodeInvalidParams :: "64 word" where "CodeInvalidParams = -32602"
definition CodeInternalError :: "64 word" where "CodeInternalError = -32603"

record 'v json =
  marshal :: "'v \<Rightarrow> bytes + bytes"
  marshal_request :: "Request \<Rightarrow> bytes + bytes"
  marshal_response :: "Response \<Rightarrow> bytes + bytes"
  unmarshal_request :: "bytes \<Rightarrow> bytes + Request"
  unmarshal_response :: "bytes \<Rightarrow> bytes + Response"

definition NewRequest :: "'v json \<Rightarrow> 64 word \<Rightarrow> bytes \<Rightarrow> 'v option \<Rightarrow> bytes + Request" where
  "NewRequest J i meth params =
    (let req = \<lparr>RJsonrpc = JSONRPCVersion, RID = i, RMethod = meth, RParams = []\<rparr> in
     case params of
       None \<Rightarrow> Inr req
     | Some v \<Rightarrow> (case marshal J v of Inl e \<Rightarrow> Inl e | Inr raw \<Rightarrow> Inr (req\<lparr>RParams := raw\<rparr>)))"

definition NewResponse :: "'v json \<Rightarrow> 64 word \<Rightarrow> 'v option \<Rightarrow> bytes + Response" where
  "NewResponse J i result =
    (let resp = \<lparr>PJsonrpc = JSONRPCVersion, PID = i, PResult = [], PError = None\<rparr> in
     case result of
       None \<Rightarrow> Inr resp
     | Some v \<Rightarrow> (case marshal J v of Inl e \<Rightarrow> Inl e | Inr raw \<Rightarrow> Inr (resp\<lparr>PResult := raw\<rparr>)))"

definition NewErrorResponse :: "'v json \<Rightarrow> 64 word \<Rightarrow> 64 word \<Rightarrow> bytes \<Rightarrow> 'v option \<Rightarrow> bytes + Response" where
  "NewErrorResponse J i code msg data =
    (let respond = (\<lambda>raw. Inr \<lparr>PJsonrpc = JSONRPCVersion, PID = i, PResult = [],
         PError = Some \<lparr>Code = code, Message = msg, ErrData = raw\<rparr>\<rparr>) in
     case data of
       None \<Rightarrow> respond []
     | Some v \<Rightarrow> (case marshal J v of Inl e \<Rightarrow> Inl e | Inr raw \<Rightarrow> respond raw))"

text \<open>\<open>resp, _ := f()\<close>: the zero response when there is an error.\<close>

definition resp_or_zero :: "bytes + Response \<Rightarrow> Response" where
  "resp_or_zero r = (case r of Inl _ \<Rightarrow> \<lparr>PJsonrpc = [], PID = 0, PResult = [], PError = None\<rparr> | Inr p \<Rightarrow> p)"

subsection \<open>The codec (codec.go)\<close>

definition bufio_size :: nat where
  "bufio_size = 64 * 1024"

definition WriteRequest :: "'v json \<Rightarrow> bytes \<Rightarrow> Request \<Rightarrow> WireError + bytes" where
  "WriteRequest J w req =
    (if RJsonrpc req \<noteq> JSONRPCVersion
     then Inl (WireErr ''subproc: Codec.WriteRequest requires JSONRPC == \"2.0\"'')
     else case marshal_request J req of
       Inl e \<Rightarrow> Inl (WireErr (''subproc: marshal request: '' @ e))
     | Inr raw \<Rightarrow> WriteFrame w raw)"

definition WriteResponse :: "'v json \<Rightarrow> bytes \<Rightarrow> Response \<Rightarrow> WireError + bytes" where
  "WriteResponse J w resp =
    (if PJsonrpc resp \<noteq> JSONRPCVersion
     then Inl (WireErr ''subproc: Codec.WriteResponse requires JSONRPC == \"2.0\"'')
     else case marshal_response J resp of
       Inl e \<Rightarrow> Inl (WireErr (''subproc: marshal response: '' @ e))
     | Inr raw \<Rightarrow> WriteFrame w raw)"

definition ReadRequest :: "'v json \<Rightarrow> (int \<Rightarrow> bool) \<Rightarrow> bytes \<Rightarrow> (WireError + Request) \<times> bytes" where
  "ReadRequest J ip s =
    (case ReadFrame bufio_size s of
       (Inl e, r) \<Rightarrow> (Inl e, r)
     | (Inr raw, r) \<Rightarrow>
         (case unmarshal_request J raw of
            Inl e \<Rightarrow> Inl (WireErr (''subproc: decode request: '' @ e))
          | Inr req \<Rightarrow>
              if RJsonrpc req \<noteq> JSONRPCVersion
              then Inl (WireErr (''subproc: request has jsonrpc='' @ quote ip (RJsonrpc req) @ '', want '' @ quote ip JSONRPCVersion))
              else if RMethod req = [] then Inl (WireErr ''subproc: request missing method'')
              else Inr req, r))"

definition ReadResponse :: "'v json \<Rightarrow> (int \<Rightarrow> bool) \<Rightarrow> bytes \<Rightarrow> (WireError + Response) \<times> bytes" where
  "ReadResponse J ip s =
    (case ReadFrame bufio_size s of
       (Inl e, r) \<Rightarrow> (Inl e, r)
     | (Inr raw, r) \<Rightarrow>
         (case unmarshal_response J raw of
            Inl e \<Rightarrow> Inl (WireErr (''subproc: decode response: '' @ e))
          | Inr resp \<Rightarrow>
              if PJsonrpc resp \<noteq> JSONRPCVersion
              then Inl (WireErr (''subproc: response has jsonrpc='' @ quote ip (PJsonrpc resp) @ '', want '' @ quote ip JSONRPCVersion))
              else Inr resp, r))"

subsection \<open>The server loop (server.go)\<close>

datatype HandlerError = HRpc RPCError | HOther bytes

type_synonym ('s, 'v) handler = "'s \<Rightarrow> bytes \<Rightarrow> bytes \<Rightarrow> 's \<times> (HandlerError + 'v option)"

definition dispatch :: "'v json \<Rightarrow> ('s, 'v) handler \<Rightarrow> 's \<Rightarrow> Request \<Rightarrow> 's \<times> Response" where
  "dispatch J h st req =
    (case h st (RMethod req) (RParams req) of
       (st', Inl (HRpc rerr)) \<Rightarrow> (st', \<lparr>PJsonrpc = JSONRPCVersion, PID = RID req, PResult = [], PError = Some rerr\<rparr>)
     | (st', Inl (HOther e)) \<Rightarrow> (st', resp_or_zero (NewErrorResponse J (RID req) CodeInternalError e None))
     | (st', Inr result) \<Rightarrow>
         (st', case NewResponse J (RID req) result of
                 Inl e \<Rightarrow> resp_or_zero (NewErrorResponse J (RID req) CodeInternalError e None)
               | Inr resp \<Rightarrow> resp))"

text \<open>The loop, on the input left and the output so far; it shortens the input with every request.\<close>

lemma length_ReadRequest [termination_simp]: "ReadRequest J ip s = (Inr req, r) \<Longrightarrow> length r < length s"
  by (auto simp: ReadRequest_def split: prod.splits sum.splits if_splits dest: length_ReadFrame)

function serve_loop :: "'v json \<Rightarrow> (int \<Rightarrow> bool) \<Rightarrow> ('s, 'v) handler \<Rightarrow> 's \<Rightarrow> bytes \<Rightarrow> bytes
    \<Rightarrow> WireError option \<times> 's \<times> bytes" where
  "serve_loop J ip h st inp out =
    (case ReadRequest J ip inp of
       (Inl EOF, r) \<Rightarrow> (None, st, out)
     | (Inl (WireErr e), r) \<Rightarrow>
         (Some (WireErr e), st,
          case WriteResponse J out (resp_or_zero (NewErrorResponse J 0 CodeParseError e None)) of
            Inl _ \<Rightarrow> out | Inr out' \<Rightarrow> out')
     | (Inr req, r) \<Rightarrow>
         (case dispatch J h st req of (st', resp) \<Rightarrow>
            (case WriteResponse J out resp of
               Inl e \<Rightarrow> (Some (WireErr (''subproc: write response: '' @ WireError_Error e)), st', out)
             | Inr out' \<Rightarrow> serve_loop J ip h st' r out')))"
  by pat_completeness auto
termination
  by (relation "measure (\<lambda>(J, ip, h, st, inp, out). length inp)") (auto dest: length_ReadRequest [OF sym])

declare serve_loop.simps [simp del]

definition ServeCodec :: "'v json \<Rightarrow> (int \<Rightarrow> bool) \<Rightarrow> ('s, 'v) handler option \<Rightarrow> 's \<Rightarrow> bytes \<Rightarrow> bytes
    \<Rightarrow> WireError option \<times> 's \<times> bytes" where
  "ServeCodec J ip h st inp out =
    (case h of
       None \<Rightarrow> (Some (WireErr ''subproc: ServeCodec requires a non-nil Handler''), st, out)
     | Some h \<Rightarrow> serve_loop J ip h st inp out)"

subsection \<open>What the protocol relies on\<close>

definition one_line :: "bytes \<Rightarrow> bool" where
  "one_line raw \<longleftrightarrow> CHR 0x0A \<notin> set raw \<and> CHR 0x0D \<notin> set raw"

definition valid_request :: "(bytes \<Rightarrow> bool) \<Rightarrow> (bytes \<Rightarrow> bool) \<Rightarrow> Request \<Rightarrow> bool" where
  "valid_request text_ok value_ok q \<longleftrightarrow> RJsonrpc q = JSONRPCVersion \<and> RMethod q \<noteq> [] \<and> text_ok (RMethod q)
     \<and> (RParams q = [] \<or> value_ok (RParams q))"

definition valid_response :: "(bytes \<Rightarrow> bool) \<Rightarrow> (bytes \<Rightarrow> bool) \<Rightarrow> Response \<Rightarrow> bool" where
  "valid_response text_ok value_ok p \<longleftrightarrow> PJsonrpc p = JSONRPCVersion \<and> (PResult p = [] \<or> value_ok (PResult p))
     \<and> (case PError p of None \<Rightarrow> True
        | Some e \<Rightarrow> text_ok (Message e) \<and> (ErrData e = [] \<or> value_ok (ErrData e)))"

text \<open>\<open>text_ok\<close> stands for valid UTF-8, \<open>value_ok\<close> for the compact texts that \<open>Marshal\<close> writes.\<close>

definition json_laws :: "'v json \<Rightarrow> (bytes \<Rightarrow> bool) \<Rightarrow> (bytes \<Rightarrow> bool) \<Rightarrow> bool" where
  "json_laws J text_ok value_ok \<longleftrightarrow>
     (\<forall>q. valid_request text_ok value_ok q \<longrightarrow>
        (\<exists>raw. marshal_request J q = Inr raw \<and> one_line raw \<and> unmarshal_request J raw = Inr q))
   \<and> (\<forall>p. valid_response text_ok value_ok p \<longrightarrow>
        (\<exists>raw. marshal_response J p = Inr raw \<and> one_line raw \<and> unmarshal_response J raw = Inr p))
   \<and> (\<forall>v. case marshal J v of Inl e \<Rightarrow> text_ok e | Inr raw \<Rightarrow> value_ok raw)"

text \<open>A handler whose errors can be sent as they are.\<close>

definition plain_errors :: "(bytes \<Rightarrow> bool) \<Rightarrow> (bytes \<Rightarrow> bool) \<Rightarrow> ('s, 'v) handler \<Rightarrow> bool" where
  "plain_errors text_ok value_ok h \<longleftrightarrow>
     (\<forall>st m ps. case snd (h st m ps) of
        Inl (HRpc e) \<Rightarrow> text_ok (Message e) \<and> (ErrData e = [] \<or> value_ok (ErrData e))
      | Inl (HOther e) \<Rightarrow> text_ok e
      | Inr _ \<Rightarrow> True)"

lemma one_line_sendable: "one_line raw \<Longrightarrow> length raw \<le> MaxFrameSize \<Longrightarrow> sendable raw"
  by (cases "raw = []") (auto simp: one_line_def sendable_def dest: last_in_set)

lemma WriteFrame_Inr: "WriteFrame w p = Inr w' \<longleftrightarrow> length p \<le> MaxFrameSize \<and> CHR 0x0A \<notin> set p \<and> w' = w @ p @ nl"
  by (auto simp: WriteFrame_def)

lemma request_round_trip:
  assumes "json_laws J text_ok value_ok" "valid_request text_ok value_ok q" "WriteRequest J w q = Inr w'"
  obtains raw where "w' = w @ raw" "ReadRequest J ip (raw @ s) = (Inr q, s)"
proof -
  obtain raw where raw: "marshal_request J q = Inr raw" "one_line raw" "unmarshal_request J raw = Inr q"
    using assms(1,2) unfolding json_laws_def by blast
  have "WriteFrame w raw = Inr w'"
    using assms(2,3) raw(1) by (simp add: WriteRequest_def valid_request_def)
  then have w: "w' = w @ raw @ nl" "length raw \<le> MaxFrameSize" by (auto simp: WriteFrame_Inr)
  then have "ReadFrame bufio_size (raw @ nl @ s) = (Inr raw, s)"
    using frame_round_trip one_line_sendable raw(2) by blast
  then have "ReadRequest J ip ((raw @ nl) @ s) = (Inr q, s)"
    using assms(2) raw(3) by (simp add: ReadRequest_def valid_request_def)
  then show thesis using w(1) that by blast
qed

lemma response_round_trip:
  assumes "json_laws J text_ok value_ok" "valid_response text_ok value_ok p" "WriteResponse J w p = Inr w'"
  obtains raw where "w' = w @ raw" "ReadResponse J ip (raw @ s) = (Inr p, s)"
proof -
  obtain raw where raw: "marshal_response J p = Inr raw" "one_line raw" "unmarshal_response J raw = Inr p"
    using assms(1,2) unfolding json_laws_def by blast
  have "WriteFrame w raw = Inr w'"
    using assms(2,3) raw(1) by (simp add: WriteResponse_def valid_response_def)
  then have w: "w' = w @ raw @ nl" "length raw \<le> MaxFrameSize" by (auto simp: WriteFrame_Inr)
  then have "ReadFrame bufio_size (raw @ nl @ s) = (Inr raw, s)"
    using frame_round_trip one_line_sendable raw(2) by blast
  then have "ReadResponse J ip ((raw @ nl) @ s) = (Inr p, s)"
    using assms(2) raw(3) by (simp add: ReadResponse_def valid_response_def)
  then show thesis using w(1) that by blast
qed

lemma dispatch_valid:
  assumes "json_laws J text_ok value_ok" "plain_errors text_ok value_ok h" "dispatch J h st q = (st', p)"
  shows "valid_response text_ok value_ok p \<and> PID p = RID q"
proof -
  have "case marshal J v of Inl e \<Rightarrow> text_ok e | Inr raw \<Rightarrow> value_ok raw" for v
    using assms(1) by (simp add: json_laws_def)
  from this have m: "marshal J v = Inl e \<Longrightarrow> text_ok e" "marshal J v = Inr raw \<Longrightarrow> value_ok raw" for v e raw
    by (metis sum.case(1), metis sum.case(2))
  have h: "case snd (h st (RMethod q) (RParams q)) of
        Inl (HRpc e) \<Rightarrow> text_ok (Message e) \<and> (ErrData e = [] \<or> value_ok (ErrData e))
      | Inl (HOther e) \<Rightarrow> text_ok e
      | Inr _ \<Rightarrow> True"
    using assms(2) by (simp add: plain_errors_def)
  show ?thesis
    using assms(3) h
    by (auto intro: m(1) dest: m(2) simp: dispatch_def NewResponse_def NewErrorResponse_def Let_def resp_or_zero_def valid_response_def
        split: prod.splits sum.splits HandlerError.splits option.splits)
      (use m(1) in blast)
qed

subsection \<open>The loop is the handler, request by request\<close>

text \<open>
  The specification works on messages: the handler is applied to each request in turn, its state
  threaded, until a response cannot be written.
\<close>

fun serve_spec :: "'v json \<Rightarrow> ('s, 'v) handler \<Rightarrow> 's \<Rightarrow> Request list \<Rightarrow> WireError option \<times> 's \<times> Response list" where
  "serve_spec J h st [] = (None, st, [])"
| "serve_spec J h st (q # qs) =
    (let (st', p) = dispatch J h st q in
     case WriteResponse J [] p of
       Inl e \<Rightarrow> (Some (WireErr (''subproc: write response: '' @ WireError_Error e)), st', [])
     | Inr _ \<Rightarrow> (let (e, st'', ps) = serve_spec J h st' qs in (e, st'', p # ps)))"

fun send_requests :: "'v json \<Rightarrow> bytes \<Rightarrow> Request list \<Rightarrow> WireError + bytes" where
  "send_requests J w [] = Inr w"
| "send_requests J w (q # qs) = (case WriteRequest J w q of Inl e \<Rightarrow> Inl e | Inr w' \<Rightarrow> send_requests J w' qs)"

fun receives :: "'v json \<Rightarrow> (int \<Rightarrow> bool) \<Rightarrow> bytes \<Rightarrow> Response list \<Rightarrow> bool" where
  "receives J ip s [] \<longleftrightarrow> s = []"
| "receives J ip s (p # ps) \<longleftrightarrow> (case ReadResponse J ip s of (Inl _, _) \<Rightarrow> False | (Inr p', r) \<Rightarrow> p' = p \<and> receives J ip r ps)"

lemma ReadRequest_empty: "ReadRequest J ip [] = (Inl EOF, [])"
  by (simp add: ReadRequest_def ReadFrame_def readLine_def line_loop_eq next_line_def)

lemma WriteResponse_append:
  "WriteResponse J w p = (case WriteResponse J [] p of Inl e \<Rightarrow> Inl e | Inr raw \<Rightarrow> Inr (w @ raw))"
  by (auto simp: WriteResponse_def WriteFrame_def split: sum.splits)

lemma WriteRequest_append:
  "WriteRequest J w q = (case WriteRequest J [] q of Inl e \<Rightarrow> Inl e | Inr raw \<Rightarrow> Inr (w @ raw))"
  by (auto simp: WriteRequest_def WriteFrame_def split: sum.splits)

lemma send_requests_append:
  "send_requests J w qs = (case send_requests J [] qs of Inl e \<Rightarrow> Inl e | Inr raw \<Rightarrow> Inr (w @ raw))"
proof (induction qs arbitrary: w)
  case (Cons q qs)
  show ?case
  proof (cases "WriteRequest J [] q")
    case (Inr raw)
    then have "WriteRequest J w q = Inr (w @ raw)" by (simp add: WriteRequest_append [of J w])
    then show ?thesis using Inr Cons.IH [of raw] Cons.IH [of "w @ raw"] by (simp split: sum.splits)
  qed (simp add: WriteRequest_append [of J w])
qed simp

lemma serve_loop_spec:
  assumes laws: "json_laws J text_ok value_ok" "plain_errors text_ok value_ok h"
  shows "\<forall>q\<in>set qs. valid_request text_ok value_ok q \<Longrightarrow> send_requests J [] qs = Inr inp \<Longrightarrow>
    serve_spec J h st qs = (e, st', ps) \<Longrightarrow>
    \<exists>raw. serve_loop J ip h st inp out = (e, st', out @ raw) \<and> receives J ip raw ps"
proof (induction qs arbitrary: inp st ps out)
  case Nil
  then show ?case by (auto simp: serve_loop.simps [of J ip h _ "[]"] ReadRequest_empty)
next
  case (Cons q qs)
  obtain w where w: "WriteRequest J [] q = Inr w" "send_requests J w qs = Inr inp"
    using Cons.prems(2) by (auto split: sum.splits)
  obtain rest where rest: "inp = w @ rest" "send_requests J [] qs = Inr rest"
    using w(2) send_requests_append [of J w qs] by (auto split: sum.splits)
  have q: "ReadRequest J ip inp = (Inr q, rest)"
    using request_round_trip [OF laws(1) _ w(1), of ip rest] Cons.prems(1) rest(1) by force
  obtain st1 p where d: "dispatch J h st q = (st1, p)" by force
  have p: "valid_response text_ok value_ok p" using dispatch_valid [OF laws d] by simp
  show ?case
  proof (cases "WriteResponse J [] p")
    case (Inl err)
    then have "WriteResponse J out p = Inl err" by (simp add: WriteResponse_append [of J out])
    then show ?thesis using Inl Cons.prems(3) q d
      by (auto simp: serve_loop.simps [of J ip h st inp])
  next
    case (Inr raw)
    obtain e1 s1 ps1 where spec: "serve_spec J h st1 qs = (e1, s1, ps1)" by (metis prod_cases3)
    then have eq: "e1 = e" "s1 = st'" "ps = p # ps1" using Inr Cons.prems(3) d by auto
    obtain more where more: "serve_loop J ip h st1 rest (out @ raw) = (e, st', (out @ raw) @ more)" "receives J ip more ps1"
      using Cons.IH [OF _ rest(2), of st1 ps1 "out @ raw"] Cons.prems(1) spec eq by auto
    have "WriteResponse J out p = Inr (out @ raw)" using Inr by (simp add: WriteResponse_append [of J out])
    then have "serve_loop J ip h st inp out = (e, st', out @ raw @ more)"
      using q d more(1) by (simp add: serve_loop.simps [of J ip h st inp])
    moreover have "ReadResponse J ip (raw @ more) = (Inr p, more)"
      using response_round_trip [OF laws(1) p Inr, of ip more] by auto
    ultimately show ?thesis using more(2) eq(3) by auto
  qed
qed

lemma serve_loop_bad_frame:
  assumes "ReadRequest J ip inp = (Inl (WireErr e), r)"
  shows "serve_loop J ip h st inp out = (Some (WireErr e), st,
    case WriteResponse J out \<lparr>PJsonrpc = JSONRPCVersion, PID = 0, PResult = [],
        PError = Some \<lparr>Code = CodeParseError, Message = e, ErrData = []\<rparr>\<rparr> of Inl _ \<Rightarrow> out | Inr out' \<Rightarrow> out')"
  using assms by (simp add: serve_loop.simps [of J ip h st inp] NewErrorResponse_def resp_or_zero_def)

lemma dispatch_id: "dispatch J h st q = (st', p) \<Longrightarrow> PID p = RID q"
  by (auto simp: dispatch_def NewResponse_def NewErrorResponse_def Let_def resp_or_zero_def
      split: prod.splits sum.splits HandlerError.splits option.splits)

lemma serve_spec_ids: "serve_spec J h st qs = (e, st', ps) \<Longrightarrow> map PID ps = map RID (take (length ps) qs)"
proof (induction qs arbitrary: st ps)
  case (Cons q qs)
  then show ?case
    by (auto split: prod.splits sum.splits dest: dispatch_id)
qed simp

lemma serve_spec_all: "serve_spec J h st qs = (None, st', ps) \<Longrightarrow> length ps = length qs"
  by (induction qs arbitrary: st ps) (auto split: prod.splits sum.splits)

subsection \<open>A small marshaller that obeys the laws\<close>

definition tally :: "64 word \<Rightarrow> bytes" where
  "tally w = replicate (unat w) (CHR ''i'')"

definition untally :: "bytes \<Rightarrow> 64 word" where
  "untally s = word_of_nat (length s)"

definition field_ok :: "bytes \<Rightarrow> bool" where
  "field_ok s \<longleftrightarrow> one_line s \<and> CHR ''|'' \<notin> set s"

definition tally_json :: "bytes json" where
  "tally_json = \<lparr>
     marshal = (\<lambda>v. if field_ok v then Inr v else Inl ''bad value''),
     marshal_request = (\<lambda>q. Inr (join ''|'' [tally (RID q), RMethod q, RParams q])),
     marshal_response = (\<lambda>p. Inr (join ''|'' (case PError p of
        None \<Rightarrow> [tally (PID p), PResult p]
      | Some e \<Rightarrow> [tally (PID p), tally (Code e), Message e, ErrData e, PResult p]))),
     unmarshal_request = (\<lambda>raw. case split_on (CHR ''|'') raw of
        [i, m, ps] \<Rightarrow> Inr \<lparr>RJsonrpc = JSONRPCVersion, RID = untally i, RMethod = m, RParams = ps\<rparr>
      | _ \<Rightarrow> Inl ''bad request''),
     unmarshal_response = (\<lambda>raw. case split_on (CHR ''|'') raw of
        [i, r] \<Rightarrow> Inr \<lparr>PJsonrpc = JSONRPCVersion, PID = untally i, PResult = r, PError = None\<rparr>
      | [i, c, m, d, r] \<Rightarrow> Inr \<lparr>PJsonrpc = JSONRPCVersion, PID = untally i, PResult = r,
          PError = Some \<lparr>Code = untally c, Message = m, ErrData = d\<rparr>\<rparr>
      | _ \<Rightarrow> Inl ''bad response'')\<rparr>"

lemma untally_tally [simp]: "untally (tally w) = w"
  by (simp add: untally_def tally_def)

lemma tally_field [simp]: "field_ok (tally w)"
  by (auto simp: field_ok_def one_line_def tally_def)

lemma field_ok_Nil [simp]: "field_ok []"
  by (simp add: field_ok_def one_line_def)

lemma fields_join:
  assumes "fs \<noteq> []" "\<forall>f \<in> set fs. field_ok f"
  shows "split_on (CHR ''|'') (join ''|'' fs) = fs \<and> one_line (join ''|'' fs)"
  using assms split_on_join [of fs "CHR ''|''"]
  by (auto simp: field_ok_def one_line_def dest: set_join)

lemma tally_json_laws: "json_laws tally_json field_ok field_ok"
proof -
  have "unmarshal_request tally_json (join ''|'' [tally (RID q), RMethod q, RParams q]) = Inr q
      \<and> one_line (join ''|'' [tally (RID q), RMethod q, RParams q])"
    if "valid_request field_ok field_ok q" for q
    using that fields_join [of "[tally (RID q), RMethod q, RParams q]"]
    by (cases q) (auto simp: valid_request_def tally_json_def simp del: join.simps)
  moreover have "unmarshal_response tally_json raw = Inr p \<and> one_line raw"
    if "valid_response field_ok field_ok p" "marshal_response tally_json p = Inr raw" for p raw
  proof (cases "PError p")
    case None
    then show ?thesis using that fields_join [of "[tally (PID p), PResult p]"]
      by (cases p) (auto simp: valid_response_def tally_json_def simp del: join.simps)
  next
    case (Some e)
    then show ?thesis
      using that fields_join [of "[tally (PID p), tally (Code e), Message e, ErrData e, PResult p]"]
      by (cases p; cases e) (auto simp: valid_response_def tally_json_def simp del: join.simps)
  qed
  moreover have "field_ok ''bad value''" by (simp add: field_ok_def one_line_def)
  ultimately show ?thesis
    by (simp add: json_laws_def tally_json_def)
qed

definition echo_handler :: "(nat, bytes) handler" where
  "echo_handler n m ps = (Suc n, if m = ''echo'' then Inr (Some ps) else Inl (HOther ''unknown''))"

lemma echo_plain: "plain_errors field_ok field_ok echo_handler"
  by (simp add: plain_errors_def echo_handler_def field_ok_def one_line_def)

definition echo_request :: "64 word \<Rightarrow> bytes \<Rightarrow> Request" where
  "echo_request i ps = \<lparr>RJsonrpc = JSONRPCVersion, RID = i, RMethod = ''echo'', RParams = ps\<rparr>"

lemma echo_request_valid: "field_ok ps \<Longrightarrow> valid_request field_ok field_ok (echo_request i ps)"
  by (simp add: valid_request_def echo_request_def field_ok_def one_line_def)

subsection \<open>The server loop refines its specification\<close>

text \<open>
  C38. The server loop, on the bytes of a sequence of requests up to the end of the stream, does what
  the specification does on the requests themselves: the handler meets each request once, in the
  order of the stream, with the state the earlier ones left; the error returned is the
  specification's (none when every response could be written); and the bytes it wrote are read back
  by the client's codec as exactly the specification's responses, in order, with nothing left over.
  Each response carries the number of its request, and without an error every request has one.
\<close>

theorem ServeCodec_refines:
  assumes "json_laws J text_ok value_ok" "plain_errors text_ok value_ok h"
    and "\<forall>q\<in>set qs. valid_request text_ok value_ok q"
    and "send_requests J [] qs = Inr inp"
    and "serve_spec J h st qs = (e, st', ps)"
  shows "(\<exists>out. ServeCodec J ip (Some h) st inp [] = (e, st', out) \<and> receives J ip out ps)
    \<and> map PID ps = map RID (take (length ps) qs) \<and> (e \<noteq> None \<or> length ps = length qs)"
  using serve_loop_spec [OF assms, of ip "[]"] serve_spec_ids [OF assms(5)] serve_spec_all [of J h st qs st' ps] assms(5)
  by (auto simp: ServeCodec_def)

theorem ServeCodec_refines_witness:
  "\<exists>out. ServeCodec tally_json (\<lambda>_. True) (Some echo_handler) 0 (''i|echo|7'' @ nl @ ''ii|echo|9'' @ nl) [] = (None, 2, out)
     \<and> receives tally_json (\<lambda>_. True) out
         [\<lparr>PJsonrpc = JSONRPCVersion, PID = 1, PResult = ''7'', PError = None\<rparr>,
          \<lparr>PJsonrpc = JSONRPCVersion, PID = 2, PResult = ''9'', PError = None\<rparr>]"
proof -
  let ?qs = "[echo_request 1 ''7'', echo_request 2 ''9'']"
  have "field_ok ''7''" "field_ok ''9''" by (simp_all add: field_ok_def one_line_def)
  then have v: "\<forall>q\<in>set ?qs. valid_request field_ok field_ok q" by (simp add: echo_request_valid)
  have t: "tally 1 = ''i''" "tally 2 = ''ii''" by (code_simp, code_simp)
  have s: "send_requests tally_json [] ?qs = Inr (''i|echo|7'' @ nl @ ''ii|echo|9'' @ nl)"
    by (simp add: WriteRequest_def WriteFrame_def tally_json_def echo_request_def MaxFrameSize_def nl_def t)
  have p: "serve_spec tally_json echo_handler 0 ?qs = (None, 2,
         [\<lparr>PJsonrpc = JSONRPCVersion, PID = 1, PResult = ''7'', PError = None\<rparr>,
          \<lparr>PJsonrpc = JSONRPCVersion, PID = 2, PResult = ''9'', PError = None\<rparr>])"
    using \<open>field_ok ''7''\<close> \<open>field_ok ''9''\<close>
    by (simp add: dispatch_def echo_handler_def echo_request_def NewResponse_def tally_json_def WriteResponse_def
        WriteFrame_def MaxFrameSize_def t)
  show ?thesis using ServeCodec_refines [OF tally_json_laws echo_plain v s p] by blast
qed

end
