(* ===== verification/Subproc_Client.thy ===== *)
theory Subproc_Client
  imports Subproc_Rpc
begin

section \<open>Concurrent calls of one client (subproc/client.go)\<close>

text \<open>
  \<open>Call\<close> takes a number under the client's mutex, releases it, writes its request (one frame, under
  the codec's write mutex) and reads the next response, whichever call that belongs to.  These are
  the atomic steps of a call here; calls of any number of goroutines and the worker's loop
  interleave.  The two wires hold messages: \<^theory_text>\<open>Subproc_Rpc\<close> shows that bytes carry them faithfully.
  A failing read, and the end of the stream, is a step that may happen at any time.
\<close>

subsection \<open>The parts of a call\<close>

record Client =
  nextID :: "64 word"
  closed :: bool

definition NewClient :: Client where
  "NewClient = \<lparr>nextID = 0, closed = False\<rparr>"

datatype CallError = CallErr bytes | CallRpc RPCError

definition take_id :: "Client \<Rightarrow> Client \<times> (CallError + 64 word)" where
  "take_id c =
    (if closed c then (c, Inl (CallErr ''subproc: Client is closed''))
     else (let c = c\<lparr>nextID := nextID c + 1\<rparr> in (c, Inr (nextID c))))"

definition send_call :: "'v json \<Rightarrow> 64 word \<Rightarrow> bytes \<Rightarrow> 'v option \<Rightarrow> CallError + Request" where
  "send_call J i m ps =
    (case NewRequest J i m ps of
       Inl e \<Rightarrow> Inl (CallErr (''subproc: build request: '' @ e))
     | Inr req \<Rightarrow>
         (case WriteRequest J [] req of
            Inl e \<Rightarrow> Inl (CallErr (''subproc: write request: '' @ WireError_Error e))
          | Inr _ \<Rightarrow> Inr req))"

definition accept :: "64 word \<Rightarrow> Response \<Rightarrow> CallError + bytes" where
  "accept i resp =
    (if PID resp \<noteq> i
     then Inl (CallErr (''subproc: response id='' @ itoa (sint (PID resp)) @ '' does not match request id='' @ itoa (sint i)))
     else case PError resp of Some e \<Rightarrow> Inl (CallRpc e) | None \<Rightarrow> Inr (PResult resp))"

definition Close :: "Client \<Rightarrow> Client" where
  "Close c = c\<lparr>closed := True\<rparr>"

subsection \<open>Interleavings\<close>

text \<open>
  A goroutine is idle, or in a call of a method with parameters: before its number, before its
  write, before its read, returned.  \<open>issued\<close> counts the numbers taken and \<open>served\<close> records what
  the worker answered, in order; the code has neither.
\<close>

datatype 'v pc =
    Idle
  | Calling bytes "'v option"
  | Numbered bytes "'v option" "64 word"
  | Waiting bytes "'v option" Request
  | Returned bytes "'v option" "CallError + bytes"

record ('s, 'v) system =
  client :: Client
  pcs :: "nat \<Rightarrow> 'v pc"
  requests :: "Request list"
  responses :: "Response list"
  worker :: 's
  served :: "(Request \<times> Response) list"
  issued :: nat

definition start :: "'s \<Rightarrow> ('s, 'v) system" where
  "start st = \<lparr>client = NewClient, pcs = (\<lambda>_. Idle), requests = [], responses = [], worker = st,
     served = [], issued = 0\<rparr>"

inductive step :: "'v json \<Rightarrow> ('s, 'v) handler \<Rightarrow> ('s, 'v) system \<Rightarrow> ('s, 'v) system \<Rightarrow> bool" for J h where
  call: "pcs s g = Idle \<Longrightarrow> step J h s (s\<lparr>pcs := (pcs s)(g := Calling m ps)\<rparr>)"
| refuse: "pcs s g = Calling m ps \<Longrightarrow> take_id (client s) = (c, Inl e) \<Longrightarrow>
    step J h s (s\<lparr>pcs := (pcs s)(g := Returned m ps (Inl e))\<rparr>)"
| number: "pcs s g = Calling m ps \<Longrightarrow> take_id (client s) = (c, Inr i) \<Longrightarrow>
    step J h s (s\<lparr>client := c, pcs := (pcs s)(g := Numbered m ps i), issued := issued s + 1\<rparr>)"
| unsent: "pcs s g = Numbered m ps i \<Longrightarrow> send_call J i m ps = Inl e \<Longrightarrow>
    step J h s (s\<lparr>pcs := (pcs s)(g := Returned m ps (Inl e))\<rparr>)"
| send: "pcs s g = Numbered m ps i \<Longrightarrow> send_call J i m ps = Inr q \<Longrightarrow>
    step J h s (s\<lparr>pcs := (pcs s)(g := Waiting m ps q), requests := requests s @ [q]\<rparr>)"
| serve: "requests s = q # qs \<Longrightarrow> dispatch J h (worker s) q = (st, p) \<Longrightarrow> WriteResponse J [] p = Inr raw \<Longrightarrow>
    step J h s (s\<lparr>requests := qs, responses := responses s @ [p], worker := st, served := served s @ [(q, p)]\<rparr>)"
| read: "pcs s g = Waiting m ps q \<Longrightarrow> responses s = p # rs \<Longrightarrow>
    step J h s (s\<lparr>pcs := (pcs s)(g := Returned m ps (accept (RID q) p)), responses := rs\<rparr>)"
| unread: "pcs s g = Waiting m ps q \<Longrightarrow>
    step J h s (s\<lparr>pcs := (pcs s)(g := Returned m ps (Inl (CallErr (''subproc: read response: '' @ WireError_Error e))))\<rparr>)"
| close: "step J h s (s\<lparr>client := Close (client s)\<rparr>)"

abbreviation steps :: "'v json \<Rightarrow> ('s, 'v) handler \<Rightarrow> ('s, 'v) system \<Rightarrow> ('s, 'v) system \<Rightarrow> bool" where
  "steps J h \<equiv> (step J h)\<^sup>*\<^sup>*"

definition reachable :: "'v json \<Rightarrow> ('s, 'v) handler \<Rightarrow> 's \<Rightarrow> ('s, 'v) system \<Rightarrow> bool" where
  "reachable J h st s \<longleftrightarrow> steps J h (start st) s"

subsection \<open>The invariant\<close>

text \<open>Everything the goroutines have sent, served or not.\<close>

definition sent :: "('s, 'v) system \<Rightarrow> Request list" where
  "sent s = map fst (served s) @ requests s"

definition fresh_id :: "('s, 'v) system \<Rightarrow> 64 word \<Rightarrow> bool" where
  "fresh_id s i \<longleftrightarrow> unat i \<le> issued s \<and> i \<notin> RID ` set (sent s)"

text \<open>The result of a call that was answered is the answer to a request of its own.\<close>

definition answered :: "'v json \<Rightarrow> (Request \<times> Response) list \<Rightarrow> bytes \<Rightarrow> 'v option \<Rightarrow> CallError + bytes \<Rightarrow> bool" where
  "answered J log m ps r \<longleftrightarrow>
    (\<exists>(q, p) \<in> set log. NewRequest J (RID q) m ps = Inr q \<and> PID p = RID q \<and>
      r = (case PError p of Some e \<Rightarrow> Inl (CallRpc e) | None \<Rightarrow> Inr (PResult p)))"

fun own_pc :: "'v json \<Rightarrow> ('s, 'v) system \<Rightarrow> 'v pc \<Rightarrow> bool" where
  "own_pc J s (Numbered m ps i) \<longleftrightarrow> fresh_id s i"
| "own_pc J s (Waiting m ps q) \<longleftrightarrow> q \<in> set (sent s) \<and> NewRequest J (RID q) m ps = Inr q"
| "own_pc J s (Returned m ps r) \<longleftrightarrow> (case r of Inl (CallErr _) \<Rightarrow> True | _ \<Rightarrow> answered J (served s) m ps r)"
| "own_pc J s _ \<longleftrightarrow> True"

definition inv :: "'v json \<Rightarrow> ('s, 'v) handler \<Rightarrow> 's \<Rightarrow> ('s, 'v) system \<Rightarrow> bool" where
  "inv J h st0 s \<longleftrightarrow>
     unat (nextID (client s)) = issued s
   \<and> (\<forall>g. own_pc J s (pcs s g))
   \<and> (\<forall>g g' m ps m' ps' i. pcs s g = Numbered m ps i \<longrightarrow> pcs s g' = Numbered m' ps' i \<longrightarrow> g = g')
   \<and> (\<forall>q \<in> set (sent s). unat (RID q) \<le> issued s)
   \<and> distinct (map RID (sent s))
   \<and> set (responses s) \<subseteq> snd ` set (served s)
   \<and> (\<forall>(q, p) \<in> set (served s). PID p = RID q)
   \<and> serve_spec J h st0 (map fst (served s)) = (None, worker s, map snd (served s))"

lemma serve_spec_snoc:
  "serve_spec J h st0 qs = (None, st, ps) \<Longrightarrow> dispatch J h st q = (st', p) \<Longrightarrow> WriteResponse J [] p = Inr raw \<Longrightarrow>
    serve_spec J h st0 (qs @ [q]) = (None, st', ps @ [p])"
  by (induction qs arbitrary: st0 ps) (auto split: prod.splits sum.splits)

lemma send_call_Inr: "send_call J i m ps = Inr q \<Longrightarrow> NewRequest J i m ps = Inr q \<and> RID q = i"
  by (auto simp: send_call_def NewRequest_def Let_def split: sum.splits option.splits)

lemma take_id_Inr:
  "take_id c = (c', Inr i) \<Longrightarrow> \<not> closed c \<and> i = nextID c + 1 \<and> nextID c' = i \<and> closed c' = closed c"
  by (auto simp: take_id_def Let_def split: if_splits)

lemma take_id_Inl: "take_id c = (c', Inl e) \<Longrightarrow> closed c \<and> (\<exists>m. e = CallErr m)"
  by (auto simp: take_id_def Let_def split: if_splits)

lemma send_call_Inl: "send_call J i m ps = Inl e \<Longrightarrow> \<exists>m. e = CallErr m"
  by (auto simp: send_call_def split: sum.splits)

lemma unat_Suc: "unat (n :: 64 word) + 1 < 2 ^ 64 \<Longrightarrow> unat (n + 1) = unat n + 1"
  by (simp add: unat_word_ariths)

lemma own_pc_mono:
  "own_pc J s pc \<Longrightarrow> set (served s) \<subseteq> set (served s') \<Longrightarrow> sent s' = sent s \<Longrightarrow> issued s \<le> issued s' \<Longrightarrow> own_pc J s' pc"
  by (cases pc) (auto simp: fresh_id_def answered_def split: sum.splits CallError.splits)

lemma invD:
  assumes "inv J h st0 s"
  shows "unat (nextID (client s)) = issued s" "own_pc J s (pcs s g)"
    "pcs s g1 = Numbered m ps i \<Longrightarrow> pcs s g2 = Numbered m' ps' i \<Longrightarrow> g1 = g2"
    "q \<in> set (sent s) \<Longrightarrow> unat (RID q) \<le> issued s"
    "distinct (map RID (sent s))"
    "p \<in> set (responses s) \<Longrightarrow> \<exists>q. (q, p) \<in> set (served s)"
    "(q, p) \<in> set (served s) \<Longrightarrow> PID p = RID q"
    "serve_spec J h st0 (map fst (served s)) = (None, worker s, map snd (served s))"
proof -
  note i = assms [unfolded inv_def]
  from i show "unat (nextID (client s)) = issued s" by (elim conjE)
  from i show "distinct (map RID (sent s))" by (elim conjE)
  from i show "serve_spec J h st0 (map fst (served s)) = (None, worker s, map snd (served s))" by (elim conjE)
  from i have "\<forall>g. own_pc J s (pcs s g)" by (elim conjE)
  then show "own_pc J s (pcs s g)" by blast
  from i have "\<forall>g g' m ps m' ps' i. pcs s g = Numbered m ps i \<longrightarrow> pcs s g' = Numbered m' ps' i \<longrightarrow> g = g'"
    by (elim conjE)
  then show "pcs s g1 = Numbered m ps i \<Longrightarrow> pcs s g2 = Numbered m' ps' i \<Longrightarrow> g1 = g2" by blast
  from i have "\<forall>q \<in> set (sent s). unat (RID q) \<le> issued s" by (elim conjE)
  then show "q \<in> set (sent s) \<Longrightarrow> unat (RID q) \<le> issued s" by blast
  from i have "set (responses s) \<subseteq> snd ` set (served s)" by (elim conjE)
  then show "p \<in> set (responses s) \<Longrightarrow> \<exists>q. (q, p) \<in> set (served s)" by force
  from i have "\<forall>(q, p) \<in> set (served s). PID p = RID q" by (elim conjE)
  then show "(q, p) \<in> set (served s) \<Longrightarrow> PID p = RID q" by blast
qed

lemma invI:
  assumes "unat (nextID (client s)) = issued s" "\<And>g. own_pc J s (pcs s g)"
    and "\<And>g g' m ps m' ps' i. pcs s g = Numbered m ps i \<Longrightarrow> pcs s g' = Numbered m' ps' i \<Longrightarrow> g = g'"
    and "\<And>q. q \<in> set (sent s) \<Longrightarrow> unat (RID q) \<le> issued s"
    and "distinct (map RID (sent s))"
    and "\<And>p. p \<in> set (responses s) \<Longrightarrow> \<exists>q. (q, p) \<in> set (served s)"
    and "\<And>q p. (q, p) \<in> set (served s) \<Longrightarrow> PID p = RID q"
    and "serve_spec J h st0 (map fst (served s)) = (None, worker s, map snd (served s))"
  shows "inv J h st0 s"
proof -
  have "set (responses s) \<subseteq> snd ` set (served s)" using assms(6) by (force simp: image_iff)
  moreover have "\<forall>(q, p) \<in> set (served s). PID p = RID q" using assms(7) by blast
  ultimately show ?thesis
    unfolding inv_def using assms(1-5,8) by (intro conjI allI impI ballI) (assumption | blast)+
qed

text \<open>A goroutine that moves on without touching the rest, or returns.\<close>

lemma inv_pc:
  assumes "inv J h st0 s" "own_pc J s pc" "\<And>m ps i. pc \<noteq> Numbered m ps i"
    and "set rs \<subseteq> set (responses s)"
  shows "inv J h st0 (s\<lparr>pcs := (pcs s)(g := pc), responses := rs\<rparr>)" (is "inv J h st0 ?s")
proof (rule invI)
  have sent: "sent ?s = sent s" by (simp add: sent_def)
  show "own_pc J ?s (pcs ?s g')" for g'
    using assms(2) invD(2) [OF assms(1), of g'] own_pc_mono [of J s _ ?s] sent by auto
  show "g1 = g2" if "pcs ?s g1 = Numbered m ps i" "pcs ?s g2 = Numbered m' ps' i" for g1 g2 m ps m' ps' i
    using that invD(3) [OF assms(1), of g1 m ps i g2] assms(3) [of m ps i] assms(3) [of m' ps' i]
    by (auto split: if_splits)
  show "unat (RID q) \<le> issued ?s" if "q \<in> set (sent ?s)" for q
    using that invD(4) [OF assms(1), of q] sent by simp
  show "distinct (map RID (sent ?s))" using invD(5) [OF assms(1)] sent by simp
  show "\<exists>q. (q, p) \<in> set (served ?s)" if "p \<in> set (responses ?s)" for p
    using that invD(6) [OF assms(1), of p] assms(4) by auto
qed (use invD [OF assms(1)] in auto)

lemma inv_number:
  assumes "inv J h st0 s" "take_id (client s) = (c, Inr i)" "issued s + 1 < 2 ^ 64"
  shows "inv J h st0 (s\<lparr>client := c, pcs := (pcs s)(g := Numbered m ps i), issued := issued s + 1\<rparr>)"
    (is "inv J h st0 ?s")
proof (rule invI)
  have sent: "sent ?s = sent s" by (simp add: sent_def)
  have i: "unat i = issued s + 1" "nextID c = i"
    using take_id_Inr [OF assms(2)] unat_Suc [of "nextID (client s)"] invD(1) [OF assms(1)] assms(3) by auto
  have old: "unat i' \<le> issued s" if "pcs s g' = Numbered m' ps' i'" for g' m' ps' i'
    using invD(2) [OF assms(1), of g'] that by (simp add: fresh_id_def)
  have new: "i \<notin> RID ` set (sent s)" using invD(4) [OF assms(1)] i(1) by fastforce
  show "unat (nextID (client ?s)) = issued ?s" using i by simp
  show "own_pc J ?s (pcs ?s g')" for g'
    using new i invD(2) [OF assms(1), of g'] own_pc_mono [of J s _ ?s] sent by (auto simp: fresh_id_def)
  show "g1 = g2" if "pcs ?s g1 = Numbered m1 ps1 i1" "pcs ?s g2 = Numbered m2 ps2 i1" for g1 g2 m1 ps1 i1 m2 ps2
    using that invD(3) [OF assms(1), of g1 m1 ps1 i1 g2] old [of g1 m1 ps1 i1] old [of g2 m2 ps2 i1] i(1)
    by (auto split: if_splits)
  show "unat (RID q) \<le> issued ?s" if "q \<in> set (sent ?s)" for q
    using that invD(4) [OF assms(1), of q] sent by simp
  show "distinct (map RID (sent ?s))" using invD(5) [OF assms(1)] sent by simp
qed (use invD [OF assms(1)] in auto)

lemma inv_send:
  assumes "inv J h st0 s" "pcs s g = Numbered m ps i" "send_call J i m ps = Inr q"
  shows "inv J h st0 (s\<lparr>pcs := (pcs s)(g := Waiting m ps q), requests := requests s @ [q]\<rparr>)"
    (is "inv J h st0 ?s")
proof (rule invI)
  have sent: "sent ?s = sent s @ [q]" by (simp add: sent_def)
  have q: "NewRequest J i m ps = Inr q" "RID q = i" using send_call_Inr [OF assms(3)] by auto
  have i: "unat i \<le> issued s" "i \<notin> RID ` set (sent s)"
    using invD(2) [OF assms(1), of g] assms(2) by (auto simp: fresh_id_def)
  have other: "i' \<noteq> i" if "pcs s g' = Numbered m' ps' i'" "g' \<noteq> g" for g' m' ps' i'
    using invD(3) [OF assms(1) assms(2), of g' m' ps'] that by blast
  show "own_pc J ?s (pcs ?s g')" for g'
    using q invD(2) [OF assms(1), of g'] other [of g'] sent
    by (cases "pcs s g'") (auto simp: fresh_id_def split: sum.splits CallError.splits)
  show "g1 = g2" if "pcs ?s g1 = Numbered m1 ps1 i1" "pcs ?s g2 = Numbered m2 ps2 i1" for g1 g2 m1 ps1 i1 m2 ps2
    using that invD(3) [OF assms(1), of g1 m1 ps1 i1 g2] by (auto split: if_splits)
  show "unat (RID r) \<le> issued ?s" if "r \<in> set (sent ?s)" for r
    using that invD(4) [OF assms(1), of r] sent i(1) q(2) by auto
  show "distinct (map RID (sent ?s))" using invD(5) [OF assms(1)] sent i(2) q(2) by simp
qed (use invD [OF assms(1)] in auto)

lemma inv_serve:
  assumes "inv J h st0 s" "requests s = q # qs" "dispatch J h (worker s) q = (st, p)" "WriteResponse J [] p = Inr raw"
  shows "inv J h st0 (s\<lparr>requests := qs, responses := responses s @ [p], worker := st, served := served s @ [(q, p)]\<rparr>)"
    (is "inv J h st0 ?s")
proof (rule invI)
  have sent: "sent ?s = sent s" using assms(2) by (simp add: sent_def)
  show "own_pc J ?s (pcs ?s g')" for g'
    using invD(2) [OF assms(1), of g'] own_pc_mono [of J s _ ?s] sent by auto
  show "unat (RID q) \<le> issued ?s" if "q \<in> set (sent ?s)" for q
    using that invD(4) [OF assms(1), of q] sent by simp
  show "distinct (map RID (sent ?s))" using invD(5) [OF assms(1)] sent by simp
  show "\<exists>q. (q, p') \<in> set (served ?s)" if "p' \<in> set (responses ?s)" for p'
    using that invD(6) [OF assms(1), of p'] by auto
  show "PID p' = RID q'" if "(q', p') \<in> set (served ?s)" for q' p'
    using that invD(7) [OF assms(1), of q' p'] dispatch_id [OF assms(3)] by auto
  show "serve_spec J h st0 (map fst (served ?s)) = (None, worker ?s, map snd (served ?s))"
    using serve_spec_snoc [OF invD(8) [OF assms(1)] assms(3,4)] by simp
qed (use invD [OF assms(1)] in auto)

text \<open>The answer a waiting call accepts answers its own request: the numbers are all different.\<close>

lemma accepted_own:
  assumes "inv J h st0 s" "pcs s g = Waiting m ps q" "p \<in> set (responses s)"
  shows "own_pc J s (Returned m ps (accept (RID q) p))"
proof (cases "PID p = RID q")
  case True
  obtain q' where q': "(q', p) \<in> set (served s)" using invD(6) [OF assms(1,3)] by blast
  have mine: "q \<in> set (sent s)" "NewRequest J (RID q) m ps = Inr q" using invD(2) [OF assms(1), of g] assms(2) by auto
  have "q' \<in> set (sent s)" using q' by (force simp: sent_def)
  moreover have "RID q' = RID q" using invD(7) [OF assms(1) q'] True by simp
  ultimately have "q' = q" using invD(5) [OF assms(1)] mine(1) by (simp add: distinct_map inj_on_def)
  then show ?thesis using q' mine(2) True by (force simp: accept_def answered_def split: option.splits)
qed (simp add: accept_def)

lemma step_inv:
  "step J h s s' \<Longrightarrow> inv J h st0 s \<Longrightarrow> issued s' < 2 ^ 64 \<Longrightarrow> inv J h st0 s'"
proof (induction rule: step.induct)
  case (call s g m ps)
  then show ?case using inv_pc [of J h st0 s "Calling m ps" "responses s" g] by simp
next
  case (refuse s g m ps c e)
  then show ?case using inv_pc [of J h st0 s "Returned m ps (Inl e)" "responses s" g] take_id_Inl by fastforce
next
  case (number s g m ps c i)
  then show ?case using inv_number by simp
next
  case (unsent s g m ps i e)
  then show ?case using inv_pc [of J h st0 s "Returned m ps (Inl e)" "responses s" g] send_call_Inl by fastforce
next
  case (send s g m ps i q)
  then show ?case by (intro inv_send)
next
  case (serve s q qs st p raw)
  then show ?case by (intro inv_serve)
next
  case (read s g m ps q p rs)
  then have "own_pc J s (Returned m ps (accept (RID q) p))" by (intro accepted_own) auto
  then show ?case using read inv_pc [of J h st0 s "Returned m ps (accept (RID q) p)" rs g]
    by (auto simp del: own_pc.simps)
next
  case (unread s g m ps q e)
  then show ?case using inv_pc [of J h st0 s "Returned m ps (Inl (CallErr x))" "responses s" g for x] by simp
next
  case (close s)
  then have "own_pc J (s\<lparr>client := Close (client s)\<rparr>) pc = own_pc J s pc" for pc
    by (cases pc) (auto simp: fresh_id_def sent_def split: sum.splits CallError.splits)
  then show ?case using close(1) unfolding inv_def by (simp add: Close_def sent_def)
qed

lemma step_issued: "step J h s s' \<Longrightarrow> issued s \<le> issued s'"
  by (induction rule: step.induct) auto

lemma start_inv: "inv J h st0 (start st0)"
  by (simp add: inv_def start_def NewClient_def sent_def)

lemma reachable_inv: "reachable J h st s \<Longrightarrow> issued s < 2 ^ 64 \<Longrightarrow> inv J h st s"
  unfolding reachable_def
proof (induction rule: rtranclp_induct)
  case base
  show ?case by (rule start_inv)
next
  case (step s s')
  then show ?case using step_issued [OF step(2)] step_inv [OF step(2)] by force
qed

subsection \<open>What a caller gets\<close>

text \<open>
  C39. Whatever the goroutines, the worker and \<open>Close\<close> do and in whatever order, as long as fewer
  than \<open>2 ^ 64\<close> numbers were taken: the worker has answered, in order, exactly as the sequential
  specification does; and a call that returned a result or the worker's error returned the worker's
  answer to a request built from its own method and parameters - never another call's, although any
  call may read any response.  The only other outcomes are the client's own errors.
\<close>

theorem Call_own_answer:
  assumes "reachable J h st s" "issued s < 2 ^ 64" "pcs s g = Returned m ps r"
  shows "serve_spec J h st (map fst (served s)) = (None, worker s, map snd (served s))
    \<and> ((\<exists>e. r = Inl (CallErr e)) \<or>
       (\<exists>(q, p) \<in> set (served s). NewRequest J (RID q) m ps = Inr q \<and> PID p = RID q \<and>
          r = (case PError p of Some e \<Rightarrow> Inl (CallRpc e) | None \<Rightarrow> Inr (PResult p))))"
proof -
  have i: "inv J h st s" by (rule reachable_inv [OF assms(1,2)])
  have "own_pc J s (Returned m ps r)" using invD(2) [OF i, of g] assms(3) by simp
  then show ?thesis using invD(8) [OF i] by (auto simp: answered_def split: sum.splits CallError.splits)
qed

text \<open>
  C40. A call made while nothing is in flight returns: if the client is open, the request can be
  built and written, and the worker's answer can be written, there is a run in which the call takes
  the next number, the worker handles the request in its current state and the call returns that
  answer; the wires are empty again and no other goroutine has moved.
\<close>

theorem Call_completes:
  assumes "pcs s g = Idle" "\<not> closed (client s)" "requests s = []" "responses s = []"
    and "send_call J (nextID (client s) + 1) m ps = Inr q"
    and "dispatch J h (worker s) q = (st', p)" "WriteResponse J [] p = Inr raw"
  shows "\<exists>s'. steps J h s s' \<and> pcs s' = (pcs s)(g := Returned m ps
        (case PError p of Some e \<Rightarrow> Inl (CallRpc e) | None \<Rightarrow> Inr (PResult p)))
    \<and> requests s' = [] \<and> responses s' = [] \<and> worker s' = st' \<and> served s' = served s @ [(q, p)]
    \<and> nextID (client s') = nextID (client s) + 1 \<and> \<not> closed (client s')"
proof -
  let ?i = "nextID (client s) + 1" and ?c = "(client s)\<lparr>nextID := nextID (client s) + 1\<rparr>"
  let ?s1 = "s\<lparr>pcs := (pcs s)(g := Calling m ps)\<rparr>"
  let ?s2 = "s\<lparr>client := ?c, pcs := (pcs s)(g := Numbered m ps ?i), issued := issued s + 1\<rparr>"
  let ?s3 = "?s2\<lparr>pcs := (pcs s)(g := Waiting m ps q), requests := [q]\<rparr>"
  let ?s4 = "?s3\<lparr>requests := [], responses := [p], worker := st', served := served s @ [(q, p)]\<rparr>"
  let ?s5 = "?s4\<lparr>pcs := (pcs s)(g := Returned m ps (accept (RID q) p)), responses := []\<rparr>"
  have t: "take_id (client s) = (?c, Inr ?i)" using assms(2) by (simp add: take_id_def Let_def)
  have "step J h s ?s1" using step.call assms(1) by metis
  moreover have "step J h ?s1 ?s2" using step.number [of ?s1 g m ps ?c ?i J h] t by simp
  moreover have "step J h ?s2 ?s3" using step.send [of ?s2 g m ps ?i J q h] assms(3,5) by simp
  moreover have "step J h ?s3 ?s4" using step.serve [of ?s3 q "[]" J h st' p raw] assms(4,6,7) by simp
  moreover have "step J h ?s4 ?s5" using step.read [of ?s4 g m ps q p "[]" J h] by simp
  ultimately have "steps J h s ?s5"
    by (meson converse_rtranclp_into_rtranclp rtranclp.rtrancl_refl)
  moreover have "PID p = RID q" by (rule dispatch_id [OF assms(6)])
  then have "accept (RID q) p = (case PError p of Some e \<Rightarrow> Inl (CallRpc e) | None \<Rightarrow> Inr (PResult p))"
    by (simp add: accept_def)
  ultimately show ?thesis using assms(2) by (intro exI [of _ ?s5]) simp
qed

subsection \<open>Crossed responses\<close>

text \<open>
  Two goroutines in a call at the same time: the lock is not held until the response has arrived.
\<close>

definition pair_pcs :: "'v pc \<Rightarrow> 'v pc \<Rightarrow> nat \<Rightarrow> 'v pc" where
  "pair_pcs pc0 pc1 g = (if g = 0 then pc0 else if g = 1 then pc1 else Idle)"

lemma pair_pcs_simps [simp]: "pair_pcs a b 0 = a" "pair_pcs a b (Suc 0) = b"
  "(pair_pcs a b)(0 := c) = pair_pcs c b" "(pair_pcs a b)(Suc 0 := c) = pair_pcs a c"
  by (auto simp: pair_pcs_def)

definition two_calls :: "64 word \<Rightarrow> bytes pc \<Rightarrow> bytes pc \<Rightarrow> Request list \<Rightarrow> Response list \<Rightarrow> (Request \<times> Response) list
    \<Rightarrow> (nat, bytes) system" where
  "two_calls i pc0 pc1 qs rs log = \<lparr>client = \<lparr>nextID = i, closed = False\<rparr>, pcs = pair_pcs pc0 pc1,
     requests = qs, responses = rs, worker = length log, served = log, issued = unat i\<rparr>"

definition echo_answer :: "64 word \<Rightarrow> bytes \<Rightarrow> Response" where
  "echo_answer i v = \<lparr>PJsonrpc = JSONRPCVersion, PID = i, PResult = v, PError = None\<rparr>"

lemma RID_echo [simp]: "RID (echo_request i v) = i"
  by (simp add: echo_request_def)

lemma echo_call:
  assumes "field_ok v" "i = 1 \<or> i = 2" "length v \<le> 3"
  shows "send_call tally_json i ''echo'' (Some v) = Inr (echo_request i v)"
    "dispatch tally_json echo_handler n (echo_request i v) = (Suc n, echo_answer i v)"
    "\<exists>raw. WriteResponse tally_json [] (echo_answer i v) = Inr raw"
proof -
  have t: "tally 1 = ''i''" "tally 2 = ''ii''" by (code_simp, code_simp)
  have v: "CHR 0x0A \<notin> set v" using assms(1) by (simp add: field_ok_def one_line_def)
  show "send_call tally_json i ''echo'' (Some v) = Inr (echo_request i v)"
    using assms v t by (auto simp: send_call_def NewRequest_def tally_json_def WriteRequest_def WriteFrame_def
        MaxFrameSize_def echo_request_def)
  show "dispatch tally_json echo_handler n (echo_request i v) = (Suc n, echo_answer i v)"
    using assms(1) by (simp add: dispatch_def echo_handler_def echo_request_def NewResponse_def tally_json_def echo_answer_def)
  show "\<exists>raw. WriteResponse tally_json [] (echo_answer i v) = Inr raw"
    using assms v t by (auto simp: tally_json_def WriteResponse_def WriteFrame_def MaxFrameSize_def echo_answer_def)
qed

abbreviation "echo_steps \<equiv> steps tally_json echo_handler"

lemma both_sent:
  "echo_steps (start 0) (two_calls 2 (Waiting ''echo'' (Some ''7'') (echo_request 1 ''7''))
     (Waiting ''echo'' (Some ''9'') (echo_request 2 ''9'')) [] [echo_answer 1 ''7'', echo_answer 2 ''9'']
     [(echo_request 1 ''7'', echo_answer 1 ''7''), (echo_request 2 ''9'', echo_answer 2 ''9'')])"
proof -
  let ?step = "step tally_json echo_handler" and ?c0 = "Calling ''echo'' (Some ''7'')" and ?c1 = "Calling ''echo'' (Some ''9'')"
  let ?n0 = "Numbered ''echo'' (Some ''7'') 1" and ?n1 = "Numbered ''echo'' (Some ''9'') 2"
  let ?q0 = "echo_request 1 ''7''" and ?q1 = "echo_request 2 ''9''"
  let ?w0 = "Waiting ''echo'' (Some ''7'') ?q0" and ?w1 = "Waiting ''echo'' (Some ''9'') ?q1"
  let ?p0 = "echo_answer 1 ''7''" and ?p1 = "echo_answer 2 ''9''"
  have ok: "field_ok ''7''" "field_ok ''9''" by (simp_all add: field_ok_def one_line_def)
  note def = two_calls_def take_id_def Let_def
  have a0: "start 0 = two_calls 0 Idle Idle [] [] []" by (auto simp: start_def NewClient_def two_calls_def pair_pcs_def)
  have a1: "?step (two_calls 0 Idle Idle [] [] []) (two_calls 0 ?c0 Idle [] [] [])"
    using step.call [of "two_calls 0 Idle Idle [] [] []" 0] by (simp add: def)
  have a2: "?step (two_calls 0 ?c0 Idle [] [] []) (two_calls 0 ?c0 ?c1 [] [] [])"
    using step.call [of "two_calls 0 ?c0 Idle [] [] []" 1] by (simp add: def)
  have a3: "?step (two_calls 0 ?c0 ?c1 [] [] []) (two_calls 1 ?n0 ?c1 [] [] [])"
    using step.number [of "two_calls 0 ?c0 ?c1 [] [] []" 0] by (simp add: def)
  have a4: "?step (two_calls 1 ?n0 ?c1 [] [] []) (two_calls 2 ?n0 ?n1 [] [] [])"
    using step.number [of "two_calls 1 ?n0 ?c1 [] [] []" 1 "''echo''" "Some ''9''" "\<lparr>nextID = 2, closed = False\<rparr>" 2]
    by (simp add: def flip: numeral_2_eq_2)
  have a5: "?step (two_calls 2 ?n0 ?n1 [] [] []) (two_calls 2 ?w0 ?n1 [?q0] [] [])"
    using step.send [of "two_calls 2 ?n0 ?n1 [] [] []" 0] echo_call(1) [OF ok(1), of 1] by (simp add: def)
  have a6: "?step (two_calls 2 ?w0 ?n1 [?q0] [] []) (two_calls 2 ?w0 ?w1 [?q0, ?q1] [] [])"
    using step.send [of "two_calls 2 ?w0 ?n1 [?q0] [] []" 1] echo_call(1) [OF ok(2), of 2] by (simp add: def)
  have a7: "?step (two_calls 2 ?w0 ?w1 [?q0, ?q1] [] []) (two_calls 2 ?w0 ?w1 [?q1] [?p0] [(?q0, ?p0)])"
    using step.serve [of "two_calls 2 ?w0 ?w1 [?q0, ?q1] [] []"] echo_call(2,3) [OF ok(1), of 1] by (auto simp: def)
  have a8: "?step (two_calls 2 ?w0 ?w1 [?q1] [?p0] [(?q0, ?p0)])
      (two_calls 2 ?w0 ?w1 [] [?p0, ?p1] [(?q0, ?p0), (?q1, ?p1)])"
    using step.serve [of "two_calls 2 ?w0 ?w1 [?q1] [?p0] [(?q0, ?p0)]"] echo_call(2,3) [OF ok(2), of 2] by (auto simp: def)
  note into = rtranclp.rtrancl_into_rtrancl [of "step tally_json echo_handler"]
  show ?thesis unfolding a0
    by (rule into [OF _ a8], rule into [OF _ a7], rule into [OF _ a6], rule into [OF _ a5], rule into [OF _ a4],
        rule into [OF _ a3], rule into [OF _ a2], rule into [OF _ a1], rule rtranclp.rtrancl_refl)
qed

lemma crossed_calls:
  "\<exists>s. reachable tally_json echo_handler 0 s
    \<and> map snd (served s) = [echo_answer 1 ''7'', echo_answer 2 ''9'']
    \<and> pcs s 0 = Returned ''echo'' (Some ''7'') (Inl (CallErr ''subproc: response id=2 does not match request id=1''))
    \<and> pcs s 1 = Returned ''echo'' (Some ''9'') (Inl (CallErr ''subproc: response id=1 does not match request id=2''))"
proof -
  let ?step = "step tally_json echo_handler" and ?q0 = "echo_request 1 ''7''" and ?q1 = "echo_request 2 ''9''"
  let ?w0 = "Waiting ''echo'' (Some ''7'') ?q0" and ?w1 = "Waiting ''echo'' (Some ''9'') ?q1"
  let ?p0 = "echo_answer 1 ''7''" and ?p1 = "echo_answer 2 ''9''"
  let ?log = "[(?q0, ?p0), (?q1, ?p1)]"
  let ?r0 = "Returned ''echo'' (Some ''7'') (accept 1 ?p1)" and ?r1 = "Returned ''echo'' (Some ''9'') (accept 2 ?p0)"
  have "?step (two_calls 2 ?w0 ?w1 [] [?p0, ?p1] ?log) (two_calls 2 ?w0 ?r1 [] [?p1] ?log)"
    using step.read [of "two_calls 2 ?w0 ?w1 [] [?p0, ?p1] ?log" 1] by (simp add: two_calls_def)
  moreover have "?step (two_calls 2 ?w0 ?r1 [] [?p1] ?log) (two_calls 2 ?r0 ?r1 [] [] ?log)"
    using step.read [of "two_calls 2 ?w0 ?r1 [] [?p1] ?log" 0] by (simp add: two_calls_def)
  ultimately have "reachable tally_json echo_handler 0 (two_calls 2 ?r0 ?r1 [] [] ?log)"
    unfolding reachable_def using both_sent by (meson rtranclp.rtrancl_into_rtrancl)
  moreover have "itoa 1 = ''1''" "itoa 2 = ''2''" by (code_simp, code_simp)
  then have "accept 1 ?p1 = Inl (CallErr ''subproc: response id=2 does not match request id=1'')"
    "accept 2 ?p0 = Inl (CallErr ''subproc: response id=1 does not match request id=2'')"
    by (simp_all add: accept_def echo_answer_def)
  ultimately show ?thesis
    by (intro exI [of _ "two_calls 2 ?r0 ?r1 [] [] ?log"]) (simp add: two_calls_def)
qed

text \<open>Witnesses: the same two calls, both of which read their own response; and one call alone.\<close>

theorem Call_own_answer_witness:
  "\<exists>s. reachable tally_json echo_handler 0 s \<and> issued s < 2 ^ 64
     \<and> pcs s 0 = Returned ''echo'' (Some ''7'') (Inr ''7'')
     \<and> serve_spec tally_json echo_handler 0 (map fst (served s)) = (None, worker s, map snd (served s))"
proof -
  let ?step = "step tally_json echo_handler" and ?q0 = "echo_request 1 ''7''" and ?q1 = "echo_request 2 ''9''"
  let ?w0 = "Waiting ''echo'' (Some ''7'') ?q0" and ?w1 = "Waiting ''echo'' (Some ''9'') ?q1"
  let ?p0 = "echo_answer 1 ''7''" and ?p1 = "echo_answer 2 ''9''"
  let ?log = "[(?q0, ?p0), (?q1, ?p1)]" and ?r0 = "Returned ''echo'' (Some ''7'') (Inr ''7'')"
  let ?s = "two_calls 2 ?r0 ?w1 [] [?p1] ?log"
  have "accept 1 ?p0 = Inr ''7''" by (simp add: accept_def echo_answer_def)
  then have "?step (two_calls 2 ?w0 ?w1 [] [?p0, ?p1] ?log) ?s"
    using step.read [of "two_calls 2 ?w0 ?w1 [] [?p0, ?p1] ?log" 0 "''echo''" "Some ''7''" ?q0 ?p0 "[?p1]"]
    by (simp add: two_calls_def)
  then have r: "reachable tally_json echo_handler 0 ?s"
    unfolding reachable_def using both_sent by (meson rtranclp.rtrancl_into_rtrancl)
  moreover have i: "issued ?s < 2 ^ 64" and p: "pcs ?s 0 = ?r0" by (simp_all add: two_calls_def)
  ultimately show ?thesis using Call_own_answer [OF r i p] by blast
qed

theorem Call_completes_witness:
  "\<exists>s'. echo_steps (start 0) s' \<and> pcs s' 5 = Returned ''echo'' (Some ''7'') (Inr ''7'') \<and> worker s' = 1"
proof -
  have ok: "field_ok ''7''" by (simp add: field_ok_def one_line_def)
  obtain raw where raw: "WriteResponse tally_json [] (echo_answer 1 ''7'') = Inr raw"
    using echo_call(3) [OF ok, of 1] by auto
  have "send_call tally_json (nextID (client (start 0 :: (nat, bytes) system)) + 1) ''echo'' (Some ''7'') = Inr (echo_request 1 ''7'')"
    using echo_call(1) [OF ok, of 1] by (simp add: start_def NewClient_def)
  moreover have "dispatch tally_json echo_handler (worker (start 0)) (echo_request 1 ''7'') = (1, echo_answer 1 ''7'')"
    using echo_call(2) [OF ok, of 1 0] by (simp add: start_def)
  ultimately show ?thesis
    using Call_completes [of "start 0" 5 tally_json "''echo''" "Some ''7''" "echo_request 1 ''7''" echo_handler 1
        "echo_answer 1 ''7''" raw] raw
    by (auto simp: start_def NewClient_def echo_answer_def)
qed

end
