(* ===== verification/Go_Os.thy ===== *)
theory Go_Os
  imports Go_Path
begin

section \<open>Sequences of file operations\<close>

text \<open>
  What the writers of files rely on of Go's os package.  An operation comes with the error its caller
  returns when it fails, and a run does the operations in order until one fails.
\<close>

text \<open>
  The operating system: the directory \<open>MkdirTemp\<close> makes, and which calls succeed.  The operations
  done are logged; the first that fails ends the build.
\<close>

datatype os_op = Mkdir bytes | WriteFile bytes bytes | RemoveAll bytes

record os =
  MkdirTemp :: "bytes option"
  OpOk :: "os_op \<Rightarrow> bool"

fun run_ops :: "os \<Rightarrow> (os_op \<times> 'e) list \<Rightarrow> os_op list \<times> 'e option" where
  "run_ops os [] = ([], None)"
| "run_ops os ((a, e) # as) =
    (if OpOk os a then (case run_ops os as of (log, r) \<Rightarrow> (a # log, r)) else ([], Some e))"

text \<open>The loop over the operations stops at the first one that fails.\<close>

lemma run_ops_stop:
  "run_ops os as = (log, r) \<Longrightarrow>
    list_all (OpOk os) log \<and> prefix log (map fst as) \<and> (r = None \<longleftrightarrow> log = map fst as)
    \<and> (\<forall>e. r = Some e \<longrightarrow> (\<exists>a. a \<in> set as \<and> snd a = e \<and> \<not> OpOk os (fst a)))"
proof (induction os as arbitrary: log r rule: run_ops.induct)
  case (2 os a e as)
  show ?case
  proof (cases "OpOk os a")
    case True
    obtain l where l: "run_ops os as = (l, r)" "log = a # l"
      using 2(2) True by (auto split: prod.splits)
    then show ?thesis using 2(1) [OF True l(1)] True by auto
  qed (use 2(2) in auto)
qed simp

lemma run_ops_append:
  "run_ops os (as @ bs) =
    (case run_ops os as of (l, Some e) \<Rightarrow> (l, Some e) | (l, None) \<Rightarrow> (case run_ops os bs of (l', r) \<Rightarrow> (l @ l', r)))"
  by (induction os as rule: run_ops.induct) (auto split: prod.split option.split)

end
