(* ===== verification/Venv.thy ===== *)
theory Venv
  imports Go_Sort "HOL-Library.AList"
begin

section \<open>The Python workspace (build/venv.go)\<close>

text \<open>
  The workspace the bridge lays out for a build: its settings, its member modules and the
  dependencies its project file declares.  The map of dependencies is an association list with
  distinct keys; the renderer sorts its keys, so the order of the list shows nowhere.
\<close>

subsection \<open>State\<close>

datatype VenvMemberKind = MemberUser | MemberWrapper | MemberRuntime

fun VenvMemberKind_String :: "VenvMemberKind \<Rightarrow> bytes" where
  "VenvMemberKind_String MemberUser = ''user''"
| "VenvMemberKind_String MemberWrapper = ''wrapper''"
| "VenvMemberKind_String MemberRuntime = ''runtime''"

record VenvMember =
  VmName :: bytes
  VmPath :: bytes
  VmKind :: VenvMemberKind

record Venv =
  RequiresPython :: bytes
  Implementation :: bytes
  RuntimeMode :: bytes
  AsyncMode :: bytes
  FreeThreaded :: bool
  Members :: "VenvMember list"
  SharedDependencies :: "(bytes \<times> bytes) list"
  StubgenFallback :: bool
  SidecarGlob :: bytes

definition DefaultVenv :: Venv where
  "DefaultVenv =
    \<lparr>RequiresPython = ''>=3.12,<3.15'', Implementation = ''cpython'', RuntimeMode = ''embedded'',
     AsyncMode = ''per-call'', FreeThreaded = False, Members = [],
     SharedDependencies = [(''mochi-python-runtime'', ''>=0.6,<0.7'')],
     StubgenFallback = True, SidecarGlob = ''*_externs.py''\<rparr>"

subsection \<open>Operations\<close>

definition member_less :: "VenvMember \<Rightarrow> VenvMember \<Rightarrow> bool" where
  "member_less a b \<longleftrightarrow> VmPath a < VmPath b"

definition AddMember :: "VenvMember \<Rightarrow> Venv \<Rightarrow> Venv" where
  "AddMember m v =
    (if list_ex (\<lambda>e. VmPath e = VmPath m) (Members v) then v
     else v\<lparr>Members := sort_stable member_less (Members v @ [m])\<rparr>)"

definition AddSharedDep :: "bytes \<Rightarrow> bytes \<Rightarrow> Venv \<Rightarrow> Venv" where
  "AddSharedDep name req v = v\<lparr>SharedDependencies := AList.update name req (SharedDependencies v)\<rparr>"

text \<open>\<open>%t\<close> and the lines of the project file.\<close>

definition fmt_bool :: "bool \<Rightarrow> bytes" where
  "fmt_bool b = (if b then ''true'' else ''false'')"

definition setting :: "(int \<Rightarrow> bool) \<Rightarrow> bytes \<Rightarrow> bytes \<Rightarrow> bytes" where
  "setting ip key v = (if v \<noteq> [] then key @ '' = '' @ quote ip v @ nl else [])"

definition dependency_line :: "(int \<Rightarrow> bool) \<Rightarrow> (bytes \<times> bytes) list \<Rightarrow> bytes \<Rightarrow> bytes" where
  "dependency_line ip deps name =
    (case map_of deps name of
       None \<Rightarrow> ''    '' @ quote ip name @ '','' @ nl
     | Some req \<Rightarrow>
         if req = [] then ''    '' @ quote ip name @ '','' @ nl
         else ''    '' @ quote ip (name @ req) @ '','' @ nl)"

definition dependencies_text :: "(int \<Rightarrow> bool) \<Rightarrow> (bytes \<times> bytes) list \<Rightarrow> bytes" where
  "dependencies_text ip deps =
    (if deps \<noteq> [] then
       ''dependencies = ['' @ nl
       @ concat (map (dependency_line ip deps) (sort_strings (map fst deps)))
       @ '']'' @ nl
     else [])"

definition member_line :: "(int \<Rightarrow> bool) \<Rightarrow> VenvMember \<Rightarrow> bytes" where
  "member_line ip m =
    quote ip (VmPath m) @ '' = { name = '' @ quote ip (VmName m)
    @ '', kind = '' @ quote ip (VenvMemberKind_String (VmKind m)) @ '' }'' @ nl"

definition members_text :: "(int \<Rightarrow> bool) \<Rightarrow> VenvMember list \<Rightarrow> bytes" where
  "members_text ip ms =
    (if ms \<noteq> [] then
       ''[python.wrappers]'' @ nl
       @ concat (map (member_line ip) (filter (\<lambda>m. VmKind m = MemberWrapper) ms)) @ nl
       @ ''[python.members]'' @ nl
       @ concat (map (member_line ip) ms) @ nl
     else [])"

definition RenderPyprojectToml :: "(int \<Rightarrow> bool) \<Rightarrow> Venv \<Rightarrow> bytes" where
  "RenderPyprojectToml ip v =
    ''# Auto-generated by MEP-71 bridge. Do not edit by hand.'' @ nl
    @ ''# Regenerate via `mochi pkg lock`.'' @ nl @ nl
    @ ''[build-system]'' @ nl
    @ ''requires = [\"setuptools>=68\", \"wheel\"]'' @ nl
    @ ''build-backend = \"setuptools.build_meta\"'' @ nl @ nl
    @ ''[project]'' @ nl
    @ ''name = \"mochi-app\"'' @ nl
    @ ''version = \"0.0.0\"'' @ nl
    @ setting ip ''requires-python'' (RequiresPython v)
    @ dependencies_text ip (SharedDependencies v)
    @ nl
    @ ''[python]'' @ nl
    @ setting ip ''implementation'' (Implementation v)
    @ setting ip ''runtime-mode'' (RuntimeMode v)
    @ setting ip ''async-mode'' (AsyncMode v)
    @ ''free-threaded = '' @ fmt_bool (FreeThreaded v) @ nl
    @ ''stubgen-fallback = '' @ fmt_bool (StubgenFallback v) @ nl
    @ setting ip ''sidecar-glob'' (SidecarGlob v)
    @ nl
    @ members_text ip (Members v)"

datatype VenvError =
    BadImplementation bytes | BadRuntimeMode bytes | BadAsyncMode bytes
  | EmptyMemberName bytes | EmptyMemberPath bytes | DuplicateMemberPath bytes

fun check_members :: "bytes set \<Rightarrow> VenvMember list \<Rightarrow> VenvError option" where
  "check_members seen [] = None"
| "check_members seen (m # ms) =
    (if VmName m = [] then Some (EmptyMemberName (VmPath m))
     else if VmPath m = [] then Some (EmptyMemberPath (VmName m))
     else if VmPath m \<in> seen then Some (DuplicateMemberPath (VmPath m))
     else check_members (insert (VmPath m) seen) ms)"

definition Venv_Validate :: "Venv \<Rightarrow> VenvError option" where
  "Venv_Validate v =
    (if Implementation v \<noteq> [] \<and> Implementation v \<noteq> ''cpython'' then Some (BadImplementation (Implementation v))
     else if RuntimeMode v \<notin> {[], ''embedded'', ''subprocess''} then Some (BadRuntimeMode (RuntimeMode v))
     else if AsyncMode v \<notin> {[], ''per-call'', ''persistent''} then Some (BadAsyncMode (AsyncMode v))
     else check_members {} (Members v))"

subsection \<open>Facts\<close>

interpretation members: sort_less member_less
proof -
  have "sort_less (\<lambda>a b. VmPath a < VmPath b)" by (rule sort_less_key [OF sort_less_lin])
  then show "sort_less member_less" by (simp add: member_less_def [abs_def])
qed

lemma members_tied: "members.tied a b \<longleftrightarrow> VmPath a = VmPath b"
  by (auto simp: members.tied_def member_less_def)

lemma check_members_None:
  "check_members seen ms = None \<longleftrightarrow>
     (\<forall>m \<in> set ms. VmName m \<noteq> [] \<and> VmPath m \<noteq> [] \<and> VmPath m \<notin> seen) \<and> distinct (map VmPath ms)"
  by (induction ms arbitrary: seen) (auto simp: image_iff)

text \<open>The invariant of the workspace: members sorted by distinct paths, dependencies with distinct names.\<close>

definition venv_inv :: "Venv \<Rightarrow> bool" where
  "venv_inv v \<longleftrightarrow> sorted (map VmPath (Members v)) \<and> distinct (map VmPath (Members v))
    \<and> distinct (map fst (SharedDependencies v))"

lemma sorted_members:
  "distinct (map VmPath ms) \<Longrightarrow>
    sorted (map VmPath (sort_stable member_less ms)) \<and> distinct (map VmPath (sort_stable member_less ms))"
proof -
  assume d: "distinct (map VmPath ms)"
  have "sorted_wrt (\<lambda>a b. \<not> member_less b a) (sort_stable member_less ms)"
    by (rule members.sorted_sort_stable)
  then have "sorted (map VmPath (sort_stable member_less ms))"
    by (auto simp: sorted_wrt_map member_less_def not_less elim!: sorted_wrt_mono_rel [rotated])
  moreover have "mset (map VmPath (sort_stable member_less ms)) = mset (map VmPath ms)" by simp
  then have "distinct (map VmPath (sort_stable member_less ms))" using d by (metis mset_eq_imp_distinct_iff)
  ultimately show ?thesis by simp
qed

lemma inv_DefaultVenv: "venv_inv DefaultVenv"
  by (simp add: venv_inv_def DefaultVenv_def)

lemma inv_AddMember:
  assumes "venv_inv v"
  shows "venv_inv (AddMember m v)" "\<exists>e \<in> set (Members (AddMember m v)). VmPath e = VmPath m"
    "set (Members v) \<subseteq> set (Members (AddMember m v))"
    "set (Members (AddMember m v)) \<subseteq> insert m (set (Members v))"
proof -
  show "venv_inv (AddMember m v)"
  proof (cases "list_ex (\<lambda>e. VmPath e = VmPath m) (Members v)")
    case False
    then have "distinct (map VmPath (Members v @ [m]))"
      using assms by (auto simp: list_ex_iff venv_inv_def)
    from sorted_members [OF this] show ?thesis using False assms by (simp add: AddMember_def venv_inv_def)
  qed (use assms in \<open>simp add: AddMember_def\<close>)
  show "\<exists>e \<in> set (Members (AddMember m v)). VmPath e = VmPath m"
    "set (Members v) \<subseteq> set (Members (AddMember m v))" "set (Members (AddMember m v)) \<subseteq> insert m (set (Members v))"
    by (auto simp: AddMember_def list_ex_iff)
qed

lemma inv_AddSharedDep: "venv_inv v \<Longrightarrow> venv_inv (AddSharedDep n r v)"
  by (simp add: venv_inv_def AddSharedDep_def distinct_update)

text \<open>Two workspaces with the same settings, members and dependencies render to the same text.\<close>

definition same_venv :: "Venv \<Rightarrow> Venv \<Rightarrow> bool" where
  "same_venv a b \<longleftrightarrow> a\<lparr>SharedDependencies := []\<rparr> = b\<lparr>SharedDependencies := []\<rparr>
     \<and> map_of (SharedDependencies a) = map_of (SharedDependencies b)"

lemma dependencies_text_cong:
  assumes "distinct (map fst a)" "distinct (map fst b)" "map_of a = map_of b"
  shows "dependencies_text ip a = dependencies_text ip b"
proof -
  have keys: "set (map fst a) = set (map fst b)" using assms(3) by (metis dom_map_of_conv_image_fst set_map)
  then have "sort_strings (map fst a) = sort_strings (map fst b)"
    unfolding sort_strings_def using assms(1,2) by (intro sorted_distinct_set_unique) auto
  moreover have "a = [] \<longleftrightarrow> b = []" using keys by auto
  moreover have "dependency_line ip a = dependency_line ip b" using assms(3) by (simp add: dependency_line_def fun_eq_iff)
  ultimately show ?thesis by (simp add: dependencies_text_def)
qed

lemma render_same:
  assumes "venv_inv a" "venv_inv b" "same_venv a b"
  shows "RenderPyprojectToml ip a = RenderPyprojectToml ip b"
proof -
  have "dependencies_text ip (SharedDependencies a) = dependencies_text ip (SharedDependencies b)"
    using assms by (intro dependencies_text_cong) (auto simp: venv_inv_def same_venv_def)
  moreover have "RequiresPython a = RequiresPython b" "Implementation a = Implementation b"
    "RuntimeMode a = RuntimeMode b" "AsyncMode a = AsyncMode b" "FreeThreaded a = FreeThreaded b"
    "Members a = Members b" "StubgenFallback a = StubgenFallback b" "SidecarGlob a = SidecarGlob b"
    using assms(3) by (cases a; cases b; simp add: same_venv_def)+
  ultimately show ?thesis by (simp add: RenderPyprojectToml_def)
qed

text \<open>Additions of members with different paths and of dependencies with different names commute.\<close>

lemma sorted_members_unique:
  assumes "sorted (map VmPath xs) \<and> distinct (map VmPath xs)" "sorted (map VmPath ys) \<and> distinct (map VmPath ys)"
    "set xs = set ys"
  shows "xs = ys"
  using assms by (intro map_sorted_distinct_set_unique [of VmPath]) (auto simp: distinct_map)

lemma Members_AddMember:
  "set (Members (AddMember m v)) =
    (if \<exists>e \<in> set (Members v). VmPath e = VmPath m then set (Members v) else insert m (set (Members v)))"
  by (auto simp: AddMember_def list_ex_iff)

lemma AddMember_commute:
  assumes "venv_inv v" "VmPath m \<noteq> VmPath n"
  shows "AddMember m (AddMember n v) = AddMember n (AddMember m v)"
proof -
  have "set (Members (AddMember m (AddMember n v))) = set (Members (AddMember n (AddMember m v)))"
    using assms(2) by (auto simp: Members_AddMember)
  then have "Members (AddMember m (AddMember n v)) = Members (AddMember n (AddMember m v))"
    using inv_AddMember(1) [OF inv_AddMember(1) [OF assms(1)]] by (intro sorted_members_unique) (auto simp: venv_inv_def)
  moreover have "\<exists>ms. AddMember k w = w\<lparr>Members := ms\<rparr>" for k w
    by (cases "list_ex (\<lambda>e. VmPath e = VmPath k) (Members w)")
      (auto simp: AddMember_def intro: exI [of _ "Members w"])
  ultimately show ?thesis by (metis Venv.surjective Venv.update_convs(6) Venv.select_convs(6))
qed

end
