(* ===== verification/Wrapper_Runtime.thy ===== *)
theory Wrapper_Runtime
  imports Wrapper
begin

section \<open>The runtime module shipped with the wrappers (wrapper/runtime.go)\<close>

text \<open>The two constant texts the build writes beside the wrappers, line by line.\<close>

definition unlines :: "bytes list \<Rightarrow> bytes" where
  "unlines ls = concat (map (\<lambda>l. l @ nl) ls)"

definition section_sign :: bytes where
  "section_sign = [CHR 0xC2, CHR 0xA7]"

definition runtimePY :: bytes where
  "runtimePY = unlines [
    ''# Auto-generated by mochi pkg lock '' @ em_dash @ '' do not edit.'',
    ''# MEP-71 wrapper runtime helpers. Shared by every <pkg>_externs.py.'',
    '''',
    ''from __future__ import annotations'',
    '''',
    ''import asyncio'',
    ''import dataclasses'',
    ''from typing import Any, Awaitable, Iterable, Iterator'',
    '''',
    '''',
    ''def _run_async(awaitable: Awaitable[Any]) -> Any:'',
    ''    \"\"\"Per-call asyncio.run shim. Creates a fresh event loop per call.'',
    '''',
    ''    The wrapper's default async lowering. See MEP-71 '' @ section_sign @ ''7.'',
    ''    \"\"\"'',
    ''    return asyncio.run(awaitable)'',
    '''',
    '''',
    ''_PERSISTENT_LOOP: asyncio.AbstractEventLoop | None = None'',
    '''',
    '''',
    ''def _persistent_loop() -> asyncio.AbstractEventLoop:'',
    ''    \"\"\"Process-global asyncio event loop. Opt-in via mochi.toml'',
    ''    [python] runtime = { event-loop = \"persistent\" }. The loop is created'',
    ''    lazily on first call and reused for the lifetime of the process.'',
    ''    \"\"\"'',
    ''    global _PERSISTENT_LOOP'',
    ''    if _PERSISTENT_LOOP is None or _PERSISTENT_LOOP.is_closed():'',
    ''        _PERSISTENT_LOOP = asyncio.new_event_loop()'',
    ''    return _PERSISTENT_LOOP'',
    '''',
    '''',
    ''def _materialise_iter(it: Iterable[Any]) -> list[Any]:'',
    ''    \"\"\"Eagerly materialise a Python iterator at the wrapper boundary so the'',
    ''    Mochi side sees a concrete list. See MEP-71 '' @ section_sign @ ''3 (Iterator[T] -> list<T>).'',
    ''    \"\"\"'',
    ''    return list(it)'',
    '''',
    '''',
    ''def _to_mochi_dict(value: Any) -> Any:'',
    ''    \"\"\"Convert a value to its Mochi record form.'',
    '''',
    ''    - dataclass instances -> dict via dataclasses.asdict (recursive).'',
    ''    - TypedDict / dict pass through (dict is already record-shaped).'',
    ''    - Sequences pass through (Mochi list lowering).'',
    ''    - Scalars pass through.'',
    ''    \"\"\"'',
    ''    if dataclasses.is_dataclass(value) and not isinstance(value, type):'',
    ''        return dataclasses.asdict(value)'',
    ''    return value'']"

definition runtimePYI :: bytes where
  "runtimePYI = unlines [
    ''# Auto-generated by mochi pkg lock '' @ em_dash @ '' do not edit.'',
    ''# MEP-71 wrapper runtime helper stubs.'',
    '''',
    ''from __future__ import annotations'',
    ''from typing import Any, Awaitable, Iterable'',
    ''import asyncio'',
    '''',
    '''',
    ''def _run_async(awaitable: Awaitable[Any]) -> Any: ...'',
    '''',
    '''',
    ''def _persistent_loop() -> asyncio.AbstractEventLoop: ...'',
    '''',
    '''',
    ''def _materialise_iter(it: Iterable[Any]) -> list[Any]: ...'',
    '''',
    '''',
    ''def _to_mochi_dict(value: Any) -> Any: ...'']"

definition Runtime :: bytes where
  "Runtime = runtimePY"

definition RuntimeStub :: bytes where
  "RuntimeStub = runtimePYI"

end
