(* ===== verification/Orchestrator.thy ===== *)
theory Orchestrator
  imports Go_Os Venv Importspec Stubs_Pyi Wrapper_Runtime Emit
begin

section \<open>The build orchestrator (build/orchestrator.go, build/driver.go)\<close>

text \<open>
  One target per import: its stub is parsed, its wrapper synthesised, its shim emitted, and the
  workspace gains a member and a dependency.  The caller's workspace is behind a pointer, so \<open>Plan\<close>
  returns it as the calls have left it, also on an error.  The environment of the model holds what is
  outside: the printable runes, the Unicode classes, the digest, and what the operating system answers.
\<close>

subsection \<open>Requests and results\<close>

record Target =
  TSpec :: Spec
  TAlias :: bytes
  TPYISource :: bytes

record Request =
  Targets :: "Target list"
  ReqVenv :: "Venv option"
  WrapperOpts :: Options
  ShimOpts :: ShimOptions

record Result =
  ResWorkDir :: bytes
  VenvRoot :: bytes
  Wrappers :: "Wrapper list"
  Shims :: "Shim list"
  ResSkipped :: "SkipReport list"
  WrittenFiles :: "bytes list"

definition empty_result :: Result where
  "empty_result = \<lparr>ResWorkDir = [], VenvRoot = [], Wrappers = [], Shims = [], ResSkipped = [], WrittenFiles = []\<rparr>"

datatype PlanError =
    NilDriver | NoTargets | EmptyAlias nat bytes | EmptySpecName nat bytes | DuplicateAlias bytes
  | ParsePyiFailed bytes PyiError | SynthesiseFailed bytes SynthError | EmitFailed bytes EmitError
  | BadVenv VenvError

record env =
  IsPrint :: "int \<Rightarrow> bool"
  Unicode :: Stubs_Pyi.classes
  Sha256 :: "bytes \<Rightarrow> bytes"

subsection \<open>Plan\<close>

definition sharedDepVersion :: "Spec \<Rightarrow> bytes" where
  "sharedDepVersion s =
    (case SpSource s of
       SourceRegistry \<Rightarrow> Specifier_String (SpSpecifier s)
     | SourceIndex \<Rightarrow> Specifier_String (SpSpecifier s)
     | _ \<Rightarrow> [])"

fun check_targets :: "nat \<Rightarrow> bytes set \<Rightarrow> Target list \<Rightarrow> PlanError option" where
  "check_targets i seen [] = None"
| "check_targets i seen (t # ts) =
    (if TAlias t = [] then Some (EmptyAlias i (SpRawName (TSpec t)))
     else if SpName (TSpec t) = [] then Some (EmptySpecName i (TAlias t))
     else if TAlias t \<in> seen then Some (DuplicateAlias (TAlias t))
     else check_targets (Suc i) (insert (TAlias t) seen) ts)"

definition add_target :: "Target \<Rightarrow> Venv \<Rightarrow> Venv" where
  "add_target t v =
    AddSharedDep (SpName (TSpec t)) (sharedDepVersion (TSpec t))
      (AddMember \<lparr>VmName = TAlias t, VmPath = ''python_wrap/'' @ TAlias t, VmKind = MemberWrapper\<rparr> v)"

text \<open>The wrapper and the shim of a target; an inner \<open>None\<close> is a panic of a renderer.\<close>

definition plan_target :: "env \<Rightarrow> Options \<Rightarrow> ShimOptions \<Rightarrow> Target \<Rightarrow> PlanError + (Wrapper \<times> Shim) option" where
  "plan_target en wopts sopts t =
    (case ParsePYI (Unicode en) (TPYISource t) of
       Inl e \<Rightarrow> Inl (ParsePyiFailed (TAlias t) e)
     | Inr surface \<Rightarrow>
         (case Synthesise (IsPrint en) (SpName (TSpec t)) (Some surface) wopts of
            Inl e \<Rightarrow> Inl (SynthesiseFailed (TAlias t) e)
          | Inr None \<Rightarrow> Inr None
          | Inr (Some w) \<Rightarrow>
              (case EmitShim (Sha256 en) (Some w) sopts of
                 Inl e \<Rightarrow> Inl (EmitFailed (TAlias t) e)
               | Inr None \<Rightarrow> Inr None
               | Inr (Some s) \<Rightarrow> Inr (Some (w, s)))))"

fun plan_targets :: "env \<Rightarrow> Options \<Rightarrow> ShimOptions \<Rightarrow> Target list \<Rightarrow> Venv \<Rightarrow> Result \<Rightarrow> Venv \<times> (PlanError + Result) option" where
  "plan_targets en wopts sopts [] v res = (v, Some (Inr res))"
| "plan_targets en wopts sopts (t # ts) v res =
    (case plan_target en wopts sopts t of
       Inl e \<Rightarrow> (v, Some (Inl e))
     | Inr None \<Rightarrow> (v, None)
     | Inr (Some (w, s)) \<Rightarrow>
         plan_targets en wopts sopts ts (add_target t v)
           (res\<lparr>Wrappers := Wrappers res @ [w], Shims := Shims res @ [s], ResSkipped := ResSkipped res @ Skipped w\<rparr>))"

text \<open>The result: the workspace after the call and the outcome, \<open>None\<close> for a panic.\<close>

definition Plan :: "env \<Rightarrow> bool \<Rightarrow> Request \<Rightarrow> Venv \<times> (PlanError + Result) option" where
  "Plan en has_driver req =
    (let v = (case ReqVenv req of None \<Rightarrow> DefaultVenv | Some v \<Rightarrow> v) in
     if \<not> has_driver then (v, Some (Inl NilDriver))
     else if Targets req = [] then (v, Some (Inl NoTargets))
     else case check_targets 0 {} (Targets req) of
       Some e \<Rightarrow> (v, Some (Inl e))
     | None \<Rightarrow>
         (case plan_targets en (WrapperOpts req) (ShimOpts req) (Targets req) v empty_result of
            (v', Some (Inr res)) \<Rightarrow>
              (case Venv_Validate v' of Some e \<Rightarrow> (v', Some (Inl (BadVenv e))) | None \<Rightarrow> (v', Some (Inr res)))
          | out \<Rightarrow> out))"

subsection \<open>What a plan promises\<close>

lemma check_targets_None:
  "check_targets i seen ts = None \<longleftrightarrow>
     (\<forall>t \<in> set ts. TAlias t \<noteq> [] \<and> SpName (TSpec t) \<noteq> [] \<and> TAlias t \<notin> seen) \<and> distinct (map TAlias ts)"
  by (induction i seen ts rule: check_targets.induct) (auto simp: image_iff)

text \<open>The operations on the workspace: one fold over the targets.\<close>

definition add_targets :: "Target list \<Rightarrow> Venv \<Rightarrow> Venv" where
  "add_targets ts v = foldl (\<lambda>v t. add_target t v) v ts"

lemma add_targets_simps [simp]:
  "add_targets [] v = v" "add_targets (t # ts) v = add_targets ts (add_target t v)"
  by (simp_all add: add_targets_def)

lemma plan_targets_Some:
  assumes "plan_targets en wopts sopts ts v res = (v', Some (Inr res'))"
  shows "v' = add_targets ts v \<and> (\<exists>ps. list_all2 (\<lambda>t p. plan_target en wopts sopts t = Inr (Some p)) ts ps
    \<and> res' = res\<lparr>Wrappers := Wrappers res @ map fst ps, Shims := Shims res @ map snd ps,
        ResSkipped := ResSkipped res @ concat (map (\<lambda>p. Skipped (fst p)) ps)\<rparr>)"
  using assms
proof (induction en wopts sopts ts v res rule: plan_targets.induct)
  case (2 en wopts sopts t ts v res)
  obtain w s where p: "plan_target en wopts sopts t = Inr (Some (w, s))"
    using 2(2) by (auto split: sum.splits option.splits)
  let ?res = "res\<lparr>Wrappers := Wrappers res @ [w], Shims := Shims res @ [s], ResSkipped := ResSkipped res @ Skipped w\<rparr>"
  have "plan_targets en wopts sopts ts (add_target t v) ?res = (v', Some (Inr res'))" using 2(2) p by simp
  from 2(1) [OF p refl refl this] obtain ps where
    "v' = add_targets ts (add_target t v)" "list_all2 (\<lambda>t p. plan_target en wopts sopts t = Inr (Some p)) ts ps"
    "res' = ?res\<lparr>Wrappers := Wrappers ?res @ map fst ps, Shims := Shims ?res @ map snd ps,
        ResSkipped := ResSkipped ?res @ concat (map (\<lambda>p. Skipped (fst p)) ps)\<rparr>" by blast
  then show ?case using p by (intro conjI exI [of _ "(w, s) # ps"]) simp_all
qed simp

text \<open>Synthesis and emission never panic, so neither does a plan.\<close>

lemma Synthesise_Inr: "Synthesise ip pkg (Some sf) opts = Inr r \<Longrightarrow> pkg \<noteq> [] \<and> isValidPyIdent pkg"
  by (auto simp: Synthesise_def split: if_splits)

lemma plan_target_no_panic: "plan_target en wopts sopts t \<noteq> Inr None"
proof
  assume a: "plan_target en wopts sopts t = Inr None"
  then obtain sf where sf: "ParsePYI (Unicode en) (TPYISource t) = Inr sf"
    by (auto simp: plan_target_def split: sum.splits)
  obtain r where r: "Synthesise (IsPrint en) (SpName (TSpec t)) (Some sf) wopts = Inr r"
    using a sf by (auto simp: plan_target_def split: sum.splits)
  have pkg: "SpName (TSpec t) \<noteq> []" "isValidPyIdent (SpName (TSpec t))" using Synthesise_Inr [OF r] by auto
  from Synthesise_facts [OF pkg, of "IsPrint en" sf wopts] obtain w where w:
    "Synthesise (IsPrint en) (SpName (TSpec t)) (Some sf) wopts = Inr (Some w)" "WPackage w = SpName (TSpec t)"
    "\<forall>it \<in> set (Items w). item_ok it" by blast
  from EmitShim_Some [of w "Sha256 en" sopts] w pkg obtain s where
    "EmitShim (Sha256 en) (Some w) sopts = Inr (Some s)" by auto
  then show False using a sf w(1) by (simp add: plan_target_def)
qed

lemma plan_targets_no_panic: "snd (plan_targets en wopts sopts ts v res) \<noteq> None"
  by (induction en wopts sopts ts v res rule: plan_targets.induct)
    (use plan_target_no_panic in \<open>auto split: sum.split option.split\<close>)

lemma Plan_no_panic: "snd (Plan en d req) \<noteq> None"
proof -
  obtain v out where o: "plan_targets en (WrapperOpts req) (ShimOpts req) (Targets req)
      (case ReqVenv req of None \<Rightarrow> DefaultVenv | Some v \<Rightarrow> v) empty_result = (v, out)" by fastforce
  then have "out \<noteq> None" using plan_targets_no_panic by (metis snd_conv)
  then show ?thesis using o by (auto simp: Plan_def Let_def split: option.split sum.split)
qed

lemma Plan_Some:
  assumes "Plan en d req = (v', Some (Inr res))"
  shows "check_targets 0 {} (Targets req) = None" "Venv_Validate v' = None"
    "v' = add_targets (Targets req) (case ReqVenv req of None \<Rightarrow> DefaultVenv | Some v \<Rightarrow> v)"
    "\<exists>ps. list_all2 (\<lambda>t p. plan_target en (WrapperOpts req) (ShimOpts req) t = Inr (Some p)) (Targets req) ps
      \<and> res = empty_result\<lparr>Wrappers := map fst ps, Shims := map snd ps, ResSkipped := concat (map (\<lambda>p. Skipped (fst p)) ps)\<rparr>"
proof -
  let ?v = "case ReqVenv req of None \<Rightarrow> DefaultVenv | Some v \<Rightarrow> v"
  obtain w out where o: "plan_targets en (WrapperOpts req) (ShimOpts req) (Targets req) ?v empty_result = (w, out)"
    by fastforce
  have c: "check_targets 0 {} (Targets req) = None"
    using assms by (auto simp: Plan_def Let_def split: if_splits option.splits)
  have out: "out = Some (Inr res)" "w = v'" "Venv_Validate v' = None"
    using assms c o by (auto simp: Plan_def Let_def split: if_splits option.splits sum.splits)
  show "check_targets 0 {} (Targets req) = None" "Venv_Validate v' = None" by fact+
  have "plan_targets en (WrapperOpts req) (ShimOpts req) (Targets req) ?v empty_result = (v', Some (Inr res))"
    using o out by simp
  from plan_targets_Some [OF this]
  show "v' = add_targets (Targets req) ?v"
    "\<exists>ps. list_all2 (\<lambda>t p. plan_target en (WrapperOpts req) (ShimOpts req) t = Inr (Some p)) (Targets req) ps
      \<and> res = empty_result\<lparr>Wrappers := map fst ps, Shims := map snd ps, ResSkipped := concat (map (\<lambda>p. Skipped (fst p)) ps)\<rparr>"
    by (simp_all add: empty_result_def)
qed

subsection \<open>The driver\<close>

record driver =
  DCacheDir :: bytes
  DWorkDir :: bytes
  DNoCache :: bool
  DVerbose :: bool
  DDeterministic :: bool

record environment =
  XdgCacheHome :: bytes
  UserHomeDir :: "bytes option"
  TempDir :: bytes

definition defaultCacheDir :: "environment \<Rightarrow> bytes" where
  "defaultCacheDir e =
    (if XdgCacheHome e \<noteq> [] then path_join [XdgCacheHome e, ''mochi'', ''python-deps'']
     else case UserHomeDir e of
       Some home \<Rightarrow>
         if home \<noteq> [] then path_join [home, ''.cache'', ''mochi'', ''python-deps'']
         else path_join [TempDir e, ''mochi-cache'', ''python-deps'']
     | None \<Rightarrow> path_join [TempDir e, ''mochi-cache'', ''python-deps''])"

definition NewDriver :: "environment \<Rightarrow> driver \<Rightarrow> driver" where
  "NewDriver e opts = (if DCacheDir opts = [] then opts\<lparr>DCacheDir := defaultCacheDir e\<rparr> else opts)"

definition CacheDir :: "driver \<Rightarrow> bytes" where
  "CacheDir d = (if DNoCache d then [] else DCacheDir d)"

datatype BuildError =
    PlanFailed PlanError | AllocWorkDir | CreateWorkDir bytes | CreateCacheDir bytes | NotPrepared
  | RootVenv VenvError | CreateVenvRoot bytes | WriteManifest | WriteGitignore
  | WriteRuntime | WriteRuntimeStub | TargetMkdir bytes | TargetWrite bytes bytes | WriteSkipped bytes
  | CleanupWorkDir bytes

definition PrepareVenv :: "os \<Rightarrow> driver \<Rightarrow> driver \<times> os_op list \<times> (BuildError + Venv)" where
  "PrepareVenv os d =
    (case (if DWorkDir d = [] then
             (case MkdirTemp os of None \<Rightarrow> (d, [], Some AllocWorkDir) | Some dir \<Rightarrow> (d\<lparr>DWorkDir := dir\<rparr>, [], None))
           else (d, run_ops os [(Mkdir (DWorkDir d), CreateWorkDir (DWorkDir d))])) of
       (d, log, Some e) \<Rightarrow> (d, log, Inl e)
     | (d, log, None) \<Rightarrow>
         if DNoCache d then (d, log, Inr DefaultVenv)
         else case run_ops os [(Mkdir (DCacheDir d), CreateCacheDir (DCacheDir d))] of
           (log', None) \<Rightarrow> (d, log @ log', Inr DefaultVenv)
         | (log', Some e) \<Rightarrow> (d, log @ log', Inl e))"

definition gitignore :: bytes where
  "gitignore = ''.venv/'' @ nl @ ''__pycache__/'' @ nl @ ''*.pyc'' @ nl"

definition root_ops :: "(int \<Rightarrow> bool) \<Rightarrow> bytes \<Rightarrow> Venv \<Rightarrow> (os_op \<times> BuildError) list" where
  "root_ops ip root v =
    [(Mkdir root, CreateVenvRoot root),
     (WriteFile (path_join [root, ''pyproject.toml'']) (RenderPyprojectToml ip v), WriteManifest),
     (WriteFile (path_join [root, ''.gitignore'']) gitignore, WriteGitignore)]"

definition WriteVenvRoot :: "(int \<Rightarrow> bool) \<Rightarrow> os \<Rightarrow> driver \<Rightarrow> Venv \<Rightarrow> os_op list \<times> (BuildError + bytes)" where
  "WriteVenvRoot ip os d v =
    (if DWorkDir d = [] then ([], Inl NotPrepared)
     else case Venv_Validate v of
       Some e \<Rightarrow> ([], Inl (RootVenv e))
     | None \<Rightarrow>
         (let root = path_join [DWorkDir d, ''python_workspace''] in
          case run_ops os (root_ops ip root v) of
            (log, Some e) \<Rightarrow> (log, Inl e)
          | (log, None) \<Rightarrow> (log, Inr root)))"

definition Cleanup :: "os \<Rightarrow> driver \<Rightarrow> driver \<times> os_op list \<times> BuildError option" where
  "Cleanup os d =
    (if DWorkDir d = [] then (d, [], None)
     else if \<not> has_prefix (path_base (DWorkDir d)) ''mochi-python-'' then (d, [], None)
     else case run_ops os [(RemoveAll (DWorkDir d), CleanupWorkDir (DWorkDir d))] of
       (log, Some e) \<Rightarrow> (d, log, Some e)
     | (log, None) \<Rightarrow> (d\<lparr>DWorkDir := []\<rparr>, log, None))"

subsection \<open>Build\<close>

definition tab :: bytes where
  "tab = [CHR 0x09]"

definition initPyTemplate :: "Wrapper \<Rightarrow> bytes" where
  "initPyTemplate w =
    ''# Auto-generated by MEP-71 bridge for '' @ WPackage w @ ''.'' @ nl
    @ ''from . import '' @ WModule w @ '' as externs'' @ nl
    @ ''__all__ = [\"externs\"]'' @ nl"

definition renderSkipped :: "SkipReport list \<Rightarrow> bytes" where
  "renderSkipped reports =
    ''# Auto-generated SKIPPED.txt. Items the wrapper refused.'' @ nl
    @ concat (map (\<lambda>r. ItemPath r @ tab @ SkipReason_String (Reason r) @ tab @ Detail r @ nl) reports)"

definition target_ops :: "bytes \<Rightarrow> Target \<Rightarrow> Wrapper \<Rightarrow> Shim \<Rightarrow> (os_op \<times> BuildError) list" where
  "target_ops root t w s =
    (let dir = path_join [root, ''python_wrap'', TAlias t];
         write = (\<lambda>name body. (WriteFile (path_join [dir, name]) body, TargetWrite (TAlias t) name)) in
     [(Mkdir dir, TargetMkdir (TAlias t)),
      write ''__init__.py'' (initPyTemplate w),
      write (WModule w @ ''.py'') (PySource w),
      write (WModule w @ ''.pyi'') (PYISource w),
      write (SpName (TSpec t) @ ''_shim.mochi'') (ShSource s)]
     @ (if Skipped w = [] then []
        else [(WriteFile (path_join [dir, ''SKIPPED.txt'']) (renderSkipped (Skipped w)), WriteSkipped (TAlias t))]))"

definition runtime_ops :: "bytes \<Rightarrow> (os_op \<times> BuildError) list" where
  "runtime_ops root =
    [(WriteFile (path_join [root, ''_mochi_wrap.py'']) Runtime, WriteRuntime),
     (WriteFile (path_join [root, ''_mochi_wrap.pyi'']) RuntimeStub, WriteRuntimeStub)]"

definition targets_ops :: "bytes \<Rightarrow> Target list \<Rightarrow> Wrapper list \<Rightarrow> Shim list \<Rightarrow> (os_op \<times> BuildError) list" where
  "targets_ops root ts ws ss = concat (map (\<lambda>(t, w, s). target_ops root t w s) (zip ts (zip ws ss)))"

fun file_ops :: "os_op list \<Rightarrow> bytes list" where
  "file_ops [] = []"
| "file_ops (WriteFile p b # as) = p # file_ops as"
| "file_ops (_ # as) = file_ops as"

text \<open>
  The workspace written: the one of the request, which \<open>Plan\<close> has updated in place, or a fresh one
  to which the targets are added again.
\<close>

definition build_venv :: "Request \<Rightarrow> Venv \<Rightarrow> Venv" where
  "build_venv req planned =
    (case ReqVenv req of None \<Rightarrow> add_targets (Targets req) DefaultVenv | Some _ \<Rightarrow> planned)"

definition Build ::
  "env \<Rightarrow> os \<Rightarrow> driver \<Rightarrow> Request \<Rightarrow> driver \<times> os_op list \<times> (BuildError + Result) option" where
  "Build en os d req =
    (case Plan en True req of
       (v, None) \<Rightarrow> (d, [], None)
     | (v, Some (Inl e)) \<Rightarrow> (d, [], Some (Inl (PlanFailed e)))
     | (v, Some (Inr plan)) \<Rightarrow>
         (case PrepareVenv os d of
            (d, log1, Inl e) \<Rightarrow> (d, log1, Some (Inl e))
          | (d, log1, Inr _) \<Rightarrow>
              (case WriteVenvRoot (IsPrint en) os d (build_venv req v) of
                 (log2, Inl e) \<Rightarrow> (d, log1 @ log2, Some (Inl e))
               | (log2, Inr root) \<Rightarrow>
                   (case run_ops os (runtime_ops root @ targets_ops root (Targets req) (Wrappers plan) (Shims plan)) of
                      (log3, Some e) \<Rightarrow> (d, log1 @ log2 @ log3, Some (Inl e))
                    | (log3, None) \<Rightarrow>
                        (d, log1 @ log2 @ log3,
                         Some (Inr (plan\<lparr>ResWorkDir := DWorkDir d, VenvRoot := root,
                           WrittenFiles := sort_strings (file_ops (log2 @ log3))\<rparr>)))))))"

subsection \<open>The workspace of a plan\<close>

definition target_member :: "Target \<Rightarrow> VenvMember" where
  "target_member t = \<lparr>VmName = TAlias t, VmPath = ''python_wrap/'' @ TAlias t, VmKind = MemberWrapper\<rparr>"

definition target_dep :: "Target \<Rightarrow> bytes \<times> bytes" where
  "target_dep t = (SpName (TSpec t), sharedDepVersion (TSpec t))"

lemma add_target_parts:
  "add_target t v = AddSharedDep (fst (target_dep t)) (snd (target_dep t)) (AddMember (target_member t) v)"
  "Members (add_target t v) = Members (AddMember (target_member t) v)"
  "SharedDependencies (add_target t v) = AList.update (fst (target_dep t)) (snd (target_dep t)) (SharedDependencies v)"
  by (simp_all add: add_target_def target_member_def target_dep_def AddSharedDep_def AddMember_def)

lemma inv_add_targets: "venv_inv v \<Longrightarrow> venv_inv (add_targets ts v)"
  by (induction ts arbitrary: v) (simp_all add: add_target_parts(1) inv_AddSharedDep inv_AddMember(1))

lemma settings_add_targets:
  "(add_targets ts v)\<lparr>Members := [], SharedDependencies := []\<rparr> = v\<lparr>Members := [], SharedDependencies := []\<rparr>"
  by (induction ts arbitrary: v) (simp_all add: add_target_def AddSharedDep_def AddMember_def)

lemma members_add_targets:
  "distinct (map TAlias ts) \<Longrightarrow>
    set (Members (add_targets ts v)) = set (Members v) \<union>
      {target_member t |t. t \<in> set ts \<and> (\<forall>e \<in> set (Members v). VmPath e \<noteq> VmPath (target_member t))}"
proof (induction ts arbitrary: v)
  case (Cons t ts)
  have "VmPath (target_member u) \<noteq> VmPath (target_member t)" "VmPath (target_member t) \<noteq> VmPath (target_member u)"
    if "u \<in> set ts" for u using Cons.prems that by (auto simp: target_member_def image_iff)
  then show ?case using Cons.IH [of "add_target t v"] Cons.prems
    by (auto simp: add_target_parts(2) Members_AddMember)
qed simp

lemma deps_add_targets:
  "map_of (SharedDependencies (add_targets ts v)) = map_of (SharedDependencies v) ++ map_of (rev (map target_dep ts))"
  by (induction ts arbitrary: v)
    (auto simp: add_target_parts(3) update_conv' fun_eq_iff map_add_def split: option.split)

lemma add_targets_perm:
  assumes "venv_inv v" "mset ts = mset us" "distinct (map TAlias ts)" "distinct (map fst (map target_dep ts))"
  shows "same_venv (add_targets ts v) (add_targets us v)"
proof -
  have set: "set ts = set us" using assms(2) by (metis set_mset_mset)
  have d: "distinct (map TAlias us)" "distinct (map fst (map target_dep us))"
    using assms(2-4) by (metis mset_eq_imp_distinct_iff mset_map)+
  have "set (Members (add_targets ts v)) = set (Members (add_targets us v))"
    using members_add_targets [OF assms(3)] members_add_targets [OF d(1)] set by simp
  then have m: "Members (add_targets ts v) = Members (add_targets us v)"
    using inv_add_targets [OF assms(1)] by (intro sorted_members_unique) (auto simp: venv_inv_def)
  have "map_of (rev (map target_dep ts)) = map_of (rev (map target_dep us))"
  proof (subst map_of_inject_set)
    show "distinct (map fst (rev (map target_dep ts)))" "distinct (map fst (rev (map target_dep us)))"
      using assms(4) d(2) by (simp_all add: rev_map [symmetric] del: map_map)
  qed (simp add: set)
  then have "map_of (SharedDependencies (add_targets ts v)) = map_of (SharedDependencies (add_targets us v))"
    by (simp add: deps_add_targets)
  moreover have "(add_targets ts v)\<lparr>SharedDependencies := []\<rparr> = (add_targets us v)\<lparr>SharedDependencies := []\<rparr>"
    using settings_add_targets [of ts v] settings_add_targets [of us v] m
    by (cases v; cases "add_targets ts v"; cases "add_targets us v") simp
  ultimately show ?thesis by (simp add: same_venv_def)
qed

definition start_venv :: "Request \<Rightarrow> Venv" where
  "start_venv req = (case ReqVenv req of None \<Rightarrow> DefaultVenv | Some v \<Rightarrow> v)"

lemma dep_present:
  assumes "t \<in> set ts"
  shows "SpName (TSpec t) \<in> set (map fst (SharedDependencies (add_targets ts v)))"
proof -
  have "SpName (TSpec t) \<in> fst ` set (rev (map target_dep ts))"
    using assms by (auto simp: target_dep_def image_image)
  then have "SpName (TSpec t) \<in> dom (map_of (SharedDependencies (add_targets ts v)))"
    by (simp add: deps_add_targets dom_map_of_conv_image_fst)
  then show ?thesis by (simp add: dom_map_of_conv_image_fst)
qed

lemma member_present:
  assumes "t \<in> set ts" "distinct (map TAlias ts)"
  shows "\<exists>m \<in> set (Members (add_targets ts v)). VmPath m = ''python_wrap/'' @ TAlias t"
proof (cases "\<exists>e \<in> set (Members v). VmPath e = VmPath (target_member t)")
  case True
  then show ?thesis using members_add_targets [OF assms(2), of v] by (auto simp: target_member_def)
next
  case False
  then have "target_member t \<in> set (Members (add_targets ts v))"
    using members_add_targets [OF assms(2), of v] assms(1) by blast
  then show ?thesis by (intro bexI [of _ "target_member t"]) (simp_all add: target_member_def)
qed

lemma render_perm:
  assumes "venv_inv v" "mset ts = mset us" "distinct (map (\<lambda>t. SpName (TSpec t)) us)" "distinct (map TAlias us)"
  shows "RenderPyprojectToml ip (add_targets ts v) = RenderPyprojectToml ip (add_targets us v)"
proof -
  have "same_venv (add_targets us v) (add_targets ts v)"
    using assms by (intro add_targets_perm) (auto simp: target_dep_def comp_def)
  then show ?thesis using render_same inv_add_targets [OF assms(1)] by metis
qed

lemma Plan_parts:
  assumes "Plan en d req = (v', Some (Inr res))"
  shows "\<exists>ps. list_all2 (\<lambda>t p. plan_target en (WrapperOpts req) (ShimOpts req) t = Inr (Some p)) (Targets req) ps
      \<and> Wrappers res = map fst ps \<and> Shims res = map snd ps \<and> ResSkipped res = concat (map Skipped (Wrappers res))"
    "distinct (map TAlias (Targets req))" "Venv_Validate v' = None" "v' = add_targets (Targets req) (start_venv req)"
  using Plan_Some [OF assms] by (auto simp: start_venv_def check_targets_None empty_result_def comp_def)

text \<open>
  C29. A plan never panics, and a plan that succeeds has one wrapper and one shim per target in the
  order of the targets, made by the stub parser, the synthesiser and the emitter from the target, and
  all the items they skipped.  The aliases are distinct; the workspace has a member for every alias and
  a dependency for every distribution, passes its own validation, and its project file does not depend
  on the order of the targets when their distributions are different.
\<close>

theorem Plan_workspace:
  assumes "venv_inv (start_venv req)" "Plan en d req = (v', out)"
  shows "case out of None \<Rightarrow> False | Some (Inl e) \<Rightarrow> True | Some (Inr res) \<Rightarrow>
    (\<exists>ps. list_all2 (\<lambda>t p. plan_target en (WrapperOpts req) (ShimOpts req) t = Inr (Some p)) (Targets req) ps
      \<and> Wrappers res = map fst ps \<and> Shims res = map snd ps \<and> ResSkipped res = concat (map Skipped (Wrappers res)))
    \<and> distinct (map TAlias (Targets req)) \<and> Venv_Validate v' = None
    \<and> (\<forall>t \<in> set (Targets req). (\<exists>m \<in> set (Members v'). VmPath m = ''python_wrap/'' @ TAlias t)
         \<and> SpName (TSpec t) \<in> set (map fst (SharedDependencies v')))
    \<and> (\<forall>ts. mset ts = mset (Targets req) \<and> distinct (map (\<lambda>t. SpName (TSpec t)) (Targets req)) \<longrightarrow>
         RenderPyprojectToml ip (add_targets ts (start_venv req)) = RenderPyprojectToml ip v')"
proof -
  have "out \<noteq> None" using Plan_no_panic [of en d req] assms(2) by simp
  then consider e where "out = Some (Inl e)" | res where "out = Some (Inr res)"
    by (cases out; cases "the out") auto
  then show ?thesis
  proof cases
    case (2 res)
    note parts = Plan_parts [OF assms(2) [unfolded 2]]
    have "\<forall>t \<in> set (Targets req). (\<exists>m \<in> set (Members v'). VmPath m = ''python_wrap/'' @ TAlias t)
        \<and> SpName (TSpec t) \<in> set (map fst (SharedDependencies v'))"
      unfolding parts(4) using member_present [OF _ parts(2)] dep_present by blast
    moreover have "RenderPyprojectToml ip (add_targets ts (start_venv req)) = RenderPyprojectToml ip v'"
      if "mset ts = mset (Targets req)" "distinct (map (\<lambda>t. SpName (TSpec t)) (Targets req))" for ts
      unfolding parts(4) by (rule render_perm [OF assms(1) that parts(2)])
    ultimately show ?thesis using parts(1-3) 2 by simp
  qed simp
qed

definition stub_target :: "bytes \<Rightarrow> bytes \<Rightarrow> Target" where
  "stub_target name alias = \<lparr>TSpec = named name SourceRegistry, TAlias = alias,
     TPYISource = ''def get(url: str) -> List[int]: ...'' @ nl @ ''import os'' @ nl\<rparr>"

definition sample_env :: env where
  "sample_env = \<lparr>IsPrint = (\<lambda>_. True), Unicode = \<lparr>letter_rune = (\<lambda>_. False), digit_rune = (\<lambda>_. False)\<rparr>, Sha256 = rev\<rparr>"

definition sample_request :: Request where
  "sample_request = \<lparr>Targets = [stub_target ''httpx'' ''http'', stub_target ''attrs'' ''at''], ReqVenv = None,
     WrapperOpts = sample_opts, ShimOpts = DefaultOptions\<rparr>"

lemma sample_plan: "isOK (the (snd (Plan sample_env True sample_request)))"
  by code_simp

lemma Plan_workspace_witness:
  "\<exists>v res. Plan sample_env True sample_request = (v, Some (Inr res)) \<and> length (Wrappers res) = 2
     \<and> Venv_Validate v = None"
proof -
  obtain v out where p: "Plan sample_env True sample_request = (v, out)" by fastforce
  have inv: "venv_inv (start_venv sample_request)"
    by (simp add: start_venv_def sample_request_def inv_DefaultVenv)
  have "out \<noteq> None" using Plan_workspace [OF inv p, of "\<lambda>_. True"] by (cases out) auto
  then obtain res where res: "out = Some (Inr res)" using sample_plan p by (auto simp: isOK_iff)
  from Plan_workspace [OF inv p, of "\<lambda>_. True"] obtain ps where
    "list_all2 (\<lambda>t p. plan_target sample_env (WrapperOpts sample_request) (ShimOpts sample_request) t = Inr (Some p))
      (Targets sample_request) ps" "Wrappers res = map fst ps" "Venv_Validate v = None"
    unfolding res option.case sum.case by blast
  then have "length (Wrappers res) = length (Targets sample_request)" "Venv_Validate v = None"
    by (auto dest: list_all2_lengthD)
  then show ?thesis using p res by (auto simp: sample_request_def)
qed

subsection \<open>What a build promises\<close>

lemma venv_unchanged: "Plan en d req = (v, Some (Inr res)) \<Longrightarrow> build_venv req v = v"
  using Plan_parts(4) [of en d req v res] by (simp add: build_venv_def start_venv_def split: option.split)

text \<open>A build in a work directory is one run of its operations.\<close>

definition work_dir :: "os \<Rightarrow> driver \<Rightarrow> bytes" where
  "work_dir os d = (if DWorkDir d = [] then (case MkdirTemp os of None \<Rightarrow> [] | Some w \<Rightarrow> w) else DWorkDir d)"

definition prepare_ops :: "driver \<Rightarrow> (os_op \<times> BuildError) list" where
  "prepare_ops d =
    (if DWorkDir d = [] then [] else [(Mkdir (DWorkDir d), CreateWorkDir (DWorkDir d))])
    @ (if DNoCache d then [] else [(Mkdir (DCacheDir d), CreateCacheDir (DCacheDir d))])"

definition build_ops :: "(int \<Rightarrow> bool) \<Rightarrow> driver \<Rightarrow> bytes \<Rightarrow> Request \<Rightarrow> Venv \<Rightarrow> Result \<Rightarrow> (os_op \<times> BuildError) list" where
  "build_ops ip d root req v plan =
    prepare_ops d @ root_ops ip root v @ runtime_ops root @ targets_ops root (Targets req) (Wrappers plan) (Shims plan)"

lemma PrepareVenv_run:
  assumes "work_dir os d \<noteq> []"
  shows "\<exists>d'. PrepareVenv os d =
      (case run_ops os (prepare_ops d) of (l, Some e) \<Rightarrow> (d', l, Inl e) | (l, None) \<Rightarrow> (d', l, Inr DefaultVenv))
    \<and> (snd (run_ops os (prepare_ops d)) = None \<longrightarrow> DWorkDir d' = work_dir os d)"
  using assms by (auto simp: PrepareVenv_def prepare_ops_def work_dir_def split: option.splits)

lemma file_ops_append [simp]: "file_ops (as @ bs) = file_ops as @ file_ops bs"
  by (induction as rule: file_ops.induct) auto

lemma Build_run:
  assumes "Plan en True req = (v, Some (Inr plan))" "work_dir os d \<noteq> []"
  shows "\<exists>d'. Build en os d req =
    (let root = path_join [work_dir os d, ''python_workspace''] in
     case run_ops os (build_ops (IsPrint en) d root req v plan) of
       (log, Some e) \<Rightarrow> (d', log, Some (Inl e))
     | (log, None) \<Rightarrow> (d', log, Some (Inr (plan\<lparr>ResWorkDir := work_dir os d, VenvRoot := root,
         WrittenFiles := sort_strings (file_ops log)\<rparr>))))"
proof -
  let ?root = "path_join [work_dir os d, ''python_workspace'']"
  let ?rest = "runtime_ops ?root @ targets_ops ?root (Targets req) (Wrappers plan) (Shims plan)"
  obtain d' where d': "PrepareVenv os d =
      (case run_ops os (prepare_ops d) of (l, Some e) \<Rightarrow> (d', l, Inl e) | (l, None) \<Rightarrow> (d', l, Inr DefaultVenv))"
    "snd (run_ops os (prepare_ops d)) = None \<longrightarrow> DWorkDir d' = work_dir os d"
    using PrepareVenv_run [OF assms(2)] by (elim exE conjE) (rule that)
  obtain l1 r1 where 1: "run_ops os (prepare_ops d) = (l1, r1)" by fastforce
  obtain l2 r2 where 2: "run_ops os (root_ops (IsPrint en) ?root v) = (l2, r2)" by fastforce
  obtain l3 r3 where 3: "run_ops os ?rest = (l3, r3)" by fastforce
  have v: "Venv_Validate v = None" "build_venv req v = v" using Plan_parts(3) [OF assms(1)] venv_unchanged [OF assms(1)] by simp_all
  have files: "file_ops (l1 @ l2 @ l3) = file_ops (l2 @ l3)" if "r1 = None"
  proof -
    have "l1 = map fst (prepare_ops d)" using run_ops_stop [OF 1] that by simp
    then show ?thesis by (simp add: prepare_ops_def)
  qed
  have run: "run_ops os (build_ops (IsPrint en) d ?root req v plan) =
      (case r1 of Some e \<Rightarrow> (l1, Some e) | None \<Rightarrow>
        (case r2 of Some e \<Rightarrow> (l1 @ l2, Some e) | None \<Rightarrow> (l1 @ l2 @ l3, r3)))"
    by (simp add: build_ops_def run_ops_append [of os "prepare_ops d"] run_ops_append [of os "root_ops (IsPrint en) ?root v"]
        1 2 3 split: option.split)
  have root: "WriteVenvRoot (IsPrint en) os d' v = (l2, case r2 of Some e \<Rightarrow> Inl e | None \<Rightarrow> Inr ?root)"
    "DWorkDir d' = work_dir os d" if "r1 = None"
    using that d'(2) 1 2 v(1) assms(2) by (simp_all add: WriteVenvRoot_def Let_def split: option.split)
  note unf = Build_def assms(1) d'(1) 1 prod.case sum.case option.case Let_def run v(2)
  show ?thesis
  proof (cases r1)
    case (Some e)
    show ?thesis unfolding unf Some by blast
  next
    case None
    show ?thesis
    proof (cases r2)
      case (Some e)
      show ?thesis unfolding unf None root(1) [OF None] Some by simp
    next
      case n2: None
      show ?thesis unfolding unf None root [OF None] n2 3 files [OF None]
        by (cases r3) (simp_all only: option.case append_assoc, blast+)
    qed
  qed
qed

text \<open>
  C28. A build that fails leaves only what it reports: whatever the operating system refuses, every
  operation done before succeeded and is a prefix of the operations of the whole build; the build
  returns a result exactly when the plan succeeds, a work directory is there and all of its operations
  are done.  A request the plan refuses touches nothing.
\<close>

theorem Build_stops:
  assumes "Build en os d req = (d', log, out)" "MkdirTemp os \<noteq> Some []"
  shows "out \<noteq> None \<and> list_all (OpOk os) log
    \<and> (case Plan en True req of
         (v, Some (Inr plan)) \<Rightarrow>
           (let ops = map fst (build_ops (IsPrint en) d (path_join [work_dir os d, ''python_workspace'']) req v plan)
            in prefix log ops \<and> (isOK (the out) = (work_dir os d \<noteq> [] \<and> log = ops)))
       | _ \<Rightarrow> log = [] \<and> d' = d \<and> \<not> isOK (the out))"
proof -
  obtain v r where p: "Plan en True req = (v, r)" by fastforce
  then have "r \<noteq> None" using Plan_no_panic [of en True req] by simp
  then consider e where "r = Some (Inl e)" | plan where "r = Some (Inr plan)" by (cases r; cases "the r") auto
  then show ?thesis
  proof cases
    case 1
    then show ?thesis using assms(1) p by (auto simp: Build_def)
  next
    case (2 plan)
    let ?root = "path_join [work_dir os d, ''python_workspace'']"
    let ?ops = "build_ops (IsPrint en) d ?root req v plan"
    show ?thesis
    proof (cases "work_dir os d = []")
      case True
      then have "PrepareVenv os d = (d, [], Inl AllocWorkDir)"
        using assms(2) by (auto simp: work_dir_def PrepareVenv_def split: if_splits option.splits)
      then show ?thesis using assms(1) p 2 True by (auto simp: Build_def)
    next
      case False
      obtain log' r' where run: "run_ops os ?ops = (log', r')" by fastforce
      have "log = log' \<and> out \<noteq> None \<and> (isOK (the out) \<longleftrightarrow> r' = None)"
        using Build_run [OF p [unfolded 2] False] assms(1) run by (cases r') auto
      then show ?thesis using run_ops_stop [OF run] p 2 False by (auto simp: Let_def)
    qed
  qed
qed

definition sample_driver :: driver where
  "sample_driver = \<lparr>DCacheDir = ''/c'', DWorkDir = [], DNoCache = True, DVerbose = False, DDeterministic = True\<rparr>"

text \<open>An operating system that refuses to write the runtime module.\<close>

definition no_runtime :: os where
  "no_runtime = \<lparr>MkdirTemp = Some ''/tmp/w'',
     OpOk = (\<lambda>a. a \<noteq> WriteFile ''/tmp/w/python_workspace/_mochi_wrap.py'' Runtime)\<rparr>"

lemma Build_stops_witness:
  "\<exists>d' log e. Build sample_env no_runtime sample_driver sample_request = (d', log, Some (Inl e))
     \<and> WriteFile ''/tmp/w/python_workspace/_mochi_wrap.py'' Runtime \<notin> set log"
proof -
  obtain d' log out where b: "Build sample_env no_runtime sample_driver sample_request = (d', log, out)"
    by (metis prod_cases3)
  obtain v plan where p: "Plan sample_env True sample_request = (v, Some (Inr plan))"
    using sample_plan Plan_no_panic [of sample_env True sample_request]
    by (cases "Plan sample_env True sample_request") (auto simp: isOK_iff)
  have "MkdirTemp no_runtime \<noteq> Some []" by (simp add: no_runtime_def)
  note * = Build_stops [OF b this]
  have w: "work_dir no_runtime sample_driver = ''/tmp/w''" by (simp add: work_dir_def no_runtime_def sample_driver_def)
  have "path_join [path_join [''/tmp/w'', ''python_workspace''], ''_mochi_wrap.py''] = ''/tmp/w/python_workspace/_mochi_wrap.py''"
    by code_simp
  then have "WriteFile ''/tmp/w/python_workspace/_mochi_wrap.py'' Runtime \<in> set (map fst (build_ops ip sample_driver
      (path_join [''/tmp/w'', ''python_workspace'']) sample_request v plan))" for ip
    by (simp add: build_ops_def runtime_ops_def)
  moreover have "WriteFile ''/tmp/w/python_workspace/_mochi_wrap.py'' Runtime \<notin> set log"
    using * by (auto simp: list_all_iff no_runtime_def)
  ultimately have "\<not> isOK (the out)" "out \<noteq> None"
    using * unfolding p w prod.case option.case sum.case Let_def by blast+
  then show ?thesis using b \<open>_ \<notin> set log\<close> by (cases out; cases "the out") auto
qed

end
