(* ===== verification/Build_Files.thy ===== *)
theory Build_Files
  imports Orchestrator
begin

section \<open>The files of a build (build/orchestrator.go)\<close>

text \<open>
  The paths a successful build writes, as stacks of elements below the workspace root, and that no
  file is written twice when the aliases are plain names.
\<close>

lemma py_ident_runes: "py_ident_from i rs \<Longrightarrow> r \<in> set rs \<Longrightarrow> r < 128 \<and> r \<noteq> 47"
  by (induction i rs rule: py_ident_from.induct) (auto split: if_splits)

lemma ident_no_slash: "isValidPyIdent s \<Longrightarrow> no_slash s"
proof -
  assume s: "isValidPyIdent s"
  then have r: "\<forall>r \<in> set (runes s). r < 128 \<and> r \<noteq> 47"
    using py_ident_runes [of 0 "runes s"] by (auto simp: isValidPyIdent_def split: if_splits)
  then have "runes s = map byte s" using runes_small runes_ascii by blast
  moreover have "byte (CHR ''/'') = 47" by (simp add: byte_def)
  ultimately show ?thesis using r by (force simp: no_slash_def)
qed

definition target_names :: "bytes \<Rightarrow> bool \<Rightarrow> bytes list" where
  "target_names name skipped =
    [''__init__.py'', name @ ''_externs.py'', name @ ''_externs.pyi'', name @ ''_shim.mochi'']
    @ (if skipped then [''SKIPPED.txt''] else [])"

lemma suffix_neq: "last x \<noteq> last y \<Longrightarrow> y \<noteq> [] \<Longrightarrow> x \<noteq> [] \<Longrightarrow> a @ x \<noteq> y"
  by auto

lemma target_names_ok:
  assumes "no_slash name"
  shows "distinct (target_names name b)" "\<forall>n \<in> set (target_names name b). plain_element n"
proof -
  have neq: "rev x \<noteq> rev y \<Longrightarrow> x \<noteq> y" for x y :: bytes by auto
  have "name @ ''_externs.py'' \<noteq> ''__init__.py''" by (rule neq) simp
  then show "distinct (target_names name b)" by (auto simp: target_names_def)
  have dots: "name @ ''_externs.py'' \<notin> {''.'', ''..''}" "name @ ''_externs.pyi'' \<notin> {''.'', ''..''}"
    "name @ ''_shim.mochi'' \<notin> {''.'', ''..''}" by auto
  show "\<forall>n \<in> set (target_names name b). plain_element n"
    using assms dots by (auto simp: target_names_def plain_element_def no_slash_def)
qed

text \<open>The stacks below a root with stack \<open>R\<close>.\<close>

definition target_stacks :: "bytes list \<Rightarrow> (Target \<times> Wrapper \<times> Shim) list \<Rightarrow> bytes list list" where
  "target_stacks R tws =
    concat (map (\<lambda>(t, w, s). map (\<lambda>n. n # TAlias t # ''python_wrap'' # R)
      (target_names (SpName (TSpec t)) (Skipped w \<noteq> []))) tws)"

definition root_stacks :: "bytes list \<Rightarrow> bytes list list" where
  "root_stacks R = map (\<lambda>n. n # R) [''pyproject.toml'', ''.gitignore'', ''_mochi_wrap.py'', ''_mochi_wrap.pyi'']"

lemma target_stacks_distinct:
  assumes "distinct (map (TAlias \<circ> fst) tws)" "\<forall>(t, w, s) \<in> set tws. no_slash (SpName (TSpec t))"
  shows "distinct (target_stacks R tws)"
  using assms
proof (induction tws)
  case (Cons x tws)
  obtain t w s where x: "x = (t, w, s)" by (cases x)
  let ?here = "map (\<lambda>n. n # TAlias t # ''python_wrap'' # R) (target_names (SpName (TSpec t)) (Skipped w \<noteq> []))"
  have "distinct ?here" using Cons.prems(2) target_names_ok(1) by (auto simp: x distinct_map inj_on_def)
  moreover have "TAlias t \<noteq> TAlias u" if "(u, y) \<in> set tws" for u y
    using Cons.prems(1) that by (force simp: x)
  then have "set ?here \<inter> set (target_stacks R tws) = {}" by (fastforce simp: target_stacks_def)
  moreover have "target_stacks R (x # tws) = ?here @ target_stacks R tws" by (simp add: target_stacks_def x)
  ultimately show ?case using Cons by simp
qed (simp add: target_stacks_def)

lemma stacks_distinct:
  assumes "distinct (map (TAlias \<circ> fst) tws)" "\<forall>(t, w, s) \<in> set tws. no_slash (SpName (TSpec t))"
  shows "distinct (root_stacks R @ target_stacks R tws)"
proof -
  have "length x = Suc (length R)" if "x \<in> set (root_stacks R)" for x using that by (auto simp: root_stacks_def)
  moreover have "length x = length R + 3" if "x \<in> set (target_stacks R tws)" for x
    using that by (auto simp: target_stacks_def)
  ultimately have "set (root_stacks R) \<inter> set (target_stacks R tws) = {}" by fastforce
  then show ?thesis using target_stacks_distinct [OF assms, of R] by (auto simp: root_stacks_def)
qed

lemma stacks_clean:
  assumes "clean_stack r R" "\<forall>(t, w, s) \<in> set tws. no_slash (SpName (TSpec t)) \<and> plain_element (TAlias t)"
    "xs \<in> set (root_stacks R @ target_stacks R tws)"
  shows "clean_stack r xs"
proof -
  have py: "plain_element ''python_wrap''" by (simp add: plain_element_def no_slash_def)
  consider n where "xs = [n] @ R" "n \<in> {''pyproject.toml'', ''.gitignore'', ''_mochi_wrap.py'', ''_mochi_wrap.pyi''}"
    | t w s n where "(t, w, s) \<in> set tws" "xs = [n, TAlias t, ''python_wrap''] @ R"
        "n \<in> set (target_names (SpName (TSpec t)) (Skipped w \<noteq> []))"
    using assms(3) by (auto simp: root_stacks_def target_stacks_def)
  then show ?thesis
  proof cases
    case 1
    have "plain_element n" using 1(2) by (auto simp: plain_element_def no_slash_def)
    then show ?thesis unfolding 1(1) by (intro clean_stack_plain assms(1)) simp
  next
    case 2
    then have "plain_element n" "plain_element (TAlias t)" using assms(2) target_names_ok(2) by fastforce+
    then show ?thesis unfolding 2(2) using py by (intro clean_stack_plain assms(1)) simp
  qed
qed

subsection \<open>The operations write those paths\<close>

lemma target_ops_files:
  assumes "clean_stack r R" "R \<noteq> []" "plain_element (TAlias t)" "no_slash (SpName (TSpec t))"
    "WModule w = SpName (TSpec t) @ ''_externs''"
  shows "file_ops (map fst (target_ops (stack_path r R) t w s)) =
    map (stack_path r) (map (\<lambda>n. n # TAlias t # ''python_wrap'' # R) (target_names (SpName (TSpec t)) (Skipped w \<noteq> [])))"
proof -
  let ?D = "TAlias t # ''python_wrap'' # R"
  have py: "plain_element ''python_wrap''" by (simp add: plain_element_def no_slash_def)
  have dir: "path_join [stack_path r R, ''python_wrap'', TAlias t] = stack_path r ?D"
    using path_join_add [OF assms(1,2), of "[''python_wrap'', TAlias t]"] assms(3) py by simp
  have D: "clean_stack r ?D" using clean_stack_plain [OF assms(1), of "[TAlias t, ''python_wrap'']"] assms(3) py by simp
  have below: "path_join [stack_path r ?D, n] = stack_path r (n # ?D)" if "plain_element n" for n
    using path_join_add [OF D, of "[n]"] that by simp
  have names: "plain_element ''__init__.py''" "plain_element (SpName (TSpec t) @ ''_externs.py'')"
    "plain_element (SpName (TSpec t) @ ''_externs.pyi'')" "plain_element (SpName (TSpec t) @ ''_shim.mochi'')"
    "plain_element ''SKIPPED.txt''"
    using target_names_ok(2) [OF assms(4), of True] by (simp_all add: target_names_def)
  show ?thesis
    unfolding target_ops_def Let_def dir using below [OF names(1)] below [OF names(2)] below [OF names(3)] below [OF names(4)]
      below [OF names(5)] assms(5) by (simp add: target_names_def)
qed

lemma targets_ops_files:
  assumes "clean_stack r R" "R \<noteq> []"
    "list_all2 (\<lambda>t (w, s). plain_element (TAlias t) \<and> no_slash (SpName (TSpec t)) \<and> WModule w = SpName (TSpec t) @ ''_externs'') ts ps"
  shows "file_ops (map fst (targets_ops (stack_path r R) ts (map fst ps) (map snd ps))) =
    map (stack_path r) (target_stacks R (zip ts ps))"
  using assms(3)
proof (induction ts ps rule: list_all2_induct)
  case (Cons t ts p ps)
  obtain w s where p: "p = (w, s)" by (cases p)
  then show ?case
    using Cons target_ops_files [OF assms(1,2), of t w s]
    by (simp add: targets_ops_def target_stacks_def zip_map_fst_snd)
qed (simp add: targets_ops_def target_stacks_def)

subsection \<open>No file is written twice\<close>

lemma plan_target_parts:
  assumes "plan_target en wopts sopts t = Inr (Some (w, s))"
  shows "WModule w = SpName (TSpec t) @ ''_externs''" "no_slash (SpName (TSpec t))"
proof -
  obtain sf where sf: "Synthesise (IsPrint en) (SpName (TSpec t)) (Some sf) wopts = Inr (Some w)"
    using assms by (auto simp: plan_target_def split: sum.splits option.splits)
  have pkg: "SpName (TSpec t) \<noteq> []" "isValidPyIdent (SpName (TSpec t))" using Synthesise_Inr [OF sf] by auto
  show "no_slash (SpName (TSpec t))" using pkg(2) by (rule ident_no_slash)
  show "WModule w = SpName (TSpec t) @ ''_externs''"
    using Synthesise_facts [OF pkg, of "IsPrint en" sf wopts] sf by auto
qed

lemma root_files:
  assumes "clean_stack r R" "R \<noteq> []"
  shows "file_ops (map fst (root_ops ip (stack_path r R) v @ runtime_ops (stack_path r R))) = map (stack_path r) (root_stacks R)"
proof -
  have below: "path_join [stack_path r R, n] = stack_path r (n # R)" if "plain_element n" for n
    using path_join_add [OF assms, of "[n]"] that by simp
  have names: "plain_element ''pyproject.toml''" "plain_element ''.gitignore''" "plain_element ''_mochi_wrap.py''"
    "plain_element ''_mochi_wrap.pyi''" by (simp_all add: plain_element_def no_slash_def)
  show ?thesis
    using below [OF names(1)] below [OF names(2)] below [OF names(3)] below [OF names(4)]
    by (simp add: root_ops_def runtime_ops_def root_stacks_def)
qed

text \<open>The parts of a successful build.\<close>

lemma Build_Inr:
  assumes "Build en os d req = (d', log, Some (Inr res))"
  shows "\<exists>v plan. Plan en True req = (v, Some (Inr plan)) \<and> work_dir os d \<noteq> []
    \<and> log = map fst (build_ops (IsPrint en) d (path_join [work_dir os d, ''python_workspace'']) req v plan)
    \<and> res = plan\<lparr>ResWorkDir := work_dir os d, VenvRoot := path_join [work_dir os d, ''python_workspace''],
        WrittenFiles := sort_strings (file_ops log)\<rparr>"
proof -
  obtain v plan where p: "Plan en True req = (v, Some (Inr plan))"
    using assms by (auto simp: Build_def split: prod.splits option.splits sum.splits)
  let ?ops = "build_ops (IsPrint en) d (path_join [work_dir os d, ''python_workspace'']) req v plan"
  have w: "work_dir os d \<noteq> []"
  proof
    assume e: "work_dir os d = []"
    then have dw: "DWorkDir d = []" by (auto simp: work_dir_def split: if_splits)
    show False
    proof (cases "MkdirTemp os")
      case None
      then show False using assms p dw by (simp add: Build_def PrepareVenv_def)
    next
      case (Some x)
      then have "x = []" using e dw by (simp add: work_dir_def)
      then show False using assms p dw Some
        by (auto simp: Build_def PrepareVenv_def WriteVenvRoot_def split: prod.splits option.splits sum.splits if_splits)
    qed
  qed
  obtain l r where run: "run_ops os ?ops = (l, r)" by fastforce
  have "r = None \<and> l = log \<and> res = plan\<lparr>ResWorkDir := work_dir os d,
      VenvRoot := path_join [work_dir os d, ''python_workspace''], WrittenFiles := sort_strings (file_ops log)\<rparr>"
    using Build_run [OF p w] assms run by (cases r) auto
  then show ?thesis using run_ops_stop [OF run] p w by blast
qed

text \<open>The files of a plan, in the order of the operations.\<close>

lemma Plan_files:
  assumes "Plan en True req = (v, Some (Inr plan))" "\<forall>t \<in> set (Targets req). plain_element (TAlias t)"
    "clean_stack r R" "R \<noteq> []"
  shows "\<exists>ps. length (Targets req) = length ps \<and> Wrappers plan = map fst ps
    \<and> file_ops (map fst (build_ops ip d (stack_path r R) req v plan))
      = map (stack_path r) (root_stacks R @ target_stacks R (zip (Targets req) ps))
    \<and> distinct (map (stack_path r) (root_stacks R @ target_stacks R (zip (Targets req) ps)))"
proof -
  note parts = Plan_parts [OF assms(1)]
  obtain ps where ps: "list_all2 (\<lambda>t p. plan_target en (WrapperOpts req) (ShimOpts req) t = Inr (Some p)) (Targets req) ps"
    "Wrappers plan = map fst ps" "Shims plan = map snd ps" using parts(1) by blast
  let ?tws = "zip (Targets req) ps"
  have len: "length (Targets req) = length ps" using ps(1) by (rule list_all2_lengthD)
  have one: "plan_target en (WrapperOpts req) (ShimOpts req) t = Inr (Some (w, s))" if "(t, w, s) \<in> set ?tws" for t w s
    using ps(1) that by (auto simp: list_all2_iff)
  have slash: "\<forall>(t, w, s) \<in> set ?tws. no_slash (SpName (TSpec t)) \<and> plain_element (TAlias t)"
    using plan_target_parts(2) [OF one] assms(2) by (auto dest: set_zip_leftD)
  have "list_all2 (\<lambda>t (w, s). plain_element (TAlias t) \<and> no_slash (SpName (TSpec t))
      \<and> WModule w = SpName (TSpec t) @ ''_externs'') (Targets req) ps"
    using len slash plan_target_parts(1) [OF one] by (auto simp: list_all2_iff)
  note tf = targets_ops_files [OF assms(3,4) this]
  have prep: "file_ops (map fst (prepare_ops d)) = []" by (simp add: prepare_ops_def)
  have "file_ops (map fst (build_ops ip d (stack_path r R) req v plan)) =
      file_ops (map fst (root_ops ip (stack_path r R) v @ runtime_ops (stack_path r R)))
      @ file_ops (map fst (targets_ops (stack_path r R) (Targets req) (map fst ps) (map snd ps)))"
    unfolding build_ops_def ps map_append file_ops_append prep by simp
  then have files: "file_ops (map fst (build_ops ip d (stack_path r R) req v plan)) =
      map (stack_path r) (root_stacks R @ target_stacks R ?tws)"
    using root_files [OF assms(3,4)] tf by simp
  have al: "distinct (map (TAlias \<circ> fst) ?tws)" using parts(2) len by (metis map_fst_zip map_map)
  have "distinct (root_stacks R @ target_stacks R ?tws)" using stacks_distinct [OF al] slash by fastforce
  moreover have "inj_on (stack_path r) (set (root_stacks R @ target_stacks R ?tws))"
    using stacks_clean [OF assms(3) slash] stack_path_inj by (intro inj_onI) blast
  ultimately have "distinct (map (stack_path r) (root_stacks R @ target_stacks R ?tws))" by (simp only: distinct_map)
  then show ?thesis using len ps(2) files by blast
qed

lemma length_target_stacks:
  "length ts = length ps \<Longrightarrow>
    length (target_stacks R (zip ts ps)) = sum_list (map (\<lambda>w. if Skipped w = [] then 4 else 5) (map fst ps))"
  by (induction ts ps rule: list_induct2) (auto simp: target_stacks_def target_names_def)

text \<open>
  C30. When every alias is a plain name, a successful build reports the files it wrote, in the order of
  their paths (not in the order it wrote them, see \<open>written_order_lost\<close>) and without repetition: no file of one target overwrites a file of another or of the workspace.  The
  project file it wrote is that of the workspace the plan resolved, which passes its validation.
\<close>

theorem Build_files:
  assumes "Build en os d req = (d', log, Some (Inr res))" "\<forall>t \<in> set (Targets req). plain_element (TAlias t)"
  shows "sorted (WrittenFiles res) \<and> distinct (WrittenFiles res)
    \<and> set (WrittenFiles res) = set (file_ops log)
    \<and> length (WrittenFiles res) = 4 + sum_list (map (\<lambda>w. if Skipped w = [] then 4 else 5) (Wrappers res))
    \<and> (\<exists>v. WriteFile (path_join [VenvRoot res, ''pyproject.toml'']) (RenderPyprojectToml (IsPrint en) v) \<in> set log
         \<and> Venv_Validate v = None \<and> fst (Plan en True req) = v)"
proof -
  obtain v plan where b: "Plan en True req = (v, Some (Inr plan))" "work_dir os d \<noteq> []"
    "log = map fst (build_ops (IsPrint en) d (path_join [work_dir os d, ''python_workspace'']) req v plan)"
    "res = plan\<lparr>ResWorkDir := work_dir os d, VenvRoot := path_join [work_dir os d, ''python_workspace''],
        WrittenFiles := sort_strings (file_ops log)\<rparr>"
    using Build_Inr [OF assms(1)] by blast
  have "plain_element ''python_workspace''" by (simp add: plain_element_def no_slash_def)
  then obtain r xs where R: "clean_stack r (''python_workspace'' # xs)"
    "path_join [work_dir os d, ''python_workspace''] = stack_path r (''python_workspace'' # xs)"
    using join_below [OF b(2)] by blast
  obtain ps where ps: "length (Targets req) = length ps" "Wrappers plan = map fst ps"
    "file_ops log = map (stack_path r) (root_stacks (''python_workspace'' # xs)
      @ target_stacks (''python_workspace'' # xs) (zip (Targets req) ps))" "distinct (file_ops log)"
    using Plan_files [OF b(1) assms(2) R(1), of "IsPrint en" d] unfolding b(3) R(2) by auto
  have "length (file_ops log) = 4 + sum_list (map (\<lambda>w. if Skipped w = [] then 4 else 5) (Wrappers res))"
    using ps(2) length_target_stacks [OF ps(1)] b(4) unfolding ps(3) by (simp add: root_stacks_def)
  moreover have "WriteFile (path_join [VenvRoot res, ''pyproject.toml'']) (RenderPyprojectToml (IsPrint en) v) \<in> set log"
    unfolding b(3) b(4) by (simp add: build_ops_def root_ops_def)
  ultimately show ?thesis using b(1,4) Plan_parts(3) [OF b(1)] ps(4) by (simp add: sort_strings_def)
qed

text \<open>
  The report is the sorted list of the writes.  The workspace's own files are written with the project
  file before \<open>.gitignore\<close>, which sorts before it, so the order of the report is never that of the writes.
\<close>

lemma written_order_lost:
  assumes "Build en os d req = (d', log, Some (Inr res))"
  shows "WrittenFiles res = sort_strings (file_ops log) \<and> WrittenFiles res \<noteq> file_ops log"
proof -
  let ?root = "path_join [work_dir os d, ''python_workspace'']"
  obtain v plan where b: "work_dir os d \<noteq> []"
    "log = map fst (build_ops (IsPrint en) d ?root req v plan)"
    "res = plan\<lparr>ResWorkDir := work_dir os d, VenvRoot := ?root, WrittenFiles := sort_strings (file_ops log)\<rparr>"
    using Build_Inr [OF assms] by blast
  have "plain_element ''python_workspace''" by (simp add: plain_element_def no_slash_def)
  then obtain r xs where R: "clean_stack r (''python_workspace'' # xs)" "?root = stack_path r (''python_workspace'' # xs)"
    using join_below [OF b(1)] by blast
  have "file_ops (map fst (prepare_ops d)) = []" by (simp add: prepare_ops_def)
  then have log: "file_ops log = map (stack_path r) (root_stacks (''python_workspace'' # xs))
      @ file_ops (map fst (targets_ops ?root (Targets req) (Wrappers plan) (Shims plan)))"
    using root_files [OF R(1), of "IsPrint en" v] unfolding b(2) build_ops_def R(2) by simp
  let ?p = "(if r then ''/'' else []) @ join ''/'' (rev (''python_workspace'' # xs)) @ ''/''"
  have path: "stack_path r (n # ''python_workspace'' # xs) = ?p @ n" for n
    using join_append [of "rev (''python_workspace'' # xs)" "[n]" "''/''"] by (simp add: stack_path_def)
  have "p @ a \<le> p @ b \<longleftrightarrow> a \<le> b" for p a b :: bytes by (induction p) auto
  then have "\<not> ?p @ ''pyproject.toml'' \<le> ?p @ ''.gitignore''" by simp
  then have "\<not> stack_path r (''pyproject.toml'' # ''python_workspace'' # xs) \<le> stack_path r (''.gitignore'' # ''python_workspace'' # xs)"
    unfolding path .
  then have "\<not> sorted (file_ops log)" unfolding log root_stacks_def by simp
  moreover have "WrittenFiles res = sort_strings (file_ops log)" by (simp add: b(3))
  moreover have "sorted (sort_strings (file_ops log))" by (simp add: sort_strings_def)
  ultimately show ?thesis by metis
qed

definition willing :: os where
  "willing = \<lparr>MkdirTemp = Some ''/tmp/w'', OpOk = (\<lambda>_. True)\<rparr>"

lemma Build_files_witness:
  "\<exists>d' log res. Build sample_env willing sample_driver sample_request = (d', log, Some (Inr res))
     \<and> 12 \<le> length (WrittenFiles res) \<and> distinct (WrittenFiles res)"
proof -
  obtain v plan where p: "Plan sample_env True sample_request = (v, Some (Inr plan))"
    using sample_plan Plan_no_panic [of sample_env True sample_request]
    by (cases "Plan sample_env True sample_request") (auto simp: isOK_iff)
  have w: "work_dir willing sample_driver \<noteq> []" by (simp add: work_dir_def willing_def sample_driver_def)
  have all: "run_ops willing ops = (map fst ops, None)" for ops
    by (induction willing ops rule: run_ops.induct) (simp_all add: willing_def)
  obtain d' log res where b: "Build sample_env willing sample_driver sample_request = (d', log, Some (Inr res))"
    using Build_run [OF p w] unfolding Let_def all prod.case option.case by blast
  have al: "\<forall>t \<in> set (Targets sample_request). plain_element (TAlias t)"
    by (simp add: sample_request_def stub_target_def plain_element_def no_slash_def)
  have "length (Wrappers res) = 2"
    using Build_Inr [OF b] p Plan_parts(1) [OF p] by (auto simp: sample_request_def dest!: list_all2_lengthD)
  then have "8 \<le> sum_list (map (\<lambda>w. if Skipped w = [] then 4 else 5 :: nat) (Wrappers res))"
    by (auto simp: numeral_2_eq_2 length_Suc_conv)
  then show ?thesis using Build_files [OF b al] b by auto
qed

end
