(* ===== verification/From_Build.thy ===== *)
theory From_Build
  imports Orchestrator Lockfile_Diff Lockfile_Capabilities
begin

section \<open>From a build to its lock file (lockfile/from_build.go)\<close>

text \<open>
  The lock file entry of every target, from the request and the result of the build, and the whole
  chain: plan, lock, write, read back, check for drift.
\<close>

subsection \<open>Conversion\<close>

datatype FromBuildError = NilResult | CountMismatch nat nat nat

fun toSource :: "SpecSource \<Rightarrow> Source" where
  "toSource SourceRegistry = ''registry''"
| "toSource SourceIndex = ''index''"
| "toSource SourceGit = ''git''"
| "toSource SourcePath = ''path''"

definition pinnedVersion :: "Spec \<Rightarrow> bytes" where
  "pinnedVersion s =
    (if SpSource s \<noteq> SourceRegistry \<and> SpSource s \<noteq> SourceIndex then []
     else case Clauses (SpSpecifier s) of
       [c] \<Rightarrow> if Operator_String (Op c) = ''=='' then Version_String (Clause.Version c) else []
     | _ \<Rightarrow> [])"

definition target_entry :: "Target \<Rightarrow> Wrapper \<Rightarrow> Shim \<Rightarrow> Entry" where
  "target_entry t w s =
    \<lparr>EName = SpName (TSpec t), EAlias = TAlias t, ESource = toSource (SpSource (TSpec t)),
     EVersion = pinnedVersion (TSpec t), ESpecifier = Specifier_String (SpSpecifier (TSpec t)),
     IndexURL = SpIndexURL (TSpec t), GitURL = SpGitURL (TSpec t), GitRev = SpGitRev (TSpec t),
     LocalPath = SpLocalPath (TSpec t), WrapperSHA256 = SHA256 s, Capabilities = ExtractCapabilities (Some w)\<rparr>"

definition FromBuildResult :: "Request \<Rightarrow> Result option \<Rightarrow> FromBuildError + Manifest" where
  "FromBuildResult req res =
    (case res of
       None \<Rightarrow> Inl NilResult
     | Some res \<Rightarrow>
         if length (Targets req) \<noteq> length (Wrappers res) \<or> length (Targets req) \<noteq> length (Shims res) then
           Inl (CountMismatch (length (Targets req)) (length (Wrappers res)) (length (Shims res)))
         else
           Inr (Manifest_Sort
             \<lparr>MVersion = SchemaVersion,
              Entries = map (\<lambda>(t, w, s). target_entry t w s) (zip (Targets req) (zip (Wrappers res) (Shims res)))\<rparr>))"

subsection \<open>The entries of a plan\<close>

definition texts_ok :: "Target \<Rightarrow> bool" where
  "texts_ok t \<longleftrightarrow> list_all (list_all toml_ok)
     [TAlias t, pinnedVersion (TSpec t), Specifier_String (SpSpecifier (TSpec t)), SpIndexURL (TSpec t),
      SpGitURL (TSpec t), SpGitRev (TSpec t), SpLocalPath (TSpec t)]"

lemma toSource_valid: "Source_Valid (toSource s)"
  by (cases s) (simp_all add: Source_Valid_def)

lemma py_ident_range: "py_ident_from i rs \<Longrightarrow> r \<in> set rs \<Longrightarrow> 48 \<le> r \<and> r < 123 \<and> r \<noteq> 58"
  by (induction i rs rule: py_ident_from.induct) (auto split: if_splits)

lemma ident_chars:
  assumes "isValidPyIdent s"
  shows "list_all toml_ok s" "CHR '':'' \<notin> set s"
proof -
  have r: "\<forall>r \<in> set (runes s). 48 \<le> r \<and> r < 123 \<and> r \<noteq> 58"
    using assms py_ident_range [of 0 "runes s"] by (auto simp: isValidPyIdent_def split: if_splits)
  then have "ascii s" by (intro runes_small) auto
  then have bytes: "\<forall>c \<in> set s. 48 \<le> byte c \<and> byte c < 123 \<and> byte c \<noteq> 58" using r by (simp add: runes_ascii)
  then show "list_all toml_ok s" by (auto simp: list_all_iff toml_ok_def)
  have "byte (CHR '':'') = 58" by (simp add: byte_def)
  then show "CHR '':'' \<notin> set s" using bytes by auto
qed

lemma vocabulary_ok: "list_all (list_all toml_ok) vocabulary"
  by code_simp

lemma capabilities_ok: "list_all (list_all toml_ok) (ExtractCapabilities (Some w))"
  using vocabulary_ok capabilities_in_vocabulary [of w] by (auto simp: list_all_iff)

lemma planned_name:
  "plan_target en wopts sopts t = Inr (Some p) \<Longrightarrow> isValidPyIdent (SpName (TSpec t)) \<and> (\<exists>x. SHA256 (snd p) = Sha256 en x)"
proof -
  assume a: "plan_target en wopts sopts t = Inr (Some p)"
  obtain sf w s where sf: "Synthesise (IsPrint en) (SpName (TSpec t)) (Some sf) wopts = Inr (Some w)"
    and s: "EmitShim (Sha256 en) (Some w) sopts = Inr (Some s)" "p = (w, s)"
    using a by (auto simp: plan_target_def split: sum.splits option.splits)
  have "SHA256 s = Sha256 en (ShSource s)"
    using s(1) by (auto simp: EmitShim_def Let_def split: if_splits option.splits)
  then show ?thesis using Synthesise_Inr [OF sf] s(2) by auto
qed

lemma zip_aliases:
  "length ts = length ps \<Longrightarrow>
    map (\<lambda>x. EAlias (case x of (t, w, s) \<Rightarrow> target_entry t w s)) (zip ts ps) = map TAlias ts"
  by (induction ts ps rule: list_induct2) (auto simp: target_entry_def)

lemma zip3: "zip ts (zip (map fst ps) (map snd ps)) = zip ts ps"
  by (simp add: zip_map_fst_snd)

lemma distinct_keys:
  "distinct (map EAlias es) \<Longrightarrow> \<forall>e \<in> set es. CHR '':'' \<notin> set (EName e) \<Longrightarrow> distinct (map entry_key es)"
proof (induction es)
  case (Cons e es)
  have "entry_key f \<noteq> entry_key e" if "f \<in> set es" for f
    using Cons.prems that entry_key_inj [of f e] by (auto simp: image_iff)
  then have "entry_key e \<notin> entry_key ` set es" by (metis imageE)
  then show ?case using Cons by auto
qed simp

text \<open>The manifest of a plan.\<close>

definition planned :: "Request \<Rightarrow> Result \<Rightarrow> Entry list" where
  "planned req res = map (\<lambda>(t, w, s). target_entry t w s) (zip (Targets req) (zip (Wrappers res) (Shims res)))"

lemma planned_facts:
  assumes "Plan en d req = (v, Some (Inr res))" "\<forall>t \<in> set (Targets req). texts_ok t" "\<And>x. list_all toml_ok (Sha256 en x)"
  shows "FromBuildResult req (Some res) = Inr \<lparr>MVersion = 1, Entries = sort_stable entry_less (planned req res)\<rparr>"
    "list_all entry_ok (planned req res)" "distinct (map entry_key (planned req res))"
    "\<forall>e \<in> set (planned req res). CHR '':'' \<notin> set (EName e)" "length (planned req res) = length (Targets req)"
    "map EAlias (planned req res) = map TAlias (Targets req)"
proof -
  note parts = Plan_parts [OF assms(1)]
  obtain ps where ps: "list_all2 (\<lambda>t p. plan_target en (WrapperOpts req) (ShimOpts req) t = Inr (Some p)) (Targets req) ps"
    "Wrappers res = map fst ps" "Shims res = map snd ps" using parts(1) by blast
  have len: "length (Targets req) = length ps" using ps(1) by (rule list_all2_lengthD)
  have eq: "planned req res = map (\<lambda>(t, w, s). target_entry t w s) (zip (Targets req) ps)"
    by (simp add: planned_def ps zip3)
  have one: "plan_target en (WrapperOpts req) (ShimOpts req) t = Inr (Some (w, s))" "t \<in> set (Targets req)"
    if "(t, w, s) \<in> set (zip (Targets req) ps)" for t w s
    using ps(1) that by (auto simp: list_all2_iff dest: set_zip_leftD)
  show "FromBuildResult req (Some res) = Inr \<lparr>MVersion = 1, Entries = sort_stable entry_less (planned req res)\<rparr>"
    using len by (simp add: FromBuildResult_def planned_def ps Manifest_Sort_def SchemaVersion_def)
  show "length (planned req res) = length (Targets req)" using len by (simp add: eq)
  have al: "map EAlias (planned req res) = map TAlias (Targets req)"
    using zip_aliases [OF len] by (simp only: eq map_map comp_def)
  then show "map EAlias (planned req res) = map TAlias (Targets req)" .
  have entry: "entry_ok (target_entry t w s) \<and> CHR '':'' \<notin> set (EName (target_entry t w s))"
    if "(t, w, s) \<in> set (zip (Targets req) ps)" for t w s
  proof -
    have id: "isValidPyIdent (SpName (TSpec t))" and sha: "list_all toml_ok (SHA256 s)"
      using planned_name [OF one(1) [OF that]] assms(3) by auto
    have "texts_ok t" using one(2) [OF that] assms(2) by blast
    then show ?thesis using ident_chars [OF id] sha capabilities_ok [of w] toSource_valid
      by (simp add: entry_ok_def target_entry_def texts_ok_def)
  qed
  then show "list_all entry_ok (planned req res)" "\<forall>e \<in> set (planned req res). CHR '':'' \<notin> set (EName e)"
    by (auto simp: eq list_all_iff)
  then have colon: "\<forall>e \<in> set (planned req res). CHR '':'' \<notin> set (EName e)" by blast
  have "distinct (map EAlias (planned req res))" using al parts(2) by simp
  then show "distinct (map entry_key (planned req res))"
    using colon by (rule distinct_keys)
qed

text \<open>
  C27. The whole chain keeps the lock: for every request that plans, the result converts to a manifest
  with one entry per target, the lock file written for it reads back as that manifest, and the drift
  check of the lock against another plan reports nothing exactly when that plan has the same entries,
  in particular against the plan it was made from.  The texts of the specs and the digest are within
  the reader's escapes.
\<close>

theorem Lock_after_plan:
  assumes "Plan en d req = (v, Some (Inr res))" "Plan en' d' req' = (v', Some (Inr res'))"
    and "\<forall>t \<in> set (Targets req) \<union> set (Targets req'). texts_ok t"
    and "\<And>x. list_all toml_ok (Sha256 en x)" "\<And>x. list_all toml_ok (Sha256 en' x)"
  shows "\<exists>m m'. FromBuildResult req (Some res) = Inr m \<and> FromBuildResult req' (Some res') = Inr m'
    \<and> mset (map EAlias (Entries m)) = mset (map TAlias (Targets req))
    \<and> ParseTOML fo (fst (RenderTOML ip m)) = Inr m
    \<and> Check m m = None \<and> (Check m m' = None \<longleftrightarrow> set (planned req' res') = set (planned req res))"
proof -
  have ok: "\<forall>t \<in> set (Targets req). texts_ok t" "\<forall>t \<in> set (Targets req'). texts_ok t" using assms(3) by blast+
  note p = planned_facts [OF assms(1) ok(1) assms(4)] and p' = planned_facts [OF assms(2) ok(2) assms(5)]
  let ?m = "\<lparr>MVersion = 1, Entries = sort_stable entry_less (planned req res)\<rparr>"
  let ?m' = "\<lparr>MVersion = 1, Entries = sort_stable entry_less (planned req' res')\<rparr>"
  have names: "plain_names ?m" "plain_names ?m'" using p(4) p'(4) by (simp_all add: plain_names_def)
  have keys: "distinct (map entry_key (Entries ?m))" "distinct (map entry_key (Entries ?m'))"
    using p(3) p'(3) distinct_perm [of "\<lparr>MVersion = 1, Entries = planned req res\<rparr>" ?m]
      distinct_perm [of "\<lparr>MVersion = 1, Entries = planned req' res'\<rparr>" ?m'] by simp_all
  have ents: "list_all entry_ok (Entries ?m)" using p(2) by (simp add: list_all_iff)
  have check: "Check a b = None \<longleftrightarrow> CompareManifests a b = []" for a b by (simp add: Check_def Let_def)
  have "Check ?m ?m = None" using Compare_empty [OF names(1,1) keys(1,1)] by (simp add: check)
  moreover have "Check ?m ?m' = None \<longleftrightarrow> set (planned req' res') = set (planned req res)"
    using Compare_empty [OF names keys] by (auto simp: check)
  moreover have "ParseTOML fo (fst (RenderTOML ip ?m)) = Inr ?m"
    using lock_read [of ?m fo ip] ents by (simp add: sort_entries_idem)
  moreover have "mset (map EAlias (Entries ?m)) = mset (map TAlias (Targets req))" using p(6) by (metis Manifest.select_convs(2) mset_map mset_sort_stable)
  ultimately show ?thesis using p(1) p'(1) by (intro exI [of _ ?m] exI [of _ ?m'] conjI)
qed

definition lock_env :: env where
  "lock_env = sample_env\<lparr>Sha256 := (\<lambda>_. ''c0ffee'')\<rparr>"

lemma lock_plan: "isOK (the (snd (Plan lock_env True sample_request)))"
  by code_simp

lemma Lock_after_plan_witness:
  "\<exists>res m. snd (Plan lock_env True sample_request) = Some (Inr res) \<and> FromBuildResult sample_request (Some res) = Inr m
     \<and> mset (map EAlias (Entries m)) = {#''http'', ''at''#}
     \<and> ParseTOML (\<lambda>_. True) (fst (RenderTOML (\<lambda>_. True) m)) = Inr m \<and> Check m m = None"
proof -
  obtain v res where p: "Plan lock_env True sample_request = (v, Some (Inr res))"
    using lock_plan Plan_no_panic [of lock_env True sample_request]
    by (cases "Plan lock_env True sample_request") (auto simp: isOK_iff)
  have ok: "\<forall>t \<in> set (Targets sample_request) \<union> set (Targets sample_request). texts_ok t" by code_simp
  have sha: "list_all toml_ok (Sha256 lock_env x)" for x by (simp add: lock_env_def toml_ok_def byte_def)
  from Lock_after_plan [OF p p ok sha sha, of "\<lambda>_. True" "\<lambda>_. True"] p show ?thesis
    by (auto simp: sample_request_def stub_target_def)
qed

text \<open>
  Normalised distribution names separate words with dashes, and the synthesiser only takes Python
  identifiers: a distribution with a separator in its name cannot be planned.
\<close>

lemma separator_refused:
  "snd (Plan sample_env True (sample_request\<lparr>Targets := [stub_target ''typing_extensions'' ''te'']\<rparr>)) =
     Some (Inl (SynthesiseFailed ''te'' (BadPackage ''typing-extensions'')))"
  by code_simp

text \<open>Two targets of one distribution share one dependency: only the last constraint is kept.\<close>

lemma earlier_constraint_lost:
  "map_of (SharedDependencies (add_targets [t, u] v)) n = Some (sharedDepVersion (TSpec u))"
  if "SpName (TSpec t) = n" "SpName (TSpec u) = n"
  using that by (simp add: deps_add_targets target_dep_def map_add_def del: add_targets_simps)

end
