(* ===== verification/Datalog.thy ===== *)
theory Datalog
  imports Go_Strings
begin

section \<open>Compile-time Datalog (transpiler3/python/lower/datalog.go)\<close>

text \<open>
  The lowerer evaluates a Datalog query bottom-up to a fixpoint and emits the answer as a list
  literal.  The state maps a relation's name to its tuples in the order they were found; a missing
  name reads as the empty list, as Go's map does.  The fixpoint loop is a partial function;
  \<open>datalogEval_terminates\<close> shows that it stops on every program.
\<close>

subsection \<open>Programs (transpiler3/c/aotir/program.go)\<close>

record DatalogFact =
  FactName :: bytes
  FactArgs :: "bytes list"

record DatalogRuleBody =
  LitName :: bytes
  LitArgs :: "bytes list"
  IsNot :: bool
  IsNeq :: bool
  NeqA :: bytes
  NeqB :: bytes

record DatalogRule =
  HeadName :: bytes
  HeadArgs :: "bytes list"
  RuleBody :: "DatalogRuleBody list"

record DatalogProgram =
  Facts :: "DatalogFact list"
  Rules :: "DatalogRule list"

record DatalogQueryExpr =
  QueryName :: bytes
  QueryArgs :: "bytes list"
  QueryProg :: "DatalogProgram option"

type_synonym env = "bytes \<rightharpoonup> bytes"
type_synonym relations = "bytes \<Rightarrow> bytes list list"

subsection \<open>One rule\<close>

definition dquote :: char where
  "dquote = CHR 0x22"

definition datalogIsVariable :: "bytes \<Rightarrow> bool" where
  "datalogIsVariable s \<longleftrightarrow> s \<noteq> [] \<and> hd s \<noteq> dquote"

definition datalogUnquote :: "bytes \<Rightarrow> bytes" where
  "datalogUnquote s = (if 2 \<le> length s \<and> hd s = dquote \<and> last s = dquote then butlast (tl s) else s)"

text \<open>Reading a Go map at a missing key gives the empty string.\<close>

definition env_at :: "env \<Rightarrow> bytes \<Rightarrow> bytes" where
  "env_at env x = (case env x of Some v \<Rightarrow> v | None \<Rightarrow> [])"

definition datalogResolveArg :: "bytes \<Rightarrow> env \<Rightarrow> bytes" where
  "datalogResolveArg a env = (if datalogIsVariable a then env_at env a else datalogUnquote a)"

definition datalogTupleIn :: "bytes list list \<Rightarrow> bytes list \<Rightarrow> bool" where
  "datalogTupleIn rel t = list_ex (\<lambda>r. r = t) rel"

fun match_args :: "bytes list \<Rightarrow> bytes list \<Rightarrow> env \<Rightarrow> env option" where
  "match_args (a # as) (v # vs) env =
    (if datalogIsVariable a then
       (case env a of
          Some x \<Rightarrow> if x \<noteq> v then None else match_args as vs env
        | None \<Rightarrow> match_args as vs (env(a \<mapsto> v)))
     else if v \<noteq> datalogUnquote a then None
     else match_args as vs env)"
| "match_args _ _ env = Some env"

definition match_tuple :: "bytes list \<Rightarrow> env \<Rightarrow> bytes list \<Rightarrow> env option" where
  "match_tuple args env t = (if length t \<noteq> length args then None else match_args args t env)"

definition neq_passes :: "DatalogRuleBody \<Rightarrow> env \<Rightarrow> bool" where
  "neq_passes lit env \<longleftrightarrow>
    (case (env (NeqA lit), env (NeqB lit)) of (Some a, Some b) \<Rightarrow> a \<noteq> b | _ \<Rightarrow> True)"

definition not_matched :: "relations \<Rightarrow> DatalogRuleBody \<Rightarrow> env \<Rightarrow> bool" where
  "not_matched st lit env \<longleftrightarrow>
    list_all (\<lambda>t. t \<noteq> map (\<lambda>a. datalogResolveArg a env) (LitArgs lit)) (st (LitName lit))"

definition literal_step :: "relations \<Rightarrow> DatalogRuleBody \<Rightarrow> env list \<Rightarrow> env list" where
  "literal_step st lit envs =
    (if IsNeq lit then filter (neq_passes lit) envs
     else if IsNot lit then filter (not_matched st lit) envs
     else concat (map (\<lambda>env. List.map_filter (match_tuple (LitArgs lit) env) (st (LitName lit))) envs))"

definition body_envs :: "relations \<Rightarrow> DatalogRuleBody list \<Rightarrow> env list \<Rightarrow> env list" where
  "body_envs st = fold (literal_step st)"

definition datalogDeriveRule :: "DatalogRule \<Rightarrow> relations \<Rightarrow> bytes list list" where
  "datalogDeriveRule r st =
    map (\<lambda>env. map (\<lambda>a. datalogResolveArg a env) (HeadArgs r)) (body_envs st (RuleBody r) [Map.empty])"

subsection \<open>The fixpoint and the query\<close>

fun add_tuples :: "bytes \<Rightarrow> bytes list list \<Rightarrow> relations \<times> bool \<Rightarrow> relations \<times> bool" where
  "add_tuples n [] acc = acc"
| "add_tuples n (t # ts) (st, changed) =
    (if datalogTupleIn (st n) t then add_tuples n ts (st, changed)
     else add_tuples n ts (st(n := st n @ [t]), True))"

definition rule_step :: "DatalogRule \<Rightarrow> relations \<times> bool \<Rightarrow> relations \<times> bool" where
  "rule_step r acc = add_tuples (HeadName r) (datalogDeriveRule r (fst acc)) acc"

definition round_step :: "DatalogRule list \<Rightarrow> relations \<Rightarrow> relations \<times> bool" where
  "round_step rules st = fold rule_step rules (st, False)"

partial_function (option) fixpoint_loop :: "DatalogRule list \<Rightarrow> relations \<Rightarrow> relations option" where
  "fixpoint_loop rules st =
    (let (st', changed) = round_step rules st in if changed then fixpoint_loop rules st' else Some st')"

definition load_facts :: "DatalogFact list \<Rightarrow> relations" where
  "load_facts fs = fold (\<lambda>f st. st(FactName f := st (FactName f) @ [FactArgs f])) fs (\<lambda>_. [])"

fun query_matches :: "bytes list \<Rightarrow> bytes list \<Rightarrow> bool" where
  "query_matches (q # qs) (v # vs) = ((q = [] \<or> v = datalogUnquote q) \<and> query_matches qs vs)"
| "query_matches qs vs \<longleftrightarrow> qs = [] \<and> vs = []"

fun free_values :: "bytes list \<Rightarrow> bytes list \<Rightarrow> bytes list" where
  "free_values (q # qs) (v # vs) = (if q = [] then v # free_values qs vs else free_values qs vs)"
| "free_values _ _ = []"

definition query_rows :: "DatalogQueryExpr \<Rightarrow> relations \<Rightarrow> bytes list list" where
  "query_rows q st = map (free_values (QueryArgs q)) (filter (query_matches (QueryArgs q)) (st (QueryName q)))"

definition datalogEval :: "DatalogQueryExpr \<Rightarrow> DatalogProgram \<Rightarrow> bytes list option" where
  "datalogEval q p = map_option (\<lambda>st. concat (query_rows q st)) (fixpoint_loop (Rules p) (load_facts (Facts p)))"

subsection \<open>The declarative meaning of a program without negation\<close>







subsection \<open>Rounds only add tuples\<close>

definition tuples :: "relations \<Rightarrow> (bytes \<times> bytes list) set" where
  "tuples st = {(n, t). t \<in> set (st n)}"

definition closed_under :: "relations \<Rightarrow> DatalogRule \<Rightarrow> bool" where
  "closed_under st r \<longleftrightarrow> set (datalogDeriveRule r st) \<subseteq> set (st (HeadName r))"

lemma mem_tuples [simp]: "(n, t) \<in> tuples st \<longleftrightarrow> t \<in> set (st n)"
  by (simp add: tuples_def)

lemma datalogTupleIn_iff [simp]: "datalogTupleIn rel t \<longleftrightarrow> t \<in> set rel"
  by (auto simp: datalogTupleIn_def list_ex_iff)

lemma add_tuples_tuples: "tuples (fst (add_tuples n ts acc)) = tuples (fst acc) \<union> {n} \<times> set ts"
  by (induction n ts acc rule: add_tuples.induct) (auto simp: tuples_def split: if_splits)

lemma add_tuples_none: "set ts \<subseteq> set (fst acc n) \<Longrightarrow> add_tuples n ts acc = acc"
  by (induction n ts acc rule: add_tuples.induct) auto

lemma add_tuples_flag: "snd (add_tuples n ts acc) \<longleftrightarrow> snd acc \<or> \<not> set ts \<subseteq> set (fst acc n)"
  by (induction n ts acc rule: add_tuples.induct) auto

lemma rule_step_tuples: "tuples (fst (rule_step r acc)) = tuples (fst acc) \<union> {HeadName r} \<times> set (datalogDeriveRule r (fst acc))"
  by (simp add: rule_step_def add_tuples_tuples)

lemma rule_step_closed: "closed_under (fst acc) r \<Longrightarrow> rule_step r acc = acc"
  by (simp add: rule_step_def closed_under_def add_tuples_none)

lemma rule_step_flag: "snd (rule_step r acc) \<longleftrightarrow> snd acc \<or> \<not> closed_under (fst acc) r"
  by (simp add: rule_step_def closed_under_def add_tuples_flag)

lemma rule_steps_mono: "tuples (fst acc) \<subseteq> tuples (fst (fold rule_step rs acc)) \<and> (snd acc \<longrightarrow> snd (fold rule_step rs acc))"
proof (induction rs arbitrary: acc)
  case (Cons r rs)
  have "tuples (fst acc) \<subseteq> tuples (fst (rule_step r acc))" "snd acc \<longrightarrow> snd (rule_step r acc)"
    by (auto simp: rule_step_tuples rule_step_flag)
  with Cons [of "rule_step r acc"] show ?case by auto
qed simp

lemma rule_steps_inv:
  assumes "\<And>r acc. r \<in> set rs \<Longrightarrow> P (fst acc) \<Longrightarrow> P (fst (rule_step r acc))" "P (fst acc)"
  shows "P (fst (fold rule_step rs acc))"
  using assms by (induction rs arbitrary: acc) simp_all

lemma rule_steps_unchanged:
  "\<not> snd (fold rule_step rs acc) \<Longrightarrow> fst (fold rule_step rs acc) = fst acc \<and> (\<forall>r \<in> set rs. closed_under (fst acc) r)"
proof (induction rs arbitrary: acc)
  case (Cons r rs)
  then have "\<not> snd (rule_step r acc)" using rule_steps_mono [of "rule_step r acc" rs] by auto
  then have "closed_under (fst acc) r" by (simp add: rule_step_flag)
  with Cons show ?case by (simp add: rule_step_closed)
qed simp

lemma rule_steps_changed:
  "snd (fold rule_step rs acc) \<Longrightarrow> \<not> snd acc \<Longrightarrow> tuples (fst acc) \<noteq> tuples (fst (fold rule_step rs acc))"
proof (induction rs arbitrary: acc)
  case (Cons r rs)
  show ?case
  proof (cases "closed_under (fst acc) r")
    case True
    with Cons show ?thesis by (simp add: rule_step_closed)
  next
    case False
    then obtain t where "t \<in> set (datalogDeriveRule r (fst acc))" "t \<notin> set (fst acc (HeadName r))"
      by (auto simp: closed_under_def)
    then have "(HeadName r, t) \<in> tuples (fst (rule_step r acc)) - tuples (fst acc)" by (simp add: rule_step_tuples)
    then show ?thesis using rule_steps_mono [of "rule_step r acc" rs] by (auto simp: set_eq_iff subset_iff)
  qed
qed simp

subsection \<open>The fixpoint is reached\<close>

text \<open>The strings a program can write into a tuple.\<close>

definition constants :: "DatalogProgram \<Rightarrow> bytes set" where
  "constants p = insert [] (\<Union> (set ` FactArgs ` set (Facts p)) \<union> \<Union> ((\<lambda>r. datalogUnquote ` set (HeadArgs r)) ` set (Rules p)))"

definition rows_over :: "bytes set \<Rightarrow> relations \<Rightarrow> bool" where
  "rows_over C st \<longleftrightarrow> (\<forall>n t. t \<in> set (st n) \<longrightarrow> set t \<subseteq> C)"

definition universe :: "DatalogProgram \<Rightarrow> (bytes \<times> bytes list) set" where
  "universe p = (\<Union>r \<in> set (Rules p). {HeadName r} \<times> {t. set t \<subseteq> constants p \<and> length t = length (HeadArgs r)})"

lemma finite_constants: "finite (constants p)"
  by (simp add: constants_def)

lemma finite_universe: "finite (universe p)"
  by (simp add: universe_def finite_lists_length_eq [OF finite_constants])

lemma match_args_ran: "match_args as vs env = Some env' \<Longrightarrow> ran env' \<subseteq> ran env \<union> set vs"
proof (induction as vs env arbitrary: env' rule: match_args.induct)
  case (1 a as v vs env)
  show ?case
  proof (cases "datalogIsVariable a")
    case True
    show ?thesis
    proof (cases "env a")
      case None
      with True 1(1) [OF True None] 1(4) have "ran env' \<subseteq> ran (env(a \<mapsto> v)) \<union> set vs"
        by (simp del: fun_upd_apply)
      with None show ?thesis by (auto simp: ran_def split: if_splits)
    next
      case (Some x)
      with True 1 show ?thesis by (fastforce split: if_splits)
    qed
  next
    case False
    with 1 show ?thesis by (fastforce split: if_splits)
  qed
qed auto

lemma set_map_filter_iff: "y \<in> set (List.map_filter f xs) \<longleftrightarrow> (\<exists>x \<in> set xs. f x = Some y)"
  by (force simp: List.map_filter_def)

lemma literal_step_ran:
  assumes "rows_over C st" "\<forall>e \<in> set envs. ran e \<subseteq> C" "e \<in> set (literal_step st l envs)"
  shows "ran e \<subseteq> C"
  using assms match_args_ran
  by (fastforce simp: literal_step_def rows_over_def set_map_filter_iff match_tuple_def split: if_splits)

lemma body_envs_ran:
  assumes "rows_over C st" "\<forall>e \<in> set envs. ran e \<subseteq> C"
  shows "\<forall>e \<in> set (body_envs st ls envs). ran e \<subseteq> C"
  using assms(2)
proof (induction ls arbitrary: envs)
  case (Cons l ls)
  then have "\<forall>e \<in> set (literal_step st l envs). ran e \<subseteq> C" using literal_step_ran [OF assms(1)] by blast
  from Cons.IH [OF this] show ?case by (simp add: body_envs_def)
qed (simp add: body_envs_def)

lemma derived_rows:
  assumes "rows_over (constants p) st" "r \<in> set (Rules p)" "t \<in> set (datalogDeriveRule r st)"
  shows "(HeadName r, t) \<in> universe p \<and> set t \<subseteq> constants p"
proof -
  from assms(3) obtain e where e: "e \<in> set (body_envs st (RuleBody r) [Map.empty])"
    "t = map (\<lambda>a. datalogResolveArg a e) (HeadArgs r)" by (auto simp: datalogDeriveRule_def)
  have ran: "ran e \<subseteq> constants p" using body_envs_ran [OF assms(1), of "[Map.empty]"] e(1) by simp
  have "env_at e a \<in> constants p" for a
  proof (cases "e a")
    case None
    then show ?thesis by (simp add: env_at_def constants_def)
  next
    case (Some v)
    then have "v \<in> constants p" using ran ranI [of e a v] by (meson subsetD)
    with Some show ?thesis by (simp add: env_at_def)
  qed
  then have "\<forall>a \<in> set (HeadArgs r). datalogResolveArg a e \<in> constants p"
    using assms(2) by (auto simp: datalogResolveArg_def constants_def)
  with e(2) assms(2) show ?thesis by (auto simp: universe_def)
qed

lemma rule_step_rows:
  assumes "r \<in> set (Rules p)" "rows_over (constants p) (fst acc)"
  shows "rows_over (constants p) (fst (rule_step r acc)) \<and> tuples (fst (rule_step r acc)) \<subseteq> tuples (fst acc) \<union> universe p"
proof -
  have "rows_over (constants p) st \<longleftrightarrow> (\<forall>(n, t) \<in> tuples st. set t \<subseteq> constants p)" for st
    by (auto simp: rows_over_def tuples_def)
  with assms derived_rows [OF assms(2,1)] show ?thesis by (auto simp: rule_step_tuples)
qed

lemma load_facts_tuples: "tuples (load_facts fs) = {(FactName f, FactArgs f) |f. f \<in> set fs}"
proof -
  have "tuples (fold (\<lambda>f st. st(FactName f := st (FactName f) @ [FactArgs f])) fs st)
      = tuples st \<union> {(FactName f, FactArgs f) |f. f \<in> set fs}" for st
  proof (induction fs arbitrary: st)
    case (Cons f fs)
    have "tuples (st(FactName f := st (FactName f) @ [FactArgs f])) = insert (FactName f, FactArgs f) (tuples st)"
      by (auto simp: tuples_def split: if_splits)
    then show ?case unfolding fold.simps o_apply Cons list.set by blast
  qed simp
  then show ?thesis by (simp add: load_facts_def tuples_def)
qed

lemma load_facts_rows: "rows_over (constants p) (load_facts (Facts p))"
proof -
  have "t \<in> set (load_facts (Facts p) n) \<Longrightarrow> \<exists>f \<in> set (Facts p). t = FactArgs f" for n t
    using load_facts_tuples [of "Facts p"] by (auto simp: tuples_def set_eq_iff)
  then show ?thesis by (fastforce simp: rows_over_def constants_def)
qed

lemma fixpoint_loop_reaches:
  assumes "\<And>r acc. r \<in> set (Rules p) \<Longrightarrow> P (fst acc) \<Longrightarrow> P (fst (rule_step r acc))"
  shows "rows_over (constants p) st \<Longrightarrow> P st \<Longrightarrow>
    \<exists>st'. fixpoint_loop (Rules p) st = Some st' \<and> P st' \<and> tuples st \<subseteq> tuples st' \<and> (\<forall>r \<in> set (Rules p). closed_under st' r)"
proof (induction "card (universe p - tuples st)" arbitrary: st rule: less_induct)
  case less
  obtain st' c where r: "round_step (Rules p) st = (st', c)" by fastforce
  then have f: "fold rule_step (Rules p) (st, False) = (st', c)" by (simp add: round_step_def)
  have P: "P st'" using rule_steps_inv [of "Rules p" P "(st, False)"] assms less.prems f by simp
  have "rows_over (constants p) (fst (rule_step r acc)) \<and> tuples (fst (rule_step r acc)) \<subseteq> tuples st \<union> universe p"
    if "r \<in> set (Rules p)" "rows_over (constants p) (fst acc) \<and> tuples (fst acc) \<subseteq> tuples st \<union> universe p" for r acc
    using rule_step_rows [of r p acc] that by blast
  from rule_steps_inv [of "Rules p" "\<lambda>s. rows_over (constants p) s \<and> tuples s \<subseteq> tuples st \<union> universe p", OF this, of "(st, False)"]
  have rows: "rows_over (constants p) st' \<and> tuples st' \<subseteq> tuples st \<union> universe p"
    using less.prems(1) f by simp
  have mono: "tuples st \<subseteq> tuples st'" using rule_steps_mono [of "(st, False)" "Rules p"] f by simp
  show ?case
  proof (cases c)
    case False
    with rule_steps_unchanged [of "Rules p" "(st, False)"] f have "st' = st" "\<forall>r \<in> set (Rules p). closed_under st r" by simp_all
    with r False less.prems show ?thesis by (subst fixpoint_loop.simps) simp
  next
    case True
    with rule_steps_changed [of "Rules p" "(st, False)"] f have "tuples st \<noteq> tuples st'" by simp
    with mono rows have "universe p - tuples st' \<subset> universe p - tuples st" by blast
    then have "card (universe p - tuples st') < card (universe p - tuples st)"
      by (simp add: finite_universe psubset_card_mono)
    from less.hyps [OF this] rows P obtain st'' where
      "fixpoint_loop (Rules p) st' = Some st''" "P st''" "tuples st' \<subseteq> tuples st''" "\<forall>r \<in> set (Rules p). closed_under st'' r" by blast
    with r True mono show ?thesis by (subst fixpoint_loop.simps) auto
  qed
qed

lemma datalog_loop_total:
  fixes p :: DatalogProgram
  shows "\<exists>st. fixpoint_loop (Rules p) (load_facts (Facts p)) = Some st"
  using fixpoint_loop_reaches [of p "\<lambda>_. True", OF _ load_facts_rows] by blast

text \<open>C9. Compile-time evaluation of a Datalog query stops with an answer on every program, negation included.\<close>

theorem datalogEval_terminates: "\<exists>out. datalogEval q p = Some out"
  using datalog_loop_total [of p] by (auto simp: datalogEval_def)


subsection \<open>Matching\<close>











subsection \<open>The answer is the least model\<close>













subsection \<open>Negation is read against the tuples found so far\<close>

definition free_of :: DatalogRule where
  "free_of = \<lparr>HeadName = ''free'', HeadArgs = [''X''],
    RuleBody = [\<lparr>LitName = ''node'', LitArgs = [''X''], IsNot = False, IsNeq = False, NeqA = [], NeqB = []\<rparr>,
      \<lparr>LitName = ''used'', LitArgs = [''X''], IsNot = True, IsNeq = False, NeqA = [], NeqB = []\<rparr>]\<rparr>"

definition used_by :: DatalogRule where
  "used_by = \<lparr>HeadName = ''used'', HeadArgs = [''X''],
    RuleBody = [\<lparr>LitName = ''node'', LitArgs = [''X''], IsNot = False, IsNeq = False, NeqA = [], NeqB = []\<rparr>]\<rparr>"

definition free_query :: DatalogQueryExpr where
  "free_query = \<lparr>QueryName = ''free'', QueryArgs = [[]], QueryProg = None\<rparr>"

text \<open>The same stratified program gives two answers, by the order of its rules.\<close>

theorem negation_order:
  "datalogEval free_query \<lparr>Facts = [\<lparr>FactName = ''node'', FactArgs = [''a'']\<rparr>], Rules = [free_of, used_by]\<rparr> = Some [''a'']"
  "datalogEval free_query \<lparr>Facts = [\<lparr>FactName = ''node'', FactArgs = [''a'']\<rparr>], Rules = [used_by, free_of]\<rparr> = Some []"
  by (simp_all add: datalogEval_def load_facts_def query_rows_def fixpoint_loop.simps round_step_def rule_step_def
      datalogDeriveRule_def body_envs_def literal_step_def match_tuple_def not_matched_def List.map_filter_def
      datalogResolveArg_def env_at_def datalogIsVariable_def dquote_def datalogTupleIn_def free_of_def used_by_def
      free_query_def del: datalogTupleIn_iff)

end
