(* ===== verification/Py_Source.thy ===== *)
theory Py_Source
  imports Go_Sort "HOL-Library.Word"
begin

section \<open>The Python syntax tree and its printer (transpiler3/python/pysrc/nodes.go)\<close>

text \<open>
  The tree the lowerer builds and the text it prints as.  A nil interface is None where the code
  tests for it.  \<open>DictLit\<close> indexes its values by the position of the key, which panics when there
  are fewer: the printers return None for the panic.  A binary64 number is its 64 bits; the text
  \<open>strconv.FormatFloat\<close> gives it and the printable runes are the printer's parameters.
\<close>

subsection \<open>The tree\<close>

datatype Expr =
    Call Expr "Expr list" "(bytes \<times> Expr) list"
  | BinaryEq Expr Expr
  | BinaryExpr Expr bytes Expr
  | UnaryExpr bytes Expr
  | ListLit "Expr list"
  | SetLit "Expr list"
  | DictLit "Expr list" "Expr list"
  | SliceExpr Expr "Expr option" "Expr option"
  | IndexExpr Expr Expr
  | Name bytes
  | Attribute Expr bytes
  | StrLit bytes
  | IntLit int
  | FloatLit "64 word"
  | BoolLit bool

record TypeRef =
  TypeName :: bytes

record Param =
  ParamName :: bytes
  ParamType :: TypeRef
  ParamDefault :: "Expr option"

record ClassField =
  FieldName :: bytes
  FieldType :: TypeRef

record FieldBinding =
  BoundField :: bytes
  BindName :: bytes

datatype Stmt =
    FunctionStmt FunctionDef
  | ClassDef bytes "bytes list" "ClassField list" "FunctionDef option" "FunctionDef list"
  | UnionDef bytes "bytes list"
  | MatchStmt Expr "MatchCase list"
  | AnnotateStmt bytes TypeRef
  | IfStmt Expr "Stmt list" "Stmt list"
  | ExprStmt Expr
  | AssignStmt bytes TypeRef Expr
  | AttrAssignStmt Expr bytes Expr
  | ReturnStmt "Expr option"
  | RaiseStmt "Expr option"
  | TryExceptStmt "Stmt list" "bytes list" bytes "Stmt list"
  | PassStmt
  | IndexAssignStmt Expr Expr Expr
  | WhileStmt Expr "Stmt list"
  | ForEachStmt bytes Expr "Stmt list"
  | ForRangeStmt bytes Expr Expr "Stmt list"
  | BreakStmt
  | ContinueStmt
  | ReassignStmt bytes Expr
and FunctionDef = FunctionDef bytes "Param list" TypeRef "Stmt list" "bytes list" bool
and MatchCase = MatchCase bool bytes "FieldBinding list" "Expr option" "Stmt list"

record ImportStmt =
  ImportFrom :: bytes
  ImportNames :: "bytes list"

record Module =
  FutureAnnotations :: bool
  Imports :: "ImportStmt list"
  Stmts :: "Stmt list"

record Printer =
  FormatFloat :: "64 word \<Rightarrow> bytes"
  IsPrintRune :: "int \<Rightarrow> bool"

subsection \<open>Texts that may panic\<close>

definition cats :: "bytes option list \<Rightarrow> bytes option" where
  "cats ts = map_option concat (those ts)"

definition joins :: "bytes \<Rightarrow> bytes option list \<Rightarrow> bytes option" where
  "joins sep ts = map_option (join sep) (those ts)"

subsection \<open>Expressions\<close>

fun Expr_PyString :: "Printer \<Rightarrow> Expr \<Rightarrow> bytes option" where
  "Expr_PyString pr (Call f args kwargs) =
    cats [Expr_PyString pr f, Some ''('',
      joins '', '' (map (Expr_PyString pr) args @ map (\<lambda>(n, v). cats [Some (n @ ''=''), Expr_PyString pr v]) kwargs),
      Some '')'']"
| "Expr_PyString pr (BinaryEq l r) = cats [Expr_PyString pr l, Some '' == '', Expr_PyString pr r]"
| "Expr_PyString pr (BinaryExpr l op r) =
    cats [Some ''('', Expr_PyString pr l, Some ('' '' @ op @ '' ''), Expr_PyString pr r, Some '')'']"
| "Expr_PyString pr (UnaryExpr op e) =
    (if op = ''not'' then cats [Some ''(not '', Expr_PyString pr e, Some '')'']
     else cats [Some (''('' @ op), Expr_PyString pr e, Some '')''])"
| "Expr_PyString pr (ListLit es) = cats [Some ''['', joins '', '' (map (Expr_PyString pr) es), Some '']'']"
| "Expr_PyString pr (SetLit es) = cats [Some ''{'', joins '', '' (map (Expr_PyString pr) es), Some ''}'']"
| "Expr_PyString pr (DictLit ks vs) =
    (let ts = map (Expr_PyString pr) vs in
     if length vs < length ks then None
     else cats [Some ''{'',
       joins '', '' (map (\<lambda>(k, t). cats [k, Some '': '', t]) (zip (map (Expr_PyString pr) ks) ts)),
       Some ''}''])"
| "Expr_PyString pr (SliceExpr e s t) =
    cats [Expr_PyString pr e, Some ''['',
      (case s of None \<Rightarrow> Some [] | Some x \<Rightarrow> Expr_PyString pr x), Some '':'',
      (case t of None \<Rightarrow> Some [] | Some x \<Rightarrow> Expr_PyString pr x), Some '']'']"
| "Expr_PyString pr (IndexExpr e i) = cats [Expr_PyString pr e, Some ''['', Expr_PyString pr i, Some '']'']"
| "Expr_PyString pr (Name n) = Some n"
| "Expr_PyString pr (Attribute e a) = cats [Expr_PyString pr e, Some (''.'' @ a)]"
| "Expr_PyString pr (StrLit s) = Some (quote (IsPrintRune pr) s)"
| "Expr_PyString pr (IntLit i) = Some (itoa i)"
| "Expr_PyString pr (FloatLit f) = Some (FormatFloat pr f)"
| "Expr_PyString pr (BoolLit b) = Some (if b then ''True'' else ''False'')"

subsection \<open>Statements\<close>

definition pad :: "nat \<Rightarrow> bytes" where
  "pad indent = replicate (4 * indent) (CHR '' '')"

definition param_text :: "Printer \<Rightarrow> Param \<Rightarrow> bytes option" where
  "param_text pr p =
    cats [Some (ParamName p),
      Some (if TypeName (ParamType p) \<noteq> [] then '': '' @ TypeName (ParamType p) else []),
      (case ParamDefault p of None \<Rightarrow> Some [] | Some e \<Rightarrow> cats [Some '' = '', Expr_PyString pr e])]"

definition function_header :: "Printer \<Rightarrow> bytes \<Rightarrow> Param list \<Rightarrow> TypeRef \<Rightarrow> bool \<Rightarrow> bytes option" where
  "function_header pr n ps ret async =
    cats [Some ((if async then ''async '' else []) @ ''def '' @ n @ ''(''),
      joins '', '' (map (param_text pr) ps), Some '')'',
      Some (if TypeName ret \<noteq> [] then '' -> '' @ TypeName ret else []), Some '':'']"

definition decorator_lines :: "nat \<Rightarrow> bytes list \<Rightarrow> bytes" where
  "decorator_lines indent ds = concat (map (\<lambda>d. pad indent @ ''@'' @ d @ nl) ds)"

definition case_header :: "Printer \<Rightarrow> bool \<Rightarrow> bytes \<Rightarrow> FieldBinding list \<Rightarrow> Expr option \<Rightarrow> bytes option" where
  "case_header pr wild v bs g =
    cats [Some (''case '' @ (if wild then ''_''
        else v @ ''('' @ join '', '' (map (\<lambda>b. BoundField b @ ''='' @ BindName b) bs) @ '')'')),
      (case g of None \<Rightarrow> Some [] | Some e \<Rightarrow> cats [Some '' if '', Expr_PyString pr e]), Some '':'']"

definition except_header :: "bytes list \<Rightarrow> bytes \<Rightarrow> bytes" where
  "except_header ts bind =
    ''except '' @ (case ts of [t] \<Rightarrow> t | _ \<Rightarrow> ''('' @ join '', '' ts @ '')'')
    @ (if bind \<noteq> [] then '' as '' @ bind else []) @ '':''"

text \<open>A suite prints its statements on lines of their own, and \<open>pass\<close> when there is none.\<close>

definition suite :: "nat \<Rightarrow> bytes option list \<Rightarrow> bytes option" where
  "suite indent ts = (if ts = [] then Some (pad indent @ ''    pass'') else joins nl ts)"

definition header_line :: "nat \<Rightarrow> bytes option \<Rightarrow> bytes option" where
  "header_line indent h = cats [Some (pad indent), h, Some nl]"

definition field_line :: "nat \<Rightarrow> ClassField \<Rightarrow> bytes" where
  "field_line indent f = pad indent @ ''    '' @ FieldName f @ '': '' @ TypeName (FieldType f)"

fun Stmt_PyString :: "Printer \<Rightarrow> nat \<Rightarrow> Stmt \<Rightarrow> bytes option"
  and FunctionDef_PyString :: "Printer \<Rightarrow> nat \<Rightarrow> FunctionDef \<Rightarrow> bytes option"
  and MatchCase_PyString :: "Printer \<Rightarrow> nat \<Rightarrow> MatchCase \<Rightarrow> bytes option"
where
  "Stmt_PyString pr n (FunctionStmt f) = FunctionDef_PyString pr n f"
| "Stmt_PyString pr n (ClassDef name ds fs init ms) =
    cats [Some (decorator_lines n ds), header_line n (Some (''class '' @ name @ '':'')),
      (if fs = [] \<and> init = None \<and> ms = [] then Some (pad n @ ''    pass'')
       else joins (nl @ nl)
         ((if fs = [] then [] else [Some (join nl (map (field_line n) fs))])
          @ (case init of None \<Rightarrow> [] | Some f \<Rightarrow> [FunctionDef_PyString pr (n + 1) f])
          @ map (FunctionDef_PyString pr (n + 1)) ms))]"
| "Stmt_PyString pr n (UnionDef name vs) = Some (pad n @ ''type '' @ name @ '' = '' @ join '' | '' vs)"
| "Stmt_PyString pr n (MatchStmt e cs) =
    cats [header_line n (cats [Some ''match '', Expr_PyString pr e, Some '':'']), joins nl (map (MatchCase_PyString pr n) cs)]"
| "Stmt_PyString pr n (AnnotateStmt x t) = Some (pad n @ x @ '': '' @ TypeName t)"
| "Stmt_PyString pr n (IfStmt c thn els) =
    cats [header_line n (cats [Some ''if '', Expr_PyString pr c, Some '':'']),
      joins nl (map (Stmt_PyString pr (n + 1)) thn),
      (if els = [] then Some []
       else cats [Some (nl @ pad n @ ''else:'' @ nl), joins nl (map (Stmt_PyString pr (n + 1)) els)])]"
| "Stmt_PyString pr n (ExprStmt e) = cats [Some (pad n), Expr_PyString pr e]"
| "Stmt_PyString pr n (AssignStmt x t e) =
    (if TypeName t \<noteq> [] then cats [Some (pad n @ x @ '': '' @ TypeName t @ '' = ''), Expr_PyString pr e]
     else cats [Some (pad n @ x @ '' = ''), Expr_PyString pr e])"
| "Stmt_PyString pr n (AttrAssignStmt r a e) =
    cats [Some (pad n), Expr_PyString pr r, Some (''.'' @ a @ '' = ''), Expr_PyString pr e]"
| "Stmt_PyString pr n (ReturnStmt v) =
    (case v of None \<Rightarrow> Some (pad n @ ''return'') | Some e \<Rightarrow> cats [Some (pad n @ ''return ''), Expr_PyString pr e])"
| "Stmt_PyString pr n (RaiseStmt v) =
    (case v of None \<Rightarrow> Some (pad n @ ''raise'') | Some e \<Rightarrow> cats [Some (pad n @ ''raise ''), Expr_PyString pr e])"
| "Stmt_PyString pr n (TryExceptStmt body ts bind handler) =
    cats [header_line n (Some ''try:''), suite n (map (Stmt_PyString pr (n + 1)) body), Some nl,
      header_line n (Some (except_header ts bind)), suite n (map (Stmt_PyString pr (n + 1)) handler)]"
| "Stmt_PyString pr n PassStmt = Some (pad n @ ''pass'')"
| "Stmt_PyString pr n (IndexAssignStmt r k e) =
    cats [Some (pad n), Expr_PyString pr r, Some ''['', Expr_PyString pr k, Some ''] = '', Expr_PyString pr e]"
| "Stmt_PyString pr n (WhileStmt c body) =
    cats [header_line n (cats [Some ''while '', Expr_PyString pr c, Some '':'']), suite n (map (Stmt_PyString pr (n + 1)) body)]"
| "Stmt_PyString pr n (ForEachStmt x e body) =
    cats [header_line n (cats [Some (''for '' @ x @ '' in ''), Expr_PyString pr e, Some '':'']),
      suite n (map (Stmt_PyString pr (n + 1)) body)]"
| "Stmt_PyString pr n (ForRangeStmt x s t body) =
    cats [header_line n (cats [Some (''for '' @ x @ '' in range(''), Expr_PyString pr s, Some '', '', Expr_PyString pr t, Some ''):'']),
      suite n (map (Stmt_PyString pr (n + 1)) body)]"
| "Stmt_PyString pr n BreakStmt = Some (pad n @ ''break'')"
| "Stmt_PyString pr n ContinueStmt = Some (pad n @ ''continue'')"
| "Stmt_PyString pr n (ReassignStmt x e) = cats [Some (pad n @ x @ '' = ''), Expr_PyString pr e]"
| "FunctionDef_PyString pr n (FunctionDef name ps ret body ds async) =
    cats [Some (decorator_lines n ds), header_line n (function_header pr name ps ret async),
      suite n (map (Stmt_PyString pr (n + 1)) body)]"
| "MatchCase_PyString pr n (MatchCase wild v bs g body) =
    cats [header_line n (cats [Some ''    '', case_header pr wild v bs g]),
      (if body = [] then Some (pad n @ ''        pass'') else joins nl (map (Stmt_PyString pr (n + 2)) body))]"

subsection \<open>Modules\<close>

definition ImportStmt_PyString :: "nat \<Rightarrow> ImportStmt \<Rightarrow> bytes" where
  "ImportStmt_PyString indent i =
    (if ImportFrom i = [] then pad indent @ ''import '' @ join '', '' (ImportNames i)
     else pad indent @ ''from '' @ ImportFrom i @ '' import '' @ join '', '' (ImportNames i))"

definition PySource :: "Printer \<Rightarrow> Module \<Rightarrow> bytes option" where
  "PySource pr m =
    cats (Some (if FutureAnnotations m then ''from __future__ import annotations'' @ nl else [])
      # Some (if FutureAnnotations m \<and> Imports m \<noteq> [] then nl else [])
      # map (\<lambda>i. Some (ImportStmt_PyString 0 i @ nl)) (Imports m)
      @ map (\<lambda>s. cats [Some (nl @ nl), Stmt_PyString pr 0 s, Some nl]) (Stmts m))"

end
