(* ===== verification/Py_Outline.thy ===== *)
theory Py_Outline
  imports Py_Source
begin

section \<open>The block structure of the printed Python\<close>

text \<open>
  Python reads blocks from indentation.  \<open>outline\<close> is the nesting of a statement's lines,
  \<open>read_blocks\<close> finds the nesting of a text as Python's tokenizer does: blank lines do not count, a
  deeper line opens a block under the line before it and the lines of a block have one column.
\<close>

subsection \<open>Outlines and their reader\<close>

datatype Outline = Line bytes "Outline list"

fun flat :: "nat \<Rightarrow> Outline \<Rightarrow> bytes list" where
  "flat n (Line h os) = (pad n @ h) # concat (map (flat (n + 1)) os)"

definition code_lines :: "bytes \<Rightarrow> bytes list" where
  "code_lines t = filter (\<lambda>l. l \<noteq> []) (split_on (CHR 0x0A) t)"

definition column :: "bytes \<Rightarrow> nat \<times> bytes" where
  "column l = (let sp = takeWhile (\<lambda>c. c = CHR '' '') l in (length sp, drop (length sp) l))"

definition one_column :: "(nat \<times> Outline) list \<Rightarrow> bool" where
  "one_column os \<longleftrightarrow> list_all (\<lambda>(d, _). d = fst (hd os)) os"

fun build_blocks :: "(nat \<times> bytes) list \<Rightarrow> (nat \<times> Outline) list option" where
  "build_blocks [] = Some []"
| "build_blocks ((d, h) # ls) =
    (case build_blocks ls of
       None \<Rightarrow> None
     | Some os \<Rightarrow>
         let under = takeWhile (\<lambda>(e, _). d < e) os in
         if one_column under then Some ((d, Line h (map snd under)) # dropWhile (\<lambda>(e, _). d < e) os) else None)"

definition read_blocks :: "bytes \<Rightarrow> Outline list option" where
  "read_blocks t =
    (case build_blocks (map column (code_lines t)) of
       Some os \<Rightarrow> if list_all (\<lambda>(d, _). d = 0) os then Some (map snd os) else None
     | None \<Rightarrow> None)"

text \<open>A line opens a block exactly when it ends with a colon.\<close>

fun suites_ok :: "Outline \<Rightarrow> bool" where
  "suites_ok (Line h os) \<longleftrightarrow> (os \<noteq> [] \<longleftrightarrow> last h = CHR '':'') \<and> (\<forall>x \<in> set os. suites_ok x)"

subsection \<open>Well-formed trees\<close>

definition letter :: "char \<Rightarrow> bool" where
  "letter c \<longleftrightarrow> (let b = byte c in 97 \<le> b \<and> b \<le> 122 \<or> 65 \<le> b \<and> b \<le> 90 \<or> b = 95 \<or> 128 \<le> b)"

definition ident_char :: "char \<Rightarrow> bool" where
  "ident_char c \<longleftrightarrow> letter c \<or> is_digit c"

definition ident :: "bytes \<Rightarrow> bool" where
  "ident n \<longleftrightarrow> n \<noteq> [] \<and> letter (hd n) \<and> list_all ident_char n"

text \<open>The characters of annotations, decorators and module names.\<close>

definition phrase_char :: "char \<Rightarrow> bool" where
  "phrase_char c \<longleftrightarrow> ident_char c \<or> c \<in> set ''[], .()=|''"

definition phrase :: "bytes \<Rightarrow> bool" where
  "phrase t \<longleftrightarrow> list_all phrase_char t"

definition binary_ops :: "bytes list" where
  "binary_ops = [''+'', ''-'', ''*'', ''/'', ''//'', ''%'', ''=='', ''!='', ''<'', ''<='', ''>'', ''>='', ''and'', ''or'', ''in'', ''|'']"

definition unary_ops :: "bytes list" where
  "unary_ops = [''-'', ''not'']"

fun wf_expr :: "Expr \<Rightarrow> bool" where
  "wf_expr (Call f args kws) \<longleftrightarrow> wf_expr f \<and> (\<forall>a \<in> set args. wf_expr a) \<and> (\<forall>(n, v) \<in> set kws. ident n \<and> wf_expr v)"
| "wf_expr (BinaryEq l r) \<longleftrightarrow> wf_expr l \<and> wf_expr r"
| "wf_expr (BinaryExpr l op r) \<longleftrightarrow> wf_expr l \<and> op \<in> set binary_ops \<and> wf_expr r"
| "wf_expr (UnaryExpr op e) \<longleftrightarrow> op \<in> set unary_ops \<and> wf_expr e"
| "wf_expr (ListLit es) \<longleftrightarrow> (\<forall>e \<in> set es. wf_expr e)"
| "wf_expr (SetLit es) \<longleftrightarrow> es \<noteq> [] \<and> (\<forall>e \<in> set es. wf_expr e)"
| "wf_expr (DictLit ks vs) \<longleftrightarrow> length ks = length vs \<and> (\<forall>e \<in> set ks. wf_expr e) \<and> (\<forall>e \<in> set vs. wf_expr e)"
| "wf_expr (SliceExpr e s t) \<longleftrightarrow> wf_expr e \<and> (\<forall>x \<in> set_option s. wf_expr x) \<and> (\<forall>x \<in> set_option t. wf_expr x)"
| "wf_expr (IndexExpr e i) \<longleftrightarrow> wf_expr e \<and> wf_expr i"
| "wf_expr (Name n) \<longleftrightarrow> ident n"
| "wf_expr (Attribute e a) \<longleftrightarrow> wf_expr e \<and> ident a"
| "wf_expr (StrLit s) \<longleftrightarrow> True"
| "wf_expr (IntLit i) \<longleftrightarrow> True"
| "wf_expr (FloatLit f) \<longleftrightarrow> True"
| "wf_expr (BoolLit b) \<longleftrightarrow> True"

definition wf_param :: "Param \<Rightarrow> bool" where
  "wf_param p \<longleftrightarrow> ident (ParamName p) \<and> phrase (TypeName (ParamType p)) \<and> (\<forall>e \<in> set_option (ParamDefault p). wf_expr e)"

fun wf_stmt :: "Stmt \<Rightarrow> bool" and wf_function :: "FunctionDef \<Rightarrow> bool" and wf_case :: "MatchCase \<Rightarrow> bool" where
  "wf_stmt (FunctionStmt f) \<longleftrightarrow> wf_function f"
| "wf_stmt (ClassDef name ds fs init ms) \<longleftrightarrow>
    ident name \<and> (\<forall>d \<in> set ds. phrase d) \<and> (\<forall>f \<in> set fs. ident (FieldName f) \<and> phrase (TypeName (FieldType f)))
    \<and> (\<forall>f \<in> set_option init. wf_function f) \<and> (\<forall>f \<in> set ms. wf_function f)"
| "wf_stmt (UnionDef name vs) \<longleftrightarrow> ident name \<and> (\<forall>v \<in> set vs. ident v)"
| "wf_stmt (MatchStmt e cs) \<longleftrightarrow> wf_expr e \<and> cs \<noteq> [] \<and> (\<forall>c \<in> set cs. wf_case c)"
| "wf_stmt (AnnotateStmt x t) \<longleftrightarrow> ident x \<and> TypeName t \<noteq> [] \<and> phrase (TypeName t)"
| "wf_stmt (IfStmt c thn els) \<longleftrightarrow> wf_expr c \<and> thn \<noteq> [] \<and> (\<forall>s \<in> set thn. wf_stmt s) \<and> (\<forall>s \<in> set els. wf_stmt s)"
| "wf_stmt (ExprStmt e) \<longleftrightarrow> wf_expr e"
| "wf_stmt (AssignStmt x t e) \<longleftrightarrow> ident x \<and> phrase (TypeName t) \<and> wf_expr e"
| "wf_stmt (AttrAssignStmt r a e) \<longleftrightarrow> wf_expr r \<and> ident a \<and> wf_expr e"
| "wf_stmt (ReturnStmt v) \<longleftrightarrow> (\<forall>e \<in> set_option v. wf_expr e)"
| "wf_stmt (RaiseStmt v) \<longleftrightarrow> (\<forall>e \<in> set_option v. wf_expr e)"
| "wf_stmt (TryExceptStmt body ts bind handler) \<longleftrightarrow>
    (\<forall>s \<in> set body. wf_stmt s) \<and> ts \<noteq> [] \<and> (\<forall>t \<in> set ts. ident t) \<and> (bind \<noteq> [] \<longrightarrow> ident bind) \<and> (\<forall>s \<in> set handler. wf_stmt s)"
| "wf_stmt PassStmt \<longleftrightarrow> True"
| "wf_stmt (IndexAssignStmt r k e) \<longleftrightarrow> wf_expr r \<and> wf_expr k \<and> wf_expr e"
| "wf_stmt (WhileStmt c body) \<longleftrightarrow> wf_expr c \<and> (\<forall>s \<in> set body. wf_stmt s)"
| "wf_stmt (ForEachStmt x e body) \<longleftrightarrow> ident x \<and> wf_expr e \<and> (\<forall>s \<in> set body. wf_stmt s)"
| "wf_stmt (ForRangeStmt x s t body) \<longleftrightarrow> ident x \<and> wf_expr s \<and> wf_expr t \<and> (\<forall>s \<in> set body. wf_stmt s)"
| "wf_stmt BreakStmt \<longleftrightarrow> True"
| "wf_stmt ContinueStmt \<longleftrightarrow> True"
| "wf_stmt (ReassignStmt x e) \<longleftrightarrow> ident x \<and> wf_expr e"
| "wf_function (FunctionDef name ps ret body ds async) \<longleftrightarrow>
    ident name \<and> (\<forall>p \<in> set ps. wf_param p) \<and> phrase (TypeName ret) \<and> (\<forall>s \<in> set body. wf_stmt s) \<and> (\<forall>d \<in> set ds. phrase d)"
| "wf_case (MatchCase wild v bs g body) \<longleftrightarrow>
    (wild \<or> ident v) \<and> (\<forall>b \<in> set bs. ident (BoundField b) \<and> ident (BindName b)) \<and> (\<forall>e \<in> set_option g. wf_expr e)
    \<and> (\<forall>s \<in> set body. wf_stmt s)"

definition wf_import :: "ImportStmt \<Rightarrow> bool" where
  "wf_import i \<longleftrightarrow> phrase (ImportFrom i) \<and> ImportNames i \<noteq> [] \<and> (\<forall>n \<in> set (ImportNames i). ident n)"

definition wf_module :: "Module \<Rightarrow> bool" where
  "wf_module m \<longleftrightarrow> (\<forall>i \<in> set (Imports m). wf_import i) \<and> (\<forall>s \<in> set (Stmts m). wf_stmt s)"

subsection \<open>The outline of a tree\<close>

definition Line_of :: "bytes option \<Rightarrow> Outline list \<Rightarrow> Outline" where
  "Line_of h os = Line (the h) os"

definition outline_suite :: "Outline list list \<Rightarrow> Outline list" where
  "outline_suite oss = (if oss = [] then [Line ''pass'' []] else concat oss)"

fun outline :: "Printer \<Rightarrow> Stmt \<Rightarrow> Outline list"
  and outline_function :: "Printer \<Rightarrow> FunctionDef \<Rightarrow> Outline list"
  and outline_case :: "Printer \<Rightarrow> MatchCase \<Rightarrow> Outline"
where
  "outline pr (FunctionStmt f) = outline_function pr f"
| "outline pr (ClassDef name ds fs init ms) =
    map (\<lambda>d. Line (''@'' @ d) []) ds
    @ [Line (''class '' @ name @ '':'')
        (outline_suite (map (\<lambda>f. [Line (FieldName f @ '': '' @ TypeName (FieldType f)) []]) fs
          @ (case init of None \<Rightarrow> [] | Some f \<Rightarrow> [outline_function pr f]) @ map (outline_function pr) ms))]"
| "outline pr (MatchStmt e cs) =
    [Line_of (cats [Some ''match '', Expr_PyString pr e, Some '':'']) (map (outline_case pr) cs)]"
| "outline pr (IfStmt c thn els) =
    Line_of (cats [Some ''if '', Expr_PyString pr c, Some '':'']) (concat (map (outline pr) thn))
    # (if els = [] then [] else [Line ''else:'' (concat (map (outline pr) els))])"
| "outline pr (TryExceptStmt body ts bind handler) =
    [Line ''try:'' (outline_suite (map (outline pr) body)),
     Line (except_header ts bind) (outline_suite (map (outline pr) handler))]"
| "outline pr (WhileStmt c body) =
    [Line_of (cats [Some ''while '', Expr_PyString pr c, Some '':'']) (outline_suite (map (outline pr) body))]"
| "outline pr (ForEachStmt x e body) =
    [Line_of (cats [Some (''for '' @ x @ '' in ''), Expr_PyString pr e, Some '':'']) (outline_suite (map (outline pr) body))]"
| "outline pr (ForRangeStmt x s t body) =
    [Line_of (cats [Some (''for '' @ x @ '' in range(''), Expr_PyString pr s, Some '', '', Expr_PyString pr t, Some ''):''])
      (outline_suite (map (outline pr) body))]"
| "outline pr s = [Line_of (Stmt_PyString pr 0 s) []]"
| "outline_function pr (FunctionDef name ps ret body ds async) =
    map (\<lambda>d. Line (''@'' @ d) []) ds
    @ [Line_of (function_header pr name ps ret async) (outline_suite (map (outline pr) body))]"
| "outline_case pr (MatchCase wild v bs g body) =
    Line_of (case_header pr wild v bs g) (outline_suite (map (outline pr) body))"

definition outline_module :: "Printer \<Rightarrow> Module \<Rightarrow> Outline list" where
  "outline_module pr m =
    (if FutureAnnotations m then [Line ''from __future__ import annotations'' []] else [])
    @ map (\<lambda>i. Line (ImportStmt_PyString 0 i) []) (Imports m) @ concat (map (outline pr) (Stmts m))"


subsection \<open>Reading flat lines back\<close>

definition head_ok :: "bytes \<Rightarrow> bool" where
  "head_ok h \<longleftrightarrow> h \<noteq> [] \<and> hd h \<noteq> CHR '' ''"

fun heads_ok :: "Outline \<Rightarrow> bool" where
  "heads_ok (Line h os) \<longleftrightarrow> head_ok h \<and> (\<forall>x \<in> set os. heads_ok x)"

lemma column_pad: "head_ok h \<Longrightarrow> column (pad n @ h) = (4 * n, h)"
proof -
  assume h: "head_ok h"
  then have "takeWhile (\<lambda>c. c = CHR '' '') h = []" by (cases h) (auto simp: head_ok_def)
  then have "takeWhile (\<lambda>c. c = CHR '' '') (pad n @ h) = pad n" by (simp add: pad_def takeWhile_append)
  then show ?thesis by (simp add: column_def) (simp add: pad_def)
qed

lemma build_flat:
  "heads_ok o1 \<Longrightarrow> build_blocks rest = Some acc \<Longrightarrow> takeWhile (\<lambda>(e, _). 4 * n < e) acc = []
    \<Longrightarrow> build_blocks (map column (flat n o1) @ rest) = Some ((4 * n, o1) # acc)"
proof (induction o1 arbitrary: n rest acc)
  case (Line h os)
  have kids: "build_blocks (map column (concat (map (flat (n + 1)) xs)) @ rest) = Some (map (Pair (4 * (n + 1))) xs @ acc)"
    if "set xs \<subseteq> set os" for xs
    using that
  proof (induction xs)
    case (Cons x xs)
    have shallow: "takeWhile (\<lambda>(e, _). 4 * (n + 1) < e) (map (Pair (4 * (n + 1))) xs @ acc) = []"
      using Line.prems(3) by (cases xs; cases acc) (auto split: if_splits)
    from Line.IH [OF _ _ _ shallow] Cons Line.prems(1) show ?case by auto
  qed (use Line.prems(2) in simp)
  have under: "takeWhile (\<lambda>(e, _). 4 * n < e) (map (Pair (4 * (n + 1))) os @ acc) = map (Pair (4 * (n + 1))) os"
    using Line.prems(3) by (simp add: takeWhile_append)
  have past: "dropWhile (\<lambda>(e, _). 4 * n < e) (map (Pair (4 * (n + 1))) os @ acc) = acc"
    using Line.prems(3) by (cases acc) (auto simp: dropWhile_append split: if_splits)
  have "one_column (map (Pair (4 * (n + 1))) os)" by (cases os) (auto simp: one_column_def list_all_iff)
  with kids [OF subset_refl] under past Line.prems(1) show ?case
    by (simp add: column_pad o_def)
qed

lemma build_flats:
  "\<forall>x \<in> set os. heads_ok x \<Longrightarrow> build_blocks (map column (concat (map (flat n) os))) = Some (map (Pair (4 * n)) os)"
proof (induction os)
  case (Cons x os)
  have "takeWhile (\<lambda>(e, _). 4 * n < e) (map (Pair (4 * n)) os) = []" by (cases os) auto
  from build_flat [OF _ _ this] Cons show ?case by simp
qed simp

lemma read_blocks_flat:
  assumes "code_lines t = concat (map (flat 0) os)" "\<forall>x \<in> set os. heads_ok x"
  shows "read_blocks t = Some os"
  using build_flats [OF assms(2), of 0] assms(1) by (simp add: read_blocks_def list_all_iff o_def)

subsection \<open>Texts of options\<close>

lemma cats_simps [simp]:
  "cats [] = Some []" "cats (None # ts) = None" "cats (Some a # ts) = map_option (append a) (cats ts)"
  by (auto simp: cats_def option.map_comp o_def)

lemma cats_Some: "cats (x # ts) = Some t \<longleftrightarrow> (\<exists>a b. x = Some a \<and> cats ts = Some b \<and> t = a @ b)"
  by (cases x) auto

lemma those_ok: "\<forall>x \<in> set xs. \<exists>t. x = Some t \<and> P t \<Longrightarrow> \<exists>ts. those xs = Some ts \<and> list_all P ts"
  by (induction xs) auto

lemma joins_ok: "\<forall>x \<in> set xs. \<exists>t. x = Some t \<and> P t \<Longrightarrow> \<exists>ts. joins sep xs = Some (join sep ts) \<and> list_all P ts"
  using those_ok [of xs P] by (auto simp: joins_def)

definition no_nl :: "bytes \<Rightarrow> bool" where
  "no_nl t \<longleftrightarrow> CHR 0x0A \<notin> set t"

lemma no_nl_simps [simp]:
  "no_nl []" "no_nl (c # t) \<longleftrightarrow> c \<noteq> CHR 0x0A \<and> no_nl t" "no_nl (a @ b) \<longleftrightarrow> no_nl a \<and> no_nl b"
  by (auto simp: no_nl_def)

lemma no_nl_join: "no_nl sep \<Longrightarrow> list_all no_nl ts \<Longrightarrow> no_nl (join sep ts)"
  by (auto simp: no_nl_def list_all_iff dest: set_join)

lemma split_on_cat: "split_on c (a @ c # b) = split_on c a @ split_on c b"
proof (induction a)
  case (Cons x a)
  then show ?case by (cases "split_on c a") auto
qed simp

lemma code_lines_nl [simp]: "code_lines (a @ nl @ b) = code_lines a @ code_lines b"
  by (simp add: code_lines_def nl_def split_on_cat)

lemma code_lines_Nil [simp]: "code_lines [] = []"
  by (simp add: code_lines_def)

lemma code_lines_one: "no_nl t \<Longrightarrow> t \<noteq> [] \<Longrightarrow> code_lines t = [t]"
  by (simp add: code_lines_def no_nl_def)

lemma code_lines_end [simp]: "code_lines (a @ nl) = code_lines a"
  using code_lines_nl [of a "[]"] by simp

lemma code_lines_join: "code_lines (join nl ts) = concat (map code_lines ts)"
  by (induction nl ts rule: join.induct) simp_all

lemma code_lines_join2: "code_lines (join (nl @ nl) ts) = concat (map code_lines ts)"
proof (induction "nl @ nl" ts rule: join.induct)
  case (3 p q ps)
  have "code_lines (p @ (nl @ nl) @ x) = code_lines p @ code_lines x" for x
    using code_lines_nl [of p "nl @ x"] code_lines_nl [of "[]" x] by simp
  with 3 show ?case by simp
qed simp_all

lemma pad_no_nl [simp]: "no_nl (pad n)"
  by (simp add: no_nl_def pad_def)

lemma code_lines_head: "no_nl h \<Longrightarrow> h \<noteq> [] \<Longrightarrow> code_lines (pad n @ h) = [pad n @ h]"
  by (simp add: code_lines_one)


subsection \<open>Expressions print on one line\<close>

definition piece :: "bytes \<Rightarrow> bool" where
  "piece t \<longleftrightarrow> head_ok t \<and> last t \<noteq> CHR '':'' \<and> no_nl t"

text \<open>What the proofs need of \<open>strconv.FormatFloat\<close>: some text without spaces or colons.\<close>

definition float_text :: "Printer \<Rightarrow> bool" where
  "float_text pr \<longleftrightarrow> (\<forall>f. piece (FormatFloat pr f))"

lemma letter_not: "letter c \<Longrightarrow> c \<noteq> CHR '' '' \<and> c \<noteq> CHR 0x0A \<and> c \<noteq> CHR '':''"
  by (auto simp: letter_def Let_def byte_def)

lemma digit_not: "is_digit c \<Longrightarrow> c \<noteq> CHR '' '' \<and> c \<noteq> CHR 0x0A \<and> c \<noteq> CHR '':''"
  by (auto simp: is_digit_def byte_def)

lemma ident_char_not: "ident_char c \<Longrightarrow> c \<noteq> CHR '' '' \<and> c \<noteq> CHR 0x0A \<and> c \<noteq> CHR '':''"
  using letter_not digit_not by (auto simp: ident_char_def)

lemma ident_each: "ident n \<Longrightarrow> c \<in> set n \<Longrightarrow> ident_char c"
  by (simp add: ident_def list_all_iff)

lemma ident_piece: "ident n \<Longrightarrow> piece n"
  using ident_each [of n "last n"] ident_each [of n "hd n"] ident_char_not ident_each [of n]
  by (auto simp: piece_def head_ok_def no_nl_def ident_def)

lemma phrase_no_nl [simp]: "phrase t \<Longrightarrow> no_nl t"
  by (auto simp: phrase_def list_all_iff no_nl_def phrase_char_def dest: ident_char_not)

lemma ident_no_nl [simp]: "ident t \<Longrightarrow> no_nl t"
  using ident_piece by (simp add: piece_def)

lemma hex_digit_range: "0 \<le> d \<Longrightarrow> d < 16 \<Longrightarrow> 48 \<le> byte (hex_digit d)"
  by (auto simp: hex_digit_def byte_def)

lemma decode_rune_tail:
  "decode_rune a s = (r, w) \<Longrightarrow> w \<noteq> 1 \<Longrightarrow> \<forall>x \<in> set (take (w - 1) s). 128 \<le> x"
  by (auto simp: decode_rune_def bad_rune_def second_ok_def cont_def split: if_splits list.splits)

lemma decode_rune_width: "decode_rune a s = (r, w) \<Longrightarrow> 1 \<le> w"
  by (auto simp: decode_rune_def bad_rune_def split: if_splits list.splits)

lemma escape_ascii_range: "\<forall>x \<in> set (escape_ascii c). 32 \<le> byte x"
proof -
  have "48 \<le> byte (hex_digit (byte c div 16 mod 16))" "48 \<le> byte (hex_digit (byte c mod 16))"
    by (intro hex_digit_range; simp)+
  then show ?thesis by (auto simp: escape_ascii_def Let_def hex2_def)
qed

lemma hex2_range: "\<forall>x \<in> set (hex2 n). 32 \<le> byte x"
proof -
  have "48 \<le> byte (hex_digit (n div 16 mod 16))" "48 \<le> byte (hex_digit (n mod 16))"
    by (intro hex_digit_range; simp)+
  then show ?thesis by (simp add: hex2_def)
qed

lemma hex4_range: "\<forall>x \<in> set (hex4 n). 32 \<le> byte x"
  using hex2_range by (auto simp: hex4_def)

lemma quote_body_range: "\<forall>x \<in> set (quote_body ip s). 32 \<le> byte x"
proof (induction ip s rule: quote_body.induct)
  case (2 ip c s)
  show ?case
  proof (cases "byte c < 128")
    case True
    with 2 escape_ascii_range [of c] show ?thesis by auto
  next
    case False
    obtain r w where d: "decode_rune (byte c) (map byte s) = (r, w)" by force
    show ?thesis
    proof (cases "w = 1")
      case True
      with False d 2 hex2_range [of "byte c"] show ?thesis by auto
    next
      case w: False
      then obtain k where k: "w = Suc k" using decode_rune_width [OF d] by (cases w) auto
      have "\<forall>x \<in> set (take w (c # s)). 32 \<le> byte x"
        using decode_rune_tail [OF d w] False k by (auto simp: take_map)
      then have "\<forall>x \<in> set (escape_rune ip r (take w (c # s))). 32 \<le> byte x"
        using hex4_range by (auto simp: escape_rune_def)
      with False d w 2 show ?thesis by auto
    qed
  qed
qed simp

lemma quote_piece: "piece (quote ip s)"
proof -
  have "CHR 0x0A \<notin> set (quote_body ip s)" using quote_body_range [of ip s] by auto
  then show ?thesis by (simp add: quote_def piece_def head_ok_def no_nl_def)
qed

lemma itoa_piece: "piece (itoa i)"
proof -
  have "list_all (\<lambda>c. is_digit c \<or> c = CHR ''-'') (itoa i)"
    using dec_digits_digits [of "- i"] dec_digits_digits [of i] by (auto simp: itoa_def list_all_iff)
  then have "\<forall>c \<in> set (itoa i). c \<noteq> CHR '' '' \<and> c \<noteq> CHR 0x0A \<and> c \<noteq> CHR '':''"
    using digit_not by (auto simp: list_all_iff)
  moreover have "last (itoa i) \<in> set (itoa i)" "hd (itoa i) \<in> set (itoa i)" by simp_all
  ultimately show ?thesis by (auto simp: piece_def head_ok_def no_nl_def)
qed

lemma piece_wrap:
  assumes "piece a" "no_nl b" "c \<noteq> CHR '':''" "c \<noteq> CHR 0x0A"
  shows "piece (a @ b @ [c])"
  using assms by (auto simp: piece_def head_ok_def)

lemma piece_close:
  assumes "c \<noteq> CHR '' ''" "no_nl (c # b)" "d \<noteq> CHR '':''" "d \<noteq> CHR 0x0A"
  shows "piece (c # b @ [d])"
  using assms by (auto simp: piece_def head_ok_def)

lemma piece_ends: "piece a \<Longrightarrow> no_nl b \<Longrightarrow> piece c \<Longrightarrow> piece (a @ b @ c)"
  by (auto simp: piece_def head_ok_def)

lemma piece_no_nl: "piece t \<Longrightarrow> no_nl t"
  by (simp add: piece_def)

lemma ops_no_nl: "op \<in> set binary_ops \<or> op \<in> set unary_ops \<Longrightarrow> no_nl op"
  by (auto simp: binary_ops_def unary_ops_def)

abbreviation prints :: "Printer \<Rightarrow> Expr \<Rightarrow> bool" where
  "prints pr e \<equiv> \<exists>t. Expr_PyString pr e = Some t \<and> piece t"

lemma joins_pieces:
  assumes "\<forall>x \<in> set xs. \<exists>t. x = Some t \<and> no_nl t" "no_nl sep"
  shows "\<exists>t. joins sep xs = Some t \<and> no_nl t"
  using joins_ok [OF assms(1)] no_nl_join [OF assms(2)] by blast

lemma bool_piece [simp]: "piece ''True''" "piece ''False''"
  by (simp_all add: piece_def head_ok_def)

lemma prints_list:
  assumes "\<forall>e \<in> set es. prints pr e" "no_nl sep"
  shows "\<exists>t. joins sep (map (Expr_PyString pr) es) = Some t \<and> no_nl t"
proof (rule joins_pieces [OF _ assms(2)])
  show "\<forall>x \<in> set (map (Expr_PyString pr) es). \<exists>t. x = Some t \<and> no_nl t"
    using assms(1) piece_no_nl by fastforce
qed

lemma prints_opt:
  "\<forall>x \<in> set_option s. prints pr x \<Longrightarrow> \<exists>t. (case s of None \<Rightarrow> Some [] | Some x \<Rightarrow> Expr_PyString pr x) = Some t \<and> no_nl t"
  by (cases s) (auto simp: piece_no_nl)

lemma wf_expr_prints: "wf_expr e \<Longrightarrow> float_text pr \<Longrightarrow> prints pr e"
proof (induction e)
  case (Call f args kws)
  from Call obtain tf where f: "Expr_PyString pr f = Some tf" "piece tf" by auto
  have "\<exists>t. x = Some t \<and> no_nl t" if "x \<in> set (map (Expr_PyString pr) args)" for x
  proof -
    from that obtain a where a: "a \<in> set args" "x = Expr_PyString pr a" by auto
    then have "prints pr a" using Call.IH(2) [of a] Call.prems by simp
    with a(2) show ?thesis using piece_no_nl by blast
  qed
  moreover have "\<exists>t. x = Some t \<and> no_nl t"
    if x: "x \<in> set (map (\<lambda>(n, v). cats [Some (n @ ''=''), Expr_PyString pr v]) kws)" for x
  proof -
    from x obtain n v where nv: "(n, v) \<in> set kws" "x = cats [Some (n @ ''=''), Expr_PyString pr v]" by auto
    then have "ident n" "prints pr v" using Call.IH(3) Call.prems by (auto simp: snds.simps)
    with nv(2) show ?thesis by (auto simp: piece_no_nl)
  qed
  ultimately have "\<forall>x \<in> set (map (Expr_PyString pr) args @ map (\<lambda>(n, v). cats [Some (n @ ''=''), Expr_PyString pr v]) kws).
      \<exists>t. x = Some t \<and> no_nl t" unfolding set_append by blast
  from joins_pieces [OF this, of "'', ''"] obtain t where
    "joins '', '' (map (Expr_PyString pr) args @ map (\<lambda>(n, v). cats [Some (n @ ''=''), Expr_PyString pr v]) kws) = Some t" "no_nl t"
    by auto
  then show ?case using f piece_wrap [of tf "''('' @ t" "CHR '')''"] by simp
next
  case (BinaryEq l r)
  then obtain tl tr where "Expr_PyString pr l = Some tl" "piece tl" "Expr_PyString pr r = Some tr" "piece tr" by auto
  then show ?case using piece_ends [of tl "'' == ''" tr] by simp
next
  case (BinaryExpr l op r)
  then obtain tl tr where "Expr_PyString pr l = Some tl" "piece tl" "Expr_PyString pr r = Some tr" "piece tr" by auto
  then show ?case using piece_close [of "CHR ''(''" "tl @ '' '' @ op @ '' '' @ tr" "CHR '')''"] ops_no_nl [of op] BinaryExpr.prems
    by (simp add: piece_no_nl)
next
  case (UnaryExpr op e)
  then obtain t where "Expr_PyString pr e = Some t" "piece t" by auto
  then show ?case using UnaryExpr.prems ops_no_nl [of op]
      piece_close [of "CHR ''(''" "op @ t" "CHR '')''"] piece_close [of "CHR ''(''" "''not '' @ t" "CHR '')''"]
    by (simp add: piece_no_nl)
next
  case (ListLit es)
  then have "\<forall>e \<in> set es. prints pr e" by simp
  from prints_list [OF this, where sep = "'', ''"] show ?case using piece_close [of "CHR ''[''" _ "CHR '']''"] by auto
next
  case (SetLit es)
  then have "\<forall>e \<in> set es. prints pr e" by simp
  from prints_list [OF this, where sep = "'', ''"] show ?case using piece_close [of "CHR ''{''" _ "CHR ''}''"] by auto
next
  case (DictLit ks vs)
  have "\<exists>t. x = Some t \<and> no_nl t"
    if "x \<in> set (map (\<lambda>(k, t). cats [k, Some '': '', t]) (zip (map (Expr_PyString pr) ks) (map (Expr_PyString pr) vs)))" for x
  proof -
    from that obtain k t where "(k, t) \<in> set (zip (map (Expr_PyString pr) ks) (map (Expr_PyString pr) vs))"
      "x = cats [k, Some '': '', t]" by auto
    then obtain a b where ab: "(a, b) \<in> set (zip ks vs)" "x = cats [Expr_PyString pr a, Some '': '', Expr_PyString pr b]"
      by (auto simp: zip_map_map)
    then have "a \<in> set ks" "b \<in> set vs" by (auto dest: set_zip_leftD set_zip_rightD)
    moreover have "prints pr a" "prints pr b" using DictLit calculation by auto
    ultimately show ?thesis using ab(2) by (auto simp: piece_no_nl)
  qed
  then have "\<forall>x \<in> set (map (\<lambda>(k, t). cats [k, Some '': '', t]) (zip (map (Expr_PyString pr) ks) (map (Expr_PyString pr) vs))).
      \<exists>t. x = Some t \<and> no_nl t" by blast
  from joins_pieces [OF this, of "'', ''"] show ?case using piece_close [of "CHR ''{''" _ "CHR ''}''"] DictLit.prems by auto
next
  case (SliceExpr e s t)
  then obtain te where "Expr_PyString pr e = Some te" "piece te" by auto
  moreover from prints_opt [of s pr] prints_opt [of t pr] SliceExpr obtain ts tt where
    "(case s of None \<Rightarrow> Some [] | Some x \<Rightarrow> Expr_PyString pr x) = Some ts" "no_nl ts"
    "(case t of None \<Rightarrow> Some [] | Some x \<Rightarrow> Expr_PyString pr x) = Some tt" "no_nl tt" by auto
  ultimately show ?case using piece_wrap [of te "''['' @ ts @ '':'' @ tt" "CHR '']''"] by simp
next
  case (IndexExpr e i)
  then obtain te ti where "Expr_PyString pr e = Some te" "piece te" "Expr_PyString pr i = Some ti" "piece ti" by auto
  then show ?case using piece_wrap [of te "''['' @ ti" "CHR '']''"] by (simp add: piece_no_nl)
next
  case (Attribute e a)
  then obtain te where "Expr_PyString pr e = Some te" "piece te" by auto
  then show ?case using piece_ends [of te "''.''" a] Attribute.prems ident_piece [of a] by simp
qed (auto simp: ident_piece quote_piece itoa_piece float_text_def)


subsection \<open>Statements print their outline\<close>

definition lines_as :: "nat \<Rightarrow> bytes option \<Rightarrow> Outline list \<Rightarrow> bool" where
  "lines_as n p os \<longleftrightarrow>
    (\<exists>t. p = Some t \<and> code_lines t = concat (map (flat n) os)) \<and> (\<forall>x \<in> set os. heads_ok x \<and> suites_ok x) \<and> os \<noteq> []"

lemma lines_as_one: "piece h \<Longrightarrow> lines_as n (Some (pad n @ h)) [Line h []]"
  by (auto simp: lines_as_def code_lines_head piece_def head_ok_def)

lemma joins_lines:
  assumes "list_all2 (lines_as n) ps oss" "sep = nl \<or> sep = nl @ nl"
  shows "\<exists>t. joins sep ps = Some t \<and> code_lines t = concat (map (flat n) (concat oss))"
proof -
  from assms(1) have "\<exists>ts. those ps = Some ts \<and> concat (map code_lines ts) = concat (map (flat n) (concat oss))"
    by (induction rule: list_all2_induct) (auto simp: lines_as_def)
  with assms(2) show ?thesis by (auto simp: joins_def code_lines_join code_lines_join2)
qed

lemma list_all2_right: "list_all2 R xs ys \<Longrightarrow> y \<in> set ys \<Longrightarrow> \<exists>x \<in> set xs. R x y"
  by (induction rule: list_all2_induct) auto

lemma pad_next: "pad (Suc n) = pad n @ ''    ''"
proof -
  have "replicate 4 (CHR '' '') = ''    ''" by (simp add: numeral_eq_Suc)
  moreover have "4 * Suc n = 4 * n + 4" by simp
  ultimately show ?thesis unfolding pad_def by (metis replicate_add)
qed

lemma lines_as_suite:
  assumes "list_all2 (lines_as (n + 1)) ps oss"
  shows "lines_as (n + 1) (suite n ps) (outline_suite oss)"
proof (cases "ps = []")
  case True
  have e: "pad n @ ''    pass'' = pad (n + 1) @ ''pass''" by (simp add: pad_next)
  have "oss = []" using True assms by simp
  with True lines_as_one [of "''pass''" "n + 1"] show ?thesis
    unfolding suite_def outline_suite_def e by (simp add: piece_def head_ok_def)
next
  case False
  then obtain p ps' os oss' where l: "ps = p # ps'" "oss = os # oss'" using assms by (cases ps; cases oss) auto
  have "\<forall>os \<in> set oss. \<forall>x \<in> set os. heads_ok x \<and> suites_ok x" "os \<noteq> []"
    using list_all2_right [OF assms] l by (force simp: lines_as_def)+
  with joins_lines [OF assms, of nl] l show ?thesis by (auto simp: lines_as_def suite_def outline_suite_def)
qed

lemma header_lines:
  assumes "h = Some t" "head_ok t" "no_nl t" "last t = CHR '':''" "lines_as (n + 1) body os"
  shows "lines_as n (cats [header_line n h, body]) [Line_of h os]"
proof -
  obtain b where b: "body = Some b" "code_lines b = concat (map (flat (n + 1)) os)" using assms(5) by (auto simp: lines_as_def)
  have "t \<noteq> []" using assms(2) by (simp add: head_ok_def)
  then have "code_lines (pad n @ t @ nl @ b) = (pad n @ t) # code_lines b"
    using code_lines_nl [of "pad n @ t" b] assms(3) by (simp add: code_lines_head)
  with b assms show ?thesis by (simp add: lines_as_def header_line_def Line_of_def)
qed

lemma lines_as_append:
  assumes "lines_as n (Some a) os" "lines_as n b os'"
  shows "lines_as n (cats [Some a, Some nl, b]) (os @ os')"
  using assms by (auto simp: lines_as_def)


lemma ident_text: "ident n \<Longrightarrow> n \<noteq> [] \<and> hd n \<noteq> CHR '' '' \<and> last n \<noteq> CHR '':'' \<and> no_nl n"
  using ident_piece [of n] by (simp add: piece_def head_ok_def)

lemma simple_line:
  assumes "Stmt_PyString pr 0 s = Some h" "Stmt_PyString pr n s = Some (pad n @ h)" "piece h"
    "outline pr s = [Line_of (Stmt_PyString pr 0 s) []]"
  shows "lines_as n (Stmt_PyString pr n s) (outline pr s)"
  using lines_as_one [OF assms(3), of n] assms by (simp add: Line_of_def)

lemma pad_0 [simp]: "pad 0 = []"
  by (simp add: pad_def)

lemma phrase_last: "phrase t \<Longrightarrow> t \<noteq> [] \<Longrightarrow> last t \<noteq> CHR '':''"
proof -
  assume a: "phrase t" "t \<noteq> []"
  then have "phrase_char (last t)" by (simp add: phrase_def list_all_iff)
  then show ?thesis using ident_char_not by (auto simp: phrase_char_def)
qed

lemma idents_join: "\<forall>v \<in> set vs. ident v \<Longrightarrow> no_nl sep \<Longrightarrow> no_nl (join sep vs)"
  by (rule no_nl_join) (auto simp: list_all_iff)

lemma params_print:
  assumes "\<forall>p \<in> set ps. wf_param p" "float_text pr"
  shows "\<exists>t. joins '', '' (map (param_text pr) ps) = Some t \<and> no_nl t"
proof (rule joins_pieces)
  have "\<exists>t. param_text pr p = Some t \<and> no_nl t" if "wf_param p" for p
  proof (cases "ParamDefault p")
    case None
    with that show ?thesis by (auto simp: wf_param_def param_text_def)
  next
    case (Some e)
    with that wf_expr_prints [OF _ assms(2), of e] show ?thesis
      by (auto simp: wf_param_def param_text_def dest: piece_no_nl)
  qed
  with assms(1) show "\<forall>x \<in> set (map (param_text pr) ps). \<exists>t. x = Some t \<and> no_nl t" by auto
qed simp

lemma function_header_text:
  assumes "ident name" "\<forall>p \<in> set ps. wf_param p" "phrase (TypeName ret)" "float_text pr"
  shows "\<exists>t. function_header pr name ps ret async = Some t \<and> head_ok t \<and> no_nl t \<and> last t = CHR '':''"
  using params_print [OF assms(2,4)] assms by (auto simp: function_header_def head_ok_def)

lemma bindings_text: "\<forall>b \<in> set bs. ident (BoundField b) \<and> ident (BindName b) \<Longrightarrow>
    no_nl (join '', '' (map (\<lambda>b. BoundField b @ ''='' @ BindName b) bs))"
  by (rule no_nl_join) (auto simp: list_all_iff)

lemma case_header_text:
  assumes "wild \<or> ident v" "\<forall>b \<in> set bs. ident (BoundField b) \<and> ident (BindName b)" "\<forall>e \<in> set_option g. wf_expr e" "float_text pr"
  shows "\<exists>t. case_header pr wild v bs g = Some t \<and> head_ok t \<and> no_nl t \<and> last t = CHR '':''"
proof (cases g)
  case None
  with assms bindings_text [OF assms(2)] show ?thesis by (auto simp: case_header_def head_ok_def)
next
  case (Some e)
  with assms(3) wf_expr_prints [OF _ assms(4), of e] obtain t where "Expr_PyString pr e = Some t" "no_nl t"
    by (auto dest: piece_no_nl)
  with Some assms bindings_text [OF assms(2)] show ?thesis by (auto simp: case_header_def head_ok_def)
qed

lemma except_header_text:
  assumes "ts \<noteq> []" "\<forall>t \<in> set ts. ident t" "bind \<noteq> [] \<longrightarrow> ident bind"
  shows "head_ok (except_header ts bind) \<and> no_nl (except_header ts bind) \<and> last (except_header ts bind) = CHR '':''"
  using assms idents_join [OF assms(2), of "'', ''"]
  by (auto simp: except_header_def head_ok_def split: list.split)

lemma decorated_lines:
  assumes "\<forall>d \<in> set ds. phrase d" "lines_as n b os"
  shows "lines_as n (cats [Some (decorator_lines n ds), b]) (map (\<lambda>d. Line (''@'' @ d) []) ds @ os)"
  using assms(1)
proof (induction ds)
  case Nil
  with assms(2) show ?case by (auto simp: decorator_lines_def lines_as_def)
next
  case (Cons d ds)
  from Cons obtain t where t: "cats [Some (decorator_lines n ds), b] = Some t" by (auto simp: lines_as_def)
  have d: "no_nl (''@'' @ d)" "last (''@'' @ d) \<noteq> CHR '':''" using Cons.prems phrase_last by auto
  have "cats [Some (decorator_lines n (d # ds)), b] = cats [Some (pad n @ ''@'' @ d), Some nl, Some t]"
    using t by (auto simp: decorator_lines_def cats_Some)
  moreover have "lines_as n (Some (pad n @ ''@'' @ d)) [Line (''@'' @ d) []]"
    using lines_as_one [of "''@'' @ d" n] d by (simp add: piece_def head_ok_def)
  moreover have "lines_as n (Some t) (map (\<lambda>d. Line (''@'' @ d) []) ds @ os)"
    using Cons.IH [unfolded t] Cons.prems by simp
  ultimately have "lines_as n (cats [Some (decorator_lines n (d # ds)), b]) ([Line (''@'' @ d) []] @ map (\<lambda>d. Line (''@'' @ d) []) ds @ os)"
    using lines_as_append by metis
  then show ?case by simp
qed


lemma suite_lines:
  assumes "\<And>s. s \<in> set body \<Longrightarrow> lines_as (n + 1) (f s) (g s)"
  shows "lines_as (n + 1) (suite n (map f body)) (outline_suite (map g body))"
  using assms by (intro lines_as_suite) (auto simp: list_all2_map1 list_all2_map2 intro!: list.rel_refl_strong)

lemma suite_some: "xs \<noteq> [] \<Longrightarrow> suite n (map f xs) = joins nl (map f xs)"
  by (simp add: suite_def)

lemma outline_suite_some: "xs \<noteq> [] \<Longrightarrow> outline_suite (map g xs) = concat (map g xs)"
  by (simp add: outline_suite_def)

lemma field_lines:
  assumes "\<forall>f \<in> set fs. ident (FieldName f) \<and> phrase (TypeName (FieldType f))" "fs \<noteq> []"
  shows "lines_as (n + 1) (Some (join nl (map (field_line n) fs))) (map (\<lambda>f. Line (FieldName f @ '': '' @ TypeName (FieldType f)) []) fs)"
proof -
  let ?h = "\<lambda>f. FieldName f @ '': '' @ TypeName (FieldType f)"
  have l: "field_line n f = pad (n + 1) @ ?h f" for f by (simp add: field_line_def pad_next)
  have p: "piece (?h f)" if "f \<in> set fs" for f
    using that assms(1) ident_text [of "FieldName f"] phrase_last [of "TypeName (FieldType f)"]
    by (auto simp: piece_def head_ok_def)
  have "code_lines (field_line n f) = [pad (n + 1) @ ?h f]" if "f \<in> set fs" for f
    unfolding l using p [OF that] by (intro code_lines_head) (auto simp: piece_def head_ok_def)
  then have "concat (map code_lines (map (field_line n) fs)) = concat (map (flat (n + 1)) (map (\<lambda>f. Line (?h f) []) fs))"
    by (simp add: o_def cong: map_cong)
  with p assms(2) show ?thesis by (auto simp: lines_as_def code_lines_join piece_def)
qed

lemma class_lines:
  assumes fs: "\<forall>f \<in> set fs. ident (FieldName f) \<and> phrase (TypeName (FieldType f))"
    and init: "\<And>f. init = Some f \<Longrightarrow> lines_as (n + 1) (p f) (g f)"
    and ms: "\<And>f. f \<in> set ms \<Longrightarrow> lines_as (n + 1) (p f) (g f)"
  shows "lines_as (n + 1)
    (if fs = [] \<and> init = None \<and> ms = [] then Some (pad n @ ''    pass'')
     else joins (nl @ nl) ((if fs = [] then [] else [Some (join nl (map (field_line n) fs))])
        @ (case init of None \<Rightarrow> [] | Some f \<Rightarrow> [p f]) @ map p ms))
    (outline_suite (map (\<lambda>f. [Line (FieldName f @ '': '' @ TypeName (FieldType f)) []]) fs
        @ (case init of None \<Rightarrow> [] | Some f \<Rightarrow> [g f]) @ map g ms))"
proof (cases "fs = [] \<and> init = None \<and> ms = []")
  case True
  then show ?thesis using lines_as_suite [of n "[]" "[]"] by (simp add: suite_def)
next
  case False
  let ?F = "map (\<lambda>f. Line (FieldName f @ '': '' @ TypeName (FieldType f)) []) fs"
  let ?ps = "(if fs = [] then [] else [Some (join nl (map (field_line n) fs))]) @ (case init of None \<Rightarrow> [] | Some f \<Rightarrow> [p f]) @ map p ms"
  let ?os = "(if fs = [] then [] else [?F]) @ (case init of None \<Rightarrow> [] | Some f \<Rightarrow> [g f]) @ map g ms"
  have "list_all2 (lines_as (n + 1)) (map p ms) (map g ms)"
    using ms by (auto simp: list_all2_map1 list_all2_map2 intro!: list.rel_refl_strong)
  moreover have "list_all2 (lines_as (n + 1)) (case init of None \<Rightarrow> [] | Some f \<Rightarrow> [p f]) (case init of None \<Rightarrow> [] | Some f \<Rightarrow> [g f])"
    using init by (cases init) auto
  moreover have "list_all2 (lines_as (n + 1)) (if fs = [] then [] else [Some (join nl (map (field_line n) fs))]) (if fs = [] then [] else [?F])"
    using field_lines [OF fs] by simp
  ultimately have R: "list_all2 (lines_as (n + 1)) ?ps ?os" by (intro list_all2_appendI)
  have ne: "?os \<noteq> []" using False by (auto split: option.splits)
  have "\<forall>os \<in> set ?os. (\<forall>x \<in> set os. heads_ok x \<and> suites_ok x) \<and> os \<noteq> []"
    using list_all2_right [OF R] by (force simp: lines_as_def)
  moreover have "concat ?os \<noteq> []" using ne calculation by (cases ?os) auto
  moreover have "outline_suite (map (\<lambda>f. [Line (FieldName f @ '': '' @ TypeName (FieldType f)) []]) fs
        @ (case init of None \<Rightarrow> [] | Some f \<Rightarrow> [g f]) @ map g ms) = concat ?os"
    using False by (auto simp: outline_suite_def split: option.splits)
  ultimately show ?thesis using joins_lines [OF R, of "nl @ nl"] False
    unfolding lines_as_def by auto
qed

lemma one_line:
  assumes "Stmt_PyString pr n s = Some (pad n @ h)" "Stmt_PyString pr 0 s = Some h" "piece h"
  shows "lines_as n (Stmt_PyString pr n s) [Line_of (Stmt_PyString pr 0 s) []]"
  using lines_as_one [OF assms(3), of n] assms by (simp add: Line_of_def)

lemma lines_as_Some: "lines_as n p os \<Longrightarrow> \<exists>t. p = Some t"
  by (auto simp: lines_as_def)

lemma cats_assoc: "cats [a, cats [b, c]] = cats [a, b, c]"
  by (cases a; cases b; cases c) simp_all

lemma two_blocks:
  assumes "lines_as n (cats [a, b]) os" "lines_as n (cats [c, d]) os'"
  shows "lines_as n (cats [a, b, Some nl, c, d]) (os @ os')"
proof -
  obtain t where t: "cats [a, b] = Some t" using lines_as_Some [OF assms(1)] by blast
  then obtain x y where xy: "a = Some x" "b = Some y" "t = x @ y" by (auto simp: cats_Some)
  have "cats [a, b, Some nl, c, d] = cats [Some t, Some nl, cats [c, d]]"
    using xy by (cases c; cases d) simp_all
  with lines_as_append [of n t os "cats [c, d]" os'] assms t show ?thesis by simp
qed

definition opens_block :: "bytes option \<Rightarrow> bool" where
  "opens_block h \<longleftrightarrow> (\<exists>t. h = Some t \<and> head_ok t \<and> no_nl t \<and> last t = CHR '':'')"

lemma block_lines:
  assumes "opens_block h" "lines_as (n + 1) b os"
  shows "lines_as n (cats [header_line n h, b]) [Line_of h os]"
  using assms header_lines by (auto simp: opens_block_def)

lemma expr_header:
  assumes "wf_expr e" "float_text pr" "head_ok k" "no_nl k"
  shows "opens_block (cats [Some k, Expr_PyString pr e, Some '':''])"
  using wf_expr_prints [OF assms(1,2)] assms(3,4) by (auto simp: opens_block_def head_ok_def piece_no_nl)

lemma range_header:
  assumes "wf_expr s" "wf_expr t" "float_text pr" "head_ok k" "no_nl k"
  shows "opens_block (cats [Some k, Expr_PyString pr s, Some '', '', Expr_PyString pr t, Some ''):''])"
  using wf_expr_prints [OF assms(1,3)] wf_expr_prints [OF assms(2,3)] assms(4,5)
  by (auto simp: opens_block_def head_ok_def piece_no_nl)

lemma piece_prefix: "head_ok k \<Longrightarrow> no_nl k \<Longrightarrow> piece t \<Longrightarrow> piece (k @ t)"
  by (auto simp: piece_def head_ok_def)

lemma ident_head: "ident x \<Longrightarrow> head_ok (x @ y)"
  using ident_text [of x] by (auto simp: head_ok_def)

lemma piece_head: "piece t \<Longrightarrow> head_ok (t @ y)"
  by (auto simp: piece_def head_ok_def)

lemma keyword_head: "head_ok (c # cs) \<longleftrightarrow> c \<noteq> CHR '' ''"
  by (simp add: head_ok_def)

lemma optional_line:
  assumes "\<forall>e \<in> set_option v. wf_expr e" "float_text pr" "head_ok k" "no_nl k" "last k \<noteq> CHR '':''" "kk = k @ '' ''"
  shows "\<exists>h. piece h \<and> (\<forall>n. (case v of None \<Rightarrow> Some (pad n @ k) | Some e \<Rightarrow> cats [Some (pad n @ kk), Expr_PyString pr e]) = Some (pad n @ h))"
proof (cases v)
  case None
  then show ?thesis using assms by (intro exI [of _ k]) (auto simp: piece_def head_ok_def)
next
  case (Some e)
  with assms(1) wf_expr_prints [OF _ assms(2), of e] obtain t where t: "Expr_PyString pr e = Some t" "piece t" by auto
  have "head_ok (k @ '' '')" using assms(3) by (simp add: head_ok_def)
  with Some t assms piece_prefix [of "k @ '' ''" t] show ?thesis by (intro exI [of _ "k @ '' '' @ t"]) simp
qed

lemma stmt_lines:
  assumes "float_text pr"
  shows "wf_stmt s \<Longrightarrow> lines_as n (Stmt_PyString pr n s) (outline pr s)"
    and "wf_function f \<Longrightarrow> lines_as n (FunctionDef_PyString pr n f) (outline_function pr f)"
    and "wf_case c \<Longrightarrow> lines_as (n + 1) (MatchCase_PyString pr n c) [outline_case pr c]"
proof (induction s and f and c arbitrary: n and n and n)
  case (FunctionStmt f)
  then show ?case by simp
next
  case (ClassDef name ds fs init ms)
  have "lines_as n (cats [header_line n (Some (''class '' @ name @ '':'')),
      (if fs = [] \<and> init = None \<and> ms = [] then Some (pad n @ ''    pass'')
       else joins (nl @ nl) ((if fs = [] then [] else [Some (join nl (map (field_line n) fs))])
          @ (case init of None \<Rightarrow> [] | Some f \<Rightarrow> [FunctionDef_PyString pr (n + 1) f]) @ map (FunctionDef_PyString pr (n + 1)) ms))])
    [Line_of (Some (''class '' @ name @ '':'')) (outline_suite (map (\<lambda>f. [Line (FieldName f @ '': '' @ TypeName (FieldType f)) []]) fs
        @ (case init of None \<Rightarrow> [] | Some f \<Rightarrow> [outline_function pr f]) @ map (outline_function pr) ms))]"
    using ClassDef by (intro block_lines class_lines) (auto simp: opens_block_def head_ok_def)
  moreover have "\<forall>d \<in> set ds. phrase d" using ClassDef.prems by simp
  ultimately show ?case using decorated_lines
    unfolding Stmt_PyString.simps outline.simps Line_of_def option.sel cats_assoc [symmetric, of "Some (decorator_lines n ds)"] by blast
next
  case (UnionDef name vs)
  then have "piece (''type '' @ name @ '' = '' @ join '' | '' vs)"
    using idents_join [of vs "'' | ''"] last_join [of vs "'' | ''"] ident_text
    by (cases "vs = []") (auto simp: piece_def head_ok_def)
  then show ?case unfolding outline.simps by (intro one_line) simp_all
next
  case (MatchStmt e cs)
  have "lines_as (n + 1) (suite n (map (MatchCase_PyString pr n) cs)) (outline_suite (map (\<lambda>c. [outline_case pr c]) cs))"
    using MatchStmt by (intro suite_lines) auto
  then have "lines_as (n + 1) (joins nl (map (MatchCase_PyString pr n) cs)) (map (outline_case pr) cs)"
    using MatchStmt.prems by (simp add: suite_some outline_suite_some concat_map_singleton)
  with MatchStmt.prems assms show ?case unfolding Stmt_PyString.simps outline.simps
    by (intro block_lines expr_header) (simp_all add: keyword_head)
next
  case (AnnotateStmt x t)
  then have "piece (x @ '': '' @ TypeName t)" using ident_text [of x] phrase_last [of "TypeName t"]
    by (auto simp: piece_def head_ok_def)
  then show ?case unfolding outline.simps by (intro one_line) simp_all
next
  case (IfStmt c thn els)
  have "lines_as (n + 1) (suite n (map (Stmt_PyString pr (n + 1)) thn)) (outline_suite (map (outline pr) thn))"
    using IfStmt by (intro suite_lines) auto
  then have T: "lines_as n (cats [header_line n (cats [Some ''if '', Expr_PyString pr c, Some '':'']), joins nl (map (Stmt_PyString pr (n + 1)) thn)])
      [Line_of (cats [Some ''if '', Expr_PyString pr c, Some '':'']) (concat (map (outline pr) thn))]"
    using IfStmt.prems assms by (intro block_lines expr_header) (simp_all add: keyword_head suite_some outline_suite_some)
  show ?case
  proof (cases "els = []")
    case True
    with T show ?thesis by (auto simp: cats_Some lines_as_def)
  next
    case False
    have "lines_as (n + 1) (suite n (map (Stmt_PyString pr (n + 1)) els)) (outline_suite (map (outline pr) els))"
      using IfStmt by (intro suite_lines) auto
    then have "lines_as n (cats [header_line n (Some ''else:''), joins nl (map (Stmt_PyString pr (n + 1)) els)])
        [Line_of (Some ''else:'') (concat (map (outline pr) els))]"
      using False by (intro block_lines) (simp_all add: opens_block_def head_ok_def suite_some outline_suite_some)
    from two_blocks [OF T this] obtain t where
      "cats [header_line n (cats [Some ''if '', Expr_PyString pr c, Some '':'']), joins nl (map (Stmt_PyString pr (n + 1)) thn), Some nl,
         header_line n (Some ''else:''), joins nl (map (Stmt_PyString pr (n + 1)) els)] = Some t"
      "lines_as n (Some t) ([Line_of (cats [Some ''if '', Expr_PyString pr c, Some '':'']) (concat (map (outline pr) thn))]
         @ [Line_of (Some ''else:'') (concat (map (outline pr) els))])"
      using lines_as_Some by metis
    with False show ?thesis by (auto simp: cats_Some header_line_def Line_of_def)
  qed
next
  case (ExprStmt e)
  with wf_expr_prints [OF _ assms, of e] obtain t where "Expr_PyString pr e = Some t" "piece t" by auto
  then show ?case unfolding outline.simps by (intro one_line) simp_all
next
  case (AssignStmt x t e)
  with wf_expr_prints [OF _ assms, of e] obtain te where e: "Expr_PyString pr e = Some te" "piece te" by auto
  have "piece (x @ '': '' @ TypeName t @ '' = '' @ te)" "piece (x @ '' = '' @ te)"
    using AssignStmt.prems e(2) piece_prefix [of "x @ '': '' @ TypeName t @ '' = ''" te] piece_prefix [of "x @ '' = ''" te]
    by (simp_all add: ident_head)
  with e show ?case unfolding outline.simps
    by (intro one_line [where h = "if TypeName t \<noteq> [] then x @ '': '' @ TypeName t @ '' = '' @ te else x @ '' = '' @ te"]) simp_all
next
  case (AttrAssignStmt r a e)
  with wf_expr_prints [OF _ assms, of e] wf_expr_prints [OF _ assms, of r] obtain te tr where
    e: "Expr_PyString pr e = Some te" "piece te" "Expr_PyString pr r = Some tr" "piece tr" by auto
  with AttrAssignStmt.prems piece_prefix [of "tr @ ''.'' @ a @ '' = ''" te] have "piece (tr @ ''.'' @ a @ '' = '' @ te)"
    by (simp add: piece_head piece_no_nl)
  with e show ?case unfolding outline.simps by (intro one_line [where h = "tr @ ''.'' @ a @ '' = '' @ te"]) simp_all
next
  case (ReturnStmt v)
  then obtain h where "piece h" "\<And>n. Stmt_PyString pr n (ReturnStmt v) = Some (pad n @ h)"
    using optional_line [of v pr "''return''" "''return ''"] assms by (auto simp: keyword_head)
  then show ?case unfolding outline.simps by (intro one_line) simp_all
next
  case (RaiseStmt v)
  then obtain h where "piece h" "\<And>n. Stmt_PyString pr n (RaiseStmt v) = Some (pad n @ h)"
    using optional_line [of v pr "''raise''" "''raise ''"] assms by (auto simp: keyword_head)
  then show ?case unfolding outline.simps by (intro one_line) simp_all
next
  case (TryExceptStmt body ts bind handler)
  have "lines_as n (cats [header_line n (Some ''try:''), suite n (map (Stmt_PyString pr (n + 1)) body)])
      [Line_of (Some ''try:'') (outline_suite (map (outline pr) body))]"
    using TryExceptStmt by (intro block_lines suite_lines) (auto simp: opens_block_def head_ok_def)
  moreover have "lines_as n (cats [header_line n (Some (except_header ts bind)), suite n (map (Stmt_PyString pr (n + 1)) handler)])
      [Line_of (Some (except_header ts bind)) (outline_suite (map (outline pr) handler))]"
    using TryExceptStmt except_header_text [of ts bind] by (intro block_lines suite_lines) (auto simp: opens_block_def)
  ultimately show ?case using two_blocks by (fastforce simp: Line_of_def)
next
  case (IndexAssignStmt r k e)
  with wf_expr_prints [OF _ assms, of e] wf_expr_prints [OF _ assms, of r] wf_expr_prints [OF _ assms, of k] obtain te tr tk where
    e: "Expr_PyString pr e = Some te" "piece te" "Expr_PyString pr r = Some tr" "piece tr" "Expr_PyString pr k = Some tk" "piece tk" by auto
  with piece_prefix [of "tr @ ''['' @ tk @ ''] = ''" te] have "piece (tr @ ''['' @ tk @ ''] = '' @ te)"
    by (simp add: piece_head piece_no_nl)
  with e show ?case unfolding outline.simps by (intro one_line [where h = "tr @ ''['' @ tk @ ''] = '' @ te"]) simp_all
next
  case (WhileStmt c body)
  then show ?case unfolding Stmt_PyString.simps outline.simps
    by (intro block_lines expr_header suite_lines) (auto simp: keyword_head assms)
next
  case (ForEachStmt x e body)
  then show ?case unfolding Stmt_PyString.simps outline.simps
    by (intro block_lines expr_header suite_lines) (auto simp: keyword_head assms)
next
  case (ForRangeStmt x s t body)
  then show ?case unfolding Stmt_PyString.simps outline.simps
    by (intro block_lines range_header suite_lines) (auto simp: keyword_head assms)
next
  case (ReassignStmt x e)
  with wf_expr_prints [OF _ assms, of e] obtain te where e: "Expr_PyString pr e = Some te" "piece te" by auto
  with ReassignStmt.prems piece_prefix [of "x @ '' = ''" te] have "piece (x @ '' = '' @ te)" by (simp add: ident_head)
  with e show ?case unfolding outline.simps by (intro one_line [where h = "x @ '' = '' @ te"]) simp_all
next
  case PassStmt
  show ?case unfolding outline.simps by (rule one_line [of _ _ _ "''pass''"]) (simp_all add: piece_def head_ok_def)
next
  case BreakStmt
  show ?case unfolding outline.simps by (rule one_line [of _ _ _ "''break''"]) (simp_all add: piece_def head_ok_def)
next
  case ContinueStmt
  show ?case unfolding outline.simps by (rule one_line [of _ _ _ "''continue''"]) (simp_all add: piece_def head_ok_def)
next
  case (FunctionDef name ps ret body ds async)
  then have "lines_as n (cats [header_line n (function_header pr name ps ret async), suite n (map (Stmt_PyString pr (n + 1)) body)])
      [Line_of (function_header pr name ps ret async) (outline_suite (map (outline pr) body))]"
    using function_header_text [of name ps ret pr async] assms
    by (intro block_lines suite_lines) (auto simp: opens_block_def)
  from decorated_lines [OF _ this, of ds] FunctionDef.prems show ?case by (auto simp: cats_Some lines_as_def)
next
  case (MatchCase wild v bs g body)
  then have "lines_as (n + 1) (cats [header_line (n + 1) (case_header pr wild v bs g), suite (n + 1) (map (Stmt_PyString pr (n + 2)) body)])
      [Line_of (case_header pr wild v bs g) (outline_suite (map (outline pr) body))]"
    using case_header_text [of wild v bs g pr] assms suite_lines [of body "n + 1" "Stmt_PyString pr (n + 2)" "outline pr"]
    by (intro block_lines) (auto simp: opens_block_def)
  then show ?case
    by (cases "case_header pr wild v bs g") (auto simp: header_line_def pad_next suite_def cats_Some lines_as_def)
qed


subsection \<open>Modules\<close>

lemma code_lines_skip: "code_lines (nl @ t) = code_lines t"
  using code_lines_nl [of "[]" t] by simp

lemma import_text: "wf_import i \<Longrightarrow> piece (ImportStmt_PyString 0 i)"
proof -
  assume i: "wf_import i"
  then have names: "\<forall>n \<in> set (ImportNames i). ident n" "ImportNames i \<noteq> []" by (auto simp: wf_import_def)
  then have "ident (last (ImportNames i))" by simp
  then have "last (join '', '' (ImportNames i)) \<noteq> CHR '':'' \<and> join '', '' (ImportNames i) \<noteq> []"
    using last_join [of "ImportNames i" "'', ''"] names(2) ident_text by auto
  with i idents_join [OF names(1), of "'', ''"] show ?thesis
    by (auto simp: ImportStmt_PyString_def piece_def head_ok_def wf_import_def)
qed

text \<open>A text of whole lines.\<close>

definition whole :: "bytes \<Rightarrow> Outline list \<Rightarrow> bool" where
  "whole t os \<longleftrightarrow> (\<forall>r. code_lines (t @ r) = concat (map (flat 0) os) @ code_lines r)"

lemma whole_Nil: "whole [] []"
  by (simp add: whole_def)

lemma whole_append: "whole a os \<Longrightarrow> whole b os' \<Longrightarrow> whole (a @ b) (os @ os')"
  by (simp add: whole_def)

lemma whole_line: "piece h \<Longrightarrow> whole (h @ nl) [Line h []]"
  using code_lines_nl [of h] by (simp add: whole_def code_lines_one piece_def head_ok_def)

lemma code_lines_newline [simp]: "code_lines nl = []"
  using code_lines_skip [of "[]"] by simp

lemma whole_blank: "whole nl []"
  by (simp add: whole_def code_lines_skip)

lemma whole_stmt: "code_lines t = concat (map (flat 0) os) \<Longrightarrow> whole ((nl @ nl) @ t @ nl) os"
  using code_lines_nl [of t] by (simp add: whole_def code_lines_skip)

lemma cats_whole:
  "\<forall>x \<in> set xs. \<exists>t. p x = Some t \<and> whole t (q x) \<Longrightarrow> \<exists>t. cats (map p xs) = Some t \<and> whole t (concat (map q xs))"
proof (induction xs)
  case (Cons x xs)
  then obtain t u where "p x = Some t" "whole t (q x)" "cats (map p xs) = Some u" "whole u (concat (map q xs))" by auto
  then show ?case using whole_append by simp
qed (simp add: whole_Nil)

lemma cats_append: "cats xs = Some a \<Longrightarrow> cats ys = Some b \<Longrightarrow> cats (xs @ ys) = Some (a @ b)"
proof (induction xs arbitrary: a)
  case (Cons x xs)
  then show ?case by (cases x) auto
qed simp

lemma module_text:
  assumes "wf_module m" "float_text pr"
  shows "\<exists>t. PySource pr m = Some t \<and> whole t (outline_module pr m)"
proof -
  let ?i = "\<lambda>i. Some (ImportStmt_PyString 0 i @ nl)"
  let ?s = "\<lambda>s. cats [Some (nl @ nl), Stmt_PyString pr 0 s, Some nl]"
  have "\<exists>t. ?s s = Some t \<and> whole t (outline pr s)" if "s \<in> set (Stmts m)" for s
    using stmt_lines(1) [OF assms(2), of s 0] assms(1) that whole_stmt
    by (fastforce simp: lines_as_def wf_module_def)
  then obtain u where u: "cats (map ?s (Stmts m)) = Some u" "whole u (concat (map (outline pr) (Stmts m)))"
    using cats_whole [of "Stmts m" ?s "outline pr"] by blast
  have "\<exists>t. ?i i = Some t \<and> whole t [Line (ImportStmt_PyString 0 i) []]" if "i \<in> set (Imports m)" for i
    using whole_line [OF import_text, of i] assms(1) that by (simp add: wf_module_def)
  then obtain v where v: "cats (map ?i (Imports m)) = Some v"
    "whole v (concat (map (\<lambda>i. [Line (ImportStmt_PyString 0 i) []]) (Imports m)))"
    using cats_whole [of "Imports m" ?i "\<lambda>i. [Line (ImportStmt_PyString 0 i) []]"] by blast
  let ?a = "if FutureAnnotations m then ''from __future__ import annotations'' @ nl else []"
  let ?b = "if FutureAnnotations m \<and> Imports m \<noteq> [] then nl else []"
  have "whole (''from __future__ import annotations'' @ nl) [Line ''from __future__ import annotations'' []]"
    by (intro whole_line) (simp add: piece_def head_ok_def)
  then have a: "whole ?a (if FutureAnnotations m then [Line ''from __future__ import annotations'' []] else [])"
    by (simp add: whole_Nil)
  have b: "whole ?b []" by (simp add: whole_Nil whole_blank)
  have "PySource pr m = Some (?a @ ?b @ v @ u)"
    unfolding PySource_def using cats_append [OF v(1) u(1)] by simp
  moreover have "whole (?a @ ?b @ v @ u) (outline_module pr m)"
    using whole_append [OF a whole_append [OF b whole_append [OF v(2) u(2)]]]
    by (simp add: outline_module_def concat_map_singleton)
  ultimately show ?thesis by blast
qed

lemma outline_module_ok:
  assumes "wf_module m" "float_text pr"
  shows "\<forall>x \<in> set (outline_module pr m). heads_ok x \<and> suites_ok x"
proof -
  have "\<forall>x \<in> set (outline pr s). heads_ok x \<and> suites_ok x" if "s \<in> set (Stmts m)" for s
    using stmt_lines(1) [OF assms(2), of s 0] assms(1) that by (auto simp: lines_as_def wf_module_def)
  moreover have "piece (ImportStmt_PyString 0 i)" if "i \<in> set (Imports m)" for i
    using import_text that assms(1) by (simp add: wf_module_def)
  ultimately show ?thesis by (auto simp: outline_module_def piece_def head_ok_def)
qed

lemma PySource_reads:
  assumes "wf_module m" "float_text pr"
  shows "\<exists>t. PySource pr m = Some t \<and> read_blocks t = Some (outline_module pr m)
    \<and> (\<forall>x \<in> set (outline_module pr m). suites_ok x)"
proof -
  from module_text [OF assms] obtain t where t: "PySource pr m = Some t" "whole t (outline_module pr m)" by blast
  then have "code_lines t = concat (map (flat 0) (outline_module pr m))"
    using whole_def [of t "outline_module pr m"] by (metis append_Nil2 code_lines_Nil)
  from read_blocks_flat [OF this] outline_module_ok [OF assms] t(1) show ?thesis by blast
qed

text \<open>
  C10. The text of a well-formed module is read by indentation as the module's own block structure,
  and every compound statement in it opens a suite with at least one statement.
\<close>

theorem PySource_blocks:
  assumes "wf_module m" "float_text pr"
  shows "\<exists>t. PySource pr m = Some t \<and> read_blocks t = Some (outline_module pr m)
    \<and> (\<forall>x \<in> set (outline_module pr m). suites_ok x)"
  by (rule PySource_reads [OF assms])

definition sample_printer :: Printer where
  "sample_printer = \<lparr>FormatFloat = (\<lambda>f. ''0.5''), IsPrintRune = (\<lambda>r. True)\<rparr>"

definition sample_module :: Module where
  "sample_module = \<lparr>FutureAnnotations = True, Imports = [\<lparr>ImportFrom = ''dataclasses'', ImportNames = [''dataclass'']\<rparr>],
    Stmts = [ClassDef ''P'' [''dataclass(frozen=True)''] [\<lparr>FieldName = ''x'', FieldType = \<lparr>TypeName = ''float''\<rparr>\<rparr>] None
        [FunctionDef ''up'' [\<lparr>ParamName = ''self'', ParamType = \<lparr>TypeName = []\<rparr>, ParamDefault = None\<rparr>] \<lparr>TypeName = ''float''\<rparr>
          [ReturnStmt (Some (BinaryExpr (Attribute (Name ''self'') ''x'') ''+'' (FloatLit 0)))] [] False],
      IfStmt (BoolLit True) [ExprStmt (Call (Name ''f'') [StrLit (''a'' @ nl)] [])] [PassStmt]]\<rparr>"

theorem PySource_blocks_witness:
  "\<exists>t. PySource sample_printer sample_module = Some t \<and> read_blocks t = Some (outline_module sample_printer sample_module)
    \<and> (\<forall>x \<in> set (outline_module sample_printer sample_module). suites_ok x)"
proof (rule PySource_blocks)
  show "wf_module sample_module" by code_simp
  show "float_text sample_printer"
    by (simp add: float_text_def sample_printer_def piece_def head_ok_def)
qed

text \<open>An \<open>if\<close> without a body and a \<open>match\<close> without cases print no suite.\<close>

lemma empty_if: "Stmt_PyString pr 0 (IfStmt (BoolLit True) [] []) = Some (''if True:'' @ nl)"
  by (simp add: header_line_def joins_def pad_def)

lemma empty_match: "Stmt_PyString pr 0 (MatchStmt (Name ''x'') []) = Some (''match x:'' @ nl)"
  by (simp add: header_line_def joins_def pad_def)

end
