(* ===== verification/Py_Reader.thy ===== *)
theory Py_Reader
  imports Py_Outline
begin

section \<open>Reading a printed Python expression back\<close>

text \<open>
  A recursive-descent reader of the expressions the printer writes, by Python's rules: atoms with
  calls, subscripts and attributes behind them, a minus sign that binds weaker than those, operators
  inside parentheses.  Digits alone are an integer, as in Python.  The loops take
  the reader of the level below and run at most once per byte; the fuel of \<open>parse_expr\<close> bounds the
  nesting, so the length of the text is enough.  \<open>strconv.ParseFloat\<close> is a parameter.
\<close>

subsection \<open>String literals\<close>

definition encode_rune :: "int \<Rightarrow> bytes" where
  "encode_rune r =
    map char_of
      (if r < 128 then [r]
       else if r < 2048 then [192 + r div 64, 128 + r mod 64]
       else if r < 65536 then [224 + r div 4096, 128 + r div 64 mod 64, 128 + r mod 64]
       else [240 + r div 262144, 128 + r div 4096 mod 64, 128 + r div 64 mod 64, 128 + r mod 64])"

definition hex_digit_val :: "char \<Rightarrow> int" where
  "hex_digit_val c = (let b = byte c in if b < 58 then b - 48 else b - 87)"

definition hexs_val :: "bytes \<Rightarrow> int" where
  "hexs_val s = foldl (\<lambda>n c. 16 * n + hex_digit_val c) 0 s"

definition plain_escapes :: "(char \<times> int) list" where
  "plain_escapes = [(CHR 0x22, 34), (CHR 0x5C, 92), (CHR ''a'', 7), (CHR ''b'', 8), (CHR ''f'', 12), (CHR ''n'', 10),
    (CHR ''r'', 13), (CHR ''t'', 9), (CHR ''v'', 11)]"

text \<open>The body of a literal up to its closing quote: the bytes of the text it denotes.\<close>

function read_string :: "bytes \<Rightarrow> (bytes \<times> bytes) option" where
  "read_string [] = None"
| "read_string (c # s) =
    (if c = CHR 0x22 then Some ([], s)
     else if c \<noteq> CHR 0x5C then map_option (map_prod ((#) c) id) (read_string s)
     else case s of
       [] \<Rightarrow> None
     | e # s' \<Rightarrow>
        (case map_of plain_escapes e of
           Some b \<Rightarrow> map_option (map_prod ((#) (char_of b)) id) (read_string s')
         | None \<Rightarrow>
             let k = (if e = CHR ''x'' then 2 else if e = CHR ''u'' then 4 else 8) in
             map_option (map_prod ((@) (encode_rune (hexs_val (take k s')))) id) (read_string (drop k s'))))"
  by pat_completeness auto
termination by (relation "measure length") (auto simp: less_Suc_eq_le)

subsection \<open>Expressions\<close>

definition number_char :: "char \<Rightarrow> bool" where
  "number_char c \<longleftrightarrow> ident_char c \<or> c \<in> set ''.+-''"

definition read_number :: "(bytes \<Rightarrow> 64 word) \<Rightarrow> bytes \<Rightarrow> Expr" where
  "read_number rd t = (if list_all is_digit t then IntLit (digits_val t) else FloatLit (rd t))"

definition read_name :: "bytes \<Rightarrow> Expr" where
  "read_name t = (if t = ''True'' then BoolLit True else if t = ''False'' then BoolLit False else Name t)"

definition keyword_of :: "bytes \<Rightarrow> bytes option" where
  "keyword_of s =
    (let n = takeWhile ident_char s in
     if n \<noteq> [] \<and> letter (hd n) \<and> prefix ''='' (drop (length n) s) then Some n else None)"

type_synonym reader = "bytes \<Rightarrow> (Expr \<times> bytes) option"

definition until :: "reader \<Rightarrow> bytes \<Rightarrow> reader" where
  "until p close s =
    (case p s of
       None \<Rightarrow> None
     | Some (e, r) \<Rightarrow> if prefix close r then Some (e, drop (length close) r) else None)"

primrec items :: "reader \<Rightarrow> nat \<Rightarrow> char \<Rightarrow> bytes \<Rightarrow> (Expr list \<times> bytes) option" where
  "items p 0 c s = None"
| "items p (Suc k) c s =
    (case p s of
       None \<Rightarrow> None
     | Some (e, r) \<Rightarrow>
         if prefix [c] r then Some ([e], drop 1 r)
         else if prefix '', '' r then map_option (map_prod ((#) e) id) (items p k c (drop 2 r))
         else None)"

primrec pairs :: "reader \<Rightarrow> nat \<Rightarrow> bytes \<Rightarrow> ((Expr list \<times> Expr list) \<times> bytes) option" where
  "pairs p 0 s = None"
| "pairs p (Suc k) s =
    (case until p '': '' s of
       None \<Rightarrow> None
     | Some (x, q) \<Rightarrow>
         (case p q of
            None \<Rightarrow> None
          | Some (v, r) \<Rightarrow>
              if prefix ''}'' r then Some (([x], [v]), drop 1 r)
              else if prefix '', '' r then
                map_option (map_prod (map_prod ((#) x) ((#) v)) id) (pairs p k (drop 2 r))
              else None))"

primrec keyword_args :: "reader \<Rightarrow> nat \<Rightarrow> bytes \<Rightarrow> ((bytes \<times> Expr) list \<times> bytes) option" where
  "keyword_args p 0 s = None"
| "keyword_args p (Suc k) s =
    (case keyword_of s of
       None \<Rightarrow> None
     | Some n \<Rightarrow>
         (case p (drop (length n + 1) s) of
            None \<Rightarrow> None
          | Some (v, r) \<Rightarrow>
              if prefix '')'' r then Some ([(n, v)], drop 1 r)
              else if prefix '', '' r then map_option (map_prod ((#) (n, v)) id) (keyword_args p k (drop 2 r))
              else None))"

primrec arguments :: "reader \<Rightarrow> nat \<Rightarrow> bytes \<Rightarrow> ((Expr list \<times> (bytes \<times> Expr) list) \<times> bytes) option" where
  "arguments p 0 s = None"
| "arguments p (Suc k) s =
    (if keyword_of s \<noteq> None then map_option (map_prod (Pair []) id) (keyword_args p (length s) s)
     else
       (case p s of
          None \<Rightarrow> None
        | Some (e, r) \<Rightarrow>
            if prefix '')'' r then Some (([e], []), drop 1 r)
            else if prefix '', '' r then
              map_option (map_prod (map_prod ((#) e) id) id) (arguments p k (drop 2 r))
            else None))"

definition parenthesised :: "reader \<Rightarrow> reader" where
  "parenthesised p s =
    (if prefix ''not '' s then map_option (map_prod (UnaryExpr ''not'') id) (until p '')'' (drop 4 s))
     else
       (case p s of
          None \<Rightarrow> None
        | Some (l, r) \<Rightarrow>
            if prefix '')'' r then Some (l, drop 1 r)
            else if prefix '' '' r then
              let op = takeWhile (\<lambda>x. x \<noteq> CHR '' '') (drop 1 r) in
              map_option (map_prod (BinaryExpr l op) id) (until p '')'' (drop (length op + 2) r))
            else None))"

definition braced :: "reader \<Rightarrow> reader" where
  "braced p s =
    (if prefix ''}'' s then Some (DictLit [] [], drop 1 s)
     else
       (case p s of
          None \<Rightarrow> None
        | Some (_, r) \<Rightarrow>
            if prefix '':'' r then map_option (map_prod (\<lambda>(ks, vs). DictLit ks vs) id) (pairs p (length s) s)
            else map_option (map_prod SetLit id) (items p (length s) (CHR ''}'') s)))"

definition atom :: "(bytes \<Rightarrow> 64 word) \<Rightarrow> reader \<Rightarrow> reader" where
  "atom rd p s =
    (case s of
       [] \<Rightarrow> None
     | c # s' \<Rightarrow>
         if c = CHR ''('' then parenthesised p s'
         else if c = CHR ''['' then
           (if prefix '']'' s' then Some (ListLit [], drop 1 s')
            else map_option (map_prod ListLit id) (items p (length s') (CHR '']'') s'))
         else if c = CHR ''{'' then braced p s'
         else if c = CHR 0x22 then map_option (map_prod StrLit id) (read_string s')
         else if is_digit c then
           (let t = takeWhile number_char s in Some (read_number rd t, drop (length t) s))
         else if letter c then
           (let t = takeWhile ident_char s in Some (read_name t, drop (length t) s))
         else None)"

definition subscript :: "reader \<Rightarrow> Expr \<Rightarrow> reader" where
  "subscript p e s =
    (if prefix '':]'' s then Some (SliceExpr e None None, drop 2 s)
     else if prefix '':'' s then map_option (map_prod (\<lambda>t. SliceExpr e None (Some t)) id) (until p '']'' (drop 1 s))
     else
       (case p s of
          None \<Rightarrow> None
        | Some (i, r) \<Rightarrow>
            if prefix '']'' r then Some (IndexExpr e i, drop 1 r)
            else if prefix '':]'' r then Some (SliceExpr e (Some i) None, drop 2 r)
            else if prefix '':'' r then
              map_option (map_prod (\<lambda>t. SliceExpr e (Some i) (Some t)) id) (until p '']'' (drop 1 r))
            else None))"

primrec postfix_ops :: "reader \<Rightarrow> nat \<Rightarrow> Expr \<Rightarrow> reader" where
  "postfix_ops p 0 e s = None"
| "postfix_ops p (Suc k) e s =
    (if prefix ''()'' s then postfix_ops p k (Call e [] []) (drop 2 s)
     else if prefix ''('' s then
       (case arguments p (length s) (drop 1 s) of
          None \<Rightarrow> None
        | Some ((as, ks), r) \<Rightarrow> postfix_ops p k (Call e as ks) r)
     else if prefix ''['' s then
       (case subscript p e (drop 1 s) of None \<Rightarrow> None | Some (e', r) \<Rightarrow> postfix_ops p k e' r)
     else if prefix ''.'' s then
       (let t = takeWhile ident_char (drop 1 s) in postfix_ops p k (Attribute e t) (drop (length t + 1) s))
     else Some (e, s))"

primrec parse_expr :: "(bytes \<Rightarrow> 64 word) \<Rightarrow> nat \<Rightarrow> reader" where
  "parse_expr rd 0 s = None"
| "parse_expr rd (Suc n) s =
    (if prefix ''-'' s then map_option (map_prod (UnaryExpr ''-'') id) (parse_expr rd n (drop 1 s))
     else
       (case atom rd (parse_expr rd n) s of
          None \<Rightarrow> None
        | Some (a, r) \<Rightarrow> postfix_ops (parse_expr rd n) (Suc (length r)) a r))"

definition read_expr :: "(bytes \<Rightarrow> 64 word) \<Rightarrow> bytes \<Rightarrow> Expr option" where
  "read_expr rd s = (case parse_expr rd (length s) s of Some (e, []) \<Rightarrow> Some e | _ \<Rightarrow> None)"


subsection \<open>String literals read back\<close>

function utf8 :: "bytes \<Rightarrow> bool" where
  "utf8 [] \<longleftrightarrow> True"
| "utf8 (c # s) \<longleftrightarrow>
    (if byte c < 128 then utf8 s
     else case decode_rune (byte c) (map byte s) of (r, w) \<Rightarrow> w \<noteq> 1 \<and> utf8 (drop (w - 1) s))"
  by pat_completeness auto
termination by (relation "measure length") (auto simp: le_imp_less_Suc)

lemma byte_char_of: "0 \<le> n \<Longrightarrow> n < 256 \<Longrightarrow> byte (char_of n) = n"
  by (simp add: byte_def)

lemma char_of_byte [simp]: "char_of (byte c) = c"
  by (simp add: byte_def)

lemma hex_digit_val_digit: "0 \<le> d \<Longrightarrow> d < 16 \<Longrightarrow> hex_digit_val (hex_digit d) = d"
  by (auto simp: hex_digit_val_def hex_digit_def Let_def byte_def)

lemma hexs_val_hex2: "0 \<le> n \<Longrightarrow> n < 256 \<Longrightarrow> hexs_val (hex2 n) = n"
  by (simp add: hexs_val_def hex2_def hex_digit_val_digit)

lemma hexs_val_from: "foldl (\<lambda>n c. 16 * n + hex_digit_val c) m b = m * 16 ^ length b + hexs_val b"
proof (induction b arbitrary: m)
  case (Cons x b)
  have "hexs_val (x # b) = hex_digit_val x * 16 ^ length b + hexs_val b"
    using Cons [of "hex_digit_val x"] by (simp add: hexs_val_def)
  with Cons [of "16 * m + hex_digit_val x"] show ?case by (simp add: algebra_simps)
qed (simp add: hexs_val_def)

lemma hexs_val_append: "hexs_val (a @ b) = hexs_val a * 16 ^ length b + hexs_val b"
  using hexs_val_from [of "hexs_val a" b] by (simp add: hexs_val_def)

lemma length_hex [simp]: "length (hex2 n) = 2" "length (hex4 n) = 4"
  by (simp_all add: hex2_def hex4_def)

lemma hexs_val_hex4: "0 \<le> n \<Longrightarrow> n < 65536 \<Longrightarrow> hexs_val (hex4 n) = n"
proof -
  assume n: "0 \<le> n" "n < 65536"
  have "hexs_val (hex2 (n mod 256)) = n mod 256" "hexs_val (hex2 (n div 256)) = n div 256"
    using n by (auto intro!: hexs_val_hex2)
  then show ?thesis by (simp add: hex4_def hexs_val_append)
qed

text \<open>A rune of more than one byte encodes as the bytes it was decoded from.\<close>

lemma sixbits: "0 \<le> y \<Longrightarrow> y < 64 \<Longrightarrow> (x * 64 + y) div 64 = (x::int) \<and> (x * 64 + y) mod 64 = y"
  by simp

lemma encode_two:
  assumes "cont b" "194 \<le> a" "a \<le> 223"
  shows "encode_rune ((a - 192) * 64 + (b - 128)) = map char_of [a, b]"
proof -
  have "0 \<le> b - 128" "b - 128 < 64" "2 \<le> a - 192" "a - 192 < 32" using assms by (auto simp: cont_def)
  with sixbits [of "b - 128" "a - 192"] show ?thesis unfolding encode_rune_def by simp
qed

lemma second_range: "second_ok a b \<Longrightarrow> 128 \<le> b \<and> b \<le> 191"
  by (auto simp: second_ok_def cont_def split: if_splits)

lemma encode_three:
  assumes "second_ok a b" "cont c" "224 \<le> a" "a \<le> 239"
  shows "encode_rune ((a - 224) * 4096 + (b - 128) * 64 + (c - 128)) = map char_of [a, b, c]"
proof -
  define x y z where "x = a - 224" and "y = b - 128" and "z = c - 128"
  have r: "0 \<le> y" "y < 64" "0 \<le> z" "z < 64" "0 \<le> x" "x < 16" "x = 0 \<longrightarrow> 32 \<le> y"
    using assms second_range [of a b] by (auto simp: cont_def second_ok_def x_def y_def z_def split: if_splits)
  let ?r = "(x * 64 + y) * 64 + z"
  have d: "?r div 64 = x * 64 + y" "?r mod 64 = z" "(x * 64 + y) mod 64 = y" "(x * 64 + y) div 64 = x"
    using sixbits r by blast+
  have "?r div 4096 = ?r div 64 div 64" by (simp add: zdiv_zmult2_eq [symmetric])
  then have d2: "?r div 4096 = x" using d by simp
  have range: "2048 \<le> ?r" "?r < 65536" using r by auto
  have "encode_rune ?r = map char_of [224 + x, 128 + y, 128 + z]"
    unfolding encode_rune_def d d2 using range by simp
  moreover have "(a - 224) * 4096 + (b - 128) * 64 + (c - 128) = ?r" by (simp add: x_def y_def z_def)
  ultimately show ?thesis by (simp only:) (simp add: x_def y_def z_def)
qed

lemma encode_four:
  assumes "second_ok a b" "cont c" "cont d" "240 \<le> a" "a \<le> 244"
  shows "encode_rune ((a - 240) * 262144 + (b - 128) * 4096 + (c - 128) * 64 + (d - 128)) = map char_of [a, b, c, d]"
proof -
  define x y z w where "x = a - 240" and "y = b - 128" and "z = c - 128" and "w = d - 128"
  have "a = 240 \<Longrightarrow> 144 \<le> b" using assms(1) by (simp add: second_ok_def)
  then have r: "0 \<le> y" "y < 64" "0 \<le> z" "z < 64" "0 \<le> w" "w < 64" "0 \<le> x" "x = 0 \<longrightarrow> 16 \<le> y"
    using assms(2-5) second_range [OF assms(1)] by (auto simp: cont_def x_def y_def z_def w_def)
  let ?r = "((x * 64 + y) * 64 + z) * 64 + w"
  have d: "?r div 64 = (x * 64 + y) * 64 + z" "?r mod 64 = w" "((x * 64 + y) * 64 + z) mod 64 = z"
    "((x * 64 + y) * 64 + z) div 64 = x * 64 + y" "(x * 64 + y) mod 64 = y" "(x * 64 + y) div 64 = x"
    using sixbits r by blast+
  have e: "n div 4096 = n div 64 div 64" "n div 262144 = n div 64 div 64 div 64" for n :: int
    by (simp_all add: zdiv_zmult2_eq [symmetric])
  have d2: "?r div 4096 = x * 64 + y" "?r div 262144 = x" by (simp_all only: e d)
  have range: "65536 \<le> ?r" using r by auto
  have "encode_rune ?r = map char_of [240 + x, 128 + y, 128 + z, 128 + w]"
    unfolding encode_rune_def d d2 using range by simp
  moreover have "(a - 240) * 262144 + (b - 128) * 4096 + (c - 128) * 64 + (d - 128) = ?r" by (simp add: x_def y_def z_def w_def)
  ultimately show ?thesis by (simp only:) (simp add: x_def y_def z_def w_def)
qed

lemma encode_decode:
  assumes "decode_rune a s = (r, w)" "w \<noteq> 1"
  shows "encode_rune r = map char_of (take w (a # s)) \<and> 0 \<le> r \<and> r < 1114112 \<and> w \<le> Suc (length s)"
proof -
  consider (two) b s' where "s = b # s'" "194 \<le> a" "a \<le> 223" "cont b" "r = (a - 192) * 64 + (b - 128)" "w = 2"
    | (three) b c s' where "s = b # c # s'" "224 \<le> a" "a \<le> 239" "second_ok a b" "cont c"
        "r = (a - 224) * 4096 + (b - 128) * 64 + (c - 128)" "w = 3"
    | (four) b c d s' where "s = b # c # d # s'" "240 \<le> a" "a \<le> 244" "second_ok a b" "cont c" "cont d"
        "r = (a - 240) * 262144 + (b - 128) * 4096 + (c - 128) * 64 + (d - 128)" "w = 4"
    using assms by (auto simp: decode_rune_def bad_rune_def split: if_splits list.splits)
  then show ?thesis
  proof cases
    case two
    then show ?thesis using encode_two [of b a] by (auto simp: cont_def)
  next
    case three
    then show ?thesis using encode_three [of a b c] second_range [of a b] by (auto simp: cont_def eval_nat_numeral)
  next
    case four
    then show ?thesis using encode_four [of a b c d] second_range [of a b]
      by (auto simp: cont_def eval_nat_numeral second_ok_def split: if_splits)
  qed
qed

lemma read_char: "c \<noteq> CHR 0x22 \<Longrightarrow> c \<noteq> CHR 0x5C \<Longrightarrow> read_string (c # r) = map_option (map_prod ((#) c) id) (read_string r)"
  by simp

lemma read_escape:
  "map_of plain_escapes e = Some b \<Longrightarrow> read_string (CHR 0x5C # e # r) = map_option (map_prod ((#) (char_of b)) id) (read_string r)"
  by (subst read_string.simps) (simp del: read_string.simps)

lemma read_code:
  assumes "length h = k" "(e, k) \<in> {(CHR ''x'', 2), (CHR ''u'', 4), (CHR ''U'', 8)}"
  shows "read_string (CHR 0x5C # e # h @ r) = map_option (map_prod ((@) (encode_rune (hexs_val h))) id) (read_string r)"
proof -
  have "map_of plain_escapes e = None" "k = (if e = CHR ''x'' then 2 else if e = CHR ''u'' then 4 else 8)"
    using assms(2) by (auto simp: plain_escapes_def)
  with assms(1) show ?thesis by (subst read_string.simps) (simp del: read_string.simps)
qed

lemma read_raw:
  "\<forall>x \<in> set xs. 128 \<le> byte x \<Longrightarrow> read_string (xs @ r) = map_option (map_prod ((@) xs) id) (read_string r)"
proof (induction xs)
  case Nil
  show ?case by (cases "read_string r") auto
next
  case (Cons x xs)
  then have "x \<noteq> CHR 0x22" "x \<noteq> CHR 0x5C" by (auto simp: byte_def)
  with Cons show ?case by (cases "read_string r") (auto simp: read_char simp del: read_string.simps)
qed

lemma read_ascii:
  assumes "byte c < 128"
  shows "read_string (escape_ascii c @ r) = map_option (map_prod ((#) c) id) (read_string r)"
proof -
  consider (quote) "byte c = 34 \<or> byte c = 92" | (plain) "32 \<le> byte c" "byte c < 127" "byte c \<noteq> 34" "byte c \<noteq> 92"
    | (ctrl) "byte c \<in> {7, 8, 12, 10, 13, 9, 11}" | (hex) "byte c < 32 \<or> byte c = 127" "byte c \<notin> {7, 8, 12, 10, 13, 9, 11}"
    using assms by fastforce
  then show ?thesis
  proof cases
    case quote
    then have "c = CHR 0x22 \<or> c = CHR 0x5C" using byte_inj [of c "CHR 0x22"] byte_inj [of c "CHR 0x5C"] by auto
    then have "escape_ascii c = [CHR 0x5C, c]" "map_of plain_escapes c = Some (byte c)"
      by (auto simp: escape_ascii_def plain_escapes_def byte_def)
    then show ?thesis using read_escape by (simp del: read_string.simps)
  next
    case plain
    then have "c \<noteq> CHR 0x22" "c \<noteq> CHR 0x5C" by auto
    with plain show ?thesis by (simp add: escape_ascii_def Let_def read_char del: read_string.simps)
  next
    case ctrl
    then obtain e where "escape_ascii c = [CHR 0x5C, e]" "map_of plain_escapes e = Some (byte c)"
      by (auto simp: escape_ascii_def plain_escapes_def)
    then show ?thesis using read_escape by (simp del: read_string.simps)
  next
    case hex
    have "hexs_val (hex2 (byte c)) = byte c" using assms by (intro hexs_val_hex2) simp_all
    moreover have "encode_rune (byte c) = [c]" using assms by (simp add: encode_rune_def)
    moreover have "escape_ascii c = [CHR 0x5C, CHR ''x''] @ hex2 (byte c)" using hex by (auto simp: escape_ascii_def Let_def)
    moreover have "(@) [c] = (#) c" by (rule ext) simp
    ultimately show ?thesis using read_code [of "hex2 (byte c)" 2 "CHR ''x''" r] by (simp del: read_string.simps)
  qed
qed

lemma read_quoted: "utf8 s \<Longrightarrow> read_string (quote_body ip s @ CHR 0x22 # r) = Some (s, r)"
proof (induction ip s rule: quote_body.induct)
  case (1 ip)
  show ?case by simp
next
  case (2 ip c s)
  show ?case
  proof (cases "byte c < 128")
    case True
    with 2 read_ascii [OF True] show ?thesis by (simp del: read_string.simps)
  next
    case False
    obtain q w where d: "decode_rune (byte c) (map byte s) = (q, w)" by force
    from False 2(4) d have w: "w \<noteq> 1" and rest: "utf8 (drop (w - 1) s)" by auto
    from 2(3) [OF False d [symmetric] w rest]
    have IH: "read_string (quote_body ip (drop (w - 1) s) @ CHR 0x22 # r) = Some (drop (w - 1) s, r)" .
    note e = encode_decode [OF d w]
    let ?x = "take w (c # s)"
    have x: "encode_rune q = ?x" using e by (simp add: take_map flip: list.map) (simp add: take_map [symmetric] o_def)
    obtain k where k: "w = Suc k" using decode_rune_width [OF d] by (cases w) auto
    have whole: "?x @ drop (w - 1) s = c # s" using k by simp
    have high: "\<forall>y \<in> set ?x. 128 \<le> byte y" using decode_rune_tail [OF d w] False k by (auto simp: take_map)
    have "read_string (escape_rune ip q ?x @ t) = map_option (map_prod ((@) ?x) id) (read_string t)" for t
    proof (cases "ip q")
      case True
      with read_raw [OF high] show ?thesis by (simp add: escape_rune_def del: read_string.simps)
    next
      case not_printed: False
      show ?thesis
      proof (cases "q < 65536")
        case True
        with not_printed x e hexs_val_hex4 [of q] read_code [of "hex4 q" 4 "CHR ''u''" t] show ?thesis
          by (simp add: escape_rune_def del: read_string.simps)
      next
        case False
        have "0 \<le> q div 65536" "q div 65536 < 65536" using e by auto
        then have "hexs_val (hex4 (q div 65536) @ hex4 (q mod 65536)) = q"
          using hexs_val_hex4 [of "q div 65536"] hexs_val_hex4 [of "q mod 65536"] by (simp add: hexs_val_append)
        with False not_printed x read_code [of "hex4 (q div 65536) @ hex4 (q mod 65536)" 8 "CHR ''U''" t] show ?thesis
          by (simp add: escape_rune_def del: read_string.simps)
      qed
    qed
    with False d w IH whole show ?thesis by (simp del: read_string.simps)
  qed
qed


subsection \<open>Readable expressions\<close>

text \<open>
  What the reader can recover: no bare \<open>==\<close>, no call, subscript or attribute of a number, a finite
  float (its text is digits with a sign, a point or an exponent, and \<open>strconv.ParseFloat\<close> recovers its
  magnitude from the text behind the sign) and valid UTF-8 in strings.
\<close>

fun numeric :: "Expr \<Rightarrow> bool" where
  "numeric (IntLit i) \<longleftrightarrow> True"
| "numeric (FloatLit f) \<longleftrightarrow> True"
| "numeric _ \<longleftrightarrow> False"

definition magnitude :: "64 word \<Rightarrow> 64 word" where
  "magnitude f = unset_bit 63 f"

definition unsigned_text :: "bytes \<Rightarrow> bytes" where
  "unsigned_text t = (if prefix ''-'' t then drop 1 t else t)"

definition float_reads :: "Printer \<Rightarrow> (bytes \<Rightarrow> 64 word) \<Rightarrow> 64 word \<Rightarrow> bool" where
  "float_reads pr rd f \<longleftrightarrow>
    (prefix ''-'' (FormatFloat pr f) \<longleftrightarrow> bit f 63)
    \<and> (let t = unsigned_text (FormatFloat pr f) in t \<noteq> [] \<and> is_digit (hd t) \<and> list_all number_char t \<and> rd t = magnitude f)"

text \<open>
  What the printed text says: a sign in front of a literal is Python's operator, and a float without
  point and exponent in its text is an integer.  Everything else is as it was.
\<close>

definition int_as_read :: "int \<Rightarrow> Expr" where
  "int_as_read i = (if i < 0 then UnaryExpr ''-'' (IntLit (- i)) else IntLit i)"

definition float_as_read :: "Printer \<Rightarrow> 64 word \<Rightarrow> Expr" where
  "float_as_read pr f =
    (let t = unsigned_text (FormatFloat pr f);
         x = (if list_all is_digit t then IntLit (digits_val t) else FloatLit (magnitude f))
     in if bit f 63 then UnaryExpr ''-'' x else x)"

primrec as_read :: "Printer \<Rightarrow> Expr \<Rightarrow> Expr" where
  "as_read pr (Call f args kws) = Call (as_read pr f) (map (as_read pr) args) (map (map_prod id (as_read pr)) kws)"
| "as_read pr (BinaryEq l r) = BinaryEq (as_read pr l) (as_read pr r)"
| "as_read pr (BinaryExpr l op r) = BinaryExpr (as_read pr l) op (as_read pr r)"
| "as_read pr (UnaryExpr op e) = UnaryExpr op (as_read pr e)"
| "as_read pr (ListLit es) = ListLit (map (as_read pr) es)"
| "as_read pr (SetLit es) = SetLit (map (as_read pr) es)"
| "as_read pr (DictLit ks vs) = DictLit (map (as_read pr) ks) (map (as_read pr) vs)"
| "as_read pr (SliceExpr e s t) = SliceExpr (as_read pr e) (map_option (as_read pr) s) (map_option (as_read pr) t)"
| "as_read pr (IndexExpr e i) = IndexExpr (as_read pr e) (as_read pr i)"
| "as_read pr (Name n) = Name n"
| "as_read pr (Attribute e a) = Attribute (as_read pr e) a"
| "as_read pr (StrLit s) = StrLit s"
| "as_read pr (IntLit i) = int_as_read i"
| "as_read pr (FloatLit f) = float_as_read pr f"
| "as_read pr (BoolLit b) = BoolLit b"

definition plain_name :: "bytes \<Rightarrow> bool" where
  "plain_name n \<longleftrightarrow> ident n \<and> n \<notin> {''True'', ''False'', ''not''}"

fun readable :: "Printer \<Rightarrow> (bytes \<Rightarrow> 64 word) \<Rightarrow> Expr \<Rightarrow> bool" where
  "readable pr rd (Call f args kws) \<longleftrightarrow>
    readable pr rd f \<and> \<not> numeric f \<and> (\<forall>a \<in> set args. readable pr rd a) \<and> (\<forall>(n, v) \<in> set kws. ident n \<and> readable pr rd v)"
| "readable pr rd (BinaryEq l r) \<longleftrightarrow> False"
| "readable pr rd (BinaryExpr l op r) \<longleftrightarrow> readable pr rd l \<and> op \<in> set binary_ops \<and> readable pr rd r"
| "readable pr rd (UnaryExpr op e) \<longleftrightarrow> op \<in> set unary_ops \<and> readable pr rd e"
| "readable pr rd (ListLit es) \<longleftrightarrow> (\<forall>e \<in> set es. readable pr rd e)"
| "readable pr rd (SetLit es) \<longleftrightarrow> es \<noteq> [] \<and> (\<forall>e \<in> set es. readable pr rd e)"
| "readable pr rd (DictLit ks vs) \<longleftrightarrow>
    length ks = length vs \<and> (\<forall>e \<in> set ks. readable pr rd e) \<and> (\<forall>e \<in> set vs. readable pr rd e)"
| "readable pr rd (SliceExpr e s t) \<longleftrightarrow>
    readable pr rd e \<and> \<not> numeric e \<and> (\<forall>x \<in> set_option s. readable pr rd x) \<and> (\<forall>x \<in> set_option t. readable pr rd x)"
| "readable pr rd (IndexExpr e i) \<longleftrightarrow> readable pr rd e \<and> \<not> numeric e \<and> readable pr rd i"
| "readable pr rd (Name n) \<longleftrightarrow> plain_name n"
| "readable pr rd (Attribute e a) \<longleftrightarrow> readable pr rd e \<and> \<not> numeric e \<and> ident a"
| "readable pr rd (StrLit s) \<longleftrightarrow> utf8 s"
| "readable pr rd (IntLit i) \<longleftrightarrow> True"
| "readable pr rd (FloatLit f) \<longleftrightarrow> float_reads pr rd f"
| "readable pr rd (BoolLit b) \<longleftrightarrow> True"

definition starts :: "bytes \<Rightarrow> (char \<Rightarrow> bool) \<Rightarrow> bool" where
  "starts s P \<longleftrightarrow> s \<noteq> [] \<and> P (hd s)"

definition fits :: "Expr \<Rightarrow> bytes \<Rightarrow> bool" where
  "fits e r \<longleftrightarrow> \<not> starts r ident_char \<and> (numeric e \<longrightarrow> \<not> starts r number_char)"

definition stops :: "bytes \<Rightarrow> bool" where
  "stops r \<longleftrightarrow> r = [] \<or> hd r \<in> set '' ),]}:''"

lemma special_chars [simp]:
  "\<not> ident_char (CHR ''('')" "\<not> ident_char (CHR '')'')" "\<not> ident_char (CHR ''['')" "\<not> ident_char (CHR '']'')"
  "\<not> ident_char (CHR ''{'')" "\<not> ident_char (CHR ''}'')" "\<not> ident_char (CHR ''.'')" "\<not> ident_char (CHR '','')"
  "\<not> ident_char (CHR '' '')" "\<not> ident_char (CHR '':'')" "\<not> ident_char (CHR ''='')" "\<not> ident_char (CHR ''-'')"
  "\<not> ident_char (CHR 0x22)"
  by (simp_all add: ident_char_def letter_def is_digit_def Let_def)

lemma number_chars [simp]:
  "\<not> number_char (CHR ''('')" "\<not> number_char (CHR '')'')" "\<not> number_char (CHR ''['')" "\<not> number_char (CHR '']'')"
  "\<not> number_char (CHR ''}'')" "\<not> number_char (CHR '','')" "\<not> number_char (CHR '' '')" "\<not> number_char (CHR '':'')"
  by (simp_all add: number_char_def)

lemma stops_fits: "stops r \<Longrightarrow> fits e r"
  by (auto simp: stops_def fits_def starts_def)

lemma takeWhile_starts: "list_all P t \<Longrightarrow> \<not> starts r P \<Longrightarrow> takeWhile P (t @ r) = t"
  by (cases r) (auto simp: starts_def takeWhile_append list_all_iff)

definition reads :: "reader \<Rightarrow> Expr \<Rightarrow> bytes \<Rightarrow> bool" where
  "reads p e t \<longleftrightarrow> (\<forall>r. stops r \<longrightarrow> p (t @ r) = Some (e, r))"

lemma until_reads: "reads p e t \<Longrightarrow> stops (close @ r) \<Longrightarrow> until p close (t @ close @ r) = Some (e, r)"
  by (simp add: reads_def until_def)

lemma items_reads:
  "list_all2 (reads p) es ts \<Longrightarrow> es \<noteq> [] \<Longrightarrow> c \<in> set '')]}'' \<Longrightarrow> length es \<le> k
    \<Longrightarrow> items p k c (join '', '' ts @ c # r) = Some (es, r)"
proof (induction es ts arbitrary: k rule: list_all2_induct)
  case (Cons e es t ts)
  from Cons.prems(3) obtain k' where k: "k = Suc k'" by (cases k) auto
  show ?case
  proof (cases es)
    case Nil
    with Cons have "ts = []" by simp
    have "p (t @ c # r) = Some (e, c # r)" using Cons.hyps(1) Cons.prems(2) by (auto simp: reads_def stops_def)
    with Nil k \<open>ts = []\<close> show ?thesis by simp
  next
    case (Cons e' es')
    then obtain t' ts' where ts: "ts = t' # ts'" using Cons.hyps(2) by (cases ts) auto
    have "p (t @ '', '' @ join '', '' ts @ c # r) = Some (e, '', '' @ join '', '' ts @ c # r)"
      using Cons.hyps(1) by (auto simp: reads_def stops_def)
    moreover have "c \<noteq> CHR '',''" using Cons.prems(2) by auto
    ultimately show ?thesis using Cons.IH [of k'] Cons.prems k Cons ts by (simp add: join_Cons)
  qed
qed simp


subsection \<open>How a printed expression starts\<close>

definition leads :: "bytes \<Rightarrow> bool" where
  "leads s \<longleftrightarrow> starts s (\<lambda>c. c \<notin> set '')]}:'') \<and> keyword_of s = None \<and> takeWhile ident_char s \<noteq> ''not''"

definition next_ok :: "bytes \<Rightarrow> bool" where
  "next_ok r \<longleftrightarrow> \<not> starts r ident_char \<and> \<not> starts r (\<lambda>c. c = CHR ''='')"

lemma digit_not_letter: "is_digit c \<Longrightarrow> \<not> letter c"
  by (auto simp: is_digit_def letter_def Let_def)

lemma digit_ident: "is_digit c \<Longrightarrow> ident_char c"
  by (simp add: ident_char_def)

lemma special_not_digit [simp]:
  "\<not> is_digit (CHR ''-'')" "\<not> is_digit (CHR '')'')" "\<not> is_digit (CHR '']'')" "\<not> is_digit (CHR ''}'')" "\<not> is_digit (CHR '':'')"
  "\<not> is_digit (CHR ''('')" "\<not> is_digit (CHR ''['')" "\<not> is_digit (CHR ''{'')" "\<not> is_digit (CHR 0x22)" "\<not> is_digit (CHR ''n'')"
  by (simp_all add: is_digit_def)

lemma special_not_letter [simp]:
  "\<not> letter (CHR ''-'')" "\<not> letter (CHR '')'')" "\<not> letter (CHR '']'')" "\<not> letter (CHR ''}'')" "\<not> letter (CHR '':'')"
  "\<not> letter (CHR ''('')" "\<not> letter (CHR ''['')" "\<not> letter (CHR ''{'')" "\<not> letter (CHR 0x22)"
  by (simp_all add: letter_def Let_def)

lemma leads_digit: "is_digit c \<Longrightarrow> leads (c # s)"
  using digit_not_letter [of c] digit_ident [of c] by (auto simp: leads_def starts_def keyword_of_def Let_def)

lemma leads_symbol: "c \<in> {CHR ''('', CHR ''['', CHR ''{'', CHR 0x22, CHR ''-''} \<Longrightarrow> leads (c # s)"
  by (auto simp: leads_def starts_def keyword_of_def)

lemma ident_letter: "ident n \<Longrightarrow> \<exists>c s. n = c # s \<and> letter c"
  by (cases n) (auto simp: ident_def)

lemma leads_name:
  assumes "ident n" "n \<noteq> ''not''" "next_ok r"
  shows "leads (n @ r)"
proof -
  have "takeWhile ident_char (n @ r) = n"
    using assms takeWhile_starts [of ident_char n r] by (simp add: ident_def next_ok_def)
  moreover have "\<not> prefix ''='' r" using assms(3) by (cases r) (auto simp: next_ok_def starts_def)
  moreover obtain c s where "n = c # s" "letter c" using ident_letter [OF assms(1)] by blast
  ultimately show ?thesis using assms(2) by (auto simp: leads_def starts_def keyword_of_def)
qed

lemma keyword_of_eq: "ident n \<Longrightarrow> keyword_of (n @ CHR ''='' # t) = Some n"
proof -
  assume n: "ident n"
  then have "takeWhile ident_char (n @ CHR ''='' # t) = n"
    using takeWhile_starts [of ident_char n "CHR ''='' # t"] by (simp add: ident_def starts_def)
  with n show ?thesis by (simp add: keyword_of_def ident_def)
qed

lemma next_ok_simps [simp]:
  "next_ok (CHR ''('' # r)" "next_ok (CHR ''['' # r)" "next_ok (CHR ''.'' # r)" "next_ok []"
  by (simp_all add: next_ok_def starts_def)

lemma stops_next: "stops r \<Longrightarrow> next_ok r"
  by (auto simp: stops_def next_ok_def starts_def)

lemma bool_idents [simp]: "ident ''True''" "ident ''False''"
  by (simp_all add: ident_def ident_char_def letter_def is_digit_def Let_def byte_def)

lemma itoa_cons: "0 \<le> i \<Longrightarrow> \<exists>c s. itoa i = c # s \<and> is_digit c"
  using hd_itoa_digit [of i] by (cases "itoa i") auto

lemma readable_leads:
  "readable pr rd e \<Longrightarrow> Expr_PyString pr e = Some t \<Longrightarrow> next_ok r \<Longrightarrow> leads (t @ r)"
proof (induction e arbitrary: t r)
  case (IntLit i)
  have "\<exists>c s. itoa i = c # s \<and> (is_digit c \<or> c = CHR ''-'')"
    using itoa_cons [of i] by (cases "i < 0") (auto simp: itoa_def)
  with IntLit show ?case by (auto intro: leads_digit leads_symbol)
next
  case (FloatLit f)
  then show ?case
    by (cases "FormatFloat pr f") (auto simp: float_reads_def unsigned_text_def Let_def intro: leads_digit leads_symbol split: if_splits)
next
  case (BoolLit b)
  then show ?case using leads_name [of "''True''" r] leads_name [of "''False''" r] by auto
next
  case (Name n)
  then show ?case using leads_name [of n r] by (auto simp: plain_name_def)
qed (auto simp: cats_Some quote_def Let_def intro!: leads_symbol split: if_splits)

subsection \<open>Argument lists and displays\<close>

definition pair_text :: "bytes \<Rightarrow> bytes \<Rightarrow> bytes" where
  "pair_text a b = a @ '': '' @ b"

lemma pairs_reads:
  "list_all2 (reads p) ks ts \<Longrightarrow> list_all2 (reads p) vs us \<Longrightarrow> length ks = length vs \<Longrightarrow> ks \<noteq> [] \<Longrightarrow> length ks \<le> n
    \<Longrightarrow> pairs p n (join '', '' (map2 pair_text ts us) @ CHR ''}'' # r) = Some ((ks, vs), r)"
proof (induction ks ts arbitrary: vs us n rule: list_all2_induct)
  case (Cons k ks t ts)
  from Cons.prems obtain n' v vs' u us' where n: "n = Suc n'" and v: "vs = v # vs'" "us = u # us'"
    by (cases n; cases vs; cases us) auto
  have k: "until p '': '' (pair_text t u @ q) = Some (k, u @ q)" for q
    using until_reads [OF Cons.hyps(1), of "'': ''" "u @ q"] by (simp add: pair_text_def stops_def)
  have u: "p (u @ q) = Some (v, q)" if "stops q" for q
    using Cons.prems(1) v that by (simp add: reads_def)
  show ?case
  proof (cases ks)
    case Nil
    with Cons v have "ts = []" "vs' = []" "us' = []" by auto
    with Nil n v k u show ?thesis by (simp add: stops_def)
  next
    case (Cons k' ks')
    then have ne: "map2 pair_text ts us' \<noteq> []" using Cons.hyps(2) Cons.prems v by (cases ts; cases us') auto
    let ?q = "'', '' @ join '', '' (map2 pair_text ts us') @ CHR ''}'' # r"
    have "join '', '' (map2 pair_text (t # ts) us) @ CHR ''}'' # r = pair_text t u @ ?q"
      using v join_Cons [OF ne, of "'', ''" "pair_text t u"] by simp
    moreover have "pairs p n' (join '', '' (map2 pair_text ts us') @ CHR ''}'' # r) = Some ((ks, vs'), r)"
      using Cons.IH [of vs' us' n'] Cons.prems v n Cons by auto
    ultimately show ?thesis using n v k [of ?q] u [of ?q] by (simp add: stops_def)
  qed
qed simp


definition kw_reads :: "reader \<Rightarrow> bytes \<times> Expr \<Rightarrow> bytes \<Rightarrow> bool" where
  "kw_reads p kv u \<longleftrightarrow> ident (fst kv) \<and> (\<exists>t. u = fst kv @ CHR ''='' # t \<and> reads p (snd kv) t)"

definition arg_reads :: "reader \<Rightarrow> Expr \<Rightarrow> bytes \<Rightarrow> bool" where
  "arg_reads p e t \<longleftrightarrow> reads p e t \<and> (\<forall>r. stops r \<longrightarrow> leads (t @ r))"

lemma stops_simps [simp]: "stops (CHR '')'' # r)" "stops (CHR '','' # r)" "stops (CHR '']'' # r)" "stops (CHR ''}'' # r)"
    "stops (CHR '':'' # r)" "stops (CHR '' '' # r)" "stops []"
  by (simp_all add: stops_def)

lemma kw_step:
  assumes "kw_reads p kv u" "stops q"
  shows "keyword_of (u @ q) = Some (fst kv) \<and> p (drop (length (fst kv) + 1) (u @ q)) = Some (snd kv, q)"
  using assms keyword_of_eq [of "fst kv"] by (auto simp: kw_reads_def reads_def)

lemma keyword_args_reads:
  "list_all2 (kw_reads p) ks us \<Longrightarrow> ks \<noteq> [] \<Longrightarrow> length ks \<le> k
    \<Longrightarrow> keyword_args p k (join '', '' us @ CHR '')'' # r) = Some (ks, r)"
proof (induction ks us arbitrary: k rule: list_all2_induct)
  case (Cons kv ks u us)
  from Cons.prems obtain k' where k: "k = Suc k'" by (cases k) auto
  show ?case
  proof (cases ks)
    case Nil
    with Cons have "us = []" by simp
    with Nil k kw_step [OF Cons.hyps(1), of "CHR '')'' # r"] show ?thesis by (cases kv) simp
  next
    case (Cons kv' ks')
    then have us: "us \<noteq> []" using Cons.hyps(2) by (cases us) auto
    with Cons.IH [of k'] Cons.prems k Cons kw_step [OF Cons.hyps(1), of "'', '' @ join '', '' us @ CHR '')'' # r"] show ?thesis
      by (cases kv) (simp add: join_Cons)
  qed
qed simp

lemma join_length: "\<forall>u \<in> set us. u \<noteq> [] \<Longrightarrow> length us \<le> length (join sep us)"
proof (induction sep us rule: join.induct)
  case (3 sep p q ps)
  then have "Suc 0 \<le> length p" by (cases p) auto
  with 3 show ?case by (simp del: length_greater_0_conv)
qed (auto simp: Suc_le_eq)

lemma kw_reads_texts: "list_all2 (kw_reads p) ks us \<Longrightarrow> \<forall>u \<in> set us. u \<noteq> []"
  by (induction rule: list_all2_induct) (auto simp: kw_reads_def)

lemma arguments_reads:
  "list_all2 (arg_reads p) as ts \<Longrightarrow> list_all2 (kw_reads p) ks us \<Longrightarrow> as \<noteq> [] \<or> ks \<noteq> [] \<Longrightarrow> length as < k
    \<Longrightarrow> arguments p k (join '', '' (ts @ us) @ CHR '')'' # r) = Some ((as, ks), r)"
proof (induction as ts arbitrary: k rule: list_all2_induct)
  case Nil
  then obtain k' kv ks' u us' where k: "k = Suc k'" and ks: "ks = kv # ks'" "us = u # us'"
    by (cases k; cases ks; cases us) auto
  let ?s = "join '', '' us @ CHR '')'' # r"
  obtain q where q: "?s = u @ q" "stops q" using ks by (cases us') auto
  have "keyword_of ?s = Some (fst kv)" using kw_step [of p kv u q] Nil.prems(1) ks q by simp
  moreover have "length ks \<le> length ?s"
    using join_length [OF kw_reads_texts [OF Nil.prems(1)], of "'', ''"] list_all2_lengthD [OF Nil.prems(1)] by simp
  from keyword_args_reads [OF Nil.prems(1) _ this] have "keyword_args p (length ?s) ?s = Some (ks, r)" using ks by simp
  ultimately show ?case using k by simp
next
  case (Cons e as t ts)
  from Cons.prems obtain k' where k: "k = Suc k'" by (cases k) auto
  have e: "p (t @ q) = Some (e, q) \<and> keyword_of (t @ q) = None" if "stops q" for q
    using Cons.hyps(1) that by (auto simp: arg_reads_def reads_def leads_def)
  show ?case
  proof (cases "as = [] \<and> ks = []")
    case True
    then have "ts = []" "us = []" using Cons.hyps(2) Cons.prems(1) by auto
    with True k e [of "CHR '')'' # r"] show ?thesis by simp
  next
    case False
    then have ne: "ts @ us \<noteq> []" using Cons.hyps(2) Cons.prems(1) by (cases ts; cases us) auto
    let ?q = "'', '' @ join '', '' (ts @ us) @ CHR '')'' # r"
    have "join '', '' ((t # ts) @ us) @ CHR '')'' # r = t @ ?q" using join_Cons [OF ne, of "'', ''" t] by simp
    moreover have "arguments p k' (join '', '' (ts @ us) @ CHR '')'' # r) = Some ((as, ks), r)"
      using Cons.IH [of k'] Cons.prems False k by auto
    ultimately show ?thesis using k e [of ?q] by simp
  qed
qed

subsection \<open>Expressions read back\<close>

lemma reads_post:
  assumes "\<forall>r. fits e r \<longrightarrow> (\<exists>K > length r. parse_expr rd (Suc n) (t @ r) = postfix_ops (parse_expr rd n) K e r)"
  shows "reads (parse_expr rd (Suc n)) e t"
  unfolding reads_def
proof (intro allI impI)
  fix r assume r: "stops r"
  from assms stops_fits [OF r] obtain K where "K > length r" "parse_expr rd (Suc n) (t @ r) = postfix_ops (parse_expr rd n) K e r"
    by blast
  moreover then obtain K' where "K = Suc K'" by (cases K) auto
  ultimately show "parse_expr rd (Suc n) (t @ r) = Some (e, r)"
    using r by (cases r) (auto simp: stops_def)
qed

definition goes_on :: "(bytes \<Rightarrow> 64 word) \<Rightarrow> nat \<Rightarrow> Expr \<Rightarrow> bytes \<Rightarrow> bool" where
  "goes_on rd n e t \<longleftrightarrow>
    (\<forall>r. fits e r \<longrightarrow> (\<exists>K > length r. parse_expr rd (Suc n) (t @ r) = postfix_ops (parse_expr rd n) K e r))"

lemma goes_on_atom:
  assumes "\<And>r. fits e r \<Longrightarrow> atom rd (parse_expr rd n) (t @ r) = Some (e, r)" "\<And>r. \<not> prefix ''-'' (t @ r)"
  shows "goes_on rd n e t"
  unfolding goes_on_def using assms by (auto intro!: exI [of _ "Suc (length r)" for r])

lemma goes_on_op:
  assumes "goes_on rd n f tf" "\<And>r. fits f (u @ r)" "u \<noteq> []"
    "\<And>K r. fits e r \<Longrightarrow> postfix_ops (parse_expr rd n) (Suc K) f (u @ r) = postfix_ops (parse_expr rd n) K e r"
  shows "goes_on rd n e (tf @ u)"
  unfolding goes_on_def
proof (intro allI impI)
  fix r assume r: "fits e r"
  from assms(1,2) obtain K where K: "K > length (u @ r)" "parse_expr rd (Suc n) (tf @ u @ r) = postfix_ops (parse_expr rd n) K f (u @ r)"
    unfolding goes_on_def by blast
  then obtain K' where K': "K = Suc K'" by (cases K) auto
  with K assms(3) have "K' > length r" by (cases u) auto
  with K K' assms(4) [OF r, of K'] show "\<exists>K > length r. parse_expr rd (Suc n) ((tf @ u) @ r) = postfix_ops (parse_expr rd n) K e r"
    by auto
qed


definition deep :: "(bytes \<Rightarrow> 64 word) \<Rightarrow> Expr \<Rightarrow> bytes \<Rightarrow> bool" where
  "deep rd e t \<longleftrightarrow> t \<noteq> [] \<and> (\<forall>n. length t \<le> Suc n \<longrightarrow> goes_on rd n e t)"

lemma deep_reads: "deep rd e t \<Longrightarrow> length t \<le> n \<Longrightarrow> reads (parse_expr rd n) e t"
  by (cases n) (auto simp: deep_def goes_on_def intro!: reads_post)

lemma deepI: "t \<noteq> [] \<Longrightarrow> (\<And>n. length t \<le> Suc n \<Longrightarrow> goes_on rd n e t) \<Longrightarrow> deep rd e t"
  by (simp add: deep_def)

lemma deep_step: "deep rd f t \<Longrightarrow> length (t @ u) \<le> Suc n \<Longrightarrow> goes_on rd n f t"
  by (simp add: deep_def)

text \<open>An operand only has to read back in full; a literal with a sign does that and no more.\<close>

definition whole :: "(bytes \<Rightarrow> 64 word) \<Rightarrow> Expr \<Rightarrow> bytes \<Rightarrow> bool" where
  "whole rd e t \<longleftrightarrow> t \<noteq> [] \<and> (\<forall>n. length t \<le> n \<longrightarrow> reads (parse_expr rd n) e t)"

lemma whole_reads: "whole rd e t \<Longrightarrow> length t \<le> n \<Longrightarrow> reads (parse_expr rd n) e t"
  by (simp add: whole_def)

lemma deep_whole: "deep rd e t \<Longrightarrow> whole rd e t"
  using deep_reads by (simp add: whole_def) (simp add: deep_def)

lemma whole_minus:
  assumes "whole rd e t"
  shows "whole rd (UnaryExpr ''-'' e) (CHR ''-'' # t)"
  unfolding whole_def
proof (intro conjI allI impI)
  fix n assume n: "length (CHR ''-'' # t) \<le> n"
  then obtain m where m: "n = Suc m" by (cases n) auto
  from n m have "reads (parse_expr rd m) e t" by (intro whole_reads [OF assms]) simp
  with m show "reads (parse_expr rd n) (UnaryExpr ''-'' e) (CHR ''-'' # t)" by (simp add: reads_def)
qed simp

lemma readable_leading:
  assumes "readable pr rd e" "Expr_PyString pr e = Some t"
  shows "t \<noteq> []" "next_ok r \<Longrightarrow> hd (t @ r) \<notin> set '')]}:''" "next_ok r \<Longrightarrow> \<not> prefix ''not '' (t @ r)"
proof -
  have l: "leads (t @ r)" if "next_ok r" for r using readable_leads [OF assms that] .
  show "t \<noteq> []" using l [of "[]"] by (auto simp: leads_def starts_def)
  show "hd (t @ r) \<notin> set '')]}:''" if "next_ok r" using l [OF that] by (simp add: leads_def starts_def)
  show "\<not> prefix ''not '' (t @ r)" if "next_ok r"
  proof
    assume "prefix ''not '' (t @ r)"
    then obtain z where "t @ r = ''not '' @ z" by (auto simp: prefix_def)
    moreover have "ident_char (CHR ''n'')" "ident_char (CHR ''o'')" "ident_char (CHR ''t'')"
      by (simp_all add: ident_char_def letter_def Let_def)
    ultimately show False using l [OF that] by (simp add: leads_def)
  qed
qed

lemma atom_symbols:
  "atom rd p (CHR ''('' # s) = parenthesised p s"
  "atom rd p (CHR ''['' # s) =
    (if prefix '']'' s then Some (ListLit [], drop 1 s) else map_option (map_prod ListLit id) (items p (length s) (CHR '']'') s))"
  "atom rd p (CHR ''{'' # s) = braced p s"
  "atom rd p (CHR 0x22 # s) = map_option (map_prod StrLit id) (read_string s)"
  by (simp_all add: atom_def)

lemma atom_digit:
  assumes "t = c # t'" "is_digit c"
  shows "atom rd p (t @ r) = (let u = takeWhile number_char (t @ r) in Some (read_number rd u, drop (length u) (t @ r)))"
proof -
  have "c \<noteq> CHR ''(''" "c \<noteq> CHR ''[''" "c \<noteq> CHR ''{''" "c \<noteq> CHR 0x22" using assms(2) by auto
  with assms show ?thesis by (simp add: atom_def Let_def)
qed

lemma atom_letter:
  assumes "t = c # t'" "letter c"
  shows "atom rd p (t @ r) = (let u = takeWhile ident_char (t @ r) in Some (read_name u, drop (length u) (t @ r)))"
proof -
  have "c \<noteq> CHR ''(''" "c \<noteq> CHR ''[''" "c \<noteq> CHR ''{''" "c \<noteq> CHR 0x22" "\<not> is_digit c"
    using assms(2) digit_not_letter by auto
  with assms show ?thesis by (simp add: atom_def Let_def)
qed

lemma number_atom:
  assumes "list_all number_char t" "t = c # t'" "is_digit c" "\<not> starts r number_char"
  shows "atom rd p (t @ r) = Some (read_number rd t, r)"
  using atom_digit [OF assms(2,3)] takeWhile_starts [OF assms(1,4)] by simp

lemma name_atom:
  assumes "ident n" "\<not> starts r ident_char"
  shows "atom rd p (n @ r) = Some (read_name n, r)"
proof -
  obtain c s where "n = c # s" "letter c" using ident_letter [OF assms(1)] by blast
  from atom_letter [OF this] takeWhile_starts [of ident_char n r] assms show ?thesis by (simp add: ident_def)
qed

lemma digits_number: "list_all is_digit t \<Longrightarrow> list_all number_char t"
  by (auto simp: list_all_iff number_char_def ident_char_def)

lemma digit_start: "is_digit c \<Longrightarrow> \<not> prefix ''-'' (c # s)"
  by auto

lemma number_whole:
  assumes "list_all number_char t" "t \<noteq> []" "is_digit (hd t)" "read_number rd t = e" "numeric e"
  shows "whole rd e t"
proof (rule deep_whole, rule deepI [OF assms(2)], rule goes_on_atom)
  obtain c t' where c: "t = c # t'" "is_digit c" using assms(2,3) by (cases t) auto
  show "\<not> prefix ''-'' (t @ r)" for r using digit_start c by simp
  show "atom rd (parse_expr rd n) (t @ r) = Some (e, r)" if "fits e r" for n r
    using number_atom [OF assms(1) c] that assms(4,5) by (simp add: fits_def)
qed

lemma digits_whole: "0 \<le> i \<Longrightarrow> whole rd (IntLit i) (itoa i)"
proof (rule number_whole)
  assume i: "0 \<le> i"
  show "list_all number_char (itoa i)" using digits_number [OF itoa_digits [OF i]] .
  show "is_digit (hd (itoa i))" using hd_itoa_digit [OF i] .
  show "read_number rd (itoa i) = IntLit i" using itoa_digits [OF i] i by (simp add: read_number_def itoa_nonneg)
qed simp_all

lemma int_whole: "whole rd (int_as_read i) (itoa i)"
proof (cases "i < 0")
  case True
  then have "itoa i = CHR ''-'' # itoa (- i)" by (simp add: itoa_def)
  with True whole_minus [OF digits_whole [of "- i" rd]] show ?thesis by (simp add: int_as_read_def)
next
  case False
  with digits_whole [of i rd] show ?thesis by (simp add: int_as_read_def)
qed

lemma float_whole:
  assumes "float_reads pr rd f"
  shows "whole rd (float_as_read pr f) (FormatFloat pr f)"
proof -
  let ?t = "unsigned_text (FormatFloat pr f)"
  let ?x = "if list_all is_digit ?t then IntLit (digits_val ?t) else FloatLit (magnitude f)"
  have x: "whole rd ?x ?t"
    using assms by (intro number_whole) (auto simp: float_reads_def Let_def read_number_def)
  show ?thesis
  proof (cases "prefix ''-'' (FormatFloat pr f)")
    case True
    then have "FormatFloat pr f = CHR ''-'' # ?t" by (auto simp: unsigned_text_def prefix_def)
    moreover have "bit f 63" using True assms by (simp add: float_reads_def)
    ultimately show ?thesis using whole_minus [OF x] by (simp add: float_as_read_def Let_def)
  next
    case False
    then have t: "?t = FormatFloat pr f" and "\<not> bit f 63" using assms by (simp_all add: unsigned_text_def float_reads_def)
    then show ?thesis using x [unfolded t] unfolding float_as_read_def t Let_def by simp
  qed
qed

lemma deep_name:
  assumes "ident n" "read_name n = e"
  shows "deep rd e n"
proof (rule deepI)
  show "n \<noteq> []" using assms(1) by (auto simp: ident_def)
  fix m
  show "goes_on rd m e n"
  proof (rule goes_on_atom)
    obtain c s where "n = c # s" "letter c" using ident_letter [OF assms(1)] by blast
    then show "\<not> prefix ''-'' (n @ r)" for r by auto
    show "atom rd (parse_expr rd m) (n @ r) = Some (e, r)" if "fits e r" for r
      using assms name_atom [OF assms(1)] that by (simp add: fits_def)
  qed
qed

lemma deep_string: "utf8 s \<Longrightarrow> deep rd (StrLit s) (quote ip s)"
  by (intro deepI goes_on_atom) (simp_all add: quote_def atom_symbols read_quoted del: read_string.simps)

lemma deep_unary:
  assumes "op \<in> set unary_ops" "whole rd e' t" "readable pr rd e" "Expr_PyString pr e = Some t"
  shows "deep rd (UnaryExpr op e') (if op = ''not'' then ''(not '' @ t @ '')'' else ''('' @ op @ t @ '')'')"
proof (rule deepI)
  fix n assume n: "length (if op = ''not'' then ''(not '' @ t @ '')'' else ''('' @ op @ t @ '')'') \<le> Suc n"
  show "goes_on rd n (UnaryExpr op e') (if op = ''not'' then ''(not '' @ t @ '')'' else ''('' @ op @ t @ '')'')"
  proof (cases "op = ''not''")
    case True
    with n have "reads (parse_expr rd n) e' t" by (intro whole_reads [OF assms(2)]) simp
    then have u: "until (parse_expr rd n) '')'' (t @ '')'' @ r) = Some (e', r)" for r
      by (intro until_reads) simp_all
    with True show ?thesis by (intro goes_on_atom) (simp_all add: atom_symbols parenthesised_def)
  next
    case False
    with assms(1) have op: "op = ''-''" by (auto simp: unary_ops_def)
    with n have "reads (parse_expr rd n) (UnaryExpr ''-'' e') (CHR ''-'' # t)"
      by (intro whole_reads [OF whole_minus [OF assms(2)]]) simp
    then have "parse_expr rd n (CHR ''-'' # t @ CHR '')'' # r) = Some (UnaryExpr ''-'' e', CHR '')'' # r)" for r
      by (simp add: reads_def)
    with op show ?thesis by (intro goes_on_atom) (simp_all add: atom_symbols parenthesised_def)
  qed
qed simp

lemma prefix_hd: "prefix [c] s \<longleftrightarrow> s \<noteq> [] \<and> hd s = c"
  by (cases s) auto

lemma binary_op_char: "op \<in> set binary_ops \<Longrightarrow> list_all (\<lambda>c. c \<noteq> CHR '' '') op \<and> op \<noteq> []"
  by (auto simp: binary_ops_def)

lemma deep_binary:
  assumes "op \<in> set binary_ops" "whole rd l' ta" "whole rd r' tb" "readable pr rd l" "Expr_PyString pr l = Some ta"
  shows "deep rd (BinaryExpr l' op r') (''('' @ ta @ ('' '' @ op @ '' '') @ tb @ '')'')"
proof (rule deepI)
  fix n assume n: "length (''('' @ ta @ ('' '' @ op @ '' '') @ tb @ '')'') \<le> Suc n"
  then have l: "reads (parse_expr rd n) l' ta" and r: "reads (parse_expr rd n) r' tb"
    by (auto intro!: whole_reads [OF assms(2)] whole_reads [OF assms(3)])
  show "goes_on rd n (BinaryExpr l' op r') (''('' @ ta @ ('' '' @ op @ '' '') @ tb @ '')'')"
  proof (rule goes_on_atom)
    fix q
    let ?s = "ta @ '' '' @ op @ '' '' @ tb @ '')'' @ q"
    have "next_ok ('' '' @ x)" for x by (simp add: next_ok_def starts_def)
    from readable_leading(3) [OF assms(4,5) this] have start: "\<not> prefix ''not '' ?s" by auto
    have "parse_expr rd n ?s = Some (l', '' '' @ op @ '' '' @ tb @ '')'' @ q)" using l by (simp add: reads_def)
    moreover have "takeWhile (\<lambda>x. x \<noteq> CHR '' '') (op @ '' '' @ tb @ '')'' @ q) = op"
      using binary_op_char [OF assms(1)] by (intro takeWhile_starts) (auto simp: starts_def)
    moreover have "until (parse_expr rd n) '')'' (tb @ '')'' @ q) = Some (r', q)" by (rule until_reads [OF r]) simp
    ultimately have "parenthesised (parse_expr rd n) ?s = Some (BinaryExpr l' op r', q)"
      using start by (simp add: parenthesised_def Let_def)
    then show "atom rd (parse_expr rd n) ((''('' @ ta @ ('' '' @ op @ '' '') @ tb @ '')'') @ q) = Some (BinaryExpr l' op r', q)"
      by (simp add: atom_symbols)
  qed simp
qed simp


definition all_deep :: "(bytes \<Rightarrow> 64 word) \<Rightarrow> Expr list \<Rightarrow> bytes list \<Rightarrow> bool" where
  "all_deep rd es ts \<longleftrightarrow> list_all2 (whole rd) es ts"

lemma join_part: "t \<in> set ts \<Longrightarrow> length t \<le> length (join sep ts)"
proof (induction sep ts rule: join.induct)
  case (3 sep p q ps)
  show ?case
  proof (cases "t = p")
    case False
    with 3 have "length t \<le> length (join sep (q # ps))" by simp
    then show ?thesis by simp
  qed simp
qed simp_all

lemma deep_list_reads:
  assumes "all_deep rd es ts" "\<forall>t \<in> set ts. length t \<le> n"
  shows "list_all2 (reads (parse_expr rd n)) es ts"
  using assms unfolding all_deep_def
  by (induction rule: list_all2_induct) (auto intro: whole_reads)

lemma deep_list_items:
  assumes "all_deep rd es ts" "es \<noteq> []" "c \<in> set '')]}''" "length (join '', '' ts) \<le> n"
  shows "items (parse_expr rd n) (length (join '', '' ts @ c # r)) c (join '', '' ts @ c # r) = Some (es, r)"
proof (rule items_reads)
  note two = assms(1) [unfolded all_deep_def]
  have "length t \<le> n" if "t \<in> set ts" for t
    using join_part [OF that, of "'', ''"] assms(4) by linarith
  then show "list_all2 (reads (parse_expr rd n)) es ts" by (intro deep_list_reads [OF assms(1)] ballI)
  have "t \<noteq> []" if "t \<in> set ts" for t
  proof -
    from that obtain i where "i < length ts" "ts ! i = t" by (auto simp: in_set_conv_nth)
    with list_all2_nthD2 [OF two, of i] show ?thesis by (simp add: whole_def)
  qed
  then have "length ts \<le> length (join '', '' ts)" by (intro join_length ballI)
  with list_all2_lengthD [OF two] show "length es \<le> length (join '', '' ts @ c # r)" by simp
  show "es \<noteq> []" "c \<in> set '')]}''" by (fact assms)+
qed

lemma those_texts:
  assumes "those (map (Expr_PyString pr) es) = Some ts"
  shows "list_all2 (\<lambda>e t. Expr_PyString pr e = Some t) es ts"
  using assms
proof (induction es arbitrary: ts)
  case (Cons e es)
  then show ?case by (auto split: option.splits)
qed simp

lemma all_deepI:
  assumes "list_all2 (\<lambda>e t. Expr_PyString pr e = Some t) es ts" "\<And>e t. e \<in> set es \<Longrightarrow> Expr_PyString pr e = Some t \<Longrightarrow> whole rd (f e) t"
  shows "all_deep rd (map f es) ts"
  using assms unfolding all_deep_def by (induction rule: list_all2_induct) auto

lemma first_leads:
  assumes "list_all2 (\<lambda>e t. Expr_PyString pr e = Some t) es ts" "es \<noteq> []" "\<forall>e \<in> set es. readable pr rd e" "stops r"
  shows "join '', '' ts @ r \<noteq> [] \<and> hd (join '', '' ts @ r) \<notin> set '')]}:''"
proof -
  obtain e es' t ts' where e: "es = e # es'" "ts = t # ts'" "Expr_PyString pr e = Some t" "readable pr rd e"
    using assms(1,2,3) by (cases es; cases ts) auto
  have "\<exists>q. join '', '' ts @ r = t @ q \<and> next_ok q"
    using e(2) stops_next [OF assms(4)] by (cases ts') (auto simp: next_ok_def starts_def)
  then obtain q where "join '', '' ts @ r = t @ q" "next_ok q" by blast
  with readable_leading [OF e(4,3)] show ?thesis by auto
qed

lemma deep_list:
  assumes "all_deep rd es' ts" "list_all2 (\<lambda>e t. Expr_PyString pr e = Some t) es ts" "\<forall>e \<in> set es. readable pr rd e"
  shows "deep rd (ListLit es') (''['' @ join '', '' ts @ '']'')"
proof (cases "es = []")
  case True
  then have "ts = []" using assms(2) by simp
  then have "es' = []" using assms(1) by (simp add: all_deep_def)
  with \<open>ts = []\<close> show ?thesis by (intro deepI goes_on_atom) (simp_all add: atom_symbols)
next
  case False
  then have ne: "es' \<noteq> []" using assms(1,2) by (auto simp: all_deep_def)
  show ?thesis
  proof (rule deepI)
    fix n assume n: "length (''['' @ join '', '' ts @ '']'') \<le> Suc n"
    show "goes_on rd n (ListLit es') (''['' @ join '', '' ts @ '']'')"
    proof (rule goes_on_atom)
      fix r
      let ?s = "join '', '' ts @ CHR '']'' # r"
      have "\<not> prefix '']'' ?s" using first_leads [OF assms(2) False assms(3), of "CHR '']'' # r"] unfolding prefix_hd by auto
      moreover have "items (parse_expr rd n) (length ?s) (CHR '']'') ?s = Some (es', r)"
        using n by (intro deep_list_items [OF assms(1) ne]) auto
      ultimately show "atom rd (parse_expr rd n) ((''['' @ join '', '' ts @ '']'') @ r) = Some (ListLit es', r)"
        by (simp add: atom_symbols)
    qed simp
  qed simp
qed

lemma first_text:
  assumes "all_deep rd es ts" "es \<noteq> []" "length (join '', '' ts) \<le> n" "c \<in> set ''}:''"
  shows "\<exists>q. parse_expr rd n (join '', '' ts @ c # r) = Some (hd es, q) \<and> (q = c # r \<or> prefix '', '' q)"
proof -
  obtain e es' t ts' where e: "es = e # es'" "ts = t # ts'" "whole rd e t"
    using assms(1,2) unfolding all_deep_def by (cases es; cases ts) auto
  have "length t \<le> n" using join_part [of t ts "'', ''"] e(2) assms(3) by simp
  then have "reads (parse_expr rd n) e t" by (rule whole_reads [OF e(3)])
  then have p: "parse_expr rd n (t @ q) = Some (e, q)" if "stops q" for q using that by (simp add: reads_def)
  show ?thesis
  proof (cases ts')
    case Nil
    with e p [of "c # r"] assms(4) show ?thesis by (auto simp: stops_def)
  next
    case (Cons t' ts'')
    with e p [of "'', '' @ join '', '' ts' @ c # r"] show ?thesis by (auto simp: stops_def join_Cons)
  qed
qed

lemma deep_set:
  assumes "all_deep rd es' ts" "es \<noteq> []" "list_all2 (\<lambda>e t. Expr_PyString pr e = Some t) es ts" "\<forall>e \<in> set es. readable pr rd e"
  shows "deep rd (SetLit es') (''{'' @ join '', '' ts @ ''}'')"
proof (rule deepI)
  have ne: "es' \<noteq> []" using assms(1,2,3) by (auto simp: all_deep_def)
  fix n assume n: "length (''{'' @ join '', '' ts @ ''}'') \<le> Suc n"
  show "goes_on rd n (SetLit es') (''{'' @ join '', '' ts @ ''}'')"
  proof (rule goes_on_atom)
    fix r
    let ?s = "join '', '' ts @ CHR ''}'' # r"
    have "\<not> prefix ''}'' ?s" using first_leads [OF assms(3,2,4), of "CHR ''}'' # r"] unfolding prefix_hd by auto
    moreover have "items (parse_expr rd n) (length ?s) (CHR ''}'') ?s = Some (es', r)"
      using n by (intro deep_list_items [OF assms(1) ne]) auto
    moreover obtain q where "parse_expr rd n ?s = Some (hd es', q)" "q = CHR ''}'' # r \<or> prefix '', '' q"
      using first_text [OF assms(1) ne, of n "CHR ''}''" r] n by auto
    moreover then have "\<not> prefix '':'' q" unfolding prefix_hd by (auto simp: prefix_def)
    ultimately show "atom rd (parse_expr rd n) ((''{'' @ join '', '' ts @ ''}'') @ r) = Some (SetLit es', r)"
      by (simp add: atom_symbols braced_def)
  qed simp
qed simp


lemma pair_parts: "t \<in> set ts \<Longrightarrow> length ts = length us \<Longrightarrow> length t \<le> length (join '', '' (map2 pair_text ts us))"
proof -
  assume a: "t \<in> set ts" "length ts = length us"
  then obtain i where i: "i < length ts" "ts ! i = t" by (auto simp: in_set_conv_nth)
  then have "pair_text t (us ! i) \<in> set (map2 pair_text ts us)" using a(2) by (force simp: in_set_conv_nth)
  from join_part [OF this, of "'', ''"] show ?thesis by (simp add: pair_text_def)
qed

lemma pair_parts2: "u \<in> set us \<Longrightarrow> length ts = length us \<Longrightarrow> length u \<le> length (join '', '' (map2 pair_text ts us))"
proof -
  assume a: "u \<in> set us" "length ts = length us"
  then obtain i where i: "i < length us" "us ! i = u" by (auto simp: in_set_conv_nth)
  then have "pair_text (ts ! i) u \<in> set (map2 pair_text ts us)" using a(2) by (force simp: in_set_conv_nth)
  from join_part [OF this, of "'', ''"] show ?thesis by (simp add: pair_text_def)
qed

lemma deep_dict:
  assumes "all_deep rd ks' ts" "all_deep rd vs' us" "length ks' = length vs'" "list_all2 (\<lambda>e t. Expr_PyString pr e = Some t) ks ts"
    "\<forall>e \<in> set ks. readable pr rd e"
  shows "deep rd (DictLit ks' vs') (''{'' @ join '', '' (map2 pair_text ts us) @ ''}'')"
proof (rule deepI)
  let ?j = "join '', '' (map2 pair_text ts us)"
  have len: "length ks' = length ts" "length vs' = length us" "length ks = length ts"
    using assms(1,2,4) by (auto simp: all_deep_def list_all2_lengthD)
  fix n assume n: "length (''{'' @ ?j @ ''}'') \<le> Suc n"
  show "goes_on rd n (DictLit ks' vs') (''{'' @ ?j @ ''}'')"
  proof (cases "ks' = []")
    case True
    with assms(3) len show ?thesis by (intro goes_on_atom) (simp_all add: atom_symbols braced_def)
  next
    case False
    have reads_ks: "list_all2 (reads (parse_expr rd n)) ks' ts"
      using pair_parts [of _ ts us] len assms(3) n by (intro deep_list_reads [OF assms(1)]) fastforce
    have reads_vs: "list_all2 (reads (parse_expr rd n)) vs' us"
      using pair_parts2 [of _ us ts] len assms(3) n by (intro deep_list_reads [OF assms(2)]) fastforce
    obtain k k' kt kt' t ts' u us' where h: "ks = k # kt" "ks' = k' # kt'" "ts = t # ts'" "us = u # us'"
      using False len assms(3) by (cases ks; cases ks'; cases ts; cases us) auto
    have kt: "Expr_PyString pr k = Some t" "readable pr rd k" using assms(4,5) h by auto
    show ?thesis
    proof (rule goes_on_atom)
      fix r
      let ?s = "?j @ CHR ''}'' # r"
      obtain q where q: "?s = t @ '': '' @ q" using h by (cases ts'; cases us') (auto simp: pair_text_def)
      have "next_ok ('': '' @ q)" by (simp add: next_ok_def starts_def)
      from readable_leading(1) [OF kt(2,1)] readable_leading(2) [OF kt(2,1) this] q have "\<not> prefix ''}'' ?s" unfolding prefix_hd by auto
      moreover have "parse_expr rd n ?s = Some (k', '': '' @ q)" using reads_ks h q by (auto simp: reads_def stops_def)
      moreover have "length ks' \<le> length ?s"
        using join_length [of "map2 pair_text ts us" "'', ''"] len assms(3) by (force simp: pair_text_def)
      from pairs_reads [OF reads_ks reads_vs assms(3) False this] have "pairs (parse_expr rd n) (length ?s) ?s = Some ((ks', vs'), r)" .
      ultimately show "atom rd (parse_expr rd n) ((''{'' @ ?j @ ''}'') @ r) = Some (DictLit ks' vs', r)"
        by (simp add: atom_symbols braced_def)
    qed simp
  qed
qed simp

lemma fits_symbol [simp]: "fits e (CHR ''('' # r)" "fits e (CHR ''['' # r)"
  by (simp_all add: fits_def starts_def)

lemma deep_op:
  assumes "deep rd f t" "u \<noteq> []" "\<And>r. fits f (u @ r)"
    "\<And>n K r. length u \<le> n \<Longrightarrow> fits e r \<Longrightarrow> postfix_ops (parse_expr rd n) (Suc K) f (u @ r) = postfix_ops (parse_expr rd n) K e r"
  shows "deep rd e (t @ u)"
proof (rule deepI)
  show "t @ u \<noteq> []" using assms(2) by simp
  fix n assume n: "length (t @ u) \<le> Suc n"
  have "t \<noteq> []" using assms(1) by (simp add: deep_def)
  then have "length u \<le> n" using n by (cases t) auto
  then show "goes_on rd n e (t @ u)" using n assms by (intro goes_on_op [of rd n f]) (auto simp: deep_def)
qed

lemma deep_attribute:
  assumes "deep rd e t" "\<not> numeric e" "ident a"
  shows "deep rd (Attribute e a) (t @ ''.'' @ a)"
proof (rule deep_op [OF assms(1)])
  show "fits e ((''.'' @ a) @ r)" for r using assms(2) by (simp add: fits_def starts_def)
  show "postfix_ops (parse_expr rd n) (Suc K) e ((''.'' @ a) @ r) = postfix_ops (parse_expr rd n) K (Attribute e a) r"
    if "fits (Attribute e a) r" for n K r
    using takeWhile_starts [of ident_char a r] that assms(3) by (simp add: fits_def ident_def)
qed simp

lemma until_deep: "whole rd e t \<Longrightarrow> length t \<le> n \<Longrightarrow> stops (c @ r) \<Longrightarrow> until (parse_expr rd n) c (t @ c @ r) = Some (e, r)"
  using until_reads whole_reads by blast

lemma deep_subscript:
  assumes "deep rd e t" "\<And>n r. length u \<le> n \<Longrightarrow> subscript (parse_expr rd n) e (u @ r) = Some (e', r)"
  shows "deep rd e' (t @ ''['' @ u)"
proof (rule deep_op [OF assms(1)])
  show "postfix_ops (parse_expr rd n) (Suc K) e ((''['' @ u) @ r) = postfix_ops (parse_expr rd n) K e' r"
    if "length (''['' @ u) \<le> n" for n K r
    using assms(2) [of n r] that by simp
qed simp_all

lemma not_colon:
  assumes "readable pr rd i" "Expr_PyString pr i = Some t" "stops r"
  shows "\<not> prefix '':]'' (t @ r)" "\<not> prefix '':'' (t @ r)"
proof -
  have "hd (t @ r) \<noteq> CHR '':''" "t @ r \<noteq> []" using readable_leading [OF assms(1,2)] stops_next [OF assms(3)] by auto
  then show "\<not> prefix '':]'' (t @ r)" "\<not> prefix '':'' (t @ r)" by (cases "t @ r"; auto)+
qed

lemma deep_index:
  assumes "deep rd e t" "whole rd i' u" "readable pr rd i" "Expr_PyString pr i = Some u"
  shows "deep rd (IndexExpr e i') (t @ ''['' @ u @ '']'')"
proof (rule deep_subscript [OF assms(1)])
  fix n r assume "length (u @ '']'') \<le> n"
  then have "parse_expr rd n (u @ CHR '']'' # r) = Some (i', CHR '']'' # r)"
    using whole_reads [OF assms(2), of n] by (simp add: reads_def)
  then show "subscript (parse_expr rd n) e ((u @ '']'') @ r) = Some (IndexExpr e i', r)"
    using not_colon [OF assms(3,4), of "CHR '']'' # r"] by (simp add: subscript_def)
qed

definition opt_deep :: "Printer \<Rightarrow> (bytes \<Rightarrow> 64 word) \<Rightarrow> Expr option \<Rightarrow> bytes \<Rightarrow> bool" where
  "opt_deep pr rd x t \<longleftrightarrow>
    (case x of None \<Rightarrow> t = [] | Some e \<Rightarrow> Expr_PyString pr e = Some t \<and> readable pr rd e \<and> whole rd (as_read pr e) t)"

lemma deep_slice:
  assumes "deep rd e t" "opt_deep pr rd a u" "opt_deep pr rd b v"
  shows "deep rd (SliceExpr e (map_option (as_read pr) a) (map_option (as_read pr) b)) (t @ ''['' @ u @ '':'' @ v @ '']'')"
proof (rule deep_subscript [OF assms(1)])
  fix n r assume n: "length (u @ '':'' @ v @ '']'') \<le> n"
  have until_end: "until (parse_expr rd n) '']'' (v @ CHR '']'' # r) = Some (as_read pr y, r)" if "b = Some y" for y
    using until_deep [of rd "as_read pr y" v n "'']''" r] that assms(3) n by (simp add: opt_deep_def)
  have no_end: "\<not> prefix '']'' (v @ CHR '']'' # r)" if "b = Some y" for y
  proof -
    have "hd (v @ CHR '']'' # r) \<noteq> CHR '']''" using readable_leading(2) [of pr rd y v "CHR '']'' # r"] that assms(3)
      by (simp add: opt_deep_def stops_next)
    then show ?thesis unfolding prefix_hd by blast
  qed
  show "subscript (parse_expr rd n) e ((u @ '':'' @ v @ '']'') @ r)
      = Some (SliceExpr e (map_option (as_read pr) a) (map_option (as_read pr) b), r)"
  proof (cases a)
    case None
    then have "u = []" using assms(2) by (simp add: opt_deep_def)
    with None assms(3) until_end no_end show ?thesis
      by (cases b) (auto simp: opt_deep_def subscript_def)
  next
    case (Some x)
    then have x: "readable pr rd x" "Expr_PyString pr x = Some u" "whole rd (as_read pr x) u"
      using assms(2) by (auto simp: opt_deep_def)
    let ?q = "CHR '':'' # v @ CHR '']'' # r"
    have "parse_expr rd n (u @ ?q) = Some (as_read pr x, ?q)" using whole_reads [OF x(3), of n] n by (simp add: reads_def)
    with Some not_colon [OF x(1,2), of ?q] assms(3) until_end no_end show ?thesis
      by (cases b) (auto simp: opt_deep_def subscript_def)
  qed
qed


subsection \<open>Calls\<close>

definition kw_deep :: "(bytes \<Rightarrow> 64 word) \<Rightarrow> bytes \<times> Expr \<Rightarrow> bytes \<Rightarrow> bool" where
  "kw_deep rd kv u \<longleftrightarrow> ident (fst kv) \<and> (\<exists>t. u = fst kv @ CHR ''='' # t \<and> whole rd (snd kv) t)"

lemma kw_deep_reads: "kw_deep rd kv u \<Longrightarrow> length u \<le> n \<Longrightarrow> kw_reads (parse_expr rd n) kv u"
  by (auto simp: kw_deep_def kw_reads_def intro!: whole_reads)

lemma call_start:
  assumes "list_all2 (\<lambda>e t. Expr_PyString pr e = Some t) as ts" "\<forall>e \<in> set as. readable pr rd e"
    "list_all2 (kw_deep rd) ks us" "as \<noteq> [] \<or> ks \<noteq> []"
  shows "\<not> prefix '')'' (join '', '' (ts @ us) @ CHR '')'' # r)"
proof (cases "as = []")
  case False
  have "\<exists>q. join '', '' (ts @ us) @ CHR '')'' # r = join '', '' ts @ q \<and> stops q"
  proof (cases us)
    case (Cons u us')
    moreover have "ts \<noteq> []" using assms(1) False by auto
    moreover have "join '', '' (ts @ us) = join '', '' ts @ '', '' @ join '', '' us" if "ts \<noteq> []" "us \<noteq> []"
      using that by (induction "'', ''::bytes" ts rule: join.induct) (auto simp: join_Cons)
    ultimately show ?thesis by auto
  qed auto
  then obtain q where "join '', '' (ts @ us) @ CHR '')'' # r = join '', '' ts @ q" "stops q" by blast
  with first_leads [OF assms(1) False assms(2), of q] show ?thesis unfolding prefix_hd by auto
next
  case True
  then obtain k ks' u us' where ks: "ks = k # ks'" "us = u # us'" "kw_deep rd k u"
    using assms(3,4) by (cases ks; cases us) auto
  then obtain c n t where "u = c # n @ t" "letter c" using ident_letter [of "fst k"] by (auto simp: kw_deep_def)
  moreover have "ts = []" using assms(1) True by simp
  ultimately show ?thesis using ks by (cases us') auto
qed

lemma arg_reads_list:
  assumes "all_deep rd as' ts" "list_all2 (\<lambda>e t. Expr_PyString pr e = Some t) as ts" "\<forall>e \<in> set as. readable pr rd e"
    "\<forall>t \<in> set ts. length t \<le> n"
  shows "list_all2 (arg_reads (parse_expr rd n)) as' ts"
  unfolding list_all2_conv_all_nth
proof (intro conjI allI impI)
  show len: "length as' = length ts" using assms(1) by (simp add: all_deep_def list_all2_lengthD)
  have len': "length as = length ts" using assms(2) by (simp add: list_all2_lengthD)
  fix i assume i: "i < length as'"
  have d: "whole rd (as' ! i) (ts ! i)" using list_all2_nthD [OF assms(1) [unfolded all_deep_def] i] .
  have p: "Expr_PyString pr (as ! i) = Some (ts ! i)" and r: "readable pr rd (as ! i)"
    using i len len' assms(3) list_all2_nthD [OF assms(2), of i] by auto
  have "length (ts ! i) \<le> n" using assms(4) i len by simp
  then show "arg_reads (parse_expr rd n) (as' ! i) (ts ! i)"
    using whole_reads [OF d] readable_leads [OF r p stops_next] by (auto simp: arg_reads_def)
qed

lemma deep_call:
  assumes "deep rd f t" "all_deep rd as' ts" "list_all2 (\<lambda>e t. Expr_PyString pr e = Some t) as ts" "\<forall>e \<in> set as. readable pr rd e"
    "list_all2 (kw_deep rd) ks us"
  shows "deep rd (Call f as' ks) (t @ ''('' @ join '', '' (ts @ us) @ '')'')"
proof (rule deep_op [OF assms(1)])
  let ?u = "''('' @ join '', '' (ts @ us) @ '')''"
  have len: "length as' = length ts" "length as = length ts"
    using assms(2,3) by (auto simp: all_deep_def list_all2_lengthD)
  show "fits f (?u @ r)" for r by simp
  fix n K r assume n: "length ?u \<le> n"
  show "postfix_ops (parse_expr rd n) (Suc K) f (?u @ r) = postfix_ops (parse_expr rd n) K (Call f as' ks) r"
  proof (cases "as' = [] \<and> ks = []")
    case True
    then have "ts = []" "us = []" using assms(5) len by auto
    with True show ?thesis by simp
  next
    case False
    let ?s = "join '', '' (ts @ us) @ CHR '')'' # r"
    have part: "length x \<le> n" if "x \<in> set (ts @ us)" for x
      using join_part [OF that, of "'', ''"] n by simp
    have as: "list_all2 (arg_reads (parse_expr rd n)) as' ts"
      using part by (intro arg_reads_list [OF assms(2-4)]) auto
    have ks: "list_all2 (kw_reads (parse_expr rd n)) ks us"
      using assms(5) part by (auto simp: list_all2_conv_all_nth intro!: kw_deep_reads)
    have "ts ! i \<noteq> []" if "i < length ts" for i
      using assms(2) that by (auto simp: all_deep_def list_all2_conv_all_nth whole_def)
    then have "\<forall>x \<in> set ts. x \<noteq> []" by (auto simp: in_set_conv_nth)
    with kw_reads_texts [OF ks] have "\<forall>x \<in> set (ts @ us). x \<noteq> []" by auto
    from join_length [OF this, of "'', ''"] len
    have "length as' < length (CHR ''('' # ?s)" by simp
    from arguments_reads [OF as ks _ this] False
    have "arguments (parse_expr rd n) (length (CHR ''('' # ?s)) ?s = Some ((as', ks), r)" by blast
    moreover have "as \<noteq> [] \<or> ks \<noteq> []" using False len by auto
    then have "\<not> prefix ''()'' (CHR ''('' # ?s)" using call_start [OF assms(3,4,5)] by simp
    ultimately show ?thesis by simp
  qed
qed simp


subsection \<open>Every readable expression reads back\<close>

lemma those_append: "those (xs @ ys) = (case those xs of None \<Rightarrow> None | Some a \<Rightarrow> map_option ((@) a) (those ys))"
  by (induction xs) (auto split: option.splits simp: map_option_case)

lemma those_all2: "those (map f xs) = Some ts \<Longrightarrow> list_all2 (\<lambda>x t. f x = Some t) xs ts"
proof (induction xs arbitrary: ts)
  case (Cons x xs)
  then show ?case by (auto split: option.splits)
qed simp

lemma those_pairs:
  assumes "those (map (\<lambda>(k, t). cats [k, Some '': '', t]) (zip (map f ks) (map f vs))) = Some ps" "length ks = length vs"
  shows "\<exists>ts us. those (map f ks) = Some ts \<and> those (map f vs) = Some us \<and> ps = map2 pair_text ts us"
  using assms(2,1)
proof (induction ks vs arbitrary: ps rule: list_induct2)
  case (Cons k ks v vs)
  then show ?case by (fastforce simp: cats_Some pair_text_def split: option.splits)
qed (simp)

lemma kw_texts:
  assumes "list_all2 (\<lambda>x u. (case x of (n, v) \<Rightarrow> cats [Some (n @ ''=''), Expr_PyString pr v]) = Some u) ks us"
    "\<And>n v t. (n, v) \<in> set ks \<Longrightarrow> Expr_PyString pr v = Some t \<Longrightarrow> ident n \<and> whole rd (g v) t"
  shows "list_all2 (kw_deep rd) (map (map_prod id g) ks) us"
  using assms
proof (induction rule: list_all2_induct)
  case (Cons x ks u us)
  obtain n v where x: "x = (n, v)" by force
  with Cons.hyps(1) obtain t where t: "Expr_PyString pr v = Some t" "u = n @ ''='' @ t" by (auto simp: cats_Some)
  with Cons.prems [of n v t] x have "kw_deep rd (map_prod id g x) u" by (auto simp: kw_deep_def)
  moreover have "list_all2 (kw_deep rd) (map (map_prod id g) ks) us" using Cons.prems by (intro Cons.IH) auto
  ultimately show ?case by (simp add: id_def)
qed simp

lemma opt_deepI:
  assumes "(case x of None \<Rightarrow> Some [] | Some e \<Rightarrow> Expr_PyString pr e) = Some t"
    "\<And>e. x = Some e \<Longrightarrow> Expr_PyString pr e = Some t \<Longrightarrow> readable pr rd e \<and> whole rd (as_read pr e) t"
  shows "opt_deep pr rd x t"
  using assms by (auto simp: opt_deep_def split: option.splits)

lemma not_numeric_as_read: "\<not> numeric e \<Longrightarrow> \<not> numeric (as_read pr e)"
  by (cases e) simp_all

lemma readable_deep:
  assumes "readable pr rd e" "Expr_PyString pr e = Some t"
  shows "whole rd (as_read pr e) t \<and> (\<not> numeric e \<longrightarrow> deep rd (as_read pr e) t)"
  using assms
proof (induction e arbitrary: t)
  case (Call f as ks)
  from Call.prems(2) obtain tf j where j: "Expr_PyString pr f = Some tf" "t = tf @ ''('' @ j @ '')''"
    "joins '', '' (map (Expr_PyString pr) as @ map (\<lambda>(n, v). cats [Some (n @ ''=''), Expr_PyString pr v]) ks) = Some j"
    by (auto simp: cats_Some)
  then obtain ts us where tu: "those (map (Expr_PyString pr) as) = Some ts" "j = join '', '' (ts @ us)"
    "those (map (\<lambda>(n, v). cats [Some (n @ ''=''), Expr_PyString pr v]) ks) = Some us"
    by (auto simp: joins_def those_append split: option.splits)
  have "list_all2 (kw_deep rd) (map (map_prod id (as_read pr)) ks) us"
  proof (rule kw_texts [OF those_all2 [OF tu(3)]])
    fix n v u assume "(n, v) \<in> set ks" "Expr_PyString pr v = Some u"
    then show "ident n \<and> whole rd (as_read pr v) u" using Call.IH(3) [of "(n, v)" v u] Call.prems(1) by auto
  qed
  moreover have "all_deep rd (map (as_read pr) as) ts"
    using those_all2 [OF tu(1)] Call.prems(1) Call.IH(2) by (intro all_deepI) auto
  moreover have "deep rd (as_read pr f) tf" using Call.IH(1) [OF _ j(1)] Call.prems(1) by simp
  ultimately have "deep rd (as_read pr (Call f as ks)) t"
    using deep_call [of rd "as_read pr f" tf "map (as_read pr) as" ts pr as] Call.prems(1) those_all2 [OF tu(1)] j(2) tu(2) by simp
  then show ?case using deep_whole by simp
next
  case (BinaryExpr l op r)
  then have "deep rd (as_read pr (BinaryExpr l op r)) t"
    using deep_binary [of op rd "as_read pr l" _ "as_read pr r" _ pr l] by (auto simp: cats_Some)
  then show ?case using deep_whole by simp
next
  case (UnaryExpr op e)
  then obtain u where "Expr_PyString pr e = Some u" "t = (if op = ''not'' then ''(not '' @ u @ '')'' else ''('' @ op @ u @ '')'')"
    by (auto simp: cats_Some split: if_splits)
  with UnaryExpr deep_unary [of op rd "as_read pr e" u pr e] have "deep rd (as_read pr (UnaryExpr op e)) t" by simp
  then show ?case using deep_whole by simp
next
  case (ListLit es)
  from ListLit.prems(2) obtain ts where ts: "those (map (Expr_PyString pr) es) = Some ts" "t = ''['' @ join '', '' ts @ '']''"
    by (auto simp: cats_Some joins_def)
  have "all_deep rd (map (as_read pr) es) ts" using those_all2 [OF ts(1)] ListLit by (intro all_deepI) auto
  with ts(2) deep_list those_all2 [OF ts(1)] ListLit.prems(1) have "deep rd (as_read pr (ListLit es)) t" by auto
  then show ?case using deep_whole by simp
next
  case (SetLit es)
  from SetLit.prems(2) obtain ts where ts: "those (map (Expr_PyString pr) es) = Some ts" "t = ''{'' @ join '', '' ts @ ''}''"
    by (auto simp: cats_Some joins_def)
  have "all_deep rd (map (as_read pr) es) ts" using those_all2 [OF ts(1)] SetLit by (intro all_deepI) auto
  with ts(2) deep_set those_all2 [OF ts(1)] SetLit.prems(1) have "deep rd (as_read pr (SetLit es)) t" by auto
  then show ?case using deep_whole by simp
next
  case (DictLit ks vs)
  from DictLit.prems obtain ps where ps: "t = ''{'' @ join '', '' ps @ ''}''" "length ks = length vs"
    "those (map (\<lambda>(k, t). cats [k, Some '': '', t]) (zip (map (Expr_PyString pr) ks) (map (Expr_PyString pr) vs))) = Some ps"
    by (auto simp: cats_Some joins_def Let_def)
  from those_pairs [OF ps(3,2)] obtain ts us where
    tu: "those (map (Expr_PyString pr) ks) = Some ts" "those (map (Expr_PyString pr) vs) = Some us" "ps = map2 pair_text ts us"
    by blast
  have "all_deep rd (map (as_read pr) ks) ts" using those_all2 [OF tu(1)] DictLit by (intro all_deepI) auto
  moreover have "all_deep rd (map (as_read pr) vs) us" using those_all2 [OF tu(2)] DictLit by (intro all_deepI) auto
  ultimately have "deep rd (as_read pr (DictLit ks vs)) t"
    using deep_dict [of rd "map (as_read pr) ks" ts "map (as_read pr) vs" us pr ks] ps tu(3) those_all2 [OF tu(1)] DictLit.prems(1) by simp
  then show ?case using deep_whole by simp
next
  case (SliceExpr e a b)
  from SliceExpr.prems(2) obtain te ta tb where s: "Expr_PyString pr e = Some te" "t = te @ ''['' @ ta @ '':'' @ tb @ '']''"
    "(case a of None \<Rightarrow> Some [] | Some x \<Rightarrow> Expr_PyString pr x) = Some ta"
    "(case b of None \<Rightarrow> Some [] | Some x \<Rightarrow> Expr_PyString pr x) = Some tb"
    by (auto simp: cats_Some)
  have "opt_deep pr rd a ta" using s(3) SliceExpr.IH(2) SliceExpr.prems(1) by (intro opt_deepI) auto
  moreover have "opt_deep pr rd b tb" using s(4) SliceExpr.IH(3) SliceExpr.prems(1) by (intro opt_deepI) auto
  moreover have "deep rd (as_read pr e) te" using SliceExpr.IH(1) [OF _ s(1)] SliceExpr.prems(1) by simp
  ultimately have "deep rd (as_read pr (SliceExpr e a b)) t" using deep_slice s(2) by simp
  then show ?case using deep_whole by simp
next
  case (IndexExpr e i)
  then have "deep rd (as_read pr (IndexExpr e i)) t"
    using deep_index [of rd "as_read pr e" _ "as_read pr i" _ pr i] by (auto simp: cats_Some)
  then show ?case using deep_whole by simp
next
  case (Name n)
  then have "deep rd (as_read pr (Name n)) t" using deep_name [of n "Name n" rd] by (simp add: plain_name_def read_name_def)
  then show ?case using deep_whole by simp
next
  case (Attribute e a)
  then have "deep rd (as_read pr (Attribute e a)) t"
    using deep_attribute [of rd "as_read pr e" _ a] not_numeric_as_read [of e pr] by (auto simp: cats_Some)
  then show ?case using deep_whole by simp
next
  case (StrLit s)
  with deep_string [of s rd "IsPrintRune pr"] have "deep rd (as_read pr (StrLit s)) t" by simp
  then show ?case using deep_whole by simp
next
  case (IntLit i)
  then show ?case using int_whole by auto
next
  case (FloatLit f)
  then show ?case using float_whole by auto
next
  case (BoolLit b)
  then have "deep rd (as_read pr (BoolLit b)) t"
    using deep_name [of "''True''" "BoolLit True" rd] deep_name [of "''False''" "BoolLit False" rd] by (auto simp: read_name_def)
  then show ?case using deep_whole by simp
qed simp

lemma read_back:
  assumes "readable pr rd e" "Expr_PyString pr e = Some t"
  shows "read_expr rd t = Some (as_read pr e)"
proof -
  have "reads (parse_expr rd (length t)) (as_read pr e) t" using whole_reads readable_deep [OF assms] by blast
  then show ?thesis using stops_def [of "[]"] by (auto simp: read_expr_def reads_def dest: spec [of _ "[]"])
qed

text \<open>
  What the printer writes for an expression reads back as that expression and nothing is left over,
  but for number literals: a negative one is the negation of its magnitude, and a float whose text has
  neither point nor exponent is an integer.  Parentheses, subscripts, calls with keyword arguments and
  string escapes (any valid UTF-8 text, printed or escaped) keep the tree.  Excluded are NaN and the
  infinities, a bare comparison \<open>==\<close> and a call, subscript or attribute of a number.
\<close>

theorem Expr_PyString_read_back:
  assumes "readable pr rd e" "Expr_PyString pr e = Some t"
  shows "read_expr rd t = Some (as_read pr e)"
  by (rule read_back [OF assms])

lemma Expr_PyString_read_back_witness:
  "let pr = \<lparr>FormatFloat = \<lambda>f. if f = 7 then ''0.5'' else ''1'', IsPrintRune = \<lambda>_. False\<rparr>;
       e = Call (Attribute (Name ''m'') ''get'') [StrLit [CHR 0x22, CHR 0xC3, CHR 0xA9], BinaryExpr (IntLit (- 1)) ''+'' (FloatLit 7)]
             [(''key'', ListLit [BoolLit True, FloatLit 8])]
   in \<exists>t. Expr_PyString pr e = Some t
     \<and> read_expr (\<lambda>t. if t = ''1'' then 8 else 7) t
       = Some (Call (Attribute (Name ''m'') ''get'')
           [StrLit [CHR 0x22, CHR 0xC3, CHR 0xA9], BinaryExpr (UnaryExpr ''-'' (IntLit 1)) ''+'' (FloatLit 7)]
           [(''key'', ListLit [BoolLit True, IntLit 1])])"
proof -
  let ?pr = "\<lparr>FormatFloat = \<lambda>f. if f = 7 then ''0.5'' else ''1'', IsPrintRune = \<lambda>_. False\<rparr>"
  let ?rd = "\<lambda>t. if t = ''1'' then 8 else 7 :: 64 word"
  let ?e = "Call (Attribute (Name ''m'') ''get'') [StrLit [CHR 0x22, CHR 0xC3, CHR 0xA9], BinaryExpr (IntLit (- 1)) ''+'' (FloatLit 7)]
             [(''key'', ListLit [BoolLit True, FloatLit 8])]"
  have "\<exists>t. Expr_PyString ?pr ?e = Some t" by (simp add: cats_def joins_def)
  then obtain t where t: "Expr_PyString ?pr ?e = Some t" by blast
  have "ident ''m''" "ident ''get''" "ident ''key''"
    by (simp_all add: ident_def ident_char_def letter_def is_digit_def Let_def byte_def)
  moreover have "utf8 [CHR 0x22, CHR 0xC3, CHR 0xA9]" by (simp add: byte_def decode_rune_def cont_def)
  moreover have bits: "magnitude 7 = 7" "magnitude 8 = 8" "\<not> bit (7 :: 64 word) 63" "\<not> bit (8 :: 64 word) 63" by code_simp+
  moreover then have "float_reads ?pr ?rd 7" "float_reads ?pr ?rd 8"
    by (simp_all add: float_reads_def unsigned_text_def number_char_def ident_char_def letter_def is_digit_def Let_def byte_def)
  ultimately have "readable ?pr ?rd ?e" by (simp add: plain_name_def binary_ops_def del: utf8.simps)
  from Expr_PyString_read_back [OF this t] t bits show ?thesis
    by (simp add: int_as_read_def float_as_read_def unsigned_text_def is_digit_def byte_def digits_val_def del: Expr_PyString.simps)
qed

text \<open>
  A float whose shortest text has no point or exponent is read back as an integer: \<open>nodes.go\<close> prints
  \<open>FloatLit\<close> with \<open>FormatFloat(v, 'g', -1, 64)\<close>, which writes \<open>1.0\<close> as \<open>1\<close>.
\<close>

lemma whole_float_reads_as_int:
  "FormatFloat pr f = ''1'' \<Longrightarrow> Expr_PyString pr (FloatLit f) = Some ''1'' \<and> read_expr rd ''1'' = Some (IntLit 1)"
  by (simp add: read_expr_def atom_def read_number_def number_char_def ident_char_def is_digit_def Let_def byte_def digits_val_def)

end
