(* ===== verification/Aotir.thy ===== *)
theory Aotir
  imports Datalog "HOL-Library.Word"
begin

section \<open>The intermediate representation\<close>

text \<open>
  The nodes of \<open>transpiler3/c/aotir\<close> (\<open>program.go\<close>, \<open>types.go\<close>) that \<open>transpiler3/python/lower\<close>
  reads.  A constructor is a node of the same name and its arguments are the node's fields in order;
  the type columns only the C emitter and the verifier read (element types of receivers, variant tags,
  arena names) are left out.  The nodes the Python lowerer has no case for are the enumerations
  \<open>OtherExpr\<close> and \<open>OtherStmt\<close>: it rejects them by their type, before it looks inside.  Pointers
  that may be nil are options.
\<close>

datatype Type =
    TypeInvalid | TypeUnit | TypeString | TypeInt | TypeFloat | TypeBool | TypeRecord | TypeList | TypeMap
  | TypeSet | TypeOMap | TypeUnion | TypeFun | TypeChan | TypeStream | TypeSub | TypeAgent | TypeValue | TypeFuture

datatype BinOp =
    BinInvalid | BinAddI64 | BinSubI64 | BinMulI64 | BinDivI64 | BinModI64 | BinAddF64 | BinSubF64 | BinMulF64 | BinDivF64
  | BinEqI64 | BinNeI64 | BinLtI64 | BinLeI64 | BinGtI64 | BinGeI64 | BinEqF64 | BinNeF64 | BinLtF64 | BinLeF64
  | BinGtF64 | BinGeF64 | BinEqBool | BinNeBool | BinEqStr | BinNeStr | BinEqRec | BinNeRec | BinEqList | BinNeList
  | BinEqMap | BinNeMap | BinAndBool | BinOrBool | BinStrCat

datatype UnOp = UnInvalid | UnNegI64 | UnNegF64 | UnNotBool

record FunSig =
  ParamTypes :: "Type list"
  SigReturn :: Type

subsection \<open>Expressions\<close>

datatype OtherExpr =
    NilExpr | ListMinExpr | ListMaxExpr | ListContainsExpr | JsonDecodeExpr | ListFoldlExpr | MathCallExpr
  | StrSubstringExpr | StrReverseExpr | StrSplitExpr | StrJoinExpr | StrMethodRef | OMapLiteralExpr | OMapGetExpr
  | OMapSetExpr | OMapHasExpr | OMapLenExpr | ReadFileExpr | LinesExpr | AsyncExpr | AwaitExpr | JavaCallExpr
  | LoadCSVExpr | RawCExpr | SubMakeLimitExpr | AgentMethodRef | AgentSpawnExpr

datatype (plugins only: code size) Expr =
    StringLit bytes
  | IntLit int
  | FloatLit "64 word"
  | BoolLit bool
  | VarRef bytes
  | BinaryExpr BinOp Expr Expr
  | UnaryExpr UnOp Expr
  | CallExpr bytes "Expr list"
  | FunCallExpr Expr "Expr list"
  | StrLenExpr Expr
  | StrIndexExpr Expr Expr
  | StrContainsExpr Expr Expr
  | NumCastExpr Expr
  | ListLit "Expr list"
  | IndexExpr Expr Expr
  | LenExpr Expr
  | StrConvertExpr Expr
  | ListSumExpr Expr Type
  | StrUpperExpr Expr
  | StrLowerExpr Expr
  | ListSortAscExpr Expr
  | AppendExpr Expr Expr
  | ListSliceExpr Expr Expr Expr
  | ListFilterExpr Expr Expr
  | ListMapExpr Expr Expr
  | MapLit "Expr list" "Expr list"
  | MapGetExpr Expr Expr
  | MapHasExpr Expr Expr
  | MapLenExpr Expr
  | MapKeysExpr Expr
  | MapValuesExpr Expr
  | SetLiteralExpr "Expr list"
  | SetAddExpr Expr Expr
  | SetHasExpr Expr Expr
  | SetLenExpr Expr
  | SetToListExpr Expr
  | FunLit bytes "bytes list"
  | RecordLit bytes "(bytes \<times> Expr) list"
  | FieldAccess Expr bytes
  | VariantLit bytes "(bytes \<times> Expr) list"
  | UnionVarRef bytes
  | VariantFieldAccess Expr bytes
  | DatalogQuery DatalogQueryExpr
  | AgentLit bytes "(bytes \<times> Expr) list"
  | AgentIntentCallExpr bytes Expr "Expr list" bool
  | ChanMakeExpr Expr
  | ChanRecvExpr Expr
  | StreamMakeExpr Expr
  | SubMakeExpr Expr
  | SubRecvExpr Expr
  | LLMGenerateExpr bytes Expr Expr
  | HttpGetExpr Expr
  | Other OtherExpr

subsection \<open>Statements\<close>

text \<open>The type columns of a \<open>LetStmt\<close> (and, for the first seven, of a parameter).\<close>

record VarTypes =
  VarType :: Type
  ElemType :: Type
  RecordName :: bytes
  ElemRecordName :: bytes
  UnionName :: bytes
  KeyType :: Type
  ValueType :: Type
  ChanElemType :: Type
  StreamElemType :: Type
  SubElemType :: Type
  AgentName :: bytes

record MatchBinding =
  BindingVar :: bytes
  BindingField :: bytes

datatype OtherStmt =
  NilStmt | ListSetStmt | OMapPutStmt | ClosureEnvStmt | AppendFileStmt | SaveCSVStmt

datatype (plugins only: code size) Stmt =
    CallStmt bytes "Expr list"
  | LetStmt bytes VarTypes "Expr option"
  | AssignStmt bytes Expr
  | MapPutStmt bytes Expr Expr
  | IfStmt Expr "Stmt list" "Stmt list option"
  | WhileStmt Expr "Stmt list"
  | TryCatchStmt "Stmt list" bytes "Stmt list"
  | ForRangeStmt bytes Expr Expr "Stmt list"
  | ForEachStmt bytes Expr "Stmt list"
  | BreakStmt
  | ContinueStmt
  | ReturnStmt "Expr option"
  | MatchStmt Expr "MatchArm list" "MatchArm option"
  | AgentIntentCallStmt bytes Expr "Expr list" bool
  | ChanSendStmt Expr Expr
  | StreamEmitStmt Expr Expr
  | PanicStmt Expr Expr
  | WriteFileStmt Expr Expr
  | QueryScopeStmt "Stmt list"
  | RawCStmt bytes
  | OtherS OtherStmt
and MatchArm = MatchArm bytes "MatchBinding list" "Expr option" "Stmt list"

type_synonym Block = "Stmt list"

subsection \<open>Declarations and programs\<close>

record Param =
  PName :: bytes
  PTypes :: VarTypes
  PSig :: "FunSig option"

record Function =
  FuncName :: bytes
  FuncParams :: "Param list"
  Captures :: "bytes list"
  ReturnTypes :: VarTypes
  ReturnSig :: "FunSig option"
  Body :: Block

record RecordField =
  RFieldName :: bytes
  RFieldType :: Type
  RFieldRecord :: bytes

record RecordDecl =
  RecName :: bytes
  RecFields :: "RecordField list"

record VariantField =
  VFieldName :: bytes
  VFieldType :: Type
  VFieldRecord :: bytes
  VFieldUnion :: bytes

record VariantDecl =
  VariantName :: bytes
  VariantFields :: "VariantField list"

record UnionDecl =
  UnName :: bytes
  Variants :: "VariantDecl list"

record AgentIntentDecl =
  IntentName :: bytes
  IntentParams :: "(bytes \<times> Type) list"
  IntentReturn :: Type
  IntentBody :: Block

record AgentDecl =
  AgName :: bytes
  AgFields :: "RecordField list"
  Intents :: "AgentIntentDecl list"

text \<open>The foreign-function declarations are given by the name the lowerer reports or imports.\<close>

record Program =
  Functions :: "Function list"
  MainIndex :: int
  Records :: "RecordDecl list"
  Unions :: "UnionDecl list"
  Agents :: "AgentDecl list"
  ExternFuncs :: "bytes list"
  GoFuncs :: "bytes list"
  PythonFuncs :: "bytes list"
  JSFuncs :: "bytes list"
  JavaFuncs :: "bytes list"

end
