(* ===== verification/Lower.thy ===== *)
theory Lower
  imports Aotir Py_Reader Go_Path
begin

section \<open>Lowering the IR to Python (transpiler3/python/lower)\<close>

text \<open>
  One definition per lowering function of \<open>lower.go\<close>, \<open>agent.go\<close>, \<open>ffi.go\<close>, \<open>fetch.go\<close>,
  \<open>llm.go\<close>, \<open>panic.go\<close> and \<open>stream.go\<close>.  The lowerer's flags are the threaded state: a lowering
  step takes them and returns an error or a node with the flags it leaves.  On an error the flags are
  lost with the whole module, so a flag may be set after the operands of its node.
\<close>

subsection \<open>The lowerer's state and errors (type lowerer)\<close>

record lowerer =
  needsMath :: bool
  needsFmt :: bool
  needsMapping :: bool
  needsDataclass :: bool
  needsCallable :: bool
  needsQuery :: bool
  needsStrFrom :: bool
  needsSumI64 :: bool
  needsSumF64 :: bool
  needsDeque :: bool
  needsStream :: bool
  needsExcept :: bool
  needsLLM :: bool
  needsFetch :: bool
  moduleName :: bytes
  pythonExterns :: "bytes list"

datatype LowerError =
    GoFFI bytes
  | JavaScriptFFI bytes
  | JavaFFI bytes
  | CExtern bytes
  | CapturingClosure bytes
  | UnsupportedStatement OtherStmt
  | UnsupportedExpression OtherExpr
  | WantsOneArg bytes nat
  | UnsupportedBuiltin bytes
  | UnsupportedBinop BinOp
  | UnsupportedUnop UnOp
  | SpawnedAgent
  | InFunction bytes LowerError
  | InIntent bytes bytes LowerError
  | InQueryScope LowerError

type_synonym 'a lower = "lowerer \<Rightarrow> LowerError + 'a \<times> lowerer"

definition ret :: "'a \<Rightarrow> 'a lower" where
  "ret x l = Inr (x, l)"

definition fail :: "LowerError \<Rightarrow> 'a lower" where
  "fail e l = Inl e"

definition lift1 :: "('a \<Rightarrow> 'b) \<Rightarrow> 'a lower \<Rightarrow> 'b lower" where
  "lift1 f m l = (case m l of Inl e \<Rightarrow> Inl e | Inr (x, l') \<Rightarrow> Inr (f x, l'))"

definition lift2 :: "('a \<Rightarrow> 'b \<Rightarrow> 'c) \<Rightarrow> 'a lower \<Rightarrow> 'b lower \<Rightarrow> 'c lower" where
  "lift2 f m n l = (case m l of Inl e \<Rightarrow> Inl e | Inr (x, l') \<Rightarrow> lift1 (f x) n l')"

definition lift3 :: "('a \<Rightarrow> 'b \<Rightarrow> 'c \<Rightarrow> 'd) \<Rightarrow> 'a lower \<Rightarrow> 'b lower \<Rightarrow> 'c lower \<Rightarrow> 'd lower" where
  "lift3 f m n k = lift2 (\<lambda>(x, y). f x y) (lift2 Pair m n) k"

primrec collect :: "'a lower list \<Rightarrow> 'a list lower" where
  "collect [] = ret []"
| "collect (m # ms) = lift2 (#) m (collect ms)"

definition needing :: "(lowerer \<Rightarrow> lowerer) \<Rightarrow> 'a lower \<Rightarrow> 'a lower" where
  "needing u m l = (case m l of Inl e \<Rightarrow> Inl e | Inr (x, l') \<Rightarrow> Inr (x, u l'))"

definition within :: "(LowerError \<Rightarrow> LowerError) \<Rightarrow> 'a lower \<Rightarrow> 'a lower" where
  "within w m l = (case m l of Inl e \<Rightarrow> Inl (w e) | Inr r \<Rightarrow> Inr r)"

abbreviation on :: "bool \<Rightarrow> bool" where
  "on _ \<equiv> True"

subsection \<open>Types (pyTypeFor and its relatives)\<close>

definition untyped :: TypeRef where
  "untyped = \<lparr>TypeName = []\<rparr>"

definition typed :: "bytes \<Rightarrow> TypeRef" where
  "typed n = \<lparr>TypeName = n\<rparr>"

definition pyTypeFor :: "Type \<Rightarrow> TypeRef" where
  "pyTypeFor t =
    (case t of
       TypeString \<Rightarrow> typed ''str''
     | TypeInt \<Rightarrow> typed ''int''
     | TypeFloat \<Rightarrow> typed ''float''
     | TypeBool \<Rightarrow> typed ''bool''
     | _ \<Rightarrow> untyped)"

text \<open>\<open>generic c n\<close> is \<open>c[n]\<close>, or no annotation when the argument has none.\<close>

definition generic :: "bytes \<Rightarrow> bytes \<Rightarrow> TypeRef" where
  "generic c n = (if n = [] then untyped else typed (c @ ''['' @ n @ '']''))"

definition pyTypeForUnion ::
  "Type \<Rightarrow> Type \<Rightarrow> bytes \<Rightarrow> bytes \<Rightarrow> bytes \<Rightarrow> bytes \<Rightarrow> Type \<Rightarrow> Type \<Rightarrow> TypeRef" where
  "pyTypeForUnion t elem recordName elemRecordName unionName elemUnionName k v =
    (case t of
       TypeRecord \<Rightarrow> if recordName = [] then untyped else typed recordName
     | TypeUnion \<Rightarrow> if unionName = [] then untyped else typed unionName
     | TypeList \<Rightarrow>
         if elem = TypeRecord then generic ''list'' elemRecordName
         else if elem = TypeUnion then generic ''list'' elemUnionName
         else generic ''list'' (TypeName (pyTypeFor elem))
     | TypeMap \<Rightarrow>
         let kr = TypeName (pyTypeFor k); vr = TypeName (pyTypeFor v) in
         if kr = [] \<or> vr = [] then untyped else typed (''dict['' @ kr @ '', '' @ vr @ '']'')
     | TypeSet \<Rightarrow> generic ''set'' (TypeName (pyTypeFor elem))
     | _ \<Rightarrow> pyTypeFor t)"

definition pyTypeForRecord :: "Type \<Rightarrow> Type \<Rightarrow> bytes \<Rightarrow> bytes \<Rightarrow> Type \<Rightarrow> Type \<Rightarrow> TypeRef" where
  "pyTypeForRecord t elem recordName elemRecordName k v = pyTypeForUnion t elem recordName elemRecordName [] [] k v"

definition pyTypeForVar :: "VarTypes \<Rightarrow> TypeRef" where
  "pyTypeForVar s =
    pyTypeForUnion (VarType s) (ElemType s) (RecordName s) (ElemRecordName s) (UnionName s) [] (KeyType s) (ValueType s)"

definition pyTypeForFun :: "FunSig option \<Rightarrow> TypeRef lower" where
  "pyTypeForFun sig =
    (case sig of
       None \<Rightarrow> ret untyped
     | Some s \<Rightarrow>
         let ps = map (\<lambda>t. TypeName (pyTypeFor t)) (ParamTypes s);
             r = (if SigReturn s = TypeUnit then ''None'' else TypeName (pyTypeFor (SigReturn s)))
         in needing (needsCallable_update on)
              (ret (if [] \<in> set ps \<or> r = [] then untyped
                    else typed (''Callable[['' @ join '', '' ps @ ''], '' @ r @ '']''))))"

subsection \<open>Expressions\<close>

definition cut_prefix :: "bytes \<Rightarrow> bytes \<Rightarrow> bytes option" where
  "cut_prefix p s = (if prefix p s then Some (drop (length p) s) else None)"

definition stripPythonExternPrefix :: "bytes \<Rightarrow> bytes option" where
  "stripPythonExternPrefix name = cut_prefix ''mochi_py_'' name"

definition self_field :: "bytes \<Rightarrow> bytes option" where
  "self_field name = cut_prefix ''__self->'' name"

definition callee :: "bytes \<Rightarrow> bytes" where
  "callee f = (case stripPythonExternPrefix f of Some bare \<Rightarrow> bare | None \<Rightarrow> f)"

abbreviation call :: "bytes \<Rightarrow> Py_Source.Expr list \<Rightarrow> Py_Source.Expr" where
  "call f as \<equiv> Call (Name f) as []"

abbreviation method_call :: "bytes \<Rightarrow> Py_Source.Expr \<Rightarrow> Py_Source.Expr list \<Rightarrow> Py_Source.Expr" where
  "method_call m r as \<equiv> Call (Attribute r m) as []"

definition binOpToPython :: "(BinOp \<times> bytes) list" where
  "binOpToPython =
    [(BinAddI64, ''+''), (BinAddF64, ''+''), (BinStrCat, ''+''), (BinSubI64, ''-''), (BinSubF64, ''-''),
     (BinMulI64, ''*''), (BinMulF64, ''*''), (BinDivI64, ''//''), (BinModI64, ''%''),
     (BinEqI64, ''==''), (BinEqF64, ''==''), (BinEqBool, ''==''), (BinEqStr, ''==''), (BinEqRec, ''==''),
     (BinNeI64, ''!=''), (BinNeF64, ''!=''), (BinNeBool, ''!=''), (BinNeStr, ''!=''), (BinNeRec, ''!=''),
     (BinLtI64, ''<''), (BinLtF64, ''<''), (BinLeI64, ''<=''), (BinLeF64, ''<=''),
     (BinGtI64, ''>''), (BinGtF64, ''>''), (BinGeI64, ''>=''), (BinGeF64, ''>=''),
     (BinAndBool, ''and''), (BinOrBool, ''or'')]"

text \<open>
  The operands are lowered first; an operator without a Python counterpart is reported afterwards, so
  an error in an operand comes before it.
\<close>

definition lowerBinaryExpr :: "BinOp \<Rightarrow> Py_Source.Expr lower \<Rightarrow> Py_Source.Expr lower \<Rightarrow> Py_Source.Expr lower" where
  "lowerBinaryExpr op x y =
    (if op = BinDivF64 then needing (needsMath_update on) (lift2 (\<lambda>a b. call ''fdiv'' [a, b]) x y)
     else
       (case map_of binOpToPython op of
          Some t \<Rightarrow> lift2 (\<lambda>a b. Py_Source.BinaryExpr a t b) x y
        | None \<Rightarrow> lift3 (\<lambda>a b c. c) x y (fail (UnsupportedBinop op))))"

definition lowerUnaryExpr :: "UnOp \<Rightarrow> Py_Source.Expr lower \<Rightarrow> Py_Source.Expr lower" where
  "lowerUnaryExpr op x =
    (case op of
       UnNegI64 \<Rightarrow> lift1 (Py_Source.UnaryExpr ''-'') x
     | UnNegF64 \<Rightarrow> lift1 (Py_Source.UnaryExpr ''-'') x
     | UnNotBool \<Rightarrow> lift1 (Py_Source.UnaryExpr ''not'') x
     | UnInvalid \<Rightarrow> lift2 (\<lambda>a b. b) x (fail (UnsupportedUnop op)))"

definition lowerFields :: "(bytes \<times> Py_Source.Expr lower) list \<Rightarrow> (bytes \<times> Py_Source.Expr) list lower" where
  "lowerFields fs = collect (map (\<lambda>(n, m). lift1 (Pair n) m) fs)"

definition lowerRecordLit :: "bytes \<Rightarrow> (bytes \<times> Py_Source.Expr lower) list \<Rightarrow> Py_Source.Expr lower" where
  "lowerRecordLit c fs = lift1 (Call (Name c) []) (lowerFields fs)"

definition lowerDatalogQueryExpr :: "DatalogQueryExpr \<Rightarrow> Py_Source.Expr" where
  "lowerDatalogQueryExpr q =
    (case QueryProg q of
       None \<Rightarrow> Py_Source.ListLit []
     | Some p \<Rightarrow> Py_Source.ListLit (map StrLit (the (datalogEval q p))))"

definition lowerAgentIntentCall ::
  "bytes \<Rightarrow> Py_Source.Expr lower \<Rightarrow> Py_Source.Expr list lower \<Rightarrow> bool \<Rightarrow> Py_Source.Expr lower" where
  "lowerAgentIntentCall m r as spawned = (if spawned then fail SpawnedAgent else lift2 (method_call m) r as)"

primrec lowerExpr :: "Aotir.Expr \<Rightarrow> Py_Source.Expr lower" where
  "lowerExpr (StringLit s) = ret (StrLit s)"
| "lowerExpr (Aotir.IntLit i) = ret (Py_Source.IntLit i)"
| "lowerExpr (Aotir.FloatLit f) = ret (Py_Source.FloatLit f)"
| "lowerExpr (Aotir.BoolLit b) = ret (Py_Source.BoolLit b)"
| "lowerExpr (VarRef n) = ret (case self_field n of Some f \<Rightarrow> Attribute (Name ''self'') f | None \<Rightarrow> Name n)"
| "lowerExpr (Aotir.BinaryExpr op x y) = lowerBinaryExpr op (lowerExpr x) (lowerExpr y)"
| "lowerExpr (Aotir.UnaryExpr op x) = lowerUnaryExpr op (lowerExpr x)"
| "lowerExpr (CallExpr f as) = lift1 (call (callee f)) (collect (map lowerExpr as))"
| "lowerExpr (FunCallExpr f as) = lift2 (\<lambda>g xs. Call g xs []) (lowerExpr f) (collect (map lowerExpr as))"
| "lowerExpr (StrLenExpr r) = lift1 (\<lambda>x. call ''len'' [x]) (lowerExpr r)"
| "lowerExpr (StrIndexExpr r i) = lift2 Py_Source.IndexExpr (lowerExpr r) (lowerExpr i)"
| "lowerExpr (StrContainsExpr r s) = lift2 (\<lambda>x y. Py_Source.BinaryExpr y ''in'' x) (lowerExpr r) (lowerExpr s)"
| "lowerExpr (NumCastExpr e) = lift1 (\<lambda>x. call ''int'' [x]) (lowerExpr e)"
| "lowerExpr (Aotir.ListLit es) = lift1 Py_Source.ListLit (collect (map lowerExpr es))"
| "lowerExpr (Aotir.IndexExpr r i) = lift2 Py_Source.IndexExpr (lowerExpr r) (lowerExpr i)"
| "lowerExpr (LenExpr r) = lift1 (\<lambda>x. call ''len'' [x]) (lowerExpr r)"
| "lowerExpr (StrConvertExpr e) = needing (needsStrFrom_update on) (lift1 (\<lambda>x. call ''str_from'' [x]) (lowerExpr e))"
| "lowerExpr (ListSumExpr r t) =
    (if t = TypeFloat then needing (needsSumF64_update on) (lift1 (\<lambda>x. call ''sum_f64'' [x]) (lowerExpr r))
     else needing (needsSumI64_update on) (lift1 (\<lambda>x. call ''sum_i64'' [x]) (lowerExpr r)))"
| "lowerExpr (StrUpperExpr r) = lift1 (\<lambda>x. method_call ''upper'' x []) (lowerExpr r)"
| "lowerExpr (StrLowerExpr r) = lift1 (\<lambda>x. method_call ''lower'' x []) (lowerExpr r)"
| "lowerExpr (ListSortAscExpr r) = needing (needsQuery_update on) (lift1 (\<lambda>x. call ''sort_asc'' [x]) (lowerExpr r))"
| "lowerExpr (AppendExpr r v) = lift2 (\<lambda>x y. Py_Source.BinaryExpr x ''+'' (Py_Source.ListLit [y])) (lowerExpr r) (lowerExpr v)"
| "lowerExpr (ListSliceExpr r s t) =
    lift3 (\<lambda>x a b. SliceExpr x (Some a) (Some b)) (lowerExpr r) (lowerExpr s) (lowerExpr t)"
| "lowerExpr (ListFilterExpr xs f) =
    lift2 (\<lambda>x g. call ''list'' [call ''filter'' [g, x]]) (lowerExpr xs) (lowerExpr f)"
| "lowerExpr (ListMapExpr xs f) = lift2 (\<lambda>x g. call ''list'' [call ''map'' [g, x]]) (lowerExpr xs) (lowerExpr f)"
| "lowerExpr (MapLit ks vs) = lift2 DictLit (collect (map lowerExpr ks)) (collect (map lowerExpr vs))"
| "lowerExpr (MapGetExpr r k) = lift2 Py_Source.IndexExpr (lowerExpr r) (lowerExpr k)"
| "lowerExpr (MapHasExpr r k) = lift2 (\<lambda>x y. Py_Source.BinaryExpr y ''in'' x) (lowerExpr r) (lowerExpr k)"
| "lowerExpr (MapLenExpr r) = lift1 (\<lambda>x. call ''len'' [x]) (lowerExpr r)"
| "lowerExpr (MapKeysExpr r) = needing (needsMapping_update on) (lift1 (\<lambda>x. call ''keys_sorted'' [x]) (lowerExpr r))"
| "lowerExpr (MapValuesExpr r) = needing (needsMapping_update on) (lift1 (\<lambda>x. call ''values_sorted'' [x]) (lowerExpr r))"
| "lowerExpr (SetLiteralExpr es) =
    lift1 (\<lambda>xs. if xs = [] then call ''set'' [] else SetLit xs) (collect (map lowerExpr es))"
| "lowerExpr (SetAddExpr r e) = lift2 (\<lambda>x y. Py_Source.BinaryExpr x ''|'' (SetLit [y])) (lowerExpr r) (lowerExpr e)"
| "lowerExpr (SetHasExpr r e) = lift2 (\<lambda>x y. Py_Source.BinaryExpr y ''in'' x) (lowerExpr r) (lowerExpr e)"
| "lowerExpr (SetLenExpr r) = lift1 (\<lambda>x. call ''len'' [x]) (lowerExpr r)"
| "lowerExpr (SetToListExpr r) = lift1 (\<lambda>x. call ''sorted'' [x]) (lowerExpr r)"
| "lowerExpr (FunLit f cs) = (if cs \<noteq> [] then fail (CapturingClosure f) else ret (Name f))"
| "lowerExpr (RecordLit c fs) = lowerRecordLit c (map (map_prod id lowerExpr) fs)"
| "lowerExpr (FieldAccess r f) = lift1 (\<lambda>x. Attribute x f) (lowerExpr r)"
| "lowerExpr (VariantLit c fs) = lowerRecordLit c (map (map_prod id lowerExpr) fs)"
| "lowerExpr (UnionVarRef n) = ret (Name n)"
| "lowerExpr (VariantFieldAccess r f) = lift1 (\<lambda>x. Attribute x f) (lowerExpr r)"
| "lowerExpr (DatalogQuery q) = ret (lowerDatalogQueryExpr q)"
| "lowerExpr (AgentLit c fs) = lowerRecordLit c (map (map_prod id lowerExpr) fs)"
| "lowerExpr (AgentIntentCallExpr m r as spawned) =
    lowerAgentIntentCall m (lowerExpr r) (collect (map lowerExpr as)) spawned"
| "lowerExpr (ChanMakeExpr c) =
    needing (needsDeque_update on) (lift1 (\<lambda>x. Call (Name ''deque'') [] [(''maxlen'', x)]) (lowerExpr c))"
| "lowerExpr (ChanRecvExpr c) = lift1 (\<lambda>x. method_call ''popleft'' x []) (lowerExpr c)"
| "lowerExpr (StreamMakeExpr c) = needing (needsStream_update on) (lift1 (\<lambda>x. call ''mochi_make_stream'' [x]) (lowerExpr c))"
| "lowerExpr (SubMakeExpr s) = needing (needsStream_update on) (lift1 (\<lambda>x. call ''mochi_subscribe'' [x]) (lowerExpr s))"
| "lowerExpr (SubRecvExpr s) = needing (needsStream_update on) (lift1 (\<lambda>x. call ''mochi_recv_sub'' [x]) (lowerExpr s))"
| "lowerExpr (LLMGenerateExpr p m q) =
    needing (needsLLM_update on)
      (lift2 (\<lambda>x y. call ''mochi_llm_generate'' [StrLit p, x, y]) (lowerExpr m) (lowerExpr q))"
| "lowerExpr (HttpGetExpr u) = needing (needsFetch_update on) (lift1 (\<lambda>x. call ''mochi_fetch'' [x]) (lowerExpr u))"
| "lowerExpr (Other t) = fail (UnsupportedExpression t)"


subsection \<open>Statements\<close>

definition lowerExprs :: "Aotir.Expr list \<Rightarrow> Py_Source.Expr list lower" where
  "lowerExprs es = collect (map lowerExpr es)"

definition lowerOpt :: "Aotir.Expr option \<Rightarrow> Py_Source.Expr option lower" where
  "lowerOpt x = (case x of None \<Rightarrow> ret None | Some e \<Rightarrow> lift1 Some (lowerExpr e))"

definition print_line :: "Py_Source.Expr \<Rightarrow> Py_Source.Stmt" where
  "print_line x = ExprStmt (method_call ''line'' (Name ''Print'') [x])"

definition lowerCallStmt :: "bytes \<Rightarrow> Aotir.Expr list \<Rightarrow> Py_Source.Stmt lower" where
  "lowerCallStmt f as =
    (if f \<in> {''mochi_print_str'', ''mochi_print_i64'', ''mochi_print_bool'', ''mochi_print_f64''} then
       (case as of
          [a] \<Rightarrow>
            if f = ''mochi_print_f64'' then needing (needsFmt_update on) (lift1 print_line (lowerExpr a))
            else lift1 print_line (lowerExpr a)
        | _ \<Rightarrow> fail (WantsOneArg f (length as)))
     else
       (case stripPythonExternPrefix f of
          Some bare \<Rightarrow> lift1 (\<lambda>xs. ExprStmt (call bare xs)) (lowerExprs as)
        | None \<Rightarrow>
            if prefix ''mochi_'' f then fail (UnsupportedBuiltin f)
            else lift1 (\<lambda>xs. ExprStmt (call f xs)) (lowerExprs as)))"

text \<open>The annotation of a \<open>let\<close>: a queue, stream or subscription also needs its import.\<close>

definition let_type :: "VarTypes \<Rightarrow> TypeRef lower" where
  "let_type s =
    (if VarType s = TypeAgent \<and> AgentName s \<noteq> [] then ret (typed (AgentName s))
     else if VarType s = TypeChan \<and> TypeName (pyTypeFor (ChanElemType s)) \<noteq> [] then
       needing (needsDeque_update on) (ret (generic ''deque'' (TypeName (pyTypeFor (ChanElemType s)))))
     else if VarType s = TypeStream \<and> TypeName (pyTypeFor (StreamElemType s)) \<noteq> [] then
       needing (needsStream_update on) (ret (generic ''MochiStream'' (TypeName (pyTypeFor (StreamElemType s)))))
     else if VarType s = TypeSub \<and> TypeName (pyTypeFor (SubElemType s)) \<noteq> [] then
       needing (needsStream_update on) (ret (generic ''MochiSub'' (TypeName (pyTypeFor (SubElemType s)))))
     else ret (pyTypeForVar s))"

definition lowerLetStmt :: "bytes \<Rightarrow> VarTypes \<Rightarrow> Aotir.Expr option \<Rightarrow> Py_Source.Stmt lower" where
  "lowerLetStmt n s init =
    (case init of
       None \<Rightarrow> lift1 (AnnotateStmt n) (let_type s)
     | Some e \<Rightarrow> lift2 (Py_Source.AssignStmt n) (let_type s) (lowerExpr e))"

definition lowerAssignStmt :: "bytes \<Rightarrow> Aotir.Expr \<Rightarrow> Py_Source.Stmt lower" where
  "lowerAssignStmt n e =
    lift1 (\<lambda>x. case self_field n of Some f \<Rightarrow> AttrAssignStmt (Name ''self'') f x | None \<Rightarrow> ReassignStmt n x) (lowerExpr e)"

text \<open>
  A block: what each statement contributes, in order, and \<open>pass\<close> when that is nothing.  A
  \<open>QueryScopeStmt\<close> contributes the statements of its body and a \<open>RawCStmt\<close> none.
\<close>

definition block :: "Py_Source.Stmt list lower list \<Rightarrow> Py_Source.Stmt list lower" where
  "block ms = lift1 (\<lambda>sss. if concat sss = [] then [PassStmt] else concat sss) (collect ms)"

definition single :: "Py_Source.Stmt lower \<Rightarrow> Py_Source.Stmt list lower" where
  "single m = lift1 (\<lambda>s. [s]) m"

definition bind_code :: "bytes \<Rightarrow> Py_Source.Stmt" where
  "bind_code x = Py_Source.AssignStmt x (typed ''int'') (call ''_panic_code'' [Name ''__mp''])"

definition try_except :: "bytes \<Rightarrow> Py_Source.Stmt list \<Rightarrow> Py_Source.Stmt list \<Rightarrow> Py_Source.Stmt" where
  "try_except x body handler =
    TryExceptStmt body [''MochiPanic'', ''ZeroDivisionError'', ''IndexError''] ''__mp'' (bind_code x # handler)"

definition field_bindings :: "MatchBinding list \<Rightarrow> FieldBinding list" where
  "field_bindings bs = map (\<lambda>b. \<lparr>BoundField = BindingField b, BindName = BindingVar b\<rparr>) bs"

definition wildcard :: "MatchCase \<Rightarrow> MatchCase" where
  "wildcard c = (case c of MatchCase w v bs g body \<Rightarrow> MatchCase True [] [] g body)"

primrec lowerStmt :: "Aotir.Stmt \<Rightarrow> Py_Source.Stmt list lower" and lowerArm :: "MatchArm \<Rightarrow> MatchCase lower" where
  "lowerStmt (CallStmt f as) = single (lowerCallStmt f as)"
| "lowerStmt (LetStmt n s init) = single (lowerLetStmt n s init)"
| "lowerStmt (Aotir.AssignStmt n e) = single (lowerAssignStmt n e)"
| "lowerStmt (MapPutStmt n k v) = single (lift2 (IndexAssignStmt (Name n)) (lowerExpr k) (lowerExpr v))"
| "lowerStmt (Aotir.IfStmt c thn els) =
    single (lift3 Py_Source.IfStmt (lowerExpr c) (block (map lowerStmt thn))
      (case map_option (map lowerStmt) els of None \<Rightarrow> ret [] | Some ms \<Rightarrow> block ms))"
| "lowerStmt (Aotir.WhileStmt c body) = single (lift2 Py_Source.WhileStmt (lowerExpr c) (block (map lowerStmt body)))"
| "lowerStmt (TryCatchStmt body x handler) =
    single (needing (needsExcept_update on) (lift2 (try_except x) (block (map lowerStmt body)) (block (map lowerStmt handler))))"
| "lowerStmt (Aotir.ForRangeStmt x s t body) =
    single (lift3 (Py_Source.ForRangeStmt x) (lowerExpr s) (lowerExpr t) (block (map lowerStmt body)))"
| "lowerStmt (Aotir.ForEachStmt x e body) =
    single (lift2 (Py_Source.ForEachStmt x) (lowerExpr e) (block (map lowerStmt body)))"
| "lowerStmt Aotir.BreakStmt = single (ret Py_Source.BreakStmt)"
| "lowerStmt Aotir.ContinueStmt = single (ret Py_Source.ContinueStmt)"
| "lowerStmt (Aotir.ReturnStmt v) = single (lift1 Py_Source.ReturnStmt (lowerOpt v))"
| "lowerStmt (Aotir.MatchStmt e arms dflt) =
    single (lift3 (\<lambda>t cs d. Py_Source.MatchStmt t (cs @ d)) (lowerExpr e) (collect (map lowerArm arms))
      (case map_option lowerArm dflt of None \<Rightarrow> ret [] | Some m \<Rightarrow> lift1 (\<lambda>c. [wildcard c]) m))"
| "lowerStmt (AgentIntentCallStmt m r as spawned) =
    single (lift1 ExprStmt (lowerAgentIntentCall m (lowerExpr r) (lowerExprs as) spawned))"
| "lowerStmt (ChanSendStmt c v) = single (lift2 (\<lambda>x y. ExprStmt (method_call ''append'' x [y])) (lowerExpr c) (lowerExpr v))"
| "lowerStmt (StreamEmitStmt s v) =
    single (needing (needsStream_update on)
      (lift2 (\<lambda>x y. ExprStmt (call ''mochi_emit'' [x, y])) (lowerExpr s) (lowerExpr v)))"
| "lowerStmt (PanicStmt c m) =
    single (needing (needsExcept_update on)
      (lift2 (\<lambda>x y. RaiseStmt (Some (call ''MochiPanic'' [x, y]))) (lowerExpr c) (lowerExpr m)))"
| "lowerStmt (WriteFileStmt p c) =
    single (needing (needsFetch_update on)
      (lift2 (\<lambda>x y. ExprStmt (call ''mochi_write_file'' [x, y])) (lowerExpr p) (lowerExpr c)))"
| "lowerStmt (QueryScopeStmt body) = within InQueryScope (block (map lowerStmt body))"
| "lowerStmt (RawCStmt c) = ret []"
| "lowerStmt (OtherS t) = fail (UnsupportedStatement t)"
| "lowerArm (MatchArm v bs g body) =
    lift2 (\<lambda>b g. MatchCase False v (field_bindings bs) g b) (block (map lowerStmt body)) (lowerOpt g)"

definition lowerBlock :: "Block \<Rightarrow> Py_Source.Stmt list lower" where
  "lowerBlock b = block (map lowerStmt b)"

subsection \<open>Declarations\<close>

definition frozen :: "bytes list" where
  "frozen = [''dataclass(frozen=True, slots=True)'']"

definition record_field :: "RecordField \<Rightarrow> ClassField" where
  "record_field f =
    \<lparr>FieldName = RFieldName f,
     FieldType = pyTypeForRecord (RFieldType f) TypeInvalid (RFieldRecord f) [] TypeInvalid TypeInvalid\<rparr>"

definition variant_field :: "VariantField \<Rightarrow> ClassField" where
  "variant_field f =
    \<lparr>FieldName = VFieldName f,
     FieldType = pyTypeForUnion (VFieldType f) TypeInvalid (VFieldRecord f) [] (VFieldUnion f) [] TypeInvalid TypeInvalid\<rparr>"

definition lowerRecordDecl :: "RecordDecl \<Rightarrow> Py_Source.Stmt" where
  "lowerRecordDecl r = ClassDef (RecName r) frozen (map record_field (RecFields r)) None []"

definition lowerUnionDecl :: "UnionDecl \<Rightarrow> Py_Source.Stmt list" where
  "lowerUnionDecl u =
    map (\<lambda>v. ClassDef (VariantName v) frozen (map variant_field (VariantFields v)) None []) (Variants u)
    @ [UnionDef (UnName u) (map VariantName (Variants u))]"

definition param :: "bytes \<Rightarrow> TypeRef \<Rightarrow> Py_Source.Param" where
  "param n t = \<lparr>ParamName = n, ParamType = t, ParamDefault = None\<rparr>"

definition var_annotation :: "VarTypes \<Rightarrow> FunSig option \<Rightarrow> TypeRef lower" where
  "var_annotation s sig = (if VarType s = TypeFun then pyTypeForFun sig else ret (pyTypeForVar s))"

definition return_annotation :: "VarTypes \<Rightarrow> FunSig option \<Rightarrow> TypeRef lower" where
  "return_annotation s sig = (if VarType s = TypeUnit then ret (typed ''None'') else var_annotation s sig)"

definition lowerFunction :: "Function \<Rightarrow> Py_Source.Stmt lower" where
  "lowerFunction f =
    (if Captures f \<noteq> [] then fail (CapturingClosure (FuncName f))
     else
       lift3 (\<lambda>ps body r. FunctionStmt (FunctionDef (FuncName f) ps r body [] False))
         (collect (map (\<lambda>p. lift1 (param (PName p)) (var_annotation (PTypes p) (PSig p))) (FuncParams f)))
         (within (InFunction (FuncName f)) (lowerBlock (Body f)))
         (return_annotation (ReturnTypes f) (ReturnSig f)))"

definition agent_init :: "RecordField list \<Rightarrow> FunctionDef" where
  "agent_init fs =
    FunctionDef ''__init__''
      (param ''self'' untyped # map (\<lambda>f. param (RFieldName f) (FieldType (record_field f))) fs)
      (typed ''None'')
      (if fs = [] then [PassStmt]
       else map (\<lambda>f. AttrAssignStmt (Name ''self'') (RFieldName f) (Name (RFieldName f))) fs)
      [] False"

definition lowerIntent :: "bytes \<Rightarrow> AgentIntentDecl \<Rightarrow> FunctionDef lower" where
  "lowerIntent a i =
    lift1 (\<lambda>body.
        FunctionDef (IntentName i)
          (param ''self'' untyped # map (\<lambda>(n, t). param n (pyTypeFor t)) (IntentParams i))
          (if IntentReturn i = TypeUnit then typed ''None'' else pyTypeFor (IntentReturn i)) body [] False)
      (within (InIntent a (IntentName i)) (lowerBlock (IntentBody i)))"

definition lowerAgentDecl :: "AgentDecl \<Rightarrow> Py_Source.Stmt lower" where
  "lowerAgentDecl a =
    lift1 (ClassDef (AgName a) [] (map record_field (AgFields a)) (Some (agent_init (AgFields a))))
      (collect (map (lowerIntent (AgName a)) (Intents a)))"

subsection \<open>Programs\<close>

definition rejectNonPythonExterns :: "Program \<Rightarrow> LowerError option" where
  "rejectNonPythonExterns p =
    (case GoFuncs p of f # _ \<Rightarrow> Some (GoFFI f)
     | [] \<Rightarrow> case JSFuncs p of f # _ \<Rightarrow> Some (JavaScriptFFI f)
     | [] \<Rightarrow> case JavaFuncs p of f # _ \<Rightarrow> Some (JavaFFI f)
     | [] \<Rightarrow> case ExternFuncs p of f # _ \<Rightarrow> Some (CExtern f)
     | [] \<Rightarrow> None)"

definition registerPythonExterns :: "Program \<Rightarrow> lowerer \<Rightarrow> lowerer" where
  "registerPythonExterns p l = l\<lparr>pythonExterns := remdups (PythonFuncs p)\<rparr>"

definition pythonExternNames :: "lowerer \<Rightarrow> bytes list" where
  "pythonExternNames l = sort_strings (pythonExterns l)"

definition import_from :: "bytes \<Rightarrow> bytes list \<Rightarrow> ImportStmt" where
  "import_from m ns = \<lparr>ImportFrom = m, ImportNames = ns\<rparr>"

definition import_if :: "bool \<Rightarrow> bytes \<Rightarrow> bytes list \<Rightarrow> ImportStmt list" where
  "import_if b m ns = (if b then [import_from m ns] else [])"

definition query_names :: "lowerer \<Rightarrow> bytes list" where
  "query_names l =
    (if needsQuery l then [''sort_asc''] else []) @ (if needsSumI64 l then [''sum_i64''] else [])
    @ (if needsSumF64 l then [''sum_f64''] else [])"

definition module_imports :: "lowerer \<Rightarrow> ImportStmt list" where
  "module_imports l =
    import_from ''mochi_runtime.io'' [''Print'']
    # import_if (needsMath l) ''mochi_runtime.math'' [''fdiv'']
    @ import_if (needsMapping l) ''mochi_runtime.mapping'' [''keys_sorted'', ''values_sorted'']
    @ import_if (needsDataclass l) ''dataclasses'' [''dataclass'']
    @ import_if (needsCallable l) ''collections.abc'' [''Callable'']
    @ import_if (needsQuery l \<or> needsSumI64 l \<or> needsSumF64 l) ''mochi_runtime.query'' (query_names l)
    @ import_if (needsStrFrom l) ''mochi_runtime.fmt'' [''str_from'']
    @ import_if (needsDeque l) ''collections'' [''deque'']
    @ import_if (needsStream l) ''mochi_runtime.stream''
        [''MochiStream'', ''MochiSub'', ''mochi_emit'', ''mochi_make_stream'', ''mochi_recv_sub'', ''mochi_subscribe'']
    @ import_if (needsExcept l) ''mochi_runtime.except_'' [''MochiPanic'', ''_panic_code'']
    @ import_if (needsLLM l) ''mochi_runtime.llm'' [''mochi_llm_generate'']
    @ import_if (needsFetch l) ''mochi_runtime.fetch'' [''mochi_fetch'', ''mochi_write_file'']
    @ import_if (pythonExternNames l \<noteq> []) (''mochi_user_'' @ moduleName l @ ''_externs'') (pythonExternNames l)"

definition lowerer_init :: "bytes \<Rightarrow> lowerer" where
  "lowerer_init m =
    \<lparr>needsMath = False, needsFmt = False, needsMapping = False, needsDataclass = False, needsCallable = False,
     needsQuery = False, needsStrFrom = False, needsSumI64 = False, needsSumF64 = False, needsDeque = False,
     needsStream = False, needsExcept = False, needsLLM = False, needsFetch = False, moduleName = m, pythonExterns = []\<rparr>"

text \<open>The declarations of the module, without its main function.\<close>

definition data_decls :: "Program \<Rightarrow> Py_Source.Stmt list lower" where
  "data_decls p =
    needing (if Records p = [] \<and> Unions p = [] then id else needsDataclass_update on)
      (ret (map lowerRecordDecl (Records p) @ concat (map lowerUnionDecl (Unions p))))"

definition other_functions :: "Program \<Rightarrow> Function list" where
  "other_functions p = map snd (filter (\<lambda>(i, f). int i \<noteq> MainIndex p) (List.enumerate 0 (Functions p)))"

definition lowerDefs :: "Program \<Rightarrow> Py_Source.Stmt list lower" where
  "lowerDefs p =
    lift3 (\<lambda>ds as fs. ds @ as @ fs) (data_decls p) (collect (map lowerAgentDecl (Agents p)))
      (collect (map lowerFunction (other_functions p)))"

definition main_guard :: Py_Source.Stmt where
  "main_guard = Py_Source.IfStmt (BinaryEq (Name ''__name__'') (StrLit ''__main__'')) [ExprStmt (call ''main'' [])] []"

definition module_stmts :: "Py_Source.Stmt list \<Rightarrow> Py_Source.Stmt list \<Rightarrow> Py_Source.Stmt list" where
  "module_stmts body defs = defs @ [FunctionStmt (FunctionDef ''main'' [] (typed ''None'') body [] False), main_guard]"

definition lowerProgram :: "Program \<Rightarrow> Function \<Rightarrow> Py_Source.Stmt list lower" where
  "lowerProgram p mainFn = lift2 module_stmts (lowerBlock (Body mainFn)) (lowerDefs p)"

text \<open>The main function, when its index is in range.\<close>

definition main_function :: "Program \<Rightarrow> Function option" where
  "main_function p =
    (if 0 \<le> MainIndex p \<and> MainIndex p < int (length (Functions p)) then Some (Functions p ! nat (MainIndex p)) else None)"

text \<open>\<open>None\<close> is a panic: the index of the main function is read without a check.\<close>

definition Lower :: "Program \<Rightarrow> bytes \<Rightarrow> (LowerError + Module) option" where
  "Lower p m =
    (case rejectNonPythonExterns p of
       Some e \<Rightarrow> Some (Inl e)
     | None \<Rightarrow>
         (case main_function p of
            None \<Rightarrow> None
          | Some mainFn \<Rightarrow>
              Some (case lowerProgram p mainFn (registerPythonExterns p (lowerer_init m)) of
                 Inl e \<Rightarrow> Inl e
               | Inr (ss, l) \<Rightarrow> Inr \<lparr>FutureAnnotations = True, Imports = module_imports l, Stmts = ss\<rparr>)))"

lemma Lower_result:
  assumes "Lower p m = Some (Inr md)"
  shows "\<exists>f ss l. f \<in> set (Functions p) \<and> lowerProgram p f (registerPythonExterns p (lowerer_init m)) = Inr (ss, l)
    \<and> md = \<lparr>FutureAnnotations = True, Imports = module_imports l, Stmts = ss\<rparr>"
  using assms unfolding Lower_def main_function_def
  by (auto split: option.splits sum.splits if_splits intro!: exI nth_mem)

definition ModuleName :: "bytes \<Rightarrow> bytes" where
  "ModuleName src =
    (let s = replace_byte (CHR ''-'') (CHR ''_'') (trim_suffix (path_base src) ''.mochi'')
     in if s = [] then ''main'' else s)"

definition PackageName :: "bytes \<Rightarrow> bytes" where
  "PackageName src = ''mochi_user_'' @ ModuleName src"

text \<open>\<open>emit.Source\<close>.\<close>

definition Source :: "Printer \<Rightarrow> Module \<Rightarrow> bytes option" where
  "Source pr m = PySource pr m"

end
