(* ===== verification/Lower_Sound.thy ===== *)
theory Lower_Sound
  imports Lower
begin

section \<open>What the lowerer accepts and what its modules refer to\<close>

text \<open>
  Three judgements about a lowering step, each with a rule per combinator: whether it succeeds does
  not depend on the flags (\<open>succeeds\<close>), what it may refer to (\<open>refers\<close>: names of the program or
  names the flags it leaves will import) and what holds of its result (\<open>gives\<close>).
\<close>

subsection \<open>The expressions and statements of a program\<close>

primrec subexprs :: "Aotir.Expr \<Rightarrow> Aotir.Expr list" where
  "subexprs (StringLit s) = [StringLit s]"
| "subexprs (Aotir.IntLit i) = [Aotir.IntLit i]"
| "subexprs (Aotir.FloatLit f) = [Aotir.FloatLit f]"
| "subexprs (Aotir.BoolLit b) = [Aotir.BoolLit b]"
| "subexprs (VarRef n) = [VarRef n]"
| "subexprs (Aotir.BinaryExpr op x y) = Aotir.BinaryExpr op x y # subexprs x @ subexprs y"
| "subexprs (Aotir.UnaryExpr op x) = Aotir.UnaryExpr op x # subexprs x"
| "subexprs (CallExpr f as) = CallExpr f as # concat (map subexprs as)"
| "subexprs (FunCallExpr f as) = FunCallExpr f as # subexprs f @ concat (map subexprs as)"
| "subexprs (StrLenExpr r) = StrLenExpr r # subexprs r"
| "subexprs (StrIndexExpr r i) = StrIndexExpr r i # subexprs r @ subexprs i"
| "subexprs (StrContainsExpr r s) = StrContainsExpr r s # subexprs r @ subexprs s"
| "subexprs (NumCastExpr e) = NumCastExpr e # subexprs e"
| "subexprs (Aotir.ListLit es) = Aotir.ListLit es # concat (map subexprs es)"
| "subexprs (Aotir.IndexExpr r i) = Aotir.IndexExpr r i # subexprs r @ subexprs i"
| "subexprs (LenExpr r) = LenExpr r # subexprs r"
| "subexprs (StrConvertExpr e) = StrConvertExpr e # subexprs e"
| "subexprs (ListSumExpr r t) = ListSumExpr r t # subexprs r"
| "subexprs (StrUpperExpr r) = StrUpperExpr r # subexprs r"
| "subexprs (StrLowerExpr r) = StrLowerExpr r # subexprs r"
| "subexprs (ListSortAscExpr r) = ListSortAscExpr r # subexprs r"
| "subexprs (AppendExpr r v) = AppendExpr r v # subexprs r @ subexprs v"
| "subexprs (ListSliceExpr r s t) = ListSliceExpr r s t # subexprs r @ subexprs s @ subexprs t"
| "subexprs (ListFilterExpr xs f) = ListFilterExpr xs f # subexprs xs @ subexprs f"
| "subexprs (ListMapExpr xs f) = ListMapExpr xs f # subexprs xs @ subexprs f"
| "subexprs (MapLit ks vs) = MapLit ks vs # concat (map subexprs ks) @ concat (map subexprs vs)"
| "subexprs (MapGetExpr r k) = MapGetExpr r k # subexprs r @ subexprs k"
| "subexprs (MapHasExpr r k) = MapHasExpr r k # subexprs r @ subexprs k"
| "subexprs (MapLenExpr r) = MapLenExpr r # subexprs r"
| "subexprs (MapKeysExpr r) = MapKeysExpr r # subexprs r"
| "subexprs (MapValuesExpr r) = MapValuesExpr r # subexprs r"
| "subexprs (SetLiteralExpr es) = SetLiteralExpr es # concat (map subexprs es)"
| "subexprs (SetAddExpr r e) = SetAddExpr r e # subexprs r @ subexprs e"
| "subexprs (SetHasExpr r e) = SetHasExpr r e # subexprs r @ subexprs e"
| "subexprs (SetLenExpr r) = SetLenExpr r # subexprs r"
| "subexprs (SetToListExpr r) = SetToListExpr r # subexprs r"
| "subexprs (FunLit f cs) = [FunLit f cs]"
| "subexprs (RecordLit c fs) = RecordLit c fs # concat (map snd (map (map_prod id subexprs) fs))"
| "subexprs (FieldAccess r f) = FieldAccess r f # subexprs r"
| "subexprs (VariantLit c fs) = VariantLit c fs # concat (map snd (map (map_prod id subexprs) fs))"
| "subexprs (UnionVarRef n) = [UnionVarRef n]"
| "subexprs (VariantFieldAccess r f) = VariantFieldAccess r f # subexprs r"
| "subexprs (DatalogQuery q) = [DatalogQuery q]"
| "subexprs (AgentLit c fs) = AgentLit c fs # concat (map snd (map (map_prod id subexprs) fs))"
| "subexprs (AgentIntentCallExpr m r as b) = AgentIntentCallExpr m r as b # subexprs r @ concat (map subexprs as)"
| "subexprs (ChanMakeExpr c) = ChanMakeExpr c # subexprs c"
| "subexprs (ChanRecvExpr c) = ChanRecvExpr c # subexprs c"
| "subexprs (StreamMakeExpr c) = StreamMakeExpr c # subexprs c"
| "subexprs (SubMakeExpr s) = SubMakeExpr s # subexprs s"
| "subexprs (SubRecvExpr s) = SubRecvExpr s # subexprs s"
| "subexprs (LLMGenerateExpr p m q) = LLMGenerateExpr p m q # subexprs m @ subexprs q"
| "subexprs (HttpGetExpr u) = HttpGetExpr u # subexprs u"
| "subexprs (Other t) = [Other t]"

primrec substmts :: "Aotir.Stmt \<Rightarrow> Aotir.Stmt list" and arm_stmts :: "MatchArm \<Rightarrow> Aotir.Stmt list" where
  "substmts (CallStmt f as) = [CallStmt f as]"
| "substmts (LetStmt n s init) = [LetStmt n s init]"
| "substmts (Aotir.AssignStmt n e) = [Aotir.AssignStmt n e]"
| "substmts (MapPutStmt n k v) = [MapPutStmt n k v]"
| "substmts (Aotir.IfStmt c thn els) =
    Aotir.IfStmt c thn els # concat (map substmts thn) @ (case map_option (map substmts) els of None \<Rightarrow> [] | Some ss \<Rightarrow> concat ss)"
| "substmts (Aotir.WhileStmt c body) = Aotir.WhileStmt c body # concat (map substmts body)"
| "substmts (TryCatchStmt body x handler) =
    TryCatchStmt body x handler # concat (map substmts body) @ concat (map substmts handler)"
| "substmts (Aotir.ForRangeStmt x s t body) = Aotir.ForRangeStmt x s t body # concat (map substmts body)"
| "substmts (Aotir.ForEachStmt x e body) = Aotir.ForEachStmt x e body # concat (map substmts body)"
| "substmts Aotir.BreakStmt = [Aotir.BreakStmt]"
| "substmts Aotir.ContinueStmt = [Aotir.ContinueStmt]"
| "substmts (Aotir.ReturnStmt v) = [Aotir.ReturnStmt v]"
| "substmts (Aotir.MatchStmt e arms d) =
    Aotir.MatchStmt e arms d # concat (map arm_stmts arms) @ (case map_option arm_stmts d of None \<Rightarrow> [] | Some ss \<Rightarrow> ss)"
| "substmts (AgentIntentCallStmt m r as b) = [AgentIntentCallStmt m r as b]"
| "substmts (ChanSendStmt c v) = [ChanSendStmt c v]"
| "substmts (StreamEmitStmt s v) = [StreamEmitStmt s v]"
| "substmts (PanicStmt c m) = [PanicStmt c m]"
| "substmts (WriteFileStmt p c) = [WriteFileStmt p c]"
| "substmts (QueryScopeStmt body) = QueryScopeStmt body # concat (map substmts body)"
| "substmts (RawCStmt c) = [RawCStmt c]"
| "substmts (OtherS t) = [OtherS t]"
| "arm_stmts (MatchArm v bs g body) = concat (map substmts body)"

subsection \<open>Judgements\<close>

definition succeeds :: "'a lower \<Rightarrow> bool" where
  "succeeds m \<longleftrightarrow> (\<forall>l. isOK (m l))"

definition uniform :: "'a lower \<Rightarrow> bool" where
  "uniform m \<longleftrightarrow> (\<forall>l k. isOK (m l) = isOK (m k))"

lemma isOK_steps:
  "isOK (ret x l)" "\<not> isOK (fail e l)" "isOK (lift1 f m l) = isOK (m l)"
  "isOK (needing u k l) = isOK (k l)" "isOK (within w k l) = isOK (k l)"
  "isOK (lift2 g p n l) \<longleftrightarrow> isOK (p l) \<and> (\<forall>x l'. p l = Inr (x, l') \<longrightarrow> isOK (n l'))"
  by (auto simp: isOK_def ret_def fail_def lift1_def lift2_def needing_def within_def split: sum.splits)

lemma uniform_const [simp]: "uniform (ret x)" "uniform (fail e)"
  by (simp_all add: uniform_def isOK_steps)

lemma uniform_step [simp]: "uniform (lift1 f m) = uniform m" "uniform (needing u k) = uniform k" "uniform (within w k) = uniform k"
  by (simp_all add: uniform_def isOK_steps)

lemma succeeds_step [simp]:
  "succeeds (ret x)" "\<not> succeeds (fail e)" "succeeds (lift1 f m) = succeeds m" "succeeds (needing u k) = succeeds k"
  "succeeds (within w k) = succeeds k"
  by (simp_all add: succeeds_def isOK_steps)

lemma isOK_pair: "isOK (m l) \<longleftrightarrow> (\<exists>x l'. m l = Inr (x, l'))" for m :: "'a lower"
  by (simp add: isOK_iff)

lemma isOK_lift2: "uniform n \<Longrightarrow> isOK (lift2 f m n l) \<longleftrightarrow> isOK (m l) \<and> isOK (n k)"
  unfolding isOK_steps uniform_def isOK_pair [of m] by metis

lemma uniform_lift2 [simp]: "uniform m \<Longrightarrow> uniform n \<Longrightarrow> uniform (lift2 f m n)"
  using isOK_lift2 [of n f m] unfolding uniform_def by metis

lemma succeeds_lift2 [simp]: "uniform n \<Longrightarrow> succeeds (lift2 f m n) \<longleftrightarrow> succeeds m \<and> succeeds n"
  using isOK_lift2 [of n f m] unfolding succeeds_def by metis

lemma uniform_lift3 [simp]: "uniform m \<Longrightarrow> uniform n \<Longrightarrow> uniform k \<Longrightarrow> uniform (lift3 f m n k)"
  by (simp add: lift3_def)

lemma succeeds_lift3 [simp]: "uniform n \<Longrightarrow> uniform k \<Longrightarrow> succeeds (lift3 f m n k) \<longleftrightarrow> succeeds m \<and> succeeds n \<and> succeeds k"
  by (simp add: lift3_def)

lemma uniform_collect [simp]: "\<forall>m \<in> set ms. uniform m \<Longrightarrow> uniform (collect ms)"
  by (induction ms) simp_all

lemma succeeds_collect [simp]: "\<forall>m \<in> set ms. uniform m \<Longrightarrow> succeeds (collect ms) \<longleftrightarrow> (\<forall>m \<in> set ms. succeeds m)"
  by (induction ms) simp_all

subsection \<open>What is accepted\<close>

text \<open>Every operator of the IR but the invalid one and the comparisons of lists and of maps.\<close>

definition rejected_ops :: "BinOp set" where
  "rejected_ops = {BinInvalid, BinEqList, BinNeList, BinEqMap, BinNeMap}"

definition node_supported :: "Aotir.Expr \<Rightarrow> bool" where
  "node_supported e =
    (case e of
       Other t \<Rightarrow> False
     | FunLit f cs \<Rightarrow> cs = []
     | Aotir.BinaryExpr op x y \<Rightarrow> op \<notin> rejected_ops
     | Aotir.UnaryExpr op x \<Rightarrow> op \<noteq> UnInvalid
     | AgentIntentCallExpr m r as spawned \<Rightarrow> \<not> spawned
     | _ \<Rightarrow> True)"

definition supported_expr :: "Aotir.Expr \<Rightarrow> bool" where
  "supported_expr e \<longleftrightarrow> (\<forall>x \<in> set (subexprs e). node_supported x)"

lemma binary_uniform [simp]: "uniform x \<Longrightarrow> uniform y \<Longrightarrow> uniform (lowerBinaryExpr op x y)"
  by (simp add: lowerBinaryExpr_def split: option.split)

lemma binary_succeeds [simp]:
  "uniform x \<Longrightarrow> uniform y
    \<Longrightarrow> succeeds (lowerBinaryExpr op x y) \<longleftrightarrow> op \<notin> rejected_ops \<and> succeeds x \<and> succeeds y"
  by (cases op) (simp_all add: lowerBinaryExpr_def binOpToPython_def rejected_ops_def)

lemma unary_uniform [simp]: "uniform x \<Longrightarrow> uniform (lowerUnaryExpr op x)"
  by (simp add: lowerUnaryExpr_def split: UnOp.split)

lemma unary_succeeds [simp]: "uniform x \<Longrightarrow> succeeds (lowerUnaryExpr op x) \<longleftrightarrow> op \<noteq> UnInvalid \<and> succeeds x"
  by (cases op) (simp_all add: lowerUnaryExpr_def)

lemma record_uniform [simp]: "\<forall>(n, m) \<in> set fs. uniform m \<Longrightarrow> uniform (lowerRecordLit c fs)"
  unfolding lowerRecordLit_def lowerFields_def by (fastforce intro!: uniform_collect)

lemma record_succeeds [simp]:
  "\<forall>(n, m) \<in> set fs. uniform m \<Longrightarrow> succeeds (lowerRecordLit c fs) \<longleftrightarrow> (\<forall>(n, m) \<in> set fs. succeeds m)"
proof -
  assume "\<forall>(n, m) \<in> set fs. uniform m"
  then have "\<forall>x \<in> set (map (\<lambda>(n, m). lift1 (Pair n) m) fs). uniform x" by auto
  from succeeds_collect [OF this] show ?thesis unfolding lowerRecordLit_def lowerFields_def by auto
qed

lemma intent_uniform [simp]: "uniform x \<Longrightarrow> uniform y \<Longrightarrow> uniform (lowerAgentIntentCall m x y s)"
  by (simp add: lowerAgentIntentCall_def)

lemma intent_succeeds [simp]:
  "uniform x \<Longrightarrow> uniform y \<Longrightarrow> succeeds (lowerAgentIntentCall m x y s) \<longleftrightarrow> \<not> s \<and> succeeds x \<and> succeeds y"
  by (simp add: lowerAgentIntentCall_def)

lemma lowerExpr_uniform [simp]: "uniform (lowerExpr e)"
proof (induction e)
  case (RecordLit c fs)
  then show ?case by (force intro: record_uniform)
next
  case (VariantLit c fs)
  then show ?case by (force intro: record_uniform)
next
  case (AgentLit c fs)
  then show ?case by (force intro: record_uniform)
qed simp_all

lemma record_lit_succeeds:
  assumes "\<And>x v. x \<in> set fs \<Longrightarrow> v \<in> Basic_BNFs.snds x \<Longrightarrow> succeeds (lowerExpr v) = supported_expr v"
  shows "succeeds (lowerRecordLit c (map (map_prod id lowerExpr) fs)) \<longleftrightarrow> (\<forall>x \<in> set fs. supported_expr (snd x))"
proof -
  have "\<forall>(n, m) \<in> set (map (map_prod id lowerExpr) fs). uniform m" by auto
  from record_succeeds [OF this] show ?thesis using assms by (fastforce simp: case_prod_beta)
qed

lemma lowerExpr_succeeds [simp]: "succeeds (lowerExpr e) = supported_expr e"
proof (induction e)
  case (RecordLit c fs)
  then show ?case by (simp add: record_lit_succeeds) (auto simp: supported_expr_def node_supported_def)
next
  case (VariantLit c fs)
  then show ?case by (simp add: record_lit_succeeds) (auto simp: supported_expr_def node_supported_def)
next
  case (AgentLit c fs)
  then show ?case by (simp add: record_lit_succeeds) (auto simp: supported_expr_def node_supported_def)
qed (simp_all add: supported_expr_def node_supported_def ball_Un)


primrec arm_guard :: "MatchArm \<Rightarrow> Aotir.Expr list" where
  "arm_guard (MatchArm v bs g body) = (case g of None \<Rightarrow> [] | Some e \<Rightarrow> [e])"

definition own_exprs :: "Aotir.Stmt \<Rightarrow> Aotir.Expr list" where
  "own_exprs s =
    (case s of
       CallStmt f as \<Rightarrow> as
     | LetStmt n t init \<Rightarrow> (case init of None \<Rightarrow> [] | Some e \<Rightarrow> [e])
     | Aotir.AssignStmt n e \<Rightarrow> [e]
     | MapPutStmt n k v \<Rightarrow> [k, v]
     | Aotir.IfStmt c thn els \<Rightarrow> [c]
     | Aotir.WhileStmt c body \<Rightarrow> [c]
     | Aotir.ForRangeStmt x a b body \<Rightarrow> [a, b]
     | Aotir.ForEachStmt x e body \<Rightarrow> [e]
     | Aotir.ReturnStmt v \<Rightarrow> (case v of None \<Rightarrow> [] | Some e \<Rightarrow> [e])
     | Aotir.MatchStmt e arms d \<Rightarrow> e # concat (map arm_guard arms) @ (case d of None \<Rightarrow> [] | Some a \<Rightarrow> arm_guard a)
     | AgentIntentCallStmt m r as b \<Rightarrow> r # as
     | ChanSendStmt c v \<Rightarrow> [c, v]
     | StreamEmitStmt x v \<Rightarrow> [x, v]
     | PanicStmt c m \<Rightarrow> [c, m]
     | WriteFileStmt p c \<Rightarrow> [p, c]
     | _ \<Rightarrow> [])"

definition print_builtins :: "bytes list" where
  "print_builtins = [''mochi_print_str'', ''mochi_print_i64'', ''mochi_print_bool'', ''mochi_print_f64'']"

definition stmt_node_supported :: "Aotir.Stmt \<Rightarrow> bool" where
  "stmt_node_supported s =
    (case s of
       CallStmt f as \<Rightarrow>
         if f \<in> set print_builtins then length as = 1
         else prefix ''mochi_py_'' f \<or> \<not> prefix ''mochi_'' f
     | AgentIntentCallStmt m r as spawned \<Rightarrow> \<not> spawned
     | OtherS t \<Rightarrow> False
     | _ \<Rightarrow> True)"

definition here_supported :: "Aotir.Stmt \<Rightarrow> bool" where
  "here_supported s \<longleftrightarrow> stmt_node_supported s \<and> (\<forall>e \<in> set (own_exprs s). supported_expr e)"

definition supported_stmt :: "Aotir.Stmt \<Rightarrow> bool" where
  "supported_stmt s \<longleftrightarrow> (\<forall>x \<in> set (substmts s). here_supported x)"

definition supported_arm :: "MatchArm \<Rightarrow> bool" where
  "supported_arm a \<longleftrightarrow> (\<forall>e \<in> set (arm_guard a). supported_expr e) \<and> (\<forall>x \<in> set (arm_stmts a). here_supported x)"

lemma lowerExprs_simps [simp]:
  "uniform (lowerExprs es)" "succeeds (lowerExprs es) \<longleftrightarrow> (\<forall>e \<in> set es. supported_expr e)"
  by (simp_all add: lowerExprs_def)

lemma lowerOpt_simps [simp]:
  "uniform (lowerOpt x)" "succeeds (lowerOpt x) \<longleftrightarrow> (\<forall>e \<in> set_option x. supported_expr e)"
  by (cases x; simp add: lowerOpt_def)+

lemma block_simps [simp]:
  "\<forall>m \<in> set ms. uniform m \<Longrightarrow> uniform (block ms)"
  "\<forall>m \<in> set ms. uniform m \<Longrightarrow> succeeds (block ms) \<longleftrightarrow> (\<forall>m \<in> set ms. succeeds m)"
  by (simp_all add: block_def)

lemma single_simps [simp]: "uniform (single m) = uniform m" "succeeds (single m) = succeeds m"
  by (simp_all add: single_def)

lemma let_type_simps [simp]: "uniform (let_type s)" "succeeds (let_type s)"
  by (simp_all add: let_type_def)

lemma lowerLetStmt_simps [simp]:
  "uniform (lowerLetStmt n s init)" "succeeds (lowerLetStmt n s init) \<longleftrightarrow> (\<forall>e \<in> set_option init. supported_expr e)"
  by (cases init; simp add: lowerLetStmt_def)+

lemma lowerAssignStmt_simps [simp]: "uniform (lowerAssignStmt n e)" "succeeds (lowerAssignStmt n e) = supported_expr e"
  by (simp_all add: lowerAssignStmt_def)

lemma lowerCallStmt_uniform [simp]: "uniform (lowerCallStmt f as)"
  by (auto simp: lowerCallStmt_def split: list.split option.split)

lemma lowerCallStmt_succeeds [simp]:
  "succeeds (lowerCallStmt f as) \<longleftrightarrow> stmt_node_supported (CallStmt f as) \<and> (\<forall>e \<in> set as. supported_expr e)"
proof (cases "f \<in> set print_builtins")
  case True
  then show ?thesis
    by (cases as; cases "tl as") (auto simp: lowerCallStmt_def stmt_node_supported_def print_builtins_def)
next
  case False
  then have "\<not> f \<in> {''mochi_print_str'', ''mochi_print_i64'', ''mochi_print_bool'', ''mochi_print_f64''}"
    by (simp add: print_builtins_def)
  with False show ?thesis
    unfolding lowerCallStmt_def stmt_node_supported_def
    by (simp add: stripPythonExternPrefix_def cut_prefix_def split: option.split)
qed

lemma lowerStmt_uniform [simp]: "uniform (lowerStmt s)" "uniform (lowerArm a)"
proof (induction s and a)
  case (IfStmt c thn els)
  then show ?case by (cases els) simp_all
next
  case (MatchStmt e arms d)
  then show ?case by (cases d) simp_all
qed simp_all

lemma lowerStmt_succeeds [simp]: "succeeds (lowerStmt s) = supported_stmt s" "succeeds (lowerArm a) = supported_arm a"
proof (induction s and a)
  case (IfStmt c thn els)
  then show ?case
    by (cases els) (auto simp: supported_stmt_def here_supported_def stmt_node_supported_def own_exprs_def)
next
  case (MatchStmt e arms d)
  then show ?case
    by (cases d)
      (auto simp: supported_stmt_def supported_arm_def here_supported_def stmt_node_supported_def own_exprs_def)
next
  case (CallStmt f as)
  then show ?case by (auto simp: supported_stmt_def here_supported_def own_exprs_def)
next
  case (MatchArm v bs g body)
  then show ?case by (cases g) (auto simp: supported_arm_def supported_stmt_def)
qed (auto simp: supported_stmt_def here_supported_def stmt_node_supported_def own_exprs_def split: option.splits)

subsection \<open>Accepted programs\<close>

definition supported_block :: "Block \<Rightarrow> bool" where
  "supported_block b \<longleftrightarrow> (\<forall>s \<in> set b. supported_stmt s)"

definition no_foreign :: "Program \<Rightarrow> bool" where
  "no_foreign p \<longleftrightarrow> GoFuncs p = [] \<and> JSFuncs p = [] \<and> JavaFuncs p = [] \<and> ExternFuncs p = []"

definition main_in_range :: "Program \<Rightarrow> bool" where
  "main_in_range p \<longleftrightarrow> 0 \<le> MainIndex p \<and> MainIndex p < int (length (Functions p))"

definition supported_program :: "Program \<Rightarrow> bool" where
  "supported_program p \<longleftrightarrow>
    no_foreign p \<and> main_in_range p
    \<and> (\<forall>f \<in> set (Functions p). supported_block (Body f))
    \<and> (\<forall>i < length (Functions p). int i \<noteq> MainIndex p \<longrightarrow> Captures (Functions p ! i) = [])
    \<and> (\<forall>a \<in> set (Agents p). \<forall>i \<in> set (Intents a). supported_block (IntentBody i))"

lemma lowerBlock_simps [simp]: "uniform (lowerBlock b)" "succeeds (lowerBlock b) = supported_block b"
  by (simp_all add: lowerBlock_def supported_block_def)

lemma annotation_simps [simp]:
  "uniform (var_annotation s g)" "succeeds (var_annotation s g)" "uniform (return_annotation s g)" "succeeds (return_annotation s g)"
  by (simp_all add: var_annotation_def return_annotation_def pyTypeForFun_def Let_def split: option.split)

lemma lowerFunction_simps [simp]:
  "uniform (lowerFunction f)" "succeeds (lowerFunction f) \<longleftrightarrow> Captures f = [] \<and> supported_block (Body f)"
  by (simp_all add: lowerFunction_def)

lemma lowerAgentDecl_simps [simp]:
  "uniform (lowerAgentDecl a)" "succeeds (lowerAgentDecl a) \<longleftrightarrow> (\<forall>i \<in> set (Intents a). supported_block (IntentBody i))"
  by (simp_all add: lowerAgentDecl_def lowerIntent_def)

lemma lowerDefs_simps [simp]:
  "uniform (lowerDefs p)"
  "succeeds (lowerDefs p) \<longleftrightarrow>
    (\<forall>a \<in> set (Agents p). \<forall>i \<in> set (Intents a). supported_block (IntentBody i))
    \<and> (\<forall>f \<in> set (other_functions p). Captures f = [] \<and> supported_block (Body f))"
  by (simp_all add: lowerDefs_def data_decls_def)

lemma other_functions_iff:
  "f \<in> set (other_functions p) \<longleftrightarrow> (\<exists>i < length (Functions p). int i \<noteq> MainIndex p \<and> Functions p ! i = f)"
  unfolding other_functions_def by (force simp: in_set_enumerate_eq image_iff)

lemma functions_split:
  assumes "main_in_range p"
  shows "set (Functions p) = insert (Functions p ! nat (MainIndex p)) (set (other_functions p))"
proof -
  have "nat (MainIndex p) < length (Functions p)" using assms unfolding main_in_range_def by linarith
  moreover have "int i \<noteq> MainIndex p \<or> i = nat (MainIndex p)" for i by auto
  ultimately have "f \<in> set (Functions p) \<longleftrightarrow> f = Functions p ! nat (MainIndex p) \<or> f \<in> set (other_functions p)" for f
    unfolding other_functions_iff in_set_conv_nth [of f "Functions p"] by metis
  then show ?thesis by blast
qed

lemma uniform_isOK: "uniform m \<Longrightarrow> isOK (m l) = succeeds m"
  by (auto simp: uniform_def succeeds_def)

text \<open>
  C5. \<open>Lower\<close> returns a module for exactly the programs it supports: no foreign functions but Python's, a
  main function in range, no capturing closure, no spawned agent, no comparison of lists or maps, and in
  every body only nodes, operators and builtins with a case in the lowerer.  It panics exactly when no
  foreign function is declared and the index of the main function is out of range; for every other
  program it returns an error.
\<close>

theorem Lower_accepts:
  "((\<exists>md. Lower p m = Some (Inr md)) \<longleftrightarrow> supported_program p)
    \<and> (Lower p m = None \<longleftrightarrow> no_foreign p \<and> \<not> main_in_range p)"
proof (cases "rejectNonPythonExterns p")
  case None
  then have ffi: "no_foreign p" by (auto simp: no_foreign_def rejectNonPythonExterns_def split: list.splits)
  show ?thesis
  proof (cases "main_in_range p")
    case True
    let ?f = "Functions p ! nat (MainIndex p)"
    have other_captures: "(\<forall>f \<in> set (other_functions p). Captures f = [])
        \<longleftrightarrow> (\<forall>i < length (Functions p). int i \<noteq> MainIndex p \<longrightarrow> Captures (Functions p ! i) = [])"
      using other_functions_iff [of _ p] by metis
    have "uniform (lowerProgram p ?f)" by (simp add: lowerProgram_def)
    then have "(\<exists>md. Lower p m = Some (Inr md)) = succeeds (lowerProgram p ?f)"
      using None True uniform_isOK [of "lowerProgram p ?f" "registerPythonExterns p (lowerer_init m)"]
      by (auto simp: Lower_def main_function_def main_in_range_def isOK_def split: sum.splits)
    also have "\<dots> \<longleftrightarrow> supported_block (Body ?f) \<and> (\<forall>a \<in> set (Agents p). \<forall>i \<in> set (Intents a). supported_block (IntentBody i))
        \<and> (\<forall>f \<in> set (other_functions p). Captures f = [] \<and> supported_block (Body f))"
      by (simp add: lowerProgram_def)
    also have "\<dots> = supported_program p"
      unfolding supported_program_def functions_split [OF True] using ffi True other_captures by auto
    finally show ?thesis using None True by (simp add: Lower_def main_function_def main_in_range_def)
  next
    case False
    then show ?thesis using None ffi by (auto simp: Lower_def main_function_def main_in_range_def supported_program_def)
  qed
next
  case (Some e)
  then show ?thesis
    by (auto simp: Lower_def no_foreign_def supported_program_def rejectNonPythonExterns_def split: list.splits)
qed

end
