(* ===== verification/Lower_Names.thy ===== *)
theory Lower_Names
  imports Lower_Sound
begin

section \<open>Every name of a lowered module is bound\<close>

text \<open>
  The names a Python module refers to, the names its program writes, and the names its imports bind.
  The judgement \<open>refers S m\<close>: the result of the step \<open>m\<close> refers only to names of \<open>S\<close> and to names
  that the flags it leaves will import.
\<close>

subsection \<open>Names a Python tree refers to\<close>

definition head_name :: "bytes \<Rightarrow> bytes set" where
  "head_name t = (let h = takeWhile (\<lambda>c. c \<notin> set ''[('') t in if h = [] then {} else {h})"

text \<open>The words of an annotation, cut at brackets, commas and blanks: every class, alias and builtin it mentions.\<close>

fun cut_words :: "bytes \<Rightarrow> bytes list" where
  "cut_words [] = [[]]"
| "cut_words (c # s) =
    (if c \<in> set ''[], '' then [] # cut_words s else (c # hd (cut_words s)) # tl (cut_words s))"

definition annotation_names :: "bytes \<Rightarrow> bytes set" where
  "annotation_names t = set (cut_words t) - {[]}"

definition type_names :: "TypeRef \<Rightarrow> bytes set" where
  "type_names t = annotation_names (TypeName t)"

primrec expr_names :: "Py_Source.Expr \<Rightarrow> bytes set" where
  "expr_names (Call f as ks) = expr_names f \<union> \<Union> (set (map expr_names as)) \<union> \<Union> (set (map snd (map (map_prod id expr_names) ks)))"
| "expr_names (BinaryEq l r) = expr_names l \<union> expr_names r"
| "expr_names (Py_Source.BinaryExpr l op r) = expr_names l \<union> expr_names r"
| "expr_names (Py_Source.UnaryExpr op e) = expr_names e"
| "expr_names (Py_Source.ListLit es) = \<Union> (set (map expr_names es))"
| "expr_names (SetLit es) = \<Union> (set (map expr_names es))"
| "expr_names (DictLit ks vs) = \<Union> (set (map expr_names ks)) \<union> \<Union> (set (map expr_names vs))"
| "expr_names (SliceExpr e s t) = expr_names e \<union> \<Union> (set_option (map_option expr_names s)) \<union> \<Union> (set_option (map_option expr_names t))"
| "expr_names (Py_Source.IndexExpr e i) = expr_names e \<union> expr_names i"
| "expr_names (Name n) = {n}"
| "expr_names (Attribute e a) = expr_names e"
| "expr_names (StrLit s) = {}"
| "expr_names (Py_Source.IntLit i) = {}"
| "expr_names (Py_Source.FloatLit f) = {}"
| "expr_names (Py_Source.BoolLit b) = {}"

definition opt_names :: "Py_Source.Expr option \<Rightarrow> bytes set" where
  "opt_names x = (case x of None \<Rightarrow> {} | Some e \<Rightarrow> expr_names e)"

definition fields_names :: "ClassField list \<Rightarrow> bytes set" where
  "fields_names fs = (\<Union>f \<in> set fs. type_names (FieldType f))"

definition params_names :: "Py_Source.Param list \<Rightarrow> bytes set" where
  "params_names ps = (\<Union>p \<in> set ps. type_names (ParamType p) \<union> opt_names (ParamDefault p))"

primrec stmt_names :: "Py_Source.Stmt \<Rightarrow> bytes set"
  and function_names :: "FunctionDef \<Rightarrow> bytes set"
  and case_names :: "MatchCase \<Rightarrow> bytes set"
where
  "stmt_names (FunctionStmt f) = function_names f"
| "stmt_names (ClassDef n ds fs init ms) =
    (\<Union>d \<in> set ds. head_name d) \<union> fields_names fs \<union> \<Union> (set_option (map_option function_names init))
    \<union> \<Union> (set (map function_names ms))"
| "stmt_names (UnionDef n vs) = set vs"
| "stmt_names (Py_Source.MatchStmt e cs) = expr_names e \<union> \<Union> (set (map case_names cs))"
| "stmt_names (AnnotateStmt x t) = type_names t"
| "stmt_names (Py_Source.IfStmt c thn els) = expr_names c \<union> \<Union> (set (map stmt_names thn)) \<union> \<Union> (set (map stmt_names els))"
| "stmt_names (ExprStmt e) = expr_names e"
| "stmt_names (Py_Source.AssignStmt x t e) = type_names t \<union> expr_names e"
| "stmt_names (AttrAssignStmt r a e) = expr_names r \<union> expr_names e"
| "stmt_names (Py_Source.ReturnStmt v) = opt_names v"
| "stmt_names (RaiseStmt v) = opt_names v"
| "stmt_names (TryExceptStmt body ts x handler) =
    \<Union> (set (map stmt_names body)) \<union> set ts \<union> \<Union> (set (map stmt_names handler))"
| "stmt_names PassStmt = {}"
| "stmt_names (IndexAssignStmt r k e) = expr_names r \<union> expr_names k \<union> expr_names e"
| "stmt_names (Py_Source.WhileStmt c body) = expr_names c \<union> \<Union> (set (map stmt_names body))"
| "stmt_names (Py_Source.ForEachStmt x e body) = expr_names e \<union> \<Union> (set (map stmt_names body))"
| "stmt_names (Py_Source.ForRangeStmt x s t body) = expr_names s \<union> expr_names t \<union> \<Union> (set (map stmt_names body))"
| "stmt_names Py_Source.BreakStmt = {}"
| "stmt_names Py_Source.ContinueStmt = {}"
| "stmt_names (ReassignStmt x e) = expr_names e"
| "function_names (FunctionDef n ps r body ds async) =
    params_names ps \<union> type_names r \<union> \<Union> (set (map stmt_names body)) \<union> (\<Union>d \<in> set ds. head_name d)"
| "case_names (MatchCase w v bs g body) = (if w then {} else {v}) \<union> opt_names g \<union> \<Union> (set (map stmt_names body))"

definition module_names :: "Module \<Rightarrow> bytes set" where
  "module_names m = (\<Union>s \<in> set (Stmts m). stmt_names s)"

definition imported_names :: "Module \<Rightarrow> bytes set" where
  "imported_names m = (\<Union>i \<in> set (Imports m). set (ImportNames i))"

subsection \<open>Names the program writes\<close>

definition node_names :: "Aotir.Expr \<Rightarrow> bytes set" where
  "node_names e =
    (case e of
       VarRef n \<Rightarrow> (case self_field n of Some f \<Rightarrow> {} | None \<Rightarrow> {n})
     | CallExpr f as \<Rightarrow> (case stripPythonExternPrefix f of Some b \<Rightarrow> {} | None \<Rightarrow> {f})
     | FunLit f cs \<Rightarrow> {f}
     | RecordLit c fs \<Rightarrow> {c}
     | VariantLit c fs \<Rightarrow> {c}
     | UnionVarRef n \<Rightarrow> {n}
     | AgentLit c fs \<Rightarrow> {c}
     | _ \<Rightarrow> {})"

definition node_externs :: "Aotir.Expr \<Rightarrow> bytes set" where
  "node_externs e = (case e of CallExpr f as \<Rightarrow> set_option (stripPythonExternPrefix f) | _ \<Rightarrow> {})"

definition expr_written :: "Aotir.Expr \<Rightarrow> bytes set" where
  "expr_written e = (\<Union>x \<in> set (subexprs e). node_names x)"

definition expr_externs :: "Aotir.Expr \<Rightarrow> bytes set" where
  "expr_externs e = (\<Union>x \<in> set (subexprs e). node_externs x)"

text \<open>What the emitted code uses without an import: Python builtins and names it binds itself.\<close>

definition ambient :: "bytes set" where
  "ambient =
    {''len'', ''int'', ''list'', ''filter'', ''map'', ''set'', ''sorted'', ''str'', ''float'', ''bool'', ''None'', ''dict'',
     ''ZeroDivisionError'', ''IndexError'', ''__name__'', ''self'', ''__mp'', ''main''}"

text \<open>These names and \<open>Print\<close>, which every module imports.\<close>

definition base_names :: "bytes set" where
  "base_names = insert ''Print'' ambient"

subsection \<open>The judgement\<close>

text \<open>The names a flag brings into the module.\<close>

definition flag_table :: "((lowerer \<Rightarrow> bool) \<times> bytes list) list" where
  "flag_table =
    [(needsMath, [''fdiv'']), (needsMapping, [''keys_sorted'', ''values_sorted'']), (needsDataclass, [''dataclass'']),
     (needsCallable, [''Callable'']), (needsQuery, [''sort_asc'']), (needsSumI64, [''sum_i64'']), (needsSumF64, [''sum_f64'']),
     (needsStrFrom, [''str_from'']), (needsDeque, [''deque'']),
     (needsStream, [''MochiStream'', ''MochiSub'', ''mochi_emit'', ''mochi_make_stream'', ''mochi_recv_sub'', ''mochi_subscribe'']),
     (needsExcept, [''MochiPanic'', ''_panic_code'']), (needsLLM, [''mochi_llm_generate'']),
     (needsFetch, [''mochi_fetch'', ''mochi_write_file''])]"

definition flag_names :: "lowerer \<Rightarrow> bytes set" where
  "flag_names l = {n. \<exists>(f, ns) \<in> set flag_table. f l \<and> n \<in> set ns}"

definition extends :: "lowerer \<Rightarrow> lowerer \<Rightarrow> bool" where
  "extends l l' \<longleftrightarrow> flag_names l \<subseteq> flag_names l' \<and> pythonExterns l' = pythonExterns l \<and> moduleName l' = moduleName l"

lemma extends_refl [simp]: "extends l l"
  by (simp add: extends_def)

lemma extends_trans: "extends l l' \<Longrightarrow> extends l' l'' \<Longrightarrow> extends l l''"
  by (auto simp: extends_def)

lemma extends_names: "extends l l' \<Longrightarrow> A \<subseteq> S \<union> flag_names l \<Longrightarrow> A \<subseteq> S \<union> flag_names l'"
  by (auto simp: extends_def)

definition refers :: "bytes set \<Rightarrow> ('a \<Rightarrow> bytes set) \<Rightarrow> 'a lower \<Rightarrow> bool" where
  "refers S nm m \<longleftrightarrow> (\<forall>l x l'. m l = Inr (x, l') \<longrightarrow> extends l l' \<and> nm x \<subseteq> S \<union> flag_names l')"

lemma refers_ret: "nm x \<subseteq> S \<Longrightarrow> refers S nm (ret x)"
  by (auto simp: refers_def ret_def)

lemma refers_fail: "refers S nm (fail e)"
  by (simp add: refers_def fail_def)

lemma refers_lift1:
  assumes "refers S nm m" "\<And>x. nm' (f x) \<subseteq> S \<union> nm x"
  shows "refers S nm' (lift1 f m)"
  unfolding refers_def
proof (intro allI impI)
  fix l y l' assume "lift1 f m l = Inr (y, l')"
  then obtain x where x: "m l = Inr (x, l')" "y = f x" by (auto simp: lift1_def split: sum.splits)
  with assms(1) have "extends l l'" "nm x \<subseteq> S \<union> flag_names l'" unfolding refers_def by blast+
  with assms(2) [of x] x(2) show "extends l l' \<and> nm' y \<subseteq> S \<union> flag_names l'" by blast
qed

lemma refers_lift2:
  assumes "refers S nm1 m" "refers S nm2 n" "\<And>x y. nm' (f x y) \<subseteq> S \<union> nm1 x \<union> nm2 y"
  shows "refers S nm' (lift2 f m n)"
  unfolding refers_def
proof (intro allI impI)
  fix l z l'' assume "lift2 f m n l = Inr (z, l'')"
  then obtain x l' y where x: "m l = Inr (x, l')" "n l' = Inr (y, l'')" "z = f x y"
    by (auto simp: lift2_def lift1_def split: sum.splits)
  with assms(1) have 1: "extends l l'" "nm1 x \<subseteq> S \<union> flag_names l'" unfolding refers_def by blast+
  from x assms(2) have 2: "extends l' l''" "nm2 y \<subseteq> S \<union> flag_names l''" unfolding refers_def by blast+
  from extends_names [OF 2(1) 1(2)] 2(2) assms(3) [of x y] x(3) have "nm' z \<subseteq> S \<union> flag_names l''" by blast
  with extends_trans [OF 1(1) 2(1)] show "extends l l'' \<and> nm' z \<subseteq> S \<union> flag_names l''" by blast
qed

lemma refers_lift3:
  assumes "refers S nm1 m" "refers S nm2 n" "refers S nm3 k" "\<And>x y z. nm' (f x y z) \<subseteq> S \<union> nm1 x \<union> nm2 y \<union> nm3 z"
  shows "refers S nm' (lift3 f m n k)"
  unfolding lift3_def
proof (rule refers_lift2 [OF _ assms(3)])
  show "refers S (\<lambda>(x, y). nm1 x \<union> nm2 y) (lift2 Pair m n)" by (rule refers_lift2 [OF assms(1,2)]) auto
  show "nm' ((case x of (x, y) \<Rightarrow> f x y) z) \<subseteq> S \<union> (case x of (x, y) \<Rightarrow> nm1 x \<union> nm2 y) \<union> nm3 z" for x z
    using assms(4) by (cases x) auto
qed

definition marks :: "(lowerer \<Rightarrow> lowerer) \<Rightarrow> bool" where
  "marks u \<longleftrightarrow> (\<forall>l. extends l (u l))"

lemma refers_needing:
  assumes "refers (S \<union> H) nm m" "marks u" "\<And>l. H \<subseteq> flag_names (u l)"
  shows "refers S nm (needing u m)"
  unfolding refers_def
proof (intro allI impI)
  fix l x l'' assume "needing u m l = Inr (x, l'')"
  then obtain l' where l': "m l = Inr (x, l')" "l'' = u l'" by (auto simp: needing_def split: sum.splits)
  with assms(1) have 1: "extends l l'" "nm x \<subseteq> (S \<union> H) \<union> flag_names l'" unfolding refers_def by blast+
  have 2: "extends l' l''" using assms(2) l'(2) unfolding marks_def by blast
  from extends_names [OF 2 1(2)] assms(3) [of l'] l'(2) have "nm x \<subseteq> S \<union> flag_names l''" by blast
  with extends_trans [OF 1(1) 2] show "extends l l'' \<and> nm x \<subseteq> S \<union> flag_names l''" by blast
qed

lemma refers_mono: "refers S nm m \<Longrightarrow> S \<subseteq> S' \<Longrightarrow> refers S' nm m"
  unfolding refers_def by blast

lemma refers_need1:
  assumes "refers S nm m" "marks u" "\<And>x l. nm' (f x) \<subseteq> S \<union> nm x \<union> flag_names (u l)"
  shows "refers S nm' (needing u (lift1 f m))"
proof (rule refers_needing [where H = "\<Inter>l. flag_names (u l)"])
  show "refers (S \<union> (\<Inter>l. flag_names (u l))) nm' (lift1 f m)"
    using refers_mono [OF assms(1)] assms(3) by (intro refers_lift1 [where nm = nm]) blast+
qed (use assms(2) in auto)

lemma refers_need2:
  assumes "refers S nm1 m" "refers S nm2 n" "marks u" "\<And>x y l. nm' (f x y) \<subseteq> S \<union> nm1 x \<union> nm2 y \<union> flag_names (u l)"
  shows "refers S nm' (needing u (lift2 f m n))"
proof (rule refers_needing [where H = "\<Inter>l. flag_names (u l)"])
  show "refers (S \<union> (\<Inter>l. flag_names (u l))) nm' (lift2 f m n)"
    using refers_mono [OF assms(1)] refers_mono [OF assms(2)] assms(4)
    by (intro refers_lift2 [where ?nm1.0 = nm1 and ?nm2.0 = nm2]) blast+
qed (use assms(3) in auto)

lemma refers_needing_ret:
  assumes "marks u" "\<And>l. nm x \<subseteq> S \<union> flag_names (u l)"
  shows "refers S nm (needing u (ret x))"
  using assms by (intro refers_needing [where H = "\<Inter>l. flag_names (u l)"] refers_ret) auto

lemma refers_within: "refers S nm m \<Longrightarrow> refers S nm (within w m)"
  unfolding refers_def within_def by (auto split: sum.splits)

definition all_names :: "('a \<Rightarrow> bytes set) \<Rightarrow> 'a list \<Rightarrow> bytes set" where
  "all_names nm xs = (\<Union>x \<in> set xs. nm x)"

lemma all_names_simps [simp]:
  "all_names nm [] = {}" "all_names nm (x # xs) = nm x \<union> all_names nm xs" "all_names nm (xs @ ys) = all_names nm xs \<union> all_names nm ys"
  by (auto simp: all_names_def)

lemma refers_collect: "\<forall>m \<in> set ms. refers S nm m \<Longrightarrow> refers S (all_names nm) (collect ms)"
proof (induction ms)
  case Nil
  show ?case by (simp add: refers_ret)
next
  case (Cons m ms)
  then show ?case by (auto intro: refers_lift2 [where ?nm1.0 = nm and ?nm2.0 = "all_names nm"])
qed

lemma marksI:
  assumes "\<And>l. list_all (\<lambda>(f, ns). f l \<longrightarrow> f (u l)) flag_table" "\<And>l. pythonExterns (u l) = pythonExterns l \<and> moduleName (u l) = moduleName l"
  shows "marks u"
  using assms unfolding marks_def extends_def flag_names_def list_all_iff by fastforce

lemma flag_updates [simp]:
  "marks (needsMath_update on)" "marks (needsFmt_update on)" "marks (needsMapping_update on)" "marks (needsDataclass_update on)"
  "marks (needsCallable_update on)" "marks (needsQuery_update on)" "marks (needsStrFrom_update on)" "marks (needsSumI64_update on)"
  "marks (needsSumF64_update on)" "marks (needsDeque_update on)" "marks (needsStream_update on)" "marks (needsExcept_update on)"
  "marks (needsLLM_update on)" "marks (needsFetch_update on)" "marks id"
  by (intro marksI; simp add: flag_table_def)+

lemma flag_members [simp]:
  "''fdiv'' \<in> flag_names (needsMath_update on l)"
  "''keys_sorted'' \<in> flag_names (needsMapping_update on l)" "''values_sorted'' \<in> flag_names (needsMapping_update on l)"
  "''dataclass'' \<in> flag_names (needsDataclass_update on l)" "''Callable'' \<in> flag_names (needsCallable_update on l)"
  "''sort_asc'' \<in> flag_names (needsQuery_update on l)" "''sum_i64'' \<in> flag_names (needsSumI64_update on l)"
  "''sum_f64'' \<in> flag_names (needsSumF64_update on l)" "''str_from'' \<in> flag_names (needsStrFrom_update on l)"
  "''deque'' \<in> flag_names (needsDeque_update on l)"
  "''MochiStream'' \<in> flag_names (needsStream_update on l)" "''MochiSub'' \<in> flag_names (needsStream_update on l)"
  "''mochi_emit'' \<in> flag_names (needsStream_update on l)" "''mochi_make_stream'' \<in> flag_names (needsStream_update on l)"
  "''mochi_recv_sub'' \<in> flag_names (needsStream_update on l)" "''mochi_subscribe'' \<in> flag_names (needsStream_update on l)"
  "''MochiPanic'' \<in> flag_names (needsExcept_update on l)" "''_panic_code'' \<in> flag_names (needsExcept_update on l)"
  "''mochi_llm_generate'' \<in> flag_names (needsLLM_update on l)" "''mochi_fetch'' \<in> flag_names (needsFetch_update on l)"
  "''mochi_write_file'' \<in> flag_names (needsFetch_update on l)"
  by (simp_all add: flag_names_def flag_table_def)

lemma subset_parts [simp]:
  "A \<subseteq> S \<union> A" "A \<subseteq> S \<union> A \<union> B" "A \<subseteq> S \<union> A \<union> B \<union> C" "B \<subseteq> S \<union> A \<union> B \<union> C" "C \<subseteq> S \<union> A \<union> B \<union> C \<union> D"
  by auto

subsection \<open>Expressions\<close>

abbreviation exprs_names :: "Py_Source.Expr list \<Rightarrow> bytes set" where
  "exprs_names \<equiv> all_names expr_names"

lemma expr_names_call [simp]: "expr_names (Call f as ks) = expr_names f \<union> exprs_names as \<union> all_names (\<lambda>k. expr_names (snd k)) ks"
  by (auto simp: all_names_def)

lemma expr_names_lists [simp]:
  "expr_names (Py_Source.ListLit es) = exprs_names es" "expr_names (SetLit es) = exprs_names es"
  "expr_names (DictLit es vs) = exprs_names es \<union> exprs_names vs"
  by (auto simp: all_names_def)

declare expr_names.simps(1,5,6,7) [simp del]

text \<open>The rules of the combinators for expressions and lists of expressions.\<close>

lemmas expr_steps =
  refers_lift1 [where nm = expr_names] refers_lift1 [where nm = exprs_names]
  refers_lift2 [where ?nm1.0 = expr_names and ?nm2.0 = expr_names]
  refers_lift2 [where ?nm1.0 = expr_names and ?nm2.0 = exprs_names]
  refers_lift2 [where ?nm1.0 = exprs_names and ?nm2.0 = exprs_names]
  refers_lift3 [where ?nm1.0 = expr_names and ?nm2.0 = expr_names and ?nm3.0 = expr_names]
  refers_need1 [where nm = expr_names] refers_need2 [where ?nm1.0 = expr_names and ?nm2.0 = expr_names]
  refers_ret refers_fail refers_collect

lemma binary_refers [simp]: "refers S expr_names x \<Longrightarrow> refers S expr_names y \<Longrightarrow> refers S expr_names (lowerBinaryExpr op x y)"
  unfolding lowerBinaryExpr_def by (simp add: expr_steps split: option.split)

lemma unary_refers [simp]: "refers S expr_names x \<Longrightarrow> refers S expr_names (lowerUnaryExpr op x)"
  unfolding lowerUnaryExpr_def by (simp add: expr_steps split: UnOp.split)

lemma record_refers:
  "\<forall>(n, m) \<in> set fs. refers S expr_names m \<Longrightarrow> c \<in> S \<Longrightarrow> refers S expr_names (lowerRecordLit c fs)"
  unfolding lowerRecordLit_def lowerFields_def
  by (intro refers_lift1 [where nm = "all_names (\<lambda>k. expr_names (snd k))"] refers_collect)
    (auto intro!: refers_lift1 [where nm = expr_names])

lemma intent_refers [simp]:
  "refers S expr_names x \<Longrightarrow> refers S exprs_names y \<Longrightarrow> refers S expr_names (lowerAgentIntentCall m x y s)"
  unfolding lowerAgentIntentCall_def by (simp add: expr_steps)

lemma datalog_refers [simp]: "expr_names (lowerDatalogQueryExpr q) = {}"
  by (auto simp: lowerDatalogQueryExpr_def all_names_def split: option.split)

definition expr_uses :: "Aotir.Expr \<Rightarrow> bytes set" where
  "expr_uses e = (\<Union>x \<in> set (subexprs e). node_names x \<union> node_externs x)"

lemma record_lit_refers:
  assumes "\<And>x v. x \<in> set fs \<Longrightarrow> v \<in> Basic_BNFs.snds x \<Longrightarrow> expr_uses v \<subseteq> S \<Longrightarrow> refers S expr_names (lowerExpr v)"
    "c \<in> S" "\<forall>x \<in> set fs. expr_uses (snd x) \<subseteq> S"
  shows "refers S expr_names (lowerRecordLit c (map (map_prod id lowerExpr) fs))"
proof (rule record_refers [OF _ assms(2)])
  have "refers S expr_names (lowerExpr v)" if "(n, v) \<in> set fs" for n v
    using assms(1) [OF that, of v] assms(3) that by force
  then show "\<forall>(n, m) \<in> set (map (map_prod id lowerExpr) fs). refers S expr_names m" by auto
qed

lemma lowerExpr_refers:
  assumes "base_names \<subseteq> S"
  shows "expr_uses e \<subseteq> S \<Longrightarrow> refers S expr_names (lowerExpr e)"
proof (induction e)
  case (CallExpr f as)
  have "callee f \<in> S"
    using CallExpr.prems by (auto simp: expr_uses_def node_names_def node_externs_def callee_def split: option.splits)
  moreover have "\<forall>a \<in> set as. refers S expr_names (lowerExpr a)"
    using CallExpr.IH CallExpr.prems by (simp add: expr_uses_def UN_subset_iff)
  ultimately show ?case by (simp add: expr_steps)
next
  case (RecordLit c fs)
  have "c \<in> S" "\<forall>x \<in> set fs. expr_uses (snd x) \<subseteq> S"
    using RecordLit.prems by (auto simp: expr_uses_def node_names_def)
  from record_lit_refers [OF RecordLit.IH this] show ?case by simp
next
  case (VariantLit c fs)
  have "c \<in> S" "\<forall>x \<in> set fs. expr_uses (snd x) \<subseteq> S"
    using VariantLit.prems by (auto simp: expr_uses_def node_names_def)
  from record_lit_refers [OF VariantLit.IH this] show ?case by simp
next
  case (AgentLit c fs)
  have "c \<in> S" "\<forall>x \<in> set fs. expr_uses (snd x) \<subseteq> S"
    using AgentLit.prems by (auto simp: expr_uses_def node_names_def)
  from record_lit_refers [OF AgentLit.IH this] show ?case by simp
next
  case (VarRef n)
  then show ?case using assms by (auto intro!: refers_ret simp: base_names_def ambient_def expr_uses_def node_names_def split: option.splits)
next
  case (SetLiteralExpr es)
  have "refers S exprs_names (collect (map lowerExpr es))"
    using SetLiteralExpr.IH SetLiteralExpr.prems by (simp add: refers_collect expr_uses_def UN_subset_iff)
  then show ?case using assms by (auto intro!: refers_lift1 [where nm = exprs_names] simp: base_names_def ambient_def split: if_splits)
qed (use assms in \<open>simp_all add: expr_uses_def node_names_def node_externs_def base_names_def ambient_def UN_subset_iff expr_steps\<close>)


subsection \<open>Statements\<close>

definition call_uses :: "bytes \<Rightarrow> bytes set" where
  "call_uses f = (if f \<in> set print_builtins then {} else {callee f})"

definition var_uses :: "VarTypes \<Rightarrow> bytes set" where
  "var_uses s = annotation_names (RecordName s) \<union> annotation_names (ElemRecordName s) \<union> annotation_names (UnionName s) \<union> annotation_names (AgentName s)"

primrec arm_uses :: "MatchArm \<Rightarrow> bytes set" where
  "arm_uses (MatchArm v bs g body) = {v}"

definition stmt_node_uses :: "Aotir.Stmt \<Rightarrow> bytes set" where
  "stmt_node_uses s =
    (case s of
       CallStmt f as \<Rightarrow> call_uses f
     | LetStmt n t init \<Rightarrow> var_uses t
     | MapPutStmt n k v \<Rightarrow> {n}
     | Aotir.MatchStmt e arms d \<Rightarrow> \<Union> (arm_uses ` set arms)
     | _ \<Rightarrow> {})"

definition here_uses :: "Aotir.Stmt \<Rightarrow> bytes set" where
  "here_uses s = stmt_node_uses s \<union> (\<Union>e \<in> set (own_exprs s). expr_uses e)"

definition stmt_uses :: "Aotir.Stmt \<Rightarrow> bytes set" where
  "stmt_uses s = (\<Union>x \<in> set (substmts s). here_uses x)"

definition block_uses :: "Block \<Rightarrow> bytes set" where
  "block_uses b = (\<Union>s \<in> set b. stmt_uses s)"

lemma cut_words_not_Nil [simp]: "cut_words s \<noteq> []"
  by (cases s) simp_all

lemma cut_words_at: "d \<in> set ''[], '' \<Longrightarrow> cut_words (a @ d # b) = cut_words a @ cut_words b"
  by (induction a) auto

lemma annotation_cut: "d \<in> set ''[], '' \<Longrightarrow> annotation_names (a @ d # b) = annotation_names a \<union> annotation_names b"
  by (auto simp: annotation_names_def cut_words_at simp del: list.set)

lemma annotation_Nil [simp]: "annotation_names [] = {}"
  by (simp add: annotation_names_def)

lemma annotation_generic: "annotation_names (c @ ''['' @ n @ '']'') = annotation_names c \<union> annotation_names n"
  using annotation_cut [of "CHR ''[''" c "n @ '']''"] annotation_cut [of "CHR '']''" n "[]"] by simp

lemma annotation_comma: "annotation_names (a @ '', '' @ b) = annotation_names a \<union> annotation_names b"
  using annotation_cut [of "CHR '',''" a "'' '' @ b"] annotation_cut [of "CHR '' ''" "[]" b] by simp

lemma annotation_join: "annotation_names (join '', '' ts) = (\<Union>t \<in> set ts. annotation_names t)"
proof (induction ts)
  case (Cons t ts)
  then show ?case by (cases ts) (simp_all add: annotation_comma del: append_Cons)
qed simp

lemma annotation_words [simp]:
  "annotation_names ''str'' = {''str''}" "annotation_names ''int'' = {''int''}" "annotation_names ''float'' = {''float''}"
  "annotation_names ''bool'' = {''bool''}" "annotation_names ''None'' = {''None''}" "annotation_names ''list'' = {''list''}"
  "annotation_names ''dict'' = {''dict''}" "annotation_names ''set'' = {''set''}" "annotation_names ''deque'' = {''deque''}"
  "annotation_names ''MochiStream'' = {''MochiStream''}" "annotation_names ''MochiSub'' = {''MochiSub''}"
  "annotation_names ''Callable'' = {''Callable''}"
  by (simp_all add: annotation_names_def)

lemma type_names_typed [simp]: "type_names untyped = {}" "type_names (typed n) = annotation_names n"
  by (simp_all add: type_names_def untyped_def typed_def)

lemma if_typed: "annotation_names x \<subseteq> S \<Longrightarrow> type_names (if c then untyped else typed x) \<subseteq> S"
  by simp

lemma type_names_generic: "type_names (generic c n) \<subseteq> annotation_names c \<union> annotation_names n"
  by (simp add: generic_def annotation_generic del: append_Cons)

lemma generic_subset: "annotation_names c \<subseteq> S \<Longrightarrow> annotation_names n \<subseteq> S \<Longrightarrow> type_names (generic c n) \<subseteq> S"
  using type_names_generic [of c n] by blast

lemma scalar_annotation: "annotation_names (TypeName (pyTypeFor t)) \<subseteq> {''str'', ''int'', ''float'', ''bool''}"
  by (cases t) (simp_all add: pyTypeFor_def typed_def untyped_def)

lemma scalar_names: "base_names \<subseteq> S \<Longrightarrow> type_names (pyTypeFor t) \<subseteq> S"
  using scalar_annotation [of t] by (auto simp: type_names_def base_names_def ambient_def)

lemma scalar_in: "base_names \<subseteq> S \<Longrightarrow> annotation_names (TypeName (pyTypeFor t)) \<subseteq> S"
  using scalar_names [of S t] by (simp add: type_names_def)

lemma union_type_names:
  assumes "base_names \<subseteq> S" "annotation_names r \<subseteq> S" "annotation_names er \<subseteq> S" "annotation_names u \<subseteq> S" "annotation_names eu \<subseteq> S"
  shows "type_names (pyTypeForUnion t elem r er u eu k v) \<subseteq> S"
proof -
  have "''list'' \<in> S" "''dict'' \<in> S" "''set'' \<in> S" using assms(1) by (auto simp: base_names_def ambient_def)
  then have "annotation_names n \<subseteq> S \<Longrightarrow> type_names (generic ''list'' n) \<subseteq> S" "annotation_names n \<subseteq> S \<Longrightarrow> type_names (generic ''set'' n) \<subseteq> S" for n
    by (simp_all add: generic_subset)
  moreover have "type_names (typed (''dict['' @ TypeName (pyTypeFor k) @ '', '' @ TypeName (pyTypeFor v) @ '']'')) \<subseteq> S"
    using \<open>''dict'' \<in> S\<close> scalar_in [OF assms(1), of k] scalar_in [OF assms(1), of v]
      annotation_generic [of "''dict''" "TypeName (pyTypeFor k) @ '', '' @ TypeName (pyTypeFor v)"]
      annotation_comma [of "TypeName (pyTypeFor k)" "TypeName (pyTypeFor v)"] by simp
  ultimately show ?thesis
    using assms scalar_names [OF assms(1), of t] scalar_in [OF assms(1), of elem] unfolding pyTypeForUnion_def
    by (cases t) (simp_all add: Let_def)
qed

lemma var_type_names: "base_names \<subseteq> S \<Longrightarrow> var_uses s \<subseteq> S \<Longrightarrow> type_names (pyTypeForVar s) \<subseteq> S"
  unfolding pyTypeForVar_def var_uses_def by (rule union_type_names) auto

lemma let_type_refers:
  assumes "base_names \<subseteq> S" "var_uses s \<subseteq> S"
  shows "refers S type_names (let_type s)"
proof -
  have "annotation_names (TypeName (pyTypeFor t)) \<subseteq> S \<union> F" for t F using scalar_in [OF assms(1), of t] by blast
  then show ?thesis
    using var_type_names [OF assms] assms(2) unfolding let_type_def
    by (simp add: var_uses_def refers_ret refers_needing_ret generic_subset)
qed

definition stmts_names :: "Py_Source.Stmt list \<Rightarrow> bytes set" where
  "stmts_names = all_names stmt_names"

lemma single_refers: "refers S stmt_names m \<Longrightarrow> refers S stmts_names (single m)"
  unfolding single_def stmts_names_def by (rule refers_lift1) auto

lemma block_refers: "\<forall>m \<in> set ms. refers S stmts_names m \<Longrightarrow> refers S stmts_names (block ms)"
  unfolding block_def
proof (rule refers_lift1 [OF refers_collect])
  show "stmts_names (if concat sss = [] then [PassStmt] else concat sss) \<subseteq> S \<union> all_names stmts_names sss" for sss
    by (auto simp: stmts_names_def all_names_def)
qed

lemma lowerOpt_refers: "base_names \<subseteq> S \<Longrightarrow> \<forall>e \<in> set_option x. expr_uses e \<subseteq> S \<Longrightarrow> refers S opt_names (lowerOpt x)"
  unfolding lowerOpt_def
  by (cases x) (auto simp: opt_names_def intro!: refers_ret refers_lift1 [where nm = expr_names] lowerExpr_refers)

lemma lowerExprs_refers: "base_names \<subseteq> S \<Longrightarrow> \<forall>e \<in> set es. expr_uses e \<subseteq> S \<Longrightarrow> refers S exprs_names (lowerExprs es)"
  unfolding lowerExprs_def by (simp add: refers_collect lowerExpr_refers)

lemma lowerCallStmt_refers:
  assumes "base_names \<subseteq> S" "call_uses f \<subseteq> S" "\<forall>e \<in> set as. expr_uses e \<subseteq> S"
  shows "refers S stmt_names (lowerCallStmt f as)"
proof (cases "f \<in> set print_builtins")
  case True
  have "''Print'' \<in> S" using assms(1) by (auto simp: base_names_def ambient_def)
  then show ?thesis
    using True assms lowerExpr_refers [OF assms(1)] unfolding lowerCallStmt_def print_builtins_def
    by (auto simp: print_line_def split: list.split
      intro!: refers_fail refers_lift1 [where nm = expr_names] refers_need1 [where nm = expr_names])
next
  case False
  then have "callee f \<in> S" using assms(2) by (simp add: call_uses_def)
  then have "stripPythonExternPrefix f = Some b \<Longrightarrow> b \<in> S" "stripPythonExternPrefix f = None \<Longrightarrow> f \<in> S" for b
    by (auto simp: callee_def)
  with False lowerExprs_refers [OF assms(1,3)] show ?thesis
    unfolding lowerCallStmt_def print_builtins_def
    by (auto split: option.split intro!: refers_fail refers_lift1 [where nm = exprs_names])
qed


lemma here_uses_simps [simp]:
  "here_uses (CallStmt f as) = call_uses f \<union> (\<Union>e \<in> set as. expr_uses e)"
  "here_uses (LetStmt n t init) = var_uses t \<union> (\<Union>e \<in> set_option init. expr_uses e)"
  "here_uses (Aotir.AssignStmt n e) = expr_uses e"
  "here_uses (MapPutStmt n k v) = {n} \<union> expr_uses k \<union> expr_uses v"
  "here_uses (Aotir.IfStmt e thn els) = expr_uses e"
  "here_uses (Aotir.WhileStmt e body) = expr_uses e"
  "here_uses (TryCatchStmt body x handler) = {}"
  "here_uses (Aotir.ForRangeStmt x a b body) = expr_uses a \<union> expr_uses b"
  "here_uses (Aotir.ForEachStmt x e body) = expr_uses e"
  "here_uses Aotir.BreakStmt = {}" "here_uses Aotir.ContinueStmt = {}"
  "here_uses (Aotir.MatchStmt e arms d) =
    expr_uses e \<union> (\<Union>a \<in> set arms. arm_uses a \<union> (\<Union>x \<in> set (arm_guard a). expr_uses x))
    \<union> (\<Union>a \<in> set_option d. \<Union>x \<in> set (arm_guard a). expr_uses x)"
  "here_uses (Aotir.ReturnStmt init) = (\<Union>e \<in> set_option init. expr_uses e)"
  "here_uses (AgentIntentCallStmt m r as sp) = expr_uses r \<union> (\<Union>e \<in> set as. expr_uses e)"
  "here_uses (ChanSendStmt a v) = expr_uses a \<union> expr_uses v"
  "here_uses (StreamEmitStmt a v) = expr_uses a \<union> expr_uses v"
  "here_uses (PanicStmt a v) = expr_uses a \<union> expr_uses v"
  "here_uses (WriteFileStmt a v) = expr_uses a \<union> expr_uses v"
  "here_uses (QueryScopeStmt body) = {}" "here_uses (RawCStmt code) = {}" "here_uses (OtherS ot) = {}"
  by (auto simp: here_uses_def stmt_node_uses_def own_exprs_def split: option.splits)

definition arm_inner_uses :: "MatchArm \<Rightarrow> bytes set" where
  "arm_inner_uses a = (\<Union>e \<in> set (arm_guard a). expr_uses e) \<union> (\<Union>x \<in> set (arm_stmts a). here_uses x)"

text \<open>The pattern of the default arm is the wildcard: its variant name is not used.\<close>

lemma match_uses:
  "stmt_uses (Aotir.MatchStmt e arms d) \<subseteq> S \<longleftrightarrow>
    expr_uses e \<subseteq> S \<and> (\<forall>a \<in> set arms. arm_uses a \<subseteq> S \<and> arm_inner_uses a \<subseteq> S)
    \<and> (\<forall>a \<in> set_option d. arm_inner_uses a \<subseteq> S)"
  by (cases d) (simp_all add: stmt_uses_def arm_inner_uses_def UN_subset_iff, blast+)

lemma stmt_names_lists [simp]:
  "stmt_names (Py_Source.MatchStmt e cs) = expr_names e \<union> all_names case_names cs"
  "stmt_names (Py_Source.IfStmt e thn els) = expr_names e \<union> stmts_names thn \<union> stmts_names els"
  "stmt_names (TryExceptStmt body ts x handler) = stmts_names body \<union> set ts \<union> stmts_names handler"
  "stmt_names (Py_Source.WhileStmt e body) = expr_names e \<union> stmts_names body"
  "stmt_names (Py_Source.ForEachStmt x e body) = expr_names e \<union> stmts_names body"
  "stmt_names (Py_Source.ForRangeStmt x a b body) = expr_names a \<union> expr_names b \<union> stmts_names body"
  by (auto simp: all_names_def stmts_names_def)

declare stmt_names.simps(4,6,12,15,16,17) [simp del]

lemma case_names_list [simp]: "case_names (MatchCase w v bs g body) = (if w then {} else {v}) \<union> opt_names g \<union> stmts_names body"
  by (auto simp: all_names_def stmts_names_def)

declare case_names.simps [simp del]

lemmas stmt_steps =
  refers_lift1 [where nm = expr_names and nm' = stmt_names] refers_lift1 [where nm = opt_names and nm' = stmt_names]
  refers_lift2 [where ?nm1.0 = expr_names and ?nm2.0 = expr_names and nm' = stmt_names]
  refers_lift2 [where ?nm1.0 = expr_names and ?nm2.0 = stmts_names and nm' = stmt_names]
  refers_lift2 [where ?nm1.0 = stmts_names and ?nm2.0 = opt_names and nm' = case_names]
  refers_lift2 [where ?nm1.0 = type_names and ?nm2.0 = expr_names and nm' = stmt_names]
  refers_lift3 [where ?nm1.0 = expr_names and ?nm2.0 = stmts_names and ?nm3.0 = stmts_names and nm' = stmt_names]
  refers_lift3 [where ?nm1.0 = expr_names and ?nm2.0 = expr_names and ?nm3.0 = stmts_names and nm' = stmt_names]
  refers_lift3 [where ?nm1.0 = expr_names and ?nm2.0 = "all_names case_names" and ?nm3.0 = "all_names case_names" and nm' = stmt_names]
  refers_need2 [where ?nm1.0 = expr_names and ?nm2.0 = expr_names and nm' = stmt_names]
  refers_need2 [where ?nm1.0 = stmts_names and ?nm2.0 = stmts_names and nm' = stmt_names]
  refers_ret refers_fail

lemma lowerLetStmt_refers:
  assumes "base_names \<subseteq> S" "var_uses s \<subseteq> S" "\<forall>e \<in> set_option init. expr_uses e \<subseteq> S"
  shows "refers S stmt_names (lowerLetStmt n s init)"
  using let_type_refers [OF assms(1,2)] lowerExpr_refers [OF assms(1)] assms(3) unfolding lowerLetStmt_def
  by (cases init) (auto intro!: refers_lift1 [where nm = type_names] stmt_steps)

lemma lowerAssignStmt_refers:
  assumes "base_names \<subseteq> S" "expr_uses e \<subseteq> S"
  shows "refers S stmt_names (lowerAssignStmt n e)"
  using lowerExpr_refers [OF assms] assms(1) unfolding lowerAssignStmt_def base_names_def ambient_def
  by (cases "self_field n") (auto intro!: stmt_steps)

lemma try_names: "base_names \<subseteq> S \<Longrightarrow> stmt_names (try_except x body handler) \<subseteq> S \<union> stmts_names body \<union> stmts_names handler \<union> flag_names (needsExcept_update on l)"
  by (auto simp: try_except_def bind_code_def stmts_names_def base_names_def ambient_def)

definition inner_names :: "MatchCase \<Rightarrow> bytes set" where
  "inner_names c = (case c of MatchCase w v bs g body \<Rightarrow> opt_names g \<union> stmts_names body)"

lemma inner_names_simps [simp]:
  "inner_names (MatchCase w v bs g body) = opt_names g \<union> stmts_names body" "case_names (wildcard c) = inner_names c"
  by (cases c; simp add: inner_names_def wildcard_def)+

lemma arm_refers:
  assumes "refers S inner_names (lowerArm a)" "arm_uses a \<subseteq> S"
  shows "refers S case_names (lowerArm a)"
proof -
  have "case_names c \<subseteq> arm_uses a \<union> inner_names c" if "lowerArm a l = Inr (c, l')" for c l l'
    using that by (cases a) (auto simp: lift2_def lift1_def split: sum.splits)
  with assms show ?thesis unfolding refers_def by fast
qed

lemma lowerStmt_refers:
  assumes S: "base_names \<subseteq> S"
  shows "stmt_uses s \<subseteq> S \<Longrightarrow> refers S stmts_names (lowerStmt s)" "arm_inner_uses a \<subseteq> S \<Longrightarrow> refers S inner_names (lowerArm a)"
proof (induction s and a)
  case (CallStmt f as)
  then show ?case
    using lowerCallStmt_refers [OF S, of f as] by (simp add: stmt_uses_def UN_subset_iff single_refers)
next
  case (LetStmt n t init)
  then show ?case
    using lowerLetStmt_refers [OF S, of t init n] by (simp add: stmt_uses_def UN_subset_iff single_refers)
next
  case (AssignStmt n e)
  then show ?case
    using lowerAssignStmt_refers [OF S, of e n] by (simp add: stmt_uses_def single_refers)
next
  case (IfStmt e thn els)
  then have "refers S expr_names (lowerExpr e)" using lowerExpr_refers [OF S] by (simp add: stmt_uses_def)
  moreover have "refers S stmts_names (block (map lowerStmt thn))"
    using IfStmt by (simp add: block_refers stmt_uses_def UN_subset_iff)
  moreover have "refers S stmts_names (case map_option (map lowerStmt) els of None \<Rightarrow> ret [] | Some ms \<Rightarrow> block ms)"
  proof (cases els)
    case None
    then show ?thesis by (simp add: refers_ret stmts_names_def)
  next
    case (Some b)
    with IfStmt show ?thesis by (simp add: block_refers stmt_uses_def UN_subset_iff)
  qed
  ultimately show ?case by (simp add: single_refers stmt_steps)
next
  case (WhileStmt e body)
  then have "refers S expr_names (lowerExpr e)" using lowerExpr_refers [OF S] by (simp add: stmt_uses_def)
  moreover have "refers S stmts_names (block (map lowerStmt body))"
    using WhileStmt by (simp add: block_refers stmt_uses_def UN_subset_iff)
  ultimately show ?case by (simp add: single_refers stmt_steps)
next
  case (TryCatchStmt body x handler)
  then have "refers S stmts_names (block (map lowerStmt body))" "refers S stmts_names (block (map lowerStmt handler))"
    by (simp_all add: block_refers stmt_uses_def UN_subset_iff)
  then show ?case using try_names [OF S] by (simp add: single_refers stmt_steps)
next
  case (ForRangeStmt x e f body)
  then have "refers S expr_names (lowerExpr e)" "refers S expr_names (lowerExpr f)"
    using lowerExpr_refers [OF S] by (simp_all add: stmt_uses_def)
  moreover have "refers S stmts_names (block (map lowerStmt body))"
    using ForRangeStmt by (simp add: block_refers stmt_uses_def UN_subset_iff)
  ultimately show ?case by (simp add: single_refers stmt_steps)
next
  case (ForEachStmt x e body)
  then have "refers S expr_names (lowerExpr e)" using lowerExpr_refers [OF S] by (simp add: stmt_uses_def)
  moreover have "refers S stmts_names (block (map lowerStmt body))"
    using ForEachStmt by (simp add: block_refers stmt_uses_def UN_subset_iff)
  ultimately show ?case by (simp add: single_refers stmt_steps)
next
  case (ReturnStmt v)
  then have "refers S opt_names (lowerOpt v)" using lowerOpt_refers [OF S] by (simp add: stmt_uses_def UN_subset_iff)
  then show ?case by (simp add: single_refers stmt_steps)
next
  case (MatchStmt e arms d)
  from MatchStmt.prems have u: "expr_uses e \<subseteq> S" "\<forall>a \<in> set arms. arm_uses a \<subseteq> S \<and> arm_inner_uses a \<subseteq> S"
      "\<forall>a \<in> set_option d. arm_inner_uses a \<subseteq> S"
    unfolding match_uses by blast+
  have "refers S (all_names case_names) (collect (map lowerArm arms))"
    using MatchStmt.IH(1) u(2) by (simp add: refers_collect arm_refers)
  moreover have "refers S (all_names case_names) (case map_option lowerArm d of None \<Rightarrow> ret [] | Some m \<Rightarrow> lift1 (\<lambda>c. [wildcard c]) m)"
    using MatchStmt.IH(2) u(3) by (cases d) (auto simp: refers_ret intro!: refers_lift1 [where nm = inner_names])
  ultimately show ?case using lowerExpr_refers [OF S u(1)] by (simp add: single_refers stmt_steps)
next
  case (AgentIntentCallStmt m r as b)
  then show ?case using lowerExpr_refers [OF S, of r] lowerExprs_refers [OF S, of as]
    by (simp add: single_refers stmt_steps stmt_uses_def UN_subset_iff)
next
  case (QueryScopeStmt body)
  then have "refers S stmts_names (block (map lowerStmt body))" by (simp add: block_refers stmt_uses_def UN_subset_iff)
  then show ?case by (simp add: refers_within)
next
  case (RawCStmt c)
  show ?case by (simp add: refers_ret stmts_names_def)
next
  case (MatchArm v bs g body)
  then have "refers S stmts_names (block (map lowerStmt body))"
    by (simp add: block_refers arm_inner_uses_def stmt_uses_def UN_subset_iff)
  moreover have "refers S opt_names (lowerOpt g)"
    using MatchArm.prems by (intro lowerOpt_refers [OF S]) (cases g; simp add: arm_inner_uses_def)
  ultimately show ?case by (auto intro!: refers_lift2 [where ?nm1.0 = stmts_names and ?nm2.0 = opt_names])
qed (use S lowerExpr_refers [OF S] in \<open>simp_all add: single_refers stmt_steps stmt_uses_def opt_names_def base_names_def ambient_def\<close>)


subsection \<open>Declarations and programs\<close>

definition function_uses :: "Function \<Rightarrow> bytes set" where
  "function_uses f = (\<Union>p \<in> set (FuncParams f). var_uses (PTypes p)) \<union> var_uses (ReturnTypes f) \<union> block_uses (Body f)"

definition field_uses :: "RecordField list \<Rightarrow> bytes set" where
  "field_uses fs = (\<Union>f \<in> set fs. annotation_names (RFieldRecord f))"

definition union_uses :: "UnionDecl \<Rightarrow> bytes set" where
  "union_uses u = (\<Union>v \<in> set (Variants u). {VariantName v}
     \<union> (\<Union>f \<in> set (VariantFields v). annotation_names (VFieldRecord f) \<union> annotation_names (VFieldUnion f)))"

definition agent_uses :: "AgentDecl \<Rightarrow> bytes set" where
  "agent_uses a = field_uses (AgFields a) \<union> RFieldName ` set (AgFields a) \<union> (\<Union>i \<in> set (Intents a). block_uses (IntentBody i))"

definition program_uses :: "Program \<Rightarrow> bytes set" where
  "program_uses p =
    (\<Union>f \<in> set (Functions p). function_uses f) \<union> (\<Union>r \<in> set (Records p). field_uses (RecFields r))
    \<union> (\<Union>u \<in> set (Unions p). union_uses u) \<union> (\<Union>a \<in> set (Agents p). agent_uses a)"

lemma lowerBlock_refers: "base_names \<subseteq> S \<Longrightarrow> block_uses b \<subseteq> S \<Longrightarrow> refers S stmts_names (lowerBlock b)"
  unfolding lowerBlock_def using lowerStmt_refers(1) by (simp add: block_refers block_uses_def UN_subset_iff)

lemma head_names [simp]: "head_name ''dataclass(frozen=True, slots=True)'' = {''dataclass''}"
  by (simp add: head_name_def)

lemma callable_names:
  assumes "base_names \<subseteq> S" "\<forall>t \<in> set ts. annotation_names t \<subseteq> S" "annotation_names r \<subseteq> S"
  shows "annotation_names (''Callable[['' @ join '', '' ts @ ''], '' @ r @ '']'') \<subseteq> S \<union> {''Callable''}"
proof -
  have "annotation_names (''['' @ join '', '' ts @ '']'') = annotation_names (join '', '' ts)"
    using annotation_generic [of "[]" "join '', '' ts"] by simp
  then have "annotation_names ((''['' @ join '', '' ts @ '']'') @ '', '' @ r) = annotation_names (join '', '' ts) \<union> annotation_names r"
    by (simp only: annotation_comma)
  then have "annotation_names (''Callable'' @ ''['' @ ((''['' @ join '', '' ts @ '']'') @ '', '' @ r) @ '']'')
      = {''Callable''} \<union> (annotation_names (join '', '' ts) \<union> annotation_names r)"
    by (simp only: annotation_generic annotation_words)
  then show ?thesis using assms(2,3) unfolding annotation_join by auto
qed

lemma annotation_refers:
  assumes "base_names \<subseteq> S" "var_uses s \<subseteq> S"
  shows "refers S type_names (var_annotation s g)" "refers S type_names (return_annotation s g)"
proof -
  have "refers S type_names (pyTypeForFun g)"
  proof (cases g)
    case None
    then show ?thesis by (simp add: pyTypeForFun_def refers_ret)
  next
    case (Some sig)
    let ?ps = "map (\<lambda>t. TypeName (pyTypeFor t)) (ParamTypes sig)"
    let ?r = "if SigReturn sig = TypeUnit then ''None'' else TypeName (pyTypeFor (SigReturn sig))"
    have n: "''None'' \<in> S" using assms(1) by (auto simp: base_names_def ambient_def)
    have "annotation_names (''Callable[['' @ join '', '' ?ps @ ''], '' @ ?r @ '']'') \<subseteq> S \<union> {''Callable''}"
      using n scalar_in [OF assms(1)] by (intro callable_names [OF assms(1)]) auto
    then have "annotation_names (''Callable[['' @ join '', '' ?ps @ ''], '' @ ?r @ '']'') \<subseteq> S \<union> flag_names (needsCallable_update on l)" for l
      using flag_members(5) [of l] by blast
    then have "type_names (if [] \<in> set ?ps \<or> ?r = [] then untyped else typed (''Callable[['' @ join '', '' ?ps @ ''], '' @ ?r @ '']''))
        \<subseteq> S \<union> flag_names (needsCallable_update on l)" for l
      by (rule if_typed)
    with Some show ?thesis unfolding pyTypeForFun_def Let_def by (simp only: option.case refers_needing_ret flag_updates)
  qed
  then show a: "refers S type_names (var_annotation s g)"
    using var_type_names [OF assms] by (simp add: var_annotation_def refers_ret)
  have "''None'' \<in> S" using assms(1) by (auto simp: base_names_def ambient_def)
  with a show "refers S type_names (return_annotation s g)" by (simp add: return_annotation_def refers_ret)
qed

abbreviation param_names :: "Py_Source.Param \<Rightarrow> bytes set" where
  "param_names p \<equiv> type_names (ParamType p) \<union> opt_names (ParamDefault p)"

lemma params_names_all: "params_names = all_names param_names"
  by (rule ext) (simp add: params_names_def all_names_def)

lemma param_names_simps [simp]: "param_names (param n t) = type_names t"
  by (simp add: param_def opt_names_def)

lemma function_names_lists [simp]:
  "function_names (FunctionDef n ps r body [] async) = params_names ps \<union> type_names r \<union> stmts_names body"
  by (auto simp: stmts_names_def all_names_def)

declare function_names.simps [simp del]

lemma lowerFunction_refers:
  assumes S: "base_names \<subseteq> S" and u: "function_uses f \<subseteq> S"
  shows "refers S stmt_names (lowerFunction f)"
proof -
  have ps: "refers S params_names (collect (map (\<lambda>p. lift1 (param (PName p)) (var_annotation (PTypes p) (PSig p))) (FuncParams f)))"
    unfolding params_names_all
  proof (intro refers_collect ballI)
    fix m assume "m \<in> set (map (\<lambda>p. lift1 (param (PName p)) (var_annotation (PTypes p) (PSig p))) (FuncParams f))"
    then obtain p where p: "p \<in> set (FuncParams f)" "m = lift1 (param (PName p)) (var_annotation (PTypes p) (PSig p))" by auto
    with u have "var_uses (PTypes p) \<subseteq> S" by (auto simp: function_uses_def)
    from annotation_refers(1) [OF S this] p(2) show "refers S param_names m"
      by (simp add: refers_lift1 [where nm = type_names])
  qed
  moreover have "refers S stmts_names (within (InFunction (FuncName f)) (lowerBlock (Body f)))"
    using u by (intro refers_within lowerBlock_refers [OF S]) (auto simp: function_uses_def)
  moreover have "refers S type_names (return_annotation (ReturnTypes f) (ReturnSig f))"
    using u by (intro annotation_refers(2) [OF S]) (auto simp: function_uses_def)
  ultimately show ?thesis
    unfolding lowerFunction_def
    by (auto intro!: refers_fail
      refers_lift3 [where ?nm1.0 = params_names and ?nm2.0 = stmts_names and ?nm3.0 = type_names])
qed

lemma record_field_names:
  "base_names \<subseteq> S \<Longrightarrow> annotation_names (RFieldRecord f) \<subseteq> S \<Longrightarrow> type_names (FieldType (record_field f)) \<subseteq> S"
  using union_type_names [of S "RFieldRecord f" "[]" "[]" "[]" "RFieldType f"]
  by (simp add: record_field_def pyTypeForRecord_def)

lemma fields_names_subset: "base_names \<subseteq> S \<Longrightarrow> field_uses fs \<subseteq> S \<Longrightarrow> fields_names (map record_field fs) \<subseteq> S"
  by (simp add: fields_names_def field_uses_def UN_subset_iff record_field_names)

definition functions_names :: "FunctionDef list \<Rightarrow> bytes set" where
  "functions_names = all_names function_names"

lemma class_names [simp]:
  "stmt_names (ClassDef n ds fs init ms) =
    (\<Union>d \<in> set ds. head_name d) \<union> fields_names fs \<union> (\<Union>f \<in> set_option init. function_names f) \<union> functions_names ms"
  by (cases init) (auto simp: functions_names_def all_names_def)

declare stmt_names.simps(2) [simp del]

lemma agent_init_names:
  assumes S: "base_names \<subseteq> S" and u: "field_uses fs \<subseteq> S" "RFieldName ` set fs \<subseteq> S"
  shows "function_names (agent_init fs) \<subseteq> S"
proof -
  have "all_names param_names (map (\<lambda>f. param (RFieldName f) (FieldType (record_field f))) fs) \<subseteq> S"
    using u(1) by (simp add: all_names_def field_uses_def UN_subset_iff record_field_names [OF S])
  moreover have "stmts_names (map (\<lambda>f. AttrAssignStmt (Name ''self'') (RFieldName f) (Name (RFieldName f))) fs) \<subseteq> S"
    using u(2) S by (auto simp: stmts_names_def all_names_def base_names_def ambient_def)
  moreover have "''None'' \<in> S" using S by (auto simp: base_names_def ambient_def)
  ultimately show ?thesis by (simp add: agent_init_def params_names_all stmts_names_def)
qed

lemma lowerAgentDecl_refers:
  assumes S: "base_names \<subseteq> S" and u: "agent_uses a \<subseteq> S"
  shows "refers S stmt_names (lowerAgentDecl a)"
proof -
  have "refers S functions_names (collect (map (lowerIntent (AgName a)) (Intents a)))"
    unfolding functions_names_def
  proof (intro refers_collect ballI)
    fix m assume "m \<in> set (map (lowerIntent (AgName a)) (Intents a))"
    then obtain i where i: "i \<in> set (Intents a)" "m = lowerIntent (AgName a) i" by auto
    have "block_uses (IntentBody i) \<subseteq> S" using u i(1) by (auto simp: agent_uses_def)
    then have "refers S stmts_names (within (InIntent (AgName a) (IntentName i)) (lowerBlock (IntentBody i)))"
      by (intro refers_within lowerBlock_refers [OF S])
    moreover have "all_names param_names (map (\<lambda>(n, t). param n (pyTypeFor t)) (IntentParams i)) \<subseteq> S"
      by (simp add: all_names_def UN_subset_iff case_prod_beta scalar_names [OF S])
    moreover have "''None'' \<in> S" "type_names (pyTypeFor (IntentReturn i)) \<subseteq> S" using S scalar_names [OF S] by (auto simp: base_names_def ambient_def)
    ultimately show "refers S function_names m"
      unfolding i(2) lowerIntent_def by (intro refers_lift1 [where nm = stmts_names]) (auto simp: params_names_all)
  qed
  moreover have u': "field_uses (AgFields a) \<subseteq> S" "RFieldName ` set (AgFields a) \<subseteq> S" using u by (simp_all add: agent_uses_def)
  moreover note fields_names_subset [OF S u'(1)] agent_init_names [OF S u']
  ultimately show ?thesis
    unfolding lowerAgentDecl_def by (intro refers_lift1 [where nm = functions_names]) (simp_all add: le_supI1)
qed

lemma record_decl_names:
  "insert ''dataclass'' base_names \<subseteq> S \<Longrightarrow> field_uses (RecFields r) \<subseteq> S \<Longrightarrow> stmt_names (lowerRecordDecl r) \<subseteq> S"
  using fields_names_subset [of S "RecFields r"] by (simp add: lowerRecordDecl_def frozen_def functions_names_def)

lemma union_decl_names:
  assumes S: "insert ''dataclass'' base_names \<subseteq> S" and u: "union_uses u \<subseteq> S"
  shows "stmts_names (lowerUnionDecl u) \<subseteq> S"
proof -
  have S': "base_names \<subseteq> S" using S by simp
  have "fields_names (map variant_field (VariantFields v)) \<subseteq> S" if "v \<in> set (Variants u)" for v
  proof -
    have "annotation_names (VFieldRecord f) \<subseteq> S \<and> annotation_names (VFieldUnion f) \<subseteq> S" if "f \<in> set (VariantFields v)" for f
      using u \<open>v \<in> set (Variants u)\<close> that unfolding union_uses_def by blast
    then show ?thesis unfolding fields_names_def variant_field_def by (simp add: UN_subset_iff union_type_names [OF S'])
  qed
  moreover have "VariantName ` set (Variants u) \<subseteq> S" using u unfolding union_uses_def by blast
  ultimately show ?thesis
    using S unfolding lowerUnionDecl_def stmts_names_def
    by (simp add: all_names_def UN_subset_iff frozen_def functions_names_def)
qed

lemma data_decls_refers:
  assumes S: "base_names \<subseteq> S" and u: "program_uses p \<subseteq> S"
  shows "refers S stmts_names (data_decls p)"
proof (cases "Records p = [] \<and> Unions p = []")
  case True
  then show ?thesis by (simp add: data_decls_def stmts_names_def refers_needing_ret)
next
  case False
  have "stmts_names (map lowerRecordDecl (Records p) @ concat (map lowerUnionDecl (Unions p))) \<subseteq> S \<union> {''dataclass''}"
  proof -
    have "field_uses (RecFields r) \<subseteq> S \<union> {''dataclass''}" if "r \<in> set (Records p)" for r
      using u that unfolding program_uses_def by blast
    then have "stmt_names (lowerRecordDecl r) \<subseteq> S \<union> {''dataclass''}" if "r \<in> set (Records p)" for r
      using that S by (intro record_decl_names) auto
    moreover have "union_uses x \<subseteq> S \<union> {''dataclass''}" if "x \<in> set (Unions p)" for x
      using u that unfolding program_uses_def by blast
    then have "stmts_names (lowerUnionDecl x) \<subseteq> S \<union> {''dataclass''}" if "x \<in> set (Unions p)" for x
      using that S by (intro union_decl_names) auto
    moreover have "stmts_names (concat xss) = (\<Union>xs \<in> set xss. stmts_names xs)" for xss
      by (auto simp: stmts_names_def all_names_def)
    ultimately show ?thesis by (simp add: stmts_names_def all_names_def UN_subset_iff)
  qed
  then have "stmts_names (map lowerRecordDecl (Records p) @ concat (map lowerUnionDecl (Unions p)))
      \<subseteq> S \<union> flag_names (needsDataclass_update on l)" for l
    by (rule order_trans) simp
  then show ?thesis unfolding data_decls_def by (simp only: False if_False refers_needing_ret flag_updates)
qed

lemma program_parts:
  "f \<in> set (Functions p) \<Longrightarrow> function_uses f \<subseteq> program_uses p" "a \<in> set (Agents p) \<Longrightarrow> agent_uses a \<subseteq> program_uses p"
  by (auto simp: program_uses_def)

lemma other_functions_subset: "set (other_functions p) \<subseteq> set (Functions p)"
  by (auto simp: other_functions_def in_set_enumerate_eq)

lemma lowerDefs_refers:
  assumes S: "base_names \<subseteq> S" and u: "program_uses p \<subseteq> S"
  shows "refers S stmts_names (lowerDefs p)"
proof -
  have "function_uses f \<subseteq> S" if "f \<in> set (other_functions p)" for f
    using program_parts(1) [OF subsetD [OF other_functions_subset that]] u by (rule order_trans)
  then have "refers S stmts_names (collect (map lowerFunction (other_functions p)))"
    unfolding stmts_names_def by (simp add: refers_collect lowerFunction_refers [OF S])
  moreover have "agent_uses a \<subseteq> S" if "a \<in> set (Agents p)" for a
    using program_parts(2) [OF that] u by (rule order_trans)
  then have "refers S stmts_names (collect (map lowerAgentDecl (Agents p)))"
    unfolding stmts_names_def by (simp add: refers_collect lowerAgentDecl_refers [OF S])
  ultimately show ?thesis
    unfolding lowerDefs_def using data_decls_refers [OF S u]
    by (auto simp: stmts_names_def all_names_def
      intro!: refers_lift3 [where ?nm1.0 = stmts_names and ?nm2.0 = stmts_names and ?nm3.0 = stmts_names])
qed

lemma lowerProgram_refers:
  assumes S: "base_names \<subseteq> S" and u: "program_uses p \<subseteq> S" and f: "f \<in> set (Functions p)"
  shows "refers S stmts_names (lowerProgram p f)"
proof -
  have "block_uses (Body f) \<subseteq> S" using u program_parts(1) [OF f] unfolding function_uses_def by blast
  moreover have "''__name__'' \<in> S" "''main'' \<in> S" "''None'' \<in> S" using S by (auto simp: base_names_def ambient_def)
  then have "stmts_names (module_stmts body defs) \<subseteq> S \<union> stmts_names body \<union> stmts_names defs" for body defs
    by (auto simp: module_stmts_def main_guard_def stmts_names_def params_names_def)
  ultimately show ?thesis
    using lowerDefs_refers [OF S u] lowerBlock_refers [OF S]
    by (simp add: lowerProgram_def refers_lift2 [where ?nm1.0 = stmts_names and ?nm2.0 = stmts_names])
qed

subsection \<open>The imports of the module\<close>

lemma set_import_if [simp]: "set (import_if b x ns) = {i. b \<and> i = import_from x ns}"
  by (simp add: import_if_def)

lemma imported: "needsMath l \<Longrightarrow> import_from ''mochi_runtime.math'' [''fdiv''] \<in> set (module_imports l)"
  "needsMapping l \<Longrightarrow> import_from ''mochi_runtime.mapping'' [''keys_sorted'', ''values_sorted''] \<in> set (module_imports l)"
  "needsDataclass l \<Longrightarrow> import_from ''dataclasses'' [''dataclass''] \<in> set (module_imports l)"
  "needsCallable l \<Longrightarrow> import_from ''collections.abc'' [''Callable''] \<in> set (module_imports l)"
  "needsQuery l \<or> needsSumI64 l \<or> needsSumF64 l \<Longrightarrow> import_from ''mochi_runtime.query'' (query_names l) \<in> set (module_imports l)"
  "needsStrFrom l \<Longrightarrow> import_from ''mochi_runtime.fmt'' [''str_from''] \<in> set (module_imports l)"
  "needsDeque l \<Longrightarrow> import_from ''collections'' [''deque''] \<in> set (module_imports l)"
  "needsStream l \<Longrightarrow> import_from ''mochi_runtime.stream''
     [''MochiStream'', ''MochiSub'', ''mochi_emit'', ''mochi_make_stream'', ''mochi_recv_sub'', ''mochi_subscribe'']
     \<in> set (module_imports l)"
  "needsExcept l \<Longrightarrow> import_from ''mochi_runtime.except_'' [''MochiPanic'', ''_panic_code''] \<in> set (module_imports l)"
  "needsLLM l \<Longrightarrow> import_from ''mochi_runtime.llm'' [''mochi_llm_generate''] \<in> set (module_imports l)"
  "needsFetch l \<Longrightarrow> import_from ''mochi_runtime.fetch'' [''mochi_fetch'', ''mochi_write_file''] \<in> set (module_imports l)"
  "pythonExternNames l \<noteq> [] \<Longrightarrow>
     import_from (''mochi_user_'' @ moduleName l @ ''_externs'') (pythonExternNames l) \<in> set (module_imports l)"
  by (simp_all add: module_imports_def)

lemma imports_cover:
  assumes "Imports m = module_imports l"
  shows "flag_names l \<subseteq> imported_names m" "set (pythonExternNames l) \<subseteq> imported_names m" "''Print'' \<in> imported_names m"
proof -
  have i: "set ns \<subseteq> imported_names m" if "import_from x ns \<in> set (module_imports l)" for x ns
    using that assms unfolding imported_names_def by (force simp: import_from_def)
  show "''Print'' \<in> imported_names m" using i [of "''mochi_runtime.io''" "[''Print'']"] by (simp add: module_imports_def)
  show "set (pythonExternNames l) \<subseteq> imported_names m"
    using i [OF imported(12)] by (cases "pythonExternNames l = []") auto
  have "set (query_names l) \<subseteq> imported_names m"
    using i [OF imported(5)] by (cases "needsQuery l \<or> needsSumI64 l \<or> needsSumF64 l") (auto simp: query_names_def)
  then have q: "needsQuery l \<longrightarrow> ''sort_asc'' \<in> imported_names m" "needsSumI64 l \<longrightarrow> ''sum_i64'' \<in> imported_names m"
    "needsSumF64 l \<longrightarrow> ''sum_f64'' \<in> imported_names m" by (auto simp: query_names_def)
  have "list_all (\<lambda>(f, ns). f l \<longrightarrow> set ns \<subseteq> imported_names m) flag_table"
    unfolding flag_table_def using q i [OF imported(1)] i [OF imported(2)] i [OF imported(3)] i [OF imported(4)]
      i [OF imported(6)] i [OF imported(7)] i [OF imported(8)] i [OF imported(9)] i [OF imported(10)] i [OF imported(11)]
    by simp
  then show "flag_names l \<subseteq> imported_names m" by (auto simp: flag_names_def list_all_iff)
qed

text \<open>
  C4. Every name a lowered module refers to is bound: it is written in the program, it is one of the
  Python builtins and names the lowering binds itself, or the module imports it.  The names of an
  annotation are all the words in it, at any depth of its brackets.  In particular each use of a runtime helper
  (\<open>Print\<close>, \<open>fdiv\<close>, \<open>sort_asc\<close>, \<open>MochiPanic\<close>, ...), in a body, an annotation or a
  decorator, comes with its import, and each declared Python extern is imported.
\<close>

theorem Lower_binds_names:
  assumes "Lower p m = Some (Inr md)"
  shows "module_names md \<subseteq> program_uses p \<union> ambient \<union> imported_names md \<and> set (PythonFuncs p) \<subseteq> imported_names md"
proof -
  from Lower_result [OF assms] obtain f ss l where f: "f \<in> set (Functions p)"
    and l: "lowerProgram p f (registerPythonExterns p (lowerer_init m)) = Inr (ss, l)"
      "md = \<lparr>FutureAnnotations = True, Imports = module_imports l, Stmts = ss\<rparr>" by blast
  have "refers (program_uses p \<union> base_names) stmts_names (lowerProgram p f)" by (rule lowerProgram_refers [OF _ _ f]) auto
  with l(1) have e: "extends (registerPythonExterns p (lowerer_init m)) l" "stmts_names ss \<subseteq> program_uses p \<union> base_names \<union> flag_names l"
    unfolding refers_def by blast+
  have "pythonExterns l = remdups (PythonFuncs p)" using e(1) by (simp add: extends_def registerPythonExterns_def)
  then have "set (pythonExternNames l) = set (PythonFuncs p)" by (simp add: pythonExternNames_def sort_strings_def)
  moreover have "module_names md = stmts_names ss" using l(2) by (simp add: module_names_def stmts_names_def all_names_def)
  ultimately show ?thesis using imports_cover [of md l] l(2) e(2) by (auto simp: base_names_def)
qed


text \<open>A program whose main function prints the sum of a list of floats divided by two.\<close>

definition no_types :: VarTypes where
  "no_types =
    \<lparr>VarType = TypeUnit, ElemType = TypeInvalid, RecordName = [], ElemRecordName = [], UnionName = [], KeyType = TypeInvalid,
     ValueType = TypeInvalid, ChanElemType = TypeInvalid, StreamElemType = TypeInvalid, SubElemType = TypeInvalid,
     AgentName = []\<rparr>"

definition sample_main :: Function where
  "sample_main =
    \<lparr>FuncName = ''main'', FuncParams = [], Captures = [], ReturnTypes = no_types, ReturnSig = None,
     Body = [CallStmt ''mochi_print_f64''
       [Aotir.BinaryExpr BinDivF64 (ListSumExpr (CallExpr ''mochi_py_load'' []) TypeFloat) (Aotir.FloatLit 2)]]\<rparr>"

definition sample_lowering :: Program where
  "sample_lowering =
    \<lparr>Functions = [sample_main], MainIndex = 0, Records = [], Unions = [], Agents = [], ExternFuncs = [], GoFuncs = [],
     PythonFuncs = [''load''], JSFuncs = [], JavaFuncs = []\<rparr>"

lemma sample_lowers: "\<exists>md. Lower sample_lowering ''avg'' = Some (Inr md) \<and> ''fdiv'' \<in> module_names md"
  by (simp add: Lower_def sample_lowering_def sample_main_def rejectNonPythonExterns_def main_function_def lowerProgram_def lowerDefs_def data_decls_def
      other_functions_def lowerBlock_def block_def single_def lowerCallStmt_def lowerBinaryExpr_def callee_def
      stripPythonExternPrefix_def cut_prefix_def ret_def lift1_def lift2_def lift3_def needing_def module_names_def module_stmts_def
      print_line_def stmts_names_def)

lemma Lower_binds_names_witness: "\<exists>md. Lower sample_lowering ''avg'' = Some (Inr md) \<and> ''fdiv'' \<in> module_names md
  \<and> module_names md \<subseteq> program_uses sample_lowering \<union> ambient \<union> imported_names md \<and> ''load'' \<in> imported_names md"
proof -
  obtain md where md: "Lower sample_lowering ''avg'' = Some (Inr md)" "''fdiv'' \<in> module_names md" using sample_lowers by blast
  from Lower_binds_names [OF md(1)] md show ?thesis by (auto simp: sample_lowering_def)
qed

end
