(* ===== verification/Lower_Blocks.thy ===== *)
theory Lower_Blocks
  imports Lower_Names
begin

section \<open>Lowered modules print as well-formed Python\<close>

text \<open>
  The interface between the lowerer and a property of Python expressions: a property kept by the
  constructors the lowerer builds holds of what it returns.  It is instantiated with \<open>wf_expr\<close>, so
  that the printed module has the block structure of its tree, and with \<open>readable\<close>, so that the
  printed expressions read back.
\<close>

subsection \<open>What a step gives\<close>

definition gives :: "('a \<Rightarrow> bool) \<Rightarrow> 'a lower \<Rightarrow> bool" where
  "gives P m \<longleftrightarrow> (\<forall>l x l'. m l = Inr (x, l') \<longrightarrow> P x)"

lemma gives_ret [simp]: "gives P (ret x) = P x"
  by (simp add: gives_def ret_def)

lemma gives_fail [simp]: "gives P (fail e)"
  by (simp add: gives_def fail_def)

lemma gives_needing [simp]: "gives P m \<Longrightarrow> gives P (needing u m)"
  by (auto simp: gives_def needing_def split: sum.splits)

lemma gives_within [simp]: "gives P m \<Longrightarrow> gives P (within w m)"
  by (auto simp: gives_def within_def split: sum.splits)

lemma gives_mono: "gives P m \<Longrightarrow> (\<And>x. P x \<Longrightarrow> Q x) \<Longrightarrow> gives Q m"
  by (auto simp: gives_def)

lemma gives_lift1: "gives P m \<Longrightarrow> (\<And>x. P x \<Longrightarrow> Q (f x)) \<Longrightarrow> gives Q (lift1 f m)"
  unfolding gives_def lift1_def by (auto split: sum.splits)

lemma gives_lift2: "gives P m \<Longrightarrow> gives R n \<Longrightarrow> (\<And>x y. P x \<Longrightarrow> R y \<Longrightarrow> Q (f x y)) \<Longrightarrow> gives Q (lift2 f m n)"
  unfolding gives_def lift2_def lift1_def by (auto split: sum.splits) blast

lemma gives_lift3:
  "gives P m \<Longrightarrow> gives R n \<Longrightarrow> gives T k \<Longrightarrow> (\<And>x y z. P x \<Longrightarrow> R y \<Longrightarrow> T z \<Longrightarrow> Q (f x y z)) \<Longrightarrow> gives Q (lift3 f m n k)"
  unfolding lift3_def
  by (rule gives_lift2 [where P = "\<lambda>(x, y). P x \<and> R y" and R = T]) (auto intro: gives_lift2 [where P = P and R = R])

definition all :: "('a \<Rightarrow> bool) \<Rightarrow> 'a list \<Rightarrow> bool" where
  "all P xs \<longleftrightarrow> (\<forall>x \<in> set xs. P x)"

lemma all_simps [simp]: "all P []" "all P (x # xs) \<longleftrightarrow> P x \<and> all P xs" "all P (xs @ ys) \<longleftrightarrow> all P xs \<and> all P ys"
  by (auto simp: all_def)

lemma gives_collect: "\<forall>m \<in> set ms. gives P m \<Longrightarrow> gives (\<lambda>xs. length xs = length ms \<and> all P xs) (collect ms)"
proof (induction ms)
  case (Cons m ms)
  then show ?case by (auto intro!: gives_lift2 [where P = P and R = "\<lambda>xs. length xs = length ms \<and> all P xs"])
qed simp

lemma gives_all: "\<forall>m \<in> set ms. gives P m \<Longrightarrow> gives (all P) (collect ms)"
  using gives_collect [of ms P] by (auto simp: gives_def)

subsection \<open>The lowerer's client\<close>

text \<open>The names the lowerer writes itself.\<close>

definition emitted_names :: "bytes list" where
  "emitted_names =
    [''self'', ''fdiv'', ''len'', ''int'', ''str_from'', ''sum_f64'', ''sum_i64'', ''sort_asc'', ''list'', ''filter'', ''map'',
     ''keys_sorted'', ''values_sorted'', ''set'', ''sorted'', ''deque'', ''mochi_make_stream'', ''mochi_subscribe'',
     ''mochi_recv_sub'', ''mochi_llm_generate'', ''mochi_fetch'', ''mochi_write_file'', ''mochi_emit'', ''MochiPanic'',
     ''_panic_code'', ''__mp'', ''Print'', ''main'', ''__name__'']"

text \<open>What a property asks of the names and literals of a program.\<close>

record Admits =
  AName :: "bytes \<Rightarrow> bool"
  AStr :: "bytes \<Rightarrow> bool"
  ABase :: "Aotir.Expr \<Rightarrow> bool"
  AFloat :: "64 word \<Rightarrow> bool"

definition literal_number :: "Aotir.Expr \<Rightarrow> bool" where
  "literal_number e = (case e of Aotir.IntLit i \<Rightarrow> True | Aotir.FloatLit f \<Rightarrow> True | _ \<Rightarrow> False)"

definition datalog_strings :: "DatalogQueryExpr \<Rightarrow> bytes list" where
  "datalog_strings q = (case QueryProg q of None \<Rightarrow> [] | Some p \<Rightarrow> the (datalogEval q p))"

definition node_admitted :: "Admits \<Rightarrow> Aotir.Expr \<Rightarrow> bool" where
  "node_admitted a e =
    (case e of
       StringLit s \<Rightarrow> AStr a s
     | Aotir.FloatLit f \<Rightarrow> AFloat a f
     | VarRef n \<Rightarrow> (case self_field n of Some f \<Rightarrow> ident f | None \<Rightarrow> AName a n)
     | CallExpr f as \<Rightarrow> AName a (callee f)
     | FunCallExpr f as \<Rightarrow> ABase a f
     | StrIndexExpr r i \<Rightarrow> ABase a r
     | Aotir.IndexExpr r i \<Rightarrow> ABase a r
     | ListSliceExpr r s t \<Rightarrow> ABase a r
     | MapGetExpr r k \<Rightarrow> ABase a r
     | MapLit ks vs \<Rightarrow> length ks = length vs
     | FunLit f cs \<Rightarrow> AName a f
     | RecordLit c fs \<Rightarrow> AName a c \<and> (\<forall>n \<in> fst ` set fs. ident n)
     | VariantLit c fs \<Rightarrow> AName a c \<and> (\<forall>n \<in> fst ` set fs. ident n)
     | AgentLit c fs \<Rightarrow> AName a c \<and> (\<forall>n \<in> fst ` set fs. ident n)
     | FieldAccess r f \<Rightarrow> ident f \<and> \<not> literal_number r
     | VariantFieldAccess r f \<Rightarrow> ident f \<and> \<not> literal_number r
     | UnionVarRef n \<Rightarrow> AName a n
     | StrUpperExpr r \<Rightarrow> \<not> literal_number r
     | StrLowerExpr r \<Rightarrow> \<not> literal_number r
     | ChanRecvExpr r \<Rightarrow> \<not> literal_number r
     | AgentIntentCallExpr m r as spawned \<Rightarrow> ident m \<and> \<not> literal_number r
     | LLMGenerateExpr p m q \<Rightarrow> AStr a p
     | DatalogQuery q \<Rightarrow> list_all (AStr a) (datalog_strings q)
     | _ \<Rightarrow> True)"

definition admitted :: "Admits \<Rightarrow> Aotir.Expr \<Rightarrow> bool" where
  "admitted a e \<longleftrightarrow> (\<forall>x \<in> set (subexprs e). node_admitted a x)"

lemma lowered_number: "gives (\<lambda>x. numeric x = literal_number e) (lowerExpr e)"
  by (cases e)
    (auto simp: literal_number_def lowerBinaryExpr_def lowerUnaryExpr_def lowerRecordLit_def lowerDatalogQueryExpr_def
      lowerAgentIntentCall_def gives_def ret_def fail_def lift1_def lift2_def lift3_def needing_def
      split: sum.splits option.splits UnOp.splits if_splits)

lemma method_idents [simp]: "ident ''upper''" "ident ''lower''" "ident ''popleft''" "ident ''append''" "ident ''maxlen''" "ident ''line''"
  by (simp_all add: ident_def ident_char_def letter_def is_digit_def Let_def byte_def)

locale expr_property =
  fixes a :: Admits and ok base :: "Py_Source.Expr \<Rightarrow> bool"
  assumes ok_call: "ok f \<Longrightarrow> base f \<Longrightarrow> \<forall>x \<in> set as. ok x \<Longrightarrow> \<forall>(n, v) \<in> set ks. ident n \<and> ok v \<Longrightarrow> ok (Call f as ks)"
    and ok_binary: "ok x \<Longrightarrow> ok y \<Longrightarrow> op \<in> set binary_ops \<Longrightarrow> ok (Py_Source.BinaryExpr x op y)"
    and ok_unary: "ok x \<Longrightarrow> op \<in> set unary_ops \<Longrightarrow> ok (Py_Source.UnaryExpr op x)"
    and ok_list: "\<forall>x \<in> set es. ok x \<Longrightarrow> ok (Py_Source.ListLit es)"
    and ok_set: "es \<noteq> [] \<Longrightarrow> \<forall>x \<in> set es. ok x \<Longrightarrow> ok (SetLit es)"
    and ok_dict: "length es = length vs \<Longrightarrow> \<forall>x \<in> set es. ok x \<Longrightarrow> \<forall>x \<in> set vs. ok x \<Longrightarrow> ok (DictLit es vs)"
    and ok_slice: "ok x \<Longrightarrow> base x \<Longrightarrow> ok y \<Longrightarrow> ok z \<Longrightarrow> ok (SliceExpr x (Some y) (Some z))"
    and ok_index: "ok x \<Longrightarrow> base x \<Longrightarrow> ok y \<Longrightarrow> ok (Py_Source.IndexExpr x y)"
    and ok_name: "AName a n \<or> n \<in> set emitted_names \<Longrightarrow> ok (Name n)"
    and ok_attribute: "ok x \<Longrightarrow> \<not> numeric x \<Longrightarrow> ident n \<Longrightarrow> ok (Attribute x n)"
    and ok_str: "AStr a s \<Longrightarrow> ok (StrLit s)"
    and ok_int: "ok (Py_Source.IntLit i)"
    and ok_float: "AFloat a w \<Longrightarrow> ok (Py_Source.FloatLit w)"
    and ok_bool: "ok (Py_Source.BoolLit b)"
    and base_name [simp]: "base (Name n)"
    and base_attribute [simp]: "base (Attribute x n)"
    and base_admitted: "ABase a e \<Longrightarrow> numeric x = literal_number e \<Longrightarrow> base x"
begin

lemma ok_emitted: "n \<in> set emitted_names \<Longrightarrow> \<forall>x \<in> set as. ok x \<Longrightarrow> ok (call n as)"
  by (rule ok_call) (auto intro: ok_name)

lemma ok_self: "ident f \<Longrightarrow> ok (Attribute (Name ''self'') f)"
  by (intro ok_attribute ok_name) (simp_all add: emitted_names_def)

lemma ok_method: "ok x \<Longrightarrow> \<not> numeric x \<Longrightarrow> ident n \<Longrightarrow> \<forall>y \<in> set as. ok y \<Longrightarrow> ok (method_call n x as)"
  by (rule ok_call) (auto intro: ok_attribute)

lemma gives_binary: "gives ok x \<Longrightarrow> gives ok y \<Longrightarrow> gives ok (lowerBinaryExpr op x y)"
proof -
  assume xy: "gives ok x" "gives ok y"
  show ?thesis
  proof (cases "op = BinDivF64")
    case True
    with xy show ?thesis
      unfolding lowerBinaryExpr_def
      by (auto intro!: gives_needing gives_lift2 [where P = ok and R = ok] ok_emitted simp: emitted_names_def)
  next
    case False
    have "t \<in> set binary_ops" if "map_of binOpToPython op = Some t" for t
      using map_of_SomeD [OF that] by (auto simp: binOpToPython_def binary_ops_def)
    with False xy show ?thesis
      unfolding lowerBinaryExpr_def
      by (auto intro!: gives_lift2 [where P = ok and R = ok] gives_lift3 [where P = ok and R = ok and T = ok] ok_binary split: option.split)
  qed
qed

lemma gives_unary: "gives ok x \<Longrightarrow> gives ok (lowerUnaryExpr op x)"
  unfolding lowerUnaryExpr_def
  by (cases op) (auto simp: unary_ops_def intro!: gives_lift1 [where P = ok] gives_lift2 [where P = ok and R = ok] ok_unary)

lemma gives_record:
  assumes "AName a c" "\<forall>(n, m) \<in> set fs. ident n \<and> gives ok m"
  shows "gives ok (lowerRecordLit c fs)"
  unfolding lowerRecordLit_def lowerFields_def
proof (rule gives_lift1 [OF gives_all])
  show "\<forall>m \<in> set (map (\<lambda>(n, m). lift1 (Pair n) m) fs). gives (\<lambda>(n, v). ident n \<and> ok v) m"
    using assms(2) by (auto intro!: gives_lift1 [where P = ok])
  show "all (\<lambda>(n, v). ident n \<and> ok v) ks \<Longrightarrow> ok (Call (Name c) [] ks)" for ks
    using assms(1) by (intro ok_call) (auto simp: all_def intro: ok_name)
qed

lemma gives_method:
  assumes "gives ok (lowerExpr r)" "\<not> literal_number r"
  shows "gives (\<lambda>x. ok x \<and> \<not> numeric x) (lowerExpr r)"
  using assms lowered_number [of r] by (auto simp: gives_def)

lemma gives_base:
  assumes "gives ok (lowerExpr r)" "ABase a r"
  shows "gives (\<lambda>x. ok x \<and> base x) (lowerExpr r)"
  using assms lowered_number [of r] base_admitted [of r] by (auto simp: gives_def)

lemma ok_datalog: "list_all (AStr a) (datalog_strings q) \<Longrightarrow> ok (lowerDatalogQueryExpr q)"
  unfolding lowerDatalogQueryExpr_def datalog_strings_def
  by (auto simp: list_all_iff intro!: ok_list ok_str split: option.splits)

lemmas ok_steps =
  gives_needing
  gives_lift1 [where P = ok and Q = ok] gives_lift2 [where P = ok and R = ok and Q = ok]
  gives_lift3 [where P = ok and R = ok and T = ok and Q = ok]
  ok_emitted ok_binary ok_list ok_set ok_index ok_slice

lemma gives_exprs: "\<forall>e \<in> set es. gives ok (lowerExpr e) \<Longrightarrow> gives (\<lambda>xs. length xs = length es \<and> all ok xs) (collect (map lowerExpr es))"
  using gives_collect [of "map lowerExpr es" ok] by simp

lemma lowerExpr_gives: "admitted a e \<Longrightarrow> gives ok (lowerExpr e)"
proof (induction e)
  case (VarRef n)
  then show ?case
    by (cases "self_field n") (auto simp: admitted_def node_admitted_def intro: ok_name ok_self)
next
  case (BinaryExpr op x y)
  then show ?case by (simp add: admitted_def ball_Un gives_binary)
next
  case (UnaryExpr op x)
  then show ?case by (simp add: admitted_def gives_unary)
next
  case (CallExpr f as)
  then have "\<forall>e \<in> set as. gives ok (lowerExpr e)" "AName a (callee f)" by (auto simp: admitted_def node_admitted_def)
  then show ?case by (auto intro!: gives_lift1 [OF gives_exprs] ok_call ok_name simp: all_def)
next
  case (FunCallExpr f as)
  then have "\<forall>e \<in> set as. gives ok (lowerExpr e)" "gives (\<lambda>x. ok x \<and> base x) (lowerExpr f)"
    by (auto simp: admitted_def node_admitted_def intro!: gives_base)
  then show ?case by (auto intro!: gives_lift2 [OF _ gives_exprs] ok_call simp: all_def)
next
  case (StrIndexExpr r i)
  then have "gives (\<lambda>x. ok x \<and> base x) (lowerExpr r)" "gives ok (lowerExpr i)"
    by (auto simp: admitted_def node_admitted_def ball_Un intro!: gives_base)
  then show ?case by (auto intro!: gives_lift2 [where R = ok] ok_index)
next
  case (IndexExpr r i)
  then have "gives (\<lambda>x. ok x \<and> base x) (lowerExpr r)" "gives ok (lowerExpr i)"
    by (auto simp: admitted_def node_admitted_def ball_Un intro!: gives_base)
  then show ?case by (auto intro!: gives_lift2 [where R = ok] ok_index)
next
  case (MapGetExpr r k)
  then have "gives (\<lambda>x. ok x \<and> base x) (lowerExpr r)" "gives ok (lowerExpr k)"
    by (auto simp: admitted_def node_admitted_def ball_Un intro!: gives_base)
  then show ?case by (auto intro!: gives_lift2 [where R = ok] ok_index)
next
  case (ListSliceExpr r s t)
  then have "gives (\<lambda>x. ok x \<and> base x) (lowerExpr r)" "gives ok (lowerExpr s)" "gives ok (lowerExpr t)"
    by (auto simp: admitted_def node_admitted_def ball_Un intro!: gives_base)
  then show ?case by (auto intro!: gives_lift3 [where R = ok and T = ok] ok_slice)
next
  case (ListLit es)
  then have "\<forall>e \<in> set es. gives ok (lowerExpr e)" by (auto simp: admitted_def)
  then show ?case by (auto intro!: gives_lift1 [OF gives_exprs] ok_list simp: all_def)
next
  case (MapLit ks vs)
  then have "\<forall>e \<in> set ks. gives ok (lowerExpr e)" "\<forall>e \<in> set vs. gives ok (lowerExpr e)" "length ks = length vs"
    by (auto simp: admitted_def node_admitted_def ball_Un)
  then show ?case by (auto intro!: gives_lift2 [OF gives_exprs gives_exprs] ok_dict simp: all_def)
next
  case (SetLiteralExpr es)
  then have "\<forall>e \<in> set es. gives ok (lowerExpr e)" by (auto simp: admitted_def)
  then show ?case
    by (auto intro!: gives_lift1 [OF gives_exprs] ok_set ok_emitted simp: all_def emitted_names_def)
next
  case (RecordLit c fs)
  then have "\<forall>(n, m) \<in> set (map (map_prod id lowerExpr) fs). ident n \<and> gives ok m" "AName a c"
    by (fastforce simp: admitted_def node_admitted_def)+
  then show ?case by (simp add: gives_record)
next
  case (VariantLit c fs)
  then have "\<forall>(n, m) \<in> set (map (map_prod id lowerExpr) fs). ident n \<and> gives ok m" "AName a c"
    by (fastforce simp: admitted_def node_admitted_def)+
  then show ?case by (simp add: gives_record)
next
  case (AgentLit c fs)
  then have "\<forall>(n, m) \<in> set (map (map_prod id lowerExpr) fs). ident n \<and> gives ok m" "AName a c"
    by (fastforce simp: admitted_def node_admitted_def)+
  then show ?case by (simp add: gives_record)
next
  case (FieldAccess r f)
  then have "gives (\<lambda>x. ok x \<and> \<not> numeric x) (lowerExpr r)" "ident f"
    by (auto simp: admitted_def node_admitted_def intro!: gives_method)
  then show ?case by (auto intro!: gives_lift1 ok_attribute)
next
  case (VariantFieldAccess r f)
  then have "gives (\<lambda>x. ok x \<and> \<not> numeric x) (lowerExpr r)" "ident f"
    by (auto simp: admitted_def node_admitted_def intro!: gives_method)
  then show ?case by (auto intro!: gives_lift1 ok_attribute)
next
  case (StrUpperExpr r)
  then have "gives (\<lambda>x. ok x \<and> \<not> numeric x) (lowerExpr r)"
    by (auto simp: admitted_def node_admitted_def intro!: gives_method)
  then show ?case by (auto intro!: gives_lift1 ok_method simp: method_idents)
next
  case (StrLowerExpr r)
  then have "gives (\<lambda>x. ok x \<and> \<not> numeric x) (lowerExpr r)"
    by (auto simp: admitted_def node_admitted_def intro!: gives_method)
  then show ?case by (auto intro!: gives_lift1 ok_method simp: method_idents)
next
  case (ChanRecvExpr r)
  then have "gives (\<lambda>x. ok x \<and> \<not> numeric x) (lowerExpr r)"
    by (auto simp: admitted_def node_admitted_def intro!: gives_method)
  then show ?case by (auto intro!: gives_lift1 ok_method simp: method_idents)
next
  case (ChanMakeExpr c)
  then have "gives ok (lowerExpr c)" by (simp add: admitted_def)
  then show ?case by (auto intro!: gives_needing gives_lift1 [where P = ok] ok_call ok_name simp: emitted_names_def)
next
  case (LLMGenerateExpr p m q)
  then have "gives ok (lowerExpr m)" "gives ok (lowerExpr q)" "AStr a p" by (auto simp: admitted_def node_admitted_def)
  then show ?case by (auto intro!: ok_steps ok_str simp: emitted_names_def)
next
  case (AgentIntentCallExpr m r as spawned)
  then have "\<forall>e \<in> set as. gives ok (lowerExpr e)" "gives (\<lambda>x. ok x \<and> \<not> numeric x) (lowerExpr r)" "ident m"
    by (auto simp: admitted_def node_admitted_def intro!: gives_method)
  then show ?case
    by (auto simp: lowerAgentIntentCall_def all_def intro!: gives_lift2 [OF _ gives_exprs] ok_method)
next
  case (DatalogQuery q)
  then show ?case by (simp add: admitted_def node_admitted_def ok_datalog)
qed (auto simp: admitted_def node_admitted_def emitted_names_def binary_ops_def ball_Un intro!: ok_steps ok_name ok_str ok_int ok_float ok_bool)

end


subsection \<open>The two instances\<close>

definition wf_admits :: Admits where
  "wf_admits = \<lparr>AName = ident, AStr = (\<lambda>s. True), ABase = (\<lambda>e. True), AFloat = (\<lambda>f. True)\<rparr>"

definition readable_admits :: "Printer \<Rightarrow> (bytes \<Rightarrow> 64 word) \<Rightarrow> Admits" where
  "readable_admits pr rd = \<lparr>AName = plain_name, AStr = utf8, ABase = (\<lambda>e. \<not> literal_number e), AFloat = float_reads pr rd\<rparr>"

lemma emitted_plain: "list_all plain_name emitted_names"
  by (simp add: emitted_names_def plain_name_def ident_def ident_char_def letter_def is_digit_def Let_def byte_def)

lemma emitted_ident: "n \<in> set emitted_names \<Longrightarrow> ident n"
  using emitted_plain by (auto simp: list_all_iff plain_name_def)

interpretation wf: expr_property wf_admits wf_expr "\<lambda>x. True"
  by unfold_locales (auto simp: wf_admits_def emitted_ident)

interpretation read: expr_property "readable_admits pr rd" "readable pr rd" "\<lambda>x. \<not> numeric x" for pr rd
  using emitted_plain by unfold_locales (auto simp: readable_admits_def list_all_iff)

subsection \<open>Well-formed statements\<close>

definition var_wf :: "VarTypes \<Rightarrow> bool" where
  "var_wf s \<longleftrightarrow> phrase (RecordName s) \<and> phrase (ElemRecordName s) \<and> phrase (UnionName s) \<and> phrase (AgentName s)"

text \<open>A \<open>let\<close> without a value needs an annotation to be a statement.\<close>

definition annotated :: "VarTypes \<Rightarrow> bool" where
  "annotated s \<longleftrightarrow> (case let_type s (lowerer_init []) of Inl e \<Rightarrow> False | Inr (t, l) \<Rightarrow> TypeName t \<noteq> [])"

primrec arm_wf :: "MatchArm \<Rightarrow> bool" where
  "arm_wf (MatchArm v bs g body) \<longleftrightarrow> ident v \<and> (\<forall>b \<in> set bs. ident (BindingVar b) \<and> ident (BindingField b))"

definition stmt_node_wf :: "Aotir.Stmt \<Rightarrow> bool" where
  "stmt_node_wf s =
    (case s of
       CallStmt f as \<Rightarrow> f \<in> set print_builtins \<or> ident (callee f)
     | LetStmt n t init \<Rightarrow> ident n \<and> var_wf t \<and> (init = None \<longrightarrow> annotated t)
     | Aotir.AssignStmt n e \<Rightarrow> (case self_field n of Some f \<Rightarrow> ident f | None \<Rightarrow> ident n)
     | MapPutStmt n k v \<Rightarrow> ident n
     | TryCatchStmt body x handler \<Rightarrow> ident x
     | Aotir.ForRangeStmt x a b body \<Rightarrow> ident x
     | Aotir.ForEachStmt x e body \<Rightarrow> ident x
     | Aotir.MatchStmt e arms d \<Rightarrow> (arms \<noteq> [] \<or> d \<noteq> None) \<and> (\<forall>a \<in> set arms. arm_wf a)
     | AgentIntentCallStmt m r as b \<Rightarrow> ident m
     | _ \<Rightarrow> True)"

definition here_wf :: "Aotir.Stmt \<Rightarrow> bool" where
  "here_wf s \<longleftrightarrow> stmt_node_wf s \<and> (\<forall>e \<in> set (own_exprs s). admitted wf_admits e)"

definition stmt_wf :: "Aotir.Stmt \<Rightarrow> bool" where
  "stmt_wf s \<longleftrightarrow> (\<forall>x \<in> set (substmts s). here_wf x)"

definition block_wf :: "Block \<Rightarrow> bool" where
  "block_wf b \<longleftrightarrow> (\<forall>s \<in> set b. stmt_wf s)"

lemma phrase_parts [simp]: "phrase []" "phrase (xs @ ys) \<longleftrightarrow> phrase xs \<and> phrase ys" "phrase (c # xs) \<longleftrightarrow> phrase_char c \<and> phrase xs"
  by (simp_all add: phrase_def)

lemma phrase_chars [simp]: "phrase_char (CHR ''['')" "phrase_char (CHR '']'')" "phrase_char (CHR '','')" "phrase_char (CHR '' '')"
    "phrase_char (CHR ''('')" "phrase_char (CHR '')'')" "phrase_char (CHR ''='')" "phrase_char (CHR ''.'')"
  by (simp_all add: phrase_char_def)

lemma phrase_letters [simp]:
  "phrase_char (CHR ''a'')" "phrase_char (CHR ''b'')" "phrase_char (CHR ''c'')" "phrase_char (CHR ''d'')" "phrase_char (CHR ''e'')" "phrase_char (CHR ''f'')" "phrase_char (CHR ''g'')" "phrase_char (CHR ''h'')" "phrase_char (CHR ''i'')" "phrase_char (CHR ''l'')" "phrase_char (CHR ''m'')" "phrase_char (CHR ''n'')" "phrase_char (CHR ''o'')" "phrase_char (CHR ''q'')" "phrase_char (CHR ''r'')" "phrase_char (CHR ''s'')" "phrase_char (CHR ''t'')" "phrase_char (CHR ''u'')" "phrase_char (CHR ''x'')" "phrase_char (CHR ''z'')" "phrase_char (CHR ''_'')" "phrase_char (CHR ''C'')" "phrase_char (CHR ''M'')" "phrase_char (CHR ''N'')" "phrase_char (CHR ''S'')" "phrase_char (CHR ''P'')" "phrase_char (CHR ''T'')" "phrase_char (CHR ''F'')"
  by (simp_all add: phrase_char_def ident_char_def letter_def is_digit_def Let_def byte_def)

lemma scalar_phrase [simp]: "phrase (TypeName (pyTypeFor t))"
  by (cases t) (simp_all add: pyTypeFor_def typed_def untyped_def)

lemma generic_phrase: "phrase c \<Longrightarrow> phrase n \<Longrightarrow> phrase (TypeName (generic c n))"
  by (simp add: generic_def typed_def untyped_def)

lemma var_phrase: "var_wf s \<Longrightarrow> phrase (TypeName (pyTypeForVar s))"
  by (cases "VarType s")
    (simp_all add: pyTypeForVar_def pyTypeForUnion_def var_wf_def Let_def typed_def untyped_def generic_phrase)

lemma join_phrase: "\<forall>x \<in> set xs. phrase x \<Longrightarrow> phrase sep \<Longrightarrow> phrase (join sep xs)"
  by (induction sep xs rule: join.induct) auto

abbreviation type_wf :: "TypeRef \<Rightarrow> bool" where
  "type_wf t \<equiv> phrase (TypeName t)"

lemma fun_phrase: "gives type_wf (pyTypeForFun g)"
proof (cases g)
  case (Some sig)
  have "phrase (join '', '' (map (\<lambda>t. TypeName (pyTypeFor t)) (ParamTypes sig)))"
    by (rule join_phrase) simp_all
  with Some show ?thesis by (auto simp: pyTypeForFun_def Let_def typed_def untyped_def intro!: gives_needing)
qed (simp add: pyTypeForFun_def untyped_def)

lemma annotation_phrase:
  assumes "var_wf s"
  shows "gives type_wf (var_annotation s g)" "gives type_wf (return_annotation s g)"
  using var_phrase [OF assms] fun_phrase [of g] by (simp_all add: var_annotation_def return_annotation_def typed_def)

lemma let_type_phrase: "var_wf s \<Longrightarrow> gives type_wf (let_type s)"
  using var_phrase [of s] unfolding let_type_def
  by (simp add: var_wf_def typed_def generic_phrase)

lemma let_type_same: "let_type s l = Inr (t, l') \<Longrightarrow> \<exists>k'. let_type s k = Inr (t, k')"
  by (auto simp: let_type_def ret_def needing_def split: if_splits)

lemma annotated_gives: "annotated s \<Longrightarrow> gives (\<lambda>t. TypeName t \<noteq> []) (let_type s)"
proof -
  assume a: "annotated s"
  show ?thesis unfolding gives_def
  proof (intro allI impI)
    fix l t l' assume "let_type s l = Inr (t, l')"
    from let_type_same [OF this, of "lowerer_init []"] obtain k' where "let_type s (lowerer_init []) = Inr (t, k')" by blast
    with a show "TypeName t \<noteq> []" by (simp add: annotated_def)
  qed
qed

lemma gives_conj: "gives P m \<Longrightarrow> gives Q m \<Longrightarrow> gives (\<lambda>x. P x \<and> Q x) m"
  by (auto simp: gives_def)

lemmas expr_wf = wf.lowerExpr_gives

lemma lowerOpt_wf: "\<forall>e \<in> set_option x. admitted wf_admits e \<Longrightarrow> gives (\<lambda>y. \<forall>e \<in> set_option y. wf_expr e) (lowerOpt x)"
  unfolding lowerOpt_def by (cases x) (auto intro!: gives_lift1 [where P = wf_expr] expr_wf)

lemma all_expr: "all wf_expr es \<longleftrightarrow> (\<forall>e \<in> set es. wf_expr e)"
  by (simp add: all_def)

lemma lowerExprs_wf: "\<forall>e \<in> set es. admitted wf_admits e \<Longrightarrow> gives (all wf_expr) (lowerExprs es)"
  unfolding lowerExprs_def by (auto intro!: gives_all expr_wf)

definition suite_wf :: "Py_Source.Stmt list \<Rightarrow> bool" where
  "suite_wf ss \<longleftrightarrow> ss \<noteq> [] \<and> all wf_stmt ss"

lemma block_gives: "\<forall>m \<in> set ms. gives (all wf_stmt) m \<Longrightarrow> gives suite_wf (block ms)"
  unfolding block_def by (rule gives_lift1 [OF gives_all]) (auto simp: suite_wf_def all_def)

lemma single_gives: "gives wf_stmt m \<Longrightarrow> gives (all wf_stmt) (single m)"
  unfolding single_def by (rule gives_lift1) simp_all

lemma ident_emitted [simp]: "ident ''Print''" "ident ''self''" "ident ''_panic_code''" "ident ''__mp''" "ident ''MochiPanic''"
    "ident ''mochi_emit''" "ident ''mochi_write_file''" "ident ''main''" "ident ''__name__''"
  using emitted_ident by (simp_all add: emitted_names_def)

lemma ident_errors [simp]: "ident ''ZeroDivisionError''" "ident ''IndexError''" "ident ''__init__''"
  by (simp_all add: ident_def ident_char_def letter_def is_digit_def Let_def byte_def)

lemma lowerCallStmt_wf:
  assumes "f \<in> set print_builtins \<or> ident (callee f)" "\<forall>e \<in> set as. admitted wf_admits e"
  shows "gives wf_stmt (lowerCallStmt f as)"
proof (cases "f \<in> set print_builtins")
  case True
  have "gives wf_stmt (lift1 print_line (lowerExpr e))" if "e \<in> set as" for e
    using that assms(2) by (auto intro!: gives_lift1 [where P = wf_expr] expr_wf simp: print_line_def)
  with True show ?thesis unfolding lowerCallStmt_def print_builtins_def by (auto split: list.split)
next
  case False
  with assms have "ident (callee f)" by simp
  with False lowerExprs_wf [OF assms(2)] show ?thesis
    unfolding lowerCallStmt_def print_builtins_def callee_def
    by (auto split: option.split intro!: gives_lift1 [where P = "all wf_expr"] simp: all_def)
qed

lemma lowerLetStmt_wf:
  assumes "ident n" "var_wf t" "init = None \<longrightarrow> annotated t" "\<forall>e \<in> set_option init. admitted wf_admits e"
  shows "gives wf_stmt (lowerLetStmt n t init)"
proof (cases init)
  case None
  with assms have "gives (\<lambda>x. type_wf x \<and> TypeName x \<noteq> []) (let_type t)"
    by (intro gives_conj let_type_phrase annotated_gives) simp_all
  with None assms(1) show ?thesis unfolding lowerLetStmt_def by (auto intro!: gives_lift1)
next
  case (Some e)
  with assms show ?thesis
    unfolding lowerLetStmt_def
    by (auto intro!: gives_lift2 [where P = type_wf and R = wf_expr] let_type_phrase expr_wf)
qed

lemma lowerAssignStmt_wf:
  "(case self_field n of Some f \<Rightarrow> ident f | None \<Rightarrow> ident n) \<Longrightarrow> admitted wf_admits e \<Longrightarrow> gives wf_stmt (lowerAssignStmt n e)"
  unfolding lowerAssignStmt_def
  by (cases "self_field n") (auto intro!: gives_lift1 [where P = wf_expr] expr_wf)

lemma try_except_wf: "ident x \<Longrightarrow> suite_wf body \<Longrightarrow> suite_wf handler \<Longrightarrow> wf_stmt (try_except x body handler)"
  by (auto simp: try_except_def bind_code_def suite_wf_def all_def typed_def)

lemma stmt_wf_simps [simp]:
  "stmt_wf (CallStmt f as) \<longleftrightarrow> (f \<in> set print_builtins \<or> ident (callee f)) \<and> (\<forall>e \<in> set as. admitted wf_admits e)"
  "stmt_wf (LetStmt n t init) \<longleftrightarrow> ident n \<and> var_wf t \<and> (init = None \<longrightarrow> annotated t) \<and> (\<forall>e \<in> set_option init. admitted wf_admits e)"
  "stmt_wf (Aotir.AssignStmt n e) \<longleftrightarrow> (case self_field n of Some f \<Rightarrow> ident f | None \<Rightarrow> ident n) \<and> admitted wf_admits e"
  "stmt_wf (MapPutStmt n k v) \<longleftrightarrow> ident n \<and> admitted wf_admits k \<and> admitted wf_admits v"
  "stmt_wf (Aotir.IfStmt e thn els) \<longleftrightarrow> admitted wf_admits e \<and> block_wf thn \<and> (\<forall>b \<in> set_option els. block_wf b)"
  "stmt_wf (Aotir.WhileStmt e body) \<longleftrightarrow> admitted wf_admits e \<and> block_wf body"
  "stmt_wf (TryCatchStmt body x handler) \<longleftrightarrow> ident x \<and> block_wf body \<and> block_wf handler"
  "stmt_wf (Aotir.ForRangeStmt x e f' body) \<longleftrightarrow> ident x \<and> admitted wf_admits e \<and> admitted wf_admits f' \<and> block_wf body"
  "stmt_wf (Aotir.ForEachStmt x e body) \<longleftrightarrow> ident x \<and> admitted wf_admits e \<and> block_wf body"
  "stmt_wf (Aotir.ReturnStmt init) \<longleftrightarrow> (\<forall>e \<in> set_option init. admitted wf_admits e)"
  "stmt_wf (AgentIntentCallStmt n e as sp) \<longleftrightarrow> ident n \<and> admitted wf_admits e \<and> (\<forall>e \<in> set as. admitted wf_admits e)"
  "stmt_wf (ChanSendStmt e v) \<longleftrightarrow> admitted wf_admits e \<and> admitted wf_admits v"
  "stmt_wf (StreamEmitStmt e v) \<longleftrightarrow> admitted wf_admits e \<and> admitted wf_admits v"
  "stmt_wf (PanicStmt e v) \<longleftrightarrow> admitted wf_admits e \<and> admitted wf_admits v"
  "stmt_wf (WriteFileStmt e v) \<longleftrightarrow> admitted wf_admits e \<and> admitted wf_admits v"
  "stmt_wf (QueryScopeStmt body) \<longleftrightarrow> block_wf body"
  by (cases init; cases els; auto simp: stmt_wf_def here_wf_def stmt_node_wf_def own_exprs_def block_wf_def split: option.splits)+


definition arm_inner_wf :: "MatchArm \<Rightarrow> bool" where
  "arm_inner_wf a \<longleftrightarrow> (\<forall>e \<in> set (arm_guard a). admitted wf_admits e) \<and> (\<forall>x \<in> set (arm_stmts a). here_wf x)"

lemma here_wf_match:
  "here_wf (Aotir.MatchStmt e arms d) \<longleftrightarrow>
    (arms \<noteq> [] \<or> d \<noteq> None) \<and> admitted wf_admits e \<and> (\<forall>a \<in> set arms. arm_wf a \<and> (\<forall>x \<in> set (arm_guard a). admitted wf_admits x))
    \<and> (\<forall>a \<in> set_option d. \<forall>x \<in> set (arm_guard a). admitted wf_admits x)"
  by (cases d) (auto simp: here_wf_def stmt_node_wf_def own_exprs_def)

lemma match_wf:
  "stmt_wf (Aotir.MatchStmt e arms d) \<longleftrightarrow>
    (arms \<noteq> [] \<or> d \<noteq> None) \<and> admitted wf_admits e \<and> (\<forall>a \<in> set arms. arm_wf a \<and> arm_inner_wf a) \<and> (\<forall>a \<in> set_option d. arm_inner_wf a)"
  by (cases d) (auto simp: stmt_wf_def here_wf_match arm_inner_wf_def ball_Un)

lemma arm_inner_simps [simp]:
  "arm_inner_wf (MatchArm v bs g body) \<longleftrightarrow> (\<forall>e \<in> set_option g. admitted wf_admits e) \<and> block_wf body"
  by (cases g) (auto simp: arm_inner_wf_def block_wf_def stmt_wf_def)

text \<open>An arm of a match without the names of its pattern.\<close>

definition inner_case_wf :: "MatchCase \<Rightarrow> bool" where
  "inner_case_wf c = (case c of MatchCase w v bs g body \<Rightarrow> (\<forall>e \<in> set_option g. wf_expr e) \<and> all wf_stmt body)"

lemma wildcard_wf: "inner_case_wf c \<Longrightarrow> wf_case (wildcard c)"
  by (cases c) (auto simp: inner_case_wf_def wildcard_def all_def)

lemma arm_gives: "gives inner_case_wf (lowerArm a) \<Longrightarrow> arm_wf a \<Longrightarrow> gives wf_case (lowerArm a)"
proof (cases a)
  case (MatchArm v bs g body)
  assume a: "gives inner_case_wf (lowerArm a)" "arm_wf a"
  show ?thesis unfolding gives_def
  proof (intro allI impI)
    fix l c l' assume c: "lowerArm a l = Inr (c, l')"
    then obtain g' b' where "c = MatchCase False v (field_bindings bs) g' b'"
      using MatchArm by (auto simp: lift2_def lift1_def split: sum.splits)
    moreover have "inner_case_wf c" using a(1) c unfolding gives_def by blast
    ultimately show "wf_case c" using a(2) MatchArm by (auto simp: inner_case_wf_def field_bindings_def all_def)
  qed
qed

lemma blocks_give:
  "(\<And>s. s \<in> set b \<Longrightarrow> stmt_wf s \<Longrightarrow> gives (all wf_stmt) (lowerStmt s)) \<Longrightarrow> block_wf b \<Longrightarrow> gives suite_wf (block (map lowerStmt b))"
  by (rule block_gives) (auto simp: block_wf_def)

lemma suite_stmts: "suite_wf b \<Longrightarrow> s \<in> set b \<Longrightarrow> wf_stmt s"
  by (auto simp: suite_wf_def all_def)

lemmas stmt_gives =
  gives_lift1 [where P = wf_expr and Q = wf_stmt] gives_lift2 [where P = wf_expr and R = wf_expr and Q = wf_stmt]
  gives_lift2 [where P = wf_expr and R = suite_wf and Q = wf_stmt] gives_lift2 [where P = suite_wf and R = suite_wf and Q = wf_stmt]
  gives_lift3 [where P = wf_expr and R = wf_expr and T = suite_wf and Q = wf_stmt]
  gives_needing single_gives expr_wf

lemma lowerStmt_gives: "stmt_wf s \<Longrightarrow> gives (all wf_stmt) (lowerStmt s)" "arm_inner_wf a \<Longrightarrow> gives inner_case_wf (lowerArm a)"
proof (induction s and a)
  case (CallStmt f as)
  then show ?case by (auto intro!: single_gives lowerCallStmt_wf)
next
  case (LetStmt n t init)
  then show ?case by (auto intro!: single_gives lowerLetStmt_wf)
next
  case (AssignStmt n e)
  then show ?case by (auto intro!: single_gives lowerAssignStmt_wf)
next
  case (IfStmt e thn els)
  then have t: "gives suite_wf (block (map lowerStmt thn))" by (intro blocks_give) auto
  have f: "gives (all wf_stmt) (case map_option (map lowerStmt) els of None \<Rightarrow> ret [] | Some ms \<Rightarrow> block ms)"
  proof (cases els)
    case (Some b)
    with IfStmt have "gives suite_wf (block (map lowerStmt b))" by (intro blocks_give) auto
    with Some show ?thesis by (auto simp: gives_def suite_wf_def)
  qed simp
  have "gives wf_stmt (lift3 Py_Source.IfStmt (lowerExpr e) (block (map lowerStmt thn))
      (case map_option (map lowerStmt) els of None \<Rightarrow> ret [] | Some ms \<Rightarrow> block ms))"
    using IfStmt.prems by (intro gives_lift3 [OF expr_wf t f]) (auto simp: suite_wf_def all_def)
  then show ?case by (simp add: single_gives)
next
  case (WhileStmt e body)
  then have "gives suite_wf (block (map lowerStmt body))" by (intro blocks_give) auto
  with WhileStmt.prems show ?case by (auto intro!: stmt_gives intro: suite_stmts)
next
  case (TryCatchStmt body x handler)
  then have "gives suite_wf (block (map lowerStmt body))" "gives suite_wf (block (map lowerStmt handler))"
    by (auto intro!: blocks_give)
  with TryCatchStmt.prems show ?case by (auto intro!: stmt_gives try_except_wf)
next
  case (ForRangeStmt x e f body)
  then have "gives suite_wf (block (map lowerStmt body))" by (intro blocks_give) auto
  with ForRangeStmt.prems show ?case by (auto intro!: stmt_gives intro: suite_stmts)
next
  case (ForEachStmt x e body)
  then have "gives suite_wf (block (map lowerStmt body))" by (intro blocks_give) auto
  with ForEachStmt.prems show ?case by (auto intro!: stmt_gives intro: suite_stmts)
next
  case (ReturnStmt v)
  then show ?case by (auto intro!: single_gives gives_lift1 [OF lowerOpt_wf])
next
  case (MatchStmt e arms d)
  from MatchStmt.prems have m: "arms \<noteq> [] \<or> d \<noteq> None" "admitted wf_admits e" "\<forall>a \<in> set arms. arm_wf a \<and> arm_inner_wf a"
    "\<forall>a \<in> set_option d. arm_inner_wf a" unfolding match_wf by blast+
  have "\<forall>m \<in> set (map lowerArm arms). gives wf_case m" using MatchStmt.IH(1) m(3) by (auto intro!: arm_gives)
  then have cs: "gives (\<lambda>cs. length cs = length arms \<and> all wf_case cs) (collect (map lowerArm arms))"
    using gives_collect [of "map lowerArm arms" wf_case] by simp
  have ds: "gives (\<lambda>cs. (d \<noteq> None \<longrightarrow> cs \<noteq> []) \<and> all wf_case cs)
      (case map_option lowerArm d of None \<Rightarrow> ret [] | Some m \<Rightarrow> lift1 (\<lambda>c. [wildcard c]) m)"
    using MatchStmt.IH(2) m(4) by (cases d) (auto intro!: gives_lift1 [where P = inner_case_wf] wildcard_wf)
  have "gives wf_stmt (lift3 (\<lambda>t cs d. Py_Source.MatchStmt t (cs @ d)) (lowerExpr e) (collect (map lowerArm arms))
      (case map_option lowerArm d of None \<Rightarrow> ret [] | Some m \<Rightarrow> lift1 (\<lambda>c. [wildcard c]) m))"
    using m(1) by (intro gives_lift3 [OF expr_wf [OF m(2)] cs ds]) (auto simp: all_def)
  then show ?case by (simp add: single_gives)
next
  case (AgentIntentCallStmt m r as sp)
  then have "gives (all wf_expr) (lowerExprs as)" "gives wf_expr (lowerExpr r)" by (auto intro!: lowerExprs_wf expr_wf)
  with AgentIntentCallStmt.prems show ?case
    by (auto simp: lowerAgentIntentCall_def all_expr
      intro!: single_gives gives_lift1 [where P = wf_expr] gives_lift2 [where P = wf_expr and R = "all wf_expr"])
next
  case (QueryScopeStmt body)
  then have "gives suite_wf (block (map lowerStmt body))" by (intro blocks_give) auto
  then have "gives (all wf_stmt) (block (map lowerStmt body))" by (rule gives_mono) (simp add: suite_wf_def)
  then show ?case by (simp add: gives_within)
next
  case (MatchArm v bs g body)
  then have "gives suite_wf (block (map lowerStmt body))" by (intro blocks_give) auto
  with MatchArm.prems show ?case
    by (auto intro!: gives_lift2 [OF _ lowerOpt_wf, where P = suite_wf] simp: inner_case_wf_def suite_wf_def)
qed (auto intro!: stmt_gives)

lemma lowerBlock_gives: "block_wf b \<Longrightarrow> gives suite_wf (lowerBlock b)"
  unfolding lowerBlock_def using lowerStmt_gives(1) by (rule blocks_give)

subsection \<open>Well-formed programs\<close>

definition record_field_wf :: "RecordField \<Rightarrow> bool" where
  "record_field_wf f \<longleftrightarrow> ident (RFieldName f) \<and> phrase (RFieldRecord f)"

definition function_wf :: "Function \<Rightarrow> bool" where
  "function_wf f \<longleftrightarrow>
    ident (FuncName f) \<and> (\<forall>p \<in> set (FuncParams f). ident (PName p) \<and> var_wf (PTypes p)) \<and> var_wf (ReturnTypes f) \<and> block_wf (Body f)"

definition union_wf :: "UnionDecl \<Rightarrow> bool" where
  "union_wf u \<longleftrightarrow>
    ident (UnName u)
    \<and> (\<forall>v \<in> set (Variants u). ident (VariantName v)
         \<and> (\<forall>f \<in> set (VariantFields v). ident (VFieldName f) \<and> phrase (VFieldRecord f) \<and> phrase (VFieldUnion f)))"

definition agent_wf :: "AgentDecl \<Rightarrow> bool" where
  "agent_wf a \<longleftrightarrow>
    ident (AgName a) \<and> (\<forall>f \<in> set (AgFields a). record_field_wf f)
    \<and> (\<forall>i \<in> set (Intents a). ident (IntentName i) \<and> (\<forall>(n, t) \<in> set (IntentParams i). ident n) \<and> block_wf (IntentBody i))"

definition program_wf :: "Program \<Rightarrow> bool" where
  "program_wf p \<longleftrightarrow>
    (\<forall>f \<in> set (Functions p). function_wf f)
    \<and> (\<forall>r \<in> set (Records p). ident (RecName r) \<and> (\<forall>f \<in> set (RecFields r). record_field_wf f))
    \<and> (\<forall>u \<in> set (Unions p). union_wf u) \<and> (\<forall>a \<in> set (Agents p). agent_wf a) \<and> (\<forall>n \<in> set (PythonFuncs p). ident n)"


lemma frozen_phrase [simp]: "\<forall>d \<in> set frozen. phrase d"
  by (simp add: frozen_def)

lemma record_field_phrase: "record_field_wf f \<Longrightarrow> ident (FieldName (record_field f)) \<and> type_wf (FieldType (record_field f))"
  by (cases "RFieldType f")
    (simp_all add: record_field_def record_field_wf_def pyTypeForRecord_def pyTypeForUnion_def typed_def untyped_def generic_phrase Let_def)

lemma variant_field_phrase:
  "ident (VFieldName f) \<Longrightarrow> phrase (VFieldRecord f) \<Longrightarrow> phrase (VFieldUnion f)
    \<Longrightarrow> ident (FieldName (variant_field f)) \<and> type_wf (FieldType (variant_field f))"
  by (cases "VFieldType f")
    (simp_all add: variant_field_def pyTypeForUnion_def typed_def untyped_def generic_phrase Let_def)

lemma record_wf: "ident (RecName r) \<Longrightarrow> \<forall>f \<in> set (RecFields r). record_field_wf f \<Longrightarrow> wf_stmt (lowerRecordDecl r)"
  using record_field_phrase by (auto simp: lowerRecordDecl_def)

lemma union_wf_stmts: "union_wf u \<Longrightarrow> all wf_stmt (lowerUnionDecl u)"
  using variant_field_phrase by (auto simp: lowerUnionDecl_def union_wf_def all_def)

lemma param_wf [simp]: "wf_param (param n t) \<longleftrightarrow> ident n \<and> type_wf t"
  by (simp add: param_def wf_param_def)

lemma lowerFunction_gives: "function_wf f \<Longrightarrow> gives wf_stmt (lowerFunction f)"
proof -
  assume f: "function_wf f"
  have "\<forall>m \<in> set (map (\<lambda>p. lift1 (param (PName p)) (var_annotation (PTypes p) (PSig p))) (FuncParams f)). gives wf_param m"
    using f by (auto simp: function_wf_def intro!: gives_lift1 [OF annotation_phrase(1)])
  from gives_all [OF this]
  have ps: "gives (all wf_param) (collect (map (\<lambda>p. lift1 (param (PName p)) (var_annotation (PTypes p) (PSig p))) (FuncParams f)))" .
  have b: "gives suite_wf (within (InFunction (FuncName f)) (lowerBlock (Body f)))"
    using f by (auto simp: function_wf_def intro: gives_within lowerBlock_gives)
  have r: "gives type_wf (return_annotation (ReturnTypes f) (ReturnSig f))"
    using f by (auto simp: function_wf_def intro: annotation_phrase)
  show ?thesis
    using f unfolding lowerFunction_def
    by (auto intro!: gives_lift3 [OF ps b r] intro: suite_stmts simp: function_wf_def all_def)
qed

lemma agent_init_wf: "\<forall>f \<in> set fs. record_field_wf f \<Longrightarrow> wf_function (agent_init fs)"
  using record_field_phrase
  by (auto simp: agent_init_def record_field_wf_def typed_def untyped_def)

lemma lowerIntent_gives:
  assumes "ident (IntentName i)" "\<forall>(n, t) \<in> set (IntentParams i). ident n" "block_wf (IntentBody i)"
  shows "gives wf_function (lowerIntent a i)"
proof -
  have "gives suite_wf (within (InIntent a (IntentName i)) (lowerBlock (IntentBody i)))"
    using assms(3) by (intro gives_within lowerBlock_gives)
  then show ?thesis unfolding lowerIntent_def
  proof (rule gives_lift1)
    fix b assume b: "suite_wf b"
    have "\<forall>p \<in> set (param ''self'' untyped # map (\<lambda>(n, t). param n (pyTypeFor t)) (IntentParams i)). wf_param p"
      using assms(2) by (auto simp: untyped_def)
    then show "wf_function (FunctionDef (IntentName i)
        (param ''self'' untyped # map (\<lambda>(n, t). param n (pyTypeFor t)) (IntentParams i))
        (if IntentReturn i = TypeUnit then typed ''None'' else pyTypeFor (IntentReturn i)) b [] False)"
      using assms(1) b suite_stmts [OF b] by (simp add: typed_def suite_wf_def all_def)
  qed
qed

lemma lowerAgentDecl_gives: "agent_wf a \<Longrightarrow> gives wf_stmt (lowerAgentDecl a)"
proof -
  assume a: "agent_wf a"
  have "\<forall>m \<in> set (map (lowerIntent (AgName a)) (Intents a)). gives wf_function m"
    using a by (auto simp: agent_wf_def intro!: lowerIntent_gives)
  from gives_all [OF this] a show ?thesis
    using record_field_phrase agent_init_wf [of "AgFields a"]
    unfolding lowerAgentDecl_def by (auto simp: agent_wf_def all_def intro!: gives_lift1 [where P = "all wf_function"])
qed

lemma lowerDefs_gives:
  assumes "program_wf p"
  shows "gives (all wf_stmt) (lowerDefs p)"
proof -
  have "gives (all wf_stmt) (data_decls p)"
    using assms record_wf union_wf_stmts unfolding data_decls_def
    by (intro gives_needing) (auto simp: program_wf_def all_def)
  moreover have "gives (all wf_stmt) (collect (map lowerAgentDecl (Agents p)))"
    using assms by (intro gives_all) (auto simp: program_wf_def intro: lowerAgentDecl_gives)
  moreover have "gives (all wf_stmt) (collect (map lowerFunction (other_functions p)))"
    using assms subsetD [OF other_functions_subset] by (intro gives_all) (auto simp: program_wf_def intro: lowerFunction_gives)
  ultimately show ?thesis unfolding lowerDefs_def by (rule gives_lift3) auto
qed

lemma lowerProgram_gives:
  assumes "program_wf p" "f \<in> set (Functions p)"
  shows "gives (all wf_stmt) (lowerProgram p f)"
proof -
  have "gives suite_wf (lowerBlock (Body f))"
    using assms by (auto simp: program_wf_def function_wf_def intro: lowerBlock_gives)
  with lowerDefs_gives [OF assms(1)] show ?thesis
    unfolding lowerProgram_def
    by (auto intro!: gives_lift2 [where P = suite_wf and R = "all wf_stmt"] intro: suite_stmts
      simp: module_stmts_def main_guard_def typed_def)
qed

lemma wf_import_from: "phrase x \<Longrightarrow> ns \<noteq> [] \<Longrightarrow> \<forall>n \<in> set ns. ident n \<Longrightarrow> wf_import (import_from x ns)"
  by (simp add: wf_import_def import_from_def)

lemma import_idents [simp]:
  "ident ''fdiv''" "ident ''keys_sorted''" "ident ''values_sorted''" "ident ''dataclass''" "ident ''Callable''" "ident ''sort_asc''"
  "ident ''sum_i64''" "ident ''sum_f64''" "ident ''str_from''" "ident ''deque''" "ident ''MochiStream''" "ident ''MochiSub''"
  "ident ''mochi_make_stream''" "ident ''mochi_recv_sub''" "ident ''mochi_subscribe''" "ident ''mochi_llm_generate''"
  "ident ''mochi_fetch''"
  by (simp_all add: ident_def ident_char_def letter_def is_digit_def Let_def byte_def)

lemma phrase_digits [simp]: "phrase_char (CHR ''6'')" "phrase_char (CHR ''4'')" "phrase_char (CHR ''p'')" "phrase_char (CHR ''y'')"
  by (simp_all add: phrase_char_def ident_char_def letter_def is_digit_def Let_def byte_def)

lemma module_imports_wf:
  assumes "\<forall>n \<in> set (pythonExterns l). ident n" "phrase (moduleName l)"
  shows "\<forall>i \<in> set (module_imports l). wf_import i"
  using assms unfolding module_imports_def
  by (auto simp: import_if_def query_names_def pythonExternNames_def sort_strings_def intro!: wf_import_from)

lemma Lower_wf_module:
  assumes "Lower p m = Some (Inr md)" "program_wf p" "phrase m"
  shows "wf_module md"
proof -
  from Lower_result [OF assms(1)] obtain f ss l where f: "f \<in> set (Functions p)"
    and l: "lowerProgram p f (registerPythonExterns p (lowerer_init m)) = Inr (ss, l)"
      "md = \<lparr>FutureAnnotations = True, Imports = module_imports l, Stmts = ss\<rparr>" by blast
  have "refers (program_uses p \<union> base_names) stmts_names (lowerProgram p f)" by (rule lowerProgram_refers [OF _ _ f]) auto
  with l(1) have "extends (registerPythonExterns p (lowerer_init m)) l" unfolding refers_def by blast
  then have "pythonExterns l = remdups (PythonFuncs p)" "moduleName l = m"
    by (simp_all add: extends_def registerPythonExterns_def lowerer_init_def)
  then have "\<forall>i \<in> set (module_imports l). wf_import i"
    using assms(2,3) by (intro module_imports_wf) (auto simp: program_wf_def)
  moreover have "all wf_stmt ss" using lowerProgram_gives [OF assms(2) f] l(1) unfolding gives_def by blast
  ultimately show ?thesis using l(2) by (simp add: wf_module_def all_def)
qed

text \<open>
  C6. The source rendered for a lowered program whose names are identifiers and whose matches have an
  arm reads, by Python's indentation rules, as the statements the lowerer built: every suite has a
  statement and no line of one statement is taken for another's.
\<close>

theorem Lower_Source_blocks:
  assumes "Lower p m = Some (Inr md)" "program_wf p" "phrase m" "float_text pr"
  shows "\<exists>t. Source pr md = Some t \<and> read_blocks t = Some (outline_module pr md)
    \<and> (\<forall>x \<in> set (outline_module pr md). suites_ok x)"
  unfolding Source_def by (rule PySource_reads [OF Lower_wf_module [OF assms(1-3)] assms(4)])

lemma sample_wf: "program_wf sample_lowering"
  by (simp add: program_wf_def sample_lowering_def sample_main_def function_wf_def var_wf_def no_types_def block_wf_def
      print_builtins_def admitted_def node_admitted_def wf_admits_def callee_def stripPythonExternPrefix_def cut_prefix_def
      ident_def ident_char_def letter_def is_digit_def Let_def byte_def)

lemma Lower_Source_blocks_witness:
  "\<exists>md t. Lower sample_lowering ''avg'' = Some (Inr md) \<and> Source sample_printer md = Some t
    \<and> read_blocks t = Some (outline_module sample_printer md) \<and> (\<forall>x \<in> set (outline_module sample_printer md). suites_ok x)"
proof -
  obtain md where md: "Lower sample_lowering ''avg'' = Some (Inr md)" using sample_lowers by blast
  have "phrase ''avg''" by (simp add: phrase_char_def ident_char_def letter_def is_digit_def Let_def byte_def)
  moreover have "float_text sample_printer" by (simp add: float_text_def sample_printer_def piece_def head_ok_def)
  ultimately show ?thesis using Lower_Source_blocks [OF md sample_wf] md by blast
qed

text \<open>
  C7. What the lowerer makes of an expression, printed, reads back as exactly that Python expression, but
  for number literals: a negative one reads as the negation of its magnitude and a float whose text has
  neither point nor exponent as an integer.  The names of the expression are identifiers other than
  Python's \<open>True\<close>, \<open>False\<close> and \<open>not\<close>, its floats are finite, its strings valid UTF-8, and no number
  literal is called, subscripted or the receiver of a method.
\<close>

theorem lowered_reads_back:
  assumes "lowerExpr e l = Inr (x, l')" "admitted (readable_admits pr rd) e" "Expr_PyString pr x = Some t"
  shows "read_expr rd t = Some (as_read pr x)"
proof -
  have "readable pr rd x" using read.lowerExpr_gives [OF assms(2)] assms(1) unfolding gives_def by blast
  then show ?thesis by (rule read_back [OF _ assms(3)])
qed

definition sample_expr :: Aotir.Expr where
  "sample_expr = AppendExpr (VarRef ''xs'') (StrConvertExpr (Aotir.BinaryExpr BinModI64 (Aotir.IntLit (- 7)) (MapGetExpr (VarRef ''m'') (StringLit ''k''))))"

definition sample_read :: Py_Source.Expr where
  "sample_read =
    Py_Source.BinaryExpr (Name ''xs'') ''+''
      (Py_Source.ListLit [call ''str_from''
        [Py_Source.BinaryExpr (Py_Source.UnaryExpr ''-'' (Py_Source.IntLit 7)) ''%'' (Py_Source.IndexExpr (Name ''m'') (StrLit ''k''))]])"

lemma lowered_reads_back_witness:
  "\<exists>x l' t. lowerExpr sample_expr (lowerer_init []) = Inr (x, l') \<and> Expr_PyString sample_printer x = Some t
    \<and> read_expr (\<lambda>_. 0) t = Some sample_read"
proof -
  obtain x l' where x: "lowerExpr sample_expr (lowerer_init []) = Inr (x, l')" and p: "\<exists>t. Expr_PyString sample_printer x = Some t"
    and r: "as_read sample_printer x = sample_read"
    by (simp add: sample_expr_def sample_read_def lowerBinaryExpr_def binOpToPython_def self_field_def cut_prefix_def ret_def lift1_def lift2_def
      needing_def cats_def joins_def int_as_read_def)
  from p obtain t where t: "Expr_PyString sample_printer x = Some t" by blast
  have "admitted (readable_admits sample_printer (\<lambda>_. 0)) sample_expr"
    by (simp add: admitted_def node_admitted_def sample_expr_def self_field_def cut_prefix_def readable_admits_def plain_name_def
      literal_number_def ident_def ident_char_def letter_def is_digit_def Let_def byte_def)
  from lowered_reads_back [OF x this t] x t r show ?thesis by auto
qed

end
