(* ===== verification/Uv_Lock.thy ===== *)
theory Uv_Lock
  imports Toml Go_Path
begin

section \<open>The uv tool and its lock file (uv/lock.go, uv/runner.go)\<close>

text \<open>
  The reader of \<open>uv.lock\<close> over the TOML reader, and the invocations of the tool.  A Go map is an
  association list with distinct keys.  \<open>strings.ToLower\<close> is a parameter \<open>low\<close> here, because the text
  it gives outside ASCII ends up in the result; what the proofs use of it is \<open>lower_law\<close>.  The
  tool is a parameter as well: a function from directory, environment and arguments to its output.
\<close>

subsection \<open>The lock file\<close>

record LockedSource =
  LsKind :: bytes
  LsURL :: bytes
  LsPath :: bytes
  LsReference :: bytes

record LockedDep =
  LdName :: bytes
  LdExtras :: "bytes list"
  LdMarker :: bytes

record LockedFile =
  LfURL :: bytes
  LfHash :: bytes
  LfFilename :: bytes
  LfSize :: int

record LockedPackage =
  LpName :: bytes
  LpVersion :: bytes
  LpSource :: LockedSource
  LpDependencies :: "LockedDep list"
  LpWheels :: "LockedFile list"
  LpSdist :: "LockedFile option"

record UvLockfile =
  UvVersion :: int
  UvRequiresPython :: bytes
  UvPackages :: "LockedPackage list"

text \<open>Errors with the prefixes the callers wrap them in.\<close>

datatype UvError =
    UvToml TomlError | UvDecode DecodeError | UvPackage nat UvError | UvDependency nat UvError
  | UvWheel nat UvError | UvSdist UvError | MissingHashes bytes | EmptyHashes bytes

definition on_ok :: "'e + 'a \<Rightarrow> ('a \<Rightarrow> 'e + 'b) \<Rightarrow> 'e + 'b" where
  "on_ok r f = (case r of Inl e \<Rightarrow> Inl e | Inr x \<Rightarrow> f x)"

lemma on_ok_simps [simp]: "on_ok (Inl e) f = Inl e" "on_ok (Inr x) f = f x"
  by (simp_all add: on_ok_def)

lemma on_ok_Inr: "on_ok r f = Inr y \<longleftrightarrow> (\<exists>x. r = Inr x \<and> f x = Inr y)"
  by (cases r) auto

text \<open>An optional key: its value when present, the zero value otherwise; a required one.\<close>

definition optional_key :: "DecodeError + 'a option \<Rightarrow> 'a \<Rightarrow> UvError + 'a" where
  "optional_key r zero = (case r of Inl e \<Rightarrow> Inl (UvDecode e) | Inr None \<Rightarrow> Inr zero | Inr (Some x) \<Rightarrow> Inr x)"

definition required_key :: "DecodeError + 'a \<Rightarrow> UvError + 'a" where
  "required_key r = (case r of Inl e \<Rightarrow> Inl (UvDecode e) | Inr x \<Rightarrow> Inr x)"

text \<open>The loops over an array of tables.\<close>

fun parse_each :: "(nat \<Rightarrow> UvError \<Rightarrow> UvError) \<Rightarrow> (Decoder \<Rightarrow> UvError + 'a) \<Rightarrow> nat \<Rightarrow> Decoder list \<Rightarrow> UvError + 'a list" where
  "parse_each wrap p i [] = Inr []"
| "parse_each wrap p i (d # ds) =
    (case p d of
       Inl e \<Rightarrow> Inl (wrap i e)
     | Inr x \<Rightarrow> (case parse_each wrap p (Suc i) ds of Inl e \<Rightarrow> Inl e | Inr xs \<Rightarrow> Inr (x # xs)))"

text \<open>An optional table, whose errors are wrapped.\<close>

definition parse_table :: "(UvError \<Rightarrow> UvError) \<Rightarrow> (Decoder \<Rightarrow> UvError + 'a) \<Rightarrow> DecodeError + Decoder option \<Rightarrow> UvError + 'a option" where
  "parse_table wrap p r =
    (case r of
       Inl e \<Rightarrow> Inl (UvDecode e)
     | Inr None \<Rightarrow> Inr None
     | Inr (Some d) \<Rightarrow> (case p d of Inl e \<Rightarrow> Inl (wrap e) | Inr x \<Rightarrow> Inr (Some x)))"

definition no_source :: LockedSource where
  "no_source = \<lparr>LsKind = [], LsURL = [], LsPath = [], LsReference = []\<rparr>"

text \<open>Errors are ignored here: a key of another type counts as absent.\<close>

definition present :: "Decoder \<Rightarrow> bytes \<Rightarrow> bytes option" where
  "present d k = (case Decoder_String d k of Inl e \<Rightarrow> None | Inr v \<Rightarrow> v)"

definition parseLockedSource :: "Decoder \<Rightarrow> LockedSource" where
  "parseLockedSource d =
    (case present d ''registry'' of
       Some u \<Rightarrow> no_source\<lparr>LsKind := ''registry'', LsURL := u\<rparr>
     | None \<Rightarrow>
    (case present d ''git'' of
       Some u \<Rightarrow> no_source\<lparr>LsKind := ''git'', LsURL := u,
         LsReference :=
           (case present d ''rev'' of
              Some r \<Rightarrow> r
            | None \<Rightarrow> (case present d ''tag'' of
                Some r \<Rightarrow> r
              | None \<Rightarrow> (case present d ''branch'' of Some r \<Rightarrow> r | None \<Rightarrow> [])))\<rparr>
     | None \<Rightarrow>
    (case present d ''path'' of
       Some p \<Rightarrow> no_source\<lparr>LsKind := ''path'', LsPath := p\<rparr>
     | None \<Rightarrow>
    (case present d ''editable'' of
       Some p \<Rightarrow> no_source\<lparr>LsKind := ''editable'', LsPath := p\<rparr>
     | None \<Rightarrow> no_source))))"

definition parseLockedDep :: "Decoder \<Rightarrow> UvError + LockedDep" where
  "parseLockedDep d =
    on_ok (required_key (StringRequired d ''name'')) (\<lambda>n.
    on_ok (optional_key (StringArray d ''extras'') []) (\<lambda>xs.
    on_ok (optional_key (Decoder_String d ''marker'') []) (\<lambda>m.
    Inr \<lparr>LdName = n, LdExtras = xs, LdMarker = m\<rparr>)))"

definition parseLockedFile :: "Decoder \<Rightarrow> UvError + LockedFile" where
  "parseLockedFile d =
    on_ok (required_key (StringRequired d ''url'')) (\<lambda>u.
    on_ok (optional_key (Decoder_String d ''hash'') []) (\<lambda>h.
    on_ok (optional_key (Decoder_String d ''filename'') []) (\<lambda>f.
    on_ok (optional_key (Decoder_Int d ''size'') 0) (\<lambda>n.
    Inr \<lparr>LfURL = u, LfHash = h, LfFilename = f, LfSize = n\<rparr>))))"

definition parseLockedPackage :: "Decoder \<Rightarrow> UvError + LockedPackage" where
  "parseLockedPackage d =
    on_ok (required_key (StringRequired d ''name'')) (\<lambda>n.
    on_ok (required_key (StringRequired d ''version'')) (\<lambda>v.
    on_ok (optional_key (map_sum id (map_option parseLockedSource) (Decoder_Table d ''source'')) no_source) (\<lambda>s.
    on_ok (optional_key (TableArray d ''dependencies'') []) (\<lambda>deps.
    on_ok (parse_each UvDependency parseLockedDep 0 deps) (\<lambda>deps.
    on_ok (optional_key (TableArray d ''wheels'') []) (\<lambda>ws.
    on_ok (parse_each UvWheel parseLockedFile 0 ws) (\<lambda>ws.
    on_ok (parse_table UvSdist parseLockedFile (Decoder_Table d ''sdist'')) (\<lambda>sd.
    Inr \<lparr>LpName = n, LpVersion = v, LpSource = s, LpDependencies = deps, LpWheels = ws, LpSdist = sd\<rparr>))))))))"

definition ParseLockfile :: "(bytes \<Rightarrow> bool) \<Rightarrow> bytes \<Rightarrow> UvError + UvLockfile" where
  "ParseLockfile fo src =
    (case Parse fo src of
       Inl e \<Rightarrow> Inl (UvToml e)
     | Inr tree \<Rightarrow>
         (let d = NewDecoder tree in
          on_ok (optional_key (Decoder_Int d ''version'') 0) (\<lambda>v.
          on_ok (optional_key (Decoder_String d ''requires-python'') []) (\<lambda>rp.
          on_ok (optional_key (TableArray d ''package'') []) (\<lambda>ps.
          on_ok (parse_each UvPackage parseLockedPackage 0 ps) (\<lambda>ps.
          Inr \<lparr>UvVersion = v, UvRequiresPython = rp, UvPackages = ps\<rparr>))))))"

definition PackagesByName :: "UvLockfile \<Rightarrow> (bytes \<times> LockedPackage) list" where
  "PackagesByName l = fold (\<lambda>p. AList.update (LpName p) p) (UvPackages l) []"

definition SortedPackageNames :: "UvLockfile \<Rightarrow> bytes list" where
  "SortedPackageNames l = sort_strings (map LpName (UvPackages l))"

definition SplitHash :: "(bytes \<Rightarrow> bytes) \<Rightarrow> bytes \<Rightarrow> (bytes \<times> bytes) option" where
  "SplitHash low h =
    (case index_of h '':'' of
       None \<Rightarrow> None
     | Some i \<Rightarrow> if i = 0 \<or> i + 1 = length h then None else Some (low (take i h), low (drop (i + 1) h)))"

subsection \<open>The tool\<close>

record LockOptions =
  PythonVersion :: bytes
  Resolution :: bytes
  OptIndexURL :: bytes
  ExtraIndexURLs :: "bytes list"
  NoBuild :: bool
  ExtraArgs :: "bytes list"

definition BuildLockArgs :: "LockOptions \<Rightarrow> bytes list" where
  "BuildLockArgs opts =
    (if PythonVersion opts \<noteq> [] then [''--python'', PythonVersion opts] else [])
    @ (if Resolution opts = [] \<or> Resolution opts = ''highest'' then []
       else if Resolution opts = ''lowest'' \<or> Resolution opts = ''lowest-direct'' then [''--resolution'', Resolution opts]
       else [])
    @ (if OptIndexURL opts \<noteq> [] then [''--index-url'', OptIndexURL opts] else [])
    @ concat (map (\<lambda>u. [''--extra-index-url'', u]) (ExtraIndexURLs opts))
    @ (if NoBuild opts then [''--no-build''] else [])
    @ ExtraArgs opts"

text \<open>
  A runner answers a call, given the directory and the arguments, with the output of the tool or an
  error; the file system answers a read.  What a call does to the files is up to the tool.
\<close>

type_synonym runner = "bytes \<Rightarrow> bytes list \<Rightarrow> bytes + bytes"

datatype LockFailure = RunFailed bytes | ReadFailed bytes bytes

definition Lock :: "runner \<Rightarrow> (bytes \<Rightarrow> bytes + bytes) \<Rightarrow> bytes \<Rightarrow> LockOptions \<Rightarrow> LockFailure + bytes" where
  "Lock run read_file dir opts =
    (case run dir (''lock'' # BuildLockArgs opts) of
       Inl e \<Rightarrow> Inl (RunFailed e)
     | Inr out \<Rightarrow>
         (let path = path_join [dir, ''uv.lock''] in
          case read_file path of Inl e \<Rightarrow> Inl (ReadFailed path e) | Inr body \<Rightarrow> Inr body))"

definition Export :: "runner \<Rightarrow> bytes \<Rightarrow> LockFailure + bytes" where
  "Export run dir =
    (case run dir [''export'', ''--format'', ''pylock.toml''] of Inl e \<Rightarrow> Inl (RunFailed e) | Inr out \<Rightarrow> Inr out)"

end
