(* ===== verification/Uv_Pylock.thy ===== *)
theory Uv_Pylock
  imports Uv_Lock Toml_Lines
begin

section \<open>The PEP 751 lock file (uv/pylock.go)\<close>

text \<open>
  \<open>pylock.toml\<close>: its reader, its canonical renderer and the conversion of a \<open>uv.lock\<close>.  The main
  results are that the reader takes back exactly the canonical form of what the renderer wrote
  (\<open>ParsePyLock_Render\<close>) and that a \<open>uv.lock\<close> survives the whole chain (\<open>Uv_to_pylock\<close>).
\<close>

subsection \<open>The model\<close>

record PyLockFile =
  PfName :: bytes
  PfURL :: bytes
  PfHashes :: "(bytes \<times> bytes) list"

record PyLockPackage =
  PpName :: bytes
  PpVersion :: bytes
  PpMarker :: bytes
  PpRequiresPython :: bytes
  PpDependencies :: "bytes list"
  PpWheels :: "PyLockFile list"
  PpSdist :: "PyLockFile option"

record PyLock =
  PlLockVersion :: bytes
  PlCreatedBy :: bytes
  PlRequiresPython :: bytes
  PlPackages :: "PyLockPackage list"

text \<open>The loop over the keys of the hashes table.\<close>

fun read_hashes :: "(bytes \<Rightarrow> bytes) \<Rightarrow> Decoder \<Rightarrow> bytes list \<Rightarrow> (bytes \<times> bytes) list \<Rightarrow> UvError + (bytes \<times> bytes) list" where
  "read_hashes low d [] hs = Inr hs"
| "read_hashes low d (k # ks) hs =
    (case Decoder_String d k of
       Inl e \<Rightarrow> Inl (UvDecode e)
     | Inr v \<Rightarrow> read_hashes low d ks (AList.update (low k) (low (case v of None \<Rightarrow> [] | Some s \<Rightarrow> s)) hs))"

definition parsePyLockFile :: "(bytes \<Rightarrow> bytes) \<Rightarrow> Decoder \<Rightarrow> UvError + PyLockFile" where
  "parsePyLockFile low d =
    on_ok (required_key (StringRequired d ''name'')) (\<lambda>n.
    on_ok (required_key (StringRequired d ''url'')) (\<lambda>u.
    on_ok (required_key (Decoder_Table d ''hashes'')) (\<lambda>h.
    (case h of
       None \<Rightarrow> Inl (MissingHashes n)
     | Some t \<Rightarrow>
         on_ok (read_hashes low t (Decoder_Keys t) []) (\<lambda>hs.
         if hs = [] then Inl (EmptyHashes n) else Inr \<lparr>PfName = n, PfURL = u, PfHashes = hs\<rparr>)))))"

definition parsePyLockPackage :: "(bytes \<Rightarrow> bytes) \<Rightarrow> Decoder \<Rightarrow> UvError + PyLockPackage" where
  "parsePyLockPackage low d =
    on_ok (required_key (StringRequired d ''name'')) (\<lambda>n.
    on_ok (required_key (StringRequired d ''version'')) (\<lambda>v.
    on_ok (optional_key (Decoder_String d ''marker'') []) (\<lambda>m.
    on_ok (optional_key (Decoder_String d ''requires-python'') []) (\<lambda>rp.
    on_ok (optional_key (StringArray d ''dependencies'') []) (\<lambda>deps.
    on_ok (optional_key (TableArray d ''wheels'') []) (\<lambda>ws.
    on_ok (parse_each UvWheel (parsePyLockFile low) 0 ws) (\<lambda>ws.
    on_ok (parse_table UvSdist (parsePyLockFile low) (Decoder_Table d ''sdist'')) (\<lambda>sd.
    Inr \<lparr>PpName = n, PpVersion = v, PpMarker = m, PpRequiresPython = rp, PpDependencies = deps,
      PpWheels = ws, PpSdist = sd\<rparr>))))))))"

definition ParsePyLock :: "(bytes \<Rightarrow> bytes) \<Rightarrow> (bytes \<Rightarrow> bool) \<Rightarrow> bytes \<Rightarrow> UvError + PyLock" where
  "ParsePyLock low fo src =
    (case Parse fo src of
       Inl e \<Rightarrow> Inl (UvToml e)
     | Inr tree \<Rightarrow>
         (let d = NewDecoder tree in
          on_ok (optional_key (Decoder_String d ''lock-version'') []) (\<lambda>v.
          on_ok (optional_key (Decoder_String d ''created-by'') []) (\<lambda>cb.
          on_ok (optional_key (Decoder_String d ''requires-python'') []) (\<lambda>rp.
          on_ok (optional_key (TableArray d ''packages'') []) (\<lambda>ps.
          on_ok (parse_each UvPackage (parsePyLockPackage low) 0 ps) (\<lambda>ps.
          Inr \<lparr>PlLockVersion = v, PlCreatedBy = cb, PlRequiresPython = rp, PlPackages = ps\<rparr>)))))))"

definition sorted_hashes :: "(bytes \<times> bytes) list \<Rightarrow> (bytes \<times> bytes) list" where
  "sorted_hashes hs = map (\<lambda>k. (k, the (map_of hs k))) (sort_strings (map fst hs))"

definition renderFile :: "(int \<Rightarrow> bool) \<Rightarrow> PyLockFile \<Rightarrow> bytes" where
  "renderFile ip f =
    string_line ip ''name'' (PfName f)
    @ string_line ip ''url'' (PfURL f)
    @ ''hashes = '' @ inline_text ip (sorted_hashes (PfHashes f)) @ nl"

definition package_less :: "PyLockPackage \<Rightarrow> PyLockPackage \<Rightarrow> bool" where
  "package_less a b = (if PpName a \<noteq> PpName b then PpName a < PpName b else PpVersion a < PpVersion b)"

definition wheel_less :: "PyLockFile \<Rightarrow> PyLockFile \<Rightarrow> bool" where
  "wheel_less a b \<longleftrightarrow> PfName a < PfName b"

definition renderPackage :: "(int \<Rightarrow> bool) \<Rightarrow> PyLockPackage \<Rightarrow> bytes" where
  "renderPackage ip p =
    string_line ip ''name'' (PpName p)
    @ string_line ip ''version'' (PpVersion p)
    @ optional_line ip ''requires-python'' (PpRequiresPython p)
    @ optional_line ip ''marker'' (PpMarker p)
    @ optional_strings ip ''dependencies'' (sort_strings (PpDependencies p))
    @ concat (map (\<lambda>w. nl @ array_header [''packages'', ''wheels''] @ renderFile ip w) (sort_stable wheel_less (PpWheels p)))
    @ (case PpSdist p of None \<Rightarrow> [] | Some f \<Rightarrow> nl @ table_header [''packages'', ''sdist''] @ renderFile ip f)
    @ nl"

definition PyLock_Render :: "(int \<Rightarrow> bool) \<Rightarrow> PyLock \<Rightarrow> bytes" where
  "PyLock_Render ip l =
    ''# Generated by mochi-python-bridge. PEP 751 lockfile.'' @ nl
    @ string_line ip ''lock-version'' (if PlLockVersion l \<noteq> [] then PlLockVersion l else ''1.0'')
    @ string_line ip ''created-by'' (if PlCreatedBy l \<noteq> [] then PlCreatedBy l else ''mochi'')
    @ optional_line ip ''requires-python'' (PlRequiresPython l)
    @ nl
    @ concat (map (\<lambda>p. array_header [''packages''] @ renderPackage ip p) (sort_stable package_less (PlPackages l)))"

definition hydrateLockedFile :: "(bytes \<Rightarrow> bytes) \<Rightarrow> LockedFile \<Rightarrow> PyLockFile" where
  "hydrateLockedFile low f =
    \<lparr>PfName =
       (if LfFilename f \<noteq> [] then LfFilename f
        else case last_index (LfURL f) ''/'' of
          None \<Rightarrow> []
        | Some i \<Rightarrow> if i + 1 < length (LfURL f) then drop (i + 1) (LfURL f) else []),
     PfURL = LfURL f,
     PfHashes = (case SplitHash low (LfHash f) of None \<Rightarrow> [] | Some (algo, hex) \<Rightarrow> [(algo, hex)])\<rparr>"

definition FromLockfile :: "(bytes \<Rightarrow> bytes) \<Rightarrow> UvLockfile \<Rightarrow> PyLock" where
  "FromLockfile low l =
    \<lparr>PlLockVersion = ''1.0'', PlCreatedBy = ''mochi-python-bridge'', PlRequiresPython = UvRequiresPython l,
     PlPackages =
       map (\<lambda>p. \<lparr>PpName = LpName p, PpVersion = LpVersion p, PpMarker = [], PpRequiresPython = [],
         PpDependencies = map LdName (LpDependencies p),
         PpWheels = map (hydrateLockedFile low) (LpWheels p),
         PpSdist = map_option (hydrateLockedFile low) (LpSdist p)\<rparr>) (UvPackages l)\<rparr>"

subsection \<open>The tables of a document\<close>

definition file_table :: "PyLockFile \<Rightarrow> table" where
  "file_table f =
    [(''name'', TStr (PfName f)), (''url'', TStr (PfURL f)),
     (''hashes'', TTab (map (\<lambda>(k, v). (k, TStr v)) (sorted_hashes (PfHashes f))))]"

definition package_table :: "PyLockPackage \<Rightarrow> table" where
  "package_table p =
    [(''name'', TStr (PpName p)), (''version'', TStr (PpVersion p))]
    @ opt_field ''requires-python'' (PpRequiresPython p) @ opt_field ''marker'' (PpMarker p)
    @ opt_strings ''dependencies'' (sort_strings (PpDependencies p))
    @ opt_tables ''wheels'' (map file_table (sort_stable wheel_less (PpWheels p)))
    @ (case PpSdist p of None \<Rightarrow> [] | Some f \<Rightarrow> [(''sdist'', TTab (file_table f))])"

definition pylock_header :: "PyLock \<Rightarrow> table" where
  "pylock_header l =
    [(''lock-version'', TStr (if PlLockVersion l \<noteq> [] then PlLockVersion l else ''1.0'')),
     (''created-by'', TStr (if PlCreatedBy l \<noteq> [] then PlCreatedBy l else ''mochi''))]
    @ opt_field ''requires-python'' (PlRequiresPython l)"

text \<open>What the writer's quoting and the bare keys of the hashes keep within the reader's grammar.\<close>

definition file_ok :: "PyLockFile \<Rightarrow> bool" where
  "file_ok f \<longleftrightarrow>
    list_all toml_ok (PfName f) \<and> list_all toml_ok (PfURL f) \<and> distinct (map fst (PfHashes f))
    \<and> list_all (\<lambda>(k, v). bare_key k \<and> ascii k \<and> map lower_char k = k \<and> list_all toml_ok v \<and> ascii v \<and> map lower_char v = v) (PfHashes f)"

definition package_ok :: "PyLockPackage \<Rightarrow> bool" where
  "package_ok p \<longleftrightarrow>
    list_all (list_all toml_ok) ([PpName p, PpVersion p, PpMarker p, PpRequiresPython p] @ PpDependencies p)
    \<and> list_all file_ok (PpWheels p) \<and> (\<forall>f \<in> set_option (PpSdist p). file_ok f)"

definition pylock_ok :: "PyLock \<Rightarrow> bool" where
  "pylock_ok l \<longleftrightarrow>
    list_all (list_all toml_ok) [PlLockVersion l, PlCreatedBy l, PlRequiresPython l] \<and> list_all package_ok (PlPackages l)"

definition files :: "PyLockPackage \<Rightarrow> PyLockFile set" where
  "files p = set (PpWheels p) \<union> set_option (PpSdist p)"

text \<open>The canonical form of a lock file.\<close>

definition canonical_file :: "PyLockFile \<Rightarrow> PyLockFile" where
  "canonical_file f = f\<lparr>PfHashes := sorted_hashes (PfHashes f)\<rparr>"

definition canonical_package :: "PyLockPackage \<Rightarrow> PyLockPackage" where
  "canonical_package p = p\<lparr>PpDependencies := sort_strings (PpDependencies p),
    PpWheels := map canonical_file (sort_stable wheel_less (PpWheels p)), PpSdist := map_option canonical_file (PpSdist p)\<rparr>"

definition canonical_pylock :: "PyLock \<Rightarrow> PyLock" where
  "canonical_pylock l =
    \<lparr>PlLockVersion = (if PlLockVersion l \<noteq> [] then PlLockVersion l else ''1.0''),
     PlCreatedBy = (if PlCreatedBy l \<noteq> [] then PlCreatedBy l else ''mochi''),
     PlRequiresPython = PlRequiresPython l,
     PlPackages = map canonical_package (sort_stable package_less (PlPackages l))\<rparr>"

lemma pylock_keys [simp]:
  "bare_key ''name''" "bare_key ''url''" "bare_key ''hashes''" "bare_key ''version''" "bare_key ''requires-python''"
  "bare_key ''marker''" "bare_key ''dependencies''" "bare_key ''packages''" "bare_key ''wheels''" "bare_key ''sdist''"
  "bare_key ''lock-version''" "bare_key ''created-by''"
  by code_simp+

lemma sorted_hashes_props:
  assumes "distinct (map fst hs)"
  shows "distinct (map fst (sorted_hashes hs))" "set (sorted_hashes hs) = set hs" "sorted_hashes hs = [] \<longleftrightarrow> hs = []"
    "map_of (sorted_hashes hs) = map_of hs"
proof -
  show d: "distinct (map fst (sorted_hashes hs))" using assms by (simp add: sorted_hashes_def comp_def sort_strings_def)
  show s: "set (sorted_hashes hs) = set hs"
    using assms by (force simp: sorted_hashes_def sort_strings_def map_of_eq_Some_iff)
  then show "sorted_hashes hs = [] \<longleftrightarrow> hs = []" by (metis set_empty)
  show "map_of (sorted_hashes hs) = map_of hs" by (rule map_of_inject_set [THEN iffD2, OF d assms s])
qed

context cursor
begin

lemma renderFile_read:
  assumes "file_ok f"
  shows "document_loop fo (plug []) path (renderFile ip f @ s) = document_loop fo (plug (file_table f)) path s"
proof -
  have ok: "list_all (\<lambda>(k, v). bare_key k \<and> list_all toml_ok v) (sorted_hashes (PfHashes f))"
    and d: "distinct (map fst (sorted_hashes (PfHashes f)))"
    using assms sorted_hashes_props [of "PfHashes f"] by (auto simp: file_ok_def list_all_iff)
  show ?thesis
    using assms inline_line_read [OF _ _ ok d, of "''hashes''" "[(''name'', TStr (PfName f)), (''url'', TStr (PfURL f))]" fo ip s]
    by (simp add: renderFile_def file_ok_def string_line_read file_table_def) (simp add: nl_def)
qed

lemma renderPackage_read:
  assumes "package_ok p" "path = [''packages'']"
  shows "\<exists>q. document_loop fo (plug []) path (renderPackage ip p @ s) = document_loop fo (plug (package_table p)) q s"
proof -
  let ?ws = "sort_stable wheel_less (PpWheels p)"
  let ?t = "[(''name'', TStr (PpName p)), (''version'', TStr (PpVersion p))]
    @ opt_field ''requires-python'' (PpRequiresPython p) @ opt_field ''marker'' (PpMarker p)
    @ opt_strings ''dependencies'' (sort_strings (PpDependencies p))"
  let ?u = "?t @ opt_tables ''wheels'' (map file_table ?ws)"
  let ?W = "concat (map (\<lambda>w. nl @ array_header [''packages'', ''wheels''] @ renderFile ip w) ?ws)"
  let ?S = "case PpSdist p of None \<Rightarrow> [] | Some f \<Rightarrow> nl @ table_header [''packages'', ''sdist''] @ renderFile ip f"
  have strings: "list_all toml_ok (PpName p)" "list_all toml_ok (PpVersion p)" "list_all toml_ok (PpMarker p)"
    "list_all toml_ok (PpRequiresPython p)" "list_all (list_all toml_ok) (sort_strings (PpDependencies p))"
    using assms(1) by (auto simp: package_ok_def list_all_iff sort_strings_def)
  have "document_loop fo (plug []) path (renderPackage ip p @ s) = document_loop fo (plug ?t) path (?W @ ?S @ nl @ s)"
    using strings by (simp add: renderPackage_def string_line_read optional_line_read optional_strings_read image_Un)
  moreover have "\<exists>q. document_loop fo (plug (?t @ opt_tables ''wheels'' [])) path
      (concat (map (\<lambda>w. nl @ array_header (path @ [''wheels'']) @ renderFile ip w) ?ws) @ ?S @ nl @ s)
    = document_loop fo (plug (?t @ opt_tables ''wheels'' ([] @ map file_table ?ws))) q (?S @ nl @ s)"
  proof (rule tables_read)
    show "\<forall>w \<in> set ?ws. \<forall>plug' s. cursor (path @ [''wheels'']) plug' \<longrightarrow>
        (\<exists>p. document_loop fo (plug' []) (path @ [''wheels'']) (renderFile ip w @ s) = document_loop fo (plug' (file_table w)) p s)"
      using assms(1) cursor.renderFile_read by (force simp: package_ok_def list_all_iff)
  qed (use assms(2) in \<open>simp_all add: image_Un\<close>)
  ultimately obtain q where
    q: "document_loop fo (plug []) path (renderPackage ip p @ s) = document_loop fo (plug ?u) q (?S @ nl @ s)"
    using assms(2) by (auto simp: opt_tables_def)
  show ?thesis
  proof (cases "PpSdist p")
    case None
    then show ?thesis using q by (auto simp: package_table_def nl_def document_loop_nl)
  next
    case (Some f)
    let ?plug = "\<lambda>v. plug (?u @ [(''sdist'', TTab v)])"
    have new: "''sdist'' \<notin> fst ` set ?u" by (simp add: image_Un)
    have "document_loop fo (plug ?u) q (nl @ table_header (path @ [''sdist'']) @ renderFile ip f @ nl @ s)
        = document_loop fo (?plug []) (path @ [''sdist'']) (renderFile ip f @ nl @ s)"
      using table_header_read [OF _ _ new_table [OF new]] assms(2) by (simp add: nl_def document_loop_nl)
    also have "\<dots> = document_loop fo (?plug (file_table f)) (path @ [''sdist'']) (nl @ s)"
      using assms(1) Some by (intro cursor.renderFile_read table_cursor new) (simp add: package_ok_def)
    finally show ?thesis using q Some assms(2) by (auto simp: package_table_def nl_def document_loop_nl)
  qed
qed

end

lemma render_read:
  assumes "pylock_ok l"
  shows "Parse fo (PyLock_Render ip l)
    = Inr (pylock_header l @ opt_tables ''packages'' (map package_table (sort_stable package_less (PlPackages l))))"
proof -
  let ?ps = "sort_stable package_less (PlPackages l)"
  let ?P = "concat (map (\<lambda>p. [] @ array_header ([] @ [''packages'']) @ renderPackage ip p) ?ps)"
  define v cb where v: "v = (if PlLockVersion l \<noteq> [] then PlLockVersion l else ''1.0'')"
    and cb: "cb = (if PlCreatedBy l \<noteq> [] then PlCreatedBy l else ''mochi'')"
  have strings: "list_all toml_ok v" "list_all toml_ok cb" "list_all toml_ok (PlRequiresPython l)"
    using assms by (simp_all add: pylock_ok_def toml_ok_def v cb)
  have comment: "document_loop fo [] [] (''# Generated by mochi-python-bridge. PEP 751 lockfile.'' @ nl @ x) = document_loop fo [] [] x" for x
    using document_comment [of "'' Generated by mochi-python-bridge. PEP 751 lockfile.''" fo "[]" "[]" x] by (simp add: nl_def)
  have "document_loop fo [] [] (PyLock_Render ip l) = document_loop fo (pylock_header l) [] (?P @ [])"
    unfolding PyLock_Render_def comment v [symmetric] cb [symmetric] pylock_header_def
    using strings by (simp add: top.string_line_read top.optional_line_read) (simp add: nl_def document_loop_nl)
  moreover have "\<exists>q. document_loop fo (pylock_header l @ opt_tables ''packages'' []) [] (?P @ [])
    = document_loop fo (pylock_header l @ opt_tables ''packages'' ([] @ map package_table ?ps)) q []"
  proof (rule top.tables_read)
    show "\<forall>p \<in> set ?ps. \<forall>plug' s. cursor ([] @ [''packages'']) plug' \<longrightarrow>
        (\<exists>q. document_loop fo (plug' []) ([] @ [''packages'']) (renderPackage ip p @ s) = document_loop fo (plug' (package_table p)) q s)"
      using assms cursor.renderPackage_read by (auto simp: pylock_ok_def list_all_iff)
  qed (simp_all add: pylock_header_def)
  ultimately show ?thesis by (auto simp: Parse_def opt_tables_def document_loop_end)
qed

subsection \<open>Decoding the tables\<close>

definition lower_law :: "(bytes \<Rightarrow> bytes) \<Rightarrow> bool" where
  "lower_law low \<longleftrightarrow> (\<forall>s. ascii s \<longrightarrow> low s = map lower_char s)"

lemma parse_each_all: "\<forall>x \<in> set xs. p (d x) = Inr (g x) \<Longrightarrow> parse_each w p i (map d xs) = Inr (map g xs)"
  by (induction xs arbitrary: i) auto

lemma parse_each_error: "\<exists>x \<in> set xs. \<exists>e. p (d x) = Inl e \<Longrightarrow> \<exists>e. parse_each w p i (map d xs) = Inl e"
proof (induction xs arbitrary: i)
  case (Cons x xs)
  show ?case
  proof (cases "p (d x)")
    case (Inr y)
    with Cons obtain e where "parse_each w p (Suc i) (map d xs) = Inl e" by fastforce
    with Inr show ?thesis by simp
  qed simp
qed simp

lemma read_hashes_fields:
  assumes "\<forall>(k, v) \<in> set kvs. Decoder_String d k = Inr (Some v) \<and> low k = k \<and> low v = v" "distinct (map fst (hs @ kvs))"
  shows "read_hashes low d (map fst kvs) hs = Inr (hs @ kvs)"
  using assms
proof (induction kvs arbitrary: hs)
  case (Cons kv kvs)
  obtain k v where kv: "kv = (k, v)" by (cases kv)
  have "read_hashes low d (map fst kvs) (hs @ [(k, v)]) = Inr ((hs @ [(k, v)]) @ kvs)"
    using Cons.prems kv by (intro Cons.IH) auto
  moreover have "k \<notin> fst ` set hs" using Cons.prems kv by auto
  ultimately show ?case using Cons.prems kv by (simp add: update_nonmem)
qed simp

lemma lowered: "lower_law low \<Longrightarrow> ascii s \<Longrightarrow> map lower_char s = s \<Longrightarrow> low s = s"
  by (simp add: lower_law_def)

lemma parse_file:
  assumes "file_ok f" "lower_law low"
  shows "parsePyLockFile low (NewDecoder (file_table f))
    = (if PfHashes f = [] then Inl (EmptyHashes (PfName f)) else Inr (canonical_file f))"
proof -
  let ?hs = "sorted_hashes (PfHashes f)"
  let ?t = "map (\<lambda>(k, v). (k, TStr v)) ?hs"
  have d: "distinct (map fst ?hs)" and ok: "\<forall>(k, v) \<in> set ?hs. low k = k \<and> low v = v"
    using assms sorted_hashes_props [of "PfHashes f"] by (auto simp: file_ok_def list_all_iff lowered)
  have t: "Decoder_String (NewDecoder ?t) k = Inr (Some v)" if "(k, v) \<in> set ?hs" for k v
  proof -
    have "map_of ?t k = Some (TStr v)"
      using that d by (intro map_of_is_SomeI) (force simp: comp_def case_prod_beta)+
    then show ?thesis by (simp add: Decoder_String_def NewDecoder_def)
  qed
  have "Decoder_Keys (NewDecoder ?t) = map fst ?hs" by (simp add: Decoder_Keys_def NewDecoder_def comp_def case_prod_beta)
  moreover have "read_hashes low (NewDecoder ?t) (map fst ?hs) [] = Inr ([] @ ?hs)"
    using d ok t by (intro read_hashes_fields) auto
  ultimately show ?thesis
    using assms(1) sorted_hashes_props(3) [of "PfHashes f"]
    by (simp add: parsePyLockFile_def file_table_def StringRequired_def Decoder_String_def Decoder_Table_def NewDecoder_def
        required_key_def canonical_file_def file_ok_def)
qed

lemma sort_strings_Nil [simp]: "sort_strings xs = [] \<longleftrightarrow> xs = []"
  by (metis set_empty set_sort sort_strings_def)

lemma package_lookup [simp]:
  "map_of (package_table p) ''name'' = Some (TStr (PpName p))"
  "map_of (package_table p) ''version'' = Some (TStr (PpVersion p))"
  "map_of (package_table p) ''requires-python'' = (if PpRequiresPython p \<noteq> [] then Some (TStr (PpRequiresPython p)) else None)"
  "map_of (package_table p) ''marker'' = (if PpMarker p \<noteq> [] then Some (TStr (PpMarker p)) else None)"
  "map_of (package_table p) ''dependencies'' =
    (if PpDependencies p \<noteq> [] then Some (TArr (map TStr (sort_strings (PpDependencies p)))) else None)"
  "map_of (package_table p) ''wheels'' =
    (if PpWheels p \<noteq> [] then Some (TTabs (map file_table (sort_stable wheel_less (PpWheels p)))) else None)"
  "map_of (package_table p) ''sdist'' = map_option (\<lambda>f. TTab (file_table f)) (PpSdist p)"
  by (simp_all add: package_table_def del: map_of_append split: option.split)

lemma parse_package:
  assumes "package_ok p" "lower_law low"
  shows "if \<forall>f \<in> files p. PfHashes f \<noteq> []
    then parsePyLockPackage low (NewDecoder (package_table p)) = Inr (canonical_package p)
    else \<exists>e. parsePyLockPackage low (NewDecoder (package_table p)) = Inl e"
proof -
  let ?ws = "sort_stable wheel_less (PpWheels p)"
  let ?d = "NewDecoder (package_table p)"
  have str: "optional_key (Decoder_String ?d k) [] = Inr v"
    if "map_of (package_table p) k = (if v \<noteq> [] then Some (TStr v) else None)" for k v
    using that by (simp add: optional_key_def Decoder_String_def NewDecoder_def)
  have req: "required_key (StringRequired ?d ''name'') = Inr (PpName p)" "required_key (StringRequired ?d ''version'') = Inr (PpVersion p)"
    by (simp_all add: required_key_def StringRequired_def Decoder_String_def NewDecoder_def)
  have deps: "optional_key (StringArray ?d ''dependencies'') [] = Inr (sort_strings (PpDependencies p))"
    by (simp add: optional_key_def StringArray_def NewDecoder_def) (simp add: sort_strings_def)
  have ws: "optional_key (TableArray ?d ''wheels'') [] = Inr (map (NewDecoder \<circ> file_table) ?ws)"
    by (simp add: optional_key_def TableArray_def NewDecoder_def)
  have sd: "Decoder_Table ?d ''sdist'' = Inr (map_option (NewDecoder \<circ> file_table) (PpSdist p))"
    by (simp add: Decoder_Table_def NewDecoder_def split: option.split)
  have pf: "parsePyLockFile low (NewDecoder (file_table f))
      = (if PfHashes f = [] then Inl (EmptyHashes (PfName f)) else Inr (canonical_file f))" if "f \<in> files p" for f
    using that assms by (intro parse_file) (auto simp: files_def package_ok_def list_all_iff)
  show ?thesis
  proof (cases "\<forall>f \<in> set (PpWheels p). PfHashes f \<noteq> []")
    case True
    then have "parse_each UvWheel (parsePyLockFile low) 0 (map (NewDecoder \<circ> file_table) ?ws) = Inr (map canonical_file ?ws)"
      using pf by (intro parse_each_all) (auto simp: files_def)
    then show ?thesis
      using True pf unfolding parsePyLockPackage_def
      by (cases "PpSdist p")
        (simp_all add: req str deps ws sd parse_table_def files_def canonical_package_def)
  next
    case False
    then have "\<exists>e. parse_each UvWheel (parsePyLockFile low) 0 (map (NewDecoder \<circ> file_table) ?ws) = Inl e"
      using pf by (intro parse_each_error) (auto simp: files_def)
    then show ?thesis
      using False unfolding parsePyLockPackage_def by (auto simp: req str deps ws files_def)
  qed
qed

lemma pylock_lookup [simp]:
  "map_of (pylock_header l @ t) ''lock-version'' = Some (TStr (if PlLockVersion l \<noteq> [] then PlLockVersion l else ''1.0''))"
  "map_of (pylock_header l @ t) ''created-by'' = Some (TStr (if PlCreatedBy l \<noteq> [] then PlCreatedBy l else ''mochi''))"
  "map_of (pylock_header l @ opt_tables ''packages'' us) ''requires-python''
    = (if PlRequiresPython l \<noteq> [] then Some (TStr (PlRequiresPython l)) else None)"
  "map_of (pylock_header l @ opt_tables ''packages'' us) ''packages'' = (if us \<noteq> [] then Some (TTabs us) else None)"
  by (simp_all add: pylock_header_def del: map_of_append)

text \<open>What the reader makes of a rendered document, with and without hashes.\<close>

lemma pylock_read:
  assumes "pylock_ok l" "lower_law low"
  shows "if \<forall>p \<in> set (PlPackages l). \<forall>f \<in> files p. PfHashes f \<noteq> []
    then ParsePyLock low fo (PyLock_Render ip l) = Inr (canonical_pylock l)
    else \<exists>e. ParsePyLock low fo (PyLock_Render ip l) = Inl e"
proof -
  let ?ps = "sort_stable package_less (PlPackages l)"
  let ?root = "pylock_header l @ opt_tables ''packages'' (map package_table ?ps)"
  have top: "optional_key (Decoder_String (NewDecoder ?root) ''lock-version'') [] = Inr (PlLockVersion (canonical_pylock l))"
    "optional_key (Decoder_String (NewDecoder ?root) ''created-by'') [] = Inr (PlCreatedBy (canonical_pylock l))"
    "optional_key (Decoder_String (NewDecoder ?root) ''requires-python'') [] = Inr (PlRequiresPython l)"
    "optional_key (TableArray (NewDecoder ?root) ''packages'') [] = Inr (map (NewDecoder \<circ> package_table) ?ps)"
    by (simp_all add: optional_key_def Decoder_String_def TableArray_def NewDecoder_def canonical_pylock_def del: map_of_append)
  have pp: "if \<forall>f \<in> files p. PfHashes f \<noteq> []
      then parsePyLockPackage low (NewDecoder (package_table p)) = Inr (canonical_package p)
      else \<exists>e. parsePyLockPackage low (NewDecoder (package_table p)) = Inl e" if "p \<in> set ?ps" for p
    using that assms by (intro parse_package) (auto simp: pylock_ok_def list_all_iff)
  show ?thesis
  proof (cases "\<forall>p \<in> set (PlPackages l). \<forall>f \<in> files p. PfHashes f \<noteq> []")
    case True
    then have "parse_each UvPackage (parsePyLockPackage low) 0 (map (NewDecoder \<circ> package_table) ?ps) = Inr (map canonical_package ?ps)"
      using pp by (intro parse_each_all) auto
    then show ?thesis
      using True by (simp add: ParsePyLock_def render_read [OF assms(1)] top) (simp add: canonical_pylock_def)
  next
    case False
    then obtain p where p: "p \<in> set ?ps" "\<not> (\<forall>f \<in> files p. PfHashes f \<noteq> [])" by auto
    then have "\<exists>e. parse_each UvPackage (parsePyLockPackage low) 0 (map (NewDecoder \<circ> package_table) ?ps) = Inl e"
      using pp [OF p(1)] by (intro parse_each_error bexI [OF _ p(1)]) (simp only: if_False comp_def)
    then show ?thesis using False by (auto simp: ParsePyLock_def render_read [OF assms(1)] top)
  qed
qed

subsection \<open>From uv.lock to pylock.toml\<close>

text \<open>A hash as uv writes it.\<close>

definition hash_ok :: "bytes \<Rightarrow> bool" where
  "hash_ok h \<longleftrightarrow> (\<exists>a b. h = a @ CHR '':'' # b \<and> bare_key a \<and> b \<noteq> [] \<and> list_all toml_ok b)"

definition locked_files :: "LockedPackage \<Rightarrow> LockedFile set" where
  "locked_files p = set (LpWheels p) \<union> set_option (LpSdist p)"

definition uv_ok :: "UvLockfile \<Rightarrow> bool" where
  "uv_ok l \<longleftrightarrow>
    list_all toml_ok (UvRequiresPython l)
    \<and> (\<forall>p \<in> set (UvPackages l).
         list_all toml_ok (LpName p) \<and> list_all toml_ok (LpVersion p) \<and> (\<forall>d \<in> set (LpDependencies p). list_all toml_ok (LdName d))
         \<and> (\<forall>f \<in> locked_files p. list_all toml_ok (LfURL f) \<and> list_all toml_ok (LfFilename f)
           \<and> (LfHash f = [] \<or> hash_ok (LfHash f))))"

lemma toml_ok_ascii: "list_all toml_ok s \<Longrightarrow> ascii s"
  by (auto simp: list_all_iff ascii_def toml_ok_def)

lemma key_char_ok: "key_char c \<Longrightarrow> toml_ok c \<and> c \<noteq> CHR '':''"
  by (auto simp: key_char_def toml_ok_def is_digit_def)

lemma lower_char_ok: "toml_ok c \<Longrightarrow> toml_ok (lower_char c)" "key_char c \<Longrightarrow> key_char (lower_char c)" "lower_char (lower_char c) = lower_char c"
  by (auto simp: lower_char_def toml_ok_def key_char_def is_digit_def byte_def)

lemma split_hash:
  assumes "hash_ok h" "lower_law low"
  shows "\<exists>a b. SplitHash low h = Some (map lower_char a, map lower_char b) \<and> bare_key a \<and> list_all toml_ok b"
proof -
  from assms(1) obtain a b where h: "h = a @ CHR '':'' # b" "bare_key a" "b \<noteq> []" "list_all toml_ok b"
    unfolding hash_ok_def by blast
  have a: "list_all toml_ok a" "CHR '':'' \<notin> set a" using h(2) key_char_ok by (auto simp: bare_key_def list_all_iff)
  moreover have "a \<noteq> []" using h(2) by (simp add: bare_key_def)
  ultimately have "SplitHash low h = Some (low a, low b)" using h by (simp add: SplitHash_def)
  then show ?thesis using assms(2) h(2,4) a(1) toml_ok_ascii by (auto simp: lower_law_def)
qed

lemma hydrated:
  assumes "list_all toml_ok (LfURL f)" "list_all toml_ok (LfFilename f)" "LfHash f = [] \<or> hash_ok (LfHash f)" "lower_law low"
  shows "file_ok (hydrateLockedFile low f)" "PfHashes (hydrateLockedFile low f) = [] \<longleftrightarrow> LfHash f = []"
proof -
  have url: "list_all toml_ok (drop n (LfURL f))" for n
    using assms(1) by (auto simp: list_all_iff dest: in_set_dropD)
  have "SplitHash low [] = None" by (simp add: SplitHash_def)
  moreover have "hash_ok h \<Longrightarrow> h \<noteq> []" for h by (auto simp: hash_ok_def)
  ultimately show "PfHashes (hydrateLockedFile low f) = [] \<longleftrightarrow> LfHash f = []"
    using assms(3) split_hash [OF _ assms(4)] by (fastforce simp: hydrateLockedFile_def)
  have "ascii (map lower_char a) \<and> bare_key (map lower_char a) \<and> map lower_char (map lower_char a) = map lower_char a"
    if "bare_key a" for a
    using that lower_char_ok key_char_ok toml_ok_ascii [of "map lower_char a"] by (auto simp: bare_key_def list_all_iff)
  moreover have "ascii (map lower_char b) \<and> list_all toml_ok (map lower_char b) \<and> map lower_char (map lower_char b) = map lower_char b"
    if "list_all toml_ok b" for b
    using that lower_char_ok toml_ok_ascii [of "map lower_char b"] by (auto simp: list_all_iff)
  ultimately show "file_ok (hydrateLockedFile low f)"
    using assms url \<open>SplitHash low [] = None\<close> split_hash [of "LfHash f" low]
    by (auto simp: file_ok_def hydrateLockedFile_def split: option.split)
qed

lemma converted_ok:
  assumes "uv_ok l" "lower_law low"
  shows "pylock_ok (FromLockfile low l)"
proof -
  have "file_ok (hydrateLockedFile low f)" if "p \<in> set (UvPackages l)" "f \<in> locked_files p" for p f
    using that assms by (intro hydrated) (auto simp: uv_ok_def)
  then show ?thesis
    using assms(1) by (auto simp: uv_ok_def pylock_ok_def package_ok_def FromLockfile_def list_all_iff locked_files_def toml_ok_def)
qed

lemma converted_hashes:
  assumes "uv_ok l" "lower_law low"
  shows "(\<forall>p \<in> set (PlPackages (FromLockfile low l)). \<forall>f \<in> files p. PfHashes f \<noteq> [])
    \<longleftrightarrow> (\<forall>p \<in> set (UvPackages l). \<forall>f \<in> locked_files p. LfHash f \<noteq> [])"
proof -
  have "PfHashes (hydrateLockedFile low f) = [] \<longleftrightarrow> LfHash f = []" if "p \<in> set (UvPackages l)" "f \<in> locked_files p" for p f
    using that assms by (intro hydrated) (auto simp: uv_ok_def)
  then show ?thesis by (fastforce simp: FromLockfile_def files_def locked_files_def)
qed

text \<open>
  C0. The text rendered for a PEP 751 lock file whose files all have a hash reads back as its canonical
  form: packages by name and version, wheels by name, dependencies and hashes sorted.
\<close>

theorem ParsePyLock_Render:
  assumes "pylock_ok l" "\<forall>p \<in> set (PlPackages l). \<forall>f \<in> files p. PfHashes f \<noteq> []" "lower_law low"
  shows "ParsePyLock low float_ok (PyLock_Render is_print l) = Inr (canonical_pylock l)"
  using pylock_read [OF assms(1,3)] assms(2) by simp

text \<open>
  C24. A uv lock file whose files all have a hash survives the conversion: the PEP 751 text rendered for
  it reads back as the canonical form of the converted packages.
\<close>

theorem Uv_to_pylock:
  assumes "uv_ok l" "\<forall>p \<in> set (UvPackages l). \<forall>f \<in> locked_files p. LfHash f \<noteq> []" "lower_law low"
  shows "ParsePyLock low float_ok (PyLock_Render is_print (FromLockfile low l)) = Inr (canonical_pylock (FromLockfile low l))"
  using pylock_read [OF converted_ok [OF assms(1,3)] assms(3)] converted_hashes [OF assms(1,3)] assms(2) by simp

text \<open>A file without a hash, which uv may record, is rendered to a text the reader refuses.\<close>

lemma hashless_refused:
  assumes "uv_ok l" "p \<in> set (UvPackages l)" "f \<in> locked_files p" "LfHash f = []" "lower_law low"
  shows "\<exists>e. ParsePyLock low float_ok (PyLock_Render is_print (FromLockfile low l)) = Inl e"
proof -
  have "\<not> (\<forall>p \<in> set (PlPackages (FromLockfile low l)). \<forall>f \<in> files p. PfHashes f \<noteq> [])"
    unfolding converted_hashes [OF assms(1,5)] using assms(2-4) by blast
  then show ?thesis using pylock_read [OF converted_ok [OF assms(1,5)] assms(5)] by (simp only: if_False)
qed

definition sample_uv :: UvLockfile where
  "sample_uv =
    \<lparr>UvVersion = 1, UvRequiresPython = ''>=3.10'',
     UvPackages =
       [\<lparr>LpName = ''httpx'', LpVersion = ''0.27.0'', LpSource = no_source,
         LpDependencies = [\<lparr>LdName = ''certifi'', LdExtras = [], LdMarker = []\<rparr>, \<lparr>LdName = ''anyio'', LdExtras = [], LdMarker = []\<rparr>],
         LpWheels = [\<lparr>LfURL = ''https://f/httpx.whl'', LfHash = ''sha256:AB'', LfFilename = [], LfSize = 9\<rparr>],
         LpSdist = Some \<lparr>LfURL = ''https://f/httpx.tgz'', LfHash = ''sha256:cd'', LfFilename = [], LfSize = 9\<rparr>\<rparr>,
        \<lparr>LpName = ''anyio'', LpVersion = ''4.0'', LpSource = no_source, LpDependencies = [], LpWheels = [], LpSdist = None\<rparr>]\<rparr>"

lemma sample_hashes: "hash_ok ''sha256:AB''" "hash_ok ''sha256:cd''"
proof -
  have "''sha256:AB'' = ''sha256'' @ CHR '':'' # ''AB''" "bare_key ''sha256''" "list_all toml_ok ''AB''" by code_simp+
  then show "hash_ok ''sha256:AB''" unfolding hash_ok_def by blast
  have "''sha256:cd'' = ''sha256'' @ CHR '':'' # ''cd''" "list_all toml_ok ''cd''" by code_simp+
  with \<open>bare_key ''sha256''\<close> show "hash_ok ''sha256:cd''" unfolding hash_ok_def by blast
qed

lemma sample_uv_ok: "uv_ok sample_uv"
  using sample_hashes by (simp add: uv_ok_def sample_uv_def locked_files_def toml_ok_def)

lemma ParsePyLock_Render_witness:
  "ParsePyLock (map lower_char) (\<lambda>_. True) (PyLock_Render (\<lambda>_. True) (FromLockfile (map lower_char) sample_uv))
    = Inr (canonical_pylock (FromLockfile (map lower_char) sample_uv))"
proof (rule ParsePyLock_Render)
  have l: "lower_law (map lower_char)" by (simp add: lower_law_def)
  then show "pylock_ok (FromLockfile (map lower_char) sample_uv)" by (rule converted_ok [OF sample_uv_ok])
  show "\<forall>p \<in> set (PlPackages (FromLockfile (map lower_char) sample_uv)). \<forall>f \<in> files p. PfHashes f \<noteq> []"
    using converted_hashes [OF sample_uv_ok l] by (simp add: sample_uv_def locked_files_def)
  show "lower_law (map lower_char)" by (rule l)
qed

lemma Uv_to_pylock_witness:
  "map PpName (case ParsePyLock (map lower_char) (\<lambda>_. True) (PyLock_Render (\<lambda>_. True) (FromLockfile (map lower_char) sample_uv)) of
      Inl e \<Rightarrow> [] | Inr l \<Rightarrow> PlPackages l) = [''anyio'', ''httpx'']"
proof -
  have "\<forall>p \<in> set (UvPackages sample_uv). \<forall>f \<in> locked_files p. LfHash f \<noteq> []" by (simp add: sample_uv_def locked_files_def)
  moreover have "lower_law (map lower_char)" by (simp add: lower_law_def)
  ultimately show ?thesis
    by (simp add: Uv_to_pylock [OF sample_uv_ok]) (simp add: canonical_pylock_def canonical_package_def FromLockfile_def sample_uv_def package_less_def)
qed

end
