(* ===== verification/Pypackage.thy ===== *)
theory Pypackage
  imports Go_Os Toml_Lines Wrapper_Runtime
begin

section \<open>The Python package writer (pypackage/package.go, layout.go, render.go, wheel.go, sdist.go)\<close>

text \<open>
  A Mochi package rendered as a Python distribution: the project file, the metadata, the module and
  its stub, and the file layouts of a wheel and of a source distribution.  Indexing the parameters of a
  Mochi type that has too few panics, which is the \<open>None\<close> of the renderers of the stub.  The base-64
  text of a SHA-256 digest is the parameter \<open>b64\<close>.
\<close>

subsection \<open>Packages\<close>

datatype ExportKind = ExportFunc | ExportRecord | ExportInterface | ExportConstant

fun ExportKind_String :: "ExportKind \<Rightarrow> bytes" where
  "ExportKind_String ExportFunc = ''fun''"
| "ExportKind_String ExportRecord = ''record''"
| "ExportKind_String ExportInterface = ''interface''"
| "ExportKind_String ExportConstant = ''const''"

record Export =
  ExName :: bytes
  ExKind :: ExportKind
  ExType :: MochiType

record Package =
  Distribution :: bytes
  PkVersion :: bytes
  Summary :: bytes
  License :: bytes
  Author :: bytes
  HomePage :: bytes
  PkModule :: bytes
  PkRequiresPython :: bytes
  PkDependencies :: "bytes list"
  Exports :: "Export list"

datatype PackageError =
    EmptyDistribution | InvalidDistribution bytes | EmptyVersion | EmptySummary | EmptyLicense
  | EmptyExport nat | BadExport bytes

text \<open>The two loops test every rune; the index \<open>i\<close> counts bytes, and before a rune outside ASCII both have failed.\<close>

fun pep503_from :: "nat \<Rightarrow> nat \<Rightarrow> int list \<Rightarrow> bool" where
  "pep503_from n i [] = True"
| "pep503_from n i (r # rs) =
    (if 97 \<le> r \<and> r \<le> 122 then pep503_from n (Suc i) rs
     else if 48 \<le> r \<and> r \<le> 57 then pep503_from n (Suc i) rs
     else if r = 45 \<and> i \<noteq> 0 \<and> Suc i \<noteq> n then pep503_from n (Suc i) rs
     else False)"

definition isPEP503Name :: "bytes \<Rightarrow> bool" where
  "isPEP503Name s = (if s = [] then False else pep503_from (length s) 0 (runes s))"

fun export_ident_from :: "nat \<Rightarrow> int list \<Rightarrow> bool" where
  "export_ident_from i [] = True"
| "export_ident_from i (r # rs) =
    (if 97 \<le> r \<and> r \<le> 122 \<or> 65 \<le> r \<and> r \<le> 90 \<or> r = 95 then export_ident_from (Suc i) rs
     else if 48 \<le> r \<and> r \<le> 57 \<and> 0 < i then export_ident_from (Suc i) rs
     else False)"

definition export_ident :: "bytes \<Rightarrow> bool" where
  "export_ident s = (if s = [] then False else export_ident_from 0 (runes s))"

fun check_exports :: "nat \<Rightarrow> Export list \<Rightarrow> PackageError option" where
  "check_exports i [] = None"
| "check_exports i (e # es) =
    (if ExName e = [] then Some (EmptyExport i)
     else if \<not> export_ident (ExName e) then Some (BadExport (ExName e))
     else check_exports (Suc i) es)"

definition Package_Validate :: "Package \<Rightarrow> PackageError option" where
  "Package_Validate p =
    (if Distribution p = [] then Some EmptyDistribution
     else if \<not> isPEP503Name (Distribution p) then Some (InvalidDistribution (Distribution p))
     else if PkVersion p = [] then Some EmptyVersion
     else if Summary p = [] then Some EmptySummary
     else if License p = [] then Some EmptyLicense
     else check_exports 0 (Exports p))"

definition Package_ModuleName :: "Package \<Rightarrow> bytes" where
  "Package_ModuleName p =
    (if PkModule p \<noteq> [] then PkModule p else replace_byte (CHR ''-'') (CHR ''_'') (Distribution p))"

subsection \<open>Layouts\<close>

text \<open>The map of a layout: distinct paths with their bodies.\<close>

type_synonym Layout = "(bytes \<times> bytes) list"

definition NewLayout :: Layout where
  "NewLayout = []"

definition Layout_Add :: "bytes \<Rightarrow> bytes \<Rightarrow> Layout \<Rightarrow> Layout" where
  "Layout_Add path body l = AList.update path body l"

definition Layout_Paths :: "Layout \<Rightarrow> bytes list" where
  "Layout_Paths l = sort_strings (map fst l)"

datatype LayoutError = EmptyDestination | LayoutMkdir bytes | LayoutWrite bytes

text \<open>\<open>filepath.Dir\<close> of a joined path: the cleaned text before its last slash.\<close>

definition path_dir :: "bytes \<Rightarrow> bytes" where
  "path_dir p = (case last_index p ''/'' of None \<Rightarrow> path_clean [] | Some i \<Rightarrow> path_clean (take (i + 1) p))"

definition layout_ops :: "bytes \<Rightarrow> Layout \<Rightarrow> (os_op \<times> LayoutError) list" where
  "layout_ops dst l =
    concat (map (\<lambda>p. let full = path_join [dst, p] in
      [(Mkdir (path_dir full), LayoutMkdir (path_dir full)), (WriteFile full (the (map_of l p)), LayoutWrite full)])
      (Layout_Paths l))"

text \<open>The operations done, the files written and the error that stopped the run.\<close>

definition Layout_Write :: "os \<Rightarrow> bytes \<Rightarrow> Layout \<Rightarrow> os_op list \<times> bytes list \<times> LayoutError option" where
  "Layout_Write os dst l =
    (if dst = [] then ([], [], Some EmptyDestination)
     else case run_ops os (layout_ops dst l) of
       (log, r) \<Rightarrow> (log, concat (map (\<lambda>a. case a of WriteFile p b \<Rightarrow> [p] | _ \<Rightarrow> []) log), r))"

subsection \<open>The project file and the metadata\<close>

definition Generator :: bytes where
  "Generator = ''mochi pkg build (MEP-71)''"

definition spaced_table :: "(int \<Rightarrow> bool) \<Rightarrow> bytes \<Rightarrow> bytes \<Rightarrow> bytes" where
  "spaced_table ip key v = ''{ '' @ key @ '' = '' @ quote ip v @ '' }''"

definition optional_value :: "bytes \<Rightarrow> bytes \<Rightarrow> bytes \<Rightarrow> bytes" where
  "optional_value key v t = (if v \<noteq> [] then key @ '' = '' @ t @ nl else [])"

definition dependency_list :: "(int \<Rightarrow> bool) \<Rightarrow> bytes list \<Rightarrow> bytes" where
  "dependency_list ip deps = ''['' @ nl @ concat (map (\<lambda>d. ''    '' @ quote ip d @ '','' @ nl) deps) @ '']''"

definition build_system_lines :: bytes where
  "build_system_lines =
    ''requires = '' @ ''[\"mochi-python-runtime>=0.6,<0.7\"]'' @ nl
    @ ''build-backend = \"mochi_build\"'' @ nl
    @ ''backend-path = [\".\"]'' @ nl"

definition project_lines :: "(int \<Rightarrow> bool) \<Rightarrow> Package \<Rightarrow> bytes" where
  "project_lines ip p =
    string_line ip ''name'' (Distribution p)
    @ string_line ip ''version'' (PkVersion p)
    @ string_line ip ''description'' (Summary p)
    @ optional_line ip ''requires-python'' (PkRequiresPython p)
    @ optional_value ''license'' (License p) (spaced_table ip ''text'' (License p))
    @ optional_value ''urls'' (HomePage p) (spaced_table ip ''Homepage'' (HomePage p))
    @ optional_value ''authors'' (Author p) (''['' @ spaced_table ip ''name'' (Author p) @ '']'')
    @ (if PkDependencies p \<noteq> [] then ''dependencies = '' @ dependency_list ip (sort_strings (PkDependencies p)) @ nl else [])"

definition PyprojectTOML :: "(int \<Rightarrow> bool) \<Rightarrow> Package \<Rightarrow> bytes" where
  "PyprojectTOML ip p =
    ''# Auto-generated by '' @ Generator @ ''. Do not edit by hand.'' @ nl @ nl
    @ table_header [''build-system''] @ build_system_lines @ nl
    @ table_header [''project''] @ project_lines ip p"

definition meta_line :: "bytes \<Rightarrow> bytes \<Rightarrow> bytes" where
  "meta_line key v = key @ '': '' @ v @ nl"

definition optional_meta :: "bytes \<Rightarrow> bytes \<Rightarrow> bytes" where
  "optional_meta key v = (if v \<noteq> [] then meta_line key v else [])"

definition PKGInfo :: "Package \<Rightarrow> bytes" where
  "PKGInfo p =
    ''Metadata-Version: 2.1'' @ nl
    @ meta_line ''Name'' (Distribution p)
    @ meta_line ''Version'' (PkVersion p)
    @ meta_line ''Summary'' (Summary p)
    @ optional_meta ''Home-page'' (HomePage p)
    @ optional_meta ''Author'' (Author p)
    @ optional_meta ''License'' (License p)
    @ optional_meta ''Requires-Python'' (PkRequiresPython p)
    @ concat (map (meta_line ''Requires-Dist'') (sort_strings (PkDependencies p)))
    @ nl @ Summary p @ nl"

definition WheelMetadata :: bytes where
  "WheelMetadata =
    ''Wheel-Version: 1.0'' @ nl @ ''Generator: '' @ Generator @ nl @ ''Root-Is-Purelib: true'' @ nl @ ''Tag: py3-none-any'' @ nl"

definition exportNames :: "Package \<Rightarrow> bytes list" where
  "exportNames p = sort_strings (map ExName (Exports p))"

definition triple_quote :: bytes where
  "triple_quote = [CHR 0x22, CHR 0x22, CHR 0x22]"

definition InitPy :: "(int \<Rightarrow> bool) \<Rightarrow> Package \<Rightarrow> bytes" where
  "InitPy ip p =
    ''# Auto-generated by '' @ Generator @ ''. Do not edit by hand.'' @ nl
    @ triple_quote @ Distribution p @ '' (compiled from Mochi).'' @ nl @ nl
    @ Summary p @ triple_quote @ nl
    @ ''from .mochi_runtime import *  # noqa: F401,F403'' @ nl
    @ ''__all__ = ['' @ nl
    @ concat (map (\<lambda>n. ''    '' @ quote ip n @ '','' @ nl) (exportNames p))
    @ '']'' @ nl"

text \<open>The build backend a source distribution carries, a constant text.\<close>

definition MochiBuildBackend :: bytes where
  "MochiBuildBackend = unlines
    [''\"\"\"mochi_build PEP 517 backend. Generated by '' @ Generator @ ''.\"\"\"'',
     [],
     ''from __future__ import annotations'',
     [],
     ''import os'',
     ''import shutil'',
     ''import subprocess'',
     ''import sys'',
     ''from pathlib import Path'',
     [],
     [],
     ''def _run_mochi(target: str, dest: Path, config_settings: dict | None) -> Path:'',
     ''    dest.mkdir(parents=True, exist_ok=True)'',
     ''    cmd = ['',
     ''        \"mochi\", \"pkg\", \"build\",'',
     ''        \"--target=python-package\",'',
     ''        f\"--format={target}\",'',
     ''        f\"--out={dest}\",'',
     ''    ]'',
     ''    if config_settings:'',
     ''        for k, v in config_settings.items():'',
     ''            cmd.append(f\"--config-setting={k}={v}\")'',
     ''    subprocess.run(cmd, check=True)'',
     ''    artifacts = sorted(dest.glob(f\"*.{target}\" if target == \"whl\" else \"*.tar.gz\"))'',
     ''    if not artifacts:'',
     ''        raise RuntimeError(f\"mochi pkg build produced no {target} artifact\")'',
     ''    return artifacts[-1]'',
     [],
     [],
     ''def build_wheel(wheel_directory: str, config_settings: dict | None = None,'',
     ''                metadata_directory: str | None = None) -> str:'',
     ''    art = _run_mochi(\"whl\", Path(wheel_directory), config_settings)'',
     ''    return art.name'',
     [],
     [],
     ''def build_sdist(sdist_directory: str, config_settings: dict | None = None) -> str:'',
     ''    art = _run_mochi(\"sdist\", Path(sdist_directory), config_settings)'',
     ''    return art.name'',
     [],
     [],
     ''def get_requires_for_build_wheel(config_settings: dict | None = None) -> list[str]:'',
     ''    return []'',
     [],
     [],
     ''def get_requires_for_build_sdist(config_settings: dict | None = None) -> list[str]:'',
     ''    return []'',
     [],
     [],
     ''def prepare_metadata_for_build_wheel(metadata_directory: str,'',
     ''                                     config_settings: dict | None = None) -> str:'',
     ''    dest = Path(metadata_directory)'',
     ''    info = dest / (os.environ.get(\"MOCHI_DIST_INFO\", \"mochi-0.0.0.dist-info\"))'',
     ''    info.mkdir(parents=True, exist_ok=True)'',
     ''    return info.name'']"

subsection \<open>The stub\<close>

definition pyScalar :: "bytes \<Rightarrow> bytes" where
  "pyScalar name = (if name = ''string'' then ''str'' else name)"

fun pyAnnotation :: "MochiType \<Rightarrow> bytes option" where
  "pyAnnotation (MType k name ps fs ms) =
    (let rs = map pyAnnotation ps in
     case k of
       KindScalar \<Rightarrow> Some (pyScalar name)
     | KindList \<Rightarrow> wrap ''list['' '']'' (param rs 0)
     | KindSet \<Rightarrow> wrap ''set['' '']'' (param rs 0)
     | KindMap \<Rightarrow> append_opt (wrap ''dict['' '', '' (param rs 0)) (wrap [] '']'' (param rs 1))
     | KindOptional \<Rightarrow> wrap ''Optional['' '']'' (param rs 0)
     | KindSum \<Rightarrow> wrap ''Union['' '']'' (seq_join '', '' rs)
     | KindTuple \<Rightarrow> wrap ''tuple['' '']'' (seq_join '', '' rs)
     | KindAsync \<Rightarrow> wrap ''Awaitable['' '']'' (param rs 0)
     | KindStream \<Rightarrow> wrap ''AsyncIterator['' '']'' (param rs 0)
     | KindFun \<Rightarrow>
         append_opt (wrap ''Callable[['' ''], '' (seq_join '', '' (take (length rs - 1) rs)))
           (wrap [] '']'' (if length rs = 0 then Some ''None'' else param rs (length rs - 1)))
     | KindRef \<Rightarrow> Some name
     | KindRecord \<Rightarrow> Some (if name = [] then ''Any'' else name)
     | KindInterface \<Rightarrow> Some (if name = [] then ''Any'' else name)
     | KindTypeVar \<Rightarrow> Some name
     | KindUnknown \<Rightarrow> Some ''Any'')"

fun annotated_args :: "nat \<Rightarrow> MochiType list \<Rightarrow> bytes option list" where
  "annotated_args i [] = []"
| "annotated_args i (t # ts) = wrap (''arg'' @ itoa (int i) @ '': '') [] (pyAnnotation t) # annotated_args (Suc i) ts"

definition renderFuncSig :: "Export \<Rightarrow> bytes option" where
  "renderFuncSig e =
    (case (FunParams (ExType e), FunReturn (ExType e)) of
       (Some ps, Some r) \<Rightarrow>
         append_opt (wrap (''def '' @ ExName e @ ''('') '') -> '' (seq_join '', '' (annotated_args 0 ps)))
           (wrap [] ('': ...'' @ nl) (pyAnnotation r))
     | _ \<Rightarrow> None)"

definition renderRecord :: "Export \<Rightarrow> bytes option" where
  "renderRecord e =
    wrap (''class '' @ ExName e @ '':'' @ nl) []
      (if Fields (ExType e) = [] then Some (''    ...'' @ nl)
       else seq_join [] (map (\<lambda>f. wrap (''    '' @ FName f @ '': '') nl (pyAnnotation (FType f))) (Fields (ExType e))))"

definition interface_method :: "MochiMethod \<Rightarrow> bytes option" where
  "interface_method m =
    append_opt
      (wrap (''    '' @ (if MethAsync m then ''async def'' else ''def'') @ '' '' @ MethName m @ ''('') '') -> ''
        (seq_join '', '' (Some ''self'' # annotated_args 0 (MethParams m))))
      (wrap [] ('': ...'' @ nl) (pyAnnotation (MethReturn m)))"

definition renderInterface :: "Export \<Rightarrow> bytes option" where
  "renderInterface e =
    wrap (''class '' @ ExName e @ ''(Protocol):'' @ nl) []
      (if Methods (ExType e) = [] then Some (''    ...'' @ nl)
       else seq_join [] (map interface_method (Methods (ExType e))))"

definition renderConstant :: "Export \<Rightarrow> bytes option" where
  "renderConstant e = wrap (ExName e @ '': '') nl (pyAnnotation (ExType e))"

definition stub_item :: "Export \<Rightarrow> bytes option" where
  "stub_item e =
    wrap [] nl
      (case ExKind e of
         ExportFunc \<Rightarrow> renderFuncSig e
       | ExportRecord \<Rightarrow> renderRecord e
       | ExportInterface \<Rightarrow> renderInterface e
       | ExportConstant \<Rightarrow> renderConstant e)"

text \<open>The typing names of a type, in the order they are first met.\<close>

fun walkTyping :: "MochiType \<Rightarrow> bytes list"
  and typing_field :: "MochiField \<Rightarrow> bytes list"
  and typing_method :: "MochiMethod \<Rightarrow> bytes list" where
  "walkTyping (MType k name ps fs ms) =
    (let params = concat (map walkTyping ps) in
     case k of
       KindOptional \<Rightarrow> ''Optional'' # params
     | KindSum \<Rightarrow> ''Union'' # params
     | KindAsync \<Rightarrow> ''Awaitable'' # params
     | KindStream \<Rightarrow> ''AsyncIterator'' # params
     | KindFun \<Rightarrow> ''Callable'' # params
     | KindScalar \<Rightarrow> if name = ''Any'' then [''Any''] else []
     | KindList \<Rightarrow> params
     | KindSet \<Rightarrow> params
     | KindMap \<Rightarrow> params
     | KindTuple \<Rightarrow> params
     | KindRecord \<Rightarrow> concat (map typing_field fs)
     | KindInterface \<Rightarrow> concat (map typing_method ms)
     | KindRef \<Rightarrow> []
     | KindTypeVar \<Rightarrow> []
     | KindUnknown \<Rightarrow> [])"
| "typing_field (MField n t) = walkTyping t"
| "typing_method (MMethod n ps r a) = concat (map walkTyping ps) @ walkTyping r"

definition typing_names :: "Package \<Rightarrow> bytes list" where
  "typing_names p =
    sort_strings (remdups (concat (map (\<lambda>e. (if ExKind e = ExportInterface then [''Protocol''] else []) @ walkTyping (ExType e)) (Exports p))))"

definition pyImportsFor :: "Package \<Rightarrow> bytes list" where
  "pyImportsFor p = (if typing_names p = [] then [] else [''from typing import '' @ join '', '' (typing_names p)])"

definition InitPYI :: "Package \<Rightarrow> bytes option" where
  "InitPYI p =
    wrap
      (''# Auto-generated by '' @ Generator @ ''. Do not edit by hand.'' @ nl
       @ (if pyImportsFor p \<noteq> [] then concat (map (\<lambda>line. line @ nl) (pyImportsFor p)) @ nl else []))
      [] (seq_join [] (map stub_item (Exports p)))"

subsection \<open>Wheels and source distributions\<close>

record RecordEntry =
  RePath :: bytes
  ReHash :: bytes
  ReSize :: nat

definition RecordLine :: "RecordEntry \<Rightarrow> bytes" where
  "RecordLine e =
    (if ReHash e = [] \<and> ReSize e = 0 then RePath e @ '',,''
     else RePath e @ '',sha256='' @ ReHash e @ '','' @ itoa (int (ReSize e)))"

definition HashBody :: "(bytes \<Rightarrow> bytes) \<Rightarrow> bytes \<Rightarrow> bytes" where
  "HashBody b64 body = rev (dropWhile (\<lambda>c. c = CHR ''='') (rev (b64 body)))"

definition recordBody :: "(bytes \<Rightarrow> bytes) \<Rightarrow> Layout \<Rightarrow> bytes \<Rightarrow> bytes" where
  "recordBody b64 l rec =
    concat (map (\<lambda>p.
        (if p = rec then RecordLine \<lparr>RePath = p, ReHash = [], ReSize = 0\<rparr>
         else let body = the (map_of l p) in RecordLine \<lparr>RePath = p, ReHash = HashBody b64 body, ReSize = length body\<rparr>) @ nl)
      (sort_strings (map fst l @ [rec])))"

definition dist_info :: "Package \<Rightarrow> bytes" where
  "dist_info p = Distribution p @ ''-'' @ PkVersion p @ ''.dist-info''"

text \<open>An inner \<open>None\<close> is a panic of the stub renderer.\<close>

definition RenderWheel :: "(int \<Rightarrow> bool) \<Rightarrow> (bytes \<Rightarrow> bytes) \<Rightarrow> Package \<Rightarrow> PackageError + Layout option" where
  "RenderWheel ip b64 p =
    (case Package_Validate p of
       Some e \<Rightarrow> Inl e
     | None \<Rightarrow>
         (case InitPYI p of
            None \<Rightarrow> Inr None
          | Some stub \<Rightarrow>
              let dir = Package_ModuleName p;
                  l = Layout_Add (dir @ ''/__init__.py'') (InitPy ip p) NewLayout;
                  l = Layout_Add (dir @ ''/__init__.pyi'') stub l;
                  l = Layout_Add (dist_info p @ ''/METADATA'') (PKGInfo p) l;
                  l = Layout_Add (dist_info p @ ''/WHEEL'') WheelMetadata l;
                  rec = dist_info p @ ''/RECORD''
              in Inr (Some (Layout_Add rec (recordBody b64 l rec) l))))"

definition readme :: "Package \<Rightarrow> bytes" where
  "readme p = ''# '' @ Distribution p @ nl @ nl @ Summary p @ nl"

definition RenderSdist :: "(int \<Rightarrow> bool) \<Rightarrow> Package \<Rightarrow> PackageError + Layout option" where
  "RenderSdist ip p =
    (case Package_Validate p of
       Some e \<Rightarrow> Inl e
     | None \<Rightarrow>
         (case InitPYI p of
            None \<Rightarrow> Inr None
          | Some stub \<Rightarrow>
              let root = Distribution p @ ''-'' @ PkVersion p; dir = Package_ModuleName p;
                  l = Layout_Add (root @ ''/pyproject.toml'') (PyprojectTOML ip p) NewLayout;
                  l = Layout_Add (root @ ''/PKG-INFO'') (PKGInfo p) l;
                  l = Layout_Add (root @ ''/README.md'') (readme p) l;
                  l = Layout_Add (root @ ''/'' @ dir @ ''/__init__.py'') (InitPy ip p) l;
                  l = Layout_Add (root @ ''/'' @ dir @ ''/__init__.pyi'') stub l
              in Inr (Some (Layout_Add (root @ ''/mochi_build/__init__.py'') MochiBuildBackend l))))"

end
