(* ===== verification/Pypackage_Read.thy ===== *)
theory Pypackage_Read
  imports Pypackage
begin

section \<open>What the readers of a Python package find in it\<close>

text \<open>
  The files of a wheel against its \<open>RECORD\<close>, the project file against the TOML reader, and the names of
  the stub against its imports.
\<close>

subsection \<open>The RECORD of a wheel\<close>


definition plain_field :: "bytes \<Rightarrow> bool" where
  "plain_field s \<longleftrightarrow> CHR '','' \<notin> set s \<and> CHR 0x0A \<notin> set s"

lemma plain_field_append [simp]: "plain_field (s @ t) \<longleftrightarrow> plain_field s \<and> plain_field t" "plain_field []"
  "plain_field (c # s) \<longleftrightarrow> c \<noteq> CHR '','' \<and> c \<noteq> CHR 0x0A \<and> plain_field s"
  by (auto simp: plain_field_def)














definition sample_package :: Package where
  "sample_package =
    \<lparr>Distribution = ''mochi-greet'', PkVersion = ''1.0'', Summary = ''Greetings'', License = ''MIT'', Author = ''A'', HomePage = ''https://g'',
     PkModule = [], PkRequiresPython = ''>=3.10'', PkDependencies = [''b'', ''a''],
     Exports = [\<lparr>ExName = ''greet'', ExKind = ExportFunc, ExType = NewFun (NewOptional (NewScalar ''string'')) [NewScalar ''int'']\<rparr>]\<rparr>"



text \<open>A line break in the summary adds headers to the metadata.\<close>

lemma summary_adds_header:
  "''Requires-Dist: evil'' \<in> set (split_on (CHR 0x0A) (PKGInfo (sample_package\<lparr>Summary := ''s'' @ nl @ ''Requires-Dist: evil'', PkDependencies := []\<rparr>)))"
  by (simp add: PKGInfo_def meta_line_def optional_meta_def sample_package_def nl_def sort_strings_def)

subsection \<open>The project file\<close>

lemma spaced_table_read:
  assumes "bare_key k" "list_all toml_ok v"
  shows "parseValue fo (Suc (Suc (Suc n))) (spaced_table ip k v @ r) = Inr (TTab [(k, TStr v)], r)"
proof -
  have hd: "\<not> peek_is CHR ''}'' (k @ CHR '' '' # x)" for x
    using assms(1) by (cases k) (auto simp: bare_key_def key_char_def is_digit_def)
  have blank: "skipInlineWS (k @ CHR '' '' # x) = k @ CHR '' '' # x" for x
    using assms(1) by (cases k) (auto simp: bare_key_def skipInlineWS_def key_char_def is_digit_def)
  have key: "parseKey (k @ CHR '' '' # x) = Inr (k, CHR '' '' # x)" for x using parseKey_bare [OF assms(1), of "CHR '' ''"] by simp
  have v: "parseValue fo (Suc n) (quote ip v @ CHR '' '' # CHR ''}'' # r) = Inr (TStr v, CHR '' '' # CHR ''}'' # r)"
    by (rule parseValue_quote [OF assms(2)]) simp
  have "inline_loop fo (Suc (Suc n)) [] (k @ CHR '' '' # CHR ''='' # CHR '' '' # quote ip v @ CHR '' '' # CHR ''}'' # r) = Inr (TTab [(k, TStr v)], r)"
    by (simp add: inline_loop.simps blank key v Let_def)
  then show ?thesis by (simp add: spaced_table_def parseValue.simps(2) blank hd Let_def)
qed

lemma authors_read:
  assumes "bare_key k" "list_all toml_ok v"
  shows "parseValue fo (Suc (Suc (Suc (Suc (Suc n))))) (CHR ''['' # spaced_table ip k v @ CHR '']'' # r) = Inr (TTabs [[(k, TStr v)]], r)"
proof -
  have "skipWSAndComments (spaced_table ip k v @ CHR '']'' # r) = spaced_table ip k v @ CHR '']'' # r"
    by (simp add: spaced_table_def skipWSAndComments.simps)
  moreover have "spaced_table ip k v @ CHR '']'' # r \<noteq> []" "\<not> peek_is CHR '']'' (spaced_table ip k v @ CHR '']'' # r)"
    by (simp_all add: spaced_table_def)
  ultimately show ?thesis
    using spaced_table_read [OF assms, of fo n ip "CHR '']'' # r"]
    by (simp add: parseValue.simps(2) [of _ "Suc _" "CHR ''['' # _"] array_loop.simps skip_separator array_value_def is_table_def the_table_def)
qed

lemma dependencies_read:
  "list_all (list_all toml_ok) ds \<Longrightarrow> Suc (length ds) \<le> n \<Longrightarrow>
    array_loop fo (Suc n) items (nl @ concat (map (\<lambda>d. ''    '' @ quote ip d @ '','' @ nl) ds) @ CHR '']'' # r)
      = Inr (array_value (items @ map TStr ds), r)"
proof (induction ds arbitrary: n items)
  case Nil
  have "skipWSAndComments (CHR 0x0A # CHR '']'' # r) = CHR '']'' # r" by (simp add: skip_nl skip_separator)
  then show ?case by (simp add: array_loop.simps nl_def)
next
  case (Cons d ds)
  let ?L = "concat (map (\<lambda>d. ''    '' @ quote ip d @ '','' @ nl) ds)"
  obtain m where n: "n = Suc m" "Suc (length ds) \<le> m" using Cons.prems(2) by (cases n) auto
  let ?R = "CHR '','' # nl @ ?L @ CHR '']'' # r"
  have "skipWSAndComments (CHR 0x0A # ''    '' @ quote ip d @ ?R) = quote ip d @ ?R"
    by (simp add: skip_nl) (simp add: skipWSAndComments.simps quote_def)
  moreover have "parseValue fo (Suc m) (quote ip d @ ?R) = Inr (TStr d, ?R)"
    using Cons.prems(1) by (intro parseValue_quote) simp_all
  moreover have "array_loop fo (Suc m) (items @ [TStr d]) (nl @ ?L @ CHR '']'' # r) = Inr (array_value ((items @ [TStr d]) @ map TStr ds), r)"
    using Cons.prems(1) n(2) by (intro Cons.IH) simp_all
  moreover have "quote ip d @ ?R \<noteq> []" "\<not> peek_is CHR '']'' (quote ip d @ ?R)" by (simp_all add: quote_def)
  ultimately show ?case
    unfolding n(1) array_loop.simps(2) [of fo "Suc m"] by (simp add: nl_def skip_separator Let_def)
qed

text \<open>The tables of a project file.\<close>

definition build_system_table :: Toml.table where
  "build_system_table =
    [(''requires'', TArr [TStr ''mochi-python-runtime>=0.6,<0.7'']), (''build-backend'', TStr ''mochi_build''),
     (''backend-path'', TArr [TStr ''.''])]"

definition opt_entry :: "bytes \<Rightarrow> bytes \<Rightarrow> toml \<Rightarrow> Toml.table" where
  "opt_entry k v t = (if v \<noteq> [] then [(k, t)] else [])"

lemma opt_entry_simps [simp]:
  "fst ` set (opt_entry k v w) = (if v \<noteq> [] then {k} else {})"
  "map_of (opt_entry k v w @ t) k' = (if k = k' \<and> v \<noteq> [] then Some w else map_of t k')"
  by (auto simp: opt_entry_def)

definition project_table :: "Package \<Rightarrow> Toml.table" where
  "project_table p =
    [(''name'', TStr (Distribution p)), (''version'', TStr (PkVersion p)), (''description'', TStr (Summary p))]
    @ opt_field ''requires-python'' (PkRequiresPython p)
    @ opt_entry ''license'' (License p) (TTab [(''text'', TStr (License p))])
    @ opt_entry ''urls'' (HomePage p) (TTab [(''Homepage'', TStr (HomePage p))])
    @ opt_entry ''authors'' (Author p) (TTabs [[(''name'', TStr (Author p))]])
    @ opt_strings ''dependencies'' (sort_strings (PkDependencies p))"

definition package_strings_ok :: "Package \<Rightarrow> bool" where
  "package_strings_ok p \<longleftrightarrow>
    list_all (list_all toml_ok)
      ([Distribution p, PkVersion p, Summary p, License p, Author p, HomePage p, PkRequiresPython p] @ PkDependencies p)"

lemma project_keys [simp]:
  "bare_key ''name''" "bare_key ''version''" "bare_key ''description''" "bare_key ''requires-python''" "bare_key ''license''"
  "bare_key ''urls''" "bare_key ''authors''" "bare_key ''dependencies''" "bare_key ''text''" "bare_key ''Homepage''"
  "bare_key ''requires''" "bare_key ''build-backend''" "bare_key ''backend-path''" "bare_key ''build-system''" "bare_key ''project''"
  by code_simp+

lemma build_system_text:
  "build_system_lines = optional_strings ip ''requires'' [''mochi-python-runtime>=0.6,<0.7'']
    @ string_line ip ''build-backend'' ''mochi_build'' @ optional_strings ip ''backend-path'' [''.'']"
  by (simp add: build_system_lines_def optional_strings_def strings_text_def string_line_def quote_def escape_ascii_def)

context cursor
begin

lemma value_text_read:
  assumes "bare_key k" "k \<notin> fst ` set t" "\<forall>n r. parseValue fo (Suc (Suc (Suc (Suc (Suc n))))) (c # x @ r) = Inr (w, r)"
    "2 \<le> length x" "c \<noteq> CHR '' ''" "c \<noteq> CHR 0x09"
  shows "document_loop fo (plug t) path (optional_value k v (c # x) @ s) = document_loop fo (plug (t @ opt_entry k v w)) path s"
proof -
  obtain n where "value_fuel (c # x @ CHR 0x0A # s) = Suc (Suc (Suc (Suc (Suc n))))"
    using assms(4) by (intro that [of "2 * length x + 2 * length s"]) (simp add: value_fuel_def)
  then show ?thesis
    using value_line_read [OF assms(1,2,5,6), of fo x s w] assms(3) by (simp add: optional_value_def opt_entry_def nl_def)
qed

lemma dependency_list_read:
  assumes "list_all (list_all toml_ok) ds" "''dependencies'' \<notin> fst ` set t"
  shows "document_loop fo (plug t) path ((if ds \<noteq> [] then ''dependencies = '' @ dependency_list ip ds @ nl else []) @ s)
    = document_loop fo (plug (t @ opt_strings ''dependencies'' ds)) path s"
proof (cases "ds = []")
  case False
  let ?x = "nl @ concat (map (\<lambda>d. ''    '' @ quote ip d @ '','' @ nl) ds) @ '']''"
  have "length ds \<le> length (concat (map (\<lambda>d. ''    '' @ quote ip d @ '','' @ nl) ds))" by (induction ds) simp_all
  then obtain n where n: "value_fuel (CHR ''['' # ?x @ CHR 0x0A # s) = Suc (Suc n)" "Suc (length ds) \<le> n"
    by (intro that [of "value_fuel (CHR ''['' # ?x @ CHR 0x0A # s) - 2"]) (simp_all add: value_fuel_def nl_def)
  have "parseValue fo (Suc (Suc n)) (CHR ''['' # ?x @ CHR 0x0A # s) = Inr (TArr (map TStr ds), CHR 0x0A # s)"
    using dependencies_read [OF assms(1) n(2), of fo "[]" ip "CHR 0x0A # s"]
    by (simp add: parseValue.simps(2) array_value_strings)
  then show ?thesis
    using value_line_read [OF _ assms(2), of "CHR ''[''" fo ?x s "TArr (map TStr ds)"] n(1) False
    by (simp add: dependency_list_def opt_strings_def nl_def)
qed (simp add: opt_strings_def)

lemma build_system_read:
  "document_loop fo (plug []) path (build_system_lines @ s) = document_loop fo (plug build_system_table) path s"
  unfolding build_system_text [of "\<lambda>_. True"]
  by (simp add: optional_strings_read string_line_read toml_ok_def image_Un) (simp add: opt_strings_def build_system_table_def)

lemma project_lines_read:
  assumes "package_strings_ok p"
  shows "document_loop fo (plug []) path (project_lines ip p @ s) = document_loop fo (plug (project_table p)) path s"
proof -
  have strings: "list_all toml_ok (Distribution p)" "list_all toml_ok (PkVersion p)" "list_all toml_ok (Summary p)"
    "list_all toml_ok (License p)" "list_all toml_ok (Author p)" "list_all toml_ok (HomePage p)" "list_all toml_ok (PkRequiresPython p)"
    "list_all (list_all toml_ok) (sort_strings (PkDependencies p))"
    using assms by (auto simp: package_strings_ok_def list_all_iff sort_strings_def)
  have table: "document_loop fo (plug t) path (optional_value k v (spaced_table ip k' v) @ s)
      = document_loop fo (plug (t @ opt_entry k v (TTab [(k', TStr v)]))) path s"
    if "bare_key k" "k \<notin> fst ` set t" "bare_key k'" "list_all toml_ok v" for t k k' v s
    using value_text_read [OF that(1,2), of fo "CHR ''{''" "CHR '' '' # k' @ '' = '' @ quote ip v @ '' }''"]
      spaced_table_read [OF that(3,4)]
    by (simp add: spaced_table_def)
  have authors: "document_loop fo (plug t) path (optional_value k v (CHR ''['' # spaced_table ip k' v @ '']'') @ s)
      = document_loop fo (plug (t @ opt_entry k v (TTabs [[(k', TStr v)]]))) path s"
    if "bare_key k" "k \<notin> fst ` set t" "bare_key k'" "list_all toml_ok v" for t k k' v s
    using value_text_read [OF that(1,2), of fo "CHR ''[''" "spaced_table ip k' v @ '']''"] authors_read [OF that(3,4)]
    by (simp add: spaced_table_def)
  define D where "D = (if sort_strings (PkDependencies p) \<noteq> []
    then ''dependencies = '' @ dependency_list ip (sort_strings (PkDependencies p)) @ nl else [])"
  have deps: "(if PkDependencies p \<noteq> [] then ''dependencies = '' @ dependency_list ip (sort_strings (PkDependencies p)) @ nl else []) = D"
    unfolding D_def by (metis set_empty set_sort sort_strings_def)
  have last: "document_loop fo (plug t) path (D @ s) = document_loop fo (plug (t @ opt_strings ''dependencies'' (sort_strings (PkDependencies p)))) path s"
    if "''dependencies'' \<notin> fst ` set t" for t
    unfolding D_def by (rule dependency_list_read [OF strings(8) that])
  show ?thesis
    unfolding project_lines_def deps append_assoc
    by (simp add: strings string_line_read optional_line_read table authors last image_Un project_table_def)
qed

end

lemma project_read:
  assumes "package_strings_ok p"
  shows "Parse fo (PyprojectTOML ip p) = Inr [(''build-system'', TTab build_system_table), (''project'', TTab (project_table p))]"
proof -
  let ?b = "[(''build-system'', TTab build_system_table)]"
  let ?rest = "nl @ table_header [''project''] @ project_lines ip p"
  have c1: "cursor [''build-system''] (\<lambda>u. [(''build-system'', TTab u)])"
    using top.table_cursor [of "''build-system''" "[]"] by simp
  have c2: "cursor [''project''] (\<lambda>u. ?b @ [(''project'', TTab u)])"
    using top.table_cursor [of "''project''" ?b] by simp
  have "document_loop fo [] [] (PyprojectTOML ip p) = document_loop fo [] [] (table_header [''build-system''] @ build_system_lines @ ?rest)"
    using document_comment [of "'' Auto-generated by '' @ Generator @ ''. Do not edit by hand.''" fo "[]" "[]"]
    by (simp add: PyprojectTOML_def Generator_def nl_def document_loop_nl)
  also have "\<dots> = document_loop fo [(''build-system'', TTab [])] [''build-system''] (build_system_lines @ ?rest)"
    using top.new_table [of "''build-system''" "[]"] by (intro table_header_read) simp_all
  also have "\<dots> = document_loop fo ?b [''build-system''] ?rest" by (rule cursor.build_system_read [OF c1])
  also have "\<dots> = document_loop fo ?b [''build-system''] (table_header [''project''] @ project_lines ip p)"
    by (simp add: nl_def document_loop_nl)
  also have "\<dots> = document_loop fo (?b @ [(''project'', TTab [])]) [''project''] (project_lines ip p)"
    using top.new_table [of "''project''" ?b] by (intro table_header_read) simp_all
  also have "\<dots> = Inr (?b @ [(''project'', TTab (project_table p))])"
    using cursor.project_lines_read [OF c2 assms, of fo ip "[]"] by (simp add: document_loop_end)
  finally show ?thesis by (simp add: Parse_def)
qed

text \<open>What a build tool takes from a project file.\<close>

definition text_at :: "Decoder \<Rightarrow> bytes \<Rightarrow> bytes" where
  "text_at d k = (case Decoder_String d k of Inr (Some s) \<Rightarrow> s | _ \<Rightarrow> [])"

definition text_in :: "Decoder \<Rightarrow> bytes \<Rightarrow> bytes \<Rightarrow> bytes" where
  "text_in d k k' = (case Decoder_Table d k of Inr (Some d') \<Rightarrow> text_at d' k' | _ \<Rightarrow> [])"

definition project_of :: "Toml.table \<Rightarrow> Package option" where
  "project_of t =
    (case Decoder_Table (NewDecoder t) ''project'' of
       Inr (Some d) \<Rightarrow>
         Some \<lparr>Distribution = text_at d ''name'', PkVersion = text_at d ''version'', Summary = text_at d ''description'',
           License = text_in d ''license'' ''text'',
           Author = (case TableArray d ''authors'' of Inr (Some [a]) \<Rightarrow> text_at a ''name'' | _ \<Rightarrow> []),
           HomePage = text_in d ''urls'' ''Homepage'', PkModule = [], PkRequiresPython = text_at d ''requires-python'',
           PkDependencies = (case StringArray d ''dependencies'' of Inr (Some ds) \<Rightarrow> ds | _ \<Rightarrow> []), Exports = []\<rparr>
     | _ \<Rightarrow> None)"

text \<open>
  C0. The project file of a package reads back: the TOML reader accepts it, and a build tool finds in it
  every field of the package, the dependencies in sorted order.
\<close>

theorem PyprojectTOML_reads_back:
  assumes "package_strings_ok p"
  shows "\<exists>t. Parse float_ok (PyprojectTOML is_print p) = Inr t
    \<and> project_of t = Some (p\<lparr>PkModule := [], Exports := [], PkDependencies := sort_strings (PkDependencies p)\<rparr>)"
proof -
  have "project_of [(''build-system'', TTab build_system_table), (''project'', TTab (project_table p))]
      = Some (p\<lparr>PkModule := [], Exports := [], PkDependencies := sort_strings (PkDependencies p)\<rparr>)"
    by (simp add: project_of_def project_table_def text_in_def text_at_def Decoder_Table_def Decoder_String_def TableArray_def
        StringArray_def NewDecoder_def del: map_of_append)
  then show ?thesis using project_read [OF assms] by blast
qed

lemma PyprojectTOML_reads_back_witness:
  "\<exists>t. Parse (\<lambda>_. True) (PyprojectTOML (\<lambda>_. True) sample_package) = Inr t
    \<and> map_option PkDependencies (project_of t) = Some [''a'', ''b'']"
proof -
  have "package_strings_ok sample_package" by (simp add: package_strings_ok_def sample_package_def toml_ok_def)
  from PyprojectTOML_reads_back [OF this, of "\<lambda>_. True" "\<lambda>_. True"] show ?thesis
    by (auto simp: sample_package_def sort_strings_def)
qed

end
