(* ===== verification/Pypackage_Stub.thy ===== *)
theory Pypackage_Stub
  imports Pypackage
begin

section \<open>The names in the stub of a package\<close>

text \<open>
  The stub imports the names of the typing module that its annotations use.  The words of a text are
  its maximal runs of letters, digits and underscores, so the property is about the printed stub.
\<close>

definition word_char :: "char \<Rightarrow> bool" where
  "word_char c \<longleftrightarrow> 97 \<le> byte c \<and> byte c \<le> 122 \<or> 65 \<le> byte c \<and> byte c \<le> 90 \<or> is_digit c \<or> c = CHR ''_'' \<or> 127 < byte c"

function words :: "bytes \<Rightarrow> bytes list" where
  "words s = (let s = dropWhile (\<lambda>c. \<not> word_char c) s in if s = [] then [] else takeWhile word_char s # words (dropWhile word_char s))"
  by pat_completeness auto
termination
proof (relation "measure length", simp)
  fix s t assume t: "t = dropWhile (\<lambda>c. \<not> word_char c) s" "t \<noteq> []"
  then have "word_char (hd t)" using hd_dropWhile [of "\<lambda>c. \<not> word_char c" s] by simp
  with t(2) have "length (dropWhile word_char t) < length t"
    by (cases t) (simp_all add: le_imp_less_Suc length_dropWhile_le)
  with t(1) show "(dropWhile word_char t, s) \<in> measure length"
    using length_dropWhile_le [of "\<lambda>c. \<not> word_char c" s] by simp
qed

declare words.simps [simp del]

lemma words_Nil [simp]: "words [] = []"
  by (simp add: words.simps)

lemma words_gap [simp]: "\<not> word_char c \<Longrightarrow> words (c # s) = words s"
  by (subst (1 2) words.simps) simp

lemma words_word: "word_char c \<Longrightarrow> words (c # s) = takeWhile word_char (c # s) # words (dropWhile word_char s)"
  by (subst words.simps) simp

lemma word_run: "\<forall>c \<in> set s. word_char c \<Longrightarrow> takeWhile word_char s = s \<and> dropWhile word_char s = []"
  by (simp add: takeWhile_eq_all_conv dropWhile_eq_Nil_conv)

lemma words_split: "\<not> word_char c \<Longrightarrow> words (a @ c # b) = words a @ words b"
proof (induction a rule: length_induct)
  case (1 a)
  show ?case
  proof (cases a)
    case (Cons d a')
    show ?thesis
    proof (cases "word_char d")
      case True
      show ?thesis
      proof (cases "\<forall>x \<in> set a'. word_char x")
        case t: True
        then show ?thesis using True Cons 1(2) by (simp add: words_word word_run takeWhile_append dropWhile_append)
      next
        case False
        then have "takeWhile word_char (a' @ c # b) = takeWhile word_char a'"
          "dropWhile word_char (a' @ c # b) = dropWhile word_char a' @ c # b"
          by (auto simp: takeWhile_append dropWhile_append)
        moreover have "length (dropWhile word_char a') < length a" using Cons by (simp add: le_imp_less_Suc length_dropWhile_le)
        ultimately show ?thesis using True Cons 1 by (simp add: words_word)
      qed
    qed (use 1 Cons in simp)
  qed (use 1(2) in simp)
qed

lemma word_chars [simp]:
  "\<not> word_char CHR '' ''" "\<not> word_char CHR '',''" "\<not> word_char CHR ''[''" "\<not> word_char CHR '']''" "\<not> word_char CHR ''(''"
  "\<not> word_char CHR '')''" "\<not> word_char CHR '':''" "\<not> word_char CHR ''-''" "\<not> word_char CHR ''>''" "\<not> word_char CHR ''.''"
  "\<not> word_char CHR ''#''" "\<not> word_char CHR 0x0A"
  by (simp_all add: word_char_def is_digit_def byte_def)

lemma words_plain: "s \<noteq> [] \<Longrightarrow> \<forall>c \<in> set s. word_char c \<Longrightarrow> words s = [s]"
  by (cases s) (simp_all add: words_word word_run)

text \<open>The words of a joined list.\<close>

lemma words_join: "words (join '', '' xs) = concat (map words xs)"
proof (induction xs)
  case (Cons x xs)
  then show ?case using words_split [of "CHR '',''" x "CHR '' '' # join '', '' xs"] by (cases xs) simp_all
qed simp

definition typing_vocabulary :: "bytes list" where
  "typing_vocabulary = [''Any'', ''AsyncIterator'', ''Awaitable'', ''Callable'', ''Optional'', ''Protocol'', ''Union'']"

definition own_name :: "bytes \<Rightarrow> bool" where
  "own_name n \<longleftrightarrow> set (words n) \<inter> set typing_vocabulary = {}"

text \<open>The types whose annotation is a name of theirs or built from such: no unknown kind, no unnamed record.\<close>

fun closed_type :: "MochiType \<Rightarrow> bool" where
  "closed_type (MType k name ps fs ms) \<longleftrightarrow>
    (\<forall>t \<in> set ps. closed_type t) \<and> k \<noteq> KindUnknown
    \<and> (k \<in> {KindRecord, KindInterface} \<longrightarrow> name \<noteq> [])
    \<and> (k \<in> {KindScalar, KindRef, KindRecord, KindInterface, KindTypeVar} \<longrightarrow> (k = KindScalar \<and> name = ''Any'') \<or> own_name (pyScalar name) \<and> own_name name)"

subsection \<open>The words of an annotation\<close>

definition covers :: "bytes set \<Rightarrow> bytes \<Rightarrow> bool" where
  "covers N x \<longleftrightarrow> (\<forall>w \<in> set (words x). w \<in> set typing_vocabulary \<longrightarrow> w \<in> N)"

lemma covers_Nil [simp]: "covers N []"
  by (simp add: covers_def)

lemma covers_split: "\<not> word_char c \<Longrightarrow> covers N (a @ c # b) \<longleftrightarrow> covers N a \<and> covers N b"
  by (auto simp: covers_def words_split)

lemma covers_gap [simp]: "\<not> word_char c \<Longrightarrow> covers N (c # b) \<longleftrightarrow> covers N b"
  by (simp add: covers_def)

lemma covers_join: "covers N (join '', '' xs) \<longleftrightarrow> (\<forall>x \<in> set xs. covers N x)"
  by (auto simp: covers_def words_join)

lemma covers_mono: "covers M x \<Longrightarrow> M \<subseteq> N \<Longrightarrow> covers N x"
  by (auto simp: covers_def)

lemma covers_own: "own_name n \<Longrightarrow> covers N n"
  by (auto simp: covers_def own_name_def)

lemma covers_word: "x \<noteq> [] \<Longrightarrow> \<forall>c \<in> set x. word_char c \<Longrightarrow> covers N x \<longleftrightarrow> (x \<in> set typing_vocabulary \<longrightarrow> x \<in> N)"
  by (simp add: covers_def words_plain)

lemma word_char_literal: "word_char (Char b0 b1 b2 b3 b4 b5 b6 b7)
    \<longleftrightarrow> (let n = byte (Char b0 b1 b2 b3 b4 b5 b6 b7) in 97 \<le> n \<and> n \<le> 122 \<or> 65 \<le> n \<and> n \<le> 90 \<or> 48 \<le> n \<and> n \<le> 57 \<or> n = 95 \<or> 127 < n)"
proof -
  have "byte c = 95 \<longleftrightarrow> c = CHR ''_''" for c
  proof
    assume "byte c = 95"
    then have "byte c = byte CHR ''_''" by simp
    then show "c = CHR ''_''" by (rule byte_inj)
  qed simp
  then show ?thesis unfolding word_char_def is_digit_def Let_def by simp
qed

lemma bracketed:
  "covers N (''list['' @ y @ '']'') \<longleftrightarrow> covers N y" "covers N (''set['' @ y @ '']'') \<longleftrightarrow> covers N y"
  "covers N (''tuple['' @ y @ '']'') \<longleftrightarrow> covers N y"
  "covers N (''Optional['' @ y @ '']'') \<longleftrightarrow> ''Optional'' \<in> N \<and> covers N y" "covers N (''Union['' @ y @ '']'') \<longleftrightarrow> ''Union'' \<in> N \<and> covers N y"
  "covers N (''Awaitable['' @ y @ '']'') \<longleftrightarrow> ''Awaitable'' \<in> N \<and> covers N y"
  "covers N (''AsyncIterator['' @ y @ '']'') \<longleftrightarrow> ''AsyncIterator'' \<in> N \<and> covers N y"
  "covers N (''dict['' @ y @ '', '' @ z @ '']'') \<longleftrightarrow> covers N y \<and> covers N z"
  "covers N (''Callable[['' @ y @ ''], '' @ z @ '']'') \<longleftrightarrow> ''Callable'' \<in> N \<and> covers N y \<and> covers N z"
proof -
  have b: "covers N (a @ CHR ''['' # y @ '']'') \<longleftrightarrow> covers N a \<and> covers N y" for a
    using covers_split [of "CHR ''[''" N a "y @ '']''"] covers_split [of "CHR '']''" N y "[]"] by simp
  show "covers N (''list['' @ y @ '']'') \<longleftrightarrow> covers N y" "covers N (''set['' @ y @ '']'') \<longleftrightarrow> covers N y"
    "covers N (''tuple['' @ y @ '']'') \<longleftrightarrow> covers N y"
    "covers N (''Optional['' @ y @ '']'') \<longleftrightarrow> ''Optional'' \<in> N \<and> covers N y" "covers N (''Union['' @ y @ '']'') \<longleftrightarrow> ''Union'' \<in> N \<and> covers N y"
    "covers N (''Awaitable['' @ y @ '']'') \<longleftrightarrow> ''Awaitable'' \<in> N \<and> covers N y"
    "covers N (''AsyncIterator['' @ y @ '']'') \<longleftrightarrow> ''AsyncIterator'' \<in> N \<and> covers N y"
    using b [of "''list''"] b [of "''set''"] b [of "''tuple''"] b [of "''Optional''"] b [of "''Union''"] b [of "''Awaitable''"]
      b [of "''AsyncIterator''"]
    by (simp_all add: covers_word word_char_literal typing_vocabulary_def)
  show "covers N (''dict['' @ y @ '', '' @ z @ '']'') \<longleftrightarrow> covers N y \<and> covers N z"
    using covers_split [of "CHR ''[''" N "''dict''" "y @ '', '' @ z @ '']''"] covers_split [of "CHR '',''" N y "'' '' @ z @ '']''"]
      covers_split [of "CHR '']''" N z "[]"]
    by (simp add: covers_word word_char_literal typing_vocabulary_def)
  show "covers N (''Callable[['' @ y @ ''], '' @ z @ '']'') \<longleftrightarrow> ''Callable'' \<in> N \<and> covers N y \<and> covers N z"
    using covers_split [of "CHR ''[''" N "''Callable''" "CHR ''['' # y @ ''], '' @ z @ '']''"] covers_split [of "CHR '']''" N y "'', '' @ z @ '']''"]
      covers_split [of "CHR '']''" N z "[]"]
    by (simp add: covers_word word_char_literal typing_vocabulary_def)
qed

lemma seq_join_Inr: "seq_join sep rs = Some x \<Longrightarrow> \<exists>ys. x = join sep ys \<and> rs = map Some ys"
proof -
  assume "seq_join sep rs = Some x"
  then obtain ys where "those rs = Some ys" "x = join sep ys" by (auto simp: seq_join_def)
  moreover have "those rs = Some ys \<Longrightarrow> rs = map Some ys" for ys
  proof (induction rs arbitrary: ys)
    case (Cons r rs)
    then show ?case by (cases r) auto
  qed simp
  ultimately show ?thesis by blast
qed

lemma covers_seq: "seq_join '', '' rs = Some x \<Longrightarrow> \<forall>r \<in> set rs. \<forall>y. r = Some y \<longrightarrow> covers N y \<Longrightarrow> covers N x"
  using seq_join_Inr [of "'', ''" rs x] by (auto simp: covers_join)

lemma param_Inr: "param rs i = Some x \<Longrightarrow> Some x \<in> set rs"
  by (auto simp: param_def split: if_splits) (metis nth_mem)

lemma wrap_Inr: "wrap a b r = Some x \<longleftrightarrow> (\<exists>y. r = Some y \<and> x = a @ y @ b)"
  by (auto simp: wrap_def)

lemma append_opt_Inr: "append_opt a b = Some x \<longleftrightarrow> (\<exists>y z. a = Some y \<and> b = Some z \<and> x = y @ z)"
  by (auto simp: append_opt_def split: option.splits)

lemma annotation_covers:
  "pyAnnotation t = Some x \<Longrightarrow> closed_type t \<Longrightarrow> covers (set (walkTyping t)) x"
proof (induction t arbitrary: x rule: pyAnnotation.induct)
  case (1 k name ps fs ms)
  let ?rs = "map pyAnnotation ps" and ?P = "\<Union>t \<in> set ps. set (walkTyping t)"
  have part: "covers N y" if "Some y \<in> set ?rs" "?P \<subseteq> N" for y N
  proof -
    from that(1) obtain t where t: "t \<in> set ps" "pyAnnotation t = Some y" by auto
    then have "covers (set (walkTyping t)) y" using 1 by simp
    then show ?thesis using that(2) t(1) by (blast intro: covers_mono)
  qed
  have params: "covers N y" if "param ?rs i = Some y" "?P \<subseteq> N" for i y N
    using param_Inr [OF that(1)] that(2) by (rule part)
  have seq: "covers N y" if "seq_join '', '' rs = Some y" "set rs \<subseteq> set ?rs" "?P \<subseteq> N" for rs y N
    using covers_seq [OF that(1)] part that(2,3) by blast
  have name: "covers N name" "covers N (pyScalar name)" if "own_name name" "own_name (pyScalar name)" for N
    using that by (simp_all add: covers_own)
  have none: "covers N ''None''" for N by (simp add: covers_word word_char_literal typing_vocabulary_def)
  have any: "covers {''Any''} ''Any''" by (simp add: covers_word word_char_literal)
  show ?case
  proof (cases k)
    case KindScalar
    then show ?thesis using 1(2,3) name any by (auto simp: pyScalar_def split: if_splits)
  next
    case KindList
    then show ?thesis using 1(2) params by (auto simp: wrap_Inr bracketed [simplified])
  next
    case KindFun
    then obtain y z where yz: "seq_join '', '' (take (length ?rs - 1) ?rs) = Some y"
        "(if length ?rs = 0 then Some ''None'' else param ?rs (length ?rs - 1)) = Some z" "x = ''Callable[['' @ y @ ''], '' @ z @ '']''"
      using 1(2) by (auto simp: wrap_Inr append_opt_Inr Let_def)
    have "covers (insert ''Callable'' ?P) y" by (rule seq [OF yz(1) set_take_subset]) blast
    moreover have "covers (insert ''Callable'' ?P) z"
      using yz(2) none params [of _ z "insert ''Callable'' ?P"] by (auto split: if_splits)
    ultimately show ?thesis using KindFun unfolding yz(3) bracketed by simp
  next
    case KindMap
    then show ?thesis using 1(2) params by (auto simp: wrap_Inr append_opt_Inr Let_def bracketed [simplified])
  qed (use 1(2,3) params params [OF _ subset_insertI] seq seq [OF _ _ subset_insertI] name in
      \<open>auto simp: wrap_Inr append_opt_Inr bracketed [simplified]\<close>)
qed

subsection \<open>The words of the stub\<close>

definition closed_export :: "Export \<Rightarrow> bool" where
  "closed_export e \<longleftrightarrow>
    own_name (ExName e)
    \<and> (case ExKind e of
         ExportFunc \<Rightarrow> closed_type (ExType e)
       | ExportConstant \<Rightarrow> closed_type (ExType e)
       | ExportRecord \<Rightarrow>
           MKind (ExType e) = KindRecord \<and> (\<forall>f \<in> set (Fields (ExType e)). own_name (FName f) \<and> closed_type (FType f))
       | ExportInterface \<Rightarrow>
           MKind (ExType e) = KindInterface
           \<and> (\<forall>m \<in> set (Methods (ExType e)). own_name (MethName m) \<and> closed_type (MethReturn m) \<and> (\<forall>t \<in> set (MethParams m). closed_type t)))"

definition export_typing :: "Export \<Rightarrow> bytes set" where
  "export_typing e = (if ExKind e = ExportInterface then {''Protocol''} else {}) \<union> set (walkTyping (ExType e))"

lemma covers_arg: "covers N (''arg'' @ itoa (int i) @ '': '' @ y) \<longleftrightarrow> covers N y"
proof -
  have "\<forall>c \<in> set (itoa (int i)). word_char c" using itoa_char [of "int i"] by (auto simp: word_char_def)
  then have "covers N (''arg'' @ itoa (int i))" by (subst covers_word) (auto simp: word_char_literal typing_vocabulary_def)
  then show ?thesis using covers_split [of "CHR '':''" N "''arg'' @ itoa (int i)" "'' '' @ y"] by simp
qed

lemma annotated_args_covers:
  "Some y \<in> set (annotated_args i ts) \<Longrightarrow> \<forall>t \<in> set ts. closed_type t \<and> set (walkTyping t) \<subseteq> N \<Longrightarrow> covers N y"
proof (induction i ts rule: annotated_args.induct)
  case (2 i t ts)
  show ?case
  proof (cases "Some y \<in> set (annotated_args (Suc i) ts)")
    case False
    with 2(2) have "wrap (''arg'' @ itoa (int i) @ '': '') [] (pyAnnotation t) = Some y" by (metis annotated_args.simps(2) set_ConsD)
    then obtain z where z: "pyAnnotation t = Some z" "y = (''arg'' @ itoa (int i) @ '': '') @ z @ []"
      unfolding wrap_Inr by blast
    then have "covers (set (walkTyping t)) z" using 2(3) annotation_covers [OF z(1)] by simp
    then have "covers N z" using 2(3) by (auto intro: covers_mono)
    then show ?thesis using covers_arg [of N i z] z(2) by simp
  qed (use 2 in simp)
qed simp

lemma def_covers:
  assumes "covers N lead" "covers N name" "covers N args" "covers N r"
  shows "covers N (lead @ CHR '' '' # name @ ''('' @ args @ '') -> '' @ r @ '': ...'' @ nl)"
proof -
  have "covers N (r @ CHR '':'' # '' ...'' @ nl)" using assms(4) by (subst covers_split) (simp_all add: nl_def)
  then have "covers N (args @ CHR '')'' # '' -> '' @ r @ '': ...'' @ nl)" using assms(3) by (subst covers_split) simp_all
  then have "covers N (name @ CHR ''('' # args @ '') -> '' @ r @ '': ...'' @ nl)" using assms(2) by (subst covers_split) simp_all
  then show ?thesis using assms(1) by (simp add: covers_split)
qed

lemma literal_words [simp]: "covers N ''def''" "covers N ''class''" "covers N ''self''" "covers N ''async''"
  by (simp_all add: covers_word word_char_literal typing_vocabulary_def)

lemma seq_lines_covers:
  "seq_join [] rs = Some x \<Longrightarrow> \<forall>r \<in> set rs. \<forall>y. r = Some y \<longrightarrow> (\<exists>z. y = z @ nl \<and> covers N z) \<Longrightarrow> covers N x"
proof -
  assume "seq_join [] rs = Some x" and rs: "\<forall>r \<in> set rs. \<forall>y. r = Some y \<longrightarrow> (\<exists>z. y = z @ nl \<and> covers N z)"
  then obtain ys where ys: "x = join [] ys" "rs = map Some ys" using seq_join_Inr by blast
  have "\<forall>y \<in> set ys. \<exists>z. y = z @ nl \<and> covers N z" using rs ys(2) by auto
  then have "covers N (join [] ys)"
  proof (induction ys)
    case (Cons y ys)
    then obtain z where z: "y = z @ nl" "covers N z" by auto
    have "join [] (y # ys) = z @ CHR 0x0A # join [] ys" using z(1) by (cases ys) (simp_all add: nl_def)
    then show ?case using z(2) Cons by (simp add: covers_split)
  qed simp
  with ys(1) show ?thesis by simp
qed

lemma func_covers:
  assumes "renderFuncSig e = Some x" "closed_type (ExType e)" "own_name (ExName e)"
  shows "covers (set (walkTyping (ExType e))) x"
proof -
  obtain k n ps fs ms where t: "ExType e = MType k n ps fs ms" by (cases "ExType e")
  then obtain qs r where q: "FunParams (ExType e) = Some qs" "FunReturn (ExType e) = Some r"
      and x: "append_opt (wrap (''def '' @ ExName e @ ''('') '') -> '' (seq_join '', '' (annotated_args 0 qs)))
           (wrap [] ('': ...'' @ nl) (pyAnnotation r)) = Some x"
    using assms(1) by (auto simp: renderFuncSig_def split: option.splits)
  let ?N = "set (walkTyping (ExType e))"
  have k: "k = KindFun" using q(1) t by (simp add: FunParams_def split: if_splits)
  have ps: "\<forall>u \<in> set ps. closed_type u \<and> set (walkTyping u) \<subseteq> ?N" using assms(2) t k by auto
  have "set qs \<subseteq> set ps" using q(1) t by (auto simp: FunParams_def split: if_splits dest: in_set_takeD)
  then have qs: "\<forall>u \<in> set qs. closed_type u \<and> set (walkTyping u) \<subseteq> ?N" using ps by blast
  have r: "r \<in> set ps \<or> r = NewScalar ''None''" using q(2) t by (auto simp: FunReturn_def split: if_splits)
  obtain a y where ay: "seq_join '', '' (annotated_args 0 qs) = Some a" "pyAnnotation r = Some y"
      "x = ''def '' @ ExName e @ ''('' @ a @ '') -> '' @ y @ '': ...'' @ nl"
    using x by (auto simp: append_opt_Inr wrap_Inr)
  have "covers ?N a" by (rule covers_seq [OF ay(1)]) (use annotated_args_covers qs in blast)
  moreover have "covers ?N y"
  proof (cases "r \<in> set ps")
    case True
    then show ?thesis using ps annotation_covers [OF ay(2)] by (blast intro: covers_mono)
  next
    case False
    then have "y = ''None''" using r ay(2) by (simp add: NewScalar_def pyScalar_def)
    then show ?thesis by (simp add: covers_word word_char_literal typing_vocabulary_def)
  qed
  ultimately show ?thesis
    using def_covers [of ?N "''def''" "ExName e" a y] covers_own [OF assms(3)] ay(3) by simp
qed

lemma record_covers:
  assumes "renderRecord e = Some x" "closed_export e" "ExKind e = ExportRecord"
  shows "covers (set (walkTyping (ExType e))) x"
proof -
  obtain k n ps fs ms where t: "ExType e = MType k n ps fs ms" by (cases "ExType e")
  let ?N = "set (walkTyping (ExType e))"
  have own: "covers ?N (ExName e)" using assms(2) by (simp add: closed_export_def covers_own)
  have fs: "own_name (FName f) \<and> closed_type (FType f) \<and> set (walkTyping (FType f)) \<subseteq> ?N" if "f \<in> set fs" for f
  proof -
    have "set (typing_field f) \<subseteq> ?N" using that assms(2,3) t by (auto simp: closed_export_def)
    then show ?thesis using that assms(2,3) t by (cases f) (auto simp: closed_export_def)
  qed
  have f: "\<exists>z. y = z @ nl \<and> covers ?N z" if "f \<in> set fs" "wrap (''    '' @ FName f @ '': '') nl (pyAnnotation (FType f)) = Some y" for f y
  proof -
    from that(2) obtain z where z: "pyAnnotation (FType f) = Some z" "y = (''    '' @ FName f @ '': '' @ z) @ nl"
      by (auto simp: wrap_Inr)
    have "covers ?N z" using fs [OF that(1)] annotation_covers [OF z(1)] by (blast intro: covers_mono)
    then have "covers ?N (FName f @ CHR '':'' # '' '' @ z)" using fs [OF that(1)] covers_own by (subst covers_split) simp_all
    then show ?thesis using z(2) by (intro exI [of _ "''    '' @ FName f @ '': '' @ z"]) simp
  qed
  obtain body where body: "x = ''class '' @ ExName e @ '':'' @ nl @ body"
      "(if fs = [] then Some (''    ...'' @ nl)
        else seq_join [] (map (\<lambda>f. wrap (''    '' @ FName f @ '': '') nl (pyAnnotation (FType f))) fs)) = Some body"
    using assms(1) unfolding renderRecord_def t wrap_Inr MochiType.sel by auto
  have "covers ?N body"
  proof (cases "fs = []")
    case True
    then have "body = ''    ...'' @ nl" using body(2) by simp
    then show ?thesis by (simp add: nl_def)
  next
    case False
    then have "seq_join [] (map (\<lambda>f. wrap (''    '' @ FName f @ '': '') nl (pyAnnotation (FType f))) fs) = Some body" using body(2) by simp
    then show ?thesis by (rule seq_lines_covers) (use f in auto)
  qed
  then have "covers ?N (ExName e @ CHR '':'' # nl @ body)" using own by (subst covers_split) (simp_all add: nl_def)
  then have "covers ?N (''class'' @ CHR '' '' # ExName e @ CHR '':'' # nl @ body)" by (subst covers_split) simp_all
  then show ?thesis using body(1) by simp
qed

lemma interface_covers:
  assumes "renderInterface e = Some x" "closed_export e" "ExKind e = ExportInterface"
  shows "covers (insert ''Protocol'' (set (walkTyping (ExType e)))) x"
proof -
  obtain k n ps fs ms where t: "ExType e = MType k n ps fs ms" by (cases "ExType e")
  let ?N = "insert ''Protocol'' (set (walkTyping (ExType e)))"
  have own: "covers ?N (ExName e)" using assms(2) by (simp add: closed_export_def covers_own)
  have ms: "own_name (MethName m) \<and> closed_type (MethReturn m) \<and> set (walkTyping (MethReturn m)) \<subseteq> ?N
      \<and> (\<forall>u \<in> set (MethParams m). closed_type u \<and> set (walkTyping u) \<subseteq> ?N)" if "m \<in> set ms" for m
  proof -
    have "set (typing_method m) \<subseteq> ?N" using that assms(2,3) t by (auto simp: closed_export_def)
    then show ?thesis using that assms(2,3) t by (cases m) (auto simp: closed_export_def)
  qed
  have m: "\<exists>z. y = z @ nl \<and> covers ?N z" if "m \<in> set ms" "interface_method m = Some y" for m y
  proof -
    let ?lead = "if MethAsync m then ''    async def'' else ''    def''"
    from that(2) obtain a z where az: "seq_join '', '' (Some ''self'' # annotated_args 0 (MethParams m)) = Some a" "pyAnnotation (MethReturn m) = Some z"
        "y = ?lead @ CHR '' '' # MethName m @ ''('' @ a @ '') -> '' @ z @ '': ...'' @ nl"
      by (auto simp: interface_method_def wrap_Inr append_opt_Inr)
    have "covers ?N a" by (rule covers_seq [OF az(1)]) (use annotated_args_covers ms [OF that(1)] in auto)
    moreover have "covers ?N z" using ms [OF that(1)] annotation_covers [OF az(2)] by (blast intro: covers_mono)
    moreover have "covers ?N (''    '' @ ''async'' @ CHR '' '' # ''def'')" using covers_split [of "CHR '' ''" ?N "''async''" "''def''"] by simp
    ultimately have "covers ?N y"
      using ms [OF that(1)] def_covers [of ?N ?lead "MethName m" a z] az(3) by (simp add: covers_own split: if_splits)
    then have "covers ?N (?lead @ CHR '' '' # MethName m @ ''('' @ a @ '') -> '' @ z @ '': ...'')"
      using covers_split [of "CHR 0x0A" ?N "?lead @ CHR '' '' # MethName m @ ''('' @ a @ '') -> '' @ z @ '': ...''" "[]"] az(3)
      by (simp add: nl_def)
    then show ?thesis using az(3) by (intro exI [of _ "?lead @ CHR '' '' # MethName m @ ''('' @ a @ '') -> '' @ z @ '': ...''"]) simp
  qed
  obtain body where body: "x = ''class '' @ ExName e @ ''(Protocol):'' @ nl @ body"
      "(if ms = [] then Some (''    ...'' @ nl) else seq_join [] (map interface_method ms)) = Some body"
    using assms(1) unfolding renderInterface_def t wrap_Inr MochiType.sel by auto
  have "covers ?N body"
  proof (cases "ms = []")
    case True
    then have "body = ''    ...'' @ nl" using body(2) by simp
    then show ?thesis by (simp add: nl_def)
  next
    case False
    then have "seq_join [] (map interface_method ms) = Some body" using body(2) by simp
    then show ?thesis by (rule seq_lines_covers) (use m in auto)
  qed
  then have "covers ?N (''Protocol'' @ CHR '')'' # '':'' @ nl @ body)"
    by (subst covers_split) (simp_all add: nl_def covers_word word_char_literal)
  then have "covers ?N (ExName e @ CHR ''('' # ''Protocol):'' @ nl @ body)" using own by (subst covers_split) simp_all
  then have "covers ?N (''class'' @ CHR '' '' # ExName e @ ''(Protocol):'' @ nl @ body)" by (subst covers_split) simp_all
  then show ?thesis using body(1) by simp
qed

lemma item_covers:
  assumes "stub_item e = Some x" "closed_export e"
  shows "\<exists>z. x = z @ nl \<and> covers (export_typing e) z"
proof -
  obtain z where z: "x = z @ nl"
      "(case ExKind e of ExportFunc \<Rightarrow> renderFuncSig e | ExportRecord \<Rightarrow> renderRecord e
        | ExportInterface \<Rightarrow> renderInterface e | ExportConstant \<Rightarrow> renderConstant e) = Some z"
    using assms(1) unfolding stub_item_def wrap_Inr by auto
  have "covers (export_typing e) z"
  proof (cases "ExKind e")
    case ExportFunc
    then show ?thesis using z(2) assms(2) func_covers [of e z] by (simp add: closed_export_def export_typing_def)
  next
    case ExportRecord
    then show ?thesis using z(2) assms(2) record_covers [of e z] by (simp add: export_typing_def)
  next
    case ExportInterface
    then show ?thesis using z(2) assms(2) interface_covers [of e z] by (simp add: export_typing_def)
  next
    case ExportConstant
    then obtain y where y: "z = ExName e @ CHR '':'' # '' '' @ y @ nl" "pyAnnotation (ExType e) = Some y"
      using z(2) by (auto simp: renderConstant_def wrap_Inr)
    have "covers (export_typing e) y"
      using annotation_covers [OF y(2)] assms(2) ExportConstant by (simp add: closed_export_def export_typing_def)
    then have "covers (export_typing e) (y @ CHR 0x0A # [])" by (subst covers_split) simp_all
    then show ?thesis
      using assms(2) unfolding y(1) by (subst covers_split) (simp_all add: nl_def closed_export_def covers_own)
  qed
  with z(1) show ?thesis by blast
qed

lemma vocabulary_members [simp]:
  "''Any'' \<in> set typing_vocabulary" "''AsyncIterator'' \<in> set typing_vocabulary" "''Awaitable'' \<in> set typing_vocabulary"
  "''Callable'' \<in> set typing_vocabulary" "''Optional'' \<in> set typing_vocabulary" "''Protocol'' \<in> set typing_vocabulary"
  "''Union'' \<in> set typing_vocabulary"
  by (simp_all add: typing_vocabulary_def)

lemma conditional_member [simp]: "{x. x = a \<and> b} \<subseteq> B \<longleftrightarrow> (b \<longrightarrow> a \<in> B)"
  by auto

lemma walk_vocabulary:
  "set (walkTyping t) \<subseteq> set typing_vocabulary" "set (typing_field f) \<subseteq> set typing_vocabulary" "set (typing_method m) \<subseteq> set typing_vocabulary"
proof (induction t and f and m rule: walkTyping_typing_field_typing_method.induct)
  case (1 k name ps fs ms)
  then show ?case by (cases k) (simp_all add: UN_subset_iff)
qed (simp_all add: UN_subset_iff)

lemma typing_names_vocabulary: "set (typing_names p) \<subseteq> set typing_vocabulary"
  using walk_vocabulary(1) by (simp add: typing_names_def sort_strings_def UN_subset_iff)

lemma vocabulary_words: "\<forall>n \<in> set typing_vocabulary. n \<noteq> [] \<and> (\<forall>c \<in> set n. word_char c)"
  by (simp add: typing_vocabulary_def word_char_literal)

definition sample_stub :: Package where
  "sample_stub =
    \<lparr>Distribution = ''greet'', PkVersion = ''1.0'', Summary = ''s'', License = ''MIT'', Author = [], HomePage = [], PkModule = [],
     PkRequiresPython = [], PkDependencies = [],
     Exports =
       [\<lparr>ExName = ''greet'', ExKind = ExportFunc, ExType = NewFun (NewOptional (NewScalar ''string'')) [NewScalar ''int'']\<rparr>,
        \<lparr>ExName = ''Closer'', ExKind = ExportInterface,
         ExType = MType KindInterface ''Closer'' [] [] [MMethod ''close'' [] (NewScalar ''None'') False]\<rparr>]\<rparr>"

text \<open>
  C0. Every name of the typing module that occurs as a word anywhere in the stub of a package is imported
  by it, when every kind of type is known, records have names, and no name of the package is one of the
  typing module.
\<close>

theorem InitPYI_imports:
  assumes "InitPYI p = Some stub" "\<forall>e \<in> set (Exports p). closed_export e"
  shows "\<forall>w \<in> set (words stub). w \<in> set typing_vocabulary \<longrightarrow>
    w \<in> set (typing_names p) \<and> pyImportsFor p = [''from typing import '' @ join '', '' (typing_names p)]"
proof -
  let ?N = "set (typing_names p)"
  let ?head = "''# Auto-generated by '' @ Generator @ ''. Do not edit by hand.'' @ nl"
  let ?imports = "if pyImportsFor p \<noteq> [] then concat (map (\<lambda>line. line @ nl) (pyImportsFor p)) @ nl else []"
  obtain body where body: "stub = (?head @ ?imports) @ body" "seq_join [] (map stub_item (Exports p)) = Some body"
    using assms(1) unfolding InitPYI_def wrap_Inr by auto
  have "covers ?N body"
  proof (rule seq_lines_covers [OF body(2)], intro ballI allI impI)
    fix r y assume "r \<in> set (map stub_item (Exports p))" "r = Some y"
    then obtain e where e: "e \<in> set (Exports p)" "stub_item e = Some y" by auto
    have "export_typing e \<subseteq> ?N" using e(1) by (auto simp: typing_names_def export_typing_def sort_strings_def split: if_splits)
    then show "\<exists>z. y = z @ nl \<and> covers ?N z" using item_covers [OF e(2)] assms(2) e(1) by (blast intro: covers_mono)
  qed
  moreover have "covers ?N (?imports @ body)"
  proof (cases "typing_names p = []")
    case True
    with \<open>covers ?N body\<close> show ?thesis by (simp add: pyImportsFor_def)
  next
    case False
    have "covers ?N n" if "n \<in> ?N" for n
    proof -
      have "n \<in> set typing_vocabulary" using that typing_names_vocabulary by blast
      with vocabulary_words have "n \<noteq> []" "\<forall>c \<in> set n. word_char c" by blast+
      from covers_word [OF this] that show ?thesis by blast
    qed
    then have "covers ?N (join '', '' (typing_names p))" by (simp add: covers_join)
    then have "covers ?N (join '', '' (typing_names p) @ CHR 0x0A # CHR 0x0A # body)"
      using \<open>covers ?N body\<close> by (subst covers_split) simp_all
    then have "covers ?N (''import'' @ CHR '' '' # join '', '' (typing_names p) @ CHR 0x0A # CHR 0x0A # body)"
      by (subst covers_split) (simp_all add: covers_word word_char_literal typing_vocabulary_def)
    then have "covers ?N (''typing'' @ CHR '' '' # ''import '' @ join '', '' (typing_names p) @ CHR 0x0A # CHR 0x0A # body)"
      by (subst covers_split) (simp_all add: covers_word word_char_literal typing_vocabulary_def)
    then have "covers ?N (''from'' @ CHR '' '' # ''typing import '' @ join '', '' (typing_names p) @ CHR 0x0A # CHR 0x0A # body)"
      by (subst covers_split) (simp_all add: covers_word word_char_literal typing_vocabulary_def)
    then show ?thesis using False by (simp add: pyImportsFor_def nl_def)
  qed
  moreover have "covers ?N (''# Auto-generated by '' @ Generator @ ''. Do not edit by hand.'')"
  proof (rule covers_own)
    show "own_name (''# Auto-generated by '' @ Generator @ ''. Do not edit by hand.'')" by code_simp
  qed
  ultimately have "covers ?N stub"
    using covers_split [of "CHR 0x0A" ?N "''# Auto-generated by '' @ Generator @ ''. Do not edit by hand.''" "?imports @ body"] body(1)
    by (simp add: nl_def)
  then show ?thesis by (auto simp: covers_def pyImportsFor_def)
qed

lemma sample_stub_closed: "\<forall>e \<in> set (Exports sample_stub). closed_export e"
  by (simp add: sample_stub_def closed_export_def own_name_def words_plain word_char_literal typing_vocabulary_def NewFun_def NewOptional_def
      NewScalar_def pyScalar_def)

lemma InitPYI_imports_witness:
  "\<exists>stub. InitPYI sample_stub = Some stub \<and> typing_names sample_stub = [''Callable'', ''Optional'', ''Protocol'']
    \<and> (\<forall>w \<in> set (words stub). w \<in> set typing_vocabulary \<longrightarrow>
      w \<in> set (typing_names sample_stub) \<and> pyImportsFor sample_stub = [''from typing import '' @ join '', '' (typing_names sample_stub)])"
proof -
  have "InitPYI sample_stub \<noteq> None"
    by (simp add: sample_stub_def InitPYI_def stub_item_def renderFuncSig_def renderInterface_def interface_method_def FunParams_def FunReturn_def
        NewFun_def NewOptional_def NewScalar_def wrap_def seq_join_def append_opt_def param_def)
  then obtain stub where stub: "InitPYI sample_stub = Some stub" by blast
  have "typing_names sample_stub = [''Callable'', ''Optional'', ''Protocol'']"
    by (simp add: sample_stub_def typing_names_def NewFun_def NewOptional_def NewScalar_def sort_strings_def)
  with InitPYI_imports [OF stub sample_stub_closed] stub show ?thesis by blast
qed

text \<open>The annotation \<open>Any\<close> of an unknown kind is not imported.\<close>

lemma unknown_any_unimported:
  "InitPYI (sample_stub\<lparr>Exports := [\<lparr>ExName = ''x'', ExKind = ExportConstant, ExType = MType KindUnknown [] [] [] []\<rparr>]\<rparr>)
    = Some (''# Auto-generated by mochi pkg build (MEP-71). Do not edit by hand.'' @ nl @ ''x: Any'' @ nl @ nl)"
  by (simp add: InitPYI_def stub_item_def renderConstant_def wrap_def seq_join_def pyImportsFor_def typing_names_def sort_strings_def Generator_def)

end
