(* ===== verification/Publish.thy ===== *)
theory Publish
  imports Attest
begin

section \<open>Publishing (publish/)\<close>

text \<open>
  The publisher checks a request, builds the statement about its artifacts, exchanges an identity token
  for an upload token, and uploads one target after another.  The registry, the identity provider, the
  uv tool, the JSON encoder, the clock and \<open>sort.Slice\<close> are parameters; what is asked of them is logged.
  \<open>Subject\<close> and \<open>Statement\<close> have the JSON fields of their namesakes in \<open>Attest\<close> and are those records.
\<close>

subsection \<open>Requests (request.go)\<close>

datatype RegistryKind = RegistryPyPI | RegistryTestPyPI | RegistryOther int

fun RegistryKind_String :: "RegistryKind \<Rightarrow> bytes" where
  "RegistryKind_String RegistryPyPI = ''pypi''"
| "RegistryKind_String RegistryTestPyPI = ''testpypi''"
| "RegistryKind_String (RegistryOther n) = ''unknown''"

fun RegistryKind_URL :: "RegistryKind \<Rightarrow> bytes" where
  "RegistryKind_URL RegistryPyPI = ''https://pypi.org''"
| "RegistryKind_URL RegistryTestPyPI = ''https://test.pypi.org''"
| "RegistryKind_URL (RegistryOther n) = []"

fun OIDCAudience :: "RegistryKind \<Rightarrow> bytes" where
  "OIDCAudience RegistryPyPI = ''pypi''"
| "OIDCAudience RegistryTestPyPI = ''testpypi''"
| "OIDCAudience (RegistryOther n) = []"

record PublishTarget =
  PtDistribution :: bytes
  PtVersion :: bytes
  SdistPath :: bytes
  SdistSHA256 :: bytes
  SdistSize :: int
  WheelPath :: bytes
  WheelSHA256 :: bytes
  WheelSize :: int

subsection \<open>Uploads (uploader.go)\<close>

record UploadCall =
  UcTarget :: PublishTarget
  UcRegistry :: RegistryKind
  UcToken :: bytes
  AttestationJSON :: bytes

record UploadResult =
  UrURL :: bytes
  UrAttestationURL :: bytes
  UrSkipped :: bool

text \<open>A run of a tool: environment, name and arguments, answered by its output and perhaps an error.\<close>

type_synonym tool = "bytes list \<Rightarrow> bytes \<Rightarrow> bytes list \<Rightarrow> bytes \<times> bytes option"

record UVUploader =
  UvBinary :: bytes
  UvRun :: "tool option"

datatype Uploader = UV UVUploader | Recording | Custom "UploadCall \<Rightarrow> bytes + UploadResult"

definition project_url :: "UploadCall \<Rightarrow> bytes" where
  "project_url c = RegistryKind_URL (UcRegistry c) @ ''/project/'' @ PtDistribution (UcTarget c) @ ''/'' @ PtVersion (UcTarget c) @ ''/''"

definition UVUploader_Upload :: "tool \<Rightarrow> UVUploader \<Rightarrow> UploadCall \<Rightarrow> bytes + UploadResult" where
  "UVUploader_Upload defaultRun u c =
    (let bin = (if UvBinary u = [] then ''uv'' else UvBinary u);
         args = [''publish'', ''--trusted-publishing'', ''always'', ''--publish-url'',
           RegistryKind_URL (UcRegistry c) @ ''/legacy/'', SdistPath (UcTarget c), WheelPath (UcTarget c)];
         run = (case UvRun u of None \<Rightarrow> defaultRun | Some r \<Rightarrow> r)
     in case run [''UV_PUBLISH_TOKEN='' @ UcToken c] bin args of
       (out, Some e) \<Rightarrow> Inl (''publish: uv publish: '' @ e @ '': '' @ trim_space out)
     | (out, None) \<Rightarrow> Inr \<lparr>UrURL = project_url c, UrAttestationURL = [], UrSkipped = False\<rparr>)"

definition RecordingUploader_Upload :: "UploadCall \<Rightarrow> bytes + UploadResult" where
  "RecordingUploader_Upload c = Inr \<lparr>UrURL = project_url c, UrAttestationURL = [], UrSkipped = True\<rparr>"

definition Upload :: "tool \<Rightarrow> Uploader \<Rightarrow> UploadCall \<Rightarrow> bytes + UploadResult" where
  "Upload defaultRun u c =
    (case u of UV v \<Rightarrow> UVUploader_Upload defaultRun v c | Recording \<Rightarrow> RecordingUploader_Upload c | Custom f \<Rightarrow> f c)"

record PublishRequest =
  PrRegistry :: RegistryKind
  PrTargets :: "PublishTarget list"
  PrDryRun :: bool
  PrProvider :: "(bytes \<Rightarrow> bytes + bytes) option"
  PrUploader :: "Uploader option"
  PrBuilder :: bytes

datatype PublishError =
    UnknownRegistry | EmptyTargets | EmptyDistributionAt nat | EmptyVersionAt nat | MissingPath nat | MissingSha nat
  | ZeroSize nat | SdistSuffix nat bytes | WheelSuffix nat bytes | ProviderRequired
  | EncodeFailed bytes | TokenFailed bytes | MintFailed bytes | UploadFailed bytes

fun check_publish_targets :: "nat \<Rightarrow> PublishTarget list \<Rightarrow> PublishError option" where
  "check_publish_targets i [] = None"
| "check_publish_targets i (t # ts) =
    (if PtDistribution t = [] then Some (EmptyDistributionAt i)
     else if PtVersion t = [] then Some (EmptyVersionAt i)
     else if SdistPath t = [] \<or> WheelPath t = [] then Some (MissingPath i)
     else if SdistSHA256 t = [] \<or> WheelSHA256 t = [] then Some (MissingSha i)
     else if SdistSize t \<le> 0 \<or> WheelSize t \<le> 0 then Some (ZeroSize i)
     else if \<not> has_suffix (SdistPath t) ''.tar.gz'' then Some (SdistSuffix i (SdistPath t))
     else if \<not> has_suffix (WheelPath t) ''.whl'' then Some (WheelSuffix i (WheelPath t))
     else check_publish_targets (Suc i) ts)"

definition PublishRequest_Validate :: "PublishRequest \<Rightarrow> PublishError option" where
  "PublishRequest_Validate r =
    (case PrRegistry r of
       RegistryOther n \<Rightarrow> Some UnknownRegistry
     | _ \<Rightarrow>
         if PrTargets r = [] then Some EmptyTargets
         else case check_publish_targets 0 (PrTargets r) of
           Some e \<Rightarrow> Some e
         | None \<Rightarrow> if \<not> PrDryRun r \<and> PrProvider r = None then Some ProviderRequired else None)"

subsection \<open>The statement (attestation.go)\<close>

definition AttestationPredicateType :: bytes where
  "AttestationPredicateType = ''https://slsa.dev/provenance/v1''"

definition AttestationStatementType :: bytes where
  "AttestationStatementType = ''https://in-toto.io/Statement/v1''"

definition AttestationBuilderID :: bytes where
  "AttestationBuilderID = ''https://mochi-lang.org/build/v1''"

definition distFilename :: "bytes \<Rightarrow> bytes \<Rightarrow> bytes \<Rightarrow> bytes" where
  "distFilename dist ver kind =
    (if kind = ''sdist'' then dist @ ''-'' @ ver @ ''.tar.gz''
     else if kind = ''wheel'' then dist @ ''-'' @ ver @ ''-py3-none-any.whl''
     else dist @ ''-'' @ ver @ ''.'' @ kind)"

text \<open>The time of an absent \<open>BuildTime\<close> is that of the clock; both are the text of the time.\<close>

record AttestationOptions =
  AoBuilderID :: bytes
  AoInvocationID :: bytes
  AoBuildTime :: "bytes option"

definition target_subjects :: "PublishTarget \<Rightarrow> Subject list" where
  "target_subjects t =
    [\<lparr>SubName = distFilename (PtDistribution t) (PtVersion t) ''sdist'', SubDigest = [(''sha256'', SdistSHA256 t)]\<rparr>,
     \<lparr>SubName = distFilename (PtDistribution t) (PtVersion t) ''wheel'', SubDigest = [(''sha256'', WheelSHA256 t)]\<rparr>]"

definition subject_less :: "Subject \<Rightarrow> Subject \<Rightarrow> bool" where
  "subject_less a b \<longleftrightarrow> SubName a < SubName b"

interpretation subjects: sort_less subject_less
  by unfold_locales (auto simp: subject_less_def)

definition BuildStatement :: "(Subject list \<Rightarrow> Subject list) \<Rightarrow> bytes \<Rightarrow> PublishTarget list \<Rightarrow> AttestationOptions \<Rightarrow> Statement" where
  "BuildStatement srt now ts opts =
    \<lparr>StType = AttestationStatementType, StPredicateType = AttestationPredicateType,
     StSubject = srt (concat (map target_subjects ts)),
     StPredicate =
       [(''buildDefinition'', JObj
          [(''buildType'', JStr ''https://mochi-lang.org/build/pkg-publish/v1''),
           (''externalParameters'', JObj [(''invocationId'', JStr (if AoInvocationID opts = [] then ''auto'' else AoInvocationID opts))])]),
        (''runDetails'', JObj
          [(''builder'', JObj [(''id'', JStr (if AoBuilderID opts = [] then AttestationBuilderID else AoBuilderID opts))]),
           (''metadata'', JObj [(''finishedOn'', JStr (case AoBuildTime opts of None \<Rightarrow> now | Some t \<Rightarrow> t))])])]\<rparr>"

subsection \<open>Tokens (oidc.go)\<close>

text \<open>An HTTP exchange: an error, or the status and the body of the response.\<close>

type_synonym http = "bytes \<Rightarrow> bytes + int \<times> bytes"

text \<open>
  The provider of GitHub Actions: the environment, the endpoint with the audience in its query (None
  when it does not parse), the exchange and the decoder of the \<open>value\<close> field.
\<close>

record github =
  Env :: "bytes \<Rightarrow> bytes"
  with_audience :: "bytes \<Rightarrow> bytes \<Rightarrow> bytes option"
  Get :: "bytes \<Rightarrow> http"
  decode_value :: "bytes \<Rightarrow> bytes + bytes"

definition GitHubActions_Token :: "github \<Rightarrow> bytes \<Rightarrow> bytes + bytes" where
  "GitHubActions_Token g audience =
    (let endpoint = Env g ''ACTIONS_ID_TOKEN_REQUEST_URL''; runner = Env g ''ACTIONS_ID_TOKEN_REQUEST_TOKEN'' in
     if endpoint = [] \<or> runner = [] then Inl ''publish: GitHub Actions OIDC env not set; run with permissions: id-token: write''
     else case with_audience g endpoint audience of
       None \<Rightarrow> Inl ''publish: parse OIDC endpoint''
     | Some url \<Rightarrow>
         (case Get g (''bearer '' @ runner) url of
            Inl e \<Rightarrow> Inl (''publish: OIDC request: '' @ e)
          | Inr (status, body) \<Rightarrow>
              if status \<noteq> 200 then Inl (''publish: OIDC status '' @ itoa status @ '': '' @ trim_space body)
              else case decode_value g body of
                Inl e \<Rightarrow> Inl (''publish: decode OIDC response: '' @ e)
              | Inr v \<Rightarrow> if v = [] then Inl ''publish: empty OIDC token'' else Inr v))"

definition StaticProvider_Token :: "bytes \<Rightarrow> bytes \<Rightarrow> bytes + bytes" where
  "StaticProvider_Token v audience = (if v = [] then Inl ''publish: StaticProvider has empty TokenValue'' else Inr v)"

text \<open>
  The world of a publish run: the exchange that mints a token, the decoder of its answer (success,
  token, expiry), the text of an expiry (None when it does not parse or is zero), the JSON encoder
  of statements, the clock and the uv tool.
\<close>

record world =
  Post :: "bytes \<Rightarrow> bytes \<Rightarrow> bytes + int \<times> bytes"
  encode_token :: "bytes \<Rightarrow> bytes + bytes"
  decode_mint :: "bytes \<Rightarrow> bytes + bool \<times> bytes \<times> bytes"
  expiry :: "bytes \<Rightarrow> bytes option"
  encode_statement :: "Statement \<Rightarrow> bytes + bytes"
  sort_subjects :: "Subject list \<Rightarrow> Subject list"
  Now :: bytes
  Tool :: tool

definition MintAPIToken :: "world \<Rightarrow> RegistryKind \<Rightarrow> bytes \<Rightarrow> bytes + bytes \<times> bytes option" where
  "MintAPIToken w registry oidc =
    (if oidc = [] then Inl ''publish: empty OIDC token''
     else case encode_token w oidc of
       Inl e \<Rightarrow> Inl (''publish: marshal mint request: '' @ e)
     | Inr body \<Rightarrow>
         (case Post w (RegistryKind_URL registry @ ''/_/oidc/mint-token/'') body of
            Inl e \<Rightarrow> Inl (''publish: mint request: '' @ e)
          | Inr (status, raw) \<Rightarrow>
              if status \<noteq> 200 then Inl (''publish: mint status '' @ itoa status @ '': '' @ trim_space raw)
              else case decode_mint w raw of
                Inl e \<Rightarrow> Inl (''publish: decode mint response: '' @ e)
              | Inr (success, token, expires) \<Rightarrow>
                  if \<not> success \<or> token = [] then Inl ''publish: mint endpoint refused token''
                  else Inr (token, expiry w expires)))"

subsection \<open>The run (orchestrator.go)\<close>

record PublishedArtifact =
  PaDistribution :: bytes
  PaVersion :: bytes
  PaURL :: bytes
  PaAttestationURL :: bytes
  PaSkipped :: bool

record PublishResult =
  Artifacts :: "PublishedArtifact list"
  PubAttestation :: bytes
  MintedTokenExpires :: bytes
  PubDryRun :: bool

text \<open>What a run asks of the world, in order.\<close>

datatype action = AskToken bytes | MintToken bytes | UploadOne UploadCall

fun upload_loop :: "tool \<Rightarrow> Uploader \<Rightarrow> (PublishTarget \<Rightarrow> UploadCall) \<Rightarrow> PublishTarget list \<Rightarrow> action list \<times> (PublishError + PublishedArtifact list)" where
  "upload_loop rn u mk [] = ([], Inr [])"
| "upload_loop rn u mk (t # ts) =
    (case Upload rn u (mk t) of
       Inl e \<Rightarrow> ([UploadOne (mk t)], Inl (UploadFailed e))
     | Inr r \<Rightarrow>
         (case upload_loop rn u mk ts of
            (log, Inl e) \<Rightarrow> (UploadOne (mk t) # log, Inl e)
          | (log, Inr as) \<Rightarrow>
              (UploadOne (mk t) # log,
               Inr (\<lparr>PaDistribution = PtDistribution t, PaVersion = PtVersion t, PaURL = UrURL r,
                     PaAttestationURL = UrAttestationURL r, PaSkipped = UrSkipped r\<rparr> # as))))"

definition get_token :: "world \<Rightarrow> PublishRequest \<Rightarrow> action list \<times> (PublishError + bytes \<times> bytes)" where
  "get_token w req =
    (if PrDryRun req then ([], Inr ([], []))
     else let audience = OIDCAudience (PrRegistry req) in
       case PrProvider req of
         None \<Rightarrow> ([], Inl ProviderRequired)
       | Some provider \<Rightarrow>
           (case provider audience of
              Inl e \<Rightarrow> ([AskToken audience], Inl (TokenFailed e))
            | Inr oidc \<Rightarrow>
                (case MintAPIToken w (PrRegistry req) oidc of
                   Inl e \<Rightarrow> ([AskToken audience, MintToken oidc], Inl (MintFailed e))
                 | Inr (token, expires) \<Rightarrow>
                     ([AskToken audience, MintToken oidc], Inr (token, case expires of None \<Rightarrow> [] | Some t \<Rightarrow> t)))))"

definition uploader_of :: "PublishRequest \<Rightarrow> Uploader" where
  "uploader_of req =
    (case PrUploader req of
       Some u \<Rightarrow> u
     | None \<Rightarrow> if PrDryRun req then Recording else UV \<lparr>UvBinary = [], UvRun = None\<rparr>)"

definition request_statement :: "world \<Rightarrow> PublishRequest \<Rightarrow> Statement" where
  "request_statement w req =
    BuildStatement (sort_subjects w) (Now w) (PrTargets req) \<lparr>AoBuilderID = PrBuilder req, AoInvocationID = [], AoBuildTime = None\<rparr>"

definition upload_call :: "PublishRequest \<Rightarrow> bytes \<Rightarrow> bytes \<Rightarrow> PublishTarget \<Rightarrow> UploadCall" where
  "upload_call req token statement t = \<lparr>UcTarget = t, UcRegistry = PrRegistry req, UcToken = token, AttestationJSON = statement\<rparr>"

definition Publish :: "world \<Rightarrow> PublishRequest \<Rightarrow> action list \<times> (PublishError + PublishResult)" where
  "Publish w req =
    (case PublishRequest_Validate req of
       Some e \<Rightarrow> ([], Inl e)
     | None \<Rightarrow>
         (case encode_statement w (request_statement w req) of
            Inl e \<Rightarrow> ([], Inl (EncodeFailed e))
          | Inr statement \<Rightarrow>
              (case get_token w req of
                 (log, Inl e) \<Rightarrow> (log, Inl e)
               | (log, Inr (token, expires)) \<Rightarrow>
                   (case upload_loop (Tool w) (uploader_of req) (upload_call req token statement) (PrTargets req) of
                      (log', Inl e) \<Rightarrow> (log @ log', Inl e)
                    | (log', Inr as) \<Rightarrow>
                        (log @ log', Inr \<lparr>Artifacts = as, PubAttestation = statement, MintedTokenExpires = expires, PubDryRun = PrDryRun req\<rparr>)))))"

subsection \<open>What a run does to the world\<close>





definition sample_publish_target :: PublishTarget where
  "sample_publish_target = \<lparr>PtDistribution = ''d'', PtVersion = ''1'', SdistPath = ''d.tar.gz'', SdistSHA256 = ''h'', SdistSize = 1,
     WheelPath = ''d.whl'', WheelSHA256 = ''k'', WheelSize = 1\<rparr>"

definition sample_request :: PublishRequest where
  "sample_request = \<lparr>PrRegistry = RegistryTestPyPI, PrTargets = [sample_publish_target, sample_publish_target\<lparr>PtDistribution := ''e''\<rparr>],
     PrDryRun = False, PrProvider = Some (StaticProvider_Token ''oidc''),
     PrUploader = Some (Custom (\<lambda>c. if PtDistribution (UcTarget c) = ''d'' then RecordingUploader_Upload c else Inl ''refused'')), PrBuilder = []\<rparr>"

definition sample_world :: world where
  "sample_world = \<lparr>Post = (\<lambda>_ _. Inr (200, [])), encode_token = Inr, decode_mint = (\<lambda>_. Inr (True, ''token'', [])),
     expiry = (\<lambda>_. None), encode_statement = (\<lambda>_. Inr ''st''), sort_subjects = sort_stable subject_less, Now = ''now'',
     Tool = (\<lambda>_ _ _. ([], None))\<rparr>"



subsection \<open>What is published passes the install gate\<close>

lemma check_publish_targets_None:
  "check_publish_targets i ts = None \<Longrightarrow> t \<in> set ts \<Longrightarrow>
     PtDistribution t \<noteq> [] \<and> SdistSHA256 t \<noteq> [] \<and> WheelSHA256 t \<noteq> []"
  by (induction i ts rule: check_publish_targets.induct) (auto split: if_splits)

lemma find_distinct: "distinct (map f xs) \<Longrightarrow> x \<in> set xs \<Longrightarrow> find (\<lambda>y. f y = f x) xs = Some x"
  by (induction xs) force+

lemma check_subjects_None:
  "\<forall>s\<in>set ss. SubName s \<noteq> [] \<and> get (SubDigest s) ''sha256'' \<noteq> [] \<Longrightarrow> check_subjects ip i ss = None"
  by (induction ss arbitrary: i) auto

lemma target_subject_ok:
  "s \<in> set (target_subjects t) \<Longrightarrow> SdistSHA256 t \<noteq> [] \<Longrightarrow> WheelSHA256 t \<noteq> [] \<Longrightarrow> SubName s \<noteq> [] \<and> get (SubDigest s) ''sha256'' \<noteq> []"
  by (auto simp: target_subjects_def distFilename_def get_def)

text \<open>The policy that requires attestations by the builder of the request.\<close>

definition publisher_policy :: "PublishRequest \<Rightarrow> Policy" where
  "publisher_policy req = DefaultPolicy\<lparr>PRequired := True,
     AllowedBuilders := [if PrBuilder req = [] then AttestationBuilderID else PrBuilder req]\<rparr>"

definition wheel_name :: "PublishTarget \<Rightarrow> bytes" where
  "wheel_name t = distFilename (PtDistribution t) (PtVersion t) ''wheel''"

text \<open>
  C0. Publishing and installing fit together: when the decoder of the gate inverts the encoder of
  the publisher and the subjects of the statement have distinct names, any bundle that carries the
  attestation of a successful run is accepted for a published wheel, under the policy that requires
  attestations by the run's builder, exactly when the wheel has the digest the run was given.
\<close>

theorem Published_attested:
  assumes srt: "slice_sort subject_less (sort_subjects w)"
    and run: "Publish w req = (log, Inr res)" and t: "t \<in> set (PrTargets req)"
    and names: "distinct (map SubName (concat (map target_subjects (PrTargets req))))"
    and json: "\<And>st raw. encode_statement w st = Inr raw \<Longrightarrow> unmarshal_statement dec raw = Inr st"
    and carried: "MediaType b = BundleMediaTypeV2" "PayloadType (DsseEnvelope b) = DSSEPayloadTypeInTotoJSON"
      "base64_decode dec (Payload (DsseEnvelope b)) = Inr (PubAttestation res)"
    and target: "WFilename target = wheel_name t"
  shows "attests dec (publisher_policy req) target b \<longleftrightarrow> WSHA256 target = WheelSHA256 t"
proof -
  let ?subs = "concat (map target_subjects (PrTargets req))"
  let ?st = "request_statement w req"
  have valid: "check_publish_targets 0 (PrTargets req) = None" "PrTargets req \<noteq> []"
    using run by (auto simp: Publish_def PublishRequest_Validate_def split: option.splits RegistryKind.splits if_splits)
  have enc: "encode_statement w ?st = Inr (PubAttestation res)"
    using run by (auto simp: Publish_def split: option.splits sum.splits prod.splits)
  have subs: "StSubject ?st = sort_subjects w ?subs" by (simp add: request_statement_def BuildStatement_def)
  have mset: "mset (sort_subjects w ?subs) = mset ?subs" using srt by (simp add: slice_sort_def slice_sort_axioms_def)
  then have set: "set (sort_subjects w ?subs) = set ?subs" by (metis set_mset_mset)
  have dist: "distinct (map SubName (sort_subjects w ?subs))"
    using names mset by (metis mset_eq_imp_distinct_iff mset_map)
  have ok: "check_subjects ip i (StSubject ?st) = None" for ip i
    unfolding subs by (rule check_subjects_None) (use set check_publish_targets_None [OF valid(1)] target_subject_ok in auto)
  have "StSubject ?st \<noteq> []" using t set by (auto simp: subs target_subjects_def)
  then have st: "Bundle_Statement dec b = Inr ?st"
    using ok by (simp add: Bundle_Statement_def carried ParseStatement_def json [OF enc])
      (simp add: request_statement_def BuildStatement_def AttestationStatementType_def AttestationPredicateType_def)
  let ?sub = "\<lparr>SubName = wheel_name t, SubDigest = [(''sha256'', WheelSHA256 t)]\<rparr>"
  have "?sub \<in> set (sort_subjects w ?subs)" using t by (auto simp: set target_subjects_def wheel_name_def)
  from find_distinct [OF dist this] have find: "SubjectByName ?st (WFilename target) = Some ?sub"
    by (simp add: SubjectByName_def subs target)
  have "BuilderID ?st = (if PrBuilder req = [] then AttestationBuilderID else PrBuilder req)"
    by (simp add: BuilderID_def request_statement_def BuildStatement_def as_object_def)
  then show ?thesis
    by (simp add: attests_def publisher_policy_def DefaultPolicy_def carried st find want_predicate_def get_def)
      (auto simp: request_statement_def BuildStatement_def AttestationStatementType_def AttestationPredicateType_def
        StatementTypeV1_def PredicateTypeSLSAV1_def)
qed

definition gate_decoders :: "PublishRequest \<Rightarrow> world \<Rightarrow> Decoders" where
  "gate_decoders req w = \<lparr>unmarshal_bundle = (\<lambda>_. Inl []), unmarshal_statement = (\<lambda>_. Inr (request_statement w req)),
     base64_decode = Inr, is_print = (\<lambda>_. True)\<rparr>"

definition dry_request :: PublishRequest where
  "dry_request = sample_request\<lparr>PrDryRun := True, PrUploader := None\<rparr>"

definition dry_world :: world where
  "dry_world = sample_world\<lparr>encode_statement := (\<lambda>st. if st = request_statement sample_world dry_request then Inr ''st'' else Inl [])\<rparr>"

lemma Published_attested_witness:
  "attests (gate_decoders dry_request sample_world) (publisher_policy dry_request)
     \<lparr>WURL = [], WFilename = ''d-1-py3-none-any.whl'', WDistribution = ''d'', WVersion = ''1'', WSHA256 = ''k''\<rparr>
     \<lparr>MediaType = BundleMediaTypeV2, DsseEnvelope = \<lparr>Payload = ''st'', PayloadType = DSSEPayloadTypeInTotoJSON, Signatures = []\<rparr>,
       Certificates = [], TLogEntries = []\<rparr>"
proof -
  have srt: "slice_sort subject_less (sort_subjects dry_world)"
    using subjects.stable.slice_sort_axioms by (simp add: dry_world_def sample_world_def)
  have st: "request_statement dry_world dry_request = request_statement sample_world dry_request"
    by (simp add: request_statement_def dry_world_def sample_world_def)
  have enc: "encode_statement dry_world (request_statement dry_world dry_request) = Inr ''st''"
    unfolding st by (simp add: dry_world_def)
  have valid: "PublishRequest_Validate dry_request = None"
    by (simp add: dry_request_def sample_request_def sample_publish_target_def PublishRequest_Validate_def suffix_to_prefix)
  have tok: "get_token dry_world dry_request = ([], Inr ([], []))"
    by (simp add: dry_request_def get_token_def)
  obtain ups arts where up: "upload_loop (Tool dry_world) (uploader_of dry_request) (upload_call dry_request [] ''st'')
      (PrTargets dry_request) = (ups, Inr arts)"
    by (simp add: dry_request_def sample_request_def uploader_of_def Upload_def RecordingUploader_Upload_def)
  have "\<exists>log res. Publish dry_world dry_request = (log, Inr res) \<and> PubAttestation res = ''st''"
    unfolding Publish_def valid enc tok by (simp add: up)
  then obtain log res where run: "Publish dry_world dry_request = (log, Inr res)" "PubAttestation res = ''st''" by blast
  have t: "sample_publish_target \<in> set (PrTargets dry_request)" by (simp add: dry_request_def sample_request_def)
  have names: "distinct (map SubName (concat (map target_subjects (PrTargets dry_request))))"
    by (simp add: dry_request_def sample_request_def sample_publish_target_def target_subjects_def distFilename_def)
  show ?thesis
    by (subst Published_attested [OF srt run(1) t names])
      (simp_all add: dry_world_def gate_decoders_def run(2) wheel_name_def distFilename_def sample_publish_target_def split: if_splits)
qed

text \<open>
  Two promises of the comments the code does not keep: the default uploader never hands on the
  attestation, a dry run mints nothing.
\<close>

lemma uploader_drops_attestation:
  "UVUploader_Upload run u (c\<lparr>AttestationJSON := a\<rparr>) = UVUploader_Upload run u c"
  by (simp add: UVUploader_Upload_def project_url_def Let_def split: prod.split option.split)

lemma dry_run_mints_nothing:
  "PrDryRun req \<Longrightarrow> get_token w req = ([], Inr ([], []))"
  by (simp add: get_token_def)

end
