(* ===== verification/Spec2Isabelle.thy ===== *)
theory Spec2Isabelle
  imports Semver_Version Semver_Specifier Abi2026 Abi3 Freethread Pyodide
    Typemap_PyType Typemap_MochiType Typemap_Mapper Typemap_Class
    Stubs_Scan Stub_Types Importspec Toml Lockfile Wrapper Emit Lockfile_Diff Lockfile_Capabilities
    Attest Subproc_Client Build_Files From_Build Datalog Py_Reader Lower_Blocks Uv_Pylock Pypackage_Read Pypackage_Stub Publish
begin

text \<open>
  The Mochi-Python bridge, in both directions.

  \<^bold>\<open>Python packages in Mochi programs.\<close>  An \<open>import python "..."\<close> is parsed (\<open>importspec\<close>), its
  package's stub file is parsed into a surface (\<open>stubs\<close>), each declaration of the surface is mapped to a
  Mochi type by a closed table or refused with a report (\<open>typemap\<close>, \<open>errors\<close>), the mapped ones are
  wrapped by a generated Python module and its stub (\<open>wrapper\<close>) and declared to Mochi by a generated shim
  (\<open>emit\<close>).  \<open>build\<close> plans this for all imports of a program and writes a workspace; \<open>lockfile\<close> records
  it as TOML and compares it with a later plan; \<open>toml\<close> is the reader of all these files.  Wheels are
  chosen by tag (\<open>semver\<close>, \<open>abi2026\<close>, \<open>abi3\<close>, \<open>freethread\<close>, \<open>pyodide\<close>), resolved files are read from
  \<open>uv.lock\<close> and rewritten as \<open>pylock.toml\<close> (\<open>uv\<close>), attestations are checked before an install (\<open>attest\<close>),
  and packages with native threads run in a worker process behind JSON-RPC (\<open>subproc\<close>).
  \<^bold>\<open>Mochi programs as Python packages.\<close>  The intermediate tree of a program is lowered to a Python tree and
  printed (\<open>transpiler3/python/lower\<close>, \<open>pysrc\<close>); \<open>pypackage\<close> lays it out as a wheel or a source
  distribution and \<open>publish\<close> uploads it with a statement about its files.

  \<^bold>\<open>Theories and sources.\<close>
  \<^item> \<open>Prelude\<close>, \<open>Go_Strings\<close>, \<open>Go_Sort\<close>, \<open>Go_Path\<close>, \<open>Go_Os\<close>: what the sources use of Go's library.  A
    string is a list of bytes; runes are decoded as \<open>utf8.DecodeRune\<close> does; a fallible function returns a
    sum, \<open>Inl\<close> the error; a panic is \<open>None\<close>; sorting is a stable sort, or any function that meets the
    contract of \<open>sort.Slice\<close>; file operations are logged and succeed or fail as a parameter says.
  \<^item> \<open>Bridge_Errors\<close>: \<open>errors\<close>.
  \<^item> \<open>Semver_Version\<close>, \<open>Semver_Specifier\<close>: \<open>semver\<close>.  The order of versions is that of a PEP 440 key,
    parsing and printing are inverse, and ordering clauses match an interval.
  \<^item> \<open>Wheel_Select\<close> (the shared shape of two selectors), \<open>Abi2026\<close>, \<open>Abi3\<close>, \<open>Freethread\<close>, \<open>Pyodide\<close>: tags,
    policies, selectors and audits.  A best candidate is selected, all others have a reason, and the order
    of the input does not matter.
  \<^item> \<open>Typemap_PyType\<close>, \<open>Typemap_MochiType\<close>, \<open>Typemap_Mapper\<close>, \<open>Typemap_Class\<close>: \<open>typemap\<close>.  Type expressions
    print and parse back; the mapper stays in the closed table and is monotone in the classes in scope;
    the members of a class are mapped or filed, one by one.
  \<^item> \<open>Stubs_Decl\<close>, \<open>Stubs_Pyi\<close>, \<open>Stubs_Scan\<close>: \<open>stubs/pyi.go\<close>.  A printed declaration parses back.
  \<^item> \<open>Wrapper\<close>, \<open>Wrapper_Runtime\<close>, \<open>Emit\<close>, \<open>Stub_Types\<close>: \<open>wrapper\<close> and \<open>emit\<close>.  Every declaration becomes an
    item or a report, renderers do not panic, the shim declares every item, and the stub of a synchronous
    function reads back as its declaration.
  \<^item> \<open>Importspec\<close>: \<open>importspec\<close>, with its round trip.
  \<^item> \<open>Venv\<close>, \<open>Orchestrator\<close>, \<open>Build_Files\<close>: \<open>build\<close>.  A plan yields a valid workspace, a build does a prefix of
    its operations, and no file is written twice.
  \<^item> \<open>Toml\<close>, \<open>Toml_Lines\<close>: \<open>toml\<close>.  The reader always answers and accepted documents have distinct keys;
    the lines that the bridge's writers write are read as what was meant (locale \<open>cursor\<close>).
  \<^item> \<open>Lockfile\<close>, \<open>Lockfile_Diff\<close>, \<open>Lockfile_Capabilities\<close>, \<open>From_Build\<close>: \<open>lockfile\<close>.  Rendering is
    deterministic, reads back, and the chain from a plan to the drift check keeps the lock.
  \<^item> \<open>Uv_Lock\<close>, \<open>Uv_Pylock\<close>: \<open>uv\<close>.  A rendered \<open>pylock.toml\<close> reads back in canonical form.
  \<^item> \<open>Attest\<close>: \<open>attest\<close>.  The verifier accepts exactly what the policy lets through.
  \<^item> \<open>Subproc_Wire\<close>, \<open>Subproc_Rpc\<close>, \<open>Subproc_Client\<close>: \<open>subproc\<close>.  The byte server refines a server of
    messages; concurrent calls are a step relation, in which every answer belongs to its call.
  \<^item> \<open>Aotir\<close> (the nodes of \<open>transpiler3/c/aotir\<close> the lowerer reads), \<open>Datalog\<close>, \<open>Lower\<close>, \<open>Lower_Sound\<close>,
    \<open>Lower_Names\<close>, \<open>Lower_Blocks\<close>: \<open>transpiler3/python/lower\<close>.  The lowerer threads the flags of its imports
    through the combinators \<open>ret\<close>, \<open>fail\<close>, \<open>lift1\<close>, \<open>needing\<close> and \<open>within\<close>.  It accepts exactly the
    supported programs, binds every name it uses, and Datalog queries are answered by the least model.
  \<^item> \<open>Py_Source\<close>, \<open>Py_Outline\<close>, \<open>Py_Reader\<close>: \<open>transpiler3/python/pysrc\<close>.  Printed modules have the blocks of
    their tree by Python's indentation, and printed expressions read back.
  \<^item> \<open>Pypackage\<close>, \<open>Pypackage_Read\<close>, \<open>Pypackage_Stub\<close>: \<open>pypackage\<close>.  The \<open>RECORD\<close> of a wheel lists its files, the
    project file reads back, and a stub imports the typing names it uses.
  \<^item> \<open>Publish\<close>: \<open>publish\<close>.  What a run uploads, and that the gate of \<open>Attest\<close> accepts it.

  \<^bold>\<open>Interfaces.\<close>  The laws a component needs of another are locales, each interpreted on the model's own
  definitions: \<open>three_way\<close> and \<open>three_way_pair\<close> (comparison functions; the version order and its cascade),
  \<open>sort_less\<close> and \<open>slice_sort\<close> (\<open>less\<close> functions and the contract of a sort; the orders of items, reports,
  entries, members, subjects, libraries and guards), \<open>wheel_selector\<close> (two selectors), \<open>type_table\<close>
  (the mapper, for the class mapper), \<open>cursor\<close> (places in a TOML document) and \<open>expr_property\<close> (a property
  of Python expressions kept by the lowerer's constructors; block structure and readability).

  \<^bold>\<open>Recursion and fuel.\<close>  Loops that follow their data are structural or have a measure.  The parser of type
  expressions runs with four times the length of the text plus four, that of TOML values with twice the
  length plus one, the reader of Python expressions with the length of the text; none is ever exhausted
  (\<open>ParsePyType_fuel\<close>, \<open>Parse_total\<close>, \<open>read_back\<close>).  The Datalog loop is a partial
  function, and \<open>datalogEval_terminates\<close> shows that it always ends.

  \<^bold>\<open>Parameters.\<close>  Code that is not in the repository is an argument: \<open>unicode.IsPrint\<close> and the letter and
  digit classes, \<open>strconv.FormatFloat\<close> and the acceptance of floats, SHA-256 and base 64, the decoders and
  encoders of JSON (laws: \<open>json_laws\<close>), \<open>strings.ToLower\<close> (law: \<open>lower_law\<close>), \<open>url.Parse\<close>, the reader of
  native link tables and of slot markers, the fetcher of attestations, the uv tool, the registry, the
  identity provider and the clock.

  \<^bold>\<open>Not modelled.\<close>  Line and column numbers of TOML errors; the vendored Mochi compiler and the parts of its
  IR that only the C backend reads; the HTTP client of the package index; the discovery of stub files; the
  file and process driver of the transpiler; and three text templates (async bridge, WIT, worker).
\<close>

end
